(* ===== verification/JsPrelude.thy ===== *)
theory JsPrelude
  imports Complex_Main "HOL-Library.AList"
begin

section \<open>JavaScript values, strings and numbers\<close>

text \<open>
  The shared prelude of the development: the part of ECMAScript that the worker's TypeScript
  uses on untyped input. Strings are lists of UTF-16 code units below 256 (the Latin-1 range of
  a JavaScript string), so \<open>length\<close>, \<open>slice\<close> and \<open>charCodeAt\<close> mean what they mean in the
  source. Finite numbers are exact rationals: rounding to binary64 is left out, the range
  overflow to Infinity is kept, negative zero is zero. Objects are association lists of their
  own enumerable properties in enumeration order; \<open>AList.update\<close> and \<open>AList.delete\<close> are
  property assignment and \<open>delete\<close>, which keep that order the way JavaScript does.
\<close>

named_theorems js_str \<open>string operations of the model, for unfolding on concrete strings\<close>
named_theorems js_num \<open>numeric conversions of the model, for unfolding on concrete values\<close>

subsection \<open>Numbers\<close>

datatype jsnum = NaN | PosInf | NegInf | Fin rat

datatype jsval =
    Undef
  | Null
  | Bool bool
  | Num jsnum
  | Str string
  | Arr "jsval list"
  | Obj "(string \<times> jsval) list"

type_synonym jsobj = "(string \<times> jsval) list"

definition rat_is_int :: "rat \<Rightarrow> bool" where
  "rat_is_int q \<longleftrightarrow> of_int \<lfloor>q\<rfloor> = q"

fun js_isFinite :: "jsnum \<Rightarrow> bool" where
  "js_isFinite (Fin _) = True"
| "js_isFinite _ = False"

fun js_isInteger :: "jsnum \<Rightarrow> bool" where
  "js_isInteger (Fin q) = rat_is_int q"
| "js_isInteger _ = False"

text \<open>\<open>Number.MAX_SAFE_INTEGER\<close>.\<close>

abbreviation MAX_SAFE_INTEGER :: int where
  "MAX_SAFE_INTEGER \<equiv> 9007199254740991"

fun js_isSafeInteger :: "jsnum \<Rightarrow> bool" where
  "js_isSafeInteger (Fin q) = (rat_is_int q \<and> \<bar>q\<bar> \<le> of_int MAX_SAFE_INTEGER)"
| "js_isSafeInteger _ = False"

text \<open>Relational operators: every comparison with NaN is false.\<close>

fun js_lt :: "jsnum \<Rightarrow> jsnum \<Rightarrow> bool" where
  "js_lt (Fin a) (Fin b) = (a < b)"
| "js_lt (Fin _) PosInf = True"
| "js_lt NegInf (Fin _) = True"
| "js_lt NegInf PosInf = True"
| "js_lt _ _ = False"

fun js_le :: "jsnum \<Rightarrow> jsnum \<Rightarrow> bool" where
  "js_le (Fin a) (Fin b) = (a \<le> b)"
| "js_le (Fin _) PosInf = True"
| "js_le NegInf (Fin _) = True"
| "js_le NegInf PosInf = True"
| "js_le PosInf PosInf = True"
| "js_le NegInf NegInf = True"
| "js_le _ _ = False"

text \<open>The integer of a number the code has tested with \<open>Number.isInteger\<close>.\<close>

fun js_int :: "jsnum \<Rightarrow> int" where
  "js_int (Fin q) = \<lfloor>q\<rfloor>"
| "js_int _ = 0"

abbreviation FinI :: "int \<Rightarrow> jsnum" where
  "FinI i \<equiv> Fin (of_int i)"

lemma rat_is_int_of_int [simp]: "rat_is_int (of_int i)"
  by (simp add: rat_is_int_def)

lemma rat_is_int_numeral [simp]: "rat_is_int (numeral n)" "rat_is_int 0" "rat_is_int 1"
    "rat_is_int (- numeral n)" "rat_is_int (- 1)"
  using rat_is_int_of_int [of "numeral n"] rat_is_int_of_int [of 0] rat_is_int_of_int [of 1]
    rat_is_int_of_int [of "- numeral n"] rat_is_int_of_int [of "- 1"]
  by simp_all

lemma rat_is_int_of_nat [simp]: "rat_is_int (of_nat n)"
  by (simp add: rat_is_int_def)

lemma rat_is_int_plus [simp]: "rat_is_int a \<Longrightarrow> rat_is_int b \<Longrightarrow> rat_is_int (a + b)"
  by (simp add: rat_is_int_def) (metis floor_of_int of_int_add)

lemma js_isInteger_int: "js_isInteger x \<Longrightarrow> x = FinI (js_int x)"
  by (cases x) (auto simp: rat_is_int_def)

lemma js_isIntegerE:
  assumes "js_isInteger x"
  obtains i where "x = FinI i"
  using js_isInteger_int [OF assms] by blast

lemma js_isInteger_isFinite: "js_isInteger x \<Longrightarrow> js_isFinite x"
  by (cases x) auto

subsection \<open>Characters and strings\<close>

definition cc :: "char \<Rightarrow> nat" where
  "cc c = of_char c"

definition is_digit :: "char \<Rightarrow> bool" where
  "is_digit c \<longleftrightarrow> 48 \<le> cc c \<and> cc c \<le> 57"

definition is_AZ :: "char \<Rightarrow> bool" where
  "is_AZ c \<longleftrightarrow> 65 \<le> cc c \<and> cc c \<le> 90"

definition is_az :: "char \<Rightarrow> bool" where
  "is_az c \<longleftrightarrow> 97 \<le> cc c \<and> cc c \<le> 122"

definition is_hex_lower :: "char \<Rightarrow> bool" where
  "is_hex_lower c \<longleftrightarrow> is_digit c \<or> (97 \<le> cc c \<and> cc c \<le> 102)"

definition is_hex_any :: "char \<Rightarrow> bool" where
  "is_hex_any c \<longleftrightarrow> is_hex_lower c \<or> (65 \<le> cc c \<and> cc c \<le> 70)"

text \<open>\<open>\s\<close> and the white space \<open>trim\<close> removes, on code units below 256.\<close>

definition is_ws :: "char \<Rightarrow> bool" where
  "is_ws c \<longleftrightarrow> (9 \<le> cc c \<and> cc c \<le> 13) \<or> cc c = 32 \<or> cc c = 160"

definition js_trim :: "string \<Rightarrow> string" where
  "js_trim s = rev (dropWhile is_ws (rev (dropWhile is_ws s)))"

definition lower_char :: "char \<Rightarrow> char" where
  "lower_char c = (if is_AZ c \<or> (192 \<le> cc c \<and> cc c \<le> 222 \<and> cc c \<noteq> 215)
                   then char_of (cc c + 32) else c)"

definition js_toLowerCase :: "string \<Rightarrow> string" where
  "js_toLowerCase s = map lower_char s"

text \<open>
  Sharp s upper-cases to two letters. The micro sign and y with diaeresis upper-case to code
  units above 255 and are left alone; no pattern of the modelled code accepts either form.
\<close>

definition upper_char :: "char \<Rightarrow> string" where
  "upper_char c = (if is_az c \<or> (224 \<le> cc c \<and> cc c \<le> 254 \<and> cc c \<noteq> 247)
                   then [char_of (cc c - 32)] else if cc c = 223 then ''SS'' else [c])"

definition js_toUpperCase :: "string \<Rightarrow> string" where
  "js_toUpperCase s = concat (map upper_char s)"

text \<open>\<open>split\<close> on the characters of a class; the result is never empty.\<close>

fun split_on :: "(char \<Rightarrow> bool) \<Rightarrow> string \<Rightarrow> string list" where
  "split_on P [] = [[]]"
| "split_on P (c # s) =
     (if P c then [] # split_on P s
      else (case split_on P s of [] \<Rightarrow> [[c]] | w # ws \<Rightarrow> (c # w) # ws))"

abbreviation js_split :: "char \<Rightarrow> string \<Rightarrow> string list" where
  "js_split c s \<equiv> split_on (\<lambda>x. x = c) s"

fun js_join :: "string \<Rightarrow> string list \<Rightarrow> string" where
  "js_join sep [] = []"
| "js_join sep [x] = x"
| "js_join sep (x # y # zs) = x @ sep @ js_join sep (y # zs)"

definition js_startsWith :: "string \<Rightarrow> string \<Rightarrow> bool" where
  "js_startsWith s p \<longleftrightarrow> take (length p) s = p"

definition js_endsWith :: "string \<Rightarrow> string \<Rightarrow> bool" where
  "js_endsWith s p \<longleftrightarrow> length p \<le> length s \<and> drop (length s - length p) s = p"

fun js_includes :: "string \<Rightarrow> string \<Rightarrow> bool" where
  "js_includes [] p = (p = [])"
| "js_includes (c # s) p = (take (length p) (c # s) = p \<or> js_includes s p)"

text \<open>\<open>replace(/^\[|\]$/g, '')\<close>: one bracket at each end.\<close>

definition strip_brackets :: "string \<Rightarrow> string" where
  "strip_brackets s =
     (let t = (case s of c # r \<Rightarrow> if c = CHR ''['' then r else s | [] \<Rightarrow> [])
      in if t \<noteq> [] \<and> last t = CHR '']'' then butlast t else t)"

text \<open>First occurrences, in order: the members of a \<open>Set\<close> built from a list.\<close>

fun js_uniq :: "'a list \<Rightarrow> 'a list" where
  "js_uniq [] = []"
| "js_uniq (x # xs) = x # filter (\<lambda>y. y \<noteq> x) (js_uniq xs)"

lemmas js_char_defs [js_str] =
  cc_def is_digit_def is_AZ_def is_az_def is_hex_lower_def is_hex_any_def is_ws_def

lemmas js_string_defs [js_str] =
  js_trim_def js_toLowerCase_def js_toUpperCase_def lower_char_def upper_char_def
  js_startsWith_def js_endsWith_def strip_brackets_def

subsection \<open>Strings and numbers\<close>

fun nat_to_str :: "nat \<Rightarrow> string" where
  "nat_to_str n = (if n < 10 then [char_of (48 + n)]
                   else nat_to_str (n div 10) @ [char_of (48 + n mod 10)])"

declare nat_to_str.simps [simp del]

definition int_to_str :: "int \<Rightarrow> string" where
  "int_to_str i = (if i < 0 then CHR ''-'' # nat_to_str (nat (- i)) else nat_to_str (nat i))"

definition digits_val :: "nat \<Rightarrow> string \<Rightarrow> nat" where
  "digits_val b ds = foldl (\<lambda>a c. b * a + (cc c - 48)) 0 ds"

definition hex_digit_val :: "char \<Rightarrow> nat" where
  "hex_digit_val c = (if is_digit c then cc c - 48
                      else if 97 \<le> cc c \<and> cc c \<le> 102 then cc c - 87 else cc c - 55)"

definition hex_val :: "string \<Rightarrow> nat" where
  "hex_val ds = foldl (\<lambda>a c. 16 * a + hex_digit_val c) 0 ds"

text \<open>
  Numbers at or beyond the binary64 range are infinite. The first test is implied by the other
  two; it keeps evaluation away from the large bounds.
\<close>

definition mk_num :: "rat \<Rightarrow> jsnum" where
  "mk_num q = (if \<bar>q\<bar> \<le> 1000000000000000 then Fin q
               else if q \<ge> 2 ^ 1024 - 2 ^ 970 then PosInf
               else if q \<le> - (2 ^ 1024 - 2 ^ 970) then NegInf else Fin q)"

text \<open>An exponent part: \<open>Some 0\<close> for none at all, \<open>None\<close> for a malformed one.\<close>

definition parse_exponent :: "string \<Rightarrow> int option" where
  "parse_exponent s = (case s of
       [] \<Rightarrow> Some 0
     | c # r \<Rightarrow>
         if c = CHR ''e'' \<or> c = CHR ''E'' then
           (let neg = (case r of d # _ \<Rightarrow> d = CHR ''-'' | [] \<Rightarrow> False);
                ds = (case r of d # t \<Rightarrow> if d = CHR ''-'' \<or> d = CHR ''+'' then t else r | [] \<Rightarrow> [])
            in if ds \<noteq> [] \<and> list_all is_digit ds
               then Some (if neg then - int (digits_val 10 ds) else int (digits_val 10 ds))
               else None)
         else None)"

definition pow10 :: "int \<Rightarrow> rat" where
  "pow10 e = (if e \<ge> 0 then 10 ^ nat e else 1 / 10 ^ nat (- e))"

text \<open>An unsigned decimal literal.\<close>

definition parse_decimal :: "string \<Rightarrow> rat option" where
  "parse_decimal s =
     (let ip = takeWhile is_digit s; r = dropWhile is_digit s;
          fp = (case r of c # t \<Rightarrow> if c = CHR ''.'' then takeWhile is_digit t else [] | [] \<Rightarrow> []);
          r' = (case r of c # t \<Rightarrow> if c = CHR ''.'' then dropWhile is_digit t else r | [] \<Rightarrow> [])
      in if ip = [] \<and> fp = [] then None
         else (case parse_exponent r' of
             None \<Rightarrow> None
           | Some e \<Rightarrow> Some (of_nat (digits_val 10 (ip @ fp)) * pow10 (e - int (length fp)))))"

text \<open>\<open>Number(s)\<close> for a string.\<close>

definition str_to_num :: "string \<Rightarrow> jsnum" where
  "str_to_num s0 =
     (let s = js_trim s0 in
      if s = [] then Fin 0
      else if js_startsWith s ''0x'' \<or> js_startsWith s ''0X'' then
        (if drop 2 s \<noteq> [] \<and> list_all is_hex_any (drop 2 s)
         then mk_num (of_nat (hex_val (drop 2 s))) else NaN)
      else if js_startsWith s ''0b'' \<or> js_startsWith s ''0B'' then
        (if drop 2 s \<noteq> [] \<and> list_all (\<lambda>c. c = CHR ''0'' \<or> c = CHR ''1'') (drop 2 s)
         then mk_num (of_nat (digits_val 2 (drop 2 s))) else NaN)
      else if js_startsWith s ''0o'' \<or> js_startsWith s ''0O'' then
        (if drop 2 s \<noteq> [] \<and> list_all (\<lambda>c. 48 \<le> cc c \<and> cc c \<le> 55) (drop 2 s)
         then mk_num (of_nat (digits_val 8 (drop 2 s))) else NaN)
      else
        (let neg = (hd s = CHR ''-'');
             u = (if hd s = CHR ''-'' \<or> hd s = CHR ''+'' then tl s else s)
         in if u = ''Infinity'' then (if neg then NegInf else PosInf)
            else (case parse_decimal u of
                None \<Rightarrow> NaN
              | Some q \<Rightarrow> mk_num (if neg then - q else q))))"

text \<open>
  \<open>String(x)\<close> for a finite number whose decimal expansion ends: the digits of \<open>x\<close> without
  trailing zeros, laid out as \<open>Number::toString\<close> lays them out. \<open>decimal_scale\<close> finds the
  number of decimals; 400 positions are more than any binary64 literal the code prints has.
\<close>

fun decimal_scale :: "nat \<Rightarrow> rat \<Rightarrow> nat" where
  "decimal_scale 0 q = 0"
| "decimal_scale (Suc f) q = (if rat_is_int q then 0 else Suc (decimal_scale f (10 * q)))"

definition strip_zeros :: "string \<Rightarrow> string" where
  "strip_zeros s = rev (dropWhile (\<lambda>c. c = CHR ''0'') (rev s))"

definition pos_to_str :: "rat \<Rightarrow> string" where
  "pos_to_str q =
     (let d = decimal_scale 400 q; m = nat \<lfloor>q * 10 ^ d\<rfloor>; ms = nat_to_str m; s = strip_zeros ms;
          k = int (length s); n = int (length ms) - int d
      in if k \<le> n \<and> n \<le> 21 then s @ replicate (nat (n - k)) CHR ''0''
         else if 0 < n \<and> n \<le> 21 then take (nat n) s @ ''.'' @ drop (nat n) s
         else if -6 < n \<and> n \<le> 0 then ''0.'' @ replicate (nat (- n)) CHR ''0'' @ s
         else take 1 s @ (if k = 1 then [] else ''.'' @ drop 1 s) @ ''e''
              @ (if n - 1 < 0 then ''-'' else ''+'') @ nat_to_str (nat \<bar>n - 1\<bar>))"

fun num_to_str :: "jsnum \<Rightarrow> string" where
  "num_to_str NaN = ''NaN''"
| "num_to_str PosInf = ''Infinity''"
| "num_to_str NegInf = ''-Infinity''"
| "num_to_str (Fin q) =
     (if rat_is_int q \<and> \<bar>q\<bar> < 10 ^ 21 then int_to_str \<lfloor>q\<rfloor>
      else if q < 0 then CHR ''-'' # pos_to_str (- q) else pos_to_str q)"

subsection \<open>Conversions of values\<close>

fun js_truthy :: "jsval \<Rightarrow> bool" where
  "js_truthy Undef = False"
| "js_truthy Null = False"
| "js_truthy (Bool b) = b"
| "js_truthy (Num x) = (x \<noteq> NaN \<and> x \<noteq> Fin 0)"
| "js_truthy (Str s) = (s \<noteq> [])"
| "js_truthy (Arr _) = True"
| "js_truthy (Obj _) = True"

fun js_String :: "jsval \<Rightarrow> string" where
  "js_String Undef = ''undefined''"
| "js_String Null = ''null''"
| "js_String (Bool b) = (if b then ''true'' else ''false'')"
| "js_String (Num x) = num_to_str x"
| "js_String (Str s) = s"
| "js_String (Arr xs) =
     js_join '','' (map (\<lambda>x. if x = Undef \<or> x = Null then [] else js_String x) xs)"
| "js_String (Obj _) = ''[object Object]''"

fun js_Number :: "jsval \<Rightarrow> jsnum" where
  "js_Number Undef = NaN"
| "js_Number Null = Fin 0"
| "js_Number (Bool b) = Fin (if b then 1 else 0)"
| "js_Number (Num x) = x"
| "js_Number (Str s) = str_to_num s"
| "js_Number (Arr xs) = str_to_num (js_String (Arr xs))"
| "js_Number (Obj _) = NaN"

text \<open>\<open>a ?? b\<close> and \<open>a || b\<close>.\<close>

definition js_nullish :: "jsval \<Rightarrow> jsval \<Rightarrow> jsval" where
  "js_nullish a b = (if a = Undef \<or> a = Null then b else a)"

definition js_or :: "jsval \<Rightarrow> jsval \<Rightarrow> jsval" where
  "js_or a b = (if js_truthy a then a else b)"

text \<open>Reading a property of an object: absent properties are \<open>undefined\<close>.\<close>

definition js_get :: "jsobj \<Rightarrow> string \<Rightarrow> jsval" where
  "js_get o1 k = (case map_of o1 k of None \<Rightarrow> Undef | Some v \<Rightarrow> v)"

text \<open>\<open>asObject\<close> of the utilities: a plain object, or the empty object.\<close>

fun asObject :: "jsval \<Rightarrow> jsobj" where
  "asObject (Obj kvs) = kvs"
| "asObject _ = []"

fun isObject :: "jsval \<Rightarrow> bool" where
  "isObject (Obj _) = True"
| "isObject _ = False"

lemmas js_conv_defs [js_num] =
  js_nullish_def js_or_def js_get_def

subsection \<open>Lemmas on strings\<close>

lemma cc_less [simp]: "cc c < 256"
  by (simp add: cc_def)

lemma cc_char_of [simp]: "n < 256 \<Longrightarrow> cc (char_of n) = n"
  by (simp add: cc_def)

lemma char_of_cc [simp]: "char_of (cc c) = c"
  by (simp add: cc_def)

lemma cc_inject: "cc a = cc b \<longleftrightarrow> a = b"
  by (metis char_of_cc)

lemma char_of_digits [simp]:
  "char_of (48 :: nat) = CHR ''0''" "char_of (49 :: nat) = CHR ''1''" "char_of (50 :: nat) = CHR ''2''"
  "char_of (51 :: nat) = CHR ''3''" "char_of (52 :: nat) = CHR ''4''" "char_of (53 :: nat) = CHR ''5''"
  "char_of (54 :: nat) = CHR ''6''" "char_of (55 :: nat) = CHR ''7''" "char_of (56 :: nat) = CHR ''8''"
  "char_of (57 :: nat) = CHR ''9''"
  by (simp_all add: char_of_eq_iff)

lemma dropWhile_id: "(xs = [] \<or> \<not> P (hd xs)) \<Longrightarrow> dropWhile P xs = xs"
  by (cases xs) auto

lemma js_trim_id: "list_all (\<lambda>c. \<not> is_ws c) s \<Longrightarrow> js_trim s = s"
  unfolding js_trim_def list_all_iff
  by (metis dropWhile_id hd_in_set rev_is_Nil_conv rev_rev_ident set_rev)

lemma js_trim_length: "length (js_trim s) \<le> length s"
  unfolding js_trim_def
  by (metis length_dropWhile_le length_rev order_trans)

lemma js_trim_ends:
  assumes "js_trim s \<noteq> []"
  shows "\<not> is_ws (hd (js_trim s))" "\<not> is_ws (last (js_trim s))"
proof -
  let ?t = "dropWhile is_ws s"
  have l: "dropWhile is_ws (rev ?t) \<noteq> []" using assms unfolding js_trim_def by (metis rev.simps(1))
  then have ne: "?t \<noteq> []" by (metis dropWhile.simps(1) rev.simps(1))
  have "last (js_trim s) = hd (dropWhile is_ws (rev ?t))"
    using l by (simp add: js_trim_def last_rev)
  then show "\<not> is_ws (last (js_trim s))" using hd_dropWhile [OF l] by simp
  have "hd (js_trim s) = last (dropWhile is_ws (rev ?t))"
    using l by (simp add: js_trim_def hd_rev)
  also have "\<dots> = last (rev ?t)" using l by (metis last_appendR takeWhile_dropWhile_id)
  also have "\<dots> = hd ?t" using ne by (simp add: last_rev)
  finally show "\<not> is_ws (hd (js_trim s))" using hd_dropWhile [OF ne] by simp
qed

lemma js_trim_idem [simp]: "js_trim (js_trim s) = js_trim s"
proof (cases "js_trim s = []")
  case False
  note e = js_trim_ends [OF False]
  have "dropWhile is_ws (js_trim s) = js_trim s" using e by (intro dropWhile_id) simp
  moreover have "dropWhile is_ws (rev (js_trim s)) = rev (js_trim s)"
    using e False by (intro dropWhile_id) (simp add: hd_rev)
  ultimately show ?thesis by (simp add: js_trim_def [of "js_trim s"])
next
  case True
  then show ?thesis by (simp only: True) (simp add: js_trim_def)
qed

lemma split_on_ne [simp]: "split_on P s \<noteq> []"
  by (induction s) (auto split: list.splits)

lemma split_on_none: "list_all (\<lambda>c. \<not> P c) s \<Longrightarrow> split_on P s = [s]"
  by (induction s) auto

lemma split_on_append:
  "P c \<Longrightarrow> list_all (\<lambda>c. \<not> P c) s \<Longrightarrow> split_on P (s @ c # t) = s # split_on P t"
  by (induction s) auto

lemma split_on_parts: "w \<in> set (split_on P s) \<Longrightarrow> list_all (\<lambda>c. \<not> P c) w"
  by (induction s arbitrary: w) (fastforce split: if_splits list.splits)+

lemma split_on_length: "w \<in> set (split_on P s) \<Longrightarrow> length w \<le> length s"
  by (induction s arbitrary: w) (fastforce split: if_splits list.splits)+

lemma js_join_split: "js_join [c] (js_split c s) = s"
proof (induction s)
  case (Cons a s)
  obtain w ws where "js_split c s = w # ws" by (cases "js_split c s") auto
  with Cons show ?case by (cases ws) auto
qed simp

lemma set_js_uniq [simp]: "set (js_uniq xs) = set xs"
  by (induction xs) auto

lemma distinct_js_uniq [simp]: "distinct (js_uniq xs)"
  by (induction xs) auto

lemma js_uniq_id: "distinct xs \<Longrightarrow> js_uniq xs = xs"
  by (induction xs) (auto simp: filter_id_conv)

lemma length_js_uniq: "length (js_uniq xs) \<le> length xs"
  by (induction xs) (auto intro: le_trans [OF length_filter_le])

lemma lower_char_lower [simp]: "lower_char (lower_char c) = lower_char c"
proof (cases "is_AZ c \<or> (192 \<le> cc c \<and> cc c \<le> 222 \<and> cc c \<noteq> 215)")
  case True
  then have "cc (lower_char c) = cc c + 32" by (auto simp: lower_char_def is_AZ_def)
  then show ?thesis using True by (subst lower_char_def) (auto simp: is_AZ_def)
qed (auto simp: lower_char_def)

lemma js_toLowerCase_idem [simp]: "js_toLowerCase (js_toLowerCase s) = js_toLowerCase s"
  by (simp add: js_toLowerCase_def)

subsection \<open>Decimal digits round trip\<close>

lemma digits_val_snoc: "digits_val b (ds @ [c]) = b * digits_val b ds + (cc c - 48)"
  by (simp add: digits_val_def)

lemma nat_to_str_digits: "list_all is_digit (nat_to_str n)"
proof (induction n rule: nat_to_str.induct)
  case (1 n)
  have "n mod 10 < 10" by simp
  then have "is_digit (char_of (48 + n mod 10))" "n < 10 \<Longrightarrow> is_digit (char_of (48 + n))"
    by (simp_all add: is_digit_def)
  then show ?case using 1 by (subst nat_to_str.simps) simp
qed

lemma nat_to_str_ne [simp]: "nat_to_str n \<noteq> []"
  by (subst nat_to_str.simps) simp

lemma digits_val_nat_to_str [simp]: "digits_val 10 (nat_to_str n) = n"
proof (induction n rule: nat_to_str.induct)
  case (1 n)
  show ?case
  proof (cases "n < 10")
    case True
    then show ?thesis by (subst nat_to_str.simps) (simp add: digits_val_def)
  next
    case False
    have "48 + n mod 10 < 256" using mod_less_divisor [of 10 n] by linarith
    with False 1 show ?thesis
      by (subst nat_to_str.simps) (simp add: digits_val_snoc)
  qed
qed

lemma is_digit_not_ws: "is_digit c \<Longrightarrow> \<not> is_ws c"
  by (auto simp: is_digit_def is_ws_def)

lemma digits_parse_decimal:
  "ds \<noteq> [] \<Longrightarrow> list_all is_digit ds \<Longrightarrow> parse_decimal ds = Some (of_nat (digits_val 10 ds))"
proof -
  assume ne: "ds \<noteq> []" and "list_all is_digit ds"
  then have tw: "takeWhile is_digit ds = ds" and dw: "dropWhile is_digit ds = []"
    by (auto simp: list_all_iff takeWhile_eq_all_conv)
  show ?thesis using ne
    unfolding parse_decimal_def Let_def tw dw by (simp add: parse_exponent_def pow10_def)
qed

lemma is_digit_chars: "\<not> is_digit CHR ''x''" "\<not> is_digit CHR ''X''" "\<not> is_digit CHR ''b''"
    "\<not> is_digit CHR ''B''" "\<not> is_digit CHR ''o''" "\<not> is_digit CHR ''O''" "\<not> is_digit CHR ''-''"
    "\<not> is_digit CHR ''+''" "\<not> is_digit CHR ''I''"
  by (simp_all add: is_digit_def cc_def)

lemma digits_no_prefix:
  assumes "list_all is_digit s" "\<not> is_digit p"
  shows "\<not> js_startsWith s [CHR ''0'', p]"
  using assms by (cases s; cases "tl s") (auto simp: js_startsWith_def)

lemma str_to_num_digits:
  assumes "list_all is_digit s" "s \<noteq> []"
  shows "str_to_num s = mk_num (of_nat (digits_val 10 s))"
proof -
  have t: "js_trim s = s" using assms(1) by (intro js_trim_id) (auto simp: list_all_iff is_digit_not_ws)
  have h: "is_digit (hd s)" using assms by (cases s) auto
  then have "hd s \<noteq> CHR ''-''" "hd s \<noteq> CHR ''+''" "s \<noteq> ''Infinity''"
    using is_digit_chars by auto
  then show ?thesis
    using t assms digits_no_prefix [OF assms(1)] is_digit_chars
    by (simp add: str_to_num_def Let_def digits_parse_decimal)
qed

lemma str_to_num_neg_digits:
  assumes "list_all is_digit s" "s \<noteq> []"
  shows "str_to_num (CHR ''-'' # s) = mk_num (- of_nat (digits_val 10 s))"
proof -
  have ws: "\<not> is_ws CHR ''-''" by (simp add: is_ws_def cc_def)
  have t: "js_trim (CHR ''-'' # s) = CHR ''-'' # s"
    using assms(1) ws by (intro js_trim_id) (auto simp: list_all_iff is_digit_not_ws)
  have "s \<noteq> ''Infinity''" using assms is_digit_chars by auto
  then show ?thesis
    using t assms by (simp add: str_to_num_def Let_def digits_parse_decimal js_startsWith_def)
qed

lemma mk_num_small: "\<bar>q\<bar> < 2 ^ 970 \<Longrightarrow> mk_num q = Fin q"
proof -
  assume "\<bar>q\<bar> < 2 ^ 970"
  moreover have "(2::rat) ^ 970 \<le> 2 ^ 1024 - 2 ^ 970" by simp
  ultimately have "q < 2 ^ 1024 - 2 ^ 970" "- (2 ^ 1024 - 2 ^ 970) < q" by linarith+
  then show ?thesis by (simp add: mk_num_def)
qed

lemma str_to_num_int_to_str:
  assumes "\<bar>i\<bar> < 2 ^ 970"
  shows "str_to_num (int_to_str i) = FinI i"
proof -
  have q: "\<bar>rat_of_int i\<bar> < 2 ^ 970" using assms
    by (metis of_int_abs of_int_less_iff of_int_numeral of_int_power)
  show ?thesis
  proof (cases "i < 0")
    case True
    then have "- rat_of_nat (nat (- i)) = of_int i" by simp
    then show ?thesis using True q
      by (simp add: int_to_str_def str_to_num_neg_digits nat_to_str_digits mk_num_small)
  next
    case False
    then show ?thesis using q
      by (simp add: int_to_str_def str_to_num_digits nat_to_str_digits mk_num_small)
  qed
qed

lemma nat_to_str_length: "0 < k \<Longrightarrow> n < 10 ^ k \<Longrightarrow> length (nat_to_str n) \<le> k"
proof (induction n arbitrary: k rule: nat_to_str.induct)
  case (1 n)
  show ?case
  proof (cases "n < 10")
    case False
    then obtain j where k: "k = Suc j" "0 < j" using 1(2,3) by (cases k; cases "k - 1") auto
    have "n div 10 < 10 ^ j" using 1(3) k(1) by (simp add: div_less_iff_less_mult mult.commute)
    then have "length (nat_to_str (n div 10)) \<le> j" using 1(1) [OF False] k(2) by simp
    then show ?thesis using False k(1) by (subst nat_to_str.simps) simp
  qed (use 1(2) in \<open>subst nat_to_str.simps, simp\<close>)
qed

lemma nat_to_str_hd: "hd (nat_to_str n) = CHR ''0'' \<Longrightarrow> n = 0"
proof (induction n rule: nat_to_str.induct)
  case (1 n)
  show ?case
  proof (cases "n < 10")
    case True
    then have "char_of (48 + n) = CHR ''0''" using 1(2) by (simp add: nat_to_str.simps [of n])
    from arg_cong [OF this, of cc] True show ?thesis by (simp add: cc_def)
  next
    case False
    then have "n div 10 = 0" using 1 by (simp add: nat_to_str.simps [of n] hd_append)
    then show ?thesis using False by simp
  qed
qed

lemma nat_to_str_zero: "nat_to_str 0 = ''0''"
  by (simp add: nat_to_str.simps)

lemma digits_val_pos: "list_all is_digit p \<Longrightarrow> p \<noteq> [] \<Longrightarrow> hd p \<noteq> CHR ''0'' \<Longrightarrow> 0 < digits_val 10 p"
proof (induction p rule: rev_induct)
  case (snoc c q)
  show ?case
  proof (cases "q = []")
    case True
    then have "is_digit c" "c \<noteq> CHR ''0''" using snoc.prems by auto
    then have "cc c \<noteq> 48" using cc_inject [of c "CHR ''0''"] by (auto simp: cc_def)
    then show ?thesis using True \<open>is_digit c\<close> by (simp add: digits_val_def is_digit_def)
  next
    case False
    then show ?thesis using snoc by (simp add: digits_val_snoc hd_append)
  qed
qed simp

text \<open>A decimal numeral without leading zeros is the canonical one.\<close>

lemma nat_to_str_digits_val:
  assumes "list_all is_digit p" "p \<noteq> []" "hd p \<noteq> CHR ''0'' \<or> length p = 1"
  shows "nat_to_str (digits_val 10 p) = p"
  using assms
proof (induction p rule: rev_induct)
  case (snoc c q)
  then have "48 \<le> cc c" "cc c \<le> 57" by (auto simp: is_digit_def)
  then have "cc c - 48 < 10" "char_of (48 + (cc c - 48)) = c" by simp_all
  then obtain d where c: "d < 10" "cc c - 48 = d" and ch: "char_of (48 + d) = c" by blast
  show ?case
  proof (cases "q = []")
    case True
    then show ?thesis using c ch by (simp add: digits_val_def nat_to_str.simps)
  next
    case False
    then have q: "hd q \<noteq> CHR ''0''" "list_all is_digit q" using snoc.prems by (auto simp: hd_append)
    have "0 < digits_val 10 q" using digits_val_pos q False by blast
    then have "\<not> 10 * digits_val 10 q + d < 10" by simp
    then have "nat_to_str (10 * digits_val 10 q + d) = nat_to_str (digits_val 10 q) @ [c]"
      using c(1) ch by (subst nat_to_str.simps) simp
    then show ?thesis using snoc.IH q False c(2) by (simp add: digits_val_snoc)
  qed
qed simp

lemma split_join:
  "gs \<noteq> [] \<Longrightarrow> \<forall>g \<in> set gs. c \<notin> set g \<Longrightarrow> js_split c (js_join [c] gs) = gs"
proof (induction "[c]" gs rule: js_join.induct)
  case (2 x)
  then show ?case by (auto intro!: split_on_none simp: list_all_iff)
next
  case (3 x y zs)
  then have "js_split c (x @ c # js_join [c] (y # zs)) = x # js_split c (js_join [c] (y # zs))"
    by (intro split_on_append) (auto simp: list_all_iff)
  then show ?case using 3 by simp
qed simp

lemma js_get_Cons: "js_get ((k, v) # kvs) x = (if x = k then v else js_get kvs x)"
  by (simp add: js_get_def)

text \<open>A property of all entries of an object is kept by an assignment that has it.\<close>

lemma update_ok: "\<forall>x \<in> set hs. P x \<Longrightarrow> P (k, v) \<Longrightarrow> \<forall>x \<in> set (AList.update k v hs). P x"
  by (induction hs) (auto split: if_splits)

end
