(* ===== verification/DoStorage.thy ===== *)
theory DoStorage
  imports JsPrelude "HOL-Library.Char_ord" "HOL-Library.List_Lexorder"
begin

section \<open>Durable Object key-value storage\<close>

text \<open>
  The storage a Durable Object sees through \<open>state.storage\<close>: keys are strings and \<open>list\<close>
  enumerates the entries of a prefix in ascending key order. The store is the association list
  of its entries in that order. The locale states what the objects of the worker rely on, and
  its interpretation below discharges the laws for the association list.
\<close>

type_synonym 'v store = "(string \<times> 'v) list"

definition storage_get :: "'v store \<Rightarrow> string \<Rightarrow> 'v option" where
  "storage_get s k = map_of s k"

fun storage_put :: "string \<Rightarrow> 'v \<Rightarrow> 'v store \<Rightarrow> 'v store" where
  "storage_put k v [] = [(k, v)]"
| "storage_put k v ((k', v') # s) =
     (if k = k' then (k, v) # s
      else if k < k' then (k, v) # (k', v') # s
      else (k', v') # storage_put k v s)"

definition storage_delete :: "string \<Rightarrow> 'v store \<Rightarrow> 'v store" where
  "storage_delete k s = filter (\<lambda>(k', _). k' \<noteq> k) s"

definition storage_delete_all :: "string list \<Rightarrow> 'v store \<Rightarrow> 'v store" where
  "storage_delete_all ks s = fold storage_delete ks s"

definition storage_list :: "string \<Rightarrow> 'v store \<Rightarrow> 'v store" where
  "storage_list p s = filter (\<lambda>(k, _). js_startsWith k p) s"

definition store_ok :: "'v store \<Rightarrow> bool" where
  "store_ok s \<longleftrightarrow> sorted_wrt (<) (map fst s)"

subsection \<open>The contract\<close>

locale kv_store =
  fixes get :: "'s \<Rightarrow> string \<Rightarrow> 'v option"
    and put :: "string \<Rightarrow> 'v \<Rightarrow> 's \<Rightarrow> 's"
    and del :: "string \<Rightarrow> 's \<Rightarrow> 's"
    and entries :: "string \<Rightarrow> 's \<Rightarrow> (string \<times> 'v) list"
    and ok :: "'s \<Rightarrow> bool"
  assumes get_put: "ok s \<Longrightarrow> get (put k v s) j = (if j = k then Some v else get s j)"
    and get_del: "ok s \<Longrightarrow> get (del k s) j = (if j = k then None else get s j)"
    and ok_put: "ok s \<Longrightarrow> ok (put k v s)"
    and ok_del: "ok s \<Longrightarrow> ok (del k s)"
    and entries_get: "ok s \<Longrightarrow>
          (k, v) \<in> set (entries p s) \<longleftrightarrow> get s k = Some v \<and> js_startsWith k p"
    and entries_distinct: "ok s \<Longrightarrow> distinct (map fst (entries p s))"
begin

lemma ok_fold_del: "ok s \<Longrightarrow> ok (fold del ks s)"
  by (induction ks arbitrary: s) (auto simp: ok_del)

lemma get_fold_del: "ok s \<Longrightarrow> get (fold del ks s) j = (if j \<in> set ks then None else get s j)"
  by (induction ks arbitrary: s) (auto simp: ok_del get_del)

lemma entries_keys: "ok s \<Longrightarrow>
    k \<in> set (map fst (entries p s)) \<longleftrightarrow> get s k \<noteq> None \<and> js_startsWith k p"
  by (auto simp: image_iff Bex_def entries_get)

lemma entries_subset_length:
  assumes "ok s" "ok s'" "\<And>k v. get s' k = Some v \<Longrightarrow> get s k \<noteq> None"
  shows "length (entries p s') \<le> length (entries p s)"
proof -
  have "set (map fst (entries p s')) \<subseteq> set (map fst (entries p s))"
    using assms(3) by (auto simp only: subset_iff entries_keys [OF assms(1)] entries_keys [OF assms(2)])
  then have "card (set (map fst (entries p s'))) \<le> card (set (map fst (entries p s)))"
    by (intro card_mono) auto
  then show ?thesis
    using distinct_card [OF entries_distinct [OF assms(1)]] distinct_card [OF entries_distinct [OF assms(2)]]
    by (metis length_map)
qed

lemma entries_put_length:
  assumes "ok s"
  shows "length (entries p (put k v s)) \<le> Suc (length (entries p s))"
proof -
  have "set (map fst (entries p (put k v s))) \<subseteq> insert k (set (map fst (entries p s)))"
    by (auto simp only: subset_iff insert_iff entries_keys [OF ok_put [OF assms]]
        entries_keys [OF assms] get_put [OF assms] split: if_splits)
  then have "card (set (map fst (entries p (put k v s)))) \<le> card (insert k (set (map fst (entries p s))))"
    by (intro card_mono) auto
  also have "\<dots> \<le> Suc (card (set (map fst (entries p s))))" by (simp add: card_insert_if)
  finally show ?thesis
    using distinct_card [OF entries_distinct [OF ok_put [OF assms]]] distinct_card [OF entries_distinct [OF assms]]
    by (metis length_map)
qed

end

subsection \<open>The association list meets the contract\<close>

lemma store_ok_distinct: "store_ok s \<Longrightarrow> distinct (map fst s)"
  by (simp add: store_ok_def strict_sorted_iff)

lemma keys_storage_put: "set (map fst (storage_put k v s)) = insert k (set (map fst s))"
  by (induction k v s rule: storage_put.induct) auto

lemma storage_put_ok: "store_ok s \<Longrightarrow> store_ok (storage_put k v s)"
  unfolding store_ok_def
proof (induction s)
  case (Cons a s)
  obtain k' v' where a: "a = (k', v')" by (cases a)
  have "\<forall>x \<in> set (map fst (storage_put k v s)). k' < x" if "k' < k"
    using that Cons.prems a unfolding keys_storage_put by simp
  then show ?case using Cons a by (auto dest: order.strict_trans)
qed simp

lemma storage_get_put: "store_ok s \<Longrightarrow>
    storage_get (storage_put k v s) j = (if j = k then Some v else storage_get s j)"
  unfolding storage_get_def store_ok_def
  by (induction s) (auto simp: map_of_eq_None_iff dest: order.strict_trans)

lemma storage_get_delete:
  "storage_get (storage_delete k s) j = (if j = k then None else storage_get s j)"
  unfolding storage_get_def storage_delete_def by (induction s) auto

lemma sorted_wrt_map_filter: "sorted_wrt R (map f s) \<Longrightarrow> sorted_wrt R (map f (filter P s))"
  by (induction s) auto

lemma storage_delete_ok: "store_ok s \<Longrightarrow> store_ok (storage_delete k s)"
  unfolding store_ok_def storage_delete_def by (rule sorted_wrt_map_filter)

interpretation st: kv_store storage_get storage_put storage_delete storage_list store_ok
proof unfold_locales
  fix s :: "'a store" and k p :: string and v :: 'a
  assume ok: "store_ok s"
  show "((k, v) \<in> set (storage_list p s)) = (storage_get s k = Some v \<and> js_startsWith k p)"
    using store_ok_distinct [OF ok] by (auto simp: storage_list_def storage_get_def)
  show "distinct (map fst (storage_list p s))"
    using store_ok_distinct [OF ok] by (simp add: storage_list_def distinct_map_filter)
qed (simp_all add: storage_get_put storage_get_delete storage_put_ok storage_delete_ok)

lemma storage_delete_all_ok: "store_ok s \<Longrightarrow> store_ok (storage_delete_all ks s)"
  unfolding storage_delete_all_def by (rule st.ok_fold_del)

lemma storage_get_delete_all: "store_ok s \<Longrightarrow>
    storage_get (storage_delete_all ks s) j = (if j \<in> set ks then None else storage_get s j)"
  unfolding storage_delete_all_def by (rule st.get_fold_del)

lemma store_ok_Nil [simp]: "store_ok []"
  by (simp add: store_ok_def)

lemma storage_delete_all_filter: "storage_delete_all ks s = filter (\<lambda>e. fst e \<notin> set ks) s"
proof (induction ks arbitrary: s)
  case (Cons k ks)
  then show ?case
    by (simp add: storage_delete_all_def storage_delete_def split_beta conj_commute)
qed (simp add: storage_delete_all_def)

lemma storage_list_delete_all:
  "storage_list p (storage_delete_all ks s) = filter (\<lambda>e. fst e \<notin> set ks) (storage_list p s)"
  by (simp add: storage_delete_all_filter storage_list_def conj_commute)

end
