(* ===== verification/JsBytes.thy ===== *)
theory JsBytes
  imports JsPrelude "HOL-Library.Word"
begin

unbundle bit_operations_syntax

section \<open>Byte arrays, UTF-8, base64 and constant-time comparison\<close>

text \<open>
  A \<open>Uint8Array\<close> is a list of 8-bit words. \<open>utf8_encode\<close> is \<open>TextEncoder.encode\<close> on the
  strings of the model, \<open>utf8_decode\<close> the inverse direction of \<open>TextDecoder.decode\<close> on its
  image (bytes outside that image decode to a replacement character). \<open>b64_encode\<close> and
  \<open>atob_bytes\<close> are \<open>btoa\<close> and \<open>atob\<close> (forgiving base64) between bytes and text.
\<close>

type_synonym byte = "8 word"
type_synonym bytes = "byte list"

subsection \<open>UTF-8\<close>

definition utf8_char :: "char \<Rightarrow> bytes" where
  "utf8_char c = (if cc c < 128 then [word_of_nat (cc c)]
                  else [word_of_nat (192 + cc c div 64), word_of_nat (128 + cc c mod 64)])"

definition utf8_encode :: "string \<Rightarrow> bytes" where
  "utf8_encode s = concat (map utf8_char s)"

text \<open>Everything outside the two-byte forms of code units below 256 becomes \<open>?\<close>.\<close>

fun utf8_decode :: "bytes \<Rightarrow> string" where
  "utf8_decode [] = []"
| "utf8_decode [a] = (if unat a < 128 then [char_of (unat a)] else ''?'')"
| "utf8_decode (a # b # r) =
     (if unat a < 128 then char_of (unat a) # utf8_decode (b # r)
      else if (unat a = 194 \<or> unat a = 195) \<and> 128 \<le> unat b \<and> unat b < 192
        then char_of ((unat a - 192) * 64 + (unat b - 128)) # utf8_decode r
      else CHR ''?'' # utf8_decode (b # r))"

lemma unat_word8 [simp]: "n < 256 \<Longrightarrow> unat (word_of_nat n :: byte) = n"
  by (simp add: unat_of_nat take_bit_nat_eq_self)

lemma unat_byte_less [simp]: "unat (b :: byte) < 256"
  using unsigned_less [of b] by simp

lemma utf8_decode_char:
  "utf8_decode (utf8_char c @ r) = c # utf8_decode r"
proof (cases "cc c < 128")
  case True
  then show ?thesis by (cases r) (simp_all add: utf8_char_def)
next
  case False
  let ?n = "cc c"
  have n: "?n < 256" by simp
  have d: "?n div 64 = 2 \<or> ?n div 64 = 3" using False n by linarith
  have m: "?n mod 64 < 64" by simp
  have u: "unat (word_of_nat (192 + ?n div 64) :: byte) = 192 + ?n div 64"
          "unat (word_of_nat (128 + ?n mod 64) :: byte) = 128 + ?n mod 64"
    using d m by (intro unat_word8; linarith)+
  have "char_of (?n div 64 * 64 + ?n mod 64) = c" by (simp del: One_nat_def)
  moreover have "utf8_char c @ r =
      word_of_nat (192 + ?n div 64) # word_of_nat (128 + ?n mod 64) # r"
    using False by (simp add: utf8_char_def)
  ultimately show ?thesis using d m u by auto
qed

lemma utf8_decode_encode [simp]: "utf8_decode (utf8_encode s) = s"
  by (induction s) (simp_all add: utf8_encode_def utf8_decode_char)

lemma utf8_encode_inj [simp]: "utf8_encode s = utf8_encode t \<longleftrightarrow> s = t"
  by (metis utf8_decode_encode)

lemma utf8_encode_append: "utf8_encode (s @ t) = utf8_encode s @ utf8_encode t"
  by (simp add: utf8_encode_def)

lemma length_utf8_encode: "length s \<le> length (utf8_encode s)" "length (utf8_encode s) \<le> 2 * length s"
  by (induction s) (auto simp: utf8_encode_def utf8_char_def)

subsection \<open>Hexadecimal digits\<close>

definition hex_char :: "nat \<Rightarrow> char" where
  "hex_char n = (if n < 10 then char_of (48 + n) else char_of (87 + n))"

text \<open>\<open>byte.toString(16).padStart(2, '0')\<close>, joined.\<close>

definition bytes_to_hex :: "bytes \<Rightarrow> string" where
  "bytes_to_hex bs = concat (map (\<lambda>b. [hex_char (unat b div 16), hex_char (unat b mod 16)]) bs)"

lemma hex_char_lower: "n < 16 \<Longrightarrow> is_hex_lower (hex_char n)"
  by (auto simp: hex_char_def is_hex_lower_def is_digit_def)

lemma bytes_to_hex_shape:
  "list_all is_hex_lower (bytes_to_hex bs) \<and> length (bytes_to_hex bs) = 2 * length bs"
proof (induction bs)
  case (Cons b bs)
  have "unat b < 256" by simp
  then have "unat b div 16 < 16" by linarith
  then show ?case using Cons by (simp add: bytes_to_hex_def hex_char_lower)
qed (simp add: bytes_to_hex_def)

subsection \<open>Base64\<close>

definition b64_char :: "nat \<Rightarrow> char" where
  "b64_char n = (if n < 26 then char_of (65 + n) else if n < 52 then char_of (71 + n)
                 else if n < 62 then char_of (n - 4) else if n = 62 then CHR ''+'' else CHR ''/'')"

definition b64_val :: "char \<Rightarrow> nat option" where
  "b64_val c = (if is_AZ c then Some (cc c - 65) else if is_az c then Some (cc c - 71)
                else if is_digit c then Some (cc c + 4) else if c = CHR ''+'' then Some 62
                else if c = CHR ''/'' then Some 63 else None)"

fun sextets :: "bytes \<Rightarrow> nat list" where
  "sextets [] = []"
| "sextets [a] = [unat a div 4, unat a mod 4 * 16]"
| "sextets [a, b] = [unat a div 4, unat a mod 4 * 16 + unat b div 16, unat b mod 16 * 4]"
| "sextets (a # b # c # r) =
     [unat a div 4, unat a mod 4 * 16 + unat b div 16, unat b mod 16 * 4 + unat c div 64, unat c mod 64]
     @ sextets r"

fun unsextets :: "nat list \<Rightarrow> bytes" where
  "unsextets (a # b # c # d # r) =
     [word_of_nat (a * 4 + b div 16), word_of_nat (b mod 16 * 16 + c div 4), word_of_nat (c mod 4 * 64 + d)]
     @ unsextets r"
| "unsextets [a, b, c] = [word_of_nat (a * 4 + b div 16), word_of_nat (b mod 16 * 16 + c div 4)]"
| "unsextets [a, b] = [word_of_nat (a * 4 + b div 16)]"
| "unsextets _ = []"

text \<open>\<open>btoa\<close>: the sextets as letters, padded with \<open>=\<close> to a multiple of four.\<close>

definition b64_pad :: "nat \<Rightarrow> string" where
  "b64_pad n = replicate ((4 - n mod 4) mod 4) CHR ''=''"

definition b64_encode :: "bytes \<Rightarrow> string" where
  "b64_encode bs = map b64_char (sextets bs) @ b64_pad (length (sextets bs))"

text \<open>\<open>atob\<close>: ASCII white space is dropped, at most two \<open>=\<close> end a text of full length.\<close>

definition is_ascii_ws :: "char \<Rightarrow> bool" where
  "is_ascii_ws c \<longleftrightarrow> cc c = 9 \<or> cc c = 10 \<or> cc c = 12 \<or> cc c = 13 \<or> cc c = 32"

definition atob_unpad :: "string \<Rightarrow> string" where
  "atob_unpad s =
     (if length s mod 4 = 0 then
        (if s \<noteq> [] \<and> last s = CHR ''='' then
           (if butlast s \<noteq> [] \<and> last (butlast s) = CHR ''='' then butlast (butlast s) else butlast s)
         else s)
      else s)"

definition atob_bytes :: "string \<Rightarrow> bytes option" where
  "atob_bytes s0 =
     (let s = atob_unpad (filter (\<lambda>c. \<not> is_ascii_ws c) s0)
      in if length s mod 4 = 1 \<or> \<not> list_all (\<lambda>c. b64_val c \<noteq> None) s then None
         else Some (unsextets (map (\<lambda>c. the (b64_val c)) s)))"

text \<open>The URL-safe alphabet without padding.\<close>

definition bytesToBase64Url :: "bytes \<Rightarrow> string" where
  "bytesToBase64Url bs =
     rev (dropWhile (\<lambda>c. c = CHR ''='')
       (rev (map (\<lambda>c. if c = CHR ''/'' then CHR ''_'' else c)
         (map (\<lambda>c. if c = CHR ''+'' then CHR ''-'' else c) (b64_encode bs)))))"

definition base64UrlToBytes :: "string \<Rightarrow> bytes option" where
  "base64UrlToBytes v =
     (let n = map (\<lambda>c. if c = CHR ''_'' then CHR ''/'' else c)
                (map (\<lambda>c. if c = CHR ''-'' then CHR ''+'' else c) v)
      in atob_bytes (n @ b64_pad (length n)))"

subsubsection \<open>Round trips\<close>

lemma b64_val_char [simp]: "n < 64 \<Longrightarrow> b64_val (b64_char n) = Some n"
  by (auto simp: b64_char_def b64_val_def is_AZ_def is_az_def is_digit_def cc_def)

lemma b64_char_not [simp]:
  "n < 64 \<Longrightarrow> b64_char n \<noteq> CHR ''=''" "n < 64 \<Longrightarrow> \<not> is_ascii_ws (b64_char n)"
  "n < 64 \<Longrightarrow> b64_char n \<noteq> CHR ''-''" "n < 64 \<Longrightarrow> b64_char n \<noteq> CHR ''_''"
  "n < 64 \<Longrightarrow> b64_char n \<noteq> CHR ''.''" "n < 64 \<Longrightarrow> b64_char n \<noteq> CHR ''$''"
  by (auto simp: b64_char_def is_ascii_ws_def cc_inject [symmetric] cc_def)

lemma sextets_bound: "x \<in> set (sextets bs) \<Longrightarrow> x < 64"
proof (induction bs rule: sextets.induct)
  case (2 a)
  have "unat a < 256" by simp
  then have "unat a div 4 < 64" by linarith
  with 2 show ?case by auto
next
  case (3 a b)
  have "unat a < 256" "unat b < 256" by simp_all
  then have "unat a div 4 < 64" "unat b div 16 < 16" by linarith+
  with 3 show ?case by auto
next
  case (4 a b c r)
  have "unat a < 256" "unat b < 256" "unat c < 256" by simp_all
  then have "unat a div 4 < 64" "unat b div 16 < 16" "unat c div 64 < 4" by linarith+
  with 4 show ?case by auto
qed simp

lemma sextets_length: "length (sextets bs) mod 4 \<noteq> 1"
  by (induction bs rule: sextets.induct) auto

lemma b64_join:
  "(b::nat) < 256 \<Longrightarrow> a div 4 * 4 + (a mod 4 * 16 + b div 16) div 16 = a"
  "(b::nat) < 256 \<Longrightarrow> c < 256 \<Longrightarrow>
     (a mod 4 * 16 + b div 16) mod 16 * 16 + (b mod 16 * 4 + c div 64) div 4 = b"
  "(c::nat) < 256 \<Longrightarrow> (b mod 16 * 4 + c div 64) mod 4 * 64 + c mod 64 = c"
proof -
  assume b: "b < 256"
  then have "b div 16 < 16" by linarith
  then show "a div 4 * 4 + (a mod 4 * 16 + b div 16) div 16 = a" by simp
  assume c: "c < 256"
  then have "c div 64 < 4" by linarith
  then show "(a mod 4 * 16 + b div 16) mod 16 * 16 + (b mod 16 * 4 + c div 64) div 4 = b"
    using \<open>b div 16 < 16\<close> by simp
next
  assume c: "c < 256"
  then have "c div 64 < 4" by linarith
  then show "(b mod 16 * 4 + c div 64) mod 4 * 64 + c mod 64 = c" by simp
qed

lemma unsextets_sextets: "unsextets (sextets bs) = bs"
proof (induction bs rule: sextets.induct)
  case (2 a)
  show ?case using b64_join(1) [of 0 "unat a"] by simp
next
  case (3 a b)
  show ?case
    using b64_join(1) [of "unat b" "unat a"] b64_join(2) [of "unat b" 0 "unat a"] by simp
next
  case (4 a b c r)
  show ?case
    using 4 b64_join(1) [of "unat b" "unat a"] b64_join(2) [of "unat b" "unat c" "unat a"]
      b64_join(3) [of "unat c" "unat b"] by simp
qed simp

lemma atob_unpad_pad:
  assumes "list_all (\<lambda>c. c \<noteq> CHR ''='') s" "length s mod 4 \<noteq> 1"
  shows "atob_unpad (s @ b64_pad (length s)) = s"
proof -
  have "length s mod 4 < 4" by simp
  then consider "length s mod 4 = 0" | "length s mod 4 = 2" | "length s mod 4 = 3"
    using assms(2) by linarith
  then show ?thesis
  proof cases
    case 1
    then show ?thesis using assms(1)
      by (cases s rule: rev_cases) (auto simp: b64_pad_def atob_unpad_def)
  next
    case 2
    then have "length (s @ b64_pad (length s)) mod 4 = 0" "b64_pad (length s) = ''==''"
      by (auto simp: b64_pad_def numeral_2_eq_2) presburger
    then show ?thesis by (simp add: atob_unpad_def butlast_append)
  next
    case 3
    then have "length (s @ b64_pad (length s)) mod 4 = 0" "b64_pad (length s) = ''=''"
      by (auto simp: b64_pad_def) presburger
    moreover have "s = [] \<or> last s \<noteq> CHR ''=''" using assms(1)
      by (cases s rule: rev_cases) auto
    ultimately show ?thesis by (auto simp: atob_unpad_def butlast_append)
  qed
qed

lemma atob_sextets:
  assumes "\<forall>x \<in> set ns. x < 64" "length ns mod 4 \<noteq> 1"
  shows "atob_bytes (map b64_char ns @ b64_pad (length ns)) = Some (unsextets ns)"
proof -
  have ws: "filter (\<lambda>c. \<not> is_ascii_ws c) (map b64_char ns @ b64_pad (length ns))
      = map b64_char ns @ b64_pad (length (map b64_char ns))"
  proof -
    have "\<not> is_ascii_ws CHR ''=''" by (simp add: is_ascii_ws_def cc_def)
    then show ?thesis using assms(1) by (auto simp: filter_id_conv b64_pad_def)
  qed
  have "atob_unpad (map b64_char ns @ b64_pad (length (map b64_char ns))) = map b64_char ns"
    using assms by (intro atob_unpad_pad) (auto simp: list_all_iff)
  moreover have "map (\<lambda>c. the (b64_val c)) (map b64_char ns) = ns"
    using assms(1) by (simp add: map_idI)
  ultimately show ?thesis
    using assms ws by (auto simp: atob_bytes_def Let_def list_all_iff)
qed

theorem atob_b64_encode: "atob_bytes (b64_encode bs) = Some bs"
  unfolding b64_encode_def
  using atob_sextets [of "sextets bs"] sextets_bound sextets_length unsextets_sextets by metis

abbreviation url_char :: "nat \<Rightarrow> char" where
  "url_char n \<equiv> (if b64_char n = CHR ''+'' then CHR ''-''
                  else if b64_char n = CHR ''/'' then CHR ''_'' else b64_char n)"

lemma bytesToBase64Url_alt: "bytesToBase64Url bs = map url_char (sextets bs)"
proof -
  let ?m = "\<lambda>c. if (if c = CHR ''+'' then CHR ''-'' else c) = CHR ''/'' then CHR ''_''
                else if c = CHR ''+'' then CHR ''-'' else c"
  let ?u = "map url_char (sextets bs)"
  have d1: "dropWhile (\<lambda>c. c = CHR ''='') (rev (b64_pad n) @ t) = dropWhile (\<lambda>c. c = CHR ''='') t" for n t
    by (rule dropWhile_append2) (simp add: b64_pad_def)
  have d2: "dropWhile (\<lambda>c. c = CHR ''='') (rev ?u) = rev ?u"
  proof (cases "sextets bs = []")
    case False
    then have "last (sextets bs) < 64" by (intro sextets_bound [of _ bs]) simp
    then show ?thesis using False by (intro dropWhile_id) (simp add: hd_rev last_map)
  qed simp
  have m1: "map ?m (b64_pad n) = b64_pad n" for n by (simp add: b64_pad_def)
  have m2: "map ?m (map b64_char (sextets bs)) = ?u" by auto
  have "bytesToBase64Url bs = rev (dropWhile (\<lambda>c. c = CHR ''='') (rev (map ?m (b64_encode bs))))"
    by (simp add: bytesToBase64Url_def comp_def)
  then show ?thesis unfolding b64_encode_def map_append m1 m2 rev_append d1 d2 by simp
qed

theorem base64Url_roundtrip: "base64UrlToBytes (bytesToBase64Url bs) = Some bs"
proof -
  have "map (\<lambda>c. if c = CHR ''_'' then CHR ''/'' else c)
          (map (\<lambda>c. if c = CHR ''-'' then CHR ''+'' else c) (bytesToBase64Url bs))
        = map b64_char (sextets bs)"
    using sextets_bound by (auto simp: bytesToBase64Url_alt)
  then show ?thesis
    using atob_sextets [of "sextets bs"] sextets_bound sextets_length unsextets_sextets
    by (simp add: base64UrlToBytes_def Let_def)
qed

definition is_b64url :: "char \<Rightarrow> bool" where
  "is_b64url c \<longleftrightarrow> is_AZ c \<or> is_az c \<or> is_digit c \<or> c = CHR ''-'' \<or> c = CHR ''_''"

lemma url_char_b64url: "n < 64 \<Longrightarrow> is_b64url (url_char n)"
  by (auto simp: b64_char_def is_b64url_def is_AZ_def is_az_def is_digit_def cc_def)

lemma bytesToBase64Url_chars: "list_all is_b64url (bytesToBase64Url bs)"
  unfolding bytesToBase64Url_alt list_all_iff set_map ball_simps
  using sextets_bound url_char_b64url by blast

lemma length_sextets: "3 * length (sextets bs) \<ge> 4 * length bs"
  by (induction bs rule: sextets.induct) auto

lemma sextets_length_le: "length (sextets bs) \<le> 2 * length bs"
  by (induction bs rule: sextets.induct) auto

lemma length_bytesToBase64Url_le: "length (bytesToBase64Url bs) \<le> 2 * length bs"
  by (simp add: bytesToBase64Url_alt sextets_length_le)

lemma length_bytesToBase64Url: "3 * length (bytesToBase64Url bs) \<ge> 4 * length bs"
  by (simp add: bytesToBase64Url_alt length_sextets)

lemma b64url_no_dot [simp]: "list_all (\<lambda>c. \<not> c = CHR ''.'') (bytesToBase64Url bs)"
  using bytesToBase64Url_chars [of bs]
  by (auto simp: list_all_iff is_b64url_def is_AZ_def is_az_def is_digit_def cc_def)

lemma bytesToBase64Url_ne: "bs \<noteq> [] \<Longrightarrow> bytesToBase64Url bs \<noteq> []"
  using length_bytesToBase64Url [of bs] by (cases "bytesToBase64Url bs") auto

subsection \<open>Constant-time comparison\<close>

text \<open>
  \<open>let diff = a.length ^ b.length; for (i < max) diff |= (a[i] ?? 0) ^ (b[i] ?? 0)\<close> on
  32-bit integers, for lists of unsigned code units or bytes.
\<close>

definition ct_elem :: "nat list \<Rightarrow> nat \<Rightarrow> 32 word" where
  "ct_elem xs i = (if i < length xs then word_of_nat (xs ! i) else 0)"

definition ct_diff :: "nat list \<Rightarrow> nat list \<Rightarrow> 32 word" where
  "ct_diff a b =
     foldl (\<lambda>d i. d OR (ct_elem a i XOR ct_elem b i))
       (word_of_nat (length a) XOR word_of_nat (length b))
       [0 ..< max (length a) (length b)]"

definition ct_equal :: "nat list \<Rightarrow> nat list \<Rightarrow> bool" where
  "ct_equal a b \<longleftrightarrow> ct_diff a b = 0"

definition ct_bytes :: "bytes \<Rightarrow> bytes \<Rightarrow> bool" where
  "ct_bytes a b \<longleftrightarrow> ct_equal (map unat a) (map unat b)"

lemma word_or_zero: "(a OR b = (0 :: 'a :: len word)) \<longleftrightarrow> a = 0 \<and> b = 0"
  by (simp add: bit_eq_iff) (auto simp: bit_simps)

lemma word_xor_zero: "(a XOR b = (0 :: 'a :: len word)) \<longleftrightarrow> a = b"
  by (auto simp: bit_eq_iff bit_simps)

lemma foldl_or_zero:
  "foldl (\<lambda>d i. d OR f i) (d0 :: 32 word) xs = 0 \<longleftrightarrow> d0 = 0 \<and> (\<forall>i \<in> set xs. f i = 0)"
  by (induction xs arbitrary: d0) (auto simp: word_or_zero)

lemma word32_eq:
  "m < 2 ^ 32 \<Longrightarrow> n < 2 ^ 32 \<Longrightarrow> (word_of_nat m :: 32 word) = word_of_nat n \<longleftrightarrow> m = n"
  by (simp add: word_of_nat_eq_iff take_bit_nat_eq_self)

text \<open>The comparison decides equality of the two arrays.\<close>

lemma ct_equal_iff:
  assumes len: "length a < 2 ^ 32" "length b < 2 ^ 32"
    and el: "\<forall>x \<in> set a \<union> set b. x < 2 ^ 32"
  shows "ct_equal a b \<longleftrightarrow> a = b"
proof -
  have "ct_equal a b \<longleftrightarrow> length a = length b \<and>
      (\<forall>i < max (length a) (length b). ct_elem a i = ct_elem b i)"
    using word32_eq [OF len] by (auto simp: ct_equal_def ct_diff_def foldl_or_zero word_xor_zero)
  also have "\<dots> \<longleftrightarrow> length a = length b \<and> (\<forall>i < length a. a ! i = b ! i)"
    using el by (auto simp: ct_elem_def word32_eq)
  also have "\<dots> \<longleftrightarrow> a = b" by (auto simp: list_eq_iff_nth_eq)
  finally show ?thesis .
qed

lemma ct_bytes_iff:
  assumes "length a < 2 ^ 32" "length b < 2 ^ 32"
  shows "ct_bytes a b \<longleftrightarrow> a = b"
proof -
  have "\<forall>x \<in> set (map unat a) \<union> set (map unat b). x < 2 ^ 32"
  proof
    fix x assume "x \<in> set (map unat a) \<union> set (map unat b)"
    then obtain w :: byte where "x = unat w" by auto
    then have "x < 256" by simp
    then show "x < 2 ^ 32" by simp
  qed
  then have "ct_bytes a b \<longleftrightarrow> map unat a = map unat b"
    unfolding ct_bytes_def using assms by (intro ct_equal_iff) simp_all
  also have "\<dots> \<longleftrightarrow> a = b" using inj_map_eq_map [OF inj_unsigned] by blast
  finally show ?thesis .
qed

lemma ct_bytes_refl [simp]: "ct_bytes a a"
  unfolding ct_bytes_def ct_equal_def ct_diff_def foldl_or_zero by simp

end
