(* ===== verification/JsJson.thy ===== *)
theory JsJson
  imports JsBytes
begin

section \<open>JSON.stringify and JSON.parse\<close>

text \<open>
  The two functions on the values of the model. \<open>JSON_stringify\<close> gives \<open>None\<close> for
  \<open>undefined\<close>, as the source function returns \<open>undefined\<close>; \<open>JSON_parse\<close> gives \<open>None\<close> where
  the source throws a \<open>SyntaxError\<close>. A \<open>u\<close>-escape above code unit 255 lies outside the strings
  of the model and is read as a question mark. The parser runs on fuel; \<open>JSON_parse\<close> gives it
  one unit more than the text has characters, which is enough for every text \<open>JSON_stringify\<close>
  prints (\<open>json_parse_stringify\<close>).
\<close>

subsection \<open>Printing\<close>

definition json_escape :: "char \<Rightarrow> string" where
  "json_escape c =
     (if cc c = 34 then [char_of (92::nat), char_of (34::nat)]
      else if cc c = 92 then [char_of (92::nat), char_of (92::nat)]
      else if cc c = 8 then [char_of (92::nat), CHR ''b'']
      else if cc c = 9 then [char_of (92::nat), CHR ''t'']
      else if cc c = 10 then [char_of (92::nat), CHR ''n'']
      else if cc c = 12 then [char_of (92::nat), CHR ''f'']
      else if cc c = 13 then [char_of (92::nat), CHR ''r'']
      else if cc c < 32 then [char_of (92::nat), CHR ''u'', CHR ''0'', CHR ''0'', hex_char (cc c div 16), hex_char (cc c mod 16)]
      else [c])"

definition json_quote :: "string \<Rightarrow> string" where
  "json_quote s = char_of (34::nat) # concat (map json_escape s) @ [char_of (34::nat)]"

fun JSON_stringify :: "jsval \<Rightarrow> string option" where
  "JSON_stringify Undef = None"
| "JSON_stringify Null = Some ''null''"
| "JSON_stringify (Bool b) = Some (if b then ''true'' else ''false'')"
| "JSON_stringify (Num x) = Some (if js_isFinite x then num_to_str x else ''null'')"
| "JSON_stringify (Str s) = Some (json_quote s)"
| "JSON_stringify (Arr xs) =
     Some (''['' @ js_join '','' (map (\<lambda>x. case JSON_stringify x of None \<Rightarrow> ''null'' | Some t \<Rightarrow> t) xs) @ '']'')"
| "JSON_stringify (Obj kvs) =
     Some (''{'' @ js_join '',''
       (concat (map (\<lambda>(k, v). case JSON_stringify v of None \<Rightarrow> [] | Some t \<Rightarrow> [json_quote k @ '':'' @ t]) kvs)) @ ''}'')"

text \<open>\<open>new TextEncoder().encode(JSON.stringify(v)).byteLength\<close>; \<open>undefined\<close> encodes to nothing.\<close>

definition serializedBytes :: "jsval \<Rightarrow> nat" where
  "serializedBytes v = (case JSON_stringify v of None \<Rightarrow> 0 | Some t \<Rightarrow> length (utf8_encode t))"

subsection \<open>Parsing\<close>

definition is_json_ws :: "char \<Rightarrow> bool" where
  "is_json_ws c \<longleftrightarrow> cc c = 32 \<or> cc c = 9 \<or> cc c = 10 \<or> cc c = 13"

definition json_ws :: "string \<Rightarrow> string" where
  "json_ws s = dropWhile is_json_ws s"

definition json_unescape :: "char \<Rightarrow> char option" where
  "json_unescape e =
     (if cc e = 34 \<or> cc e = 92 \<or> e = CHR ''/'' then Some e
      else if e = CHR ''b'' then Some (char_of (8::nat)) else if e = CHR ''t'' then Some (char_of (9::nat))
      else if e = CHR ''n'' then Some (char_of (10::nat)) else if e = CHR ''f'' then Some (char_of (12::nat))
      else if e = CHR ''r'' then Some (char_of (13::nat)) else None)"

definition hex4_char :: "string \<Rightarrow> char" where
  "hex4_char ds = (if hex_val ds < 256 then char_of (hex_val ds) else CHR ''?'')"

text \<open>The characters up to the closing quote, and the rest.\<close>

function json_str :: "string \<Rightarrow> (string \<times> string) option" where
  "json_str [] = None"
| "json_str (c # s) =
     (if cc c = 34 then Some ([], s)
      else if cc c = 92 then
        (case s of
           [] \<Rightarrow> None
         | e # r \<Rightarrow>
             if e = CHR ''u'' then
               (if 4 \<le> length r \<and> list_all is_hex_any (take 4 r)
                then map_option (\<lambda>(t, z). (hex4_char (take 4 r) # t, z)) (json_str (drop 4 r)) else None)
             else (case json_unescape e of
                 None \<Rightarrow> None
               | Some ch \<Rightarrow> map_option (\<lambda>(t, z). (ch # t, z)) (json_str r)))
      else if cc c < 32 then None
      else map_option (\<lambda>(t, z). (c # t, z)) (json_str s))"
  by pat_completeness auto
termination
  by (relation "measure length") auto

text \<open>The longest number token, by the JSON grammar, and the rest.\<close>

definition json_number :: "string \<Rightarrow> (jsnum \<times> string) option" where
  "json_number s =
     (let neg = (case s of c # _ \<Rightarrow> c = CHR ''-'' | [] \<Rightarrow> False); u = (if neg then tl s else s);
          ip = takeWhile is_digit u; r1 = dropWhile is_digit u;
          hasfrac = (case r1 of c # d # _ \<Rightarrow> c = CHR ''.'' \<and> is_digit d | _ \<Rightarrow> False);
          fp = (if hasfrac then takeWhile is_digit (tl r1) else []);
          r2 = (if hasfrac then dropWhile is_digit (tl r1) else r1);
          sgn = (case r2 of _ # d # _ \<Rightarrow> if d = CHR ''-'' \<or> d = CHR ''+'' then [d] else [] | _ \<Rightarrow> []);
          ed = takeWhile is_digit (drop (1 + length sgn) r2);
          hasexp = (r2 \<noteq> [] \<and> (hd r2 = CHR ''e'' \<or> hd r2 = CHR ''E'') \<and> ed \<noteq> []);
          r3 = (if hasexp then dropWhile is_digit (drop (1 + length sgn) r2) else r2);
          e = (if hasexp then (if sgn = ''-'' then - int (digits_val 10 ed) else int (digits_val 10 ed)) else 0);
          q = of_nat (digits_val 10 (ip @ fp)) * pow10 (e - int (length fp))
      in if ip = [] \<or> (1 < length ip \<and> hd ip = CHR ''0'') then None
         else Some (mk_num (if neg then - q else q), r3))"

fun json_value :: "nat \<Rightarrow> string \<Rightarrow> (jsval \<times> string) option"
  and json_elems :: "nat \<Rightarrow> string \<Rightarrow> (jsval list \<times> string) option"
  and json_members :: "nat \<Rightarrow> jsobj \<Rightarrow> string \<Rightarrow> (jsobj \<times> string) option" where
  "json_value 0 s = None"
| "json_value (Suc n) s0 =
     (case json_ws s0 of
        [] \<Rightarrow> None
      | c # s \<Rightarrow>
          if cc c = 34 then map_option (\<lambda>(t, r). (Str t, r)) (json_str s)
          else if c = CHR ''['' then
            (case json_ws s of
               d # r \<Rightarrow> if d = CHR '']'' then Some (Arr [], r)
                        else map_option (\<lambda>(vs, z). (Arr vs, z)) (json_elems n s)
             | [] \<Rightarrow> None)
          else if c = CHR ''{'' then
            (case json_ws s of
               d # r \<Rightarrow> if d = CHR ''}'' then Some (Obj [], r)
                        else map_option (\<lambda>(kvs, z). (Obj kvs, z)) (json_members n [] s)
             | [] \<Rightarrow> None)
          else if js_startsWith (c # s) ''true'' then Some (Bool True, drop 4 (c # s))
          else if js_startsWith (c # s) ''false'' then Some (Bool False, drop 5 (c # s))
          else if js_startsWith (c # s) ''null'' then Some (Null, drop 4 (c # s))
          else map_option (\<lambda>(x, r). (Num x, r)) (json_number (c # s)))"
| "json_elems 0 s = None"
| "json_elems (Suc n) s =
     (case json_value n s of
        None \<Rightarrow> None
      | Some (v, r) \<Rightarrow>
          (case json_ws r of
             d # z \<Rightarrow> if d = CHR '']'' then Some ([v], z)
                      else if d = CHR '','' then map_option (\<lambda>(vs, y). (v # vs, y)) (json_elems n z)
                      else None
           | [] \<Rightarrow> None))"
| "json_members 0 acc s = None"
| "json_members (Suc n) acc s =
     (case json_ws s of
        [] \<Rightarrow> None
      | q # s1 \<Rightarrow>
          if cc q \<noteq> 34 then None
          else (case json_str s1 of
              None \<Rightarrow> None
            | Some (k, s2) \<Rightarrow>
                (case json_ws s2 of
                   c # s3 \<Rightarrow>
                     if c \<noteq> CHR '':'' then None
                     else (case json_value n s3 of
                         None \<Rightarrow> None
                       | Some (v, s4) \<Rightarrow>
                           (case json_ws s4 of
                              d # z \<Rightarrow>
                                if d = CHR ''}'' then Some (AList.update k v acc, z)
                                else if d = CHR '','' then json_members n (AList.update k v acc) z
                                else None
                            | [] \<Rightarrow> None))
                 | [] \<Rightarrow> None)))"

definition JSON_parse :: "string \<Rightarrow> jsval option" where
  "JSON_parse s = (case json_value (Suc (length s)) s of
      None \<Rightarrow> None
    | Some (v, r) \<Rightarrow> if json_ws r = [] then Some v else None)"

subsection \<open>Round trip\<close>

text \<open>
  The values whose printed form reads back as the same value: integers below the exponent
  layout, no \<open>undefined\<close>, objects without repeated keys.
\<close>

fun json_clean :: "jsval \<Rightarrow> bool" where
  "json_clean Undef = False"
| "json_clean Null = True"
| "json_clean (Bool b) = True"
| "json_clean (Num x) = (js_isInteger x \<and> \<bar>js_int x\<bar> < 10 ^ 21)"
| "json_clean (Str s) = True"
| "json_clean (Arr xs) = list_all json_clean xs"
| "json_clean (Obj kvs) = (distinct (map fst kvs) \<and> list_all (\<lambda>(k, v). json_clean v) kvs)"

definition json_stop :: "string \<Rightarrow> bool" where
  "json_stop r \<longleftrightarrow> r = [] \<or> hd r \<in> {CHR '','', CHR '']'', CHR ''}''}"

lemma list_all_update: "list_all P xs \<Longrightarrow> P (k, v) \<Longrightarrow> list_all P (AList.update k v xs)"
  by (induction xs) auto

lemma update_fresh: "k \<notin> fst ` set kvs \<Longrightarrow> AList.update k v kvs = kvs @ [(k, v)]"
  by (induction kvs) auto

lemma hex_digit_val_char: "n < 16 \<Longrightarrow> hex_digit_val (hex_char n) = n"
  by (auto simp: hex_digit_val_def hex_char_def is_digit_def)

lemma is_hex_any_char: "n < 16 \<Longrightarrow> is_hex_any (hex_char n)"
  using hex_char_lower by (simp add: is_hex_any_def)

lemma hex4_escape:
  assumes "cc c < 32"
  shows "hex4_char [CHR ''0'', CHR ''0'', hex_char (cc c div 16), hex_char (cc c mod 16)] = c"
proof -
  have "cc c div 16 < 16" using assms by simp
  then have "hex_val [CHR ''0'', CHR ''0'', hex_char (cc c div 16), hex_char (cc c mod 16)] = cc c"
    by (simp add: hex_val_def hex_digit_val_char) (simp add: hex_digit_val_def is_digit_def cc_def)
  then show ?thesis by (simp add: hex4_char_def)
qed

lemma json_str_escape: "json_str (json_escape c @ s) = map_option (\<lambda>(t, z). (c # t, z)) (json_str s)"
proof (cases "cc c < 32 \<and> cc c \<notin> {8, 9, 10, 12, 13}")
  case True
  then have "cc c < 32" by blast
  then have "cc c div 16 < 16" by simp
  then show ?thesis using True hex4_escape [of c]
    by (simp add: json_escape_def is_hex_any_char) (simp add: is_hex_any_def is_hex_lower_def is_digit_def cc_def)
next
  case False
  then consider "cc c \<in> {34, 92, 8, 9, 10, 12, 13}" | "32 \<le> cc c" "cc c \<noteq> 34" "cc c \<noteq> 92"
    by (cases "cc c \<in> {34, 92}") auto
  then show ?thesis
  proof cases
    case 1
    then obtain v :: nat where "c = char_of v" "v \<in> {34, 92, 8, 9, 10, 12, 13}" by (metis char_of_cc)
    then show ?thesis
      by (elim insertE; simp add: json_escape_def; simp add: json_unescape_def cc_def char_of_eq_iff)
  next
    case 2
    then show ?thesis by (simp add: json_escape_def)
  qed
qed

lemma json_str_quote: "json_str (concat (map json_escape s) @ char_of (34::nat) # r) = Some (s, r)"
  by (induction s) (simp_all add: json_str_escape)

lemma json_ws_id: "s = [] \<or> \<not> is_json_ws (hd s) \<Longrightarrow> json_ws s = s"
  by (cases s) (auto simp: json_ws_def)

lemma json_stop_ws: "json_stop r \<Longrightarrow> json_ws r = r"
  by (rule json_ws_id) (auto simp: json_stop_def cc_def is_json_ws_def)

lemma takeWhile_digits:
  assumes "list_all is_digit ds" "json_stop r"
  shows "takeWhile is_digit (ds @ r) = ds" "dropWhile is_digit (ds @ r) = r"
proof -
  have "takeWhile is_digit r = [] \<and> dropWhile is_digit r = r"
    using assms(2) by (cases r) (auto simp: json_stop_def is_digit_def cc_def)
  then show "takeWhile is_digit (ds @ r) = ds" "dropWhile is_digit (ds @ r) = r"
    using assms(1) by (auto simp: list_all_iff takeWhile_append2 dropWhile_append2)
qed

lemma json_number_digits:
  assumes "list_all is_digit (c # cs)" "\<not> (cs \<noteq> [] \<and> c = CHR ''0'')" "json_stop r"
  shows "json_number (c # cs @ r) = Some (mk_num (of_nat (digits_val 10 (c # cs))), r)"
    and "json_number (CHR ''-'' # c # cs @ r) = Some (mk_num (- of_nat (digits_val 10 (c # cs))), r)"
proof -
  note tw = takeWhile_digits [OF assms(1,3), unfolded append_Cons]
  have c: "c \<noteq> CHR ''-''" using assms(1) by (auto simp: is_digit_def cc_def)
  have frac: "(case r of c # d # _ \<Rightarrow> c = CHR ''.'' \<and> is_digit d | _ \<Rightarrow> False) = False"
    and ex: "(r \<noteq> [] \<and> (hd r = CHR ''e'' \<or> hd r = CHR ''E'') \<and> ed \<noteq> []) = False" for ed :: string
    using assms(3) by (auto simp: json_stop_def split: list.splits)
  have len: "(1 < length (c # cs) \<and> hd (c # cs) = CHR ''0'') = False" using assms(2) by auto
  note rw = Let_def tw frac ex len if_False append_Nil2 list.case list.sel list.size pow10_def
  show "json_number (c # cs @ r) = Some (mk_num (of_nat (digits_val 10 (c # cs))), r)"
    unfolding json_number_def list.case using c assms(2) by (simp only: rw) auto
  show "json_number (CHR ''-'' # c # cs @ r) = Some (mk_num (- of_nat (digits_val 10 (c # cs))), r)"
    unfolding json_number_def list.case using assms(2) by (simp only: rw simp_thms if_True) auto
qed

lemma nat_small: "int n < 10 ^ 21 \<Longrightarrow> \<bar>of_nat n :: rat\<bar> < 2 ^ 970"
proof -
  assume "int n < 10 ^ 21"
  then have "(of_int (int n) :: rat) < of_int (10 ^ 21)" by (simp only: of_int_less_iff)
  then show ?thesis by simp
qed

lemma json_number_int:
  assumes "json_stop r" "\<bar>i\<bar> < 10 ^ 21"
  shows "json_number (int_to_str i @ r) = Some (FinI i, r)"
proof -
  have key: "json_number (nat_to_str n @ r) = Some (mk_num (of_nat n), r)"
      "json_number (CHR ''-'' # nat_to_str n @ r) = Some (mk_num (- of_nat n), r)" for n
  proof -
    obtain c cs where n: "nat_to_str n = c # cs" using nat_to_str_ne [of n] by (cases "nat_to_str n") auto
    have "\<not> (cs \<noteq> [] \<and> c = CHR ''0'')" using nat_to_str_hd [of n] nat_to_str_zero n by auto
    from json_number_digits [OF _ this assms(1)] nat_to_str_digits [of n] digits_val_nat_to_str [of n]
    show "json_number (nat_to_str n @ r) = Some (mk_num (of_nat n), r)"
      "json_number (CHR ''-'' # nat_to_str n @ r) = Some (mk_num (- of_nat n), r)" by (simp_all add: n)
  qed
  have "\<bar>of_nat (nat \<bar>i\<bar>) :: rat\<bar> < 2 ^ 970" by (rule nat_small) (use assms(2) in simp)
  then show ?thesis
    using key [of "nat i"] key [of "nat (- i)"]
    by (cases "i < 0") (simp_all add: int_to_str_def mk_num_small)
qed


text \<open>The first character of a printed value, and that the parser dispatches on it.\<close>

lemma int_to_str_first: "\<exists>c cs. int_to_str i = c # cs \<and> (c = CHR ''-'' \<or> is_digit c)"
proof -
  have "\<exists>c cs. nat_to_str n = c # cs \<and> is_digit c" for n
    using nat_to_str_ne [of n] nat_to_str_digits [of n] by (cases "nat_to_str n") auto
  then show ?thesis by (cases "i < 0") (simp add: int_to_str_def, metis int_to_str_def)
qed

lemma json_value_int:
  assumes "json_stop r" "\<bar>i\<bar> < 10 ^ 21"
  shows "json_value (Suc n) (int_to_str i @ r) = Some (Num (FinI i), r)"
proof -
  obtain c cs where c: "int_to_str i = c # cs" "c = CHR ''-'' \<or> is_digit c" using int_to_str_first by blast
  then have k: "cc c = 45 \<or> 48 \<le> cc c \<and> cc c \<le> 57" by (auto simp: is_digit_def cc_def)
  then have "json_ws (c # cs @ r) = c # cs @ r" by (intro json_ws_id) (auto simp: is_json_ws_def)
  moreover have "cc c \<noteq> 34" "c \<noteq> CHR ''[''" "c \<noteq> CHR ''{''" "c \<noteq> CHR ''t''" "c \<noteq> CHR ''f''" "c \<noteq> CHR ''n''"
    using k by (auto simp: cc_def)
  moreover have "json_number (c # cs @ r) = Some (FinI i, r)" using json_number_int [OF assms] c(1) by simp
  ultimately show ?thesis by (simp add: c(1) js_startsWith_def)
qed

lemma json_value_quote:
  "json_value (Suc n) (json_quote s @ r) = Some (Str s, r)"
proof -
  have "json_ws (char_of (34::nat) # x) = char_of (34::nat) # x" for x by (rule json_ws_id) (simp add: is_json_ws_def)
  then show ?thesis by (simp add: json_quote_def json_str_quote)
qed

lemma json_value_const:
  "json_value (Suc n) (''null'' @ r) = Some (Null, r)"
  "json_value (Suc n) (''true'' @ r) = Some (Bool True, r)"
  "json_value (Suc n) (''false'' @ r) = Some (Bool False, r)"
  by (simp_all add: json_ws_def is_json_ws_def cc_def js_startsWith_def)

definition prints_back :: "jsval \<Rightarrow> string \<Rightarrow> bool" where
  "prints_back v t \<longleftrightarrow>
     (\<forall>n r. length t < n \<and> json_stop r \<longrightarrow> json_value n (t @ r) = Some (v, r)) \<and>
     t \<noteq> [] \<and> hd t \<notin> {CHR '']'', CHR ''}''} \<and> \<not> is_json_ws (hd t)"

lemma prints_backD:
  "prints_back v t \<Longrightarrow> length t < n \<Longrightarrow> json_stop r \<Longrightarrow> json_value n (t @ r) = Some (v, r)"
  by (simp add: prints_back_def)

lemma json_elems_join:
  assumes "list_all2 prints_back xs ts" "xs \<noteq> []" "length (js_join '','' ts) + 1 < n"
  shows "json_elems n (js_join '','' ts @ '']'' @ r) = Some (xs, r)"
  using assms
proof (induction xs ts arbitrary: n rule: list_all2_induct)
  case (Cons x xs t ts)
  then obtain m where n: "n = Suc m" by (cases n) auto
  note ws = json_ws_id [of "CHR '']'' # _"] json_ws_id [of "CHR '','' # _"]
  show ?case
  proof (cases ts)
    case Nil
    then have "json_value m (t @ '']'' @ r) = Some (x, '']'' @ r)"
      using Cons n by (intro prints_backD) (auto simp: json_stop_def)
    then show ?thesis using Nil n Cons(2) ws by (simp add: cc_def is_json_ws_def)
  next
    case (Cons u us)
    then have j: "js_join '','' (t # ts) = t @ '','' @ js_join '','' ts" by simp
    have v: "json_value m (t @ '','' @ js_join '','' ts @ '']'' @ r) = Some (x, '','' @ js_join '','' ts @ '']'' @ r)"
      using Cons.hyps Cons.prems n j by (intro prints_backD) (auto simp: json_stop_def)
    have "xs \<noteq> []" using Cons.hyps(2) Cons by auto
    then have "json_elems m (js_join '','' ts @ '']'' @ r) = Some (xs, r)"
      using Cons.prems n j by (intro Cons.IH) auto
    then show ?thesis unfolding j n using v ws by (simp add: cc_def is_json_ws_def)
  qed
qed simp


definition member_text :: "string \<times> jsval \<Rightarrow> string \<Rightarrow> bool" where
  "member_text kv mt \<longleftrightarrow> (\<exists>t. mt = json_quote (fst kv) @ '':'' @ t \<and> prints_back (snd kv) t)"

lemma json_members_head:
  assumes "member_text (k, v) mt" "length mt < n" "json_stop (d # z)" "d \<in> {CHR '','', CHR ''}''}"
  shows "json_members (Suc n) acc (mt @ d # z) =
    (if d = CHR ''}'' then Some (AList.update k v acc, z) else json_members n (AList.update k v acc) z)"
proof -
  obtain t where t: "mt = json_quote k @ '':'' @ t" "prints_back v t" using assms(1) by (auto simp: member_text_def)
  have ws: "json_ws (char_of (34::nat) # x) = char_of (34::nat) # x" "json_ws (CHR '':'' # x) = CHR '':'' # x"
      "json_ws (d # z) = d # z" for x
    using assms(3) by (auto intro: json_ws_id json_stop_ws simp: cc_def is_json_ws_def)
  have "json_value n (t @ d # z) = Some (v, d # z)"
    using prints_backD [OF t(2) _ assms(3)] assms(2) t(1) by (simp add: json_quote_def)
  then show ?thesis using assms(4) by (auto simp: t(1) json_quote_def ws json_str_quote)
qed

lemma json_members_join:
  assumes "list_all2 member_text kvs ts" "kvs \<noteq> []" "length (js_join '','' ts) + 1 < n"
    "distinct (map fst (acc @ kvs))"
  shows "json_members n acc (js_join '','' ts @ ''}'' @ r) = Some (acc @ kvs, r)"
  using assms
proof (induction kvs ts arbitrary: n acc rule: list_all2_induct)
  case (Cons kv kvs mt ts)
  obtain k v where kv: "kv = (k, v)" by force
  obtain m where n: "n = Suc m" using Cons.prems by (cases n) auto
  have up: "AList.update k v acc = acc @ [(k, v)]"
    using Cons.prems(3) kv by (intro update_fresh) simp
  show ?case
  proof (cases ts)
    case Nil
    then have "length mt < m" using Cons.prems(2) n by simp
    from json_members_head [OF Cons.hyps(1) [unfolded kv] this, of "CHR ''}''" r acc] Nil Cons.hyps(2)
    show ?thesis by (simp add: n up kv json_stop_def)
  next
    case (Cons u us)
    then have j: "js_join '','' (mt # ts) = mt @ '','' @ js_join '','' ts" by simp
    have l: "length mt < m" using Cons.prems(2) n j by simp
    have h: "json_members (Suc m) acc (mt @ CHR '','' # (js_join '','' ts @ ''}'' @ r)) =
        json_members m (acc @ [(k, v)]) (js_join '','' ts @ ''}'' @ r)"
      using json_members_head [OF Cons.hyps(1) [unfolded kv] l, of "CHR '',''" "js_join '','' ts @ ''}'' @ r" acc]
      by (simp add: up json_stop_def)
    have "kvs \<noteq> []" using Cons.hyps(2) Cons by auto
    then have "json_members m (acc @ [(k, v)]) (js_join '','' ts @ ''}'' @ r) = Some ((acc @ [(k, v)]) @ kvs, r)"
      using Cons.prems n j kv by (intro Cons.IH) auto
    then show ?thesis unfolding j n using h by (simp add: kv)
  qed
qed simp

lemma list_all2_map_some:
  "(\<And>x. x \<in> set xs \<Longrightarrow> P x (f x)) \<Longrightarrow> list_all2 P xs (map f xs)"
  by (induction xs) auto

lemma js_join_ne: "ts \<noteq> [] \<Longrightarrow> hd ts \<noteq> [] \<Longrightarrow> js_join sep ts \<noteq> [] \<and> hd (js_join sep ts) = hd (hd ts)"
  by (cases "(sep, ts)" rule: js_join.cases) auto


lemma js_join_first: "\<exists>ys. js_join sep ((c # cs) # ts) = c # ys"
  by (cases ts) auto

text \<open>What follows an opening bracket: the first character of the first entry.\<close>

lemma json_ws_join:
  assumes "t \<noteq> []" "\<not> is_json_ws (hd t)"
  obtains y where "js_join sep (t # ts) @ r = hd t # y" "json_ws (hd t # y) = hd t # y"
proof -
  obtain c cs where t: "t = c # cs" using assms(1) by (cases t) auto
  obtain ys where "js_join sep (t # ts) = c # ys" using js_join_first t by blast
  then show thesis using that [of "ys @ r"] assms(2) t by (simp add: json_ws_id)
qed

lemma json_ws_brackets:
  "json_ws (CHR ''['' # x) = CHR ''['' # x" "json_ws (CHR '']'' # x) = CHR '']'' # x"
  "json_ws (CHR ''{'' # x) = CHR ''{'' # x" "json_ws (CHR ''}'' # x) = CHR ''}'' # x"
  by (rule json_ws_id, simp add: cc_def is_json_ws_def)+

lemma prints_back_arr:
  assumes "list_all2 prints_back xs ts"
  shows "prints_back (Arr xs) (''['' @ js_join '','' ts @ '']'')"
proof -
  have "json_value n ((''['' @ js_join '','' ts @ '']'') @ r) = Some (Arr xs, r)"
    if n: "length (''['' @ js_join '','' ts @ '']'') < n" for n r
  proof -
    obtain m where m: "n = Suc m" using n by (cases n) auto
    show ?thesis
    proof (cases "xs = []")
      case True
      then show ?thesis using assms by (simp add: m json_ws_brackets cc_def)
    next
      case False
      then obtain x xs' t ts' where e: "xs = x # xs'" "ts = t # ts'" "prints_back x t"
        using assms by (cases xs; cases ts) auto
      have el: "json_elems m (js_join '','' ts @ '']'' @ r) = Some (xs, r)"
        using assms False n m by (intro json_elems_join) auto
      obtain y where y: "js_join '','' ts @ '']'' @ r = hd t # y" "json_ws (hd t # y) = hd t # y"
        using e json_ws_join [of t "'',''" ts' "'']'' @ r"] by (auto simp: prints_back_def)
      have "hd t \<noteq> CHR '']''" using e(3) by (simp add: prints_back_def)
      then have "json_value (Suc m) (CHR ''['' # hd t # y) = Some (Arr xs, r)"
        using el y by (simp add: json_ws_brackets cc_def)
      then show ?thesis using y(1) by (simp add: m)
    qed
  qed
  then show ?thesis by (simp add: prints_back_def is_json_ws_def cc_def)
qed

lemma prints_back_obj:
  assumes "list_all2 member_text kvs ts" "distinct (map fst kvs)"
  shows "prints_back (Obj kvs) (''{'' @ js_join '','' ts @ ''}'')"
proof -
  have "json_value n ((''{'' @ js_join '','' ts @ ''}'') @ r) = Some (Obj kvs, r)"
    if n: "length (''{'' @ js_join '','' ts @ ''}'') < n" for n r
  proof -
    obtain m where m: "n = Suc m" using n by (cases n) auto
    show ?thesis
    proof (cases "kvs = []")
      case True
      then show ?thesis using assms by (simp add: m json_ws_brackets cc_def)
    next
      case False
      then obtain x xs' t ts' where e: "kvs = x # xs'" "ts = t # ts'" "member_text x t"
        using assms(1) by (cases kvs; cases ts) auto
      have el: "json_members m [] (js_join '','' ts @ ''}'' @ r) = Some (kvs, r)"
        using assms False n m json_members_join [of kvs ts m "[]" r] by auto
      have hd: "t \<noteq> []" "hd t = char_of (34::nat)" using e(3) by (auto simp: member_text_def json_quote_def)
      then obtain y where y: "js_join '','' ts @ ''}'' @ r = hd t # y" "json_ws (hd t # y) = hd t # y"
        using e(2) json_ws_join [of t "'',''" ts' "''}'' @ r"] by (auto simp: is_json_ws_def)
      have "json_value (Suc m) (CHR ''{'' # hd t # y) = Some (Obj kvs, r)"
        using el y hd(2) by (simp add: json_ws_brackets cc_def char_of_eq_iff)
      then show ?thesis using y(1) by (simp add: m)
    qed
  qed
  then show ?thesis by (simp add: prints_back_def is_json_ws_def cc_def)
qed

lemma prints_back_atom:
  assumes "\<And>n r. json_stop r \<Longrightarrow> json_value (Suc n) (t @ r) = Some (v, r)" "t \<noteq> []"
    "hd t \<notin> {CHR '']'', CHR ''}''}" "\<not> is_json_ws (hd t)"
  shows "prints_back v t"
  unfolding prints_back_def
proof (intro conjI allI impI)
  fix n r assume "length t < n \<and> json_stop r"
  then show "json_value n (t @ r) = Some (v, r)" using assms(1) by (cases n) auto
qed (use assms in auto)

lemma prints_back_const:
  "prints_back Null ''null''" "prints_back (Bool True) ''true''" "prints_back (Bool False) ''false''"
  by (rule prints_back_atom, rule json_value_const, simp_all add: is_json_ws_def cc_def)+

lemma json_clean_prints_back: "json_clean v \<Longrightarrow> \<exists>t. JSON_stringify v = Some t \<and> prints_back v t"
proof (induction v)
  case (Num x)
  then have x: "x = FinI (js_int x)" "\<bar>js_int x\<bar> < 10 ^ 21" using js_isInteger_int by auto
  obtain i where i: "x = FinI i" "\<bar>i\<bar> < 10 ^ 21" using x by blast
  have "\<bar>of_int i :: rat\<bar> < 10 ^ 21" using i(2) by (metis of_int_abs of_int_less_iff of_int_numeral of_int_power)
  then have t: "JSON_stringify (Num x) = Some (int_to_str i)" by (simp add: i(1))
  obtain c cs where "int_to_str i = c # cs" "c = CHR ''-'' \<or> is_digit c" using int_to_str_first by blast
  then have "prints_back (Num x) (int_to_str i)" unfolding i(1)
    by (intro prints_back_atom json_value_int i(2)) (auto simp: is_json_ws_def is_digit_def cc_def)
  then show ?case using t by blast
next
  case (Str s)
  have "prints_back (Str s) (json_quote s)"
    by (rule prints_back_atom, rule json_value_quote) (auto simp: json_quote_def is_json_ws_def char_of_eq_iff)
  then show ?case by simp
next
  case (Arr xs)
  have "list_all2 prints_back xs (map (\<lambda>x. case JSON_stringify x of None \<Rightarrow> ''null'' | Some t \<Rightarrow> t) xs)"
    using Arr by (intro list_all2_map_some) (fastforce simp: list_all_iff)
  then show ?case using prints_back_arr by simp
next
  case (Obj kvs)
  have mem: "\<exists>t. JSON_stringify v = Some t \<and> prints_back v t" if "(k, v) \<in> set kvs" for k v
    using Obj that by (fastforce simp: list_all_iff)
  let ?f = "\<lambda>(k, v). json_quote k @ '':'' @ the (JSON_stringify v)"
  have m: "list_all2 member_text kvs (map ?f kvs)"
    using mem by (intro list_all2_map_some) (fastforce simp: member_text_def)
  have "concat (map (\<lambda>(k, v). case JSON_stringify v of None \<Rightarrow> [] | Some t \<Rightarrow> [json_quote k @ '':'' @ t]) kvs) = map ?f kvs"
    using mem by (induction kvs) (auto, fastforce+)
  then show ?case using prints_back_obj [OF m] Obj.prems by simp
qed (simp_all add: prints_back_const)

text \<open>The codec law the token and backup formats rest on.\<close>

theorem json_parse_stringify:
  assumes "json_clean v"
  obtains t where "JSON_stringify v = Some t" "JSON_parse t = Some v"
proof -
  obtain t where t: "JSON_stringify v = Some t" "prints_back v t" using json_clean_prints_back [OF assms] by blast
  have "json_value (Suc (length t)) (t @ []) = Some (v, [])"
    using t(2) by (intro prints_backD) (auto simp: json_stop_def)
  then have "JSON_parse t = Some v" by (simp add: JSON_parse_def json_ws_def)
  with t(1) show thesis using that by blast
qed

subsection \<open>Codecs as an interface\<close>

text \<open>
  What a token or backup format needs of an encoding: a decoder that undoes it on the values the
  format uses. Encodings compose.
\<close>

locale codec =
  fixes enc :: "'a \<Rightarrow> 'b" and dec :: "'b \<Rightarrow> 'a option" and ok :: "'a \<Rightarrow> bool"
  assumes dec_enc: "ok a \<Longrightarrow> dec (enc a) = Some a"
begin

lemma enc_inj: "ok a \<Longrightarrow> ok b \<Longrightarrow> enc a = enc b \<Longrightarrow> a = b"
  by (metis dec_enc option.inject)

end

locale codec_chain =
  first: codec enc1 dec1 ok1 + second: codec enc2 dec2 ok2
  for enc1 :: "'a \<Rightarrow> 'b" and dec1 ok1 and enc2 :: "'b \<Rightarrow> 'c" and dec2 ok2 +
  assumes ok_chain: "ok1 a \<Longrightarrow> ok2 (enc1 a)"
begin

lemma dec_chain: "ok1 a \<Longrightarrow> Option.bind (dec2 (enc2 (enc1 a))) dec1 = Some a"
  by (simp add: first.dec_enc second.dec_enc ok_chain)

end

sublocale codec_chain \<subseteq> chain: codec "\<lambda>a. enc2 (enc1 a)" "\<lambda>c. Option.bind (dec2 c) dec1" ok1
  by unfold_locales (rule dec_chain)

interpretation json: codec "\<lambda>v. the (JSON_stringify v)" JSON_parse json_clean
proof
  fix v assume "json_clean v"
  then obtain t where "JSON_stringify v = Some t" "JSON_parse t = Some v" by (rule json_parse_stringify)
  then show "JSON_parse (the (JSON_stringify v)) = Some v" by simp
qed

interpretation b64text: codec "\<lambda>s. bytesToBase64Url (utf8_encode s)"
  "\<lambda>t. map_option utf8_decode (base64UrlToBytes t)" "\<lambda>_. True"
  by unfold_locales (simp add: base64Url_roundtrip)

interpretation payload: codec_chain "\<lambda>v. the (JSON_stringify v)" JSON_parse json_clean
  "\<lambda>s. bytesToBase64Url (utf8_encode s)" "\<lambda>t. map_option utf8_decode (base64UrlToBytes t)" "\<lambda>_. True"
  by unfold_locales simp

end
