(* ===== verification/RateLimit.thy ===== *)
theory RateLimit
  imports DoStorage JsJson "HOL-Library.Multiset"
begin

section \<open>The rate-limit Durable Object\<close>

text \<open>
  \<open>do/rate-limit.ts\<close>, class \<open>RateLimitDO\<close>: fixed-window counters per bucket and client address in
  Durable Object storage, a sweep of expired counters on every 256th request and on an alarm,
  and a cap on the number of counters. Times are the integers \<open>Date.now()\<close> gives. Storage calls
  are taken to succeed, so the \<open>catch\<close> branches of the compaction are not reached.
\<close>

definition RATE_LIMIT_STORAGE_PREFIX :: string where
  "RATE_LIMIT_STORAGE_PREFIX = ''rate-limit:''"

definition RATE_LIMIT_MAX_BUCKETS :: nat where
  "RATE_LIMIT_MAX_BUCKETS = 5000"

definition RATE_LIMIT_CLEANUP_ALARM_MS :: int where
  "RATE_LIMIT_CLEANUP_ALARM_MS = 300000"

definition RATE_LIMIT_MAX_BODY_BYTES :: nat where
  "RATE_LIMIT_MAX_BODY_BYTES = 2048"

record bucket =
  bcount :: int
  resetAt :: int

record rate_limit_do =
  storage :: "bucket store"
  alarm_at :: "int option"
  sweepCounter :: nat

record rate_limit_result =
  allowed :: bool
  retry_after :: int
  rl_limit :: int
  remaining :: int
  reset_s :: int

datatype rl_response =
    RlThrow
  | RlError nat
  | RlOk rate_limit_result

text \<open>
  A request as the object sees it: method, path, the \<open>Content-Length\<close> header and the body,
  \<open>None\<close> where \<open>request.json()\<close> throws.
\<close>

record rl_request =
  rl_method :: string
  rl_path :: string
  rl_content_length :: "string option"
  rl_body :: "jsval option"

subsection \<open>Operations\<close>

text \<open>Rounding up a quotient of integers, \<open>Math.ceil(a / b)\<close>.\<close>

definition ceil_div :: "int \<Rightarrow> int \<Rightarrow> int" where
  "ceil_div a b = - ((- a) div b)"

definition cleanupExpiredBuckets :: "int \<Rightarrow> rate_limit_do \<Rightarrow> rate_limit_do" where
  "cleanupExpiredBuckets now d =
     (let entries = storage_list RATE_LIMIT_STORAGE_PREFIX (storage d);
          expired = map fst (filter (\<lambda>(k, v). resetAt v \<le> now) entries)
      in d\<lparr>storage := storage_delete_all expired (storage d)\<rparr>)"

definition scheduleCleanupAlarm :: "int \<Rightarrow> rate_limit_do \<Rightarrow> rate_limit_do" where
  "scheduleCleanupAlarm now d =
     (case alarm_at d of
        None \<Rightarrow> d\<lparr>alarm_at := Some (now + RATE_LIMIT_CLEANUP_ALARM_MS)\<rparr>
      | Some _ \<Rightarrow> d)"

text \<open>The keys \<open>enforceBucketLimit\<close> deletes among the given entries.\<close>

definition overflow_keys :: "int \<Rightarrow> bucket store \<Rightarrow> string list" where
  "overflow_keys now entries =
     (let expired = map fst (filter (\<lambda>(k, v). resetAt v \<le> now) entries);
          active = filter (\<lambda>(k, v). \<not> resetAt v \<le> now) entries;
          overflow = length active - RATE_LIMIT_MAX_BUCKETS;
          oldest = (if overflow > 0
                    then map fst (take overflow (sort_key (\<lambda>(k, v). resetAt v) active)) else [])
      in expired @ oldest)"

definition enforceBucketLimit :: "int \<Rightarrow> rate_limit_do \<Rightarrow> rate_limit_do" where
  "enforceBucketLimit now d =
     (let entries = storage_list RATE_LIMIT_STORAGE_PREFIX (storage d)
      in if length entries \<le> RATE_LIMIT_MAX_BUCKETS then d
         else d\<lparr>storage := storage_delete_all (overflow_keys now entries) (storage d)\<rparr>)"

text \<open>The counter after one more request, and the stored state it starts from.\<close>

definition bump_bucket :: "int \<Rightarrow> int \<Rightarrow> bucket option \<Rightarrow> bucket" where
  "bump_bucket now windowMs current =
     (let b = (case current of
                 None \<Rightarrow> \<lparr>bcount = 0, resetAt = now + windowMs\<rparr>
               | Some c \<Rightarrow> if resetAt c \<le> now then \<lparr>bcount = 0, resetAt = now + windowMs\<rparr> else c)
      in b\<lparr>bcount := bcount b + 1\<rparr>)"

definition bucket_key :: "string \<Rightarrow> string \<Rightarrow> string" where
  "bucket_key bucket ip = RATE_LIMIT_STORAGE_PREFIX @ bucket @ '':'' @ ip"

definition rl_result :: "int \<Rightarrow> int \<Rightarrow> bucket \<Rightarrow> rate_limit_result" where
  "rl_result now mx b =
     \<lparr>allowed = (bcount b \<le> mx),
      retry_after = max 1 (ceil_div (resetAt b - now) 1000),
      rl_limit = mx,
      remaining = max 0 (mx - bcount b),
      reset_s = ceil_div (resetAt b) 1000\<rparr>"

text \<open>The part of \<open>checkRateLimit\<close> after the payload is validated.\<close>

definition count_request ::
  "int \<Rightarrow> string \<Rightarrow> int \<Rightarrow> int \<Rightarrow> rate_limit_do \<Rightarrow> rate_limit_do \<times> rl_response" where
  "count_request now key mx windowMs d0 =
     (let d1 = d0\<lparr>sweepCounter := sweepCounter d0 + 1\<rparr>;
          d2 = (if sweepCounter d1 mod 256 = 0 then cleanupExpiredBuckets now d1 else d1);
          b = bump_bucket now windowMs (storage_get (storage d2) key);
          d3 = d2\<lparr>storage := storage_put key b (storage d2)\<rparr>;
          d4 = scheduleCleanupAlarm now d3;
          d5 = (if sweepCounter d4 mod 1024 = 0 then enforceBucketLimit now d4 else d4)
      in (d5, RlOk (rl_result now mx b)))"

text \<open>The string fields of the payload, cut to length; a property of a non-object is undefined.\<close>

definition body_field :: "jsval \<Rightarrow> string \<Rightarrow> jsval" where
  "body_field v k = js_get (asObject v) k"

definition body_text :: "jsval \<Rightarrow> string \<Rightarrow> nat \<Rightarrow> string" where
  "body_text v k n = (case body_field v k of Str s \<Rightarrow> take n s | _ \<Rightarrow> [])"

definition declared_too_large :: "string option \<Rightarrow> nat \<Rightarrow> bool" where
  "declared_too_large h n =
     (let len = str_to_num (case h of None \<Rightarrow> ''0'' | Some s \<Rightarrow> if s = [] then ''0'' else s)
      in js_isFinite len \<and> js_lt (Fin (of_nat n)) len)"

definition checkRateLimit ::
  "int \<Rightarrow> rl_request \<Rightarrow> rate_limit_do \<Rightarrow> rate_limit_do \<times> rl_response" where
  "checkRateLimit now r d =
     (if declared_too_large (rl_content_length r) RATE_LIMIT_MAX_BODY_BYTES then (d, RlError 413)
      else (case rl_body r of
          None \<Rightarrow> (d, RlError 400)
        | Some body \<Rightarrow>
            if serializedBytes body > RATE_LIMIT_MAX_BODY_BYTES then (d, RlError 413)
            else if body = Null then (d, RlThrow)
            else
              (let bucket = body_text body ''bucket'' 96;
                   ip = body_text body ''ip'' 128;
                   mx = js_Number (body_field body ''max'');
                   windowMs = js_Number (body_field body ''windowMs'')
               in if bucket = [] \<or> ip = [] \<or> \<not> js_isInteger mx \<or> js_le mx (Fin 0)
                     \<or> \<not> js_isInteger windowMs \<or> js_lt windowMs (Fin 1000)
                  then (d, RlError 400)
                  else count_request now (bucket_key bucket ip) (js_int mx) (js_int windowMs) d)))"

definition rl_fetch :: "int \<Rightarrow> rl_request \<Rightarrow> rate_limit_do \<Rightarrow> rate_limit_do \<times> rl_response" where
  "rl_fetch now r d =
     (if rl_method r = ''POST'' \<and> rl_path r = ''/rate-limit'' then checkRateLimit now r d
      else (d, RlError 404))"

text \<open>
  The alarm handler. The runtime clears the pending alarm before it runs the handler, so
  \<open>setAlarm\<close> and \<open>deleteAlarm\<close> decide what is pending afterwards.
\<close>

definition rl_alarm :: "int \<Rightarrow> rate_limit_do \<Rightarrow> rate_limit_do" where
  "rl_alarm now d0 =
     (let d1 = cleanupExpiredBuckets now (d0\<lparr>alarm_at := None\<rparr>);
          d2 = enforceBucketLimit now d1
      in if storage_list RATE_LIMIT_STORAGE_PREFIX (storage d2) \<noteq> []
         then d2\<lparr>alarm_at := Some (now + RATE_LIMIT_CLEANUP_ALARM_MS)\<rparr>
         else d2\<lparr>alarm_at := None\<rparr>)"

subsection \<open>Runs of the object\<close>

datatype rl_event = RlReq int rl_request | RlAlarm int

fun rl_time :: "rl_event \<Rightarrow> int" where
  "rl_time (RlReq t _) = t"
| "rl_time (RlAlarm t) = t"

fun rl_step :: "rl_event \<Rightarrow> rate_limit_do \<Rightarrow> rate_limit_do \<times> rl_response option" where
  "rl_step (RlReq t r) d = (case rl_fetch t r d of (d', x) \<Rightarrow> (d', Some x))"
| "rl_step (RlAlarm t) d = (rl_alarm t d, None)"

fun rl_run :: "rl_event list \<Rightarrow> rate_limit_do \<Rightarrow> rate_limit_do \<times> rl_response option list" where
  "rl_run [] d = (d, [])"
| "rl_run (e # es) d =
     (case rl_step e d of (d', x) \<Rightarrow> (case rl_run es d' of (d'', xs) \<Rightarrow> (d'', x # xs)))"

subsection \<open>What a request asks for\<close>

text \<open>
  The specification side: the key, limit and window of a well-formed request, and the counter
  that is live at a time. An expired counter is no counter.
\<close>

definition request_target :: "rl_request \<Rightarrow> (string \<times> int \<times> int) option" where
  "request_target r =
     (if rl_method r \<noteq> ''POST'' \<or> rl_path r \<noteq> ''/rate-limit''
         \<or> declared_too_large (rl_content_length r) RATE_LIMIT_MAX_BODY_BYTES then None
      else (case rl_body r of
          None \<Rightarrow> None
        | Some body \<Rightarrow>
            (let bucket = body_text body ''bucket'' 96; ip = body_text body ''ip'' 128;
                 mx = js_Number (body_field body ''max'');
                 w = js_Number (body_field body ''windowMs'')
             in if serializedBytes body > RATE_LIMIT_MAX_BODY_BYTES \<or> body = Null
                   \<or> bucket = [] \<or> ip = [] \<or> \<not> js_isInteger mx \<or> js_le mx (Fin 0)
                   \<or> \<not> js_isInteger w \<or> js_lt w (Fin 1000)
                then None else Some (bucket_key bucket ip, js_int mx, js_int w))))"

definition live :: "int \<Rightarrow> rate_limit_do \<Rightarrow> string \<Rightarrow> bucket option" where
  "live t d k = (case storage_get (storage d) k of
      None \<Rightarrow> None
    | Some b \<Rightarrow> if resetAt b \<le> t then None else Some b)"

definition entry_count :: "rate_limit_do \<Rightarrow> nat" where
  "entry_count d = length (storage_list RATE_LIMIT_STORAGE_PREFIX (storage d))"

fun targets :: "string \<Rightarrow> rl_event \<Rightarrow> bool" where
  "targets k (RlReq t r) = (case request_target r of None \<Rightarrow> False | Some (k', _, _) \<Rightarrow> k' = k)"
| "targets k (RlAlarm t) = False"

fun is_allowed :: "rl_response option \<Rightarrow> bool" where
  "is_allowed (Some (RlOk x)) = allowed x"
| "is_allowed _ = False"

definition allowed_for :: "string \<Rightarrow> rl_event list \<Rightarrow> rate_limit_do \<Rightarrow> nat" where
  "allowed_for k es d =
     length (filter (\<lambda>(e, x). targets k e \<and> is_allowed x) (zip es (snd (rl_run es d))))"

lemma rl_fetch_target:
  "request_target r = Some (k, m, w) \<Longrightarrow> rl_fetch t r d = count_request t k m w d"
  unfolding request_target_def rl_fetch_def checkRateLimit_def
  by (auto simp: Let_def split: if_splits option.splits)

lemma rl_fetch_no_target:
  "request_target r = None \<Longrightarrow> fst (rl_fetch t r d) = d \<and> \<not> is_allowed (Some (snd (rl_fetch t r d)))"
  unfolding request_target_def rl_fetch_def checkRateLimit_def
  by (auto simp: Let_def split: if_splits option.splits)

lemma request_target_valid:
  assumes "request_target r = Some (k, m, w)"
  shows "1 \<le> m" "1000 \<le> w" "js_startsWith k RATE_LIMIT_STORAGE_PREFIX"
proof -
  from assms obtain body where b: "js_isInteger (js_Number (body_field body ''max''))"
      "\<not> js_le (js_Number (body_field body ''max'')) (Fin 0)"
      "js_isInteger (js_Number (body_field body ''windowMs''))"
      "\<not> js_lt (js_Number (body_field body ''windowMs'')) (Fin 1000)"
      "m = js_int (js_Number (body_field body ''max''))"
      "w = js_int (js_Number (body_field body ''windowMs''))"
      "k = bucket_key (body_text body ''bucket'' 96) (body_text body ''ip'' 128)"
    unfolding request_target_def by (auto simp: Let_def split: if_splits option.splits)
  have m: "js_Number (body_field body ''max'') = FinI m" using js_isInteger_int [OF b(1)] b(5) by metis
  have w: "js_Number (body_field body ''windowMs'') = FinI w" using js_isInteger_int [OF b(3)] b(6) by metis
  show "1 \<le> m" using b(2) unfolding m by simp
  show "1000 \<le> w" using b(4) unfolding w by simp
  show "js_startsWith k RATE_LIMIT_STORAGE_PREFIX" unfolding b(7) by (simp add: bucket_key_def js_startsWith_def)
qed

subsection \<open>Compaction\<close>

lemma cleanup_ok: "store_ok (storage d) \<Longrightarrow> store_ok (storage (cleanupExpiredBuckets now d))"
  by (simp add: cleanupExpiredBuckets_def Let_def storage_delete_all_ok)

lemma enforce_ok: "store_ok (storage d) \<Longrightarrow> store_ok (storage (enforceBucketLimit now d))"
  by (simp add: enforceBucketLimit_def Let_def storage_delete_all_ok)

lemma cleanup_get:
  assumes "store_ok (storage d)"
  shows "storage_get (storage (cleanupExpiredBuckets now d)) k =
    (case storage_get (storage d) k of
       Some b \<Rightarrow> if resetAt b \<le> now \<and> js_startsWith k RATE_LIMIT_STORAGE_PREFIX then None else Some b
     | None \<Rightarrow> None)"
proof -
  have "k \<in> fst ` {x. x \<in> set (storage_list RATE_LIMIT_STORAGE_PREFIX (storage d)) \<and>
          (case x of (k, v) \<Rightarrow> resetAt v \<le> now)} \<longleftrightarrow>
        (\<exists>b. storage_get (storage d) k = Some b \<and> js_startsWith k RATE_LIMIT_STORAGE_PREFIX \<and> resetAt b \<le> now)"
    by (auto simp: image_iff Bex_def st.entries_get [OF assms])
  then show ?thesis
    by (auto simp: cleanupExpiredBuckets_def Let_def storage_get_delete_all [OF assms] split: option.splits)
qed

lemma cleanup_live:
  "store_ok (storage d) \<Longrightarrow> now \<le> t \<Longrightarrow> live t (cleanupExpiredBuckets now d) k = live t d k"
  by (auto simp: live_def cleanup_get split: option.splits)

lemma enforce_small: "entry_count d \<le> RATE_LIMIT_MAX_BUCKETS \<Longrightarrow> enforceBucketLimit now d = d"
  by (simp add: enforceBucketLimit_def entry_count_def Let_def)

lemma cleanup_entry_count:
  assumes "store_ok (storage d)"
  shows "entry_count (cleanupExpiredBuckets now d) \<le> entry_count d"
  unfolding entry_count_def
  by (rule st.entries_subset_length [OF assms cleanup_ok [OF assms]])
    (simp add: cleanup_get [OF assms] split: option.splits if_splits)

text \<open>The entries that survive \<open>enforceBucketLimit\<close>: the live ones without the oldest.\<close>

lemma filter_not_take:
  assumes "distinct (map f xs)"
  shows "filter (\<lambda>e. f e \<notin> f ` set (take n xs)) xs = drop n xs"
proof -
  have i: "inj_on f (set xs)" and d: "distinct xs" using assms by (auto simp: distinct_map)
  have disj: "set (take n xs) \<inter> set (drop n xs) = {}" using d by (rule set_take_disj_set_drop_if_distinct) simp
  have mem: "f e \<in> f ` set (take n xs) \<longleftrightarrow> e \<in> set (take n xs)" if "e \<in> set xs" for e
    using inj_on_image_mem_iff [OF i that set_take_subset] .
  have "filter (\<lambda>e. f e \<notin> f ` set (take n xs)) xs = filter (\<lambda>e. e \<notin> set (take n xs)) xs"
    by (rule filter_cong) (simp_all add: mem)
  also have "\<dots> = filter (\<lambda>e. e \<notin> set (take n xs)) (take n xs @ drop n xs)" by simp
  also have "\<dots> = drop n xs" unfolding filter_append
    using disj by (auto simp: filter_empty_conv filter_id_conv simp del: append_take_drop_id)
  finally show ?thesis .
qed

definition active_entries :: "int \<Rightarrow> bucket store \<Rightarrow> bucket store" where
  "active_entries now es = filter (\<lambda>(k, v). \<not> resetAt v \<le> now) es"

lemma overflow_survivors:
  assumes "distinct (map fst es)"
  shows "mset (filter (\<lambda>e. fst e \<notin> set (overflow_keys now es)) es) =
    mset (drop (length (active_entries now es) - RATE_LIMIT_MAX_BUCKETS)
      (sort_key (\<lambda>(k, v). resetAt v) (active_entries now es)))"
proof -
  let ?a = "active_entries now es"
  let ?n = "length ?a - RATE_LIMIT_MAX_BUCKETS"
  let ?s = "sort_key (\<lambda>(k, v). resetAt v) ?a"
  have da: "distinct (map fst ?a)" unfolding active_entries_def using assms by (rule distinct_map_filter)
  have ds: "distinct (map fst ?s)"
    using da by (metis mset_map mset_eq_imp_distinct_iff mset_sort)
  have key: "fst e \<in> set (overflow_keys now es) \<longleftrightarrow>
      resetAt (snd e) \<le> now \<or> fst e \<in> fst ` set (take ?n ?s)" if "e \<in> set es" for e
  proof -
    have "fst e \<in> fst ` {x \<in> set es. case x of (k, v) \<Rightarrow> resetAt v \<le> now} \<longleftrightarrow> resetAt (snd e) \<le> now"
      using assms that by (force simp: distinct_map inj_on_def)
    then show ?thesis by (auto simp: overflow_keys_def Let_def active_entries_def)
  qed
  have "filter (\<lambda>e. fst e \<notin> set (overflow_keys now es)) es
      = filter (\<lambda>e. fst e \<notin> fst ` set (take ?n ?s)) ?a"
    unfolding active_entries_def [of now es] filter_filter
    by (rule filter_cong) (auto simp: key active_entries_def)
  also have "mset \<dots> = mset (filter (\<lambda>e. fst e \<notin> fst ` set (take ?n ?s)) ?s)"
    by simp
  also have "filter (\<lambda>e. fst e \<notin> fst ` set (take ?n ?s)) ?s = drop ?n ?s"
    by (rule filter_not_take [OF ds])
  finally show ?thesis .
qed

subsection \<open>One request\<close>

lemma bump_live: "bump_bucket now w (storage_get (storage d) k) = bump_bucket now w (live now d k)"
  by (auto simp: bump_bucket_def live_def split: option.splits)

lemma schedule_storage [simp]: "storage (scheduleCleanupAlarm now d) = storage d"
  by (simp add: scheduleCleanupAlarm_def split: option.splits)

lemma schedule_alarm: "alarm_at (scheduleCleanupAlarm now d) \<noteq> None"
  by (simp add: scheduleCleanupAlarm_def split: option.splits)

lemma enforce_alarm [simp]: "alarm_at (enforceBucketLimit now d) = alarm_at d"
  by (simp add: enforceBucketLimit_def Let_def)

text \<open>The state just before the cap is enforced.\<close>

definition counted :: "int \<Rightarrow> string \<Rightarrow> int \<Rightarrow> rate_limit_do \<Rightarrow> rate_limit_do" where
  "counted now key w d0 =
     (let d1 = d0\<lparr>sweepCounter := sweepCounter d0 + 1\<rparr>;
          d2 = (if sweepCounter d1 mod 256 = 0 then cleanupExpiredBuckets now d1 else d1)
      in scheduleCleanupAlarm now
           (d2\<lparr>storage := storage_put key (bump_bucket now w (live now d0 key)) (storage d2)\<rparr>))"

lemma count_request_counted:
  assumes "store_ok (storage d)"
  shows "count_request now key m w d =
    ((if (sweepCounter d + 1) mod 1024 = 0 then enforceBucketLimit now (counted now key w d) else counted now key w d),
     RlOk (rl_result now m (bump_bucket now w (live now d key))))"
proof -
  have sc: "sweepCounter (scheduleCleanupAlarm now x) = sweepCounter x"
      "sweepCounter (cleanupExpiredBuckets now x) = sweepCounter x" for x
    by (simp_all add: scheduleCleanupAlarm_def cleanupExpiredBuckets_def Let_def split: option.splits)
  have l1: "live now (d\<lparr>sweepCounter := n\<rparr>) key = live now d key" for n by (simp add: live_def)
  have l2: "live now (cleanupExpiredBuckets now (d\<lparr>sweepCounter := n\<rparr>)) key = live now d key" for n
    using cleanup_live [of "d\<lparr>sweepCounter := n\<rparr>" now now key] assms l1 by simp
  show ?thesis
    by (simp add: count_request_def counted_def Let_def bump_live l1 l2 sc)
qed

lemma counted_get:
  assumes "store_ok (storage d)"
  shows "storage_get (storage (counted now key w d)) k =
    (if k = key then Some (bump_bucket now w (live now d key))
     else if (sweepCounter d + 1) mod 256 = 0
       then storage_get (storage (cleanupExpiredBuckets now (d\<lparr>sweepCounter := sweepCounter d + 1\<rparr>))) k
       else storage_get (storage d) k)"
  using assms cleanup_ok [of "d\<lparr>sweepCounter := sweepCounter d + 1\<rparr>" now]
  by (simp add: counted_def Let_def storage_get_put)

lemma counted_ok: "store_ok (storage d) \<Longrightarrow> store_ok (storage (counted now key w d))"
  using cleanup_ok [of "d\<lparr>sweepCounter := sweepCounter d + 1\<rparr>" now]
  by (simp add: counted_def Let_def storage_put_ok)

lemma counted_live:
  assumes "store_ok (storage d)" "now \<le> t"
  shows "live t (counted now key w d) k =
    (if k = key then (if resetAt (bump_bucket now w (live now d key)) \<le> t then None
                      else Some (bump_bucket now w (live now d key)))
     else live t d k)"
  using cleanup_live [of "d\<lparr>sweepCounter := sweepCounter d + 1\<rparr>" now t k] assms
  by (simp add: live_def counted_get)

lemma counted_entry_count:
  assumes "store_ok (storage d)"
  shows "entry_count (counted now key w d) \<le> Suc (entry_count d)"
proof -
  let ?d1 = "d\<lparr>sweepCounter := sweepCounter d + 1\<rparr>"
  let ?d2 = "if sweepCounter ?d1 mod 256 = 0 then cleanupExpiredBuckets now ?d1 else ?d1"
  have "store_ok (storage ?d2)" using assms cleanup_ok [of ?d1 now] by simp
  then have "entry_count (counted now key w d) \<le> Suc (entry_count ?d2)"
    unfolding entry_count_def counted_def Let_def by (simp add: st.entries_put_length)
  moreover have "entry_count ?d2 \<le> entry_count ?d1" using cleanup_entry_count [of ?d1 now] assms by simp
  moreover have "entry_count ?d1 = entry_count d" by (simp add: entry_count_def)
  ultimately show ?thesis by simp
qed

lemma count_request_small:
  assumes "store_ok (storage d)" "Suc (entry_count d) \<le> RATE_LIMIT_MAX_BUCKETS"
  shows "count_request now key m w d =
    (counted now key w d, RlOk (rl_result now m (bump_bucket now w (live now d key))))"
  using count_request_counted [OF assms(1)] enforce_small [of "counted now key w d" now]
    counted_entry_count [OF assms(1), of now key w] assms(2) by simp

lemma rl_alarm_small:
  assumes "store_ok (storage d)" "entry_count d \<le> RATE_LIMIT_MAX_BUCKETS"
  shows "storage (rl_alarm now d) = storage (cleanupExpiredBuckets now d)"
proof -
  let ?d1 = "cleanupExpiredBuckets now (d\<lparr>alarm_at := None\<rparr>)"
  have "entry_count ?d1 \<le> entry_count (d\<lparr>alarm_at := None\<rparr>)" by (rule cleanup_entry_count) (simp add: assms)
  also have "\<dots> = entry_count d" by (simp add: entry_count_def)
  finally have "enforceBucketLimit now ?d1 = ?d1" using assms(2) by (intro enforce_small) simp
  then show ?thesis by (simp add: rl_alarm_def Let_def cleanupExpiredBuckets_def)
qed

subsection \<open>Steps below the cap\<close>

text \<open>The effect of a step on the counter of one key, while the cap is out of reach.\<close>

lemma rl_step_get:
  assumes ok: "store_ok (storage d)" and cap: "Suc (entry_count d) \<le> RATE_LIMIT_MAX_BUCKETS"
    and b: "storage_get (storage d) k = Some b" and t: "rl_time e < resetAt b"
  shows "storage_get (storage (fst (rl_step e d))) k =
      Some (if targets k e then b\<lparr>bcount := bcount b + 1\<rparr> else b)"
    and "store_ok (storage (fst (rl_step e d)))"
    and "entry_count (fst (rl_step e d)) \<le> Suc (entry_count d)"
proof -
  have "storage_get (storage (fst (rl_step e d))) k =
      Some (if targets k e then b\<lparr>bcount := bcount b + 1\<rparr> else b) \<and>
    store_ok (storage (fst (rl_step e d))) \<and> entry_count (fst (rl_step e d)) \<le> Suc (entry_count d)"
  proof (cases e)
    case (RlAlarm now)
    have "storage (rl_alarm now d) = storage (cleanupExpiredBuckets now d)"
      using ok cap by (intro rl_alarm_small) simp_all
    then show ?thesis
      using RlAlarm b t cleanup_ok [OF ok] cleanup_get [OF ok] cleanup_entry_count [OF ok, of now]
      by (simp add: entry_count_def)
  next
    case (RlReq now r)
    show ?thesis
    proof (cases "request_target r")
      case None
      then show ?thesis using RlReq b ok rl_fetch_no_target [OF None, of now d]
        by (simp add: split_beta)
    next
      case (Some x)
      obtain k' m w where x: "x = (k', m, w)" by (cases x)
      have s: "fst (rl_step e d) = counted now k' w d"
        using RlReq Some x ok cap by (simp add: rl_fetch_target count_request_small)
      have "live now d k = Some b" using b t RlReq by (simp add: live_def)
      moreover have "storage_get (storage (cleanupExpiredBuckets now (d\<lparr>sweepCounter := sweepCounter d + 1\<rparr>))) k = Some b"
        using cleanup_get [of "d\<lparr>sweepCounter := sweepCounter d + 1\<rparr>" now k] ok b t RlReq by simp
      ultimately show ?thesis
        using s RlReq Some x b t counted_ok [OF ok] counted_entry_count [OF ok, of now k' w]
        by (auto simp: counted_get [OF ok] bump_bucket_def)
    qed
  qed
  then show "storage_get (storage (fst (rl_step e d))) k =
      Some (if targets k e then b\<lparr>bcount := bcount b + 1\<rparr> else b)"
    "store_ok (storage (fst (rl_step e d)))" "entry_count (fst (rl_step e d)) \<le> Suc (entry_count d)"
    by blast+
qed

text \<open>Every request for \<open>k\<close> in the events carries the limit \<open>m\<close>.\<close>

definition uses_limit :: "string \<Rightarrow> int \<Rightarrow> rl_event list \<Rightarrow> bool" where
  "uses_limit k m es \<longleftrightarrow> list_all (\<lambda>e. case e of
      RlReq t r \<Rightarrow> (case request_target r of Some (k', m', w) \<Rightarrow> k' = k \<longrightarrow> m' = m | None \<Rightarrow> True)
    | RlAlarm t \<Rightarrow> True) es"

lemma rl_step_allowed:
  assumes ok: "store_ok (storage d)" and cap: "Suc (entry_count d) \<le> RATE_LIMIT_MAX_BUCKETS"
    and b: "storage_get (storage d) k = Some b" and t: "rl_time e < resetAt b"
    and k: "targets k e" and m: "uses_limit k m [e]"
  shows "is_allowed (snd (rl_step e d)) \<longleftrightarrow> bcount b + 1 \<le> m"
proof -
  obtain now r w where e: "e = RlReq now r" "request_target r = Some (k, m, w)"
    using k m by (cases e) (auto simp: uses_limit_def split: option.splits)
  have "live now d k = Some b" using b t e by (simp add: live_def)
  then show ?thesis
    using e t ok cap by (simp add: rl_fetch_target count_request_small rl_result_def bump_bucket_def)
qed

lemma allowed_for_live:
  assumes "store_ok (storage d)" "entry_count d + length es \<le> RATE_LIMIT_MAX_BUCKETS"
    and "storage_get (storage d) k = Some b" "\<forall>e \<in> set es. rl_time e < resetAt b"
    and "uses_limit k m es"
  shows "allowed_for k es d = min (length (filter (targets k) es)) (nat (m - bcount b))"
  using assms
proof (induction es arbitrary: d b)
  case Nil
  then show ?case by (simp add: allowed_for_def)
next
  case (Cons e es)
  let ?d = "fst (rl_step e d)"
  let ?b = "if targets k e then b\<lparr>bcount := bcount b + 1\<rparr> else b"
  have cap: "Suc (entry_count d) \<le> RATE_LIMIT_MAX_BUCKETS" using Cons.prems(2) by simp
  note g = rl_step_get [OF Cons.prems(1) cap Cons.prems(3), of e]
  have t: "rl_time e < resetAt b" using Cons.prems(4) by simp
  have IH: "allowed_for k es ?d = min (length (filter (targets k) es)) (nat (m - bcount ?b))"
    using Cons.prems g [OF t] by (intro Cons.IH) (auto simp: uses_limit_def)
  have "allowed_for k (e # es) d =
      (if targets k e \<and> is_allowed (snd (rl_step e d)) then 1 else 0) + allowed_for k es ?d"
    by (simp add: allowed_for_def split_beta)
  moreover have "targets k e \<Longrightarrow> is_allowed (snd (rl_step e d)) \<longleftrightarrow> bcount b + 1 \<le> m"
    using Cons.prems(5) by (intro rl_step_allowed [OF Cons.prems(1) cap Cons.prems(3) t]) (simp_all add: uses_limit_def)
  ultimately show ?case using IH by (cases "targets k e") auto
qed

subsection \<open>Reachable states\<close>

definition rl_init :: rate_limit_do where
  "rl_init = \<lparr>storage = [], alarm_at = None, sweepCounter = 0\<rparr>"

inductive rl_reachable :: "rate_limit_do \<Rightarrow> bool" where
  rl_start: "rl_reachable rl_init"
| rl_next: "rl_reachable d \<Longrightarrow> rl_reachable (fst (rl_step e d))"

definition rl_inv :: "rate_limit_do \<Rightarrow> bool" where
  "rl_inv d \<longleftrightarrow> store_ok (storage d) \<and>
     (storage_list RATE_LIMIT_STORAGE_PREFIX (storage d) \<noteq> [] \<longrightarrow> alarm_at d \<noteq> None)"

lemma counted_alarm: "alarm_at (counted now k w d) \<noteq> None"
  by (simp add: counted_def Let_def schedule_alarm)

lemma count_request_inv: "store_ok (storage d) \<Longrightarrow> rl_inv (fst (count_request now k m w d))"
  using counted_alarm [of now k w d]
  by (simp add: count_request_counted rl_inv_def counted_ok enforce_ok)

lemma rl_alarm_inv: "store_ok (storage d) \<Longrightarrow> rl_inv (rl_alarm now d)"
  by (simp add: rl_alarm_def rl_inv_def Let_def enforce_ok cleanup_ok)

lemma rl_step_inv: "rl_inv d \<Longrightarrow> rl_inv (fst (rl_step e d))"
proof (cases e)
  case (RlReq t r)
  assume i: "rl_inv d"
  show ?thesis
  proof (cases "request_target r")
    case None
    then show ?thesis using i RlReq rl_fetch_no_target [OF None, of t d] by (simp add: split_beta)
  next
    case (Some x)
    then show ?thesis using i RlReq by (cases x) (simp add: rl_fetch_target split_beta count_request_inv rl_inv_def [of d])
  qed
qed (simp add: rl_alarm_inv rl_inv_def [of d])

lemma rl_reachable_inv: "rl_reachable d \<Longrightarrow> rl_inv d"
  by (induction rule: rl_reachable.induct) (simp_all add: rl_step_inv, simp add: rl_inv_def rl_init_def storage_list_def)

subsection \<open>The cap\<close>

lemma enforce_entry_count:
  assumes ok: "store_ok (storage d)"
  shows "entry_count (enforceBucketLimit now d) \<le> RATE_LIMIT_MAX_BUCKETS"
proof -
  let ?es = "storage_list RATE_LIMIT_STORAGE_PREFIX (storage d)"
  let ?l = "filter (\<lambda>e. fst e \<notin> set (overflow_keys now ?es)) ?es"
  have "length ?l = length (drop (length (active_entries now ?es) - RATE_LIMIT_MAX_BUCKETS)
      (sort_key (\<lambda>(k, v). resetAt v) (active_entries now ?es)))"
    using overflow_survivors [OF st.entries_distinct [OF ok]] by (rule mset_eq_length)
  then have "length ?l \<le> RATE_LIMIT_MAX_BUCKETS" by simp
  then show ?thesis
    by (simp add: enforceBucketLimit_def entry_count_def Let_def storage_list_delete_all)
qed

lemma live_Some: "live t d k = Some b \<longleftrightarrow> storage_get (storage d) k = Some b \<and> \<not> resetAt b \<le> t"
  by (auto simp: live_def split: option.splits)

text \<open>A removed live counter is one of the oldest; a kept one is among the rest.\<close>

lemma enforce_removed:
  assumes ok: "store_ok (storage d)" and k: "live now d k = Some b"
    and gone: "storage_get (storage (enforceBucketLimit now d)) k = None"
  defines "a \<equiv> active_entries now (storage_list RATE_LIMIT_STORAGE_PREFIX (storage d))"
  shows "(k, b) \<in> set (take (length a - RATE_LIMIT_MAX_BUCKETS) (sort_key (\<lambda>(k, v). resetAt v) a))"
proof -
  let ?es = "storage_list RATE_LIMIT_STORAGE_PREFIX (storage d)"
  let ?t = "take (length a - RATE_LIMIT_MAX_BUCKETS) (sort_key (\<lambda>(k, v). resetAt v) a)"
  have gk: "storage_get (storage d) k = Some b" "\<not> resetAt b \<le> now" using k by (simp_all add: live_Some)
  then have "k \<in> set (overflow_keys now ?es)"
    using gone by (simp add: enforceBucketLimit_def Let_def storage_get_delete_all [OF ok] split: if_splits)
  then have "k \<in> fst ` set ?t"
    using gk by (auto simp: overflow_keys_def Let_def a_def active_entries_def st.entries_get [OF ok]
        image_iff Bex_def split: if_splits)
  then obtain b' where b': "(k, b') \<in> set ?t" by auto
  then have "(k, b') \<in> set a" by (auto dest: in_set_takeD)
  then have "(k, b') \<in> set ?es" by (simp add: a_def active_entries_def)
  then have "b' = b" using gk(1) by (simp add: st.entries_get [OF ok])
  with b' show ?thesis by simp
qed

lemma enforce_kept:
  assumes ok: "store_ok (storage d)"
    and j: "js_startsWith j RATE_LIMIT_STORAGE_PREFIX" "live now (enforceBucketLimit now d) j = Some c"
    and big: "RATE_LIMIT_MAX_BUCKETS < length (storage_list RATE_LIMIT_STORAGE_PREFIX (storage d))"
  defines "a \<equiv> active_entries now (storage_list RATE_LIMIT_STORAGE_PREFIX (storage d))"
  shows "(j, c) \<in> set (drop (length a - RATE_LIMIT_MAX_BUCKETS) (sort_key (\<lambda>(k, v). resetAt v) a))"
proof -
  let ?es = "storage_list RATE_LIMIT_STORAGE_PREFIX (storage d)"
  have "storage_get (storage d) j = Some c" "j \<notin> set (overflow_keys now ?es)"
    using j(2) big by (simp_all add: live_Some enforceBucketLimit_def Let_def
        storage_get_delete_all [OF ok] split: if_splits)
  then have "(j, c) \<in> set (filter (\<lambda>e. fst e \<notin> set (overflow_keys now ?es)) ?es)"
    using j(1) by (simp add: st.entries_get [OF ok])
  then show ?thesis unfolding a_def
    using mset_eq_setD [OF overflow_survivors [OF st.entries_distinct [OF ok]]] by blast
qed

lemma enforce_oldest_first:
  assumes ok: "store_ok (storage d)"
    and k: "live now d k = Some b" "storage_get (storage (enforceBucketLimit now d)) k = None"
    and j: "js_startsWith j RATE_LIMIT_STORAGE_PREFIX" "live now (enforceBucketLimit now d) j = Some c"
  shows "resetAt b \<le> resetAt c"
proof -
  let ?es = "storage_list RATE_LIMIT_STORAGE_PREFIX (storage d)"
  let ?s = "sort_key (\<lambda>(k, v). resetAt v) (active_entries now ?es)"
  let ?n = "length (active_entries now ?es) - RATE_LIMIT_MAX_BUCKETS"
  have big: "RATE_LIMIT_MAX_BUCKETS < length ?es"
    using k by (rule_tac ccontr) (simp add: live_Some enforceBucketLimit_def Let_def)
  have "sorted (map (\<lambda>(k, v). resetAt v) (take ?n ?s @ drop ?n ?s))" by simp
  then have "\<forall>x \<in> set (take ?n ?s). \<forall>y \<in> set (drop ?n ?s). (case x of (k, v) \<Rightarrow> resetAt v) \<le> (case y of (k, v) \<Rightarrow> resetAt v)"
    unfolding map_append sorted_append by (simp del: append_take_drop_id)
  then show ?thesis
    using enforce_removed [OF ok k] enforce_kept [OF ok j big] by fastforce
qed

text \<open>The abstract fixed window: a key without a live counter opens a window, a live counter
  counts on and keeps its reset time.\<close>

definition window_count :: "int \<Rightarrow> int \<Rightarrow> bucket option \<Rightarrow> bucket" where
  "window_count now w live_counter =
     (case live_counter of None \<Rightarrow> \<lparr>bcount = 1, resetAt = now + w\<rparr> | Some b \<Rightarrow> b\<lparr>bcount := bcount b + 1\<rparr>)"

lemma bump_window: "bump_bucket now w (live now d k) = window_count now w (live now d k)"
  by (auto simp: bump_bucket_def window_count_def live_def split: option.splits)

subsection \<open>Properties\<close>



text \<open>
  C16. The cap: after \<open>enforceBucketLimit\<close> the object holds at most 5000 counters, and no live
  counter it removed resets later than a live counter it kept.
\<close>

theorem enforce_bucket_limit_bound:
  assumes "store_ok (storage d)"
  shows "entry_count (enforceBucketLimit now d) \<le> RATE_LIMIT_MAX_BUCKETS \<and>
    (\<forall>k b j c. live now d k = Some b \<and> storage_get (storage (enforceBucketLimit now d)) k = None \<and>
       js_startsWith j RATE_LIMIT_STORAGE_PREFIX \<and> live now (enforceBucketLimit now d) j = Some c
       \<longrightarrow> resetAt b \<le> resetAt c)"
  using enforce_entry_count [OF assms] enforce_oldest_first [OF assms] by blast

text \<open>
  In every reachable state of the object the cleanup alarm is pending whenever a counter is
  stored, so no expired counter is kept for ever.
\<close>

theorem rate_limit_alarm_pending:
  assumes "rl_reachable d" and "storage_list RATE_LIMIT_STORAGE_PREFIX (storage d) \<noteq> []"
  shows "alarm_at d \<noteq> None"
  using rl_reachable_inv [OF assms(1)] assms(2) by (simp add: rl_inv_def)

text \<open>
  What the cap costs. When more than 5000 counters are live, enforcing the cap removes a live
  counter, and the next request for its key starts a new window with count one: the limit of
  that key is lifted early. The comment in the source says that correctness does not depend on
  compaction.
\<close>

theorem cap_drops_live_counter:
  assumes ok: "store_ok (storage d)"
    and many: "RATE_LIMIT_MAX_BUCKETS <
      length (active_entries now (storage_list RATE_LIMIT_STORAGE_PREFIX (storage d)))"
  shows "\<exists>k b. live now d k = Some b \<and> live now (enforceBucketLimit now d) k = None \<and>
    bump_bucket now w (live now (enforceBucketLimit now d) k) = \<lparr>bcount = 1, resetAt = now + w\<rparr>"
proof -
  let ?es = "storage_list RATE_LIMIT_STORAGE_PREFIX (storage d)"
  let ?a = "active_entries now ?es"
  let ?s = "sort_key (\<lambda>(k, v). resetAt v) ?a"
  have "take (length ?a - RATE_LIMIT_MAX_BUCKETS) ?s \<noteq> []" using many by (simp flip: length_greater_0_conv)
  then obtain k b where kb: "(k, b) \<in> set (take (length ?a - RATE_LIMIT_MAX_BUCKETS) ?s)"
    by (metis hd_in_set surj_pair)
  then have "(k, b) \<in> set ?a" by (auto dest: in_set_takeD)
  then have l: "live now d k = Some b"
    by (simp add: active_entries_def st.entries_get [OF ok] live_Some)
  have "k \<in> fst ` set (take (length ?a - RATE_LIMIT_MAX_BUCKETS) ?s)" using kb by force
  then have "k \<in> set (overflow_keys now ?es)"
    using many by (simp add: overflow_keys_def Let_def active_entries_def)
  moreover have "RATE_LIMIT_MAX_BUCKETS < length ?es"
    using many unfolding active_entries_def by (rule less_le_trans [OF _ length_filter_le])
  ultimately have "live now (enforceBucketLimit now d) k = None"
    by (simp add: live_def enforceBucketLimit_def Let_def storage_get_delete_all [OF ok])
  with l show ?thesis by (auto simp: bump_bucket_def)
qed

subsection \<open>Witnesses\<close>

definition sample_request :: rl_request where
  "sample_request =
     \<lparr>rl_method = ''POST'', rl_path = ''/rate-limit'', rl_content_length = None,
      rl_body = Some (Obj [(''bucket'', Str ''login''), (''ip'', Str ''ip1''),
        (''max'', Num (Fin 1)), (''windowMs'', Num (Fin 1000))])\<rparr>"

lemma sample_request_target:
  "request_target sample_request = Some (bucket_key ''login'' ''ip1'', 1, 1000)"
  by (simp add: request_target_def sample_request_def declared_too_large_def str_to_num_digits
      is_digit_def cc_def mk_num_def digits_val_def
      body_text_def body_field_def js_get_def Let_def serializedBytes_def json_quote_def json_escape_def
      RATE_LIMIT_MAX_BODY_BYTES_def utf8_encode_def utf8_char_def int_to_str_def nat_to_str.simps)

lemma rl_init_ok: "store_ok (storage rl_init)" "live t rl_init k = None" "entry_count rl_init = 0"
  by (simp_all add: rl_init_def live_def storage_get_def entry_count_def storage_list_def)



text \<open>An object with 5001 live counters.\<close>

definition full_do :: rate_limit_do where
  "full_do = rl_init\<lparr>storage :=
     map (\<lambda>n. (RATE_LIMIT_STORAGE_PREFIX @ replicate n CHR ''a'', \<lparr>bcount = 1, resetAt = 5\<rparr>)) [0 ..< 5001]\<rparr>"

lemma replicate_less: "m < n \<Longrightarrow> p @ replicate m (c::char) < p @ replicate n c"
proof (induction p)
  case Nil
  then obtain j where n: "n = m + Suc j" using less_imp_Suc_add by auto
  have "replicate m c < replicate (m + Suc j) c" by (induction m) simp_all
  then show ?case by (simp add: n)
qed simp

lemma full_do_facts: "store_ok (storage full_do)"
  "RATE_LIMIT_MAX_BUCKETS < length (active_entries 0 (storage_list RATE_LIMIT_STORAGE_PREFIX (storage full_do)))"
proof -
  show "store_ok (storage full_do)"
    by (auto simp: full_do_def store_ok_def sorted_wrt_map comp_def replicate_less
        intro!: sorted_wrt_mono_rel [OF _ sorted_wrt_upt])
  have "active_entries 0 (storage_list RATE_LIMIT_STORAGE_PREFIX (storage full_do)) = storage full_do"
    by (simp add: full_do_def active_entries_def storage_list_def js_startsWith_def filter_id_conv)
  then show "RATE_LIMIT_MAX_BUCKETS <
      length (active_entries 0 (storage_list RATE_LIMIT_STORAGE_PREFIX (storage full_do)))"
    by (simp add: full_do_def RATE_LIMIT_MAX_BUCKETS_def)
qed

theorem enforce_bucket_limit_bound_witness:
  "entry_count (enforceBucketLimit 0 full_do) \<le> RATE_LIMIT_MAX_BUCKETS"
  using enforce_bucket_limit_bound [OF full_do_facts(1)] by blast

theorem cap_drops_live_counter_witness:
  "\<exists>k b. live 0 full_do k = Some b \<and> live 0 (enforceBucketLimit 0 full_do) k = None"
  using cap_drops_live_counter [OF full_do_facts] by blast

theorem rate_limit_alarm_pending_witness:
  "alarm_at (fst (rl_step (RlReq 0 sample_request) rl_init)) \<noteq> None"
proof (rule rate_limit_alarm_pending)
  show "rl_reachable (fst (rl_step (RlReq 0 sample_request) rl_init))"
    by (intro rl_reachable.intros)
  have "fst (rl_step (RlReq 0 sample_request) rl_init) = counted 0 (bucket_key ''login'' ''ip1'') 1000 rl_init"
    using count_request_small [OF rl_init_ok(1)]
    by (simp add: rl_fetch_target [OF sample_request_target] rl_init_ok RATE_LIMIT_MAX_BUCKETS_def)
  moreover have "(bucket_key ''login'' ''ip1'', bump_bucket 0 1000 None)
      \<in> set (storage_list RATE_LIMIT_STORAGE_PREFIX (storage (counted 0 (bucket_key ''login'' ''ip1'') 1000 rl_init)))"
    using request_target_valid(3) [OF sample_request_target]
    by (simp add: st.entries_get [OF counted_ok [OF rl_init_ok(1)]] counted_get [OF rl_init_ok(1)] rl_init_ok)
  ultimately show "storage_list RATE_LIMIT_STORAGE_PREFIX (storage (fst (rl_step (RlReq 0 sample_request) rl_init))) \<noteq> []"
    by (metis empty_iff list.set(1))
qed

end
