(* ===== verification/Totp.thy ===== *)
theory Totp
  imports JsBytes
begin

unbundle bit_operations_syntax

section \<open>Base32 and time-based one-time passwords\<close>

text \<open>
  \<open>auth/totp.ts\<close>. Bitwise operators work on 32-bit integers, so the bit buffer \<open>value\<close> is a 32-bit
  word that overflows as it does in the source. HMAC-SHA-1 is the platform's: a parameter \<open>hmac\<close>
  of the definitions that use it, whose only assumed property is the length of its result.
\<close>

definition BASE32_ALPHABET :: string where
  "BASE32_ALPHABET = ''ABCDEFGHIJKLMNOPQRSTUVWXYZ234567''"

definition TOTP_PERIOD_SECONDS :: int where "TOTP_PERIOD_SECONDS = 30"
definition TOTP_DIGITS :: nat where "TOTP_DIGITS = 6"
definition TOTP_SECRET_BYTES :: nat where "TOTP_SECRET_BYTES = 20"

definition totp_constantTimeEqual :: "string \<Rightarrow> string \<Rightarrow> bool" where
  "totp_constantTimeEqual left right = ct_bytes (utf8_encode left) (utf8_encode right)"

subsection \<open>Base32\<close>

type_synonym u32 = "32 word"

text \<open>The inner loop \<open>while (bits >= 5)\<close>.\<close>

fun b32_emit :: "nat \<Rightarrow> u32 \<Rightarrow> string \<Rightarrow> nat \<times> string" where
  "b32_emit bits v out =
     (if 5 \<le> bits
      then b32_emit (bits - 5) v (out @ [BASE32_ALPHABET ! unat (drop_bit (bits - 5) v AND 31)])
      else (bits, out))"

declare b32_emit.simps [simp del]

fun b32_enc_loop :: "bytes \<Rightarrow> nat \<Rightarrow> u32 \<Rightarrow> string \<Rightarrow> nat \<times> u32 \<times> string" where
  "b32_enc_loop [] bits v out = (bits, v, out)"
| "b32_enc_loop (b # bs) bits v out =
     (let v' = push_bit 8 v OR ucast b; (bits', out') = b32_emit (bits + 8) v' out
      in b32_enc_loop bs bits' v' out')"

definition base32Encode :: "bytes \<Rightarrow> string" where
  "base32Encode bs =
     (let (bits, v, out) = b32_enc_loop bs 0 0 []
      in if 0 < bits then out @ [BASE32_ALPHABET ! unat (push_bit (5 - bits) v AND 31)] else out)"

definition is_b32 :: "char \<Rightarrow> bool" where
  "is_b32 c \<longleftrightarrow> is_AZ c \<or> (50 \<le> cc c \<and> cc c \<le> 55)"

text \<open>\<open>BASE32_ALPHABET.indexOf(c)\<close>, \<open>None\<close> for -1.\<close>

fun index_of :: "char \<Rightarrow> string \<Rightarrow> nat option" where
  "index_of c [] = None"
| "index_of c (x # xs) = (if x = c then Some 0 else map_option Suc (index_of c xs))"

fun b32_dec_loop :: "string \<Rightarrow> nat \<Rightarrow> u32 \<Rightarrow> bytes \<Rightarrow> bytes option" where
  "b32_dec_loop [] bits v out = Some out"
| "b32_dec_loop (c # cs) bits v out =
     (case index_of c BASE32_ALPHABET of
        None \<Rightarrow> None
      | Some i \<Rightarrow>
          (let v' = push_bit 5 v OR word_of_nat i; bits' = bits + 5
           in if 8 \<le> bits'
              then b32_dec_loop cs (bits' - 8) v' (out @ [ucast (drop_bit (bits' - 8) v' AND 0xff)])
              else b32_dec_loop cs bits' v' out))"

definition strip_eq :: "string \<Rightarrow> string" where
  "strip_eq s = rev (dropWhile (\<lambda>c. c = CHR ''='') (rev s))"

definition base32Decode :: "string \<Rightarrow> bytes option" where
  "base32Decode input =
     (let normalized = strip_eq (js_toUpperCase (js_trim input))
      in if normalized = [] \<or> \<not> list_all is_b32 normalized then None
         else b32_dec_loop normalized 0 0 [])"

text \<open>The random bytes are an argument.\<close>

definition generateTotpSecret :: "bytes \<Rightarrow> string" where
  "generateTotpSecret random20 = base32Encode random20"

subsection \<open>Codes\<close>

text \<open>\<open>counterBytes\<close>: the loop fills the eight bytes from the last to the first.\<close>

fun counter_loop :: "nat \<Rightarrow> int \<Rightarrow> bytes \<Rightarrow> bytes" where
  "counter_loop 0 v out = out"
| "counter_loop (Suc n) v out = counter_loop n (drop_bit 8 v) (word_of_int (v AND 0xff) # out)"

definition counterBytes :: "int \<Rightarrow> bytes" where
  "counterBytes step = counter_loop 8 step []"

definition padStart :: "nat \<Rightarrow> char \<Rightarrow> string \<Rightarrow> string" where
  "padStart n c s = replicate (n - length s) c @ s"

text \<open>Reading past the end of a signature gives \<open>undefined\<close>, which bitwise operators read as 0.\<close>

definition sig_byte :: "bytes \<Rightarrow> nat \<Rightarrow> u32" where
  "sig_byte sg i = (if i < length sg then ucast (sg ! i) else 0)"

definition truncate_signature :: "bytes \<Rightarrow> u32" where
  "truncate_signature sg =
     (let offset = unat (sig_byte sg (length sg - 1) AND 0x0f)
      in push_bit 24 (sig_byte sg offset AND 0x7f) OR
         push_bit 16 (sig_byte sg (offset + 1) AND 0xff) OR
         push_bit 8 (sig_byte sg (offset + 2) AND 0xff) OR
         (sig_byte sg (offset + 3) AND 0xff))"

definition codeForStep :: "(bytes \<Rightarrow> bytes \<Rightarrow> bytes) \<Rightarrow> string \<Rightarrow> int \<Rightarrow> string option" where
  "codeForStep hmac secret step =
     (case base32Decode secret of
        None \<Rightarrow> None
      | Some key \<Rightarrow>
          Some (padStart TOTP_DIGITS CHR ''0''
            (nat_to_str (unat (truncate_signature (hmac key (counterBytes step))) mod 10 ^ TOTP_DIGITS))))"

text \<open>\<open>Math.floor(timestamp / 1000 / 30)\<close> for an integer timestamp.\<close>

definition totp_step :: "int \<Rightarrow> int" where
  "totp_step timestamp = timestamp div 1000 div TOTP_PERIOD_SECONDS"

definition generateTotpCode :: "(bytes \<Rightarrow> bytes \<Rightarrow> bytes) \<Rightarrow> string \<Rightarrow> int \<Rightarrow> string option" where
  "generateTotpCode hmac secret timestamp = codeForStep hmac secret (totp_step timestamp)"

definition is_totp_code :: "string \<Rightarrow> bool" where
  "is_totp_code code \<longleftrightarrow> length code = 6 \<and> list_all is_digit code"

record totp_result =
  totp_valid :: bool
  totp_step_of :: "int option"

text \<open>The loop over the offsets; \<open>None\<close> where decoding the secret throws.\<close>

fun totp_try :: "(bytes \<Rightarrow> bytes \<Rightarrow> bytes) \<Rightarrow> string \<Rightarrow> string \<Rightarrow> int \<Rightarrow> int list \<Rightarrow> totp_result option" where
  "totp_try hmac secret code cur [] = Some \<lparr>totp_valid = False, totp_step_of = None\<rparr>"
| "totp_try hmac secret code cur (off # offs) =
     (let step = cur + off in
      if 0 \<le> step then
        (case codeForStep hmac secret step of
           None \<Rightarrow> None
         | Some expected \<Rightarrow>
             if totp_constantTimeEqual expected code
             then Some \<lparr>totp_valid = True, totp_step_of = Some step\<rparr>
             else totp_try hmac secret code cur offs)
      else totp_try hmac secret code cur offs)"

definition verifyTotpCode ::
  "(bytes \<Rightarrow> bytes \<Rightarrow> bytes) \<Rightarrow> string \<Rightarrow> string \<Rightarrow> int \<Rightarrow> totp_result option" where
  "verifyTotpCode hmac secret code timestamp =
     (if \<not> is_totp_code code then Some \<lparr>totp_valid = False, totp_step_of = None\<rparr>
      else totp_try hmac secret code (totp_step timestamp) [0, -1, 1])"

subsection \<open>The bit buffers\<close>

text \<open>The pending bits of a buffer as a number.\<close>

definition low :: "nat \<Rightarrow> u32 \<Rightarrow> nat" where
  "low n v = unat v mod 2 ^ n"

lemma low_less: "low n v < 2 ^ n"
  by (simp add: low_def)

lemma push_or_plus:
  fixes v :: u32
  assumes "unat x < 2 ^ k"
  shows "push_bit k v OR x = push_bit k v + x"
proof -
  have "\<not> bit x n" if "k \<le> n" for n
  proof -
    have "take_bit k x = x"
      using assms by (metis take_bit_nat_eq_self unsigned_take_bit_eq word_unat_eq_iff)
    then have "bit x n = bit (take_bit k x) n" by simp
    then show ?thesis using that by (simp add: bit_take_bit_iff)
  qed
  then show ?thesis
    by (intro disjunctive_add_eq_or [symmetric]) (auto simp: bit_eq_iff bit_simps)
qed

lemma low_push:
  fixes v :: u32
  assumes "unat x < 2 ^ k" "n + k \<le> 32"
  shows "low (n + k) (push_bit k v OR x) = low n v * 2 ^ k + unat x"
proof -
  have dvd: "(2::nat) ^ (n + k) dvd 2 ^ 32" using assms(2) by (rule le_imp_power_dvd)
  have "low (n + k) (push_bit k v OR x) = unat (push_bit k v + x) mod 2 ^ (n + k)"
    using push_or_plus [OF assms(1)] by (simp add: low_def)
  also have "\<dots> = ((unat v * 2 ^ k) mod 2 ^ 32 + unat x) mod 2 ^ 32 mod 2 ^ (n + k)"
  proof -
    have "unat (push_bit k v) = (unat v * 2 ^ k) mod 2 ^ 32"
      by (simp add: unsigned_push_bit_eq take_bit_eq_mod flip: push_bit_eq_mult)
    then show ?thesis by (simp add: unat_word_ariths(1))
  qed
  also have "\<dots> = (unat v * 2 ^ k + unat x) mod 2 ^ (n + k)"
    unfolding mod_mod_cancel [OF dvd] by (metis dvd mod_add_left_eq mod_mod_cancel)
  also have "\<dots> = low n v * 2 ^ k + unat x"
    using assms(1) by (simp add: low_def power_add mod_mult2_eq mult.commute [of _ "2 ^ k"])
  finally show ?thesis .
qed


lemma low_extract:
  assumes "k \<le> n"
  shows "unat (drop_bit (n - k) v AND mask k) = low n v div 2 ^ (n - k)"
proof -
  have "drop_bit (n - k) v AND mask k = drop_bit (n - k) (take_bit n v)"
    using assms by (simp flip: take_bit_eq_mask add: take_bit_drop_bit)
  then show ?thesis
    by (simp add: low_def unat_drop_bit_eq unsigned_take_bit_eq flip: take_bit_eq_mod drop_bit_eq_div)
qed

lemma low_low: "k \<le> n \<Longrightarrow> low k v = low n v mod 2 ^ k"
  by (simp add: low_def mod_mod_cancel le_imp_power_dvd)

lemma low_extract5: "5 \<le> n \<Longrightarrow> unat (drop_bit (n - 5) v AND 31) = low n v div 2 ^ (n - 5)"
  using low_extract [of 5 n v] by (simp add: mask_eq_exp_minus_1)

lemma low_extract8: "8 \<le> n \<Longrightarrow> unat (drop_bit (n - 8) v AND 0xff) = low n v div 2 ^ (n - 8)"
  using low_extract [of 8 n v] by (simp add: mask_eq_exp_minus_1)

lemma low_last:
  assumes "0 < e" "e < 5"
  shows "unat (push_bit (5 - e) v AND 31) = low e v * 2 ^ (5 - e)"
proof -
  have "low (e + (5 - e)) (push_bit (5 - e) v OR 0) = low e v * 2 ^ (5 - e)"
    using assms by (subst low_push) simp_all
  then have "low 5 (push_bit (5 - e) v) = low e v * 2 ^ (5 - e)" using assms by simp
  moreover have "unat (push_bit (5 - e) v AND 31) = low 5 (push_bit (5 - e) v)"
    using low_extract5 [of 5] by simp
  ultimately show ?thesis by simp
qed

subsection \<open>The alphabet\<close>

lemma alphabet_length [simp]: "length BASE32_ALPHABET = 32"
  by (simp add: BASE32_ALPHABET_def)

lemma alphabet_distinct: "distinct BASE32_ALPHABET"
  by (simp add: BASE32_ALPHABET_def)

lemma index_of_nth: "distinct xs \<Longrightarrow> i < length xs \<Longrightarrow> index_of (xs ! i) xs = Some i"
  by (induction xs arbitrary: i) (auto simp: nth_Cons split: nat.splits)

lemma index_of_alphabet [simp]: "i < 32 \<Longrightarrow> index_of (BASE32_ALPHABET ! i) BASE32_ALPHABET = Some i"
  by (rule index_of_nth) (simp_all add: alphabet_distinct)

lemma alphabet_b32: "list_all is_b32 BASE32_ALPHABET"
  by (simp add: BASE32_ALPHABET_def is_b32_def is_AZ_def cc_def)

lemma nth_alphabet_b32 [simp]: "i < 32 \<Longrightarrow> is_b32 (BASE32_ALPHABET ! i)"
  using alphabet_b32 by (simp add: list_all_length)


subsection \<open>Decoding what was encoded\<close>

text \<open>
  Big-endian value of a byte list, and the relation between the buffers of the encoder (\<open>n\<close> bits
  of \<open>v\<close>) and of a decoder that has read all the encoder wrote (\<open>d\<close> bits of \<open>w\<close>, output \<open>out\<close>):
  together the buffers spell the bytes that are still missing from the output.
\<close>

definition be :: "bytes \<Rightarrow> nat" where
  "be bs = foldl (\<lambda>a b. a * 256 + unat b) 0 bs"

lemma be_snoc: "be (bs @ [b]) = be bs * 256 + unat b"
  by (simp add: be_def)

lemma be_shift: "foldl (\<lambda>a b. a * 256 + unat b) x bs = x * 256 ^ length bs + foldl (\<lambda>a b. a * 256 + unat b) 0 bs"
proof (induction bs arbitrary: x)
  case (Cons b bs)
  show ?case using Cons [of "x * 256 + unat b"] Cons [of "unat b"] by (simp add: algebra_simps)
qed simp

lemma be_Cons: "be (b # bs) = unat b * 256 ^ length bs + be bs"
  using be_shift [of "unat b" bs] by (simp add: be_def)

lemma be_less: "be bs < 256 ^ length bs"
proof (induction bs rule: rev_induct)
  case (snoc b bs)
  have "(be bs + 1) * 256 \<le> 256 ^ length bs * 256" using snoc by (intro mult_right_mono) simp_all
  moreover have "unat b < 256" by simp
  ultimately show ?case unfolding be_snoc length_append power_add by (simp del: unat_byte_less)
qed (simp add: be_def)

definition b32_rel :: "nat \<Rightarrow> u32 \<Rightarrow> nat \<Rightarrow> u32 \<Rightarrow> bytes \<Rightarrow> bytes \<Rightarrow> bool" where
  "b32_rel n v d w out bs \<longleftrightarrow> d < 8 \<and>
     (\<exists>rest. bs = out @ rest \<and> d + n = 8 * length rest \<and> low d w * 2 ^ n + low n v = be rest)"

lemma low_byte:
  fixes v :: u32 and b :: byte
  shows "n \<le> 24 \<Longrightarrow> low (n + 8) (push_bit 8 v OR ucast b) = low n v * 256 + unat b"
proof -
  assume "n \<le> 24"
  moreover have b: "unat b < 2 ^ 8" by simp
  moreover have "unat (ucast b :: u32) = unat b"
    using less_trans [OF b, of "2 ^ 32"] by (simp add: unsigned_ucast_eq take_bit_nat_eq_self)
  ultimately show ?thesis using low_push [of "ucast b" 8 n v] by simp
qed

lemma low_char:
  fixes v :: u32
  shows "n \<le> 27 \<Longrightarrow> i < 32 \<Longrightarrow> low (n + 5) (push_bit 5 v OR word_of_nat i) = low n v * 32 + i"
proof -
  assume "n \<le> 27" "i < 32"
  moreover from this have "unat (word_of_nat i :: u32) = i"
    by (simp add: unat_of_nat take_bit_nat_eq_self)
  ultimately show ?thesis using low_push [of "word_of_nat i" 5 n v] by simp
qed

lemma b32_rel_byte:
  assumes "b32_rel n v d w out bs" "n \<le> 24"
  shows "b32_rel (n + 8) (push_bit 8 v OR ucast b) d w out (bs @ [b])"
proof -
  obtain rest where r: "bs = out @ rest" "d + n = 8 * length rest" "low d w * 2 ^ n + low n v = be rest"
    and d: "d < 8" using assms by (auto simp: b32_rel_def)
  have "low d w * 2 ^ (n + 8) + low (n + 8) (push_bit 8 v OR ucast b) = be (rest @ [b])"
    using r(3) by (simp add: low_byte [OF assms(2)] be_snoc power_add algebra_simps flip: r(3))
  then show ?thesis using r d
    unfolding b32_rel_def by (intro conjI exI [of _ "rest @ [b]"]) simp_all
qed

text \<open>The top byte of the decoder's buffer is the first missing byte.\<close>

lemma top_byte:
  fixes W m n :: nat and b :: byte
  assumes "W * 2 ^ n + r = be (b # bs)" "r < 2 ^ n" "m + n = 8 * length bs"
  shows "W div 2 ^ m = unat b" "W mod 2 ^ m * 2 ^ n + r = be bs"
proof -
  have "(256::nat) ^ length bs = (2 ^ 8) ^ length bs" by simp
  also have "\<dots> = 2 ^ (8 * length bs)" by (simp only: power_mult)
  also have "\<dots> = 2 ^ n * 2 ^ m" using assms(3) by (simp flip: power_add add: add.commute)
  finally have p: "(256::nat) ^ length bs = 2 ^ n * 2 ^ m" .
  have X: "W * 2 ^ n + r = unat b * (2 ^ n * 2 ^ m) + be bs" using assms(1) by (simp add: be_Cons p)
  have "W = (W * 2 ^ n + r) div 2 ^ n" using assms(2) by simp
  then have "W div 2 ^ m = (W * 2 ^ n + r) div (2 ^ n * 2 ^ m)" by (simp add: div_mult2_eq)
  also have "\<dots> = unat b" unfolding X using be_less [of bs] by (simp add: p)
  finally show b: "W div 2 ^ m = unat b" .
  have "W * 2 ^ n = (unat b * 2 ^ m + W mod 2 ^ m) * 2 ^ n" unfolding b [symmetric] by (simp only: div_mult_mod_eq)
  with X show "W mod 2 ^ m * 2 ^ n + r = be bs" by (simp add: algebra_simps)
qed

lemma pow_split5: "5 \<le> n \<Longrightarrow> (2::nat) ^ n = 32 * 2 ^ (n - 5)"
  using power_add [of "2::nat" 5 "n - 5"] by simp

lemma low_div_less: "5 \<le> n \<Longrightarrow> low n v div 2 ^ (n - 5) < 32"
  using low_less [of n v] by (simp add: pow_split5 div_less_iff_less_mult)

text \<open>One emitted character, read by the decoder, keeps the relation.\<close>

lemma b32_rel_char:
  assumes rel: "b32_rel n v d w out bs" and n: "5 \<le> n" "n \<le> 12"
  shows "\<exists>d' w' out'.
    (\<forall>cs. b32_dec_loop (BASE32_ALPHABET ! unat (drop_bit (n - 5) v AND 31) # cs) d w out
       = b32_dec_loop cs d' w' out') \<and> b32_rel (n - 5) v d' w' out' bs"
proof -
  define i where "i = low n v div 2 ^ (n - 5)"
  define w' :: u32 where "w' = push_bit 5 w OR word_of_nat i"
  let ?r = "low (n - 5) v"
  have c: "unat (drop_bit (n - 5) v AND 31) = i" using low_extract5 [OF n(1)] by (simp add: i_def)
  have pn: "(2::nat) ^ n = 32 * 2 ^ (n - 5)" using n(1) by (rule pow_split5)
  have i: "i < 32" unfolding i_def using n(1) by (rule low_div_less)
  have dm: "low n v = i * 2 ^ (n - 5) + ?r"
    unfolding i_def low_low [of "n - 5" n v, simplified] by (rule div_mult_mod_eq [symmetric])
  obtain rest where d: "d < 8" and r: "bs = out @ rest" "d + n = 8 * length rest"
      "low d w * 2 ^ n + low n v = be rest" using rel by (auto simp: b32_rel_def)
  have lw: "low (d + 5) w' = low d w * 32 + i" unfolding w'_def using d i by (intro low_char) simp_all
  have tot: "low (d + 5) w' * 2 ^ (n - 5) + ?r = be rest"
    unfolding lw r(3) [symmetric] dm pn by (simp add: algebra_simps)
  show ?thesis
  proof (cases "8 \<le> d + 5")
    case False
    have "b32_rel (n - 5) v (d + 5) w' out bs"
      using False r n tot unfolding b32_rel_def by (intro conjI exI [of _ rest]) simp_all
    moreover have "b32_dec_loop (BASE32_ALPHABET ! i # cs) d w out = b32_dec_loop cs (d + 5) w' out" for cs
      using False i by (simp add: w'_def)
    ultimately show ?thesis unfolding c by blast
  next
    case True
    then obtain b rest' where rest: "rest = b # rest'" using r(2) n by (cases rest) auto
    note tb = top_byte [OF tot [unfolded rest] low_less, of "d + 5 - 8"]
    have len: "d + 5 - 8 + (n - 5) = 8 * length rest'" using r(2) rest True n by simp
    have "unat (drop_bit (d + 5 - 8) w' AND 0xff) = unat b"
      using low_extract8 [OF True] tb(1) [OF len] by simp
    then have byte: "ucast (drop_bit (d + 5 - 8) w' AND 0xff) = b"
      by (simp add: word_unat_eq_iff unsigned_ucast_eq take_bit_nat_eq_self)
    have "low (d + 5 - 8) w' = low (d + 5) w' mod 2 ^ (d + 5 - 8)" by (rule low_low) simp
    then have "b32_rel (n - 5) v (d + 5 - 8) w' (out @ [b]) bs"
      using d r(1) rest len tb(2) [OF len] unfolding b32_rel_def by (intro conjI exI [of _ rest']) simp_all
    moreover have "b32_dec_loop (BASE32_ALPHABET ! i # cs) d w out = b32_dec_loop cs (d + 5 - 8) w' (out @ [b])" for cs
      using True i byte by (simp add: w'_def Let_def)
    ultimately show ?thesis unfolding c by blast
  qed
qed


lemma b32_rel_emit:
  assumes "b32_rel n v d w acc bs" "n \<le> 12" "b32_emit n v tx = (n', tx')"
  shows "n' < 5 \<and> (\<exists>new d' w' acc'. tx' = tx @ new \<and> list_all is_b32 new \<and>
    (\<forall>cs. b32_dec_loop (new @ cs) d w acc = b32_dec_loop cs d' w' acc') \<and> b32_rel n' v d' w' acc' bs)"
  using assms
proof (induction n v tx arbitrary: d w acc rule: b32_emit.induct)
  case (1 n v tx)
  show ?case
  proof (cases "5 \<le> n")
    case False
    then have "n' = n" "tx' = tx" using 1(4) by (subst (asm) b32_emit.simps, simp)+
    then show ?thesis using False 1(2) by (intro conjI exI [of _ "[]"] exI [of _ d] exI [of _ w] exI [of _ acc]) simp_all
  next
    case True
    let ?c = "BASE32_ALPHABET ! unat (drop_bit (n - 5) v AND 31)"
    obtain d1 w1 acc1 where s1: "\<And>cs. b32_dec_loop (?c # cs) d w acc = b32_dec_loop cs d1 w1 acc1"
      and rel1: "b32_rel (n - 5) v d1 w1 acc1 bs"
      using b32_rel_char [OF 1(2) True 1(3)] by blast
    have em: "b32_emit (n - 5) v (tx @ [?c]) = (n', tx')"
      using 1(4) True by (subst (asm) b32_emit.simps) simp
    have le: "n - 5 \<le> 12" using 1(3) by simp
    obtain new d' w' acc' where n5: "n' < 5" and new: "tx' = (tx @ [?c]) @ new" "list_all is_b32 new"
        "\<And>cs. b32_dec_loop (new @ cs) d1 w1 acc1 = b32_dec_loop cs d' w' acc'" "b32_rel n' v d' w' acc' bs"
      using 1(1) [OF True rel1 le em] by auto
    have "unat (drop_bit (n - 5) v AND 31) < 32"
      using low_extract5 [OF True, of v] low_div_less [OF True, of v] by simp
    then have "list_all is_b32 (?c # new)" using new(2) by simp
    then show ?thesis using n5 new s1
      by (intro conjI exI [of _ "?c # new"] exI [of _ d'] exI [of _ w'] exI [of _ acc']) simp_all
  qed
qed


lemma b32_rel_loop:
  assumes "b32_rel n v d w acc bs" "n < 5" "b32_enc_loop new n v tx = (n', v', tx')"
  shows "n' < 5 \<and> (\<exists>t d' w' acc'. tx' = tx @ t \<and> list_all is_b32 t \<and>
    (\<forall>cs. b32_dec_loop (t @ cs) d w acc = b32_dec_loop cs d' w' acc') \<and> b32_rel n' v' d' w' acc' (bs @ new))"
  using assms
proof (induction new arbitrary: n v d w acc bs tx)
  case Nil
  then show ?case by (intro conjI exI [of _ "[]"] exI [of _ d] exI [of _ w] exI [of _ acc]) simp_all
next
  case (Cons b new)
  let ?v = "push_bit 8 v OR ucast b"
  obtain n1 tx1 where em: "b32_emit (n + 8) ?v tx = (n1, tx1)" by force
  have "b32_rel (n + 8) ?v d w acc (bs @ [b])" using Cons.prems by (intro b32_rel_byte) simp_all
  from b32_rel_emit [OF this _ em] Cons.prems(2) obtain t1 d1 w1 acc1 where n1: "n1 < 5"
    and t1: "tx1 = tx @ t1" "list_all is_b32 t1"
      "\<And>cs. b32_dec_loop (t1 @ cs) d w acc = b32_dec_loop cs d1 w1 acc1" "b32_rel n1 ?v d1 w1 acc1 (bs @ [b])"
    by auto
  have lp: "b32_enc_loop new n1 ?v tx1 = (n', v', tx')" using Cons.prems(3) em by simp
  from Cons.IH [OF t1(4) n1 lp] obtain t d' w' acc' where "n' < 5" "tx' = tx1 @ t" "list_all is_b32 t"
      "\<And>cs. b32_dec_loop (t @ cs) d1 w1 acc1 = b32_dec_loop cs d' w' acc'"
      "b32_rel n' v' d' w' acc' ((bs @ [b]) @ new)" by auto
  then show ?case using t1
    by (intro conjI exI [of _ "t1 @ t"] exI [of _ d'] exI [of _ w'] exI [of _ acc']) simp_all
qed

text \<open>The last, padded character completes the last byte.\<close>

lemma b32_rel_last:
  assumes rel: "b32_rel e v d w acc bs" and e: "0 < e" "e < 5"
  shows "b32_dec_loop [BASE32_ALPHABET ! unat (push_bit (5 - e) v AND 31)] d w acc = Some bs"
proof -
  define i where "i = low e v * 2 ^ (5 - e)"
  define w' :: u32 where "w' = push_bit 5 w OR word_of_nat i"
  obtain rest where d: "d < 8" and r: "bs = acc @ rest" "d + e = 8 * length rest"
      "low d w * 2 ^ e + low e v = be rest" using rel by (auto simp: b32_rel_def)
  then obtain b where rest: "rest = [b]" and de: "d = 8 - e" using e by (cases rest; cases "tl rest") auto
  have p: "(2::nat) ^ e * 2 ^ (5 - e) = 32" using e by (simp flip: power_add)
  have "i < 2 ^ e * 2 ^ (5 - e)" unfolding i_def using low_less [of e v] by simp
  then have i: "i < 32" using p by simp
  have "low (d + 5) w' = low d w * 32 + i" unfolding w'_def using d i by (intro low_char) simp_all
  also have "\<dots> = (low d w * 2 ^ e + low e v) * 2 ^ (5 - e)"
    unfolding i_def p [symmetric] by (simp add: algebra_simps)
  also have "\<dots> = unat b * 2 ^ (5 - e)" using r(3) rest by (simp add: be_def)
  finally have "low (d + 5) w' = unat b * 2 ^ (5 - e)" .
  moreover have "d + 5 - 8 = 5 - e" "8 \<le> d + 5" using de e by simp_all
  ultimately have "unat (drop_bit (d + 5 - 8) w' AND 0xff) = unat b"
    using low_extract8 [of "d + 5" w'] by simp
  then have byte: "ucast (drop_bit (d + 5 - 8) w' AND 0xff) = b"
    by (simp add: word_unat_eq_iff unsigned_ucast_eq take_bit_nat_eq_self)
  have c: "unat (push_bit (5 - e) v AND 31) = i" using low_last [OF e] by (simp add: i_def)
  show ?thesis unfolding c using i byte \<open>8 \<le> d + 5\<close> r(1) rest by (simp add: w'_def Let_def)
qed

lemma base32_dec_enc:
  "list_all is_b32 (base32Encode bs) \<and> b32_dec_loop (base32Encode bs) 0 0 [] = Some bs"
proof -
  obtain n v tx where lp: "b32_enc_loop bs 0 0 [] = (n, v, tx)" by (cases "b32_enc_loop bs 0 0 []")
  have "b32_rel 0 0 0 0 [] []" by (simp add: b32_rel_def low_def be_def)
  from b32_rel_loop [OF this _ lp] obtain d w acc where n: "n < 5" and t: "list_all is_b32 tx"
      "\<And>cs. b32_dec_loop (tx @ cs) 0 0 [] = b32_dec_loop cs d w acc" and rel: "b32_rel n v d w acc bs"
    by auto
  show ?thesis
  proof (cases "n = 0")
    case True
    then have "acc = bs" using rel by (auto simp: b32_rel_def)
    then show ?thesis using True lp t(1) t(2) [of "[]"] by (simp add: base32Encode_def)
  next
    case False
    have "low n v * 2 ^ (5 - n) < 2 ^ n * 2 ^ (5 - n)" using low_less [of n v] by simp
    also have "\<dots> = 32" using n by (simp flip: power_add)
    finally have "unat (push_bit (5 - n) v AND 31) < 32" using low_last [of n v] False n by simp
    then show ?thesis using False lp t b32_rel_last [OF rel _ n] by (simp add: base32Encode_def)
  qed
qed

lemma b32_emit_length: "b32_emit n v tx = (n', tx') \<Longrightarrow> 5 * length tx' + n' = 5 * length tx + n \<and> n' < 5"
proof (induction n v tx rule: b32_emit.induct)
  case (1 n v tx)
  show ?case
  proof (cases "5 \<le> n")
    case True
    then have "b32_emit (n - 5) v (tx @ [BASE32_ALPHABET ! unat (drop_bit (n - 5) v AND 31)]) = (n', tx')"
      using 1(2) by (subst (asm) b32_emit.simps) simp
    from 1(1) [OF True this] True show ?thesis by simp
  qed (use 1(2) in \<open>subst (asm) b32_emit.simps, simp\<close>)
qed

lemma b32_enc_loop_length:
  "n < 5 \<Longrightarrow> b32_enc_loop bs n v tx = (n', v', tx') \<Longrightarrow>
   5 * length tx' + n' = 5 * length tx + n + 8 * length bs \<and> n' < 5"
proof (induction bs arbitrary: n v tx)
  case (Cons b bs)
  obtain n1 tx1 where em: "b32_emit (n + 8) (push_bit 8 v OR ucast b) tx = (n1, tx1)" by force
  then show ?case using b32_emit_length [OF em] Cons.IH [of n1] Cons.prems by fastforce
qed simp

lemma base32Encode_length: "length bs = 5 * k \<Longrightarrow> length (base32Encode bs) = 8 * k"
proof -
  assume len: "length bs = 5 * k"
  obtain n v tx where lp: "b32_enc_loop bs 0 0 [] = (n, v, tx)" by (cases "b32_enc_loop bs 0 0 []")
  then have "5 * length tx + n = 8 * (5 * k)" "n < 5" using b32_enc_loop_length [OF _ lp] len by auto
  then have "n = 0" "length tx = 8 * k" by presburger+
  then show ?thesis using lp by (simp add: base32Encode_def)
qed

subsection \<open>Text normalisation\<close>

lemma is_b32_facts:
  assumes "is_b32 c"
  shows "\<not> is_ws c" "upper_char c = [c]" "c \<noteq> CHR ''=''" "c \<noteq> CHR ''-''"
  using assms by (auto simp: is_b32_def is_AZ_def is_az_def is_ws_def upper_char_def cc_def)

lemma upper_b32: "list_all is_b32 s \<Longrightarrow> js_toUpperCase s = s"
  by (induction s) (auto simp: js_toUpperCase_def is_b32_facts)

lemma strip_eq_b32: "list_all is_b32 s \<Longrightarrow> strip_eq s = s"
  unfolding strip_eq_def
  by (subst dropWhile_id) (auto simp: list_all_iff is_b32_facts hd_rev)

lemma base32Encode_ne: "bs \<noteq> [] \<Longrightarrow> base32Encode bs \<noteq> []"
  using base32_dec_enc [of bs] by auto

lemma base32_normalized: "list_all is_b32 s \<Longrightarrow> strip_eq (js_toUpperCase (js_trim s)) = s"
  by (simp add: js_trim_id list_all_iff is_b32_facts upper_b32 strip_eq_b32)

text \<open>
  Base32 round trip: decoding the encoding of any non-empty byte array gives the array back,
  with the 32-bit bit buffer overflowing on the way.
\<close>

theorem base32_roundtrip:
  assumes "bs \<noteq> []"
  shows "base32Decode (base32Encode bs) = Some bs"
  using base32_dec_enc [of bs] base32Encode_ne [OF assms]
  by (simp add: base32Decode_def base32_normalized)

theorem base32_roundtrip_witness: "base32Decode (base32Encode [255, 0, 17]) = Some [255, 0, 17]"
  by (rule base32_roundtrip) simp

subsection \<open>Codes\<close>

lemma codeForStep_shape: "codeForStep hmac secret step = Some c \<Longrightarrow> is_totp_code c"
  using nat_to_str_length [of 6] nat_to_str_digits
  by (auto simp: codeForStep_def is_totp_code_def padStart_def TOTP_DIGITS_def list_all_iff is_digit_def cc_def
      split: option.splits)

lemma is_totp_code_utf8_length: "is_totp_code c \<Longrightarrow> length (utf8_encode c) < 2 ^ 32"
  using length_utf8_encode(2) [of c] by (simp add: is_totp_code_def)

lemma totp_equal_iff:
  "is_totp_code a \<Longrightarrow> is_totp_code b \<Longrightarrow> totp_constantTimeEqual a b \<longleftrightarrow> a = b"
  unfolding totp_constantTimeEqual_def
  using ct_bytes_iff [OF is_totp_code_utf8_length is_totp_code_utf8_length] by simp

lemma codeForStep_decodes:
  "base32Decode secret \<noteq> None \<Longrightarrow> \<exists>c. codeForStep hmac secret step = Some c \<and> is_totp_code c"
  using codeForStep_shape [of hmac secret step] by (auto simp: codeForStep_def)

text \<open>The loop returns the first offset whose code matches.\<close>

lemma totp_try_find:
  assumes "base32Decode secret \<noteq> None" "is_totp_code code"
  shows "totp_try hmac secret code cur offs = Some
    (case find (\<lambda>off. 0 \<le> cur + off \<and> codeForStep hmac secret (cur + off) = Some code) offs of
       None \<Rightarrow> \<lparr>totp_valid = False, totp_step_of = None\<rparr>
     | Some off \<Rightarrow> \<lparr>totp_valid = True, totp_step_of = Some (cur + off)\<rparr>)"
proof (induction offs)
  case (Cons off offs)
  obtain c where "codeForStep hmac secret (cur + off) = Some c" "is_totp_code c"
    using codeForStep_decodes [OF assms(1)] by blast
  then show ?case using Cons assms(2) by (cases "0 \<le> cur + off") (auto simp: totp_equal_iff Let_def)
qed simp

lemma totp_try_valid:
  assumes "totp_try hmac secret code cur offs = Some r" "totp_valid r" "is_totp_code code"
  shows "\<exists>off \<in> set offs. totp_step_of r = Some (cur + off) \<and> 0 \<le> cur + off \<and>
    codeForStep hmac secret (cur + off) = Some code"
  using assms
proof (induction offs)
  case (Cons off offs)
  then show ?case using codeForStep_shape [of hmac secret "cur + off"]
    by (auto simp: Let_def totp_equal_iff split: option.splits if_splits)
qed auto

text \<open>What a caller may rely on when a code was accepted.\<close>

lemma verifyTotpCode_accepts:
  assumes "verifyTotpCode hmac secret code now = Some r" "totp_valid r"
  shows "\<exists>st. totp_step_of r = Some st \<and> 0 \<le> st \<and> \<bar>st - totp_step now\<bar> \<le> 1 \<and> codeForStep hmac secret st = Some code"
proof -
  have "is_totp_code code" using assms by (auto simp: verifyTotpCode_def split: if_splits)
  then have "totp_try hmac secret code (totp_step now) [0, -1, 1] = Some r"
    using assms(1) by (simp add: verifyTotpCode_def del: totp_try.simps)
  from totp_try_valid [OF this assms(2) \<open>is_totp_code code\<close>] show ?thesis by auto
qed

declare totp_try.simps [simp del]

text \<open>
  C17. What \<open>verifyTotpCode\<close> decides, for a secret that decodes: it never throws, and it accepts
  exactly the six-digit codes of the current 30-second step, the one before and the one after
  (none below step 0); the step it reports is one whose code was submitted, the current one
  first.
\<close>

theorem verifyTotpCode_exact:
  assumes "base32Decode secret \<noteq> None"
  shows "\<exists>r. verifyTotpCode hmac secret code now = Some r \<and>
    (totp_valid r \<longleftrightarrow> (\<exists>off \<in> {0, -1, 1}. 0 \<le> totp_step now + off \<and>
        codeForStep hmac secret (totp_step now + off) = Some code)) \<and>
    (\<forall>st. totp_step_of r = Some st \<longrightarrow> totp_valid r \<and> 0 \<le> st \<and> \<bar>st - totp_step now\<bar> \<le> 1 \<and>
        codeForStep hmac secret st = Some code \<and>
        (generateTotpCode hmac secret now = Some code \<and> 0 \<le> now \<longrightarrow> st = totp_step now))"
proof (cases "is_totp_code code")
  case False
  then have "codeForStep hmac secret st \<noteq> Some code" for st using codeForStep_shape by blast
  then show ?thesis using False by (simp add: verifyTotpCode_def)
next
  case True
  have "0 \<le> now \<Longrightarrow> 0 \<le> totp_step now" by (simp add: totp_step_def TOTP_PERIOD_SECONDS_def pos_imp_zdiv_nonneg_iff)
  then show ?thesis using True assms
    by (auto simp: verifyTotpCode_def totp_try_find generateTotpCode_def)
qed

theorem verifyTotpCode_exact_witness:
  "\<exists>r. verifyTotpCode (\<lambda>k m. m @ k) ''ME'' ''123456'' 90000 = Some r \<and>
    (totp_valid r \<longleftrightarrow> (\<exists>off \<in> {0, -1, 1}. 0 \<le> totp_step 90000 + off \<and>
        codeForStep (\<lambda>k m. m @ k) ''ME'' (totp_step 90000 + off) = Some ''123456'')) \<and>
    (\<forall>st. totp_step_of r = Some st \<longrightarrow> totp_valid r \<and> 0 \<le> st \<and> \<bar>st - totp_step 90000\<bar> \<le> 1 \<and>
        codeForStep (\<lambda>k m. m @ k) ''ME'' st = Some ''123456'' \<and>
        (generateTotpCode (\<lambda>k m. m @ k) ''ME'' 90000 = Some ''123456'' \<and> 0 \<le> (90000 :: int) \<longrightarrow>
          st = totp_step 90000))"
proof -
  have "list_all is_b32 ''ME''" by (simp add: is_b32_def is_AZ_def cc_def)
  then have "base32Decode ''ME'' \<noteq> None"
    by (simp add: base32Decode_def base32_normalized BASE32_ALPHABET_def)
  then show ?thesis by (rule verifyTotpCode_exact)
qed

lemma totp_step_shift: "totp_step (t + 30000 * k) = totp_step t + k"
proof -
  have "(t + 30000 * k) div 30000 = t div 30000 + k" by simp
  then show ?thesis by (simp add: totp_step_def TOTP_PERIOD_SECONDS_def flip: zdiv_zmult2_eq)
qed

lemma totp_step_near:
  assumes "\<bar>t - now\<bar> \<le> 30000"
  shows "totp_step t - totp_step now \<in> {0, -1, 1}"
proof -
  have mono: "totp_step a \<le> totp_step b" if "a \<le> b" for a b
    using that by (simp add: totp_step_def TOTP_PERIOD_SECONDS_def zdiv_mono1)
  have "totp_step (now + 30000 * (-1)) \<le> totp_step t" "totp_step t \<le> totp_step (now + 30000 * 1)"
    using assms by (intro mono; linarith)+
  then show ?thesis unfolding totp_step_shift by auto
qed

text \<open>
  A code generated from a freshly generated secret is accepted for clocks up to 30 seconds
  apart: enrolment and login agree.
\<close>

theorem totp_generate_verify:
  assumes "rnd \<noteq> []" "0 \<le> t" "\<bar>t - now\<bar> \<le> 30000"
  shows "\<exists>c r. generateTotpCode hmac (generateTotpSecret rnd) t = Some c \<and> is_totp_code c \<and>
    verifyTotpCode hmac (generateTotpSecret rnd) c now = Some r \<and> totp_valid r"
proof -
  let ?s = "generateTotpSecret rnd"
  have dec: "base32Decode ?s \<noteq> None"
    using base32_dec_enc [of rnd] base32Encode_ne [OF assms(1)]
    by (simp add: base32Decode_def base32_normalized generateTotpSecret_def)
  obtain c where c: "codeForStep hmac ?s (totp_step t) = Some c" "is_totp_code c"
    using codeForStep_decodes [OF dec] by blast
  have "0 \<le> totp_step t" using assms(2) by (simp add: totp_step_def TOTP_PERIOD_SECONDS_def pos_imp_zdiv_nonneg_iff)
  moreover have "totp_step t = totp_step now + (totp_step t - totp_step now)" by simp
  ultimately have "\<exists>off \<in> {0, -1, 1}. 0 \<le> totp_step now + off \<and> codeForStep hmac ?s (totp_step now + off) = Some c"
    using totp_step_near [OF assms(3)] c(1) by (intro bexI [of _ "totp_step t - totp_step now"]) simp_all
  then have "find (\<lambda>off. 0 \<le> totp_step now + off \<and> codeForStep hmac ?s (totp_step now + off) = Some c) [0, -1, 1] \<noteq> None"
    by (auto simp: find_None_iff)
  then have "\<exists>r. totp_try hmac ?s c (totp_step now) [0, -1, 1] = Some r \<and> totp_valid r"
    unfolding totp_try_find [OF dec c(2)] by (auto simp del: find.simps split: option.splits)
  then show ?thesis using c by (auto simp: generateTotpCode_def verifyTotpCode_def)
qed

theorem totp_generate_verify_witness:
  "\<exists>c r. generateTotpCode (\<lambda>k m. m) (generateTotpSecret [1, 2, 3]) 1000 = Some c \<and> is_totp_code c \<and>
    verifyTotpCode (\<lambda>k m. m) (generateTotpSecret [1, 2, 3]) c 29000 = Some r \<and> totp_valid r"
  by (rule totp_generate_verify) simp_all

end
