(* ===== verification/Password.thy ===== *)
theory Password
  imports JsBytes
begin

section \<open>Administrator passwords\<close>

text \<open>
  \<open>auth/password.ts\<close>, the two password methods of the rate-limit object
  (\<open>do/rate-limit.ts\<close>) and the service that calls them by RPC
  (\<open>auth/password-service.ts\<close>). The platform's PBKDF2 is a parameter
  \<open>kdf password salt iterations\<close>, \<open>None\<close> when it rejects (the platform caps the iterations);
  SHA-256 is a parameter \<open>sha\<close>; the random salt is an argument, and so is Unicode
  normalisation (\<open>nfkc\<close>).
\<close>

type_synonym kdf = "bytes \<Rightarrow> bytes \<Rightarrow> nat \<Rightarrow> bytes option"

definition PASSWORD_ALGORITHM :: string where "PASSWORD_ALGORITHM = ''pbkdf2_sha256''"
definition PBKDF2_ITERATIONS :: nat where "PBKDF2_ITERATIONS = 100000"
definition MIN_ACCEPTED_PBKDF2_ITERATIONS :: nat where "MIN_ACCEPTED_PBKDF2_ITERATIONS = 10000"
definition SALT_BYTES :: nat where "SALT_BYTES = 16"
definition HASH_BYTES :: nat where "HASH_BYTES = 32"
definition LEGACY_SALT :: string where "LEGACY_SALT = ''cf-monitor-salt''"
definition MIN_ADMIN_PASSWORD_LENGTH :: nat where "MIN_ADMIN_PASSWORD_LENGTH = 15"

definition COMMON_PASSWORDS :: "string list" where
  "COMMON_PASSWORDS = [
     ''passwordpassword'', ''passwordpassword1'', ''passwordpassword123'',
     ''123456789012345'', ''1234567890123456'', ''12345678901234567890'',
     ''qwertyuiopasdfgh'', ''qwertyuiopasdfghjkl'', ''qwertyuiopasdfghjklzxcvbnm'',
     ''administrator123'', ''administrator123456'', ''adminadminadmin'',
     ''changemechangeme'', ''letmeinletmein123'', ''password123456789'',
     ''cf-vps-monitor123'', ''cf-vps-monitor123456'', ''correcthorsebatterystaple'']"

record parsed_hash =
  ph_iterations :: nat
  ph_salt :: bytes
  ph_hash :: bytes

definition derivePbkdf2 :: "kdf \<Rightarrow> string \<Rightarrow> bytes \<Rightarrow> nat \<Rightarrow> bytes option" where
  "derivePbkdf2 kdf password salt iterations = kdf (utf8_encode password) salt iterations"

definition constantTimeStringEqual :: "string \<Rightarrow> string \<Rightarrow> bool" where
  "constantTimeStringEqual a b = ct_bytes (utf8_encode a) (utf8_encode b)"

definition hashLegacyPassword :: "(bytes \<Rightarrow> bytes) \<Rightarrow> string \<Rightarrow> string" where
  "hashLegacyPassword sha password = bytes_to_hex (sha (utf8_encode (password @ LEGACY_SALT)))"

text \<open>The patterns of the iteration count and of a legacy hash.\<close>

definition is_iterations_text :: "string \<Rightarrow> bool" where
  "is_iterations_text s \<longleftrightarrow>
     s \<noteq> [] \<and> list_all is_digit s \<and> hd s \<noteq> CHR ''0'' \<and> length s \<le> 7"

definition is_legacy_hash :: "string \<Rightarrow> bool" where
  "is_legacy_hash s \<longleftrightarrow> length s = 64 \<and> list_all is_hex_any s"

definition parsePasswordHash :: "string \<Rightarrow> parsed_hash option" where
  "parsePasswordHash hash = (case js_split CHR ''$'' hash of
       [algorithm, iterationsText, saltText, hashText] \<Rightarrow>
         if algorithm \<noteq> PASSWORD_ALGORITHM \<or> iterationsText = [] \<or> saltText = [] \<or> hashText = [] then None
         else if \<not> is_iterations_text iterationsText then None
         else (case (str_to_num iterationsText, atob_bytes saltText, atob_bytes hashText) of
             (iterations, Some salt, Some storedHash) \<Rightarrow>
               if \<not> js_isInteger iterations \<or>
                  js_lt iterations (Fin (of_nat MIN_ACCEPTED_PBKDF2_ITERATIONS)) \<or>
                  length salt < SALT_BYTES \<or> length storedHash \<noteq> HASH_BYTES then None
               else Some \<lparr>ph_iterations = nat (js_int iterations), ph_salt = salt, ph_hash = storedHash\<rparr>
           | _ \<Rightarrow> None)
     | _ \<Rightarrow> None)"

definition hashPassword :: "kdf \<Rightarrow> bytes \<Rightarrow> string \<Rightarrow> string option" where
  "hashPassword kdf salt password =
     map_option (\<lambda>hash. PASSWORD_ALGORITHM @ ''$'' @ nat_to_str PBKDF2_ITERATIONS @ ''$''
                        @ b64_encode salt @ ''$'' @ b64_encode hash)
       (derivePbkdf2 kdf password salt PBKDF2_ITERATIONS)"

definition needsPasswordRehash :: "string \<Rightarrow> bool" where
  "needsPasswordRehash hash = (case parsePasswordHash hash of
       None \<Rightarrow> True
     | Some parsed \<Rightarrow> ph_iterations parsed < PBKDF2_ITERATIONS)"

datatype weak_password = PasswordTooShort | CommonPassword

definition validateAdminPasswordStrength ::
  "(string \<Rightarrow> string) \<Rightarrow> string \<Rightarrow> string \<Rightarrow> weak_password option" where
  "validateAdminPasswordStrength nfkc password username =
     (if length password < MIN_ADMIN_PASSWORD_LENGTH then Some PasswordTooShort
      else let normalized = js_toLowerCase (nfkc password);
               account = js_toLowerCase (nfkc (js_trim username))
           in if normalized \<in> set COMMON_PASSWORDS \<or>
                 (account \<noteq> [] \<and> list_ex (\<lambda>suffix. normalized = account @ suffix)
                    [[], ''1'', ''123'', ''123456'', ''!'', ''password''])
              then Some CommonPassword else None)"

text \<open>\<open>None\<close> when the derivation rejects.\<close>

definition verifyPassword :: "kdf \<Rightarrow> (bytes \<Rightarrow> bytes) \<Rightarrow> string \<Rightarrow> string \<Rightarrow> bool option" where
  "verifyPassword kdf sha password hash = (case parsePasswordHash hash of
       Some parsed \<Rightarrow>
         map_option (\<lambda>computed. ct_bytes computed (ph_hash parsed))
           (derivePbkdf2 kdf password (ph_salt parsed) (ph_iterations parsed))
     | None \<Rightarrow>
         if \<not> is_legacy_hash hash then Some False
         else Some (constantTimeStringEqual (hashLegacyPassword sha password) (js_toLowerCase hash)))"

subsection \<open>The object's methods and the service\<close>

datatype pw_error = InvalidPasswordInput | ComputationUnavailable | ServiceUnavailable

definition valid_rpc_string :: "nat \<Rightarrow> jsval \<Rightarrow> bool" where
  "valid_rpc_string limit v = (case v of Str s \<Rightarrow> s \<noteq> [] \<and> length s \<le> limit | _ \<Rightarrow> False)"

definition do_hashPassword :: "kdf \<Rightarrow> bytes \<Rightarrow> jsval \<Rightarrow> pw_error + string" where
  "do_hashPassword kdf salt password =
     (if \<not> valid_rpc_string 4096 password then Inl InvalidPasswordInput
      else case hashPassword kdf salt (js_String password) of
          None \<Rightarrow> Inl ComputationUnavailable
        | Some h \<Rightarrow> Inr h)"

definition do_verifyPassword ::
  "kdf \<Rightarrow> (bytes \<Rightarrow> bytes) \<Rightarrow> jsval \<Rightarrow> jsval \<Rightarrow> pw_error + bool" where
  "do_verifyPassword kdf sha password hash =
     (if \<not> valid_rpc_string 4096 password \<or> \<not> valid_rpc_string 1024 hash then Inl InvalidPasswordInput
      else case verifyPassword kdf sha (js_String password) (js_String hash) of
          None \<Rightarrow> Inl ComputationUnavailable
        | Some b \<Rightarrow> Inr b)"

text \<open>
  \<open>passwordStub\<close> names the object of an account; the service reaches it through the namespace
  binding, here a function from object names to the object's methods. Any rejection, a bad
  account or an ill-typed result included, becomes \<open>ServiceUnavailable\<close>.
\<close>

definition passwordStub :: "jsval \<Rightarrow> string option" where
  "passwordStub account =
     (if \<not> valid_rpc_string 256 account then None else Some (''password:'' @ js_String account))"

definition hashAdminPassword ::
  "(string \<Rightarrow> jsval \<Rightarrow> pw_error + string) \<Rightarrow> jsval \<Rightarrow> jsval \<Rightarrow> pw_error + string" where
  "hashAdminPassword getByName account password = (case passwordStub account of
       None \<Rightarrow> Inl ServiceUnavailable
     | Some name \<Rightarrow> (case getByName name password of
         Inl _ \<Rightarrow> Inl ServiceUnavailable
       | Inr hash \<Rightarrow> if hash = [] \<or> length hash > 1024 then Inl ServiceUnavailable else Inr hash))"

definition verifyAdminPassword ::
  "(string \<Rightarrow> jsval \<Rightarrow> jsval \<Rightarrow> pw_error + bool) \<Rightarrow> jsval \<Rightarrow> jsval \<Rightarrow> jsval \<Rightarrow> pw_error + bool" where
  "verifyAdminPassword getByName account password hash = (case passwordStub account of
       None \<Rightarrow> Inl ServiceUnavailable
     | Some name \<Rightarrow> (case getByName name password hash of
         Inl _ \<Rightarrow> Inl ServiceUnavailable
       | Inr valid \<Rightarrow> Inr valid))"

subsection \<open>Stored hashes\<close>

lemma b64_char_not_dollar: "n < 64 \<Longrightarrow> b64_char n \<noteq> CHR ''$''"
  using b64_val_char [of n] by (auto simp: b64_val_def is_AZ_def is_az_def is_digit_def cc_def)

lemma b64_encode_no_dollar: "list_all (\<lambda>c. c \<noteq> CHR ''$'') (b64_encode bs)"
proof -
  have "b64_char n \<noteq> CHR ''$''" if "n \<in> set (sextets bs)" for n
    using that sextets_bound b64_char_not_dollar by blast
  then have "\<forall>n \<in> set (sextets bs). b64_char n \<noteq> CHR ''$''" by simp
  then show ?thesis by (simp add: b64_encode_def b64_pad_def list_all_iff ball_Un)
qed

lemma b64_encode_ne: "bs \<noteq> [] \<Longrightarrow> b64_encode bs \<noteq> []"
  using atob_b64_encode [of bs] by (auto simp: atob_bytes_def atob_unpad_def)

lemma split4:
  assumes "list_all (\<lambda>c. \<not> P c) a" "list_all (\<lambda>c. \<not> P c) b" "list_all (\<lambda>c. \<not> P c) c"
    "list_all (\<lambda>c. \<not> P c) d" "P x"
  shows "split_on P (a @ [x] @ b @ [x] @ c @ [x] @ d) = [a, b, c, d]"
  using assms by (simp add: split_on_append split_on_none)

lemma iterations_digits: "nat_to_str PBKDF2_ITERATIONS = ''100000''"
  by (simp add: PBKDF2_ITERATIONS_def nat_to_str.simps)

lemma iterations_text: "is_iterations_text ''100000''" "str_to_num ''100000'' = Fin 100000"
  using str_to_num_digits [of "''100000''"]
  by (simp_all add: is_iterations_text_def is_digit_def cc_def digits_val_def mk_num_def)

lemma parse_hash_string:
  assumes "SALT_BYTES \<le> length salt" "length h = HASH_BYTES"
  shows "parsePasswordHash (PASSWORD_ALGORITHM @ ''$'' @ nat_to_str PBKDF2_ITERATIONS @ ''$''
      @ b64_encode salt @ ''$'' @ b64_encode h)
    = Some \<lparr>ph_iterations = PBKDF2_ITERATIONS, ph_salt = salt, ph_hash = h\<rparr>"
proof -
  have ne: "b64_encode salt \<noteq> []" "b64_encode h \<noteq> []"
    using assms by (auto intro!: b64_encode_ne simp: SALT_BYTES_def HASH_BYTES_def)
  have "js_split CHR ''$'' (PASSWORD_ALGORITHM @ ''$'' @ nat_to_str PBKDF2_ITERATIONS @ ''$''
      @ b64_encode salt @ ''$'' @ b64_encode h) = [PASSWORD_ALGORITHM, ''100000'', b64_encode salt, b64_encode h]"
    unfolding iterations_digits
    by (rule split4) (simp_all add: b64_encode_no_dollar, simp add: PASSWORD_ALGORITHM_def)
  then show ?thesis using ne assms iterations_text
    by (simp add: parsePasswordHash_def atob_b64_encode MIN_ACCEPTED_PBKDF2_ITERATIONS_def PBKDF2_ITERATIONS_def)
qed

lemma b64_length: "length (b64_encode bs) \<le> 2 * length bs + 3"
proof -
  have "(4 - length (sextets bs) mod 4) mod 4 < 4" by simp
  then show ?thesis using sextets_length_le [of bs] by (simp add: b64_encode_def b64_pad_def)
qed

lemma hashPassword_length:
  assumes "length salt = SALT_BYTES" "length k = HASH_BYTES"
  shows "length (PASSWORD_ALGORITHM @ ''$'' @ nat_to_str PBKDF2_ITERATIONS @ ''$''
      @ b64_encode salt @ ''$'' @ b64_encode k) \<le> 1024"
  using b64_length [of salt] b64_length [of k] assms
  by (simp add: iterations_digits PASSWORD_ALGORITHM_def SALT_BYTES_def HASH_BYTES_def)

lemma parsePasswordHash_bounds:
  assumes "parsePasswordHash h = Some p"
  shows "MIN_ACCEPTED_PBKDF2_ITERATIONS \<le> ph_iterations p \<and> SALT_BYTES \<le> length (ph_salt p) \<and>
    length (ph_hash p) = HASH_BYTES"
proof -
  obtain it where "\<not> js_lt it (Fin (of_nat MIN_ACCEPTED_PBKDF2_ITERATIONS))" "js_isInteger it"
      "ph_iterations p = nat (js_int it)" "SALT_BYTES \<le> length (ph_salt p)" "length (ph_hash p) = HASH_BYTES"
    using assms by (auto simp: parsePasswordHash_def split: list.splits if_splits option.splits)
  moreover from this(2) obtain i where "it = FinI i" by (rule js_isIntegerE)
  ultimately show ?thesis by (auto simp: MIN_ACCEPTED_PBKDF2_ITERATIONS_def)
qed

lemma is_hex_lower_utf8: "length s = 64 \<Longrightarrow> length (utf8_encode s) < 2 ^ 32"
  using length_utf8_encode(2) [of s] by simp

text \<open>The key-derivation function returns the 256 bits the code asks for, when it returns.\<close>

definition kdf_ok :: "kdf \<Rightarrow> bool" where
  "kdf_ok kdf \<longleftrightarrow> (\<forall>pw salt it k. kdf pw salt it = Some k \<longrightarrow> length k = HASH_BYTES)"

lemma ct_hash: "length a = HASH_BYTES \<Longrightarrow> length b = HASH_BYTES \<Longrightarrow> ct_bytes a b \<longleftrightarrow> a = b"
  by (simp add: ct_bytes_iff HASH_BYTES_def)

lemma ct_hash_string:
  "length a = 64 \<Longrightarrow> length b = 64 \<Longrightarrow> constantTimeStringEqual a b \<longleftrightarrow> a = b"
  unfolding constantTimeStringEqual_def
  using ct_bytes_iff [OF is_hex_lower_utf8 is_hex_lower_utf8] by simp

text \<open>
  The password service hashes and verifies consistently: for a valid account and password,
  once the key derivation succeeds, the hash is produced, needs no rehash, and a later
  verification of any password that derives succeeds exactly when it derives the same key, so
  the same password is accepted.
\<close>

theorem password_service_roundtrip:
  assumes kdf: "kdf_ok kdf" and salt: "length salt = SALT_BYTES"
    and acc: "account \<noteq> []" "length account \<le> 256" and pw: "pw \<noteq> []" "length pw \<le> 4096"
    and k: "kdf (utf8_encode pw) salt PBKDF2_ITERATIONS = Some k"
  shows "\<exists>h. hashAdminPassword (\<lambda>name. do_hashPassword kdf salt) (Str account) (Str pw) = Inr h \<and>
    \<not> needsPasswordRehash h \<and>
    verifyAdminPassword (\<lambda>name. do_verifyPassword kdf sha) (Str account) (Str pw) (Str h) = Inr True \<and>
    (\<forall>pw' k'. pw' \<noteq> [] \<and> length pw' \<le> 4096 \<and> kdf (utf8_encode pw') salt PBKDF2_ITERATIONS = Some k' \<longrightarrow>
      verifyAdminPassword (\<lambda>name. do_verifyPassword kdf sha) (Str account) (Str pw') (Str h) = Inr (k' = k))"
proof -
  let ?h = "PASSWORD_ALGORITHM @ ''$'' @ nat_to_str PBKDF2_ITERATIONS @ ''$'' @ b64_encode salt @ ''$'' @ b64_encode k"
  have len: "length k = HASH_BYTES" using kdf k by (auto simp: kdf_ok_def)
  note parse = parse_hash_string [OF eq_refl [OF salt [symmetric]] len]
  note hl = hashPassword_length [OF salt len]
  have ver: "verifyAdminPassword (\<lambda>name. do_verifyPassword kdf sha) (Str account) (Str pw') (Str ?h) = Inr (k' = k)"
    if "pw' \<noteq> []" "length pw' \<le> 4096" "kdf (utf8_encode pw') salt PBKDF2_ITERATIONS = Some k'" for pw' k'
  proof -
    have "length k' = HASH_BYTES" using kdf that(3) by (auto simp: kdf_ok_def)
    then have "verifyPassword kdf sha pw' ?h = Some (k' = k)"
      unfolding verifyPassword_def parse by (simp add: derivePbkdf2_def that(3) ct_hash len)
    then show ?thesis using that(1,2) acc hl
      by (simp add: verifyAdminPassword_def passwordStub_def valid_rpc_string_def do_verifyPassword_def)
  qed
  have "hashAdminPassword (\<lambda>name. do_hashPassword kdf salt) (Str account) (Str pw) = Inr ?h"
    using acc pw k hl
    by (simp add: hashAdminPassword_def passwordStub_def valid_rpc_string_def do_hashPassword_def
        hashPassword_def derivePbkdf2_def)
  moreover have "\<not> needsPasswordRehash ?h" by (simp only: needsPasswordRehash_def parse) simp
  moreover note ver [OF pw k]
  ultimately show ?thesis using ver by (intro exI [of _ ?h] conjI allI impI) (simp_all del: append.simps append_assoc)
qed

theorem password_service_roundtrip_witness:
  "\<exists>h. hashAdminPassword (\<lambda>name. do_hashPassword (\<lambda>p s it. Some (take 32 (p @ replicate 32 0))) (replicate 16 7))
      (Str ''root'') (Str ''a long passphrase'') = Inr h \<and>
    \<not> needsPasswordRehash h \<and>
    verifyAdminPassword (\<lambda>name. do_verifyPassword (\<lambda>p s it. Some (take 32 (p @ replicate 32 0))) id)
      (Str ''root'') (Str ''a long passphrase'') (Str h) = Inr True"
proof -
  have "kdf_ok (\<lambda>p s it. Some (take 32 (p @ replicate 32 0)))" by (simp add: kdf_ok_def HASH_BYTES_def min_def)
  from password_service_roundtrip [OF this, of "replicate 16 7" "''root''" "''a long passphrase''" _ id]
  show ?thesis by (auto simp: SALT_BYTES_def)
qed

text \<open>
  What a stored hash accepts: a password verifies only against a PBKDF2 record of at least
  10000 iterations, a salt of at least 16 bytes and exactly the derived 32-byte key, or against
  the legacy salted SHA-256 in hexadecimal, in either case of letters; any other stored text
  rejects every password instead of failing, and whatever was accepted by the legacy branch is
  flagged for rehashing.
\<close>

theorem verifyPassword_exact:
  assumes "kdf_ok kdf" "\<forall>m. length (sha m) = 32"
  shows "(verifyPassword kdf sha pw h = Some True \<longleftrightarrow>
      (\<exists>p. parsePasswordHash h = Some p \<and> kdf (utf8_encode pw) (ph_salt p) (ph_iterations p) = Some (ph_hash p) \<and>
        10000 \<le> ph_iterations p \<and> 16 \<le> length (ph_salt p) \<and> length (ph_hash p) = 32)
      \<or> (parsePasswordHash h = None \<and> is_legacy_hash h \<and> needsPasswordRehash h \<and>
        bytes_to_hex (sha (utf8_encode (pw @ LEGACY_SALT))) = js_toLowerCase h)) \<and>
    (parsePasswordHash h = None \<and> \<not> is_legacy_hash h \<longrightarrow> verifyPassword kdf sha pw h = Some False)"
proof (cases "parsePasswordHash h")
  case None
  have "length (hashLegacyPassword sha pw) = 64" "is_legacy_hash h \<Longrightarrow> length (js_toLowerCase h) = 64"
    using assms(2) bytes_to_hex_shape by (auto simp: hashLegacyPassword_def is_legacy_hash_def js_toLowerCase_def)
  then show ?thesis using None
    by (auto simp: verifyPassword_def ct_hash_string needsPasswordRehash_def hashLegacyPassword_def)
next
  case (Some p)
  have "length k = HASH_BYTES" if "kdf (utf8_encode pw) (ph_salt p) (ph_iterations p) = Some k" for k
    using that assms(1) by (auto simp: kdf_ok_def)
  then show ?thesis using Some parsePasswordHash_bounds [OF Some]
    by (auto simp: verifyPassword_def derivePbkdf2_def ct_hash MIN_ACCEPTED_PBKDF2_ITERATIONS_def SALT_BYTES_def
        HASH_BYTES_def)
qed

theorem verifyPassword_exact_witness:
  "verifyPassword (\<lambda>p s it. None) (\<lambda>m. replicate 32 0) ''pw'' ''plain'' = Some False"
proof -
  have "parsePasswordHash ''plain'' = None" by (simp add: parsePasswordHash_def)
  moreover have "\<not> is_legacy_hash ''plain''" by (simp add: is_legacy_hash_def)
  ultimately show ?thesis
    using verifyPassword_exact [of "\<lambda>p s it. None" "\<lambda>m. replicate 32 0" "''pw''" "''plain''"]
    by (simp add: kdf_ok_def)
qed

end
