(* ===== verification/AuthTokens.thy ===== *)
theory AuthTokens
  imports JsJson
begin

section \<open>Session and MFA tokens, cookies, protected paths\<close>

text \<open>
  \<open>auth/jwt.ts\<close>, \<open>auth/session.ts\<close>, \<open>auth/mfa-token.ts\<close> and \<open>auth/mfa-policy.ts\<close>. The JWT
  library is a pair of parameters: \<open>sign payload secret\<close> signs, \<open>verify now token secret\<close> returns the
  payload or \<open>None\<close> where the library throws. Clocks (in ms), random bytes and random ids are
  arguments.
\<close>

definition MIN_JWT_SECRET_BYTES :: nat where "MIN_JWT_SECRET_BYTES = 32"
definition MFA_TOKEN_TTL_SECONDS :: int where "MFA_TOKEN_TTL_SECONDS = 5 * 60"
definition ADMIN_SESSION_MAX_AGE_SECONDS :: int where "ADMIN_SESSION_MAX_AGE_SECONDS = 7 * 24 * 60 * 60"
definition MFA_STEP_UP_MAX_AGE_SECONDS :: int where "MFA_STEP_UP_MAX_AGE_SECONDS = 5 * 60"

datatype auth_error = AuthConfigurationError | JwtRejected

type_synonym jwt_sign = "jsobj \<Rightarrow> string \<Rightarrow> string"
type_synonym jwt_verify = "int \<Rightarrow> string \<Rightarrow> string \<Rightarrow> jsobj option"

record admin_identity =
  userId :: string
  username :: string
  sessionVersion :: jsnum

definition requireJwtSecret :: "string option \<Rightarrow> auth_error + string" where
  "requireJwtSecret env =
     (let secret = (case env of None \<Rightarrow> [] | Some s \<Rightarrow> js_trim s)
      in if length (utf8_encode secret) < MIN_JWT_SECRET_BYTES then Inl AuthConfigurationError
         else Inr secret)"

definition seconds_of :: "int \<Rightarrow> int" where "seconds_of nowMs = nowMs div 1000"

definition generateToken :: "jwt_sign \<Rightarrow> int \<Rightarrow> admin_identity \<Rightarrow> string option \<Rightarrow> auth_error + string" where
  "generateToken sign nowMs u env =
     (let now = seconds_of nowMs;
          payload = [(''kind'', Str ''cf-monitor-session''), (''purpose'', Str ''admin-session''),
            (''userId'', Str (userId u)), (''username'', Str (username u)),
            (''sessionVersion'', Num (sessionVersion u)),
            (''iat'', Num (FinI now)), (''exp'', Num (FinI (now + 7 * 24 * 60 * 60)))]
      in case requireJwtSecret env of Inl e \<Rightarrow> Inl e | Inr secret \<Rightarrow> Inr (sign payload secret))"

text \<open>The identity fields every verifier tests, with the same conditions.\<close>

definition token_identity :: "jsobj \<Rightarrow> admin_identity option" where
  "token_identity p =
     (case (js_get p ''userId'', js_get p ''username'', js_get p ''sessionVersion'') of
        (Str u, Str n, Num v) \<Rightarrow>
          if js_isSafeInteger v \<and> \<not> js_lt v (Fin 1)
          then Some \<lparr>userId = u, username = n, sessionVersion = v\<rparr> else None
      | _ \<Rightarrow> None)"

definition verifyAdminToken ::
  "jwt_verify \<Rightarrow> int \<Rightarrow> string \<Rightarrow> string option \<Rightarrow> auth_error + admin_identity option" where
  "verifyAdminToken verify nowMs token env = (case requireJwtSecret env of
       Inl e \<Rightarrow> Inl e
     | Inr secret \<Rightarrow> (case verify nowMs token secret of
         None \<Rightarrow> Inl JwtRejected
       | Some payload \<Rightarrow>
           if js_get payload ''kind'' \<noteq> Str ''cf-monitor-session'' \<or>
              js_get payload ''purpose'' \<noteq> Str ''admin-session'' then Inr None
           else Inr (token_identity payload)))"

subsection \<open>MFA tokens\<close>

datatype mfa_purpose = MfaLogin | MfaStepUp

fun purpose_text :: "mfa_purpose \<Rightarrow> string" where
  "purpose_text MfaLogin = ''mfa-login''"
| "purpose_text MfaStepUp = ''mfa-step-up''"

definition generateMfaToken ::
  "jwt_sign \<Rightarrow> int \<Rightarrow> string \<Rightarrow> mfa_purpose \<Rightarrow> admin_identity \<Rightarrow> string option \<Rightarrow> auth_error + string" where
  "generateMfaToken sign nowMs uuid purpose u env =
     (let now = seconds_of nowMs;
          payload = [(''userId'', Str (userId u)), (''username'', Str (username u)),
            (''sessionVersion'', Num (sessionVersion u)), (''purpose'', Str (purpose_text purpose)),
            (''kind'', Str ''cf-monitor-mfa''), (''jti'', Str uuid),
            (''iat'', Num (FinI now)), (''exp'', Num (FinI (now + MFA_TOKEN_TTL_SECONDS)))]
      in case requireJwtSecret env of Inl e \<Rightarrow> Inl e | Inr secret \<Rightarrow> Inr (sign payload secret))"

definition verifyMfaToken ::
  "jwt_verify \<Rightarrow> int \<Rightarrow> string \<Rightarrow> mfa_purpose \<Rightarrow> string option \<Rightarrow> auth_error + admin_identity option" where
  "verifyMfaToken verify nowMs token expected env = (case requireJwtSecret env of
       Inl e \<Rightarrow> Inl e
     | Inr secret \<Rightarrow> (case verify nowMs token secret of
         None \<Rightarrow> Inr None
       | Some payload \<Rightarrow>
           if js_get payload ''kind'' \<noteq> Str ''cf-monitor-mfa'' \<or>
              js_get payload ''purpose'' \<noteq> Str (purpose_text expected) then Inr None
           else Inr (token_identity payload)))"

definition generateMfaSetupToken ::
  "jwt_sign \<Rightarrow> int \<Rightarrow> string \<Rightarrow> admin_identity \<Rightarrow> string \<Rightarrow> string option \<Rightarrow> auth_error + string" where
  "generateMfaSetupToken sign nowMs uuid u encryptedSecret env =
     (let now = seconds_of nowMs;
          payload = [(''userId'', Str (userId u)), (''username'', Str (username u)),
            (''sessionVersion'', Num (sessionVersion u)), (''encryptedSecret'', Str encryptedSecret),
            (''kind'', Str ''cf-monitor-mfa''), (''purpose'', Str ''mfa-setup''), (''jti'', Str uuid),
            (''iat'', Num (FinI now)), (''exp'', Num (FinI (now + MFA_TOKEN_TTL_SECONDS)))]
      in case requireJwtSecret env of Inl e \<Rightarrow> Inl e | Inr secret \<Rightarrow> Inr (sign payload secret))"

definition verifyMfaSetupToken ::
  "jwt_verify \<Rightarrow> int \<Rightarrow> string \<Rightarrow> string option \<Rightarrow> auth_error + (admin_identity \<times> string) option" where
  "verifyMfaSetupToken verify nowMs token env = (case requireJwtSecret env of
       Inl e \<Rightarrow> Inl e
     | Inr secret \<Rightarrow> (case verify nowMs token secret of
         None \<Rightarrow> Inr None
       | Some payload \<Rightarrow>
           if js_get payload ''kind'' \<noteq> Str ''cf-monitor-mfa'' \<or>
              js_get payload ''purpose'' \<noteq> Str ''mfa-setup'' then Inr None
           else (case (token_identity payload, js_get payload ''encryptedSecret'') of
               (Some u, Str enc) \<Rightarrow> if enc = [] \<or> length enc > 4096 then Inr None else Inr (Some (u, enc))
             | _ \<Rightarrow> Inr None)))"

subsection \<open>Cookies and the CSRF token\<close>

text \<open>
  A request context: the cookies and headers of the request, whether it came over https, and the
  cookies the response sets or deletes, in order.
\<close>

datatype same_site = Lax | Strict

datatype cookie_op =
    SetCookie string string "string" bool bool same_site int
  | DeleteCookie string string

record ctx =
  req_cookies :: "(string \<times> string) list"
  csrf_header :: "string option"
  https :: bool
  set_cookies :: "cookie_op list"

definition ADMIN_SESSION_COOKIE :: string where "ADMIN_SESSION_COOKIE = ''cf_monitor_session''"
definition ADMIN_CSRF_COOKIE :: string where "ADMIN_CSRF_COOKIE = ''cf_monitor_csrf''"
definition MFA_STEP_UP_COOKIE :: string where "MFA_STEP_UP_COOKIE = ''cf_monitor_mfa_stepup''"

definition getCookie :: "ctx \<Rightarrow> string \<Rightarrow> string option" where
  "getCookie c name = map_of (req_cookies c) name"

definition push_cookie :: "cookie_op \<Rightarrow> ctx \<Rightarrow> ctx" where
  "push_cookie k c = c\<lparr>set_cookies := set_cookies c @ [k]\<rparr>"

definition getAdminSessionToken :: "ctx \<Rightarrow> string option" where
  "getAdminSessionToken c = getCookie c ADMIN_SESSION_COOKIE"

definition setAdminSessionCookie :: "string \<Rightarrow> ctx \<Rightarrow> ctx" where
  "setAdminSessionCookie token c =
     push_cookie (SetCookie ADMIN_SESSION_COOKIE token ''/'' True (https c) Lax ADMIN_SESSION_MAX_AGE_SECONDS) c"

definition generateCsrfToken :: "bytes \<Rightarrow> string" where
  "generateCsrfToken rnd = bytesToBase64Url rnd"

definition isValidCsrfToken :: "string option \<Rightarrow> bool" where
  "isValidCsrfToken token = (case token of
       None \<Rightarrow> False
     | Some t \<Rightarrow> list_all is_b64url t \<and> 32 \<le> length t \<and> length t \<le> 128)"

definition csrf_constantTimeStringEqual :: "string \<Rightarrow> string \<Rightarrow> bool" where
  "csrf_constantTimeStringEqual a b = ct_equal (map cc a) (map cc b)"

definition getAdminCsrfToken :: "ctx \<Rightarrow> string option" where
  "getAdminCsrfToken c =
     (let token = getCookie c ADMIN_CSRF_COOKIE in if isValidCsrfToken token then token else None)"

definition ensureAdminCsrfCookie :: "bytes \<Rightarrow> ctx \<Rightarrow> ctx \<times> string" where
  "ensureAdminCsrfCookie rnd c =
     (let token = (case getAdminCsrfToken c of
            Some t \<Rightarrow> if t = [] then generateCsrfToken rnd else t
          | None \<Rightarrow> generateCsrfToken rnd)
      in (push_cookie (SetCookie ADMIN_CSRF_COOKIE token ''/'' False (https c) Lax ADMIN_SESSION_MAX_AGE_SECONDS) c,
          token))"

definition verifyAdminCsrfToken :: "ctx \<Rightarrow> bool" where
  "verifyAdminCsrfToken c = (case (getAdminCsrfToken c, csrf_header c) of
       (Some cookieToken, Some headerToken) \<Rightarrow>
         cookieToken \<noteq> [] \<and> isValidCsrfToken (Some headerToken) \<and>
         csrf_constantTimeStringEqual cookieToken headerToken
     | _ \<Rightarrow> False)"

definition getMfaStepUpToken :: "ctx \<Rightarrow> string option" where
  "getMfaStepUpToken c = getCookie c MFA_STEP_UP_COOKIE"

definition setMfaStepUpCookie :: "string \<Rightarrow> ctx \<Rightarrow> ctx" where
  "setMfaStepUpCookie token c =
     push_cookie (SetCookie MFA_STEP_UP_COOKIE token ''/api/admin'' True (https c) Strict MFA_STEP_UP_MAX_AGE_SECONDS) c"

definition clearMfaStepUpCookie :: "ctx \<Rightarrow> ctx" where
  "clearMfaStepUpCookie c = push_cookie (DeleteCookie MFA_STEP_UP_COOKIE ''/api/admin'') c"

definition clearAdminSessionCookie :: "ctx \<Rightarrow> ctx" where
  "clearAdminSessionCookie c =
     push_cookie (DeleteCookie ADMIN_CSRF_COOKIE ''/'')
       (push_cookie (DeleteCookie ADMIN_SESSION_COOKIE ''/'') (clearMfaStepUpCookie c))"

subsection \<open>Paths that need a second factor\<close>

definition EXACT_PROTECTED_PATHS :: "string list" where
  "EXACT_PROTECTED_PATHS = [
     ''/api/admin/account/username'', ''/api/admin/account/chpasswd'',
     ''/api/admin/clients/batch-remove'', ''/api/admin/record/clear'', ''/api/admin/record/clear/all'',
     ''/api/admin/download/backup'', ''/api/admin/upload/backup'',
     ''/api/admin/account/mfa/setup'', ''/api/admin/account/mfa/enable'',
     ''/api/admin/account/mfa/recovery-codes'', ''/api/admin/account/mfa/disable'']"

text \<open>The pattern \<open>CLIENT_SECRET_PATH\<close>, read off the segments of the path.\<close>

definition client_secret_path :: "string \<Rightarrow> bool" where
  "client_secret_path pathname = (case js_split CHR ''/'' pathname of
       [a, b, c, d, i, e] \<Rightarrow>
         [a, b, c, d] = [[], ''api'', ''admin'', ''clients''] \<and> i \<noteq> [] \<and> e \<in> {''remove'', ''token''}
     | [a, b, c, d, i, e, f] \<Rightarrow>
         [a, b, c, d] = [[], ''api'', ''admin'', ''clients''] \<and> i \<noteq> [] \<and> e = ''token'' \<and>
         f \<in> {''install'', ''rotate''}
     | _ \<Rightarrow> False)"

definition isMfaStepUpProtectedRequest :: "string \<Rightarrow> string \<Rightarrow> bool" where
  "isMfaStepUpProtectedRequest verb pathname \<longleftrightarrow>
     js_toUpperCase verb = ''POST'' \<and>
     (pathname \<in> set EXACT_PROTECTED_PATHS \<or> client_secret_path pathname)"

subsection \<open>Token kinds\<close>

text \<open>
  The four kinds of token the code issues, and the verifier of each kind. The library's contract:
  a token it signed verifies with the same secret to its payload while it is live, that is from
  its \<open>iat\<close> second until before its \<open>exp\<close> second, and is rejected otherwise.
\<close>

definition jwt_live :: "int \<Rightarrow> jsobj \<Rightarrow> bool" where
  "jwt_live nowMs p \<longleftrightarrow>
     (case js_get p ''exp'' of Num (Fin e) \<Rightarrow> of_int (seconds_of nowMs) < e | _ \<Rightarrow> True) \<and>
     (case js_get p ''iat'' of Num (Fin i) \<Rightarrow> i \<le> of_int (seconds_of nowMs) | _ \<Rightarrow> True)"

definition jwt_ok :: "jwt_sign \<Rightarrow> jwt_verify \<Rightarrow> bool" where
  "jwt_ok sign verify \<longleftrightarrow> (\<forall>p s now. json_clean (Obj p) \<longrightarrow>
     verify now (sign p s) s = (if jwt_live now p then Some p else None))"

datatype token_kind = AdminSession | MfaChallenge mfa_purpose | MfaSetup

fun issue_token ::
  "jwt_sign \<Rightarrow> int \<Rightarrow> string \<Rightarrow> string \<Rightarrow> token_kind \<Rightarrow> admin_identity \<Rightarrow> string option \<Rightarrow> auth_error + string" where
  "issue_token sign t uuid sec AdminSession u env = generateToken sign t u env"
| "issue_token sign t uuid sec (MfaChallenge p) u env = generateMfaToken sign t uuid p u env"
| "issue_token sign t uuid sec MfaSetup u env = generateMfaSetupToken sign t uuid u sec env"

fun token_accepted :: "jwt_verify \<Rightarrow> int \<Rightarrow> token_kind \<Rightarrow> string \<Rightarrow> string option \<Rightarrow> admin_identity option" where
  "token_accepted verify now AdminSession tk env =
     (case verifyAdminToken verify now tk env of Inr (Some u) \<Rightarrow> Some u | _ \<Rightarrow> None)"
| "token_accepted verify now (MfaChallenge p) tk env =
     (case verifyMfaToken verify now tk p env of Inr (Some u) \<Rightarrow> Some u | _ \<Rightarrow> None)"
| "token_accepted verify now MfaSetup tk env =
     (case verifyMfaSetupToken verify now tk env of Inr (Some (u, _)) \<Rightarrow> Some u | _ \<Rightarrow> None)"

fun token_lifetime :: "token_kind \<Rightarrow> int" where
  "token_lifetime AdminSession = 7 * 24 * 60 * 60"
| "token_lifetime _ = MFA_TOKEN_TTL_SECONDS"

definition identity_ok :: "admin_identity \<Rightarrow> bool" where
  "identity_ok u \<longleftrightarrow> js_isSafeInteger (sessionVersion u) \<and> \<not> js_lt (sessionVersion u) (Fin 1)"

lemma identity_ok_version:
  assumes "identity_ok u"
  obtains v where "sessionVersion u = FinI v" "1 \<le> v" "v \<le> MAX_SAFE_INTEGER"
proof (cases "sessionVersion u")
  case (Fin q)
  then obtain v where "q = of_int v" using assms by (auto simp: identity_ok_def rat_is_int_def)
  then show thesis using that [of v] assms Fin by (auto simp: identity_ok_def)
qed (use assms in \<open>auto simp: identity_ok_def\<close>)

lemma purpose_text_neq: "purpose_text p \<noteq> ''mfa-setup''" "purpose_text p = purpose_text q \<longleftrightarrow> p = q"
  by (cases p; cases q; simp)+

text \<open>The payload of each kind, with the claims the library reads.\<close>

definition token_payload :: "token_kind \<Rightarrow> int \<Rightarrow> string \<Rightarrow> string \<Rightarrow> admin_identity \<Rightarrow> jsobj" where
  "token_payload k t uuid sec u =
     (let now = seconds_of t;
          ident = [(''userId'', Str (userId u)), (''username'', Str (username u)),
            (''sessionVersion'', Num (sessionVersion u))];
          times = [(''iat'', Num (FinI now)), (''exp'', Num (FinI (now + token_lifetime k)))]
      in case k of
          AdminSession \<Rightarrow> [(''kind'', Str ''cf-monitor-session''), (''purpose'', Str ''admin-session'')] @ ident @ times
        | MfaChallenge p \<Rightarrow> ident @ [(''purpose'', Str (purpose_text p)), (''kind'', Str ''cf-monitor-mfa''), (''jti'', Str uuid)] @ times
        | MfaSetup \<Rightarrow> ident @ [(''encryptedSecret'', Str sec), (''kind'', Str ''cf-monitor-mfa''), (''purpose'', Str ''mfa-setup''), (''jti'', Str uuid)] @ times)"

lemma issue_token_payload:
  "requireJwtSecret env = Inr s \<Longrightarrow> issue_token sign t uuid sec k u env = Inr (sign (token_payload k t uuid sec u) s)"
  by (cases k) (simp_all add: generateToken_def generateMfaToken_def generateMfaSetupToken_def token_payload_def Let_def)

lemma token_payload_gets:
  "js_get (token_payload k t uuid sec u) ''exp'' = Num (FinI (seconds_of t + token_lifetime k))"
  "js_get (token_payload k t uuid sec u) ''iat'' = Num (FinI (seconds_of t))"
  "js_get (token_payload k t uuid sec u) ''kind'' = Str (if k = AdminSession then ''cf-monitor-session'' else ''cf-monitor-mfa'')"
  "js_get (token_payload k t uuid sec u) ''purpose'' =
     Str (case k of AdminSession \<Rightarrow> ''admin-session'' | MfaChallenge p \<Rightarrow> purpose_text p | MfaSetup \<Rightarrow> ''mfa-setup'')"
  by (cases k; simp add: token_payload_def Let_def js_get_Cons)+

lemma token_payload_identity:
  "identity_ok u \<Longrightarrow> token_identity (token_payload k t uuid sec u) = Some u"
  by (cases k) (simp_all add: token_payload_def Let_def js_get_Cons token_identity_def identity_ok_def)

lemma token_payload_clean: "identity_ok u \<Longrightarrow> json_clean (Obj (token_payload k t uuid sec u))
   \<longleftrightarrow> \<bar>seconds_of t\<bar> < 10 ^ 21 \<and> \<bar>seconds_of t + token_lifetime k\<bar> < 10 ^ 21"
  by (erule identity_ok_version, cases k) (simp_all add: token_payload_def Let_def)

text \<open>
  C11. Token separation and lifetime: a token of any kind, issued for a valid identity with a
  usable secret, is accepted by exactly one of the four verifiers, the one of its kind, from its
  issue until its lifetime ends (seven days for sessions, five minutes for the MFA tokens), and
  it yields the identity it was issued for; no other verifier ever accepts it.
\<close>

theorem token_kind_separation:
  assumes jwt: "jwt_ok sign verify" and secret: "requireJwtSecret env = Inr s" and u: "identity_ok u"
    and sec: "sec \<noteq> []" "length sec \<le> 4096" and time: "0 \<le> t" "t \<le> now" "t < 10 ^ 20"
  shows "\<exists>tk. issue_token sign t uuid sec k u env = Inr tk \<and>
    (\<forall>k'. token_accepted verify now k' tk env =
       (if k' = k \<and> seconds_of now < seconds_of t + token_lifetime k then Some u else None))"
proof -
  let ?p = "token_payload k t uuid sec u"
  have "\<bar>seconds_of t\<bar> < 10 ^ 21 \<and> \<bar>seconds_of t + token_lifetime k\<bar> < 10 ^ 21"
    using time by (cases k) (auto simp: seconds_of_def MFA_TOKEN_TTL_SECONDS_def)
  then have "json_clean (Obj ?p)" using token_payload_clean [OF u] by blast
  then have v: "verify now (sign ?p s) s = (if jwt_live now ?p then Some ?p else None)"
    using jwt by (simp add: jwt_ok_def)
  have le: "seconds_of t \<le> seconds_of now" using time by (simp add: seconds_of_def zdiv_mono1)
  have live: "jwt_live now ?p \<longleftrightarrow> seconds_of now < seconds_of t + token_lifetime k"
    using le by (simp only: jwt_live_def token_payload_gets jsval.case jsnum.case of_int_less_iff of_int_le_iff) simp
  define p where "p = ?p"
  have enc: "js_get p ''encryptedSecret'' = (if k = MfaSetup then Str sec else Undef)"
    unfolding p_def by (cases k) (simp_all add: token_payload_def Let_def js_get_Cons js_get_def)
  note p = token_payload_gets(3,4) [of k t uuid sec u, folded p_def] enc
    token_payload_identity [OF u, of k t uuid sec, folded p_def]
  have "token_accepted verify now k' (sign p s) env =
      (if k' = k \<and> seconds_of now < seconds_of t + token_lifetime k then Some u else None)" for k'
  proof (cases "seconds_of now < seconds_of t + token_lifetime k")
    case True
    then have "verify now (sign p s) s = Some p" using v live by (simp add: p_def)
    then show ?thesis using True p sec
      by (cases k'; cases k) (simp_all add: verifyAdminToken_def verifyMfaToken_def verifyMfaSetupToken_def secret
        purpose_text_neq purpose_text_neq(1) [symmetric])
  next
    case False
    then have "verify now (sign p s) s = None" using v live by (simp add: p_def)
    then show ?thesis using False
      by (cases k') (simp_all add: verifyAdminToken_def verifyMfaToken_def verifyMfaSetupToken_def secret)
  qed
  then show ?thesis using issue_token_payload [OF secret] unfolding p_def by blast
qed

definition json_sign :: jwt_sign where
  "json_sign p s = the (JSON_stringify (Obj [(''s'', Str s), (''p'', Obj p)]))"

definition json_verify :: jwt_verify where
  "json_verify now tk s = (case JSON_parse tk of
       Some (Obj [(_, Str s'), (_, Obj p)]) \<Rightarrow> if s' = s \<and> jwt_live now p then Some p else None
     | _ \<Rightarrow> None)"

lemma json_jwt_ok: "jwt_ok json_sign json_verify"
  unfolding jwt_ok_def json_sign_def json_verify_def
  by (auto simp: json.dec_enc simp del: JSON_stringify.simps)

theorem token_kind_separation_witness:
  "\<exists>tk. issue_token json_sign 1000 ''id'' ''enc'' (MfaChallenge MfaLogin)
      \<lparr>userId = ''u'', username = ''n'', sessionVersion = FinI 1\<rparr> (Some (replicate 32 CHR ''k'')) = Inr tk \<and>
    (\<forall>k'. token_accepted json_verify 2000 k' tk (Some (replicate 32 CHR ''k'')) =
       (if k' = MfaChallenge MfaLogin \<and> seconds_of 2000 < seconds_of 1000 + token_lifetime (MfaChallenge MfaLogin)
        then Some \<lparr>userId = ''u'', username = ''n'', sessionVersion = FinI 1\<rparr> else None))"
proof (rule token_kind_separation [OF json_jwt_ok, where s = "replicate 32 CHR ''k''"])
  have "js_trim (replicate 32 CHR ''k'') = replicate 32 CHR ''k''"
    by (rule js_trim_id) (simp add: list_all_iff is_ws_def cc_def)
  then show "requireJwtSecret (Some (replicate 32 CHR ''k'')) = Inr (replicate 32 CHR ''k'')"
    using length_utf8_encode(1) [of "replicate 32 CHR ''k''"]
    by (simp add: requireJwtSecret_def MIN_JWT_SECRET_BYTES_def Let_def)
qed (simp_all add: identity_ok_def)

subsection \<open>The double-submitted CSRF token\<close>

lemma valid_csrf_length: "isValidCsrfToken (Some t) \<Longrightarrow> t \<noteq> [] \<and> length t < 2 ^ 32"
  by (auto simp: isValidCsrfToken_def)

lemma csrf_equal_iff:
  assumes "isValidCsrfToken (Some a)" "isValidCsrfToken (Some b)"
  shows "csrf_constantTimeStringEqual a b \<longleftrightarrow> a = b"
proof -
  have "map cc a = map cc b \<longleftrightarrow> a = b" by (rule inj_map_eq_map) (simp add: inj_on_def cc_inject)
  moreover have small: "cc c < 2 ^ 32" for c using cc_less [of c] by (rule order.strict_trans) simp
  ultimately show ?thesis
    unfolding csrf_constantTimeStringEqual_def
    using valid_csrf_length [OF assms(1)] valid_csrf_length [OF assms(2)] by (subst ct_equal_iff) auto
qed

lemma generateCsrfToken_valid: "length rnd = 32 \<Longrightarrow> isValidCsrfToken (Some (generateCsrfToken rnd))"
  using length_bytesToBase64Url [of rnd] length_bytesToBase64Url_le [of rnd] bytesToBase64Url_chars [of rnd]
  by (simp add: isValidCsrfToken_def generateCsrfToken_def)

text \<open>
  The CSRF check accepts a request exactly when its cookie and its header carry the same
  well-formed token, and the token \<open>ensureAdminCsrfCookie\<close> hands out, fresh or reused, is one
  that a later request carrying it in both places passes with.
\<close>

theorem csrf_double_submit:
  assumes "length rnd = 32"
  shows "(verifyAdminCsrfToken c \<longleftrightarrow>
      (\<exists>t. getCookie c ADMIN_CSRF_COOKIE = Some t \<and> csrf_header c = Some t \<and> isValidCsrfToken (Some t))) \<and>
    (\<exists>t. snd (ensureAdminCsrfCookie rnd c) = t \<and>
      set_cookies (fst (ensureAdminCsrfCookie rnd c)) = set_cookies c @
        [SetCookie ADMIN_CSRF_COOKIE t ''/'' False (https c) Lax ADMIN_SESSION_MAX_AGE_SECONDS] \<and>
      (\<forall>c'. getCookie c' ADMIN_CSRF_COOKIE = Some t \<and> csrf_header c' = Some t \<longrightarrow> verifyAdminCsrfToken c'))"
proof -
  have exact: "verifyAdminCsrfToken c \<longleftrightarrow>
      (\<exists>t. getCookie c ADMIN_CSRF_COOKIE = Some t \<and> csrf_header c = Some t \<and> isValidCsrfToken (Some t))" for c
    using csrf_equal_iff valid_csrf_length
    by (auto simp: verifyAdminCsrfToken_def getAdminCsrfToken_def Let_def split: option.splits if_splits)
  have "isValidCsrfToken (Some (snd (ensureAdminCsrfCookie rnd c)))"
    using generateCsrfToken_valid [OF assms]
    by (auto simp: ensureAdminCsrfCookie_def getAdminCsrfToken_def Let_def split: option.splits if_splits)
  then show ?thesis
    unfolding exact by (simp add: ensureAdminCsrfCookie_def push_cookie_def Let_def)
qed

theorem csrf_double_submit_witness:
  "\<exists>t. snd (ensureAdminCsrfCookie (replicate 32 7) \<lparr>req_cookies = [], csrf_header = None, https = True, set_cookies = []\<rparr>) = t \<and>
    (\<forall>c'. getCookie c' ADMIN_CSRF_COOKIE = Some t \<and> csrf_header c' = Some t \<longrightarrow> verifyAdminCsrfToken c')"
  using csrf_double_submit [of "replicate 32 7"
      "\<lparr>req_cookies = [], csrf_header = None, https = True, set_cookies = []\<rparr>"] by auto

subsection \<open>Protected paths\<close>

lemma split_segments:
  "list_all (\<lambda>c. c \<noteq> CHR ''/'') a \<Longrightarrow> js_split CHR ''/'' (a @ CHR ''/'' # s) = a # js_split CHR ''/'' s"
  by (rule split_on_append) simp_all

lemma client_secret_path_forms:
  assumes "i \<noteq> []" "list_all (\<lambda>c. c \<noteq> CHR ''/'') i"
    "e \<in> {''remove'', ''token'', ''token/install'', ''token/rotate''}"
  shows "client_secret_path (''/api/admin/clients/'' @ i @ ''/'' @ e)"
  using assms by (elim insertE; simp add: client_secret_path_def split_segments)

lemma client_secret_path_elim:
  assumes "client_secret_path path"
  shows "\<exists>i e. i \<noteq> [] \<and> CHR ''/'' \<notin> set i \<and> e \<in> {''remove'', ''token'', ''token/install'', ''token/rotate''} \<and>
    path = ''/api/admin/clients/'' @ i @ ''/'' @ e"
proof -
  obtain i tl where sp: "js_split CHR ''/'' path = [[], ''api'', ''admin'', ''clients'', i] @ tl" "i \<noteq> []"
    and tl: "tl \<in> {[''remove''], [''token''], [''token'', ''install''], [''token'', ''rotate'']}"
    using assms by (auto simp: client_secret_path_def split: list.splits)
  have "path = js_join ''/'' (js_split CHR ''/'' path)" by (simp add: js_join_split)
  then have "path = ''/api/admin/clients/'' @ i @ ''/'' @ js_join ''/'' tl"
    unfolding sp using tl by auto
  moreover have "CHR ''/'' \<notin> set i" using split_on_parts [of i "\<lambda>x. x = CHR ''/''" path] sp by (auto simp: list_all_iff)
  ultimately show ?thesis using sp(2) tl by (intro exI [of _ i] exI [of _ "js_join ''/'' tl"]) auto
qed

text \<open>
  The second factor is required for exactly these POST requests, whatever the case of the
  method: the eleven listed account, backup and history paths, and removing, reading,
  installing or rotating the token of any client, whatever its id.
\<close>

theorem mfa_protected_exact:
  "isMfaStepUpProtectedRequest verb path \<longleftrightarrow> js_toUpperCase verb = ''POST'' \<and>
    (path \<in> set EXACT_PROTECTED_PATHS \<or>
     (\<exists>i e. i \<noteq> [] \<and> CHR ''/'' \<notin> set i \<and> e \<in> {''remove'', ''token'', ''token/install'', ''token/rotate''} \<and>
       path = ''/api/admin/clients/'' @ i @ ''/'' @ e))"
proof -
  have "client_secret_path path \<longleftrightarrow>
     (\<exists>i e. i \<noteq> [] \<and> CHR ''/'' \<notin> set i \<and> e \<in> {''remove'', ''token'', ''token/install'', ''token/rotate''} \<and>
       path = ''/api/admin/clients/'' @ i @ ''/'' @ e)"
    using client_secret_path_elim client_secret_path_forms by (fastforce simp: list_all_iff)
  then show ?thesis by (simp only: isMfaStepUpProtectedRequest_def)
qed

end
