(* ===== verification/AdminSession.thy ===== *)
theory AdminSession
  imports AuthTokens
begin

section \<open>The administrator session cache\<close>

text \<open>
  \<open>auth/admin-session.ts\<close>: a validated session is cached for ten seconds per isolate and
  concurrent validations of the same session share one database read. The module's two maps are
  the state; a read that has not answered yet is a flight. Events are a call of
  \<open>validateAdminSession\<close>, the answer (or the failure) of a flight's database read, and
  \<open>invalidateAdminSessionCache\<close>; the interleaving of calls, answers and invalidations is the
  order of the events. The database is outside: an answer is an argument of the event.
\<close>

definition ADMIN_SESSION_CACHE_MS :: int where "ADMIN_SESSION_CACHE_MS = 10000"

record session_user =
  su_uuid :: string
  su_username :: string
  su_session_version :: jsnum

datatype provider = SupabaseApi | OtherProvider

record flight =
  fl_payload :: admin_identity
  fl_key :: string
  fl_cacheResult :: bool

record sess_state =
  adminSessionCache :: "string \<rightharpoonup> session_user \<times> int"
  adminSessionRequests :: "string \<rightharpoonup> nat"
  flights :: "nat \<rightharpoonup> flight"
  next_flight :: nat

definition sess_init :: sess_state where
  "sess_init = \<lparr>adminSessionCache = Map.empty, adminSessionRequests = Map.empty,
                flights = Map.empty, next_flight = 0\<rparr>"

definition cacheKey :: "admin_identity \<Rightarrow> string" where
  "cacheKey p = userId p @ '':'' @ username p @ '':'' @ num_to_str (sessionVersion p)"

definition invalidateAdminSessionCache :: "string option \<Rightarrow> sess_state \<Rightarrow> sess_state" where
  "invalidateAdminSessionCache uid s =
     (case uid of
        None \<Rightarrow> s\<lparr>adminSessionCache := Map.empty, adminSessionRequests := Map.empty\<rparr>
      | Some u \<Rightarrow>
          if u = [] then s\<lparr>adminSessionCache := Map.empty, adminSessionRequests := Map.empty\<rparr>
          else s\<lparr>adminSessionCache :=
                   (\<lambda>k. if js_startsWith k (u @ '':'') then None else adminSessionCache s k),
                 adminSessionRequests :=
                   (\<lambda>k. if js_startsWith k (u @ '':'') then None else adminSessionRequests s k)\<rparr>)"

text \<open>What a call hands back at once: a cached user, the running flight of an earlier call, or a
  flight of its own.\<close>

datatype call_result = Cached session_user | Joined nat | Started nat

definition start_flight :: "admin_identity \<Rightarrow> bool \<Rightarrow> sess_state \<Rightarrow> sess_state \<times> nat" where
  "start_flight p cacheResult s =
     (s\<lparr>flights := (flights s)(next_flight s \<mapsto>
          \<lparr>fl_payload = p, fl_key = cacheKey p, fl_cacheResult = cacheResult\<rparr>),
        next_flight := next_flight s + 1\<rparr>, next_flight s)"

definition validateAdminSession ::
  "int \<Rightarrow> admin_identity \<Rightarrow> bool \<Rightarrow> sess_state \<Rightarrow> sess_state \<times> call_result" where
  "validateAdminSession now p fresh s =
     (let key = cacheKey p in
      if fresh then (case start_flight p False s of (s', i) \<Rightarrow> (s', Started i))
      else case adminSessionCache s key of
          Some (user, expiresAt) \<Rightarrow>
            if now < expiresAt then (s, Cached user)
            else (case adminSessionRequests s key of
                Some i \<Rightarrow> (s, Joined i)
              | None \<Rightarrow> (case start_flight p True s of
                  (s', i) \<Rightarrow> (s'\<lparr>adminSessionRequests := (adminSessionRequests s')(key \<mapsto> i)\<rparr>, Started i)))
        | None \<Rightarrow>
            (case adminSessionRequests s key of
                Some i \<Rightarrow> (s, Joined i)
              | None \<Rightarrow> (case start_flight p True s of
                  (s', i) \<Rightarrow> (s'\<lparr>adminSessionRequests := (adminSessionRequests s')(key \<mapsto> i)\<rparr>, Started i))))"

text \<open>The checks of \<open>readAdminSession\<close> on the row the database returned.\<close>

definition session_of_row :: "provider \<Rightarrow> admin_identity \<Rightarrow> session_user option \<Rightarrow> session_user option" where
  "session_of_row prov p row = (case row of
       None \<Rightarrow> None
     | Some user \<Rightarrow>
         (case prov of
            SupabaseApi \<Rightarrow> if su_username user \<noteq> username p then None else Some user
          | OtherProvider \<Rightarrow>
              if su_username user \<noteq> username p then None
              else if su_session_version user \<noteq> sessionVersion p then None
              else Some user))"

text \<open>
  The answer of a flight's read: the rest of \<open>readAdminSession\<close>, then the \<open>finally\<close> handler,
  which removes whatever request is registered under the key. A rejected read
  (\<open>row = Inl ()\<close>) only runs the handler.
\<close>

definition finish_flight ::
  "provider \<Rightarrow> int \<Rightarrow> nat \<Rightarrow> unit + session_user option \<Rightarrow> sess_state \<Rightarrow> sess_state \<times> session_user option" where
  "finish_flight prov now i row s = (case flights s i of
       None \<Rightarrow> (s, None)
     | Some f \<Rightarrow>
         (let result = (case row of Inl _ \<Rightarrow> None | Inr r \<Rightarrow> session_of_row prov (fl_payload f) r);
              s1 = s\<lparr>flights := (flights s)(i := None)\<rparr>;
              s2 = (case result of
                  Some user \<Rightarrow>
                    if fl_cacheResult f
                    then s1\<lparr>adminSessionCache := (adminSessionCache s1)
                           (fl_key f \<mapsto> (user, now + ADMIN_SESSION_CACHE_MS))\<rparr>
                    else s1
                | None \<Rightarrow> s1);
              s3 = (if fl_cacheResult f
                    then s2\<lparr>adminSessionRequests := (adminSessionRequests s2)(fl_key f := None)\<rparr>
                    else s2)
          in (s3, result)))"

subsection \<open>Runs\<close>

text \<open>
  A run against a database whose rows change over time: \<open>rows ts uid\<close> is the row of a user at
  time \<open>ts\<close>. An answer that arrives at \<open>t\<close> is the row at some time within the last \<open>lat\<close>
  milliseconds. Payloads are what \<open>verifyAdminToken\<close> returns, with a user id that holds no colon
  (ids are UUIDs).
\<close>

definition payload_ok :: "admin_identity \<Rightarrow> bool" where
  "payload_ok p \<longleftrightarrow> identity_ok p \<and> CHR '':'' \<notin> set (userId p)"

inductive sess_run :: "provider \<Rightarrow> (int \<Rightarrow> string \<Rightarrow> session_user option) \<Rightarrow> int \<Rightarrow> int \<Rightarrow> sess_state \<Rightarrow> bool"
  for prov rows lat where
  run_init: "sess_run prov rows lat t sess_init"
| run_call: "sess_run prov rows lat t s \<Longrightarrow> t \<le> t' \<Longrightarrow> payload_ok p \<Longrightarrow>
    sess_run prov rows lat t' (fst (validateAdminSession t' p fresh s))"
| run_answer: "sess_run prov rows lat t s \<Longrightarrow> t \<le> t' \<Longrightarrow> flights s i = Some f \<Longrightarrow>
    t' - lat \<le> ts \<Longrightarrow> ts \<le> t' \<Longrightarrow>
    sess_run prov rows lat t' (fst (finish_flight prov t' i (Inr (rows ts (userId (fl_payload f)))) s))"
| run_fail: "sess_run prov rows lat t s \<Longrightarrow> t \<le> t' \<Longrightarrow>
    sess_run prov rows lat t' (fst (finish_flight prov t' i (Inl ()) s))"
| run_invalidate: "sess_run prov rows lat t s \<Longrightarrow> t \<le> t' \<Longrightarrow>
    sess_run prov rows lat t' (invalidateAdminSessionCache uid s)"

lemmas sess_defs = start_flight_def validateAdminSession_def finish_flight_def invalidateAdminSessionCache_def

text \<open>Every cached entry stems from an accepted row, read at most ten seconds and a read's
  latency ago; flights carry the key of their payload.\<close>

definition entry_ok where
  "entry_ok prov rows lat t k u e \<longleftrightarrow> e \<le> t + ADMIN_SESSION_CACHE_MS \<and>
     (\<exists>p ts. payload_ok p \<and> cacheKey p = k \<and> e - ADMIN_SESSION_CACHE_MS - lat \<le> ts \<and> ts \<le> e - ADMIN_SESSION_CACHE_MS \<and>
       session_of_row prov p (rows ts (userId p)) = Some u)"

definition sess_inv where
  "sess_inv prov rows lat t s \<longleftrightarrow>
     (\<forall>k u e. adminSessionCache s k = Some (u, e) \<longrightarrow> entry_ok prov rows lat t k u e) \<and>
     (\<forall>i f. flights s i = Some f \<longrightarrow> fl_key f = cacheKey (fl_payload f) \<and> payload_ok (fl_payload f))"

lemma sess_inv_mono: "sess_inv prov rows lat t s \<Longrightarrow> t \<le> t' \<Longrightarrow> sess_inv prov rows lat t' s"
  unfolding sess_inv_def entry_ok_def by (blast intro: order_trans add_mono order_refl)

lemma sess_inv_call:
  "sess_inv prov rows lat t s \<Longrightarrow> payload_ok p \<Longrightarrow> sess_inv prov rows lat t (fst (validateAdminSession t p fresh s))"
  by (auto simp: sess_inv_def sess_defs Let_def split: option.splits)

lemma sess_inv_answer:
  assumes "sess_inv prov rows lat t s" "flights s i = Some f" "t - lat \<le> ts" "ts \<le> t"
  shows "sess_inv prov rows lat t (fst (finish_flight prov t i (Inr (rows ts (userId (fl_payload f)))) s))"
proof -
  have "entry_ok prov rows lat t (fl_key f) u (t + ADMIN_SESSION_CACHE_MS)"
    if "session_of_row prov (fl_payload f) (rows ts (userId (fl_payload f))) = Some u" for u
    using that assms unfolding entry_ok_def sess_inv_def
    by (intro conjI exI [of _ "fl_payload f"] exI [of _ ts]) auto
  then show ?thesis using assms
    by (auto simp: sess_inv_def finish_flight_def Let_def split: option.splits)
qed

lemma sess_inv_fail: "sess_inv prov rows lat t s \<Longrightarrow> sess_inv prov rows lat t (fst (finish_flight prov t i (Inl ()) s))"
  by (auto simp: sess_inv_def finish_flight_def Let_def split: option.splits)

lemma sess_inv_invalidate: "sess_inv prov rows lat t s \<Longrightarrow> sess_inv prov rows lat t (invalidateAdminSessionCache uid s)"
  by (auto simp: sess_inv_def invalidateAdminSessionCache_def split: option.splits)

lemma sess_run_inv: "sess_run prov rows lat t s \<Longrightarrow> sess_inv prov rows lat t s"
proof (induction rule: sess_run.induct)
  case (run_init t)
  then show ?case by (simp add: sess_inv_def sess_init_def)
qed (auto intro: sess_inv_mono sess_inv_call sess_inv_answer sess_inv_fail sess_inv_invalidate)

subsection \<open>Keys\<close>

lemma cut_at_first:
  assumes "c \<notin> set a" "c \<notin> set a'" "a @ c # b = a' @ c # b'"
  shows "a = a' \<and> b = b'"
proof -
  have "takeWhile (\<lambda>x. x \<noteq> c) (a @ c # b) = a" "takeWhile (\<lambda>x. x \<noteq> c) (a' @ c # b') = a'"
    using assms(1,2) by (auto simp: takeWhile_append2 takeWhile_tail)
  then show ?thesis using assms(3) by auto
qed

lemma cut_at_last:
  assumes "c \<notin> set b" "c \<notin> set b'" "a @ c # b = a' @ c # b'"
  shows "a = a' \<and> b = b'"
proof -
  have "rev b @ c # rev a = rev b' @ c # rev a'" using arg_cong [OF assms(3), of rev] by simp
  from cut_at_first [OF _ _ this] assms(1,2) show ?thesis by simp
qed

lemma int_to_str_inj: "\<bar>i\<bar> < 2 ^ 970 \<Longrightarrow> \<bar>j\<bar> < 2 ^ 970 \<Longrightarrow> int_to_str i = int_to_str j \<Longrightarrow> i = j"
  by (metis str_to_num_int_to_str jsnum.inject of_int_eq_iff)

lemma version_text:
  assumes "identity_ok p"
  obtains v where "sessionVersion p = FinI v" "num_to_str (sessionVersion p) = int_to_str v" "\<bar>v\<bar> < 2 ^ 970"
    "CHR '':'' \<notin> set (int_to_str v)"
proof -
  obtain v where v: "sessionVersion p = FinI v" "1 \<le> v" "v \<le> MAX_SAFE_INTEGER"
    using assms by (rule identity_ok_version)
  have "\<bar>rat_of_int v\<bar> < 10 ^ 21"
  proof -
    have "rat_of_int \<bar>v\<bar> < rat_of_int (10 ^ 21)" using v by (subst of_int_less_iff) simp
    then show ?thesis by simp
  qed
  moreover have "CHR '':'' \<notin> set (int_to_str v)"
    using nat_to_str_digits [of "nat v"] v(2) by (auto simp: int_to_str_def list_all_iff is_digit_def cc_def)
  moreover have "\<bar>v\<bar> < 2 ^ 970" using v by (intro le_less_trans [of "\<bar>v\<bar>" MAX_SAFE_INTEGER]) simp_all
  ultimately show thesis using that v(1) by simp
qed

lemma cacheKey_inj:
  assumes "identity_ok p" "identity_ok q" "CHR '':'' \<notin> set (userId p)" "CHR '':'' \<notin> set (userId q)"
    "cacheKey p = cacheKey q"
  shows "p = q"
proof -
  obtain v where v: "sessionVersion p = FinI v" "num_to_str (sessionVersion p) = int_to_str v"
    "\<bar>v\<bar> < 2 ^ 970" "CHR '':'' \<notin> set (int_to_str v)" using assms(1) by (rule version_text)
  obtain w where w: "sessionVersion q = FinI w" "num_to_str (sessionVersion q) = int_to_str w"
    "\<bar>w\<bar> < 2 ^ 970" "CHR '':'' \<notin> set (int_to_str w)" using assms(2) by (rule version_text)
  have "userId p @ CHR '':'' # (username p @ CHR '':'' # int_to_str v)
      = userId q @ CHR '':'' # (username q @ CHR '':'' # int_to_str w)"
    using assms(5) v(2) w(2) by (simp add: cacheKey_def)
  from cut_at_first [OF assms(3,4) this] have u: "userId p = userId q"
    and r: "username p @ CHR '':'' # int_to_str v = username q @ CHR '':'' # int_to_str w" by auto
  from cut_at_last [OF v(4) w(4) r] have "username p = username q" "v = w"
    using int_to_str_inj [OF v(3) w(3)] by auto
  then show ?thesis using u v(1) w(1) by (cases p; cases q) simp
qed

subsection \<open>What the cache promises\<close>

lemma validate_cached:
  "snd (validateAdminSession now p fresh s) = Cached u \<Longrightarrow>
   \<not> fresh \<and> (\<exists>e. adminSessionCache s (cacheKey p) = Some (u, e) \<and> now < e)"
  by (auto simp: validateAdminSession_def start_flight_def Let_def split: option.splits if_splits)

text \<open>
  C18. Bounded staleness: in every run of calls, answers, failures and invalidations, a session
  that is answered from the cache was accepted for this very user, name and session version from
  a database row that is at most ten seconds and one read's latency old.
\<close>

theorem session_cache_staleness:
  assumes "sess_run prov rows lat t s" "t \<le> now" "payload_ok p"
    "snd (validateAdminSession now p fresh s) = Cached u"
  shows "\<exists>ts. now - ADMIN_SESSION_CACHE_MS - lat < ts \<and> ts \<le> now \<and>
    session_of_row prov p (rows ts (userId p)) = Some u"
proof -
  obtain e where e: "adminSessionCache s (cacheKey p) = Some (u, e)" "now < e"
    using validate_cached [OF assms(4)] by blast
  then have ok: "entry_ok prov rows lat t (cacheKey p) u e"
    using sess_run_inv [OF assms(1)] unfolding sess_inv_def by blast
  then obtain q ts where q: "payload_ok q" "cacheKey q = cacheKey p"
      "e - ADMIN_SESSION_CACHE_MS - lat \<le> ts" "ts \<le> e - ADMIN_SESSION_CACHE_MS"
      "session_of_row prov q (rows ts (userId q)) = Some u" "e \<le> t + ADMIN_SESSION_CACHE_MS"
    unfolding entry_ok_def by blast
  have "q = p" using cacheKey_inj [of q p] q(1,2) assms(3) by (simp add: payload_ok_def)
  then show ?thesis using q e(2) assms(2) by (intro exI [of _ ts]) auto
qed

lemma js_startsWith_append [simp]: "js_startsWith (a @ b) a"
  by (simp add: js_startsWith_def)

lemma cacheKey_prefix:
  assumes "payload_ok p" "CHR '':'' \<notin> set u"
  shows "js_startsWith (cacheKey p) (u @ '':'') \<longleftrightarrow> userId p = u"
proof
  assume "js_startsWith (cacheKey p) (u @ '':'')"
  then have "cacheKey p = (u @ '':'') @ drop (length (u @ '':'')) (cacheKey p)"
    unfolding js_startsWith_def by (metis append_take_drop_id)
  then have "userId p @ CHR '':'' # (username p @ '':'' @ num_to_str (sessionVersion p))
      = u @ CHR '':'' # drop (length (u @ '':'')) (cacheKey p)" by (simp add: cacheKey_def)
  from cut_at_first [OF _ assms(2) this] assms(1) show "userId p = u" by (simp add: payload_ok_def)
next
  assume "userId p = u"
  then have "cacheKey p = (u @ '':'') @ username p @ '':'' @ num_to_str (sessionVersion p)" by (simp add: cacheKey_def)
  then show "js_startsWith (cacheKey p) (u @ '':'')" by (metis js_startsWith_append)
qed

text \<open>
  Invalidation is exact: after invalidating one user, a call for that user starts a read of
  its own and joins none, and what a call for any other user finds is what it would have found
  before.
\<close>

theorem session_invalidate_exact:
  assumes "payload_ok p" "u \<noteq> []" "CHR '':'' \<notin> set u"
  shows "(userId p = u \<longrightarrow>
      snd (validateAdminSession now p fresh (invalidateAdminSessionCache (Some u) s)) = Started (next_flight s)) \<and>
    (userId p \<noteq> u \<longrightarrow>
      snd (validateAdminSession now p fresh (invalidateAdminSessionCache (Some u) s)) =
      snd (validateAdminSession now p fresh s))"
  using cacheKey_prefix [OF assms(1,3)] assms(2)
  by (auto simp: validateAdminSession_def invalidateAdminSessionCache_def start_flight_def Let_def split: option.splits)

definition sample_admin :: admin_identity where
  "sample_admin = \<lparr>userId = ''u1'', username = ''admin'', sessionVersion = FinI 3\<rparr>"

definition sample_row :: session_user where
  "sample_row = \<lparr>su_uuid = ''u1'', su_username = ''admin'', su_session_version = FinI 3\<rparr>"

lemma sample_ok: "payload_ok sample_admin"
  by (simp add: payload_ok_def sample_admin_def identity_ok_def)

theorem session_invalidate_exact_witness:
  "snd (validateAdminSession 5 sample_admin False (invalidateAdminSessionCache (Some ''u1'') sess_init)) = Started 0"
  using session_invalidate_exact [OF sample_ok, of "''u1''" 5 False sess_init]
  by (simp add: sample_admin_def sess_init_def)

text \<open>Calls with \<open>fresh\<close> go around both maps.\<close>

text \<open>
  A fresh validation neither reads nor writes the cache and shares no other call's read: it
  starts a flight of its own, and its answer leaves both maps as they are.
\<close>

theorem session_fresh_bypass:
  assumes "validateAdminSession now p True s = (s1, r)"
  shows "\<exists>i. r = Started i \<and> flights s1 i = Some \<lparr>fl_payload = p, fl_key = cacheKey p, fl_cacheResult = False\<rparr> \<and>
    adminSessionCache s1 = adminSessionCache s \<and> adminSessionRequests s1 = adminSessionRequests s \<and>
    (\<forall>t row s2 res. finish_flight prov t i row s1 = (s2, res) \<longrightarrow>
       adminSessionCache s2 = adminSessionCache s1 \<and> adminSessionRequests s2 = adminSessionRequests s1 \<and>
       res = (case row of Inl _ \<Rightarrow> None | Inr x \<Rightarrow> session_of_row prov p x))"
  using assms
  by (auto simp: validateAdminSession_def start_flight_def finish_flight_def Let_def split: option.splits sum.splits)

theorem session_fresh_bypass_witness:
  "\<exists>i. Started 0 = Started i \<and> adminSessionCache (fst (validateAdminSession 5 sample_admin True sess_init)) = Map.empty"
proof -
  have "validateAdminSession 5 sample_admin True sess_init =
      (fst (validateAdminSession 5 sample_admin True sess_init), Started 0)"
    by (simp add: validateAdminSession_def start_flight_def sess_init_def)
  from session_fresh_bypass [OF this] show ?thesis by (auto simp: sess_init_def)
qed

subsection \<open>A read in flight survives an invalidation\<close>

text \<open>The database of the example: the session is valid before time 2 and revoked from then on.\<close>

definition revoked_rows :: "int \<Rightarrow> string \<Rightarrow> session_user option" where
  "revoked_rows ts uid = (if ts < 2 \<and> uid = ''u1'' then Some sample_row else None)"

definition race_state :: sess_state where
  "race_state = fst (finish_flight SupabaseApi 3 0 (Inr (Some sample_row))
     (invalidateAdminSessionCache (Some ''u1'') (fst (validateAdminSession 0 sample_admin False sess_init))))"

lemma race_run: "sess_run SupabaseApi revoked_rows 5 3 race_state"
proof -
  let ?s1 = "fst (validateAdminSession 0 sample_admin False sess_init)"
  let ?s2 = "invalidateAdminSessionCache (Some ''u1'') ?s1"
  have "sess_run SupabaseApi revoked_rows 5 2 ?s2"
    by (rule run_invalidate [of _ _ _ 0], rule run_call [of _ _ _ 0], rule run_init) (simp_all add: sample_ok)
  moreover have "flights ?s2 0 = Some \<lparr>fl_payload = sample_admin, fl_key = cacheKey sample_admin, fl_cacheResult = True\<rparr>"
    by (simp add: validateAdminSession_def start_flight_def invalidateAdminSessionCache_def sess_init_def Let_def)
  ultimately have "sess_run SupabaseApi revoked_rows 5 3
      (fst (finish_flight SupabaseApi 3 0 (Inr (revoked_rows 1 (userId sample_admin))) ?s2))"
    using run_answer [of SupabaseApi revoked_rows 5 2 ?s2 3 0 _ 1] by simp
  then show ?thesis by (simp add: race_state_def revoked_rows_def sample_admin_def)
qed

text \<open>
  Invalidation does not stop a read that is already in flight: there is a run in which the
  session is revoked and the cache invalidated at time 2, the read started before answers at
  time 3 with the old row, and the revoked session is answered from the cache afterwards,
  although no row from time 2 on accepts it.
\<close>

theorem session_invalidate_race:
  "sess_run SupabaseApi revoked_rows 5 3 race_state \<and>
   (\<forall>ts \<ge> 2. session_of_row SupabaseApi sample_admin (revoked_rows ts (userId sample_admin)) = None) \<and>
   snd (validateAdminSession 10002 sample_admin False race_state) = Cached sample_row"
  using race_run
  by (simp add: revoked_rows_def session_of_row_def race_state_def validateAdminSession_def start_flight_def
      finish_flight_def invalidateAdminSessionCache_def sess_init_def Let_def sample_admin_def sample_row_def
      cacheKey_def ADMIN_SESSION_CACHE_MS_def)

theorem session_invalidate_race_witness:
  "snd (validateAdminSession 10002 sample_admin False race_state) = Cached sample_row"
  using session_invalidate_race by blast

theorem session_cache_staleness_witness:
  "\<exists>ts. 10002 - ADMIN_SESSION_CACHE_MS - 5 < ts \<and> ts \<le> 10002 \<and>
    session_of_row SupabaseApi sample_admin (revoked_rows ts (userId sample_admin)) = Some sample_row"
proof -
  have "snd (validateAdminSession 10002 sample_admin False race_state) = Cached sample_row"
    by (simp add: session_of_row_def race_state_def validateAdminSession_def start_flight_def
      finish_flight_def invalidateAdminSessionCache_def sess_init_def Let_def sample_admin_def sample_row_def
      cacheKey_def ADMIN_SESSION_CACHE_MS_def)
  then show ?thesis by (intro session_cache_staleness [OF race_run _ sample_ok]) simp_all
qed

end
