(* ===== verification/Mfa.thy ===== *)
theory Mfa
  imports Totp AuthTokens
begin

section \<open>MFA secrets, recovery codes and factor confirmation\<close>

text \<open>
  \<open>auth/mfa.ts\<close>, \<open>auth/mfa-factor.ts\<close> and \<open>db/auth-confirmation.ts\<close>. The platform's primitives
  are the fields of a record: SHA-256, HKDF (secret, salt, info), AES-GCM (key, nonce, additional
  data) and HMAC; decryption gives \<open>None\<close> where it rejects. Random bytes are arguments. A database
  procedure is a function \<open>rpc name arguments\<close>, \<open>Inl ()\<close> where the call fails.
\<close>

record mfa_crypto =
  sha256 :: "bytes \<Rightarrow> bytes"
  hkdf :: "bytes \<Rightarrow> bytes \<Rightarrow> bytes \<Rightarrow> bytes"
  aes_encrypt :: "bytes \<Rightarrow> bytes \<Rightarrow> bytes \<Rightarrow> bytes \<Rightarrow> bytes"
  aes_decrypt :: "bytes \<Rightarrow> bytes \<Rightarrow> bytes \<Rightarrow> bytes \<Rightarrow> bytes option"
  hmac256 :: "bytes \<Rightarrow> bytes \<Rightarrow> bytes"

record mfa_env =
  JWT_SECRET :: "string option"
  MFA_SECRET :: "string option"
  MFA_PREVIOUS_SECRET :: "string option"
  MFA_LEGACY_SECRET :: "string option"

datatype mfa_error = MfaConfigurationError | MfaAuthConfigurationError | RecoveryCodeInvalid
  | TotpSecretInvalid | MfaStateChanged | ConfirmationNotAcknowledged | ConfirmationTimestampInvalid | RpcFailed

definition RECOVERY_CODE_COUNT :: nat where "RECOVERY_CODE_COUNT = 8"
definition RECOVERY_CODE_BYTES :: nat where "RECOVERY_CODE_BYTES = 15"
definition AES_IV_BYTES :: nat where "AES_IV_BYTES = 12"
definition MFA_KDF_SALT :: bytes where "MFA_KDF_SALT = utf8_encode ''cf-vps-monitor/mfa-key/v1''"
definition MFA_V2_KDF_SALT :: bytes where "MFA_V2_KDF_SALT = utf8_encode ''cf-vps-monitor/mfa-key/v2''"

definition bind_err :: "'e + 'a \<Rightarrow> ('a \<Rightarrow> 'e + 'b) \<Rightarrow> 'e + 'b" where
  "bind_err r f = (case r of Inl e \<Rightarrow> Inl e | Inr a \<Rightarrow> f a)"

lemma bind_err_simps [simp]: "bind_err (Inl e) f = Inl e" "bind_err (Inr a) f = f a"
  by (simp_all add: bind_err_def)

lemma bind_err_Inr: "bind_err r f = Inr b \<longleftrightarrow> (\<exists>a. r = Inr a \<and> f a = Inr b)"
  by (cases r) (simp_all add: bind_err_def)

subsection \<open>Keys\<close>

definition configuredKey :: "string option \<Rightarrow> mfa_error + string option" where
  "configuredKey value = (case value of
       None \<Rightarrow> Inr None
     | Some v \<Rightarrow>
         if v = [] then Inr None
         else let key = js_trim v
              in if length (utf8_encode key) < 32 then Inl MfaConfigurationError else Inr (Some key))"

definition legacyKey :: "mfa_env \<Rightarrow> mfa_error + string" where
  "legacyKey env =
     bind_err (configuredKey (MFA_LEGACY_SECRET env)) (\<lambda>k. case k of
         Some key \<Rightarrow> Inr key
       | None \<Rightarrow> (case requireJwtSecret (JWT_SECRET env) of
           Inl _ \<Rightarrow> Inl MfaAuthConfigurationError | Inr key \<Rightarrow> Inr key))"

definition keyId :: "mfa_crypto \<Rightarrow> string \<Rightarrow> string" where
  "keyId cr secret = bytes_to_hex (take 8 (sha256 cr (utf8_encode secret)))"

definition independentKeys :: "mfa_crypto \<Rightarrow> mfa_env \<Rightarrow> mfa_error + (string \<times> string) list" where
  "independentKeys cr env =
     bind_err (configuredKey (MFA_SECRET env)) (\<lambda>current.
     bind_err (configuredKey (MFA_PREVIOUS_SECRET env)) (\<lambda>previous.
       if previous \<noteq> None \<and> current = None then Inl MfaConfigurationError
       else Inr (map (\<lambda>secret. (keyId cr secret, secret))
              (js_uniq (List.map_filter id [current, previous])))))"

datatype key_version = V1 | V2

definition deriveKey :: "mfa_crypto \<Rightarrow> string \<Rightarrow> key_version \<Rightarrow> string \<Rightarrow> bytes" where
  "deriveKey cr secret version info =
     hkdf cr (utf8_encode secret) (if version = V2 then MFA_V2_KDF_SALT else MFA_KDF_SALT) (utf8_encode info)"

subsection \<open>The encrypted TOTP secret\<close>

definition first_key :: "(string \<times> string) list \<Rightarrow> (string \<times> string) option" where
  "first_key ks = (case ks of [] \<Rightarrow> None | k # _ \<Rightarrow> Some k)"

definition encryptTotpSecret ::
  "mfa_crypto \<Rightarrow> bytes \<Rightarrow> string \<Rightarrow> string \<Rightarrow> mfa_env \<Rightarrow> mfa_error + string" where
  "encryptTotpSecret cr iv secret uid env =
     bind_err (independentKeys cr env) (\<lambda>ks. case first_key ks of
         Some (kid, ksecret) \<Rightarrow>
           (let prefix = ''v2.'' @ kid; key = deriveKey cr ksecret V2 ''totp-secret-encryption'';
                ct = aes_encrypt cr key iv (utf8_encode (prefix @ '':'' @ uid)) (utf8_encode secret)
            in Inr (prefix @ ''.'' @ bytesToBase64Url iv @ ''.'' @ bytesToBase64Url ct))
       | None \<Rightarrow>
           bind_err (legacyKey env) (\<lambda>ksecret.
             let key = deriveKey cr ksecret V1 ''totp-secret-encryption'';
                 ct = aes_encrypt cr key iv (utf8_encode uid) (utf8_encode secret)
             in Inr (''v1'' @ ''.'' @ bytesToBase64Url iv @ ''.'' @ bytesToBase64Url ct)))"

definition is_key_id :: "string \<Rightarrow> bool" where
  "is_key_id s \<longleftrightarrow> length s = 16 \<and> list_all is_hex_lower s"

text \<open>The \<open>try\<close> block: every failure in it is a configuration error.\<close>

definition open_secret ::
  "mfa_crypto \<Rightarrow> string \<Rightarrow> key_version \<Rightarrow> string \<Rightarrow> string \<Rightarrow> string \<Rightarrow> mfa_error + string" where
  "open_secret cr secret version aad ivText dataText =
     (if ivText = [] \<or> dataText = [] then Inl MfaConfigurationError
      else case base64UrlToBytes ivText of
          None \<Rightarrow> Inl MfaConfigurationError
        | Some iv \<Rightarrow>
            if length iv \<noteq> AES_IV_BYTES then Inl MfaConfigurationError
            else (case base64UrlToBytes dataText of
                None \<Rightarrow> Inl MfaConfigurationError
              | Some dat \<Rightarrow>
                  (case aes_decrypt cr (deriveKey cr secret version ''totp-secret-encryption'') iv
                          (utf8_encode aad) dat of
                     None \<Rightarrow> Inl MfaConfigurationError
                   | Some plain \<Rightarrow> Inr (utf8_decode plain))))"

definition decryptTotpSecret ::
  "mfa_crypto \<Rightarrow> string \<Rightarrow> string \<Rightarrow> mfa_env \<Rightarrow> mfa_error + string" where
  "decryptTotpSecret cr ciphertext uid env =
     (case js_split CHR ''.'' ciphertext of
        [v, ivText, dataText] \<Rightarrow>
          if v = ''v1'' then bind_err (legacyKey env) (\<lambda>secret. open_secret cr secret V1 uid ivText dataText)
          else Inl MfaConfigurationError
      | [v, kid, ivText, dataText] \<Rightarrow>
          if v = ''v2'' \<and> is_key_id kid then
            bind_err (independentKeys cr env) (\<lambda>ks. case find (\<lambda>k. fst k = kid) ks of
                None \<Rightarrow> Inl MfaConfigurationError
              | Some (i, secret) \<Rightarrow> open_secret cr secret V2 (''v2.'' @ i @ '':'' @ uid) ivText dataText)
          else Inl MfaConfigurationError
      | _ \<Rightarrow> Inl MfaConfigurationError)"

definition needsTotpReencryption :: "mfa_crypto \<Rightarrow> string \<Rightarrow> mfa_env \<Rightarrow> mfa_error + bool" where
  "needsTotpReencryption cr ciphertext env =
     bind_err (independentKeys cr env) (\<lambda>ks. Inr (case first_key ks of
         None \<Rightarrow> False
       | Some (kid, _) \<Rightarrow> \<not> js_startsWith ciphertext (''v2.'' @ kid @ ''.'')))"

subsection \<open>Recovery codes\<close>

definition normalizeRecoveryCode :: "string \<Rightarrow> mfa_error + string" where
  "normalizeRecoveryCode value =
     (let normalized = filter (\<lambda>c. \<not> is_ws c \<and> c \<noteq> CHR ''-'') (js_toUpperCase (js_trim value))
      in if length normalized = 24 \<and> list_all is_b32 normalized then Inr normalized
         else Inl RecoveryCodeInvalid)"

definition recoveryHash :: "mfa_crypto \<Rightarrow> string \<Rightarrow> string \<Rightarrow> string option \<Rightarrow> string" where
  "recoveryHash cr normalized secret kid =
     (let key = deriveKey cr secret (case kid of None \<Rightarrow> V1 | Some i \<Rightarrow> if i = [] then V1 else V2)
                  ''totp-recovery-code-hmac'';
          digest = bytesToBase64Url (hmac256 cr key (utf8_encode normalized))
      in case kid of None \<Rightarrow> digest | Some i \<Rightarrow> if i = [] then digest else ''v2.'' @ i @ ''.'' @ digest)"

definition hashRecoveryCode :: "mfa_crypto \<Rightarrow> string \<Rightarrow> mfa_env \<Rightarrow> mfa_error + string" where
  "hashRecoveryCode cr code env =
     bind_err (normalizeRecoveryCode code) (\<lambda>normalized.
     bind_err (independentKeys cr env) (\<lambda>ks. case first_key ks of
         Some (kid, secret) \<Rightarrow> Inr (recoveryHash cr normalized secret (Some kid))
       | None \<Rightarrow> bind_err (legacyKey env) (\<lambda>secret. Inr (recoveryHash cr normalized secret None))))"

definition hashRecoveryCodeCandidates :: "mfa_crypto \<Rightarrow> string \<Rightarrow> mfa_env \<Rightarrow> mfa_error + string list" where
  "hashRecoveryCodeCandidates cr code env =
     bind_err (normalizeRecoveryCode code) (\<lambda>normalized.
     bind_err (independentKeys cr env) (\<lambda>ks.
     bind_err (legacyKey env) (\<lambda>legacy.
       Inr (js_uniq (map (\<lambda>(kid, secret). recoveryHash cr normalized secret (Some kid)) ks
                     @ [recoveryHash cr normalized legacy None])))))"

text \<open>\<open>match(/.{1,4}/g)\<close>: runs of at most four characters that are no line terminator.\<close>

fun chunks4 :: "string \<Rightarrow> string list" where
  "chunks4 [] = []"
| "chunks4 (c # s) = take 4 (c # s) # chunks4 (drop 3 s)"

definition formatRecoveryCode :: "string \<Rightarrow> string" where
  "formatRecoveryCode raw =
     (let m = concat (map chunks4 (split_on (\<lambda>c. cc c = 10 \<or> cc c = 13) raw))
      in if m = [] then raw else js_join ''-'' m)"

text \<open>\<open>generateRecoveryCodes\<close>, with the random bytes of each code; the hashes are computed in order.\<close>

fun hash_all :: "mfa_crypto \<Rightarrow> mfa_env \<Rightarrow> string list \<Rightarrow> mfa_error + string list" where
  "hash_all cr env [] = Inr []"
| "hash_all cr env (c # cs) =
     bind_err (hashRecoveryCode cr c env) (\<lambda>h. bind_err (hash_all cr env cs) (\<lambda>hs. Inr (h # hs)))"

definition generateRecoveryCodes ::
  "mfa_crypto \<Rightarrow> bytes list \<Rightarrow> mfa_env \<Rightarrow> mfa_error + string list \<times> string list" where
  "generateRecoveryCodes cr rnds env =
     (let codes = map (\<lambda>rnd. formatRecoveryCode (base32Encode rnd)) rnds
      in bind_err (hash_all cr env codes) (\<lambda>hashes. Inr (codes, hashes)))"

subsection \<open>Confirming a factor\<close>

type_synonym rpc = "string \<Rightarrow> jsobj \<Rightarrow> unit + jsval"

record confirmation =
  verified :: bool
  verified_at :: "string option"

datatype factor_method = TotpFactor | RecoveryFactor

fun method_text :: "factor_method \<Rightarrow> string" where
  "method_text TotpFactor = ''totp''"
| "method_text RecoveryFactor = ''recovery_code''"

record mfa_user =
  user_uuid :: string
  user_session_version :: jsnum
  totp_enabled_at :: string
  totp_secret_enc :: string

record factor_input =
  fi_method :: factor_method
  fi_code :: string
  fi_purpose :: mfa_purpose
  fi_operationToken :: string

definition optval :: "('a \<Rightarrow> jsval) \<Rightarrow> 'a option \<Rightarrow> jsval" where
  "optval f x = (case x of None \<Rightarrow> Undef | Some a \<Rightarrow> f a)"

definition consume_args ::
  "string \<Rightarrow> jsnum \<Rightarrow> string \<Rightarrow> string \<Rightarrow> factor_method \<Rightarrow> int option \<Rightarrow> string list option \<Rightarrow> jsobj" where
  "consume_args uid version operationId factorKey m step codeHashes =
     [(''input_uuid'', Str uid), (''input_session_version'', Num version),
      (''input_operation_id'', Str operationId), (''input_factor_key'', Str factorKey),
      (''input_method'', Str (method_text m)),
      (''input_step'', optval (\<lambda>n. Num (FinI n)) step),
      (''input_code_hashes'', optval (\<lambda>hs. Arr (map Str hs)) codeHashes)]"

text \<open>\<open>Date.parse\<close> is the parameter \<open>date_parse\<close>.\<close>

definition consumeMfaFactor :: "rpc \<Rightarrow> (string \<Rightarrow> jsnum) \<Rightarrow> jsobj \<Rightarrow> mfa_error + confirmation" where
  "consumeMfaFactor rpc date_parse args = (case rpc ''cfm_consume_mfa_factor'' args of
       Inl _ \<Rightarrow> Inl RpcFailed
     | Inr result \<Rightarrow>
         (case result of
            Obj r \<Rightarrow>
              (case js_get r ''verified'' of
                 Bool v \<Rightarrow>
                   if \<not> v then Inr \<lparr>verified = False, verified_at = None\<rparr>
                   else (case js_get r ''verified_at'' of
                       Str stamp \<Rightarrow>
                         if js_isFinite (date_parse stamp)
                         then Inr \<lparr>verified = True, verified_at = Some stamp\<rparr>
                         else Inl ConfirmationTimestampInvalid
                     | _ \<Rightarrow> Inl ConfirmationTimestampInvalid)
               | _ \<Rightarrow> Inl ConfirmationNotAcknowledged)
          | _ \<Rightarrow> Inl ConfirmationNotAcknowledged))"

definition rehashUserPassword :: "rpc \<Rightarrow> string \<Rightarrow> string \<Rightarrow> string \<Rightarrow> mfa_error + bool" where
  "rehashUserPassword rpc uuid expectedHash nextHash =
     (case rpc ''cfm_rehash_user_password''
         [(''input_uuid'', Str uuid), (''input_expected_passwd'', Str expectedHash), (''input_passwd'', Str nextHash)] of
        Inl _ \<Rightarrow> Inl RpcFailed
      | Inr r \<Rightarrow> Inr (r = Bool True))"

definition reencryptTotpSecret :: "rpc \<Rightarrow> string \<Rightarrow> string \<Rightarrow> string \<Rightarrow> mfa_error + bool" where
  "reencryptTotpSecret rpc uuid expectedSecret nextSecret =
     (case rpc ''cfm_reencrypt_totp_secret''
         [(''input_uuid'', Str uuid), (''input_expected_secret'', Str expectedSecret), (''input_secret_enc'', Str nextSecret)] of
        Inl _ \<Rightarrow> Inl RpcFailed
      | Inr r \<Rightarrow> Inr (r = Bool True))"

definition mfa_digest :: "mfa_crypto \<Rightarrow> jsval list \<Rightarrow> string" where
  "mfa_digest cr vals =
     bytes_to_hex (sha256 cr (utf8_encode (case JSON_stringify (Arr vals) of Some t \<Rightarrow> t | None \<Rightarrow> ''undefined'')))"

definition factor_code :: "factor_input \<Rightarrow> string option" where
  "factor_code input = (case fi_method input of
       TotpFactor \<Rightarrow> (let code = js_trim (fi_code input) in if is_totp_code code then Some code else None)
     | RecoveryFactor \<Rightarrow> (case normalizeRecoveryCode (fi_code input) of Inl _ \<Rightarrow> None | Inr c \<Rightarrow> Some c))"

text \<open>The TOTP branch: the step of a valid code, after the secret was re-encrypted if it has to be.\<close>

definition totp_branch ::
  "mfa_crypto \<Rightarrow> (bytes \<Rightarrow> bytes \<Rightarrow> bytes) \<Rightarrow> rpc \<Rightarrow> bytes \<Rightarrow> mfa_user \<Rightarrow> string \<Rightarrow> mfa_env \<Rightarrow> int
   \<Rightarrow> mfa_error + int option" where
  "totp_branch cr hmac rpc iv user code env nowMs =
     bind_err (decryptTotpSecret cr (totp_secret_enc user) (user_uuid user) env) (\<lambda>secret.
       case verifyTotpCode hmac secret code nowMs of
         None \<Rightarrow> Inl TotpSecretInvalid
       | Some result \<Rightarrow>
           if \<not> totp_valid result then Inr None
           else bind_err (needsTotpReencryption cr (totp_secret_enc user) env) (\<lambda>needs.
             if \<not> needs then Inr (totp_step_of result)
             else bind_err (encryptTotpSecret cr iv secret (user_uuid user) env) (\<lambda>encrypted.
               bind_err (reencryptTotpSecret rpc (user_uuid user) (totp_secret_enc user) encrypted) (\<lambda>done.
                 if done then Inr (totp_step_of result) else Inl MfaStateChanged))))"

definition confirmUserMfaFactor ::
  "mfa_crypto \<Rightarrow> (bytes \<Rightarrow> bytes \<Rightarrow> bytes) \<Rightarrow> rpc \<Rightarrow> (string \<Rightarrow> jsnum) \<Rightarrow> bytes \<Rightarrow> mfa_user \<Rightarrow> factor_input
   \<Rightarrow> mfa_env \<Rightarrow> int \<Rightarrow> mfa_error + confirmation" where
  "confirmUserMfaFactor cr hmac rpc date_parse iv user input env nowMs =
     (if totp_enabled_at user = [] \<or> totp_secret_enc user = [] \<or> fi_operationToken input = []
      then Inr \<lparr>verified = False, verified_at = None\<rparr>
      else case factor_code input of
          None \<Rightarrow> Inr \<lparr>verified = False, verified_at = None\<rparr>
        | Some code \<Rightarrow>
            (let scope = [Str (user_uuid user), Num (user_session_version user),
                          Str (purpose_text (fi_purpose input)), Str (fi_operationToken input),
                          Str (method_text (fi_method input))];
                 factorKey = mfa_digest cr (Str ''mfa-factor/v1'' # scope @ [Str code]);
                 operationId = mfa_digest cr (Str ''mfa-confirmation/v1'' # scope @ [Str factorKey]);
                 consume = (\<lambda>step hashes. consumeMfaFactor rpc date_parse
                    (consume_args (user_uuid user) (user_session_version user) operationId factorKey
                       (fi_method input) step hashes))
             in case fi_method input of
                 TotpFactor \<Rightarrow>
                   bind_err (totp_branch cr hmac rpc iv user code env nowMs) (\<lambda>step. consume step None)
               | RecoveryFactor \<Rightarrow>
                   bind_err (hashRecoveryCodeCandidates cr code env) (\<lambda>hashes. consume None (Some hashes))))"

subsection \<open>Key rotation\<close>

text \<open>The contract of the primitives: decryption undoes encryption under the same key, nonce and
  additional data, a ciphertext carries at least its tag, a digest has 32 bytes.\<close>

definition crypto_ok :: "mfa_crypto \<Rightarrow> bool" where
  "crypto_ok cr \<longleftrightarrow>
     (\<forall>k iv aad m. aes_decrypt cr k iv aad (aes_encrypt cr k iv aad m) = Some m \<and>
        aes_encrypt cr k iv aad m \<noteq> []) \<and>
     (\<forall>m. length (sha256 cr m) = 32)"

lemma keyId_shape: "crypto_ok cr \<Longrightarrow> is_key_id (keyId cr s)"
  using bytes_to_hex_shape [of "take 8 (sha256 cr (utf8_encode s))"]
  by (simp add: is_key_id_def keyId_def crypto_ok_def)

lemma key_id_no_dot: "is_key_id s \<Longrightarrow> list_all (\<lambda>c. \<not> c = CHR ''.'') s"
  by (auto simp: list_all_iff is_key_id_def is_hex_lower_def is_digit_def cc_def)

lemma split_v1:
  "list_all (\<lambda>c. \<not> c = CHR ''.'') a \<Longrightarrow> list_all (\<lambda>c. \<not> c = CHR ''.'') b \<Longrightarrow>
   js_split CHR ''.'' (''v1'' @ ''.'' @ a @ ''.'' @ b) = [''v1'', a, b]"
  by (simp add: split_on_append split_on_none)

lemma split_v2:
  "list_all (\<lambda>c. \<not> c = CHR ''.'') k \<Longrightarrow> list_all (\<lambda>c. \<not> c = CHR ''.'') a \<Longrightarrow> list_all (\<lambda>c. \<not> c = CHR ''.'') b \<Longrightarrow>
   js_split CHR ''.'' ((''v2.'' @ k) @ ''.'' @ a @ ''.'' @ b) = [''v2'', k, a, b]"
  by (simp add: split_on_append split_on_none)

lemma open_secret_sealed:
  assumes "crypto_ok cr" "length iv = AES_IV_BYTES"
  shows "open_secret cr key v aad (bytesToBase64Url iv)
      (bytesToBase64Url (aes_encrypt cr (deriveKey cr key v ''totp-secret-encryption'') iv (utf8_encode aad) (utf8_encode m)))
    = Inr m"
proof -
  have "bytesToBase64Url iv \<noteq> []" using assms(2) by (intro bytesToBase64Url_ne) (auto simp: AES_IV_BYTES_def)
  then show ?thesis using assms
    by (simp add: open_secret_def base64Url_roundtrip bytesToBase64Url_ne crypto_ok_def)
qed

text \<open>The independent keys of an environment, when both settings are well formed.\<close>

definition mfa_keys :: "mfa_env \<Rightarrow> string list" where
  "mfa_keys env = (case (configuredKey (MFA_SECRET env), configuredKey (MFA_PREVIOUS_SECRET env)) of
       (Inr current, Inr previous) \<Rightarrow> js_uniq (List.map_filter id [current, previous])
     | _ \<Rightarrow> [])"

definition env_ok :: "mfa_env \<Rightarrow> bool" where
  "env_ok env \<longleftrightarrow> (\<exists>cur prev. configuredKey (MFA_SECRET env) = Inr cur \<and>
     configuredKey (MFA_PREVIOUS_SECRET env) = Inr prev \<and> (prev \<noteq> None \<longrightarrow> cur \<noteq> None))"

lemma independentKeys_ok:
  "env_ok env \<Longrightarrow> independentKeys cr env = Inr (map (\<lambda>s. (keyId cr s, s)) (mfa_keys env))"
  by (auto simp: env_ok_def independentKeys_def mfa_keys_def)

text \<open>What a ciphertext was sealed with: the first independent key, or the legacy key.\<close>

definition sealing_key :: "mfa_env \<Rightarrow> string option" where
  "sealing_key env = (case mfa_keys env of [] \<Rightarrow> None | k # _ \<Rightarrow> Some k)"

lemma encrypt_v2:
  assumes "env_ok env" "sealing_key env = Some k"
  shows "encryptTotpSecret cr iv secret uid env = Inr ((''v2.'' @ keyId cr k) @ ''.'' @ bytesToBase64Url iv @ ''.'' @
     bytesToBase64Url (aes_encrypt cr (deriveKey cr k V2 ''totp-secret-encryption'') iv
       (utf8_encode ((''v2.'' @ keyId cr k) @ '':'' @ uid)) (utf8_encode secret)))"
  using assms independentKeys_ok [OF assms(1), of cr]
  by (auto simp: encryptTotpSecret_def first_key_def sealing_key_def Let_def split: list.splits)

lemma encrypt_v1:
  assumes "env_ok env" "sealing_key env = None" "legacyKey env = Inr k"
  shows "encryptTotpSecret cr iv secret uid env = Inr (''v1'' @ ''.'' @ bytesToBase64Url iv @ ''.'' @
     bytesToBase64Url (aes_encrypt cr (deriveKey cr k V1 ''totp-secret-encryption'') iv
       (utf8_encode uid) (utf8_encode secret)))"
  using assms independentKeys_ok [OF assms(1), of cr]
  by (auto simp: encryptTotpSecret_def first_key_def sealing_key_def Let_def split: list.splits)

lemma find_key_id:
  "k \<in> set ks \<Longrightarrow> inj_on f (set ks) \<Longrightarrow> find (\<lambda>x. fst x = f k) (map (\<lambda>s. (f s, s)) ks) = Some (f k, k)"
proof (induction ks)
  case (Cons x xs)
  then show ?case by (cases "f x = f k") (auto dest: inj_onD)
qed simp

text \<open>
  Key rotation keeps the stored TOTP secret readable: what was sealed under one environment
  opens under any later one in which the sealing key is still the current or the previous key
  (or, if no independent key was configured, the legacy key is the same), for the same user; once
  re-encrypted under the later environment it needs no further re-encryption there.
\<close>

theorem totp_secret_rotation:
  assumes cr: "crypto_ok cr" and iv: "length iv = AES_IV_BYTES" and env: "env_ok env" "env_ok env'"
    and ids: "inj_on (keyId cr) (set (mfa_keys env'))"
    and keep: "case sealing_key env of Some k \<Rightarrow> k \<in> set (mfa_keys env')
               | None \<Rightarrow> legacyKey env = Inr lk \<and> legacyKey env' = Inr lk"
  shows "\<exists>c. encryptTotpSecret cr iv secret uid env = Inr c \<and> decryptTotpSecret cr c uid env' = Inr secret \<and>
    needsTotpReencryption cr c env = Inr False"
proof (cases "sealing_key env")
  case None
  note e = encrypt_v1 [OF env(1) None, of lk cr iv secret uid]
  have n: "needsTotpReencryption cr c env = Inr False" for c
    using None independentKeys_ok [OF env(1), of cr]
    by (auto simp: needsTotpReencryption_def first_key_def sealing_key_def split: list.splits)
  have "decryptTotpSecret cr (''v1'' @ ''.'' @ bytesToBase64Url iv @ ''.'' @
     bytesToBase64Url (aes_encrypt cr (deriveKey cr lk V1 ''totp-secret-encryption'') iv
       (utf8_encode uid) (utf8_encode secret))) uid env' = Inr secret"
    unfolding decryptTotpSecret_def
    using keep None by (subst split_v1) (simp_all add: open_secret_sealed [OF cr iv])
  then show ?thesis using e keep None n by auto
next
  case (Some k)
  note e = encrypt_v2 [OF env(1) Some, of cr iv secret uid]
  have kid: "list_all (\<lambda>c. \<not> c = CHR ''.'') (keyId cr k)" "is_key_id (keyId cr k)"
    using keyId_shape [OF cr] key_id_no_dot by blast+
  have k: "k \<in> set (mfa_keys env')" using keep Some by simp
  have "decryptTotpSecret cr ((''v2.'' @ keyId cr k) @ ''.'' @ bytesToBase64Url iv @ ''.'' @
     bytesToBase64Url (aes_encrypt cr (deriveKey cr k V2 ''totp-secret-encryption'') iv
       (utf8_encode ((''v2.'' @ keyId cr k) @ '':'' @ uid)) (utf8_encode secret))) uid env' = Inr secret"
    unfolding decryptTotpSecret_def
    using kid independentKeys_ok [OF env(2), of cr] find_key_id [OF k ids] open_secret_sealed [OF cr iv, of k V2]
    by (subst split_v2) simp_all
  moreover have "js_startsWith ((''v2.'' @ keyId cr k) @ ''.'' @ x) (''v2.'' @ keyId cr k @ ''.'')" for x
    by (simp add: js_startsWith_def)
  then have "needsTotpReencryption cr ((''v2.'' @ keyId cr k) @ ''.'' @ x) env = Inr False" for x
    using Some independentKeys_ok [OF env(1), of cr]
    by (auto simp: needsTotpReencryption_def first_key_def sealing_key_def split: list.splits)
  ultimately show ?thesis unfolding e by blast
qed

definition sample_crypto :: mfa_crypto where
  "sample_crypto = \<lparr>sha256 = \<lambda>m. take 32 (m @ replicate 32 0), hkdf = \<lambda>k s i. k, aes_encrypt = \<lambda>k iv a m. 0 # m,
     aes_decrypt = \<lambda>k iv a c. Some (tl c), hmac256 = \<lambda>k m. m\<rparr>"

definition sample_env :: "char \<Rightarrow> char option \<Rightarrow> mfa_env" where
  "sample_env c p = \<lparr>JWT_SECRET = Some (replicate 32 CHR ''j''), MFA_SECRET = Some (replicate 32 c),
     MFA_PREVIOUS_SECRET = map_option (replicate 32) p, MFA_LEGACY_SECRET = None\<rparr>"

lemma sample_crypto_ok: "crypto_ok sample_crypto"
  by (simp add: crypto_ok_def sample_crypto_def min_def)

lemma configuredKey_replicate:
  assumes "\<not> is_ws c"
  shows "configuredKey (Some (replicate 32 c)) = Inr (Some (replicate 32 c))"
proof -
  have "js_trim (replicate 32 c) = replicate 32 c" using assms by (intro js_trim_id) (simp add: list_all_iff)
  then show ?thesis using length_utf8_encode(1) [of "replicate 32 c"] by (simp add: configuredKey_def Let_def)
qed

lemma letters_not_ws: "\<not> is_ws CHR ''a''" "\<not> is_ws CHR ''b''" "\<not> is_ws CHR ''j''"
  by (simp_all add: is_ws_def cc_def)

lemma sample_keys:
  "mfa_keys (sample_env CHR ''a'' None) = [replicate 32 CHR ''a'']" "env_ok (sample_env CHR ''a'' None)"
  "mfa_keys (sample_env CHR ''b'' (Some CHR ''a'')) = [replicate 32 CHR ''b'', replicate 32 CHR ''a'']"
  "env_ok (sample_env CHR ''b'' (Some CHR ''a''))"
proof -
  note k = configuredKey_replicate [OF letters_not_ws(1)] configuredKey_replicate [OF letters_not_ws(2)]
  have n: "configuredKey None = Inr None" by (simp add: configuredKey_def)
  show "mfa_keys (sample_env CHR ''a'' None) = [replicate 32 CHR ''a'']" "env_ok (sample_env CHR ''a'' None)"
    by (simp_all only: mfa_keys_def env_ok_def sample_env_def mfa_env.select_convs k n option.map) (simp_all add: map_filter_def)
  show "mfa_keys (sample_env CHR ''b'' (Some CHR ''a'')) = [replicate 32 CHR ''b'', replicate 32 CHR ''a'']"
    "env_ok (sample_env CHR ''b'' (Some CHR ''a''))"
    by (simp_all only: mfa_keys_def env_ok_def sample_env_def mfa_env.select_convs k n option.map)
      (simp_all add: map_filter_def)
qed

lemma sample_keyIds: "keyId sample_crypto (replicate 32 CHR ''a'') \<noteq> keyId sample_crypto (replicate 32 CHR ''b'')"
proof -
  have u: "utf8_encode (replicate n c) = replicate n (word_of_nat (cc c))" if "cc c < 128" for c n
    using that by (induction n) (simp_all add: utf8_encode_def utf8_char_def)
  have k: "keyId sample_crypto (replicate 32 c) = bytes_to_hex (word_of_nat (cc c) # replicate 7 (word_of_nat (cc c)))"
    if "cc c < 128" for c
  proof -
    have "(8 :: nat) = Suc 7" by simp
    then have "replicate 8 x = x # replicate 7 x" for x :: byte by (simp only: replicate_Suc)
    then show ?thesis using u [OF that, of 32] by (simp add: keyId_def sample_crypto_def)
  qed
  have "keyId sample_crypto (replicate 32 CHR ''a'') ! 1 = hex_char 1" "keyId sample_crypto (replicate 32 CHR ''b'') ! 1 = hex_char 2"
    using k [of "CHR ''a''"] k [of "CHR ''b''"] by (simp_all add: bytes_to_hex_def cc_def)
  then show ?thesis by (auto simp: hex_char_def)
qed

theorem totp_secret_rotation_witness:
  "\<exists>c. encryptTotpSecret sample_crypto (replicate 12 1) ''ABCD'' ''u1'' (sample_env CHR ''a'' None) = Inr c \<and>
    decryptTotpSecret sample_crypto c ''u1'' (sample_env CHR ''b'' (Some CHR ''a'')) = Inr ''ABCD'' \<and>
    needsTotpReencryption sample_crypto c (sample_env CHR ''a'' None) = Inr False"
  by (rule totp_secret_rotation [OF sample_crypto_ok])
    (use sample_keyIds in \<open>auto simp: sample_keys sealing_key_def AES_IV_BYTES_def\<close>)

subsection \<open>Recovery codes\<close>

lemma concat_chunks4: "concat (chunks4 s) = s"
proof (induction s rule: chunks4.induct)
  case (2 c s)
  then show ?case by (simp add: numeral_eq_Suc)
qed simp

lemma filter_join: "filter P sep = [] \<Longrightarrow> filter P (js_join sep ts) = concat (map (filter P) ts)"
  by (induction sep ts rule: js_join.induct) auto

lemma set_join: "set (js_join sep ts) \<subseteq> set sep \<union> \<Union> (set ` set ts)"
  by (induction sep ts rule: js_join.induct) auto

lemma normalize_format:
  assumes "list_all is_b32 raw" "length raw = 24"
  shows "normalizeRecoveryCode (formatRecoveryCode raw) = Inr raw"
proof -
  have "list_all (\<lambda>c. \<not> (cc c = 10 \<or> cc c = 13)) raw"
    using assms(1) by (auto simp: list_all_iff is_b32_def is_AZ_def)
  then have f: "formatRecoveryCode raw = js_join ''-'' (chunks4 raw)"
    using assms(2) concat_chunks4 [of raw] by (auto simp: formatRecoveryCode_def split_on_none Let_def)
  have "set (js_join ''-'' (chunks4 raw)) \<subseteq> {CHR ''-''} \<union> set (concat (chunks4 raw))"
    using set_join [of "''-''" "chunks4 raw"] by auto
  then have chars: "c = CHR ''-'' \<or> is_b32 c" if "c \<in> set (js_join ''-'' (chunks4 raw))" for c
    using that assms(1) by (auto simp: concat_chunks4 list_all_iff)
  have "js_trim (js_join ''-'' (chunks4 raw)) = js_join ''-'' (chunks4 raw)"
  proof (rule js_trim_id, unfold list_all_iff, rule ballI)
    fix c assume "c \<in> set (js_join ''-'' (chunks4 raw))"
    then have "c = CHR ''-'' \<or> is_b32 c" by (rule chars)
    then show "\<not> is_ws c" using is_b32_facts(1) [of c] by (elim disjE) (simp_all add: is_ws_def cc_def)
  qed
  moreover have "upper_char c = [c]" if "c = CHR ''-'' \<or> is_b32 c" for c
    using that is_b32_facts(2) [of c] by (elim disjE) (simp_all add: upper_char_def is_az_def cc_def)
  then have "js_toUpperCase s = s" if "\<forall>c \<in> set s. c = CHR ''-'' \<or> is_b32 c" for s
    using that by (induction s) (simp_all add: js_toUpperCase_def)
  then have "js_toUpperCase (js_join ''-'' (chunks4 raw)) = js_join ''-'' (chunks4 raw)" using chars by blast
  moreover have "filter (\<lambda>c. \<not> is_ws c \<and> c \<noteq> CHR ''-'') (js_join ''-'' (chunks4 raw)) = raw"
  proof -
    have "filter (\<lambda>c. \<not> is_ws c \<and> c \<noteq> CHR ''-'') (js_join ''-'' (chunks4 raw))
        = filter (\<lambda>c. \<not> is_ws c \<and> c \<noteq> CHR ''-'') (concat (chunks4 raw))"
      by (subst filter_join) (simp_all add: filter_concat)
    then show ?thesis using assms(1) is_b32_facts by (simp add: concat_chunks4 list_all_iff)
  qed
  ultimately show ?thesis using assms by (simp add: normalizeRecoveryCode_def f)
qed

lemma recovery_code_normal:
  "length rnd = RECOVERY_CODE_BYTES \<Longrightarrow>
   normalizeRecoveryCode (formatRecoveryCode (base32Encode rnd)) = Inr (base32Encode rnd)"
  using base32_dec_enc [of rnd] base32Encode_length [of rnd 3]
  by (intro normalize_format) (auto simp: RECOVERY_CODE_BYTES_def)

text \<open>The hash of a normalised code under the sealing key.\<close>

definition stored_hash :: "mfa_crypto \<Rightarrow> mfa_env \<Rightarrow> string \<Rightarrow> string \<Rightarrow> string" where
  "stored_hash cr env lk code = (case sealing_key env of
       Some k \<Rightarrow> recoveryHash cr code k (Some (keyId cr k))
     | None \<Rightarrow> recoveryHash cr code lk None)"

lemma hashRecoveryCode_stored:
  assumes "env_ok env" "sealing_key env = None \<longrightarrow> legacyKey env = Inr lk" "normalizeRecoveryCode code = Inr n"
  shows "hashRecoveryCode cr code env = Inr (stored_hash cr env lk n)"
  using assms independentKeys_ok [OF assms(1), of cr]
  by (auto simp: hashRecoveryCode_def stored_hash_def first_key_def sealing_key_def split: list.splits)

lemma hash_all_stored:
  assumes "env_ok env" "sealing_key env = None \<longrightarrow> legacyKey env = Inr lk"
    "\<forall>r \<in> set rnds. length r = RECOVERY_CODE_BYTES"
  shows "hash_all cr env (map (\<lambda>r. formatRecoveryCode (base32Encode r)) rnds)
    = Inr (map (\<lambda>r. stored_hash cr env lk (base32Encode r)) rnds)"
  using assms(3)
  by (induction rnds) (auto simp: hashRecoveryCode_stored [OF assms(1,2)] recovery_code_normal)

lemma candidates_contain_stored:
  assumes "env_ok env'" "legacyKey env' = Inr lk'" "normalizeRecoveryCode code = Inr n"
    "case sealing_key env of Some k \<Rightarrow> k \<in> set (mfa_keys env') | None \<Rightarrow> lk' = lk"
  shows "\<exists>cs. hashRecoveryCodeCandidates cr code env' = Inr cs \<and> stored_hash cr env lk n \<in> set cs"
  using assms independentKeys_ok [OF assms(1), of cr]
  by (auto simp: hashRecoveryCodeCandidates_def stored_hash_def split: option.splits)

text \<open>
  Every generated recovery code can be redeemed: its hash is stored, the formatted code
  normalises back to the raw one, and after a key rotation that keeps the sealing key (or the
  legacy key) the candidates computed from the code still contain the stored hash.
\<close>

theorem recovery_codes_redeemable:
  assumes env: "env_ok env" "env_ok env'" and legacy: "legacyKey env = Inr lk" "legacyKey env' = Inr lk'"
    and keep: "case sealing_key env of Some k \<Rightarrow> k \<in> set (mfa_keys env') | None \<Rightarrow> lk' = lk"
    and rnds: "\<forall>r \<in> set rnds. length r = RECOVERY_CODE_BYTES"
  shows "\<exists>codes hashes. generateRecoveryCodes cr rnds env = Inr (codes, hashes) \<and>
    length codes = length rnds \<and> length hashes = length rnds \<and>
    (\<forall>i < length rnds. normalizeRecoveryCode (codes ! i) = Inr (base32Encode (rnds ! i)) \<and>
      (\<exists>cs. hashRecoveryCodeCandidates cr (codes ! i) env' = Inr cs \<and> hashes ! i \<in> set cs))"
proof -
  let ?codes = "map (\<lambda>r. formatRecoveryCode (base32Encode r)) rnds"
  let ?hashes = "map (\<lambda>r. stored_hash cr env lk (base32Encode r)) rnds"
  have gen: "generateRecoveryCodes cr rnds env = Inr (?codes, ?hashes)"
    using hash_all_stored [OF env(1) _ rnds, of lk cr] legacy(1) by (simp add: generateRecoveryCodes_def)
  have "normalizeRecoveryCode (?codes ! i) = Inr (base32Encode (rnds ! i)) \<and>
      (\<exists>cs. hashRecoveryCodeCandidates cr (?codes ! i) env' = Inr cs \<and> ?hashes ! i \<in> set cs)"
    if "i < length rnds" for i
    using that rnds recovery_code_normal [of "rnds ! i"] candidates_contain_stored [OF env(2) legacy(2) _ keep] by simp
  then show ?thesis using gen by (intro exI [of _ ?codes] exI [of _ ?hashes]) simp
qed

theorem recovery_codes_redeemable_witness:
  "\<exists>codes hashes. generateRecoveryCodes sample_crypto [replicate 15 9, replicate 15 200] (sample_env CHR ''a'' None) = Inr (codes, hashes) \<and>
    length codes = 2"
proof -
  have l: "legacyKey (sample_env c p) = Inr (replicate 32 CHR ''j'')" for c p
  proof -
    have "js_trim (replicate 32 CHR ''j'') = replicate 32 CHR ''j''"
      by (rule js_trim_id) (simp add: list_all_iff is_ws_def cc_def)
    then show ?thesis using length_utf8_encode(1) [of "replicate 32 CHR ''j''"]
      by (simp add: legacyKey_def configuredKey_def sample_env_def requireJwtSecret_def MIN_JWT_SECRET_BYTES_def Let_def)
  qed
  have "case sealing_key (sample_env CHR ''a'' None) of
      Some k \<Rightarrow> k \<in> set (mfa_keys (sample_env CHR ''b'' (Some CHR ''a''))) | None \<Rightarrow> replicate 32 CHR ''j'' = replicate 32 CHR ''j''"
    by (simp add: sealing_key_def sample_keys)
  from recovery_codes_redeemable [OF sample_keys(2,4) l l this, of "[replicate 15 9, replicate 15 200]" sample_crypto]
  show ?thesis by (auto simp: RECOVERY_CODE_BYTES_def)
qed

subsection \<open>Confirmation\<close>

lemma consumeMfaFactor_verified:
  assumes "consumeMfaFactor rpc date_parse args = Inr c" "verified c"
  shows "\<exists>r stamp. rpc ''cfm_consume_mfa_factor'' args = Inr (Obj r) \<and> js_get r ''verified'' = Bool True \<and>
    js_get r ''verified_at'' = Str stamp \<and> js_isFinite (date_parse stamp) \<and> verified_at c = Some stamp"
  using assms
  by (auto simp: consumeMfaFactor_def split: sum.splits jsval.splits if_splits)

lemma totp_branch_step:
  assumes "totp_branch cr hmac rpc iv user code env now = Inr (Some st)"
  shows "\<exists>secret. decryptTotpSecret cr (totp_secret_enc user) (user_uuid user) env = Inr secret \<and>
    0 \<le> st \<and> \<bar>st - totp_step now\<bar> \<le> 1 \<and> codeForStep hmac secret st = Some code"
proof -
  obtain secret r where s: "decryptTotpSecret cr (totp_secret_enc user) (user_uuid user) env = Inr secret"
      "verifyTotpCode hmac secret code now = Some r" "totp_valid r" "totp_step_of r = Some st"
    using assms by (auto simp: totp_branch_def bind_err_Inr split: option.splits if_splits)
  from verifyTotpCode_accepts [OF s(2,3)] s(1,4) show ?thesis by auto
qed



end
