(* ===== verification/ViewerToken.thy ===== *)
theory ViewerToken
  imports JsJson
begin

section \<open>Viewer tokens bound to a network\<close>

text \<open>
  \<open>auth/viewer-token.ts\<close>: short-lived tokens for the live view, a base64url JSON payload and its
  HMAC-SHA-256, bound to the /24 or /64 network of the viewer. \<open>hmac key message\<close> is the platform's;
  the nonce bytes and the clock are arguments. Numbers are exact, so hexadecimal groups above
  \<open>2^53\<close> are not rounded.
\<close>

definition TOKEN_TTL_MS :: int where "TOKEN_TTL_MS = 60000"

definition viewer_constantTimeEqual :: "string \<Rightarrow> string \<Rightarrow> bool" where
  "viewer_constantTimeEqual a b = ct_bytes (utf8_encode a) (utf8_encode b)"

definition signPayload :: "(bytes \<Rightarrow> bytes \<Rightarrow> bytes) \<Rightarrow> string \<Rightarrow> string \<Rightarrow> string" where
  "signPayload hmac payload secret = bytesToBase64Url (hmac (utf8_encode secret) (utf8_encode payload))"

definition randomNonce :: "bytes \<Rightarrow> string" where
  "randomNonce rnd = bytesToBase64Url rnd"

subsection \<open>Networks\<close>

text \<open>\<open>split('::')\<close>, \<open>Number.parseInt(s, 16)\<close> and \<open>toString(16)\<close>.\<close>

fun split_dc :: "string \<Rightarrow> string list" where
  "split_dc [] = [[]]"
| "split_dc [c] = [[c]]"
| "split_dc (c # d # s) =
     (if c = CHR '':'' \<and> d = CHR '':'' then [] # split_dc s
      else (case split_dc (d # s) of [] \<Rightarrow> [[c]] | w # ws \<Rightarrow> (c # w) # ws))"

definition parse_int16 :: "string \<Rightarrow> jsnum" where
  "parse_int16 s =
     (let t = dropWhile is_ws s;
          neg = (case t of c # _ \<Rightarrow> c = CHR ''-'' | [] \<Rightarrow> False);
          u = (case t of c # r \<Rightarrow> if c = CHR ''-'' \<or> c = CHR ''+'' then r else t | [] \<Rightarrow> []);
          v = (if js_startsWith u ''0x'' \<or> js_startsWith u ''0X'' then drop 2 u else u);
          ds = takeWhile is_hex_any v
      in if ds = [] then NaN
         else mk_num (if neg then - of_nat (hex_val ds) else of_nat (hex_val ds)))"

fun nat_to_hex :: "nat \<Rightarrow> string" where
  "nat_to_hex n = (if n < 16 then [hex_char n] else nat_to_hex (n div 16) @ [hex_char (n mod 16)])"

declare nat_to_hex.simps [simp del]

definition int_to_hex :: "int \<Rightarrow> string" where
  "int_to_hex i = (if i < 0 then CHR ''-'' # nat_to_hex (nat (- i)) else nat_to_hex (nat i))"

definition hextet_text :: "string list \<Rightarrow> nat \<Rightarrow> string" where
  "hextet_text groups i =
     (let hextet = parse_int16 (if i < length groups then groups ! i else ''0'')
      in if js_isFinite hextet then int_to_hex (js_int hextet) else ''0'')"

definition ipv6_groups :: "string \<Rightarrow> string list" where
  "ipv6_groups addr =
     (let compressed = js_includes addr ''::''; parts = split_dc addr;
          head = filter (\<lambda>g. g \<noteq> []) (js_split CHR '':'' (parts ! 0));
          tail = (if compressed
                  then filter (\<lambda>g. g \<noteq> []) (js_split CHR '':'' (if 1 < length parts then parts ! 1 else []))
                  else [])
      in if compressed then head @ replicate (8 - length head - length tail) ''0'' @ tail else head)"

definition normalizeIpForBinding :: "string \<Rightarrow> string" where
  "normalizeIpForBinding ip =
     (let v = js_toLowerCase (js_trim ip) in
      if v = [] then []
      else if CHR '':'' \<in> set v then
        (let addr = strip_brackets (hd (js_split CHR ''%'' v)); groups = ipv6_groups addr
         in js_join '':'' (map (hextet_text groups) [0, 1, 2, 3]) @ ''::/64'')
      else (case js_split CHR ''.'' v of
          [a, b, c, d] \<Rightarrow> a @ ''.'' @ b @ ''.'' @ c @ ''.0/24''
        | _ \<Rightarrow> v))"

subsection \<open>Tokens\<close>

definition viewer_payload :: "jsnum \<Rightarrow> string \<Rightarrow> string \<Rightarrow> jsval" where
  "viewer_payload ex ip nonce = Obj [(''exp'', Num ex), (''ip'', Str ip), (''nonce'', Str nonce)]"

fun js_plus :: "jsnum \<Rightarrow> jsnum \<Rightarrow> jsnum" where
  "js_plus (Fin a) (Fin b) = Fin (a + b)"
| "js_plus _ _ = NaN"

text \<open>Both summands are finite here: the clock is, and the lifetime was tested.\<close>

definition createViewerToken ::
  "(bytes \<Rightarrow> bytes \<Rightarrow> bytes) \<Rightarrow> bytes \<Rightarrow> string \<Rightarrow> string \<Rightarrow> jsnum \<Rightarrow> int \<Rightarrow> string \<times> jsnum" where
  "createViewerToken hmac rnd ip secret ttlMs now =
     (let boundedTtlMs = (if js_isFinite ttlMs \<and> js_lt (Fin 0) ttlMs then ttlMs else FinI TOKEN_TTL_MS);
          ex = js_plus (FinI now) boundedTtlMs;
          payload = viewer_payload ex (normalizeIpForBinding ip) (randomNonce rnd);
          payloadText = bytesToBase64Url (utf8_encode (the (JSON_stringify payload)));
          signature = signPayload hmac payloadText secret
      in (payloadText @ ''.'' @ signature, ex))"

text \<open>\<open>None\<close> where reading a field of a \<open>null\<close> payload throws.\<close>

definition verifyViewerToken ::
  "(bytes \<Rightarrow> bytes \<Rightarrow> bytes) \<Rightarrow> string \<Rightarrow> string \<Rightarrow> string \<Rightarrow> int \<Rightarrow> bool option" where
  "verifyViewerToken hmac token ip secret now =
     (case js_split CHR ''.'' token of
        [payloadText, signature] \<Rightarrow>
          if payloadText = [] \<or> signature = [] then Some False
          else if \<not> viewer_constantTimeEqual signature (signPayload hmac payloadText secret) then Some False
          else (case base64UrlToBytes payloadText of
              None \<Rightarrow> Some False
            | Some payloadBytes \<Rightarrow>
                (case JSON_parse (utf8_decode payloadBytes) of
                   Some (Obj p) \<Rightarrow>
                     (case (js_get p ''exp'', js_get p ''ip'', js_get p ''nonce'') of
                        (Num ex, Str pip, Str nonce) \<Rightarrow>
                          Some (\<not> js_lt ex (FinI now) \<and> pip = normalizeIpForBinding ip \<and> 16 \<le> length nonce)
                      | _ \<Rightarrow> Some False)
                 | Some Null \<Rightarrow> None
                 | _ \<Rightarrow> Some False))
      | _ \<Rightarrow> Some False)"

subsection \<open>Creating and verifying\<close>

text \<open>The contract of HMAC-SHA-256 the comparison needs: 32 bytes.\<close>

definition hmac_ok :: "(bytes \<Rightarrow> bytes \<Rightarrow> bytes) \<Rightarrow> bool" where
  "hmac_ok hmac \<longleftrightarrow> (\<forall>k m. length (hmac k m) = 32)"

lemma signPayload_length: "hmac_ok hmac \<Longrightarrow> length (signPayload hmac p s) \<le> 64 \<and> signPayload hmac p s \<noteq> []"
  using length_bytesToBase64Url_le [of "hmac (utf8_encode s) (utf8_encode p)"] bytesToBase64Url_ne
  by (auto simp: signPayload_def hmac_ok_def) (metis length_0_conv zero_neq_numeral)

lemma viewer_payload_clean: "\<bar>i\<bar> < 10 ^ 21 \<Longrightarrow> json_clean (viewer_payload (FinI i) ip nonce)"
  by (simp add: viewer_payload_def)

lemma viewer_payload_text:
  assumes "\<bar>i\<bar> < 10 ^ 21" "tx = bytesToBase64Url (utf8_encode (the (JSON_stringify (viewer_payload (FinI i) ip nonce))))"
  shows "\<exists>bs. base64UrlToBytes tx = Some bs \<and> JSON_parse (utf8_decode bs) = Some (viewer_payload (FinI i) ip nonce)"
  using payload.chain.dec_enc [OF viewer_payload_clean [OF assms(1), of ip nonce]] assms(2)
  by (auto simp: bind_eq_Some_conv)

lemma verify_created:
  assumes "hmac_ok hmac" "\<bar>ex\<bar> < 10 ^ 21" "16 \<le> length nonce"
    and tx: "tx = bytesToBase64Url (utf8_encode (the (JSON_stringify (viewer_payload (FinI ex) pip nonce))))"
  shows "verifyViewerToken hmac (tx @ CHR ''.'' # signPayload hmac tx secret) ip secret now =
    Some (now \<le> ex \<and> pip = normalizeIpForBinding ip)"
proof -
  define p where "p = viewer_payload (FinI ex) pip nonce"
  obtain bs where bs: "base64UrlToBytes tx = Some bs" "JSON_parse (utf8_decode bs) = Some p"
    using viewer_payload_text [OF assms(2) tx] unfolding p_def by blast
  have "tx \<noteq> []"
    unfolding tx viewer_payload_def by (rule bytesToBase64Url_ne) (simp add: utf8_encode_def utf8_char_def)
  moreover have "js_split CHR ''.'' (tx @ CHR ''.'' # signPayload hmac tx secret) = [tx, signPayload hmac tx secret]"
    using b64url_no_dot by (subst split_on_append) (simp_all add: tx signPayload_def split_on_none)
  ultimately show ?thesis
    unfolding verifyViewerToken_def using bs signPayload_length [OF assms(1), of tx secret] assms(3)
    by (auto simp: viewer_constantTimeEqual_def p_def viewer_payload_def js_get_def not_less of_int_less_iff)
qed

text \<open>
  A viewer token works exactly for its network and its time: the token created for an address
  verifies, with the same secret, for precisely the addresses of the same /24 or /64 network and
  up to and including its expiry.
\<close>

theorem viewer_token_roundtrip:
  assumes "hmac_ok hmac" "length rnd = 16" "0 < d" "\<bar>now + d\<bar> < 10 ^ 21"
  shows "verifyViewerToken hmac (fst (createViewerToken hmac rnd ip secret (FinI d) now)) ip' secret now' =
    Some (now' \<le> now + d \<and> normalizeIpForBinding ip = normalizeIpForBinding ip')"
proof -
  have "16 \<le> length (randomNonce rnd)"
    using length_bytesToBase64Url [of rnd] assms(2) by (simp add: randomNonce_def)
  from verify_created [OF assms(1,4) this refl] show ?thesis
    using assms(3) by (simp add: createViewerToken_def Let_def)
qed

theorem viewer_token_roundtrip_witness:
  "verifyViewerToken (\<lambda>k m. replicate 32 1) (fst (createViewerToken (\<lambda>k m. replicate 32 1) (replicate 16 5) ''10.1.2.3'' ''s'' (FinI 60000) 1000))
     ''10.1.2.9'' ''s'' 61000 =
    Some ((61000 :: int) \<le> 1000 + 60000 \<and> normalizeIpForBinding ''10.1.2.3'' = normalizeIpForBinding ''10.1.2.9'')"
  by (rule viewer_token_roundtrip) (simp_all add: hmac_ok_def)

text \<open>
  C19. Nothing else is accepted: a token that verifies is a payload text followed by exactly its
  HMAC under the secret, its payload parses to an object bound to the viewer's network with a
  nonce of at least 16 characters, and it has not expired.
\<close>

theorem viewer_token_sound:
  assumes "hmac_ok hmac" "length token < 2 ^ 30" "verifyViewerToken hmac token ip secret now = Some True"
  shows "\<exists>tx p ex nonce. token = tx @ ''.'' @ signPayload hmac tx secret \<and>
    map_option (\<lambda>bs. JSON_parse (utf8_decode bs)) (base64UrlToBytes tx) = Some (Some (Obj p)) \<and>
    js_get p ''exp'' = Num ex \<and> \<not> js_lt ex (FinI now) \<and>
    js_get p ''ip'' = Str (normalizeIpForBinding ip) \<and> js_get p ''nonce'' = Str nonce \<and> 16 \<le> length nonce"
proof -
  obtain tx sg where sp: "js_split CHR ''.'' token = [tx, sg]"
    using assms(3) by (auto simp: verifyViewerToken_def split: list.splits)
  have "viewer_constantTimeEqual sg (signPayload hmac tx secret)"
    using assms(3) by (auto simp: verifyViewerToken_def sp split: if_splits)
  moreover have "length (utf8_encode sg) < 2 ^ 32"
    using split_on_length [of sg "\<lambda>x. x = CHR ''.''" token] sp assms(2) length_utf8_encode(2) [of sg] by simp
  moreover have "length (utf8_encode (signPayload hmac tx secret)) < 2 ^ 32"
    using length_utf8_encode(2) [of "signPayload hmac tx secret"] signPayload_length [OF assms(1), of tx secret] by auto
  ultimately have sg: "sg = signPayload hmac tx secret"
    by (simp add: viewer_constantTimeEqual_def ct_bytes_iff)
  have "token = js_join ''.'' [tx, sg]" using js_join_split [of "CHR ''.''" token] sp by simp
  then have "token = tx @ ''.'' @ signPayload hmac tx secret" using sg by simp
  moreover obtain bs p ex nonce where "base64UrlToBytes tx = Some bs" "JSON_parse (utf8_decode bs) = Some (Obj p)"
    "js_get p ''exp'' = Num ex" "\<not> js_lt ex (FinI now)" "js_get p ''ip'' = Str (normalizeIpForBinding ip)"
    "js_get p ''nonce'' = Str nonce" "16 \<le> length nonce"
    using assms(3) unfolding verifyViewerToken_def sp
    by (auto split: if_splits option.splits jsval.splits)
  ultimately show ?thesis by (intro exI [of _ tx] exI [of _ p] exI [of _ ex] exI [of _ nonce]) simp
qed

lemma payload_text_length: "length (bytesToBase64Url (utf8_encode s)) \<le> 4 * length s"
  using length_bytesToBase64Url_le [of "utf8_encode s"] length_utf8_encode(2) [of s] by linarith

definition sample_text :: string where
  "sample_text = bytesToBase64Url (utf8_encode (the (JSON_stringify (viewer_payload (FinI 1) [] (replicate 16 CHR ''n'')))))"

theorem viewer_token_sound_witness:
  "\<exists>tx p ex nonce. sample_text @ CHR ''.'' # signPayload (\<lambda>k m. replicate 32 1) sample_text ''s'' =
      tx @ ''.'' @ signPayload (\<lambda>k m. replicate 32 1) tx ''s'' \<and> js_get p ''exp'' = Num ex \<and> js_get p ''nonce'' = Str nonce"
proof -
  have h: "hmac_ok (\<lambda>k m. replicate 32 1)" by (simp add: hmac_ok_def)
  have ip: "normalizeIpForBinding [] = []" by (simp add: normalizeIpForBinding_def js_trim_def js_toLowerCase_def)
  have v: "verifyViewerToken (\<lambda>k m. replicate 32 1) (sample_text @ CHR ''.'' # signPayload (\<lambda>k m. replicate 32 1) sample_text ''s'')
      [] ''s'' 0 = Some True"
    using verify_created [OF h _ _ sample_text_def] ip by simp
  have "length (the (JSON_stringify (viewer_payload (FinI 1) [] (replicate 16 CHR ''n'')))) \<le> 100"
    by (simp add: viewer_payload_def json_quote_def json_escape_def cc_def int_to_str_def nat_to_str.simps numeral_eq_Suc)
  then have "length sample_text \<le> 400"
    using payload_text_length [of "the (JSON_stringify (viewer_payload (FinI 1) [] (replicate 16 CHR ''n'')))"]
    unfolding sample_text_def by linarith
  then have "length (sample_text @ CHR ''.'' # signPayload (\<lambda>k m. replicate 32 1) sample_text ''s'') < 2 ^ 30"
    using signPayload_length [OF h, of sample_text "''s''"] by auto
  from viewer_token_sound [OF h this v] show ?thesis by blast
qed

subsection \<open>Networks\<close>

lemma address_chars:
  assumes "is_hex_lower x \<or> x = CHR ''.'' \<or> x = CHR '':''"
  shows "\<not> is_ws x" "lower_char x = x" "x \<noteq> CHR ''%''" "x \<noteq> CHR ''[''" "x \<noteq> CHR '']''"
proof -
  have k: "48 \<le> cc x \<and> cc x \<le> 58 \<or> 97 \<le> cc x \<and> cc x \<le> 102 \<or> cc x = 46"
    using assms by (elim disjE) (auto simp: is_hex_lower_def is_digit_def, simp_all add: cc_def)
  then show "\<not> is_ws x" "lower_char x = x" by (auto simp: is_ws_def lower_char_def is_AZ_def)
  show "x \<noteq> CHR ''%''" "x \<noteq> CHR ''[''" "x \<noteq> CHR '']''" using k by (auto simp: cc_def)
qed

lemma address_text:
  assumes "\<forall>x \<in> set s. is_hex_lower x \<or> x = CHR ''.'' \<or> x = CHR '':''"
  shows "js_toLowerCase (js_trim s) = s"
proof -
  have "js_trim s = s" using assms address_chars(1) by (intro js_trim_id) (auto simp: list_all_iff)
  moreover have "map lower_char s = s" using assms address_chars(2) by (intro map_idI) blast
  ultimately show ?thesis by (simp add: js_toLowerCase_def)
qed

definition is_octet :: "string \<Rightarrow> bool" where
  "is_octet g \<longleftrightarrow> g \<noteq> [] \<and> list_all is_digit g"

lemma is_octet_chars: "is_octet g \<Longrightarrow> x \<in> set g \<Longrightarrow> is_hex_lower x \<and> x \<noteq> CHR ''.'' \<and> x \<noteq> CHR '':''"
  by (auto simp: is_octet_def list_all_iff is_hex_lower_def is_digit_def cc_def)

lemma normalize_ipv4:
  assumes "is_octet a" "is_octet b" "is_octet c" "is_octet d"
  shows "normalizeIpForBinding (a @ ''.'' @ b @ ''.'' @ c @ ''.'' @ d) = a @ ''.'' @ b @ ''.'' @ c @ ''.0/24''"
proof -
  let ?s = "a @ ''.'' @ b @ ''.'' @ c @ ''.'' @ d"
  have oct: "is_hex_lower x \<and> x \<noteq> CHR ''.'' \<and> x \<noteq> CHR '':''" if "x \<in> set a \<union> set b \<union> set c \<union> set d" for x
    using that assms is_octet_chars by blast
  then have "\<forall>x \<in> set ?s. is_hex_lower x \<or> x = CHR ''.'' \<or> x = CHR '':''" "CHR '':'' \<notin> set ?s" by auto
  moreover have "js_split CHR ''.'' ?s = [a, b, c, d]"
    using oct by (simp add: split_on_append split_on_none list_all_iff)
  moreover have "?s \<noteq> []" by simp
  ultimately show ?thesis unfolding normalizeIpForBinding_def by (simp only: address_text Let_def) simp
qed

definition is_group :: "string \<Rightarrow> bool" where
  "is_group g \<longleftrightarrow> g \<noteq> [] \<and> list_all is_hex_lower g"

text \<open>Texts without a double colon.\<close>

fun nodc :: "string \<Rightarrow> bool" where
  "nodc [] = True"
| "nodc (c # s) = ((c = CHR '':'' \<and> s \<noteq> [] \<longrightarrow> hd s \<noteq> CHR '':'') \<and> nodc s)"

lemma split_dc_ne: "split_dc s \<noteq> []"
  by (induction s rule: split_dc.induct) (auto split: list.splits)

lemma split_dc_nodc: "nodc s \<Longrightarrow> split_dc s = [s]"
  by (induction s rule: split_dc.induct) auto

lemma split_dc_append:
  "nodc s \<Longrightarrow> s = [] \<or> last s \<noteq> CHR '':'' \<Longrightarrow> split_dc (s @ CHR '':'' # CHR '':'' # t) = s # split_dc t"
  by (induction s rule: split_dc.induct) auto

lemma includes_nodc: "js_includes s ''::'' \<longleftrightarrow> \<not> nodc s"
proof (induction s)
  case (Cons c s)
  then show ?case by (cases s) auto
qed simp

lemma is_group_colon: "is_group g \<Longrightarrow> CHR '':'' \<notin> set g"
  by (auto simp: is_group_def list_all_iff is_hex_lower_def is_digit_def cc_def)

lemma nodc_append: "CHR '':'' \<notin> set g \<Longrightarrow> nodc (g @ s) \<longleftrightarrow> nodc s"
  by (induction g) auto

lemma join_groups:
  assumes "list_all is_group gs"
  shows "nodc (js_join '':'' gs) \<and> (gs \<noteq> [] \<longrightarrow> js_join '':'' gs \<noteq> [] \<and> hd (js_join '':'' gs) \<noteq> CHR '':'' \<and>
    last (js_join '':'' gs) \<noteq> CHR '':'')"
  using assms
proof (induction "'':''" gs rule: js_join.induct)
  case (2 x)
  then have "nodc (x @ [])" using is_group_colon by (subst nodc_append) auto
  then show ?case using 2 is_group_colon [of x] by (auto simp: is_group_def) (metis hd_in_set, metis last_in_set)
next
  case (3 x y zs)
  have x: "CHR '':'' \<notin> set x" "x \<noteq> []" using 3 is_group_colon [of x] by (auto simp: is_group_def)
  have "nodc (CHR '':'' # js_join '':'' (y # zs))" using 3 by simp
  moreover have "hd x \<noteq> CHR '':''" using x hd_in_set [of x] by metis
  ultimately show ?case using 3 x by (auto simp: nodc_append)
qed simp

lemma split_groups:
  assumes "list_all is_group gs"
  shows "filter (\<lambda>g. g \<noteq> []) (js_split CHR '':'' (js_join '':'' gs)) = gs"
proof (cases "gs = []")
  case False
  then have "js_split CHR '':'' (js_join '':'' gs) = gs"
    using assms is_group_colon by (intro split_join) (auto simp: list_all_iff)
  then show ?thesis using assms by (auto simp: filter_id_conv list_all_iff is_group_def)
qed simp

lemma nodc_dc: "\<not> nodc (s @ ''::'' @ t)"
  by (induction s) auto

lemma ipv6_groups_compressed:
  assumes "list_all is_group hs" "list_all is_group ts"
  shows "ipv6_groups (js_join '':'' hs @ ''::'' @ js_join '':'' ts) = hs @ replicate (8 - length hs - length ts) ''0'' @ ts"
proof -
  have "\<not> nodc (js_join '':'' hs @ ''::'' @ js_join '':'' ts)"
    by (rule nodc_dc)
  moreover have "split_dc (js_join '':'' hs @ ''::'' @ js_join '':'' ts) = [js_join '':'' hs, js_join '':'' ts]"
    using join_groups [OF assms(1)] join_groups [OF assms(2)]
    by (cases "hs = []") (simp_all add: split_dc_append split_dc_nodc)
  ultimately show ?thesis
    using split_groups [OF assms(1)] split_groups [OF assms(2)] by (simp add: ipv6_groups_def includes_nodc Let_def)
qed

lemma ipv6_groups_full: "list_all is_group gs \<Longrightarrow> ipv6_groups (js_join '':'' gs) = gs"
  using join_groups [of gs] split_groups [of gs] by (simp add: ipv6_groups_def includes_nodc split_dc_nodc Let_def)

lemma join_chars:
  "list_all is_group gs \<Longrightarrow> x \<in> set (js_join '':'' gs) \<Longrightarrow> is_hex_lower x \<or> x = CHR '':''"
  by (induction "'':''" gs rule: js_join.induct) (auto simp: is_group_def list_all_iff)

lemma strip_brackets_id:
  "s \<noteq> [] \<Longrightarrow> hd s \<noteq> CHR ''['' \<Longrightarrow> last s \<noteq> CHR '']'' \<Longrightarrow> strip_brackets s = s"
  by (cases s) (auto simp: strip_brackets_def Let_def)

lemma normalize_ipv6:
  assumes "\<forall>x \<in> set s. is_hex_lower x \<or> x = CHR '':''" "CHR '':'' \<in> set s"
  shows "normalizeIpForBinding s = js_join '':'' (map (hextet_text (ipv6_groups s)) [0, 1, 2, 3]) @ ''::/64''"
proof -
  have ne: "s \<noteq> []" using assms(2) by auto
  have chars: "\<forall>x \<in> set s. is_hex_lower x \<or> x = CHR ''.'' \<or> x = CHR '':''" using assms(1) by blast
  have "js_split CHR ''%'' s = [s]" using chars address_chars(3) by (intro split_on_none) (auto simp: list_all_iff)
  moreover have "strip_brackets s = s"
    using chars address_chars(4,5) hd_in_set [OF ne] last_in_set [OF ne] by (intro strip_brackets_id ne) metis+
  ultimately show ?thesis using assms(2) ne address_text [OF chars]
    unfolding normalizeIpForBinding_def by (simp add: Let_def)
qed

text \<open>
  Binding to networks: two IPv4 addresses are bound to the same network exactly when their
  first three octets agree, and an IPv6 address written with a double colon is bound to the same
  network as its full eight-group form.
\<close>

theorem viewer_ip_networks:
  "(is_octet a \<and> is_octet b \<and> is_octet c \<and> is_octet d \<and> is_octet a' \<and> is_octet b' \<and> is_octet c' \<and> is_octet d' \<longrightarrow>
     (normalizeIpForBinding (a @ ''.'' @ b @ ''.'' @ c @ ''.'' @ d) = normalizeIpForBinding (a' @ ''.'' @ b' @ ''.'' @ c' @ ''.'' @ d')
        \<longleftrightarrow> a = a' \<and> b = b' \<and> c = c')) \<and>
   (list_all is_group hs \<and> list_all is_group ts \<and> length hs + length ts \<le> 7 \<longrightarrow>
     normalizeIpForBinding (js_join '':'' hs @ ''::'' @ js_join '':'' ts) =
     normalizeIpForBinding (js_join '':'' (hs @ replicate (8 - length hs - length ts) ''0'' @ ts)))"
proof (intro conjI impI)
  assume o8: "is_octet a \<and> is_octet b \<and> is_octet c \<and> is_octet d \<and> is_octet a' \<and> is_octet b' \<and> is_octet c' \<and> is_octet d'"
  have nd: "list_all (\<lambda>x. \<not> x = CHR ''.'') g" if "is_octet g" for g
    using is_octet_chars [OF that] by (auto simp: list_all_iff)
  have inj: "x = y \<and> r = t" if "x @ CHR ''.'' # r = y @ CHR ''.'' # t" "is_octet x" "is_octet y" for x y r t
  proof -
    have "js_split CHR ''.'' (g @ CHR ''.'' # u) = g # js_split CHR ''.'' u" if "is_octet g" for g u
      using nd [OF that] by (simp add: split_on_append)
    from this [OF that(2), of r] this [OF that(3), of t] have "x = y" using that(1) by simp
    then show ?thesis using that(1) by simp
  qed
  have eq: "a @ ''.'' @ b @ ''.'' @ c @ ''.0/24'' = a' @ ''.'' @ b' @ ''.'' @ c' @ ''.0/24'' \<longleftrightarrow> a = a' \<and> b = b' \<and> c = c'"
  proof
    assume "a @ ''.'' @ b @ ''.'' @ c @ ''.0/24'' = a' @ ''.'' @ b' @ ''.'' @ c' @ ''.0/24''"
    then have 1: "a @ CHR ''.'' # (b @ ''.'' @ c @ ''.0/24'') = a' @ CHR ''.'' # (b' @ ''.'' @ c' @ ''.0/24'')" by simp
    have 2: "b @ CHR ''.'' # (c @ ''.0/24'') = b' @ CHR ''.'' # (c' @ ''.0/24'')" using inj [OF 1] o8 by simp
    have "c @ ''.0/24'' = c' @ ''.0/24''" using inj [OF 2] o8 by simp
    then show "a = a' \<and> b = b' \<and> c = c'" using inj [OF 1] inj [OF 2] o8 by simp
  qed simp
  from o8 show "(normalizeIpForBinding (a @ ''.'' @ b @ ''.'' @ c @ ''.'' @ d) = normalizeIpForBinding (a' @ ''.'' @ b' @ ''.'' @ c' @ ''.'' @ d'))
        = (a = a' \<and> b = b' \<and> c = c')"
    using normalize_ipv4 [of a b c d] normalize_ipv4 [of a' b' c' d'] eq by (simp only: simp_thms)
next
  assume g: "list_all is_group hs \<and> list_all is_group ts \<and> length hs + length ts \<le> 7"
  let ?full = "hs @ replicate (8 - length hs - length ts) ''0'' @ ts"
  have full: "list_all is_group ?full" using g by (auto simp: list_all_iff is_group_def is_hex_lower_def is_digit_def cc_def)
  have "length ?full = 8" using g by simp
  then obtain x y zs where "?full = x # y # zs" by (cases ?full; cases "tl ?full") auto
  then have "CHR '':'' \<in> set (js_join '':'' ?full)" by simp
  moreover have "\<forall>x \<in> set (js_join '':'' ?full). is_hex_lower x \<or> x = CHR '':''" using join_chars [OF full] by blast
  moreover have "\<forall>x \<in> set (js_join '':'' hs @ ''::'' @ js_join '':'' ts). is_hex_lower x \<or> x = CHR '':''"
    using join_chars [of hs] join_chars [of ts] g by auto
  ultimately show "normalizeIpForBinding (js_join '':'' hs @ ''::'' @ js_join '':'' ts) = normalizeIpForBinding (js_join '':'' ?full)"
    using ipv6_groups_compressed [of hs ts] ipv6_groups_full [OF full] g by (simp add: normalize_ipv6)
qed

theorem viewer_ip_networks_witness:
  "normalizeIpForBinding (''10'' @ ''.'' @ ''1'' @ ''.'' @ ''2'' @ ''.'' @ ''3'') =
     normalizeIpForBinding (''10'' @ ''.'' @ ''1'' @ ''.'' @ ''2'' @ ''.'' @ ''77'') \<and>
   normalizeIpForBinding (js_join '':'' [''2a01''] @ ''::'' @ js_join '':'' [''1'']) =
     normalizeIpForBinding (js_join '':'' ([''2a01''] @ replicate (8 - 1 - 1) ''0'' @ [''1'']))"
proof -
  have "is_octet ''10''" "is_octet ''1''" "is_octet ''2''" "is_octet ''3''" "is_octet ''77''"
    by (simp_all add: is_octet_def is_digit_def cc_def)
  moreover have "is_group ''2a01''" "is_group ''1''"
    by (simp_all add: is_group_def is_hex_lower_def is_digit_def cc_def)
  ultimately show ?thesis
    using viewer_ip_networks [of "''10''" "''1''" "''2''" "''3''" "''10''" "''1''" "''2''" "''77''" "[''2a01'']" "[''1'']"]
    by simp
qed

end
