(* ===== verification/PingTask.thy ===== *)
theory PingTask
  imports JsJson
begin

section \<open>Ping tasks and ping results\<close>

text \<open>
  \<open>utils/ping-task.ts\<close> and \<open>utils/ping-result.ts\<close>: validation of the tasks an administrator
  enters and of the results an agent reports. The platform's URL parser is the parameter
  \<open>url_parse\<close>, \<open>None\<close> where \<open>new URL\<close> throws. Error texts are constructors.
\<close>

record url =
  protocol :: string
  hostname :: string
  url_username :: string
  url_password :: string
  port :: string
  pathname :: string
  search :: string
  hash :: string
  href :: string

datatype ping_type = Icmp | Tcp | Http

definition PING_TASK_TYPES :: "string list" where "PING_TASK_TYPES = [''icmp'', ''tcp'', ''http'']"
definition MIN_PING_INTERVAL_SEC :: int where "MIN_PING_INTERVAL_SEC = 60"
definition MAX_PING_INTERVAL_SEC :: int where "MAX_PING_INTERVAL_SEC = 86400"
definition MAX_PING_TASK_NAME_LENGTH :: nat where "MAX_PING_TASK_NAME_LENGTH = 128"
definition MAX_PING_TARGET_LENGTH :: nat where "MAX_PING_TARGET_LENGTH = 512"
definition MAX_PING_TASK_CLIENTS :: nat where "MAX_PING_TASK_CLIENTS = 500"

definition isPingTaskType :: "string \<Rightarrow> ping_type option" where
  "isPingTaskType v = (if v = ''icmp'' then Some Icmp else if v = ''tcp'' then Some Tcp
                       else if v = ''http'' then Some Http else None)"

fun readBoolean :: "jsval \<Rightarrow> bool \<Rightarrow> bool" where
  "readBoolean (Bool b) d = b"
| "readBoolean (Num x) d = (x \<noteq> Fin 0)"
| "readBoolean (Str s) d =
     (let normalized = js_toLowerCase (js_trim s)
      in if normalized = ''true'' \<or> normalized = ''1'' then True
         else if normalized = ''false'' \<or> normalized = ''0'' then False else d)"
| "readBoolean _ d = d"

text \<open>The loop of both \<open>readStringArray\<close> functions: trimmed, non-empty, first occurrences, up to a limit.\<close>

fun collect_strings :: "nat \<Rightarrow> string list \<Rightarrow> jsval list \<Rightarrow> string list" where
  "collect_strings limit result [] = result"
| "collect_strings limit result (item # items) =
     (case item of
        Str s \<Rightarrow>
          (let tx = js_trim s
           in if tx = [] \<or> tx \<in> set result then collect_strings limit result items
              else if limit \<le> length (result @ [tx]) then result @ [tx]
              else collect_strings limit (result @ [tx]) items)
      | _ \<Rightarrow> collect_strings limit result items)"

definition readStringArray :: "jsval \<Rightarrow> string list" where
  "readStringArray v =
     (let source = (case v of Str s \<Rightarrow> (case JSON_parse s of None \<Rightarrow> Undef | Some x \<Rightarrow> x) | _ \<Rightarrow> v)
      in case source of Arr items \<Rightarrow> collect_strings MAX_PING_TASK_CLIENTS [] items | _ \<Rightarrow> [])"

subsection \<open>Hosts\<close>

text \<open>The pattern \<open>^(0|[1-9]\d{0,2})$\<close>.\<close>

definition is_octet_text :: "string \<Rightarrow> bool" where
  "is_octet_text p \<longleftrightarrow> p = ''0'' \<or> (p \<noteq> [] \<and> list_all is_digit p \<and> hd p \<noteq> CHR ''0'' \<and> length p \<le> 3)"

definition parseIpv4 :: "string \<Rightarrow> nat list option" where
  "parseIpv4 host =
     (let parts = js_split CHR ''.'' host in
      if length parts \<noteq> 4 then None
      else if \<not> list_all is_octet_text parts then None
      else let octets = map str_to_num parts in
        if list_ex (\<lambda>x. \<not> js_isInteger x \<or> js_lt x (Fin 0) \<or> js_lt (Fin 255) x) octets then None
        else Some (map (\<lambda>x. nat (js_int x)) octets))"

text \<open>The pattern \<open>^(0x[0-9a-f]+|\d+)$\<close>, in either case.\<close>

definition is_hex_prefixed :: "string \<Rightarrow> bool" where
  "is_hex_prefixed p \<longleftrightarrow> js_startsWith p ''0x'' \<or> js_startsWith p ''0X''"

definition is_number_part :: "string \<Rightarrow> bool" where
  "is_number_part p \<longleftrightarrow>
     (is_hex_prefixed p \<and> drop 2 p \<noteq> [] \<and> list_all is_hex_any (drop 2 p)) \<or>
     (p \<noteq> [] \<and> list_all is_digit p)"

definition isAmbiguousNumericHost :: "string \<Rightarrow> bool" where
  "isAmbiguousNumericHost host =
     (if CHR '':'' \<in> set host then False
      else let parts = js_split CHR ''.'' host in
        if length parts > 4 then False
        else if \<not> list_all is_number_part parts then False
        else if length parts \<noteq> 4 then True
        else list_ex (\<lambda>p. is_hex_prefixed p \<or> (length p > 1 \<and> js_startsWith p ''0'')) parts \<or> parseIpv4 host = None)"

definition isBlockedIpv4 :: "string \<Rightarrow> bool" where
  "isBlockedIpv4 host = (case parseIpv4 host of
       Some (a # b # _) \<Rightarrow>
         a = 0 \<or> a = 10 \<or> a = 127 \<or> (a = 100 \<and> 64 \<le> b \<and> b \<le> 127) \<or> (a = 169 \<and> b = 254) \<or>
         (a = 172 \<and> 16 \<le> b \<and> b \<le> 31) \<or> (a = 192 \<and> b = 168) \<or> 224 \<le> a
     | _ \<Rightarrow> False)"

text \<open>\<open>slice(1, -1)\<close>.\<close>

definition slice_ends :: "string \<Rightarrow> string" where
  "slice_ends s = butlast (tl s)"

definition is_fe80 :: "string \<Rightarrow> bool" where
  "is_fe80 s \<longleftrightarrow> 5 \<le> length s \<and> take 2 s = ''fe'' \<and> s ! 2 \<in> set ''89ab'' \<and> is_hex_lower (s ! 3) \<and> s ! 4 = CHR '':''"

definition isBlockedIpv6 :: "(string \<Rightarrow> url option) \<Rightarrow> string \<Rightarrow> bool" where
  "isBlockedIpv6 url_parse host =
     (let n0 = strip_brackets (js_toLowerCase host) in
      if CHR '':'' \<notin> set n0 then False
      else case url_parse (''http://['' @ n0 @ '']/'') of
          None \<Rightarrow> True
        | Some u \<Rightarrow>
            (let normalized = slice_ends (hostname u)
             in normalized = ''::'' \<or> normalized = ''::1'' \<or> js_startsWith normalized ''::ffff:'' \<or>
                js_startsWith normalized ''0:0:0:0:0:ffff:'' \<or> js_startsWith normalized ''fc'' \<or>
                js_startsWith normalized ''fd'' \<or> is_fe80 normalized))"

datatype target_error =
    HostMissing | TargetLocalhost | TargetMetadata | TargetReservedIp
  | TcpFormat | TcpWhitespace | TcpPort
  | HttpScheme | HttpHostMissing | HttpCredentials | HttpInvalidUrl
  | IcmpWhitespace | IcmpScheme | IcmpPort
  | TargetEmpty | TargetTooLong

definition validateNetworkBoundary :: "(string \<Rightarrow> url option) \<Rightarrow> string \<Rightarrow> target_error option" where
  "validateNetworkBoundary url_parse host =
     (let normalized = strip_brackets (js_toLowerCase (js_trim host)) in
      if normalized = [] then Some HostMissing
      else if normalized = ''localhost'' \<or> js_endsWith normalized ''.localhost'' then Some TargetLocalhost
      else if normalized = ''metadata.google.internal'' then Some TargetMetadata
      else if isAmbiguousNumericHost normalized then Some TargetReservedIp
      else if isBlockedIpv4 normalized \<or> isBlockedIpv6 url_parse normalized then Some TargetReservedIp
      else None)"

definition validateTcpTarget :: "(string \<Rightarrow> url option) \<Rightarrow> string \<Rightarrow> target_error option" where
  "validateTcpTarget url_parse target =
     (if js_includes target ''://'' then Some TcpFormat
      else if list_ex is_ws target then Some TcpWhitespace
      else case url_parse (''tcp://'' @ target) of
          None \<Rightarrow> Some TcpFormat
        | Some u \<Rightarrow>
            (let p = str_to_num (port u)
             in if hostname u = [] \<or> \<not> js_isInteger p \<or> js_lt p (Fin 1) \<or> js_lt (Fin 65535) p then Some TcpPort
                else validateNetworkBoundary url_parse (hostname u)))"

definition validateHttpTarget :: "(string \<Rightarrow> url option) \<Rightarrow> string \<Rightarrow> target_error option" where
  "validateHttpTarget url_parse target = (case url_parse target of
       None \<Rightarrow> Some HttpInvalidUrl
     | Some u \<Rightarrow>
         if protocol u \<noteq> ''http:'' \<and> protocol u \<noteq> ''https:'' then Some HttpScheme
         else if hostname u = [] then Some HttpHostMissing
         else if url_username u \<noteq> [] \<or> url_password u \<noteq> [] then Some HttpCredentials
         else validateNetworkBoundary url_parse (hostname u))"

text \<open>The pattern \<open>^\[[^\]]+\]:.+$\<close> on a target without white space.\<close>

definition is_bracketed_port :: "string \<Rightarrow> bool" where
  "is_bracketed_port target = (case target of
       [] \<Rightarrow> False
     | c # r \<Rightarrow>
         c = CHR ''['' \<and> takeWhile (\<lambda>x. x \<noteq> CHR '']'') r \<noteq> [] \<and>
         js_startsWith (dropWhile (\<lambda>x. x \<noteq> CHR '']'') r) '']:'' \<and>
         length (dropWhile (\<lambda>x. x \<noteq> CHR '']'') r) > 2)"

definition validateIcmpTarget :: "(string \<Rightarrow> url option) \<Rightarrow> string \<Rightarrow> target_error option" where
  "validateIcmpTarget url_parse target =
     (if list_ex is_ws target then Some IcmpWhitespace
      else if js_includes target ''://'' then Some IcmpScheme
      else if is_bracketed_port target \<or> length (filter (\<lambda>c. c = CHR '':'') target) = 1 then Some IcmpPort
      else validateNetworkBoundary url_parse target)"

definition validateTarget :: "(string \<Rightarrow> url option) \<Rightarrow> ping_type \<Rightarrow> string \<Rightarrow> target_error option" where
  "validateTarget url_parse ty target =
     (if target = [] then Some TargetEmpty
      else if length target > MAX_PING_TARGET_LENGTH then Some TargetTooLong
      else case ty of
          Tcp \<Rightarrow> validateTcpTarget url_parse target
        | Http \<Rightarrow> validateHttpTarget url_parse target
        | Icmp \<Rightarrow> validateIcmpTarget url_parse target)"

subsection \<open>Tasks\<close>

record ping_task =
  pt_id :: "int option"
  pt_name :: string
  pt_clients :: "string list"
  pt_all_clients :: bool
  pt_type :: ping_type
  pt_target :: string
  pt_interval_sec :: int

datatype task_error = NameEmpty | NameTooLong | TypeInvalid | TargetInvalid target_error
  | IntervalInvalid | NoClients | UnknownClient

definition validatePingTaskInput ::
  "(string \<Rightarrow> url option) \<Rightarrow> jsval \<Rightarrow> string set option \<Rightarrow> task_error list + ping_task" where
  "validatePingTaskInput url_parse input allowedClientIds =
     (let body = asObject input;
          name = js_trim (js_String (js_nullish (js_get body ''name'') (Str [])));
          e1 = (if name = [] then [NameEmpty] else if length name > MAX_PING_TASK_NAME_LENGTH then [NameTooLong] else []);
          typeValue = js_toLowerCase (js_trim (js_String (js_nullish (js_get body ''type'') (Str ''icmp''))));
          e2 = (if isPingTaskType typeValue = None then [TypeInvalid] else []);
          ty = (case isPingTaskType typeValue of Some t \<Rightarrow> t | None \<Rightarrow> Icmp);
          target = js_trim (js_String (js_nullish (js_get body ''target'') (Str [])));
          e3 = (case validateTarget url_parse ty target of Some e \<Rightarrow> [TargetInvalid e] | None \<Rightarrow> []);
          intervalValue = js_Number (js_nullish (js_get body ''interval_sec'')
                            (js_nullish (js_get body ''interval'') (Num (Fin 60))));
          e4 = (if \<not> js_isInteger intervalValue \<or> js_lt intervalValue (FinI MIN_PING_INTERVAL_SEC) \<or>
                   js_lt (FinI MAX_PING_INTERVAL_SEC) intervalValue then [IntervalInvalid] else []);
          intervalSec = (if js_isInteger intervalValue then js_int intervalValue else 60);
          allClients = readBoolean (js_get body ''all_clients'') False;
          clients = (if allClients then [] else readStringArray (js_get body ''clients''));
          e5 = (if \<not> allClients \<and> clients = [] then [NoClients] else []);
          e6 = (case allowedClientIds of
                  Some ids \<Rightarrow> if list_ex (\<lambda>c. c \<notin> ids) clients then [UnknownClient] else []
                | None \<Rightarrow> []);
          errors = e1 @ e2 @ e3 @ e4 @ e5 @ e6
      in if errors \<noteq> [] then Inl errors
         else Inr \<lparr>pt_id = None, pt_name = name, pt_clients = clients, pt_all_clients = allClients,
                    pt_type = ty, pt_target = target, pt_interval_sec = intervalSec\<rparr>)"

subsection \<open>Results\<close>

definition MAX_PING_RESULTS_PER_REPORT :: nat where "MAX_PING_RESULTS_PER_REPORT = 50"
definition MAX_PING_VALUE_MS :: rat where "MAX_PING_VALUE_MS = 60000"
definition PING_LOSS_VALUE :: rat where "PING_LOSS_VALUE = - 1"

record ping_result =
  pr_taskId :: int
  pr_value :: rat

datatype result_error = ResultsEmpty | ResultsTooMany | ResultInvalid | TaskUnknown | TaskNotAssigned

fun result_status :: "result_error \<Rightarrow> nat" where
  "result_status TaskNotAssigned = 403"
| "result_status _ = 400"

definition pingResultPayload :: "jsval \<Rightarrow> jsval" where
  "pingResultPayload input =
     (let body = asObject input in
      case js_get body ''results'' of
        Arr xs \<Rightarrow> Arr xs
      | _ \<Rightarrow> if js_get body ''type'' = Str ''ping_result'' \<and> js_get body ''data'' \<noteq> Undef
             then js_get body ''data'' else input)"

text \<open>\<open>taskMap\<close>: the last task of an id wins.\<close>

definition task_map :: "ping_task list \<Rightarrow> int \<Rightarrow> ping_task option" where
  "task_map tasks i = find (\<lambda>t. pt_id t = Some i) (rev tasks)"

fun check_result :: "ping_task list \<Rightarrow> string \<Rightarrow> jsval \<Rightarrow> result_error + ping_result" where
  "check_result tasks clientUuid raw =
     (let result = asObject raw; taskId = js_Number (js_get result ''task_id'');
          v = js_Number (js_get result ''value'')
      in case v of
          Fin q \<Rightarrow>
            if \<not> js_isInteger taskId \<or> js_le taskId (Fin 0) \<or>
               (q \<noteq> PING_LOSS_VALUE \<and> (q < 0 \<or> MAX_PING_VALUE_MS < q)) then Inl ResultInvalid
            else (case task_map tasks (js_int taskId) of
                None \<Rightarrow> Inl TaskUnknown
              | Some task \<Rightarrow>
                  if \<not> pt_all_clients task \<and> clientUuid \<notin> set (pt_clients task) then Inl TaskNotAssigned
                  else Inr \<lparr>pr_taskId = js_int taskId, pr_value = q\<rparr>)
        | _ \<Rightarrow> Inl ResultInvalid)"

fun check_results ::
  "ping_task list \<Rightarrow> string \<Rightarrow> (int \<times> ping_result) list \<Rightarrow> jsval list \<Rightarrow> result_error + (int \<times> ping_result) list" where
  "check_results tasks uuid deduped [] = Inr deduped"
| "check_results tasks uuid deduped (raw # raws) =
     (case check_result tasks uuid raw of
        Inl e \<Rightarrow> Inl e
      | Inr r \<Rightarrow> check_results tasks uuid (AList.update (pr_taskId r) r deduped) raws)"

definition validatePingResults :: "jsval \<Rightarrow> ping_task list \<Rightarrow> string \<Rightarrow> result_error + ping_result list" where
  "validatePingResults input tasks clientUuid =
     (let payload = pingResultPayload input;
          rawResults = (case payload of Arr xs \<Rightarrow> xs | _ \<Rightarrow> [payload])
      in if rawResults = [] then Inl ResultsEmpty
         else if length rawResults > MAX_PING_RESULTS_PER_REPORT then Inl ResultsTooMany
         else case check_results tasks clientUuid [] rawResults of
             Inl e \<Rightarrow> Inl e
           | Inr deduped \<Rightarrow> Inr (map snd deduped))"

subsection \<open>Numeric hosts\<close>

definition dotted :: "nat \<Rightarrow> nat \<Rightarrow> nat \<Rightarrow> nat \<Rightarrow> string" where
  "dotted a b c d = js_join ''.'' (map nat_to_str [a, b, c, d])"

text \<open>The ranges a probe must not reach: this network, private, loopback, carrier-grade NAT,
  link-local, multicast and above.\<close>

definition reserved_ipv4 :: "nat \<Rightarrow> nat \<Rightarrow> bool" where
  "reserved_ipv4 a b \<longleftrightarrow> a \<in> {0, 10, 127} \<or> (a = 100 \<and> b \<in> {64..127}) \<or> (a = 169 \<and> b = 254) \<or>
     (a = 172 \<and> b \<in> {16..31}) \<or> (a = 192 \<and> b = 168) \<or> 224 \<le> a"

lemma is_octet_text_canonical:
  assumes "is_octet_text p"
  shows "str_to_num p = Fin (of_nat (digits_val 10 p))" "nat_to_str (digits_val 10 p) = p" "p \<noteq> []" "list_all is_digit p"
proof -
  show p: "p \<noteq> []" "list_all is_digit p" using assms by (auto simp: is_octet_text_def is_digit_def cc_def)
  show "nat_to_str (digits_val 10 p) = p"
    using assms p by (intro nat_to_str_digits_val) (auto simp: is_octet_text_def)
  have "length p \<le> 3" using assms by (auto simp: is_octet_text_def)
  then have "digits_val 10 p < 1000" using p(2)
  proof -
    assume l: "length p \<le> 3"
    have "digits_val 10 q < 10 ^ length q" if "list_all is_digit q" for q
      using that by (induction q rule: rev_induct) (auto simp: digits_val_snoc digits_val_def is_digit_def)
    from this [OF p(2)] l show ?thesis by (rule_tac order.strict_trans2) (auto intro: power_increasing [of _ 3 10, simplified])
  qed
  then have "mk_num (of_nat (digits_val 10 p)) = Fin (of_nat (digits_val 10 p))" by (simp add: mk_num_def)
  then show "str_to_num p = Fin (of_nat (digits_val 10 p))" using str_to_num_digits [OF p(2,1)] by simp
qed

lemma is_octet_text_nat: "n \<le> 255 \<Longrightarrow> is_octet_text (nat_to_str n)"
  using nat_to_str_digits [of n] nat_to_str_length [of 3 n] nat_to_str_hd [of n] nat_to_str_zero
  by (auto simp: is_octet_text_def)

lemma parseIpv4_dotted:
  assumes "parseIpv4 h = Some octs"
  shows "\<exists>a b c d. octs = [a, b, c, d] \<and> h = dotted a b c d \<and> a \<le> 255 \<and> b \<le> 255 \<and> c \<le> 255 \<and> d \<le> 255"
proof -
  have p: "length (js_split CHR ''.'' h) = 4" "list_all is_octet_text (js_split CHR ''.'' h)"
    using assms by (auto simp: parseIpv4_def Let_def split: if_splits)
  then obtain w x y z where s: "js_split CHR ''.'' h = [w, x, y, z]"
    by (auto simp: numeral_eq_Suc length_Suc_conv)
  note canon = is_octet_text_canonical
  have oc: "is_octet_text w" "is_octet_text x" "is_octet_text y" "is_octet_text z" using p(2) s by auto
  have "h = js_join ''.'' [w, x, y, z]" using js_join_split [of "CHR ''.''" h] s by simp
  then have h: "h = dotted (digits_val 10 w) (digits_val 10 x) (digits_val 10 y) (digits_val 10 z)"
    using canon(2) oc by (simp add: dotted_def)
  have "octs = map (digits_val 10) [w, x, y, z]" "\<forall>v \<in> set [w, x, y, z]. digits_val 10 v \<le> 255"
    using assms canon(1) oc by (auto simp: parseIpv4_def Let_def s not_less split: if_splits)
  then show ?thesis using h by auto
qed

lemma dotted_chars: "x \<in> set (dotted a b c d) \<Longrightarrow> is_digit x \<or> x = CHR ''.''"
  using nat_to_str_digits by (auto simp: dotted_def list_all_iff)

lemma parseIpv4_of_dotted:
  assumes "a \<le> 255" "b \<le> 255" "c \<le> 255" "d \<le> 255"
  shows "parseIpv4 (dotted a b c d) = Some [a, b, c, d]"
proof -
  have nd: "CHR ''.'' \<notin> set (nat_to_str n)" for n
    using nat_to_str_digits [of n] by (auto simp: list_all_iff is_digit_def cc_def)
  have s: "js_split CHR ''.'' (dotted a b c d) = map nat_to_str [a, b, c, d]"
    unfolding dotted_def using nd by (intro split_join) auto
  have v: "str_to_num (nat_to_str n) = Fin (of_nat n)" if "n \<le> 255" for n
    using is_octet_text_canonical(1) [OF is_octet_text_nat [OF that]] by simp
  show ?thesis using assms by (simp add: parseIpv4_def s v is_octet_text_nat Let_def)
qed

subsection \<open>What a valid target is\<close>

definition normal_host :: "string \<Rightarrow> string" where
  "normal_host host = strip_brackets (js_toLowerCase (js_trim host))"

text \<open>A host is public when it is none of the names that mean the machine itself or the metadata
  service, and when, if it consists of one to four numbers in any notation, it is the canonical
  dotted quad of an address outside the reserved ranges.\<close>

definition public_host :: "string \<Rightarrow> bool" where
  "public_host h \<longleftrightarrow> h \<noteq> [] \<and> h \<noteq> ''localhost'' \<and> \<not> js_endsWith h ''.localhost'' \<and> h \<noteq> ''metadata.google.internal'' \<and>
     (CHR '':'' \<notin> set h \<and> length (js_split CHR ''.'' h) \<le> 4 \<and> list_all is_number_part (js_split CHR ''.'' h) \<longrightarrow>
       (\<exists>a b c d. a \<le> 255 \<and> b \<le> 255 \<and> c \<le> 255 \<and> d \<le> 255 \<and> h = dotted a b c d \<and> \<not> reserved_ipv4 a b))"

lemma isBlockedIpv4_reserved:
  "parseIpv4 h = Some [a, b, c, d] \<Longrightarrow> isBlockedIpv4 h \<longleftrightarrow> reserved_ipv4 a b"
  by (auto simp: isBlockedIpv4_def reserved_ipv4_def)

text \<open>
  The contract the address checks of ping tasks, website monitors and webhooks share: what they
  accept is no name of the machine itself, is not numeric in an unusual notation, and is no
  address they block. Then an accepted host of numbers is a canonical dotted quad.
\<close>

definition plain_host :: "(nat list \<Rightarrow> bool) \<Rightarrow> string \<Rightarrow> bool" where
  "plain_host blocked h \<longleftrightarrow> h \<noteq> [] \<and> h \<noteq> ''localhost'' \<and> \<not> js_endsWith h ''.localhost'' \<and>
     (CHR '':'' \<notin> set h \<and> length (js_split CHR ''.'' h) \<le> 4 \<and> list_all is_number_part (js_split CHR ''.'' h) \<longrightarrow>
       (\<exists>a b c d. a \<le> 255 \<and> b \<le> 255 \<and> c \<le> 255 \<and> d \<le> 255 \<and> h = dotted a b c d \<and> \<not> blocked [a, b, c, d]))"

locale host_guard =
  fixes accepts :: "string \<Rightarrow> bool" and blocked :: "nat list \<Rightarrow> bool"
  assumes accepts_name: "accepts h \<Longrightarrow> h \<noteq> [] \<and> h \<noteq> ''localhost'' \<and> \<not> js_endsWith h ''.localhost''"
    and accepts_clear: "accepts h \<Longrightarrow> \<not> isAmbiguousNumericHost h"
    and accepts_ipv4: "accepts h \<Longrightarrow> parseIpv4 h = Some octs \<Longrightarrow> \<not> blocked octs"
begin

lemma accepts_plain:
  assumes "accepts h"
  shows "plain_host blocked h"
proof -
  have "\<exists>a b c d. a \<le> 255 \<and> b \<le> 255 \<and> c \<le> 255 \<and> d \<le> 255 \<and> h = dotted a b c d \<and> \<not> blocked [a, b, c, d]"
    if num: "CHR '':'' \<notin> set h" "length (js_split CHR ''.'' h) \<le> 4" "list_all is_number_part (js_split CHR ''.'' h)"
  proof -
    obtain octs where o1: "parseIpv4 h = Some octs"
      using accepts_clear [OF assms] num by (auto simp: isAmbiguousNumericHost_def Let_def split: if_splits)
    with parseIpv4_dotted [OF this] accepts_ipv4 [OF assms] show ?thesis by blast
  qed
  then show ?thesis using accepts_name [OF assms] unfolding plain_host_def by blast
qed

end

lemma plain_host_public:
  assumes "plain_host blocked h" "h \<noteq> ''metadata.google.internal''" "\<And>a b c d. reserved_ipv4 a b \<Longrightarrow> blocked [a, b, c, d]"
  shows "public_host h"
  using assms unfolding plain_host_def public_host_def by blast

definition boundary_accepts :: "(string \<Rightarrow> url option) \<Rightarrow> string \<Rightarrow> bool" where
  "boundary_accepts url_parse h \<longleftrightarrow> (\<exists>host. h = normal_host host \<and> validateNetworkBoundary url_parse host = None)"

interpretation ping_guard: host_guard "boundary_accepts url_parse" "\<lambda>octs. reserved_ipv4 (octs ! 0) (octs ! 1)" for url_parse
proof
  fix h octs
  assume acc: "boundary_accepts url_parse h"
  then have f: "h \<noteq> []" "h \<noteq> ''localhost''" "\<not> js_endsWith h ''.localhost''" "\<not> isAmbiguousNumericHost h" "\<not> isBlockedIpv4 h"
    by (auto simp: boundary_accepts_def validateNetworkBoundary_def normal_host_def Let_def split: if_splits)
  then show "h \<noteq> [] \<and> h \<noteq> ''localhost'' \<and> \<not> js_endsWith h ''.localhost''" "\<not> isAmbiguousNumericHost h" by blast+
  assume p: "parseIpv4 h = Some octs"
  from parseIpv4_dotted [OF p] obtain a b c d where "octs = [a, b, c, d]" by blast
  then show "\<not> reserved_ipv4 (octs ! 0) (octs ! 1)" using isBlockedIpv4_reserved [of h a b c d] p f(5) by simp
qed

lemma boundary_public:
  assumes "validateNetworkBoundary url_parse host = None"
  shows "public_host (normal_host host)"
proof (rule plain_host_public)
  show "plain_host (\<lambda>octs. reserved_ipv4 (octs ! 0) (octs ! 1)) (normal_host host)"
    using assms by (intro ping_guard.accepts_plain [of url_parse]) (auto simp: boundary_accepts_def)
  show "normal_host host \<noteq> ''metadata.google.internal''"
    using assms by (auto simp: validateNetworkBoundary_def normal_host_def Let_def split: if_splits)
qed simp

lemma collect_strings_ok:
  assumes "distinct acc" "\<forall>t \<in> set acc. t \<noteq> [] \<and> js_trim t = t" "length acc < limit"
  shows "distinct (collect_strings limit acc items) \<and> length (collect_strings limit acc items) \<le> limit \<and>
    (\<forall>t \<in> set (collect_strings limit acc items). t \<noteq> [] \<and> js_trim t = t)"
  using assms
proof (induction items arbitrary: acc)
  case (Cons item items)
  show ?case
  proof (cases "\<exists>s. item = Str s \<and> js_trim s \<noteq> [] \<and> js_trim s \<notin> set acc")
    case True
    then obtain s where s: "item = Str s" "js_trim s \<noteq> []" "js_trim s \<notin> set acc" by blast
    have acc: "distinct (acc @ [js_trim s])" "\<forall>t \<in> set (acc @ [js_trim s]). t \<noteq> [] \<and> js_trim t = t"
      using Cons.prems s by simp_all
    have c: "collect_strings limit acc (item # items) = (if limit \<le> length (acc @ [js_trim s]) then acc @ [js_trim s]
        else collect_strings limit (acc @ [js_trim s]) items)" using s by (simp add: Let_def)
    show ?thesis
    proof (cases "limit \<le> length (acc @ [js_trim s])")
      case True
      have "length (acc @ [js_trim s]) \<le> limit" using Cons.prems(3) by simp
      then show ?thesis unfolding c if_P [OF True] using acc by blast
    next
      case False
      then have "length (acc @ [js_trim s]) < limit" by simp
      then show ?thesis unfolding c if_not_P [OF False] by (rule Cons.IH [OF acc])
    qed
  next
    case False
    then have "collect_strings limit acc (item # items) = collect_strings limit acc items"
      by (cases item) (auto simp: Let_def)
    then show ?thesis using Cons.IH [OF Cons.prems] by metis
  qed
qed auto

lemma readStringArray_ok:
  "distinct (readStringArray v) \<and> length (readStringArray v) \<le> 500 \<and> (\<forall>t \<in> set (readStringArray v). t \<noteq> [] \<and> js_trim t = t)"
  using collect_strings_ok [of "[]" MAX_PING_TASK_CLIENTS]
  by (auto simp: readStringArray_def MAX_PING_TASK_CLIENTS_def Let_def split: jsval.splits)

text \<open>The host a task will contact.\<close>

definition task_host_ok :: "(string \<Rightarrow> url option) \<Rightarrow> ping_type \<Rightarrow> string \<Rightarrow> bool" where
  "task_host_ok url_parse ty target = (case ty of
       Icmp \<Rightarrow> public_host (normal_host target)
     | Tcp \<Rightarrow> (\<exists>u. url_parse (''tcp://'' @ target) = Some u \<and> public_host (normal_host (hostname u)) \<and>
                (\<exists>p :: int. str_to_num (port u) = FinI p \<and> 1 \<le> p \<and> p \<le> 65535))
     | Http \<Rightarrow> (\<exists>u. url_parse target = Some u \<and> protocol u \<in> {''http:'', ''https:''} \<and>
                url_username u = [] \<and> url_password u = [] \<and> public_host (normal_host (hostname u))))"

lemma validateTarget_ok:
  assumes "validateTarget url_parse ty target = None"
  shows "target \<noteq> [] \<and> length target \<le> 512 \<and> task_host_ok url_parse ty target"
proof (cases ty)
  case Icmp
  then show ?thesis using assms boundary_public
    by (auto simp: validateTarget_def validateIcmpTarget_def task_host_ok_def MAX_PING_TARGET_LENGTH_def split: if_splits)
next
  case Http
  then show ?thesis using assms boundary_public
    by (auto simp: validateTarget_def validateHttpTarget_def task_host_ok_def MAX_PING_TARGET_LENGTH_def
        split: if_splits option.splits)
next
  case Tcp
  then obtain u where u: "url_parse (''tcp://'' @ target) = Some u" "js_isInteger (str_to_num (port u))"
      "\<not> js_lt (str_to_num (port u)) (Fin 1)" "\<not> js_lt (Fin 65535) (str_to_num (port u))"
      "validateNetworkBoundary url_parse (hostname u) = None" "target \<noteq> []" "length target \<le> 512"
    using assms by (auto simp: validateTarget_def validateTcpTarget_def MAX_PING_TARGET_LENGTH_def Let_def
        split: if_splits option.splits)
  obtain p where p: "str_to_num (port u) = FinI p" using js_isIntegerE [OF u(2)] by blast
  have "(1 :: rat) \<le> of_int p" "of_int p \<le> (65535 :: rat)" using u(3,4) p by auto
  then have "1 \<le> p" "p \<le> 65535" by simp_all
  then show ?thesis using Tcp u p boundary_public [OF u(5)] by (auto simp: task_host_ok_def)
qed


lemma js_trim_simple: "list_all (\<lambda>c. 33 \<le> cc c \<and> cc c \<le> 126) s \<Longrightarrow> js_trim s = s"
  by (intro js_trim_id) (auto simp: list_all_iff is_ws_def)

definition sample_task_input :: jsval where
  "sample_task_input = Obj [(''name'', Str ''n''), (''target'', Str ''example.org''), (''all_clients'', Bool True)]"

definition no_url :: "string \<Rightarrow> url option" where "no_url s = None"

lemma boundary_example: "validateNetworkBoundary url_parse ''example.org'' = None"
proof -
  have t: "js_trim ''example.org'' = ''example.org''" by (rule js_trim_simple) (simp add: cc_def)
  have l: "js_toLowerCase ''example.org'' = ''example.org''" by (simp add: js_toLowerCase_def lower_char_def is_AZ_def cc_def)
  show ?thesis
    by (simp add: validateNetworkBoundary_def t l strip_brackets_def js_endsWith_def isAmbiguousNumericHost_def
        is_number_part_def is_hex_prefixed_def js_startsWith_def is_digit_def cc_def isBlockedIpv4_def parseIpv4_def
        isBlockedIpv6_def Let_def)
qed

lemma sample_task_ok: "\<exists>task. validatePingTaskInput no_url sample_task_input None = Inr task"
proof -
  have t: "js_trim ''example.org'' = ''example.org''" "js_trim ''n'' = ''n''" "js_trim ''icmp'' = ''icmp''"
    by (rule js_trim_simple, simp add: cc_def)+
  have l: "js_toLowerCase ''icmp'' = ''icmp''" by (simp add: js_toLowerCase_def lower_char_def is_AZ_def cc_def)
  have v: "validateTarget no_url Icmp ''example.org'' = None"
    by (simp add: validateTarget_def MAX_PING_TARGET_LENGTH_def validateIcmpTarget_def is_ws_def cc_def
        is_bracketed_port_def boundary_example)
  show ?thesis
    by (simp add: validatePingTaskInput_def sample_task_input_def js_get_def js_nullish_def t l isPingTaskType_def v
        MAX_PING_TASK_NAME_LENGTH_def MIN_PING_INTERVAL_SEC_def MAX_PING_INTERVAL_SEC_def Let_def)
qed


subsection \<open>A trailing dot\<close>

text \<open>
  A trailing dot passes the guard: \<open>localhost.\<close>, the loopback address with a dot appended and
  the metadata name with a dot appended are all accepted as ICMP targets, although the names and
  the address without the dot are refused.
\<close>

theorem ping_trailing_dot:
  "validateTarget url_parse Icmp ''localhost'' \<noteq> None \<and> validateTarget url_parse Icmp ''localhost.'' = None \<and>
   validateTarget url_parse Icmp ''127.0.0.1'' \<noteq> None \<and> validateTarget url_parse Icmp ''127.0.0.1.'' = None \<and>
   validateTarget url_parse Icmp ''metadata.google.internal'' \<noteq> None \<and>
   validateTarget url_parse Icmp ''metadata.google.internal.'' = None"
proof -
  have n: "js_toLowerCase (js_trim s) = s" if "list_all (\<lambda>c. 33 \<le> cc c \<and> cc c \<le> 126 \<and> \<not> is_AZ c) s" for s
  proof -
    have "js_trim s = s" using that by (intro js_trim_simple) (auto simp: list_all_iff)
    moreover have "map lower_char s = s" using that by (intro map_idI) (auto simp: list_all_iff lower_char_def)
    ultimately show ?thesis by (simp add: js_toLowerCase_def)
  qed
  have nb: "js_toLowerCase (js_trim ''localhost'') = ''localhost''" "js_toLowerCase (js_trim ''localhost.'') = ''localhost.''"
    "js_toLowerCase (js_trim ''127.0.0.1'') = ''127.0.0.1''" "js_toLowerCase (js_trim ''127.0.0.1.'') = ''127.0.0.1.''"
    "js_toLowerCase (js_trim ''metadata.google.internal'') = ''metadata.google.internal''"
    "js_toLowerCase (js_trim ''metadata.google.internal.'') = ''metadata.google.internal.''"
    by (rule n, simp add: cc_def is_AZ_def)+
  have i4: "isBlockedIpv4 ''127.0.0.1''"
  proof -
    have "dotted 127 0 0 1 = ''127.0.0.1''" by (simp add: dotted_def nat_to_str.simps)
    then show ?thesis using parseIpv4_of_dotted [of 127 0 0 1] by (simp add: isBlockedIpv4_def)
  qed
  have b: "validateNetworkBoundary url_parse ''localhost'' \<noteq> None" "validateNetworkBoundary url_parse ''localhost.'' = None"
    "validateNetworkBoundary url_parse ''127.0.0.1'' \<noteq> None" "validateNetworkBoundary url_parse ''127.0.0.1.'' = None"
    "validateNetworkBoundary url_parse ''metadata.google.internal'' \<noteq> None"
    "validateNetworkBoundary url_parse ''metadata.google.internal.'' = None"
    by (simp_all add: validateNetworkBoundary_def nb Let_def strip_brackets_def i4)
      (simp_all add: js_endsWith_def isAmbiguousNumericHost_def is_number_part_def is_hex_prefixed_def js_startsWith_def
        is_digit_def cc_def isBlockedIpv4_def parseIpv4_def isBlockedIpv6_def js_toLowerCase_def lower_char_def is_AZ_def
        strip_brackets_def is_octet_text_def)
  have v: "validateTarget url_parse Icmp s = validateNetworkBoundary url_parse s"
    if "s \<noteq> []" "length s \<le> 512" "\<not> list_ex is_ws s" "CHR '':'' \<notin> set s" "hd s \<noteq> CHR ''[''" for s
  proof -
    have "\<not> js_includes s ''://''" using that(4) by (induction s) auto
    moreover have "filter (\<lambda>c. c = CHR '':'') s = []" using that(4) by (auto simp: filter_empty_conv)
    moreover have "\<not> is_bracketed_port s" using that(1,5) by (cases s) (auto simp: is_bracketed_port_def)
    ultimately show ?thesis using that by (simp add: validateTarget_def validateIcmpTarget_def MAX_PING_TARGET_LENGTH_def)
  qed
  show ?thesis using b by (simp add: v is_ws_def cc_def)
qed

subsection \<open>Results\<close>

lemma task_map_in: "task_map tasks i = Some t \<Longrightarrow> t \<in> set tasks \<and> pt_id t = Some i"
proof -
  have "find P xs = Some x \<Longrightarrow> x \<in> set xs \<and> P x" for P and xs :: "ping_task list" and x
    by (induction xs) (auto split: if_splits)
  then show "task_map tasks i = Some t \<Longrightarrow> t \<in> set tasks \<and> pt_id t = Some i" unfolding task_map_def by force
qed

definition result_ok :: "ping_task list \<Rightarrow> string \<Rightarrow> ping_result \<Rightarrow> bool" where
  "result_ok tasks uuid r \<longleftrightarrow> 0 < pr_taskId r \<and> (pr_value r = - 1 \<or> 0 \<le> pr_value r \<and> pr_value r \<le> 60000) \<and>
     (\<exists>t \<in> set tasks. pt_id t = Some (pr_taskId r) \<and> (pt_all_clients t \<or> uuid \<in> set (pt_clients t)))"

lemma check_result_ok:
  assumes "check_result tasks uuid raw = Inr r"
  shows "result_ok tasks uuid r"
proof -
  obtain q where q: "js_Number (js_get (asObject raw) ''value'') = Fin q"
    using assms by (auto simp: Let_def split: jsnum.splits)
  let ?t = "js_Number (js_get (asObject raw) ''task_id'')"
  have t: "js_isInteger ?t" "\<not> js_le ?t (Fin 0)" "q = - 1 \<or> 0 \<le> q \<and> q \<le> 60000"
    and r: "r = \<lparr>pr_taskId = js_int ?t, pr_value = q\<rparr>"
    and task: "\<exists>t. task_map tasks (js_int ?t) = Some t \<and> (pt_all_clients t \<or> uuid \<in> set (pt_clients t))"
    using assms q by (auto simp: Let_def PING_LOSS_VALUE_def MAX_PING_VALUE_MS_def split: if_splits option.splits)
  obtain i where "?t = FinI i" using js_isIntegerE [OF t(1)] by blast
  then have "0 < js_int ?t" using t(2) by simp
  then show ?thesis using t(3) task task_map_in unfolding result_ok_def r by auto
qed

lemma update_values: "set (map snd (AList.update k v kvs)) \<subseteq> insert v (set (map snd kvs))"
  by (induction kvs) auto

lemma check_results_ok:
  assumes "check_results tasks uuid acc raws = Inr res" "distinct (map fst acc)"
    "\<forall>(k, r) \<in> set acc. k = pr_taskId r \<and> result_ok tasks uuid r"
  shows "distinct (map fst res) \<and> (\<forall>(k, r) \<in> set res. k = pr_taskId r \<and> result_ok tasks uuid r) \<and>
    length res \<le> length acc + length raws"
  using assms
proof (induction raws arbitrary: acc)
  case (Cons raw raws)
  then obtain r where r: "check_result tasks uuid raw = Inr r"
      "check_results tasks uuid (AList.update (pr_taskId r) r acc) raws = Inr res" by (auto split: sum.splits)
  have l: "length (AList.update (pr_taskId r) r acc) \<le> Suc (length acc)" by (induction acc) auto
  have "(k, x) \<in> set (AList.update (pr_taskId r) r acc) \<Longrightarrow> (k, x) = (pr_taskId r, r) \<or> (k, x) \<in> set acc" for k x
    by (induction acc) (auto split: if_splits)
  then have "\<forall>(k, x) \<in> set (AList.update (pr_taskId r) r acc). k = pr_taskId x \<and> result_ok tasks uuid x"
    using Cons.prems(3) check_result_ok [OF r(1)] by fastforce
  from Cons.IH [OF r(2) distinct_update [OF Cons.prems(2)] this] l show ?case by simp
qed auto

text \<open>
  Every accepted report is clean: it holds at most 50 results, one per task, each for a task
  that exists and is assigned to the reporting client, with a value that is the loss marker or
  lies between 0 and 60000 ms.
\<close>

theorem ping_results_valid:
  assumes "validatePingResults input tasks uuid = Inr rs"
  shows "length rs \<le> 50 \<and> distinct (map pr_taskId rs) \<and> (\<forall>r \<in> set rs. result_ok tasks uuid r)"
proof -
  obtain raws res where c: "check_results tasks uuid [] raws = Inr res" "rs = map snd res" "length raws \<le> 50"
    using assms by (auto simp: validatePingResults_def Let_def MAX_PING_RESULTS_PER_REPORT_def split: if_splits sum.splits)
  have ok: "distinct (map fst res)" "\<forall>(k, r) \<in> set res. k = pr_taskId r \<and> result_ok tasks uuid r" "length res \<le> length raws"
    using check_results_ok [OF c(1)] by auto
  have "map pr_taskId rs = map fst res" unfolding c(2) map_map by (rule map_cong) (use ok(2) in auto)
  then have "distinct (map pr_taskId rs)" using ok(1) by simp
  moreover have "length rs \<le> 50" "\<forall>r \<in> set rs. result_ok tasks uuid r" using ok(2,3) c by auto
  ultimately show ?thesis by blast
qed

theorem ping_results_valid_witness:
  "\<exists>rs. validatePingResults (Obj [(''task_id'', Num (Fin 7)), (''value'', Num (Fin 12))])
     [\<lparr>pt_id = Some 7, pt_name = ''t'', pt_clients = [''c''], pt_all_clients = False, pt_type = Icmp, pt_target = ''x'', pt_interval_sec = 60\<rparr>] ''c''
     = Inr rs \<and> length rs \<le> 50"
proof -
  let ?tasks = "[\<lparr>pt_id = Some 7, pt_name = ''t'', pt_clients = [''c''], pt_all_clients = False, pt_type = Icmp, pt_target = ''x'', pt_interval_sec = 60\<rparr>]"
  have "\<exists>rs. validatePingResults (Obj [(''task_id'', Num (Fin 7)), (''value'', Num (Fin 12))]) ?tasks ''c'' = Inr rs"
    by (simp add: validatePingResults_def pingResultPayload_def js_get_def MAX_PING_RESULTS_PER_REPORT_def task_map_def
        PING_LOSS_VALUE_def MAX_PING_VALUE_MS_def Let_def)
  then show ?thesis using ping_results_valid by blast
qed

end
