(* ===== verification/ScheduledBudget.thy ===== *)
theory ScheduledBudget
  imports JsJson
begin

section \<open>The budget and the cursors of scheduled work\<close>

text \<open>
  \<open>utils/scheduled-budget.ts\<close> and the cursor functions of \<open>createScheduledRunContext\<close> in
  \<open>index.ts\<close>. A scheduled run may make a limited number of subrequests within a limited time; its
  loops remember, per loop, the identity of the item to start with next. The clock and what a
  consumer does with an item are arguments. Abort signals and timers are not modelled.
\<close>

subsection \<open>The budget\<close>

record budget =
  used :: int
  completing :: bool
  deadline :: int
  maximum :: int
  reserveRequests :: int
  reserveMs :: int

definition opt :: "'a option \<Rightarrow> 'a \<Rightarrow> 'a" where
  "opt x d = (case x of None \<Rightarrow> d | Some v \<Rightarrow> v)"

definition new_budget ::
  "int \<Rightarrow> int option \<Rightarrow> int option \<Rightarrow> int option \<Rightarrow> int option \<Rightarrow> budget" where
  "new_budget now maxSubrequests maxDurationMs rRequests rMs =
     \<lparr>used = 0, completing = False, deadline = now + opt maxDurationMs 60000,
      maximum = opt maxSubrequests 44, reserveRequests = opt rRequests 4, reserveMs = opt rMs 5000\<rparr>"

definition remainingMs :: "int \<Rightarrow> budget \<Rightarrow> int" where
  "remainingMs now b = max 0 (deadline b - (if completing b then 0 else reserveMs b) - now)"

definition canStart :: "int \<Rightarrow> int \<Rightarrow> budget \<Rightarrow> bool" where
  "canStart now requests b \<longleftrightarrow>
     0 < remainingMs now b \<and> used b + requests \<le> maximum b - (if completing b then 0 else reserveRequests b)"

text \<open>\<open>consume\<close>: \<open>None\<close> where it throws \<open>ScheduledBudgetExceeded\<close>.\<close>

definition consume :: "int \<Rightarrow> int \<Rightarrow> budget \<Rightarrow> budget option" where
  "consume now requests b =
     (if remainingMs now b \<le> 0 \<or> maximum b < used b + requests then None
      else Some (b\<lparr>used := used b + requests\<rparr>))"

text \<open>\<open>complete\<close>: the work runs with the reserve released; the flag is reset whatever it does.\<close>

definition complete :: "(budget \<Rightarrow> budget \<times> 'r) \<Rightarrow> budget \<Rightarrow> budget \<times> 'r" where
  "complete work b = (case work (b\<lparr>completing := True\<rparr>) of (b', r) \<Rightarrow> (b'\<lparr>completing := False\<rparr>, r))"

text \<open>
  \<open>scheduledFetch\<close> in a context with or without a budget: the request is charged before it is
  made, never follows redirects under a budget, and a failure after the time is up counts as the
  budget's end. \<open>fetcher redirect\<close> gives the response or an error and the time afterwards.
\<close>

datatype redirect_mode = Follow | Manual

datatype ('e, 'r) fetch_result = Response 'r | FetchFailed 'e | BudgetExceeded

definition scheduledFetch ::
  "int \<Rightarrow> redirect_mode \<Rightarrow> (redirect_mode \<Rightarrow> int \<times> ('e + 'r)) \<Rightarrow> budget option \<Rightarrow> budget option \<times> ('e, 'r) fetch_result" where
  "scheduledFetch now redirect fetcher ob = (case ob of
       None \<Rightarrow> (None, case fetcher redirect of (_, Inr r) \<Rightarrow> Response r | (_, Inl e) \<Rightarrow> FetchFailed e)
     | Some b \<Rightarrow> (case consume now 1 b of
         None \<Rightarrow> (Some b, BudgetExceeded)
       | Some b' \<Rightarrow> (Some b', case fetcher Manual of
             (t, Inr r) \<Rightarrow> Response r
           | (t, Inl e) \<Rightarrow> if remainingMs t b' \<le> 0 then BudgetExceeded else FetchFailed e)))"

definition rotateScheduledItems :: "'a list \<Rightarrow> rat \<Rightarrow> 'a list" where
  "rotateScheduledItems items seed =
     (if items = [] then []
      else let start = nat \<bar>\<lfloor>seed\<rfloor>\<bar> mod length items in drop start items @ take start items)"

subsection \<open>Cursors\<close>

type_synonym cursors = "(string \<times> string) list"

record cursor_ctx =
  cx_cursors :: "cursors option"
  cx_changed :: bool

text \<open>\<open>loadCursors\<close>: entries of the stored object whose value is a string; anything else is dropped.\<close>

definition cursors_of_text :: "string \<Rightarrow> cursors" where
  "cursors_of_text tx = (case JSON_parse (if tx = [] then ''{}'' else tx) of
       Some (Obj kvs) \<Rightarrow> List.map_filter (\<lambda>(k, v). case v of Str s \<Rightarrow> Some (k, s) | _ \<Rightarrow> None) kvs
     | _ \<Rightarrow> [])"

definition loadCursors :: "string \<Rightarrow> cursor_ctx \<Rightarrow> cursor_ctx" where
  "loadCursors stored c = (case cx_cursors c of
       Some _ \<Rightarrow> c
     | None \<Rightarrow> c\<lparr>cx_cursors := Some (cursors_of_text stored)\<rparr>)"

definition find_index :: "('a \<Rightarrow> bool) \<Rightarrow> 'a list \<Rightarrow> int" where
  "find_index P xs = (if list_ex P xs then int (length (takeWhile (\<lambda>x. \<not> P x) xs)) else - 1)"

definition orderScheduledItems :: "cursors \<Rightarrow> string \<Rightarrow> ('a \<Rightarrow> string) \<Rightarrow> 'a list \<Rightarrow> 'a list" where
  "orderScheduledItems state key identify items =
     (let start = nat (max 0 (find_index (\<lambda>item. map_of state key = Some (identify item)) items))
      in drop start items @ take start items)"

definition advanceScheduledCursor :: "string \<Rightarrow> string \<Rightarrow> cursor_ctx \<Rightarrow> cursor_ctx" where
  "advanceScheduledCursor key nextIdentity c = (case cx_cursors c of
       None \<Rightarrow> c
     | Some cs \<Rightarrow> c\<lparr>cx_cursors := Some (AList.update key nextIdentity cs), cx_changed := True\<rparr>)"

text \<open>\<open>flushScheduledCursors\<close>: the text that is stored, if any.\<close>

definition cursors_text :: "cursors \<Rightarrow> string" where
  "cursors_text cs = the (JSON_stringify (Obj (map (\<lambda>(k, v). (k, Str v)) cs)))"

definition flushScheduledCursors :: "cursor_ctx \<Rightarrow> string option" where
  "flushScheduledCursors c =
     (case cx_cursors c of Some cs \<Rightarrow> if cx_changed c then Some (cursors_text cs) else None | None \<Rightarrow> None)"

text \<open>
  \<open>scheduledItems\<close> with its consumer. The world is the budget (if any) and the clock; \<open>work item w\<close>
  is what the consumer's body does with one item, and whether it completed rather than threw. The
  result is the world, the cursors and the items that were completed.
\<close>

type_synonym sched_world = "budget option \<times> int"

definition may_start :: "int \<Rightarrow> sched_world \<Rightarrow> bool" where
  "may_start required w = (case w of (None, _) \<Rightarrow> True | (Some b, now) \<Rightarrow> canStart now required b)"

fun scheduled_loop ::
  "('a \<Rightarrow> string) \<Rightarrow> string \<Rightarrow> int \<Rightarrow> ('a \<Rightarrow> sched_world \<Rightarrow> sched_world \<times> bool) \<Rightarrow> 'a list \<Rightarrow> nat \<Rightarrow> 'a list
   \<Rightarrow> sched_world \<Rightarrow> cursor_ctx \<Rightarrow> 'a list \<Rightarrow> sched_world \<times> cursor_ctx \<times> 'a list" where
  "scheduled_loop identify key required work ordered index [] w c completed = (w, c, completed)"
| "scheduled_loop identify key required work ordered index (item # items) w c completed =
     (if \<not> may_start required w then (w, c, completed)
      else case work item w of
          (w', False) \<Rightarrow> (w', c, completed)
        | (w', True) \<Rightarrow>
            scheduled_loop identify key required work ordered (Suc index) items w'
              (advanceScheduledCursor key (identify (ordered ! (Suc index mod length ordered))) c)
              (completed @ [item]))"

definition scheduledItems ::
  "('a \<Rightarrow> string) \<Rightarrow> string \<Rightarrow> int \<Rightarrow> ('a \<Rightarrow> sched_world \<Rightarrow> sched_world \<times> bool) \<Rightarrow> 'a list \<Rightarrow> string
   \<Rightarrow> sched_world \<Rightarrow> cursor_ctx \<Rightarrow> sched_world \<times> cursor_ctx \<times> 'a list" where
  "scheduledItems identify key required work items stored w c0 =
     (let c = loadCursors stored c0;
          ordered = orderScheduledItems (the (cx_cursors c)) key identify items
      in scheduled_loop identify key required work ordered 0 ordered w c [])"

subsection \<open>What a run leaves\<close>

definition budget_ok :: "budget \<Rightarrow> bool" where
  "budget_ok b \<longleftrightarrow> 0 \<le> used b \<and> used b \<le> maximum b \<and> 0 \<le> reserveRequests b \<and> 0 \<le> reserveMs b"

lemma consume_ok: "budget_ok b \<Longrightarrow> 0 \<le> n \<Longrightarrow> consume now n b = Some b' \<Longrightarrow> budget_ok b' \<and> used b' = used b + n"
  by (auto simp: consume_def budget_ok_def split: if_splits)



subsection \<open>Round robin\<close>

definition start_of :: "cursors \<Rightarrow> string \<Rightarrow> ('a \<Rightarrow> string) \<Rightarrow> 'a list \<Rightarrow> nat" where
  "start_of state key identify items =
     nat (max 0 (find_index (\<lambda>item. map_of state key = Some (identify item)) items))"

lemma orderScheduledItems_rotate:
  "orderScheduledItems state key identify items =
     drop (start_of state key identify items) items @ take (start_of state key identify items) items"
  by (simp add: orderScheduledItems_def start_of_def Let_def)

lemma find_index_bound: "items \<noteq> [] \<Longrightarrow> nat (max 0 (find_index P items)) < length items"
proof (cases "list_ex P items")
  case True
  then have "takeWhile (\<lambda>x. \<not> P x) items \<noteq> items" by (auto simp: takeWhile_eq_all_conv list_ex_iff)
  then have "length (takeWhile (\<lambda>x. \<not> P x) items) < length items"
    by (metis length_takeWhile_le nat_less_le takeWhile_eq_take take_all_iff)
  then show ?thesis using True by (simp add: find_index_def)
qed (simp add: find_index_def)

lemma find_index_at:
  assumes "distinct (map f items)" "i < length items"
  shows "find_index (\<lambda>x. Some (f (items ! i)) = Some (f x)) items = int i"
proof -
  have "takeWhile (\<lambda>x. \<not> Some (f (items ! i)) = Some (f x)) items = take i items"
  proof (rule takeWhile_eq_take_P_nth)
    show "\<not> \<not> Some (f (items ! i)) = Some (f (items ! i))" by simp
    fix j assume "j < i" "j < length items"
    then show "\<not> Some (f (items ! i)) = Some (f (items ! j))"
      using assms by (auto simp: distinct_conv_nth)
  qed
  moreover have "list_ex (\<lambda>x. Some (f (items ! i)) = Some (f x)) items" using assms(2) by (auto simp: list_ex_iff)
  ultimately show ?thesis using assms(2) by (simp add: find_index_def)
qed

lemma start_of_update:
  assumes "distinct (map identify items)" "i < length items"
  shows "start_of (AList.update key (identify (items ! i)) cs) key identify items = i"
  using find_index_at [OF assms] by (simp add: start_of_def update_conv)

lemma rotate_nth:
  assumes "s < length xs" "j < length xs"
  shows "(drop s xs @ take s xs) ! j = xs ! ((s + j) mod length xs)"
proof (cases "s + j < length xs")
  case False
  then have "(s + j) mod length xs = s + j - length xs" using assms by (simp add: mod_if)
  moreover have "\<not> j < length xs - s" using False assms by linarith
  ultimately show ?thesis using assms by (simp add: nth_append add.commute)
next
  case True
  then have "j < length xs - s" by linarith
  then show ?thesis using True assms by (simp add: nth_append)
qed

lemma scheduled_loop_prefix:
  assumes "scheduled_loop identify key req work ordered i items w c acc = (w', c', acc')"
    "items = drop i ordered" "cx_cursors c = Some cs" "ordered \<noteq> []"
  shows "\<exists>k \<le> length items. acc' = acc @ take k items \<and>
    (if k = 0 then c' = c
     else \<exists>cs'. c' = c\<lparr>cx_cursors := Some (AList.update key (identify (ordered ! ((i + k) mod length ordered))) cs'), cx_changed := True\<rparr> \<and>
       (\<exists>vs. cs' = foldl (\<lambda>m v. AList.update key v m) cs vs))"
  using assms
proof (induction items arbitrary: i w c cs acc)
  case (Cons item items)
  consider "\<not> may_start req w \<or> \<not> snd (work item w)" | w1 where "may_start req w" "work item w = (w1, True)"
    by (cases "work item w") auto
  then show ?case
  proof cases
    case 1
    then have "acc' = acc" "c' = c" using Cons.prems(1) by (cases "work item w"; auto split: if_splits bool.splits)+
    then show ?thesis by (intro exI [of _ 0]) simp
  next
    case 2
    let ?v = "identify (ordered ! (Suc i mod length ordered))"
    let ?c = "c\<lparr>cx_cursors := Some (AList.update key ?v cs), cx_changed := True\<rparr>"
    have lp: "scheduled_loop identify key req work ordered (Suc i) items w1 ?c (acc @ [item]) = (w', c', acc')"
      using Cons.prems(1,3) 2 by (simp add: advanceScheduledCursor_def)
    have "items = drop (Suc i) ordered" using Cons.prems(2) by (metis drop_Suc list.sel(3) tl_drop)
    from Cons.IH [OF lp this _ Cons.prems(4), of "AList.update key ?v cs"]
    obtain k where k: "k \<le> length items" "acc' = (acc @ [item]) @ take k items"
      "if k = 0 then c' = ?c
       else \<exists>cs'. c' = ?c\<lparr>cx_cursors := Some (AList.update key (identify (ordered ! ((Suc i + k) mod length ordered))) cs'), cx_changed := True\<rparr> \<and>
         (\<exists>vs. cs' = foldl (\<lambda>m v. AList.update key v m) (AList.update key ?v cs) vs)" by auto
    have "\<exists>cs'. c' = c\<lparr>cx_cursors := Some (AList.update key (identify (ordered ! ((i + Suc k) mod length ordered))) cs'), cx_changed := True\<rparr> \<and>
       (\<exists>vs. cs' = foldl (\<lambda>m v. AList.update key v m) cs vs)"
    proof (cases "k = 0")
      case True
      then show ?thesis using k(3) by (intro exI [of _ cs] conjI exI [of _ "[]"]) simp_all
    next
      case False
      then obtain cs' vs where "c' = ?c\<lparr>cx_cursors := Some (AList.update key (identify (ordered ! ((Suc i + k) mod length ordered))) cs'), cx_changed := True\<rparr>"
        "cs' = foldl (\<lambda>m v. AList.update key v m) (AList.update key ?v cs) vs" using k(3) by auto
      then show ?thesis by (intro exI [of _ cs'] conjI exI [of _ "?v # vs"]) simp_all
    qed
    then show ?thesis using k(1,2) by (intro exI [of _ "Suc k"]) simp
  qed
qed simp

lemma cursors_roundtrip:
  assumes "distinct (map fst cs)"
  shows "cursors_of_text (cursors_text cs) = cs"
proof -
  let ?o = "Obj (map (\<lambda>(k, v). (k, Str v)) cs)"
  have "json_clean ?o" using assms by (auto simp: list_all_iff comp_def case_prod_beta)
  from json.dec_enc [OF this] have "JSON_parse (cursors_text cs) = Some ?o" by (simp only: cursors_text_def)
  moreover have "cursors_text cs \<noteq> []" by (simp add: cursors_text_def)
  moreover have "List.map_filter (\<lambda>(k, v). case v of Str s \<Rightarrow> Some (k, s) | _ \<Rightarrow> None) (map (\<lambda>(k, v). (k, Str v)) cs) = cs"
    by (induction cs) (auto simp: map_filter_simps)
  ultimately show ?thesis by (simp add: cursors_of_text_def)
qed

lemma distinct_foldl_update: "distinct (map fst cs) \<Longrightarrow> distinct (map fst (foldl (\<lambda>m v. AList.update key v m) cs vs))"
  by (induction vs arbitrary: cs) (simp_all add: distinct_update)

text \<open>A run: a fresh context, the loop, and the cursors written back.\<close>

definition sched_run ::
  "('a \<Rightarrow> string) \<Rightarrow> string \<Rightarrow> int \<Rightarrow> 'a list \<Rightarrow> ('a \<Rightarrow> sched_world \<Rightarrow> sched_world \<times> bool) \<times> sched_world \<Rightarrow> string \<Rightarrow> string \<times> 'a list" where
  "sched_run identify key req items wk stored =
     (case scheduledItems identify key req (fst wk) items stored (snd wk) \<lparr>cx_cursors = None, cx_changed = False\<rparr> of
        (_, c, completed) \<Rightarrow> (opt (flushScheduledCursors c) stored, completed))"

fun sched_runs where
  "sched_runs identify key req items [] stored = []"
| "sched_runs identify key req items (wk # wks) stored =
     (case sched_run identify key req items wk stored of
        (stored', completed) \<Rightarrow> completed @ sched_runs identify key req items wks stored')"

lemma sched_run_step:
  assumes "items \<noteq> []" "distinct (map identify items)" "distinct (map fst cs)" "s = start_of cs key identify items"
  shows "\<exists>k cs'. sched_run identify key req items wk (cursors_text cs) =
      (cursors_text cs', map (\<lambda>j. items ! ((s + j) mod length items)) [0..<k]) \<and>
    distinct (map fst cs') \<and> start_of cs' key identify items = (s + k) mod length items"
proof -
  let ?o = "drop s items @ take s items" and ?c = "\<lparr>cx_cursors = Some cs, cx_changed = False\<rparr>"
  have s: "s < length items" using find_index_bound [OF assms(1)] assms(4) by (simp add: start_of_def)
  have lo: "length ?o = length items" "?o \<noteq> []" using s by auto
  obtain w' c' acc' where lp: "scheduled_loop identify key req (fst wk) ?o 0 ?o (snd wk) ?c [] = (w', c', acc')"
    by (cases "scheduled_loop identify key req (fst wk) ?o 0 ?o (snd wk) ?c []") auto
  have run: "sched_run identify key req items wk (cursors_text cs) = (opt (flushScheduledCursors c') (cursors_text cs), acc')"
    using lp assms(3,4) by (simp add: sched_run_def scheduledItems_def loadCursors_def cursors_roundtrip orderScheduledItems_rotate)
  have cc0: "cx_cursors ?c = Some cs" by simp
  obtain k where k: "k \<le> length items" "acc' = take k ?o"
    "if k = 0 then c' = ?c else \<exists>cs'. c' = ?c\<lparr>cx_cursors := Some (AList.update key (identify (?o ! (k mod length ?o))) cs'), cx_changed := True\<rparr> \<and>
       (\<exists>vs. cs' = foldl (\<lambda>m v. AList.update key v m) cs vs)"
    using scheduled_loop_prefix [OF lp drop_0 [symmetric] cc0 lo(2), unfolded lo(1) append_Nil add_0] unfolding lo(1) by blast
  have acc: "acc' = map (\<lambda>j. items ! ((s + j) mod length items)) [0..<k]"
  proof (rule nth_equalityI)
    have l: "length (take k ?o) = k" using k(1) lo(1) by (simp only: length_take min_absorb2)
    then show "length acc' = length (map (\<lambda>j. items ! ((s + j) mod length items)) [0..<k])" by (simp only: k(2)) simp
    fix i assume "i < length acc'"
    then have "i < k" by (simp only: k(2) l)
    moreover have "take k ?o ! i = ?o ! i" using \<open>i < k\<close> by (rule nth_take)
    ultimately show "acc' ! i = map (\<lambda>j. items ! ((s + j) mod length items)) [0..<k] ! i"
      using rotate_nth [OF s, of i] k(1) by (simp only: k(2)) simp
  qed
  show ?thesis
  proof (cases "k = 0")
    case True
    then show ?thesis using run k(3) acc assms(3,4) s
      by (intro exI [of _ 0] exI [of _ cs]) (simp add: flushScheduledCursors_def opt_def)
  next
    case False
    then obtain cs' vs where c': "c' = ?c\<lparr>cx_cursors := Some (AList.update key (identify (?o ! (k mod length ?o))) cs'), cx_changed := True\<rparr>"
      "cs' = foldl (\<lambda>m v. AList.update key v m) cs vs" using k(3) by auto
    let ?cs = "AList.update key (identify (?o ! (k mod length ?o))) cs'"
    have "k mod length items < length items" using assms(1) by simp
    then have "?o ! (k mod length ?o) = items ! ((s + k) mod length items)"
      using rotate_nth [OF s] lo(1) by (simp add: mod_add_right_eq)
    then have "start_of ?cs key identify items = (s + k) mod length items"
      using start_of_update [OF assms(2), of "(s + k) mod length items"] assms(1) by simp
    moreover have "distinct (map fst ?cs)" unfolding c'(2) by (intro distinct_update distinct_foldl_update assms(3))
    ultimately show ?thesis using run acc c'(1)
      by (intro exI [of _ k] exI [of _ ?cs]) (simp add: flushScheduledCursors_def opt_def)
  qed
qed

lemma sched_runs_cyclic:
  assumes "items \<noteq> []" "distinct (map identify items)" "distinct (map fst cs)"
  shows "\<exists>k. sched_runs identify key req items wks (cursors_text cs) =
    map (\<lambda>j. items ! ((start_of cs key identify items + j) mod length items)) [0..<k]"
  using assms(3)
proof (induction wks arbitrary: cs)
  case (Cons wk wks)
  let ?s = "start_of cs key identify items" and ?n = "length items"
  obtain k cs' where r: "sched_run identify key req items wk (cursors_text cs) =
      (cursors_text cs', map (\<lambda>j. items ! ((?s + j) mod ?n)) [0..<k])"
    "distinct (map fst cs')" "start_of cs' key identify items = (?s + k) mod ?n"
    using sched_run_step [OF assms(1,2) Cons.prems refl] by blast
  obtain m where m: "sched_runs identify key req items wks (cursors_text cs') =
      map (\<lambda>j. items ! (((?s + k) mod ?n + j) mod ?n)) [0..<m]" using Cons.IH [OF r(2)] r(3) by auto
  have "map (\<lambda>j. items ! ((?s + j) mod ?n)) [0..<k + m] =
      map (\<lambda>j. items ! ((?s + j) mod ?n)) [0..<k] @ map (\<lambda>j. items ! (((?s + k) mod ?n + j) mod ?n)) [0..<m]"
    by (rule nth_equalityI) (auto simp: nth_append mod_add_left_eq add.assoc)
  then show ?case using r(1) m by (intro exI [of _ "k + m"]) simp
qed simp

lemma cyclic_covers:
  assumes "items \<noteq> []" "length items \<le> k"
  shows "set (map (\<lambda>j. items ! ((s + j) mod length items)) [0..<k]) = set items"
proof
  let ?n = "length items"
  have n: "0 < ?n" using assms(1) by simp
  show "set (map (\<lambda>j. items ! ((s + j) mod ?n)) [0..<k]) \<subseteq> set items" using n by auto
  show "set items \<subseteq> set (map (\<lambda>j. items ! ((s + j) mod ?n)) [0..<k])"
  proof
    fix x assume "x \<in> set items"
    then obtain i where i: "i < ?n" "x = items ! i" by (auto simp: in_set_conv_nth)
    let ?j = "(i + (?n - s mod ?n)) mod ?n"
    have "s mod ?n < ?n" using n by simp
    then have e: "s mod ?n + (i + (?n - s mod ?n)) = i + ?n" by linarith
    have "(s + ?j) mod ?n = (s + (i + (?n - s mod ?n))) mod ?n" by (rule mod_add_right_eq)
    also have "\<dots> = (s mod ?n + (i + (?n - s mod ?n))) mod ?n" by (rule mod_add_left_eq [symmetric])
    finally have "(s + ?j) mod ?n = i" using i(1) by (simp only: e) simp
    moreover have "?j < k" using n assms(2) by (meson mod_less_divisor order.strict_trans2)
    ultimately show "x \<in> set (map (\<lambda>j. items ! ((s + j) mod ?n)) [0..<k])" using i(2) by force
  qed
qed

text \<open>
  Scheduled loops are a fair round robin across runs: whatever each run's budget and failures
  allow, the items completed by any sequence of runs, with the cursors stored as JSON in between,
  are the items in cyclic order from the stored start, without a gap or a repetition; so once as
  many completions as there are items have happened, every item was completed.
\<close>

theorem scheduled_round_robin:
  assumes "items \<noteq> []" "distinct (map identify items)" "distinct (map fst cs)"
  shows "sched_runs identify key req items wks (cursors_text cs) =
      map (\<lambda>j. items ! ((start_of cs key identify items + j) mod length items))
        [0..<length (sched_runs identify key req items wks (cursors_text cs))] \<and>
    (length items \<le> length (sched_runs identify key req items wks (cursors_text cs)) \<longrightarrow>
      set (sched_runs identify key req items wks (cursors_text cs)) = set items)"
proof -
  obtain k where k: "sched_runs identify key req items wks (cursors_text cs) =
    map (\<lambda>j. items ! ((start_of cs key identify items + j) mod length items)) [0..<k]"
    using sched_runs_cyclic [OF assms] by blast
  then show ?thesis using cyclic_covers [OF assms(1), of k] by simp
qed

theorem scheduled_round_robin_witness:
  "sched_runs id ''offline'' 14 [''a'', ''b''] [(\<lambda>i w. (w, True), (None, 0))] (cursors_text [(''offline'', ''b'')]) =
     map (\<lambda>j. [''a'', ''b''] ! ((start_of [(''offline'', ''b'')] ''offline'' id [''a'', ''b''] + j) mod length [''a'', ''b'']))
       [0..<length (sched_runs id ''offline'' 14 [''a'', ''b''] [(\<lambda>i w. (w, True), (None, 0))] (cursors_text [(''offline'', ''b'')]))]"
  using scheduled_round_robin [of "[''a'', ''b'']" id "[(''offline'', ''b'')]" "''offline''" 14 "[(\<lambda>i w. (w, True), (None, 0))]"]
  by simp

end
