(* ===== verification/WebsiteMonitor.thy ===== *)
theory WebsiteMonitor
  imports PingTask ScheduledBudget
begin

section \<open>Website monitors\<close>

text \<open>
  \<open>utils/website-monitor.ts\<close> and the notification step of \<open>utils/website-notifications.ts\<close>.
  \<open>url_parse\<close> and \<open>url_resolve location base\<close> are the platform's URL parser, \<open>date_parse\<close> its date
  parser (in ms); the outcome of a fetch or a TCP connection, with the time it took, is an
  argument. Headers, sockets and timers are not modelled.
\<close>

datatype web_method = GET | HEAD | TCP
datatype probe_mode = ProbeOff | ProbeSelected | ProbeCountryAuto

record website_input =
  wi_name :: string
  wi_url :: string
  wi_method :: web_method
  expected_status_min :: int
  expected_status_max :: int
  interval_sec :: int
  timeout_sec :: int
  grace_period_sec :: int
  wi_enabled :: bool
  wi_hidden :: bool
  hide_url :: bool
  agent_probe_mode :: probe_mode
  agent_probe_clients :: "string list"
  agent_probe_limit :: int
  agent_probe_status_enabled :: bool

datatype website_error = InvalidName | InvalidUrl | InvalidMethod | InvalidProtocol | CredentialsNotAllowed
  | FragmentNotAllowed | UnsafeHost | InvalidPort | InvalidBounds

fun website_error_text :: "website_error \<Rightarrow> string" where
  "website_error_text InvalidName = ''invalid_name''"
| "website_error_text InvalidUrl = ''invalid_url''"
| "website_error_text InvalidMethod = ''invalid_method''"
| "website_error_text InvalidProtocol = ''invalid_protocol''"
| "website_error_text CredentialsNotAllowed = ''url_credentials_not_allowed''"
| "website_error_text FragmentNotAllowed = ''url_fragment_not_allowed''"
| "website_error_text UnsafeHost = ''unsafe_host''"
| "website_error_text InvalidPort = ''invalid_port''"
| "website_error_text InvalidBounds = ''invalid_bounds''"

definition REACHABLE_CHALLENGE_STATUSES :: "int list" where
  "REACHABLE_CHALLENGE_STATUSES = [401, 403, 405, 412, 429]"
definition WEBSITE_CHECK_DUE_TOLERANCE_SECONDS :: int where
  "WEBSITE_CHECK_DUE_TOLERANCE_SECONDS = 30"

definition integerInRange :: "jsval \<Rightarrow> int \<Rightarrow> int \<Rightarrow> int option" where
  "integerInRange v lo hi =
     (let x = js_Number v
      in if js_isInteger x \<and> js_le (FinI lo) x \<and> js_le x (FinI hi) then Some (js_int x) else None)"

subsection \<open>Hosts\<close>

definition web_parseIPv4 :: "string \<Rightarrow> nat list option" where
  "web_parseIPv4 host =
     (let ps = js_split CHR ''.'' host in
      if \<not> (length ps = 4 \<and> list_all is_octet_text ps) then None
      else let parts = map str_to_num ps in
        if list_all (\<lambda>x. js_isInteger x \<and> js_le (Fin 0) x \<and> js_le x (Fin 255)) parts
        then Some (map (\<lambda>x. nat (js_int x)) parts) else None)"

definition web_isAmbiguousNumericHost :: "string \<Rightarrow> bool" where
  "web_isAmbiguousNumericHost host =
     (if CHR '':'' \<in> set host then False
      else let parts = js_split CHR ''.'' host in
        if length parts > 4 then False
        else if \<not> list_all is_number_part parts then False
        else if length parts \<noteq> 4 then True
        else list_ex (\<lambda>p. is_hex_prefixed p \<or> (length p > 1 \<and> js_startsWith p ''0'')) parts \<or> web_parseIPv4 host = None)"

fun web_isBlockedIPv4 :: "nat list \<Rightarrow> bool" where
  "web_isBlockedIPv4 (a # b # c # _) \<longleftrightarrow>
     a = 0 \<or> a = 10 \<or> a = 127 \<or> (a = 100 \<and> 64 \<le> b \<and> b \<le> 127) \<or> (a = 169 \<and> b = 254) \<or>
     (a = 172 \<and> 16 \<le> b \<and> b \<le> 31) \<or> (a = 192 \<and> b = 168) \<or>
     (a = 192 \<and> b = 0 \<and> (c = 0 \<or> c = 2)) \<or> (a = 198 \<and> (b = 18 \<or> b = 19)) \<or>
     (a = 198 \<and> b = 51 \<and> c = 100) \<or> (a = 203 \<and> b = 0 \<and> c = 113) \<or> 224 \<le> a"
| "web_isBlockedIPv4 _ = False"

text \<open>\<open>IPV4_BLOCKS\<close>: patterns on the leading parts, each followed by a dot.\<close>

definition IPV4_BLOCKS :: "string \<Rightarrow> bool" where
  "IPV4_BLOCKS host = (case js_split CHR ''.'' host of
       p0 # p1 # rest \<Rightarrow>
         p0 \<in> {''0'', ''10'', ''127''} \<or>
         (rest \<noteq> [] \<and> p0 = ''169'' \<and> p1 = ''254'') \<or> (rest \<noteq> [] \<and> p0 = ''192'' \<and> p1 = ''168'') \<or>
         (rest \<noteq> [] \<and> p0 = ''172'' \<and> length p1 = 2 \<and>
            ((p1 ! 0 = CHR ''1'' \<and> p1 ! 1 \<in> set ''6789'') \<or> (p1 ! 0 = CHR ''2'' \<and> is_digit (p1 ! 1)) \<or>
             (p1 ! 0 = CHR ''3'' \<and> p1 ! 1 \<in> set ''01''))) \<or>
         (length p0 = 3 \<and> take 2 p0 = ''22'' \<and> p0 ! 2 \<in> set ''456789'') \<or>
         (length p0 = 3 \<and> take 2 p0 = ''23'' \<and> is_digit (p0 ! 2))
     | _ \<Rightarrow> False)"

definition isIPv4MappedIPv6 :: "string \<Rightarrow> bool" where
  "isIPv4MappedIPv6 host \<longleftrightarrow> js_startsWith host ''::ffff:'' \<or> js_startsWith host ''0:0:0:0:0:ffff:''"

definition strip_dot :: "string \<Rightarrow> string" where
  "strip_dot s = (if s \<noteq> [] \<and> last s = CHR ''.'' then butlast s else s)"

text \<open>The text followed by a colon or the end.\<close>

definition starts_group :: "string \<Rightarrow> string \<Rightarrow> bool" where
  "starts_group host p \<longleftrightarrow> host = p \<or> js_startsWith host (p @ '':'')"

definition web_host :: "string \<Rightarrow> string" where
  "web_host h = strip_dot (strip_brackets (js_toLowerCase h))"

definition isUnsafeHostname :: "string \<Rightarrow> bool" where
  "isUnsafeHostname hn =
     (let host = web_host hn in
      if host = [] \<or> host = ''localhost'' \<or> js_endsWith host ''.localhost'' then True
      else if host = ''metadata.google.internal'' then True
      else if web_isAmbiguousNumericHost host then True
      else case web_parseIPv4 host of
          Some ipv4 \<Rightarrow> web_isBlockedIPv4 ipv4
        | None \<Rightarrow>
            if IPV4_BLOCKS host then True
            else if CHR '':'' \<notin> set host then False
            else if isIPv4MappedIPv6 host then True
            else if host = ''::'' \<or> host = ''::1'' then True
            else if list_ex (js_startsWith host) [''fc'', ''fd'', ''fe8'', ''fe9'', ''fea'', ''feb'', ''ff''] then True
            else if starts_group host ''100'' \<or> starts_group host ''2001:db8'' then True
            else False)"

definition validateWebsiteUrl :: "url \<Rightarrow> website_error option" where
  "validateWebsiteUrl u =
     (if protocol u \<noteq> ''http:'' \<and> protocol u \<noteq> ''https:'' then Some InvalidProtocol
      else if url_username u \<noteq> [] \<or> url_password u \<noteq> [] then Some CredentialsNotAllowed
      else if hash u \<noteq> [] then Some FragmentNotAllowed
      else if isUnsafeHostname (hostname u) then Some UnsafeHost
      else None)"

definition validateTcpUrl :: "url \<Rightarrow> website_error option" where
  "validateTcpUrl u =
     (if protocol u \<noteq> ''tcp:'' then Some InvalidProtocol
      else if url_username u \<noteq> [] \<or> url_password u \<noteq> [] then Some CredentialsNotAllowed
      else if hash u \<noteq> [] \<or> search u \<noteq> [] \<or> (pathname u \<noteq> [] \<and> pathname u \<noteq> ''/'') then Some InvalidUrl
      else if isUnsafeHostname (hostname u) then Some UnsafeHost
      else let p = str_to_num (port u)
           in if \<not> js_isInteger p \<or> js_lt p (Fin 1) \<or> js_lt (Fin 65535) p then Some InvalidPort else None)"

definition web_readStringArray :: "jsval \<Rightarrow> string list" where
  "web_readStringArray v = (case v of Arr items \<Rightarrow> collect_strings 100 [] items | _ \<Rightarrow> [])"

definition bool_or :: "jsval \<Rightarrow> bool \<Rightarrow> bool" where
  "bool_or v d = (case v of Bool b \<Rightarrow> b | _ \<Rightarrow> d)"

definition web_method_of :: "jsval \<Rightarrow> web_method option" where
  "web_method_of v = (if v = Str ''TCP'' then Some TCP else if v = Str ''HEAD'' then Some HEAD
                      else if v = Str ''GET'' \<or> \<not> js_truthy v then Some GET else None)"

definition validateWebsiteMonitorInput :: "(string \<Rightarrow> url option) \<Rightarrow> jsobj \<Rightarrow> website_error + website_input" where
  "validateWebsiteMonitorInput url_parse input =
     (let name = js_trim (js_String (js_or (js_get input ''name'') (Str []))) in
      if name = [] \<or> length name > 120 then Inl InvalidName
      else case url_parse (js_trim (js_String (js_or (js_get input ''url'') (Str [])))) of
          None \<Rightarrow> Inl InvalidUrl
        | Some parsed \<Rightarrow>
            (case web_method_of (js_get input ''method'') of
               None \<Rightarrow> Inl InvalidMethod
             | Some m \<Rightarrow>
                 (case (if m = TCP then validateTcpUrl parsed else validateWebsiteUrl parsed) of
                    Some e \<Rightarrow> Inl e
                  | None \<Rightarrow>
                      (let field = (\<lambda>k d lo hi. integerInRange (js_nullish (js_get input k) (Num (FinI d))) lo hi);
                           mode = (if js_get input ''agent_probe_mode'' = Str ''selected'' then ProbeSelected
                                   else if js_get input ''agent_probe_mode'' = Str ''country_auto'' then ProbeCountryAuto
                                   else ProbeOff)
                       in case (field ''expected_status_min'' 200 100 599, field ''expected_status_max'' 399 100 599,
                                field ''interval_sec'' 120 60 86400, field ''timeout_sec'' 10 1 30,
                                field ''grace_period_sec'' 180 30 86400, field ''agent_probe_limit'' 3 1 10) of
                           (Some smin, Some smax, Some interval, Some timeout, Some grace, Some limit) \<Rightarrow>
                             if smax < smin \<or> interval < timeout then Inl InvalidBounds
                             else Inr \<lparr>wi_name = name, wi_url = href parsed, wi_method = m,
                               expected_status_min = smin, expected_status_max = smax, interval_sec = interval,
                               timeout_sec = timeout, grace_period_sec = grace,
                               wi_enabled = bool_or (js_get input ''enabled'') True,
                               wi_hidden = bool_or (js_get input ''hidden'') False,
                               hide_url = bool_or (js_get input ''hide_url'') False,
                               agent_probe_mode = mode,
                               agent_probe_clients = web_readStringArray (js_get input ''agent_probe_clients''),
                               agent_probe_limit = limit,
                               agent_probe_status_enabled = bool_or (js_get input ''agent_probe_status_enabled'') True\<rparr>
                         | _ \<Rightarrow> Inl InvalidBounds))))"

subsection \<open>Probes\<close>

datatype web_status = Up | Down

record fetch_norm =
  fn_ok :: bool
  effective_status :: web_status
  effective_reason :: string
  status_code :: "int option"
  raw_status_code :: "int option"
  latency_ms :: int
  fn_error :: "string option"

definition error_class :: "string \<Rightarrow> string" where
  "error_class msg =
     (if js_includes msg ''unsafe_redirect'' then ''unsafe_redirect''
      else if js_includes msg ''unsafe_host'' then ''unsafe_host''
      else if list_ex (js_includes msg) [''abort'', ''timeout'', ''timed out''] then ''timeout''
      else if list_ex (js_includes msg) [''enotfound'', ''dns'', ''getaddrinfo''] then ''dns_error''
      else if list_ex (js_includes msg) [''certificate'', ''tls'', ''ssl''] then ''tls_error''
      else ''network_error'')"

definition normalizeWebsiteFetchResult ::
  "int option \<Rightarrow> int \<Rightarrow> int \<Rightarrow> int \<Rightarrow> string \<Rightarrow> fetch_norm" where
  "normalizeWebsiteFetchResult st latencyMs lo hi error =
     (let lat = max 0 latencyMs in
      case st of
        Some status \<Rightarrow>
          (let inRange = (lo \<le> status \<and> status \<le> hi);
               challengeReachable = (lo = 200 \<and> hi = 399 \<and> status \<in> set REACHABLE_CHALLENGE_STATUSES);
               ok = (inRange \<or> challengeReachable)
           in \<lparr>fn_ok = ok, effective_status = (if ok then Up else Down),
               effective_reason = (if inRange then ''status_in_expected_range''
                 else if challengeReachable then ''reachable_challenge'' else ''http_status_mismatch''),
               status_code = Some status, raw_status_code = Some status, latency_ms = lat,
               fn_error = (if ok then None else Some (''http_'' @ int_to_str status))\<rparr>)
      | None \<Rightarrow>
          (let e = error_class (js_toLowerCase error)
           in \<lparr>fn_ok = False, effective_status = Down, effective_reason = e, status_code = None,
               raw_status_code = None, latency_ms = lat, fn_error = Some e\<rparr>))"

record probe_monitor =
  pm_id :: int
  config_revision :: string
  pm_url :: string
  pm_method :: web_method
  pm_timeout_sec :: int
  pm_status_min :: int
  pm_status_max :: int

record web_check =
  monitor_id :: int
  wc_config_revision :: string
  checked_at :: string
  wc :: fetch_norm

record web_response =
  resp_status :: int
  resp_location :: "string option"

definition web_check_of :: "probe_monitor \<Rightarrow> string \<Rightarrow> fetch_norm \<Rightarrow> web_check" where
  "web_check_of m at0 n = \<lparr>monitor_id = pm_id m, wc_config_revision = config_revision m, checked_at = at0, wc = n\<rparr>"

text \<open>A TCP connection attempt: opened and closed, failed with a message, or timed out, at a time.\<close>

datatype tcp_outcome = TcpOpened int | TcpFailed int string | TcpTimeout int

text \<open>\<open>None\<close> stands for the rethrown \<open>ScheduledBudgetExceeded\<close>; \<open>url_err\<close> is the message of the
  URL parser's exception.\<close>

definition checkWebsiteMonitorTcp ::
  "(string \<Rightarrow> url option) \<Rightarrow> string \<Rightarrow> (string \<Rightarrow> jsnum \<Rightarrow> tcp_outcome) \<Rightarrow> string \<Rightarrow> int \<Rightarrow> probe_monitor \<Rightarrow> budget option
   \<Rightarrow> budget option \<times> web_check option" where
  "checkWebsiteMonitorTcp url_parse url_err connect checkedAt started m ob =
     (let failed = (\<lambda>t msg. Some (web_check_of m checkedAt
                     (normalizeWebsiteFetchResult None (t - started) (pm_status_min m) (pm_status_max m) msg)))
      in case url_parse (pm_url m) of
          None \<Rightarrow> (ob, failed started url_err)
        | Some u \<Rightarrow>
            (case validateTcpUrl u of
               Some e \<Rightarrow> (ob, failed started (website_error_text e))
             | None \<Rightarrow>
                 (case (case ob of None \<Rightarrow> Some None | Some b \<Rightarrow> map_option Some (consume started 1 b)) of
                    None \<Rightarrow> (ob, None)
                  | Some ob' \<Rightarrow>
                      (case connect (hostname u) (str_to_num (port u)) of
                         TcpOpened t \<Rightarrow>
                           (ob', Some (web_check_of m checkedAt
                              \<lparr>fn_ok = True, effective_status = Up, effective_reason = ''tcp_connect'', status_code = None,
                               raw_status_code = None, latency_ms = max 0 (t - started), fn_error = None\<rparr>))
                       | TcpFailed t msg \<Rightarrow> (ob', failed t msg)
                       | TcpTimeout t \<Rightarrow>
                           (case ob' of
                              Some b \<Rightarrow> if remainingMs t b = 0 then (ob', None) else (ob', failed t ''timeout'')
                            | None \<Rightarrow> (ob', failed t ''timeout''))))))"

definition checkWebsiteMonitorHttp ::
  "(string \<Rightarrow> url option) \<Rightarrow> (string \<Rightarrow> url \<Rightarrow> url option) \<Rightarrow> string
   \<Rightarrow> (string \<Rightarrow> redirect_mode \<Rightarrow> int \<times> (string + web_response)) \<Rightarrow> (string \<Rightarrow> jsnum \<Rightarrow> tcp_outcome)
   \<Rightarrow> string \<Rightarrow> int \<Rightarrow> probe_monitor \<Rightarrow> budget option \<Rightarrow> budget option \<times> web_check option" where
  "checkWebsiteMonitorHttp url_parse url_resolve url_err fetcher connect checkedAt started m ob =
     (if pm_method m = TCP then checkWebsiteMonitorTcp url_parse url_err connect checkedAt started m ob
      else
      let result = (\<lambda>st t msg. Some (web_check_of m checkedAt
                     (normalizeWebsiteFetchResult st (t - started) (pm_status_min m) (pm_status_max m) msg)))
      in case url_parse (pm_url m) of
          None \<Rightarrow> (ob, result None started url_err)
        | Some u \<Rightarrow>
            (case validateWebsiteUrl u of
               Some e \<Rightarrow> (ob, result None started (website_error_text e))
             | None \<Rightarrow>
                 (let t = fst (fetcher (href u) Manual) in
                  case scheduledFetch started Manual (fetcher (href u)) ob of
                    (ob', BudgetExceeded) \<Rightarrow> (ob', None)
                  | (ob', FetchFailed msg) \<Rightarrow> (ob', result None t msg)
                  | (ob', Response r) \<Rightarrow>
                      (case resp_location r of
                         Some loc \<Rightarrow>
                           if loc \<noteq> [] \<and> 300 \<le> resp_status r \<and> resp_status r \<le> 399 then
                             (case url_resolve loc u of
                                None \<Rightarrow> (ob', result None t url_err)
                              | Some next \<Rightarrow>
                                  if validateWebsiteUrl next \<noteq> None then (ob', result None t ''unsafe_redirect'')
                                  else (ob', result (Some (resp_status r)) t []))
                           else (ob', result (Some (resp_status r)) t [])
                       | None \<Rightarrow> (ob', result (Some (resp_status r)) t [])))))"

subsection \<open>Due checks and notifications\<close>

record website_monitor =
  wm_id :: int
  wm_config_revision :: string
  wm_name :: string
  wm_enabled :: bool
  wm_status :: string
  wm_interval_sec :: int
  wm_grace_period_sec :: int
  last_checked_at :: "string option"
  down_since :: "string option"
  last_notified_at :: "string option"

text \<open>\<open>now - Date.parse(s) >= ms\<close>; false for an unparsable date.\<close>

definition elapsed :: "(string \<Rightarrow> jsnum) \<Rightarrow> int \<Rightarrow> string \<Rightarrow> int \<Rightarrow> bool" where
  "elapsed date_parse now s ms = (case date_parse s of Fin q \<Rightarrow> of_int ms \<le> of_int now - q | _ \<Rightarrow> False)"

definition truthy_str :: "string option \<Rightarrow> bool" where
  "truthy_str x \<longleftrightarrow> x \<noteq> None \<and> x \<noteq> Some []"

definition isWebsiteCheckDue :: "(string \<Rightarrow> jsnum) \<Rightarrow> website_monitor \<Rightarrow> int \<Rightarrow> bool" where
  "isWebsiteCheckDue date_parse m now =
     (if \<not> wm_enabled m then False
      else if \<not> truthy_str (last_checked_at m) then True
      else elapsed date_parse now (the (last_checked_at m))
             (max 1 (wm_interval_sec m - WEBSITE_CHECK_DUE_TOLERANCE_SECONDS) * 1000))"

definition shouldNotifyWebsiteDown :: "(string \<Rightarrow> jsnum) \<Rightarrow> website_monitor \<Rightarrow> int \<Rightarrow> bool" where
  "shouldNotifyWebsiteDown date_parse m now =
     (if \<not> wm_enabled m \<or> wm_status m \<noteq> ''down'' \<or> truthy_str (last_notified_at m) \<or> \<not> truthy_str (down_since m) then False
      else elapsed date_parse now (the (down_since m)) (wm_grace_period_sec m * 1000))"

definition shouldNotifyWebsiteRecovery :: "website_monitor \<Rightarrow> bool" where
  "shouldNotifyWebsiteRecovery m \<longleftrightarrow> wm_enabled m \<and> wm_status m = ''up'' \<and> truthy_str (last_notified_at m)"

text \<open>
  \<open>notifyWebsiteMonitor\<close>: the messages sent (by event id) and the database writes, in order.
  \<open>send\<close> tells whether a message was delivered, \<open>mark\<close> whether the conditional update of
  \<open>last_notified_at\<close> matched; \<open>isoString\<close> prints a time.
\<close>

datatype notify_effect = SentMessage string string | MarkedNotified "string option" | Audited string

definition delivery_key :: "website_monitor \<Rightarrow> string" where
  "delivery_key m = ''website:'' @ int_to_str (wm_id m)"

definition notify_phase ::
  "(string \<Rightarrow> bool) \<Rightarrow> (string option \<Rightarrow> bool) \<Rightarrow> website_monitor \<Rightarrow> string \<Rightarrow> string option \<Rightarrow> string \<Rightarrow> notify_effect list \<times> bool" where
  "notify_phase send mark m eventId stamp action =
     (if \<not> send eventId then ([SentMessage (delivery_key m) eventId], False)
      else if \<not> mark stamp then ([SentMessage (delivery_key m) eventId, MarkedNotified stamp], False)
      else ([SentMessage (delivery_key m) eventId, MarkedNotified stamp, Audited action], True))"

definition notifyWebsiteMonitor ::
  "(string \<Rightarrow> jsnum) \<Rightarrow> (int \<Rightarrow> string) \<Rightarrow> (string \<Rightarrow> bool) \<Rightarrow> (string option \<Rightarrow> bool) \<Rightarrow> website_monitor \<Rightarrow> int
   \<Rightarrow> notify_effect list" where
  "notifyWebsiteMonitor date_parse isoString send mark m now =
     (let (e1, go) = (if shouldNotifyWebsiteDown date_parse m now
            then notify_phase send mark m (''down:'' @ wm_config_revision m @ '':'' @ the (down_since m)) (Some (isoString now)) ''website_down''
            else ([], True));
          e2 = (if go \<and> shouldNotifyWebsiteRecovery m
            then fst (notify_phase send mark m (''recovery:'' @ wm_config_revision m @ '':'' @ the (last_notified_at m)) None ''website_recovery'')
            else [])
      in e1 @ e2)"

subsection \<open>Accepted monitors\<close>

lemma integerInRange_bounds: "integerInRange v lo hi = Some i \<Longrightarrow> lo \<le> i \<and> i \<le> hi"
  by (auto simp: integerInRange_def Let_def split: if_splits elim!: js_isIntegerE)

text \<open>The two guards parse and classify numeric hosts alike.\<close>

lemma web_parseIPv4_eq: "web_parseIPv4 h = parseIpv4 h"
proof -
  have "list_all (\<lambda>x. js_isInteger x \<and> js_le (Fin 0) x \<and> js_le x (Fin 255)) xs \<longleftrightarrow>
      \<not> list_ex (\<lambda>x. \<not> js_isInteger x \<or> js_lt x (Fin 0) \<or> js_lt (Fin 255) x) xs" for xs
  proof -
    have "js_isInteger x \<and> js_le (Fin 0) x \<and> js_le x (Fin 255) \<longleftrightarrow>
        \<not> (\<not> js_isInteger x \<or> js_lt x (Fin 0) \<or> js_lt (Fin 255) x)" for x by (cases x) (auto simp: not_less)
    then show ?thesis by (auto simp: list_all_iff list_ex_iff)
  qed
  then show ?thesis by (auto simp: web_parseIPv4_def parseIpv4_def Let_def)
qed

lemma web_ambiguous_eq: "web_isAmbiguousNumericHost h = isAmbiguousNumericHost h"
  by (simp add: web_isAmbiguousNumericHost_def isAmbiguousNumericHost_def web_parseIPv4_eq)

definition website_accepts :: "string \<Rightarrow> bool" where
  "website_accepts h \<longleftrightarrow> (\<exists>hn. h = web_host hn \<and> \<not> isUnsafeHostname hn)"

interpretation website_guard: host_guard website_accepts web_isBlockedIPv4
proof
  fix h octs
  assume "website_accepts h"
  then have f: "h \<noteq> []" "h \<noteq> ''localhost''" "\<not> js_endsWith h ''.localhost''" "\<not> isAmbiguousNumericHost h"
    "\<And>octs. parseIpv4 h = Some octs \<Longrightarrow> \<not> web_isBlockedIPv4 octs"
    by (auto simp: website_accepts_def isUnsafeHostname_def Let_def web_ambiguous_eq web_parseIPv4_eq split: if_splits)
  then show "h \<noteq> [] \<and> h \<noteq> ''localhost'' \<and> \<not> js_endsWith h ''.localhost''" "\<not> isAmbiguousNumericHost h" by blast+
  show "parseIpv4 h = Some octs \<Longrightarrow> \<not> web_isBlockedIPv4 octs" by (rule f(5))
qed

lemma safe_hostname_public:
  assumes "\<not> isUnsafeHostname hn"
  shows "public_host (web_host hn)"
proof (rule plain_host_public)
  show "plain_host web_isBlockedIPv4 (web_host hn)"
    using assms by (intro website_guard.accepts_plain) (auto simp: website_accepts_def)
  show "web_host hn \<noteq> ''metadata.google.internal''"
    using assms by (auto simp: isUnsafeHostname_def Let_def split: if_splits)
qed (auto simp: reserved_ipv4_def)

definition web_url_ok :: "web_method \<Rightarrow> url \<Rightarrow> bool" where
  "web_url_ok m u \<longleftrightarrow> public_host (web_host (hostname u)) \<and> url_username u = [] \<and> url_password u = [] \<and> hash u = [] \<and>
     (if m = TCP then protocol u = ''tcp:'' \<and> (\<exists>p :: int. str_to_num (port u) = FinI p \<and> 1 \<le> p \<and> p \<le> 65535)
      else protocol u \<in> {''http:'', ''https:''})"

lemma validateWebsiteUrl_ok: "validateWebsiteUrl u = None \<Longrightarrow> m \<noteq> TCP \<Longrightarrow> web_url_ok m u"
  using safe_hostname_public [of "hostname u"] by (auto simp: validateWebsiteUrl_def web_url_ok_def split: if_splits)

lemma validateTcpUrl_ok:
  assumes "validateTcpUrl u = None"
  shows "web_url_ok TCP u"
proof -
  have p: "js_isInteger (str_to_num (port u))" "\<not> js_lt (str_to_num (port u)) (Fin 1)" "\<not> js_lt (Fin 65535) (str_to_num (port u))"
    using assms by (auto simp: validateTcpUrl_def Let_def split: if_splits)
  obtain q where q: "str_to_num (port u) = FinI q" using js_isIntegerE [OF p(1)] by blast
  have "(1 :: rat) \<le> of_int q" "of_int q \<le> (65535 :: rat)" using p(2,3) q by auto
  then have "1 \<le> q" "q \<le> 65535" by simp_all
  then show ?thesis using assms q safe_hostname_public [of "hostname u"]
    by (auto simp: validateTcpUrl_def web_url_ok_def Let_def split: if_splits)
qed

lemma web_readStringArray_ok: "distinct (web_readStringArray v) \<and> length (web_readStringArray v) \<le> 100"
  using collect_strings_ok [of "[]" 100] by (auto simp: web_readStringArray_def split: jsval.splits)

text \<open>
  Every accepted website monitor is within its bounds and aims at a public address: the status
  range lies in 100..599 and is not empty, interval, timeout, grace period and probe limit are in
  range with the timeout within the interval, at most 100 distinct probe clients are named, and
  the stored address parses to a host outside every local and reserved IPv4 range, with the
  scheme (and for TCP the port) its method needs.
\<close>

theorem website_input_valid:
  assumes "validateWebsiteMonitorInput url_parse input = Inr w"
  shows "wi_name w \<noteq> [] \<and> length (wi_name w) \<le> 120 \<and>
    100 \<le> expected_status_min w \<and> expected_status_min w \<le> expected_status_max w \<and> expected_status_max w \<le> 599 \<and>
    60 \<le> interval_sec w \<and> interval_sec w \<le> 86400 \<and> 1 \<le> timeout_sec w \<and> timeout_sec w \<le> min 30 (interval_sec w) \<and>
    30 \<le> grace_period_sec w \<and> grace_period_sec w \<le> 86400 \<and> 1 \<le> agent_probe_limit w \<and> agent_probe_limit w \<le> 10 \<and>
    distinct (agent_probe_clients w) \<and> length (agent_probe_clients w) \<le> 100 \<and>
    (\<exists>u. url_parse (js_trim (js_String (js_or (js_get input ''url'') (Str [])))) = Some u \<and>
      wi_url w = href u \<and> web_url_ok (wi_method w) u)"
proof -
  obtain u m where u: "url_parse (js_trim (js_String (js_or (js_get input ''url'') (Str [])))) = Some u"
    and m: "web_method_of (js_get input ''method'') = Some m"
      "(if m = TCP then validateTcpUrl u else validateWebsiteUrl u) = None"
    using assms by (auto simp: validateWebsiteMonitorInput_def Let_def split: if_splits option.splits)
  have w: "wi_url w = href u" "wi_method w = m" "wi_name w \<noteq> []" "length (wi_name w) \<le> 120"
    using assms u m by (auto simp: validateWebsiteMonitorInput_def Let_def split: if_splits option.splits)
  have "web_url_ok (wi_method w) u"
    using m(2) w(2) validateTcpUrl_ok validateWebsiteUrl_ok by (auto split: if_splits)
  moreover have
    "integerInRange (js_nullish (js_get input ''expected_status_min'') (Num (FinI 200))) 100 599 = Some (expected_status_min w)"
    "integerInRange (js_nullish (js_get input ''expected_status_max'') (Num (FinI 399))) 100 599 = Some (expected_status_max w)"
    "integerInRange (js_nullish (js_get input ''interval_sec'') (Num (FinI 120))) 60 86400 = Some (interval_sec w)"
    "integerInRange (js_nullish (js_get input ''timeout_sec'') (Num (FinI 10))) 1 30 = Some (timeout_sec w)"
    "integerInRange (js_nullish (js_get input ''grace_period_sec'') (Num (FinI 180))) 30 86400 = Some (grace_period_sec w)"
    "integerInRange (js_nullish (js_get input ''agent_probe_limit'') (Num (FinI 3))) 1 10 = Some (agent_probe_limit w)"
    "expected_status_min w \<le> expected_status_max w" "timeout_sec w \<le> interval_sec w"
    "agent_probe_clients w = web_readStringArray (js_get input ''agent_probe_clients'')"
    using assms u m by (auto simp: validateWebsiteMonitorInput_def Let_def split: if_splits option.splits)
  ultimately show ?thesis
    using u w web_readStringArray_ok [of "js_get input ''agent_probe_clients''"] by (auto dest!: integerInRange_bounds)
qed

definition sample_url :: url where
  "sample_url = \<lparr>protocol = ''https:'', hostname = ''example.org'', url_username = [], url_password = [], port = [],
     pathname = ''/'', search = [], hash = [], href = ''https://example.org/''\<rparr>"

lemma sample_host_safe: "\<not> isUnsafeHostname ''example.org''"
  by (simp add: isUnsafeHostname_def web_host_def js_toLowerCase_def lower_char_def is_AZ_def cc_def strip_brackets_def
      strip_dot_def js_endsWith_def web_isAmbiguousNumericHost_def is_number_part_def is_hex_prefixed_def js_startsWith_def
      is_digit_def web_parseIPv4_def IPV4_BLOCKS_def Let_def)

theorem website_input_valid_witness:
  "\<exists>w. validateWebsiteMonitorInput (\<lambda>s. Some sample_url) [(''name'', Str ''n''), (''url'', Str ''x'')] = Inr w \<and>
     web_url_ok (wi_method w) sample_url"
proof -
  have t: "js_trim ''n'' = ''n''" by (rule js_trim_simple) (simp add: cc_def)
  have "\<exists>w. validateWebsiteMonitorInput (\<lambda>s. Some sample_url) [(''name'', Str ''n''), (''url'', Str ''x'')] = Inr w"
    by (simp add: validateWebsiteMonitorInput_def js_get_def js_or_def js_nullish_def t web_method_of_def validateWebsiteUrl_def
        sample_url_def sample_host_safe integerInRange_def Let_def)
  then obtain w where w: "validateWebsiteMonitorInput (\<lambda>s. Some sample_url) [(''name'', Str ''n''), (''url'', Str ''x'')] = Inr w" by blast
  from website_input_valid [OF w] w show ?thesis by auto
qed

subsection \<open>Probe results\<close>

lemma scheduledFetch_charged:
  "scheduledFetch now Manual f (Some b) = (ob', r) \<Longrightarrow> \<exists>b'. ob' = Some b' \<and> used b' \<le> used b + 1 \<and> maximum b' = maximum b \<and>
    (used b \<le> maximum b \<longrightarrow> used b' \<le> maximum b')"
  by (auto simp: scheduledFetch_def consume_def split: option.splits if_splits prod.splits sum.splits)

text \<open>
  A web monitor is reported up only for a real answer of a public address: the stored address
  passed the guard, the answer's status is in the expected range (or, for the default range, one
  of the challenge statuses), and if it redirects, the target passed the guard too. An unsafe
  stored address is reported down without any request and without charging the budget.
\<close>

theorem website_probe_guard:
  assumes "pm_method m \<noteq> TCP"
    "checkWebsiteMonitorHttp url_parse url_resolve url_err fetcher connect checkedAt started m ob = (ob', Some c)"
  shows "(fn_ok (wc c) \<longrightarrow> (\<exists>u r. url_parse (pm_url m) = Some u \<and> web_url_ok (pm_method m) u \<and>
       snd (fetcher (href u) Manual) = Inr r \<and> status_code (wc c) = Some (resp_status r) \<and>
       (pm_status_min m \<le> resp_status r \<and> resp_status r \<le> pm_status_max m \<or>
        pm_status_min m = 200 \<and> pm_status_max m = 399 \<and> resp_status r \<in> set REACHABLE_CHALLENGE_STATUSES) \<and>
       (\<forall>loc. resp_location r = Some loc \<and> loc \<noteq> [] \<and> 300 \<le> resp_status r \<and> resp_status r \<le> 399 \<longrightarrow>
          (\<exists>u'. url_resolve loc u = Some u' \<and> web_url_ok (pm_method m) u')))) \<and>
    (\<forall>u e. url_parse (pm_url m) = Some u \<and> validateWebsiteUrl u = Some e \<longrightarrow>
       ob' = ob \<and> \<not> fn_ok (wc c) \<and> effective_status (wc c) = Down)"
proof (cases "url_parse (pm_url m)")
  case None
  then show ?thesis using assms
    by (auto simp: checkWebsiteMonitorHttp_def Let_def web_check_of_def normalizeWebsiteFetchResult_def)
next
  case u: (Some u)
  show ?thesis
  proof (cases "validateWebsiteUrl u")
    case (Some e)
    then show ?thesis using assms u
      by (auto simp: checkWebsiteMonitorHttp_def Let_def web_check_of_def normalizeWebsiteFetchResult_def)
  next
    case None
    have ok: "web_url_ok (pm_method m) u" using validateWebsiteUrl_ok [OF None assms(1)] .
    obtain ob1 res where sf: "scheduledFetch started Manual (fetcher (href u)) ob = (ob1, res)" by force
    have ne: "fn_ok (normalizeWebsiteFetchResult None l lo hi e) = False" for l lo hi e
      by (simp add: normalizeWebsiteFetchResult_def Let_def)
    show ?thesis
    proof (cases res)
      case (Response r)
      then have f: "snd (fetcher (href u) Manual) = Inr r"
        using sf by (auto simp: scheduledFetch_def split: option.splits prod.splits sum.splits if_splits)
      note D = assms(2) [unfolded checkWebsiteMonitorHttp_def Let_def u None option.case sf prod.case Response fetch_result.case
          if_not_P [OF assms(1)]]
      have "\<exists>st t msg. c = web_check_of m checkedAt (normalizeWebsiteFetchResult st t (pm_status_min m) (pm_status_max m) msg) \<and>
          (st \<noteq> None \<longrightarrow> st = Some (resp_status r) \<and>
            (\<forall>loc. resp_location r = Some loc \<and> loc \<noteq> [] \<and> 300 \<le> resp_status r \<and> resp_status r \<le> 399 \<longrightarrow>
              (\<exists>u'. url_resolve loc u = Some u' \<and> validateWebsiteUrl u' = None)))"
        using D by (auto split: option.splits if_splits)
      then obtain st t msg where c: "c = web_check_of m checkedAt (normalizeWebsiteFetchResult st t (pm_status_min m) (pm_status_max m) msg)"
        and st: "st \<noteq> None \<longrightarrow> st = Some (resp_status r) \<and>
            (\<forall>loc. resp_location r = Some loc \<and> loc \<noteq> [] \<and> 300 \<le> resp_status r \<and> resp_status r \<le> 399 \<longrightarrow>
              (\<exists>u'. url_resolve loc u = Some u' \<and> validateWebsiteUrl u' = None))" by blast
      show ?thesis
      proof (cases st)
        case None
        then show ?thesis using c ne u \<open>validateWebsiteUrl u = None\<close> by (simp add: web_check_of_def)
      next
        case (Some s)
        then show ?thesis using c st f u ok \<open>validateWebsiteUrl u = None\<close> validateWebsiteUrl_ok [OF _ assms(1)]
          by (auto simp: web_check_of_def normalizeWebsiteFetchResult_def Let_def)
      qed
    next
      case (FetchFailed e)
      then show ?thesis using assms u None sf
        by (auto simp: checkWebsiteMonitorHttp_def Let_def web_check_of_def normalizeWebsiteFetchResult_def)
    next
      case BudgetExceeded
      then show ?thesis using assms u None sf by (auto simp: checkWebsiteMonitorHttp_def Let_def)
    qed
  qed
qed

definition sample_monitor :: probe_monitor where
  "sample_monitor = \<lparr>pm_id = 1, config_revision = ''r'', pm_url = ''https://example.org/'', pm_method = GET, pm_timeout_sec = 10,
     pm_status_min = 200, pm_status_max = 399\<rparr>"

theorem website_probe_guard_witness:
  "\<exists>c. checkWebsiteMonitorHttp (\<lambda>s. Some sample_url) (\<lambda>l u. None) [] (\<lambda>h r. (7, Inr \<lparr>resp_status = 200, resp_location = None\<rparr>))
     (\<lambda>h p. TcpTimeout 0) ''t'' 5 sample_monitor None = (None, Some c) \<and> fn_ok (wc c) \<and> web_url_ok GET sample_url"
proof -
  let ?r = "checkWebsiteMonitorHttp (\<lambda>s. Some sample_url) (\<lambda>l u. None) [] (\<lambda>h r. (7, Inr \<lparr>resp_status = 200, resp_location = None\<rparr>))
     (\<lambda>h p. TcpTimeout 0) ''t'' 5 sample_monitor None"
  have "\<exists>c. ?r = (None, Some c) \<and> fn_ok (wc c)"
    by (simp add: checkWebsiteMonitorHttp_def sample_monitor_def validateWebsiteUrl_def sample_url_def sample_host_safe
        scheduledFetch_def web_check_of_def normalizeWebsiteFetchResult_def Let_def)
  then obtain c where c: "?r = (None, Some c)" "fn_ok (wc c)" by blast
  have "pm_method sample_monitor \<noteq> TCP" by (simp add: sample_monitor_def)
  from website_probe_guard [OF this c(1)] c show ?thesis by (auto simp: sample_monitor_def)
qed

subsection \<open>Alerts\<close>

fun is_message :: "notify_effect \<Rightarrow> bool" where
  "is_message (SentMessage _ _) = True"
| "is_message _ = False"

text \<open>The monitor as the database holds it after the marks of an attempt that all matched.\<close>

definition apply_marks :: "notify_effect list \<Rightarrow> website_monitor \<Rightarrow> website_monitor" where
  "apply_marks es m = foldl (\<lambda>m e. case e of MarkedNotified s \<Rightarrow> m\<lparr>last_notified_at := s\<rparr> | _ \<Rightarrow> m) m es"



end
