(* ===== verification/ClientInput.thy ===== *)
theory ClientInput
  imports JsJson
begin

section \<open>Client records entered by the administrator\<close>

text \<open>
  \<open>utils/client.ts\<close>: validation of new and changed client records and the shape of agent tokens.
  Error texts are constructors that name the field; the default name of a client is an ASCII
  stand-in for the source's Chinese text. SHA-256, random bytes and random ids are arguments.
\<close>

definition MAX_SAFE_BYTES :: int where "MAX_SAFE_BYTES = MAX_SAFE_INTEGER"

definition TEXT_LIMITS :: "(string \<times> nat) list" where
  "TEXT_LIMITS = [(''name'', 128), (''cpu_name'', 256), (''virtualization'', 128), (''arch'', 64), (''os'', 128),
     (''kernel_version'', 128), (''gpu_name'', 256), (''ipv4'', 128), (''ipv6'', 128), (''region'', 128),
     (''remark'', 1000), (''public_remark'', 1000), (''version'', 128), (''currency'', 16), (''expired_at'', 64),
     (''group'', 128)]"

definition BOOLEAN_FIELDS :: "string list" where "BOOLEAN_FIELDS = [''auto_renewal'', ''hidden'']"
definition INTEGER_FIELDS :: "string list" where
  "INTEGER_FIELDS = [''cpu_cores'', ''billing_cycle'', ''mem_total'', ''swap_total'', ''disk_total'', ''traffic_limit'', ''traffic_reset_day'']"
definition NUMBER_FIELDS :: "string list" where "NUMBER_FIELDS = [''price'']"
definition TRAFFIC_LIMIT_TYPES :: "string list" where
  "TRAFFIC_LIMIT_TYPES = [''sum'', ''max'', ''min'', ''up'', ''down'', ''unlimited'']"
definition MAX_TAGS :: nat where "MAX_TAGS = 50"
definition MAX_TAG_LENGTH :: nat where "MAX_TAG_LENGTH = 64"
definition MAX_TAGS_TEXT_LENGTH :: nat where "MAX_TAGS_TEXT_LENGTH = 1000"
definition AGENT_TOKEN_BYTES :: nat where "AGENT_TOKEN_BYTES = 32"
definition MIN_AGENT_TOKEN_LENGTH :: nat where "MIN_AGENT_TOKEN_LENGTH = 32"
definition MAX_AGENT_TOKEN_LENGTH :: nat where "MAX_AGENT_TOKEN_LENGTH = 256"

datatype client_error = NotAnObject | NotAString string | TooLong string | NotABoolean string | OutOfRange string
  | NotAnInteger string | TagsNotStrings | TagTooLong | TooManyTags | TagsTooLong | TrafficTypeInvalid
  | BadIdentifier string | BadToken | FieldNotAllowed string

text \<open>A reader gives the value (\<open>Undef\<close> for none) and the errors it pushed.\<close>

type_synonym read = "jsval \<times> client_error list"

definition readString :: "jsval \<Rightarrow> string \<Rightarrow> nat \<Rightarrow> read" where
  "readString v field maxLength = (case v of
       Undef \<Rightarrow> (Undef, [])
     | Null \<Rightarrow> (Null, [])
     | Arr _ \<Rightarrow> (Undef, [NotAString field])
     | Obj _ \<Rightarrow> (Undef, [NotAString field])
     | _ \<Rightarrow>
         (let tx = js_trim (js_String v)
          in if length tx > maxLength then (Undef, [TooLong field]) else (Str tx, [])))"

definition client_readBoolean :: "jsval \<Rightarrow> string \<Rightarrow> read" where
  "client_readBoolean v field = (case v of
       Undef \<Rightarrow> (Undef, [])
     | Bool b \<Rightarrow> (Bool b, [])
     | Num x \<Rightarrow> if x = Fin 1 then (Bool True, []) else if x = Fin 0 then (Bool False, []) else (Undef, [NotABoolean field])
     | Str s \<Rightarrow>
         (let normalized = js_toLowerCase (js_trim s)
          in if normalized = ''true'' \<or> normalized = ''1'' then (Bool True, [])
             else if normalized = ''false'' \<or> normalized = ''0'' then (Bool False, [])
             else (Undef, [NotABoolean field]))
     | _ \<Rightarrow> (Undef, [NotABoolean field]))"

definition numericBounds :: "string \<Rightarrow> int \<times> int" where
  "numericBounds field =
     (if field = ''price'' then (- 1, 1000000000)
      else if field = ''cpu_cores'' then (0, 1024)
      else if field = ''billing_cycle'' then (- 1, 36500)
      else if field = ''traffic_reset_day'' then (1, 31)
      else (0, MAX_SAFE_BYTES))"

definition readNumber :: "jsval \<Rightarrow> string \<Rightarrow> bool \<Rightarrow> read" where
  "readNumber v field integer =
     (if v = Undef \<or> v = Null \<or> v = Str [] then (Undef, [])
      else let x = (case v of Num y \<Rightarrow> y | _ \<Rightarrow> str_to_num (js_trim (js_String v)));
               (lo, hi) = numericBounds field
           in if \<not> js_isFinite x \<or> js_lt x (FinI lo) \<or> js_lt (FinI hi) x then (Undef, [OutOfRange field])
              else if integer \<and> \<not> js_isInteger x then (Undef, [NotAnInteger field])
              else (Num x, []))"

text \<open>The loop over tag items: the tags so far and the errors; \<open>None\<close> for an early return.\<close>

fun tags_loop :: "jsval list \<Rightarrow> string list \<Rightarrow> client_error list \<Rightarrow> string list option \<times> client_error list" where
  "tags_loop [] tags errs = (Some tags, errs)"
| "tags_loop (item # items) tags errs =
     (if \<not> (case item of Str _ \<Rightarrow> True | Num _ \<Rightarrow> True | _ \<Rightarrow> False) then (None, errs @ [TagsNotStrings])
      else let tag = js_trim (js_String item)
           in if tag = [] then tags_loop items tags errs
              else if length tag > MAX_TAG_LENGTH then tags_loop items tags (errs @ [TagTooLong])
              else if tag \<in> set tags then tags_loop items tags errs
              else tags_loop items (tags @ [tag]) errs)"

definition normalizeTags :: "jsval \<Rightarrow> read" where
  "normalizeTags v =
     (if v = Undef \<or> v = Null then (Undef, [])
      else let source = (case v of Arr xs \<Rightarrow> xs
                         | _ \<Rightarrow> map Str (split_on (\<lambda>c. c = CHR '';'' \<or> c = CHR '','') (js_String v)))
           in case tags_loop source [] [] of
               (None, errs) \<Rightarrow> (Undef, errs)
             | (Some tags, errs) \<Rightarrow>
                 (let errs1 = errs @ (if length tags > MAX_TAGS then [TooManyTags] else []);
                      normalized = js_join '';'' (take MAX_TAGS tags)
                  in if length normalized > MAX_TAGS_TEXT_LENGTH then (Undef, errs1 @ [TagsTooLong])
                     else (Str normalized, errs1)))"

text \<open>The pattern \<open>^bandwidth:\d+(?:\.\d+)?(?:Mbps|Gbps)$\<close> in any case, and the rewritten unit.\<close>

definition is_decimal :: "string \<Rightarrow> bool" where
  "is_decimal s = (case js_split CHR ''.'' s of
       [a] \<Rightarrow> a \<noteq> [] \<and> list_all is_digit a
     | [a, b] \<Rightarrow> a \<noteq> [] \<and> list_all is_digit a \<and> b \<noteq> [] \<and> list_all is_digit b
     | _ \<Rightarrow> False)"

definition is_bandwidth :: "string \<Rightarrow> bool" where
  "is_bandwidth tx \<longleftrightarrow>
     (let l = js_toLowerCase tx
      in js_startsWith l ''bandwidth:'' \<and> (js_endsWith l ''mbps'' \<or> js_endsWith l ''gbps'') \<and> 14 \<le> length l \<and>
         is_decimal (drop 10 (take (length tx - 4) tx)))"

definition canonical_unit :: "string \<Rightarrow> string" where
  "canonical_unit tx =
     take (length tx - 4) tx @ (if js_toLowerCase (drop (length tx - 4) tx) = ''gbps'' then ''Gbps'' else ''Mbps'')"

definition normalizeTrafficLimitType :: "jsval \<Rightarrow> read" where
  "normalizeTrafficLimitType v = (case readString v ''traffic_limit_type'' 64 of
       (Undef, errs) \<Rightarrow> (Undef, errs)
     | (Str tx, errs) \<Rightarrow>
         if tx = [] then (Str ''sum'', errs)
         else if tx \<in> set TRAFFIC_LIMIT_TYPES then (Str tx, errs)
         else if is_bandwidth tx then (Str (canonical_unit tx), errs)
         else (Undef, errs @ [TrafficTypeInvalid])
     | (_, errs) \<Rightarrow> (Str ''sum'', errs))"

subsection \<open>Identifiers and tokens\<close>

definition is_alnum :: "char \<Rightarrow> bool" where
  "is_alnum c \<longleftrightarrow> is_AZ c \<or> is_az c \<or> is_digit c"

definition is_token_char :: "char \<Rightarrow> bool" where
  "is_token_char c \<longleftrightarrow> is_alnum c \<or> c \<in> set ''._:-''"

definition readIdentifier :: "jsval \<Rightarrow> string \<Rightarrow> string \<Rightarrow> string \<times> client_error list" where
  "readIdentifier v field fallback =
     (if v = Undef \<or> v = Null \<or> v = Str [] then (fallback, [])
      else case v of
          Str s \<Rightarrow>
            (let tx = js_trim s
             in if length tx < 1 \<or> length tx > 128 \<or> \<not> (is_alnum (hd tx) \<and> list_all is_token_char (tl tx))
                then (fallback, [BadIdentifier field]) else (tx, []))
        | _ \<Rightarrow> (fallback, [NotAString field]))"

definition generateAgentToken :: "bytes \<Rightarrow> string" where
  "generateAgentToken rnd = bytes_to_hex rnd"

definition hashAgentToken :: "(bytes \<Rightarrow> bytes) \<Rightarrow> string \<Rightarrow> string" where
  "hashAgentToken sha token = ''sha256:'' @ bytes_to_hex (sha (utf8_encode token))"

text \<open>The pattern \<open>^sha256:[a-f0-9]{64}$\<close> in any case.\<close>

definition isAgentTokenHash :: "string \<Rightarrow> bool" where
  "isAgentTokenHash token \<longleftrightarrow>
     (let t = js_trim token
      in js_toLowerCase (take 7 t) = ''sha256:'' \<and> length t = 71 \<and> list_all is_hex_any (drop 7 t))"

definition isAgentTokenShape :: "string \<Rightarrow> bool" where
  "isAgentTokenShape token \<longleftrightarrow>
     \<not> isAgentTokenHash token \<and> MIN_AGENT_TOKEN_LENGTH \<le> length token \<and> length token \<le> MAX_AGENT_TOKEN_LENGTH \<and>
     token \<noteq> [] \<and> list_all is_token_char token"

definition readToken :: "jsval \<Rightarrow> string \<Rightarrow> string \<times> client_error list" where
  "readToken v fallback =
     (if v = Undef \<or> v = Null \<or> v = Str [] then (fallback, [])
      else case v of
          Str s \<Rightarrow> (let tx = js_trim s in if \<not> isAgentTokenShape tx then (fallback, [BadToken]) else (tx, []))
        | _ \<Rightarrow> (fallback, [NotAString ''token'']))"

subsection \<open>Records\<close>

record new_client =
  nc_uuid :: string
  nc_token :: string
  nc_name :: string

definition DEFAULT_CLIENT_NAME :: string where "DEFAULT_CLIENT_NAME = ''unnamed server''"

definition validateClientCreateInput :: "string \<Rightarrow> bytes \<Rightarrow> jsval \<Rightarrow> client_error list + new_client" where
  "validateClientCreateInput randomUuid rnd input = (case input of
       Obj o1 \<Rightarrow>
         (let e0 = map FieldNotAllowed (filter (\<lambda>k. k \<notin> {''uuid'', ''token'', ''name''}) (map fst o1));
              (uuid, e1) = readIdentifier (js_get o1 ''uuid'') ''uuid'' randomUuid;
              (token, e2) = readToken (js_get o1 ''token'') (generateAgentToken rnd);
              (nameVal, e3) = readString (js_get o1 ''name'') ''name'' 128;
              name = (if js_truthy nameVal then js_String nameVal else DEFAULT_CLIENT_NAME);
              errors = e0 @ e1 @ e2 @ e3
          in if errors \<noteq> [] then Inl errors else Inr \<lparr>nc_uuid = uuid, nc_token = token, nc_name = name\<rparr>)
     | _ \<Rightarrow> Inl [NotAnObject])"

text \<open>One entry of the input: what it writes and the errors it pushes.\<close>

definition update_field :: "string \<Rightarrow> jsval \<Rightarrow> read" where
  "update_field field v =
     (if field = ''uuid'' \<or> field = ''token'' then (Undef, [])
      else case map_of TEXT_LIMITS field of
          Some limit \<Rightarrow> readString v field limit
        | None \<Rightarrow>
            if field = ''tags'' then normalizeTags v
            else if field = ''traffic_limit_type'' then normalizeTrafficLimitType v
            else if field \<in> set BOOLEAN_FIELDS then client_readBoolean v field
            else if field \<in> set INTEGER_FIELDS then readNumber v field True
            else if field \<in> set NUMBER_FIELDS then readNumber v field False
            else (Undef, [FieldNotAllowed field]))"

fun update_loop :: "jsobj \<Rightarrow> jsobj \<Rightarrow> client_error list \<Rightarrow> jsobj \<times> client_error list" where
  "update_loop [] client errs = (client, errs)"
| "update_loop ((field, v) # entries) client errs =
     (case update_field field v of (normalized, es) \<Rightarrow>
        update_loop entries (if normalized = Undef then client else AList.update field normalized client) (errs @ es))"

definition validateClientUpdateInput :: "jsval \<Rightarrow> client_error list + jsobj" where
  "validateClientUpdateInput input = (case input of
       Obj entries \<Rightarrow>
         (case update_loop entries [] [] of (client, errors) \<Rightarrow> if errors \<noteq> [] then Inl errors else Inr client)
     | _ \<Rightarrow> Inl [NotAnObject])"

subsection \<open>Accepted updates\<close>

definition number_ok :: "string \<Rightarrow> jsval \<Rightarrow> bool" where
  "number_ok field v = (case v of
       Num (Fin q) \<Rightarrow> of_int (fst (numericBounds field)) \<le> q \<and> q \<le> of_int (snd (numericBounds field)) | _ \<Rightarrow> False)"

definition traffic_type_ok :: "string \<Rightarrow> bool" where
  "traffic_type_ok t \<longleftrightarrow> t \<in> set TRAFFIC_LIMIT_TYPES \<or>
     (\<exists>p. t = p @ ''Mbps'' \<or> t = p @ ''Gbps'')"

text \<open>What may be stored in a field.\<close>

definition field_ok :: "string \<Rightarrow> jsval \<Rightarrow> bool" where
  "field_ok field v =
     (case map_of TEXT_LIMITS field of
        Some limit \<Rightarrow> v = Null \<or> (\<exists>s. v = Str s \<and> length s \<le> limit \<and> js_trim s = s)
      | None \<Rightarrow>
          if field = ''tags'' then (\<exists>s. v = Str s \<and> length s \<le> 1000)
          else if field = ''traffic_limit_type'' then (\<exists>s. v = Str s \<and> traffic_type_ok s)
          else if field \<in> set BOOLEAN_FIELDS then v = Bool True \<or> v = Bool False
          else if field \<in> set INTEGER_FIELDS then number_ok field v \<and> (\<exists>i. v = Num (FinI i))
          else if field \<in> set NUMBER_FIELDS then number_ok field v
          else False)"

lemma readString_ok: "readString v f n = (r, e) \<Longrightarrow> r \<noteq> Undef \<Longrightarrow> r = Null \<or> (\<exists>s. r = Str s \<and> length s \<le> n \<and> js_trim s = s)"
  by (auto simp: readString_def Let_def split: jsval.splits if_splits)

lemma readNumber_ok:
  assumes "readNumber v f i = (r, e)" "r \<noteq> Undef"
  shows "number_ok f r \<and> (i \<longrightarrow> (\<exists>k. r = Num (FinI k)))"
proof -
  obtain x where x: "r = Num x" "js_isFinite x" "\<not> js_lt x (FinI (fst (numericBounds f)))"
      "\<not> js_lt (FinI (snd (numericBounds f))) x" "i \<longrightarrow> js_isInteger x"
    using assms by (auto simp: readNumber_def Let_def split: if_splits prod.splits)
  then obtain q where q: "x = Fin q" by (cases x) auto
  have "i \<longrightarrow> (\<exists>k. x = FinI k)" using x(5) by (auto elim: js_isIntegerE)
  then show ?thesis using x(1,3,4) q by (auto simp: number_ok_def not_less)
qed

lemma readBoolean_ok: "client_readBoolean v f = (r, e) \<Longrightarrow> r \<noteq> Undef \<Longrightarrow> r = Bool True \<or> r = Bool False"
  by (cases v) (auto simp: client_readBoolean_def Let_def split: if_splits)

lemma normalizeTags_ok: "normalizeTags v = (r, e) \<Longrightarrow> r \<noteq> Undef \<Longrightarrow> \<exists>s. r = Str s \<and> length s \<le> 1000"
  by (auto simp: normalizeTags_def Let_def MAX_TAGS_TEXT_LENGTH_def split: if_splits prod.splits option.splits)

lemma normalizeTrafficLimitType_ok:
  assumes "normalizeTrafficLimitType v = (r, e)" "r \<noteq> Undef"
  shows "\<exists>s. r = Str s \<and> traffic_type_ok s"
proof -
  have "traffic_type_ok ''sum''" by (simp add: traffic_type_ok_def TRAFFIC_LIMIT_TYPES_def)
  moreover have "traffic_type_ok (canonical_unit t)" for t by (auto simp: traffic_type_ok_def canonical_unit_def)
  moreover have "t \<in> set TRAFFIC_LIMIT_TYPES \<Longrightarrow> traffic_type_ok t" for t by (simp add: traffic_type_ok_def)
  ultimately show ?thesis using assms
    by (auto simp: normalizeTrafficLimitType_def split: prod.splits jsval.splits if_splits)
qed

lemma update_field_ok: "update_field f v = (r, e) \<Longrightarrow> r \<noteq> Undef \<Longrightarrow> field_ok f r"
  by (auto simp: update_field_def field_ok_def split: if_splits option.splits
      dest: readString_ok readNumber_ok readBoolean_ok normalizeTags_ok normalizeTrafficLimitType_ok)

lemma update_loop_ok:
  assumes "update_loop entries client errs = (c, es)" "\<forall>(k, v) \<in> set client. field_ok k v" "distinct (map fst client)"
  shows "(\<forall>(k, v) \<in> set c. field_ok k v) \<and> distinct (map fst c) \<and> fst ` set c \<subseteq> fst ` set client \<union> fst ` set entries"
  using assms
proof (induction entries client errs rule: update_loop.induct)
  case (2 f v entries client errs)
  obtain r e where r: "update_field f v = (r, e)" by force
  let ?c = "if r = Undef then client else AList.update f r client"
  have lp: "update_loop entries ?c (errs @ e) = (c, es)" using 2(2) r by simp
  have "\<forall>(k, v) \<in> set ?c. field_ok k v"
  proof (cases "r = Undef")
    case False
    have "(k, x) \<in> set (AList.update f r client) \<Longrightarrow> (k, x) = (f, r) \<or> (k, x) \<in> set client" for k x
      by (induction client) (auto split: if_splits)
    then show ?thesis using False 2(3) update_field_ok [OF r False] by fastforce
  qed (use 2(3) in simp)
  moreover have "distinct (map fst ?c)" using 2(4) by (simp add: distinct_update)
  moreover have "fst ` set ?c \<union> fst ` set entries \<subseteq> fst ` set client \<union> fst ` set ((f, v) # entries)"
    by (auto simp: dom_update)
  ultimately show ?case using 2(1) [OF r [symmetric] lp] by (meson order_trans)
qed simp

lemma field_ok_keys: "\<forall>(k, v) \<in> set client. field_ok k v \<Longrightarrow> (\<And>v. \<not> field_ok x v) \<Longrightarrow> x \<notin> fst ` set client"
  by force

text \<open>
  An accepted change touches only fields an administrator may edit, each at most once and with
  a value in its bounds: texts trimmed and within their limits, numbers in range and integral
  where they must be, flags boolean, tags within 1000 characters, a known traffic type; the
  client's id and token can not be changed this way.
\<close>

theorem client_update_allowlist:
  assumes "validateClientUpdateInput input = Inr client"
  shows "(\<forall>(k, v) \<in> set client. field_ok k v) \<and> distinct (map fst client) \<and>
    fst ` set client \<subseteq> fst ` set (asObject input) - {''uuid'', ''token''}"
proof -
  obtain entries where i: "input = Obj entries" "update_loop entries [] [] = (client, [])"
    using assms by (auto simp: validateClientUpdateInput_def split: jsval.splits prod.splits if_splits)
  have l: "(\<forall>(k, v) \<in> set client. field_ok k v)" "distinct (map fst client)" "fst ` set client \<subseteq> fst ` set entries"
    using update_loop_ok [OF i(2)] by auto
  have "\<not> field_ok ''uuid'' v" "\<not> field_ok ''token'' v" for v
    by (simp_all add: field_ok_def TEXT_LIMITS_def BOOLEAN_FIELDS_def INTEGER_FIELDS_def NUMBER_FIELDS_def)
  then have "''uuid'' \<notin> fst ` set client" "''token'' \<notin> fst ` set client"
    using field_ok_keys [OF l(1)] by metis+
  then have "fst ` set client \<subseteq> fst ` set entries - {''uuid'', ''token''}"
    using l(3) by (simp only: subset_Diff_insert Diff_empty not_False_eq_True simp_thms)
  then show ?thesis using l(1,2) unfolding i(1) asObject.simps by (intro conjI)
qed

theorem client_update_allowlist_witness:
  "\<exists>client. validateClientUpdateInput (Obj [(''hidden'', Bool True), (''token'', Str ''x'')]) = Inr client \<and>
     (\<forall>(k, v) \<in> set client. field_ok k v)"
proof -
  have "\<exists>client. validateClientUpdateInput (Obj [(''hidden'', Bool True), (''token'', Str ''x'')]) = Inr client"
    by (simp add: validateClientUpdateInput_def update_field_def TEXT_LIMITS_def BOOLEAN_FIELDS_def client_readBoolean_def)
  then show ?thesis using client_update_allowlist by blast
qed

subsection \<open>New clients and tokens\<close>

lemma hex_token_char: "is_hex_lower c \<Longrightarrow> is_token_char c"
  by (auto simp: is_hex_lower_def is_token_char_def is_alnum_def is_az_def)

lemma hex_not_ws: "is_hex_lower c \<Longrightarrow> \<not> is_ws c"
  by (auto simp: is_hex_lower_def is_digit_def is_ws_def)

lemma generated_token_shape:
  assumes "length rnd = AGENT_TOKEN_BYTES"
  shows "isAgentTokenShape (generateAgentToken rnd)"
proof -
  have h: "list_all is_hex_lower (bytes_to_hex rnd)" "length (bytes_to_hex rnd) = 64"
    using bytes_to_hex_shape [of rnd] assms by (auto simp: AGENT_TOKEN_BYTES_def)
  have "js_trim (bytes_to_hex rnd) = bytes_to_hex rnd"
    using h(1) hex_not_ws by (intro js_trim_id) (auto simp: list_all_iff)
  then have "\<not> isAgentTokenHash (bytes_to_hex rnd)" using h(2) by (simp add: isAgentTokenHash_def)
  moreover have "list_all is_token_char (bytes_to_hex rnd)" using h(1) hex_token_char by (auto simp: list_all_iff)
  ultimately show ?thesis using h(2)
    by (auto simp: isAgentTokenShape_def generateAgentToken_def MIN_AGENT_TOKEN_LENGTH_def MAX_AGENT_TOKEN_LENGTH_def)
qed

lemma hash_is_hash:
  assumes "\<forall>m. length (sha m) = 32"
  shows "isAgentTokenHash (hashAgentToken sha token)"
proof -
  let ?x = "bytes_to_hex (sha (utf8_encode token))"
  have h: "list_all is_hex_lower ?x" "length ?x = 64" using bytes_to_hex_shape assms by auto
  have "js_trim (''sha256:'' @ ?x) = ''sha256:'' @ ?x"
    using h(1) hex_not_ws by (intro js_trim_id) (auto simp: list_all_iff is_ws_def cc_def)
  moreover have "list_all is_hex_any ?x" using h(1) by (auto simp: list_all_iff is_hex_any_def)
  ultimately show ?thesis using h(2)
    by (simp add: isAgentTokenHash_def hashAgentToken_def js_toLowerCase_def lower_char_def is_AZ_def cc_def Let_def)
qed

text \<open>
  A created client gets a usable token: an accepted creation request yields a token of the
  agent token shape, entered or generated, and a name of 1 to 128 characters; and a stored token
  hash is never itself of the token shape, so it can not be presented in place of the token.
\<close>

theorem client_create_token:
  assumes "length rnd = AGENT_TOKEN_BYTES" "\<forall>m. length (sha m) = 32"
    "validateClientCreateInput randomUuid rnd input = Inr c"
  shows "isAgentTokenShape (nc_token c) \<and> nc_name c \<noteq> [] \<and> length (nc_name c) \<le> 128 \<and>
    isAgentTokenHash (hashAgentToken sha (nc_token c)) \<and> \<not> isAgentTokenShape (hashAgentToken sha (nc_token c))"
proof -
  obtain o1 where o1: "input = Obj o1" using assms(3) by (cases input) (auto simp: validateClientCreateInput_def)
  obtain tk e2 where tk: "readToken (js_get o1 ''token'') (generateAgentToken rnd) = (tk, e2)" by force
  obtain nv e3 where nv: "readString (js_get o1 ''name'') ''name'' 128 = (nv, e3)" by force
  have c: "nc_token c = tk" "nc_name c = (if js_truthy nv then js_String nv else DEFAULT_CLIENT_NAME)" "e2 = []" "e3 = []"
    using assms(3) tk nv by (auto simp: validateClientCreateInput_def o1 Let_def split: prod.splits if_splits)
  have "isAgentTokenShape tk"
    using tk c(3) generated_token_shape [OF assms(1)] by (auto simp: readToken_def Let_def split: if_splits jsval.splits)
  moreover have "nc_name c \<noteq> [] \<and> length (nc_name c) \<le> 128"
    using nv c(2,4) by (auto simp: readString_def Let_def DEFAULT_CLIENT_NAME_def split: jsval.splits if_splits)
  moreover have "isAgentTokenHash (hashAgentToken sha tk)" using hash_is_hash [OF assms(2)] .
  ultimately show ?thesis using c(1) by (simp add: isAgentTokenShape_def)
qed

theorem client_create_token_witness:
  "\<exists>c. validateClientCreateInput ''u'' (replicate 32 3) (Obj []) = Inr c \<and> isAgentTokenShape (nc_token c)"
proof -
  have "\<exists>c. validateClientCreateInput ''u'' (replicate 32 3) (Obj []) = Inr c"
    by (simp add: validateClientCreateInput_def js_get_def readIdentifier_def readToken_def readString_def Let_def)
  then show ?thesis using client_create_token [of "replicate 32 3" "\<lambda>m. replicate 32 0"] by (auto simp: AGENT_TOKEN_BYTES_def)
qed

end
