(* ===== verification/Webhook.thy ===== *)
theory Webhook
  imports WebsiteMonitor
begin

section \<open>Webhook notifications\<close>

text \<open>
  \<open>utils/webhook.ts\<close> and \<open>utils/smtp-host.ts\<close>: which addresses a webhook or a mail server may
  have, how a request is built for each provider, and the sending loop with its retries.
  Thrown errors are the message texts of the source. Outside the model and therefore arguments:
  the URL parser and \<open>URLSearchParams.set\<close>, HMAC-SHA-256, the date format, the strict text
  decoder and the network. An optional setting is the empty string when absent, since the code
  tests every one of them for truth only.
\<close>

record notification =
  subject :: string
  body :: string
  event :: string
  clients :: string
  ntime :: string
  emoji :: string

datatype hook_format = Generic | Slack | Discord | Feishu | Dingtalk | Wecom | Custom

fun format_text :: "hook_format \<Rightarrow> string" where
  "format_text Generic = ''generic''"
| "format_text Slack = ''slack''"
| "format_text Discord = ''discord''"
| "format_text Feishu = ''feishu''"
| "format_text Dingtalk = ''dingtalk''"
| "format_text Wecom = ''wecom''"
| "format_text Custom = ''custom''"

record webhook_config =
  wc_url :: string
  wc_format :: hook_format
  wc_secret :: string
  wc_method :: string
  wc_contentType :: string
  wc_headersJson :: string
  wc_bodyTemplate :: string
  wc_username :: string
  wc_password :: string
  wc_retryCount :: jsnum

datatype hook_method = HookGet | HookPost

type_synonym headers = "(string \<times> string) list"

record webhook_request =
  wr_url :: string
  wr_host :: string
  wr_method :: hook_method
  wr_body :: "string option"
  wr_headers :: headers

datatype send_result = Sent int string | NotSent "int option" "string option" string

definition WEBHOOK_MESSAGE_MAX_CHARS :: nat where "WEBHOOK_MESSAGE_MAX_CHARS = 4000"
definition WEBHOOK_DISCORD_MAX_CHARS :: nat where "WEBHOOK_DISCORD_MAX_CHARS = 1900"
definition WEBHOOK_WECOM_MAX_BYTES :: nat where "WEBHOOK_WECOM_MAX_BYTES = 2048"
definition WEBHOOK_RESPONSE_ERROR_MAX_CHARS :: nat where "WEBHOOK_RESPONSE_ERROR_MAX_CHARS = 1024"
definition WEBHOOK_PROVIDER_RESPONSE_MAX_BYTES :: nat where "WEBHOOK_PROVIDER_RESPONSE_MAX_BYTES = 16 * 1024"

text \<open>\<open>replace(/\s+/g, ' ')\<close>.\<close>

fun collapse_ws :: "bool \<Rightarrow> string \<Rightarrow> string" where
  "collapse_ws _ [] = []"
| "collapse_ws pending (c # s) =
     (if is_ws c then (if pending then [] else '' '') @ collapse_ws True s else c # collapse_ws False s)"

definition errorDetail :: "string \<Rightarrow> string" where
  "errorDetail msg = take 700 (js_trim (collapse_ws False msg))"

subsection \<open>Addresses\<close>

text \<open>The helpers the module repeats from the website monitor, word for word.\<close>

abbreviation hook_parseIPv4 :: "string \<Rightarrow> nat list option" where "hook_parseIPv4 \<equiv> web_parseIPv4"
abbreviation hook_isAmbiguousNumericHost :: "string \<Rightarrow> bool" where
  "hook_isAmbiguousNumericHost \<equiv> web_isAmbiguousNumericHost"

fun hook_isBlockedIPv4 :: "nat list \<Rightarrow> bool" where
  "hook_isBlockedIPv4 (a # b # _) \<longleftrightarrow>
     a = 0 \<or> a = 10 \<or> a = 127 \<or> (a = 100 \<and> 64 \<le> b \<and> b \<le> 127) \<or> (a = 169 \<and> b = 254) \<or>
     (a = 172 \<and> 16 \<le> b \<and> b \<le> 31) \<or> (a = 192 \<and> b = 168) \<or> (a = 198 \<and> (b = 18 \<or> b = 19))"
| "hook_isBlockedIPv4 _ = False"

definition isUnsafeWebhookHostname :: "string \<Rightarrow> bool" where
  "isUnsafeWebhookHostname hn =
     (let host = strip_dot (strip_brackets (js_toLowerCase hn)) in
      if host = [] \<or> host = ''localhost'' \<or> js_endsWith host ''.localhost'' then True
      else if host = ''169.254.169.254'' \<or> host = ''fd00:ec2::254'' then True
      else if hook_isAmbiguousNumericHost host then True
      else case hook_parseIPv4 host of
          Some ipv4 \<Rightarrow> hook_isBlockedIPv4 ipv4
        | None \<Rightarrow>
            if CHR '':'' \<notin> set host then False
            else if isIPv4MappedIPv6 host then True
            else if host = ''::'' \<or> host = ''::1'' then True
            else if list_ex (js_startsWith host) [''fc'', ''fd'', ''fe8'', ''fe9'', ''fea'', ''feb''] then True
            else False)"

text \<open>An accepted address: its serialised form and its host.\<close>

definition validateWebhookUrl ::
  "(string \<Rightarrow> url option) \<Rightarrow> string \<Rightarrow> string \<Rightarrow> string + (string \<times> string)" where
  "validateWebhookUrl url_parse rawUrl selfHost = (case url_parse (js_trim rawUrl) of
       None \<Rightarrow> Inl ''invalid_url''
     | Some u \<Rightarrow>
         if protocol u \<noteq> ''https:'' then Inl ''invalid_protocol''
         else if hostname u = [] then Inl ''invalid_host''
         else if url_username u \<noteq> [] \<or> url_password u \<noteq> [] then Inl ''url_credentials_not_allowed''
         else if isUnsafeWebhookHostname (hostname u) then Inl ''unsafe_host''
         else let self = js_toLowerCase (js_trim selfHost)
              in if self \<noteq> [] \<and> js_toLowerCase (hostname u) = self then Inl ''self_host''
                 else Inr (href u, js_toLowerCase (hostname u)))"

text \<open>\<open>normalizeSmtpHost\<close>: the class \<open>[\s/@:?#\\]\<close> must not occur.\<close>

definition smtp_forbidden :: "char \<Rightarrow> bool" where
  "smtp_forbidden c \<longleftrightarrow> is_ws c \<or> c \<in> set ''/@:?#'' \<or> cc c = 92"

definition normalizeSmtpHost :: "(string \<Rightarrow> url option) \<Rightarrow> jsval \<Rightarrow> string option" where
  "normalizeSmtpHost url_parse v = (case v of
       Undef \<Rightarrow> Some []
     | Null \<Rightarrow> Some []
     | Str s \<Rightarrow>
         if s = [] then Some []
         else let host = js_toLowerCase (js_trim s)
              in if host = [] \<or> list_ex smtp_forbidden host then None
                 else (case validateWebhookUrl url_parse (''https://'' @ host @ ''/'') [] of
                         Inr (_, h) \<Rightarrow> if h = host then Some host else None
                       | Inl _ \<Rightarrow> None)
     | _ \<Rightarrow> None)"

subsection \<open>Texts\<close>

definition truncateMessage :: "string \<Rightarrow> nat \<Rightarrow> string" where
  "truncateMessage v mx = (if length v > mx then take mx v else v)"

fun utf8_prefix :: "nat \<Rightarrow> string \<Rightarrow> nat" where
  "utf8_prefix room [] = 0"
| "utf8_prefix room (c # s) =
     (let size = length (utf8_char c) in if size > room then 0 else Suc (utf8_prefix (room - size) s))"

definition truncateUtf8Message :: "string \<Rightarrow> nat \<Rightarrow> string" where
  "truncateUtf8Message v maxBytes = take (utf8_prefix maxBytes v) v"

definition templateValues :: "(int \<Rightarrow> string) \<Rightarrow> notification \<Rightarrow> int \<Rightarrow> (string \<times> string) list" where
  "templateValues isoTime n nowMs =
     [(''title'', subject n), (''message'', body n), (''event'', event n), (''client'', clients n),
      (''time'', if ntime n \<noteq> [] then ntime n else isoTime nowMs), (''emoji'', emoji n), (''source'', ''cf-vps-monitor'')]"

definition jsonTemplateEscape :: "string \<Rightarrow> string" where
  "jsonTemplateEscape v = slice_ends (json_quote v)"

text \<open>\<open>encodeURIComponent\<close>: everything but letters, digits and \<open>-_.!~*'()\<close> becomes escaped bytes.\<close>

definition uri_unreserved :: "char \<Rightarrow> bool" where
  "uri_unreserved c \<longleftrightarrow> is_AZ c \<or> is_az c \<or> is_digit c \<or> cc c \<in> {45, 95, 46, 33, 126, 42, 39, 40, 41}"

definition pct_byte :: "byte \<Rightarrow> string" where
  "pct_byte b = CHR ''%'' # js_toUpperCase [hex_char (unat b div 16), hex_char (unat b mod 16)]"

definition encodeURIComponent :: "string \<Rightarrow> string" where
  "encodeURIComponent s = concat (map (\<lambda>c. if uri_unreserved c then [c] else concat (map pct_byte (utf8_char c))) s)"

datatype render_mode = PlainMode | JsonMode | UrlMode

fun render_value :: "render_mode \<Rightarrow> string \<Rightarrow> string" where
  "render_value JsonMode v = jsonTemplateEscape v"
| "render_value UrlMode v = encodeURIComponent v"
| "render_value PlainMode v = v"

definition TEMPLATE_KEYS :: "string list" where
  "TEMPLATE_KEYS = [''title'', ''message'', ''event'', ''client'', ''time'', ''emoji'', ''source'']"

text \<open>The placeholder a text starts with, if any: the global pattern looks for one at each position.\<close>

definition placeholder :: "string \<Rightarrow> string option" where
  "placeholder s = List.find (\<lambda>k. js_startsWith s (''{{'' @ k @ ''}}'')) TEMPLATE_KEYS"

function renderWebhookTemplate :: "(string \<times> string) list \<Rightarrow> render_mode \<Rightarrow> string \<Rightarrow> string" where
  "renderWebhookTemplate vals m [] = []"
| "renderWebhookTemplate vals m (c # s) = (case placeholder (c # s) of
       Some k \<Rightarrow> render_value m (case map_of vals k of Some v \<Rightarrow> v | None \<Rightarrow> []) @
                 renderWebhookTemplate vals m (drop (length k + 3) s)
     | None \<Rightarrow> c # renderWebhookTemplate vals m s)"
  by pat_completeness auto
termination by (relation "measure (\<lambda>(_, _, s). length s)") auto

definition isJsonContentType :: "string \<Rightarrow> bool" where
  "isJsonContentType v = js_includes (js_toLowerCase v) ''application/json''"

subsection \<open>Headers\<close>

definition is_crlf :: "char \<Rightarrow> bool" where "is_crlf c \<longleftrightarrow> cc c = 13 \<or> cc c = 10"

definition FORBIDDEN_HEADERS :: "string list" where
  "FORBIDDEN_HEADERS = [''host'', ''content-length'', ''connection'', ''transfer-encoding'']"

fun header_loop :: "jsobj \<Rightarrow> headers \<Rightarrow> string + headers" where
  "header_loop [] hs = Inr hs"
| "header_loop ((key, v) # entries) hs = (case v of
       Str value \<Rightarrow>
         (let normalizedKey = js_trim key; lowerKey = js_toLowerCase normalizedKey
          in if normalizedKey = [] \<or> list_ex (\<lambda>c. is_crlf c \<or> c = CHR '':'') normalizedKey then Inl ''invalid_header_name''
             else if lowerKey \<in> set FORBIDDEN_HEADERS then Inl (''forbidden_header:'' @ lowerKey)
             else if lowerKey = ''content-type'' then header_loop entries hs
             else if list_ex is_crlf value then Inl ''invalid_header_value''
             else header_loop entries (AList.update normalizedKey value hs))
     | _ \<Rightarrow> Inl ''invalid_header_value'')"

definition parseWebhookHeaders :: "string \<Rightarrow> string + headers" where
  "parseWebhookHeaders headersJson =
     (let raw = js_trim headersJson
      in if raw = [] then Inr []
         else case JSON_parse raw of
             None \<Rightarrow> Inl ''invalid_headers_json''
           | Some (Obj entries) \<Rightarrow> header_loop entries []
           | Some _ \<Rightarrow> Inl ''headers_json_must_be_object'')"

definition addBasicAuthHeader :: "headers \<Rightarrow> string \<Rightarrow> string \<Rightarrow> string + headers" where
  "addBasicAuthHeader hs username password =
     (if username = [] \<and> password = [] then Inr hs
      else if username = [] \<or> password = [] then Inl ''basic_auth_incomplete''
      else if list_ex (\<lambda>(k, _). js_toLowerCase k = ''authorization'') hs then Inl ''authorization_conflict''
      else Inr (AList.update ''Authorization'' (''Basic '' @ b64_encode (utf8_encode (username @ '':'' @ password))) hs))"

definition normalizedWebhookMethod :: "string \<Rightarrow> hook_method" where
  "normalizedWebhookMethod v = (if js_toUpperCase (if v = [] then ''POST'' else v) = ''GET'' then HookGet else HookPost)"

definition normalizedRetryCount :: "jsnum \<Rightarrow> nat" where
  "normalizedRetryCount count =
     (if js_isInteger count \<and> js_le (Fin 1) count \<and> js_le count (Fin 3) then nat (js_int count) else 1)"

subsection \<open>Requests\<close>

record hook_env =
  url_parse :: "string \<Rightarrow> url option"
  set_param :: "string \<Rightarrow> string \<Rightarrow> string \<Rightarrow> string"
  hmacSha256 :: "bytes \<Rightarrow> bytes \<Rightarrow> bytes"
  isoTime :: "int \<Rightarrow> string"
  decode_strict :: "bytes \<Rightarrow> string option"

definition hmac_text :: "hook_env \<Rightarrow> string \<Rightarrow> string \<Rightarrow> bytes" where
  "hmac_text env secret payload = hmacSha256 env (utf8_encode secret) (utf8_encode payload)"

abbreviation default_body_template :: string where
  "default_body_template \<equiv> [CHR ''{'', CHR 0x22] @ ''message'' @ [CHR 0x22, CHR '':'', CHR 0x22] @ ''{{message}}'' @
     [CHR 0x22, CHR '','', CHR 0x22] @ ''title'' @ [CHR 0x22, CHR '':'', CHR 0x22] @ ''{{title}}'' @ [CHR 0x22, CHR ''}'']"

definition buildCustomWebhookRequest ::
  "hook_env \<Rightarrow> webhook_config \<Rightarrow> notification \<Rightarrow> int \<Rightarrow> string + webhook_request" where
  "buildCustomWebhookRequest env config n nowMs =
     (let m = normalizedWebhookMethod (wc_method config); vals = templateValues (isoTime env) n nowMs
      in case parseWebhookHeaders (wc_headersJson config) of
          Inl e \<Rightarrow> Inl e
        | Inr hs0 \<Rightarrow> (case addBasicAuthHeader hs0 (wc_username config) (wc_password config) of
            Inl e \<Rightarrow> Inl e
          | Inr hs \<Rightarrow>
              if m = HookGet then
                (case validateWebhookUrl (url_parse env) (renderWebhookTemplate vals UrlMode (wc_url config)) [] of
                   Inl e \<Rightarrow> Inl e
                 | Inr (u, h) \<Rightarrow> Inr \<lparr>wr_url = u, wr_host = h, wr_method = m, wr_body = None, wr_headers = hs\<rparr>)
              else
                (case validateWebhookUrl (url_parse env) (wc_url config) [] of
                   Inl e \<Rightarrow> Inl e
                 | Inr (u, h) \<Rightarrow>
                     (let contentType = (if wc_contentType config = [] then ''application/json'' else wc_contentType config);
                          bodyTemplate = (if wc_bodyTemplate config = [] then default_body_template else wc_bodyTemplate config);
                          bd = renderWebhookTemplate vals (if isJsonContentType contentType then JsonMode else PlainMode) bodyTemplate
                      in Inr \<lparr>wr_url = u, wr_host = h, wr_method = m, wr_body = Some bd,
                              wr_headers = AList.update ''Content-Type'' contentType hs\<rparr>))))"

text \<open>The text, the address and the body of the built-in formats.\<close>

definition message_text :: "hook_format \<Rightarrow> notification \<Rightarrow> string" where
  "message_text f n = (if f = Wecom then truncateUtf8Message (body n) WEBHOOK_WECOM_MAX_BYTES
     else truncateMessage (body n) (if f = Discord then WEBHOOK_DISCORD_MAX_CHARS else WEBHOOK_MESSAGE_MAX_CHARS))"

definition format_request :: "hook_env \<Rightarrow> webhook_config \<Rightarrow> notification \<Rightarrow> int \<Rightarrow> string \<Rightarrow> string \<times> jsval" where
  "format_request env config n nowMs url0 =
     (let timestamp = int_to_str (nowMs div 1000); tx = message_text (wc_format config) n; secret = wc_secret config
      in case wc_format config of
          Slack \<Rightarrow> (url0, Obj [(''text'', Str tx)])
        | Discord \<Rightarrow> (set_param env url0 ''wait'' ''true'',
            Obj [(''content'', Str tx), (''allowed_mentions'', Obj [(''parse'', Arr [])])])
        | Feishu \<Rightarrow> (url0, Obj ([(''msg_type'', Str ''text''), (''content'', Obj [(''text'', Str tx)])] @
            (if secret = [] then [] else
               [(''timestamp'', Str timestamp), (''sign'', Str (b64_encode (hmac_text env (timestamp @ [CHR 0x0A] @ secret) [])))])))
        | Dingtalk \<Rightarrow> (if secret = [] then url0 else
              set_param env (set_param env url0 ''timestamp'' (int_to_str nowMs)) ''sign''
                (b64_encode (hmac_text env secret (int_to_str nowMs @ [CHR 0x0A] @ secret))),
            Obj [(''msgtype'', Str ''text''), (''text'', Obj [(''content'', Str tx)])])
        | Wecom \<Rightarrow> (url0, Obj [(''msgtype'', Str ''text''), (''text'', Obj [(''content'', Str tx)])])
        | _ \<Rightarrow> (url0, Obj [(''source'', Str ''cf-vps-monitor''), (''subject'', Str (truncateMessage (subject n) 240)),
                          (''message'', Str tx), (''event_time'', Str (isoTime env nowMs))]))"

definition buildWebhookRequest ::
  "hook_env \<Rightarrow> webhook_config \<Rightarrow> notification \<Rightarrow> int \<Rightarrow> string + webhook_request" where
  "buildWebhookRequest env config n nowMs =
     (if wc_format config = Custom then buildCustomWebhookRequest env config n nowMs
      else case validateWebhookUrl (url_parse env) (wc_url config) [] of
          Inl e \<Rightarrow> Inl e
        | Inr (u, h) \<Rightarrow>
            (case format_request env config n nowMs u of (requestUrl, bodyObject) \<Rightarrow>
              let timestamp = int_to_str (nowMs div 1000); bd = the (JSON_stringify bodyObject);
                  hs = [(''Content-Type'', ''application/json'')] @
                    (if wc_format config = Generic \<and> wc_secret config \<noteq> [] then
                       [(''X-CFVM-Timestamp'', timestamp),
                        (''X-CFVM-Signature'', ''sha256='' @ bytes_to_hex (hmac_text env (wc_secret config) (timestamp @ ''.'' @ bd)))]
                     else [])
              in Inr \<lparr>wr_url = requestUrl, wr_host = h, wr_method = HookPost, wr_body = Some bd, wr_headers = hs\<rparr>))"

subsection \<open>Responses\<close>

text \<open>A response body as it is read: chunks, then the end or a failure.\<close>

datatype stream = Chunk bytes stream | StreamEnd | StreamFails

record hook_response =
  hr_status :: int
  hr_body :: "stream option"

definition normalizeErrorBodyText :: "string \<Rightarrow> string" where
  "normalizeErrorBodyText v = take WEBHOOK_RESPONSE_ERROR_MAX_CHARS (js_trim (collapse_ws False v))"

text \<open>The reading loop up to a limit; \<open>None\<close> when a read fails.\<close>

fun read_prefix :: "nat \<Rightarrow> stream \<Rightarrow> bytes option" where
  "read_prefix room StreamEnd = Some []"
| "read_prefix room StreamFails = (if room = 0 then Some [] else None)"
| "read_prefix room (Chunk bs rest) =
     (if room = 0 then Some []
      else let chunk = take room bs in map_option (append chunk) (read_prefix (room - length chunk) rest))"

definition readErrorBody :: "hook_response \<Rightarrow> string" where
  "readErrorBody r = (case hr_body r of
       None \<Rightarrow> []
     | Some st \<Rightarrow> (case read_prefix WEBHOOK_RESPONSE_ERROR_MAX_CHARS st of
         None \<Rightarrow> [] | Some bs \<Rightarrow> normalizeErrorBodyText (utf8_decode bs)))"

datatype business = Confirmed | Refused string bool | ReadFailed

text \<open>All chunks within a limit: \<open>None\<close> for too large, \<open>Some None\<close> for a failed read.\<close>

fun read_limited :: "nat \<Rightarrow> nat \<Rightarrow> stream \<Rightarrow> bytes option option" where
  "read_limited limit got StreamEnd = Some (Some [])"
| "read_limited limit got StreamFails = Some None"
| "read_limited limit got (Chunk bs rest) =
     (if got + length bs > limit then None
      else map_option (map_option (append bs)) (read_limited limit (got + length bs) rest))"

definition isBusinessWebhookFormat :: "hook_format \<Rightarrow> bool" where
  "isBusinessWebhookFormat f \<longleftrightarrow> f \<in> {Feishu, Dingtalk, Wecom, Discord}"

text \<open>The pattern \<open>^[1-9]\d{0,19}$\<close> on a text value.\<close>

fun is_snowflake :: "jsval \<Rightarrow> bool" where
  "is_snowflake (Str s) = (s \<noteq> [] \<and> list_all is_digit s \<and> hd s \<noteq> CHR ''0'' \<and> length s \<le> 20)"
| "is_snowflake _ = False"

definition business_verdict :: "hook_format \<Rightarrow> jsval \<Rightarrow> business" where
  "business_verdict f v =
     (let invalid = Refused (format_text f @ '': invalid response'') False
      in case v of
          Obj msg \<Rightarrow>
            if f = Discord then
              (if is_snowflake (js_get msg ''id'') \<and> is_snowflake (js_get msg ''channel_id'') then Confirmed else invalid)
            else (let code = js_get msg (if f = Feishu then ''code'' else ''errcode'')
                  in if code = Num (Fin 0) \<or> (f = Dingtalk \<and> code = Str ''0'') then Confirmed
                     else case code of
                         Num x \<Rightarrow>
                           if \<not> js_isSafeInteger x then invalid
                           else Refused (format_text f @ '': code='' @ num_to_str x)
                                  (if f = Feishu then x = FinI 11232
                                   else if f = Dingtalk then x = FinI (- 1) else x = FinI (- 1) \<or> x = FinI 45009)
                       | _ \<Rightarrow> invalid)
        | _ \<Rightarrow> invalid)"

definition readBusinessResponse :: "hook_env \<Rightarrow> hook_response \<Rightarrow> hook_format \<Rightarrow> business" where
  "readBusinessResponse env r f =
     (let invalid = Refused (format_text f @ '': invalid response'') False
      in case hr_body r of
          None \<Rightarrow> invalid
        | Some st \<Rightarrow> (case read_limited WEBHOOK_PROVIDER_RESPONSE_MAX_BYTES 0 st of
            None \<Rightarrow> invalid
          | Some None \<Rightarrow> ReadFailed
          | Some (Some bs) \<Rightarrow> (case Option.bind (decode_strict env bs) JSON_parse of
              None \<Rightarrow> invalid | Some v \<Rightarrow> business_verdict f v)))"

subsection \<open>Sending\<close>

text \<open>
  One attempt: what it gives back and whether the loop goes on. \<open>Stop\<close> is a return, \<open>Again\<close> the
  next iteration, \<open>Thrown\<close> an exception that the loop catches.
\<close>

datatype attempt = Stop send_result | Again send_result | Thrown string

definition judge_response :: "hook_env \<Rightarrow> hook_format \<Rightarrow> string \<Rightarrow> hook_response \<Rightarrow> attempt" where
  "judge_response env f host r =
     (let status = hr_status r; businessProvider = isBusinessWebhookFormat f
      in if 200 \<le> status \<and> status < 300 then
           (if businessProvider then
              (case readBusinessResponse env r f of
                 Confirmed \<Rightarrow> Stop (Sent status host)
               | Refused e retryable \<Rightarrow>
                   (if retryable then Again else Stop) (NotSent (Some status) (Some host) e)
               | ReadFailed \<Rightarrow> Thrown ''read failed'')
            else Stop (Sent status host))
         else
           (let bd = (if businessProvider then [] else readErrorBody r);
                res = NotSent (Some status) (Some host)
                        (''HTTP '' @ int_to_str status @ (if bd \<noteq> [] then '': '' @ bd else []))
            in if businessProvider \<and> status < 500 \<and> status \<noteq> 429 \<and> status \<noteq> 408 then Stop res else Again res))"

definition failed_attempt :: "hook_format \<Rightarrow> string \<Rightarrow> string \<Rightarrow> send_result" where
  "failed_attempt f host e = NotSent None (Some host)
     (if isBusinessWebhookFormat f then format_text f @ '': request failed'' else errorDetail e)"

text \<open>
  The retry loop. \<open>net i\<close> is the outcome of the \<open>i\<close>-th request and the time when it is over;
  the result is the budget left, the number of requests made, and \<open>None\<close> where
  \<open>ScheduledBudgetExceeded\<close> is thrown.
\<close>

type_synonym network = "nat \<Rightarrow> int \<times> (string + hook_response)"

fun send_loop :: "hook_env \<Rightarrow> hook_format \<Rightarrow> string \<Rightarrow> network \<Rightarrow> nat \<Rightarrow> nat \<Rightarrow> int \<Rightarrow> budget option \<Rightarrow> send_result \<Rightarrow>
    budget option \<times> nat \<times> send_result option" where
  "send_loop env f host net 0 i now ob lastResult = (ob, i, Some lastResult)"
| "send_loop env f host net (Suc left) i now ob lastResult =
     (case scheduledFetch now Manual (\<lambda>_. net i) ob of
        (ob', BudgetExceeded) \<Rightarrow> (ob', if ob' = ob then i else Suc i, None)
      | (ob', fetched) \<Rightarrow>
          (case (case fetched of Response r \<Rightarrow> judge_response env f host r | FetchFailed e \<Rightarrow> Thrown e | BudgetExceeded \<Rightarrow> Thrown []) of
             Stop res \<Rightarrow> (ob', Suc i, Some res)
           | Again res \<Rightarrow> send_loop env f host net left (Suc i) (fst (net i)) ob' res
           | Thrown e \<Rightarrow>
               if (case ob' of Some b \<Rightarrow> remainingMs (fst (net i)) b = 0 | None \<Rightarrow> False) then (ob', Suc i, None)
               else send_loop env f host net left (Suc i) (fst (net i)) ob' (failed_attempt f host e)))"

definition sendWebhookMessage ::
  "hook_env \<Rightarrow> webhook_config \<Rightarrow> notification \<Rightarrow> network \<Rightarrow> int \<Rightarrow> budget option \<Rightarrow>
   budget option \<times> nat \<times> send_result option" where
  "sendWebhookMessage env config n net nowMs ob = (case buildWebhookRequest env config n nowMs of
       Inl e \<Rightarrow> (ob, 0, Some (NotSent None None (errorDetail e)))
     | Inr r \<Rightarrow> send_loop env (wc_format config) (wr_host r) net (normalizedRetryCount (wc_retryCount config)) 0 nowMs ob
         (NotSent None (Some (wr_host r)) ''not_sent''))"

subsection \<open>Accepted addresses\<close>

definition webhook_accepts :: "string \<Rightarrow> bool" where
  "webhook_accepts h \<longleftrightarrow> (\<exists>hn. h = web_host hn \<and> \<not> isUnsafeWebhookHostname hn)"

interpretation webhook_guard: host_guard webhook_accepts hook_isBlockedIPv4
proof
  fix h octs
  assume "webhook_accepts h"
  then have f: "h \<noteq> []" "h \<noteq> ''localhost''" "\<not> js_endsWith h ''.localhost''" "\<not> isAmbiguousNumericHost h"
    "\<And>octs. parseIpv4 h = Some octs \<Longrightarrow> \<not> hook_isBlockedIPv4 octs"
    by (auto simp: webhook_accepts_def isUnsafeWebhookHostname_def web_host_def Let_def web_ambiguous_eq web_parseIPv4_eq
        split: if_splits)
  then show "h \<noteq> [] \<and> h \<noteq> ''localhost'' \<and> \<not> js_endsWith h ''.localhost''" "\<not> isAmbiguousNumericHost h" by blast+
  show "parseIpv4 h = Some octs \<Longrightarrow> \<not> hook_isBlockedIPv4 octs" by (rule f(5))
qed

text \<open>What a validated address is.\<close>

definition hook_url_ok :: "(string \<Rightarrow> url option) \<Rightarrow> string \<Rightarrow> string \<Rightarrow> string \<Rightarrow> bool" where
  "hook_url_ok up raw u0 h0 \<longleftrightarrow>
     (\<exists>u. up (js_trim raw) = Some u \<and> u0 = href u \<and> h0 = js_toLowerCase (hostname u) \<and> protocol u = ''https:'' \<and>
        url_username u = [] \<and> url_password u = [] \<and> plain_host hook_isBlockedIPv4 (web_host (hostname u)))"

lemma validateWebhookUrl_ok:
  assumes "validateWebhookUrl up raw self = Inr (u0, h0)"
  shows "hook_url_ok up raw u0 h0 \<and> (js_trim self \<noteq> [] \<longrightarrow> h0 \<noteq> js_toLowerCase (js_trim self))"
proof -
  obtain u where u: "up (js_trim raw) = Some u" "u0 = href u" "h0 = js_toLowerCase (hostname u)" "protocol u = ''https:''"
    "url_username u = []" "url_password u = []" "\<not> isUnsafeWebhookHostname (hostname u)"
    "js_toLowerCase (js_trim self) = [] \<or> h0 \<noteq> js_toLowerCase (js_trim self)"
    using assms by (auto simp: validateWebhookUrl_def Let_def split: option.splits if_splits)
  have "plain_host hook_isBlockedIPv4 (web_host (hostname u))"
    using u(7) by (intro webhook_guard.accepts_plain) (auto simp: webhook_accepts_def)
  then show ?thesis using u by (auto simp: hook_url_ok_def js_toLowerCase_def)
qed

definition header_ok :: "string \<times> string \<Rightarrow> bool" where
  "header_ok h = (case h of (k, v) \<Rightarrow> k \<noteq> [] \<and> \<not> list_ex (\<lambda>c. is_crlf c \<or> c = CHR '':'') k \<and> \<not> list_ex is_crlf v \<and>
     js_toLowerCase k \<notin> set FORBIDDEN_HEADERS \<and> js_toLowerCase k \<noteq> ''content-type'')"

lemma header_loop_ok: "header_loop entries hs = Inr hs' \<Longrightarrow> \<forall>h \<in> set hs. header_ok h \<Longrightarrow> \<forall>h \<in> set hs'. header_ok h"
proof (induction entries hs rule: header_loop.induct)
  case (2 key v entries hs)
  from 2(3) obtain w where w: "v = Str w" by (auto split: jsval.splits)
  show ?case
  proof (cases "js_toLowerCase (js_trim key) = ''content-type''")
    case True
    then show ?thesis using 2(1) [OF w refl refl] 2(3,4) w by (auto simp: Let_def split: if_splits)
  next
    case False
    then have ok: "header_ok (js_trim key, w)" and
      lp: "header_loop entries (AList.update (js_trim key) w hs) = Inr hs'"
      using 2(3) w by (auto simp: Let_def header_ok_def split: if_splits)
    show ?thesis using 2(2) [OF w refl refl _ _ False _ lp] update_ok [OF 2(4) ok] 2(3) w False
      by (auto simp: Let_def split: if_splits)
  qed
qed simp

lemma parseWebhookHeaders_ok: "parseWebhookHeaders t = Inr hs \<Longrightarrow> \<forall>h \<in> set hs. header_ok h"
  using header_loop_ok [of _ "[]" hs]
  by (auto simp: parseWebhookHeaders_def Let_def split: if_splits option.splits jsval.splits)

lemma b64_no_crlf: "\<not> list_ex is_crlf (b64_encode bs)"
proof -
  have "\<not> is_crlf (b64_char n)" if "n < 64" for n
    using that by (auto simp: b64_char_def is_crlf_def) (simp_all add: cc_def)
  then show ?thesis using sextets_bound [of _ bs]
    by (auto simp: b64_encode_def b64_pad_def list_ex_iff is_crlf_def cc_def split: if_splits)
qed

lemma digits_no_crlf: "\<not> list_ex is_crlf (int_to_str i)" "\<not> list_ex is_crlf (''sha256='' @ bytes_to_hex bs)"
proof -
  have d: "is_hex_lower c \<Longrightarrow> \<not> is_crlf c" for c by (auto simp: is_hex_lower_def is_digit_def is_crlf_def)
  have "is_digit c \<Longrightarrow> \<not> is_crlf c" for c by (auto simp: is_digit_def is_crlf_def)
  then show "\<not> list_ex is_crlf (int_to_str i)"
    using nat_to_str_digits by (auto simp: int_to_str_def list_ex_iff list_all_iff) (simp_all add: is_crlf_def cc_def)
  show "\<not> list_ex is_crlf (''sha256='' @ bytes_to_hex bs)"
    using bytes_to_hex_shape [of bs] d by (auto simp: list_ex_iff list_all_iff) (simp_all add: is_crlf_def cc_def)
qed

lemma lower_names:
  "js_toLowerCase ''Authorization'' = ''authorization''" "js_toLowerCase ''Content-Type'' = ''content-type''"
  "js_toLowerCase ''X-CFVM-Timestamp'' = ''x-cfvm-timestamp''" "js_toLowerCase ''X-CFVM-Signature'' = ''x-cfvm-signature''"
  by (simp_all add: js_toLowerCase_def lower_char_def is_AZ_def cc_def char_of_eq_iff)

lemma own_headers_ok:
  "\<not> list_ex is_crlf v \<Longrightarrow> header_ok (''Authorization'', v)"
  "\<not> list_ex is_crlf v \<Longrightarrow> header_ok (''X-CFVM-Timestamp'', v)"
  "\<not> list_ex is_crlf v \<Longrightarrow> header_ok (''X-CFVM-Signature'', v)"
  by (simp_all add: header_ok_def lower_names FORBIDDEN_HEADERS_def) (simp_all add: is_crlf_def cc_def)

lemma addBasicAuthHeader_ok:
  assumes "addBasicAuthHeader hs u p = Inr hs'" "\<forall>h \<in> set hs. header_ok h"
  shows "\<forall>h \<in> set hs'. header_ok h"
proof -
  have "\<not> list_ex is_crlf (''Basic '' @ b64_encode bs)" for bs
    using b64_no_crlf [of bs] by (simp add: is_crlf_def cc_def)
  then have ok: "header_ok (''Authorization'', ''Basic '' @ b64_encode bs)" for bs by (rule own_headers_ok(1))
  show ?thesis using assms update_ok [OF assms(2) ok]
    unfolding addBasicAuthHeader_def by (auto simp del: append.simps split: if_splits)
qed

definition headers_ok :: "headers \<Rightarrow> bool" where
  "headers_ok hs \<longleftrightarrow> (\<forall>h \<in> set hs. fst h = ''Content-Type'' \<or> header_ok h)"

definition hook_raw :: "hook_env \<Rightarrow> webhook_config \<Rightarrow> notification \<Rightarrow> int \<Rightarrow> string" where
  "hook_raw env config n nowMs =
     (if wc_format config = Custom \<and> normalizedWebhookMethod (wc_method config) = HookGet
      then renderWebhookTemplate (templateValues (isoTime env) n nowMs) UrlMode (wc_url config) else wc_url config)"

lemma custom_request_ok:
  assumes "buildCustomWebhookRequest env config n nowMs = Inr r" "wc_format config = Custom"
  shows "hook_url_ok (url_parse env) (hook_raw env config n nowMs) (wr_url r) (wr_host r) \<and> headers_ok (wr_headers r)"
proof -
  obtain hs0 hs where h: "parseWebhookHeaders (wc_headersJson config) = Inr hs0"
    "addBasicAuthHeader hs0 (wc_username config) (wc_password config) = Inr hs"
    using assms(1) by (auto simp: buildCustomWebhookRequest_def Let_def split: sum.splits)
  then have ok: "\<forall>h \<in> set hs. header_ok h"
    using parseWebhookHeaders_ok addBasicAuthHeader_ok by blast
  then have "headers_ok hs" "headers_ok (AList.update ''Content-Type'' v hs)" for v
    using update_ok [of hs "\<lambda>h. fst h = ''Content-Type'' \<or> header_ok h" "''Content-Type''" v] by (auto simp: headers_ok_def)
  moreover have "hook_url_ok (url_parse env) (hook_raw env config n nowMs) (wr_url r) (wr_host r)"
    using assms h validateWebhookUrl_ok [of "url_parse env" "hook_raw env config n nowMs" "[]" "wr_url r" "wr_host r"]
    by (auto simp: buildCustomWebhookRequest_def hook_raw_def Let_def split: sum.splits if_splits)
  ultimately show ?thesis using assms h
    by (auto simp: buildCustomWebhookRequest_def Let_def split: sum.splits if_splits)
qed

lemma format_request_url: "wc_format config \<notin> {Discord, Dingtalk} \<Longrightarrow> fst (format_request env config n nowMs u) = u"
  by (auto simp: format_request_def Let_def split: hook_format.splits)


definition sample_hook_env :: hook_env where
  "sample_hook_env = \<lparr>url_parse = \<lambda>s. Some sample_url, set_param = \<lambda>u k v. u, hmacSha256 = \<lambda>k m. m,
     isoTime = \<lambda>t. [], decode_strict = \<lambda>bs. Some (utf8_decode bs)\<rparr>"

definition sample_hook :: "hook_format \<Rightarrow> webhook_config" where
  "sample_hook f = \<lparr>wc_url = ''https://example.org/'', wc_format = f, wc_secret = [], wc_method = ''POST'', wc_contentType = [],
     wc_headersJson = [], wc_bodyTemplate = [], wc_username = [], wc_password = [], wc_retryCount = Fin 3\<rparr>"

definition sample_note :: notification where
  "sample_note = \<lparr>subject = ''down'', body = [CHR 0x22, CHR ''x''], event = [], clients = [], ntime = [], emoji = []\<rparr>"

lemma sample_hook_valid: "validateWebhookUrl (url_parse sample_hook_env) raw [] = Inr (href sample_url, ''example.org'')"
  by (simp add: validateWebhookUrl_def sample_hook_env_def sample_url_def isUnsafeWebhookHostname_def js_toLowerCase_def
      lower_char_def is_AZ_def cc_def strip_brackets_def strip_dot_def js_endsWith_def web_isAmbiguousNumericHost_def
      is_number_part_def is_hex_prefixed_def js_startsWith_def is_digit_def web_parseIPv4_def js_trim_def Let_def)

lemma sample_hook_build:
  "\<exists>r b. buildWebhookRequest sample_hook_env (sample_hook f) sample_note 0 = Inr r \<and> wr_body r = Some b \<and> wr_host r = ''example.org''"
  if "f = Custom \<or> f = Slack"
  using that
  by (auto simp: buildWebhookRequest_def buildCustomWebhookRequest_def sample_hook_valid sample_hook_def parseWebhookHeaders_def
      addBasicAuthHeader_def normalizedWebhookMethod_def js_trim_def js_toUpperCase_def upper_char_def is_az_def cc_def Let_def
      split: prod.splits)


subsection \<open>Bodies\<close>

lemma slice_ends_quote: "jsonTemplateEscape v = concat (map json_escape v)"
  by (simp add: jsonTemplateEscape_def slice_ends_def json_quote_def)

lemma placeholder_none: "c \<noteq> CHR ''{'' \<Longrightarrow> placeholder (c # s) = None"
  "c \<noteq> CHR ''{'' \<Longrightarrow> placeholder (CHR ''{'' # c # s) = None"
  by (simp_all add: placeholder_def TEMPLATE_KEYS_def js_startsWith_def)

lemma placeholder_key:
  "placeholder (''{{message}}'' @ s) = Some ''message''" "placeholder (''{{title}}'' @ s) = Some ''title''"
  by (simp_all add: placeholder_def TEMPLATE_KEYS_def js_startsWith_def)

lemma render_default:
  "renderWebhookTemplate (templateValues it n now) JsonMode default_body_template =
     the (JSON_stringify (Obj [(''message'', Str (body n)), (''title'', Str (subject n))]))"
proof -
  let ?r = "renderWebhookTemplate (templateValues it n now) JsonMode"
  have m: "?r (''{{message}}'' @ s) = concat (map json_escape (body n)) @ ?r s"
    "?r (''{{title}}'' @ s) = concat (map json_escape (subject n)) @ ?r s" for s
    using placeholder_key [of s] by (simp_all add: slice_ends_quote templateValues_def)
  have step: "c \<noteq> CHR ''{'' \<Longrightarrow> ?r (c # s) = c # ?r s" "c \<noteq> CHR ''{'' \<Longrightarrow> ?r (CHR ''{'' # c # s) = CHR ''{'' # c # ?r s" for c s
    by (simp_all add: placeholder_none)
  have q: "char_of (34 :: nat) = CHR 0x22" by (simp add: char_of_eq_iff)
  have esc: "json_escape c = [c]" if "is_az c" for c using that by (auto simp: json_escape_def is_az_def)
  have e: "concat (map json_escape ''message'') = ''message''" "concat (map json_escape ''title'') = ''title''"
    by (simp_all add: esc is_az_def cc_def)
  show ?thesis
    by (simp del: renderWebhookTemplate.simps(2) add: step m [simplified] json_quote_def e [simplified] q)
qed

lemma format_body_clean: "json_clean (snd (format_request env config n nowMs u))"
  by (auto simp: format_request_def Let_def split: hook_format.splits)

lemma format_body_url: "snd (format_request env config n nowMs u) = snd (format_request env config n nowMs [])"
  by (auto simp: format_request_def Let_def split: hook_format.splits)

definition expected_body :: "hook_env \<Rightarrow> webhook_config \<Rightarrow> notification \<Rightarrow> int \<Rightarrow> jsval" where
  "expected_body env config n nowMs =
     (if wc_format config = Custom then Obj [(''message'', Str (body n)), (''title'', Str (subject n))]
      else snd (format_request env config n nowMs []))"

text \<open>
  What a receiver parses from the body is what the worker meant, whatever characters the
  notification contains: for the built-in formats the message object of the provider, for a
  custom webhook with the default template and a JSON content type the object of message and
  title. No text can break out of its field.
\<close>

theorem webhook_body_json:
  assumes "buildWebhookRequest env config n nowMs = Inr r" "wr_body r = Some b"
    and "wc_format config = Custom \<Longrightarrow>
      wc_bodyTemplate config = [] \<and> (wc_contentType config = [] \<or> isJsonContentType (wc_contentType config))"
  shows "JSON_parse b = Some (expected_body env config n nowMs)"
proof (cases "wc_format config = Custom")
  case True
  have j: "isJsonContentType ''application/json''" by (simp add: isJsonContentType_def js_toLowerCase_def lower_char_def is_AZ_def cc_def)
  have "b = renderWebhookTemplate (templateValues (isoTime env) n nowMs) JsonMode default_body_template"
    using assms True j by (auto simp del: append.simps simp: buildWebhookRequest_def buildCustomWebhookRequest_def Let_def split: sum.splits if_splits)
  then have "b = the (JSON_stringify (Obj [(''message'', Str (body n)), (''title'', Str (subject n))]))"
    by (simp only: render_default)
  moreover have "json_clean (Obj [(''message'', Str (body n)), (''title'', Str (subject n))])" by simp
  ultimately show ?thesis using json.dec_enc True by (simp only: expected_body_def if_True refl)
next
  case False
  obtain u ru bo where "format_request env config n nowMs u = (ru, bo)" "b = the (JSON_stringify bo)"
    using assms(1,2) False by (auto simp: buildWebhookRequest_def Let_def split: sum.splits prod.splits)
  then have "b = the (JSON_stringify (snd (format_request env config n nowMs u)))" by simp
  then show ?thesis using json.dec_enc [OF format_body_clean] format_body_url False
    by (metis expected_body_def)
qed

theorem webhook_body_json_witness:
  "\<exists>r b. buildWebhookRequest sample_hook_env (sample_hook Custom) sample_note 0 = Inr r \<and> wr_body r = Some b \<and>
     JSON_parse b = Some (expected_body sample_hook_env (sample_hook Custom) sample_note 0)"
proof -
  obtain r b where r: "buildWebhookRequest sample_hook_env (sample_hook Custom) sample_note 0 = Inr r" "wr_body r = Some b"
    using sample_hook_build [of Custom] by auto
  moreover have "wc_bodyTemplate (sample_hook Custom) = [] \<and> wc_contentType (sample_hook Custom) = []"
    by (simp add: sample_hook_def)
  ultimately show ?thesis using webhook_body_json [OF r] by blast
qed

subsection \<open>Retries\<close>

definition accepted :: "hook_env \<Rightarrow> hook_format \<Rightarrow> int \<times> (string + hook_response) \<Rightarrow> bool" where
  "accepted env f outcome = (case snd outcome of
       Inl _ \<Rightarrow> False
     | Inr r \<Rightarrow> 200 \<le> hr_status r \<and> hr_status r < 300 \<and>
                (isBusinessWebhookFormat f \<longrightarrow> readBusinessResponse env r f = Confirmed))"

lemma judge_accepted:
  "judge_response env f host r = Stop (Sent st h) \<Longrightarrow> accepted env f (t, Inr r)"
  "judge_response env f host r = Again res \<Longrightarrow> \<not> accepted env f (t, Inr r) \<and> (\<nexists>st h. res = Sent st h)"
  "judge_response env f host r = Thrown e \<Longrightarrow> \<not> accepted env f (t, Inr r)"
  "accepted env f (t, Inr r) \<Longrightarrow> judge_response env f host r = Stop (Sent (hr_status r) host)"
  by (auto simp: judge_response_def accepted_def Let_def split: if_splits business.splits)

text \<open>What a run of the loop has done: \<open>i\<close> requests before it, \<open>k\<close> at its end.\<close>

definition run_ok :: "hook_env \<Rightarrow> hook_format \<Rightarrow> network \<Rightarrow> nat \<Rightarrow> nat \<Rightarrow> send_result option \<Rightarrow> bool" where
  "run_ok env f net i k res \<longleftrightarrow>
     (\<forall>j. i \<le> j \<and> Suc j < k \<longrightarrow> \<not> accepted env f (net j)) \<and>
     ((\<exists>st h. res = Some (Sent st h)) \<longleftrightarrow> i < k \<and> accepted env f (net (k - 1)))"

lemma run_ok_step: "run_ok env f net (Suc i) k res \<Longrightarrow> Suc i \<le> k \<Longrightarrow> \<not> accepted env f (net i) \<Longrightarrow> run_ok env f net i k res"
  unfolding run_ok_def by (metis Suc_leI diff_Suc_1 le_eq_less_or_eq less_Suc_eq_le not_less_eq)

lemma fetch_failed: "scheduledFetch now m (\<lambda>_. out1) ob = (ob', FetchFailed e) \<Longrightarrow> snd out1 = Inl e"
  "scheduledFetch now m (\<lambda>_. out1) ob = (ob', Response r) \<Longrightarrow> snd out1 = Inr r"
  by (auto simp: scheduledFetch_def split: option.splits prod.splits sum.splits if_splits)

lemma fetch_exceeded: "scheduledFetch now m (\<lambda>_. out1) ob = (ob', BudgetExceeded) \<Longrightarrow> ob' = ob \<or> (\<exists>e. snd out1 = Inl e)"
  by (auto simp: scheduledFetch_def split: option.splits prod.splits sum.splits if_splits)

lemma fetch_charges:
  assumes "scheduledFetch now m fetcher (Some b) = (ob', res)"
  shows "ob' = Some (b\<lparr>used := used b + 1\<rparr>) \<or> (ob' = Some b \<and> res = BudgetExceeded)"
  using assms by (auto simp: scheduledFetch_def consume_def split: option.splits prod.splits sum.splits if_splits)

lemma send_loop_ok:
  "send_loop env f host net left i now ob lastResult = (ob', k, res) \<Longrightarrow> (\<nexists>st h. lastResult = Sent st h) \<Longrightarrow>
   i \<le> k \<and> k \<le> i + left \<and> run_ok env f net i k res"
proof (induction left arbitrary: i now ob lastResult)
  case (Suc left)
  obtain ob1 fetched where sf: "scheduledFetch now Manual (\<lambda>_. net i) ob = (ob1, fetched)" by force
  have na: "\<not> accepted env f (net i)" if "snd (net i) = Inl e" for e using that by (simp add: accepted_def)
  have cont: ?case if "send_loop env f host net left (Suc i) (fst (net i)) ob1 res' = (ob', k, res)"
      "\<nexists>st h. res' = Sent st h" "\<not> accepted env f (net i)" for res'
    using Suc.IH [OF that(1,2)] run_ok_step [of env f net i k res] that(3) by auto
  show ?case
  proof (cases fetched)
    case BudgetExceeded
    then have "res = None" "k = i \<or> (k = Suc i \<and> \<not> accepted env f (net i))"
      using Suc.prems(1) sf fetch_exceeded [of now Manual "net i" ob ob1] na by (auto split: if_splits)
    then show ?thesis by (auto simp: run_ok_def)
  next
    case (FetchFailed e)
    note n = na [OF fetch_failed(1) [OF sf [unfolded FetchFailed]]]
    show ?thesis
    proof (cases "case ob1 of Some b \<Rightarrow> remainingMs (fst (net i)) b = 0 | None \<Rightarrow> False")
      case True
      then show ?thesis using Suc.prems(1) sf FetchFailed n by (auto simp: run_ok_def split: option.splits)
    next
      case False
      then show ?thesis using Suc.prems(1) sf FetchFailed n
        by (intro cont [of "failed_attempt f host e"]) (auto simp: failed_attempt_def split: option.splits)
    qed
  next
    case (Response r)
    have nr: "net i = (fst (net i), Inr r)" using fetch_failed(2) [OF sf [unfolded Response]] by (metis prod.collapse)
    show ?thesis
    proof (cases "judge_response env f host r")
      case (Stop s)
      then have "res = Some s" "k = Suc i" using Suc.prems(1) sf Response by auto
      moreover have "(\<exists>st h. s = Sent st h) \<longleftrightarrow> accepted env f (net i)"
        using Stop judge_accepted(1,4) nr by (metis attempt.inject(1))
      ultimately show ?thesis by (auto simp: run_ok_def)
    next
      case (Again s)
      then have "\<not> accepted env f (net i)" using judge_accepted(2) nr by metis
      then show ?thesis using Suc.prems(1) sf Response Again judge_accepted(2) [OF Again]
        by (intro cont [of s]) auto
    next
      case (Thrown e)
      then have n: "\<not> accepted env f (net i)" using judge_accepted(3) nr by metis
      show ?thesis
      proof (cases "case ob1 of Some b \<Rightarrow> remainingMs (fst (net i)) b = 0 | None \<Rightarrow> False")
        case True
        then show ?thesis using Suc.prems(1) sf Response Thrown n by (auto simp: run_ok_def split: option.splits)
      next
        case False
        then show ?thesis using Suc.prems(1) sf Response Thrown n
          by (intro cont [of "failed_attempt f host e"]) (auto simp: failed_attempt_def split: option.splits)
      qed
    qed
  qed
qed (auto simp: run_ok_def)

lemma send_loop_step:
  assumes "send_loop env f host net (Suc left) i now ob lastResult = (ob', k, res)"
    "scheduledFetch now Manual (\<lambda>_. net i) ob = (ob1, fetched)"
  obtains (none) "ob' = ob" "k = i"
    | (last) "ob' = ob1" "k = Suc i" "fetched \<noteq> BudgetExceeded \<or> ob1 \<noteq> ob"
    | (more) t res' where "send_loop env f host net left (Suc i) t ob1 res' = (ob', k, res)" "fetched \<noteq> BudgetExceeded"
proof (cases fetched)
  case (Response r)
  then show ?thesis using assms last more
    by (cases "judge_response env f host r") (auto split: if_splits option.splits)
next
  case (FetchFailed e)
  then show ?thesis using assms last more by (auto split: if_splits option.splits)
next
  case BudgetExceeded
  then show ?thesis using assms none last by (auto split: if_splits)
qed

lemma send_loop_budget:
  "send_loop env f host net left i now ob lastResult = (ob', k, res) \<Longrightarrow>
   i \<le> k \<and> map_option used ob' = map_option (\<lambda>b. used b + int (k - i)) ob"
proof (induction left arbitrary: i now ob lastResult)
  case (Suc left)
  obtain ob1 fetched where sf: "scheduledFetch now Manual (\<lambda>_. net i) ob = (ob1, fetched)" by force
  have charged: "map_option used ob1 = map_option (\<lambda>b. used b + 1) ob" if ch: "fetched \<noteq> BudgetExceeded \<or> ob1 \<noteq> ob"
  proof (cases ob)
    case (Some b)
    then show ?thesis using fetch_charges [OF sf [unfolded Some]] ch by auto
  qed (use sf in \<open>simp add: scheduledFetch_def\<close>)
  from Suc.prems sf show ?case
  proof (cases rule: send_loop_step)
    case (more t res')
    have ih: "Suc i \<le> k" "map_option used ob' = map_option (\<lambda>b. used b + int (k - Suc i)) ob1"
      using Suc.IH [OF more(1)] by blast+
    have "map_option used ob' = map_option (\<lambda>u. u + int (k - Suc i)) (map_option used ob1)" using ih(2) by (simp add: option.map_comp comp_def)
    also have "\<dots> = map_option (\<lambda>b. used b + 1 + int (k - Suc i)) ob"
      using charged [OF disjI1 [OF more(2)]] by (simp only: option.map_comp comp_def)
    also have "\<dots> = map_option (\<lambda>b. used b + int (k - i)) ob" using ih(1) by (simp add: of_nat_diff)
    finally show ?thesis using ih(1) by simp
  next
    case last
    then show ?thesis using charged [OF last(3)] by simp
  qed (simp add: option.map_ident)
qed (simp add: option.map_ident)

text \<open>
  C24. Sending a webhook ends after at most the configured number of requests (one to three), and
  a request that was accepted is the last one: no earlier request of the run was accepted, and
  the message counts as sent exactly when the last request was. Accepted means a 2xx answer and,
  for the providers that answer with a code of their own, a confirmed one. Under a budget every
  request made is charged.
\<close>

theorem webhook_send_once:
  assumes "sendWebhookMessage env config n net nowMs ob = (ob', k, res)"
  shows "k \<le> normalizedRetryCount (wc_retryCount config) \<and> k \<le> 3 \<and>
    (\<forall>j. Suc j < k \<longrightarrow> \<not> accepted env (wc_format config) (net j)) \<and>
    ((\<exists>st h. res = Some (Sent st h)) \<longleftrightarrow> 0 < k \<and> accepted env (wc_format config) (net (k - 1))) \<and>
    map_option used ob' = map_option (\<lambda>b. used b + int k) ob"
proof (cases "buildWebhookRequest env config n nowMs")
  case (Inl e)
  then show ?thesis using assms by (auto simp: sendWebhookMessage_def option.map_ident)
next
  case (Inr r)
  let ?c = "normalizedRetryCount (wc_retryCount config)"
  have sl: "send_loop env (wc_format config) (wr_host r) net ?c 0 nowMs ob (NotSent None (Some (wr_host r)) ''not_sent'') = (ob', k, res)"
    using assms Inr by (simp add: sendWebhookMessage_def)
  have "?c \<le> 3" by (cases "wc_retryCount config") (auto simp: normalizedRetryCount_def rat_is_int_def nat_le_iff floor_le_iff)
  then show ?thesis using send_loop_ok [OF sl] send_loop_budget [OF sl] by (auto simp: run_ok_def)
qed

definition sample_net :: network where
  "sample_net i = (int i, Inr \<lparr>hr_status = if i = 0 then 503 else 200, hr_body = None\<rparr>)"

theorem webhook_send_once_witness:
  "\<exists>ob' k res. sendWebhookMessage sample_hook_env (sample_hook Slack) sample_note sample_net 0 None = (ob', k, res) \<and>
     k = 2 \<and> (\<exists>st h. res = Some (Sent st h)) \<and> \<not> accepted sample_hook_env Slack (sample_net 0)"
proof -
  obtain ob' k res where r: "sendWebhookMessage sample_hook_env (sample_hook Slack) sample_note sample_net 0 None = (ob', k, res)"
    using prod_cases3 by blast
  have f: "wc_format (sample_hook Slack) = Slack" "normalizedRetryCount (wc_retryCount (sample_hook Slack)) = Suc (Suc (Suc 0))"
    by (simp_all add: sample_hook_def normalizedRetryCount_def)
  obtain q where q: "buildWebhookRequest sample_hook_env (sample_hook Slack) sample_note 0 = Inr q"
    using sample_hook_build [of Slack] by auto
  have "k = 2" using r
    by (simp add: sendWebhookMessage_def q f scheduledFetch_def sample_net_def judge_response_def isBusinessWebhookFormat_def Let_def)
  moreover have "accepted sample_hook_env Slack (sample_net 1)"
    by (simp add: accepted_def sample_net_def isBusinessWebhookFormat_def)
  ultimately show ?thesis using webhook_send_once [OF r] r f(1) by (auto simp: numeral_2_eq_2)
qed

end
