(* ===== verification/SettingsSchema.thy ===== *)
theory SettingsSchema
  imports Webhook
begin

section \<open>The settings table\<close>

text \<open>
  \<open>settings/schema.ts\<close>: the schema of the settings, the normalisation of every value that is
  written or read, the administrator's view and the public view. Error texts are constructors;
  the Chinese default of \<open>site_description\<close> is an ASCII stand-in. The URL parser is an argument.
\<close>

datatype setting_type = StringSetting | BooleanSetting | IntegerSetting | EnumSetting

record setting_def =
  stype :: setting_type
  defaultValue :: string
  is_public :: bool
  sensitive :: bool
  smin :: "int option"
  smax :: "int option"
  maxLength :: "nat option"
  svalues :: "string list"
  minLengthWhenSet :: "nat option"

definition str_setting :: "string \<Rightarrow> bool \<Rightarrow> bool \<Rightarrow> nat \<Rightarrow> setting_def" where
  "str_setting d p s n = \<lparr>stype = StringSetting, defaultValue = d, is_public = p, sensitive = s, smin = None, smax = None,
     maxLength = Some n, svalues = [], minLengthWhenSet = None\<rparr>"

definition bool_setting :: "string \<Rightarrow> bool \<Rightarrow> setting_def" where
  "bool_setting d p = \<lparr>stype = BooleanSetting, defaultValue = d, is_public = p, sensitive = False, smin = None, smax = None,
     maxLength = None, svalues = [], minLengthWhenSet = None\<rparr>"

definition int_setting :: "string \<Rightarrow> bool \<Rightarrow> int \<Rightarrow> int \<Rightarrow> setting_def" where
  "int_setting d p lo hi = \<lparr>stype = IntegerSetting, defaultValue = d, is_public = p, sensitive = False, smin = Some lo,
     smax = Some hi, maxLength = None, svalues = [], minLengthWhenSet = None\<rparr>"

definition enum_setting :: "string \<Rightarrow> bool \<Rightarrow> string list \<Rightarrow> setting_def" where
  "enum_setting d p vs = \<lparr>stype = EnumSetting, defaultValue = d, is_public = p, sensitive = False, smin = None, smax = None,
     maxLength = None, svalues = vs, minLengthWhenSet = None\<rparr>"

definition REMOVED_SETTING_KEYS :: "string list" where
  "REMOVED_SETTING_KEYS = [''allow_cors'', ''private_site'', ''private_site_password'', ''tempory_share_token'',
     ''tempory_share_token_expire_at'', ''temporary_share_token'', ''temporary_share_token_expire_at'', ''custom_head'',
     ''custom_body'', ''custom_footer_html'', ''agent_auto_discovery_key'', ''update_mode'']"

definition SITE_SETTINGS :: "(string \<times> setting_def) list" where
  "SITE_SETTINGS = [
     (''site_title'', str_setting ''CF VPS Monitor'' True False 128),
     (''site_subtitle'', str_setting [] True False 128),
     (''site_description'', str_setting ''server monitoring'' True False 512),
     (''language'', str_setting ''zh-CN'' True False 32),
     (''script_domain'', str_setting [] True False 256),
     (''site_logo_url'', str_setting [] True False 256),
     (''site_logo_data'', str_setting [] False True 1500000),
     (''site_logo_type'', str_setting [] False False 64),
     (''update_repository_url'', str_setting [] False False 256),
     (''record_enabled'', bool_setting ''true'' False),
     (''record_preserve_time'', int_setting ''72'' False 1 72),
     (''ping_record_preserve_time'', int_setting ''72'' False 1 72),
     (''record_persist_interval_sec'', int_setting ''120'' False 3 3600),
     (''ping_record_persist_interval_sec'', int_setting ''120'' True 60 3600),
     (''record_high_watermark_rows'', int_setting ''700000'' False 1000 10000000),
     (''record_high_watermark_bytes'', int_setting ''419430400'' False 16777216 549755813888),
     (''database_storage_budget_bytes'', int_setting ''524288000'' False 67108864 549755813888),
     (''theme_storage_quota_bytes'', int_setting ''33554432'' False 1048576 1073741824),
     (''capacity_daily_view_minutes'', int_setting ''60'' False 0 1440),
     (''audit_log_preserve_time'', int_setting ''2160'' False 24 87600),
     (''live_poll_active_interval_sec'', int_setting ''3'' True 3 300),
     (''live_poll_idle_interval_sec'', int_setting ''120'' True 60 3600),
     (''live_poll_active_max_duration_sec'', int_setting ''120'' True 60 3600)]"

definition MAIL_SETTINGS :: "(string \<times> setting_def) list" where
  "MAIL_SETTINGS = [
     (''notification_method'', enum_setting ''telegram'' False [''telegram'', ''email'', ''webhook'', ''none'']),
     (''telegram_bot_token'', str_setting [] False True 256),
     (''telegram_chat_id'', str_setting [] False True 128),
     (''email_smtp_host'', str_setting [] False False 255),
     (''email_smtp_port'', int_setting ''587'' False 1 65535),
     (''email_smtp_security'', enum_setting ''starttls'' False [''starttls'', ''tls'']),
     (''email_smtp_username'', str_setting [] False True 255),
     (''email_smtp_password'', str_setting [] False True 512),
     (''email_smtp_from_address'', str_setting [] False False 254),
     (''email_smtp_from_name'', str_setting ''CF VPS Monitor'' False False 128),
     (''email_smtp_recipients'', str_setting [] False False 4000),
     (''email_smtp_auth_method'', enum_setting ''plain'' False [''plain'', ''login''])]"

definition HOOK_SETTINGS :: "(string \<times> setting_def) list" where
  "HOOK_SETTINGS = [
     (''webhook_url'', str_setting [] False True 2048),
     (''webhook_format'', enum_setting ''generic'' False [''generic'', ''slack'', ''discord'', ''feishu'', ''dingtalk'', ''wecom'', ''custom'']),
     (''webhook_secret'', str_setting [] False True 512),
     (''webhook_method'', enum_setting ''POST'' False [''GET'', ''POST'']),
     (''webhook_content_type'', str_setting ''application/json'' False False 128),
     (''webhook_headers_json'', str_setting [] False True 4000),
     (''webhook_body_template'', str_setting default_body_template False False 8000),
     (''webhook_username'', str_setting [] False False 256),
     (''webhook_password'', str_setting [] False True 512),
     (''webhook_retry_count'', int_setting ''1'' False 1 3),
     (''enable_ip_change_notification'', bool_setting ''false'' False),
     (''offline_notify_never_reported'', bool_setting ''true'' False),
     (''offline_confirm_rounds'', int_setting ''3'' False 1 10),
     (''theme_bg_desktop'', str_setting [] True False 1024),
     (''theme_bg_mobile'', str_setting [] True False 1024),
     (''theme_content_width'', int_setting ''100'' True 60 100),
     (''active_theme'', str_setting ''monitor'' True False 64)]"

definition SETTING_SCHEMA :: "(string \<times> setting_def) list" where
  "SETTING_SCHEMA = SITE_SETTINGS @ MAIL_SETTINGS @ HOOK_SETTINGS"

definition SETTING_KEYS :: "string list" where "SETTING_KEYS = map fst SETTING_SCHEMA"

definition PUBLIC_SETTING_KEYS :: "string list" where
  "PUBLIC_SETTING_KEYS = map fst (filter (\<lambda>(_, d). is_public d) SETTING_SCHEMA)"

datatype setting_error = UnknownSetting string | InvalidSetting string | SelfHostWebhook | Port25
  | SettingTooLong string nat | SettingTooShort string nat | SettingsNotObject

subsection \<open>Normalisation of values\<close>

fun settingToString :: "jsval \<Rightarrow> string option" where
  "settingToString (Str s) = Some s"
| "settingToString (Num x) = (if js_isFinite x then Some (num_to_str x) else None)"
| "settingToString (Bool b) = Some (if b then ''true'' else ''false'')"
| "settingToString _ = None"

fun normalizeBoolean :: "jsval \<Rightarrow> string option" where
  "normalizeBoolean (Bool b) = Some (if b then ''true'' else ''false'')"
| "normalizeBoolean (Str s) =
     (let normalized = js_toLowerCase (js_trim s)
      in if normalized = ''true'' \<or> normalized = ''1'' then Some ''true''
         else if normalized = ''false'' \<or> normalized = ''0'' then Some ''false'' else None)"
| "normalizeBoolean _ = None"

definition is_blank :: "jsval \<Rightarrow> bool" where
  "is_blank v \<longleftrightarrow> v = Str [] \<or> v = Null \<or> v = Undef"

definition normalizeInteger :: "jsval \<Rightarrow> setting_def \<Rightarrow> string option" where
  "normalizeInteger v d =
     (if is_blank v then Some (defaultValue d)
      else let x = (case v of Num y \<Rightarrow> y | _ \<Rightarrow> str_to_num (js_trim (js_String v)))
           in if \<not> js_isFinite x \<or> \<not> js_isInteger x then None
              else if (case smin d of Some lo \<Rightarrow> js_lt x (FinI lo) | None \<Rightarrow> False) then None
              else if (case smax d of Some hi \<Rightarrow> js_lt (FinI hi) x | None \<Rightarrow> False) then None
              else Some (num_to_str x))"

definition isLocalHttpHost :: "string \<Rightarrow> bool" where
  "isLocalHttpHost hn \<longleftrightarrow> js_toLowerCase hn \<in> set [''localhost'', ''127.0.0.1'', ''::1'', ''[::1]'']"

text \<open>\<open>url.origin\<close> of an http or https address, and the pattern \<open>^https?://\<close> in any case.\<close>

definition url_origin :: "url \<Rightarrow> string" where
  "url_origin u = protocol u @ ''//'' @ hostname u @ (if port u = [] then [] else '':'' @ port u)"

definition has_http_scheme :: "string \<Rightarrow> bool" where
  "has_http_scheme s \<longleftrightarrow> js_startsWith (js_toLowerCase s) ''http://'' \<or> js_startsWith (js_toLowerCase s) ''https://''"

definition normalizeScriptDomain :: "(string \<Rightarrow> url option) \<Rightarrow> jsval \<Rightarrow> string option" where
  "normalizeScriptDomain up v =
     (if is_blank v then Some []
      else case v of
          Str s \<Rightarrow>
            (let raw = js_trim s in
             if raw = [] then Some []
             else case up (if has_http_scheme raw then raw else ''https://'' @ raw) of
                 None \<Rightarrow> None
               | Some u \<Rightarrow>
                   if protocol u \<noteq> ''https:'' \<and> \<not> (protocol u = ''http:'' \<and> isLocalHttpHost (hostname u)) then None
                   else if url_username u \<noteq> [] \<or> url_password u \<noteq> [] \<or> hostname u = [] then None
                   else Some (url_origin u))
        | _ \<Rightarrow> None)"

text \<open>The pattern \<open>^/api/site-logo(?:\?v=\d+)?$\<close>.\<close>

definition is_logo_path :: "string \<Rightarrow> bool" where
  "is_logo_path s \<longleftrightarrow> s = ''/api/site-logo'' \<or>
     (js_startsWith s ''/api/site-logo?v='' \<and> drop 17 s \<noteq> [] \<and> list_all is_digit (drop 17 s))"

definition normalizeSiteLogoUrl :: "jsval \<Rightarrow> string option" where
  "normalizeSiteLogoUrl v =
     (if is_blank v then Some []
      else case v of Str s \<Rightarrow> (let raw = js_trim s in if is_logo_path raw then Some raw else None) | _ \<Rightarrow> None)"

text \<open>
  The repository address. The pattern for \<open>owner/name\<close> is \<open>^[A-Za-z0-9_.-]+/[A-Za-z0-9_.-]+(?:\.git)?$\<close>,
  whose optional suffix the second class already covers.
\<close>

definition is_repo_char :: "char \<Rightarrow> bool" where
  "is_repo_char c \<longleftrightarrow> is_AZ c \<or> is_az c \<or> is_digit c \<or> c \<in> set ''_.-''"

definition is_repo_text :: "string \<Rightarrow> bool" where
  "is_repo_text s = (case js_split CHR ''/'' s of
       [a, b] \<Rightarrow> a \<noteq> [] \<and> b \<noteq> [] \<and> list_all is_repo_char a \<and> list_all is_repo_char b
     | _ \<Rightarrow> False)"

definition strip_slashes :: "string \<Rightarrow> string" where
  "strip_slashes s = rev (dropWhile (\<lambda>c. c = CHR ''/'') (rev (dropWhile (\<lambda>c. c = CHR ''/'') s)))"

definition strip_git :: "string \<Rightarrow> string" where
  "strip_git s = (if js_endsWith (js_toLowerCase s) ''.git'' then take (length s - 4) s else s)"

definition repo_url :: "string \<Rightarrow> string" where
  "repo_url raw = (if has_http_scheme raw then raw
     else if js_startsWith raw ''github.com/'' then ''https://'' @ raw
     else if is_repo_text raw then ''https://github.com/'' @ raw else raw)"

definition canonical_repo :: "(string \<Rightarrow> url option) \<Rightarrow> string \<Rightarrow> string option" where
  "canonical_repo up raw = (case up (repo_url raw) of
       None \<Rightarrow> None
     | Some u \<Rightarrow>
         if protocol u \<noteq> ''https:'' \<or> js_toLowerCase (hostname u) \<noteq> ''github.com'' then None
         else if url_username u \<noteq> [] \<or> url_password u \<noteq> [] \<or> search u \<noteq> [] \<or> hash u \<noteq> [] then None
         else case js_split CHR ''/'' (strip_git (strip_slashes (pathname u))) of
             [a, b] \<Rightarrow> if a = [] \<or> b = [] then None else Some (''https://github.com/'' @ a @ ''/'' @ b)
           | _ \<Rightarrow> None)"

definition normalizeUpdateRepositoryUrl :: "(string \<Rightarrow> url option) \<Rightarrow> jsval \<Rightarrow> string option" where
  "normalizeUpdateRepositoryUrl up v =
     (if is_blank v then Some [] else case v of Str s \<Rightarrow> canonical_repo up (js_trim s) | _ \<Rightarrow> None)"

text \<open>The pattern \<open>^[^\s@<>]+@[^\s@<>]+\.[^\s@<>]+$\<close>.\<close>

definition is_mail_char :: "char \<Rightarrow> bool" where
  "is_mail_char c \<longleftrightarrow> \<not> is_ws c \<and> c \<notin> set ''@<>''"

definition is_email :: "string \<Rightarrow> bool" where
  "is_email s = (case js_split CHR ''@'' s of
       [l, r] \<Rightarrow> l \<noteq> [] \<and> list_all is_mail_char l \<and> list_all is_mail_char r \<and>
                 list_ex (\<lambda>i. r ! i = CHR ''.'') [1..<length r - 1]
     | _ \<Rightarrow> False)"

definition normalizeEmailAddress :: "jsval \<Rightarrow> string option" where
  "normalizeEmailAddress v =
     (if is_blank v then Some []
      else case v of
          Str s \<Rightarrow> (let email = js_trim s in
                     if email = [] \<or> length email > 254 then None else if is_email email then Some email else None)
        | _ \<Rightarrow> None)"

definition is_list_sep :: "char \<Rightarrow> bool" where
  "is_list_sep c \<longleftrightarrow> c = CHR '';'' \<or> c = CHR '','' \<or> cc c = 10"

definition recipient_items :: "string \<Rightarrow> string list" where
  "recipient_items s = filter (\<lambda>x. x \<noteq> []) (map js_trim (split_on is_list_sep s))"

definition normalizeEmailRecipients :: "jsval \<Rightarrow> string option" where
  "normalizeEmailRecipients v =
     (if is_blank v then Some []
      else case v of
          Str s \<Rightarrow>
            if length s > 4000 then None
            else let recipients = recipient_items s
                 in if recipients = [] \<or> length recipients > 20 then None
                    else if list_ex (\<lambda>item. normalizeEmailAddress (Str item) \<in> {None, Some []}) recipients then None
                    else Some (js_join '','' (js_uniq recipients))
        | _ \<Rightarrow> None)"

definition normalizeWebhookUrlForWrite :: "(string \<Rightarrow> url option) \<Rightarrow> jsval \<Rightarrow> string \<Rightarrow> setting_error + string" where
  "normalizeWebhookUrlForWrite up v selfHost =
     (if is_blank v then Inr []
      else case v of
          Str s \<Rightarrow> (case validateWebhookUrl up s selfHost of
              Inr (u, _) \<Rightarrow> Inr u
            | Inl e \<Rightarrow> Inl (if e = ''self_host'' then SelfHostWebhook else InvalidSetting ''webhook_url''))
        | _ \<Rightarrow> Inl (InvalidSetting ''webhook_url''))"

definition is_control :: "char \<Rightarrow> bool" where
  "is_control c \<longleftrightarrow> cc c < 32 \<or> cc c = 127"

definition normalizeWebhookContentType :: "jsval \<Rightarrow> string option" where
  "normalizeWebhookContentType v =
     (if is_blank v then Some ''application/json''
      else case v of
          Str s \<Rightarrow> (let tx = js_trim s
                     in if tx = [] \<or> list_ex is_crlf tx \<or> list_ex is_control tx then None
                        else if CHR ''/'' \<in> set tx then Some tx else None)
        | _ \<Rightarrow> None)"

definition normalizeWebhookHeadersJson :: "jsval \<Rightarrow> string option" where
  "normalizeWebhookHeadersJson v =
     (if is_blank v then Some []
      else case v of
          Str s \<Rightarrow> (let tx = js_trim s in
             if tx = [] then Some []
             else case JSON_parse tx of
                 Some (Obj kvs) \<Rightarrow>
                   if list_ex (\<lambda>(k, item). k = [] \<or> (case item of Str _ \<Rightarrow> False | _ \<Rightarrow> True)) kvs then None else Some tx
               | _ \<Rightarrow> None)
        | _ \<Rightarrow> None)"

definition isKnownSettingKey :: "string \<Rightarrow> bool" where
  "isKnownSettingKey key \<longleftrightarrow> key \<in> set SETTING_KEYS"

definition is_theme_char :: "char \<Rightarrow> bool" where
  "is_theme_char c \<longleftrightarrow> is_AZ c \<or> is_az c \<or> is_digit c \<or> c \<in> set ''_-''"

definition normalize_theme :: "jsval \<Rightarrow> string option" where
  "normalize_theme v =
     (let t0 = (case settingToString v of Some s \<Rightarrow> js_trim s | None \<Rightarrow> []);
          tx = (if t0 = [] then ''monitor'' else t0);
          activeTheme = (if tx = ''default'' then ''monitor'' else tx)
      in if activeTheme \<noteq> [] \<and> list_all is_theme_char activeTheme then Some activeTheme else None)"

text \<open>The normalised text of the switch over the types; \<open>Inl\<close> for the early return of the webhook branch.\<close>

definition normalize_string :: "(string \<Rightarrow> url option) \<Rightarrow> string \<Rightarrow> jsval \<Rightarrow> string \<Rightarrow> setting_error + string option" where
  "normalize_string up key v selfHost =
     (if key = ''script_domain'' then Inr (normalizeScriptDomain up v)
      else if key = ''site_logo_url'' then Inr (normalizeSiteLogoUrl v)
      else if key = ''update_repository_url'' then Inr (normalizeUpdateRepositoryUrl up v)
      else if key = ''email_smtp_host'' then Inr (normalizeSmtpHost up v)
      else if key = ''email_smtp_from_address'' then Inr (normalizeEmailAddress v)
      else if key = ''email_smtp_recipients'' then Inr (normalizeEmailRecipients v)
      else if key = ''webhook_url'' then
        (case normalizeWebhookUrlForWrite up v selfHost of Inl e \<Rightarrow> Inl e | Inr s \<Rightarrow> Inr (Some s))
      else if key = ''webhook_content_type'' then Inr (normalizeWebhookContentType v)
      else if key = ''webhook_headers_json'' then Inr (normalizeWebhookHeadersJson v)
      else if key = ''active_theme'' then Inr (normalize_theme v)
      else Inr (settingToString v))"

definition normalize_typed :: "(string \<Rightarrow> url option) \<Rightarrow> string \<Rightarrow> setting_def \<Rightarrow> jsval \<Rightarrow> string \<Rightarrow> setting_error + string option" where
  "normalize_typed up key d v selfHost = (case stype d of
       BooleanSetting \<Rightarrow> Inr (normalizeBoolean v)
     | IntegerSetting \<Rightarrow> Inr (normalizeInteger v d)
     | EnumSetting \<Rightarrow> Inr (case settingToString v of Some tx \<Rightarrow> if tx \<noteq> [] \<and> tx \<in> set (svalues d) then Some tx else None | None \<Rightarrow> None)
     | StringSetting \<Rightarrow> normalize_string up key v selfHost)"

definition normalizeSettingValue :: "(string \<Rightarrow> url option) \<Rightarrow> string \<Rightarrow> jsval \<Rightarrow> string \<Rightarrow> setting_error + string" where
  "normalizeSettingValue up key v selfHost = (case map_of SETTING_SCHEMA key of
       None \<Rightarrow> Inl (UnknownSetting key)
     | Some d \<Rightarrow> (case normalize_typed up key d v selfHost of
         Inl e \<Rightarrow> Inl e
       | Inr None \<Rightarrow> Inl (InvalidSetting key)
       | Inr (Some normalized) \<Rightarrow>
           if key = ''email_smtp_port'' \<and> normalized = ''25'' then Inl Port25
           else if (case maxLength d of Some n \<Rightarrow> length normalized > n | None \<Rightarrow> False)
             then Inl (SettingTooLong key (the (maxLength d)))
           else if (case minLengthWhenSet d of Some n \<Rightarrow> length normalized > 0 \<and> length normalized < n | None \<Rightarrow> False)
             then Inl (SettingTooShort key (the (minLengthWhenSet d)))
           else Inr normalized))"

subsection \<open>The table\<close>

record sanitized =
  san_settings :: "(string \<times> string) list"
  san_errors :: "setting_error list"
  san_ignored :: "string list"

fun sanitize_loop :: "(string \<Rightarrow> url option) \<Rightarrow> bool \<Rightarrow> string \<Rightarrow> jsobj \<Rightarrow> sanitized \<Rightarrow> sanitized" where
  "sanitize_loop up ignoreRemoved selfHost [] acc = acc"
| "sanitize_loop up ignoreRemoved selfHost ((key, v) # entries) acc = sanitize_loop up ignoreRemoved selfHost entries
     (if key \<in> set REMOVED_SETTING_KEYS \<and> ignoreRemoved then acc\<lparr>san_ignored := san_ignored acc @ [key]\<rparr>
      else case normalizeSettingValue up key v selfHost of
          Inl e \<Rightarrow> acc\<lparr>san_errors := san_errors acc @ [e]\<rparr>
        | Inr s \<Rightarrow> acc\<lparr>san_settings := AList.update key s (san_settings acc)\<rparr>)"

definition sanitizeSettingsForStorage :: "(string \<Rightarrow> url option) \<Rightarrow> jsval \<Rightarrow> bool \<Rightarrow> string \<Rightarrow> bool \<times> sanitized" where
  "sanitizeSettingsForStorage up input ignoreRemoved selfHost = (case input of
       Obj entries \<Rightarrow>
         (let s = sanitize_loop up ignoreRemoved selfHost entries \<lparr>san_settings = [], san_errors = [], san_ignored = []\<rparr>
          in (san_errors s = [], s))
     | _ \<Rightarrow> (False, \<lparr>san_settings = [], san_errors = [SettingsNotObject], san_ignored = []\<rparr>))"

definition admin_value :: "(string \<Rightarrow> url option) \<Rightarrow> (string \<rightharpoonup> string) \<Rightarrow> string \<times> setting_def \<Rightarrow> string" where
  "admin_value up stored kd = (case kd of (key, d) \<Rightarrow>
     (case normalizeSettingValue up key (Str (case stored key of Some s \<Rightarrow> s | None \<Rightarrow> defaultValue d)) [] of
        Inr v \<Rightarrow> v | Inl _ \<Rightarrow> defaultValue d))"

definition buildAdminSettings :: "(string \<Rightarrow> url option) \<Rightarrow> (string \<rightharpoonup> string) \<Rightarrow> (string \<times> string) list" where
  "buildAdminSettings up stored = map (\<lambda>kd. (fst kd, admin_value up stored kd)) SETTING_SCHEMA"

definition setting_of :: "(string \<times> string) list \<Rightarrow> string \<Rightarrow> string" where
  "setting_of settings key = (case map_of settings key of Some v \<Rightarrow> v | None \<Rightarrow> [])"

definition buildPublicSettings :: "(string \<Rightarrow> url option) \<Rightarrow> (string \<rightharpoonup> string) \<Rightarrow> jsobj" where
  "buildPublicSettings up stored =
     (let admin = buildAdminSettings up stored
      in map (\<lambda>(key, d). (key, Str (setting_of admin key)))
           (filter (\<lambda>(key, d). is_public d \<and> \<not> js_startsWith key ''theme_'') SETTING_SCHEMA) @
         [(''theme_settings'', Obj [(''backgroundImageUrlDesktop'', Str (setting_of admin ''theme_bg_desktop'')),
            (''backgroundImageUrlMobile'', Str (setting_of admin ''theme_bg_mobile'')),
            (''mainContentWidth'', Num (str_to_num (setting_of admin ''theme_content_width'')))])])"

definition isRecordPersistenceEnabled :: "(string \<Rightarrow> url option) \<Rightarrow> string option \<Rightarrow> bool" where
  "isRecordPersistenceEnabled up v =
     (case normalizeSettingValue up ''record_enabled'' (Str (case v of Some s \<Rightarrow> s | None \<Rightarrow> ''true'')) [] of
        Inr s \<Rightarrow> s = ''true'' | Inl _ \<Rightarrow> True)"

subsection \<open>Conforming values\<close>

definition is_recipient_list :: "string \<Rightarrow> bool" where
  "is_recipient_list v \<longleftrightarrow> (\<exists>rs. v = js_join '','' rs \<and> distinct rs \<and> length rs \<le> 20 \<and> (\<forall>r \<in> set rs. is_email r \<and> length r \<le> 254))"

definition string_conforms :: "(string \<Rightarrow> url option) \<Rightarrow> string \<Rightarrow> string \<Rightarrow> bool" where
  "string_conforms up key v \<longleftrightarrow>
     (key = ''script_domain'' \<longrightarrow> v = [] \<or> (\<exists>u s. up s = Some u \<and> v = url_origin u \<and> url_username u = [] \<and> url_password u = [] \<and>
        (protocol u = ''https:'' \<or> protocol u = ''http:'' \<and> isLocalHttpHost (hostname u)))) \<and>
     (key = ''site_logo_url'' \<longrightarrow> v = [] \<or> is_logo_path v) \<and>
     (key = ''update_repository_url'' \<longrightarrow> v = [] \<or> (\<exists>a b. v = ''https://github.com/'' @ a @ ''/'' @ b \<and> a \<noteq> [] \<and> b \<noteq> [] \<and>
        CHR ''/'' \<notin> set a \<and> CHR ''/'' \<notin> set b)) \<and>
     (key = ''email_smtp_host'' \<longrightarrow> v = [] \<or> (\<not> list_ex smtp_forbidden v \<and> (\<exists>raw u0. hook_url_ok up raw u0 v))) \<and>
     (key = ''email_smtp_from_address'' \<longrightarrow> v = [] \<or> is_email v) \<and>
     (key = ''email_smtp_recipients'' \<longrightarrow> v = [] \<or> is_recipient_list v) \<and>
     (key = ''webhook_url'' \<longrightarrow> v = [] \<or> (\<exists>raw h. hook_url_ok up raw v h)) \<and>
     (key = ''webhook_content_type'' \<longrightarrow> CHR ''/'' \<in> set v \<and> \<not> list_ex is_control v) \<and>
     (key = ''active_theme'' \<longrightarrow> v \<noteq> [] \<and> v \<noteq> ''default'' \<and> list_all is_theme_char v)"

definition setting_conforms :: "(string \<Rightarrow> url option) \<Rightarrow> string \<Rightarrow> string \<Rightarrow> bool" where
  "setting_conforms up key v = (case map_of SETTING_SCHEMA key of
       None \<Rightarrow> False
     | Some d \<Rightarrow> (case stype d of
         BooleanSetting \<Rightarrow> v \<in> {''true'', ''false''}
       | IntegerSetting \<Rightarrow> (\<exists>i. v = int_to_str i \<and> the (smin d) \<le> i \<and> i \<le> the (smax d))
       | EnumSetting \<Rightarrow> v \<in> set (svalues d)
       | StringSetting \<Rightarrow> length v \<le> the (maxLength d) \<and> string_conforms up key v))"

text \<open>What every entry of the schema has: bounds for integers, a length for strings, a default in the bounds.\<close>

definition int_text_ok :: "setting_def \<Rightarrow> string \<Rightarrow> bool" where
  "int_text_ok d v \<longleftrightarrow> v = nat_to_str (digits_val 10 v) \<and> the (smin d) \<le> int (digits_val 10 v) \<and> int (digits_val 10 v) \<le> the (smax d)"

definition def_ok :: "setting_def \<Rightarrow> bool" where
  "def_ok d = (minLengthWhenSet d = None \<and> (case stype d of
       IntegerSetting \<Rightarrow> smin d \<noteq> None \<and> smax d \<noteq> None \<and> - 1000000000000 \<le> the (smin d) \<and> the (smax d) \<le> 1000000000000 \<and>
         maxLength d = None \<and> int_text_ok d (defaultValue d)
     | StringSetting \<Rightarrow> maxLength d \<noteq> None \<and> length (defaultValue d) \<le> the (maxLength d)
     | EnumSetting \<Rightarrow> maxLength d = None \<and> defaultValue d \<in> set (svalues d)
     | BooleanSetting \<Rightarrow> maxLength d = None \<and> defaultValue d \<in> {''true'', ''false''}))"

lemmas schema_defs = str_setting_def bool_setting_def int_setting_def enum_setting_def

lemma schema_ok: "list_all (def_ok \<circ> snd) SETTING_SCHEMA"
  unfolding SETTING_SCHEMA_def list_all_append
proof (intro conjI)
  show "list_all (def_ok \<circ> snd) SITE_SETTINGS"
    by (simp add: SITE_SETTINGS_def def_ok_def schema_defs int_text_ok_def digits_val_def cc_def nat_to_str.simps)
  show "list_all (def_ok \<circ> snd) MAIL_SETTINGS"
    by (simp add: MAIL_SETTINGS_def def_ok_def schema_defs int_text_ok_def digits_val_def cc_def nat_to_str.simps)
  show "list_all (def_ok \<circ> snd) HOOK_SETTINGS"
    by (simp add: HOOK_SETTINGS_def def_ok_def schema_defs int_text_ok_def digits_val_def cc_def nat_to_str.simps)
qed

lemma schema_def_ok: "map_of SETTING_SCHEMA key = Some d \<Longrightarrow> def_ok d"
  using schema_ok by (auto simp: list_all_iff dest!: map_of_SomeD)

lemma schema_distinct: "distinct SETTING_KEYS"
  unfolding SETTING_KEYS_def SETTING_SCHEMA_def SITE_SETTINGS_def MAIL_SETTINGS_def HOOK_SETTINGS_def by simp

subsection \<open>Stored values conform\<close>

lemma num_to_str_int: "\<bar>i\<bar> \<le> 1000000000000 \<Longrightarrow> num_to_str (FinI i) = int_to_str i"
proof -
  assume "\<bar>i\<bar> \<le> 1000000000000"
  then have "\<bar>rat_of_int i\<bar> \<le> 1000000000000" by (metis of_int_abs of_int_le_iff of_int_numeral)
  then have "\<bar>rat_of_int i\<bar> < 10 ^ 21" by (rule order.strict_trans1) simp
  then show ?thesis by simp
qed

lemma int_default: "def_ok d \<Longrightarrow> stype d = IntegerSetting \<Longrightarrow> \<exists>i. defaultValue d = int_to_str i \<and> the (smin d) \<le> i \<and> i \<le> the (smax d)"
proof -
  assume "def_ok d" "stype d = IntegerSetting"
  then have i: "int_text_ok d (defaultValue d)" by (simp add: def_ok_def)
  let ?n = "digits_val 10 (defaultValue d)"
  have "defaultValue d = int_to_str (int ?n)" using i by (simp add: int_text_ok_def int_to_str_def)
  then show ?thesis using i unfolding int_text_ok_def by blast
qed

lemma normalizeInteger_ok:
  assumes "normalizeInteger v d = Some s" "def_ok d" "stype d = IntegerSetting"
  shows "\<exists>i. s = int_to_str i \<and> the (smin d) \<le> i \<and> i \<le> the (smax d)"
proof (cases "is_blank v")
  case True
  then show ?thesis using assms int_default by (auto simp: normalizeInteger_def)
next
  case False
  obtain lo hi where d: "smin d = Some lo" "smax d = Some hi" "- 1000000000000 \<le> lo" "hi \<le> 1000000000000"
    using assms(2,3) by (auto simp: def_ok_def)
  obtain x where x: "js_isInteger x" "\<not> js_lt x (FinI lo)" "\<not> js_lt (FinI hi) x" "s = num_to_str x"
    using assms(1) False d by (auto simp: normalizeInteger_def Let_def split: if_splits)
  obtain i where i: "x = FinI i" using js_isIntegerE [OF x(1)] by blast
  have "lo \<le> i" "i \<le> hi" using x(2,3) i by auto
  moreover have "s = int_to_str i" using x(4) i num_to_str_int [of i] calculation d(3,4) by simp
  ultimately show ?thesis using d by auto
qed

lemma normalizeSmtpHost_ok:
  assumes "normalizeSmtpHost up v = Some h" "h \<noteq> []"
  shows "\<not> list_ex smtp_forbidden h" "js_toLowerCase h = h" "\<exists>u. validateWebhookUrl up (''https://'' @ h @ ''/'') [] = Inr (u, h)"
  using assms by (auto simp: normalizeSmtpHost_def Let_def split: jsval.splits if_splits sum.splits)

lemma canonical_repo_shape:
  assumes "canonical_repo up raw = Some v"
  shows "\<exists>a b. v = ''https://github.com/'' @ a @ ''/'' @ b \<and> a \<noteq> [] \<and> b \<noteq> [] \<and> CHR ''/'' \<notin> set a \<and> CHR ''/'' \<notin> set b"
proof -
  obtain u :: url and a b where u: "js_split CHR ''/'' (strip_git (strip_slashes (pathname u))) = [a, b]" "a \<noteq> []" "b \<noteq> []"
    and v: "v = ''https://github.com/'' @ a @ ''/'' @ b"
    using assms unfolding canonical_repo_def by (auto simp del: append.simps split: option.splits if_splits list.splits)
  have "a \<in> set (js_split CHR ''/'' (strip_git (strip_slashes (pathname u))))" "b \<in> set (js_split CHR ''/'' (strip_git (strip_slashes (pathname u))))"
    using u(1) by simp_all
  then have "list_all (\<lambda>c. \<not> c = CHR ''/'') a" "list_all (\<lambda>c. \<not> c = CHR ''/'') b" using split_on_parts by blast+
  then show ?thesis using u(2,3) v by (auto simp: list_all_iff)
qed

lemma email_of_normal: "normalizeEmailAddress (Str r) \<notin> {None, Some []} \<Longrightarrow> js_trim r = r \<Longrightarrow> is_email r \<and> length r \<le> 254"
  by (auto simp: normalizeEmailAddress_def is_blank_def Let_def split: if_splits)

lemma normalizeEmailRecipients_ok:
  assumes "normalizeEmailRecipients v = Some s" "s \<noteq> []"
  obtains r where "v = Str r" "s = js_join '','' (js_uniq (recipient_items r))" "length (recipient_items r) \<le> 20"
    "recipient_items r \<noteq> []" "\<forall>x \<in> set (recipient_items r). is_email x \<and> length x \<le> 254 \<and> x \<noteq> [] \<and> js_trim x = x"
proof -
  obtain r where r: "v = Str r" "s = js_join '','' (js_uniq (recipient_items r))" "length (recipient_items r) \<le> 20"
    "recipient_items r \<noteq> []" "\<not> list_ex (\<lambda>item. normalizeEmailAddress (Str item) \<in> {None, Some []}) (recipient_items r)"
    using assms by (auto simp: normalizeEmailRecipients_def is_blank_def Let_def split: jsval.splits if_splits)
  have "x \<noteq> [] \<and> js_trim x = x" if "x \<in> set (recipient_items r)" for x using that by (auto simp: recipient_items_def)
  then show thesis using that r email_of_normal by (auto simp: list_ex_iff)
qed

lemma recipients_conform:
  assumes "normalizeEmailRecipients v = Some s"
  shows "s = [] \<or> is_recipient_list s"
proof (cases "s = []")
  case False
  from normalizeEmailRecipients_ok [OF assms False] obtain r where r:
    "s = js_join '','' (js_uniq (recipient_items r))" "length (recipient_items r) \<le> 20"
    "\<forall>x \<in> set (recipient_items r). is_email x \<and> length x \<le> 254" by metis
  have "length (js_uniq (recipient_items r)) \<le> 20" using length_js_uniq [of "recipient_items r"] r(2) by simp
  then show ?thesis using r unfolding is_recipient_list_def by (intro disjI2 exI [of _ "js_uniq (recipient_items r)"]) auto
qed simp

lemma script_domain_ok:
  assumes "normalizeScriptDomain up v = Some s" "s \<noteq> []"
  shows "\<exists>raw u. up raw = Some u \<and> s = url_origin u \<and> url_username u = [] \<and> url_password u = [] \<and> hostname u \<noteq> [] \<and>
    (protocol u = ''https:'' \<or> protocol u = ''http:'' \<and> isLocalHttpHost (hostname u))"
  using assms by (auto simp: normalizeScriptDomain_def Let_def split: jsval.splits if_splits option.splits)

lemma string_normal_conforms:
  assumes "normalize_string up key v self = Inr (Some s)"
  shows "string_conforms up key s"
  unfolding string_conforms_def
proof (intro conjI impI)
  show "s = [] \<or> (\<exists>u r. up r = Some u \<and> s = url_origin u \<and> url_username u = [] \<and> url_password u = [] \<and>
      (protocol u = ''https:'' \<or> protocol u = ''http:'' \<and> isLocalHttpHost (hostname u)))" if "key = ''script_domain''"
    using assms that script_domain_ok [of up v s] by (auto simp: normalize_string_def)
  show "s = [] \<or> is_logo_path s" if "key = ''site_logo_url''"
    using assms that by (auto simp: normalize_string_def normalizeSiteLogoUrl_def Let_def split: jsval.splits if_splits)
  show "s = [] \<or> (\<exists>a b. s = ''https://github.com/'' @ a @ ''/'' @ b \<and> a \<noteq> [] \<and> b \<noteq> [] \<and> CHR ''/'' \<notin> set a \<and> CHR ''/'' \<notin> set b)"
    if "key = ''update_repository_url''"
    using assms that canonical_repo_shape
    by (auto simp del: append.simps simp: normalize_string_def normalizeUpdateRepositoryUrl_def split: jsval.splits if_splits)
  show "s = [] \<or> \<not> list_ex smtp_forbidden s \<and> (\<exists>raw u0. hook_url_ok up raw u0 s)" if "key = ''email_smtp_host''"
  proof (cases "s = []")
    case False
    have n: "normalizeSmtpHost up v = Some s" using assms that by (simp add: normalize_string_def)
    show ?thesis using normalizeSmtpHost_ok [OF n False] validateWebhookUrl_ok by blast
  qed simp
  show "s = [] \<or> is_email s" if "key = ''email_smtp_from_address''"
    using assms that by (auto simp: normalize_string_def normalizeEmailAddress_def Let_def split: jsval.splits if_splits)
  show "s = [] \<or> is_recipient_list s" if "key = ''email_smtp_recipients''"
    using assms that by (intro recipients_conform [of v]) (simp add: normalize_string_def)
  show "s = [] \<or> (\<exists>raw h. hook_url_ok up raw s h)" if "key = ''webhook_url''"
    using assms that validateWebhookUrl_ok
    by (auto simp: normalize_string_def normalizeWebhookUrlForWrite_def split: jsval.splits if_splits sum.splits) blast
  show "CHR ''/'' \<in> set s" "\<not> list_ex is_control s" if "key = ''webhook_content_type''"
    using assms that
    by (auto simp: normalize_string_def normalizeWebhookContentType_def Let_def split: jsval.splits if_splits)
      (simp_all add: is_control_def cc_def)
  show "s \<noteq> []" "s \<noteq> ''default''" "list_all is_theme_char s" if "key = ''active_theme''"
    using assms that by (auto simp: normalize_string_def normalize_theme_def Let_def split: if_splits option.splits)
qed

lemma boolean_normal: "normalizeBoolean v = Some s \<Longrightarrow> s \<in> {''true'', ''false''}"
  by (cases v) (auto simp: Let_def split: if_splits)

lemma enum_normal: "normalize_typed up key d v self = Inr (Some s) \<Longrightarrow> stype d = EnumSetting \<Longrightarrow> s \<in> set (svalues d)"
  by (auto simp: normalize_typed_def split: option.splits if_splits)

lemma normalize_inv:
  assumes "normalizeSettingValue up key v self = Inr s"
  obtains d where "map_of SETTING_SCHEMA key = Some d" "def_ok d" "normalize_typed up key d v self = Inr (Some s)"
    "\<not> (key = ''email_smtp_port'' \<and> s = ''25'')" "stype d = StringSetting \<longrightarrow> length s \<le> the (maxLength d)"
proof -
  obtain d where d: "map_of SETTING_SCHEMA key = Some d" "normalize_typed up key d v self = Inr (Some s)"
    "\<not> (key = ''email_smtp_port'' \<and> s = ''25'')" "\<not> (case maxLength d of Some n \<Rightarrow> length s > n | None \<Rightarrow> False)"
    using assms by (auto simp: normalizeSettingValue_def split: option.splits sum.splits if_splits)
  have ok: "def_ok d" using schema_def_ok [OF d(1)] .
  have "length s \<le> the (maxLength d)" if "stype d = StringSetting" using d(4) ok that by (auto simp: def_ok_def)
  then show thesis using that [OF d(1) ok d(2,3)] by blast
qed

lemma normalize_conforms:
  assumes "normalizeSettingValue up key v self = Inr s"
  shows "setting_conforms up key s \<and> \<not> (key = ''email_smtp_port'' \<and> s = ''25'')"
proof -
  from assms obtain d where d: "map_of SETTING_SCHEMA key = Some d" "def_ok d" "normalize_typed up key d v self = Inr (Some s)"
    "\<not> (key = ''email_smtp_port'' \<and> s = ''25'')" "stype d = StringSetting \<longrightarrow> length s \<le> the (maxLength d)"
    by (rule normalize_inv) blast
  show ?thesis
  proof (cases "stype d")
    case StringSetting
    then show ?thesis using d string_normal_conforms [of up key v self s] by (simp add: setting_conforms_def normalize_typed_def)
  next
    case BooleanSetting
    then show ?thesis using d boolean_normal [of v s] by (simp add: setting_conforms_def normalize_typed_def)
  next
    case IntegerSetting
    then show ?thesis using d normalizeInteger_ok [of v d s] by (simp add: setting_conforms_def normalize_typed_def)
  next
    case EnumSetting
    then show ?thesis using d enum_normal [OF d(3)] by (simp add: setting_conforms_def)
  qed
qed

text \<open>The default of every string setting is one the code itself would accept.\<close>

lemma string_defaults: "list_all (\<lambda>(key, d). stype d = StringSetting \<longrightarrow> string_conforms up key (defaultValue d)) SETTING_SCHEMA"
proof -
  have c: "CHR ''/'' \<in> set ''application/json'' \<and> \<not> list_ex is_control ''application/json''" by (simp add: is_control_def cc_def)
  have t: "list_all is_theme_char ''monitor''" by (simp add: is_theme_char_def is_az_def cc_def)
  show ?thesis
    by (simp add: SETTING_SCHEMA_def SITE_SETTINGS_def MAIL_SETTINGS_def HOOK_SETTINGS_def schema_defs string_conforms_def c [simplified] t [simplified])
qed

lemma default_conforms:
  assumes "(key, d) \<in> set SETTING_SCHEMA"
  shows "setting_conforms up key (defaultValue d)"
proof -
  have m: "map_of SETTING_SCHEMA key = Some d" using assms schema_distinct by (intro map_of_is_SomeI) (simp_all add: SETTING_KEYS_def)
  note ok = schema_def_ok [OF m]
  have str: "stype d = StringSetting \<longrightarrow> string_conforms up key (defaultValue d)"
    using string_defaults assms by (auto simp: list_all_iff)
  show ?thesis
    using m ok str int_default [OF ok] by (cases "stype d") (auto simp: setting_conforms_def def_ok_def)
qed

lemma sanitize_loop_ok:
  assumes "\<forall>(k, v) \<in> set (san_settings acc). setting_conforms up k v" "distinct (map fst (san_settings acc))"
  shows "(\<forall>(k, v) \<in> set (san_settings (sanitize_loop up ign self entries acc)). setting_conforms up k v) \<and>
    distinct (map fst (san_settings (sanitize_loop up ign self entries acc)))"
  using assms
proof (induction up ign self entries acc rule: sanitize_loop.induct)
  case (2 up ign self key v entries acc)
  have "(\<forall>x \<in> set (san_settings acc'). case x of (k, v) \<Rightarrow> setting_conforms up k v) \<and> distinct (map fst (san_settings acc'))"
    if "acc' = (if key \<in> set REMOVED_SETTING_KEYS \<and> ign then acc\<lparr>san_ignored := san_ignored acc @ [key]\<rparr>
      else case normalizeSettingValue up key v self of
          Inl e \<Rightarrow> acc\<lparr>san_errors := san_errors acc @ [e]\<rparr>
        | Inr s \<Rightarrow> acc\<lparr>san_settings := AList.update key s (san_settings acc)\<rparr>)" for acc'
  proof (cases "normalizeSettingValue up key v self")
    case (Inl e)
    then show ?thesis using that 2(2,3) by (auto split: if_splits)
  next
    case (Inr s)
    have "setting_conforms up key s" using normalize_conforms [OF Inr] by simp
    then have "\<forall>x \<in> set (AList.update key s (san_settings acc)). case x of (k, v) \<Rightarrow> setting_conforms up k v"
      using update_ok [of "san_settings acc" "\<lambda>(k, v). setting_conforms up k v" key s] 2(2) by simp
    then show ?thesis using that 2(2,3) Inr by (cases "key \<in> set REMOVED_SETTING_KEYS \<and> ign") (simp_all add: distinct_update)
  qed
  from this [OF refl] show ?case using 2(1) by simp
qed simp

text \<open>
  C25. Settings are typed. Whatever is submitted, every value that is kept belongs to a known key,
  once, and conforms to the schema: booleans, integers in canonical decimal form within their
  bounds, members of their enumeration, texts within their length, and addresses, mail lists,
  header types and theme names of their own form. And whatever is stored, the administrator's
  view is a complete table of conforming values in the order of the schema.
\<close>

theorem settings_typed:
  "(\<forall>(k, v) \<in> set (san_settings (snd (sanitizeSettingsForStorage up input ignoreRemoved selfHost))). setting_conforms up k v) \<and>
   distinct (map fst (san_settings (snd (sanitizeSettingsForStorage up input ignoreRemoved selfHost)))) \<and>
   map fst (buildAdminSettings up stored) = SETTING_KEYS \<and>
   (\<forall>(k, v) \<in> set (buildAdminSettings up stored). setting_conforms up k v)"
proof -
  have "setting_conforms up key (admin_value up stored (key, d))" if "(key, d) \<in> set SETTING_SCHEMA" for key d
    using default_conforms [OF that] normalize_conforms by (auto simp: admin_value_def split: sum.splits)
  moreover have "map fst (buildAdminSettings up stored) = SETTING_KEYS" by (simp add: buildAdminSettings_def SETTING_KEYS_def)
  ultimately show ?thesis
    using sanitize_loop_ok [of "\<lparr>san_settings = [], san_errors = [], san_ignored = []\<rparr>" up]
    by (auto simp: buildAdminSettings_def sanitizeSettingsForStorage_def Let_def split: jsval.splits)
qed

theorem settings_typed_witness:
  "san_settings (snd (sanitizeSettingsForStorage (\<lambda>_. None) (Obj [(''record_enabled'', Bool True), (''private_site'', Null)]) True [])) =
     [(''record_enabled'', ''true'')] \<and> setting_conforms (\<lambda>_. None) ''record_enabled'' ''true''"
proof -
  have "map_of SETTING_SCHEMA ''record_enabled'' = Some (bool_setting ''true'' False)"
    by (simp add: SETTING_SCHEMA_def SITE_SETTINGS_def)
  then have "san_settings (snd (sanitizeSettingsForStorage (\<lambda>_. None) (Obj [(''record_enabled'', Bool True), (''private_site'', Null)]) True [])) =
     [(''record_enabled'', ''true'')]"
    by (simp add: sanitizeSettingsForStorage_def REMOVED_SETTING_KEYS_def normalizeSettingValue_def normalize_typed_def bool_setting_def Let_def)
  then show ?thesis
    using settings_typed [of "\<lambda>_. None" "Obj [(''record_enabled'', Bool True), (''private_site'', Null)]" True "[]" Map.empty] by simp
qed

subsection \<open>Canonical forms\<close>

text \<open>
  What the code relies on of the URL parser: a serialised address parses to itself, and the
  origin of a web address parses to an address with that scheme, host and port. Neither has
  white space at its ends.
\<close>

definition url_stable :: "(string \<Rightarrow> url option) \<Rightarrow> bool" where
  "url_stable up \<longleftrightarrow> (\<forall>s u. up s = Some u \<longrightarrow>
     up (href u) = Some u \<and> js_trim (href u) = href u \<and> href u \<noteq> [] \<and>
     (protocol u \<in> {''http:'', ''https:''} \<and> hostname u \<noteq> [] \<longrightarrow> js_trim (url_origin u) = url_origin u \<and>
       (\<exists>u'. up (url_origin u) = Some u' \<and> protocol u' = protocol u \<and> hostname u' = hostname u \<and> port u' = port u \<and>
         url_username u' = [] \<and> url_password u' = [])))"

lemma split_on_join:
  "gs \<noteq> [] \<Longrightarrow> \<forall>g \<in> set gs. list_all (\<lambda>c. \<not> P c) g \<Longrightarrow> P c \<Longrightarrow> split_on P (js_join [c] gs) = gs"
proof (induction "[c]" gs rule: js_join.induct)
  case (2 x)
  then show ?case by (simp add: split_on_none)
next
  case (3 x y zs)
  then have "split_on P (x @ c # js_join [c] (y # zs)) = x # split_on P (js_join [c] (y # zs))"
    by (intro split_on_append) auto
  then show ?case using 3 by simp
qed simp

lemma trim_subset: "set (js_trim s) \<subseteq> set s"
  unfolding js_trim_def by (metis set_dropWhileD set_rev subsetI)

lemma recipient_items_chars: "x \<in> set (recipient_items r) \<Longrightarrow> list_all (\<lambda>c. \<not> is_list_sep c) x"
proof -
  assume "x \<in> set (recipient_items r)"
  then obtain w where w: "w \<in> set (split_on is_list_sep r)" "x = js_trim w" by (auto simp: recipient_items_def)
  then show ?thesis using split_on_parts [OF w(1)] trim_subset [of w] by (auto simp: list_all_iff)
qed

lemma recipients_idem:
  assumes "normalizeEmailRecipients v = Some s" "length s \<le> 4000"
  shows "normalizeEmailRecipients (Str s) = Some s"
proof (cases "s = []")
  case False
  from normalizeEmailRecipients_ok [OF assms(1) False] obtain r where r: "s = js_join '','' (js_uniq (recipient_items r))"
    "length (recipient_items r) \<le> 20" "recipient_items r \<noteq> []"
    "\<forall>x \<in> set (recipient_items r). is_email x \<and> length x \<le> 254 \<and> x \<noteq> [] \<and> js_trim x = x" by metis
  let ?u = "js_uniq (recipient_items r)"
  have u: "?u \<noteq> []" "length ?u \<le> 20" "set ?u = set (recipient_items r)"
    using r(2,3) length_js_uniq [of "recipient_items r"] by (cases "recipient_items r", auto)+
  have "split_on is_list_sep s = ?u"
    unfolding r(1) using u recipient_items_chars by (intro split_on_join) (auto simp: is_list_sep_def)
  moreover have "map js_trim ?u = ?u" using r(4) u(3) by (intro map_idI) auto
  moreover have "filter (\<lambda>x. x \<noteq> []) ?u = ?u" using r(4) u(3) by (intro filter_True) auto
  ultimately have items: "recipient_items s = ?u" by (simp add: recipient_items_def)
  have "\<not> list_ex (\<lambda>item. normalizeEmailAddress (Str item) \<in> {None, Some []}) ?u"
  proof -
    have "normalizeEmailAddress (Str x) = Some x \<and> x \<noteq> []" if "x \<in> set ?u" for x
      using that u(3) r(4) by (auto simp: normalizeEmailAddress_def is_blank_def Let_def)
    then show ?thesis by (auto simp: list_ex_iff)
  qed
  then show ?thesis using assms(2) False items u r(1)
    by (simp add: normalizeEmailRecipients_def is_blank_def js_uniq_id Let_def)
qed (simp add: normalizeEmailRecipients_def is_blank_def)

lemma script_domain_idem:
  assumes "normalizeScriptDomain up v = Some s" "url_stable up"
  shows "normalizeScriptDomain up (Str s) = Some s"
proof (cases "s = []")
  case False
  from script_domain_ok [OF assms(1) False] obtain raw u where u: "up raw = Some u" "s = url_origin u" "hostname u \<noteq> []"
    "protocol u = ''https:'' \<or> protocol u = ''http:'' \<and> isLocalHttpHost (hostname u)" by blast
  then obtain u' where u': "js_trim s = s" "up s = Some u'" "protocol u' = protocol u" "hostname u' = hostname u" "port u' = port u"
    "url_username u' = []" "url_password u' = []"
    using assms(2) unfolding url_stable_def by blast
  have "has_http_scheme s"
    using u(2,4) by (auto simp: url_origin_def has_http_scheme_def js_startsWith_def js_toLowerCase_def lower_char_def is_AZ_def cc_def)
  then show ?thesis using u u' False
    by (auto simp: normalizeScriptDomain_def is_blank_def Let_def url_origin_def)
qed (simp add: normalizeScriptDomain_def is_blank_def)

lemma smtp_host_idem:
  assumes "normalizeSmtpHost up v = Some s"
  shows "normalizeSmtpHost up (Str s) = Some s"
proof (cases "s = []")
  case False
  note ok = normalizeSmtpHost_ok [OF assms False]
  have "js_trim s = s" using ok(1) by (intro js_trim_id) (auto simp: list_ex_iff list_all_iff smtp_forbidden_def)
  then show ?thesis using ok False by (auto simp: normalizeSmtpHost_def Let_def split: sum.splits)
qed (simp add: normalizeSmtpHost_def)

lemma webhook_url_idem:
  assumes "normalizeWebhookUrlForWrite up v self = Inr s" "url_stable up"
  shows "normalizeWebhookUrlForWrite up (Str s) [] = Inr s"
proof (cases "s = []")
  case False
  then obtain raw h where v: "validateWebhookUrl up raw self = Inr (s, h)"
    using assms(1) by (auto simp: normalizeWebhookUrlForWrite_def split: if_splits jsval.splits sum.splits)
  then obtain u where u: "up (js_trim raw) = Some u" "s = href u" "protocol u = ''https:''" "hostname u \<noteq> []"
    "url_username u = []" "url_password u = []" "\<not> isUnsafeWebhookHostname (hostname u)"
    by (auto simp: validateWebhookUrl_def Let_def split: option.splits if_splits)
  have "up s = Some u" "js_trim s = s" using u(1,2) assms(2) unfolding url_stable_def by auto
  then have "validateWebhookUrl up s [] = Inr (s, js_toLowerCase (hostname u))"
    using u by (simp add: validateWebhookUrl_def js_trim_def js_toLowerCase_def)
  then show ?thesis using False by (simp add: normalizeWebhookUrlForWrite_def is_blank_def)
qed (simp add: normalizeWebhookUrlForWrite_def is_blank_def)

lemma theme_idem:
  assumes "normalize_theme v = Some s"
  shows "normalize_theme (Str s) = Some s"
proof -
  have s: "s \<noteq> []" "list_all is_theme_char s" "s \<noteq> ''default''"
    using assms by (auto simp: normalize_theme_def Let_def split: if_splits option.splits)
  have "js_trim s = s" using s(2)
    by (intro js_trim_id) (auto simp: list_all_iff is_theme_char_def is_AZ_def is_az_def is_digit_def is_ws_def cc_def)
  then show ?thesis using s by (simp add: normalize_theme_def)
qed

lemma content_type_idem:
  assumes "normalizeWebhookContentType v = Some s"
  shows "normalizeWebhookContentType (Str s) = Some s"
proof (cases "is_blank v")
  case True
  have "js_trim ''application/json'' = ''application/json''" by (intro js_trim_id) (simp add: is_ws_def cc_def)
  then show ?thesis using True assms
    by (auto simp: normalizeWebhookContentType_def is_blank_def is_crlf_def is_control_def cc_def)
next
  case False
  then show ?thesis using assms
    by (auto simp: normalizeWebhookContentType_def is_blank_def Let_def split: jsval.splits if_splits)
qed

lemma headers_json_trim: "normalizeWebhookHeadersJson (Str (js_trim x)) = normalizeWebhookHeadersJson (Str x)"
proof -
  have "js_trim [] = []" by (simp add: js_trim_def)
  then show ?thesis by (cases "js_trim x = []"; cases "x = []") (simp_all add: normalizeWebhookHeadersJson_def is_blank_def Let_def)
qed

lemma headers_json_value: "normalizeWebhookHeadersJson v = Some s \<Longrightarrow> s = [] \<or> (\<exists>x. v = Str x \<and> s = js_trim x)"
  by (auto simp: normalizeWebhookHeadersJson_def Let_def split: jsval.splits if_splits option.splits)

lemma trimmed_idem:
  "normalizeSiteLogoUrl v = Some s \<Longrightarrow> normalizeSiteLogoUrl (Str s) = Some s"
  "normalizeEmailAddress v = Some s \<Longrightarrow> normalizeEmailAddress (Str s) = Some s"
  by (auto simp: normalizeSiteLogoUrl_def normalizeEmailAddress_def is_blank_def Let_def split: jsval.splits if_splits)

lemma headers_json_idem:
  assumes "normalizeWebhookHeadersJson v = Some s"
  shows "normalizeWebhookHeadersJson (Str s) = Some s"
proof (cases "s = []")
  case False
  then obtain x where "v = Str x" "s = js_trim x" using headers_json_value [OF assms] by blast
  then show ?thesis using assms headers_json_trim [of x] by simp
qed (simp add: normalizeWebhookHeadersJson_def is_blank_def)

lemma string_idem:
  assumes "normalize_string up key v self = Inr (Some s)" "url_stable up" "key \<noteq> ''update_repository_url''"
    "key = ''email_smtp_recipients'' \<longrightarrow> length s \<le> 4000"
  shows "normalize_string up key (Str s) [] = Inr (Some s)"
proof -
  have "normalizeWebhookUrlForWrite up v self = Inr s" if "key = ''webhook_url''"
    using assms(1) that by (auto simp: normalize_string_def split: sum.splits)
  then have w: "key = ''webhook_url'' \<Longrightarrow> normalizeWebhookUrlForWrite up (Str s) [] = Inr s"
    using webhook_url_idem assms(2) by blast
  show ?thesis
    using assms w script_domain_idem trimmed_idem smtp_host_idem recipients_idem content_type_idem headers_json_idem theme_idem
    unfolding normalize_string_def by (simp split: if_splits)
qed

lemma boolean_idem: "normalizeBoolean (Str ''true'') = Some ''true''" "normalizeBoolean (Str ''false'') = Some ''false''"
  by (simp_all add: js_trim_def js_toLowerCase_def lower_char_def is_AZ_def is_ws_def cc_def)

lemma integer_idem:
  assumes "s = int_to_str i" "the (smin d) \<le> i" "i \<le> the (smax d)" "def_ok d" "stype d = IntegerSetting"
  shows "normalizeInteger (Str s) d = Some s"
proof -
  obtain lo hi where d: "smin d = Some lo" "smax d = Some hi" "- 1000000000000 \<le> lo" "hi \<le> 1000000000000"
    using assms(4,5) by (auto simp: def_ok_def)
  then have b: "\<bar>i\<bar> \<le> 1000000000000" using assms(2,3) by simp
  then have "\<bar>i\<bar> < 2 ^ 970" by (rule order.strict_trans1) simp
  then have x: "str_to_num s = FinI i" using assms(1) str_to_num_int_to_str by simp
  have ws: "\<not> is_ws CHR ''-''" by (simp add: is_ws_def cc_def)
  have t: "js_trim s = s" using nat_to_str_digits is_digit_not_ws ws
    unfolding assms(1) int_to_str_def by (intro js_trim_id) (auto simp: list_all_iff)
  have "s \<noteq> []" using assms(1) by (simp add: int_to_str_def)
  then show ?thesis using d assms(1-3) x t num_to_str_int [OF b]
    by (auto simp del: num_to_str.simps simp: normalizeInteger_def is_blank_def)
qed

lemma admin_lookup: "map_of SETTING_SCHEMA key = Some d \<Longrightarrow> map_of (buildAdminSettings up stored) key = Some (admin_value up stored (key, d))"
proof -
  have "map_of xs key = Some d \<Longrightarrow> map_of (map (\<lambda>kd. (fst kd, admin_value up stored kd)) xs) key = Some (admin_value up stored (key, d))" for xs
    by (induction xs) auto
  then show "map_of SETTING_SCHEMA key = Some d \<Longrightarrow> ?thesis" unfolding buildAdminSettings_def .
qed

text \<open>
  Normalisation of a setting is idempotent: a value that was accepted is stored in the form
  the code reads back, so reading the table never changes or drops a stored setting. The one
  exception is the repository address, whose \<open>.git\<close> suffix is removed once per pass. The URL
  parser is assumed to parse what it serialised.
\<close>

theorem settings_canonical:
  assumes "url_stable up" "normalizeSettingValue up key v self = Inr s" "key \<noteq> ''update_repository_url''"
  shows "normalizeSettingValue up key (Str s) [] = Inr s \<and> (stored key = Some s \<longrightarrow> setting_of (buildAdminSettings up stored) key = s)"
proof -
  from assms(2) obtain d where d: "map_of SETTING_SCHEMA key = Some d" "def_ok d" "normalize_typed up key d v self = Inr (Some s)"
    "\<not> (key = ''email_smtp_port'' \<and> s = ''25'')" "stype d = StringSetting \<longrightarrow> length s \<le> the (maxLength d)"
    by (rule normalize_inv) blast
  have "map_of SETTING_SCHEMA ''email_smtp_recipients'' = Some (str_setting [] False False 4000)"
    by (simp add: SETTING_SCHEMA_def SITE_SETTINGS_def MAIL_SETTINGS_def)
  then have len: "key = ''email_smtp_recipients'' \<longrightarrow> length s \<le> 4000" using d(1,5) by (auto simp: str_setting_def)
  have ty: "normalize_typed up key d (Str s) [] = Inr (Some s)"
  proof (cases "stype d")
    case StringSetting
    then show ?thesis using d(3) string_idem [OF _ assms(1,3) len] by (simp add: normalize_typed_def)
  next
    case BooleanSetting
    then have "s \<in> {''true'', ''false''}" using d(3) boolean_normal by (simp add: normalize_typed_def)
    then show ?thesis using BooleanSetting boolean_idem by (auto simp: normalize_typed_def)
  next
    case IntegerSetting
    then obtain i where "s = int_to_str i" "the (smin d) \<le> i" "i \<le> the (smax d)"
      using d(2,3) normalizeInteger_ok [of v d s] by (auto simp: normalize_typed_def)
    then show ?thesis using integer_idem d(2) IntegerSetting by (simp add: normalize_typed_def)
  next
    case EnumSetting
    then show ?thesis using d(3) by (auto simp: normalize_typed_def split: option.splits if_splits)
  qed
  have "(case maxLength d of Some n \<Rightarrow> length s > n | None \<Rightarrow> False) = False"
    using d(2,5) by (cases "stype d") (auto simp: def_ok_def)
  then have n: "normalizeSettingValue up key (Str s) [] = Inr s"
    using d(1,2,4) ty by (auto simp: normalizeSettingValue_def def_ok_def)
  then show ?thesis using n admin_lookup [OF d(1)] by (auto simp: setting_of_def admin_value_def)
qed

definition sample_up :: "string \<Rightarrow> url option" where
  "sample_up s = (if s \<in> {''https://example.org'', ''https://example.org/''} then Some sample_url else None)"

lemma sample_up_stable: "url_stable sample_up"
proof -
  have o: "url_origin sample_url = ''https://example.org''" by (simp add: url_origin_def sample_url_def)
  have t: "js_trim ''https://example.org'' = ''https://example.org''" "js_trim ''https://example.org/'' = ''https://example.org/''"
    by (intro js_trim_id, simp add: is_ws_def cc_def)+
  have f: "href sample_url = ''https://example.org/''" "url_username sample_url = []" "url_password sample_url = []"
    by (simp_all add: sample_url_def)
  show ?thesis unfolding url_stable_def
  proof (intro allI impI)
    fix s u assume "sample_up s = Some u"
    then have u: "u = sample_url" by (simp add: sample_up_def split: if_splits)
    show "sample_up (href u) = Some u \<and> js_trim (href u) = href u \<and> href u \<noteq> [] \<and>
      (protocol u \<in> {''http:'', ''https:''} \<and> hostname u \<noteq> [] \<longrightarrow> js_trim (url_origin u) = url_origin u \<and>
        (\<exists>u'. sample_up (url_origin u) = Some u' \<and> protocol u' = protocol u \<and> hostname u' = hostname u \<and> port u' = port u \<and>
          url_username u' = [] \<and> url_password u' = []))"
      unfolding u o f(1) t by (simp add: sample_up_def f)
  qed
qed

theorem settings_canonical_witness:
  "normalizeSettingValue sample_up ''script_domain'' (Str ''example.org'') [] = Inr ''https://example.org'' \<and>
   normalizeSettingValue sample_up ''script_domain'' (Str ''https://example.org'') [] = Inr ''https://example.org''"
proof -
  have m: "map_of SETTING_SCHEMA ''script_domain'' = Some (str_setting [] True False 256)"
    by (simp add: SETTING_SCHEMA_def SITE_SETTINGS_def)
  have t: "js_trim ''example.org'' = ''example.org''" by (intro js_trim_id) (simp add: is_ws_def cc_def)
  have n: "normalizeSettingValue sample_up ''script_domain'' (Str ''example.org'') [] = Inr ''https://example.org''"
    by (simp add: normalizeSettingValue_def m normalize_typed_def str_setting_def normalize_string_def normalizeScriptDomain_def
        is_blank_def t has_http_scheme_def js_startsWith_def js_toLowerCase_def lower_char_def is_AZ_def cc_def sample_up_def
        sample_url_def url_origin_def)
  show ?thesis using settings_canonical [OF sample_up_stable n] n by simp
qed

subsection \<open>The public view\<close>

lemma admin_value_cong: "s1 key = s2 key \<Longrightarrow> admin_value up s1 (key, d) = admin_value up s2 (key, d)"
  by (simp add: admin_value_def)

lemma setting_of_cong:
  assumes "map_of SETTING_SCHEMA key = Some d" "s1 key = s2 key"
  shows "setting_of (buildAdminSettings up s1) key = setting_of (buildAdminSettings up s2) key"
  using admin_lookup [OF assms(1)] admin_value_cong [of s1 key s2 up d, OF assms(2)] by (simp add: setting_of_def)

lemma theme_settings_public:
  "\<exists>d. map_of SETTING_SCHEMA ''theme_bg_desktop'' = Some d \<and> is_public d"
  "\<exists>d. map_of SETTING_SCHEMA ''theme_bg_mobile'' = Some d \<and> is_public d"
  "\<exists>d. map_of SETTING_SCHEMA ''theme_content_width'' = Some d \<and> is_public d"
  by (simp_all add: SETTING_SCHEMA_def SITE_SETTINGS_def MAIL_SETTINGS_def HOOK_SETTINGS_def schema_defs)

lemma public_not_sensitive: "list_all (\<lambda>(key, d). is_public d \<longrightarrow> \<not> sensitive d) SETTING_SCHEMA"
  by (simp add: SETTING_SCHEMA_def SITE_SETTINGS_def MAIL_SETTINGS_def HOOK_SETTINGS_def schema_defs)

text \<open>
  C26. The public settings reveal nothing but public settings: they are a function of the stored
  values of the keys the schema marks public, whatever else is stored, no key marked sensitive
  is public, and only public keys and the theme object appear.
\<close>

theorem settings_public_only:
  assumes "\<And>key d. map_of SETTING_SCHEMA key = Some d \<Longrightarrow> is_public d \<Longrightarrow> s1 key = s2 key"
  shows "buildPublicSettings up s1 = buildPublicSettings up s2 \<and>
    (\<forall>key \<in> fst ` set (buildPublicSettings up s1) - {''theme_settings''}.
       \<exists>d. map_of SETTING_SCHEMA key = Some d \<and> is_public d \<and> \<not> sensitive d)"
proof -
  have pub: "setting_of (buildAdminSettings up s1) key = setting_of (buildAdminSettings up s2) key"
    if "map_of SETTING_SCHEMA key = Some d" "is_public d" for key d
    using setting_of_cong [OF that(1)] assms [OF that] by blast
  have mem: "map_of SETTING_SCHEMA key = Some d" if "(key, d) \<in> set SETTING_SCHEMA" for key d
    using that schema_distinct by (intro map_of_is_SomeI) (simp_all add: SETTING_KEYS_def)
  have "map (\<lambda>(key, d). (key, Str (setting_of (buildAdminSettings up s1) key))) (filter (\<lambda>(key, d). is_public d \<and> \<not> js_startsWith key ''theme_'') SETTING_SCHEMA) =
    map (\<lambda>(key, d). (key, Str (setting_of (buildAdminSettings up s2) key))) (filter (\<lambda>(key, d). is_public d \<and> \<not> js_startsWith key ''theme_'') SETTING_SCHEMA)"
    using pub mem by (intro map_cong refl) auto
  moreover have "setting_of (buildAdminSettings up s1) k = setting_of (buildAdminSettings up s2) k"
    if "k \<in> {''theme_bg_desktop'', ''theme_bg_mobile'', ''theme_content_width''}" for k
    using that pub theme_settings_public by auto
  ultimately have "buildPublicSettings up s1 = buildPublicSettings up s2" by (simp add: buildPublicSettings_def Let_def)
  moreover have "\<exists>d. map_of SETTING_SCHEMA key = Some d \<and> is_public d \<and> \<not> sensitive d"
    if "key \<in> fst ` set (buildPublicSettings up s1) - {''theme_settings''}" for key
    using that mem public_not_sensitive unfolding buildPublicSettings_def Let_def list_all_iff by fastforce
  ultimately show ?thesis by blast
qed

theorem settings_public_only_witness:
  "buildPublicSettings (\<lambda>_. None) [''telegram_bot_token'' \<mapsto> ''secret''] = buildPublicSettings (\<lambda>_. None) Map.empty"
proof -
  have t: "map_of SETTING_SCHEMA ''telegram_bot_token'' = Some (str_setting [] False True 256)"
    by (simp add: SETTING_SCHEMA_def SITE_SETTINGS_def MAIL_SETTINGS_def)
  have "key \<noteq> ''telegram_bot_token''" if "map_of SETTING_SCHEMA key = Some d" "is_public d" for key d
    using that t by (auto simp: str_setting_def)
  then show ?thesis using settings_public_only [of "[''telegram_bot_token'' \<mapsto> ''secret'']" Map.empty "\<lambda>_. None"] by simp
qed

end
