(* ===== verification/MonitorReport.thy ===== *)
theory MonitorReport
  imports JsJson
begin

section \<open>Agent reports and their projections\<close>

text \<open>
  \<open>utils/monitor-report.ts\<close>, \<open>report-envelope.ts\<close>, \<open>public-report.ts\<close>, \<open>live-report-state.ts\<close>,
  \<open>request-ip.ts\<close>, \<open>public-client.ts\<close>, \<open>client-metadata.ts\<close> and \<open>restore-client-snapshot.ts\<close>: what an
  agent may send, how it is brought into bounds, what is stored of it and what an anonymous
  visitor sees. Reports and client rows are objects of untyped values, as in the source.
\<close>

unbundle bit_operations_syntax

subsection \<open>Addresses\<close>

definition ip_parseIpv4 :: "string \<Rightarrow> int list option" where
  "ip_parseIpv4 ip =
     (let parts = js_split CHR ''.'' (js_trim ip) in
      if length parts \<noteq> 4 then None
      else let nums = map str_to_num parts in
        if list_all (\<lambda>x. js_isInteger x \<and> js_le (Fin 0) x \<and> js_le x (Fin 255)) nums then Some (map js_int nums) else None)"

fun public_v4 :: "int list \<Rightarrow> bool" where
  "public_v4 (a # b # c # _) \<longleftrightarrow>
     \<not> (a = 0 \<or> a = 10 \<or> a = 127 \<or> a \<ge> 224 \<or> (a = 100 \<and> b \<ge> 64 \<and> b \<le> 127) \<or> (a = 169 \<and> b = 254) \<or>
        (a = 172 \<and> b \<ge> 16 \<and> b \<le> 31) \<or> (a = 192 \<and> b = 0) \<or> (a = 192 \<and> b = 168) \<or> (a = 198 \<and> (b = 18 \<or> b = 19)) \<or>
        (a = 198 \<and> b = 51 \<and> c = 100) \<or> (a = 203 \<and> b = 0 \<and> c = 113))"
| "public_v4 _ = False"

text \<open>\<open>Number.parseInt(s, 16)\<close>: white space, a sign, a prefix, then the leading digits; \<open>None\<close> for NaN.\<close>

definition parse_hextet :: "string \<Rightarrow> int option" where
  "parse_hextet s0 =
     (let s1 = dropWhile is_ws s0; neg = js_startsWith s1 ''-'';
          s = (if neg \<or> js_startsWith s1 ''+'' then tl s1 else s1);
          r = (if js_startsWith s ''0x'' \<or> js_startsWith s ''0X'' then drop 2 s else s); ds = takeWhile is_hex_any r
      in if ds = [] then None else Some (if neg then - int (hex_val ds) else int (hex_val ds)))"

text \<open>The pattern \<open>\d{1,3}(?:\.\d{1,3}){3}\<close>, and the address after a last group \<open>ffff\<close>.\<close>

definition is_quad_text :: "string \<Rightarrow> bool" where
  "is_quad_text s \<longleftrightarrow>
     (let ps = js_split CHR ''.'' s in length ps = 4 \<and> list_all (\<lambda>p. p \<noteq> [] \<and> length p \<le> 3 \<and> list_all is_digit p) ps)"

definition mapped_ipv4 :: "string \<Rightarrow> string option" where
  "mapped_ipv4 ip =
     (let ps = js_split CHR '':'' ip
      in if length ps \<ge> 2 \<and> ps ! (length ps - 2) = ''ffff'' \<and> is_quad_text (last ps) then Some (last ps) else None)"

definition mask32 :: "int \<Rightarrow> 32 word \<Rightarrow> 32 word \<Rightarrow> bool" where
  "mask32 h m v \<longleftrightarrow> (word_of_int h AND m) = v"

text \<open>
  A mapped address has no colon, so the recursive call of the source ends in its IPv4 branch or
  with \<open>false\<close>.
\<close>

definition public_quad :: "string \<Rightarrow> bool" where
  "public_quad s = (case ip_parseIpv4 s of Some v4 \<Rightarrow> public_v4 v4 | None \<Rightarrow> False)"

definition isPublicIpAddress :: "string \<Rightarrow> bool" where
  "isPublicIpAddress v =
     (let ip = js_toLowerCase (strip_brackets (js_trim v)) in
      if ip = [] then False
      else case ip_parseIpv4 ip of
          Some v4 \<Rightarrow> public_v4 v4
        | None \<Rightarrow>
            if CHR '':'' \<notin> set ip then False
            else case mapped_ipv4 ip of
                Some m \<Rightarrow> public_quad m
              | None \<Rightarrow>
                  (case (case List.find (\<lambda>g. g \<noteq> []) (js_split CHR '':'' ip) of Some g \<Rightarrow> parse_hextet g | None \<Rightarrow> Some 0) of
                     None \<Rightarrow> False
                   | Some h \<Rightarrow>
                       \<not> (ip = ''::'' \<or> ip = ''::1'' \<or> mask32 h 0xfe00 0xfc00 \<or> mask32 h 0xffc0 0xfe80 \<or> mask32 h 0xff00 0xff00 \<or>
                          js_startsWith ip ''2001:db8:'') \<and> 0x2000 \<le> h \<and> h \<le> 0x3fff))"

definition getCloudflareClientIp :: "string option \<Rightarrow> string \<Rightarrow> string" where
  "getCloudflareClientIp header fallback =
     (let ip = js_trim (case header of Some h \<Rightarrow> h | None \<Rightarrow> []) in take 128 (if ip = [] then fallback else ip))"

subsection \<open>Normalisation of a report\<close>

definition MAX_GPU_RECORDS_PER_REPORT :: nat where "MAX_GPU_RECORDS_PER_REPORT = 16"
definition MAX_GPU_DEVICE_NAME_LENGTH :: nat where "MAX_GPU_DEVICE_NAME_LENGTH = 128"
definition MAX_PERCENT :: rat where "MAX_PERCENT = 100"
definition MAX_TEMPERATURE_C :: rat where "MAX_TEMPERATURE_C = 150"
definition MAX_DEVICE_INDEX :: rat where "MAX_DEVICE_INDEX = 1024"
definition MAX_COUNT_VALUE :: rat where "MAX_COUNT_VALUE = 10000000"
definition MAX_LOAD_VALUE :: rat where "MAX_LOAD_VALUE = 10000"
definition MAX_UPTIME_SECONDS :: rat where "MAX_UPTIME_SECONDS = 315576000"
definition MAX_COUNTER_VALUE :: rat where "MAX_COUNTER_VALUE = 1000000000000000"

definition numberFrom :: "jsval \<Rightarrow> rat option" where
  "numberFrom v = (case v of
       Num (Fin q) \<Rightarrow> Some q
     | Str s \<Rightarrow> if js_trim s \<noteq> [] then (case str_to_num s of Fin q \<Rightarrow> Some q | _ \<Rightarrow> None) else None
     | _ \<Rightarrow> None)"

fun firstNumber :: "jsval list \<Rightarrow> rat" where
  "firstNumber [] = 0"
| "firstNumber (v # vs) = (case numberFrom v of Some q \<Rightarrow> q | None \<Rightarrow> firstNumber vs)"

definition boundedNumber :: "rat \<Rightarrow> rat \<Rightarrow> jsval list \<Rightarrow> rat" where
  "boundedNumber lo hi vs = (let v = firstNumber vs in if v < lo then lo else if v > hi then hi else v)"

definition js_trunc :: "rat \<Rightarrow> rat" where
  "js_trunc q = of_int (if 0 \<le> q then \<lfloor>q\<rfloor> else \<lceil>q\<rceil>)"

definition boundedInteger :: "rat \<Rightarrow> rat \<Rightarrow> jsval list \<Rightarrow> rat" where
  "boundedInteger lo hi vs = js_trunc (boundedNumber lo hi vs)"

definition boundedNullableNumber :: "rat \<Rightarrow> rat \<Rightarrow> jsval \<Rightarrow> jsval list \<Rightarrow> jsval" where
  "boundedNullableNumber lo hi primary fallbacks =
     (if primary = Null then Null else Num (Fin (boundedNumber lo hi (primary # fallbacks))))"

definition METRIC_ERROR_REASONS :: "string list" where
  "METRIC_ERROR_REASONS = [''collection_failed'', ''container_scope_unavailable'', ''warming_up'']"

definition metric_error_entries :: "jsobj \<Rightarrow> jsobj" where
  "metric_error_entries errors =
     concat (map (\<lambda>metric. case js_get errors metric of
         Str reason \<Rightarrow> if reason \<in> set METRIC_ERROR_REASONS then [(metric, Str reason)] else []
       | _ \<Rightarrow> []) [''cpu'', ''ram'', ''swap'', ''network''])"

definition selectMetricAvailability :: "jsobj \<Rightarrow> jsobj" where
  "selectMetricAvailability report =
     (case js_get report ''cpu_capacity'' of
        Num (Fin q) \<Rightarrow> if 0 < q then [(''cpu_capacity'', Num (Fin q))] else []
      | _ \<Rightarrow> []) @
     (let metricErrors = metric_error_entries (asObject (js_get report ''metric_errors''))
      in if metricErrors \<noteq> [] then [(''metric_errors'', Obj metricErrors)] else [])"

definition measuredTemperature :: "jsval \<Rightarrow> jsval" where
  "measuredTemperature v = (case numberFrom v of
       Some t \<Rightarrow> if - 100 \<le> t \<and> t \<le> MAX_TEMPERATURE_C then Num (Fin t) else Null
     | None \<Rightarrow> Null)"

definition boundedString :: "jsval \<Rightarrow> nat \<Rightarrow> string" where
  "boundedString v mx = take mx (js_trim (js_String (js_or v (Str []))))"

definition gpu_info :: "nat \<Rightarrow> jsval \<Rightarrow> jsobj" where
  "gpu_info index item =
     (let gpu = asObject item;
          memTotal = boundedNumber 0 MAX_COUNTER_VALUE [js_get gpu ''mem_total'', js_get gpu ''memory_total''];
          memUsedMax = (if memTotal > 0 then memTotal else MAX_COUNTER_VALUE)
      in [(''device_index'', Num (Fin (boundedInteger 0 MAX_DEVICE_INDEX [js_get gpu ''device_index'', js_get gpu ''index'', Num (Fin (of_nat index))]))),
          (''device_name'', Str (boundedString (js_or (js_or (js_get gpu ''device_name'') (js_get gpu ''name'')) (Str [])) MAX_GPU_DEVICE_NAME_LENGTH)),
          (''mem_total'', Num (Fin memTotal)),
          (''mem_used'', Num (Fin (boundedNumber 0 memUsedMax [js_get gpu ''mem_used'', js_get gpu ''memory_used'']))),
          (''utilization'', Num (Fin (boundedNumber 0 MAX_PERCENT [js_get gpu ''utilization'']))),
          (''temperature'', Num (Fin (boundedNumber 0 MAX_TEMPERATURE_C [js_get gpu ''temperature''])))])"

definition normalizeGpuList :: "jsobj \<Rightarrow> jsval \<Rightarrow> jsval list" where
  "normalizeGpuList rawGpu rawGpus =
     (let lst = take MAX_GPU_RECORDS_PER_REPORT (case rawGpus of Arr xs \<Rightarrow> xs
                  | _ \<Rightarrow> (case js_get rawGpu ''detailed_info'' of Arr xs \<Rightarrow> xs | _ \<Rightarrow> []))
      in map (\<lambda>(index, item). Obj (gpu_info index item)) (zip [0..<length lst] lst))"

text \<open>The object spread followed by assignments: later properties replace earlier ones in place.\<close>

definition assign :: "jsobj \<Rightarrow> jsobj \<Rightarrow> jsobj" where
  "assign target source = foldl (\<lambda>o1 (k, v). AList.update k v o1) target source"

definition report_fields :: "jsobj \<Rightarrow> jsobj" where
  "report_fields report =
     (let g = js_get report; sub = (\<lambda>k f. js_get (asObject (js_get report k)) f); cnt = MAX_COUNTER_VALUE
      in [(''cpu'', boundedNullableNumber 0 MAX_PERCENT (g ''cpu'') [sub ''cpu'' ''usage'']),
          (''gpu'', Num (Fin (boundedNumber 0 MAX_PERCENT [g ''gpu'', sub ''gpu'' ''average_usage'']))),
          (''ram'', boundedNullableNumber 0 cnt (g ''ram'') [sub ''ram'' ''used'']),
          (''ram_total'', boundedNullableNumber 0 cnt (g ''ram_total'') [sub ''ram'' ''total'']),
          (''swap'', boundedNullableNumber 0 cnt (g ''swap'') [sub ''swap'' ''used'']),
          (''swap_total'', boundedNullableNumber 0 cnt (g ''swap_total'') [sub ''swap'' ''total'']),
          (''load'', boundedNullableNumber 0 MAX_LOAD_VALUE (g ''load'') [sub ''load'' ''load1'']),
          (''temp'', measuredTemperature (g ''temp'')),
          (''disk'', boundedNullableNumber 0 cnt (g ''disk'') [sub ''disk'' ''used'']),
          (''disk_total'', boundedNullableNumber 0 cnt (g ''disk_total'') [sub ''disk'' ''total'']),
          (''net_in'', boundedNullableNumber 0 cnt (g ''net_in'') [sub ''network'' ''down'']),
          (''net_out'', boundedNullableNumber 0 cnt (g ''net_out'') [sub ''network'' ''up'']),
          (''net_total_up'', boundedNullableNumber 0 cnt (g ''net_total_up'') [sub ''network'' ''totalUp'']),
          (''net_total_down'', boundedNullableNumber 0 cnt (g ''net_total_down'') [sub ''network'' ''totalDown'']),
          (''process_count'', Num (Fin (boundedInteger 0 MAX_COUNT_VALUE [g ''process_count'', g ''process'']))),
          (''connections'', Num (Fin (boundedInteger 0 MAX_COUNT_VALUE [g ''connections'', sub ''connections'' ''tcp'']))),
          (''connections_udp'', Num (Fin (boundedInteger 0 MAX_COUNT_VALUE [g ''connections_udp'', sub ''connections'' ''udp'']))),
          (''uptime'', boundedNullableNumber 0 MAX_UPTIME_SECONDS (g ''uptime'') []),
          (''version'', Str (boundedString (g ''version'') 64)),
          (''gpus'', Arr (normalizeGpuList (asObject (g ''gpu'')) (g ''gpus'')))])"

text \<open>The cached disk measurement: source and sampling time are kept as a valid pair, or the value is dropped.\<close>

definition disk_sample_ok :: "jsobj \<Rightarrow> jsobj \<Rightarrow> bool" where
  "disk_sample_ok report normalized \<longleftrightarrow>
     js_get report ''disk_source'' = Str ''directory'' \<and> js_get normalized ''disk'' \<noteq> Null \<and>
     (case (case numberFrom (js_get report ''disk'') of Some q \<Rightarrow> Some q
            | None \<Rightarrow> numberFrom (js_get (asObject (js_get report ''disk'')) ''used'')) of
        Some used \<Rightarrow> 0 \<le> used \<and> used \<le> MAX_COUNTER_VALUE | None \<Rightarrow> False) \<and>
     (case js_get report ''disk_sampled_at'' of
        Num x \<Rightarrow> js_isSafeInteger x \<and> js_lt (Fin 0) x \<and> js_le x (Fin 8640000000000000) | _ \<Rightarrow> False)"

definition settle_disk :: "jsobj \<Rightarrow> jsobj \<Rightarrow> jsobj" where
  "settle_disk report normalized0 =
     (let normalized = AList.delete ''disk_sampled_at'' (AList.delete ''disk_source'' normalized0)
      in if js_get report ''disk_source'' \<noteq> Undef \<or> js_get report ''disk_sampled_at'' \<noteq> Undef then
           (if disk_sample_ok report normalized
            then AList.update ''disk_sampled_at'' (js_get report ''disk_sampled_at'') (AList.update ''disk_source'' (Str ''directory'') normalized)
            else AList.update ''disk'' Null normalized)
         else normalized)"

definition report_payload :: "jsval \<Rightarrow> jsobj" where
  "report_payload input =
     (let inputObject = asObject input
      in asObject (if js_get inputObject ''type'' = Str ''report'' \<and> js_truthy (js_get inputObject ''data'')
                   then js_get inputObject ''data'' else input))"

definition normalizeMonitorReport :: "jsval \<Rightarrow> jsobj" where
  "normalizeMonitorReport input =
     (let report = report_payload input;
          n0 = assign report (report_fields report);
          n1 = assign (AList.delete ''metric_errors'' (AList.delete ''cpu_capacity'' n0)) (selectMetricAvailability n0)
      in settle_disk report n1)"

record monitor_record =
  mr_client :: string
  mr_time :: string
  mr_metrics :: jsobj

text \<open>The columns of a stored row; \<open>x || 0\<close> and \<open>x ?? 0\<close> as in the source.\<close>

definition toMonitorRecord :: "string \<Rightarrow> string \<Rightarrow> jsval \<Rightarrow> monitor_record" where
  "toMonitorRecord client time input =
     (let g = js_get (normalizeMonitorReport input); zero = Num (Fin 0); or0 = (\<lambda>v. js_or v zero);
          diskAvailable = (g ''disk'' \<noteq> Null \<and> g ''disk_total'' \<noteq> Null)
      in \<lparr>mr_client = client, mr_time = time, mr_metrics =
        [(''cpu'', g ''cpu''), (''gpu'', or0 (g ''gpu'')), (''ram'', g ''ram''), (''ram_total'', g ''ram_total''), (''swap'', g ''swap''),
         (''swap_total'', g ''swap_total''), (''load'', js_nullish (g ''load'') Null), (''temp'', g ''temp''),
         (''disk'', js_nullish (g ''disk'') zero), (''disk_total'', if diskAvailable then or0 (g ''disk_total'') else zero),
         (''net_in'', g ''net_in''), (''net_out'', g ''net_out''), (''net_total_up'', g ''net_total_up''), (''net_total_down'', g ''net_total_down''),
         (''process_count'', or0 (g ''process_count'')), (''connections'', or0 (g ''connections'')),
         (''connections_udp'', or0 (g ''connections_udp'')), (''uptime'', or0 (g ''uptime''))]\<rparr>)"

definition unwrapMonitorReportEnvelope :: "jsobj \<Rightarrow> jsobj" where
  "unwrapMonitorReportEnvelope report =
     (if js_get report ''type'' = Str ''report'' then (case js_get report ''data'' of Obj d \<Rightarrow> d | _ \<Rightarrow> report) else report)"

subsection \<open>Public projections\<close>

definition METRIC_FIELDS :: "string list" where
  "METRIC_FIELDS = [''cpu'', ''gpu'', ''ram'', ''ram_total'', ''swap'', ''swap_total'', ''load'', ''temp'', ''disk'', ''disk_total'',
     ''disk_source'', ''disk_sampled_at'', ''net_in'', ''net_out'', ''net_total_up'', ''net_total_down'', ''process_count'',
     ''connections'', ''connections_udp'', ''uptime'', ''version'', ''timestamp'']"

definition BASIC_FIELDS :: "string list" where
  "BASIC_FIELDS = [''cpu_name'', ''virtualization'', ''arch'', ''cpu_cores'', ''os'', ''kernel_version'', ''gpu_name'', ''mem_total'',
     ''swap_total'', ''disk_total'', ''version'', ''region'']"

definition GPU_FIELDS :: "string list" where
  "GPU_FIELDS = [''device_index'', ''device_name'', ''mem_total'', ''mem_used'', ''utilization'', ''temperature'']"

fun public_scalar :: "jsval \<Rightarrow> jsval option" where
  "public_scalar Null = Some Null"
| "public_scalar (Bool b) = Some (Bool b)"
| "public_scalar (Num x) = (if js_isFinite x then Some (Num x) else None)"
| "public_scalar (Str s) = Some (Str (take 256 s))"
| "public_scalar _ = None"

definition selectScalars :: "jsval \<Rightarrow> string list \<Rightarrow> jsobj" where
  "selectScalars v fs = (case v of
       Obj record1 \<Rightarrow> concat (map (\<lambda>field. case public_scalar (js_get record1 field) of Some w \<Rightarrow> [(field, w)] | None \<Rightarrow> []) fs)
     | _ \<Rightarrow> [])"

definition toPublicReport :: "jsobj \<Rightarrow> jsobj" where
  "toPublicReport report =
     (let r0 = assign (selectScalars (Obj report) METRIC_FIELDS) (selectMetricAvailability report);
          r1 = AList.update ''gpus'' (Arr (case js_get report ''gpus'' of
                 Arr xs \<Rightarrow> map (\<lambda>gpu. Obj (selectScalars gpu GPU_FIELDS)) (take 16 xs) | _ \<Rightarrow> [])) r0
      in case js_get report ''basic_info'' of
          Obj b \<Rightarrow> AList.update ''basic_info'' (Obj (selectScalars (Obj b) BASIC_FIELDS)) r1
        | Arr _ \<Rightarrow> AList.update ''basic_info'' (Obj []) r1
        | _ \<Rightarrow> r1)"

definition keep_ip :: "jsobj \<Rightarrow> string \<Rightarrow> jsobj \<Rightarrow> jsobj" where
  "keep_ip report field acc = (case js_get report field of
       Str s \<Rightarrow> if isPublicIpAddress s then AList.update field (Str s) acc else acc
     | _ \<Rightarrow> acc)"

definition compactLiveReport :: "jsobj \<Rightarrow> jsobj" where
  "compactLiveReport report =
     (let acc = keep_ip report ''ipv6'' (keep_ip report ''ipv4'' (normalizeMonitorReport (Obj (toPublicReport report))))
      in case js_get report ''region'' of Str s \<Rightarrow> AList.update ''region'' (Str (take 256 s)) acc | _ \<Rightarrow> acc)"

definition PUBLIC_CLIENT_FIELDS :: "string list" where
  "PUBLIC_CLIENT_FIELDS = [''uuid'', ''name'', ''cpu_name'', ''virtualization'', ''arch'', ''cpu_cores'', ''os'', ''kernel_version'',
     ''gpu_name'', ''region'', ''public_remark'', ''mem_total'', ''swap_total'', ''disk_total'', ''version'', ''price'', ''billing_cycle'',
     ''auto_renewal'', ''currency'', ''expired_at'', ''group'', ''tags'', ''hidden'', ''traffic_limit'', ''traffic_limit_type'',
     ''traffic_reset_day'', ''sort_order'', ''created_at'', ''updated_at'']"

definition pickFields :: "jsobj \<Rightarrow> string list \<Rightarrow> jsobj" where
  "pickFields source keys = concat (map (\<lambda>k. if js_get source k \<noteq> Undef then [(k, js_get source k)] else []) keys)"

text \<open>\<open>replace(/<\w+>$/, '')\<close>: a trailing tag of word characters in angle brackets.\<close>

definition is_word_char :: "char \<Rightarrow> bool" where
  "is_word_char c \<longleftrightarrow> is_AZ c \<or> is_az c \<or> is_digit c \<or> c = CHR ''_''"

definition strip_tag_suffix :: "string \<Rightarrow> string" where
  "strip_tag_suffix s = (case rev s of
       c # r \<Rightarrow> if c = CHR ''>'' then
           (let w = takeWhile is_word_char r; rest = dropWhile is_word_char r
            in case rest of d # q \<Rightarrow> if w \<noteq> [] \<and> d = CHR ''<'' then rev q else s | [] \<Rightarrow> s)
         else s
     | [] \<Rightarrow> s)"

definition isPublicTag :: "string \<Rightarrow> bool" where
  "isPublicTag tag \<longleftrightarrow> js_toLowerCase (js_trim (strip_tag_suffix tag)) \<notin> set [''ipv4'', ''ipv6'', ''ip4'', ''ip6'', ''v4'', ''v6'']"

definition sanitizePublicTags :: "jsval \<Rightarrow> string" where
  "sanitizePublicTags tags = (case tags of
       Str s \<Rightarrow> js_join '';'' (filter isPublicTag (filter (\<lambda>t. t \<noteq> []) (map js_trim (split_on (\<lambda>c. c = CHR '';'' \<or> c = CHR '','') s))))
     | _ \<Rightarrow> [])"

definition has_public_ip :: "jsval \<Rightarrow> bool" where
  "has_public_ip v = (case v of Str s \<Rightarrow> isPublicIpAddress s | _ \<Rightarrow> False)"

definition toPublicClient :: "jsobj \<Rightarrow> jsobj" where
  "toPublicClient client =
     (let publicClient = pickFields client PUBLIC_CLIENT_FIELDS
      in assign publicClient [(''has_ipv4'', Bool (has_public_ip (js_get client ''ipv4''))), (''has_ipv6'', Bool (has_public_ip (js_get client ''ipv6''))),
           (''tags'', Str (sanitizePublicTags (js_get publicClient ''tags'')))])"

definition is_primitive :: "jsval \<Rightarrow> bool" where
  "is_primitive v = (case v of Null \<Rightarrow> True | Str _ \<Rightarrow> True | Num _ \<Rightarrow> True | Bool _ \<Rightarrow> True | _ \<Rightarrow> False)"

definition pick_primitives :: "jsobj \<Rightarrow> string list \<Rightarrow> jsobj" where
  "pick_primitives client fs = concat (map (\<lambda>f. if is_primitive (js_get client f) then [(f, js_get client f)] else []) fs)"

definition AGENT_METADATA_FIELDS :: "string list" where
  "AGENT_METADATA_FIELDS = [''cpu_name'', ''virtualization'', ''arch'', ''cpu_cores'', ''os'', ''kernel_version'', ''gpu_name'', ''ipv4'',
     ''ipv6'', ''region'', ''mem_total'', ''swap_total'', ''disk_total'', ''version'']"

definition projectAgentClientMetadata :: "jsobj \<Rightarrow> jsobj" where
  "projectAgentClientMetadata client = pick_primitives client AGENT_METADATA_FIELDS"

definition ip_flag :: "jsobj \<Rightarrow> string \<Rightarrow> jsobj \<Rightarrow> jsobj" where
  "ip_flag client field result =
     (let flag = ''has_'' @ field
      in case map_of client field of
          Some v \<Rightarrow> AList.update flag (Bool (isPublicIpAddress (js_String (js_or v (Str []))))) result
        | None \<Rightarrow> (case js_get client flag of Bool b \<Rightarrow> AList.update flag (Bool b) result | _ \<Rightarrow> result))"

definition projectClientMetadata :: "jsobj \<Rightarrow> bool \<Rightarrow> jsobj" where
  "projectClientMetadata client administrator =
     (let fs = (if administrator then PUBLIC_CLIENT_FIELDS @ [''ipv4'', ''ipv6'', ''remark''] else PUBLIC_CLIENT_FIELDS);
          r0 = pick_primitives client fs;
          r1 = (case map_of client ''tags'' of Some t \<Rightarrow> AList.update ''tags'' (Str (sanitizePublicTags t)) r0 | None \<Rightarrow> r0)
      in ip_flag client ''ipv6'' (ip_flag client ''ipv4'' r1))"

subsection \<open>Restored client snapshots\<close>

definition restore_ip :: "string \<Rightarrow> jsobj \<Rightarrow> jsobj" where
  "restore_ip field safe =
     (let safe1 = (case js_get safe field of
             Str s \<Rightarrow> if js_trim s \<noteq> [] \<and> \<not> isPublicIpAddress s then AList.update field (Str []) safe else safe
           | _ \<Rightarrow> safe)
      in AList.update (''has_'' @ field) (Bool (isPublicIpAddress (js_String (js_or (js_get safe1 field) (Str []))))) safe1)"

definition restoredClientMetadata :: "jsobj \<Rightarrow> jsobj" where
  "restoredClientMetadata client =
     (let safe = filter (\<lambda>(k, _). k \<noteq> ''token'' \<and> k \<noteq> ''token_hash'') client;
          uuid = (case js_get safe ''uuid'' of Str s \<Rightarrow> js_trim s | _ \<Rightarrow> [])
      in AList.update ''uuid'' (Str uuid) (restore_ip ''ipv6'' (restore_ip ''ipv4'' safe)))"

definition measureRestoredClientSnapshot :: "jsobj list \<Rightarrow> bool \<Rightarrow> bool \<times> nat \<times> nat" where
  "measureRestoredClientSnapshot clients reserveDatabaseDefaults =
     (let metadata = map restoredClientMetadata clients;
          snapshot = Obj [(''clients'', Arr (map Obj metadata)), (''updatedAt'', Num (FinI MAX_SAFE_INTEGER)), (''removed'', Arr []), (''complete'', Bool True)];
          bytes1 = length (utf8_encode (''admin-clients:snapshot'' @ the (JSON_stringify snapshot)));
          estimatedBytes = bytes1 + (if reserveDatabaseDefaults then length metadata * 512 else 0);
          maximumBytes = 2 * 1024 * 1024 - 256 * 1024
      in (estimatedBytes \<le> maximumBytes, estimatedBytes, maximumBytes))"

subsection \<open>Lookups in updated objects\<close>

lemma js_get_update [simp]: "js_get (AList.update k v o1) x = (if x = k then v else js_get o1 x)"
  by (simp add: js_get_def update_conv')

lemma js_get_delete [simp]: "js_get (AList.delete k o1) x = (if x = k then Undef else js_get o1 x)"
  by (simp add: js_get_def delete_conv')

lemma js_get_append: "js_get (xs @ ys) k = (case map_of xs k of Some v \<Rightarrow> v | None \<Rightarrow> js_get ys k)"
  by (simp add: js_get_def map_add_def split: option.splits)

lemma js_get_assign:
  assumes "distinct (map fst source)"
  shows "js_get (assign target source) k = (case map_of source k of Some v \<Rightarrow> v | None \<Rightarrow> js_get target k)"
  using assms
proof (induction source arbitrary: target)
  case (Cons kv source)
  obtain x v where kv: "kv = (x, v)" by force
  have "map_of source x = None" using Cons.prems kv by (auto simp: map_of_eq_None_iff)
  then show ?case using Cons kv by (auto simp: assign_def split: option.splits)
qed (simp add: assign_def)

lemma assign_keys: "fst ` set (assign target source) \<subseteq> fst ` set target \<union> fst ` set source"
proof (induction source arbitrary: target)
  case (Cons kv source)
  obtain x v where kv: "kv = (x, v)" by force
  have "assign target (kv # source) = assign (AList.update x v target) source" by (simp add: assign_def kv)
  then show ?case using Cons [of "AList.update x v target"] kv by (auto simp: dom_update)
qed (simp add: assign_def)

lemma report_fields_keys: "map fst (report_fields r) =
    [''cpu'', ''gpu'', ''ram'', ''ram_total'', ''swap'', ''swap_total'', ''load'', ''temp'', ''disk'', ''disk_total'', ''net_in'', ''net_out'',
     ''net_total_up'', ''net_total_down'', ''process_count'', ''connections'', ''connections_udp'', ''uptime'', ''version'', ''gpus'']"
  by (simp add: report_fields_def Let_def)

lemma availability_keys: "fst ` set (selectMetricAvailability r) \<subseteq> {''cpu_capacity'', ''metric_errors''}"
  "distinct (map fst (selectMetricAvailability r))"
  by (auto simp: selectMetricAvailability_def Let_def split: jsval.splits jsnum.splits)

lemma js_get_settle:
  "k \<noteq> ''disk_source'' \<Longrightarrow> k \<noteq> ''disk_sampled_at'' \<Longrightarrow>
   js_get (settle_disk r n) k = js_get n k \<or> (k = ''disk'' \<and> js_get (settle_disk r n) k = Null)"
  by (simp add: settle_disk_def Let_def)

text \<open>A metric of the normalised report is the computed one; only the disk value may be dropped.\<close>

lemma normalized_field:
  assumes "map_of (report_fields (report_payload input)) k = Some v"
  shows "js_get (normalizeMonitorReport input) k = v \<or> (k = ''disk'' \<and> js_get (normalizeMonitorReport input) k = Null)"
proof -
  let ?r = "report_payload input"
  have d: "distinct (map fst (report_fields ?r))" unfolding report_fields_keys by simp
  have "map_of (report_fields ?r) x = None" if "x \<in> {''cpu_capacity'', ''metric_errors'', ''disk_source'', ''disk_sampled_at''}" for x
    using that unfolding map_of_eq_None_iff set_map [symmetric] report_fields_keys by (elim insertE) simp_all
  then have ne: "k \<noteq> ''cpu_capacity''" "k \<noteq> ''metric_errors''" "k \<noteq> ''disk_source''" "k \<noteq> ''disk_sampled_at''"
    using assms by (metis insertCI option.distinct(1))+
  have m: "map_of (selectMetricAvailability x) k = None" for x
    using subsetD [OF availability_keys(1), of k x] ne(1,2) unfolding map_of_eq_None_iff by (simp only: insert_iff empty_iff simp_thms not_False_eq_True) auto
  define n0 where "n0 = assign ?r (report_fields ?r)"
  define n1 where "n1 = assign (AList.delete ''metric_errors'' (AList.delete ''cpu_capacity'' n0)) (selectMetricAvailability n0)"
  have "js_get n0 k = v" using assms unfolding n0_def js_get_assign [OF d] by simp
  then have "js_get n1 k = v" using ne unfolding n1_def js_get_assign [OF availability_keys(2)] m by simp
  moreover have "normalizeMonitorReport input = settle_disk ?r n1" by (simp add: normalizeMonitorReport_def n0_def n1_def Let_def)
  ultimately show ?thesis using js_get_settle [OF ne(3,4), of ?r n1] by metis
qed

subsection \<open>Bounds of a normalised report\<close>

definition in_range :: "rat \<Rightarrow> rat \<Rightarrow> jsval \<Rightarrow> bool" where
  "in_range lo hi v = (case v of Num (Fin q) \<Rightarrow> lo \<le> q \<and> q \<le> hi | _ \<Rightarrow> False)"

definition int_in_range :: "int \<Rightarrow> int \<Rightarrow> jsval \<Rightarrow> bool" where
  "int_in_range lo hi v \<longleftrightarrow> (\<exists>i. v = Num (FinI i) \<and> lo \<le> i \<and> i \<le> hi)"

definition short_str :: "nat \<Rightarrow> jsval \<Rightarrow> bool" where
  "short_str n v = (case v of Str s \<Rightarrow> length s \<le> n | _ \<Rightarrow> False)"

definition NULLABLE_METRICS :: "(string \<times> rat) list" where
  "NULLABLE_METRICS = [(''cpu'', 100), (''ram'', MAX_COUNTER_VALUE), (''ram_total'', MAX_COUNTER_VALUE), (''swap'', MAX_COUNTER_VALUE),
     (''swap_total'', MAX_COUNTER_VALUE), (''load'', 10000), (''disk'', MAX_COUNTER_VALUE), (''disk_total'', MAX_COUNTER_VALUE),
     (''net_in'', MAX_COUNTER_VALUE), (''net_out'', MAX_COUNTER_VALUE), (''net_total_up'', MAX_COUNTER_VALUE),
     (''net_total_down'', MAX_COUNTER_VALUE), (''uptime'', 315576000)]"

definition gpu_ok :: "jsval \<Rightarrow> bool" where
  "gpu_ok v \<longleftrightarrow> (\<exists>g. v = Obj g \<and> int_in_range 0 1024 (js_get g ''device_index'') \<and> short_str 128 (js_get g ''device_name'') \<and>
     in_range 0 MAX_COUNTER_VALUE (js_get g ''mem_total'') \<and> in_range 0 MAX_COUNTER_VALUE (js_get g ''mem_used'') \<and>
     in_range 0 100 (js_get g ''utilization'') \<and> in_range 0 150 (js_get g ''temperature''))"

definition report_ok :: "jsobj \<Rightarrow> bool" where
  "report_ok r \<longleftrightarrow>
     (\<forall>(k, hi) \<in> set NULLABLE_METRICS. js_get r k = Null \<or> in_range 0 hi (js_get r k)) \<and>
     in_range 0 100 (js_get r ''gpu'') \<and> (js_get r ''temp'' = Null \<or> in_range (- 100) 150 (js_get r ''temp'')) \<and>
     (\<forall>k \<in> {''process_count'', ''connections'', ''connections_udp''}. int_in_range 0 10000000 (js_get r k)) \<and>
     short_str 64 (js_get r ''version'') \<and>
     (\<exists>gs. js_get r ''gpus'' = Arr gs \<and> length gs \<le> 16 \<and> (\<forall>g \<in> set gs. gpu_ok g)) \<and>
     (js_get r ''disk_source'' = Undef \<and> js_get r ''disk_sampled_at'' = Undef \<or>
      js_get r ''disk_source'' = Str ''directory'' \<and> js_get r ''disk'' \<noteq> Null \<and> int_in_range 1 8640000000000000 (js_get r ''disk_sampled_at''))"

lemma boundedNumber_range: "lo \<le> hi \<Longrightarrow> lo \<le> boundedNumber lo hi vs \<and> boundedNumber lo hi vs \<le> hi"
  by (simp add: boundedNumber_def Let_def)

lemma in_range_bounded: "lo \<le> hi \<Longrightarrow> in_range lo hi (Num (Fin (boundedNumber lo hi vs)))"
  using boundedNumber_range by (simp add: in_range_def)

lemma nullable_range: "0 \<le> hi \<Longrightarrow> boundedNullableNumber 0 hi p fs = Null \<or> in_range 0 hi (boundedNullableNumber 0 hi p fs)"
  using boundedNumber_range [of 0 hi] by (simp add: boundedNullableNumber_def in_range_def)

lemma boundedInteger_range:
  assumes "0 \<le> hi"
  shows "int_in_range 0 hi (Num (Fin (boundedInteger 0 (of_int hi) vs)))"
proof -
  let ?b = "boundedNumber 0 (of_int hi) vs"
  have b: "0 \<le> ?b" "?b \<le> of_int hi" using boundedNumber_range [of 0 "of_int hi" vs] assms by auto
  then have "boundedInteger 0 (of_int hi) vs = of_int \<lfloor>?b\<rfloor>" "0 \<le> \<lfloor>?b\<rfloor>" "\<lfloor>?b\<rfloor> \<le> hi"
    by (auto simp: boundedInteger_def js_trunc_def floor_le_iff)
  then show ?thesis unfolding int_in_range_def by blast
qed

lemma boundedString_short: "short_str n (Str (boundedString v n))"
  by (simp add: short_str_def boundedString_def)

lemma gpu_info_ok: "gpu_ok (Obj (gpu_info i item))"
proof -
  have mt: "0 \<le> boundedNumber 0 MAX_COUNTER_VALUE vs" "boundedNumber 0 MAX_COUNTER_VALUE vs \<le> MAX_COUNTER_VALUE" for vs
    using boundedNumber_range [of 0 MAX_COUNTER_VALUE] by (simp_all add: MAX_COUNTER_VALUE_def)
  have used: "in_range 0 MAX_COUNTER_VALUE (Num (Fin (boundedNumber 0 (if 0 < m then m else MAX_COUNTER_VALUE) vs)))"
    if "m \<le> MAX_COUNTER_VALUE" for m vs
    using that boundedNumber_range [of 0 "if 0 < m then m else MAX_COUNTER_VALUE" vs] by (auto simp: in_range_def MAX_COUNTER_VALUE_def)
  have cnt: "in_range 0 MAX_COUNTER_VALUE (Num (Fin (boundedNumber 0 MAX_COUNTER_VALUE vs)))" for vs using mt by (simp add: in_range_def)
  have "int_in_range 0 1024 (Num (Fin (boundedInteger 0 MAX_DEVICE_INDEX vs)))" for vs
    using boundedInteger_range [of 1024 vs] by (simp add: MAX_DEVICE_INDEX_def)
  moreover have "in_range 0 100 (Num (Fin (boundedNumber 0 MAX_PERCENT vs)))" "in_range 0 150 (Num (Fin (boundedNumber 0 MAX_TEMPERATURE_C vs)))" for vs
    by (simp_all add: MAX_PERCENT_def MAX_TEMPERATURE_C_def in_range_bounded)
  moreover have "short_str 128 (Str (boundedString v MAX_GPU_DEVICE_NAME_LENGTH))" for v
    using boundedString_short by (simp add: MAX_GPU_DEVICE_NAME_LENGTH_def)
  ultimately have
    "int_in_range 0 1024 (js_get (gpu_info i item) ''device_index'')" "short_str 128 (js_get (gpu_info i item) ''device_name'')"
    "in_range 0 MAX_COUNTER_VALUE (js_get (gpu_info i item) ''mem_total'')" "in_range 0 MAX_COUNTER_VALUE (js_get (gpu_info i item) ''mem_used'')"
    "in_range 0 100 (js_get (gpu_info i item) ''utilization'')" "in_range 0 150 (js_get (gpu_info i item) ''temperature'')"
    using used [OF mt(2)] cnt by (simp_all add: gpu_info_def Let_def js_get_Cons)
  then show ?thesis unfolding gpu_ok_def by blast
qed

lemma gpu_list_ok: "length (normalizeGpuList a b) \<le> 16 \<and> (\<forall>g \<in> set (normalizeGpuList a b). gpu_ok g)"
proof -
  have "gpu_ok ((\<lambda>(index, item). Obj (gpu_info index item)) p)" for p using gpu_info_ok by (cases p) simp
  then show ?thesis by (auto simp: normalizeGpuList_def Let_def MAX_GPU_RECORDS_PER_REPORT_def)
qed

lemma nullable_fields:
  "list_all (\<lambda>(k, hi). case map_of (report_fields r) k of Some v \<Rightarrow> v = Null \<or> in_range 0 hi v | None \<Rightarrow> False) NULLABLE_METRICS"
proof -
  have "boundedNullableNumber 0 MAX_COUNTER_VALUE p fs = Null \<or> in_range 0 MAX_COUNTER_VALUE (boundedNullableNumber 0 MAX_COUNTER_VALUE p fs)"
    "boundedNullableNumber 0 MAX_PERCENT p fs = Null \<or> in_range 0 100 (boundedNullableNumber 0 MAX_PERCENT p fs)"
    "boundedNullableNumber 0 MAX_LOAD_VALUE p fs = Null \<or> in_range 0 10000 (boundedNullableNumber 0 MAX_LOAD_VALUE p fs)"
    "boundedNullableNumber 0 MAX_UPTIME_SECONDS p fs = Null \<or> in_range 0 315576000 (boundedNullableNumber 0 MAX_UPTIME_SECONDS p fs)" for p fs
    by (simp_all only: MAX_COUNTER_VALUE_def MAX_PERCENT_def MAX_LOAD_VALUE_def MAX_UPTIME_SECONDS_def nullable_range zero_le_numeral)
  then show ?thesis by (simp add: NULLABLE_METRICS_def report_fields_def Let_def)
qed

lemma settled_disk:
  assumes "settle_disk report n = r"
  shows "js_get r ''disk_source'' = Undef \<and> js_get r ''disk_sampled_at'' = Undef \<or>
    js_get r ''disk_source'' = Str ''directory'' \<and> js_get r ''disk'' \<noteq> Null \<and> int_in_range 1 8640000000000000 (js_get r ''disk_sampled_at'')"
proof (cases "(js_get report ''disk_source'' \<noteq> Undef \<or> js_get report ''disk_sampled_at'' \<noteq> Undef) \<and>
    disk_sample_ok report (AList.delete ''disk_sampled_at'' (AList.delete ''disk_source'' n))")
  case True
  then obtain x where x: "js_get report ''disk_sampled_at'' = Num x" "js_isSafeInteger x" "js_lt (Fin 0) x" "js_le x (Fin 8640000000000000)"
    by (auto simp: disk_sample_ok_def split: jsval.splits)
  then have "js_isInteger x" by (cases x) auto
  then obtain i where i: "x = FinI i" by (rule js_isIntegerE)
  have "0 < i" using x(3) i by simp
  moreover have "i \<le> 8640000000000000" using x(4) i by (metis js_le.simps(1) of_int_le_iff of_int_numeral)
  ultimately have "int_in_range 1 8640000000000000 (js_get report ''disk_sampled_at'')"
    using x(1) i unfolding int_in_range_def by (intro exI [of _ i]) simp
  moreover have "js_get n ''disk'' \<noteq> Null" using True by (simp add: disk_sample_ok_def)
  ultimately show ?thesis using True unfolding assms [symmetric] settle_disk_def Let_def by simp
next
  case False
  then show ?thesis unfolding assms [symmetric] settle_disk_def Let_def
    by (cases "js_get report ''disk_source'' \<noteq> Undef \<or> js_get report ''disk_sampled_at'' \<noteq> Undef") (simp, argo, simp)
qed

text \<open>
  C27. Whatever an agent sends, the normalised report is within bounds: every metric is a finite
  number in its range or explicitly unavailable, counts are integers, texts are short, at most 16
  GPUs are listed, each within bounds, and a cached disk measurement carries its sampling time
  or no mark at all.
\<close>

theorem report_bounds: "report_ok (normalizeMonitorReport input)"
proof -
  let ?r = "js_get (normalizeMonitorReport input)" and ?f = "report_fields (report_payload input)"
  note field = normalized_field [of input]
  have other: "?r k = v" if "map_of ?f k = Some v" "k \<noteq> ''disk''" for k v using field [OF that(1)] that(2) by blast
  have metric: "?r k = Null \<or> in_range 0 hi (?r k)" if "(k, hi) \<in> set NULLABLE_METRICS" for k hi
  proof -
    from nullable_fields [of "report_payload input"] that
    have "case map_of ?f k of Some v \<Rightarrow> v = Null \<or> in_range 0 hi v | None \<Rightarrow> False" unfolding list_all_iff by blast
    then obtain v where v: "map_of ?f k = Some v" "v = Null \<or> in_range 0 hi v" by (cases "map_of ?f k") simp_all
    then show ?thesis using field [OF v(1)] by metis
  qed
  have count: "int_in_range 0 10000000 (?r k)" if "k \<in> {''process_count'', ''connections'', ''connections_udp''}" for k
  proof -
    have "int_in_range 0 10000000 (Num (Fin (boundedInteger 0 MAX_COUNT_VALUE vs)))" for vs
      using boundedInteger_range [of 10000000 vs] by (simp add: MAX_COUNT_VALUE_def)
    then have "case map_of ?f k of Some v \<Rightarrow> int_in_range 0 10000000 v \<and> k \<noteq> ''disk'' | None \<Rightarrow> False"
      using that by (elim insertE emptyE) (simp_all add: report_fields_def Let_def)
    then show ?thesis using other [of k] by (cases "map_of ?f k") auto
  qed
  have gpu: "in_range 0 100 (?r ''gpu'')"
    using other [of "''gpu''"] in_range_bounded [of 0 100] by (simp add: report_fields_def Let_def MAX_PERCENT_def)
  have tm: "?r ''temp'' = Null \<or> in_range (- 100) 150 (?r ''temp'')"
    using other [of "''temp''"]
    by (auto simp: report_fields_def Let_def measuredTemperature_def MAX_TEMPERATURE_C_def in_range_def split: option.splits)
  have ver: "short_str 64 (?r ''version'')" using other [of "''version''"] boundedString_short by (simp add: report_fields_def Let_def)
  have "?r ''gpus'' = Arr (normalizeGpuList (asObject (js_get (report_payload input) ''gpu'')) (js_get (report_payload input) ''gpus''))"
    using other [of "''gpus''"] by (simp add: report_fields_def Let_def)
  then have gpus: "\<exists>gs. ?r ''gpus'' = Arr gs \<and> length gs \<le> 16 \<and> (\<forall>g \<in> set gs. gpu_ok g)" using gpu_list_ok by blast
  have disk: "?r ''disk_source'' = Undef \<and> ?r ''disk_sampled_at'' = Undef \<or>
     ?r ''disk_source'' = Str ''directory'' \<and> ?r ''disk'' \<noteq> Null \<and> int_in_range 1 8640000000000000 (?r ''disk_sampled_at'')"
    by (rule settled_disk) (simp add: normalizeMonitorReport_def Let_def)
  have "\<forall>(k, hi) \<in> set NULLABLE_METRICS. ?r k = Null \<or> in_range 0 hi (?r k)" using metric by (simp add: case_prod_beta)
  moreover have "\<forall>k \<in> {''process_count'', ''connections'', ''connections_udp''}. int_in_range 0 10000000 (?r k)" by (rule ballI, rule count)
  ultimately show ?thesis unfolding report_ok_def using gpu tm ver gpus disk by (intro conjI)
qed

subsection \<open>What a visitor sees\<close>

definition scalar_ok :: "jsval \<Rightarrow> bool" where
  "scalar_ok v = (case v of Null \<Rightarrow> True | Bool _ \<Rightarrow> True | Num x \<Rightarrow> js_isFinite x | Str s \<Rightarrow> length s \<le> 256 | _ \<Rightarrow> False)"

definition scalars_of :: "string list \<Rightarrow> jsval \<Rightarrow> bool" where
  "scalars_of fs v \<longleftrightarrow> (\<exists>o1. v = Obj o1 \<and> (\<forall>(k, w) \<in> set o1. k \<in> set fs \<and> scalar_ok w))"

definition public_entry :: "string \<times> jsval \<Rightarrow> bool" where
  "public_entry kv = (case kv of (k, v) \<Rightarrow>
     (k \<in> set METRIC_FIELDS \<and> scalar_ok v) \<or> (k = ''cpu_capacity'' \<and> scalar_ok v) \<or>
     (k = ''metric_errors'' \<and> (\<exists>es. v = Obj es \<and> (\<forall>(m, w) \<in> set es. m \<in> {''cpu'', ''ram'', ''swap'', ''network''} \<and> w \<in> Str ` set METRIC_ERROR_REASONS))) \<or>
     (k = ''gpus'' \<and> (\<exists>gs. v = Arr gs \<and> length gs \<le> 16 \<and> (\<forall>g \<in> set gs. scalars_of GPU_FIELDS g))) \<or>
     (k = ''basic_info'' \<and> scalars_of BASIC_FIELDS v))"

lemma public_scalar_ok: "public_scalar v = Some w \<Longrightarrow> scalar_ok w"
  by (cases v) (auto simp: scalar_ok_def split: if_splits)

lemma selectScalars_ok: "(k, w) \<in> set (selectScalars v fs) \<Longrightarrow> k \<in> set fs \<and> scalar_ok w"
  by (auto simp: selectScalars_def split: jsval.splits option.splits dest!: sym [of "Some w"] public_scalar_ok)

lemma scalars_of_select: "scalars_of fs (Obj (selectScalars v fs))"
  using selectScalars_ok by (auto simp: scalars_of_def)

lemma metric_errors_ok: "(m, w) \<in> set (metric_error_entries es) \<Longrightarrow> m \<in> {''cpu'', ''ram'', ''swap'', ''network''} \<and> w \<in> Str ` set METRIC_ERROR_REASONS"
  unfolding metric_error_entries_def by (auto split: jsval.splits if_splits)

lemma availability_public: "\<forall>kv \<in> set (selectMetricAvailability r). public_entry kv"
proof -
  have "public_entry (''cpu_capacity'', Num (Fin q))" for q by (simp add: public_entry_def scalar_ok_def)
  moreover have "public_entry (''metric_errors'', Obj (metric_error_entries es))" for es
    unfolding public_entry_def prod.case using metric_errors_ok by (intro disjI2 disjI1 conjI) blast+
  ultimately show ?thesis by (auto simp: selectMetricAvailability_def Let_def split: jsval.splits jsnum.splits)
qed

lemma set_assign: "\<forall>x \<in> set source. P x \<Longrightarrow> \<forall>x \<in> set target. P x \<Longrightarrow> \<forall>x \<in> set (assign target source). P x"
proof (induction source arbitrary: target)
  case (Cons kv source)
  obtain k v where kv: "kv = (k, v)" by force
  have "assign target (kv # source) = assign (AList.update k v target) source" by (simp add: assign_def kv)
  then show ?case using Cons.IH [of "AList.update k v target"] Cons.prems update_ok [of target P k v] kv by simp
qed (simp add: assign_def)

text \<open>
  The public form of a report is an allowlist, at every level: scalars of the metric fields,
  the fixed vocabulary of metric errors, at most 16 GPUs and the basic information, each
  reduced to scalars of their own fields, with short texts. Addresses, process data or any other
  extension an agent sends never pass.
\<close>

theorem public_report_allowlist: "list_all public_entry (toPublicReport report)"
proof -
  have "public_entry kv" if "kv \<in> set (selectScalars (Obj report) METRIC_FIELDS)" for kv
  proof -
    obtain k v where kv: "kv = (k, v)" by force
    have "k \<in> set METRIC_FIELDS \<and> scalar_ok v" using selectScalars_ok that kv by blast
    then show ?thesis unfolding public_entry_def kv prod.case by (rule disjI1)
  qed
  then have r0: "\<forall>kv \<in> set (assign (selectScalars (Obj report) METRIC_FIELDS) (selectMetricAvailability report)). public_entry kv"
    using availability_public by (intro set_assign) auto
  have "public_entry (''gpus'', Arr gs)" if "length gs \<le> 16" "\<forall>g \<in> set gs. scalars_of GPU_FIELDS g" for gs
    unfolding public_entry_def prod.case using that by blast
  then have g: "public_entry (''gpus'', Arr (case js_get report ''gpus'' of
        Arr xs \<Rightarrow> map (\<lambda>gpu. Obj (selectScalars gpu GPU_FIELDS)) (take 16 xs) | _ \<Rightarrow> []))"
    using scalars_of_select by (auto split: jsval.splits)
  have b: "public_entry (''basic_info'', Obj (selectScalars v BASIC_FIELDS))" "public_entry (''basic_info'', Obj [])" for v
    using scalars_of_select by (auto simp: public_entry_def scalars_of_def)
  note r1 = update_ok [of _ public_entry, OF r0 g]
  show ?thesis unfolding toPublicReport_def Let_def list_all_iff
    using r1 update_ok [of _ public_entry, OF r1 b(1)] update_ok [of _ public_entry, OF r1 b(2)]
    by (cases "js_get report ''basic_info''") simp_all
qed

text \<open>
  The public form of a client is determined by its public fields and by whether its addresses
  are public: two clients that agree on these look the same to a visitor, whatever their token,
  addresses or private remark are. It has no other fields.
\<close>

theorem public_client_noninterference:
  assumes "\<And>k. k \<in> set PUBLIC_CLIENT_FIELDS \<Longrightarrow> js_get c1 k = js_get c2 k"
    "\<And>k. k \<in> {''ipv4'', ''ipv6''} \<Longrightarrow> has_public_ip (js_get c1 k) = has_public_ip (js_get c2 k)"
  shows "toPublicClient c1 = toPublicClient c2 \<and>
    fst ` set (toPublicClient c1) \<subseteq> set PUBLIC_CLIENT_FIELDS \<union> {''has_ipv4'', ''has_ipv6''}"
proof -
  have p: "pickFields c1 PUBLIC_CLIENT_FIELDS = pickFields c2 PUBLIC_CLIENT_FIELDS"
    unfolding pickFields_def using assms(1) by (intro arg_cong [where f = concat] map_cong refl) simp
  have f: "fst ` set (pickFields c1 PUBLIC_CLIENT_FIELDS) \<subseteq> set PUBLIC_CLIENT_FIELDS"
    unfolding pickFields_def by (auto split: if_splits)
  have t: "''tags'' \<in> set PUBLIC_CLIENT_FIELDS" by (simp add: PUBLIC_CLIENT_FIELDS_def)
  have "toPublicClient c1 = toPublicClient c2" using p assms(2) by (simp add: toPublicClient_def)
  moreover have "fst ` set (toPublicClient c1) \<subseteq> fst ` set (pickFields c1 PUBLIC_CLIENT_FIELDS) \<union> {''has_ipv4'', ''has_ipv6'', ''tags''}"
    unfolding toPublicClient_def Let_def by (rule order_trans [OF assign_keys]) simp
  moreover have "fst ` set (pickFields c1 PUBLIC_CLIENT_FIELDS) \<union> {''has_ipv4'', ''has_ipv6'', ''tags''} \<subseteq>
      set PUBLIC_CLIENT_FIELDS \<union> {''has_ipv4'', ''has_ipv6''}"
    using f t by (simp only: Un_insert_right Un_empty_right insert_subset insertCI Un_subset_iff) (simp add: subset_insertI2 insert_absorb)
  ultimately show ?thesis by (meson order_trans)
qed

theorem public_client_noninterference_witness:
  "toPublicClient [(''uuid'', Str ''a''), (''token'', Str ''x''), (''ipv4'', Str ''10.0.0.1'')] =
   toPublicClient [(''uuid'', Str ''a''), (''token'', Str ''y''), (''ipv4'', Str ''192.168.1.1'')]"
proof -
  let ?c1 = "[(''uuid'', Str ''a''), (''token'', Str ''x''), (''ipv4'', Str ''10.0.0.1'')]"
    and ?c2 = "[(''uuid'', Str ''a''), (''token'', Str ''y''), (''ipv4'', Str ''192.168.1.1'')]"
  have n: "list_all (\<lambda>k. k \<noteq> ''token'' \<and> k \<noteq> ''ipv4'') PUBLIC_CLIENT_FIELDS" by (simp add: PUBLIC_CLIENT_FIELDS_def)
  have "js_get ?c1 k = js_get ?c2 k" if "k \<in> set PUBLIC_CLIENT_FIELDS" for k
    using that n by (auto simp: list_all_iff js_get_Cons)
  moreover have "has_public_ip (Str ''10.0.0.1'') = has_public_ip (Str ''192.168.1.1'')"
    by (simp add: has_public_ip_def isPublicIpAddress_def ip_parseIpv4_def js_trim_def is_ws_def cc_def strip_brackets_def js_toLowerCase_def
        lower_char_def is_AZ_def str_to_num_def js_startsWith_def parse_decimal_def is_digit_def digits_val_def parse_exponent_def
        pow10_def mk_num_def Let_def)
  then have "has_public_ip (js_get ?c1 k) = has_public_ip (js_get ?c2 k)" if "k \<in> {''ipv4'', ''ipv6''}" for k
    using that by (auto simp: js_get_Cons)
  ultimately show ?thesis using public_client_noninterference [of ?c1 ?c2] by blast
qed

subsection \<open>A malformed address that counts as public\<close>

text \<open>
  The parts of a dotted address are read with \<open>Number\<close>, so an empty part counts as zero and a
  text that is no address at all is taken for a public one.
\<close>

lemma public_ip_malformed: "isPublicIpAddress ''8..8.8''"
  by (simp add: isPublicIpAddress_def ip_parseIpv4_def js_trim_def is_ws_def cc_def strip_brackets_def js_toLowerCase_def
      lower_char_def is_AZ_def str_to_num_def js_startsWith_def parse_decimal_def is_digit_def digits_val_def parse_exponent_def
      pow10_def mk_num_def Let_def)

end
