(* ===== verification/AgentAuth.thy ===== *)
theory AgentAuth
  imports JsJson
begin

section \<open>Agent credentials in the live-data Durable Object\<close>

text \<open>
  The credential part of \<open>do/live-data.ts\<close>: the snapshots by which the object recognises an agent
  token without asking the database, the pointer from a node to its current token and the control
  row that decides whether a token is still good. The storage keys of the three kinds have
  prefixes none of which begins another, so each kind is a map of its own. A write queue per node
  (\<open>runClientControlWrite\<close>) makes every operation here atomic for its node. \<open>Date.parse\<close> is the
  parameter \<open>dp\<close>; \<open>None\<close> stands for NaN.
\<close>

subsection \<open>Requests and fields\<close>

type_synonym response = "nat \<times> jsval"

record do_request =
  dq_content_length :: "string option"
  dq_text :: "string option"

definition json_error :: "nat \<Rightarrow> string \<Rightarrow> response" where
  "json_error status msg = (status, Obj [(''error'', Str msg)])"

definition json_success :: response where
  "json_success = (200, Obj [(''success'', Bool True)])"

definition HTTP_CLIENT_META_MAX_BODY_BYTES :: nat where
  "HTTP_CLIENT_META_MAX_BODY_BYTES = 16 * 1024"

definition isObjectPayload :: "jsval \<Rightarrow> bool" where
  "isObjectPayload v = (case v of Obj _ \<Rightarrow> True | _ \<Rightarrow> False)"

definition stringField :: "jsobj \<Rightarrow> string \<Rightarrow> string" where
  "stringField source key = (case js_get source key of Str s \<Rightarrow> s | _ \<Rightarrow> [])"

definition nullableStringField :: "jsobj \<Rightarrow> string \<Rightarrow> jsval" where
  "nullableStringField source key = (case js_get source key of
       Str s \<Rightarrow> if js_trim s \<noteq> [] then Str s else Null
     | _ \<Rightarrow> Null)"

definition numberField :: "jsobj \<Rightarrow> string \<Rightarrow> jsval" where
  "numberField source key = (case js_get source key of
       Num x \<Rightarrow> if js_isFinite x then Num x else Num (Fin 0)
     | _ \<Rightarrow> Num (Fin 0))"

definition booleanField :: "jsobj \<Rightarrow> string \<Rightarrow> bool" where
  "booleanField source key = (case js_get source key of
       Bool b \<Rightarrow> b
     | Num x \<Rightarrow> x \<noteq> Fin 0
     | Str s \<Rightarrow> js_toLowerCase (js_trim s) \<in> set [''true'', ''1'']
     | _ \<Rightarrow> False)"

text \<open>A body is read only when neither its declared nor its real size is over the limit.\<close>

definition parseJsonRequestWithLimit :: "do_request \<Rightarrow> nat \<Rightarrow> response + jsobj" where
  "parseJsonRequestWithLimit request maxBytes =
     (let declaredLength = js_Number (case dq_content_length request of
              Some t \<Rightarrow> js_or (Str t) (Num (Fin 0)) | None \<Rightarrow> Num (Fin 0));
          txt = (case dq_text request of Some t \<Rightarrow> t | None \<Rightarrow> [])
      in if js_isFinite declaredLength \<and> js_lt (Fin (of_nat maxBytes)) declaredLength
         then Inl (json_error 413 ''Request body too large'')
         else if maxBytes < length (utf8_encode txt) then Inl (json_error 413 ''Request body too large'')
         else case JSON_parse txt of
             Some (Obj body) \<Rightarrow> Inr body
           | _ \<Rightarrow> Inl (json_error 400 ''Invalid JSON body''))"

text \<open>A request the object sends itself.\<close>

definition own_request :: "jsobj \<Rightarrow> do_request" where
  "own_request body = \<lparr>dq_content_length = None, dq_text = JSON_stringify (Obj body)\<rparr>"

lemma quoted_size: "length (json_quote s) \<le> 6 * length s + 2"
proof -
  have one: "length (json_escape c) \<le> 6" for c by (simp add: json_escape_def)
  have "length (concat (map json_escape s)) \<le> 6 * length s"
    by (induction s) (use one in \<open>auto intro: add_mono\<close>)
  then show ?thesis by (simp add: json_quote_def)
qed

lemma utf8_size: "length (utf8_encode w) \<le> 2 * length w"
  by (induction w) (auto simp: utf8_encode_def utf8_char_def)

lemma own_request_back:
  assumes "json_clean (Obj body)" "serializedBytes (Obj body) \<le> mx"
  shows "parseJsonRequestWithLimit (own_request body) mx = Inr body"
proof -
  obtain t where t: "JSON_stringify (Obj body) = Some t" "JSON_parse t = Some (Obj body)"
    using json_parse_stringify [OF assms(1)] by blast
  then show ?thesis using assms(2)
    by (simp add: parseJsonRequestWithLimit_def own_request_def serializedBytes_def Let_def del: JSON_stringify.simps)
qed

definition snapshot_details :: "jsobj \<Rightarrow> string \<Rightarrow> jsobj" where
  "snapshot_details o1 uuid =
     (let s = (\<lambda>k. (k, Str (stringField o1 k))); n = (\<lambda>k. (k, numberField o1 k)); b = (\<lambda>k. (k, Bool (booleanField o1 k)))
      in [(''token_last_used_at'', nullableStringField o1 ''token_last_used_at''), s ''token_last_used_ip'',
          (''token_rotated_at'', nullableStringField o1 ''token_rotated_at''),
          (''name'', js_or (Str (stringField o1 ''name'')) (Str uuid))]
        @ map s [''cpu_name'', ''virtualization'', ''arch''] @ [n ''cpu_cores'']
        @ map s [''os'', ''kernel_version'', ''gpu_name'', ''ipv4'', ''ipv6'', ''region'', ''remark'', ''public_remark'']
        @ map n [''mem_total'', ''swap_total'', ''disk_total''] @ [s ''version'']
        @ map n [''price'', ''billing_cycle''] @ [b ''auto_renewal'']
        @ map s [''currency'', ''expired_at'', ''group'', ''tags''] @ [b ''hidden'', n ''traffic_limit'',
          (''traffic_limit_type'', js_or (Str (stringField o1 ''traffic_limit_type'')) (Str ''sum''))]
        @ map s [''created_at'', ''updated_at'']
        @ (case js_get o1 ''sort_order'' of
             Num x \<Rightarrow> if js_isFinite x then [(''sort_order'', Num x)] else [] | _ \<Rightarrow> []))"

definition normalizeAgentAuthSnapshot :: "jsval \<Rightarrow> jsobj option" where
  "normalizeAgentAuthSnapshot v = (case v of
       Obj o1 \<Rightarrow>
         (let uuid = js_trim (stringField o1 ''uuid''); tokenHash = js_trim (stringField o1 ''token_hash'')
          in if uuid = [] \<or> tokenHash = [] then None
             else Some ((''uuid'', Str uuid) # (''token'', Str []) # (''token_hash'', Str tokenHash) # snapshot_details o1 uuid))
     | _ \<Rightarrow> None)"

subsection \<open>Stored credentials\<close>

record auth_control =
  ctl_tokenHash :: "string option"
  ctl_rotatedAt :: rat
  ctl_revision :: "string option"
  ctl_removed :: bool

record auth_store =
  snaps :: "string \<rightharpoonup> jsobj"
  ptrs :: "string \<rightharpoonup> string"
  ctls :: "string \<rightharpoonup> auth_control"

abbreviation BigInt :: "string \<Rightarrow> nat" where
  "BigInt r \<equiv> digits_val 10 r"

definition date_or_0 :: "(string \<Rightarrow> int option) \<Rightarrow> jsval \<Rightarrow> rat" where
  "date_or_0 dp v = (case dp (js_String v) of Some t \<Rightarrow> of_int t | None \<Rightarrow> 0)"

definition rotation_time :: "(string \<Rightarrow> int option) \<Rightarrow> jsobj \<Rightarrow> rat" where
  "rotation_time dp client =
     date_or_0 dp (js_or (js_get client ''token_rotated_at'') (js_or (js_get client ''created_at'') (Str [])))"

definition update_time :: "(string \<Rightarrow> int option) \<Rightarrow> jsobj \<Rightarrow> rat" where
  "update_time dp client = date_or_0 dp (js_or (js_get client ''updated_at'') (Str []))"

text \<open>
  The early returns of \<open>storeAgentAuthSnapshot\<close>: a write with a revision loses to a later revision;
  a write without one is refused for a removed node, against a revisioned token, and when its token
  is not newer than the one in force; it is accepted without effect when the stored row is newer.
\<close>

datatype store_verdict = Refuse | KeepNewer | Write

definition judge_store ::
  "(string \<Rightarrow> int option) \<Rightarrow> jsobj \<Rightarrow> string option \<Rightarrow> auth_store \<Rightarrow> store_verdict" where
  "judge_store dp client revision s =
     (let uuid = stringField client ''uuid''; tokenHash = stringField client ''token_hash'';
          control = ctls s uuid; previousHash = ptrs s uuid;
          previous = (case previousHash of Some h \<Rightarrow> if h \<noteq> [] then snaps s h else None | None \<Rightarrow> None);
          rotatedAt = rotation_time dp client;
          oldRotatedAt = (case control of Some c \<Rightarrow> ctl_rotatedAt c
                          | None \<Rightarrow> (case previous of Some p \<Rightarrow> rotation_time dp p | None \<Rightarrow> date_or_0 dp (Str [])));
          controlRevision = (case control of Some c \<Rightarrow> ctl_revision c | None \<Rightarrow> None)
      in case revision of
          Some r \<Rightarrow> (case controlRevision of Some r' \<Rightarrow> if BigInt r < BigInt r' then Refuse else Write | None \<Rightarrow> Write)
        | None \<Rightarrow>
            if (case control of Some c \<Rightarrow> ctl_removed c | None \<Rightarrow> False) then Refuse
            else if (case control of Some c \<Rightarrow> ctl_revision c \<noteq> None \<and> ctl_tokenHash c \<noteq> Some tokenHash | None \<Rightarrow> False) then Refuse
            else if (case previousHash of Some h \<Rightarrow> h \<noteq> [] \<and> h \<noteq> tokenHash \<and> rotatedAt \<le> oldRotatedAt | None \<Rightarrow> False) then Refuse
            else if previousHash = Some tokenHash \<and> (case previous of Some p \<Rightarrow> update_time dp client < update_time dp p | None \<Rightarrow> False)
            then KeepNewer else Write)"

definition write_credential :: "(string \<Rightarrow> int option) \<Rightarrow> jsobj \<Rightarrow> string option \<Rightarrow> auth_store \<Rightarrow> auth_store" where
  "write_credential dp client revision s =
     (let uuid = stringField client ''uuid''; tokenHash = stringField client ''token_hash'';
          kept = (case ptrs s uuid of
                    Some h \<Rightarrow> if h \<noteq> [] \<and> h \<noteq> tokenHash then (snaps s)(h := None) else snaps s | None \<Rightarrow> snaps s);
          controlRevision = (case ctls s uuid of Some c \<Rightarrow> ctl_revision c | None \<Rightarrow> None)
      in s\<lparr>snaps := kept(tokenHash \<mapsto> client), ptrs := (ptrs s)(uuid \<mapsto> tokenHash),
           ctls := (ctls s)(uuid \<mapsto> \<lparr>ctl_tokenHash = Some tokenHash, ctl_rotatedAt = rotation_time dp client,
              ctl_revision = (case revision of Some r \<Rightarrow> Some r | None \<Rightarrow> controlRevision), ctl_removed = False\<rparr>)\<rparr>)"

definition storeAgentAuthSnapshot ::
  "(string \<Rightarrow> int option) \<Rightarrow> jsobj \<Rightarrow> string option \<Rightarrow> auth_store \<Rightarrow> auth_store \<times> bool" where
  "storeAgentAuthSnapshot dp client revision s = (case judge_store dp client revision s of
       Refuse \<Rightarrow> (s, False)
     | KeepNewer \<Rightarrow> (s, True)
     | Write \<Rightarrow> (write_credential dp client revision s, True))"

definition isAgentCredentialCurrent :: "string \<Rightarrow> string option \<Rightarrow> auth_store \<Rightarrow> bool" where
  "isAgentCredentialCurrent uuid tokenHash s = (case ctls s uuid of
       None \<Rightarrow> True
     | Some control \<Rightarrow>
         (let given = (tokenHash \<noteq> None \<and> tokenHash \<noteq> Some [])
          in \<not> ctl_removed control \<and> (ctl_revision control = None \<or> given) \<and>
             (\<not> given \<or> ctl_tokenHash control = tokenHash)))"

definition removeAgentAuthByUuid :: "rat \<Rightarrow> string \<Rightarrow> auth_store \<Rightarrow> auth_store" where
  "removeAgentAuthByUuid now uuid s =
     (let control = ctls s uuid;
          kept = (case ptrs s uuid of Some h \<Rightarrow> if h \<noteq> [] then (snaps s)(h := None) else snaps s | None \<Rightarrow> snaps s)
      in s\<lparr>snaps := kept, ptrs := (ptrs s)(uuid := None),
           ctls := (ctls s)(uuid \<mapsto> \<lparr>ctl_tokenHash = None,
              ctl_rotatedAt = (case control of Some c \<Rightarrow> if ctl_rotatedAt c \<noteq> 0 then ctl_rotatedAt c else now | None \<Rightarrow> now),
              ctl_revision = (case control of Some c \<Rightarrow> ctl_revision c | None \<Rightarrow> None), ctl_removed = True\<rparr>)\<rparr>)"

subsection \<open>Handlers\<close>

definition upsertAgentAuthSnapshot ::
  "(string \<Rightarrow> int option) \<Rightarrow> do_request \<Rightarrow> auth_store \<Rightarrow> auth_store \<times> response" where
  "upsertAgentAuthSnapshot dp request s = (case parseJsonRequestWithLimit request HTTP_CLIENT_META_MAX_BODY_BYTES of
       Inl r \<Rightarrow> (s, r)
     | Inr body \<Rightarrow> (case normalizeAgentAuthSnapshot (js_or (js_get body ''client'') (Obj body)) of
         None \<Rightarrow> (s, json_error 400 ''Invalid agent auth snapshot'')
       | Some client \<Rightarrow> (case storeAgentAuthSnapshot dp client None s of
           (s', accepted) \<Rightarrow> (s', if accepted then json_success else json_error 409 ''Credential snapshot was superseded''))))"

definition lookup_snapshot :: "string \<Rightarrow> auth_store \<Rightarrow> jsobj option" where
  "lookup_snapshot tokenHash s = (case snaps s tokenHash of
       None \<Rightarrow> None
     | Some client \<Rightarrow>
         (let uuid = stringField client ''uuid''; control = ctls s uuid
          in if ptrs s uuid = Some tokenHash \<and>
                (case control of None \<Rightarrow> True | Some c \<Rightarrow> \<not> ctl_removed c \<and> ctl_tokenHash c = Some tokenHash)
             then Some client else None))"

definition lookupAgentAuthSnapshot :: "do_request \<Rightarrow> auth_store \<Rightarrow> response" where
  "lookupAgentAuthSnapshot request s = (case parseJsonRequestWithLimit request HTTP_CLIENT_META_MAX_BODY_BYTES of
       Inl r \<Rightarrow> r
     | Inr body \<Rightarrow>
         (let tokenHash = js_trim (stringField body ''token_hash'')
          in if tokenHash = [] then json_error 400 ''Invalid token hash''
             else case lookup_snapshot tokenHash s of
                 Some client \<Rightarrow> (200, Obj [(''client'', Obj client)])
               | None \<Rightarrow> json_error 404 ''Snapshot missing''))"

definition removeAgentAuthSnapshot :: "rat \<Rightarrow> do_request \<Rightarrow> auth_store \<Rightarrow> auth_store \<times> response" where
  "removeAgentAuthSnapshot now request s = (case parseJsonRequestWithLimit request HTTP_CLIENT_META_MAX_BODY_BYTES of
       Inl r \<Rightarrow> (s, r)
     | Inr body \<Rightarrow>
         (let uuid = js_trim (stringField body ''uuid''); tokenHash = js_trim (stringField body ''token_hash'');
              s1 = (if tokenHash \<noteq> [] then s\<lparr>snaps := (snaps s)(tokenHash := None)\<rparr> else s);
              s2 = (if uuid \<noteq> [] then removeAgentAuthByUuid now uuid s1 else s1)
          in (s2, json_success)))"

subsection \<open>What a write can change\<close>

lemma normalized_keys:
  assumes "normalizeAgentAuthSnapshot v = Some c"
  shows "stringField c ''uuid'' \<noteq> []" "stringField c ''token_hash'' \<noteq> []"
  using assms
  by (auto simp: normalizeAgentAuthSnapshot_def Let_def stringField_def js_get_Cons split: jsval.split_asm if_split_asm)

text \<open>A control row that is removed or carries a revision is frozen for writes without a revision.\<close>

definition control_view :: "auth_control option \<Rightarrow> (bool \<times> string option \<times> string option) option" where
  "control_view = map_option (\<lambda>c. (ctl_removed c, ctl_tokenHash c, ctl_revision c))"

definition same_control :: "auth_control option \<Rightarrow> auth_control option \<Rightarrow> bool" where
  "same_control a b \<longleftrightarrow> control_view a = control_view b"

lemma same_control_refl [simp]: "same_control a a"
  by (simp add: same_control_def)

lemma same_control_trans: "same_control a b \<Longrightarrow> same_control b c \<Longrightarrow> same_control a c"
  by (simp add: same_control_def)

lemma store_other: "stringField client ''uuid'' \<noteq> u \<Longrightarrow> ctls (fst (storeAgentAuthSnapshot dp client r s)) u = ctls s u"
  by (simp add: storeAgentAuthSnapshot_def write_credential_def Let_def split: store_verdict.split)

lemma store_frozen:
  assumes c: "ctls s u = Some c" and f: "ctl_removed c \<or> ctl_revision c \<noteq> None"
  shows "same_control (ctls (fst (storeAgentAuthSnapshot dp client None s)) u) (ctls s u)"
proof (cases "stringField client ''uuid'' = u \<and> judge_store dp client None s = Write")
  case True
  then have "\<not> ctl_removed c \<and> ctl_tokenHash c = Some (stringField client ''token_hash'')"
    using c f by (auto simp: judge_store_def Let_def split: if_splits)
  then show ?thesis using True c
    by (simp add: storeAgentAuthSnapshot_def write_credential_def Let_def same_control_def control_view_def)
next
  case False
  then show ?thesis
    by (auto simp: storeAgentAuthSnapshot_def write_credential_def Let_def split: store_verdict.split)
qed

lemma upsert_frozen:
  assumes "ctls s u = Some c" "ctl_removed c \<or> ctl_revision c \<noteq> None"
  shows "same_control (ctls (fst (upsertAgentAuthSnapshot dp request s)) u) (ctls s u)"
  using store_frozen [OF assms]
  by (simp add: upsertAgentAuthSnapshot_def split_beta split: sum.split option.split)

lemma remove_control: "ctls (removeAgentAuthByUuid now uuid s) u =
    (if u = uuid then Some \<lparr>ctl_tokenHash = None,
        ctl_rotatedAt = (case ctls s uuid of Some c \<Rightarrow> if ctl_rotatedAt c \<noteq> 0 then ctl_rotatedAt c else now | None \<Rightarrow> now),
        ctl_revision = (case ctls s uuid of Some c \<Rightarrow> ctl_revision c | None \<Rightarrow> None), ctl_removed = True\<rparr>
     else ctls s u)"
  by (simp add: removeAgentAuthByUuid_def Let_def)

lemma current_cong: "same_control (ctls s u) (ctls s' u) \<Longrightarrow> isAgentCredentialCurrent u h s = isAgentCredentialCurrent u h s'"
  by (auto simp: same_control_def control_view_def isAgentCredentialCurrent_def Let_def split: option.splits)

end
