(* ===== verification/AdminClients.thy ===== *)
theory AdminClients
  imports AgentAuth MonitorReport
begin

section \<open>The management snapshot of the live-data object\<close>

text \<open>
  \<open>do/live-data.ts\<close> keeps the administrator's view of the nodes (name, visibility, order and the
  list of removed nodes) in one stored row, with copies in memory. The stored row is the typed
  object of the source whose members may be missing or malformed in rows of older versions, so
  they are untyped values here; reading normalises them. Times are the numbers of \<open>Date.now\<close>.
\<close>

subsection \<open>State\<close>

record admin_snapshot =
  as_clients :: "jsobj list"
  as_complete :: bool
  as_updatedAt :: rat
  as_removed :: "string list"

record stored_snapshot =
  ss_clients :: jsval
  ss_complete :: jsval
  ss_updatedAt :: rat
  ss_removed :: jsval

record admin_state =
  adm_stored :: "stored_snapshot option"
  adminClientsSnapshot :: "admin_snapshot option"
  adminClientsUpdatedAt :: "rat option"
  adminClientMetadata :: "(string \<times> jsobj) list"

text \<open>\<open>new Map(entries)\<close>: a later entry replaces the value of an earlier one and keeps its place.\<close>

definition js_Map :: "('k \<times> 'v) list \<Rightarrow> ('k \<times> 'v) list" where
  "js_Map entries = foldl (\<lambda>m (k, v). AList.update k v m) [] entries"

definition objects_of :: "jsval list \<Rightarrow> jsobj list" where
  "objects_of vs = map asObject (filter isObjectPayload vs)"

definition strings_of :: "jsval list \<Rightarrow> string list" where
  "strings_of vs = concat (map (\<lambda>v. case v of Str s \<Rightarrow> [s] | _ \<Rightarrow> []) vs)"

definition uuid_key :: "jsobj \<Rightarrow> string" where
  "uuid_key client = js_String (js_get client ''uuid'')"

subsection \<open>Reading and writing the row\<close>

definition rememberAdminClientsSnapshot :: "admin_snapshot \<Rightarrow> admin_state \<Rightarrow> admin_state" where
  "rememberAdminClientsSnapshot snapshot a =
     a\<lparr>adminClientsSnapshot := Some snapshot, adminClientsUpdatedAt := Some (as_updatedAt snapshot),
       adminClientMetadata := js_Map (map (\<lambda>client. (uuid_key client, client)) (as_clients snapshot))\<rparr>"

definition normalize_stored :: "stored_snapshot \<Rightarrow> admin_snapshot option" where
  "normalize_stored st = (case ss_clients st of
       Arr cs \<Rightarrow> Some \<lparr>as_clients = objects_of cs, as_complete = (ss_complete st \<noteq> Bool False), as_updatedAt = ss_updatedAt st,
          as_removed = (case ss_removed st of Arr rs \<Rightarrow> filter (\<lambda>u. js_trim u \<noteq> []) (strings_of rs) | _ \<Rightarrow> [])\<rparr>
     | _ \<Rightarrow> None)"

definition readAdminClientsSnapshot :: "admin_state \<Rightarrow> admin_state \<times> admin_snapshot option" where
  "readAdminClientsSnapshot a = (case Option.bind (adm_stored a) normalize_stored of
       None \<Rightarrow> (a\<lparr>adminClientsUpdatedAt := Some 0, adminClientsSnapshot := None, adminClientMetadata := []\<rparr>, None)
     | Some normalized \<Rightarrow> (rememberAdminClientsSnapshot normalized a, Some normalized))"

definition stored_form :: "admin_snapshot \<Rightarrow> stored_snapshot" where
  "stored_form s = \<lparr>ss_clients = Arr (map Obj (as_clients s)), ss_complete = Bool (as_complete s),
     ss_updatedAt = as_updatedAt s, ss_removed = Arr (map Str (as_removed s))\<rparr>"

definition storeAdminClientsSnapshot :: "admin_snapshot \<Rightarrow> admin_state \<Rightarrow> admin_state" where
  "storeAdminClientsSnapshot snapshot a = rememberAdminClientsSnapshot snapshot (a\<lparr>adm_stored := Some (stored_form snapshot)\<rparr>)"

subsection \<open>Changing the row\<close>

definition sanitizeAdminClientSnapshotItem :: "jsobj \<Rightarrow> jsobj option" where
  "sanitizeAdminClientSnapshotItem client =
     (let uuid = (case js_get client ''uuid'' of Str s \<Rightarrow> js_trim s | _ \<Rightarrow> [])
      in if uuid = [] then None
         else Some (AList.update ''uuid'' (Str uuid) (restore_ip ''ipv6'' (restore_ip ''ipv4''
                (filter (\<lambda>(k, _). k \<noteq> ''token'' \<and> k \<noteq> ''token_hash'') client)))))"

definition next_version :: "rat \<Rightarrow> admin_snapshot option \<Rightarrow> rat" where
  "next_version now previous = max now ((case previous of Some p \<Rightarrow> as_updatedAt p | None \<Rightarrow> 0) + 1)"

definition HTTP_ADMIN_CLIENTS_SNAPSHOT_MAX_BODY_BYTES :: nat where
  "HTTP_ADMIN_CLIENTS_SNAPSHOT_MAX_BODY_BYTES = 256 * 1024"

definition reordered :: "jsobj list \<Rightarrow> jsobj list \<Rightarrow> jsobj list" where
  "reordered clients previous =
     (let orders = js_Map (map (\<lambda>client. (uuid_key client, js_get client ''sort_order'')) clients)
      in map (\<lambda>client. case map_of orders (uuid_key client) of
           Some (Num x) \<Rightarrow> if js_isSafeInteger x \<and> js_lt (Fin 0) x then AList.update ''sort_order'' (Num x) client else client
         | _ \<Rightarrow> client) previous)"

definition version_matches :: "jsobj \<Rightarrow> admin_snapshot option \<Rightarrow> bool" where
  "version_matches body previous =
     (js_get body ''expected_version'' = (case previous of Some p \<Rightarrow> Num (Fin (as_updatedAt p)) | None \<Rightarrow> Null))"

definition write_body :: "rat \<Rightarrow> jsobj \<Rightarrow> admin_state \<Rightarrow> admin_state \<times> response" where
  "write_body now body a0 =
     (let clients = (case js_get body ''clients'' of
              Arr cs \<Rightarrow> List.map_filter sanitizeAdminClientSnapshotItem (objects_of cs) | _ \<Rightarrow> []);
          (a, previous) = readAdminClientsSnapshot a0;
          reorder = (js_get body ''mode'' = Str ''reorder'')
      in if \<not> reorder \<and> (previous \<noteq> None \<or> map_of body ''expected_version'' \<noteq> None) \<and> \<not> version_matches body previous
         then (a, json_error 409 ''Client metadata changed while the database was being read'')
         else
           (let confirmed = (if reorder then [] else case js_get body ''confirmed_removed'' of Arr us \<Rightarrow> strings_of us | _ \<Rightarrow> []);
                old = (case previous of Some p \<Rightarrow> as_removed p | None \<Rightarrow> []);
                nextClients = (case previous of
                    Some p \<Rightarrow> if reorder then reordered clients (as_clients p)
                              else filter (\<lambda>client. uuid_key client \<notin> set old) clients
                  | None \<Rightarrow> filter (\<lambda>client. uuid_key client \<notin> set old) clients);
                complete = (case previous of Some p \<Rightarrow> if reorder then as_complete p else True | None \<Rightarrow> True)
            in (storeAdminClientsSnapshot \<lparr>as_clients = nextClients, as_complete = complete,
                  as_updatedAt = next_version now previous, as_removed = filter (\<lambda>u. u \<notin> set confirmed) old\<rparr> a,
                (200, Obj [(''success'', Bool True), (''count'', Num (Fin (of_nat (length nextClients))))]))))"

definition writeAdminClientsSnapshot :: "rat \<Rightarrow> do_request \<Rightarrow> admin_state \<Rightarrow> admin_state \<times> response" where
  "writeAdminClientsSnapshot now request a =
     (case parseJsonRequestWithLimit request HTTP_ADMIN_CLIENTS_SNAPSHOT_MAX_BODY_BYTES of
        Inl r \<Rightarrow> (a, r)
      | Inr body \<Rightarrow> write_body now body a)"

text \<open>
  \<open>upsertAdminClientSnapshot\<close>. The live entry of the node, used only while there is no row, is the
  parameter \<open>live\<close> (its name and visibility).
\<close>

definition upsertAdminClientSnapshot ::
  "rat \<Rightarrow> (string \<Rightarrow> (string \<times> bool) option) \<Rightarrow> jsobj \<Rightarrow> bool \<Rightarrow> admin_state \<Rightarrow> admin_state \<times> jsobj option" where
  "upsertAdminClientSnapshot now live client fromAgent a0 = (case sanitizeAdminClientSnapshotItem client of
       None \<Rightarrow> (a0, None)
     | Some safe \<Rightarrow> (case readAdminClientsSnapshot a0 of
         (a, None) \<Rightarrow>
           if \<not> fromAgent then
             (storeAdminClientsSnapshot \<lparr>as_clients = [safe], as_complete = False,
                as_updatedAt = max now ((case adminClientsUpdatedAt a of Some t \<Rightarrow> t | None \<Rightarrow> 0) + 1), as_removed = []\<rparr> a, Some safe)
           else (a, case live (uuid_key safe) of
                      Some (name, hidden) \<Rightarrow> Some (assign safe [(''name'', Str name), (''hidden'', Bool hidden)]) | None \<Rightarrow> None)
       | (a, Some snapshot) \<Rightarrow>
           (let byUuid = js_Map (map (\<lambda>item. (js_String (js_or (js_get item ''uuid'') (Str [])), item)) (as_clients snapshot));
                previous = map_of byUuid (uuid_key safe);
                merged = assign (case previous of Some p \<Rightarrow> p | None \<Rightarrow> []) safe
            in if fromAgent \<and> (previous = None \<or> uuid_key safe \<in> set (as_removed snapshot)) then (a, None)
               else (storeAdminClientsSnapshot \<lparr>as_clients = map snd (AList.update (uuid_key safe) merged byUuid),
                       as_complete = as_complete snapshot, as_updatedAt = next_version now (Some snapshot),
                       as_removed = filter (\<lambda>u. u \<noteq> uuid_key safe) (as_removed snapshot)\<rparr> a, Some merged))))"

definition removeAdminClientSnapshot :: "rat \<Rightarrow> string \<Rightarrow> admin_state \<Rightarrow> admin_state" where
  "removeAdminClientSnapshot now uuid a0 = (case readAdminClientsSnapshot a0 of
       (a, snapshot) \<Rightarrow>
         storeAdminClientsSnapshot
           \<lparr>as_clients = filter (\<lambda>client. js_get client ''uuid'' \<noteq> Str uuid) (case snapshot of Some s \<Rightarrow> as_clients s | None \<Rightarrow> []),
            as_complete = (case snapshot of Some s \<Rightarrow> as_complete s | None \<Rightarrow> False),
            as_updatedAt = next_version now snapshot,
            as_removed = take 200 (uuid # filter (\<lambda>u. u \<noteq> uuid) (case snapshot of Some s \<Rightarrow> as_removed s | None \<Rightarrow> []))\<rparr> a)"

subsection \<open>Versions\<close>

text \<open>Every write keeps the row it stores readable, and raises its version.\<close>

definition current_snapshot :: "admin_state \<Rightarrow> admin_snapshot option" where
  "current_snapshot a = Option.bind (adm_stored a) normalize_stored"

definition version_of :: "admin_state \<Rightarrow> rat" where
  "version_of a = (case current_snapshot a of Some s \<Rightarrow> as_updatedAt s | None \<Rightarrow> 0)"

lemma objects_of_back [simp]: "objects_of (map Obj cs) = cs"
  by (induction cs) (simp_all add: objects_of_def isObjectPayload_def)

lemma strings_of_back [simp]: "strings_of (map Str us) = us"
  by (induction us) (simp_all add: strings_of_def)

lemma normalize_stored_form:
  "normalize_stored (stored_form s) = Some (s\<lparr>as_removed := filter (\<lambda>u. js_trim u \<noteq> []) (as_removed s)\<rparr>)"
  by (simp add: normalize_stored_def stored_form_def)

lemma read_result [simp]: "snd (readAdminClientsSnapshot a) = current_snapshot a" "adm_stored (fst (readAdminClientsSnapshot a)) = adm_stored a"
  "current_snapshot (fst (readAdminClientsSnapshot a)) = current_snapshot a"
  by (simp_all add: readAdminClientsSnapshot_def current_snapshot_def rememberAdminClientsSnapshot_def split: option.split)

lemma read_split:
  obtains a1 where "readAdminClientsSnapshot a = (a1, current_snapshot a)" "adm_stored a1 = adm_stored a"
    "current_snapshot a = None \<longrightarrow> adminClientsUpdatedAt a1 = Some 0"
proof -
  have p: "readAdminClientsSnapshot a = (fst (readAdminClientsSnapshot a), current_snapshot a)"
    by (simp only: read_result(1) [symmetric] prod.collapse)
  have u: "current_snapshot a = None \<longrightarrow> adminClientsUpdatedAt (fst (readAdminClientsSnapshot a)) = Some 0"
    by (simp add: readAdminClientsSnapshot_def current_snapshot_def)
  show ?thesis by (rule that [OF p read_result(2) u])
qed

lemma current_store [simp]:
  "current_snapshot (storeAdminClientsSnapshot s a) = Some (s\<lparr>as_removed := filter (\<lambda>u. js_trim u \<noteq> []) (as_removed s)\<rparr>)"
  by (simp add: current_snapshot_def storeAdminClientsSnapshot_def rememberAdminClientsSnapshot_def normalize_stored_form)

lemma version_store [simp]: "version_of (storeAdminClientsSnapshot s a) = as_updatedAt s"
  by (simp add: version_of_def)

lemma next_version_gt: "version_of a < next_version now (current_snapshot a)"
  by (simp add: next_version_def version_of_def max_def split: option.split)

datatype admin_event =
    CacheWrite rat jsobj
  | Upsert rat "string \<Rightarrow> (string \<times> bool) option" jsobj bool
  | Remove rat string

fun admin_step :: "admin_state \<Rightarrow> admin_event \<Rightarrow> admin_state" where
  "admin_step a (CacheWrite now body) = fst (write_body now body a)"
| "admin_step a (Upsert now live client fromAgent) = fst (upsertAdminClientSnapshot now live client fromAgent a)"
| "admin_step a (Remove now uuid) = removeAdminClientSnapshot now uuid a"

definition rejected :: "jsobj \<Rightarrow> admin_snapshot option \<Rightarrow> bool" where
  "rejected body previous \<longleftrightarrow> js_get body ''mode'' \<noteq> Str ''reorder'' \<and>
     (previous \<noteq> None \<or> map_of body ''expected_version'' \<noteq> None) \<and> \<not> version_matches body previous"

lemma write_rejected:
  assumes "rejected body (current_snapshot a)"
  shows "adm_stored (fst (write_body now body a)) = adm_stored a \<and> fst (snd (write_body now body a)) = 409"
proof -
  obtain a1 where "readAdminClientsSnapshot a = (a1, current_snapshot a)" "adm_stored a1 = adm_stored a" by (rule read_split [of a])
  then show ?thesis using assms by (simp add: write_body_def rejected_def json_error_def Let_def)
qed

lemma write_accepted:
  assumes "\<not> rejected body (current_snapshot a)"
  shows "version_of (fst (write_body now body a)) = next_version now (current_snapshot a) \<and> fst (snd (write_body now body a)) = 200"
proof -
  obtain a1 where r: "readAdminClientsSnapshot a = (a1, current_snapshot a)" by (rule read_split [of a])
  have "\<not> (js_get body ''mode'' \<noteq> Str ''reorder'' \<and> (current_snapshot a \<noteq> None \<or> map_of body ''expected_version'' \<noteq> None) \<and>
      \<not> version_matches body (current_snapshot a))"
    using assms unfolding rejected_def .
  then show ?thesis unfolding write_body_def r Let_def prod.case by (simp only: if_False prod.sel version_store admin_snapshot.simps simp_thms not_False_eq_True)
qed

lemma upsert_version:
  "adm_stored (fst (upsertAdminClientSnapshot now live client fromAgent a)) = adm_stored a \<or>
   version_of a < version_of (fst (upsertAdminClientSnapshot now live client fromAgent a))"
proof (cases "sanitizeAdminClientSnapshotItem client")
  case (Some safe)
  obtain a1 where r: "readAdminClientsSnapshot a = (a1, current_snapshot a)" "adm_stored a1 = adm_stored a"
    "current_snapshot a = None \<longrightarrow> adminClientsUpdatedAt a1 = Some 0" by (rule read_split [of a])
  show ?thesis
  proof (cases "current_snapshot a")
    case None
    then have "version_of a = 0" by (simp add: version_of_def)
    then show ?thesis using Some None r by (simp add: upsertAdminClientSnapshot_def less_max_iff_disj)
  next
    case p: (Some p)
    then show ?thesis using Some r(1,2) next_version_gt [of a now] by (simp add: upsertAdminClientSnapshot_def Let_def)
  qed
qed (simp add: upsertAdminClientSnapshot_def)

lemma remove_version: "version_of (removeAdminClientSnapshot now uuid a) = next_version now (current_snapshot a)"
proof -
  obtain a1 where "readAdminClientsSnapshot a = (a1, current_snapshot a)" by (rule read_split [of a])
  then show ?thesis by (simp add: removeAdminClientSnapshot_def)
qed

lemma admin_step_version:
  "adm_stored (admin_step a e) = adm_stored a \<or> version_of a < version_of (admin_step a e)"
proof (cases e)
  case (CacheWrite now body)
  then show ?thesis using write_rejected [of body a now] write_accepted [of body a now] next_version_gt [of a now]
    by (cases "rejected body (current_snapshot a)") auto
qed (use upsert_version remove_version next_version_gt in simp_all)

lemma admin_run_version:
  "adm_stored (foldl admin_step a es) = adm_stored a \<or> version_of a < version_of (foldl admin_step a es)"
proof (induction es arbitrary: a)
  case (Cons e es)
  have "adm_stored x = adm_stored y \<Longrightarrow> version_of x = version_of y" for x y
    by (simp add: version_of_def current_snapshot_def)
  then show ?case using Cons [of "admin_step a e"] admin_step_version [of a e]
    by (metis foldl_Cons less_trans)
qed simp

text \<open>
  C29. No lost update. A write back of the node list read from the database, made against the version
  of the row seen before the read, is accepted only if nothing that changed the row happened in
  between; a rejected write leaves the row as it is.
\<close>

theorem cache_write_no_lost_update:
  assumes "current_snapshot a = Some p" "js_get body ''mode'' \<noteq> Str ''reorder''"
    and "js_get body ''expected_version'' = Num (Fin (as_updatedAt p))"
    and w: "write_body now body (foldl admin_step a es) = (a', (status, reply))"
  shows "(status = 200 \<and> adm_stored (foldl admin_step a es) = adm_stored a \<and> version_of a < version_of a') \<or>
    (status = 409 \<and> adm_stored a' = adm_stored (foldl admin_step a es))"
proof (cases "rejected body (current_snapshot (foldl admin_step a es))")
  case True
  then show ?thesis using w write_rejected [OF True, of now] by simp
next
  case False
  let ?b = "foldl admin_step a es"
  have v: "version_of a = as_updatedAt p" using assms(1) by (simp add: version_of_def)
  have "version_of ?b = as_updatedAt p"
    using False assms(2,3) by (auto simp: rejected_def version_matches_def version_of_def js_get_def split: option.splits)
  then have "adm_stored ?b = adm_stored a" using admin_run_version [of a es] v by simp
  moreover from this have "version_of ?b = version_of a" by (simp add: version_of_def current_snapshot_def)
  ultimately show ?thesis using write_accepted [OF False, of now] next_version_gt [of ?b now] w by auto
qed

subsection \<open>Witness\<close>

definition sample_snapshot :: admin_snapshot where
  "sample_snapshot = \<lparr>as_clients = [[(''uuid'', Str ''a'')]], as_complete = True, as_updatedAt = 5, as_removed = []\<rparr>"

definition sample_admin_state :: admin_state where
  "sample_admin_state = \<lparr>adm_stored = Some (stored_form sample_snapshot), adminClientsSnapshot = None, adminClientsUpdatedAt = None, adminClientMetadata = []\<rparr>"

theorem cache_write_no_lost_update_witness:
  "fst (snd (write_body 9 [(''clients'', Arr []), (''expected_version'', Num (Fin 5))] (foldl admin_step sample_admin_state [Remove 7 ''a'']))) = 409"
proof -
  let ?body = "[(''clients'', Arr []), (''expected_version'', Num (Fin 5))]"
  let ?b = "foldl admin_step sample_admin_state [Remove 7 ''a'']"
  have p: "current_snapshot sample_admin_state = Some sample_snapshot"
    by (simp add: current_snapshot_def sample_admin_state_def normalize_stored_form) (simp add: sample_snapshot_def)
  have "version_of ?b = 7" by (simp add: remove_version p next_version_def sample_snapshot_def)
  then have "adm_stored ?b \<noteq> adm_stored sample_admin_state"
    using p by (auto simp: version_of_def current_snapshot_def sample_snapshot_def)
  moreover obtain a' status reply where w: "write_body 9 ?body ?b = (a', (status, reply))" by (metis prod.collapse)
  moreover have "(status = 200 \<and> adm_stored ?b = adm_stored sample_admin_state \<and> version_of sample_admin_state < version_of a') \<or>
      (status = 409 \<and> adm_stored a' = adm_stored ?b)"
    by (rule cache_write_no_lost_update [OF p _ _ w]) (simp_all add: js_get_Cons sample_snapshot_def js_get_def)
  ultimately show ?thesis by simp
qed

end
