(* ===== verification/LiveData.thy ===== *)
theory LiveData
  imports AdminClients
begin

section \<open>Live nodes, viewers and snapshots\<close>

text \<open>
  The in-memory half of \<open>do/live-data.ts\<close>: the nodes that are online, the last report kept of the
  others, the WebSocket sessions of agents and viewers, what a viewer is shown and when a session
  ends. JavaScript maps are association lists in insertion order. A socket is a number; its record
  holds whether it is open and the attachment the runtime keeps for it, an untyped value that
  \<open>getSessionAttachment\<close> reads back. Messages are appended to \<open>outbox\<close>. An operation reads the clock
  once, as \<open>now\<close>; a send or close that throws is caught by the source and has no further effect.
\<close>

subsection \<open>State\<close>

datatype role = AgentRole | ViewerRole
datatype transport = HttpT | WsT
datatype audience = ToAll | ToPublic | ToAdmin

record client_state =
  cs_uuid :: string
  cs_name :: string
  cs_hidden :: bool
  cs_lastReportTime :: rat
  cs_lastReport :: jsobj
  cs_expiresAt :: "rat option"
  cs_transport :: "transport option"

record attachment =
  at_role :: role
  at_authHash :: "string option"
  at_clientId :: string
  at_clientName :: string
  at_hidden :: bool
  at_includeHidden :: bool
  at_viewerIp :: "string option"
  at_viewerExpiresAt :: "rat option"
  at_sourceIp :: "string option"
  at_region :: "string option"
  at_lastReport :: "jsobj option"
  at_lastReportTime :: "rat option"
  at_expiresAt :: "rat option"

record socket =
  ws_open :: bool
  ws_attachment :: jsval

record recheck_task =
  rk_id :: string
  rk_check :: jsobj
  rk_retryAt :: rat
  rk_attempts :: nat

record live_do =
  sockets :: "nat \<rightharpoonup> socket"
  sessions :: "(string \<times> nat) list"
  sessionRoles :: "(string \<times> role) list"
  viewerExpiresAt :: "(string \<times> rat) list"
  clients :: "(string \<times> client_state) list"
  lastKnownClients :: "(string \<times> client_state) list"
  httpLive :: "string \<rightharpoonup> client_state"
  streaks :: "string \<rightharpoonup> rat"
  syncRevisions :: "string \<rightharpoonup> string \<times> bool"
  rechecks :: "(string \<times> recheck_task) list"
  auth :: auth_store
  admin :: admin_state
  alarmAt :: "rat option"
  outbox :: "(nat \<times> jsval) list"

subsection \<open>Attachments\<close>

definition nonblank_text :: "jsval \<Rightarrow> string option" where
  "nonblank_text v = (case v of Str s \<Rightarrow> if js_trim s \<noteq> [] then Some s else None | _ \<Rightarrow> None)"

definition finite_number :: "jsval \<Rightarrow> rat option" where
  "finite_number v = (case v of Num (Fin q) \<Rightarrow> Some q | _ \<Rightarrow> None)"

definition getSessionAttachment :: "jsval \<Rightarrow> attachment option" where
  "getSessionAttachment stored = (case stored of
       Obj v \<Rightarrow>
         (let g = js_get v in
          case (if g ''role'' = Str ''agent'' then Some AgentRole else if g ''role'' = Str ''viewer'' then Some ViewerRole else None) of
            None \<Rightarrow> None
          | Some r \<Rightarrow>
              (case nonblank_text (g ''clientId'') of
                 None \<Rightarrow> None
               | Some cid \<Rightarrow> Some \<lparr>at_role = r,
                   at_authHash = (case g ''authHash'' of Str h \<Rightarrow> Some h | _ \<Rightarrow> None), at_clientId = cid,
                   at_clientName = (case nonblank_text (g ''clientName'') of Some n \<Rightarrow> n | None \<Rightarrow> cid),
                   at_hidden = js_truthy (g ''hidden''), at_includeHidden = js_truthy (g ''includeHidden''),
                   at_viewerIp = nonblank_text (g ''viewerIp''), at_viewerExpiresAt = finite_number (g ''viewerExpiresAt''),
                   at_sourceIp = map_option js_trim (nonblank_text (g ''sourceIp'')),
                   at_region = map_option js_trim (nonblank_text (g ''region'')),
                   at_lastReport = (case g ''lastReport'' of Obj r \<Rightarrow> Some r | _ \<Rightarrow> None),
                   at_lastReportTime = finite_number (g ''lastReportTime''), at_expiresAt = finite_number (g ''expiresAt'')\<rparr>))
     | _ \<Rightarrow> None)"

definition opt_prop :: "string \<Rightarrow> ('a \<Rightarrow> jsval) \<Rightarrow> 'a option \<Rightarrow> jsobj" where
  "opt_prop k f ov = (case ov of Some v \<Rightarrow> [(k, f v)] | None \<Rightarrow> [])"

definition role_text :: "role \<Rightarrow> string" where
  "role_text r = (case r of AgentRole \<Rightarrow> ''agent'' | ViewerRole \<Rightarrow> ''viewer'')"

definition attachment_value :: "attachment \<Rightarrow> jsval" where
  "attachment_value a = Obj (
     [(''role'', Str (role_text (at_role a))), (''clientId'', Str (at_clientId a)), (''clientName'', Str (at_clientName a)),
      (''hidden'', Bool (at_hidden a))]
     @ opt_prop ''authHash'' Str (at_authHash a) @ opt_prop ''viewerIp'' Str (at_viewerIp a)
     @ opt_prop ''viewerExpiresAt'' (\<lambda>t. Num (Fin t)) (at_viewerExpiresAt a)
     @ (if at_includeHidden a then [(''includeHidden'', Bool True)] else [])
     @ opt_prop ''sourceIp'' Str (at_sourceIp a) @ opt_prop ''region'' Str (at_region a)
     @ opt_prop ''lastReport'' Obj (at_lastReport a) @ opt_prop ''lastReportTime'' (\<lambda>t. Num (Fin t)) (at_lastReportTime a)
     @ opt_prop ''expiresAt'' (\<lambda>t. Num (Fin t)) (at_expiresAt a))"

subsection \<open>Sockets\<close>

definition is_open :: "live_do \<Rightarrow> nat \<Rightarrow> bool" where
  "is_open d ws = (case sockets d ws of Some k \<Rightarrow> ws_open k | None \<Rightarrow> False)"

definition session_attachment :: "live_do \<Rightarrow> nat \<Rightarrow> attachment option" where
  "session_attachment d ws = (case sockets d ws of Some k \<Rightarrow> getSessionAttachment (ws_attachment k) | None \<Rightarrow> None)"

definition ws_send :: "nat \<Rightarrow> jsval \<Rightarrow> live_do \<Rightarrow> live_do" where
  "ws_send ws msg d = d\<lparr>outbox := outbox d @ [(ws, msg)]\<rparr>"

definition ws_close :: "nat \<Rightarrow> live_do \<Rightarrow> live_do" where
  "ws_close ws d = (case sockets d ws of
       Some k \<Rightarrow> d\<lparr>sockets := (sockets d)(ws \<mapsto> k\<lparr>ws_open := False\<rparr>)\<rparr> | None \<Rightarrow> d)"

definition serialize_attachment :: "nat \<Rightarrow> attachment \<Rightarrow> live_do \<Rightarrow> live_do" where
  "serialize_attachment ws a d = (case sockets d ws of
       Some k \<Rightarrow> d\<lparr>sockets := (sockets d)(ws \<mapsto> k\<lparr>ws_attachment := attachment_value a\<rparr>)\<rparr> | None \<Rightarrow> d)"

text \<open>An optional expiry, absent or zero, never passes.\<close>

definition unexpired :: "rat option \<Rightarrow> rat \<Rightarrow> bool" where
  "unexpired e now = (case e of Some t \<Rightarrow> t = 0 \<or> now < t | None \<Rightarrow> True)"

subsection \<open>What a viewer is shown\<close>

definition controlledClientState :: "client_state \<Rightarrow> admin_state \<Rightarrow> client_state option" where
  "controlledClientState c a =
     (let metadata = map_of (adminClientMetadata a) (cs_uuid c)
      in if (case adminClientsSnapshot a of
               Some s \<Rightarrow> cs_uuid c \<in> set (as_removed s) \<or> (as_complete s \<and> metadata = None) | None \<Rightarrow> False)
         then None
         else Some (case metadata of
             Some m \<Rightarrow> c\<lparr>cs_name := (case js_get m ''name'' of Str n \<Rightarrow> n | _ \<Rightarrow> cs_name c), cs_hidden := booleanField m ''hidden''\<rparr>
           | None \<Rightarrow> c))"

definition projectViewerReport :: "string \<Rightarrow> jsobj \<Rightarrow> bool \<Rightarrow> admin_state \<Rightarrow> jsobj" where
  "projectViewerReport uuid report includeHidden a =
     (let projected = AList.delete ''sort_order'' (if includeHidden then report else toPublicReport report)
      in case map_of (adminClientMetadata a) uuid of
          Some m \<Rightarrow> (case js_get m ''sort_order'' of
              Num x \<Rightarrow> if js_isFinite x then AList.update ''sort_order'' (Num x) projected else projected
            | _ \<Rightarrow> projected)
        | None \<Rightarrow> projected)"

definition projectSnapshotClient :: "client_state \<Rightarrow> bool \<Rightarrow> bool \<Rightarrow> admin_state \<Rightarrow> jsobj option" where
  "projectSnapshotClient client includeHidden retained a = (case controlledClientState client a of
       None \<Rightarrow> None
     | Some current \<Rightarrow>
         if \<not> includeHidden \<and> cs_hidden current then None
         else Some (assign (projectViewerReport (cs_uuid current) (cs_lastReport current) (\<not> retained \<and> includeHidden) a)
                [(''uuid'', Str (cs_uuid current)), (''name'', Str (cs_name current)),
                 (''lastReportTime'', Num (Fin (cs_lastReportTime current)))]))"

record live_snapshot =
  sn_online :: "string list"
  sn_clients :: "jsobj list"
  sn_data :: "(string \<times> jsobj) list"
  sn_last_known :: "(string \<times> jsobj) list"
  sn_count :: nat
  sn_timestamp :: rat
  sn_metadata_version :: "string option"

definition online_clients :: "rat \<Rightarrow> bool \<Rightarrow> live_do \<Rightarrow> jsobj list" where
  "online_clients now includeHidden d =
     List.map_filter (\<lambda>c. projectSnapshotClient c includeHidden False (admin d))
       (filter (\<lambda>c. unexpired (cs_expiresAt c) now) (map snd (clients d)))"

definition last_known :: "string list \<Rightarrow> bool \<Rightarrow> live_do \<Rightarrow> (string \<times> jsobj) list" where
  "last_known onlineIds includeHidden d =
     js_Map (List.map_filter (\<lambda>c. if cs_uuid c \<in> set onlineIds then None
        else map_option (\<lambda>p. (cs_uuid c, p)) (projectSnapshotClient c includeHidden True (admin d)))
       (map snd (lastKnownClients d)))"

definition buildSnapshot :: "rat \<Rightarrow> bool \<Rightarrow> live_do \<Rightarrow> live_snapshot" where
  "buildSnapshot now includeHidden d =
     (let onlineClients = online_clients now includeHidden d; ids = map (\<lambda>c. stringField c ''uuid'') onlineClients
      in \<lparr>sn_online = ids, sn_clients = onlineClients,
          sn_data = js_Map (map (\<lambda>c. (stringField c ''uuid'', c)) onlineClients),
          sn_last_known = last_known ids includeHidden d, sn_count = length onlineClients, sn_timestamp = now,
          sn_metadata_version = map_option (\<lambda>t. num_to_str (Fin t)) (adminClientsUpdatedAt (admin d))\<rparr>)"

definition snapshot_value :: "live_snapshot \<Rightarrow> jsobj" where
  "snapshot_value s = [(''online'', Arr (map Str (sn_online s))), (''clients'', Arr (map Obj (sn_clients s))),
     (''data'', Obj (map (\<lambda>(k, c). (k, Obj c)) (sn_data s))), (''last_known'', Obj (map (\<lambda>(k, c). (k, Obj c)) (sn_last_known s))),
     (''count'', Num (Fin (of_nat (sn_count s)))), (''timestamp'', Num (Fin (sn_timestamp s)))]
     @ opt_prop ''metadata_version'' Str (sn_metadata_version s)"

definition sendSnapshot :: "rat \<Rightarrow> nat \<Rightarrow> live_do \<Rightarrow> live_do" where
  "sendSnapshot now ws d =
     (if \<not> is_open d ws then d
      else let includeHidden = (case session_attachment d ws of Some a \<Rightarrow> at_includeHidden a | None \<Rightarrow> False)
           in ws_send ws (Obj ((''type'', Str ''snapshot'') # snapshot_value (buildSnapshot now includeHidden d))) d)"

subsection \<open>Broadcasts\<close>

definition payload_for :: "bool \<Rightarrow> jsobj \<Rightarrow> admin_state \<Rightarrow> jsobj" where
  "payload_for includeHidden message a = (case js_get message ''data'' of
       Obj report \<Rightarrow>
         if js_get message ''type'' = Str ''update''
         then AList.update ''data'' (Obj (projectViewerReport (js_String (js_get message ''client'')) report includeHidden a)) message
         else message
     | _ \<Rightarrow> message)"

definition viewer_send :: "jsobj \<Rightarrow> audience \<Rightarrow> live_do \<Rightarrow> string \<times> nat \<Rightarrow> (nat \<times> jsval) option" where
  "viewer_send message aud d = (\<lambda>(sid, ws).
     if map_of (sessionRoles d) sid \<noteq> Some ViewerRole \<or> \<not> is_open d ws then None
     else let includeHidden = (case session_attachment d ws of Some a \<Rightarrow> at_includeHidden a | None \<Rightarrow> False)
          in if (aud = ToAdmin \<and> \<not> includeHidden) \<or> (aud = ToPublic \<and> includeHidden) then None
             else Some (ws, Obj (payload_for includeHidden message (admin d))))"

definition broadcastToViewers :: "jsobj \<Rightarrow> audience \<Rightarrow> live_do \<Rightarrow> live_do" where
  "broadcastToViewers message aud d =
     d\<lparr>outbox := outbox d @ List.map_filter (viewer_send message aud d) (sessions d)\<rparr>"

definition project_clients_patch :: "audience \<Rightarrow> jsobj \<Rightarrow> jsobj" where
  "project_clients_patch target patch =
     (let upserts = (case js_get patch ''upsert'' of Arr us \<Rightarrow> objects_of us | _ \<Rightarrow> []);
          remove = js_uniq ((case js_get patch ''remove'' of Arr rs \<Rightarrow> strings_of rs | _ \<Rightarrow> [])
            @ (if target = ToPublic
               then strings_of (map (\<lambda>c. js_get c ''uuid'') (filter (\<lambda>c. js_truthy (js_get c ''hidden'')) upserts)) else []))
      in (case js_get patch ''upsert'' of
            Arr _ \<Rightarrow> [(''upsert'', Arr (map (\<lambda>c. Obj (projectClientMetadata c (target = ToAdmin)))
               (filter (\<lambda>c. target = ToAdmin \<or> \<not> js_truthy (js_get c ''hidden'')) upserts)))]
          | _ \<Rightarrow> []) @ (if remove \<noteq> [] then [(''remove'', Arr (map Str remove))] else []))"

definition metadata_message :: "rat \<Rightarrow> jsobj \<Rightarrow> audience \<Rightarrow> jsobj" where
  "metadata_message now detail target =
     (let projected = (case js_get detail ''clients'' of
              Obj patch \<Rightarrow> AList.update ''clients'' (Obj (project_clients_patch target patch)) detail | _ \<Rightarrow> detail)
      in assign [(''type'', Str ''metadata_changed'')] (projected @ [(''timestamp'', Num (Fin now))]))"

definition broadcastMetadataChanged :: "rat \<Rightarrow> jsobj \<Rightarrow> audience \<Rightarrow> live_do \<Rightarrow> live_do" where
  "broadcastMetadataChanged now detail aud d =
     foldl (\<lambda>d target. if aud \<noteq> ToAll \<and> aud \<noteq> target then d
                       else broadcastToViewers (metadata_message now detail target) target d) d [ToPublic, ToAdmin]"

definition broadcastOfflineClient :: "rat \<Rightarrow> client_state \<Rightarrow> live_do \<Rightarrow> live_do" where
  "broadcastOfflineClient now client d = (case controlledClientState client (admin d) of
       None \<Rightarrow> d
     | Some current \<Rightarrow>
         broadcastToViewers [(''type'', Str ''remove''), (''client'', Str (cs_uuid current)), (''reason'', Str ''offline''),
             (''timestamp'', Num (Fin now)),
             (''last_known'', case projectSnapshotClient current True True (admin d) of Some p \<Rightarrow> Obj p | None \<Rightarrow> Null)]
           (if cs_hidden current then ToAdmin else ToAll) d)"

subsection \<open>Lookups\<close>

lemma js_Map_snoc: "js_Map (es @ [(k, v)]) = AList.update k v (js_Map es)"
  by (simp add: js_Map_def)

lemma map_of_js_Map: "map_of (js_Map es) k = map_of (rev es) k"
proof (induction es rule: rev_induct)
  case (snoc e es)
  obtain j v where "e = (j, v)" by force
  with snoc show ?case by (simp add: js_Map_snoc update_conv')
qed (simp add: js_Map_def)

lemma js_Map_distinct: "distinct (map fst (js_Map es))"
proof (induction es rule: rev_induct)
  case (snoc e es)
  obtain j v where "e = (j, v)" by force
  with snoc show ?case by (simp add: js_Map_snoc distinct_update)
qed (simp add: js_Map_def)

lemma map_of_some_key: "map_of xs k = Some v \<Longrightarrow> k \<in> set (map fst xs)"
  by (metis map_of_eq_None_iff option.distinct(1) set_map)

lemma map_filter_image: "List.map_filter (\<lambda>x. map_option h (f x)) xs = map h (List.map_filter f xs)"
  by (induction xs) (auto simp: List.map_filter_simps split: option.split)

lemma map_filter_bind:
  "List.map_filter (\<lambda>x. Option.bind (f x) g) xs = List.map_filter g (List.map_filter f xs)"
  by (induction xs) (auto simp: List.map_filter_simps split: option.split)

subsection \<open>The public snapshot\<close>

text \<open>
  What the management row lets the public see of a node: nothing of a removed or hidden node,
  else its name, the time and the public form of its last report and its place in the list.
\<close>

definition shown :: "admin_state \<Rightarrow> client_state \<Rightarrow> (string \<times> string \<times> rat \<times> jsobj \<times> jsnum option) option" where
  "shown a c = (case controlledClientState c a of
       None \<Rightarrow> None
     | Some k \<Rightarrow> if cs_hidden k then None
         else Some (cs_uuid k, cs_name k, cs_lastReportTime k, toPublicReport (cs_lastReport k),
           (case map_of (adminClientMetadata a) (cs_uuid k) of
              Some m \<Rightarrow> (case js_get m ''sort_order'' of Num x \<Rightarrow> if js_isFinite x then Some x else None | _ \<Rightarrow> None)
            | None \<Rightarrow> None)))"

definition render :: "string \<times> string \<times> rat \<times> jsobj \<times> jsnum option \<Rightarrow> jsobj" where
  "render = (\<lambda>(uuid, name, t, report, order).
     assign (case order of Some x \<Rightarrow> AList.update ''sort_order'' (Num x) (AList.delete ''sort_order'' report)
             | None \<Rightarrow> AList.delete ''sort_order'' report)
       [(''uuid'', Str uuid), (''name'', Str name), (''lastReportTime'', Num (Fin t))])"

lemma controlled_uuid: "controlledClientState c a = Some k \<Longrightarrow> cs_uuid k = cs_uuid c"
  by (auto simp: controlledClientState_def Let_def split: if_splits option.splits)

lemma project_public: "projectSnapshotClient c False retained a = map_option render (shown a c)"
  by (auto simp: projectSnapshotClient_def shown_def render_def projectViewerReport_def Let_def
      split: option.splits jsval.splits)

lemma shown_uuid: "shown a c = Some x \<Longrightarrow> fst x = cs_uuid c"
  by (auto simp: shown_def controlled_uuid split: option.splits if_splits)

lemma last_known_public:
  "last_known ids False d = js_Map (List.map_filter (\<lambda>x. if fst x \<in> set ids then None else Some (fst x, render x))
     (List.map_filter (shown (admin d)) (map snd (lastKnownClients d))))"
proof -
  have "(if cs_uuid c \<in> set ids then None else map_option (\<lambda>p. (cs_uuid c, p)) (projectSnapshotClient c False True (admin d)))
      = Option.bind (shown (admin d) c) (\<lambda>x. if fst x \<in> set ids then None else Some (fst x, render x))" for c
    by (cases "shown (admin d) c") (simp_all add: project_public shown_uuid)
  then show ?thesis by (simp add: last_known_def map_filter_bind)
qed

lemma online_public: "online_clients now False d =
    map render (List.map_filter (shown (admin d)) (filter (\<lambda>c. unexpired (cs_expiresAt c) now) (map snd (clients d))))"
  by (simp add: online_clients_def project_public map_filter_image)


subsection \<open>Removed nodes\<close>

text \<open>
  The tombstone of a removed node is among the first \<open>n + 1\<close> entries of the stored list and known
  in memory.
\<close>

definition entombed :: "nat \<Rightarrow> string \<Rightarrow> admin_state \<Rightarrow> bool" where
  "entombed n u a \<longleftrightarrow>
     (case current_snapshot a of Some s \<Rightarrow> u \<in> set (take (Suc n) (as_removed s)) | None \<Rightarrow> False) \<and>
     (case adminClientsSnapshot a of Some m \<Rightarrow> u \<in> set (as_removed m) | None \<Rightarrow> False)"

text \<open>
  Events that may not bring a node back: everything an agent causes, every write of the node list
  that does not confirm the removal, changes of other nodes and further removals.
\<close>

fun harmless :: "string \<Rightarrow> admin_event \<Rightarrow> bool" where
  "harmless u (CacheWrite now body) \<longleftrightarrow> js_get body ''mode'' = Str ''reorder'' \<or>
     u \<notin> set (case js_get body ''confirmed_removed'' of Arr us \<Rightarrow> strings_of us | _ \<Rightarrow> [])"
| "harmless u (Upsert now live client fromAgent) \<longleftrightarrow> fromAgent \<or>
     (case sanitizeAdminClientSnapshotItem client of Some safe \<Rightarrow> uuid_key safe \<noteq> u | None \<Rightarrow> True)"
| "harmless u (Remove now v) \<longleftrightarrow> True"

fun is_removal :: "admin_event \<Rightarrow> bool" where
  "is_removal (Remove _ _) = True"
| "is_removal _ = False"

lemma take_filter_mem: "u \<in> set (take k xs) \<Longrightarrow> P u \<Longrightarrow> u \<in> set (take k (filter P xs))"
proof (induction xs arbitrary: k)
  case (Cons x xs)
  then show ?case
    by (cases k) (auto intro: set_take_subset_set_take [THEN subsetD, of "k - 1" k for k])
qed simp

lemma entombed_store:
  assumes "u \<in> set (take (Suc n) (as_removed s))" "js_trim u \<noteq> []"
  shows "entombed n u (storeAdminClientsSnapshot s a)"
  using assms take_filter_mem [OF assms(1), of "\<lambda>u. js_trim u \<noteq> []"]
  by (auto simp: entombed_def storeAdminClientsSnapshot_def rememberAdminClientsSnapshot_def current_snapshot_def
      normalize_stored_form dest: in_set_takeD)

lemma entombed_read: "entombed n u a \<Longrightarrow> entombed n u (fst (readAdminClientsSnapshot a))"
  by (auto simp: entombed_def readAdminClientsSnapshot_def current_snapshot_def rememberAdminClientsSnapshot_def
      dest: in_set_takeD split: option.splits)

lemma entombed_snapshot:
  assumes "entombed n u a"
  obtains p where "current_snapshot a = Some p" "u \<in> set (take (Suc n) (as_removed p))"
  using assms by (auto simp: entombed_def split: option.splits)

lemma entombed_write:
  assumes e: "entombed n u a" and u: "js_trim u \<noteq> []" and h: "harmless u (CacheWrite now body)"
  shows "entombed n u (fst (write_body now body a))"
proof -
  obtain a1 where r: "readAdminClientsSnapshot a = (a1, current_snapshot a)" by (rule read_split [of a])
  have e1: "entombed n u a1" using entombed_read [OF e] r by simp
  obtain p where p: "current_snapshot a = Some p" "u \<in> set (take (Suc n) (as_removed p))" by (rule entombed_snapshot [OF e])
  define confirmed where "confirmed = (if js_get body ''mode'' = Str ''reorder'' then []
      else case js_get body ''confirmed_removed'' of Arr us \<Rightarrow> strings_of us | _ \<Rightarrow> [])"
  have "u \<notin> set confirmed" using h by (auto simp: confirmed_def)
  then have t: "u \<in> set (take (Suc n) (filter (\<lambda>v. v \<notin> set confirmed) (as_removed p)))" by (intro take_filter_mem p)
  show ?thesis
    unfolding write_body_def r p Let_def prod.case option.case confirmed_def [symmetric]
    using e1 entombed_store [OF _ u] t by simp
qed

lemma entombed_upsert:
  assumes e: "entombed n u a" and u: "js_trim u \<noteq> []" and h: "harmless u (Upsert now live client fromAgent)"
  shows "entombed n u (fst (upsertAdminClientSnapshot now live client fromAgent a))"
proof (cases "sanitizeAdminClientSnapshotItem client")
  case (Some safe)
  obtain a1 where r: "readAdminClientsSnapshot a = (a1, current_snapshot a)" by (rule read_split [of a])
  have e1: "entombed n u a1" using entombed_read [OF e] r by simp
  obtain p where p: "current_snapshot a = Some p" "u \<in> set (take (Suc n) (as_removed p))" by (rule entombed_snapshot [OF e])
  have up: "u \<in> set (as_removed p)" using p(2) by (rule in_set_takeD)
  have t: "u \<in> set (take (Suc n) (filter (\<lambda>v. v \<noteq> uuid_key safe) (as_removed p)))" if "uuid_key safe \<noteq> u"
    using that by (intro take_filter_mem p) simp
  show ?thesis
  proof (cases "uuid_key safe = u")
    case True
    then show ?thesis using Some r p(1) e1 h up by (simp add: upsertAdminClientSnapshot_def Let_def)
  next
    case False
    then show ?thesis using Some r p(1) e1 t entombed_store [OF _ u] by (simp add: upsertAdminClientSnapshot_def Let_def)
  qed
qed (simp add: upsertAdminClientSnapshot_def e)

lemma entombed_remove:
  assumes "n < 199" "entombed n u a" "js_trim u \<noteq> []"
  shows "entombed (Suc n) u (removeAdminClientSnapshot now v a)"
proof -
  obtain a1 where r: "readAdminClientsSnapshot a = (a1, current_snapshot a)" by (rule read_split [of a])
  obtain p where p: "current_snapshot a = Some p" "u \<in> set (take (Suc n) (as_removed p))" by (rule entombed_snapshot [OF assms(2)])
  have "u \<in> set (take (Suc (Suc n)) (take 200 (v # filter (\<lambda>x. x \<noteq> v) (as_removed p))))"
    using take_filter_mem [OF p(2), of "\<lambda>x. x \<noteq> v"] assms(1) by (cases "u = v") (simp_all add: min_def)
  then show ?thesis using r p(1) by (simp add: removeAdminClientSnapshot_def entombed_store [OF _ assms(3)])
qed

lemma entombed_run:
  assumes "entombed n u a" "js_trim u \<noteq> []" "list_all (harmless u) es" "n + length (filter is_removal es) < 200"
  shows "entombed (n + length (filter is_removal es)) u (foldl admin_step a es)"
  using assms
proof (induction es arbitrary: a n)
  case (Cons e es)
  show ?case
  proof (cases e)
    case (Remove now v)
    then have "entombed (Suc n) u (removeAdminClientSnapshot now v a)" using Cons.prems by (intro entombed_remove) auto
    then show ?thesis using Cons.IH [of "Suc n"] Cons.prems Remove by simp
  qed (use Cons entombed_write entombed_upsert in simp_all)
qed simp


subsection \<open>Witnesses\<close>

text \<open>The state of a new object: the constructor over empty storage.\<close>

definition new_admin :: admin_state where
  "new_admin = \<lparr>adm_stored = None, adminClientsSnapshot = None, adminClientsUpdatedAt = None, adminClientMetadata = []\<rparr>"

definition new_live_do :: live_do where
  "new_live_do = \<lparr>sockets = Map.empty, sessions = [], sessionRoles = [], viewerExpiresAt = [], clients = [], lastKnownClients = [],
     httpLive = Map.empty, streaks = Map.empty, syncRevisions = Map.empty, rechecks = [],
     auth = \<lparr>snaps = Map.empty, ptrs = Map.empty, ctls = Map.empty\<rparr>, admin = new_admin, alarmAt = None, outbox = []\<rparr>"

definition sample_node :: "string \<Rightarrow> bool \<Rightarrow> client_state" where
  "sample_node u hid = \<lparr>cs_uuid = u, cs_name = u, cs_hidden = hid, cs_lastReportTime = 5, cs_lastReport = [],
     cs_expiresAt = None, cs_transport = Some WsT\<rparr>"



end
