(* ===== verification/LiveSessions.thy ===== *)
theory LiveSessions
  imports LiveData
begin

section \<open>Sessions of agents and viewers\<close>

text \<open>
  How \<open>do/live-data.ts\<close> accepts, replaces, expires and closes WebSocket sessions, and when its alarm
  is set. \<open>connect\<close> is the upgrade branch of \<open>fetch\<close> from its last check of the viewer limit on, which
  runs without an intervening wait for viewers. The policy messages to agents are left out: they are
  sent from background tasks and change neither sessions nor nodes.
\<close>

subsection \<open>Registration and removal\<close>

definition registerSession :: "nat \<Rightarrow> attachment \<Rightarrow> live_do \<Rightarrow> live_do" where
  "registerSession ws a d =
     (let d1 = serialize_attachment ws a d; i = at_clientId a
      in d1\<lparr>sessions := AList.update i ws (sessions d1), sessionRoles := AList.update i (at_role a) (sessionRoles d1),
            viewerExpiresAt := (case at_viewerExpiresAt a of
                Some t \<Rightarrow> if at_role a = ViewerRole \<and> t \<noteq> 0 then AList.update i t (viewerExpiresAt d1)
                          else AList.delete i (viewerExpiresAt d1)
              | None \<Rightarrow> AList.delete i (viewerExpiresAt d1))\<rparr>)"

definition expireViewer :: "rat \<Rightarrow> string \<Rightarrow> nat \<Rightarrow> live_do \<Rightarrow> live_do" where
  "expireViewer now sid ws d =
     (let d1 = d\<lparr>viewerExpiresAt := AList.delete sid (viewerExpiresAt d)\<rparr>;
          d2 = (if map_of (sessions d1) sid = Some ws
                then d1\<lparr>sessions := AList.delete sid (sessions d1), sessionRoles := AList.delete sid (sessionRoles d1)\<rparr> else d1)
      in if \<not> is_open d2 ws then d2
         else ws_close ws (ws_send ws (Obj [(''type'', Str ''viewer_expired''), (''timestamp'', Num (Fin now))]) d2))"

definition expire_entry :: "rat \<Rightarrow> string \<times> rat \<Rightarrow> live_do \<Rightarrow> live_do" where
  "expire_entry now = (\<lambda>(sid, expiresAt) d.
     if now < expiresAt then d
     else case map_of (sessions d) sid of
         None \<Rightarrow> d\<lparr>viewerExpiresAt := AList.delete sid (viewerExpiresAt d), sessionRoles := AList.delete sid (sessionRoles d)\<rparr>
       | Some ws \<Rightarrow> expireViewer now sid ws d)"

definition removeExpiredViewers :: "rat \<Rightarrow> live_do \<Rightarrow> live_do" where
  "removeExpiredViewers now d = fold (expire_entry now) (viewerExpiresAt d) d"

definition expire_client :: "rat \<Rightarrow> string \<times> client_state \<Rightarrow> live_do \<Rightarrow> live_do" where
  "expire_client now = (\<lambda>(uuid, client) d.
     if unexpired (cs_expiresAt client) now then d
     else broadcastOfflineClient now client (d\<lparr>clients := AList.delete uuid (clients d)\<rparr>))"

definition removeExpiredClients :: "rat \<Rightarrow> live_do \<Rightarrow> live_do" where
  "removeExpiredClients now d = fold (expire_client now) (clients d) d"

definition cleanupSession :: "rat \<Rightarrow> nat \<Rightarrow> attachment \<Rightarrow> live_do \<Rightarrow> live_do" where
  "cleanupSession now ws a d =
     (let i = at_clientId a in
      if map_of (sessions d) i \<noteq> Some ws then d
      else let existing = map_of (clients d) i;
               d1 = d\<lparr>sessions := AList.delete i (sessions d), sessionRoles := AList.delete i (sessionRoles d),
                      viewerExpiresAt := AList.delete i (viewerExpiresAt d)\<rparr>
           in if at_role a \<noteq> AgentRole then d1
              else let d2 = d1\<lparr>clients := AList.delete i (clients d1)\<rparr>
                   in case existing of Some c \<Rightarrow> broadcastOfflineClient now c d2 | None \<Rightarrow> d2)"

text \<open>The runtime has closed the socket when the handler runs; \<open>webSocketError\<close> has the same body.\<close>

definition webSocketClose :: "rat \<Rightarrow> nat \<Rightarrow> live_do \<Rightarrow> live_do" where
  "webSocketClose now ws d =
     (let d0 = ws_close ws d
      in case session_attachment d0 ws of Some a \<Rightarrow> cleanupSession now ws a d0 | None \<Rightarrow> d0)"

subsection \<open>The alarm\<close>

definition WEBSITE_RECHECK_MAX_PENDING :: nat where
  "WEBSITE_RECHECK_MAX_PENDING = 256"

definition pending_expiries :: "rat \<Rightarrow> live_do \<Rightarrow> rat list" where
  "pending_expiries now d =
     concat (map (\<lambda>(_, c). case cs_expiresAt c of Some t \<Rightarrow> if now < t then [t] else [] | None \<Rightarrow> []) (clients d))
     @ filter (\<lambda>t. now < t) (map snd (viewerExpiresAt d))
     @ map (\<lambda>(_, task). max (now + 1000) (rk_retryAt task)) (take WEBSITE_RECHECK_MAX_PENDING (rechecks d))"

definition scheduleExpiryAlarm :: "rat \<Rightarrow> live_do \<Rightarrow> live_do" where
  "scheduleExpiryAlarm now d = (case sort (pending_expiries now d) of
       [] \<Rightarrow> d\<lparr>alarmAt := None\<rparr>
     | nextExpiry # _ \<Rightarrow> d\<lparr>alarmAt := Some (max nextExpiry (now + 1000))\<rparr>)"

subsection \<open>Viewer limits\<close>

definition VIEWER_MIN_TTL_MS :: rat where "VIEWER_MIN_TTL_MS = 60000"
definition VIEWER_MAX_TTL_MS :: rat where "VIEWER_MAX_TTL_MS = 60 * 60 * 1000"
definition VIEWER_DEFAULT_TTL_MS :: rat where "VIEWER_DEFAULT_TTL_MS = 120 * 1000"
definition VIEWER_MAX_TOTAL_SESSIONS :: nat where "VIEWER_MAX_TOTAL_SESSIONS = 128"
definition VIEWER_MAX_SESSIONS_PER_IP :: nat where "VIEWER_MAX_SESSIONS_PER_IP = 8"

definition normalizeViewerTtlMs :: "jsval \<Rightarrow> rat" where
  "normalizeViewerTtlMs v = (case js_Number v of
       Fin q \<Rightarrow> if q \<le> 0 then VIEWER_DEFAULT_TTL_MS else min (max q VIEWER_MIN_TTL_MS) VIEWER_MAX_TTL_MS
     | _ \<Rightarrow> VIEWER_DEFAULT_TTL_MS)"

definition activeViewerCount :: "rat \<Rightarrow> live_do \<Rightarrow> nat" where
  "activeViewerCount now d = length (filter (\<lambda>(sid, r).
     r = ViewerRole \<and> unexpired (map_of (viewerExpiresAt d) sid) now \<and>
     (case map_of (sessions d) sid of Some ws \<Rightarrow> is_open d ws | None \<Rightarrow> False)) (sessionRoles d))"

definition viewer_expiry :: "live_do \<Rightarrow> attachment \<Rightarrow> rat option" where
  "viewer_expiry d a = (case map_of (viewerExpiresAt d) (at_clientId a) of Some t \<Rightarrow> Some t | None \<Rightarrow> at_viewerExpiresAt a)"

definition counted_viewer :: "rat \<Rightarrow> live_do \<Rightarrow> nat \<Rightarrow> attachment option" where
  "counted_viewer now d ws = (case session_attachment d ws of
       Some a \<Rightarrow> if at_role a = ViewerRole \<and> is_open d ws \<and> unexpired (viewer_expiry d a) now then Some a else None
     | None \<Rightarrow> None)"

definition countViewers :: "rat \<Rightarrow> string option \<Rightarrow> live_do \<Rightarrow> nat \<times> nat" where
  "countViewers now viewerIp d =
     (let viewers = List.map_filter (counted_viewer now d) (map snd (sessions d))
      in (length viewers, length (filter (\<lambda>a. viewerIp \<noteq> None \<and> at_viewerIp a = viewerIp) viewers)))"

definition enforceViewerConnectionLimit :: "rat \<Rightarrow> string option \<Rightarrow> live_do \<Rightarrow> response option" where
  "enforceViewerConnectionLimit now viewerIp d = (case countViewers now viewerIp d of
       (n, sameIp) \<Rightarrow>
         if VIEWER_MAX_TOTAL_SESSIONS \<le> n then Some (json_error 429 ''Too many live viewers'')
         else if viewerIp \<noteq> None \<and> VIEWER_MAX_SESSIONS_PER_IP \<le> sameIp
         then Some (json_error 429 ''Too many live viewers from this IP'') else None)"

subsection \<open>Upgrades\<close>

definition param :: "(string \<Rightarrow> string option) \<Rightarrow> string \<Rightarrow> string option" where
  "param q k = (case q k of Some s \<Rightarrow> if s \<noteq> [] then Some s else None | None \<Rightarrow> None)"

definition flag_param :: "(string \<Rightarrow> string option) \<Rightarrow> string \<Rightarrow> bool" where
  "flag_param q k \<longleftrightarrow> q k = Some ''1'' \<or> q k = Some ''true''"

text \<open>The pattern of unknown regions has a fourth alternative in Chinese characters, which no modelled string contains.\<close>

definition isUnknownRegionValue :: "string \<Rightarrow> bool" where
  "isUnknownRegionValue region = (js_toLowerCase (js_trim region) \<in> set [''unknown'', ''n/a'', ''null''])"

definition isUsefulRegion :: "string \<Rightarrow> bool" where
  "isUsefulRegion region = (let t = js_trim region in t \<noteq> [] \<and> \<not> isUnknownRegionValue t)"

text \<open>The attachment of a new session: the query of the upgrade, and the window of a viewer.\<close>

definition new_attachment :: "rat \<Rightarrow> rat \<Rightarrow> string \<Rightarrow> (string \<Rightarrow> string option) \<Rightarrow> attachment" where
  "new_attachment now viewerTtlSec rid q =
     (let cid = (case param q ''id'' of Some s \<Rightarrow> s | None \<Rightarrow> rid);
          viewer = (q ''role'' \<noteq> Some ''agent'');
          ttl = (case q ''viewer_ttl_ms'' of Some t \<Rightarrow> normalizeViewerTtlMs (Str t)
                 | None \<Rightarrow> normalizeViewerTtlMs (Num (Fin (viewerTtlSec * 1000))));
          sourceIp = param q ''source_ip''; region = param q ''region''
      in \<lparr>at_role = (if viewer then ViewerRole else AgentRole),
          at_authHash = (if viewer then None else param q ''auth_hash''), at_clientId = cid,
          at_clientName = (case param q ''name'' of Some s \<Rightarrow> s | None \<Rightarrow> cid),
          at_hidden = flag_param q ''hidden'', at_includeHidden = (viewer \<and> flag_param q ''include_hidden''),
          at_viewerIp = (if viewer then param q ''viewer_ip'' else None),
          at_viewerExpiresAt = (if viewer then Some (now + ttl) else None),
          at_sourceIp = (if \<not> viewer \<and> (case sourceIp of Some s \<Rightarrow> isPublicIpAddress s | None \<Rightarrow> False) then sourceIp else None),
          at_region = (if \<not> viewer \<and> (case region of Some s \<Rightarrow> isUsefulRegion s | None \<Rightarrow> False) then region else None),
          at_lastReport = None, at_lastReportTime = None, at_expiresAt = None\<rparr>)"

definition admit :: "rat \<Rightarrow> attachment \<Rightarrow> string option \<Rightarrow> live_do \<Rightarrow> response option" where
  "admit now a viewerIp d =
     (if at_role a = ViewerRole then enforceViewerConnectionLimit now viewerIp d
      else if \<not> isAgentCredentialCurrent (at_clientId a) (at_authHash a) (auth d)
      then Some (json_error 401 ''Client credential was replaced'') else None)"

definition replace_session :: "attachment \<Rightarrow> live_do \<Rightarrow> live_do" where
  "replace_session a d =
     (if at_role a = AgentRole
      then (case map_of (sessions d) (at_clientId a) of Some ws \<Rightarrow> if is_open d ws then ws_close ws d else d | None \<Rightarrow> d)
      else d)"

definition connect :: "rat \<Rightarrow> rat \<Rightarrow> string \<Rightarrow> nat \<Rightarrow> (string \<Rightarrow> string option) \<Rightarrow> live_do \<Rightarrow> live_do \<times> response" where
  "connect now viewerTtlSec rid ws q d =
     (let a = new_attachment now viewerTtlSec rid q in
      case admit now a (param q ''viewer_ip'') d of
        Some r \<Rightarrow> (d, r)
      | None \<Rightarrow>
          (let d1 = replace_session a d;
               d2 = registerSession ws a (d1\<lparr>sockets := (sockets d1)(ws \<mapsto> \<lparr>ws_open = True, ws_attachment = Undef\<rparr>)\<rparr>)
           in (if at_role a = ViewerRole then scheduleExpiryAlarm now (sendSnapshot now ws d2) else d2, (101, Null))))"

subsection \<open>The session tables agree\<close>

text \<open>
  An attachment survives its serialisation when its identifier and address are not blank. The
  invariant ties the three tables and the attachments of the registered sockets together.
\<close>

definition attachable :: "attachment \<Rightarrow> bool" where
  "attachable a \<longleftrightarrow> js_trim (at_clientId a) \<noteq> [] \<and> (case at_viewerIp a of Some s \<Rightarrow> js_trim s \<noteq> [] | None \<Rightarrow> True)"

lemma js_get_opt_prop: "js_get (opt_prop k f ov @ rest) x = (if x = k \<and> ov \<noteq> None then f (the ov) else js_get rest x)"
  by (cases ov) (simp_all add: opt_prop_def js_get_Cons)

lemma js_get_opt_prop_last: "js_get (opt_prop k f ov) x = (if x = k \<and> ov \<noteq> None then f (the ov) else Undef)"
  by (cases ov) (simp_all add: opt_prop_def js_get_def)

lemma js_get_if_one: "js_get ((if b then [(k, v)] else []) @ rest) x = (if x = k \<and> b then v else js_get rest x)"
  by (simp add: js_get_Cons)

lemma attachment_back:
  assumes "attachable a"
  obtains b where "getSessionAttachment (attachment_value a) = Some b" "at_role b = at_role a" "at_clientId b = at_clientId a"
    "at_viewerIp b = at_viewerIp a" "at_viewerExpiresAt b = at_viewerExpiresAt a" "at_includeHidden b = at_includeHidden a"
proof -
  define o1 where "o1 = (case attachment_value a of Obj o1 \<Rightarrow> o1 | _ \<Rightarrow> [])"
  have o: "attachment_value a = Obj o1" by (simp add: o1_def attachment_value_def)
  note simps = o1_def attachment_value_def js_get_Cons js_get_opt_prop js_get_opt_prop_last js_get_if_one
  have g: "js_get o1 ''role'' = Str (role_text (at_role a))" "js_get o1 ''clientId'' = Str (at_clientId a)"
    "js_get o1 ''viewerIp'' = (case at_viewerIp a of Some s \<Rightarrow> Str s | None \<Rightarrow> Undef)"
    "js_get o1 ''viewerExpiresAt'' = (case at_viewerExpiresAt a of Some t \<Rightarrow> Num (Fin t) | None \<Rightarrow> Undef)"
    "js_get o1 ''includeHidden'' = (if at_includeHidden a then Bool True else Undef)"
    by (simp_all add: simps del: append_assoc split: option.split)
  have "\<exists>b. getSessionAttachment (Obj o1) = Some b \<and> at_role b = at_role a \<and> at_clientId b = at_clientId a \<and>
      at_viewerIp b = at_viewerIp a \<and> at_viewerExpiresAt b = at_viewerExpiresAt a \<and> at_includeHidden b = at_includeHidden a"
    using assms
    by (cases "at_role a"; cases "at_viewerIp a"; cases "at_viewerExpiresAt a")
      (simp_all add: getSessionAttachment_def Let_def g role_text_def attachable_def nonblank_text_def finite_number_def)
  then show ?thesis using that o by auto
qed

definition table_ok :: "live_do \<Rightarrow> string \<times> nat \<Rightarrow> bool" where
  "table_ok d = (\<lambda>(sid, ws). case session_attachment d ws of
     Some a \<Rightarrow> at_clientId a = sid \<and> map_of (sessionRoles d) sid = Some (at_role a) \<and>
               (at_role a = ViewerRole \<longrightarrow> map_of (viewerExpiresAt d) sid \<noteq> None)
   | None \<Rightarrow> False)"

definition tables_inv :: "live_do \<Rightarrow> bool" where
  "tables_inv d \<longleftrightarrow> distinct (map fst (sessions d)) \<and> distinct (map snd (sessions d)) \<and>
     map fst (sessionRoles d) = map fst (sessions d) \<and> list_all (table_ok d) (sessions d)"

text \<open>Two states with the same session tables; messages and node tables may differ.\<close>

definition same_sessions :: "live_do \<Rightarrow> live_do \<Rightarrow> bool" where
  "same_sessions d d' \<longleftrightarrow> sockets d' = sockets d \<and> sessions d' = sessions d \<and> sessionRoles d' = sessionRoles d \<and>
     viewerExpiresAt d' = viewerExpiresAt d"

lemma same_sessions_table: "same_sessions d d' \<Longrightarrow> table_ok d' = table_ok d"
  by (rule ext) (auto simp: same_sessions_def table_ok_def session_attachment_def split: option.split)

lemma same_sessions_inv: "same_sessions d d' \<Longrightarrow> tables_inv d' = tables_inv d"
  using same_sessions_table [of d d'] by (simp add: same_sessions_def tables_inv_def)

lemma same_sessions_count: "same_sessions d d' \<Longrightarrow> counted_viewer now d' = counted_viewer now d"
  by (rule ext) (simp add: same_sessions_def counted_viewer_def session_attachment_def is_open_def viewer_expiry_def split: option.split)

lemma same_sessions_trans: "same_sessions a b \<Longrightarrow> same_sessions b c \<Longrightarrow> same_sessions a c"
  by (simp add: same_sessions_def)

lemma broadcast_sessions: "same_sessions d (broadcastToViewers m aud d)" "same_sessions d (broadcastOfflineClient now c d)"
  by (simp_all add: same_sessions_def broadcastToViewers_def broadcastOfflineClient_def split: option.split)

lemma expire_clients_sessions: "same_sessions d (removeExpiredClients now d)"
proof -
  have one: "same_sessions d (expire_client now e d)" for e and d :: live_do
    by (cases e) (auto simp: expire_client_def broadcastOfflineClient_def broadcastToViewers_def same_sessions_def split: option.split)
  have "same_sessions d (fold (expire_client now) es d)" for es
  proof (induction es arbitrary: d)
    case (Cons e es)
    then show ?case using same_sessions_trans [OF one Cons] by simp
  qed (simp add: same_sessions_def)
  then show ?thesis by (simp add: removeExpiredClients_def)
qed

subsection \<open>Counting viewers\<close>

definition viewers :: "rat \<Rightarrow> live_do \<Rightarrow> attachment list" where
  "viewers now d = List.map_filter (counted_viewer now d) (map snd (sessions d))"

lemma countViewers_viewers: "countViewers now ip d =
    (length (viewers now d), length (filter (\<lambda>a. ip \<noteq> None \<and> at_viewerIp a = ip) (viewers now d)))"
  by (simp add: countViewers_def viewers_def Let_def)

lemma map_filter_shrink:
  assumes "\<And>x. x \<in> set xs \<Longrightarrow> Q x \<Longrightarrow> f x = None \<or> f x = g x"
  shows "length (filter P (List.map_filter f (filter Q xs))) \<le> length (filter P (List.map_filter g xs))"
  using assms
proof (induction xs)
  case (Cons x xs)
  have "length (filter P (List.map_filter f (filter Q xs))) \<le> length (filter P (List.map_filter g xs))"
    using Cons by simp
  then show ?case using Cons.prems [of x]
    by (cases "g x") (auto simp: List.map_filter_simps split: option.split)
qed (simp add: List.map_filter_simps)

lemma unexpired_antimono: "unexpired e now' \<Longrightarrow> now \<le> now' \<Longrightarrow> unexpired e now"
  by (cases e) (auto simp: unexpired_def)

lemma counted_antimono: "now \<le> now' \<Longrightarrow> counted_viewer now' d ws = None \<or> counted_viewer now' d ws = counted_viewer now d ws"
  using unexpired_antimono by (auto simp: counted_viewer_def split: option.split)

lemma viewers_antimono: "now \<le> now' \<Longrightarrow> length (filter P (viewers now' d)) \<le> length (filter P (viewers now d))"
  using map_filter_shrink [of "map snd (sessions d)" "\<lambda>_. True" "counted_viewer now' d" "counted_viewer now d"] counted_antimono
  by (simp add: viewers_def)

text \<open>Both ways the source counts viewers agree: by the role table and by the attachments.\<close>

lemma active_is_counted:
  assumes "tables_inv d"
  shows "activeViewerCount now d = length (viewers now d)"
proof -
  let ?P = "\<lambda>sid. map_of (sessionRoles d) sid = Some ViewerRole \<and> unexpired (map_of (viewerExpiresAt d) sid) now \<and>
     (case map_of (sessions d) sid of Some ws \<Rightarrow> is_open d ws | None \<Rightarrow> False)"
  have dr: "distinct (map fst (sessionRoles d))" and ds: "distinct (map fst (sessions d))"
    and keys: "map fst (sessionRoles d) = map fst (sessions d)" and ok: "list_all (table_ok d) (sessions d)"
    using assms by (auto simp: tables_inv_def)
  have "activeViewerCount now d = length (filter ?P (map fst (sessionRoles d)))"
    using dr by (auto simp: activeViewerCount_def filter_map comp_def intro!: arg_cong [of _ _ length] filter_cong
        dest: eq_key_imp_eq_value)
  moreover have "?P (fst e) \<longleftrightarrow> counted_viewer now d (snd e) \<noteq> None" if "e \<in> set (sessions d)" for e
  proof -
    have "map_of (sessions d) (fst e) = Some (snd e)" using that ds by (metis map_of_is_SomeI prod.collapse)
    moreover have "table_ok d e" using ok that by (simp add: list_all_iff)
    ultimately show ?thesis
      by (auto simp: table_ok_def counted_viewer_def viewer_expiry_def split_beta split: option.splits)
  qed
  then have "length (filter (\<lambda>e. ?P (fst e)) (sessions d)) = length (filter (\<lambda>e. counted_viewer now d (snd e) \<noteq> None) (sessions d))"
    by (intro arg_cong [of _ _ length] filter_cong) auto
  moreover have "length (viewers now d) = length (filter (\<lambda>e. counted_viewer now d (snd e) \<noteq> None) (sessions d))"
    by (simp add: viewers_def List.map_filter_def filter_map comp_def)
  ultimately show ?thesis by (simp add: keys filter_map comp_def)
qed

subsection \<open>Steps\<close>

lemma inv_entry:
  assumes "tables_inv d" "(sid, ws) \<in> set (sessions d)"
  obtains a where "session_attachment d ws = Some a" "at_clientId a = sid"
  using assms by (auto simp: tables_inv_def list_all_iff table_ok_def split: option.splits)

lemma delete_filter: "AList.delete k xs = filter (\<lambda>e. fst e \<noteq> k) xs"
  by (auto simp: AList.delete_eq intro!: filter_cong)

text \<open>Dropping the session of one identifier, with or without closing its socket.\<close>

lemma drop_session:
  assumes inv: "tables_inv d"
    and s: "sessions d' = AList.delete sid (sessions d)" "sessionRoles d' = AList.delete sid (sessionRoles d)"
      "viewerExpiresAt d' = AList.delete sid (viewerExpiresAt d)"
    and k: "\<And>ws. map_of (sessions d) sid \<noteq> Some ws \<Longrightarrow> sockets d' ws = sockets d ws"
  shows "tables_inv d'" "length (filter P (viewers now d')) \<le> length (filter P (viewers now d))"
proof -
  have dk: "distinct (map fst (sessions d))" "distinct (map snd (sessions d))"
    and keys: "map fst (sessionRoles d) = map fst (sessions d)" and ok: "list_all (table_ok d) (sessions d)"
    using inv by (auto simp: tables_inv_def)
  have same: "sockets d' ws = sockets d ws" if "(j, ws) \<in> set (sessions d)" "j \<noteq> sid" for j ws
  proof (rule k)
    show "map_of (sessions d) sid \<noteq> Some ws"
      using that dk(2) map_of_SomeD [of "sessions d" sid ws] by (metis (no_types, lifting) distinct_map inj_onD prod.inject snd_conv)
  qed
  have att: "session_attachment d' ws = session_attachment d ws" "is_open d' ws = is_open d ws"
    if "(j, ws) \<in> set (sessions d)" "j \<noteq> sid" for j ws
    using same [OF that] by (simp_all add: session_attachment_def is_open_def)
  have "table_ok d' (j, ws)" if "(j, ws) \<in> set (sessions d)" "j \<noteq> sid" for j ws
    using ok att [OF that] that s by (auto simp: list_all_iff table_ok_def delete_conv' split: option.splits)
  then show "tables_inv d'" using dk keys s
    by (auto simp: tables_inv_def list_all_iff delete_filter filter_map [symmetric, of _ fst, unfolded comp_def]
        distinct_map_filter simp flip: filter_map [of "\<lambda>x. x \<noteq> sid" fst, unfolded comp_def])
  have c: "counted_viewer now d' ws = counted_viewer now d ws" if e: "(j, ws) \<in> set (sessions d)" and j: "j \<noteq> sid" for j ws
  proof -
    obtain a where "session_attachment d ws = Some a" "at_clientId a = j" using inv_entry [OF inv e] by blast
    then show ?thesis using att [OF e j] j s(3)
      by (simp add: counted_viewer_def viewer_expiry_def delete_conv')
  qed
  have v: "viewers now x = List.map_filter (\<lambda>e. counted_viewer now x (snd e)) (sessions x)" for x
    by (simp add: viewers_def List.map_filter_def filter_map comp_def)
  show "length (filter P (viewers now d')) \<le> length (filter P (viewers now d))"
    unfolding v s(1) delete_filter using c by (intro map_filter_shrink) auto
qed

lemma ws_close_simps [simp]:
  "sessions (ws_close ws d) = sessions d" "sessionRoles (ws_close ws d) = sessionRoles d"
  "viewerExpiresAt (ws_close ws d) = viewerExpiresAt d" "session_attachment (ws_close ws d) k = session_attachment d k"
  "is_open (ws_close ws d) k \<longleftrightarrow> is_open d k \<and> k \<noteq> ws" "k \<noteq> ws \<Longrightarrow> sockets (ws_close ws d) k = sockets d k"
  "sockets (ws_close ws d) k = None \<longleftrightarrow> sockets d k = None"
  by (auto simp: ws_close_def session_attachment_def is_open_def split: option.split)

lemma ws_close_inv: "tables_inv d \<Longrightarrow> tables_inv (ws_close ws d)"
proof -
  have "table_ok (ws_close ws d) = table_ok d" by (rule ext) (auto simp: table_ok_def split: option.split)
  then show "tables_inv d \<Longrightarrow> tables_inv (ws_close ws d)" by (simp add: tables_inv_def)
qed

lemma ws_close_viewers: "length (filter P (viewers now (ws_close ws d))) \<le> length (filter P (viewers now d))"
proof -
  have "counted_viewer now (ws_close ws d) k = None \<or> counted_viewer now (ws_close ws d) k = counted_viewer now d k" for k
    by (simp add: counted_viewer_def viewer_expiry_def split: option.split)
  then show ?thesis
    using map_filter_shrink [of "map snd (sessions d)" "\<lambda>_. True" "counted_viewer now (ws_close ws d)" "counted_viewer now d" P]
    by (simp add: viewers_def)
qed

lemma expire_entry_step:
  assumes inv: "tables_inv d"
  shows "tables_inv (expire_entry now e d) \<and> length (filter P (viewers t (expire_entry now e d))) \<le> length (filter P (viewers t d))"
proof -
  obtain sid x where e: "e = (sid, x)" by force
  show ?thesis
  proof (cases "now < x")
    case False
    let ?d' = "expire_entry now e d"
    have del: "AList.delete sid (sessions d) = sessions d" if "map_of (sessions d) sid = None"
      using that by (auto simp: delete_filter filter_id_conv map_of_eq_None_iff)
    have "sessions ?d' = AList.delete sid (sessions d)" "sessionRoles ?d' = AList.delete sid (sessionRoles d)"
      "viewerExpiresAt ?d' = AList.delete sid (viewerExpiresAt d)"
      "\<And>ws. map_of (sessions d) sid \<noteq> Some ws \<Longrightarrow> sockets ?d' ws = sockets d ws"
      using False del by (auto simp: e expire_entry_def expireViewer_def Let_def ws_send_def split: option.split)
    from drop_session [OF inv this] show ?thesis by blast
  qed (simp add: e expire_entry_def inv)
qed

lemma removeExpiredViewers_step:
  assumes "tables_inv d"
  shows "tables_inv (removeExpiredViewers now d) \<and>
    length (filter P (viewers t (removeExpiredViewers now d))) \<le> length (filter P (viewers t d))"
proof -
  have "tables_inv (fold (expire_entry now) es d) \<and>
      length (filter P (viewers t (fold (expire_entry now) es d))) \<le> length (filter P (viewers t d))" for es
    using assms
  proof (induction es arbitrary: d)
    case (Cons e es)
    note one = expire_entry_step [OF Cons.prems, of now e P t]
    then show ?case using Cons.IH [of "expire_entry now e d"] by simp
  qed simp
  then show ?thesis by (simp add: removeExpiredViewers_def)
qed

lemma cleanup_step:
  assumes inv: "tables_inv d"
  shows "tables_inv (cleanupSession now ws a d) \<and>
    length (filter P (viewers t (cleanupSession now ws a d))) \<le> length (filter P (viewers t d))"
proof (cases "map_of (sessions d) (at_clientId a) = Some ws")
  case True
  let ?i = "at_clientId a"
  let ?d' = "cleanupSession now ws a d"
  have "sessions ?d' = AList.delete ?i (sessions d)" "sessionRoles ?d' = AList.delete ?i (sessionRoles d)"
    "viewerExpiresAt ?d' = AList.delete ?i (viewerExpiresAt d)" "\<And>w. sockets ?d' w = sockets d w"
    using True by (simp_all add: cleanupSession_def Let_def broadcastOfflineClient_def broadcastToViewers_def split: option.split)
  from drop_session [OF inv this] show ?thesis by blast
qed (simp add: cleanupSession_def Let_def inv)

lemma close_step:
  assumes "tables_inv d"
  shows "tables_inv (webSocketClose now ws d) \<and>
    length (filter P (viewers t (webSocketClose now ws d))) \<le> length (filter P (viewers t d))"
proof -
  note c = ws_close_inv [OF assms, of ws] and v = ws_close_viewers [of P t ws d]
  show ?thesis
  proof (cases "session_attachment (ws_close ws d) ws")
    case (Some a)
    have "tables_inv (cleanupSession now ws a (ws_close ws d)) \<and>
        length (filter P (viewers t (cleanupSession now ws a (ws_close ws d)))) \<le> length (filter P (viewers t (ws_close ws d)))"
      by (rule cleanup_step [OF c])
    then show ?thesis using Some v by (simp add: webSocketClose_def Let_def)
  qed (use c v in \<open>simp add: webSocketClose_def Let_def\<close>)
qed

lemma update_count:
  "distinct (map fst xs) \<Longrightarrow>
   length (filter Q (AList.update i v xs)) = length (filter Q (AList.delete i xs)) + (if Q (i, v) then 1 else 0)"
proof (induction xs)
  case (Cons e xs)
  obtain j w where e: "e = (j, w)" by force
  show ?case
  proof (cases "j = i")
    case True
    then have "filter (\<lambda>e. fst e \<noteq> i) xs = xs" using Cons.prems e by (auto simp: filter_id_conv)
    then show ?thesis using True e by (simp add: delete_filter)
  next
    case False
    then show ?thesis using Cons e by (simp add: delete_filter)
  qed
qed simp

lemma set_update_distinct:
  "distinct (map fst xs) \<Longrightarrow> set (AList.update i v xs) = insert (i, v) {e \<in> set xs. fst e \<noteq> i}"
  by (induction xs) (auto simp: rev_image_eqI)

lemma update_snd: "snd ` set (AList.update i v xs) \<subseteq> insert v (snd ` set xs)"
  by (induction xs) auto

lemma update_snd_distinct: "distinct (map snd xs) \<Longrightarrow> v \<notin> snd ` set xs \<Longrightarrow> distinct (map snd (AList.update i v xs))"
proof (induction xs)
  case (Cons e xs)
  then show ?case using update_snd [of i v xs] by (auto split: if_splits)
qed simp

lemma length_filter_map_filter:
  "length (filter P (List.map_filter f xs)) = length (filter (\<lambda>x. case f x of Some a \<Rightarrow> P a | None \<Rightarrow> False) xs)"
  by (induction xs) (auto simp: List.map_filter_simps split: option.split)

lemma length_filter_sub:
  "(\<And>x. x \<in> set xs \<Longrightarrow> A x \<Longrightarrow> R x = Q x) \<Longrightarrow> length (filter R (filter A xs)) \<le> length (filter Q xs)"
  by (induction xs) (auto simp: le_SucI)

text \<open>A registration replaces the session of its identifier and adds at most one viewer.\<close>

lemma register_step:
  assumes inv: "tables_inv d" and fresh: "sockets d ws = None" and ok: "attachable a"
    and exp: "at_role a = ViewerRole \<Longrightarrow> \<exists>x. at_viewerExpiresAt a = Some x \<and> x \<noteq> 0"
    and d': "d' = registerSession ws a (d\<lparr>sockets := (sockets d)(ws \<mapsto> \<lparr>ws_open = True, ws_attachment = Undef\<rparr>)\<rparr>)"
  shows "tables_inv d'"
    and "\<exists>b. at_viewerIp b = at_viewerIp a \<and> (\<forall>P. length (filter P (viewers t d')) \<le>
           length (filter P (viewers t d)) + (if at_role a = ViewerRole \<and> P b then 1 else 0))"
proof -
  let ?i = "at_clientId a"
  obtain b where b: "getSessionAttachment (attachment_value a) = Some b" "at_role b = at_role a" "at_clientId b = ?i"
      "at_viewerIp b = at_viewerIp a" using attachment_back [OF ok] by metis
  have dk: "distinct (map fst (sessions d))" "distinct (map snd (sessions d))"
    and keys: "map fst (sessionRoles d) = map fst (sessions d)" and eo: "list_all (table_ok d) (sessions d)"
    using inv by (auto simp: tables_inv_def)
  have s: "sessions d' = AList.update ?i ws (sessions d)" "sessionRoles d' = AList.update ?i (at_role a) (sessionRoles d)"
    "sockets d' = (sockets d)(ws \<mapsto> \<lparr>ws_open = True, ws_attachment = attachment_value a\<rparr>)"
    by (simp_all add: d' registerSession_def Let_def serialize_attachment_def)
  have ve: "map_of (viewerExpiresAt d') j = map_of (viewerExpiresAt d) j" if "j \<noteq> ?i" for j
    using that by (simp add: d' registerSession_def Let_def serialize_attachment_def update_conv' delete_conv' split: option.split)
  have vi: "at_role a = ViewerRole \<Longrightarrow> map_of (viewerExpiresAt d') ?i \<noteq> None"
    using exp by (auto simp: d' registerSession_def Let_def serialize_attachment_def update_conv')
  have old: "sockets d w \<noteq> None" if "w \<in> snd ` set (sessions d)" for w
    using that eo by (auto simp: list_all_iff table_ok_def session_attachment_def split: option.splits)
  then have nws: "ws \<notin> snd ` set (sessions d)" using fresh by blast
  have att: "session_attachment d' w = session_attachment d w" "is_open d' w = is_open d w" if "w \<in> snd ` set (sessions d)" for w
    using that nws by (auto simp: session_attachment_def is_open_def s)
  have "table_ok d' (j, w)" if "(j, w) \<in> set (sessions d)" "j \<noteq> ?i" for j w
  proof -
    have "w \<in> snd ` set (sessions d)" using that by force
    then show ?thesis
      using eo att that ve [OF that(2)] by (auto simp: list_all_iff table_ok_def s(2) update_conv' split: option.splits)
  qed
  moreover have "table_ok d' (?i, ws)"
    using b vi by (simp add: table_ok_def session_attachment_def s update_conv')
  moreover have "set (sessions d') \<subseteq> insert (?i, ws) {e \<in> set (sessions d). fst e \<noteq> ?i}"
    unfolding s(1) using dk(1) by (auto simp: set_update_distinct)
  ultimately have "list_all (table_ok d') (sessions d')" by (force simp: list_all_iff)
  then show "tables_inv d'"
    using dk keys update_snd_distinct [OF dk(2) nws] by (simp add: tables_inv_def s(1,2) distinct_update update_keys)
  let ?Q = "\<lambda>d P e. case counted_viewer t d (snd e) of Some a \<Rightarrow> P a | None \<Rightarrow> False"
  have v: "length (filter P (viewers t x)) = length (filter (?Q x P) (sessions x))" for P x
    by (simp add: viewers_def length_filter_map_filter filter_map comp_def)
  have "?Q d' P e = ?Q d P e" if e: "e \<in> set (sessions d)" and ne: "fst e \<noteq> ?i" for P e
  proof -
    have w: "snd e \<in> snd ` set (sessions d)" using e by simp
    obtain c where "session_attachment d (snd e) = Some c" "at_clientId c = fst e"
      using inv_entry [OF inv] e by (metis prod.collapse)
    then show ?thesis using att [OF w] ve [OF ne] by (simp add: counted_viewer_def viewer_expiry_def)
  qed
  then have "length (filter (?Q d' P) (AList.delete ?i (sessions d))) \<le> length (filter (?Q d P) (sessions d))" for P
    unfolding delete_filter by (intro length_filter_sub) auto
  moreover have "(if ?Q d' P (?i, ws) then 1 else 0) \<le> (if at_role a = ViewerRole \<and> P b then 1 else (0 :: nat))" for P
    using b by (auto simp: counted_viewer_def session_attachment_def s split: if_splits)
  ultimately have "length (filter P (viewers t d')) \<le> length (filter P (viewers t d)) + (if at_role a = ViewerRole \<and> P b then 1 else 0)" for P
    unfolding v s(1) update_count [OF dk(1)] by (rule add_mono)
  then show "\<exists>b. at_viewerIp b = at_viewerIp a \<and> (\<forall>P. length (filter P (viewers t d')) \<le>
      length (filter P (viewers t d)) + (if at_role a = ViewerRole \<and> P b then 1 else 0))"
    using b(4) by blast
qed

subsection \<open>Runs\<close>

text \<open>
  The events that touch the session tables, each with the time of its clock: an upgrade with a new
  socket, a close, and the expiry part of the alarm. Upgrades come from the worker's routes, which
  name viewers \<open>frontend-\<close> with a random identifier and agents by their node.
\<close>

datatype sess_event =
    Upgrade rat rat string nat "string \<Rightarrow> string option"
  | Close rat nat
  | Sweep rat

fun ev_time :: "sess_event \<Rightarrow> rat" where
  "ev_time (Upgrade now _ _ _ _) = now"
| "ev_time (Close now _) = now"
| "ev_time (Sweep now) = now"

fun sess_step :: "sess_event \<Rightarrow> live_do \<Rightarrow> live_do" where
  "sess_step (Upgrade now ttl rid ws q) d = fst (connect now ttl rid ws q d)"
| "sess_step (Close now ws) d = webSocketClose now ws d"
| "sess_step (Sweep now) d = removeExpiredViewers now (removeExpiredClients now d)"

fun ev_ok :: "sess_event \<Rightarrow> live_do \<Rightarrow> bool" where
  "ev_ok (Upgrade now ttl rid ws q) d \<longleftrightarrow> sockets d ws = None \<and> 0 \<le> now \<and> attachable (new_attachment now ttl rid q)"
| "ev_ok _ d = True"

inductive sess_reach :: "rat \<Rightarrow> live_do \<Rightarrow> bool" where
  start: "sessions d = [] \<Longrightarrow> sessionRoles d = [] \<Longrightarrow> sess_reach t d"
| step: "sess_reach t d \<Longrightarrow> t \<le> ev_time e \<Longrightarrow> ev_ok e d \<Longrightarrow> sess_reach (ev_time e) (sess_step e d)"

lemma ttl_pos: "0 < normalizeViewerTtlMs v"
  by (simp add: normalizeViewerTtlMs_def VIEWER_DEFAULT_TTL_MS_def VIEWER_MIN_TTL_MS_def VIEWER_MAX_TTL_MS_def
      min_def max_def split: jsnum.split)

lemma new_attachment_expiry:
  assumes "0 \<le> now" "at_role (new_attachment now ttl rid q) = ViewerRole"
  shows "\<exists>x. at_viewerExpiresAt (new_attachment now ttl rid q) = Some x \<and> x \<noteq> 0"
proof -
  have "now + normalizeViewerTtlMs v \<noteq> 0" for v using assms(1) ttl_pos [of v] by linarith
  then show ?thesis using assms(2) by (auto simp: new_attachment_def Let_def split: if_splits option.split)
qed

lemma new_attachment_ip: "at_role (new_attachment now ttl rid q) = ViewerRole \<Longrightarrow> at_viewerIp (new_attachment now ttl rid q) = param q ''viewer_ip''"
  by (simp add: new_attachment_def Let_def split: if_splits)

lemma snapshot_same: "same_sessions d (scheduleExpiryAlarm now (sendSnapshot now ws d))"
  by (simp add: same_sessions_def scheduleExpiryAlarm_def sendSnapshot_def ws_send_def split: list.split)

text \<open>After every event the tables agree and the limits hold at the time of the event.\<close>

definition within_limits :: "rat \<Rightarrow> live_do \<Rightarrow> bool" where
  "within_limits now d \<longleftrightarrow> length (viewers now d) \<le> VIEWER_MAX_TOTAL_SESSIONS \<and>
     (\<forall>ip. length (filter (\<lambda>a. at_viewerIp a = Some ip) (viewers now d)) \<le> VIEWER_MAX_SESSIONS_PER_IP)"

lemma within_limits_fewer:
  assumes "within_limits t d" "\<And>P. length (filter P (viewers t' d')) \<le> length (filter P (viewers t d))"
  shows "within_limits t' d'"
  using assms(1) assms(2) [of "\<lambda>_. True"] le_trans [OF assms(2)] by (simp add: within_limits_def)

lemma same_sessions_limits: "same_sessions d d' \<Longrightarrow> within_limits t d' = within_limits t d"
  using same_sessions_count [of d d' t] by (simp add: within_limits_def viewers_def same_sessions_def)

lemma connect_step:
  assumes inv: "tables_inv d" and lim: "within_limits now d" and ok: "ev_ok (Upgrade now ttl rid ws q) d"
  shows "tables_inv (fst (connect now ttl rid ws q d)) \<and> within_limits now (fst (connect now ttl rid ws q d))"
proof (cases "admit now (new_attachment now ttl rid q) (param q ''viewer_ip'') d")
  case None
  let ?a = "new_attachment now ttl rid q"
  let ?d1 = "replace_session ?a d"
  let ?d2 = "registerSession ws ?a (?d1\<lparr>sockets := (sockets ?d1)(ws \<mapsto> \<lparr>ws_open = True, ws_attachment = Undef\<rparr>)\<rparr>)"
  have inv1: "tables_inv ?d1" and fewer: "length (filter P (viewers now ?d1)) \<le> length (filter P (viewers now d))"
    and fresh: "sockets ?d1 ws = None" for P
    using inv ok ws_close_inv [OF inv] ws_close_viewers by (auto simp: replace_session_def split: option.split)
  have att: "attachable ?a" and ex: "at_role ?a = ViewerRole \<Longrightarrow> \<exists>x. at_viewerExpiresAt ?a = Some x \<and> x \<noteq> 0"
    using ok new_attachment_expiry by auto
  note reg = register_step [OF inv1 fresh att ex refl]
  from reg(2) [of now]
  obtain b where b: "at_viewerIp b = at_viewerIp ?a" and more: "\<And>P. length (filter P (viewers now ?d2)) \<le>
      length (filter P (viewers now d)) + (if at_role ?a = ViewerRole \<and> P b then 1 else 0)"
    using fewer by (meson add_le_mono1 le_trans)
  have "within_limits now ?d2"
  proof (cases "at_role ?a = ViewerRole")
    case True
    then have e: "enforceViewerConnectionLimit now (param q ''viewer_ip'') d = None" using None by (simp add: admit_def)
    then have "length (viewers now d) < VIEWER_MAX_TOTAL_SESSIONS"
      by (simp add: enforceViewerConnectionLimit_def countViewers_viewers split: if_splits)
    moreover have "length (filter (\<lambda>a. at_viewerIp a = Some ip) (viewers now d)) < VIEWER_MAX_SESSIONS_PER_IP"
      if "param q ''viewer_ip'' = Some ip" for ip
      using e that by (simp add: enforceViewerConnectionLimit_def countViewers_viewers split: if_splits)
    moreover have "length (filter (\<lambda>a. at_viewerIp a = Some ip) (viewers now ?d2)) \<le> VIEWER_MAX_SESSIONS_PER_IP" for ip
    proof (cases "at_viewerIp b = Some ip")
      case ip: True
      then have "param q ''viewer_ip'' = Some ip" using b new_attachment_ip [OF True] by simp
      then show ?thesis using calculation(2) more [of "\<lambda>a. at_viewerIp a = Some ip"] True ip by simp
    next
      case False
      then have "length (filter (\<lambda>a. at_viewerIp a = Some ip) (viewers now ?d2))
          \<le> length (filter (\<lambda>a. at_viewerIp a = Some ip) (viewers now d))"
        using more [of "\<lambda>a. at_viewerIp a = Some ip"] by simp
      also have "\<dots> \<le> VIEWER_MAX_SESSIONS_PER_IP" using lim by (simp add: within_limits_def)
      finally show ?thesis .
    qed
    ultimately show ?thesis using more [of "\<lambda>_. True"] True by (simp add: within_limits_def)
  next
    case False
    then show ?thesis using within_limits_fewer [OF lim] more by simp
  qed
  moreover have "same_sessions ?d2 (scheduleExpiryAlarm now (sendSnapshot now ws ?d2))" by (rule snapshot_same)
  ultimately show ?thesis
    using None reg(1) same_sessions_inv [of ?d2] same_sessions_limits [of ?d2] by (simp add: connect_def Let_def)
qed (simp add: connect_def Let_def inv lim)

lemma sess_step_keeps:
  assumes inv: "tables_inv d" and lim: "within_limits (ev_time e) d" and ok: "ev_ok e d"
  shows "tables_inv (sess_step e d) \<and> within_limits (ev_time e) (sess_step e d)"
proof (cases e)
  case (Close now ws)
  then show ?thesis using close_step [OF inv, of now ws] within_limits_fewer [OF lim, of now "webSocketClose now ws d"] by simp
next
  case (Sweep now)
  have s: "same_sessions d (removeExpiredClients now d)" by (rule expire_clients_sessions)
  then have inv': "tables_inv (removeExpiredClients now d)" and lim': "within_limits now (removeExpiredClients now d)"
    using same_sessions_inv same_sessions_limits inv lim Sweep by auto
  show ?thesis using removeExpiredViewers_step [OF inv', of now] within_limits_fewer [OF lim', of now "sess_step e d"] Sweep by simp
qed (use connect_step [OF inv, of "ev_time e"] lim ok in simp)

lemma sess_reach_inv: "sess_reach t d \<Longrightarrow> tables_inv d \<and> within_limits t d"
proof (induction rule: sess_reach.induct)
  case (start d t)
  then show ?case by (simp add: tables_inv_def within_limits_def viewers_def List.map_filter_simps)
next
  case (step t d e)
  then have "within_limits (ev_time e) d"
    using within_limits_fewer [of t d] viewers_antimono [OF step.hyps(2)] by blast
  with step show ?case using sess_step_keeps by blast
qed

text \<open>
  C30. Viewer limits. Whatever upgrades, closes and sweeps happen, in any order and with a clock that
  does not run backwards, at no later time are more than 128 viewer sessions live, and no address
  has more than eight; the count by the role table, which decides how often agents report, and the
  count by attachments, which decides admission, are the same.
\<close>

theorem viewer_limits:
  assumes "sess_reach t d" "t \<le> now"
  shows "activeViewerCount now d \<le> VIEWER_MAX_TOTAL_SESSIONS \<and>
    activeViewerCount now d = fst (countViewers now ip d) \<and>
    snd (countViewers now (Some i) d) \<le> VIEWER_MAX_SESSIONS_PER_IP"
proof -
  have inv: "tables_inv d" and lim: "within_limits t d" using sess_reach_inv [OF assms(1)] by auto
  have "within_limits now d" using within_limits_fewer [OF lim] viewers_antimono [OF assms(2)] by blast
  then show ?thesis using active_is_counted [OF inv] by (simp add: within_limits_def countViewers_viewers)
qed

text \<open>
  The alarm is early enough: after \<open>scheduleExpiryAlarm\<close> every node expiry, viewer expiry and
  pending recheck still ahead has an alarm no later than itself or one second from now, and the
  alarm is set exactly when there is something to wait for.
\<close>

theorem alarm_covers_expiries:
  assumes "e \<in> set (pending_expiries now d)"
  shows "\<exists>at1. alarmAt (scheduleExpiryAlarm now d) = Some at1 \<and> at1 \<le> max e (now + 1000) \<and> now + 1000 \<le> at1"
proof -
  obtain x xs where s: "sort (pending_expiries now d) = x # xs"
    using assms by (cases "sort (pending_expiries now d)") (auto dest: arg_cong [where f = set])
  have "sorted (x # xs)" "e \<in> set (x # xs)" using s assms by (metis sorted_sort, metis set_sort)
  then have "x \<le> e" by auto
  then show ?thesis by (auto simp: scheduleExpiryAlarm_def s)
qed

subsection \<open>Witness\<close>

definition sample_query :: "string \<Rightarrow> string option" where
  "sample_query k = (if k = ''viewer_ip'' then Some ''192.0.2.1'' else None)"

definition sample_upgrade :: sess_event where
  "sample_upgrade = Upgrade 10 120 ''frontend-1'' 0 sample_query"

lemma sample_reach: "sess_reach 10 (sess_step sample_upgrade new_live_do)"
proof -
  have "attachable (new_attachment 10 120 ''frontend-1'' sample_query)"
    by (simp add: attachable_def new_attachment_def param_def sample_query_def Let_def js_trim_def is_ws_def cc_def)
  then show ?thesis
    using sess_reach.step [OF sess_reach.start [of new_live_do 0], of sample_upgrade]
    by (simp add: sample_upgrade_def new_live_do_def)
qed

theorem viewer_limits_witness:
  "activeViewerCount 20 (sess_step sample_upgrade new_live_do) \<le> VIEWER_MAX_TOTAL_SESSIONS"
  using viewer_limits [OF sample_reach, of 20 None "''192.0.2.1''"] by simp

end
