(* ===== verification/ClientSync.thy ===== *)
theory ClientSync
  imports LiveSessions
begin

section \<open>Removal, metadata and synchronisation of nodes\<close>

text \<open>
  The handlers of \<open>do/live-data.ts\<close> by which the administration reaches a node: \<open>/client-remove\<close>,
  \<open>/client-meta\<close>, \<open>/client-sync\<close>, \<open>/client-sync/batch\<close> and \<open>/clients-restore\<close>. The synchronisation
  handlers call the others with requests they build themselves, so the model prints and parses the
  same JSON. The queue per node makes each synchronisation atomic for its node.
\<close>

subsection \<open>The report of an agent in its attachment\<close>

definition AGENT_ATTACHMENT_BUDGET_BYTES :: nat where
  "AGENT_ATTACHMENT_BUDGET_BYTES = 12 * 1024"

definition over_budget :: "attachment \<Rightarrow> bool" where
  "over_budget a = (AGENT_ATTACHMENT_BUDGET_BYTES < serializedBytes (attachment_value a))"

definition blank_gpu_names :: "jsobj \<Rightarrow> jsobj" where
  "blank_gpu_names report = (case js_get report ''gpus'' of
       Arr gs \<Rightarrow> AList.update ''gpus'' (Arr (map (\<lambda>g. Obj (AList.update ''device_name'' (Str []) (asObject g))) gs)) report
     | _ \<Rightarrow> report)"

definition rememberAgentReportAttachment ::
  "nat \<Rightarrow> client_state \<Rightarrow> live_do \<Rightarrow> live_do" where
  "rememberAgentReportAttachment ws c d =
     (let previous = session_attachment d ws;
          keep = (\<lambda>f. case previous of Some p \<Rightarrow> (case f p of Some s \<Rightarrow> if s \<noteq> [] then Some s else None | None \<Rightarrow> None) | None \<Rightarrow> None);
          a0 = \<lparr>at_role = AgentRole, at_authHash = keep at_authHash, at_clientId = cs_uuid c, at_clientName = take 256 (cs_name c),
                at_hidden = cs_hidden c, at_includeHidden = False, at_viewerIp = None, at_viewerExpiresAt = None,
                at_sourceIp = keep at_sourceIp, at_region = keep at_region,
                at_lastReport = Some (compactLiveReport (cs_lastReport c)), at_lastReportTime = Some (cs_lastReportTime c),
                at_expiresAt = cs_expiresAt c\<rparr>;
          a1 = (if over_budget a0 then a0\<lparr>at_lastReport := map_option (AList.delete ''basic_info'') (at_lastReport a0)\<rparr> else a0);
          a2 = (if over_budget a1 then a1\<lparr>at_lastReport := map_option blank_gpu_names (at_lastReport a1)\<rparr> else a1)
      in serialize_attachment ws a2 d)"

subsection \<open>Handlers\<close>

definition live_entry :: "live_do \<Rightarrow> string \<Rightarrow> (string \<times> bool) option" where
  "live_entry d uuid = map_option (\<lambda>c. (cs_name c, cs_hidden c)) (map_of (clients d) uuid)"

definition upsert_admin :: "rat \<Rightarrow> jsobj \<Rightarrow> bool \<Rightarrow> live_do \<Rightarrow> live_do \<times> jsobj option" where
  "upsert_admin now client fromAgent d =
     (case upsertAdminClientSnapshot now (live_entry d) client fromAgent (admin d) of (a, r) \<Rightarrow> (d\<lparr>admin := a\<rparr>, r))"

definition compacted :: "client_state \<Rightarrow> client_state" where
  "compacted c = c\<lparr>cs_lastReport := compactLiveReport (cs_lastReport c)\<rparr>"

definition update_message :: "client_state \<Rightarrow> jsobj" where
  "update_message c = [(''type'', Str ''update''), (''client'', Str (cs_uuid c)), (''name'', Str (cs_name c)),
     (''data'', Obj (cs_lastReport c)), (''timestamp'', Num (Fin (cs_lastReportTime c)))]"

definition remove_message :: "rat \<Rightarrow> string \<Rightarrow> jsobj" where
  "remove_message now uuid = [(''type'', Str ''remove''), (''client'', Str uuid), (''timestamp'', Num (Fin now))]"

text \<open>The part of \<open>updateClientMeta\<close> after the row is written: tables, attachment, viewers.\<close>

definition apply_meta :: "rat \<Rightarrow> string \<Rightarrow> live_do \<Rightarrow> live_do" where
  "apply_meta now uuid d =
     (let cached = map_of (clients d) uuid;
          current = (case cached of Some c \<Rightarrow> unexpired (cs_expiresAt c) now | None \<Rightarrow> False);
          d1 = (if cached \<noteq> None \<and> \<not> current then d\<lparr>clients := AList.delete uuid (clients d)\<rparr> else d);
          retained = (case cached of Some c \<Rightarrow> Some c | None \<Rightarrow> map_of (lastKnownClients d1) uuid)
      in case Option.bind retained (\<lambda>c. controlledClientState c (admin d1)) of
          None \<Rightarrow> d1
        | Some nxt \<Rightarrow>
            (let d2 = d1\<lparr>lastKnownClients := AList.update uuid (compacted nxt) (lastKnownClients d1)\<rparr>;
                 d3 = (if current then d2\<lparr>clients := AList.update uuid nxt (clients d2)\<rparr> else d2);
                 d4 = (case map_of (sessions d3) uuid of
                         Some ws \<Rightarrow> if current \<and> is_open d3 ws then rememberAgentReportAttachment ws (nxt\<lparr>cs_uuid := uuid\<rparr>) d3 else d3
                       | None \<Rightarrow> d3);
                 upd = update_message (nxt\<lparr>cs_uuid := uuid\<rparr>)
             in if cs_hidden nxt then
                  (let d5 = broadcastToViewers (remove_message now uuid) ToPublic d4
                   in if current then broadcastToViewers upd ToAdmin d5 else broadcastOfflineClient now nxt d5)
                else if current then broadcastToViewers upd ToAll d4
                else broadcastOfflineClient now nxt d4))"

definition update_meta_body :: "rat \<Rightarrow> jsobj \<Rightarrow> live_do \<Rightarrow> live_do \<times> response" where
  "update_meta_body now meta d = (case nonblank_text (js_get meta ''uuid'') of
       None \<Rightarrow> (d, json_error 400 ''Invalid client metadata'')
     | Some uuid \<Rightarrow>
         if js_get meta ''source'' = Str ''agent'' then
           (let patch = projectAgentClientMetadata (case js_get meta ''client'' of Obj c \<Rightarrow> c | _ \<Rightarrow> meta)
            in case upsert_admin now (assign [(''uuid'', Str uuid)] patch) True d of
                (d1, Some client) \<Rightarrow>
                  (broadcastMetadataChanged now [(''clients'', Obj [(''upsert'', Arr [Obj client])])] ToAll d1, json_success)
              | (d1, None) \<Rightarrow> (d1, json_success))
         else
           (let previous = (case map_of (clients d) uuid of Some c \<Rightarrow> Some c | None \<Rightarrow> map_of (lastKnownClients d) uuid);
                client = (case js_get meta ''client'' of
                    Obj c \<Rightarrow> c
                  | _ \<Rightarrow> [(''uuid'', Str uuid),
                      (''name'', case js_get meta ''name'' of Str n \<Rightarrow> Str n
                        | _ \<Rightarrow> js_or (case previous of Some p \<Rightarrow> Str (cs_name p) | None \<Rightarrow> Undef) (Str uuid)),
                      (''hidden'', Bool (booleanField meta ''hidden''))]);
                d1 = apply_meta now uuid (fst (upsert_admin now client False d))
            in (broadcastMetadataChanged now [(''clients'', Obj [(''upsert'',
                  Arr [Obj (AList.update ''hidden'' (Bool (booleanField meta ''hidden'')) client)])])] ToAll d1, json_success)))"

definition updateClientMeta :: "rat \<Rightarrow> do_request \<Rightarrow> live_do \<Rightarrow> live_do \<times> response" where
  "updateClientMeta now request d = (case parseJsonRequestWithLimit request HTTP_CLIENT_META_MAX_BODY_BYTES of
       Inl r \<Rightarrow> (d, r)
     | Inr meta \<Rightarrow> update_meta_body now meta d)"

definition forget_client :: "string \<Rightarrow> live_do \<Rightarrow> live_do" where
  "forget_client uuid d =
     (let d1 = (case map_of (sessions d) uuid of Some ws \<Rightarrow> if is_open d ws then ws_close ws d else d | None \<Rightarrow> d)
      in d1\<lparr>sessions := AList.delete uuid (sessions d1), sessionRoles := AList.delete uuid (sessionRoles d1),
            clients := AList.delete uuid (clients d1), lastKnownClients := AList.delete uuid (lastKnownClients d1),
            httpLive := (httpLive d1)(uuid := None), streaks := (streaks d1)(uuid := None)\<rparr>)"

definition remove_body :: "rat \<Rightarrow> jsobj \<Rightarrow> live_do \<Rightarrow> live_do \<times> response" where
  "remove_body now meta d = (case nonblank_text (js_get meta ''uuid'') of
       None \<Rightarrow> (d, json_error 400 ''Invalid client metadata'')
     | Some uuid \<Rightarrow>
         (let keepMetadata = (js_get meta ''keepMetadata'' = Bool True);
              existing = (case map_of (clients d) uuid of Some c \<Rightarrow> Some c | None \<Rightarrow> map_of (lastKnownClients d) uuid);
              d1 = forget_client uuid d;
              d2 = d1\<lparr>auth := removeAgentAuthByUuid now uuid (auth d1)\<rparr>;
              d3 = (if keepMetadata then d2 else d2\<lparr>admin := removeAdminClientSnapshot now uuid (admin d2)\<rparr>);
              d4 = (case existing of
                      Some c \<Rightarrow> broadcastToViewers (remove_message now uuid) (if cs_hidden c then ToAdmin else ToAll) d3
                    | None \<Rightarrow> d3)
          in (if keepMetadata then d4
              else broadcastMetadataChanged now [(''clients'', Obj [(''remove'', Arr [Str uuid])])] ToAll d4, json_success)))"

definition removeClient :: "rat \<Rightarrow> do_request \<Rightarrow> live_do \<Rightarrow> live_do \<times> response" where
  "removeClient now request d = (case parseJsonRequestWithLimit request HTTP_CLIENT_META_MAX_BODY_BYTES of
       Inl r \<Rightarrow> (d, r)
     | Inr meta \<Rightarrow> remove_body now meta d)"

subsection \<open>Synchronisation\<close>

definition is_revision :: "string \<Rightarrow> bool" where
  "is_revision r = (case r of c # ds \<Rightarrow> is_digit c \<and> c \<noteq> CHR ''0'' \<and> length ds \<le> 19 \<and> list_all is_digit ds | [] \<Rightarrow> False)"

definition sync_response :: "string \<Rightarrow> string \<Rightarrow> bool \<Rightarrow> response" where
  "sync_response uuid revision applied =
     (200, Obj [(''success'', Bool True), (''uuid'', Str uuid), (''revision'', Str revision), (''applied'', Bool applied)])"

definition sync_stale :: "string \<Rightarrow> string \<Rightarrow> live_do \<Rightarrow> bool" where
  "sync_stale uuid revision d = (case syncRevisions d uuid of
       Some (r, finished) \<Rightarrow> BigInt revision < BigInt r \<or> (r = revision \<and> finished) | None \<Rightarrow> False)"

text \<open>The old credential of the node is withdrawn first if it differs from the new one.\<close>

definition withdrawn :: "rat \<Rightarrow> string \<Rightarrow> string \<Rightarrow> live_do \<Rightarrow> live_do" where
  "withdrawn now uuid hash d = (case ptrs (auth d) uuid of
      Some h \<Rightarrow> if h \<noteq> [] \<and> h \<noteq> hash
                then fst (removeClient now (own_request [(''uuid'', Str uuid), (''keepMetadata'', Bool True)]) d) else d
    | None \<Rightarrow> d)"

definition sync_apply ::
  "(string \<Rightarrow> int option) \<Rightarrow> rat \<Rightarrow> string \<Rightarrow> string \<Rightarrow> jsobj option \<Rightarrow> live_do \<Rightarrow> live_do \<times> response" where
  "sync_apply dp now uuid revision client d =
     (if sync_stale uuid revision d then (d, sync_response uuid revision False)
      else let d1 = d\<lparr>syncRevisions := (syncRevisions d)(uuid \<mapsto> (revision, False))\<rparr>;
               finish = (\<lambda>d. (d\<lparr>syncRevisions := (syncRevisions d)(uuid \<mapsto> (revision, True))\<rparr>, sync_response uuid revision True))
           in case client of
               None \<Rightarrow> finish (fst (removeClient now (own_request [(''uuid'', Str uuid)]) d1))
             | Some c \<Rightarrow>
                 (let d2 = withdrawn now uuid (stringField c ''token_hash'') d1
                  in case storeAgentAuthSnapshot dp c (Some revision) (auth d2) of
                      (_, False) \<Rightarrow> (d2, json_error 409 ''Newer credentials already applied'')
                    | (s, True) \<Rightarrow>
                        finish (fst (updateClientMeta now (own_request [(''uuid'', Str uuid), (''client'', Obj c),
                          (''name'', js_get c ''name''), (''hidden'', js_get c ''hidden'')]) (d2\<lparr>auth := s\<rparr>)))))"

definition sync_message :: "jsobj \<Rightarrow> (string \<times> string \<times> jsobj option) option" where
  "sync_message body =
     (let uuid = js_trim (stringField body ''uuid''); revision = stringField body ''revision''; rawClient = js_get body ''client'';
          client = (if rawClient = Null then None else normalizeAgentAuthSnapshot rawClient)
      in if uuid = [] \<or> \<not> is_revision revision \<or>
            (rawClient \<noteq> Null \<and> (case client of None \<Rightarrow> True | Some c \<Rightarrow> stringField c ''uuid'' \<noteq> uuid))
         then None else Some (uuid, revision, client))"

definition applyClientSynchronization ::
  "(string \<Rightarrow> int option) \<Rightarrow> rat \<Rightarrow> do_request \<Rightarrow> live_do \<Rightarrow> live_do \<times> response" where
  "applyClientSynchronization dp now request d = (case parseJsonRequestWithLimit request HTTP_CLIENT_META_MAX_BODY_BYTES of
       Inl r \<Rightarrow> (d, r)
     | Inr body \<Rightarrow> (case sync_message body of
         None \<Rightarrow> (d, json_error 400 ''Invalid client synchronization'')
       | Some (uuid, revision, client) \<Rightarrow> sync_apply dp now uuid revision client d))"

fun sync_batch_loop ::
  "(string \<Rightarrow> int option) \<Rightarrow> rat \<Rightarrow> jsobj list \<Rightarrow> jsval list \<Rightarrow> live_do \<Rightarrow> live_do \<times> response" where
  "sync_batch_loop dp now [] applied d = (d, (200, Obj [(''success'', Bool True), (''applied'', Arr applied)]))"
| "sync_batch_loop dp now (change # changes) applied d =
     (case applyClientSynchronization dp now (own_request change) d of
        (d1, (status, body)) \<Rightarrow>
          if \<not> (200 \<le> status \<and> status < 300) then (d1, (status, body))
          else sync_batch_loop dp now changes
                 (applied @ [Obj [(''uuid'', js_get change ''uuid''), (''revision'', js_get change ''revision'')]]) d1)"

definition MAX_BACKUP_BYTES :: nat where
  "MAX_BACKUP_BYTES = 5 * 1024 * 1024"

definition applyClientSynchronizationBatch ::
  "(string \<Rightarrow> int option) \<Rightarrow> rat \<Rightarrow> do_request \<Rightarrow> live_do \<Rightarrow> live_do \<times> response" where
  "applyClientSynchronizationBatch dp now request d = (case parseJsonRequestWithLimit request MAX_BACKUP_BYTES of
       Inl r \<Rightarrow> (d, r)
     | Inr body \<Rightarrow> (case js_get body ''changes'' of
         Arr changes \<Rightarrow>
           if changes = [] \<or> 200 < length changes \<or> list_ex (\<lambda>c. \<not> isObjectPayload c) changes
           then (d, json_error 400 ''Invalid synchronization batch'')
           else sync_batch_loop dp now (map asObject changes) [] d
       | _ \<Rightarrow> (d, json_error 400 ''Invalid synchronization batch'')))"

subsection \<open>Restoring a configuration\<close>

text \<open>
  \<open>restoreClients\<close> runs with every other event blocked. \<open>accepted\<close> are the sockets the runtime
  lists; the caches of settings and tasks it also drops are not part of the state.
\<close>

definition close_agent :: "nat \<Rightarrow> live_do \<Rightarrow> live_do" where
  "close_agent ws d = (case session_attachment d ws of
       Some a \<Rightarrow> if at_role a = AgentRole
         then (let d1 = ws_close ws d in d1\<lparr>sessions := AList.delete (at_clientId a) (sessions d1),
                 sessionRoles := AList.delete (at_clientId a) (sessionRoles d1)\<rparr>)
         else d
     | None \<Rightarrow> d)"

definition restore_state :: "rat \<Rightarrow> nat list \<Rightarrow> jsobj list \<Rightarrow> rat \<Rightarrow> live_do \<Rightarrow> live_do" where
  "restore_state now accepted restored updatedAt d =
     (let d1 = d\<lparr>httpLive := (\<lambda>_. None), auth := (auth d)\<lparr>snaps := (\<lambda>_. None), ptrs := (\<lambda>_. None)\<rparr>\<rparr>;
          d2 = d1\<lparr>admin := storeAdminClientsSnapshot \<lparr>as_clients = restored, as_complete = True, as_updatedAt = updatedAt,
                                                     as_removed = []\<rparr> (admin d1)\<rparr>;
          d3 = fold close_agent (js_uniq (map snd (sessions d2) @ accepted)) d2;
          d4 = broadcastMetadataChanged now [(''clients'', Bool True)] ToAll (d3\<lparr>clients := [], lastKnownClients := []\<rparr>);
          d5 = fold (\<lambda>(sid, ws) d. if map_of (sessionRoles d) sid = Some ViewerRole then sendSnapshot now ws d else d) (sessions d4) d4
      in scheduleExpiryAlarm now d5)"

definition restored_list :: "jsobj \<Rightarrow> response + jsobj list" where
  "restored_list body = (case js_get body ''clients'' of
       Arr cs \<Rightarrow>
         if 1000 < length cs \<or> list_ex (\<lambda>c. \<not> isObjectPayload c) cs then Inl (json_error 400 ''Invalid restored client list'')
         else (let restored = map (restoredClientMetadata \<circ> asObject) cs
               in if list_ex (\<lambda>c. stringField c ''uuid'' = []) restored \<or> \<not> distinct (map (\<lambda>c. stringField c ''uuid'') restored)
                  then Inl (json_error 400 ''Invalid or duplicate restored client UUID'')
                  else if \<not> fst (measureRestoredClientSnapshot restored False)
                  then Inl (json_error 413 ''Restored client snapshot exceeds the safe storage size'')
                  else Inr restored)
     | _ \<Rightarrow> Inl (json_error 400 ''Invalid restored client list''))"

definition restoreClients :: "rat \<Rightarrow> nat list \<Rightarrow> do_request \<Rightarrow> live_do \<Rightarrow> live_do \<times> response" where
  "restoreClients now accepted request d = (case parseJsonRequestWithLimit request MAX_BACKUP_BYTES of
       Inl r \<Rightarrow> (d, r)
     | Inr body \<Rightarrow>
         (case js_get body ''expected_version'' of
            Num x \<Rightarrow>
              if \<not> js_isSafeInteger x \<or> js_lt x (Fin 0) then (d, json_error 400 ''A restored snapshot requires its pre-read version'')
              else (case restored_list body of
                  Inl r \<Rightarrow> (d, r)
                | Inr restored \<Rightarrow> (case readAdminClientsSnapshot (admin d) of
                    (a, previous) \<Rightarrow>
                      (let version = (case previous of Some p \<Rightarrow> as_updatedAt p | None \<Rightarrow> 0); d0 = d\<lparr>admin := a\<rparr>
                       in if x \<noteq> Fin version
                          then (d0, (409, Obj [(''error'', Str ''Client state changed while the snapshot was read''), (''code'', Str ''CLIENT_SNAPSHOT_CHANGED'')]))
                          else let updatedAt = next_version now previous
                               in (restore_state now accepted restored updatedAt d0,
                                   (200, Obj [(''success'', Bool True), (''count'', Num (Fin (of_nat (length restored)))), (''version'', Num (Fin updatedAt))])))))
          | _ \<Rightarrow> (d, json_error 400 ''A restored snapshot requires its pre-read version'')))"

subsection \<open>What the handlers leave alone\<close>

text \<open>Broadcasts, sockets and management rows do not touch credentials and synchronisation marks.\<close>

lemma auth_broadcast [simp]:
  "auth (broadcastToViewers m aud d) = auth d" "syncRevisions (broadcastToViewers m aud d) = syncRevisions d"
  "auth (broadcastOfflineClient now c d) = auth d" "syncRevisions (broadcastOfflineClient now c d) = syncRevisions d"
  "auth (broadcastMetadataChanged now detail aud d) = auth d"
  "syncRevisions (broadcastMetadataChanged now detail aud d) = syncRevisions d"
  by (simp_all add: broadcastToViewers_def broadcastOfflineClient_def broadcastMetadataChanged_def split: option.split)

lemma auth_sockets [simp]:
  "auth (ws_close ws d) = auth d" "syncRevisions (ws_close ws d) = syncRevisions d"
  "auth (rememberAgentReportAttachment ws c d) = auth d" "syncRevisions (rememberAgentReportAttachment ws c d) = syncRevisions d"
  by (simp_all add: ws_close_def rememberAgentReportAttachment_def serialize_attachment_def Let_def split: option.split)

lemma auth_upsert_admin [simp]:
  "auth (fst (upsert_admin now c b d)) = auth d" "syncRevisions (fst (upsert_admin now c b d)) = syncRevisions d"
  by (simp_all add: upsert_admin_def split_beta)

lemma auth_apply_meta [simp]: "auth (apply_meta now uuid d) = auth d" "syncRevisions (apply_meta now uuid d) = syncRevisions d"
  by (simp_all add: apply_meta_def Let_def split: option.split)

lemma auth_update_meta [simp]:
  "auth (fst (updateClientMeta now request d)) = auth d" "syncRevisions (fst (updateClientMeta now request d)) = syncRevisions d"
proof -
  have "auth (fst (update_meta_body now meta d)) = auth d \<and> syncRevisions (fst (update_meta_body now meta d)) = syncRevisions d" for meta
  proof (cases "nonblank_text (js_get meta ''uuid'')")
    case (Some uuid)
    define patch where "patch = assign [(''uuid'', Str uuid)]
      (projectAgentClientMetadata (case js_get meta ''client'' of Obj c \<Rightarrow> c | _ \<Rightarrow> meta))"
    obtain d1 r where u: "upsert_admin now patch True d = (d1, r)" by force
    have "auth d1 = auth d" "syncRevisions d1 = syncRevisions d"
      using auth_upsert_admin [of now patch True d] by (simp_all add: u)
    then show ?thesis using Some u unfolding update_meta_body_def Let_def patch_def
      by (cases r) simp_all
  qed (simp add: update_meta_body_def)
  then show "auth (fst (updateClientMeta now request d)) = auth d"
    "syncRevisions (fst (updateClientMeta now request d)) = syncRevisions d"
    by (simp_all add: updateClientMeta_def split: sum.split)
qed

lemma remove_body_auth:
  assumes "nonblank_text (js_get meta ''uuid'') = Some uuid"
  shows "auth (fst (remove_body now meta d)) = removeAgentAuthByUuid now uuid (auth d)"
    "syncRevisions (fst (remove_body now meta d)) = syncRevisions d"
  using assms by (simp_all add: remove_body_def Let_def forget_client_def split: option.split)

subsection \<open>Requests the object sends itself\<close>

lemma remove_sizes:
  assumes "length u \<le> 1000"
  shows "serializedBytes (Obj [(''uuid'', Str u)]) \<le> HTTP_CLIENT_META_MAX_BODY_BYTES"
    "serializedBytes (Obj [(''uuid'', Str u), (''keepMetadata'', Bool True)]) \<le> HTTP_CLIENT_META_MAX_BODY_BYTES"
proof -
  note q = quoted_size [of u] quoted_size [of "''uuid''"] quoted_size [of "''keepMetadata''"]
  have b: "serializedBytes v \<le> HTTP_CLIENT_META_MAX_BODY_BYTES" if "JSON_stringify v = Some t" "length t \<le> 8000" for v t
    using that utf8_size [of t] by (simp add: serializedBytes_def HTTP_CLIENT_META_MAX_BODY_BYTES_def)
  show "serializedBytes (Obj [(''uuid'', Str u)]) \<le> HTTP_CLIENT_META_MAX_BODY_BYTES"
    by (rule b [OF JSON_stringify.simps(7)]) (use q assms in simp)
  show "serializedBytes (Obj [(''uuid'', Str u), (''keepMetadata'', Bool True)]) \<le> HTTP_CLIENT_META_MAX_BODY_BYTES"
    by (rule b [OF JSON_stringify.simps(7)]) (use q assms in simp)
qed

text \<open>The removal a synchronisation asks for: it happens for an ordinary identifier, and never reaches another node.\<close>

definition removal_request :: "bool \<Rightarrow> string \<Rightarrow> jsobj" where
  "removal_request keep u = (''uuid'', Str u) # (if keep then [(''keepMetadata'', Bool True)] else [])"

lemma removal_uuid: "nonblank_text (js_get (removal_request keep u) ''uuid'') = (if js_trim u \<noteq> [] then Some u else None)"
  by (simp add: removal_request_def js_get_Cons nonblank_text_def)

lemma removal_clean: "json_clean (Obj (removal_request keep u))"
  by (simp add: removal_request_def)

lemma own_removal:
  assumes "js_trim u \<noteq> []" "length u \<le> 1000"
  shows "auth (fst (removeClient now (own_request (removal_request keep u)) d)) = removeAgentAuthByUuid now u (auth d)"
    "syncRevisions (fst (removeClient now (own_request (removal_request keep u)) d)) = syncRevisions d"
proof -
  have "parseJsonRequestWithLimit (own_request (removal_request keep u)) HTTP_CLIENT_META_MAX_BODY_BYTES = Inr (removal_request keep u)"
    using remove_sizes [OF assms(2)] by (intro own_request_back [OF removal_clean]) (simp add: removal_request_def)
  then show "auth (fst (removeClient now (own_request (removal_request keep u)) d)) = removeAgentAuthByUuid now u (auth d)"
    "syncRevisions (fst (removeClient now (own_request (removal_request keep u)) d)) = syncRevisions d"
    using remove_body_auth [of "removal_request keep u" u now d] assms(1) removal_uuid [of keep u]
    by (simp_all add: removeClient_def)
qed

lemma own_removal_other:
  assumes "v \<noteq> u"
  shows "ctls (auth (fst (removeClient now (own_request (removal_request keep v)) d))) u = ctls (auth d) u"
    "syncRevisions (fst (removeClient now (own_request (removal_request keep v)) d)) = syncRevisions d"
proof -
  obtain t where t: "JSON_stringify (Obj (removal_request keep v)) = Some t" "JSON_parse t = Some (Obj (removal_request keep v))"
    using json_parse_stringify [OF removal_clean] by blast
  have "ctls (auth (fst (remove_body now (removal_request keep v) d))) u = ctls (auth d) u \<and>
      syncRevisions (fst (remove_body now (removal_request keep v) d)) = syncRevisions d"
  proof (cases "js_trim v = []")
    case False
    then show ?thesis using remove_body_auth [of "removal_request keep v" v now d] removal_uuid [of keep v] assms
      by (simp add: remove_control)
  qed (simp add: remove_body_def removal_uuid)
  then show "ctls (auth (fst (removeClient now (own_request (removal_request keep v)) d))) u = ctls (auth d) u"
    "syncRevisions (fst (removeClient now (own_request (removal_request keep v)) d)) = syncRevisions d"
    by (simp_all add: removeClient_def parseJsonRequestWithLimit_def own_request_def t Let_def del: JSON_stringify.simps)
qed

subsection \<open>One synchronisation\<close>

lemma removal_forms: "own_request [(''uuid'', Str u)] = own_request (removal_request False u)"
  "own_request [(''uuid'', Str u), (''keepMetadata'', Bool True)] = own_request (removal_request True u)"
  by (simp_all add: removal_request_def)

lemma sync_apply_client:
  "\<not> sync_stale uuid revision d \<Longrightarrow>
   let d2 = withdrawn now uuid (stringField c ''token_hash'') (d\<lparr>syncRevisions := (syncRevisions d)(uuid \<mapsto> (revision, False))\<rparr>);
       d3 = fst (sync_apply dp now uuid revision (Some c) d)
   in if judge_store dp c (Some revision) (auth d2) = Write
      then auth d3 = write_credential dp c (Some revision) (auth d2) \<and> syncRevisions d3 = (syncRevisions d2)(uuid \<mapsto> (revision, True))
      else auth d3 = auth d2 \<and> syncRevisions d3 = syncRevisions d2"
proof -
  assume ns: "\<not> sync_stale uuid revision d"
  define d2 where "d2 = withdrawn now uuid (stringField c ''token_hash'') (d\<lparr>syncRevisions := (syncRevisions d)(uuid \<mapsto> (revision, False))\<rparr>)"
  have e: "sync_apply dp now uuid revision (Some c) d = (case storeAgentAuthSnapshot dp c (Some revision) (auth d2) of
      (_, False) \<Rightarrow> (d2, json_error 409 ''Newer credentials already applied'')
    | (s, True) \<Rightarrow> (let d = fst (updateClientMeta now (own_request [(''uuid'', Str uuid), (''client'', Obj c),
          (''name'', js_get c ''name''), (''hidden'', js_get c ''hidden'')]) (d2\<lparr>auth := s\<rparr>))
        in (d\<lparr>syncRevisions := (syncRevisions d)(uuid \<mapsto> (revision, True))\<rparr>, sync_response uuid revision True)))"
    using ns unfolding sync_apply_def d2_def Let_def by (simp only: if_False option.case)
  have "judge_store dp c (Some revision) s \<noteq> KeepNewer" for s
    by (simp add: judge_store_def Let_def split: option.split)
  then show ?thesis
    by (cases "judge_store dp c (Some revision) (auth d2)")
      (simp_all add: e d2_def [symmetric] storeAgentAuthSnapshot_def Let_def)
qed

lemma withdrawn_other:
  assumes "v \<noteq> u"
  shows "ctls (auth (withdrawn now v h d)) u = ctls (auth d) u" "syncRevisions (withdrawn now v h d) = syncRevisions d"
  using own_removal_other [OF assms] by (simp_all add: withdrawn_def removal_forms split: option.split)

lemma sync_other:
  assumes "v \<noteq> u" "\<And>c. client = Some c \<Longrightarrow> stringField c ''uuid'' = v"
  shows "ctls (auth (fst (sync_apply dp now v r client d))) u = ctls (auth d) u \<and>
    syncRevisions (fst (sync_apply dp now v r client d)) u = syncRevisions d u"
proof (cases "sync_stale v r d")
  case False
  show ?thesis
  proof (cases client)
    case None
    then show ?thesis using False assms(1) own_removal_other [OF assms(1)]
      by (simp add: sync_apply_def removal_forms Let_def)
  next
    case (Some c)
    then show ?thesis using sync_apply_client [OF False, of now c dp] assms(1) assms(2) [OF Some] withdrawn_other [OF assms(1)]
      by (simp add: Let_def write_credential_def split: if_splits)
  qed
qed (simp add: sync_apply_def)

lemma withdrawn_self:
  assumes "js_trim u \<noteq> []" "length u \<le> 1000"
  shows "syncRevisions (withdrawn now u h d) = syncRevisions d"
    "(case ctls (auth (withdrawn now u h d)) u of Some c \<Rightarrow> ctl_revision c | None \<Rightarrow> None) =
     (case ctls (auth d) u of Some c \<Rightarrow> ctl_revision c | None \<Rightarrow> None)"
  using own_removal [OF assms] by (simp_all add: withdrawn_def removal_forms remove_control split: option.split)

text \<open>
  What a node's credential rows look like after the newest of the messages seen so far; \<open>None\<close> means
  that no synchronisation has arrived.
\<close>

definition synced_rows ::
  "(string \<times> jsobj option) option \<Rightarrow> (string \<times> bool) option \<Rightarrow> (bool \<times> string option \<times> string option) option \<Rightarrow> bool" where
  "synced_rows best mark view = (case best of
       None \<Rightarrow> mark = None \<and> (case view of Some (_, _, rv) \<Rightarrow> rv = None | None \<Rightarrow> True)
     | Some (r, client) \<Rightarrow> is_revision r \<and> mark = Some (r, True) \<and>
         (case view of
            Some (gone, hash, rv) \<Rightarrow> (case rv of Some r' \<Rightarrow> BigInt r' \<le> BigInt r | None \<Rightarrow> True) \<and>
              (case client of None \<Rightarrow> gone | Some k \<Rightarrow> \<not> gone \<and> hash = Some (stringField k ''token_hash'') \<and> rv = Some r)
          | None \<Rightarrow> False))"

definition synced :: "string \<Rightarrow> (string \<times> jsobj option) option \<Rightarrow> live_do \<Rightarrow> bool" where
  "synced u best d = synced_rows best (syncRevisions d u) (control_view (ctls (auth d) u))"

lemmas synced_defs = synced_def synced_rows_def control_view_def

definition newer :: "(string \<times> jsobj option) option \<Rightarrow> string \<times> jsobj option \<Rightarrow> (string \<times> jsobj option) option" where
  "newer best m = (case best of None \<Rightarrow> Some m | Some b \<Rightarrow> if BigInt (fst b) < BigInt (fst m) then Some m else best)"

lemma revision_inj: "is_revision a \<Longrightarrow> is_revision b \<Longrightarrow> BigInt a = BigInt b \<Longrightarrow> a = b"
proof -
  have canon: "nat_to_str (BigInt r) = r" if "is_revision r" for r
    using that by (intro nat_to_str_digits_val) (auto simp: is_revision_def split: list.splits)
  show "is_revision a \<Longrightarrow> is_revision b \<Longrightarrow> BigInt a = BigInt b \<Longrightarrow> a = b" using canon by metis
qed

lemma synced_applied:
  assumes u: "js_trim u \<noteq> []" "length u \<le> 1000" and r: "is_revision r" and ns: "\<not> sync_stale u r d"
    and c: "\<And>k. client = Some k \<Longrightarrow> stringField k ''uuid'' = u"
    and old: "case ctls (auth d) u of Some c \<Rightarrow> (case ctl_revision c of Some r' \<Rightarrow> BigInt r' \<le> BigInt r | None \<Rightarrow> True) | None \<Rightarrow> True"
  shows "synced u (Some (r, client)) (fst (sync_apply dp now u r client d))"
proof (cases client)
  case None
  then show ?thesis using r ns old own_removal [OF u]
    by (auto simp: sync_apply_def removal_forms Let_def synced_defs remove_control split: option.splits)
next
  case (Some k)
  let ?d1 = "d\<lparr>syncRevisions := (syncRevisions d)(u \<mapsto> (r, False))\<rparr>"
  let ?d2 = "withdrawn now u (stringField k ''token_hash'') ?d1"
  have "(case ctls (auth ?d2) u of Some c \<Rightarrow> ctl_revision c | None \<Rightarrow> None) =
      (case ctls (auth d) u of Some c \<Rightarrow> ctl_revision c | None \<Rightarrow> None)"
    using withdrawn_self(2) [OF u, of now "stringField k ''token_hash''" ?d1] by simp
  then have "judge_store dp k (Some r) (auth ?d2) = Write"
    using old c [OF Some] by (auto simp: judge_store_def Let_def split: option.splits)
  then have "auth (fst (sync_apply dp now u r client d)) = write_credential dp k (Some r) (auth ?d2)"
    "syncRevisions (fst (sync_apply dp now u r client d)) = (syncRevisions ?d2)(u \<mapsto> (r, True))"
    using sync_apply_client [OF ns, of now k dp] Some by (simp_all add: Let_def)
  then show ?thesis using r c [OF Some] Some by (simp add: synced_defs write_credential_def Let_def)
qed

lemma synced_mark: "synced u best d \<Longrightarrow> syncRevisions d u = map_option (\<lambda>b. (fst b, True)) best"
  by (cases best) (auto simp: synced_defs)

lemma synced_control:
  assumes "synced u best d" "ctls (auth d) u = Some c" "ctl_revision c = Some r'"
  shows "\<exists>b. best = Some b \<and> BigInt r' \<le> BigInt (fst b)"
  using assms by (cases best) (auto simp: synced_defs)

lemma synced_step:
  assumes u: "js_trim u \<noteq> []" "length u \<le> 1000" and r: "is_revision r"
    and c: "\<And>k. client = Some k \<Longrightarrow> stringField k ''uuid'' = u" and s: "synced u best d"
  shows "synced u (newer best (r, client)) (fst (sync_apply dp now u r client d))"
proof (cases "sync_stale u r d")
  case True
  then obtain r' client' where best: "best = Some (r', client')" and le: "BigInt r \<le> BigInt r'"
    using synced_mark [OF s] by (cases best) (auto simp: sync_stale_def)
  then have "newer best (r, client) = best" by (simp add: newer_def)
  then show ?thesis using True s by (simp add: sync_apply_def)
next
  case False
  have "newer best (r, client) = Some (r, client)"
  proof (cases best)
    case (Some b)
    then have "syncRevisions d u = Some (fst b, True)" "is_revision (fst b)"
      using s synced_mark [OF s] by (auto simp: synced_defs split: prod.splits)
    then have "BigInt (fst b) \<le> BigInt r" "fst b \<noteq> r" using False by (auto simp: sync_stale_def)
    then have "BigInt (fst b) < BigInt r" using revision_inj [OF \<open>is_revision (fst b)\<close> r] by linarith
    then show ?thesis using Some by (simp add: newer_def)
  qed (simp add: newer_def)
  moreover have "case ctls (auth d) u of Some c \<Rightarrow> (case ctl_revision c of Some r' \<Rightarrow> BigInt r' \<le> BigInt r | None \<Rightarrow> True) | None \<Rightarrow> True"
    using synced_control [OF s] synced_mark [OF s] False by (fastforce simp: sync_stale_def split: option.split)
  ultimately show ?thesis using synced_applied [OF u r False c] by simp
qed

subsection \<open>Delivery in any order\<close>

text \<open>
  The requests that reach the credential rows of a node while it is administered: synchronisations,
  which the worker repeats and which may overtake each other, the unversioned snapshots written on
  the agents' behalf, and metadata changes.
\<close>

datatype auth_event = SyncE rat do_request | SnapshotE do_request | MetaE rat do_request

fun auth_step :: "(string \<Rightarrow> int option) \<Rightarrow> live_do \<Rightarrow> auth_event \<Rightarrow> live_do" where
  "auth_step dp d (SyncE now request) = fst (applyClientSynchronization dp now request d)"
| "auth_step dp d (SnapshotE request) = d\<lparr>auth := fst (upsertAgentAuthSnapshot dp request (auth d))\<rparr>"
| "auth_step dp d (MetaE now request) = fst (updateClientMeta now request d)"

definition request_message :: "do_request \<Rightarrow> (string \<times> string \<times> jsobj option) option" where
  "request_message request = (case parseJsonRequestWithLimit request HTTP_CLIENT_META_MAX_BODY_BYTES of
       Inr body \<Rightarrow> sync_message body | Inl _ \<Rightarrow> None)"

fun sync_messages :: "string \<Rightarrow> auth_event list \<Rightarrow> (string \<times> jsobj option) list" where
  "sync_messages u [] = []"
| "sync_messages u (SyncE now request # es) = (case request_message request of
     Some (v, m) \<Rightarrow> if v = u then m # sync_messages u es else sync_messages u es
   | None \<Rightarrow> sync_messages u es)"
| "sync_messages u (_ # es) = sync_messages u es"

lemma sync_message_ok: "sync_message body = Some (u, r, client) \<Longrightarrow>
    is_revision r \<and> js_trim u \<noteq> [] \<and> (\<forall>k. client = Some k \<longrightarrow> stringField k ''uuid'' = u)"
  by (auto simp: sync_message_def Let_def split: if_splits option.splits)

lemma apply_message: "fst (applyClientSynchronization dp now request d) = (case request_message request of
    Some (u, r, client) \<Rightarrow> fst (sync_apply dp now u r client d) | None \<Rightarrow> d)"
  by (simp add: applyClientSynchronization_def request_message_def split: sum.split option.split)

lemma request_message_ok: "request_message request = Some (u, r, client) \<Longrightarrow>
    is_revision r \<and> js_trim u \<noteq> [] \<and> (\<forall>k. client = Some k \<longrightarrow> stringField k ''uuid'' = u)"
  using sync_message_ok by (auto simp: request_message_def split: sum.splits)

lemma synced_frame: "synced u best d \<Longrightarrow> same_control (ctls (auth d') u) (ctls (auth d) u) \<Longrightarrow>
    syncRevisions d' u = syncRevisions d u \<Longrightarrow> synced u best d'"
  by (simp add: synced_def same_control_def)

lemma snapshot_synced:
  assumes "synced u best d"
  shows "synced u best (auth_step dp d (SnapshotE request))"
proof (cases "\<exists>c. ctls (auth d) u = Some c \<and> (ctl_removed c \<or> ctl_revision c \<noteq> None)")
  case True
  then show ?thesis using upsert_frozen [of "auth d" u] synced_frame [OF assms] by auto
next
  case False
  then have best: "best = None" using assms by (cases best) (auto simp: synced_defs split: option.splits)
  have "\<forall>c. ctls (fst (storeAgentAuthSnapshot dp client None (auth d))) u = Some c \<longrightarrow> ctl_revision c = None" for client
    using assms best
    by (cases "stringField client ''uuid'' = u")
      (auto simp: synced_defs storeAgentAuthSnapshot_def write_credential_def Let_def split: store_verdict.split option.split)
  then have "\<forall>c. ctls (fst (upsertAgentAuthSnapshot dp request (auth d))) u = Some c \<longrightarrow> ctl_revision c = None"
    using assms best by (auto simp: synced_defs upsertAgentAuthSnapshot_def split_beta split: sum.split option.split)
  then show ?thesis using assms best by (cases "ctls (fst (upsertAgentAuthSnapshot dp request (auth d))) u") (auto simp: synced_defs)
qed

lemma run_synced:
  assumes "js_trim u \<noteq> []" "length u \<le> 1000" "synced u best d"
  shows "synced u (foldl newer best (sync_messages u es)) (foldl (auth_step dp) d es)"
  using assms(3)
proof (induction es arbitrary: best d)
  case (Cons e es)
  have frame: ?case if "synced u best (auth_step dp d e)" "sync_messages u (e # es) = sync_messages u es"
    using Cons.IH [OF that(1)] that(2) by simp
  show ?case
  proof (cases e)
    case (SyncE now request)
    show ?thesis
    proof (cases "request_message request")
      case None
      then show ?thesis using frame Cons.prems SyncE by (simp add: apply_message)
    next
      case (Some m)
      obtain v r client where m: "m = (v, r, client)" by (cases m)
      note ok = request_message_ok [of request v r client]
      show ?thesis
      proof (cases "v = u")
        case True
        have "synced u (newer best (r, client)) (fst (sync_apply dp now u r client d))"
          using ok Some m True Cons.prems by (intro synced_step [OF assms(1,2)]) auto
        then show ?thesis using Cons.IH SyncE Some m True by (simp add: apply_message)
      next
        case False
        then show ?thesis
          using frame SyncE Some m sync_other [OF False, of client dp now r d] ok synced_frame [OF Cons.prems]
          by (simp add: apply_message)
      qed
    qed
  qed (use frame Cons.prems snapshot_synced synced_frame [OF Cons.prems] in auto)
qed simp

lemma newest_max:
  assumes "foldl newer best ms = Some m"
  shows "(m \<in> set ms \<or> best = Some m) \<and> (\<forall>x \<in> set ms. BigInt (fst x) \<le> BigInt (fst m)) \<and>
    (\<forall>b. best = Some b \<longrightarrow> BigInt (fst b) \<le> BigInt (fst m))"
  using assms by (induction ms arbitrary: best) (fastforce simp: newer_def split: option.splits if_splits)+

lemma synced_current:
  assumes "synced u (Some (r, client)) d" "h \<noteq> []"
  shows "isAgentCredentialCurrent u (Some h) (auth d) \<longleftrightarrow> (\<exists>k. client = Some k \<and> stringField k ''token_hash'' = h)"
proof -
  obtain c where "ctls (auth d) u = Some c" using assms(1) by (cases "ctls (auth d) u") (auto simp: synced_defs)
  then show ?thesis using assms by (cases client) (auto simp: synced_defs isAgentCredentialCurrent_def Let_def)
qed

text \<open>
  C10. Synchronisation converges. However the synchronisations of a node are delayed, reordered and
  repeated, and whatever unversioned snapshots and metadata changes arrive in between, afterwards
  exactly the credential of the highest revision is accepted: its token if that revision set one,
  none at all if it removed the node.
\<close>

theorem client_sync_converges:
  assumes "js_trim u \<noteq> []" "length u \<le> 1000" "h \<noteq> []"
    and "syncRevisions d u = None" "ctls (auth d) u = None"
    and "(r, client) \<in> set (sync_messages u es)"
    and "\<forall>(r', client') \<in> set (sync_messages u es). BigInt r' \<le> BigInt r \<and> (BigInt r' = BigInt r \<longrightarrow> client' = client)"
  shows "isAgentCredentialCurrent u (Some h) (auth (foldl (auth_step dp) d es)) \<longleftrightarrow>
    (\<exists>k. client = Some k \<and> stringField k ''token_hash'' = h)"
proof -
  have s: "synced u (foldl newer None (sync_messages u es)) (foldl (auth_step dp) d es)"
    using assms by (intro run_synced) (auto simp: synced_defs)
  have "foldl newer (Some b) ms \<noteq> None" for b ms by (induction ms arbitrary: b) (auto simp: newer_def)
  then have "foldl newer None (sync_messages u es) \<noteq> None"
    using assms(6) by (cases "sync_messages u es") (auto simp: newer_def)
  then obtain m where m: "foldl newer None (sync_messages u es) = Some m" by blast
  have "m \<in> set (sync_messages u es)" using newest_max [OF m] by simp
  then have "BigInt (fst m) \<le> BigInt r \<and> (BigInt (fst m) = BigInt r \<longrightarrow> snd m = client)"
    using bspec [OF assms(7)] by (simp add: split_beta)
  moreover have "BigInt r \<le> BigInt (fst m)" using newest_max [OF m] assms(6) by (metis fst_conv)
  ultimately have "snd m = client" by simp
  then have "synced u (Some (fst m, client)) (foldl (auth_step dp) d es)" using s m by (metis prod.collapse)
  then show ?thesis using synced_current assms(3) by blast
qed

subsection \<open>Witness\<close>

text \<open>A removal at revision 2 overtakes the token of revision 1.\<close>

definition sample_set :: jsobj where
  "sample_set = [(''uuid'', Str ''n1''), (''revision'', Str ''1''), (''client'', Obj [(''uuid'', Str ''n1''), (''token_hash'', Str ''h1'')])]"

definition sample_remove :: jsobj where
  "sample_remove = [(''uuid'', Str ''n1''), (''revision'', Str ''2''), (''client'', Null)]"

definition sample_events :: "auth_event list" where
  "sample_events = [SyncE 7 (own_request sample_remove), SyncE 8 (own_request sample_set)]"

lemma sample_bodies:
  "parseJsonRequestWithLimit (own_request sample_set) HTTP_CLIENT_META_MAX_BODY_BYTES = Inr sample_set"
  "parseJsonRequestWithLimit (own_request sample_remove) HTTP_CLIENT_META_MAX_BODY_BYTES = Inr sample_remove"
proof -
  have b: "serializedBytes v \<le> HTTP_CLIENT_META_MAX_BODY_BYTES" if "JSON_stringify v = Some t" "length t \<le> 8000" for v t
    using that utf8_size [of t] by (simp add: serializedBytes_def HTTP_CLIENT_META_MAX_BODY_BYTES_def)
  note q = json_quote_def json_escape_def cc_def
  show "parseJsonRequestWithLimit (own_request sample_set) HTTP_CLIENT_META_MAX_BODY_BYTES = Inr sample_set"
    by (rule own_request_back, simp add: sample_set_def, rule b, unfold sample_set_def, rule JSON_stringify.simps(7), simp add: q)
  show "parseJsonRequestWithLimit (own_request sample_remove) HTTP_CLIENT_META_MAX_BODY_BYTES = Inr sample_remove"
    by (rule own_request_back, simp add: sample_remove_def, rule b, unfold sample_remove_def, rule JSON_stringify.simps(7), simp add: q)
qed

lemma sample_messages: "\<exists>k. sync_messages ''n1'' sample_events = [(''2'', None), (''1'', Some k)]"
proof -
  have t: "js_trim ''n1'' = ''n1''" "js_trim ''h1'' = ''h1''" by (simp_all add: js_trim_def is_ws_def cc_def)
  have r: "is_revision ''1''" "is_revision ''2''" by (simp_all add: is_revision_def is_digit_def cc_def)
  have "request_message (own_request sample_remove) = Some (''n1'', ''2'', None)"
    using t r by (simp add: request_message_def sample_bodies) (simp add: sample_remove_def sync_message_def stringField_def js_get_Cons Let_def)
  moreover have "\<exists>k. request_message (own_request sample_set) = Some (''n1'', ''1'', Some k)"
    using t r by (simp add: request_message_def sample_bodies)
      (simp add: sample_set_def sync_message_def stringField_def js_get_Cons Let_def normalizeAgentAuthSnapshot_def)
  ultimately show ?thesis by (auto simp: sample_events_def)
qed

theorem client_sync_converges_witness:
  "\<not> isAgentCredentialCurrent ''n1'' (Some ''h1'') (auth (foldl (auth_step (\<lambda>_. None)) new_live_do sample_events))"
proof -
  obtain k where k: "sync_messages ''n1'' sample_events = [(''2'', None), (''1'', Some k)]" using sample_messages by blast
  have v: "digits_val 10 ''1'' = 1" "digits_val 10 ''2'' = 2" by (simp_all add: digits_val_def cc_def)
  show ?thesis
    using client_sync_converges [of "''n1''" "''h1''" new_live_do "''2''" None sample_events "\<lambda>_. None"]
    by (simp add: k v new_live_do_def js_trim_def is_ws_def cc_def)
qed

end
