(* ===== verification/RecordPersist.thy ===== *)
theory RecordPersist
  imports SettingsSchema MonitorReport AgentAuth
begin

section \<open>History records: cadence, capacity and compression\<close>

text \<open>
  The part of \<open>do/live-data.ts\<close> that decides which reports become rows of the history tables, with
  the helpers it calls in \<open>utils/record-persist.ts\<close>, \<open>utils/history-capacity.ts\<close> and
  \<open>utils/load-notification-window.ts\<close>. The fields of the object that belong to it, and the storage
  rows behind them, are one record; a restart of the object loses the fields and keeps the rows.
  What the database answers within one operation is an argument of it: \<open>None\<close> where the call throws.
  Rows are appended to \<open>db_records\<close>; health events to \<open>health\<close>, as component and status.
\<close>

subsection \<open>Numbers\<close>

fun num_sgn :: "jsnum \<Rightarrow> rat" where
  "num_sgn PosInf = 1"
| "num_sgn NegInf = - 1"
| "num_sgn NaN = 0"
| "num_sgn (Fin q) = sgn q"

definition inf_of :: "rat \<Rightarrow> jsnum" where
  "inf_of s = (if 0 < s then PosInf else if s < 0 then NegInf else NaN)"

fun js_mul :: "jsnum \<Rightarrow> jsnum \<Rightarrow> jsnum" where
  "js_mul (Fin a) (Fin b) = Fin (a * b)"
| "js_mul x y = inf_of (num_sgn x * num_sgn y)"

fun js_div :: "jsnum \<Rightarrow> jsnum \<Rightarrow> jsnum" where
  "js_div (Fin a) (Fin b) = (if b = 0 then inf_of (sgn a) else Fin (a / b))"
| "js_div NaN y = NaN"
| "js_div x NaN = NaN"
| "js_div (Fin a) y = Fin 0"
| "js_div x (Fin b) = inf_of (num_sgn x * (if b < 0 then - 1 else 1))"
| "js_div x y = NaN"

fun js_max :: "jsnum \<Rightarrow> jsnum \<Rightarrow> jsnum" where
  "js_max NaN y = NaN"
| "js_max x NaN = NaN"
| "js_max x y = (if js_lt x y then y else x)"

fun js_ceil :: "jsnum \<Rightarrow> jsnum" where
  "js_ceil (Fin q) = Fin (of_int \<lceil>q\<rceil>)"
| "js_ceil x = x"

fun js_round :: "jsnum \<Rightarrow> jsnum" where
  "js_round (Fin q) = Fin (of_int \<lfloor>q + 1 / 2\<rfloor>)"
| "js_round x = x"

subsection \<open>Cadence\<close>

definition RECORD_PERSIST_TOLERANCE_MAX_MS :: rat where "RECORD_PERSIST_TOLERANCE_MAX_MS = 5000"
definition RECORD_PERSIST_TOLERANCE_RATIO :: rat where "RECORD_PERSIST_TOLERANCE_RATIO = 1 / 20"

definition recordPersistToleranceMs :: "jsnum \<Rightarrow> rat" where
  "recordPersistToleranceMs intervalMs = (case intervalMs of
       Fin i \<Rightarrow> if i \<le> 0 then 0
               else min RECORD_PERSIST_TOLERANCE_MAX_MS (of_int \<lfloor>i * RECORD_PERSIST_TOLERANCE_RATIO\<rfloor>)
     | _ \<Rightarrow> 0)"

definition recordPersistThresholdMs :: "jsnum \<Rightarrow> rat" where
  "recordPersistThresholdMs intervalMs = (case intervalMs of
       Fin i \<Rightarrow> if i \<le> 0 then 0 else max 0 (i - recordPersistToleranceMs intervalMs)
     | _ \<Rightarrow> 0)"

definition isRecordPersistDue :: "jsnum \<Rightarrow> jsnum \<Rightarrow> bool" where
  "isRecordPersistDue elapsedMs intervalMs = (case elapsedMs of
       Fin e \<Rightarrow> recordPersistThresholdMs intervalMs \<le> e | _ \<Rightarrow> False)"

record load_policy =
  minimum_interval_min :: jsnum
  sample_interval_sec :: jsnum
  history_enabled :: bool

definition sample_seconds :: "rat \<Rightarrow> jsnum \<Rightarrow> jsnum" where
  "sample_seconds thresholdMs reportSeconds =
     js_mul (js_max (Fin 1) (js_ceil (js_div (Fin thresholdMs) (js_mul reportSeconds (Fin 1000))))) reportSeconds"

definition buildLoadNotificationPolicy :: "(string \<Rightarrow> url option) \<Rightarrow> (string \<rightharpoonup> string) \<Rightarrow> load_policy" where
  "buildLoadNotificationPolicy up stored =
     (let settings = buildAdminSettings up stored;
          thresholdMs = recordPersistThresholdMs (js_mul (str_to_num (setting_of settings ''record_persist_interval_sec'')) (Fin 1000));
          sampleSeconds = js_max (sample_seconds thresholdMs (str_to_num (setting_of settings ''live_poll_active_interval_sec'')))
                                 (sample_seconds thresholdMs (str_to_num (setting_of settings ''live_poll_idle_interval_sec'')))
      in \<lparr>minimum_interval_min = js_max (Fin 1) (js_ceil (js_div (js_mul (Fin 2) sampleSeconds) (Fin 60))),
          sample_interval_sec = sampleSeconds, history_enabled = (setting_of settings ''record_enabled'' = ''true'')\<rparr>)"

definition effectiveLoadNotificationIntervalMin :: "jsnum \<Rightarrow> load_policy \<Rightarrow> jsnum" where
  "effectiveLoadNotificationIntervalMin configured policy =
     js_max (minimum_interval_min policy) (if js_isFinite configured \<and> js_lt (Fin 0) configured then configured else Fin 15)"

subsection \<open>Capacity\<close>

record storage_usage =
  live_rows :: jsnum
  estimated_live_storage_bytes :: jsnum
  allocated_bytes :: jsnum

record capacity_decision =
  dec_blocked :: bool
  dec_rowRatio :: jsnum
  dec_byteRatio :: jsnum
  dec_allocatedWarning :: bool

definition evaluateHistoryCapacity :: "storage_usage \<Rightarrow> rat \<Rightarrow> rat \<Rightarrow> bool \<Rightarrow> capacity_decision" where
  "evaluateHistoryCapacity usage rowLimit byteLimit wasBlocked =
     (let rowRatio = js_div (live_rows usage) (Fin rowLimit);
          byteRatio = js_div (estimated_live_storage_bytes usage) (Fin byteLimit);
          ratio = js_max rowRatio byteRatio
      in \<lparr>dec_blocked = (\<not> js_isFinite ratio \<or> (if wasBlocked then js_lt (Fin (4 / 5)) ratio else js_le (Fin 1) ratio)),
          dec_rowRatio = rowRatio, dec_byteRatio = byteRatio,
          dec_allocatedWarning = js_le (Fin byteLimit) (allocated_bytes usage)\<rparr>)"

subsection \<open>State\<close>

definition RECORD_PERSIST_INTERVAL_MS :: rat where "RECORD_PERSIST_INTERVAL_MS = 120000"
definition PING_RECORD_PERSIST_INTERVAL_MS :: rat where "PING_RECORD_PERSIST_INTERVAL_MS = 120000"
definition MIN_RECORD_PERSIST_INTERVAL_MS :: rat where "MIN_RECORD_PERSIST_INTERVAL_MS = 3000"
definition MAX_RECORD_PERSIST_INTERVAL_MS :: rat where "MAX_RECORD_PERSIST_INTERVAL_MS = 3600000"
definition MIN_PING_RECORD_PERSIST_INTERVAL_MS :: rat where "MIN_PING_RECORD_PERSIST_INTERVAL_MS = 60000"
definition MAX_PING_RECORD_PERSIST_INTERVAL_MS :: rat where "MAX_PING_RECORD_PERSIST_INTERVAL_MS = 3600000"
definition RECORD_SETTING_CACHE_MS :: rat where "RECORD_SETTING_CACHE_MS = 30000"
definition RECORD_HIGH_WATERMARK_DEFAULT_ROWS :: rat where "RECORD_HIGH_WATERMARK_DEFAULT_ROWS = 700000"
definition RECORD_HIGH_WATERMARK_MIN_ROWS :: rat where "RECORD_HIGH_WATERMARK_MIN_ROWS = 1000"
definition RECORD_HIGH_WATERMARK_MAX_ROWS :: rat where "RECORD_HIGH_WATERMARK_MAX_ROWS = 10000000"
definition RECORD_HIGH_WATERMARK_DEFAULT_BYTES :: rat where "RECORD_HIGH_WATERMARK_DEFAULT_BYTES = 419430400"
definition RECORD_HIGH_WATERMARK_MIN_BYTES :: rat where "RECORD_HIGH_WATERMARK_MIN_BYTES = 16777216"
definition RECORD_HIGH_WATERMARK_MAX_BYTES :: rat where "RECORD_HIGH_WATERMARK_MAX_BYTES = 549755813888"
definition RECORD_CAPACITY_CACHE_FAR_MS :: rat where "RECORD_CAPACITY_CACHE_FAR_MS = 6 * 60 * 60000"
definition RECORD_CAPACITY_CACHE_NEAR_MS :: rat where "RECORD_CAPACITY_CACHE_NEAR_MS = 10 * 60000"
definition RECORD_CAPACITY_CACHE_CRITICAL_MS :: rat where "RECORD_CAPACITY_CACHE_CRITICAL_MS = 60000"
definition RECORD_CAPACITY_AUDIT_THROTTLE_MS :: rat where "RECORD_CAPACITY_AUDIT_THROTTLE_MS = 10 * 60 * 1000"
definition HOT_PATH_HEALTH_OK_THROTTLE_MS :: rat where "HOT_PATH_HEALTH_OK_THROTTLE_MS = 60 * 60 * 1000"
definition GPU_SNAPSHOT_UNCHANGED_HEARTBEAT_MS :: rat where "GPU_SNAPSHOT_UNCHANGED_HEARTBEAT_MS = 30 * 60000"

record ping_state =
  lastAcceptedMs :: rat
  pvalue :: "rat option"
  persistedAt :: "rat option"

record persist_do =
  recordPersistenceEnabled :: bool
  recordPersistIntervalMs :: rat
  pingRecordPersistIntervalMs :: rat
  recordPersistenceCheckedAt :: rat
  recordHighWatermarkRows :: rat
  recordHighWatermarkBytes :: rat
  recordCapacityBytes :: jsnum
  recordCapacityNextCheckAt :: rat
  recordCapacityRows :: jsnum
  recordCapacityBlocked :: bool
  recordCapacityLastAuditAt :: rat
  healthOkLastWriteAt :: "string \<rightharpoonup> rat"
  recordLastPersistAt :: "string \<rightharpoonup> rat"
  recordWritesInFlight :: "string list"
  pingResultStateCache :: "string \<rightharpoonup> ping_state"
  st_persist :: "string \<rightharpoonup> rat"
  st_capacity :: jsval
  st_gpu :: "string \<rightharpoonup> string \<times> rat"
  st_ping :: "string \<rightharpoonup> jsval"
  db_records :: "(string \<times> rat \<times> monitor_record) list"
  db_gpu :: "(string \<times> rat \<times> jsval) list"
  db_pings :: "(string \<times> rat \<times> (int \<times> rat) list) list"
  health :: "(string \<times> string) list"

text \<open>The constructor: the initial values of the fields over the rows in storage.\<close>

definition restarted :: "persist_do \<Rightarrow> persist_do" where
  "restarted d = \<lparr>recordPersistenceEnabled = True, recordPersistIntervalMs = RECORD_PERSIST_INTERVAL_MS,
     pingRecordPersistIntervalMs = PING_RECORD_PERSIST_INTERVAL_MS, recordPersistenceCheckedAt = 0,
     recordHighWatermarkRows = RECORD_HIGH_WATERMARK_DEFAULT_ROWS, recordHighWatermarkBytes = RECORD_HIGH_WATERMARK_DEFAULT_BYTES,
     recordCapacityBytes = Fin 0, recordCapacityNextCheckAt = 0, recordCapacityRows = Fin 0, recordCapacityBlocked = False,
     recordCapacityLastAuditAt = 0, healthOkLastWriteAt = Map.empty, recordLastPersistAt = Map.empty, recordWritesInFlight = [],
     pingResultStateCache = Map.empty, st_persist = st_persist d, st_capacity = st_capacity d, st_gpu = st_gpu d, st_ping = st_ping d,
     db_records = db_records d, db_gpu = db_gpu d, db_pings = db_pings d, health = health d\<rparr>"

definition health_event :: "string \<Rightarrow> string \<Rightarrow> persist_do \<Rightarrow> persist_do" where
  "health_event component status d = d\<lparr>health := health d @ [(component, status)]\<rparr>"

text \<open>What one operation is given: whether a database is configured, and what each call of it answers.\<close>

record persist_env =
  env_database :: bool
  env_url :: "string \<Rightarrow> url option"
  env_settings :: "(string \<rightharpoonup> string) option"
  env_usage :: "storage_usage option"
  env_insertRecord :: bool
  env_insertGPU :: bool
  env_tasks :: "ping_task list option"
  env_insertPing :: bool
  env_iso :: "rat \<Rightarrow> string"
  env_localeLe :: "string \<Rightarrow> string \<Rightarrow> bool"

subsection \<open>Settings\<close>

definition bounded_setting :: "jsnum \<Rightarrow> rat \<Rightarrow> rat \<Rightarrow> rat \<Rightarrow> rat" where
  "bounded_setting x lo hi fallback = (case x of Fin q \<Rightarrow> min (max (of_int \<lfloor>q\<rfloor>) lo) hi | _ \<Rightarrow> fallback)"

definition load_settings :: "(string \<times> string) list \<Rightarrow> (string \<Rightarrow> url option) \<Rightarrow> persist_do \<Rightarrow> persist_do" where
  "load_settings settings up d =
     (let num = (\<lambda>key. str_to_num (setting_of settings key))
      in d\<lparr>recordPersistenceEnabled := isRecordPersistenceEnabled up (map_of settings ''record_enabled''),
           recordPersistIntervalMs :=
             min (max (bounded_setting (num ''record_persist_interval_sec'') 3 3600 (RECORD_PERSIST_INTERVAL_MS / 1000) * 1000)
                      MIN_RECORD_PERSIST_INTERVAL_MS) MAX_RECORD_PERSIST_INTERVAL_MS,
           pingRecordPersistIntervalMs :=
             min (max (bounded_setting (num ''ping_record_persist_interval_sec'') 60 3600 (PING_RECORD_PERSIST_INTERVAL_MS / 1000) * 1000)
                      MIN_PING_RECORD_PERSIST_INTERVAL_MS) MAX_PING_RECORD_PERSIST_INTERVAL_MS,
           recordHighWatermarkRows := bounded_setting (num ''record_high_watermark_rows'')
             RECORD_HIGH_WATERMARK_MIN_ROWS RECORD_HIGH_WATERMARK_MAX_ROWS RECORD_HIGH_WATERMARK_DEFAULT_ROWS,
           recordHighWatermarkBytes := bounded_setting (num ''record_high_watermark_bytes'')
             RECORD_HIGH_WATERMARK_MIN_BYTES RECORD_HIGH_WATERMARK_MAX_BYTES RECORD_HIGH_WATERMARK_DEFAULT_BYTES\<rparr>)"

definition do_isRecordPersistenceEnabled :: "persist_env \<Rightarrow> rat \<Rightarrow> bool \<Rightarrow> persist_do \<Rightarrow> persist_do \<times> bool" where
  "do_isRecordPersistenceEnabled e now forceRefresh d =
     (if \<not> env_database e then (d, False)
      else if \<not> forceRefresh \<and> now - recordPersistenceCheckedAt d < RECORD_SETTING_CACHE_MS then (d, recordPersistenceEnabled d)
      else (let d' = (case env_settings e of
                 Some stored \<Rightarrow> load_settings (buildAdminSettings (env_url e) stored) (env_url e) d
               | None \<Rightarrow> health_event ''do_record_persistence'' ''error'' d)
            in (d'\<lparr>recordPersistenceCheckedAt := now\<rparr>, recordPersistenceEnabled d')))"

subsection \<open>The capacity gate\<close>

definition capacityCheckDelayMs :: "persist_do \<Rightarrow> rat" where
  "capacityCheckDelayMs d =
     (if recordCapacityBlocked d then RECORD_CAPACITY_CACHE_CRITICAL_MS
      else if recordHighWatermarkRows d \<le> 0 \<or> recordHighWatermarkBytes d \<le> 0 then RECORD_CAPACITY_CACHE_NEAR_MS
      else (let ratio = js_max (js_div (recordCapacityRows d) (Fin (recordHighWatermarkRows d)))
                               (js_div (recordCapacityBytes d) (Fin (recordHighWatermarkBytes d)))
            in if js_le (Fin (19 / 20)) ratio then RECORD_CAPACITY_CACHE_CRITICAL_MS
               else if js_le (Fin (4 / 5)) ratio then RECORD_CAPACITY_CACHE_NEAR_MS
               else RECORD_CAPACITY_CACHE_FAR_MS))"

record capacity_snapshot =
  cap_rows :: rat
  cap_bytes :: rat
  cap_blocked :: bool
  cap_checkedAt :: rat
  cap_nextCheckAt :: rat
  cap_limitRows :: rat
  cap_limitBytes :: rat

definition finite_Number :: "jsval \<Rightarrow> rat option" where
  "finite_Number v = (case js_Number v of Fin q \<Rightarrow> Some q | _ \<Rightarrow> None)"

definition MEASUREMENT :: string where "MEASUREMENT = ''live-row-bytes-plus-index-estimate''"

definition normalizeRecordCapacitySnapshot :: "jsval \<Rightarrow> capacity_snapshot option" where
  "normalizeRecordCapacitySnapshot raw = (case raw of
       Obj v \<Rightarrow>
         (if js_get v ''measurement'' \<noteq> Str MEASUREMENT then None
          else case (finite_Number (js_get v ''rows''), finite_Number (js_get v ''bytes''), finite_Number (js_get v ''checkedAt''),
                     finite_Number (js_get v ''nextCheckAt''), finite_Number (js_get v ''highWatermarkRows''),
                     finite_Number (js_get v ''highWatermarkBytes'')) of
              (Some rows, Some bytes, Some checkedAt, Some nextCheckAt, Some limitRows, Some limitBytes) \<Rightarrow>
                if rows < 0 \<or> bytes < 0 \<or> limitBytes < RECORD_HIGH_WATERMARK_MIN_BYTES \<or> RECORD_HIGH_WATERMARK_MAX_BYTES < limitBytes
                   \<or> checkedAt \<le> 0 \<or> nextCheckAt \<le> checkedAt
                   \<or> limitRows < RECORD_HIGH_WATERMARK_MIN_ROWS \<or> RECORD_HIGH_WATERMARK_MAX_ROWS < limitRows then None
                else Some \<lparr>cap_rows = rows, cap_bytes = bytes, cap_blocked = js_truthy (js_get v ''blocked''), cap_checkedAt = checkedAt,
                       cap_nextCheckAt = nextCheckAt, cap_limitRows = limitRows, cap_limitBytes = limitBytes\<rparr>
            | _ \<Rightarrow> None)
     | _ \<Rightarrow> None)"

definition applyRecordCapacitySnapshot :: "capacity_snapshot \<Rightarrow> persist_do \<Rightarrow> persist_do" where
  "applyRecordCapacitySnapshot s d = d\<lparr>recordCapacityRows := Fin (cap_rows s), recordCapacityBytes := Fin (cap_bytes s),
     recordCapacityBlocked := cap_blocked s, recordCapacityNextCheckAt := cap_nextCheckAt s\<rparr>"

definition same_limits :: "capacity_snapshot \<Rightarrow> persist_do \<Rightarrow> bool" where
  "same_limits s d \<longleftrightarrow> cap_limitRows s = recordHighWatermarkRows d \<and> cap_limitBytes s = recordHighWatermarkBytes d"

definition isReusableRecordCapacitySnapshot :: "capacity_snapshot \<Rightarrow> rat \<Rightarrow> persist_do \<Rightarrow> bool" where
  "isReusableRecordCapacitySnapshot s now d \<longleftrightarrow> same_limits s d \<and> now < cap_nextCheckAt s"

definition readReusableRecordCapacitySnapshot :: "rat \<Rightarrow> persist_do \<Rightarrow> persist_do \<times> capacity_snapshot option" where
  "readReusableRecordCapacitySnapshot now d = (case normalizeRecordCapacitySnapshot (st_capacity d) of
       None \<Rightarrow> (d, None)
     | Some s \<Rightarrow> (if same_limits s d then d\<lparr>recordCapacityBlocked := cap_blocked s\<rparr> else d,
                  if isReusableRecordCapacitySnapshot s now d then Some s else None))"

definition writeRecordCapacitySnapshot :: "rat \<Rightarrow> persist_do \<Rightarrow> persist_do" where
  "writeRecordCapacitySnapshot now d = d\<lparr>st_capacity := Obj
     [(''measurement'', Str MEASUREMENT), (''rows'', Num (recordCapacityRows d)), (''bytes'', Num (recordCapacityBytes d)),
      (''blocked'', Bool (recordCapacityBlocked d)), (''checkedAt'', Num (Fin now)), (''nextCheckAt'', Num (Fin (recordCapacityNextCheckAt d))),
      (''highWatermarkRows'', Num (Fin (recordHighWatermarkRows d))), (''highWatermarkBytes'', Num (Fin (recordHighWatermarkBytes d)))]\<rparr>"

definition invalidateRecordCapacityMemorySnapshot :: "persist_do \<Rightarrow> persist_do" where
  "invalidateRecordCapacityMemorySnapshot d = d\<lparr>recordCapacityNextCheckAt := 0, recordCapacityRows := Fin 0,
     recordCapacityBytes := Fin 0, recordCapacityBlocked := False\<rparr>"

definition measure_capacity :: "storage_usage \<Rightarrow> rat \<Rightarrow> persist_do \<Rightarrow> persist_do" where
  "measure_capacity usage now d =
     (let d1 = d\<lparr>recordCapacityRows := live_rows usage, recordCapacityBytes := estimated_live_storage_bytes usage,
                 recordCapacityBlocked := dec_blocked (evaluateHistoryCapacity usage (recordHighWatermarkRows d)
                                            (recordHighWatermarkBytes d) (recordCapacityBlocked d))\<rparr>;
          d2 = d1\<lparr>recordCapacityNextCheckAt := now + capacityCheckDelayMs d1\<rparr>;
          d3 = writeRecordCapacitySnapshot now d2
      in if recordCapacityBlocked d3 \<and> RECORD_CAPACITY_AUDIT_THROTTLE_MS \<le> now - recordCapacityLastAuditAt d3
         then health_event ''do_record_persistence'' ''error'' (d3\<lparr>recordCapacityLastAuditAt := now\<rparr>)
         else d3)"

definition canPersistWithinCapacity :: "persist_env \<Rightarrow> rat \<Rightarrow> persist_do \<Rightarrow> persist_do \<times> bool" where
  "canPersistWithinCapacity e now d =
     (if \<not> env_database e then (d, False)
      else if now < recordCapacityNextCheckAt d then (d, \<not> recordCapacityBlocked d)
      else case readReusableRecordCapacitySnapshot now d of
          (d1, Some s) \<Rightarrow> (let d2 = applyRecordCapacitySnapshot s d1 in (d2, \<not> recordCapacityBlocked d2))
        | (d1, None) \<Rightarrow>
            (let d2 = (case env_usage e of
                 Some usage \<Rightarrow> measure_capacity usage now d1
               | None \<Rightarrow> health_event ''do_record_persistence'' ''error''
                            (d1\<lparr>recordCapacityNextCheckAt := now + RECORD_CAPACITY_CACHE_NEAR_MS\<rparr>))
             in (d2, \<not> recordCapacityBlocked d2)))"

subsection \<open>Reports\<close>

definition last_persist :: "string \<Rightarrow> persist_do \<Rightarrow> rat" where
  "last_persist clientId d = (case recordLastPersistAt d clientId of
       Some t \<Rightarrow> t | None \<Rightarrow> (case st_persist d clientId of Some t \<Rightarrow> t | None \<Rightarrow> 0))"

definition isPersistDue :: "string \<Rightarrow> rat \<Rightarrow> persist_do \<Rightarrow> persist_do \<times> bool" where
  "isPersistDue clientId now d =
     (d\<lparr>recordLastPersistAt := (recordLastPersistAt d)(clientId \<mapsto> last_persist clientId d)\<rparr>,
      isRecordPersistDue (Fin (now - last_persist clientId d)) (Fin (recordPersistIntervalMs d)))"

definition markPersistSuccess :: "string \<Rightarrow> rat \<Rightarrow> persist_do \<Rightarrow> persist_do" where
  "markPersistSuccess clientId now d = d\<lparr>st_persist := (st_persist d)(clientId \<mapsto> now),
     recordLastPersistAt := (recordLastPersistAt d)(clientId \<mapsto> now)\<rparr>"

definition recordHotPathHealthOk :: "string \<Rightarrow> rat \<Rightarrow> persist_env \<Rightarrow> persist_do \<Rightarrow> persist_do" where
  "recordHotPathHealthOk component now e d =
     (if now - (case healthOkLastWriteAt d component of Some t \<Rightarrow> t | None \<Rightarrow> 0) < HOT_PATH_HEALTH_OK_THROTTLE_MS then d
      else (let d' = d\<lparr>healthOkLastWriteAt := (healthOkLastWriteAt d)(component \<mapsto> now)\<rparr>
            in if env_database e then health_event component ''ok'' d' else d'))"

subsubsection \<open>GPU samples\<close>

definition GPU_UTILIZATION_BUCKET_PERCENT :: rat where "GPU_UTILIZATION_BUCKET_PERCENT = 5"
definition GPU_TEMPERATURE_BUCKET_C :: rat where "GPU_TEMPERATURE_BUCKET_C = 2"
definition GPU_MEMORY_BUCKET_MIN_UNITS :: rat where "GPU_MEMORY_BUCKET_MIN_UNITS = 64"
definition GPU_MEMORY_BUCKET_RATIO :: rat where "GPU_MEMORY_BUCKET_RATIO = 1 / 100"

definition gpu_device :: "nat \<Rightarrow> jsval \<Rightarrow> jsobj" where
  "gpu_device index device =
     (let value = (case device of Obj v \<Rightarrow> v | _ \<Rightarrow> []);
          or0 = (\<lambda>key. js_Number (js_or (js_get value key) (Num (Fin 0))));
          memTotal = or0 ''mem_total'';
          memBucketSize = js_max (js_mul memTotal (Fin GPU_MEMORY_BUCKET_RATIO)) (Fin GPU_MEMORY_BUCKET_MIN_UNITS)
      in [(''i'', Num (js_Number (js_nullish (js_get value ''device_index'') (Num (Fin (of_nat index)))))),
          (''n'', Str (take 64 (js_String (js_or (js_get value ''device_name'') (Str []))))),
          (''mt'', Num (js_round (js_div memTotal (Fin GPU_MEMORY_BUCKET_MIN_UNITS)))),
          (''mu'', Num (js_round (js_div (or0 ''mem_used'') memBucketSize))),
          (''u'', Num (js_round (js_div (or0 ''utilization'') (Fin GPU_UTILIZATION_BUCKET_PERCENT)))),
          (''t'', Num (js_round (js_div (or0 ''temperature'') (Fin GPU_TEMPERATURE_BUCKET_C))))])"

text \<open>
  The comparator of the source sorts by index and then by \<open>localeCompare\<close>, a parameter; its sort is stable.
\<close>

definition gpu_le :: "(string \<Rightarrow> string \<Rightarrow> bool) \<Rightarrow> jsobj \<Rightarrow> jsobj \<Rightarrow> bool" where
  "gpu_le localeLe a b =
     (let ia = js_Number (js_get a ''i''); ib = js_Number (js_get b ''i'')
      in if js_lt ia ib then True else if js_lt ib ia then False
         else localeLe (js_String (js_get a ''n'')) (js_String (js_get b ''n'')))"

fun insert_by :: "('a \<Rightarrow> 'a \<Rightarrow> bool) \<Rightarrow> 'a \<Rightarrow> 'a list \<Rightarrow> 'a list" where
  "insert_by le x [] = [x]"
| "insert_by le x (y # ys) = (if le x y then x # y # ys else y # insert_by le x ys)"

definition sort_by :: "('a \<Rightarrow> 'a \<Rightarrow> bool) \<Rightarrow> 'a list \<Rightarrow> 'a list" where
  "sort_by le xs = foldr (insert_by le) xs []"

definition gpuSnapshotSignature :: "(string \<Rightarrow> string \<Rightarrow> bool) \<Rightarrow> jsval \<Rightarrow> string option" where
  "gpuSnapshotSignature localeLe gpus = (case gpus of
       Arr (g # gs) \<Rightarrow> JSON_stringify (Arr (map Obj (sort_by (gpu_le localeLe)
                         (map (\<lambda>(index, device). gpu_device index device) (enumerate 0 (g # gs))))))
     | _ \<Rightarrow> None)"

definition shouldPersistGPUSnapshot :: "(string \<Rightarrow> string \<Rightarrow> bool) \<Rightarrow> string \<Rightarrow> jsval \<Rightarrow> rat \<Rightarrow> persist_do \<Rightarrow> string option" where
  "shouldPersistGPUSnapshot localeLe clientId gpus nowMs d = (case gpuSnapshotSignature localeLe gpus of
       None \<Rightarrow> None
     | Some signature \<Rightarrow> (case st_gpu d clientId of
           Some (sig, persisted) \<Rightarrow> if sig \<noteq> signature \<or> GPU_SNAPSHOT_UNCHANGED_HEARTBEAT_MS \<le> nowMs - persisted then Some signature else None
         | None \<Rightarrow> Some signature))"

definition markGPUSnapshotPersisted :: "string \<Rightarrow> string \<Rightarrow> rat \<Rightarrow> persist_do \<Rightarrow> persist_do" where
  "markGPUSnapshotPersisted clientId signature nowMs d = d\<lparr>st_gpu := (st_gpu d)(clientId \<mapsto> (signature, nowMs))\<rparr>"

subsubsection \<open>Writing a report\<close>

definition not_a_report :: "jsobj \<Rightarrow> bool" where
  "not_a_report report \<longleftrightarrow> js_get report ''type'' \<in> set [Str ''ping'', Str ''pong'', Str ''ping_result'']"

text \<open>Everything a write waits for before its row is inserted, and the insertion with what follows it.\<close>

definition persist_ready :: "persist_env \<Rightarrow> string \<Rightarrow> jsobj \<Rightarrow> rat \<Rightarrow> bool \<Rightarrow> persist_do \<Rightarrow> persist_do \<times> bool" where
  "persist_ready e clientId report nowMs force d =
     (if \<not> env_database e \<or> not_a_report report then (d, False)
      else case do_isRecordPersistenceEnabled e nowMs False d of
          (d1, False) \<Rightarrow> (d1, False)
        | (d1, True) \<Rightarrow> (case (if force then (d1, True) else isPersistDue clientId nowMs d1) of
              (d2, False) \<Rightarrow> (d2, False)
            | (d2, True) \<Rightarrow> canPersistWithinCapacity e nowMs d2))"

definition persist_gpus :: "persist_env \<Rightarrow> string \<Rightarrow> jsval \<Rightarrow> rat \<Rightarrow> persist_do \<Rightarrow> persist_do option" where
  "persist_gpus e clientId gpus nowMs d = (case shouldPersistGPUSnapshot (env_localeLe e) clientId gpus nowMs d of
       None \<Rightarrow> Some d
     | Some signature \<Rightarrow>
         if env_insertGPU e
         then Some (markGPUSnapshotPersisted clientId signature nowMs (d\<lparr>db_gpu := db_gpu d @ [(clientId, nowMs, gpus)]\<rparr>))
         else None)"

definition persist_write :: "persist_env \<Rightarrow> string \<Rightarrow> jsobj \<Rightarrow> rat \<Rightarrow> bool \<Rightarrow> persist_do \<Rightarrow> persist_do \<times> bool" where
  "persist_write e clientId report nowMs force d =
     (let normalizedReport = normalizeMonitorReport (Obj report);
          record = toMonitorRecord clientId (env_iso e nowMs) (Obj normalizedReport)
      in if \<not> env_insertRecord e then (health_event ''do_record_persistence'' ''error'' d, False)
         else (let d1 = d\<lparr>db_records := db_records d @ [(clientId, nowMs, record)]\<rparr>;
                   d2 = (if force then d1 else markPersistSuccess clientId nowMs d1)
               in case persist_gpus e clientId (js_get normalizedReport ''gpus'') nowMs d2 of
                   Some d3 \<Rightarrow> (recordHotPathHealthOk ''do_record_persistence'' nowMs e d3, True)
                 | None \<Rightarrow> (health_event ''do_record_persistence'' ''error'' d2, False)))"

definition persistReservedReport :: "persist_env \<Rightarrow> string \<Rightarrow> jsobj \<Rightarrow> rat \<Rightarrow> bool \<Rightarrow> persist_do \<Rightarrow> persist_do \<times> bool" where
  "persistReservedReport e clientId report nowMs force d = (case persist_ready e clientId report nowMs force d of
       (d1, False) \<Rightarrow> (d1, False) | (d1, True) \<Rightarrow> persist_write e clientId report nowMs force d1)"

definition reserve :: "string \<Rightarrow> persist_do \<Rightarrow> persist_do" where
  "reserve clientId d = d\<lparr>recordWritesInFlight := clientId # recordWritesInFlight d\<rparr>"

definition release :: "string \<Rightarrow> persist_do \<Rightarrow> persist_do" where
  "release clientId d = d\<lparr>recordWritesInFlight := removeAll clientId (recordWritesInFlight d)\<rparr>"

definition persistReport :: "persist_env \<Rightarrow> string \<Rightarrow> jsobj \<Rightarrow> rat \<Rightarrow> bool \<Rightarrow> persist_do \<Rightarrow> persist_do \<times> bool" where
  "persistReport e clientId report nowMs force d =
     (if clientId \<in> set (recordWritesInFlight d) then (d, False)
      else case persistReservedReport e clientId report nowMs force (reserve clientId d) of (d', ok) \<Rightarrow> (release clientId d', ok))"

fun persistReportsSequential :: "string \<Rightarrow> (persist_env \<times> jsobj \<times> rat) list \<Rightarrow> persist_do \<Rightarrow> persist_do" where
  "persistReportsSequential clientId [] d = d"
| "persistReportsSequential clientId ((e, report, reportTime) # items) d =
     persistReportsSequential clientId items (fst (persistReport e clientId report reportTime False d))"

text \<open>\<open>/record-settings-refresh\<close>.\<close>

definition record_settings_refresh :: "persist_env \<Rightarrow> rat \<Rightarrow> persist_do \<Rightarrow> persist_do" where
  "record_settings_refresh e now d = invalidateRecordCapacityMemorySnapshot (fst (do_isRecordPersistenceEnabled e now True d))"

subsection \<open>The distance between two rows\<close>

text \<open>
  Operations wait for the database, and others run meanwhile. A report that has passed every check of
  \<open>persist_ready\<close> is a job until its insertion has been answered; the reservation of its node is held
  throughout. A restart of the object drops the jobs whose insertion has not been sent.
\<close>

datatype persist_event =
    ReportE persist_env string jsobj rat
  | InsertedE persist_env string
  | RefreshE persist_env rat
  | RestartE

type_synonym job = "string \<times> jsobj \<times> rat"

fun persist_step :: "persist_event \<Rightarrow> persist_do \<times> job list \<Rightarrow> persist_do \<times> job list" where
  "persist_step (ReportE e c report now) (d, jobs) =
     (if c \<in> set (recordWritesInFlight d) then (d, jobs)
      else case persist_ready e c report now False (reserve c d) of
          (d1, False) \<Rightarrow> (release c d1, jobs) | (d1, True) \<Rightarrow> (d1, jobs @ [(c, report, now)]))"
| "persist_step (InsertedE e c) (d, jobs) = (case map_of jobs c of
       None \<Rightarrow> (d, jobs)
     | Some (report, now) \<Rightarrow> (release c (fst (persist_write e c report now False d)), filter (\<lambda>j. fst j \<noteq> c) jobs))"
| "persist_step (RefreshE e now) (d, jobs) = (record_settings_refresh e now d, jobs)"
| "persist_step RestartE (d, jobs) = (restarted d, [])"

definition new_persist_do :: persist_do where
  "new_persist_do = restarted \<lparr>recordPersistenceEnabled = True, recordPersistIntervalMs = 0,
     pingRecordPersistIntervalMs = 0, recordPersistenceCheckedAt = 0,
     recordHighWatermarkRows = 0, recordHighWatermarkBytes = 0,
     recordCapacityBytes = Fin 0, recordCapacityNextCheckAt = 0, recordCapacityRows = Fin 0, recordCapacityBlocked = False,
     recordCapacityLastAuditAt = 0, healthOkLastWriteAt = Map.empty, recordLastPersistAt = Map.empty, recordWritesInFlight = [],
     pingResultStateCache = Map.empty, st_persist = Map.empty, st_capacity = Undef, st_gpu = Map.empty, st_ping = Map.empty,
     db_records = [], db_gpu = [], db_pings = [], health = []\<rparr>"

definition record_times :: "string \<Rightarrow> persist_do \<Rightarrow> rat list" where
  "record_times c d = map (fst \<circ> snd) (filter (\<lambda>r. fst r = c) (db_records d))"


lemma threshold_bound:
  assumes "3000 \<le> i"
  shows "i * (19 / 20) \<le> recordPersistThresholdMs (Fin i)" "2850 \<le> recordPersistThresholdMs (Fin i)"
proof -
  have "recordPersistToleranceMs (Fin i) \<le> of_int \<lfloor>i * (1 / 20)\<rfloor>"
    using assms by (simp add: recordPersistToleranceMs_def RECORD_PERSIST_TOLERANCE_RATIO_def)
  also have "\<dots> \<le> i * (1 / 20)" by (rule of_int_floor_le)
  finally have "i * (19 / 20) \<le> i - recordPersistToleranceMs (Fin i)" by simp
  then show "i * (19 / 20) \<le> recordPersistThresholdMs (Fin i)"
    using assms by (simp add: recordPersistThresholdMs_def)
  then show "2850 \<le> recordPersistThresholdMs (Fin i)" using assms by simp
qed

text \<open>The rows, the durable marks and the reservations: only the write of a report changes them.\<close>

definition durable :: "persist_do \<Rightarrow> (string \<rightharpoonup> rat) \<times> (string \<times> rat \<times> monitor_record) list \<times> string list" where
  "durable d = (st_persist d, db_records d, recordWritesInFlight d)"

definition stored_mark :: "persist_do \<Rightarrow> string \<Rightarrow> rat" where
  "stored_mark d c = (case st_persist d c of Some t \<Rightarrow> t | None \<Rightarrow> 0)"

definition marks_ok :: "persist_do \<Rightarrow> bool" where
  "marks_ok d \<longleftrightarrow> 3000 \<le> recordPersistIntervalMs d \<and> (\<forall>c t. recordLastPersistAt d c = Some t \<longrightarrow> t = stored_mark d c)"

lemma health_event_view [simp]: "durable (health_event c s d) = durable d" "marks_ok (health_event c s d) = marks_ok d"
  "recordPersistIntervalMs (health_event c s d) = recordPersistIntervalMs d" "recordLastPersistAt (health_event c s d) = recordLastPersistAt d"
  by (simp_all add: health_event_def durable_def marks_ok_def stored_mark_def)

lemma enabled_view:
  "durable (fst (do_isRecordPersistenceEnabled e now f d)) = durable d"
  "marks_ok d \<Longrightarrow> marks_ok (fst (do_isRecordPersistenceEnabled e now f d))"
  by (auto simp: do_isRecordPersistenceEnabled_def load_settings_def durable_def health_event_def marks_ok_def stored_mark_def
      MIN_RECORD_PERSIST_INTERVAL_MS_def MAX_RECORD_PERSIST_INTERVAL_MS_def Let_def split: option.splits)

lemma read_capacity_view:
  "durable (fst (readReusableRecordCapacitySnapshot now d)) = durable d"
  "marks_ok (fst (readReusableRecordCapacitySnapshot now d)) = marks_ok d"
  by (auto simp: readReusableRecordCapacitySnapshot_def durable_def marks_ok_def stored_mark_def split: option.splits)

lemma measure_view: "durable (measure_capacity u now d) = durable d" "marks_ok (measure_capacity u now d) = marks_ok d"
  by (simp_all add: measure_capacity_def writeRecordCapacitySnapshot_def durable_def marks_ok_def stored_mark_def health_event_def Let_def)

lemma capacity_view:
  "durable (fst (canPersistWithinCapacity e now d)) = durable d"
  "marks_ok d \<Longrightarrow> marks_ok (fst (canPersistWithinCapacity e now d))"
proof -
  obtain d1 r where r: "readReusableRecordCapacitySnapshot now d = (d1, r)" by fastforce
  have d1: "durable d1 = durable d" "marks_ok d1 = marks_ok d" using read_capacity_view [of now d] by (simp_all add: r)
  have next_check: "durable (d1\<lparr>recordCapacityNextCheckAt := t\<rparr>) = durable d1" "marks_ok (d1\<lparr>recordCapacityNextCheckAt := t\<rparr>) = marks_ok d1" for t
    by (simp_all add: durable_def marks_ok_def stored_mark_def)
  have apply_snapshot: "durable (applyRecordCapacitySnapshot s d1) = durable d1" "marks_ok (applyRecordCapacitySnapshot s d1) = marks_ok d1" for s
    by (simp_all add: applyRecordCapacitySnapshot_def durable_def marks_ok_def stored_mark_def)
  show "durable (fst (canPersistWithinCapacity e now d)) = durable d"
    by (simp add: canPersistWithinCapacity_def r d1 next_check apply_snapshot measure_view Let_def split: option.split)
  show "marks_ok (fst (canPersistWithinCapacity e now d))" if "marks_ok d"
    using that by (simp add: canPersistWithinCapacity_def r d1 next_check apply_snapshot measure_view Let_def split: option.split)
qed

lemma due_view:
  "durable (fst (isPersistDue c now d)) = durable d"
  "marks_ok d \<Longrightarrow> marks_ok (fst (isPersistDue c now d))"
  "marks_ok d \<Longrightarrow> snd (isPersistDue c now d) \<Longrightarrow> stored_mark d c + 2850 \<le> now"
proof -
  show "durable (fst (isPersistDue c now d)) = durable d" by (simp add: isPersistDue_def durable_def)
  assume m: "marks_ok d"
  have l: "last_persist c d = stored_mark d c"
    using m by (cases "recordLastPersistAt d c") (simp_all add: last_persist_def marks_ok_def, simp add: stored_mark_def)
  show "marks_ok (fst (isPersistDue c now d))" using m by (simp add: isPersistDue_def l marks_ok_def stored_mark_def)
  assume "snd (isPersistDue c now d)"
  then have "recordPersistThresholdMs (Fin (recordPersistIntervalMs d)) \<le> now - stored_mark d c"
    by (simp add: isPersistDue_def isRecordPersistDue_def l)
  moreover have "2850 \<le> recordPersistThresholdMs (Fin (recordPersistIntervalMs d))"
    using m by (intro threshold_bound) (simp add: marks_ok_def)
  ultimately show "stored_mark d c + 2850 \<le> now" by simp
qed

lemma stored_mark_durable: "durable d' = durable d \<Longrightarrow> stored_mark d' = stored_mark d"
  by (rule ext) (simp add: durable_def stored_mark_def)

lemma ready_view:
  assumes m: "marks_ok d" and r: "persist_ready e c report now False d = (d', ok)"
  shows "durable d' = durable d" "marks_ok d'" "ok \<Longrightarrow> stored_mark d c + 2850 \<le> now"
proof -
  obtain d1 b1 where e1: "do_isRecordPersistenceEnabled e now False d = (d1, b1)" by fastforce
  have v1: "durable d1 = durable d" "marks_ok d1" using enabled_view(1) [of e now False d] enabled_view(2) [OF m, of e now False] by (simp_all add: e1)
  obtain d2 b2 where e2: "isPersistDue c now d1 = (d2, b2)" by fastforce
  have v2: "durable d2 = durable d1" "marks_ok d2" "b2 \<Longrightarrow> stored_mark d1 c + 2850 \<le> now"
    using due_view(1) [of c now d1] due_view(2,3) [OF v1(2), of c now] by (simp_all add: e2)
  obtain d3 b3 where e3: "canPersistWithinCapacity e now d2 = (d3, b3)" by fastforce
  have v3: "durable d3 = durable d2" "marks_ok d3" using capacity_view(1) [of e now d2] capacity_view(2) [OF v2(2), of e now] by (simp_all add: e3)
  have s1: "stored_mark d1 c = stored_mark d c" by (simp add: stored_mark_durable [OF v1(1)])
  have "durable d' = durable d \<and> marks_ok d' \<and> (ok \<longrightarrow> stored_mark d c + 2850 \<le> now)"
    using r m v1 v2 v3 s1 by (auto simp: persist_ready_def e1 e2 e3 split: if_splits bool.splits)
  then show "durable d' = durable d" "marks_ok d'" "ok \<Longrightarrow> stored_mark d c + 2850 \<le> now" by blast+
qed

lemma after_write_view:
  "persist_gpus e c g now d = Some d' \<Longrightarrow> durable d' = durable d \<and> marks_ok d' = marks_ok d"
  "durable (recordHotPathHealthOk k now e d) = durable d" "marks_ok (recordHotPathHealthOk k now e d) = marks_ok d"
  by (auto simp: persist_gpus_def markGPUSnapshotPersisted_def recordHotPathHealthOk_def durable_def marks_ok_def stored_mark_def
      health_event_def Let_def split: option.splits if_splits)

lemma write_view:
  assumes m: "marks_ok d" and w: "persist_write e c report now False d = (d', ok)"
  shows "marks_ok d' \<and> (durable d' = durable d \<or>
    (\<exists>r. st_persist d' = (st_persist d)(c \<mapsto> now) \<and> db_records d' = db_records d @ [(c, now, r)]
       \<and> recordWritesInFlight d' = recordWritesInFlight d))"
proof (cases "env_insertRecord e")
  case False
  then show ?thesis using w m by (auto simp: persist_write_def Let_def)
next
  case True
  define r where "r = toMonitorRecord c (env_iso e now) (Obj (normalizeMonitorReport (Obj report)))"
  define d2 where "d2 = markPersistSuccess c now (d\<lparr>db_records := db_records d @ [(c, now, r)]\<rparr>)"
  have d2: "durable d2 = ((st_persist d)(c \<mapsto> now), db_records d @ [(c, now, r)], recordWritesInFlight d)" "marks_ok d2"
    using m by (auto simp: d2_def markPersistSuccess_def durable_def marks_ok_def stored_mark_def)
  have "durable d' = durable d2 \<and> marks_ok d' = marks_ok d2"
    using w True after_write_view(1) [of e c "js_get (normalizeMonitorReport (Obj report)) ''gpus''" now d2]
    by (auto simp: persist_write_def Let_def r_def [symmetric] d2_def [symmetric] after_write_view(2,3) split: option.splits)
  then show ?thesis using d2 by (auto simp: durable_def)
qed

definition spaced :: "rat list \<Rightarrow> bool" where
  "spaced ts = sorted_wrt (\<lambda>a b. a + 2850 \<le> b) ts"

definition cadence_inv :: "persist_do \<times> job list \<Rightarrow> bool" where
  "cadence_inv s \<longleftrightarrow> marks_ok (fst s) \<and> distinct (map fst (snd s)) \<and> fst ` set (snd s) = set (recordWritesInFlight (fst s))
     \<and> (\<forall>(c, report, now) \<in> set (snd s). stored_mark (fst s) c + 2850 \<le> now)
     \<and> (\<forall>c. spaced (record_times c (fst s)) \<and> (\<forall>t \<in> set (record_times c (fst s)). t \<le> stored_mark (fst s) c))"

lemma reserve_view [simp]:
  "marks_ok (reserve c d) = marks_ok d" "stored_mark (reserve c d) = stored_mark d" "record_times k (reserve c d) = record_times k d"
  "marks_ok (release c d) = marks_ok d" "stored_mark (release c d) = stored_mark d" "record_times k (release c d) = record_times k d"
  "recordWritesInFlight (reserve c d) = c # recordWritesInFlight d" "recordWritesInFlight (release c d) = removeAll c (recordWritesInFlight d)"
  by (simp_all add: reserve_def release_def marks_ok_def stored_mark_def record_times_def fun_eq_iff)

lemma durable_parts:
  assumes "durable d' = durable d"
  shows "record_times c d' = record_times c d" "recordWritesInFlight d' = recordWritesInFlight d"
  using assms by (simp_all add: durable_def record_times_def)

text \<open>The invariant depends on the rows, the marks and the reservations only.\<close>

lemma cadence_frame:
  assumes "cadence_inv (d, jobs)" "durable d' = durable d" "marks_ok d'"
  shows "cadence_inv (d', jobs)"
  using assms(1,3) by (simp add: cadence_inv_def stored_mark_durable [OF assms(2)] durable_parts [OF assms(2)])

lemma report_step:
  assumes inv: "cadence_inv (d, jobs)"
  shows "cadence_inv (persist_step (ReportE e c report now) (d, jobs))"
proof (cases "c \<in> set (recordWritesInFlight d)")
  case True
  then show ?thesis using inv by simp
next
  case fresh: False
  obtain d1 ok where r: "persist_ready e c report now False (reserve c d) = (d1, ok)" by fastforce
  have m: "marks_ok (reserve c d)" using inv by (simp add: cadence_inv_def)
  note v = ready_view [OF m r] and p = durable_parts [OF ready_view(1) [OF m r]]
  have k: "stored_mark d1 = stored_mark d" using stored_mark_durable [OF v(1)] by simp
  have g: "recordWritesInFlight d1 = c # recordWritesInFlight d" using p(2) by simp
  show ?thesis
    using inv fresh v(2,3) by (cases ok) (auto simp: r cadence_inv_def k g p(1))
qed

lemma inserted_step:
  assumes inv: "cadence_inv (d, jobs)"
  shows "cadence_inv (persist_step (InsertedE e c) (d, jobs))"
proof (cases "map_of jobs c")
  case None
  then show ?thesis using inv by simp
next
  case (Some j)
  obtain report now where j: "j = (report, now)" by fastforce
  have job: "(c, report, now) \<in> set jobs" using Some by (simp add: j map_of_SomeD)
  obtain d' ok where w: "persist_write e c report now False d = (d', ok)" by fastforce
  have m: "marks_ok d" and due: "stored_mark d c + 2850 \<le> now"
    and times: "\<And>k. spaced (record_times k d)" "\<And>k t. t \<in> set (record_times k d) \<Longrightarrow> t \<le> stored_mark d k"
    using inv job by (fastforce simp: cadence_inv_def)+
  define others where "others = filter (\<lambda>x. fst x \<noteq> c) jobs"
  have o: "distinct (map fst others)" "fst ` set others = set (removeAll c (recordWritesInFlight d))"
    "\<And>k r t. (k, r, t) \<in> set others \<Longrightarrow> k \<noteq> c \<and> stored_mark d k + 2850 \<le> t"
    using inv by (auto simp: cadence_inv_def others_def distinct_map_filter)
  have "marks_ok d'" using write_view [OF m w] by blast
  consider (kept) "durable d' = durable d"
    | (written) r where "st_persist d' = (st_persist d)(c \<mapsto> now)" "db_records d' = db_records d @ [(c, now, r)]"
        "recordWritesInFlight d' = recordWritesInFlight d"
    using write_view [OF m w] by blast
  then have "cadence_inv (release c d', others)"
  proof cases
    case kept
    show ?thesis using \<open>marks_ok d'\<close> o times
      by (auto simp: cadence_inv_def stored_mark_durable [OF kept] durable_parts [OF kept])
  next
    case written
    have k: "stored_mark d' k = (if k = c then now else stored_mark d k)"
      "record_times k d' = (if k = c then record_times c d @ [now] else record_times k d)" for k
      by (simp_all add: stored_mark_def record_times_def written)
    have "spaced (record_times c d @ [now])"
      using times(1) [of c] times(2) [of _ c] due by (fastforce simp: spaced_def sorted_wrt_append)
    moreover have "t \<le> now" if "t \<in> set (record_times c d)" for t using times(2) [OF that] due by simp
    ultimately show ?thesis using \<open>marks_ok d'\<close> o times by (auto simp: cadence_inv_def k written(3))
  qed
  then show ?thesis by (simp add: Some j w others_def)
qed

lemma cadence_step: "cadence_inv s \<Longrightarrow> cadence_inv (persist_step ev s)"
proof (cases ev)
  case (RefreshE e now)
  assume inv: "cadence_inv s"
  obtain d jobs where s: "s = (d, jobs)" by fastforce
  have m: "marks_ok d" using inv by (simp add: s cadence_inv_def)
  define d1 where "d1 = fst (do_isRecordPersistenceEnabled e now True d)"
  have v: "durable d1 = durable d" "marks_ok d1"
    using enabled_view(1) [of e now True d] enabled_view(2) [OF m, of e now True] by (simp_all add: d1_def)
  have "durable (invalidateRecordCapacityMemorySnapshot d1) = durable d1" "marks_ok (invalidateRecordCapacityMemorySnapshot d1) = marks_ok d1"
    by (simp_all add: invalidateRecordCapacityMemorySnapshot_def durable_def marks_ok_def stored_mark_def)
  then show ?thesis
    using cadence_frame [of d jobs "invalidateRecordCapacityMemorySnapshot d1"] inv v
    by (simp add: s RefreshE record_settings_refresh_def d1_def [symmetric])
next
  case RestartE
  assume inv: "cadence_inv s"
  obtain d jobs where s: "s = (d, jobs)" by fastforce
  have "marks_ok (restarted d)" "recordWritesInFlight (restarted d) = []" "stored_mark (restarted d) = stored_mark d"
    "record_times c (restarted d) = record_times c d" for c
    by (simp_all add: restarted_def marks_ok_def RECORD_PERSIST_INTERVAL_MS_def stored_mark_def record_times_def fun_eq_iff)
  then show ?thesis using inv by (simp add: s RestartE cadence_inv_def)
qed (use report_step inserted_step in \<open>metis surj_pair\<close>)+

lemma cadence_run: "cadence_inv s \<Longrightarrow> cadence_inv (fold persist_step evs s)"
  by (induction evs arbitrary: s) (simp_all add: cadence_step)

lemma cadence_start: "cadence_inv (new_persist_do, [])"
  by (simp add: cadence_inv_def new_persist_do_def restarted_def marks_ok_def RECORD_PERSIST_INTERVAL_MS_def record_times_def spaced_def)

text \<open>One report that waits for nothing is the two steps of it.\<close>

lemma persistReport_steps:
  assumes "c \<notin> set (recordWritesInFlight d)"
  shows "fst (persistReport e c report now False d) = fst (persist_step (InsertedE e c) (persist_step (ReportE e c report now) (d, [])))"
proof -
  obtain d1 ok where r: "persist_ready e c report now False (reserve c d) = (d1, ok)" by fastforce
  obtain d2 res where w: "persist_write e c report now False d1 = (d2, res)" by fastforce
  show ?thesis using assms by (cases ok) (simp_all add: persistReport_def persistReservedReport_def r w)
qed

lemma least_threshold: "recordPersistThresholdMs (Fin MIN_RECORD_PERSIST_INTERVAL_MS) = 2850"
  by (simp add: recordPersistThresholdMs_def recordPersistToleranceMs_def MIN_RECORD_PERSIST_INTERVAL_MS_def
      RECORD_PERSIST_TOLERANCE_RATIO_def RECORD_PERSIST_TOLERANCE_MAX_MS_def)


subsection \<open>Steady reporting\<close>

lemma integer_setting:
  assumes "map_of SETTING_SCHEMA key = Some (int_setting dv pub lo hi)"
  shows "\<exists>i. str_to_num (setting_of (buildAdminSettings up stored) key) = FinI i \<and> lo \<le> i \<and> i \<le> hi"
proof -
  define d where "d = int_setting dv pub lo hi"
  have ok: "def_ok d" using schema_def_ok [OF assms] by (simp add: d_def)
  have t: "stype d = IntegerSetting" "smin d = Some lo" "smax d = Some hi" by (simp_all add: d_def int_setting_def)
  have v: "setting_of (buildAdminSettings up stored) key = admin_value up stored (key, d)"
    using admin_lookup [OF assms] by (simp add: setting_of_def d_def)
  obtain i where i: "admin_value up stored (key, d) = int_to_str i" "lo \<le> i" "i \<le> hi"
  proof (cases "normalizeSettingValue up key (Str (case stored key of Some s \<Rightarrow> s | None \<Rightarrow> defaultValue d)) []")
    case (Inl _)
    then show thesis using int_default [OF ok t(1)] that by (auto simp: admin_value_def t)
  next
    case (Inr s)
    then have "setting_conforms up key s" using normalize_conforms by blast
    then have "\<exists>i. s = int_to_str i \<and> lo \<le> i \<and> i \<le> hi" using assms t by (simp add: setting_conforms_def d_def)
    then show thesis using that Inr by (auto simp: admin_value_def)
  qed
  have "\<bar>i\<bar> \<le> 1000000000000" using ok i(2,3) by (auto simp: def_ok_def t abs_le_iff)
  then have "\<bar>i\<bar> < 2 ^ 970" by (rule order.strict_trans1) simp
  then show ?thesis using i by (auto simp: v str_to_num_int_to_str)
qed

lemma history_setting_defs:
  "map_of SETTING_SCHEMA ''record_persist_interval_sec'' = Some (int_setting ''120'' False 3 3600)"
  "map_of SETTING_SCHEMA ''record_high_watermark_rows'' = Some (int_setting ''700000'' False 1000 10000000)"
  "map_of SETTING_SCHEMA ''record_high_watermark_bytes'' = Some (int_setting ''419430400'' False 16777216 549755813888)"
  "map_of SETTING_SCHEMA ''live_poll_active_interval_sec'' = Some (int_setting ''3'' True 3 300)"
  "map_of SETTING_SCHEMA ''live_poll_idle_interval_sec'' = Some (int_setting ''120'' True 60 3600)"
  by (simp_all add: SETTING_SCHEMA_def SITE_SETTINGS_def)

lemma loaded_interval:
  "str_to_num (setting_of (buildAdminSettings up stored) ''record_persist_interval_sec'') = FinI i \<Longrightarrow>
   recordPersistIntervalMs (load_settings (buildAdminSettings up stored) up d) = of_int i * 1000"
  using integer_setting [OF history_setting_defs(1), of up stored]
  by (auto simp: load_settings_def Let_def bounded_setting_def MIN_RECORD_PERSIST_INTERVAL_MS_def MAX_RECORD_PERSIST_INTERVAL_MS_def)

text \<open>A database that answers, with the settings \<open>stored\<close> and a history below both limits.\<close>

definition configured :: "(string \<Rightarrow> url option) \<Rightarrow> (string \<rightharpoonup> string) \<Rightarrow> persist_do" where
  "configured up stored = load_settings (buildAdminSettings up stored) up new_persist_do"

definition healthy :: "(string \<Rightarrow> url option) \<Rightarrow> (string \<rightharpoonup> string) \<Rightarrow> persist_env \<Rightarrow> bool" where
  "healthy up stored e \<longleftrightarrow> env_database e \<and> env_url e = up \<and> env_settings e = Some stored \<and> env_insertRecord e \<and> env_insertGPU e
     \<and> (\<exists>u. env_usage e = Some u \<and> \<not> dec_blocked (evaluateHistoryCapacity u (recordHighWatermarkRows (configured up stored))
             (recordHighWatermarkBytes (configured up stored)) False))"

definition open_gate :: "persist_do \<Rightarrow> bool" where
  "open_gate d \<longleftrightarrow> \<not> recordCapacityBlocked d \<and> (\<forall>s. normalizeRecordCapacitySnapshot (st_capacity d) = Some s \<longrightarrow> \<not> cap_blocked s)"

definition loaded :: "(string \<Rightarrow> url option) \<Rightarrow> (string \<rightharpoonup> string) \<Rightarrow> persist_do \<Rightarrow> bool" where
  "loaded up stored d \<longleftrightarrow> recordPersistenceEnabled d = recordPersistenceEnabled (configured up stored)
     \<and> recordPersistIntervalMs d = recordPersistIntervalMs (configured up stored)
     \<and> recordHighWatermarkRows d = recordHighWatermarkRows (configured up stored)
     \<and> recordHighWatermarkBytes d = recordHighWatermarkBytes (configured up stored)"

lemmas gate_defs = open_gate_def loaded_def

lemma loaded_here: "loaded up stored (load_settings (buildAdminSettings up stored) up d)"
  by (simp add: loaded_def configured_def load_settings_def Let_def)

lemma healthy_settings:
  assumes "healthy up stored e" "recordPersistenceCheckedAt d = 0 \<or> loaded up stored d" "open_gate d" "RECORD_SETTING_CACHE_MS \<le> now"
    "recordPersistenceEnabled (configured up stored)"
  shows "\<exists>d1. do_isRecordPersistenceEnabled e now False d = (d1, True) \<and> loaded up stored d1 \<and> open_gate d1"
proof (cases "now - recordPersistenceCheckedAt d < RECORD_SETTING_CACHE_MS")
  case True
  then have "loaded up stored d" using assms(2,4) by auto
  then show ?thesis using assms True by (simp add: do_isRecordPersistenceEnabled_def healthy_def loaded_def)
next
  case False
  define d1 where "d1 = load_settings (buildAdminSettings up stored) up d"
  have l: "loaded up stored d1" unfolding d1_def by (rule loaded_here)
  then have "recordPersistenceEnabled d1" using assms(5) by (simp add: loaded_def)
  moreover have "open_gate d1" using assms(3) by (simp add: d1_def load_settings_def open_gate_def Let_def)
  ultimately show ?thesis using assms(1) False l
    by (simp add: do_isRecordPersistenceEnabled_def healthy_def d1_def [symmetric] gate_defs)
qed

lemma due_healthy:
  assumes "marks_ok d" "loaded up stored d" "open_gate d"
  shows "\<exists>d2. isPersistDue c now d = (d2, recordPersistThresholdMs (Fin (recordPersistIntervalMs (configured up stored))) \<le> now - stored_mark d c)
     \<and> loaded up stored d2 \<and> open_gate d2"
proof -
  have "last_persist c d = stored_mark d c"
    using assms(1) by (cases "recordLastPersistAt d c") (simp_all add: last_persist_def marks_ok_def, simp add: stored_mark_def)
  then show ?thesis using assms(2,3) by (simp add: isPersistDue_def isRecordPersistDue_def gate_defs)
qed

lemma measured_open:
  assumes "loaded up stored d" "\<not> recordCapacityBlocked d"
    and "\<not> dec_blocked (evaluateHistoryCapacity u (recordHighWatermarkRows (configured up stored)) (recordHighWatermarkBytes (configured up stored)) False)"
  shows "loaded up stored (measure_capacity u now d) \<and> open_gate (measure_capacity u now d)"
  using assms by (auto simp: measure_capacity_def writeRecordCapacitySnapshot_def Let_def gate_defs normalizeRecordCapacitySnapshot_def js_get_def
      split: option.splits if_splits)

lemma capacity_healthy:
  assumes "healthy up stored e" "loaded up stored d" "open_gate d"
  shows "\<exists>d3. canPersistWithinCapacity e now d = (d3, True) \<and> loaded up stored d3 \<and> open_gate d3"
proof -
  obtain u where u: "env_usage e = Some u" "\<not> dec_blocked (evaluateHistoryCapacity u (recordHighWatermarkRows (configured up stored))
       (recordHighWatermarkBytes (configured up stored)) False)" using assms(1) by (auto simp: healthy_def)
  obtain d1 r where r: "readReusableRecordCapacitySnapshot now d = (d1, r)" by fastforce
  have d1: "loaded up stored d1" "open_gate d1" "\<And>s. r = Some s \<Longrightarrow> \<not> cap_blocked s"
    using assms(2,3) r by (auto simp: readReusableRecordCapacitySnapshot_def gate_defs split: option.splits if_splits)
  have "loaded up stored (measure_capacity u now d1)" "open_gate (measure_capacity u now d1)"
    using measured_open [OF d1(1) _ u(2)] d1(2) by (auto simp: open_gate_def)
  then show ?thesis
    using assms d1 u(1) by (cases r) (auto simp: canPersistWithinCapacity_def healthy_def r Let_def applyRecordCapacitySnapshot_def gate_defs)
qed

lemma write_healthy:
  assumes "healthy up stored e" "loaded up stored d" "open_gate d"
  shows "\<exists>d' r. fst (persist_write e c report now False d) = d' \<and> loaded up stored d' \<and> open_gate d'
     \<and> st_persist d' = (st_persist d)(c \<mapsto> now) \<and> db_records d' = db_records d @ [(c, now, r)]
     \<and> recordWritesInFlight d' = recordWritesInFlight d"
  using assms by (auto simp: persist_write_def healthy_def Let_def persist_gpus_def markGPUSnapshotPersisted_def markPersistSuccess_def
      recordHotPathHealthOk_def health_event_def gate_defs split: option.splits)

text \<open>What a run of reports keeps, and what one report does to the rows.\<close>

definition steady :: "(string \<Rightarrow> url option) \<Rightarrow> (string \<rightharpoonup> string) \<Rightarrow> persist_do \<Rightarrow> bool" where
  "steady up stored d \<longleftrightarrow> (recordPersistenceCheckedAt d = 0 \<or> loaded up stored d) \<and> open_gate d \<and> marks_ok d \<and> recordWritesInFlight d = []"

lemma steady_report:
  fixes c :: string
  assumes h: "healthy up stored e" and d: "steady up stored d" and now: "RECORD_SETTING_CACHE_MS \<le> now"
    and on: "recordPersistenceEnabled (configured up stored)" and r: "\<not> not_a_report report"
  defines "due \<equiv> recordPersistThresholdMs (Fin (recordPersistIntervalMs (configured up stored))) \<le> now - stored_mark d c"
    and "d' \<equiv> fst (persistReport e c report now False d)"
  shows "steady up stored d' \<and> stored_mark d' c = (if due then now else stored_mark d c)
     \<and> record_times c d' = record_times c d @ (if due then [now] else [])"
proof -
  define d0 where "d0 = reserve c d"
  have d0: "recordPersistenceCheckedAt d0 = 0 \<or> loaded up stored d0" "open_gate d0" "marks_ok d0" "durable d0 = (st_persist d, db_records d, [c])"
    using d by (auto simp: d0_def steady_def) (auto simp: reserve_def gate_defs durable_def)
  obtain d1 where e1: "do_isRecordPersistenceEnabled e now False d0 = (d1, True)" "loaded up stored d1" "open_gate d1"
    using healthy_settings [OF h d0(1,2) now on] by blast
  have v1: "durable d1 = durable d0" "marks_ok d1"
    using enabled_view(1) [of e now False d0] enabled_view(2) [OF d0(3), of e now False] by (simp_all add: e1)
  have s1: "stored_mark d1 c = stored_mark d c" using v1(1) d0(4) by (simp add: durable_def stored_mark_def)
  obtain d2 where e2: "isPersistDue c now d1 = (d2, due)" "loaded up stored d2" "open_gate d2"
    using due_healthy [OF v1(2) e1(2,3), of c now] s1 by (auto simp: due_def)
  have v2: "durable d2 = durable d1" "marks_ok d2"
    using due_view(1) [of c now d1] due_view(2) [OF v1(2), of c now] by (simp_all add: e2)
  obtain d3 where e3: "canPersistWithinCapacity e now d2 = (d3, True)" "loaded up stored d3" "open_gate d3"
    using capacity_healthy [OF h e2(2,3)] by blast
  have v3: "durable d3 = durable d2" "marks_ok d3"
    using capacity_view(1) [of e now d2] capacity_view(2) [OF v2(2), of e now] by (simp_all add: e3)
  have ready: "persist_ready e c report now False d0 = (if due then (d3, True) else (d2, False))"
    using r h by (simp add: persist_ready_def e1 e2 e3 healthy_def)
  show ?thesis
  proof (cases due)
    case False
    then have "d' = release c d2" using d by (simp add: d'_def persistReport_def persistReservedReport_def ready d0_def [symmetric] steady_def)
    then show ?thesis using False e2 v2 v1(1) d0(4)
      by (auto simp: steady_def durable_def stored_mark_def record_times_def release_def gate_defs marks_ok_def)
  next
    case True
    obtain d4 ok where w: "persist_write e c report now False d3 = (d4, ok)" by fastforce
    then have d': "d' = release c d4"
      using True d by (simp add: d'_def persistReport_def persistReservedReport_def ready d0_def [symmetric] steady_def)
    have "marks_ok d4" using write_view [OF v3(2) w] by blast
    then show ?thesis using True d' w write_healthy [OF h e3(2,3), of c report now] v3 v2(1) v1(1) d0(4)
      by (auto simp: steady_def durable_def stored_mark_def record_times_def release_def gate_defs marks_ok_def)
  qed
qed

lemma sequential_snoc:
  "persistReportsSequential c (xs @ [(e, r, t)]) d = fst (persistReport e c r t False (persistReportsSequential c xs d))"
  by (induction xs arbitrary: d) auto

text \<open>The number of report periods the threshold takes.\<close>

definition period_count :: "rat \<Rightarrow> rat \<Rightarrow> nat" where
  "period_count thr period = nat (max 1 \<lceil>thr / period\<rceil>)"

lemma period_count_bounds:
  assumes "0 < thr" "0 < period"
  shows "0 < period_count thr period" "thr \<le> of_nat r * period \<longleftrightarrow> period_count thr period \<le> r"
proof -
  have "0 < \<lceil>thr / period\<rceil>" using assms by simp
  then have q: "int (period_count thr period) = \<lceil>thr / period\<rceil>" by (simp add: period_count_def)
  then show "0 < period_count thr period" using \<open>0 < \<lceil>thr / period\<rceil>\<close> by linarith
  have "thr \<le> of_nat r * period \<longleftrightarrow> thr / period \<le> of_int (int r)" using assms by (simp add: pos_divide_le_eq)
  also have "\<dots> \<longleftrightarrow> \<lceil>thr / period\<rceil> \<le> int r" by (simp add: ceiling_le_iff)
  also have "\<dots> \<longleftrightarrow> period_count thr period \<le> r" by (simp add: q [symmetric])
  finally show "thr \<le> of_nat r * period \<longleftrightarrow> period_count thr period \<le> r" .
qed

lemma steady_run:
  fixes c :: string and up stored origin period es rep
  defines "thr \<equiv> recordPersistThresholdMs (Fin (recordPersistIntervalMs (configured up stored)))"
  defines "q \<equiv> period_count thr period"
    and "run \<equiv> \<lambda>n. persistReportsSequential c (map (\<lambda>k. (es k, rep k, origin + of_nat k * period)) [0..<n]) new_persist_do"
  assumes h: "\<And>k. healthy up stored (es k)" "\<And>k. \<not> not_a_report (rep k)" and on: "recordPersistenceEnabled (configured up stored)"
    and p: "0 < period" "0 < thr" "thr \<le> origin" "RECORD_SETTING_CACHE_MS \<le> origin"
  shows "steady up stored (run n) \<and> record_times c (run n) = map (\<lambda>k. origin + of_nat k * period) (filter (\<lambda>k. q dvd k) [0..<n])
     \<and> stored_mark (run n) c = (if n = 0 then 0 else origin + of_nat (q * ((n - 1) div q)) * period)"
proof (induction n)
  case 0
  show ?case
    by (simp add: run_def steady_def new_persist_do_def restarted_def gate_defs marks_ok_def RECORD_PERSIST_INTERVAL_MS_def record_times_def
        stored_mark_def normalizeRecordCapacitySnapshot_def)
next
  case (Suc n)
  define now where "now = origin + of_nat n * period"
  have next_run: "run (Suc n) = fst (persistReport (es n) c (rep n) now False (run n))"
    by (simp add: run_def now_def sequential_snoc)
  have cache: "RECORD_SETTING_CACHE_MS \<le> now" using p by (simp add: now_def add_increasing2)
  have due: "thr \<le> now - stored_mark (run n) c \<longleftrightarrow> q dvd n"
  proof (cases n)
    case 0
    then show ?thesis using Suc p(3) by (simp add: now_def)
  next
    case (Suc m)
    have "now - stored_mark (run n) c = of_nat (Suc (m mod q)) * period"
    proof -
      have "of_nat (Suc m) = (of_nat (q * (m div q)) + of_nat (Suc (m mod q)) :: rat)"
        by (subst of_nat_add [symmetric], rule arg_cong [of _ _ of_nat]) simp
      then show ?thesis using Suc.IH Suc by (simp add: now_def algebra_simps)
    qed
    then have "thr \<le> now - stored_mark (run n) c \<longleftrightarrow> q \<le> Suc (m mod q)"
      using period_count_bounds(2) [OF p(2,1), of "Suc (m mod q)"] by (simp add: q_def [symmetric] del: of_nat_Suc)
    also have "\<dots> \<longleftrightarrow> Suc (m mod q) = q"
      using Suc_leI [OF mod_less_divisor [OF period_count_bounds(1) [OF p(2,1)], of m]] unfolding q_def by linarith
    also have "\<dots> \<longleftrightarrow> q dvd n" by (simp add: Suc mod_Suc dvd_eq_mod_eq_0)
    finally show ?thesis .
  qed
  have step: "steady up stored (run (Suc n)) \<and> stored_mark (run (Suc n)) c = (if q dvd n then now else stored_mark (run n) c)
      \<and> record_times c (run (Suc n)) = record_times c (run n) @ (if q dvd n then [now] else [])"
    using steady_report [OF h(1) _ cache on h(2), of "run n" n c n] Suc due unfolding next_run thr_def by simp
  have mark: "(if q dvd n then now else stored_mark (run n) c) = origin + of_nat (q * (n div q)) * period"
  proof (cases "q dvd n")
    case False
    then obtain m where m: "n = Suc m" by (cases n) auto
    then have "n div q = m div q" using False by (simp add: div_Suc mod_Suc dvd_eq_mod_eq_0)
    then show ?thesis using Suc False m by simp
  qed (simp add: now_def)
  show ?case using step mark Suc by (simp add: now_def)
qed

lemma js_max_Fin: "js_max (Fin a) (Fin b) = Fin (max a b)"
  by (simp add: max_def)

lemma sample_seconds_int:
  assumes "0 < s"
  shows "sample_seconds thr (FinI s) = Fin (of_nat (period_count thr (of_int s * 1000)) * of_int s)"
proof -
  have "of_nat (period_count thr (of_int s * 1000)) = (of_int (max 1 \<lceil>thr / (of_int s * 1000)\<rceil>) :: rat)"
    by (simp add: period_count_def)
  then show ?thesis using assms by (simp add: sample_seconds_def js_max_Fin of_int_max del: js_max.simps)
qed

lemma loaded_enabled: "history_enabled (buildLoadNotificationPolicy up stored) \<Longrightarrow> recordPersistenceEnabled (configured up stored)"
proof -
  define v where "v = setting_of (buildAdminSettings up stored) ''record_enabled''"
  assume "history_enabled (buildLoadNotificationPolicy up stored)"
  then have v: "v = ''true''" by (simp add: buildLoadNotificationPolicy_def Let_def v_def)
  have d: "map_of SETTING_SCHEMA ''record_enabled'' = Some (bool_setting ''true'' False)" by (simp add: SETTING_SCHEMA_def SITE_SETTINGS_def)
  have "map_of (buildAdminSettings up stored) ''record_enabled'' = Some v"
    using admin_lookup [OF d] by (simp add: v_def setting_of_def)
  moreover have "normalizeSettingValue up ''record_enabled'' (Str ''true'') [] = Inr ''true''"
    using d boolean_idem(1) by (simp add: normalizeSettingValue_def normalize_typed_def bool_setting_def)
  ultimately show ?thesis by (simp add: configured_def load_settings_def Let_def v isRecordPersistenceEnabled_def)
qed

text \<open>The window of the policy is at least two persisted samples long, in either reporting mode.\<close>

lemma window_length:
  assumes key: "key \<in> set [''live_poll_active_interval_sec'', ''live_poll_idle_interval_sec'']"
    and s: "str_to_num (setting_of (buildAdminSettings up stored) key) = Fin sec"
    and m: "effectiveLoadNotificationIntervalMin conf (buildLoadNotificationPolicy up stored) = Fin m"
  defines "thr \<equiv> recordPersistThresholdMs (Fin (recordPersistIntervalMs (configured up stored)))"
  shows "3 \<le> sec \<and> 2850 \<le> thr \<and> thr \<le> MAX_RECORD_PERSIST_INTERVAL_MS \<and> 2 * (of_nat (period_count thr (sec * 1000)) * (sec * 1000)) \<le> m * 60000"
proof -
  let ?num = "\<lambda>k. str_to_num (setting_of (buildAdminSettings up stored) k)"
  obtain i x y where i: "?num ''record_persist_interval_sec'' = FinI i" "3 \<le> i" "i \<le> 3600"
    and x: "?num ''live_poll_active_interval_sec'' = FinI x" "3 \<le> x"
    and y: "?num ''live_poll_idle_interval_sec'' = FinI y" "60 \<le> y"
    using integer_setting [OF history_setting_defs(1), of up stored] integer_setting [OF history_setting_defs(4), of up stored]
      integer_setting [OF history_setting_defs(5), of up stored] by blast
  have interval: "recordPersistIntervalMs (configured up stored) = of_int i * 1000"
    using loaded_interval [OF i(1)] by (simp add: configured_def)
  have i3: "3000 \<le> (of_int i * 1000 :: rat)" using i(2) by simp
  have thr: "thr = recordPersistThresholdMs (Fin (of_int i * 1000))" by (simp add: thr_def interval)
  have tol: "0 \<le> recordPersistToleranceMs (Fin (of_int i * 1000))"
    using i(2) by (simp add: recordPersistToleranceMs_def RECORD_PERSIST_TOLERANCE_MAX_MS_def RECORD_PERSIST_TOLERANCE_RATIO_def)
  have thr_le: "thr \<le> MAX_RECORD_PERSIST_INTERVAL_MS"
    using tol i(2,3) by (simp add: thr recordPersistThresholdMs_def MAX_RECORD_PERSIST_INTERVAL_MS_def)
  define S where "S = (\<lambda>s :: int. of_nat (period_count thr (of_int s * 1000)) * (of_int s :: rat))"
  define M where "M = max (S x) (S y)"
  have "minimum_interval_min (buildLoadNotificationPolicy up stored) = Fin (max 1 (of_int \<lceil>2 * M / 60\<rceil>))"
    using x y i by (simp add: buildLoadNotificationPolicy_def Let_def i(1) x(1) y(1) thr [symmetric] sample_seconds_int S_def M_def js_max_Fin
        del: js_max.simps)
  then have "of_int \<lceil>2 * M / 60\<rceil> \<le> m"
    using m by (cases conf) (auto simp: effectiveLoadNotificationIntervalMin_def js_max_Fin simp del: js_max.simps split: if_splits)
  then have mm: "2 * M / 60 \<le> m" using le_of_int_ceiling order_trans by blast
  obtain z where z: "sec = of_int z" "z = x \<or> z = y" using key s x(1) y(1) by auto
  have "S z \<le> M" using z(2) by (auto simp: M_def)
  moreover have "2 * (of_nat (period_count thr (sec * 1000)) * (sec * 1000)) = S z * 2000" by (simp add: S_def z(1))
  ultimately have "2 * (of_nat (period_count thr (sec * 1000)) * (sec * 1000)) \<le> m * 60000" using mm by linarith
  moreover have "3 \<le> sec" using z x(2) y(2) by auto
  ultimately show ?thesis using threshold_bound(2) [OF i3] thr_le by (simp add: thr)
qed

text \<open>
  C32. Load alerts look at a window of history. In either reporting mode the settings allow, for a node
  that reports on time to an object whose database answers, every window of the effective length, from
  the first report on, contains at least two history rows of the node: the throttle on rows never starves
  the alert, whatever interval is configured and whatever the alert asks for.
\<close>

theorem load_window_samples:
  assumes "key \<in> set [''live_poll_active_interval_sec'', ''live_poll_idle_interval_sec'']"
    and "str_to_num (setting_of (buildAdminSettings up stored) key) = Fin sec"
    and "effectiveLoadNotificationIntervalMin conf (buildLoadNotificationPolicy up stored) = Fin m"
    and "history_enabled (buildLoadNotificationPolicy up stored)"
    and "\<And>k. healthy up stored (es k)" "\<And>k. \<not> not_a_report (rep k)"
    and "MAX_RECORD_PERSIST_INTERVAL_MS \<le> t0" "t0 \<le> start" "start + m * 60000 \<le> t0 + of_nat n * (sec * 1000)"
  shows "\<exists>t1 t2. start \<le> t1 \<and> t1 < t2 \<and> t2 < start + m * 60000
     \<and> {t1, t2} \<subseteq> set (record_times c (persistReportsSequential c (map (\<lambda>k. (es k, rep k, t0 + of_nat k * (sec * 1000))) [0..<n]) new_persist_do))"
proof -
  define thr where "thr = recordPersistThresholdMs (Fin (recordPersistIntervalMs (configured up stored)))"
  define q where "q = period_count thr (sec * 1000)"
  define g where "g = of_nat q * (sec * 1000)"
  have w: "3 \<le> sec" "2850 \<le> thr" "thr \<le> MAX_RECORD_PERSIST_INTERVAL_MS" "2 * g \<le> m * 60000"
    using window_length [OF assms(1-3)] by (simp_all add: thr_def q_def g_def)
  have q: "0 < q" using period_count_bounds(1) [of thr "sec * 1000"] w by (simp add: q_def)
  have g: "0 < g" using q w(1) by (simp add: g_def)
  have times: "record_times c (persistReportsSequential c (map (\<lambda>k. (es k, rep k, t0 + of_nat k * (sec * 1000))) [0..<n]) new_persist_do)
      = map (\<lambda>k. t0 + of_nat k * (sec * 1000)) (filter (\<lambda>k. q dvd k) [0..<n])"
    using steady_run [where es = es and rep = rep and period = "sec * 1000" and origin = t0 and c = c and n = n, OF assms(5,6) loaded_enabled [OF assms(4)]] w assms(7)
    by (simp add: thr_def q_def RECORD_SETTING_CACHE_MS_def MAX_RECORD_PERSIST_INTERVAL_MS_def)
  define j where "j = nat \<lceil>(start - t0) / g\<rceil>"
  have "of_nat j = (of_int \<lceil>(start - t0) / g\<rceil> :: rat)" using assms(8) g by (simp add: j_def)
  then have j: "(start - t0) / g \<le> of_nat j" "of_nat j < (start - t0) / g + 1" by linarith+
  have t1: "start \<le> t0 + of_nat j * g" "t0 + of_nat j * g < start + g"
    using j g by (simp_all add: field_simps)
  have t2: "t0 + of_nat (Suc j) * g < start + m * 60000" using t1(2) w(4) by (simp add: algebra_simps)
  have idx: "of_nat (q * i) * (sec * 1000) = of_nat i * g" for i by (simp add: g_def)
  have "of_nat (q * Suc j) * (sec * 1000) < of_nat n * (sec * 1000)" using t2 assms(9) unfolding idx by linarith
  then have n: "q * Suc j < n" using w(1) by (simp add: mult_less_cancel_right del: of_nat_mult of_nat_Suc mult_Suc_right)
  have member: "t0 + of_nat i * g \<in> set (map (\<lambda>k. t0 + of_nat k * (sec * 1000)) (filter (\<lambda>k. q dvd k) [0..<n]))" if "q * i < n" for i
    using that idx [of i] by (auto simp del: of_nat_mult intro!: image_eqI [of _ _ "q * i"])
  have "q * j < n" using n by simp
  then show ?thesis
    using member [of j] member [OF n] t1(1) t2 g unfolding times
    by (intro exI [of _ "t0 + of_nat j * g"] exI [of _ "t0 + of_nat (Suc j) * g"]) (simp add: algebra_simps)
qed

definition sample_db_env :: persist_env where
  "sample_db_env = \<lparr>env_database = True, env_url = (\<lambda>_. None), env_settings = Some Map.empty,
     env_usage = Some \<lparr>live_rows = Fin 0, estimated_live_storage_bytes = Fin 0, allocated_bytes = Fin 0\<rparr>,
     env_insertRecord = True, env_insertGPU = True, env_tasks = Some [], env_insertPing = True,
     env_iso = (\<lambda>_. []), env_localeLe = (\<lambda>_ _. True)\<rparr>"

lemma sample_healthy: "healthy (\<lambda>_. None) Map.empty sample_db_env"
proof -
  have "1000 \<le> recordHighWatermarkRows (configured (\<lambda>_. None) Map.empty)" "16777216 \<le> recordHighWatermarkBytes (configured (\<lambda>_. None) Map.empty)"
    using integer_setting [OF history_setting_defs(2), of "\<lambda>_. None" Map.empty] integer_setting [OF history_setting_defs(3), of "\<lambda>_. None" Map.empty]
    by (auto simp: configured_def load_settings_def Let_def bounded_setting_def RECORD_HIGH_WATERMARK_MIN_ROWS_def RECORD_HIGH_WATERMARK_MAX_ROWS_def
        RECORD_HIGH_WATERMARK_MIN_BYTES_def RECORD_HIGH_WATERMARK_MAX_BYTES_def)
  then show ?thesis by (simp add: healthy_def sample_db_env_def evaluateHistoryCapacity_def Let_def)
qed

lemma default_setting:
  assumes "map_of SETTING_SCHEMA key = Some (int_setting dv pub lo hi)" "dv = int_to_str i" "lo \<le> i" "i \<le> hi" "key \<noteq> ''email_smtp_port''"
  shows "setting_of (buildAdminSettings up Map.empty) key = dv"
proof -
  have "normalizeInteger (Str dv) (int_setting dv pub lo hi) = Some dv"
    using integer_idem [OF assms(2), of "int_setting dv pub lo hi"] schema_def_ok [OF assms(1)] assms(3,4) by (simp add: int_setting_def)
  then have "admin_value up Map.empty (key, int_setting dv pub lo hi) = dv"
    using assms(1,5) by (simp add: admin_value_def normalizeSettingValue_def normalize_typed_def int_setting_def)
  then show ?thesis using admin_lookup [OF assms(1)] by (simp add: setting_of_def)
qed

lemma sample_settings:
  "setting_of (buildAdminSettings up Map.empty) ''record_persist_interval_sec'' = int_to_str 120"
  "setting_of (buildAdminSettings up Map.empty) ''live_poll_active_interval_sec'' = int_to_str 3"
  "setting_of (buildAdminSettings up Map.empty) ''live_poll_idle_interval_sec'' = int_to_str 120"
  "setting_of (buildAdminSettings up Map.empty) ''record_enabled'' = ''true''"
proof -
  have n: "int_to_str 120 = ''120''" "int_to_str 3 = ''3''" by (simp_all add: int_to_str_def nat_to_str.simps)
  show "setting_of (buildAdminSettings up Map.empty) ''record_persist_interval_sec'' = int_to_str 120"
    using default_setting [OF history_setting_defs(1), of 120 up] by (simp add: n)
  show "setting_of (buildAdminSettings up Map.empty) ''live_poll_active_interval_sec'' = int_to_str 3"
    using default_setting [OF history_setting_defs(4), of 3 up] by (simp add: n)
  show "setting_of (buildAdminSettings up Map.empty) ''live_poll_idle_interval_sec'' = int_to_str 120"
    using default_setting [OF history_setting_defs(5), of 120 up] by (simp add: n)
  have d: "map_of SETTING_SCHEMA ''record_enabled'' = Some (bool_setting ''true'' False)" by (simp add: SETTING_SCHEMA_def SITE_SETTINGS_def)
  show "setting_of (buildAdminSettings up Map.empty) ''record_enabled'' = ''true''"
    using admin_lookup [OF d, of up Map.empty] boolean_idem(1) d
    by (simp add: setting_of_def admin_value_def normalizeSettingValue_def normalize_typed_def bool_setting_def)
qed

lemma sample_policy: "buildLoadNotificationPolicy (\<lambda>_. None) Map.empty =
  \<lparr>minimum_interval_min = Fin 4, sample_interval_sec = Fin 120, history_enabled = True\<rparr>"
  by (simp add: buildLoadNotificationPolicy_def Let_def sample_settings str_to_num_int_to_str sample_seconds_def recordPersistThresholdMs_def
      recordPersistToleranceMs_def RECORD_PERSIST_TOLERANCE_MAX_MS_def RECORD_PERSIST_TOLERANCE_RATIO_def)

theorem load_window_samples_witness:
  "\<exists>t1 t2. 3600000 \<le> t1 \<and> t1 < t2 \<and> t2 < 3600000 + 15 * 60000
     \<and> {t1, t2} \<subseteq> set (record_times ''n1'' (persistReportsSequential ''n1''
         (map (\<lambda>k. (sample_db_env, [], 3600000 + of_nat k * (120 * 1000))) [0..<8]) new_persist_do))"
proof (rule load_window_samples [where es = "\<lambda>_. sample_db_env" and rep = "\<lambda>_. []" and key = "''live_poll_idle_interval_sec''"
      and up = "\<lambda>_. None" and stored = Map.empty and conf = "Fin 15"])
  show "str_to_num (setting_of (buildAdminSettings (\<lambda>_. None) Map.empty) ''live_poll_idle_interval_sec'') = Fin 120"
    by (simp add: sample_settings str_to_num_int_to_str)
  show "effectiveLoadNotificationIntervalMin (Fin 15) (buildLoadNotificationPolicy (\<lambda>_. None) Map.empty) = Fin 15"
    by (simp add: sample_policy effectiveLoadNotificationIntervalMin_def)
  show "history_enabled (buildLoadNotificationPolicy (\<lambda>_. None) Map.empty)" by (simp add: sample_policy)
  show "healthy (\<lambda>_. None) Map.empty sample_db_env" for k :: nat by (rule sample_healthy)
  show "\<not> not_a_report []" for k :: nat by (simp add: not_a_report_def js_get_def)
qed (simp_all add: MAX_RECORD_PERSIST_INTERVAL_MS_def)

end
