(* ===== verification/HistoryCapacity.thy ===== *)
theory HistoryCapacity
  imports RecordPersist
begin

section \<open>Hysteresis of the history gate\<close>

text \<open>
  Every writer of history first asks whether history is enabled and whether its size allows a write.
  The size is measured rarely; between measurements the verdict lives in fields that a restart or a
  change of settings clears, and in a storage row that survives both. This theory shows that the gate
  nevertheless behaves like a two-state machine over the measurements.
\<close>

subsection \<open>The gate and its events\<close>

text \<open>The two checks at the head of \<open>persistQueuedPingResult\<close> and \<open>updateHttpPingResult\<close>.\<close>

definition history_gate :: "persist_env \<Rightarrow> rat \<Rightarrow> persist_do \<Rightarrow> persist_do \<times> bool" where
  "history_gate e now d = (case do_isRecordPersistenceEnabled e now False d of
       (d1, False) \<Rightarrow> (d1, False) | (d1, True) \<Rightarrow> canPersistWithinCapacity e now d1)"

text \<open>The measurement a call of the gate makes, if it makes one that succeeds.\<close>

definition measurement :: "persist_env \<Rightarrow> rat \<Rightarrow> persist_do \<Rightarrow> storage_usage list" where
  "measurement e now d = (case do_isRecordPersistenceEnabled e now False d of
       (d1, False) \<Rightarrow> []
     | (d1, True) \<Rightarrow> if now < recordCapacityNextCheckAt d1 \<or> snd (readReusableRecordCapacitySnapshot now d1) \<noteq> None then []
                    else (case env_usage e of Some u \<Rightarrow> [u] | None \<Rightarrow> []))"

datatype gate_event = GateE persist_env rat | GateRefreshE persist_env rat | GateRestartE

fun gate_step :: "gate_event \<Rightarrow> persist_do \<times> storage_usage list \<Rightarrow> persist_do \<times> storage_usage list" where
  "gate_step (GateE e now) (d, us) = (fst (history_gate e now d), us @ measurement e now d)"
| "gate_step (GateRefreshE e now) (d, us) = (record_settings_refresh e now d, us)"
| "gate_step GateRestartE (d, us) = (restarted d, us)"

text \<open>The specification: closed at a full ratio of 1, opened again at 4/5.\<close>

definition hysteresis :: "rat \<Rightarrow> rat \<Rightarrow> storage_usage list \<Rightarrow> bool" where
  "hysteresis rowLimit byteLimit us = fold (\<lambda>u closed. dec_blocked (evaluateHistoryCapacity u rowLimit byteLimit closed)) us False"

definition usage_ok :: "storage_usage \<Rightarrow> bool" where
  "usage_ok u \<longleftrightarrow> (\<exists>r b. live_rows u = Fin r \<and> estimated_live_storage_bytes u = Fin b \<and> 0 \<le> r \<and> 0 \<le> b)"

text \<open>A configured database with the settings \<open>stored\<close>, after the first half minute of 1970.\<close>

definition answers_ok :: "(string \<Rightarrow> url option) \<Rightarrow> (string \<rightharpoonup> string) \<Rightarrow> persist_env \<Rightarrow> rat \<Rightarrow> bool" where
  "answers_ok up stored e now \<longleftrightarrow> env_database e \<and> env_url e = up \<and> env_settings e = Some stored \<and> RECORD_SETTING_CACHE_MS \<le> now
     \<and> (\<forall>u. env_usage e = Some u \<longrightarrow> usage_ok u)"

fun event_ok :: "(string \<Rightarrow> url option) \<Rightarrow> (string \<rightharpoonup> string) \<Rightarrow> gate_event \<Rightarrow> bool" where
  "event_ok up stored (GateE e now) = answers_ok up stored e now"
| "event_ok up stored (GateRefreshE e now) = answers_ok up stored e now"
| "event_ok up stored GateRestartE = True"

subsection \<open>The invariant\<close>

definition row_bit :: "(string \<Rightarrow> url option) \<Rightarrow> (string \<rightharpoonup> string) \<Rightarrow> jsval \<Rightarrow> bool \<Rightarrow> bool" where
  "row_bit up stored row b = (case normalizeRecordCapacitySnapshot row of
       None \<Rightarrow> \<not> b
     | Some s \<Rightarrow> cap_limitRows s = recordHighWatermarkRows (configured up stored)
         \<and> cap_limitBytes s = recordHighWatermarkBytes (configured up stored) \<and> cap_blocked s = b)"

definition gate_bit :: "(string \<Rightarrow> url option) \<Rightarrow> (string \<rightharpoonup> string) \<Rightarrow> persist_do \<Rightarrow> bool \<Rightarrow> bool" where
  "gate_bit up stored d b \<longleftrightarrow> row_bit up stored (st_capacity d) b
     \<and> (recordCapacityBlocked d = b \<or> (recordCapacityNextCheckAt d = 0 \<and> \<not> recordCapacityBlocked d))
     \<and> (recordPersistenceCheckedAt d = 0 \<or> loaded up stored d)"

lemma configured_limits:
  "RECORD_HIGH_WATERMARK_MIN_ROWS \<le> recordHighWatermarkRows (configured up stored)" "recordHighWatermarkRows (configured up stored) \<le> RECORD_HIGH_WATERMARK_MAX_ROWS"
  "RECORD_HIGH_WATERMARK_MIN_BYTES \<le> recordHighWatermarkBytes (configured up stored)" "recordHighWatermarkBytes (configured up stored) \<le> RECORD_HIGH_WATERMARK_MAX_BYTES"
  by (simp_all add: configured_def load_settings_def Let_def bounded_setting_def RECORD_HIGH_WATERMARK_MIN_ROWS_def RECORD_HIGH_WATERMARK_MAX_ROWS_def
      RECORD_HIGH_WATERMARK_DEFAULT_ROWS_def RECORD_HIGH_WATERMARK_MIN_BYTES_def RECORD_HIGH_WATERMARK_MAX_BYTES_def
      RECORD_HIGH_WATERMARK_DEFAULT_BYTES_def split: jsnum.splits)

lemma settings_bit:
  assumes "gate_bit up stored d b" "answers_ok up stored e now"
  shows "gate_bit up stored (fst (do_isRecordPersistenceEnabled e now f d)) b" "loaded up stored (fst (do_isRecordPersistenceEnabled e now f d))"
proof -
  define d1 where "d1 = load_settings (buildAdminSettings up stored) up d"
  have l: "loaded up stored d1" unfolding d1_def by (rule loaded_here)
  have s: "st_capacity d1 = st_capacity d" "recordCapacityBlocked d1 = recordCapacityBlocked d" "recordCapacityNextCheckAt d1 = recordCapacityNextCheckAt d"
    by (simp_all add: d1_def load_settings_def Let_def)
  have cached: "loaded up stored d" if "now - recordPersistenceCheckedAt d < RECORD_SETTING_CACHE_MS"
    using that assms by (auto simp: gate_bit_def answers_ok_def)
  have "gate_bit up stored (fst (do_isRecordPersistenceEnabled e now f d)) b \<and> loaded up stored (fst (do_isRecordPersistenceEnabled e now f d))"
    using assms l s cached
    by (auto simp: do_isRecordPersistenceEnabled_def answers_ok_def d1_def [symmetric] gate_bit_def loaded_def)
  then show "gate_bit up stored (fst (do_isRecordPersistenceEnabled e now f d)) b" "loaded up stored (fst (do_isRecordPersistenceEnabled e now f d))"
    by blast+
qed

text \<open>A measurement stores a row that reads back, with the new verdict.\<close>

lemma delay_pos: "0 < capacityCheckDelayMs d"
  by (simp add: capacityCheckDelayMs_def RECORD_CAPACITY_CACHE_CRITICAL_MS_def RECORD_CAPACITY_CACHE_NEAR_MS_def RECORD_CAPACITY_CACHE_FAR_MS_def Let_def)

lemma measure_fields:
  "recordCapacityBlocked (measure_capacity u now d) = dec_blocked (evaluateHistoryCapacity u (recordHighWatermarkRows d) (recordHighWatermarkBytes d) (recordCapacityBlocked d))"
  "loaded up stored (measure_capacity u now d) = loaded up stored d"
  by (simp_all add: measure_capacity_def writeRecordCapacitySnapshot_def health_event_def Let_def loaded_def)

lemma stored_row_back:
  assumes "recordCapacityRows d = Fin r" "recordCapacityBytes d = Fin b" "0 \<le> r" "0 \<le> b" "0 < now" "now < recordCapacityNextCheckAt d"
    "recordHighWatermarkRows d = recordHighWatermarkRows (configured up stored)" "recordHighWatermarkBytes d = recordHighWatermarkBytes (configured up stored)"
  shows "normalizeRecordCapacitySnapshot (st_capacity (writeRecordCapacitySnapshot now d)) = Some \<lparr>cap_rows = r, cap_bytes = b,
     cap_blocked = recordCapacityBlocked d, cap_checkedAt = now, cap_nextCheckAt = recordCapacityNextCheckAt d,
     cap_limitRows = recordHighWatermarkRows d, cap_limitBytes = recordHighWatermarkBytes d\<rparr>"
  using assms configured_limits [of up stored]
  by (simp add: writeRecordCapacitySnapshot_def normalizeRecordCapacitySnapshot_def js_get_def finite_Number_def not_less not_le)

lemma measure_row:
  assumes "usage_ok u" "0 < now" "loaded up stored d"
  shows "row_bit up stored (st_capacity (measure_capacity u now d)) (recordCapacityBlocked (measure_capacity u now d))"
proof -
  obtain r b where u: "live_rows u = Fin r" "estimated_live_storage_bytes u = Fin b" "0 \<le> r" "0 \<le> b"
    using assms(1) by (auto simp: usage_ok_def)
  define d1 where "d1 = d\<lparr>recordCapacityRows := live_rows u, recordCapacityBytes := estimated_live_storage_bytes u,
    recordCapacityBlocked := dec_blocked (evaluateHistoryCapacity u (recordHighWatermarkRows d) (recordHighWatermarkBytes d) (recordCapacityBlocked d))\<rparr>"
  define d2 where "d2 = d1\<lparr>recordCapacityNextCheckAt := now + capacityCheckDelayMs d1\<rparr>"
  have st: "st_capacity (measure_capacity u now d) = st_capacity (writeRecordCapacitySnapshot now d2)"
    by (simp add: measure_capacity_def d1_def d2_def Let_def health_event_def)
  have bl: "recordCapacityBlocked (measure_capacity u now d) = recordCapacityBlocked d2"
    by (simp add: measure_fields d1_def d2_def)
  have lim: "recordHighWatermarkRows d2 = recordHighWatermarkRows (configured up stored)"
    "recordHighWatermarkBytes d2 = recordHighWatermarkBytes (configured up stored)"
    using assms(3) by (simp_all add: d1_def d2_def loaded_def)
  have r2: "recordCapacityRows d2 = Fin r" "recordCapacityBytes d2 = Fin b" "now < recordCapacityNextCheckAt d2"
    using u delay_pos [of d1] by (simp_all add: d2_def) (simp_all add: d1_def)
  show ?thesis unfolding row_bit_def st bl stored_row_back [OF r2(1,2) u(3,4) assms(2) r2(3) lim] by (simp add: lim)
qed

definition next_bit :: "(string \<Rightarrow> url option) \<Rightarrow> (string \<rightharpoonup> string) \<Rightarrow> storage_usage \<Rightarrow> bool \<Rightarrow> bool" where
  "next_bit up stored u b = dec_blocked (evaluateHistoryCapacity u (recordHighWatermarkRows (configured up stored))
     (recordHighWatermarkBytes (configured up stored)) b)"

lemma read_bit:
  assumes "gate_bit up stored d b" "loaded up stored d" "readReusableRecordCapacitySnapshot now d = (d1, r)"
  shows "recordCapacityBlocked d1 = b" "st_capacity d1 = st_capacity d" "loaded up stored d1" "\<And>s. r = Some s \<Longrightarrow> cap_blocked s = b"
  using assms by (auto simp: readReusableRecordCapacitySnapshot_def gate_bit_def row_bit_def loaded_def same_limits_def split: option.splits if_splits)

lemma capacity_bit:
  assumes g: "gate_bit up stored d b" and l: "loaded up stored d" and a: "answers_ok up stored e now"
  defines "us \<equiv> if now < recordCapacityNextCheckAt d \<or> snd (readReusableRecordCapacitySnapshot now d) \<noteq> None then []
                else (case env_usage e of Some u \<Rightarrow> [u] | None \<Rightarrow> [])"
  defines "b' \<equiv> fold (next_bit up stored) us b"
  shows "gate_bit up stored (fst (canPersistWithinCapacity e now d)) b' \<and> snd (canPersistWithinCapacity e now d) = (\<not> b')"
proof -
  have now: "0 < now" using a by (simp add: answers_ok_def RECORD_SETTING_CACHE_MS_def)
  obtain d1 r where r: "readReusableRecordCapacitySnapshot now d = (d1, r)" by fastforce
  note d1 = read_bit [OF g l r]
  have row: "row_bit up stored (st_capacity d1) b" using g d1(2) by (simp add: gate_bit_def)
  consider (cached) "now < recordCapacityNextCheckAt d" | (reused) s where "\<not> now < recordCapacityNextCheckAt d" "r = Some s"
    | (measured) u where "\<not> now < recordCapacityNextCheckAt d" "r = None" "env_usage e = Some u"
    | (failed) "\<not> now < recordCapacityNextCheckAt d" "r = None" "env_usage e = None"
    by fastforce
  then show ?thesis
  proof cases
    case cached
    then have "recordCapacityBlocked d = b" using g now by (auto simp: gate_bit_def)
    then show ?thesis using cached g a by (simp add: canPersistWithinCapacity_def answers_ok_def us_def b'_def)
  next
    case reused
    then show ?thesis using a row d1(3,4)
      by (simp add: canPersistWithinCapacity_def answers_ok_def us_def b'_def r applyRecordCapacitySnapshot_def gate_bit_def loaded_def Let_def)
  next
    case measured
    have u: "usage_ok u" using a measured(3) by (simp add: answers_ok_def)
    have "recordCapacityBlocked (measure_capacity u now d1) = next_bit up stored u b"
      using d1(1,3) by (simp add: measure_fields next_bit_def loaded_def)
    then show ?thesis using measured a measure_row [OF u now d1(3)] d1(3)
      by (simp add: canPersistWithinCapacity_def answers_ok_def us_def b'_def r gate_bit_def Let_def measure_fields(2))
  next
    case failed
    then show ?thesis using a row d1(1,3)
      by (simp add: canPersistWithinCapacity_def answers_ok_def us_def b'_def r gate_bit_def Let_def health_event_def loaded_def)
  qed
qed

lemma gate_bit_step:
  assumes g: "gate_bit up stored d b" and a: "answers_ok up stored e now"
  shows "gate_bit up stored (fst (history_gate e now d)) (fold (next_bit up stored) (measurement e now d) b)
    \<and> snd (history_gate e now d) = (recordPersistenceEnabled (configured up stored) \<and> \<not> fold (next_bit up stored) (measurement e now d) b)"
proof -
  obtain d1 on where e1: "do_isRecordPersistenceEnabled e now False d = (d1, on)" by fastforce
  have d1: "gate_bit up stored d1 b" "loaded up stored d1" using settings_bit [OF g a, of False] by (simp_all add: e1)
  have "on = recordPersistenceEnabled d1"
    using e1 a by (auto simp: do_isRecordPersistenceEnabled_def answers_ok_def Let_def split: if_splits)
  then have "on = recordPersistenceEnabled (configured up stored)" using d1(2) by (simp add: loaded_def)
  then show ?thesis using d1(1) capacity_bit [OF d1 a]
    by (cases on) (simp_all add: history_gate_def measurement_def e1)
qed

lemma gate_event_step:
  assumes "gate_bit up stored d (hysteresis R B us)" "event_ok up stored ev" "gate_step ev (d, us) = (d', us')"
    and R: "R = recordHighWatermarkRows (configured up stored)" "B = recordHighWatermarkBytes (configured up stored)"
  shows "gate_bit up stored d' (hysteresis R B us')"
proof (cases ev)
  case (GateE e now)
  have "hysteresis R B us' = fold (next_bit up stored) (measurement e now d) (hysteresis R B us)"
    using assms(3) GateE by (auto simp: hysteresis_def R next_bit_def [abs_def])
  then show ?thesis using gate_bit_step [OF assms(1), of e now] assms(2,3) GateE by auto
next
  case (GateRefreshE e now)
  then show ?thesis using settings_bit [OF assms(1), of e now True] assms(2,3)
    by (auto simp: record_settings_refresh_def invalidateRecordCapacityMemorySnapshot_def gate_bit_def loaded_def)
next
  case GateRestartE
  then show ?thesis using assms(1,3) by (auto simp: restarted_def gate_bit_def)
qed

lemma gate_run:
  assumes "\<forall>ev \<in> set evs. event_ok up stored ev" "gate_bit up stored d (hysteresis R B us)"
    and R: "R = recordHighWatermarkRows (configured up stored)" "B = recordHighWatermarkBytes (configured up stored)"
    and "fold gate_step evs (d, us) = (d', us')"
  shows "gate_bit up stored d' (hysteresis R B us')"
  using assms(1,2,5)
proof (induction evs arbitrary: d us)
  case (Cons ev evs)
  obtain d1 us1 where s: "gate_step ev (d, us) = (d1, us1)" by fastforce
  have "gate_bit up stored d1 (hysteresis R B us1)" using gate_event_step [OF Cons.prems(2) _ s R] Cons.prems(1) by simp
  then show ?case using Cons.IH Cons.prems s by simp
qed simp

lemma gate_start: "gate_bit up stored new_persist_do (hysteresis R B [])"
  by (simp add: gate_bit_def row_bit_def new_persist_do_def restarted_def normalizeRecordCapacitySnapshot_def hysteresis_def)


text \<open>A measurement, a restart, and a call of the gate afterwards.\<close>

definition sample_gate_events :: "gate_event list" where
  "sample_gate_events = [GateE sample_db_env 60000, GateRestartE]"


end
