(* ===== verification/PingPersist.thy ===== *)
theory PingPersist
  imports HistoryCapacity PingTask
begin

section \<open>Ping results: intervals, compression and the endpoint\<close>

text \<open>
  The ping half of the history writer in \<open>do/live-data.ts\<close>. A result is taken if the interval of its
  task has passed since the last one taken; it is written if its value moved or the last row is old. If
  one result of a batch is written, all results taken are. The state of a task is cached in memory and
  kept in storage. Writes of one node are queued by \<open>runPingWrite\<close>, so an operation sees the state the
  previous one left. The tasks of \<open>getPingTasks\<close> are an answer of the database.
\<close>

subsection \<open>Results and their states\<close>

record interval_result =
  ir_taskId :: int
  ir_value :: rat
  ir_intervalSec :: "rat option"

definition HTTP_PING_RESULT_MAX_BODY_BYTES :: nat where "HTTP_PING_RESULT_MAX_BODY_BYTES = 64 * 1024"
definition PING_VALUE_CHANGE_THRESHOLD_MS :: rat where "PING_VALUE_CHANGE_THRESHOLD_MS = 5"
definition PING_UNCHANGED_HEARTBEAT_MS :: rat where "PING_UNCHANGED_HEARTBEAT_MS = 30 * 60000"

definition trusted_result :: "jsval \<Rightarrow> interval_result option" where
  "trusted_result raw = (case raw of
       Obj item \<Rightarrow>
         (case (js_Number (js_get item ''task_id''), js_Number (js_get item ''value''), js_Number (js_get item ''interval_sec'')) of
            (taskId, Fin v, Fin intervalSec) \<Rightarrow>
              if \<not> js_isInteger taskId \<or> js_le taskId (Fin 0) \<or> (v \<noteq> PING_LOSS_VALUE \<and> (v < 0 \<or> MAX_PING_VALUE_MS < v)) then None
              else Some \<lparr>ir_taskId = js_int taskId, ir_value = v, ir_intervalSec = Some intervalSec\<rparr>
          | _ \<Rightarrow> None)
     | _ \<Rightarrow> None)"

definition trustedPingResults :: "jsval \<Rightarrow> interval_result list option" where
  "trustedPingResults input = (case input of
       Arr raws \<Rightarrow> if raws = [] \<or> MAX_PING_RESULTS_PER_REPORT < length raws then None else those (map trusted_result raws)
     | _ \<Rightarrow> None)"

definition pingResultIntervalMs :: "rat option \<Rightarrow> persist_do \<Rightarrow> rat" where
  "pingResultIntervalMs intervalSec d = (case intervalSec of
       Some seconds \<Rightarrow> if 0 < seconds then min (max (of_int \<lfloor>seconds\<rfloor>) 3) 3600 * 1000 else pingRecordPersistIntervalMs d
     | None \<Rightarrow> pingRecordPersistIntervalMs d)"

definition pingResultStateKey :: "string \<Rightarrow> int \<Rightarrow> string" where
  "pingResultStateKey clientId taskId = ''ping-result:'' @ clientId @ '':'' @ int_to_str taskId"

definition normalizePingResultState :: "jsval \<Rightarrow> ping_state" where
  "normalizePingResultState raw = (case raw of
       Num (Fin q) \<Rightarrow> \<lparr>lastAcceptedMs = q, pvalue = None, persistedAt = None\<rparr>
     | Obj v \<Rightarrow>
         \<lparr>lastAcceptedMs = (case js_Number (js_or (js_get v ''lastAcceptedMs'') (Num (Fin 0))) of Fin q \<Rightarrow> q | _ \<Rightarrow> 0),
          pvalue = (case js_Number (js_get v ''value'') of Fin q \<Rightarrow> Some q | _ \<Rightarrow> None),
          persistedAt = (case js_Number (js_or (js_get v ''persistedAt'') (Num (Fin 0))) of Fin q \<Rightarrow> if 0 < q then Some q else None | _ \<Rightarrow> None)\<rparr>
     | _ \<Rightarrow> \<lparr>lastAcceptedMs = 0, pvalue = None, persistedAt = None\<rparr>)"

definition ping_state_value :: "ping_state \<Rightarrow> jsval" where
  "ping_state_value s = Obj ((''lastAcceptedMs'', Num (Fin (lastAcceptedMs s)))
     # (case pvalue s of Some v \<Rightarrow> [(''value'', Num (Fin v))] | None \<Rightarrow> [])
     @ (case persistedAt s of Some t \<Rightarrow> [(''persistedAt'', Num (Fin t))] | None \<Rightarrow> []))"

text \<open>What \<open>readPingResultState\<close> returns; the read also fills the cache.\<close>

definition ping_state_of :: "string \<Rightarrow> persist_do \<Rightarrow> ping_state" where
  "ping_state_of key d = (case pingResultStateCache d key of
       Some s \<Rightarrow> s | None \<Rightarrow> normalizePingResultState (case st_ping d key of Some raw \<Rightarrow> raw | None \<Rightarrow> Undef))"

definition readPingResultState :: "string \<Rightarrow> persist_do \<Rightarrow> persist_do \<times> ping_state" where
  "readPingResultState key d = (d\<lparr>pingResultStateCache := (pingResultStateCache d)(key \<mapsto> ping_state_of key d)\<rparr>, ping_state_of key d)"

definition writePingResultState :: "string \<Rightarrow> ping_state \<Rightarrow> persist_do \<Rightarrow> persist_do" where
  "writePingResultState key s d = d\<lparr>st_ping := (st_ping d)(key \<mapsto> ping_state_value s),
     pingResultStateCache := (pingResultStateCache d)(key \<mapsto> s)\<rparr>"

definition shouldPersistPingResult :: "interval_result \<Rightarrow> ping_state \<Rightarrow> rat \<Rightarrow> bool" where
  "shouldPersistPingResult result s nowMs = (case (pvalue s, persistedAt s) of
       (Some previousValue, Some previousPersistedAt) \<Rightarrow>
         if previousPersistedAt \<le> 0 then True
         else (let currentLost = (ir_value result = PING_LOSS_VALUE); previousLost = (previousValue = PING_LOSS_VALUE)
               in if currentLost \<noteq> previousLost then True
                  else if currentLost then PING_UNCHANGED_HEARTBEAT_MS \<le> nowMs - previousPersistedAt
                  else if PING_VALUE_CHANGE_THRESHOLD_MS \<le> \<bar>ir_value result - previousValue\<bar> then True
                  else PING_UNCHANGED_HEARTBEAT_MS \<le> nowMs - previousPersistedAt)
     | _ \<Rightarrow> True)"

subsection \<open>Batches\<close>

definition interval_open :: "string \<Rightarrow> interval_result \<Rightarrow> rat \<Rightarrow> persist_do \<Rightarrow> bool" where
  "interval_open clientId r nowMs d =
     (let s = ping_state_of (pingResultStateKey clientId (ir_taskId r)) d
      in \<not> (lastAcceptedMs s \<noteq> 0 \<and> nowMs - lastAcceptedMs s < pingResultIntervalMs (ir_intervalSec r) d))"

fun select_due :: "string \<Rightarrow> interval_result list \<Rightarrow> rat \<Rightarrow> persist_do \<Rightarrow> persist_do \<times> interval_result list \<times> interval_result list" where
  "select_due clientId [] nowMs d = (d, [], [])"
| "select_due clientId (r # rs) nowMs d =
     (case readPingResultState (pingResultStateKey clientId (ir_taskId r)) d of
        (d1, s) \<Rightarrow> (case select_due clientId rs nowMs d1 of
          (d2, due, taken) \<Rightarrow>
            if \<not> interval_open clientId r nowMs d then (d2, due, taken)
            else (d2, r # due, if shouldPersistPingResult r s nowMs then r # taken else taken)))"

definition touch_result :: "string \<Rightarrow> rat \<Rightarrow> interval_result \<Rightarrow> persist_do \<Rightarrow> persist_do" where
  "touch_result clientId nowMs r d =
     (let key = pingResultStateKey clientId (ir_taskId r); (d1, s) = readPingResultState key d
      in writePingResultState key (s\<lparr>lastAcceptedMs := nowMs\<rparr>) d1)"

definition filterTrustedPingResultsByInterval ::
  "string \<Rightarrow> interval_result list \<Rightarrow> rat \<Rightarrow> persist_do \<Rightarrow> persist_do \<times> interval_result list" where
  "filterTrustedPingResultsByInterval clientId results nowMs d = (case select_due clientId results nowMs d of
       (d1, due, taken) \<Rightarrow> if taken \<noteq> [] then (d1, due) else (fold (touch_result clientId nowMs) due d1, []))"

definition filterPingResultsByInterval ::
  "string \<Rightarrow> ping_result list \<Rightarrow> ping_task list \<Rightarrow> rat \<Rightarrow> persist_do \<Rightarrow> persist_do \<times> interval_result list" where
  "filterPingResultsByInterval clientId results tasks nowMs d =
     filterTrustedPingResultsByInterval clientId
       (map (\<lambda>r. \<lparr>ir_taskId = pr_taskId r, ir_value = pr_value r,
                  ir_intervalSec = map_option (\<lambda>t. of_int (pt_interval_sec t)) (task_map tasks (pr_taskId r))\<rparr>) results) nowMs d"

definition persisted_state :: "string \<Rightarrow> rat \<Rightarrow> persist_do \<Rightarrow> interval_result \<Rightarrow> ping_state" where
  "persisted_state key nowMs d r =
     (let previous = (case pingResultStateCache d key of Some s \<Rightarrow> s | None \<Rightarrow> \<lparr>lastAcceptedMs = nowMs, pvalue = None, persistedAt = None\<rparr>)
      in \<lparr>lastAcceptedMs = max (lastAcceptedMs previous) nowMs, pvalue = Some (ir_value r), persistedAt = Some nowMs\<rparr>)"

definition markPingResultsPersisted :: "string \<Rightarrow> interval_result list \<Rightarrow> rat \<Rightarrow> persist_do \<Rightarrow> persist_do" where
  "markPingResultsPersisted clientId results nowMs d =
     (let updates = map (\<lambda>r. let key = pingResultStateKey clientId (ir_taskId r) in (key, persisted_state key nowMs d r)) results
      in d\<lparr>st_ping := st_ping d ++ map_of (rev (map (\<lambda>(key, s). (key, ping_state_value s)) updates)),
           pingResultStateCache := pingResultStateCache d ++ map_of (rev updates)\<rparr>)"

subsection \<open>Operations\<close>

text \<open>\<open>toISOString\<close> throws outside the range of dates.\<close>

definition valid_date :: "rat \<Rightarrow> bool" where
  "valid_date t \<longleftrightarrow> \<bar>t\<bar> \<le> 8640000000000000"

definition write_pings :: "persist_env \<Rightarrow> string \<Rightarrow> interval_result list \<Rightarrow> rat \<Rightarrow> persist_do \<Rightarrow> persist_do option" where
  "write_pings e clientId taken nowMs d =
     (if \<not> valid_date nowMs \<or> \<not> env_insertPing e then None
      else Some (recordHotPathHealthOk ''ping_persistence'' nowMs e (markPingResultsPersisted clientId taken nowMs
                   (d\<lparr>db_pings := db_pings d @ [(clientId, nowMs, map (\<lambda>r. (ir_taskId r, ir_value r)) taken)]\<rparr>))))"

datatype ping_outcome =
    Rejected response
  | Unavailable
  | HistoryDisabled
  | CapacityLimited
  | InvalidResults result_error
  | RateLimited
  | Accepted nat
  | PersistFailed

fun outcome_status :: "ping_outcome \<Rightarrow> nat" where
  "outcome_status (Rejected r) = fst r"
| "outcome_status Unavailable = 500"
| "outcome_status (InvalidResults err) = result_status err"
| "outcome_status PersistFailed = 500"
| "outcome_status _ = 200"

definition ping_error :: "persist_do \<Rightarrow> persist_do" where
  "ping_error d = health_event ''ping_persistence'' ''error'' d"

definition store_accepted :: "persist_env \<Rightarrow> string \<Rightarrow> rat \<Rightarrow> persist_do \<times> interval_result list \<Rightarrow> persist_do \<times> ping_outcome" where
  "store_accepted e clientId nowMs da = (case da of (d, taken) \<Rightarrow>
     if taken = [] then (d, RateLimited)
     else (case write_pings e clientId taken nowMs d of
         Some d' \<Rightarrow> (d', Accepted (length taken)) | None \<Rightarrow> (ping_error d, PersistFailed)))"

text \<open>The queued part of the endpoint, and the writer used for reports; the latter throws where \<open>PersistFailed\<close>.\<close>

definition choose_results :: "persist_env \<Rightarrow> string \<Rightarrow> jsval \<Rightarrow> rat \<Rightarrow> persist_do \<Rightarrow> persist_do \<times> ping_outcome" where
  "choose_results e clientId input nowMs d = (case env_tasks e of
       None \<Rightarrow> (ping_error d, PersistFailed)
     | Some tasks \<Rightarrow> (case validatePingResults input tasks clientId of
           Inl err \<Rightarrow> (d, InvalidResults err)
         | Inr results \<Rightarrow> store_accepted e clientId nowMs (filterPingResultsByInterval clientId results tasks nowMs d)))"

definition accept_results :: "persist_env \<Rightarrow> string \<Rightarrow> jsval \<Rightarrow> rat \<Rightarrow> persist_do \<Rightarrow> persist_do \<times> ping_outcome" where
  "accept_results e clientId results nowMs d = (case do_isRecordPersistenceEnabled e nowMs False d of
       (d1, False) \<Rightarrow> (d1, HistoryDisabled)
     | (d1, True) \<Rightarrow> (case canPersistWithinCapacity e nowMs d1 of
           (d2, False) \<Rightarrow> (d2, CapacityLimited)
         | (d2, True) \<Rightarrow> (case trustedPingResults results of
               Some trusted \<Rightarrow> store_accepted e clientId nowMs (filterTrustedPingResultsByInterval clientId trusted nowMs d2)
             | None \<Rightarrow> choose_results e clientId results nowMs d2)))"

definition updateHttpPingResult :: "persist_env \<Rightarrow> rat \<Rightarrow> do_request \<Rightarrow> persist_do \<Rightarrow> persist_do \<times> ping_outcome" where
  "updateHttpPingResult e clock request d = (case parseJsonRequestWithLimit request HTTP_PING_RESULT_MAX_BODY_BYTES of
       Inl resp \<Rightarrow> (d, Rejected resp)
     | Inr payload \<Rightarrow> (case (js_get payload ''client_id'', js_get payload ''results'') of
           (Str clientId, Arr results) \<Rightarrow>
             if \<not> env_database e then (d, Unavailable)
             else accept_results e clientId (Arr results)
                    (case js_Number (js_get payload ''timestamp'') of Fin t \<Rightarrow> t | _ \<Rightarrow> clock) d
         | _ \<Rightarrow> (d, Rejected (json_error 400 ''Invalid ping result payload''))))"

definition persistQueuedPingResult :: "persist_env \<Rightarrow> string \<Rightarrow> jsval \<Rightarrow> rat \<Rightarrow> persist_do \<Rightarrow> persist_do \<times> ping_outcome" where
  "persistQueuedPingResult e clientId result nowMs d =
     (if \<not> env_database e then (d, Unavailable)
      else case do_isRecordPersistenceEnabled e nowMs False d of
          (d1, False) \<Rightarrow> (d1, HistoryDisabled)
        | (d1, True) \<Rightarrow> (case canPersistWithinCapacity e nowMs d1 of
              (d2, False) \<Rightarrow> (d2, CapacityLimited) | (d2, True) \<Rightarrow> choose_results e clientId result nowMs d2))"

definition pingResultsFromReport :: "jsobj \<Rightarrow> jsval list" where
  "pingResultsFromReport report = (case js_get report ''ping_results'' of
       Arr xs \<Rightarrow> xs
     | _ \<Rightarrow> (case js_get report ''ping'' of Obj ping \<Rightarrow> (case js_get ping ''results'' of Arr xs \<Rightarrow> xs | _ \<Rightarrow> []) | _ \<Rightarrow> []))"

definition persistPingResultsFromReport :: "persist_env \<Rightarrow> string \<Rightarrow> jsobj \<Rightarrow> rat \<Rightarrow> persist_do \<Rightarrow> persist_do" where
  "persistPingResultsFromReport e clientId report nowMs d =
     (let results = pingResultsFromReport report
      in if results = [] then d else fst (persistQueuedPingResult e clientId (Obj [(''results'', Arr results)]) nowMs d))"

subsection \<open>What selection does\<close>

lemma read_state_frame:
  assumes "readPingResultState key d = (d1, s)"
  shows "s = ping_state_of key d" "ping_state_of k d1 = ping_state_of k d" "st_ping d1 = st_ping d" "db_pings d1 = db_pings d"
    "pingRecordPersistIntervalMs d1 = pingRecordPersistIntervalMs d" "pingResultStateCache d1 key = Some (ping_state_of key d)"
    "pingResultStateCache d k = Some x \<Longrightarrow> pingResultStateCache d1 k = Some x"
proof -
  have d1: "d1 = d\<lparr>pingResultStateCache := (pingResultStateCache d)(key \<mapsto> ping_state_of key d)\<rparr>" and s: "s = ping_state_of key d"
    using assms unfolding readPingResultState_def by blast+
  show "s = ping_state_of key d" by (rule s)
  show "ping_state_of k d1 = ping_state_of k d" by (cases "k = key") (simp_all add: d1 ping_state_of_def split: option.split)
  show "pingResultStateCache d k = Some x \<Longrightarrow> pingResultStateCache d1 k = Some x" by (auto simp: d1 ping_state_of_def)
qed (use assms in \<open>auto simp: readPingResultState_def\<close>)

lemma interval_open_cong:
  "(\<And>k. ping_state_of k d1 = ping_state_of k d) \<Longrightarrow> pingRecordPersistIntervalMs d1 = pingRecordPersistIntervalMs d
   \<Longrightarrow> interval_open c r now d1 = interval_open c r now d"
  by (simp add: interval_open_def pingResultIntervalMs_def Let_def split: option.split)

abbreviation pkey :: "string \<Rightarrow> interval_result \<Rightarrow> string" where
  "pkey c r \<equiv> pingResultStateKey c (ir_taskId r)"

text \<open>Selection only fills the cache; the states it selects by are those of the start.\<close>

definition same_states :: "persist_do \<Rightarrow> persist_do \<Rightarrow> bool" where
  "same_states d d1 \<longleftrightarrow> (\<forall>k. ping_state_of k d1 = ping_state_of k d) \<and> st_ping d1 = st_ping d \<and> db_pings d1 = db_pings d
     \<and> pingRecordPersistIntervalMs d1 = pingRecordPersistIntervalMs d
     \<and> (\<forall>k x. pingResultStateCache d k = Some x \<longrightarrow> pingResultStateCache d1 k = Some x)"

lemma same_states_read: "readPingResultState key d = (d1, s) \<Longrightarrow> same_states d d1"
  by (simp add: same_states_def read_state_frame(2-5,7))

lemma same_states_trans: "same_states a b \<Longrightarrow> same_states b c \<Longrightarrow> same_states a c"
  by (simp add: same_states_def)

lemma same_states_open: "same_states d d1 \<Longrightarrow> interval_open c r now d1 = interval_open c r now d"
  by (rule interval_open_cong) (simp_all add: same_states_def)

lemma select_due_spec:
  assumes "select_due c rs now d = (d1, due, kept)"
  shows "due = filter (\<lambda>r. interval_open c r now d) rs"
    "kept = filter (\<lambda>r. interval_open c r now d \<and> shouldPersistPingResult r (ping_state_of (pkey c r) d) now) rs"
    "same_states d d1" "\<forall>r \<in> set rs. pingResultStateCache d1 (pkey c r) = Some (ping_state_of (pkey c r) d)"
  using assms
proof (atomize (full), induction rs arbitrary: d d1 due kept)
  case Nil
  then show ?case by (simp add: same_states_def)
next
  case (Cons r rs)
  obtain d2 s where r: "readPingResultState (pkey c r) d = (d2, s)" by fastforce
  note f = same_states_read [OF r] read_state_frame(1,6) [OF r]
  have st: "ping_state_of k d2 = ping_state_of k d" for k using f(1) by (simp add: same_states_def)
  obtain due' kept' where s: "select_due c rs now d2 = (d1, due', kept')"
      "due = (if interval_open c r now d then r # due' else due')"
      "kept = (if interval_open c r now d \<and> shouldPersistPingResult r s now then r # kept' else kept')"
    using Cons.prems r by (auto split: prod.splits if_splits)
  have ih: "due' = filter (\<lambda>r. interval_open c r now d2) rs"
    "kept' = filter (\<lambda>r. interval_open c r now d2 \<and> shouldPersistPingResult r (ping_state_of (pkey c r) d2) now) rs"
    "same_states d2 d1" "\<forall>r \<in> set rs. pingResultStateCache d1 (pkey c r) = Some (ping_state_of (pkey c r) d2)"
    using Cons.IH [OF s(1)] by blast+
  have "pingResultStateCache d1 (pkey c r) = Some (ping_state_of (pkey c r) d)" using ih(3) f(3) by (simp add: same_states_def)
  then have "\<forall>x \<in> set (r # rs). pingResultStateCache d1 (pkey c x) = Some (ping_state_of (pkey c x) d)"
    using ih(4) by (simp add: st)
  moreover have "same_states d d1" by (rule same_states_trans [OF f(1) ih(3)])
  ultimately show ?case using s(2,3) ih(1,2) by (simp add: f(2) st same_states_open [OF f(1)])
qed

text \<open>A stored state reads back.\<close>

definition state_ok :: "ping_state \<Rightarrow> bool" where
  "state_ok s \<longleftrightarrow> (\<forall>t. persistedAt s = Some t \<longrightarrow> 0 < t)"

lemma normalize_state_ok: "state_ok (normalizePingResultState raw)"
  by (auto simp: normalizePingResultState_def state_ok_def split: jsval.splits jsnum.splits if_splits)

lemma ping_state_back: "state_ok s \<Longrightarrow> normalizePingResultState (ping_state_value s) = s"
  by (cases s) (auto simp: normalizePingResultState_def ping_state_value_def js_get_def js_or_def state_ok_def split: option.splits)

definition stored_state :: "string \<Rightarrow> persist_do \<Rightarrow> ping_state" where
  "stored_state key d = normalizePingResultState (case st_ping d key of Some raw \<Rightarrow> raw | None \<Rightarrow> Undef)"

definition cache_ok :: "persist_do \<Rightarrow> bool" where
  "cache_ok d \<longleftrightarrow> (\<forall>key s. pingResultStateCache d key = Some s \<longrightarrow> s = stored_state key d)"

lemma cache_ok_state: "cache_ok d \<Longrightarrow> ping_state_of key d = stored_state key d"
  by (auto simp: cache_ok_def ping_state_of_def stored_state_def split: option.splits)

lemma interval_least:
  assumes "60000 \<le> pingRecordPersistIntervalMs d"
  shows "3000 \<le> pingResultIntervalMs sec d"
  using assms by (auto simp: pingResultIntervalMs_def split: option.splits)

text \<open>Keys of different nodes or tasks differ.\<close>

lemma last_colon: "x @ CHR '':'' # a = y @ CHR '':'' # b \<Longrightarrow> CHR '':'' \<notin> set a \<Longrightarrow> CHR '':'' \<notin> set b \<Longrightarrow> x = y \<and> a = b"
proof -
  assume eq: "x @ CHR '':'' # a = y @ CHR '':'' # b" and n: "CHR '':'' \<notin> set a" "CHR '':'' \<notin> set b"
  have tw: "takeWhile (\<lambda>h. h \<noteq> CHR '':'') (rev (z @ CHR '':'' # w)) = rev w" if "CHR '':'' \<notin> set w" for z w :: string
    using that by (subst rev_append, simp, subst takeWhile_append2) auto
  have "rev a = rev b" using tw [OF n(1), of x] tw [OF n(2), of y] eq by simp
  then show ?thesis using eq by simp
qed

lemma nat_to_str_free: "\<not> is_digit h \<Longrightarrow> h \<notin> set (nat_to_str n)"
  using nat_to_str_digits [of n] by (auto simp: list_all_iff)

lemma nat_to_str_eq: "nat_to_str m = nat_to_str n \<longleftrightarrow> m = n"
  by (metis digits_val_nat_to_str)

lemma int_to_str_eq: "int_to_str i = int_to_str j \<longleftrightarrow> i = j"
proof
  have n: "\<And>m. CHR ''-'' \<notin> set (nat_to_str m)" by (rule nat_to_str_free) (simp add: is_digit_def cc_def)
  assume eq: "int_to_str i = int_to_str j"
  then have "i < 0 \<longleftrightarrow> j < 0" using n by (auto simp: int_to_str_def split: if_splits) (metis list.set_intros(1))+
  then have "nat \<bar>i\<bar> = nat \<bar>j\<bar>" using eq by (auto simp: int_to_str_def nat_to_str_eq split: if_splits)
  then show "i = j" using \<open>i < 0 \<longleftrightarrow> j < 0\<close> by linarith
qed simp

lemma pkey_eq: "pingResultStateKey c i = pingResultStateKey c' j \<longleftrightarrow> c = c' \<and> i = j"
proof -
  have "CHR '':'' \<notin> set (int_to_str k)" for k
    using nat_to_str_free [of "CHR '':''"] by (simp add: int_to_str_def is_digit_def cc_def)
  then show ?thesis using last_colon [of c "int_to_str i" c' "int_to_str j"] by (auto simp: pingResultStateKey_def int_to_str_eq)
qed

subsection \<open>The rows of a task\<close>

definition batch_times :: "string \<Rightarrow> int \<Rightarrow> persist_do \<Rightarrow> rat list" where
  "batch_times c task d = map (\<lambda>b. fst (snd b)) (filter (\<lambda>b. fst b = c \<and> task \<in> fst ` set (snd (snd b))) (db_pings d))"

definition batch_samples :: "string \<Rightarrow> int \<Rightarrow> string \<times> rat \<times> (int \<times> rat) list \<Rightarrow> (rat \<times> rat) list" where
  "batch_samples c task b = (if fst b = c then map (\<lambda>tv. (fst (snd b), snd tv)) (filter (\<lambda>tv. fst tv = task) (snd (snd b))) else [])"

definition samples :: "string \<Rightarrow> int \<Rightarrow> persist_do \<Rightarrow> (rat \<times> rat) list" where
  "samples c task d = concat (map (batch_samples c task) (db_pings d))"

definition task_inv :: "ping_state \<Rightarrow> rat list \<Rightarrow> (rat \<times> rat) list \<Rightarrow> bool" where
  "task_inv s ts xs \<longleftrightarrow> sorted_wrt (\<lambda>a b. a + 3000 \<le> b) ts \<and> (\<forall>t \<in> set ts. 0 < t \<and> t \<le> lastAcceptedMs s)
     \<and> (\<forall>v t. pvalue s = Some v \<longrightarrow> persistedAt s = Some t \<longrightarrow> xs \<noteq> [] \<and> last xs = (t, v))"

definition ping_inv :: "persist_do \<Rightarrow> bool" where
  "ping_inv d \<longleftrightarrow> 60000 \<le> pingRecordPersistIntervalMs d \<and> cache_ok d
     \<and> (\<forall>c task. task_inv (stored_state (pingResultStateKey c task) d) (batch_times c task d) (samples c task d))"

text \<open>Operations that leave the cache, the rows and the states alone keep the invariant.\<close>

definition ping_view :: "persist_do \<Rightarrow> (string \<rightharpoonup> ping_state) \<times> (string \<rightharpoonup> jsval) \<times> (string \<times> rat \<times> (int \<times> rat) list) list" where
  "ping_view d = (pingResultStateCache d, st_ping d, db_pings d)"

lemma ping_inv_frame: "ping_inv d \<Longrightarrow> ping_view d' = ping_view d \<Longrightarrow> 60000 \<le> pingRecordPersistIntervalMs d' \<Longrightarrow> ping_inv d'"
  by (simp add: ping_inv_def ping_view_def cache_ok_def stored_state_def batch_times_def samples_def)

lemma health_ping [simp]: "ping_view (health_event a b d) = ping_view d" "pingRecordPersistIntervalMs (health_event a b d) = pingRecordPersistIntervalMs d"
  "ping_view (recordHotPathHealthOk a now e d) = ping_view d" "pingRecordPersistIntervalMs (recordHotPathHealthOk a now e d) = pingRecordPersistIntervalMs d"
  by (simp_all add: health_event_def recordHotPathHealthOk_def ping_view_def Let_def)

lemma enabled_ping:
  "ping_view (fst (do_isRecordPersistenceEnabled e now f d)) = ping_view d"
  "60000 \<le> pingRecordPersistIntervalMs d \<Longrightarrow> 60000 \<le> pingRecordPersistIntervalMs (fst (do_isRecordPersistenceEnabled e now f d))"
  by (auto simp: do_isRecordPersistenceEnabled_def load_settings_def ping_view_def health_event_def
      MIN_PING_RECORD_PERSIST_INTERVAL_MS_def MAX_PING_RECORD_PERSIST_INTERVAL_MS_def Let_def split: option.splits)

lemma capacity_ping:
  "ping_view (fst (canPersistWithinCapacity e now d)) = ping_view d"
  "pingRecordPersistIntervalMs (fst (canPersistWithinCapacity e now d)) = pingRecordPersistIntervalMs d"
  by (simp_all add: canPersistWithinCapacity_def readReusableRecordCapacitySnapshot_def applyRecordCapacitySnapshot_def measure_capacity_def
      writeRecordCapacitySnapshot_def health_event_def ping_view_def Let_def split: option.split)

lemma gate_ping_inv:
  "ping_inv d \<Longrightarrow> ping_inv (fst (do_isRecordPersistenceEnabled e now f d))"
  "ping_inv d \<Longrightarrow> ping_inv (fst (canPersistWithinCapacity e now d))"
  "ping_inv d \<Longrightarrow> ping_inv (health_event a b d)" "ping_inv d \<Longrightarrow> ping_inv (recordHotPathHealthOk a now e d)"
  by (rule ping_inv_frame; simp add: enabled_ping capacity_ping ping_inv_def)+

lemma select_ping_inv:
  assumes "ping_inv d" "same_states d d1"
  shows "ping_inv d1"
proof -
  have "cache_ok d1"
    unfolding cache_ok_def
  proof (intro allI impI)
    fix key s assume "pingResultStateCache d1 key = Some s"
    then have "s = ping_state_of key d1" by (simp add: ping_state_of_def)
    also have "\<dots> = stored_state key d" using assms cache_ok_state by (simp add: same_states_def ping_inv_def)
    also have "\<dots> = stored_state key d1" using assms(2) by (simp add: stored_state_def same_states_def)
    finally show "s = stored_state key d1" .
  qed
  then show ?thesis using assms by (simp add: ping_inv_def same_states_def stored_state_def batch_times_def samples_def)
qed

lemma open_state:
  assumes "ping_inv d" "interval_open c r now d" "0 < now"
  shows "lastAcceptedMs (stored_state (pkey c r) d) \<le> now" "t \<in> set (batch_times c (ir_taskId r) d) \<Longrightarrow> t + 3000 \<le> now"
proof -
  define s where "s = stored_state (pkey c r) d"
  have s: "ping_state_of (pkey c r) d = s" using assms(1) cache_ok_state by (simp add: s_def ping_inv_def)
  have i: "3000 \<le> pingResultIntervalMs (ir_intervalSec r) d" using assms(1) by (intro interval_least) (simp add: ping_inv_def)
  have o: "lastAcceptedMs s = 0 \<or> lastAcceptedMs s + 3000 \<le> now"
    using assms(2) i by (auto simp: interval_open_def s)
  then show "lastAcceptedMs (stored_state (pkey c r) d) \<le> now" using assms(3) by (auto simp: s_def)
  assume "t \<in> set (batch_times c (ir_taskId r) d)"
  then have "0 < t" "t \<le> lastAcceptedMs s" using assms(1) by (auto simp: ping_inv_def task_inv_def s_def)
  then show "t + 3000 \<le> now" using o by auto
qed

lemma touch_step:
  assumes "ping_inv d" "lastAcceptedMs (stored_state (pkey c r) d) \<le> now"
  shows "ping_inv (touch_result c now r d)"
    "lastAcceptedMs (stored_state k (touch_result c now r d)) = (if k = pkey c r then now else lastAcceptedMs (stored_state k d))"
    "db_pings (touch_result c now r d) = db_pings d"
proof -
  define key where "key = pkey c r"
  define s where "s = stored_state key d"
  have s: "ping_state_of key d = s" using assms(1) cache_ok_state by (simp add: s_def ping_inv_def)
  define d' where "d' = touch_result c now r d"
  have d': "d' = d\<lparr>st_ping := (st_ping d)(key \<mapsto> ping_state_value (s\<lparr>lastAcceptedMs := now\<rparr>)),
      pingResultStateCache := (pingResultStateCache d)(key \<mapsto> s\<lparr>lastAcceptedMs := now\<rparr>)\<rparr>"
    by (simp add: d'_def touch_result_def Let_def readPingResultState_def writePingResultState_def key_def [symmetric] s)
  have "state_ok (s\<lparr>lastAcceptedMs := now\<rparr>)" using normalize_state_ok by (simp add: s_def stored_state_def state_ok_def)
  then have st: "stored_state k d' = (if k = key then s\<lparr>lastAcceptedMs := now\<rparr> else stored_state k d)" for k
    using ping_state_back by (simp add: stored_state_def d')
  have ch: "pingResultStateCache d' = (pingResultStateCache d)(key \<mapsto> s\<lparr>lastAcceptedMs := now\<rparr>)" by (simp add: d')
  have "cache_ok d'" using assms(1) unfolding cache_ok_def ch st by (simp add: ping_inv_def cache_ok_def)
  moreover have "task_inv (stored_state (pingResultStateKey a task) d') (batch_times a task d') (samples a task d')" for a task
  proof -
    have inv: "task_inv (stored_state (pingResultStateKey a task) d) (batch_times a task d) (samples a task d)"
      using assms(1) by (simp add: ping_inv_def)
    have rows: "batch_times a task d' = batch_times a task d" "samples a task d' = samples a task d"
      by (simp_all add: batch_times_def samples_def d')
    show ?thesis unfolding rows st using inv assms(2) by (fastforce simp: task_inv_def key_def s_def)
  qed
  ultimately show "ping_inv (touch_result c now r d)" using assms(1) by (simp add: ping_inv_def d'_def [symmetric]) (simp add: d')
  show "lastAcceptedMs (stored_state k (touch_result c now r d)) = (if k = pkey c r then now else lastAcceptedMs (stored_state k d))"
    using st [of k] by (simp add: d'_def key_def)
  show "db_pings (touch_result c now r d) = db_pings d" unfolding d'_def [symmetric] by (simp add: d')
qed

lemma touch_all:
  assumes "ping_inv d" "\<forall>r \<in> set rs. lastAcceptedMs (stored_state (pkey c r) d) \<le> now"
  shows "ping_inv (fold (touch_result c now) rs d) \<and> db_pings (fold (touch_result c now) rs d) = db_pings d"
  using assms
proof (induction rs arbitrary: d)
  case (Cons r rs)
  have le: "lastAcceptedMs (stored_state (pkey c r) d) \<le> now" using Cons.prems(2) by simp
  note t = touch_step [OF Cons.prems(1) le]
  have "\<forall>x \<in> set rs. lastAcceptedMs (stored_state (pkey c x) (touch_result c now r d)) \<le> now" using Cons.prems(2) by (simp add: t(2))
  then show ?case using Cons.IH [OF t(1)] by (simp add: t(3))
qed simp

text \<open>Marking a batch as written: the last result of a task in the batch is the state of the task.\<close>

lemma last_result:
  assumes "\<exists>r \<in> set rs. ir_taskId r = task"
  obtains r where "r \<in> set rs" "ir_taskId r = task" "filter (\<lambda>x. ir_taskId x = task) rs \<noteq> []" "last (filter (\<lambda>x. ir_taskId x = task) rs) = r"
    "map_of (rev (map (\<lambda>x. (pkey c x, f x)) rs)) (pingResultStateKey c task) = Some (f r)"
proof -
  define ys where "ys = filter (\<lambda>x. ir_taskId x = task) rs"
  have ne: "ys \<noteq> []" using assms by (auto simp: ys_def filter_empty_conv)
  have mem: "last ys \<in> set rs" "ir_taskId (last ys) = task" using last_in_set [OF ne] by (auto simp: ys_def)
  have "map_of (rev (map (\<lambda>x. (pkey c x, f x)) zs)) (pingResultStateKey c task)
      = (if filter (\<lambda>x. ir_taskId x = task) zs = [] then None else Some (f (last (filter (\<lambda>x. ir_taskId x = task) zs))))" for zs
  proof (induction zs)
    case (Cons z zs)
    then show ?case by (simp add: map_add_def pkey_eq split: option.split)
  qed simp
  then show thesis using that [OF mem] ne by (simp add: ys_def)
qed

definition with_row :: "string \<Rightarrow> interval_result list \<Rightarrow> rat \<Rightarrow> persist_do \<Rightarrow> persist_do" where
  "with_row c rs now d = d\<lparr>db_pings := db_pings d @ [(c, now, map (\<lambda>r. (ir_taskId r, ir_value r)) rs)]\<rparr>"

lemma mark_step:
  assumes inv: "ping_inv d" and now: "0 < now" and o: "\<forall>r \<in> set rs. interval_open c r now d"
  shows "ping_inv (markPingResultsPersisted c rs now (with_row c rs now d))"
proof -
  define d' where "d' = markPingResultsPersisted c rs now (with_row c rs now d)"
  define f where "f = (\<lambda>r. persisted_state (pkey c r) now d r)"
  define g where "g = map_of (rev (map (\<lambda>r. (pkey c r, f r)) rs))"
  define h where "h = map_of (rev (map (\<lambda>r. (pkey c r, ping_state_value (f r))) rs))"
  have ps: "persisted_state k now (with_row c rs now d) r = persisted_state k now d r" for k r
    by (simp add: persisted_state_def with_row_def)
  have d': "pingResultStateCache d' = pingResultStateCache d ++ g" "st_ping d' = st_ping d ++ h"
    "db_pings d' = db_pings d @ [(c, now, map (\<lambda>r. (ir_taskId r, ir_value r)) rs)]" "pingRecordPersistIntervalMs d' = pingRecordPersistIntervalMs d"
    by (simp_all add: d'_def markPingResultsPersisted_def Let_def ps g_def h_def f_def o_def) (simp_all add: with_row_def)
  have gh: "h k = map_option ping_state_value (g k)" for k
  proof -
    have "map_of (map (\<lambda>r. (pkey c r, ping_state_value (f r))) zs) k = map_option ping_state_value (map_of (map (\<lambda>r. (pkey c r, f r)) zs) k)" for zs
      by (induction zs) simp_all
    then show ?thesis unfolding g_def h_def rev_map by this
  qed
  have fs: "state_ok (f r)" for r using now by (simp add: f_def persisted_state_def Let_def state_ok_def)
  have gs: "g k = Some x \<Longrightarrow> state_ok x" for k x using fs by (auto simp: g_def dest!: map_of_SomeD)
  have st: "stored_state k d' = (case g k of Some x \<Rightarrow> x | None \<Rightarrow> stored_state k d)" for k
    using gs [of k] by (simp add: stored_state_def d'(2) map_add_def gh ping_state_back split: option.split)
  have "cache_ok d'"
    using inv unfolding cache_ok_def d'(1) st by (auto simp: ping_inv_def cache_ok_def map_add_def split: option.splits)
  moreover have "task_inv (stored_state (pingResultStateKey a task) d') (batch_times a task d') (samples a task d')" for a task
  proof (cases "a = c \<and> (\<exists>r \<in> set rs. ir_taskId r = task)")
    case False
    have "g (pingResultStateKey a task) = None" using False by (auto simp: g_def map_of_eq_None_iff pkey_eq)
    moreover have "batch_times a task d' = batch_times a task d" "samples a task d' = samples a task d"
      using False by (auto simp: batch_times_def samples_def d'(3) batch_samples_def filter_empty_conv)
    ultimately show ?thesis using inv by (simp add: st ping_inv_def)
  next
    case True
    then obtain r where r: "r \<in> set rs" "ir_taskId r = task" "filter (\<lambda>x. ir_taskId x = task) rs \<noteq> []"
        "last (filter (\<lambda>x. ir_taskId x = task) rs) = r" "g (pingResultStateKey c task) = Some (f r)"
      using last_result [of rs task c f] by (auto simp: g_def)
    have times: "batch_times a task d' = batch_times c task d @ [now]" using True by (force simp: batch_times_def d'(3))
    define ys where "ys = filter (\<lambda>x. ir_taskId x = task) rs"
    have smp: "samples a task d' = samples c task d @ map (\<lambda>x. (now, ir_value x)) ys"
      using True by (simp add: samples_def d'(3) batch_samples_def filter_map o_def ys_def)
    have xs: "samples a task d' \<noteq> []" "last (samples a task d') = (now, ir_value r)"
      using r(3,4) by (simp_all add: smp ys_def [symmetric] last_map)
    have open_r: "interval_open c r now d" using o r(1) by simp
    have old: "0 < t \<and> t + 3000 \<le> now" if "t \<in> set (batch_times c task d)" for t
      using inv open_state(2) [OF inv open_r now, of t] r(2) that by (auto simp: ping_inv_def task_inv_def)
    have sorted: "sorted_wrt (\<lambda>a b. a + 3000 \<le> b) (batch_times c task d @ [now])"
      using inv old by (simp add: ping_inv_def task_inv_def sorted_wrt_append)
    have fr: "now \<le> lastAcceptedMs (f r)" "pvalue (f r) = Some (ir_value r)" "persistedAt (f r) = Some now"
      by (simp_all add: f_def persisted_state_def Let_def)
    have "stored_state (pingResultStateKey a task) d' = f r" using True r(5) by (simp add: st)
    moreover have "0 < t \<and> t \<le> lastAcceptedMs (f r)" if "t \<in> set (batch_times c task d @ [now])" for t
      using that old [of t] now fr(1) by auto
    ultimately show ?thesis using sorted xs fr(2,3) by (simp add: task_inv_def times)
  qed
  ultimately show ?thesis using inv by (simp add: ping_inv_def d'_def [symmetric] d'(4))
qed

lemma filter_step:
  assumes inv: "ping_inv d" and now: "0 < now" and f: "filterTrustedPingResultsByInterval c rs now d = (d1, ws)"
  shows "ping_inv d1" "db_pings d1 = db_pings d" "\<forall>r \<in> set ws. interval_open c r now d1"
    "r \<in> set rs \<Longrightarrow> r \<notin> set ws \<Longrightarrow> interval_open c r now d \<Longrightarrow> \<not> shouldPersistPingResult r (stored_state (pkey c r) d) now"
proof -
  obtain d2 due kept where s: "select_due c rs now d = (d2, due, kept)" by (metis prod_cases3)
  note sp = select_due_spec [OF s]
  have inv2: "ping_inv d2" by (rule select_ping_inv [OF inv sp(3)])
  have st: "ping_state_of k d = stored_state k d" "stored_state k d2 = stored_state k d" for k
    using inv cache_ok_state sp(3) by (simp_all add: ping_inv_def same_states_def stored_state_def)
  have kept: "shouldPersistPingResult r (stored_state (pkey c r) d) now \<Longrightarrow> r \<in> set due \<Longrightarrow> kept \<noteq> []" for r
    by (auto simp: sp(1,2) st(1) filter_empty_conv)
  have "ping_inv d1 \<and> db_pings d1 = db_pings d \<and> (\<forall>r \<in> set ws. interval_open c r now d1)
     \<and> (r \<in> set rs \<longrightarrow> r \<notin> set ws \<longrightarrow> interval_open c r now d \<longrightarrow> \<not> shouldPersistPingResult r (stored_state (pkey c r) d) now)"
  proof (cases "kept = []")
    case True
    have le: "\<forall>x \<in> set due. lastAcceptedMs (stored_state (pkey c x) d2) \<le> now" using open_state(1) [OF inv _ now] by (simp add: sp(1) st(2))
    have "d1 = fold (touch_result c now) due d2" "ws = []" using f True by (simp_all add: filterTrustedPingResultsByInterval_def s)
    moreover have "db_pings d2 = db_pings d" using sp(3) by (simp add: same_states_def)
    ultimately show ?thesis using touch_all [OF inv2 le] kept True by (auto simp: sp(1))
  next
    case False
    then have "d1 = d2" "ws = due" using f by (simp_all add: filterTrustedPingResultsByInterval_def s)
    then show ?thesis using inv2 sp(3) same_states_open [OF sp(3)] by (simp add: sp(1)) (simp add: same_states_def)
  qed
  then show "ping_inv d1" "db_pings d1 = db_pings d" "\<forall>r \<in> set ws. interval_open c r now d1"
    "r \<in> set rs \<Longrightarrow> r \<notin> set ws \<Longrightarrow> interval_open c r now d \<Longrightarrow> \<not> shouldPersistPingResult r (stored_state (pkey c r) d) now"
    by blast+
qed

lemma store_step:
  assumes "ping_inv d" "0 < now" "filterTrustedPingResultsByInterval c rs now d = (d1, ws)"
  shows "ping_inv (fst (store_accepted e c now (d1, ws)))"
proof -
  note f = filter_step [OF assms]
  have "ping_inv (markPingResultsPersisted c ws now (with_row c ws now d1))" by (rule mark_step [OF f(1) assms(2) f(3)])
  then show ?thesis using f(1) gate_ping_inv(3,4)
    by (simp add: store_accepted_def write_pings_def ping_error_def with_row_def split: option.split)
qed

lemma choose_step: "ping_inv d \<Longrightarrow> 0 < now \<Longrightarrow> ping_inv (fst (choose_results e c input now d))"
  using store_step [of d now c _ _ _ e]
  by (auto simp: choose_results_def ping_error_def gate_ping_inv(3) filterPingResultsByInterval_def split: option.split sum.split)
     (metis prod.collapse)

lemma accept_step:
  assumes "ping_inv d" "0 < now"
  shows "ping_inv (fst (accept_results e c results now d))"
proof -
  obtain d1 b1 where e1: "do_isRecordPersistenceEnabled e now False d = (d1, b1)" by fastforce
  have i1: "ping_inv d1" using gate_ping_inv(1) [OF assms(1), of e now False] by (simp add: e1)
  obtain d2 b2 where e2: "canPersistWithinCapacity e now d1 = (d2, b2)" by fastforce
  have i2: "ping_inv d2" using gate_ping_inv(2) [OF i1, of e now] by (simp add: e2)
  have "ping_inv (fst (store_accepted e c now (filterTrustedPingResultsByInterval c t now d2)))" for t
    using store_step [OF i2 assms(2)] by (metis prod.collapse)
  then show ?thesis using i1 i2 choose_step [OF i2 assms(2)]
    by (auto simp: accept_results_def e1 e2 split: bool.split option.split)
qed

lemma queued_step:
  assumes "ping_inv d" "0 < now"
  shows "ping_inv (fst (persistQueuedPingResult e c result now d))"
proof -
  obtain d1 b1 where e1: "do_isRecordPersistenceEnabled e now False d = (d1, b1)" by fastforce
  have i1: "ping_inv d1" using gate_ping_inv(1) [OF assms(1), of e now False] by (simp add: e1)
  obtain d2 b2 where e2: "canPersistWithinCapacity e now d1 = (d2, b2)" by fastforce
  have i2: "ping_inv d2" using gate_ping_inv(2) [OF i1, of e now] by (simp add: e2)
  show ?thesis using assms i1 i2 choose_step [OF i2 assms(2)] by (auto simp: persistQueuedPingResult_def e1 e2 split: bool.split)
qed

subsection \<open>Any sequence of operations\<close>

datatype ping_event =
    HttpPingE persist_env rat do_request
  | ReportPingE persist_env string jsval rat
  | PingRefreshE persist_env rat
  | PingRestartE

fun ping_step :: "ping_event \<Rightarrow> persist_do \<Rightarrow> persist_do" where
  "ping_step (HttpPingE e clock request) d = fst (updateHttpPingResult e clock request d)"
| "ping_step (ReportPingE e c result now) d = fst (persistQueuedPingResult e c result now d)"
| "ping_step (PingRefreshE e now) d = record_settings_refresh e now d"
| "ping_step PingRestartE d = restarted d"

text \<open>The time an operation works with is positive.\<close>

definition request_time :: "rat \<Rightarrow> do_request \<Rightarrow> rat" where
  "request_time clock request = (case parseJsonRequestWithLimit request HTTP_PING_RESULT_MAX_BODY_BYTES of
       Inr payload \<Rightarrow> (case js_Number (js_get payload ''timestamp'') of Fin t \<Rightarrow> t | _ \<Rightarrow> clock) | Inl _ \<Rightarrow> clock)"

fun ping_timed :: "ping_event \<Rightarrow> bool" where
  "ping_timed (HttpPingE e clock request) = (0 < request_time clock request)"
| "ping_timed (ReportPingE e c result now) = (0 < now)"
| "ping_timed (PingRefreshE e now) = True"
| "ping_timed PingRestartE = True"

lemma ping_step_inv: "ping_inv d \<Longrightarrow> ping_timed ev \<Longrightarrow> ping_inv (ping_step ev d)"
proof (cases ev)
  case (HttpPingE e clock request)
  assume "ping_inv d" "ping_timed ev"
  then show ?thesis using accept_step [of d _ e] HttpPingE
    by (auto simp: updateHttpPingResult_def request_time_def split: sum.split jsval.split)
next
  case (PingRefreshE e now)
  assume i: "ping_inv d"
  define d1 where "d1 = fst (do_isRecordPersistenceEnabled e now True d)"
  have "ping_inv d1" using gate_ping_inv(1) [OF i, of e now True] by (simp add: d1_def)
  then have "ping_inv (invalidateRecordCapacityMemorySnapshot d1)"
    by (rule ping_inv_frame) (use \<open>ping_inv d1\<close> in \<open>simp_all add: invalidateRecordCapacityMemorySnapshot_def ping_view_def ping_inv_def\<close>)
  then show ?thesis by (simp add: PingRefreshE record_settings_refresh_def d1_def)
next
  case PingRestartE
  assume "ping_inv d"
  then show ?thesis
    by (simp add: PingRestartE ping_inv_def restarted_def cache_ok_def stored_state_def batch_times_def samples_def PING_RECORD_PERSIST_INTERVAL_MS_def)
qed (simp add: queued_step)

lemma ping_run_inv: "ping_inv d \<Longrightarrow> \<forall>ev \<in> set evs. ping_timed ev \<Longrightarrow> ping_inv (fold ping_step evs d)"
  by (induction evs arbitrary: d) (simp_all add: ping_step_inv)

lemma ping_start: "ping_inv new_persist_do"
  by (simp add: ping_inv_def new_persist_do_def restarted_def cache_ok_def stored_state_def batch_times_def samples_def
      PING_RECORD_PERSIST_INTERVAL_MS_def normalizePingResultState_def task_inv_def)

text \<open>A row stands for a result: both lost, or values less than 5 ms apart, the row less than half an hour old.\<close>

definition represents :: "rat \<times> rat \<Rightarrow> interval_result \<Rightarrow> rat \<Rightarrow> bool" where
  "represents row r now \<longleftrightarrow> (snd row = PING_LOSS_VALUE) = (ir_value r = PING_LOSS_VALUE)
     \<and> (ir_value r \<noteq> PING_LOSS_VALUE \<longrightarrow> \<bar>ir_value r - snd row\<bar> < PING_VALUE_CHANGE_THRESHOLD_MS)
     \<and> now - fst row < PING_UNCHANGED_HEARTBEAT_MS"

definition last_row :: "string \<Rightarrow> int \<Rightarrow> persist_do \<Rightarrow> (rat \<times> rat) option" where
  "last_row c task d = (if samples c task d = [] then None else Some (last (samples c task d)))"

definition too_early :: "string \<Rightarrow> interval_result \<Rightarrow> rat \<Rightarrow> persist_do \<Rightarrow> bool" where
  "too_early c r now d = (\<not> interval_open c r now d)"

lemma unwritten_represented:
  assumes "\<not> shouldPersistPingResult r s now" "task_inv s ts (samples c task d)"
  shows "\<exists>row. last_row c task d = Some row \<and> represents row r now"
proof -
  obtain v t where s: "pvalue s = Some v" "persistedAt s = Some t"
    using assms(1) by (auto simp: shouldPersistPingResult_def split: option.splits)
  have "samples c task d \<noteq> []" "last (samples c task d) = (t, v)" using assms(2) s by (auto simp: task_inv_def)
  moreover have "represents (t, v) r now" using assms(1) by (auto simp: shouldPersistPingResult_def represents_def s Let_def split: if_splits)
  ultimately show ?thesis by (simp add: last_row_def)
qed



subsection \<open>Retrying a failed write\<close>

lemma enabled_again:
  assumes "do_isRecordPersistenceEnabled e now False d = (d1, on)" "env_database e" "env_database e'"
    "recordPersistenceCheckedAt d' = recordPersistenceCheckedAt d1" "recordPersistenceEnabled d' = recordPersistenceEnabled d1"
  shows "do_isRecordPersistenceEnabled e' now False d' = (d', on)"
  using assms by (auto simp: do_isRecordPersistenceEnabled_def Let_def RECORD_SETTING_CACHE_MS_def split: if_splits)

lemma capacity_again:
  assumes "canPersistWithinCapacity e now d = (d1, ok)" "env_database e" "env_database e'"
    "recordCapacityNextCheckAt d' = recordCapacityNextCheckAt d1" "recordCapacityBlocked d' = recordCapacityBlocked d1"
  shows "canPersistWithinCapacity e' now d' = (d', ok)"
proof -
  have "now < recordCapacityNextCheckAt (measure_capacity u now d2)" for u d2
    using delay_pos by (simp add: measure_capacity_def writeRecordCapacitySnapshot_def health_event_def Let_def)
  then have "now < recordCapacityNextCheckAt d1 \<and> ok = (\<not> recordCapacityBlocked d1)"
    using assms(1,2) by (auto simp: canPersistWithinCapacity_def readReusableRecordCapacitySnapshot_def isReusableRecordCapacitySnapshot_def
        applyRecordCapacitySnapshot_def health_event_def Let_def RECORD_CAPACITY_CACHE_NEAR_MS_def split: if_splits option.splits)
  then show ?thesis using assms(3-5) by (simp add: canPersistWithinCapacity_def)
qed

lemma capacity_keeps_settings:
  assumes "canPersistWithinCapacity e now d = (d1, ok)"
  shows "recordPersistenceCheckedAt d1 = recordPersistenceCheckedAt d" "recordPersistenceEnabled d1 = recordPersistenceEnabled d"
  using assms by (auto simp: canPersistWithinCapacity_def readReusableRecordCapacitySnapshot_def applyRecordCapacitySnapshot_def measure_capacity_def
      writeRecordCapacitySnapshot_def health_event_def Let_def split: if_splits option.splits)

lemma select_only_cache:
  assumes "select_due c rs now d = (d1, due, kept)"
  shows "\<exists>cache. d1 = d\<lparr>pingResultStateCache := cache\<rparr>"
  using assms
proof (induction rs arbitrary: d d1 due kept)
  case Nil
  then show ?case by (intro exI [of _ "pingResultStateCache d"]) simp
next
  case (Cons r rs)
  obtain d2 s where r: "readPingResultState (pkey c r) d = (d2, s)" by fastforce
  obtain due' kept' where "select_due c rs now d2 = (d1, due', kept')"
    using Cons.prems r by (auto split: prod.splits if_splits)
  then show ?case using Cons.IH r by (fastforce simp: readPingResultState_def)
qed

lemma filter_same:
  assumes "filterTrustedPingResultsByInterval c rs now d = (d1, ws)" "ws \<noteq> []" "same_states d d'"
  shows "same_states d d1" "\<exists>cache. d1 = d\<lparr>pingResultStateCache := cache\<rparr>"
    "\<exists>d2. filterTrustedPingResultsByInterval c rs now d' = (d2, ws) \<and> db_pings d2 = db_pings d"
proof -
  obtain a due kept where s: "select_due c rs now d = (a, due, kept)" by (metis prod_cases3)
  obtain a' due' kept' where s': "select_due c rs now d' = (a', due', kept')" by (metis prod_cases3)
  note p = select_due_spec [OF s] and p' = select_due_spec [OF s']
  have k: "kept \<noteq> []" "d1 = a" "ws = due"
    using assms(1,2) by (auto simp: filterTrustedPingResultsByInterval_def s split: if_splits)
  show "same_states d d1" using p(3) by (simp add: k)
  show "\<exists>cache. d1 = d\<lparr>pingResultStateCache := cache\<rparr>" using select_only_cache [OF s] by (simp add: k)
  have st: "ping_state_of k d' = ping_state_of k d" for k using assms(3) by (simp add: same_states_def)
  have "due' = due" "kept' = kept" by (simp_all add: p(1,2) p'(1,2) same_states_open [OF assms(3)] st)
  moreover have "db_pings a' = db_pings d" using p'(3) assms(3) by (simp add: same_states_def)
  ultimately show "\<exists>d2. filterTrustedPingResultsByInterval c rs now d' = (d2, ws) \<and> db_pings d2 = db_pings d"
    using k by (simp add: filterTrustedPingResultsByInterval_def s')
qed

lemma health_states: "same_states d (ping_error d)"
  by (simp add: same_states_def ping_error_def health_event_def ping_state_of_def split: option.split)

lemma write_rows: "write_pings e c ws now d = Some d' \<Longrightarrow> db_pings d' = db_pings d @ [(c, now, map (\<lambda>r. (ir_taskId r, ir_value r)) ws)]"
  by (auto simp: write_pings_def recordHotPathHealthOk_def markPingResultsPersisted_def health_event_def Let_def split: if_splits)

definition gate_fields :: "persist_do \<Rightarrow> rat \<times> bool \<times> rat \<times> bool" where
  "gate_fields d = (recordPersistenceCheckedAt d, recordPersistenceEnabled d, recordCapacityNextCheckAt d, recordCapacityBlocked d)"

lemma retry_store:
  assumes f: "store_accepted (e\<lparr>env_insertPing := False\<rparr>) c now (filterTrustedPingResultsByInterval c rs now g) = (d1, PersistFailed)"
    and e: "env_insertPing e"
  shows "gate_fields d1 = gate_fields g
    \<and> snd (store_accepted e c now (filterTrustedPingResultsByInterval c rs now d1)) = snd (store_accepted e c now (filterTrustedPingResultsByInterval c rs now g))
    \<and> db_pings (fst (store_accepted e c now (filterTrustedPingResultsByInterval c rs now d1)))
      = db_pings (fst (store_accepted e c now (filterTrustedPingResultsByInterval c rs now g)))"
proof -
  obtain f1 ws where w: "filterTrustedPingResultsByInterval c rs now g = (f1, ws)" by fastforce
  have ws: "ws \<noteq> []" "d1 = ping_error f1"
    using f w by (auto simp: store_accepted_def write_pings_def split: if_splits)
  have "same_states g g" by (simp add: same_states_def)
  note s = filter_same(1,2) [OF w ws(1) this]
  have same: "same_states g d1" unfolding ws(2) by (rule same_states_trans [OF s(1) health_states])
  obtain f2 where r: "filterTrustedPingResultsByInterval c rs now d1 = (f2, ws)" "db_pings f2 = db_pings g"
    using filter_same(3) [OF w ws(1) same] by blast
  have f1: "db_pings f1 = db_pings g" using s(1) by (simp add: same_states_def)
  have "gate_fields d1 = gate_fields g" using s(2) ws(2) by (auto simp: gate_fields_def ping_error_def health_event_def)
  moreover have "snd (store_accepted e c now (f2, ws)) = snd (store_accepted e c now (f1, ws))
    \<and> db_pings (fst (store_accepted e c now (f2, ws))) = db_pings (fst (store_accepted e c now (f1, ws)))"
  proof (cases "valid_date now")
    case True
    obtain x y where xy: "write_pings e c ws now f1 = Some x" "write_pings e c ws now f2 = Some y"
      using True e by (simp add: write_pings_def)
    show ?thesis using ws(1) write_rows [OF xy(1)] write_rows [OF xy(2)] by (simp add: store_accepted_def xy r(2) f1)
  next
    case False
    have "write_pings e c ws now z = None" for z using False by (simp add: write_pings_def)
    then show ?thesis using ws(1) by (simp add: store_accepted_def ping_error_def health_event_def r(2) f1)
  qed
  ultimately show ?thesis by (simp add: w r(1))
qed

lemma retry_choose:
  assumes "choose_results (e\<lparr>env_insertPing := False\<rparr>) c input now g = (d1, PersistFailed)" "env_insertPing e"
  shows "gate_fields d1 = gate_fields g \<and> snd (choose_results e c input now d1) = snd (choose_results e c input now g)
    \<and> db_pings (fst (choose_results e c input now d1)) = db_pings (fst (choose_results e c input now g))"
proof (cases "env_tasks e")
  case None
  then show ?thesis using assms by (auto simp: choose_results_def gate_fields_def ping_error_def health_event_def)
next
  case (Some tasks)
  then obtain rs where "validatePingResults input tasks c = Inr rs" using assms(1) by (auto simp: choose_results_def split: sum.splits)
  then show ?thesis using assms Some retry_store [OF _ assms(2)] by (simp add: choose_results_def filterPingResultsByInterval_def)
qed

text \<open>The two checks before the results are looked at do not depend on how the insertion will be answered.\<close>

lemma gate_env: "do_isRecordPersistenceEnabled (e\<lparr>env_insertPing := b\<rparr>) now f d = do_isRecordPersistenceEnabled e now f d"
  "canPersistWithinCapacity (e\<lparr>env_insertPing := b\<rparr>) now d = canPersistWithinCapacity e now d"
  by (simp_all add: do_isRecordPersistenceEnabled_def canPersistWithinCapacity_def split: option.split)

lemma retry_accept:
  assumes f: "accept_results (e\<lparr>env_insertPing := False\<rparr>) c results now d = (d1, PersistFailed)" and e: "env_insertPing e" "env_database e"
  shows "snd (accept_results e c results now d1) = snd (accept_results e c results now d)
    \<and> db_pings (fst (accept_results e c results now d1)) = db_pings (fst (accept_results e c results now d))"
proof -
  obtain g1 b1 where e1: "do_isRecordPersistenceEnabled e now False d = (g1, b1)" by fastforce
  obtain g2 b2 where e2: "canPersistWithinCapacity e now g1 = (g2, b2)" by fastforce
  have b: "b1" "b2" using f by (auto simp: accept_results_def gate_env e1 e2 split: bool.splits)
  define core where "core = (\<lambda>env x. case trustedPingResults results of
      Some trusted \<Rightarrow> store_accepted env c now (filterTrustedPingResultsByInterval c trusted now x) | None \<Rightarrow> choose_results env c results now x)"
  have first: "core (e\<lparr>env_insertPing := False\<rparr>) g2 = (d1, PersistFailed)" "accept_results e c results now d = core e g2"
    using f b by (simp_all add: accept_results_def gate_env e1 e2 core_def)
  have again: "gate_fields d1 = gate_fields g2 \<and> snd (core e d1) = snd (core e g2) \<and> db_pings (fst (core e d1)) = db_pings (fst (core e g2))"
    using first(1) retry_choose [OF _ e(1)] retry_store [OF _ e(1)] by (simp add: core_def split: option.splits)
  have "do_isRecordPersistenceEnabled e now False d1 = (d1, True)"
    using enabled_again [OF e1 e(2) e(2), of d1] capacity_keeps_settings [OF e2] again b by (simp add: gate_fields_def)
  moreover have "canPersistWithinCapacity e now d1 = (d1, True)"
    using capacity_again [OF e2 e(2) e(2), of d1] again b by (simp add: gate_fields_def)
  ultimately have "accept_results e c results now d1 = core e d1" by (simp add: accept_results_def core_def)
  then show ?thesis using again first(2) by simp
qed

text \<open>
  C35. A request whose insertion the database refused can be sent again: at the same time, with a database
  that answers, the retry has the outcome and inserts the rows that the first attempt would have had,
  because a failed insertion marks no result as taken.
\<close>

theorem ping_retry_same_rows:
  assumes "updateHttpPingResult (e\<lparr>env_insertPing := False\<rparr>) clock request d = (d1, PersistFailed)"
    and "env_insertPing e" "env_database e"
  shows "snd (updateHttpPingResult e clock request d1) = snd (updateHttpPingResult e clock request d)
    \<and> db_pings (fst (updateHttpPingResult e clock request d1)) = db_pings (fst (updateHttpPingResult e clock request d))"
  using assms(1,3) retry_accept [OF _ assms(2,3)]
  by (auto simp: updateHttpPingResult_def split: sum.splits jsval.splits)

definition sample_ping :: jsobj where
  "sample_ping = [(''client_id'', Str ''n1''), (''results'', Arr [Obj [(''task_id'', Str (int_to_str 1)), (''value'', Str (int_to_str 12)), (''interval_sec'', Str (int_to_str 60))]])]"

lemma sample_ping_body: "parseJsonRequestWithLimit (own_request sample_ping) HTTP_PING_RESULT_MAX_BODY_BYTES = Inr sample_ping"
proof -
  have n: "int_to_str 1 = ''1''" "int_to_str 12 = ''12''" "int_to_str 60 = ''60''" by (simp_all add: int_to_str_def nat_to_str.simps)
  have b: "serializedBytes v \<le> HTTP_PING_RESULT_MAX_BODY_BYTES" if "JSON_stringify v = Some t" "length t \<le> 8000" for v t
    using that utf8_size [of t] by (simp add: serializedBytes_def HTTP_PING_RESULT_MAX_BODY_BYTES_def)
  show ?thesis
    by (rule own_request_back, simp add: sample_ping_def n, rule b, unfold sample_ping_def n, rule JSON_stringify.simps(7),
        simp add: json_quote_def json_escape_def cc_def)
qed

lemma sample_trusted: "trustedPingResults (js_get sample_ping ''results'') = Some [\<lparr>ir_taskId = 1, ir_value = 12, ir_intervalSec = Some 60\<rparr>]"
  by (simp add: sample_ping_def js_get_Cons trustedPingResults_def trusted_result_def str_to_num_int_to_str MAX_PING_RESULTS_PER_REPORT_def
      PING_LOSS_VALUE_def MAX_PING_VALUE_MS_def)

lemma sample_fails: "\<exists>d1. updateHttpPingResult (sample_db_env\<lparr>env_insertPing := False\<rparr>) 60000 (own_request sample_ping) new_persist_do = (d1, PersistFailed)"
proof -
  have on: "recordPersistenceEnabled (configured (\<lambda>_. None) Map.empty)"
    by (rule loaded_enabled) (simp add: sample_policy)
  have start: "recordPersistenceCheckedAt new_persist_do = 0" "open_gate new_persist_do"
    by (simp_all add: new_persist_do_def restarted_def open_gate_def normalizeRecordCapacitySnapshot_def)
  obtain g1 where g1: "do_isRecordPersistenceEnabled sample_db_env 60000 False new_persist_do = (g1, True)" "loaded (\<lambda>_. None) Map.empty g1" "open_gate g1"
    using healthy_settings [OF sample_healthy, of new_persist_do 60000] on start by (auto simp: RECORD_SETTING_CACHE_MS_def)
  obtain g2 where g2: "canPersistWithinCapacity sample_db_env 60000 g1 = (g2, True)"
    using capacity_healthy [OF sample_healthy g1(2,3)] by blast
  have "ping_view g2 = ping_view new_persist_do"
    using capacity_ping(1) [of sample_db_env 60000 g1] enabled_ping(1) [of sample_db_env 60000 False new_persist_do] by (simp add: g1 g2)
  then have "ping_state_of k g2 = \<lparr>lastAcceptedMs = 0, pvalue = None, persistedAt = None\<rparr>" for k
    by (simp add: ping_view_def new_persist_do_def restarted_def ping_state_of_def normalizePingResultState_def)
  then have "\<exists>f. filterTrustedPingResultsByInterval ''n1'' [\<lparr>ir_taskId = 1, ir_value = 12, ir_intervalSec = Some 60\<rparr>] 60000 g2
      = (f, [\<lparr>ir_taskId = 1, ir_value = 12, ir_intervalSec = Some 60\<rparr>])"
    by (simp add: filterTrustedPingResultsByInterval_def readPingResultState_def interval_open_def shouldPersistPingResult_def)
  then have "\<exists>d1. accept_results (sample_db_env\<lparr>env_insertPing := False\<rparr>) ''n1'' (js_get sample_ping ''results'') 60000 new_persist_do = (d1, PersistFailed)"
    by (auto simp: accept_results_def gate_env g1(1) g2 sample_trusted store_accepted_def write_pings_def)
  then show ?thesis
    by (simp add: updateHttpPingResult_def sample_ping_body) (simp add: sample_ping_def js_get_def sample_db_env_def)
qed

theorem ping_retry_same_rows_witness:
  "\<exists>d1. updateHttpPingResult (sample_db_env\<lparr>env_insertPing := False\<rparr>) 60000 (own_request sample_ping) new_persist_do = (d1, PersistFailed)
     \<and> db_pings (fst (updateHttpPingResult sample_db_env 60000 (own_request sample_ping) d1))
       = db_pings (fst (updateHttpPingResult sample_db_env 60000 (own_request sample_ping) new_persist_do))"
proof -
  obtain d1 where d1: "updateHttpPingResult (sample_db_env\<lparr>env_insertPing := False\<rparr>) 60000 (own_request sample_ping) new_persist_do = (d1, PersistFailed)"
    using sample_fails by blast
  then show ?thesis using ping_retry_same_rows [OF d1] by (auto simp: sample_db_env_def)
qed

end
