(* ===== verification/OfflineLiveness.thy ===== *)
theory OfflineLiveness
  imports LiveData
begin

section \<open>Judging nodes offline\<close>

text \<open>
  \<open>evaluateOfflineLiveness\<close> of \<open>do/live-data.ts\<close>: for each node the scheduled check asks about, the
  time of its last report, a verdict, and how many verdicts in a row were offline. The counters are
  storage rows, \<open>streaks\<close> of the object.
\<close>

subsection \<open>The operation\<close>

text \<open>An entry of the request that is looked at: the node, its grace period, the fallback of the caller.\<close>

definition liveness_entry :: "jsval \<Rightarrow> (string \<times> rat \<times> rat) option" where
  "liveness_entry raw = (case raw of
       Obj entry \<Rightarrow> (case (js_get entry ''uuid'', js_Number (js_get entry ''graceMs'')) of
           (Str uuid, Fin graceMs) \<Rightarrow>
             if uuid = [] \<or> graceMs \<le> 0 then None
             else Some (uuid, graceMs, case js_Number (js_get entry ''fallbackLastSeen'') of Fin f \<Rightarrow> if 0 < f then f else 0 | _ \<Rightarrow> 0)
         | _ \<Rightarrow> None)
     | _ \<Rightarrow> None)"

definition report_time :: "(string \<times> client_state) list \<Rightarrow> string \<Rightarrow> rat" where
  "report_time table uuid = (case map_of table uuid of Some c \<Rightarrow> cs_lastReportTime c | None \<Rightarrow> 0)"

definition effective_seen :: "string \<Rightarrow> rat \<Rightarrow> live_do \<Rightarrow> rat" where
  "effective_seen uuid fallback d = max (max (report_time (clients d) uuid) (report_time (lastKnownClients d) uuid)) fallback"

definition judged_offline :: "rat \<Rightarrow> string \<times> rat \<times> rat \<Rightarrow> live_do \<Rightarrow> bool" where
  "judged_offline now entry d = (case entry of (uuid, graceMs, fallback) \<Rightarrow>
     let eff = effective_seen uuid fallback d in eff \<le> 0 \<or> graceMs \<le> now - eff)"

definition next_streak :: "rat \<Rightarrow> string \<times> rat \<times> rat \<Rightarrow> live_do \<Rightarrow> rat" where
  "next_streak now entry d =
     (if judged_offline now entry d then (case streaks d (fst entry) of Some k \<Rightarrow> k | None \<Rightarrow> 0) + 1 else 0)"

definition verdict_value :: "rat \<Rightarrow> string \<times> rat \<times> rat \<Rightarrow> live_do \<Rightarrow> jsval" where
  "verdict_value now entry d =
     (let eff = effective_seen (fst entry) (snd (snd entry)) d
      in Obj [(''lastSeen'', if 0 < eff then Num (Fin eff) else Null), (''offline'', Bool (judged_offline now entry d)),
              (''streak'', Num (Fin (next_streak now entry d)))])"

definition evaluate_entry :: "rat \<Rightarrow> string \<times> rat \<times> rat \<Rightarrow> live_do \<times> jsobj \<Rightarrow> live_do \<times> jsobj" where
  "evaluate_entry now entry s = (case s of (d, results) \<Rightarrow>
     (d\<lparr>streaks := (if judged_offline now entry d then (streaks d)(fst entry \<mapsto> next_streak now entry d)
                    else (streaks d)(fst entry := None))\<rparr>,
      AList.update (fst entry) (verdict_value now entry d) results))"

definition evaluate_entries :: "rat \<Rightarrow> jsval list \<Rightarrow> live_do \<Rightarrow> live_do \<times> jsobj" where
  "evaluate_entries now items d = fold (evaluate_entry now) (List.map_filter liveness_entry items) (d, [])"

text \<open>\<open>None\<close> where the handler throws: on the body \<open>null\<close>.\<close>

definition evaluateOfflineLiveness :: "rat \<Rightarrow> do_request \<Rightarrow> live_do \<Rightarrow> live_do \<times> response option" where
  "evaluateOfflineLiveness now request d =
     (case JSON_parse (case dq_text request of Some t \<Rightarrow> t | None \<Rightarrow> []) of
        None \<Rightarrow> (d, Some (json_error 400 ''Invalid JSON''))
      | Some Null \<Rightarrow> (d, None)
      | Some payload \<Rightarrow>
          (let items = (case payload of Obj p \<Rightarrow> (case js_get p ''clients'' of Arr xs \<Rightarrow> xs | _ \<Rightarrow> []) | _ \<Rightarrow> []);
               (d', results) = evaluate_entries now items d
           in (d', Some (200, Obj [(''ok'', Bool True), (''now'', Num (Fin now)), (''clients'', Obj results)]))))"

text \<open>The object with other tables of nodes.\<close>

definition with_tables :: "(string \<times> client_state) list \<Rightarrow> (string \<times> client_state) list \<Rightarrow> live_do \<Rightarrow> live_do" where
  "with_tables online retained d = d\<lparr>clients := online, lastKnownClients := retained\<rparr>"

lemma with_tables_streaks [simp]: "streaks (with_tables online retained d) = streaks d"
  by (simp add: with_tables_def)

subsection \<open>Counters\<close>

text \<open>The verdicts on one node: those of the entries that name it, in order.\<close>

definition verdicts_on :: "string \<Rightarrow> rat \<Rightarrow> jsval list \<Rightarrow> live_do \<Rightarrow> bool list" where
  "verdicts_on uuid now items d = map (\<lambda>en. judged_offline now en d) (filter (\<lambda>en. fst en = uuid) (List.map_filter liveness_entry items))"

definition run_length :: "bool list \<Rightarrow> nat" where
  "run_length bs = length (takeWhile id (rev bs))"

definition streak_row :: "nat \<Rightarrow> rat option" where
  "streak_row k = (if k = 0 then None else Some (of_nat k))"

lemma run_length_snoc: "run_length (bs @ [b]) = (if b then Suc (run_length bs) else 0)"
  by (simp add: run_length_def)

lemma judged_streaks [simp]: "judged_offline now en (d\<lparr>streaks := s\<rparr>) = judged_offline now en d"
  by (simp add: judged_offline_def effective_seen_def split: prod.split)

text \<open>An entry changes nothing but the counter of its node.\<close>

lemma entry_step:
  assumes "evaluate_entry now en (d, rs) = (d', rs')" "streaks d uuid = streak_row (run_length bs)"
  shows "\<exists>s. d' = d\<lparr>streaks := s\<rparr>"
    "streaks d' uuid = streak_row (run_length (bs @ (if fst en = uuid then [judged_offline now en d] else [])))"
    "fst en = uuid \<Longrightarrow> next_streak now en d = of_nat (run_length (bs @ [judged_offline now en d]))"
  using assms by (auto simp: evaluate_entry_def next_streak_def streak_row_def run_length_snoc)

lemma entries_step:
  assumes "streaks d uuid = streak_row (run_length bs)" "fold (evaluate_entry now) es (d, rs) = (d', rs')"
  shows "(\<exists>s. d' = d\<lparr>streaks := s\<rparr>)
     \<and> streaks d' uuid = streak_row (run_length (bs @ map (\<lambda>en. judged_offline now en d) (filter (\<lambda>en. fst en = uuid) es)))"
  using assms
proof (induction es arbitrary: d rs bs)
  case Nil
  then show ?case by (auto intro: exI [of _ "streaks d"])
next
  case (Cons en es)
  obtain d1 rs1 where e: "evaluate_entry now en (d, rs) = (d1, rs1)" by fastforce
  note s = entry_step(1,2) [OF e Cons.prems(1)]
  obtain s where d1: "d1 = d\<lparr>streaks := s\<rparr>" using s(1) by blast
  have "fold (evaluate_entry now) es (d1, rs1) = (d', rs')" using Cons.prems(2) e by simp
  from Cons.IH [OF s(2) this] show ?case by (auto simp: d1)
qed

lemma entries_other:
  "\<forall>en \<in> set es. fst en \<noteq> uuid \<Longrightarrow> fold (evaluate_entry now) es (d, rs) = (d', rs') \<Longrightarrow> map_of rs' uuid = map_of rs uuid"
proof (induction es arbitrary: d rs)
  case (Cons en es)
  obtain d1 rs1 where e: "evaluate_entry now en (d, rs) = (d1, rs1)" by fastforce
  then have "map_of rs1 uuid = map_of rs uuid" using Cons.prems(1) by (auto simp: evaluate_entry_def update_conv)
  then show ?case using Cons e by simp
qed simp

text \<open>The answer about a node that is asked about once carries its new counter.\<close>

lemma entries_result:
  assumes "streaks d uuid = streak_row (run_length bs)" "fold (evaluate_entry now) es (d, rs) = (d', rs')"
    and "filter (\<lambda>en. fst en = uuid) es = [en]"
  shows "map_of rs' uuid = Some (Obj [(''lastSeen'', let eff = effective_seen uuid (snd (snd en)) d in if 0 < eff then Num (Fin eff) else Null),
     (''offline'', Bool (judged_offline now en d)), (''streak'', Num (Fin (of_nat (run_length (bs @ [judged_offline now en d])))))])"
proof -
  obtain xs ys where es: "es = xs @ en # ys" "\<forall>x \<in> set xs. fst x \<noteq> uuid" and u: "fst en = uuid"
    and e0: "[] = filter (\<lambda>en. fst en = uuid) ys"
    using assms(3) unfolding filter_eq_Cons_iff by blast
  have es3: "\<forall>y \<in> set ys. fst y \<noteq> uuid" using e0 [symmetric] by (simp only: filter_empty_conv)
  obtain d1 rs1 where x: "fold (evaluate_entry now) xs (d, rs) = (d1, rs1)" by fastforce
  obtain d2 rs2 where e: "evaluate_entry now en (d1, rs1) = (d2, rs2)" by fastforce
  have y: "fold (evaluate_entry now) ys (d2, rs2) = (d', rs')" using assms(2) es(1) x e by simp
  have "filter (\<lambda>en. fst en = uuid) xs = []" using es(2) by (simp add: filter_empty_conv)
  then obtain s where d1: "d1 = d\<lparr>streaks := s\<rparr>" "streaks d1 uuid = streak_row (run_length bs)"
    using entries_step [OF assms(1) x] by auto
  have "map_of rs2 uuid = Some (verdict_value now en d1)" using e u by (auto simp: evaluate_entry_def update_conv)
  moreover have "next_streak now en d1 = of_nat (run_length (bs @ [judged_offline now en d]))"
    using entry_step(3) [OF e d1(2) u] by (simp add: d1(1))
  moreover have "effective_seen uuid f d1 = effective_seen uuid f d" for f by (simp add: effective_seen_def d1(1))
  ultimately show ?thesis using entries_other [OF es3 y] u by (simp add: verdict_value_def d1(1) Let_def)
qed

end
