(* ===== verification/OfflineAlerts.thy ===== *)
theory OfflineAlerts
  imports OfflineLiveness SettingsSchema
begin

section \<open>Offline and expiry alerts\<close>

text \<open>
  The scheduled check of \<open>index.ts\<close> that turns verdicts on nodes into alerts: \<open>runOfflineCheck\<close> with
  \<open>fetchOfflineLiveness\<close>, \<open>evaluateOfflineNotificationEvent\<close> of \<open>utils/offline-notification.ts\<close>,
  \<open>deliverNotification\<close> of \<open>utils/notification-dispatch.ts\<close>, and the decision of the expiry check. The
  rows of the notification table are part of the state; what the other tables, the object and the
  channel answer in a round is an argument. \<open>Date.parse\<close> and \<open>toISOString\<close> are parameters. The text of
  a message is not modelled; what is sent, and about which node, is.
\<close>

subsection \<open>Deciding\<close>

definition DEFAULT_OFFLINE_GRACE_PERIOD_SEC :: int where "DEFAULT_OFFLINE_GRACE_PERIOD_SEC = 360"
definition DEFAULT_OFFLINE_CONFIRM_ROUNDS :: nat where "DEFAULT_OFFLINE_CONFIRM_ROUNDS = 3"

text \<open>The label of an event: \<open>None\<close> for the text used when a node never reported.\<close>

datatype offline_event =
    OfflineEv (offlineMs: rat) (lastSeenLabel: "string option") (neverReported: bool) (createdAt: "string option")
  | RecoveryEv (recoveredAt: string)

definition truthy_text :: "string option \<Rightarrow> string option" where
  "truthy_text s = (case s of Some t \<Rightarrow> if t = [] then None else Some t | None \<Rightarrow> None)"

definition evaluateOfflineNotificationEvent ::
  "(string \<Rightarrow> int option) \<Rightarrow> rat \<Rightarrow> string option \<Rightarrow> string option \<Rightarrow> string option \<Rightarrow> int \<Rightarrow> bool \<Rightarrow> offline_event option" where
  "evaluateOfflineNotificationEvent dp nowMs clientCreatedAt lastTime lastNotified gracePeriodSec notifyNeverReported =
     (let graceMs = of_int (max 30 (if gracePeriodSec = 0 then DEFAULT_OFFLINE_GRACE_PERIOD_SEC else gracePeriodSec)) * 1000;
          never = (truthy_text lastTime = None);
          referenceTime = (case truthy_text lastTime of Some t \<Rightarrow> Some t
                            | None \<Rightarrow> if notifyNeverReported then truthy_text clientCreatedAt else None)
      in case referenceTime of
          None \<Rightarrow> None
        | Some reference \<Rightarrow> (case dp reference of
              None \<Rightarrow> None
            | Some referenceMs \<Rightarrow>
                (let ms = nowMs - of_int referenceMs
                 in if graceMs \<le> ms then
                      if truthy_text lastNotified \<noteq> None then None
                      else Some (OfflineEv ms (if never then None else Some reference) never (if never then Some reference else None))
                    else if truthy_text lastNotified = None \<or> never then None
                    else Some (RecoveryEv reference))))"

definition shouldSendExpiryNotification ::
  "(string \<Rightarrow> int option) \<Rightarrow> (rat \<Rightarrow> string) \<Rightarrow> rat \<Rightarrow> string option \<Rightarrow> int \<Rightarrow> string option \<Rightarrow> (int \<times> string) option" where
  "shouldSendExpiryNotification dp isoText nowMs expiredAt advanceDays lastNotified = (case truthy_text expiredAt of
       None \<Rightarrow> None
     | Some e \<Rightarrow> (case dp e of
           None \<Rightarrow> None
         | Some expiry \<Rightarrow>
             (let expiryMs = of_int expiry;
                  windowStartMs = expiryMs - of_int (max 1 (if advanceDays = 0 then 7 else advanceDays)) * 24 * 60 * 60 * 1000;
                  notifiedInWindow = (case truthy_text lastNotified of
                      None \<Rightarrow> windowStartMs \<le> 0
                    | Some t \<Rightarrow> (case dp t of Some ms \<Rightarrow> windowStartMs \<le> of_int ms | None \<Rightarrow> False))
              in if expiryMs < nowMs \<or> nowMs < windowStartMs \<or> notifiedInWindow then None
                 else Some (max 0 \<lceil>(expiryMs - nowMs) / (24 * 60 * 60 * 1000)\<rceil>, isoText expiryMs))))"

subsection \<open>Delivering\<close>

record delivery_claim =
  claim_delivered :: bool
  claim_claimed :: bool
  claim_token :: "string option"

datatype attempt_result = SendOk bool | SendThrew | SendBudget

text \<open>What the delivery table and the channel answer for one key.\<close>

record delivery_answers =
  da_claim :: delivery_claim
  da_send :: attempt_result
  da_complete :: "bool \<Rightarrow> bool"
  da_onDelivered :: bool

datatype delivery = Delivered | NotDelivered | BudgetStop

text \<open>
  \<open>deliverNotification\<close>, with a handler for delivery: the message is sent only by the holder of a claim,
  and the handler runs once delivery is recorded, or was by an earlier attempt.
\<close>

definition on_delivered :: "delivery_answers \<Rightarrow> delivery" where
  "on_delivered a = (if da_onDelivered a then Delivered else NotDelivered)"

definition deliverNotification :: "delivery_answers \<Rightarrow> delivery" where
  "deliverNotification a =
     (let c = da_claim a; token = truthy_text (claim_token c)
      in if claim_delivered c then (if token \<noteq> None then on_delivered a else NotDelivered)
         else if \<not> claim_claimed c \<or> token = None then NotDelivered
         else case da_send a of
             SendBudget \<Rightarrow> BudgetStop
           | SendThrew \<Rightarrow> NotDelivered
           | SendOk sent \<Rightarrow> if sent \<and> da_complete a sent then on_delivered a else NotDelivered)"

subsection \<open>The check\<close>

record offline_row =
  on_client :: string
  on_enable :: bool
  on_grace :: int
  on_last :: "string option"

text \<open>A round: both clocks, the answers of the tables and of the object, and of the delivery of each node.\<close>

record round_env =
  re_now :: rat
  re_nowObject :: rat
  re_createdAt :: "string \<rightharpoonup> string option"
  re_latest :: "string \<rightharpoonup> string"
  re_settings :: "(string \<times> string) list"
  re_reachable :: bool
  re_order :: "offline_row list \<Rightarrow> offline_row list"
  re_delivery :: "string \<Rightarrow> delivery_answers"

definition grace_sec :: "offline_row \<Rightarrow> int" where
  "grace_sec item = max 30 (if on_grace item = 0 then DEFAULT_OFFLINE_GRACE_PERIOD_SEC else on_grace item)"

definition liveness_item :: "(string \<Rightarrow> int option) \<Rightarrow> round_env \<Rightarrow> offline_row \<Rightarrow> jsval" where
  "liveness_item dp e item =
     (let recordTime = (case re_latest e (on_client item) of Some t \<Rightarrow> dp t | None \<Rightarrow> dp [])
      in Obj [(''uuid'', Str (on_client item)), (''graceMs'', Num (FinI (grace_sec item * 1000))),
              (''fallbackLastSeen'', Num (FinI (case recordTime of Some t \<Rightarrow> t | None \<Rightarrow> 0)))])"

text \<open>\<open>None\<close> for no trustworthy signal; the reply of the object is read as it was sent.\<close>

definition fetchOfflineLiveness :: "round_env \<Rightarrow> jsval list \<Rightarrow> live_do \<Rightarrow> live_do \<times> jsobj option" where
  "fetchOfflineLiveness e items d =
     (if items = [] then (d, Some [])
      else if \<not> re_reachable e then (d, None)
      else case evaluateOfflineLiveness (re_nowObject e) (own_request [(''clients'', Arr items)]) d of
          (d', Some (status, Obj data)) \<Rightarrow>
            (d', if 200 \<le> status \<and> status \<le> 299 \<and> js_truthy (js_get data ''ok'') then
                   (case js_get data ''clients'' of Obj live \<Rightarrow> Some live | _ \<Rightarrow> None) else None)
        | (d', _) \<Rightarrow> (d', None))"

definition last_time :: "(rat \<Rightarrow> string) \<Rightarrow> round_env \<Rightarrow> jsobj \<Rightarrow> offline_row \<Rightarrow> string option" where
  "last_time isoText e live item = (case js_get live (on_client item) of
       Obj v \<Rightarrow> (case js_get v ''lastSeen'' of Num (Fin t) \<Rightarrow> if t = 0 then re_latest e (on_client item) else Some (isoText t)
                 | _ \<Rightarrow> re_latest e (on_client item))
     | _ \<Rightarrow> re_latest e (on_client item))"

definition live_streak :: "jsobj \<Rightarrow> string \<Rightarrow> jsnum" where
  "live_streak live uuid = (case js_get live uuid of Obj v \<Rightarrow> (case js_get v ''streak'' of Num x \<Rightarrow> x | _ \<Rightarrow> Fin 0) | _ \<Rightarrow> Fin 0)"

definition streak_threshold :: "(string \<times> string) list \<Rightarrow> jsnum" where
  "streak_threshold settings =
     (let v = js_Number (let t = setting_of settings ''offline_confirm_rounds'' in
                           if t = [] then Num (Fin (of_nat DEFAULT_OFFLINE_CONFIRM_ROUNDS)) else Str t)
      in case v of NaN \<Rightarrow> NaN | _ \<Rightarrow> if js_lt v (Fin 1) then Fin 1 else v)"

definition item_event :: "(string \<Rightarrow> int option) \<Rightarrow> (rat \<Rightarrow> string) \<Rightarrow> round_env \<Rightarrow> jsobj \<Rightarrow> offline_row \<Rightarrow> offline_event option" where
  "item_event dp isoText e live item = (case re_createdAt e (on_client item) of
       None \<Rightarrow> None
     | Some created \<Rightarrow>
         (case evaluateOfflineNotificationEvent dp (re_now e) created (last_time isoText e live item) (on_last item) (grace_sec item)
                 (setting_of (re_settings e) ''offline_notify_never_reported'' \<noteq> ''false'') of
            Some (OfflineEv ms lbl never cr) \<Rightarrow>
              if js_lt (live_streak live (on_client item)) (streak_threshold (re_settings e)) then None else Some (OfflineEv ms lbl never cr)
          | ev \<Rightarrow> ev))"

definition mark_row :: "string \<Rightarrow> string option \<Rightarrow> offline_row list \<Rightarrow> offline_row list" where
  "mark_row uuid when rows = map (\<lambda>r. if on_client r = uuid then r\<lparr>on_last := when\<rparr> else r) rows"

record check_state =
  ck_do :: live_do
  ck_rows :: "offline_row list"
  ck_log :: "(string \<times> offline_event) list"

text \<open>\<open>sendNotification\<close> with the handler that marks the row, and the audit entry after it.\<close>

definition send_event :: "(rat \<Rightarrow> string) \<Rightarrow> round_env \<Rightarrow> string \<Rightarrow> offline_event \<Rightarrow> check_state \<Rightarrow> check_state \<times> bool" where
  "send_event isoText e uuid ev s =
     (if setting_of (re_settings e) ''notification_method'' = ''none'' then (s, True)
      else case deliverNotification (re_delivery e uuid) of
          BudgetStop \<Rightarrow> (s, False)
        | NotDelivered \<Rightarrow> (s, True)
        | Delivered \<Rightarrow> (s\<lparr>ck_rows := mark_row uuid (case ev of OfflineEv _ _ _ _ \<Rightarrow> Some (isoText (re_now e)) | RecoveryEv _ \<Rightarrow> None) (ck_rows s),
                          ck_log := ck_log s @ [(uuid, ev)]\<rparr>, True))"

fun check_items :: "(string \<Rightarrow> int option) \<Rightarrow> (rat \<Rightarrow> string) \<Rightarrow> round_env \<Rightarrow> jsobj \<Rightarrow> offline_row list \<Rightarrow> check_state \<Rightarrow> check_state" where
  "check_items dp isoText e live [] s = s"
| "check_items dp isoText e live (item # items) s = (case item_event dp isoText e live item of
       None \<Rightarrow> check_items dp isoText e live items s
     | Some ev \<Rightarrow> (case send_event isoText e (on_client item) ev s of
           (s', True) \<Rightarrow> check_items dp isoText e live items s' | (s', False) \<Rightarrow> s'))"

definition runOfflineCheck :: "(string \<Rightarrow> int option) \<Rightarrow> (rat \<Rightarrow> string) \<Rightarrow> round_env \<Rightarrow> check_state \<Rightarrow> check_state" where
  "runOfflineCheck dp isoText e s =
     (let enabled = filter on_enable (ck_rows s)
      in if enabled = [] then s
         else case fetchOfflineLiveness e (map (liveness_item dp e) enabled) (ck_do s) of
             (d, None) \<Rightarrow> s\<lparr>ck_do := d\<rparr>
           | (d, Some live) \<Rightarrow> check_items dp isoText e live (re_order e enabled) (s\<lparr>ck_do := d\<rparr>))"

subsection \<open>Rounds\<close>

text \<open>
  Between rounds nodes report, so a round starts from tables of its own, and the rules are edited: which
  nodes are watched and with what grace period. The verdicts given on each node are recorded beside the state.
\<close>

record alert_round =
  ar_clients :: "(string \<times> client_state) list"
  ar_lastKnown :: "(string \<times> client_state) list"
  ar_rules :: "string \<Rightarrow> bool \<times> int"
  ar_env :: round_env

definition prepare :: "alert_round \<Rightarrow> check_state \<Rightarrow> check_state" where
  "prepare r s = s\<lparr>ck_do := with_tables (ar_clients r) (ar_lastKnown r) (ck_do s),
     ck_rows := map (\<lambda>row. row\<lparr>on_enable := fst (ar_rules r (on_client row)), on_grace := snd (ar_rules r (on_client row))\<rparr>) (ck_rows s)\<rparr>"

definition entry_of :: "(string \<Rightarrow> int option) \<Rightarrow> round_env \<Rightarrow> offline_row \<Rightarrow> string \<times> rat \<times> rat" where
  "entry_of dp e item = (on_client item, of_int (grace_sec item * 1000),
     (let f = (case (case re_latest e (on_client item) of Some t \<Rightarrow> dp t | None \<Rightarrow> dp []) of Some t \<Rightarrow> t | None \<Rightarrow> 0) in if 0 < f then of_int f else 0))"

definition round_verdicts :: "(string \<Rightarrow> int option) \<Rightarrow> alert_round \<Rightarrow> check_state \<Rightarrow> string \<Rightarrow> bool list" where
  "round_verdicts dp r s uuid =
     (if re_reachable (ar_env r)
      then map (\<lambda>item. judged_offline (re_nowObject (ar_env r)) (entry_of dp (ar_env r) item) (ck_do (prepare r s)))
             (filter (\<lambda>item. on_client item = uuid) (filter on_enable (ck_rows (prepare r s))))
      else [])"

definition round_step :: "(string \<Rightarrow> int option) \<Rightarrow> (rat \<Rightarrow> string) \<Rightarrow> alert_round \<Rightarrow> check_state \<times> (string \<Rightarrow> bool list) \<Rightarrow> check_state \<times> (string \<Rightarrow> bool list)" where
  "round_step dp isoText r sv = (runOfflineCheck dp isoText (ar_env r) (prepare r (fst sv)),
     \<lambda>uuid. snd sv uuid @ round_verdicts dp r (fst sv) uuid)"

text \<open>What is assumed of the parameters: the range of dates, a date that prints as some text, rules within their bounds, an order that only drops and permutes.\<close>

definition dates_ok :: "(string \<Rightarrow> int option) \<Rightarrow> (rat \<Rightarrow> string) \<Rightarrow> bool" where
  "dates_ok dp isoText \<longleftrightarrow> (\<forall>s t. dp s = Some t \<longrightarrow> \<bar>t\<bar> \<le> 8640000000000000) \<and> (\<forall>t. isoText t \<noteq> [])"

definition round_ok :: "alert_round \<Rightarrow> bool" where
  "round_ok r \<longleftrightarrow> (\<forall>c. snd (ar_rules r c) \<le> 86400)
     \<and> (\<forall>xs. distinct xs \<longrightarrow> set (re_order (ar_env r) xs) \<subseteq> set xs \<and> distinct (re_order (ar_env r) xs))"

subsection \<open>One round\<close>

lemma grace_bounds: "on_grace item \<le> 86400 \<Longrightarrow> 30 \<le> grace_sec item \<and> grace_sec item \<le> 86400"
  by (auto simp: grace_sec_def DEFAULT_OFFLINE_GRACE_PERIOD_SEC_def)

lemma item_clean:
  assumes "dates_ok dp isoText" "on_grace item \<le> 86400"
  shows "json_clean (liveness_item dp e item)"
proof -
  have b: "\<bar>t\<bar> < 10 ^ 21" if "dp x = Some t" for x t
  proof -
    have "\<bar>t\<bar> \<le> 8640000000000000" using assms(1) that by (auto simp: dates_ok_def)
    also have "\<dots> < 10 ^ 21" by simp
    finally show ?thesis .
  qed
  define f where "f = (case (case re_latest e (on_client item) of Some t \<Rightarrow> dp t | None \<Rightarrow> dp []) of Some t \<Rightarrow> t | None \<Rightarrow> 0)"
  have "\<bar>f\<bar> < 10 ^ 21" using b by (simp add: f_def split: option.split)
  moreover define g where "g = grace_sec item * 1000"
  moreover have "\<bar>g\<bar> < 10 ^ 21" using grace_bounds [OF assms(2)] by (simp add: g_def)
  ultimately show ?thesis unfolding liveness_item_def f_def [symmetric] Let_def g_def [symmetric] by simp
qed

lemma item_entry:
  assumes "on_grace item \<le> 86400" "on_client item \<noteq> []"
  shows "liveness_entry (liveness_item dp e item) = Some (entry_of dp e item)"
  using assms(2) grace_bounds [OF assms(1)]
  by (simp add: liveness_entry_def liveness_item_def entry_of_def js_get_def Let_def)

lemma fetch_reachable:
  assumes "dates_ok dp isoText" "\<forall>item \<in> set items. on_grace item \<le> 86400" "items \<noteq> []" "re_reachable e"
  shows "fetchOfflineLiveness e (map (liveness_item dp e) items) d =
    (fst (evaluate_entries (re_nowObject e) (map (liveness_item dp e) items) d), Some (snd (evaluate_entries (re_nowObject e) (map (liveness_item dp e) items) d)))"
proof -
  have "json_clean (Obj [(''clients'', Arr (map (liveness_item dp e) items))])"
    using item_clean [OF assms(1)] assms(2) by (simp add: list_all_iff)
  then obtain t where "JSON_stringify (Obj [(''clients'', Arr (map (liveness_item dp e) items))]) = Some t"
    "JSON_parse t = Some (Obj [(''clients'', Arr (map (liveness_item dp e) items))])"
    using json_parse_stringify by blast
  then have "evaluateOfflineLiveness (re_nowObject e) (own_request [(''clients'', Arr (map (liveness_item dp e) items))]) d =
      (case evaluate_entries (re_nowObject e) (map (liveness_item dp e) items) d of
         (d', results) \<Rightarrow> (d', Some (200, Obj [(''ok'', Bool True), (''now'', Num (Fin (re_nowObject e))), (''clients'', Obj results)])))"
    by (simp add: evaluateOfflineLiveness_def own_request_def js_get_def Let_def del: JSON_stringify.simps)
  then show ?thesis using assms(3,4) by (simp add: fetchOfflineLiveness_def js_get_def split: prod.split)
qed

subsection \<open>Alerts of a node\<close>

definition events_of :: "string \<Rightarrow> check_state \<Rightarrow> offline_event list" where
  "events_of uuid s = map snd (filter (\<lambda>x. fst x = uuid) (ck_log s))"

definition alternating :: "offline_event list \<Rightarrow> bool" where
  "alternating evs \<longleftrightarrow> (\<forall>i < length evs. is_OfflineEv (evs ! i) = even i)"

definition notified :: "offline_row \<Rightarrow> bool" where
  "notified row = (truthy_text (on_last row) \<noteq> None)"

definition rows_agree :: "string \<Rightarrow> offline_event list \<Rightarrow> offline_row list \<Rightarrow> bool" where
  "rows_agree uuid evs rows \<longleftrightarrow> (\<forall>row \<in> set rows. on_client row = uuid \<longrightarrow> notified row = odd (length evs))"

lemma item_event_kind:
  assumes "item_event dp isoText e live item = Some ev"
  shows "is_OfflineEv ev = (\<not> notified item)" "is_OfflineEv ev \<Longrightarrow> \<not> js_lt (live_streak live (on_client item)) (streak_threshold (re_settings e))"
  using assms by (auto simp: item_event_def evaluateOfflineNotificationEvent_def notified_def Let_def
      split: option.splits if_splits offline_event.splits)

lemma alternating_snoc: "alternating evs \<Longrightarrow> is_OfflineEv ev = even (length evs) \<Longrightarrow> alternating (evs @ [ev])"
  by (simp add: alternating_def nth_append less_Suc_eq)

lemma send_event_cases:
  assumes "send_event isoText e c ev s = (s', go)" "\<And>t. isoText t \<noteq> []"
  shows "ck_do s' = ck_do s" "map on_client (ck_rows s') = map on_client (ck_rows s)"
    "s' = s \<or> (go \<and> (\<forall>uuid. events_of uuid s' = events_of uuid s @ (if uuid = c then [ev] else []))
       \<and> (\<forall>uuid evs. rows_agree uuid evs (ck_rows s) \<longrightarrow> uuid \<noteq> c \<longrightarrow> rows_agree uuid evs (ck_rows s'))
       \<and> (\<forall>row \<in> set (ck_rows s'). on_client row = c \<longrightarrow> notified row = is_OfflineEv ev))"
proof -
  have "ck_do s' = ck_do s \<and> map on_client (ck_rows s') = map on_client (ck_rows s) \<and>
    (s' = s \<or> (go \<and> (\<forall>uuid. events_of uuid s' = events_of uuid s @ (if uuid = c then [ev] else []))
       \<and> (\<forall>uuid evs. rows_agree uuid evs (ck_rows s) \<longrightarrow> uuid \<noteq> c \<longrightarrow> rows_agree uuid evs (ck_rows s'))
       \<and> (\<forall>row \<in> set (ck_rows s'). on_client row = c \<longrightarrow> notified row = is_OfflineEv ev)))"
  proof (cases "setting_of (re_settings e) ''notification_method'' = ''none'' \<or> deliverNotification (re_delivery e c) \<noteq> Delivered")
    case True
    then have "s' = s" using assms(1) by (cases "deliverNotification (re_delivery e c)") (auto simp: send_event_def split: if_splits)
    then show ?thesis by simp
  next
    case False
    define w where "w = (case ev of OfflineEv _ _ _ _ \<Rightarrow> Some (isoText (re_now e)) | RecoveryEv _ \<Rightarrow> None)"
    have s': "s' = s\<lparr>ck_rows := mark_row c w (ck_rows s), ck_log := ck_log s @ [(c, ev)]\<rparr>" "go"
      using False assms(1) by (simp_all add: send_event_def w_def)
    have w: "(truthy_text w \<noteq> None) = is_OfflineEv ev" using assms(2) by (cases ev) (simp_all add: w_def truthy_text_def)
    have "notified row = is_OfflineEv ev" if r: "row \<in> set (mark_row c w (ck_rows s))" and rc: "on_client row = c" for row
    proof -
      obtain r0 where "row = (if on_client r0 = c then r0\<lparr>on_last := w\<rparr> else r0)"
        using r unfolding mark_row_def set_map by blast
      then have "on_last row = w" using rc by (cases "on_client r0 = c") simp_all
      then show ?thesis using w by (simp add: notified_def)
    qed
    moreover have "rows_agree uuid evs (mark_row c w (ck_rows s))" if "rows_agree uuid evs (ck_rows s)" "uuid \<noteq> c" for uuid evs
      using that by (auto simp: rows_agree_def mark_row_def)
    moreover have "map on_client (mark_row c w (ck_rows s)) = map on_client (ck_rows s)" by (simp add: mark_row_def)
    ultimately show ?thesis using s'(2) by (simp add: s'(1) events_of_def)
  qed
  then show "ck_do s' = ck_do s" "map on_client (ck_rows s') = map on_client (ck_rows s)"
    "s' = s \<or> (go \<and> (\<forall>uuid. events_of uuid s' = events_of uuid s @ (if uuid = c then [ev] else []))
       \<and> (\<forall>uuid evs. rows_agree uuid evs (ck_rows s) \<longrightarrow> uuid \<noteq> c \<longrightarrow> rows_agree uuid evs (ck_rows s'))
       \<and> (\<forall>row \<in> set (ck_rows s'). on_client row = c \<longrightarrow> notified row = is_OfflineEv ev))"
    by blast+
qed

lemma check_items_node:
  assumes iso: "\<And>t. isoText t \<noteq> []"
    and "distinct (map on_client items)" "rows_agree uuid (events_of uuid s) items"
    and "alternating (events_of uuid s)" "rows_agree uuid (events_of uuid s) (ck_rows s)" "s' = check_items dp isoText e live items s"
  shows "ck_do s' = ck_do s \<and> map on_client (ck_rows s') = map on_client (ck_rows s)
    \<and> alternating (events_of uuid s') \<and> rows_agree uuid (events_of uuid s') (ck_rows s')
    \<and> (\<forall>ev \<in> set (drop (length (events_of uuid s)) (events_of uuid s')).
         is_OfflineEv ev \<longrightarrow> uuid \<in> on_client ` set items \<and> \<not> js_lt (live_streak live uuid) (streak_threshold (re_settings e)))
    \<and> take (length (events_of uuid s)) (events_of uuid s') = events_of uuid s"
  using assms(2-6)
proof (induction items arbitrary: s)
  case Nil
  then show ?case by simp
next
  case (Cons item items)
  show ?case
  proof (cases "item_event dp isoText e live item")
    case None
    then show ?thesis using Cons.IH [of s] Cons.prems by (auto simp: rows_agree_def)
  next
    case (Some ev)
    obtain s1 go where se: "send_event isoText e (on_client item) ev s = (s1, go)" by fastforce
    note sc = send_event_cases [OF se iso]
    show ?thesis
    proof (cases "s1 = s")
      case True
      then show ?thesis using Cons Some se by (cases go) (auto simp: rows_agree_def)
    next
      case False
      then have ch: "go" "events_of uuid s1 = events_of uuid s @ (if uuid = on_client item then [ev] else [])"
        "\<And>evs. rows_agree uuid evs (ck_rows s) \<Longrightarrow> uuid \<noteq> on_client item \<Longrightarrow> rows_agree uuid evs (ck_rows s1)"
        "\<forall>row \<in> set (ck_rows s1). on_client row = on_client item \<longrightarrow> notified row = is_OfflineEv ev"
        using sc(3) by auto
      have s': "s' = check_items dp isoText e live items s1" using Cons.prems(5) Some se ch(1) by simp
      show ?thesis
      proof (cases "uuid = on_client item")
        case mine: True
        have n: "notified item = odd (length (events_of uuid s))" using Cons.prems(2) mine by (simp add: rows_agree_def)
        have kind: "is_OfflineEv ev = even (length (events_of uuid s))" using item_event_kind(1) [OF Some] n by simp
        have evs: "events_of uuid s1 = events_of uuid s @ [ev]" using ch(2) mine by simp
        have alt: "alternating (events_of uuid s1)" unfolding evs by (rule alternating_snoc [OF Cons.prems(3) kind])
        have gone: "uuid \<notin> on_client ` set items" using Cons.prems(1) mine by auto
        have items: "rows_agree uuid (events_of uuid s1) items" using gone unfolding rows_agree_def by blast
        have rows: "rows_agree uuid (events_of uuid s1) (ck_rows s1)"
          unfolding rows_agree_def
        proof (intro ballI impI)
          fix row assume "row \<in> set (ck_rows s1)" "on_client row = uuid"
          then have "notified row = is_OfflineEv ev" using ch(4) mine by blast
          then show "notified row = odd (length (events_of uuid s1))" using kind by (simp add: evs)
        qed
        have ih: "ck_do s' = ck_do s1 \<and> map on_client (ck_rows s') = map on_client (ck_rows s1) \<and> alternating (events_of uuid s')
          \<and> rows_agree uuid (events_of uuid s') (ck_rows s')
          \<and> (\<forall>ev \<in> set (drop (length (events_of uuid s1)) (events_of uuid s')). \<not> is_OfflineEv ev)
          \<and> take (length (events_of uuid s1)) (events_of uuid s') = events_of uuid s1"
          using Cons.IH [of s1] Cons.prems(1) items alt rows s' gone by auto
        define k where "k = length (events_of uuid s)"
        have split: "events_of uuid s' = events_of uuid s @ ev # drop (Suc k) (events_of uuid s')"
          using ih append_take_drop_id [of "length (events_of uuid s1)" "events_of uuid s'"] unfolding evs by (simp add: k_def)
        have "set (drop k (events_of uuid s')) = insert ev (set (drop (Suc k) (events_of uuid s')))"
          by (subst split) (simp add: k_def)
        moreover have "take k (events_of uuid s') = events_of uuid s" by (subst split) (simp add: k_def)
        moreover have "\<forall>x \<in> set (drop (Suc k) (events_of uuid s')). \<not> is_OfflineEv x" using ih by (simp add: evs k_def)
        moreover have "is_OfflineEv ev \<longrightarrow> \<not> js_lt (live_streak live uuid) (streak_threshold (re_settings e))"
          using item_event_kind(2) [OF Some] mine by simp
        ultimately show ?thesis using ih sc(1,2) mine unfolding k_def [symmetric] by auto
      next
        case other: False
        have ev: "events_of uuid s1 = events_of uuid s" using ch(2) other by simp
        have rows: "rows_agree uuid (events_of uuid s) (ck_rows s1)" by (rule ch(3) [OF Cons.prems(4) other])
        show ?thesis using Cons.IH [of s1] Cons.prems(1-3) rows s' sc(1,2) by (auto simp: ev rows_agree_def)
      qed
    qed
  qed
qed

subsection \<open>All rounds\<close>

definition node_inv :: "string \<Rightarrow> check_state \<Rightarrow> bool list \<Rightarrow> bool" where
  "node_inv uuid s bs \<longleftrightarrow> streaks (ck_do s) uuid = streak_row (run_length bs) \<and> distinct (map on_client (ck_rows s))
     \<and> alternating (events_of uuid s) \<and> rows_agree uuid (events_of uuid s) (ck_rows s)"

lemma prepare_inv: "node_inv uuid (prepare r s) bs = node_inv uuid s bs" "events_of uuid (prepare r s) = events_of uuid s"
  by (auto simp: node_inv_def prepare_def events_of_def rows_agree_def notified_def o_def)

lemma entries_of_items:
  assumes "uuid \<noteq> []" "\<forall>item \<in> set rows. on_grace item \<le> 86400"
  shows "filter (\<lambda>en. fst en = uuid) (List.map_filter liveness_entry (map (liveness_item dp e) rows))
     = map (entry_of dp e) (filter (\<lambda>item. on_client item = uuid) rows)"
  using assms(2)
proof (induction rows)
  case (Cons item rows)
  have "fst (entry_of dp e item) = on_client item" by (simp add: entry_of_def)
  moreover have "on_client item = [] \<Longrightarrow> liveness_entry (liveness_item dp e item) = None"
    by (simp add: liveness_entry_def liveness_item_def js_get_def Let_def split: jsnum.split)
  ultimately show ?case using Cons assms(1) item_entry [of item dp e]
    by (cases "on_client item = []") (auto simp: List.map_filter_simps)
qed (simp add: List.map_filter_simps)

lemma filter_one: "distinct (map f xs) \<Longrightarrow> x \<in> set xs \<Longrightarrow> filter (\<lambda>y. f y = f x) xs = [x]"
proof (induction xs)
  case (Cons a xs)
  show ?case
  proof (cases "x = a")
    case True
    have "filter (\<lambda>y. f y = f x) xs = []" using Cons.prems(1) True by (simp add: filter_empty_conv) (metis imageI)
    then show ?thesis using True by simp
  next
    case False
    then have "x \<in> set xs" "f a \<noteq> f x" using Cons.prems by auto
    then show ?thesis using Cons by simp
  qed
qed simp

lemma live_streak_result:
  "map_of live uuid = Some (Obj [(''lastSeen'', a), (''offline'', b), (''streak'', Num x)]) \<Longrightarrow> live_streak live uuid = x"
  by (simp add: live_streak_def js_get_def)

lemma check_round:
  assumes dates: "dates_ok dp isoText" and u: "uuid \<noteq> []" and inv: "node_inv uuid s bs"
    and g: "\<forall>row \<in> set (ck_rows s). on_grace row \<le> 86400"
    and ord: "\<And>xs. distinct xs \<Longrightarrow> set (re_order e xs) \<subseteq> set xs \<and> distinct (re_order e xs)"
  defines "vs \<equiv> (if re_reachable e then map (\<lambda>item. judged_offline (re_nowObject e) (entry_of dp e item) (ck_do s))
       (filter (\<lambda>item. on_client item = uuid) (filter on_enable (ck_rows s))) else [])"
    and "s' \<equiv> runOfflineCheck dp isoText e s"
  shows "node_inv uuid s' (bs @ vs) \<and> (\<forall>ev \<in> set (drop (length (events_of uuid s)) (events_of uuid s')).
    is_OfflineEv ev \<longrightarrow> \<not> js_lt (Fin (of_nat (run_length (bs @ vs)))) (streak_threshold (re_settings e)))"
proof -
  define en where "en = filter on_enable (ck_rows s)"
  have idle: ?thesis if "vs = []" "events_of uuid s' = events_of uuid s" "ck_rows s' = ck_rows s" "streaks (ck_do s') = streaks (ck_do s)"
    using inv that by (simp add: node_inv_def)
  consider (none) "en = []" | (lost) "en \<noteq> []" "\<not> re_reachable e" | (live) "en \<noteq> []" "re_reachable e" by blast
  then show ?thesis
  proof cases
    case none
    then show ?thesis by (intro idle) (simp_all add: vs_def s'_def runOfflineCheck_def en_def [symmetric])
  next
    case lost
    then show ?thesis by (intro idle) (simp_all add: vs_def s'_def runOfflineCheck_def en_def [symmetric] fetchOfflineLiveness_def events_of_def)
  next
    case live
    have ge: "\<forall>item \<in> set en. on_grace item \<le> 86400" using g by (simp add: en_def)
    define es where "es = List.map_filter liveness_entry (map (liveness_item dp e) en)"
    obtain d' live where ev: "fold (evaluate_entry (re_nowObject e)) es (ck_do s, []) = (d', live)" by fastforce
    have ft: "fetchOfflineLiveness e (map (liveness_item dp e) en) (ck_do s) = (d', Some live)"
      using fetch_reachable [OF dates ge live, of "ck_do s"] by (simp add: evaluate_entries_def es_def [symmetric] ev)
    have es_u: "filter (\<lambda>x. fst x = uuid) es = map (entry_of dp e) (filter (\<lambda>item. on_client item = uuid) en)"
      unfolding es_def by (rule entries_of_items [OF u ge])
    have vs: "vs = map (\<lambda>x. judged_offline (re_nowObject e) x (ck_do s)) (filter (\<lambda>x. fst x = uuid) es)"
      using live by (simp add: vs_def es_u en_def)
    have st0: "streaks (ck_do s) uuid = streak_row (run_length bs)" using inv by (simp add: node_inv_def)
    have st: "streaks d' uuid = streak_row (run_length (bs @ vs))" using entries_step [OF st0 ev] by (simp add: vs)
    define s0 where "s0 = s\<lparr>ck_do := d'\<rparr>"
    have s': "s' = check_items dp isoText e live (re_order e en) s0"
      using live ft by (simp add: s'_def runOfflineCheck_def en_def [symmetric] s0_def)
    have ev0: "events_of uuid s0 = events_of uuid s" "ck_rows s0 = ck_rows s" by (simp_all add: s0_def events_of_def)
    have rows: "distinct (map on_client (ck_rows s))" "rows_agree uuid (events_of uuid s) (ck_rows s)" "alternating (events_of uuid s)"
      using inv by (simp_all add: node_inv_def)
    have inj: "inj_on on_client (set en)" "distinct en" using rows(1) by (auto simp: en_def distinct_map intro: inj_on_subset)
    have sub: "set (re_order e en) \<subseteq> set en" "distinct (re_order e en)" using ord [OF inj(2)] by blast+
    have d1: "distinct (map on_client (re_order e en))" using sub inj(1) by (auto simp: distinct_map intro: inj_on_subset)
    have r1: "rows_agree uuid (events_of uuid s0) (re_order e en)" using rows(2) sub(1) by (auto simp: ev0 rows_agree_def en_def)
    have c: "ck_do s' = ck_do s0 \<and> map on_client (ck_rows s') = map on_client (ck_rows s0)
      \<and> alternating (events_of uuid s') \<and> rows_agree uuid (events_of uuid s') (ck_rows s')
      \<and> (\<forall>x \<in> set (drop (length (events_of uuid s0)) (events_of uuid s')).
           is_OfflineEv x \<longrightarrow> uuid \<in> on_client ` set (re_order e en) \<and> \<not> js_lt (live_streak live uuid) (streak_threshold (re_settings e)))"
      using check_items_node [OF _ d1 r1 _ _ s'] rows dates by (simp add: ev0 dates_ok_def)
    have streak: "live_streak live uuid = Fin (of_nat (run_length (bs @ vs)))" if asked: "uuid \<in> on_client ` set (re_order e en)"
    proof -
      obtain item where i: "item \<in> set en" "on_client item = uuid" using asked sub(1) by blast
      have "filter (\<lambda>x. on_client x = uuid) en = [item]"
        using filter_one [of on_client en item] i inj by (simp add: distinct_map)
      then have one: "filter (\<lambda>x. fst x = uuid) es = [entry_of dp e item]" by (simp add: es_u)
      show ?thesis using live_streak_result [OF entries_result [OF st0 ev one]] by (simp add: vs one)
    qed
    show ?thesis using c st rows(1) streak by (auto simp: node_inv_def s0_def [symmetric] ev0) (simp_all add: s0_def)
  qed
qed

lemma round_inv:
  assumes "dates_ok dp isoText" "uuid \<noteq> []" "round_ok r" "node_inv uuid s (V uuid)" "round_step dp isoText r (s, V) = (s', V')"
  shows "node_inv uuid s' (V' uuid) \<and> (\<forall>ev \<in> set (drop (length (events_of uuid s)) (events_of uuid s')).
    is_OfflineEv ev \<longrightarrow> \<not> js_lt (Fin (of_nat (run_length (V' uuid)))) (streak_threshold (re_settings (ar_env r))))"
proof -
  have g: "\<forall>row \<in> set (ck_rows (prepare r s)). on_grace row \<le> 86400" using assms(3) by (auto simp: prepare_def round_ok_def)
  have "V' uuid = V uuid @ round_verdicts dp r s uuid" "s' = runOfflineCheck dp isoText (ar_env r) (prepare r s)"
    using assms(5) by (auto simp: round_step_def)
  then show ?thesis
    using check_round [OF assms(1,2) _ g, of "V uuid" "ar_env r"] assms(3,4)
    by (simp add: prepare_inv round_verdicts_def round_ok_def)
qed

lemma rounds_inv:
  assumes "dates_ok dp isoText" "uuid \<noteq> []" "\<forall>r \<in> set rounds. round_ok r" "node_inv uuid s (V uuid)"
    and "fold (round_step dp isoText) rounds (s, V) = (s', V')"
  shows "node_inv uuid s' (V' uuid)"
  using assms(3-5)
proof (induction rounds arbitrary: s V)
  case (Cons r rounds)
  obtain s1 V1 where r: "round_step dp isoText r (s, V) = (s1, V1)" by fastforce
  have "node_inv uuid s1 (V1 uuid)" using round_inv [OF assms(1,2) _ Cons.prems(2) r] Cons.prems(1) by simp
  then show ?case using Cons r by simp
qed simp


definition sample_round :: alert_round where
  "sample_round = \<lparr>ar_clients = [], ar_lastKnown = [], ar_rules = (\<lambda>_. (True, 60)), ar_env = \<lparr>re_now = 5000000, re_nowObject = 5000001,
     re_createdAt = (\<lambda>_. Some (Some ''c'')), re_latest = Map.empty, re_settings = [(''offline_confirm_rounds'', ''2'')], re_reachable = True,
     re_order = (\<lambda>xs. xs), re_delivery = (\<lambda>_. \<lparr>da_claim = \<lparr>claim_delivered = False, claim_claimed = True, claim_token = Some ''t''\<rparr>,
       da_send = SendOk True, da_complete = (\<lambda>_. True), da_onDelivered = True\<rparr>)\<rparr>\<rparr>"

definition sample_check :: check_state where
  "sample_check = \<lparr>ck_do = new_live_do, ck_rows = [\<lparr>on_client = ''n1'', on_enable = True, on_grace = 60, on_last = None\<rparr>], ck_log = []\<rparr>"


end
