(* ===== verification/ReportNetwork.thy ===== *)
theory ReportNetwork
  imports ClientSync
begin

section \<open>Addresses and region of a report\<close>

text \<open>
  What \<open>do/live-data.ts\<close> keeps of the network data of a report: \<open>sanitizeReport\<close>, the region that
  is looked up from a public address (\<open>inferRegionFromPublicIp\<close>, \<open>syncNetworkMetadataFromReport\<close>,
  \<open>applyInferredNetworkMetadataToLiveReport\<close>) and the static facts of \<open>syncBasicInfoFromReport\<close>.
  The answer of the geolocation service is a parameter: the parsed body, or None when the request
  failed. \<open>delete\<close> and assignment of a property are \<open>AList.delete\<close> and \<open>AList.update\<close>.
\<close>

subsection \<open>Regions\<close>

definition isCountryCodeRegion :: "string \<Rightarrow> bool" where
  "isCountryCodeRegion region = (let t = js_trim region in length t = 2 \<and> list_all (\<lambda>c. is_AZ c \<or> is_az c) t)"

definition isDetailedRegion :: "string \<Rightarrow> bool" where
  "isDetailedRegion region = (let t = js_trim region in t \<noteq> [] \<and> \<not> isUnknownRegionValue t \<and> \<not> isCountryCodeRegion t)"

definition geoText :: "jsval \<Rightarrow> string \<Rightarrow> string" where
  "geoText source key = (case source of
       Obj o' \<Rightarrow> (case js_get o' key of Str s \<Rightarrow> js_trim s | _ \<Rightarrow> []) | _ \<Rightarrow> [])"

fun geo_parts :: "string list \<Rightarrow> string list \<Rightarrow> string list" where
  "geo_parts seen [] = []"
| "geo_parts seen (part # parts) =
     (let t = js_trim part; key = js_toLowerCase t
      in if t = [] \<or> isUnknownRegionValue t \<or> key \<in> set seen then geo_parts seen parts
         else t # geo_parts (key # seen) parts)"

definition uniqueGeoParts :: "string list \<Rightarrow> string list" where
  "uniqueGeoParts parts = geo_parts [] parts"

definition regionFromGeoJsBody :: "jsval \<Rightarrow> string" where
  "regionFromGeoJsBody body =
     (let city = geoText body ''city''; regionName = geoText body ''region'';
          country = (if geoText body ''country_code'' \<noteq> [] then geoText body ''country_code'' else geoText body ''country'')
      in js_join '', '' (uniqueGeoParts [city, regionName, country]))"

subsection \<open>Cleaning a report\<close>

record network_metadata =
  nm_sourceIp :: "string option"
  nm_region :: "string option"

definition drop_private_ip :: "string \<Rightarrow> jsobj \<Rightarrow> jsobj" where
  "drop_private_ip field report = (case js_get report field of
       Str s \<Rightarrow> if js_trim s \<noteq> [] \<and> \<not> isPublicIpAddress (js_trim s) then AList.delete field report else report
     | _ \<Rightarrow> report)"

definition has_public_field :: "jsobj \<Rightarrow> string \<Rightarrow> bool" where
  "has_public_field report field = (case js_get report field of Str s \<Rightarrow> isPublicIpAddress s | _ \<Rightarrow> False)"

definition fill_source_ip :: "string \<Rightarrow> jsobj \<Rightarrow> jsobj" where
  "fill_source_ip sourceIp report =
     (if \<not> isPublicIpAddress sourceIp then report
      else let field = (if CHR '':'' \<in> set sourceIp then ''ipv6'' else ''ipv4'')
           in if has_public_field report field then report else AList.update field (Str sourceIp) report)"

definition fill_region :: "string \<Rightarrow> jsobj \<Rightarrow> jsobj" where
  "fill_region region report =
     (let reportRegion = (case js_get report ''region'' of Str s \<Rightarrow> js_trim s | _ \<Rightarrow> []);
          r1 = (if region \<noteq> [] \<and> isUsefulRegion region \<and> \<not> isUsefulRegion reportRegion
                then AList.update ''region'' (Str region) report else report)
      in case js_get r1 ''region'' of
          Str s \<Rightarrow> if \<not> isUsefulRegion s then AList.delete ''region'' r1 else r1
        | _ \<Rightarrow> r1)"

definition trimmed :: "string option \<Rightarrow> string" where
  "trimmed ov = (case ov of Some s \<Rightarrow> js_trim s | None \<Rightarrow> [])"

definition sanitizeReport :: "jsobj \<Rightarrow> network_metadata option \<Rightarrow> jsobj" where
  "sanitizeReport report network =
     (let safe = AList.delete ''password'' (AList.delete ''authorization'' (AList.delete ''token'' report));
          safe1 = drop_private_ip ''ipv6'' (drop_private_ip ''ipv4'' safe);
          safe2 = fill_source_ip (trimmed (Option.bind network nm_sourceIp)) safe1
      in fill_region (trimmed (Option.bind network nm_region)) safe2)"

subsection \<open>Metadata derived from reports\<close>

definition GEO_REGION_CACHE_MS :: rat where
  "GEO_REGION_CACHE_MS = 48 * 60 * 60 * 1000"

text \<open>\<open>geo\<close> is the geolocation service: the parsed body of a successful answer.\<close>

definition inferRegionFromPublicIp ::
  "(string \<Rightarrow> jsval option) \<Rightarrow> rat \<Rightarrow> string \<Rightarrow> (string \<rightharpoonup> string \<times> rat) \<Rightarrow> (string \<rightharpoonup> string \<times> rat) \<times> string" where
  "inferRegionFromPublicIp geo now ip cache =
     (let publicIp = js_trim ip;
          lookup = (case geo publicIp of
              None \<Rightarrow> (cache, [])
            | Some body \<Rightarrow> (let region = regionFromGeoJsBody body
                in if \<not> isUsefulRegion region then (cache, []) else (cache(publicIp \<mapsto> (region, now + GEO_REGION_CACHE_MS)), region)))
      in if \<not> isPublicIpAddress publicIp then (cache, [])
         else case cache publicIp of
             Some (region, expiresAt) \<Rightarrow> if now < expiresAt then (cache, region) else lookup
           | None \<Rightarrow> lookup)"

definition ip_patch :: "jsobj \<Rightarrow> string \<Rightarrow> jsobj" where
  "ip_patch report field = (case js_get report field of
       Str s \<Rightarrow> if isPublicIpAddress s then [(field, Str (js_trim s))] else [] | _ \<Rightarrow> [])"

definition region_patch :: "jsobj \<Rightarrow> jsobj" where
  "region_patch report = (case js_get report ''region'' of
       Str s \<Rightarrow> if isUsefulRegion s then [(''region'', Str (js_trim s))] else [] | _ \<Rightarrow> [])"

definition network_patch ::
  "(string \<Rightarrow> jsval option) \<Rightarrow> rat \<Rightarrow> jsobj \<Rightarrow> (string \<rightharpoonup> string \<times> rat) \<Rightarrow> (string \<rightharpoonup> string \<times> rat) \<times> jsobj" where
  "network_patch geo now report cache =
     (let patch = ip_patch report ''ipv4'' @ ip_patch report ''ipv6'' @ region_patch report
      in if isDetailedRegion (stringField patch ''region'') then (cache, patch)
         else case inferRegionFromPublicIp geo now
                (if stringField patch ''ipv4'' \<noteq> [] then stringField patch ''ipv4'' else stringField patch ''ipv6'') cache of
             (cache1, inferredRegion) \<Rightarrow>
               (cache1, if inferredRegion \<noteq> [] \<and> (js_get patch ''region'' = Undef \<or> isDetailedRegion inferredRegion)
                        then AList.update ''region'' (Str inferredRegion) patch else patch))"

definition set_when :: "string \<Rightarrow> string \<Rightarrow> jsobj \<Rightarrow> jsobj" where
  "set_when field v report = (if v \<noteq> [] \<and> js_get report field \<noteq> Str v then AList.update field (Str v) report else report)"

definition patched_ip :: "jsobj \<Rightarrow> string \<Rightarrow> string" where
  "patched_ip patch field = (case js_get patch field of Str s \<Rightarrow> if isPublicIpAddress s then js_trim s else [] | _ \<Rightarrow> [])"

definition patched_region :: "jsobj \<Rightarrow> string" where
  "patched_region patch = (case js_get patch ''region'' of Str s \<Rightarrow> if isUsefulRegion s then js_trim s else [] | _ \<Rightarrow> [])"

definition applyInferredNetworkMetadataToLiveReport :: "string \<Rightarrow> jsobj \<Rightarrow> rat \<Rightarrow> live_do \<Rightarrow> live_do" where
  "applyInferredNetworkMetadataToLiveReport clientId patch now d =
     (case Option.bind (map_of (clients d) clientId) (\<lambda>c. controlledClientState c (admin d)) of
        None \<Rightarrow> d
      | Some current \<Rightarrow>
          if (case cs_expiresAt current of Some t \<Rightarrow> t \<le> now | None \<Rightarrow> False) then d
          else let nextReport = set_when ''region'' (patched_region patch)
                     (set_when ''ipv6'' (patched_ip patch ''ipv6'') (set_when ''ipv4'' (patched_ip patch ''ipv4'') (cs_lastReport current)))
               in if nextReport = cs_lastReport current then d
                  else let nxt = current\<lparr>cs_lastReport := nextReport\<rparr>;
                           d1 = d\<lparr>clients := AList.update clientId nxt (clients d),
                                  lastKnownClients := AList.update clientId (compacted nxt) (lastKnownClients d)\<rparr>;
                           d2 = (case map_of (sessions d1) clientId of
                                   Some ws \<Rightarrow> if map_of (sessionRoles d1) clientId = Some AgentRole
                                              then rememberAgentReportAttachment ws (nxt\<lparr>cs_uuid := clientId\<rparr>) d1 else d1
                                 | None \<Rightarrow> d1)
                       in if (\<not> cs_hidden nxt \<and> unexpired (cs_expiresAt nxt) now) \<or> cs_hidden nxt
                          then broadcastToViewers (update_message (nxt\<lparr>cs_uuid := clientId, cs_lastReportTime := now\<rparr>))
                                 (if cs_hidden nxt then ToAdmin else ToAll) d2
                          else d2)"

subsection \<open>Writing metadata once\<close>

text \<open>
  Both kinds of metadata are written when their printed form differs from the last one written. The
  database may be unavailable or fail; \<open>still\<close> tells whether the report is current after the write.
  The result says whether the task threw.
\<close>

datatype db_answer = DbMissing | DbFails | DbOk

definition sync_patch ::
  "db_answer \<Rightarrow> bool \<Rightarrow> rat \<Rightarrow> string \<Rightarrow> jsobj \<Rightarrow> (string \<rightharpoonup> string) \<times> live_do \<Rightarrow> ((string \<rightharpoonup> string) \<times> live_do) \<times> bool" where
  "sync_patch db still now clientId patch = (\<lambda>(signatures, d).
     if signatures clientId = JSON_stringify (Obj patch) then ((signatures, d), False)
     else case db of
         DbMissing \<Rightarrow> ((signatures, d), False)
       | DbFails \<Rightarrow> ((signatures, d), True)
       | DbOk \<Rightarrow>
           if \<not> still then ((signatures, d), True)
           else case upsert_admin now (assign [(''uuid'', Str clientId)] patch) True d of
               (d1, client) \<Rightarrow>
                 ((signatures(clientId := JSON_stringify (Obj patch)),
                   case client of
                     Some c \<Rightarrow> broadcastMetadataChanged now [(''clients'', Obj [(''upsert'', Arr [Obj c])])] ToAll d1
                   | None \<Rightarrow> d1), False))"

definition syncNetworkMetadataFromReport ::
  "(string \<Rightarrow> jsval option) \<Rightarrow> db_answer \<Rightarrow> rat \<Rightarrow> string \<Rightarrow> jsobj \<Rightarrow>
   (string \<rightharpoonup> string \<times> rat) \<times> (string \<rightharpoonup> string) \<times> live_do \<Rightarrow> (string \<rightharpoonup> string \<times> rat) \<times> (string \<rightharpoonup> string) \<times> live_do" where
  "syncNetworkMetadataFromReport geo db now clientId report = (\<lambda>(cache, signatures, d).
     case network_patch geo now report cache of (cache1, patch) \<Rightarrow>
       if patch = [] then (cache1, signatures, d)
       else (cache1, fst (sync_patch db True now clientId patch
               (signatures, applyInferredNetworkMetadataToLiveReport clientId patch now d))))"

definition BASIC_STRING_FIELDS :: "string list" where
  "BASIC_STRING_FIELDS = [''cpu_name'', ''virtualization'', ''arch'', ''os'', ''kernel_version'', ''gpu_name'', ''ipv4'', ''ipv6'',
     ''region'', ''version'']"

definition BASIC_NUMBER_FIELDS :: "string list" where
  "BASIC_NUMBER_FIELDS = [''cpu_cores'', ''mem_total'', ''swap_total'', ''disk_total'']"

definition basic_string :: "jsobj \<Rightarrow> string \<Rightarrow> jsobj" where
  "basic_string basicInfo field = (case nonblank_text (js_get basicInfo field) of
       None \<Rightarrow> []
     | Some v \<Rightarrow>
         (let t = js_trim v
          in if (field = ''ipv4'' \<or> field = ''ipv6'') \<and> \<not> isPublicIpAddress t then []
             else if field = ''region'' \<and> \<not> isUsefulRegion t then []
             else [(field, Str t)]))"

definition basic_number :: "jsobj \<Rightarrow> string \<Rightarrow> jsobj" where
  "basic_number basicInfo field =
     (let v = js_get basicInfo field
      in if field = ''disk_total'' \<and> (v = Null \<or> v = Num (Fin 0)) then [(field, Num (Fin 0))]
         else case js_Number v of
             Fin q \<Rightarrow> if (if field = ''swap_total'' then 0 \<le> q else 0 < q) then [(field, Num (Fin q))] else []
           | _ \<Rightarrow> [])"

definition basic_info_patch :: "jsobj \<Rightarrow> jsobj" where
  "basic_info_patch basicInfo =
     concat (map (basic_string basicInfo) BASIC_STRING_FIELDS) @ concat (map (basic_number basicInfo) BASIC_NUMBER_FIELDS)"

text \<open>\<open>current\<close> tells whether the report is current when the queue reaches the task.\<close>

definition syncBasicInfoFromReport ::
  "db_answer \<Rightarrow> bool \<Rightarrow> bool \<Rightarrow> rat \<Rightarrow> string \<Rightarrow> jsobj \<Rightarrow> (string \<rightharpoonup> string) \<times> live_do \<Rightarrow> ((string \<rightharpoonup> string) \<times> live_do) \<times> bool" where
  "syncBasicInfoFromReport db current still now clientId report st =
     (case js_get report ''basic_info'' of
        Obj basicInfo \<Rightarrow>
          (let patch = basic_info_patch basicInfo
           in if patch = [] then (st, False)
              else if \<not> current then (st, True)
              else sync_patch db still now clientId patch st)
      | _ \<Rightarrow> (st, False))"

definition reportTimestamp :: "rat \<Rightarrow> jsobj \<Rightarrow> rat \<Rightarrow> rat" where
  "reportTimestamp now report fallback = (case js_Number (js_get report ''timestamp'') of
       Fin q \<Rightarrow> if q < 0 \<or> now + 60000 < q then fallback else q | _ \<Rightarrow> fallback)"

definition latestBasicInfoReport :: "jsobj list \<Rightarrow> jsobj option" where
  "latestBasicInfoReport reports = List.find (\<lambda>r. isObjectPayload (js_get r ''basic_info'')) (rev reports)"

definition HTTP_CLIENT_MIN_TTL_MS :: rat where "HTTP_CLIENT_MIN_TTL_MS = 30000"
definition HTTP_CLIENT_MAX_TTL_MS :: rat where "HTTP_CLIENT_MAX_TTL_MS = 24 * 60 * 60 * 1000"

definition boundedHttpTtlMs :: "jsval \<Rightarrow> rat" where
  "boundedHttpTtlMs v = (case js_Number v of
       Fin q \<Rightarrow> if q \<le> 0 then 180000 else min (max q HTTP_CLIENT_MIN_TTL_MS) HTTP_CLIENT_MAX_TTL_MS | _ \<Rightarrow> 180000)"

subsection \<open>A cleaned report\<close>

definition public_or_blank :: "jsval \<Rightarrow> bool" where
  "public_or_blank v = (case v of Str s \<Rightarrow> js_trim s = [] \<or> isPublicIpAddress (js_trim s) | _ \<Rightarrow> True)"

lemma drop_private_ok: "public_or_blank (js_get (drop_private_ip f r) f)"
  by (auto simp: drop_private_ip_def public_or_blank_def split: jsval.split)

lemma drop_private_other: "g \<noteq> f \<Longrightarrow> js_get (drop_private_ip f r) g = js_get r g"
  by (auto simp: drop_private_ip_def split: jsval.split)

lemma fill_source_get:
  "js_get (fill_source_ip ip r) g = js_get r g \<or>
   (isPublicIpAddress ip \<and> js_get (fill_source_ip ip r) g = Str ip \<and> g = (if CHR '':'' \<in> set ip then ''ipv6'' else ''ipv4''))"
  by (auto simp: fill_source_ip_def Let_def)

lemma fill_source_has:
  assumes "isPublicIpAddress ip"
  shows "has_public_field (fill_source_ip ip r) (if CHR '':'' \<in> set ip then ''ipv6'' else ''ipv4'')"
  using assms by (simp add: fill_source_ip_def Let_def has_public_field_def)

lemma fill_region_other: "g \<noteq> ''region'' \<Longrightarrow> js_get (fill_region region r) g = js_get r g"
  by (auto simp: fill_region_def Let_def split: jsval.split)

lemma fill_region_useful: "js_get (fill_region region r) ''region'' = Str s \<Longrightarrow> isUsefulRegion s"
  by (auto simp: fill_region_def Let_def split: jsval.splits if_splits)

lemma useful_trim: "isUsefulRegion (js_trim s) = isUsefulRegion s"
  by (simp add: isUsefulRegion_def)

lemma fill_region_fills:
  assumes "isUsefulRegion region"
  shows "\<exists>s. js_get (fill_region region r) ''region'' = Str s"
proof -
  have ne: "region \<noteq> []" using assms by (auto simp: isUsefulRegion_def js_trim_def Let_def)
  show ?thesis
  proof (cases "js_get r ''region''")
    case (Str s)
    then show ?thesis using assms ne by (simp add: fill_region_def Let_def useful_trim)
  qed (use assms ne in \<open>simp_all add: fill_region_def Let_def isUsefulRegion_def [of "[]"] js_trim_def\<close>)
qed


definition sample_upload :: jsobj where
  "sample_upload = [(''token'', Str ''t''), (''ipv4'', Str ''10.0.0.1''), (''region'', Str ''unknown''), (''cpu'', Num (Fin 7))]"

definition sample_network :: network_metadata where
  "sample_network = \<lparr>nm_sourceIp = Some ''8.8.8.8'', nm_region = Some ''FR''\<rparr>"


end
