(* ===== verification/ReportFlow.thy ===== *)
theory ReportFlow
  imports ReportNetwork
begin

section \<open>Accepting a report\<close>

text \<open>
  The path of a report through \<open>do/live-data.ts\<close>: \<open>runClientReport\<close> reserves the node, so that its
  reports run one after another, \<open>updateClientReport\<close> writes the snapshot and shows the node, and
  \<open>removeClient\<close> and \<open>restoreClients\<close> invalidate the reports that are still under way. Every \<open>await\<close>
  on this path is the end of a step, so that any other event of the object may come between two
  steps; what the source does between two awaits is one step. A read of the storage is part of the
  step that uses it. The constructor (\<open>hydrateSessionsFromAcceptedWebSockets\<close>, \<open>hydrateHttpClients\<close>)
  is the event of a restart, which loses everything that is not stored.
\<close>

subsection \<open>State\<close>

record lifecycle =
  rl_clientId :: string
  rl_receivedAt :: rat
  rl_removalVersion :: nat
  rl_restoreVersion :: nat

record upload =
  up_name :: string
  up_hidden :: bool
  up_data :: jsval
  up_expiresAt :: "rat option"
  up_ws :: "nat option"
  up_network :: "network_metadata option"

text \<open>
  Where a report stands: reserved behind another one, in the work of its handler, waiting for the
  management row, with its snapshot written, waiting for the row a second time, shown, or settled.
\<close>

datatype phase =
    Reserved
  | Working
  | Resolving upload jsobj
  | Written upload client_state
  | Confirming upload client_state
  | Shown
  | Settled

record report_run =
  run_life :: lifecycle
  run_phase :: phase

text \<open>
  \<open>clientReportWrites\<close> holds the newest promise of a node, which waits for the one before it; the
  model keeps the chain, oldest first. The map has an entry exactly while the chain is not empty.
\<close>

record report_do =
  live :: live_do
  clientRemovalVersions :: "string \<rightharpoonup> nat"
  restoreVersion :: nat
  clientReportWrites :: "string \<Rightarrow> report_run list"

definition removal_version :: "report_do \<Rightarrow> string \<Rightarrow> nat" where
  "removal_version r c = (case clientRemovalVersions r c of Some v \<Rightarrow> v | None \<Rightarrow> 0)"

definition isReportCurrent :: "lifecycle \<Rightarrow> report_do \<Rightarrow> bool" where
  "isReportCurrent l r \<longleftrightarrow> rl_removalVersion l = removal_version r (rl_clientId l) \<and> rl_restoreVersion l = restoreVersion r"

definition with_live :: "(live_do \<Rightarrow> live_do) \<Rightarrow> report_do \<Rightarrow> report_do" where
  "with_live f r = r\<lparr>live := f (live r)\<rparr>"

definition set_phase :: "string \<Rightarrow> phase \<Rightarrow> report_do \<Rightarrow> report_do" where
  "set_phase c p r = (case clientReportWrites r c of
       run # runs \<Rightarrow> r\<lparr>clientReportWrites := (clientReportWrites r)(c := run\<lparr>run_phase := p\<rparr> # runs)\<rparr>
     | [] \<Rightarrow> r)"

subsection \<open>The management row and the stored snapshot\<close>

definition resolveReportClientControl ::
  "string \<Rightarrow> string \<Rightarrow> bool \<Rightarrow> live_do \<Rightarrow> live_do \<times> (string \<times> bool) option" where
  "resolveReportClientControl clientId name hidden d = (case readAdminClientsSnapshot (admin d) of
       (a, snapshot) \<Rightarrow>
         (let d1 = d\<lparr>admin := a\<rparr>;
              metadata = Option.bind snapshot (\<lambda>s. List.find (\<lambda>m. js_get m ''uuid'' = Str clientId) (as_clients s))
          in (d1,
              if (case snapshot of
                    Some s \<Rightarrow> clientId \<in> set (as_removed s) \<or> (as_complete s \<and> metadata = None) | None \<Rightarrow> False)
              then None
              else case metadata of
                  Some m \<Rightarrow> Some (case js_get m ''name'' of Str n \<Rightarrow> n | _ \<Rightarrow> name, booleanField m ''hidden'')
                | None \<Rightarrow>
                    (case (case map_of (clients d1) clientId of Some c \<Rightarrow> Some c | None \<Rightarrow> map_of (lastKnownClients d1) clientId) of
                       Some c \<Rightarrow> Some (cs_name c, cs_hidden c) | None \<Rightarrow> Some (name, hidden)))))"

definition persistClientSnapshot :: "client_state \<Rightarrow> live_do \<Rightarrow> live_do" where
  "persistClientSnapshot c d = d\<lparr>httpLive := (httpLive d)(cs_uuid c \<mapsto> compacted c)\<rparr>"

text \<open>The error path: an older write is retired before a newer report of the node proceeds.\<close>

definition retire :: "string \<Rightarrow> bool \<Rightarrow> live_do \<Rightarrow> live_do" where
  "retire clientId current d =
     (case (if current then Option.bind (map_of (lastKnownClients d) clientId) (\<lambda>c. controlledClientState c (admin d)) else None) of
        Some retained \<Rightarrow> persistClientSnapshot retained d
      | None \<Rightarrow> d\<lparr>httpLive := (httpLive d)(clientId := None)\<rparr>)"

definition show_report :: "rat \<Rightarrow> upload \<Rightarrow> client_state \<Rightarrow> live_do \<Rightarrow> live_do" where
  "show_report now up nxt d =
     (let c = cs_uuid nxt; d1 = d\<lparr>lastKnownClients := AList.update c (compacted nxt) (lastKnownClients d)\<rparr>;
          online = (case up_ws up of None \<Rightarrow> True | Some ws \<Rightarrow> map_of (sessions d1) c = Some ws \<and> is_open d1 ws)
      in if online
         then (let d2 = d1\<lparr>clients := AList.update c nxt (clients d1)\<rparr>;
                   d3 = (case up_ws up of Some ws \<Rightarrow> rememberAgentReportAttachment ws nxt d2 | None \<Rightarrow> d2)
               in broadcastToViewers (update_message nxt) (if cs_hidden nxt then ToAdmin else ToAll) d3)
         else broadcastOfflineClient now nxt d1)"

subsection \<open>The steps of a report\<close>

definition reserve_report :: "rat \<Rightarrow> string \<Rightarrow> report_do \<Rightarrow> report_do" where
  "reserve_report now c r =
     r\<lparr>clientReportWrites := (clientReportWrites r)(c := clientReportWrites r c @
        [\<lparr>run_life = \<lparr>rl_clientId = c, rl_receivedAt = now, rl_removalVersion = removal_version r c, rl_restoreVersion = restoreVersion r\<rparr>,
          run_phase = Reserved\<rparr>])\<rparr>"

text \<open>The call of \<open>updateClientReport\<close>, up to its first wait.\<close>

definition enter_report :: "lifecycle \<Rightarrow> upload \<Rightarrow> report_do \<Rightarrow> report_do" where
  "enter_report l up r =
     (if \<not> isReportCurrent l r then set_phase (rl_clientId l) Settled r
      else let network = (case up_network up of
               Some n \<Rightarrow> Some n
             | None \<Rightarrow> map_option (\<lambda>a. \<lparr>nm_sourceIp = at_sourceIp a, nm_region = at_region a\<rparr>)
                 (Option.bind (up_ws up) (session_attachment (live r))))
           in set_phase (rl_clientId l) (Resolving up (sanitizeReport (normalizeMonitorReport (up_data up)) network)) r)"

definition first_state :: "lifecycle \<Rightarrow> upload \<Rightarrow> jsobj \<Rightarrow> string \<times> bool \<Rightarrow> client_state" where
  "first_state l up report = (\<lambda>(name, hidden).
     \<lparr>cs_uuid = rl_clientId l, cs_name = name, cs_hidden = hidden, cs_lastReportTime = rl_receivedAt l, cs_lastReport = report,
      cs_expiresAt = up_expiresAt up, cs_transport = Some (if up_ws up = None then HttpT else WsT)\<rparr>)"

definition resolve_report :: "lifecycle \<Rightarrow> upload \<Rightarrow> jsobj \<Rightarrow> report_do \<Rightarrow> report_do" where
  "resolve_report l up report r = (case resolveReportClientControl (rl_clientId l) (up_name up) (up_hidden up) (live r) of
       (d, control) \<Rightarrow>
         (case control of
            Some ctl \<Rightarrow>
              if isReportCurrent l r
              then (let nxt = first_state l up report ctl
                    in set_phase (rl_clientId l) (Written up nxt) (r\<lparr>live := persistClientSnapshot nxt d\<rparr>))
              else set_phase (rl_clientId l) Settled (r\<lparr>live := d\<rparr>)
          | None \<Rightarrow> set_phase (rl_clientId l) Settled (r\<lparr>live := d\<rparr>)))"

definition check_written :: "lifecycle \<Rightarrow> upload \<Rightarrow> client_state \<Rightarrow> report_do \<Rightarrow> report_do" where
  "check_written l up nxt r =
     (if isReportCurrent l r then set_phase (rl_clientId l) (Confirming up nxt) r
      else set_phase (rl_clientId l) Settled (with_live (retire (rl_clientId l) False) r))"

definition confirm_report :: "rat \<Rightarrow> lifecycle \<Rightarrow> upload \<Rightarrow> client_state \<Rightarrow> report_do \<Rightarrow> report_do" where
  "confirm_report now l up nxt r = (case resolveReportClientControl (rl_clientId l) (cs_name nxt) (cs_hidden nxt) (live r) of
       (d, control) \<Rightarrow>
         (let r1 = r\<lparr>live := d\<rparr>; c = rl_clientId l
          in case control of
              Some (name, hidden) \<Rightarrow>
                if \<not> isReportCurrent l r1 then set_phase c Settled (with_live (retire c False) r1)
                else if name = cs_name nxt \<and> hidden = cs_hidden nxt then set_phase c Shown (with_live (show_report now up nxt) r1)
                else (let nxt' = nxt\<lparr>cs_name := name, cs_hidden := hidden\<rparr>
                      in set_phase c (Written up nxt') (with_live (persistClientSnapshot nxt') r1))
            | None \<Rightarrow> set_phase c Settled (with_live (retire c (isReportCurrent l r1)) r1)))"

definition finish_report :: "string \<Rightarrow> report_do \<Rightarrow> report_do" where
  "finish_report c r = (case clientReportWrites r c of
       [run] \<Rightarrow> r\<lparr>clientReportWrites := (clientReportWrites r)(c := []), clientRemovalVersions := (clientRemovalVersions r)(c := None)\<rparr>
     | run # runs \<Rightarrow> r\<lparr>clientReportWrites := (clientReportWrites r)(c := runs)\<rparr>
     | [] \<Rightarrow> r)"

text \<open>
  The step the runtime resumes next for the oldest report of a node. The work of a handler is the
  caller's: it enters \<open>updateClientReport\<close> with an upload, or ends without it.
\<close>

datatype work = Enter upload | GiveUp

definition advance_report :: "rat \<Rightarrow> work \<Rightarrow> string \<Rightarrow> report_do \<Rightarrow> report_do" where
  "advance_report now w c r = (case clientReportWrites r c of
       [] \<Rightarrow> r
     | run # _ \<Rightarrow>
         (let l = run_life run in
          case run_phase run of
            Reserved \<Rightarrow> set_phase c (if isReportCurrent l r then Working else Settled) r
          | Working \<Rightarrow> (case w of Enter up \<Rightarrow> enter_report l up r | GiveUp \<Rightarrow> set_phase c Settled r)
          | Resolving up report \<Rightarrow> resolve_report l up report r
          | Written up nxt \<Rightarrow> check_written l up nxt r
          | Confirming up nxt \<Rightarrow> confirm_report now l up nxt r
          | Shown \<Rightarrow> set_phase c Settled r
          | Settled \<Rightarrow> finish_report c r))"

subsection \<open>Removal, synchronisation and restoration\<close>

definition removal_target :: "do_request \<Rightarrow> string option" where
  "removal_target request = (case parseJsonRequestWithLimit request HTTP_CLIENT_META_MAX_BODY_BYTES of
       Inl _ \<Rightarrow> None | Inr meta \<Rightarrow> nonblank_text (js_get meta ''uuid''))"

definition invalidate_reports :: "do_request \<Rightarrow> report_do \<Rightarrow> report_do" where
  "invalidate_reports request r = (case removal_target request of
       Some uuid \<Rightarrow>
         if clientReportWrites r uuid \<noteq> []
         then r\<lparr>clientRemovalVersions := (clientRemovalVersions r)(uuid \<mapsto> removal_version r uuid + 1)\<rparr> else r
     | None \<Rightarrow> r)"

definition remove_node :: "rat \<Rightarrow> do_request \<Rightarrow> report_do \<Rightarrow> report_do" where
  "remove_node now request r = with_live (\<lambda>d. fst (removeClient now request d)) (invalidate_reports request r)"

text \<open>The removal a synchronisation makes, if any.\<close>

definition sync_removal :: "do_request \<Rightarrow> live_do \<Rightarrow> do_request option" where
  "sync_removal request d = (case parseJsonRequestWithLimit request HTTP_CLIENT_META_MAX_BODY_BYTES of
       Inl _ \<Rightarrow> None
     | Inr body \<Rightarrow> (case sync_message body of
         None \<Rightarrow> None
       | Some (uuid, revision, client) \<Rightarrow>
           if sync_stale uuid revision d then None
           else case client of
               None \<Rightarrow> Some (own_request [(''uuid'', Str uuid)])
             | Some c \<Rightarrow> (case ptrs (auth d) uuid of
                 Some h \<Rightarrow> if h \<noteq> [] \<and> h \<noteq> stringField c ''token_hash''
                           then Some (own_request [(''uuid'', Str uuid), (''keepMetadata'', Bool True)]) else None
               | None \<Rightarrow> None)))"

definition sync_node :: "(string \<Rightarrow> int option) \<Rightarrow> rat \<Rightarrow> do_request \<Rightarrow> report_do \<Rightarrow> report_do" where
  "sync_node dp now request r =
     with_live (\<lambda>d. fst (applyClientSynchronization dp now request d))
       (case sync_removal request (live r) of Some q \<Rightarrow> invalidate_reports q r | None \<Rightarrow> r)"

definition restore_nodes :: "rat \<Rightarrow> nat list \<Rightarrow> do_request \<Rightarrow> report_do \<Rightarrow> report_do" where
  "restore_nodes now accepted request r = (case restoreClients now accepted request (live r) of
       (d, (status, _)) \<Rightarrow> r\<lparr>live := d, restoreVersion := (if status = 200 then restoreVersion r + 1 else restoreVersion r)\<rparr>)"

subsection \<open>Restart\<close>

definition hydrate_socket :: "rat \<Rightarrow> nat \<Rightarrow> live_do \<Rightarrow> live_do" where
  "hydrate_socket now ws d = (case session_attachment d ws of
       None \<Rightarrow> d
     | Some a \<Rightarrow>
         (let i = at_clientId a; expiry = (case at_viewerExpiresAt a of Some t \<Rightarrow> if at_role a = ViewerRole \<and> t \<noteq> 0 then Some t else None | None \<Rightarrow> None)
          in if (case expiry of Some t \<Rightarrow> t \<le> now | None \<Rightarrow> False) then expireViewer now i ws d
             else let d1 = d\<lparr>sessions := AList.update i ws (sessions d), sessionRoles := AList.update i (at_role a) (sessionRoles d),
                             viewerExpiresAt := (case expiry of Some t \<Rightarrow> AList.update i t (viewerExpiresAt d)
                               | None \<Rightarrow> AList.delete i (viewerExpiresAt d))\<rparr>
                  in case (at_lastReport a, at_lastReportTime a) of
                      (Some report, Some t) \<Rightarrow>
                        if at_role a = AgentRole \<and> unexpired (at_expiresAt a) now
                        then d1\<lparr>clients := AList.update i \<lparr>cs_uuid = i, cs_name = at_clientName a, cs_hidden = at_hidden a,
                               cs_lastReportTime = t, cs_lastReport = report, cs_expiresAt = at_expiresAt a, cs_transport = Some WsT\<rparr> (clients d1)\<rparr>
                        else d1
                    | _ \<Rightarrow> d1))"

text \<open>One stored snapshot: kept and shown, or obsolete.\<close>

definition hydrate_stored :: "rat \<Rightarrow> string \<Rightarrow> live_do \<Rightarrow> live_do" where
  "hydrate_stored now key d = (case httpLive d key of
       None \<Rightarrow> d
     | Some c \<Rightarrow>
         (case (if key \<noteq> cs_uuid c \<or> (cs_transport c \<noteq> Some WsT \<and> cs_expiresAt c = None) then None
                else controlledClientState (compacted c) (admin d)) of
            None \<Rightarrow> d\<lparr>httpLive := (httpLive d)(key := None)\<rparr>
          | Some restored \<Rightarrow>
              (let d1 = d\<lparr>lastKnownClients := AList.update (cs_uuid c) restored (lastKnownClients d)\<rparr>
               in if cs_transport c \<noteq> Some WsT \<and> (case cs_expiresAt c of Some t \<Rightarrow> now < t | None \<Rightarrow> False) \<and> map_of (clients d1) (cs_uuid c) = None
                  then d1\<lparr>clients := AList.update (cs_uuid c) restored (clients d1)\<rparr> else d1)))"

definition reconcile :: "string \<times> client_state \<Rightarrow> live_do \<Rightarrow> live_do" where
  "reconcile = (\<lambda>(uuid, client) d. case controlledClientState client (admin d) of
       None \<Rightarrow> d\<lparr>clients := AList.delete uuid (clients d)\<rparr>
     | Some current0 \<Rightarrow>
         (let retained = map_of (lastKnownClients d) uuid;
              current = (case retained of
                  Some k \<Rightarrow> if cs_lastReportTime current0 < cs_lastReportTime k
                            then current0\<lparr>cs_lastReport := cs_lastReport k, cs_lastReportTime := cs_lastReportTime k\<rparr> else current0
                | None \<Rightarrow> current0);
              d1 = d\<lparr>clients := AList.update uuid current (clients d)\<rparr>
          in if (case retained of None \<Rightarrow> True | Some k \<Rightarrow> cs_lastReportTime k < cs_lastReportTime current)
             then (persistClientSnapshot current d1)\<lparr>lastKnownClients := AList.update uuid current (lastKnownClients d1)\<rparr>
             else d1))"

definition hydrateHttpClients :: "rat \<Rightarrow> string list \<Rightarrow> live_do \<Rightarrow> live_do" where
  "hydrateHttpClients now stored d =
     (let d1 = d\<lparr>admin := fst (readAdminClientsSnapshot (admin d))\<rparr>;
          d2 = fold (hydrate_stored now) stored d1; d3 = fold reconcile (clients d2) d2
      in if stored \<noteq> [] then scheduleExpiryAlarm now d3 else d3)"

text \<open>\<open>accepted\<close> are the open sockets, \<open>stored\<close> the keys of the stored snapshots, as the runtime lists them.\<close>

definition emptied :: "live_do \<Rightarrow> live_do" where
  "emptied d = d\<lparr>sessions := [], sessionRoles := [], viewerExpiresAt := [], clients := [], lastKnownClients := [],
     admin := (admin d)\<lparr>adminClientsSnapshot := None, adminClientsUpdatedAt := None, adminClientMetadata := []\<rparr>\<rparr>"

definition hydrateSessionsFromAcceptedWebSockets :: "rat \<Rightarrow> nat list \<Rightarrow> live_do \<Rightarrow> live_do" where
  "hydrateSessionsFromAcceptedWebSockets now accepted d = fold (hydrate_socket now) accepted d"

definition restart :: "rat \<Rightarrow> nat list \<Rightarrow> string list \<Rightarrow> report_do \<Rightarrow> report_do" where
  "restart now accepted stored r =
     \<lparr>live = hydrateHttpClients now stored (hydrateSessionsFromAcceptedWebSockets now accepted (emptied (live r))),
      clientRemovalVersions = (\<lambda>_. None), restoreVersion = 0, clientReportWrites = (\<lambda>_. [])\<rparr>"

subsection \<open>Events\<close>

datatype report_event =
    ReportE rat string
  | StepE rat work string
  | RemoveE rat do_request
  | NodeSyncE rat do_request
  | NodeMetaE rat do_request
  | CacheE rat do_request
  | RestoreE rat "nat list" do_request
  | SessionE sess_event
  | RegionE rat string jsobj
  | RestartE rat "nat list" "string list"

fun report_event_step :: "(string \<Rightarrow> int option) \<Rightarrow> report_event \<Rightarrow> report_do \<Rightarrow> report_do" where
  "report_event_step dp (ReportE now c) r = reserve_report now c r"
| "report_event_step dp (StepE now w c) r = advance_report now w c r"
| "report_event_step dp (RemoveE now request) r = remove_node now request r"
| "report_event_step dp (NodeSyncE now request) r = sync_node dp now request r"
| "report_event_step dp (NodeMetaE now request) r = with_live (\<lambda>d. fst (updateClientMeta now request d)) r"
| "report_event_step dp (CacheE now request) r =
     with_live (\<lambda>d. d\<lparr>admin := fst (writeAdminClientsSnapshot now request (admin d))\<rparr>) r"
| "report_event_step dp (RestoreE now accepted request) r = restore_nodes now accepted request r"
| "report_event_step dp (SessionE e) r = with_live (sess_step e) r"
| "report_event_step dp (RegionE now c patch) r = with_live (applyInferredNetworkMetadataToLiveReport c patch now) r"
| "report_event_step dp (RestartE now accepted stored) r = restart now accepted stored r"

text \<open>
  What the surroundings guarantee: a new socket is new, its identifier is not blank and that of a
  viewer is not in use (the routes draw it at random); the runtime lists the open sockets.
\<close>

fun report_event_ok :: "report_event \<Rightarrow> report_do \<Rightarrow> bool" where
  "report_event_ok (SessionE (Upgrade now ttl rid ws q)) r \<longleftrightarrow>
     sockets (live r) ws = None \<and> attachable (new_attachment now ttl rid q) \<and>
     (at_role (new_attachment now ttl rid q) = AgentRole \<or> map_of (sessions (live r)) (at_clientId (new_attachment now ttl rid q)) = None)"
| "report_event_ok (RestoreE now accepted request) r \<longleftrightarrow> list_all (is_open (live r)) accepted"
| "report_event_ok (RestartE now accepted stored) r \<longleftrightarrow> distinct accepted \<and> set accepted = {ws. is_open (live r) ws}"
| "report_event_ok e r \<longleftrightarrow> True"

fun run_events :: "(string \<Rightarrow> int option) \<Rightarrow> report_do \<Rightarrow> report_event list \<Rightarrow> report_do" where
  "run_events dp r [] = r"
| "run_events dp r (e # es) = run_events dp (report_event_step dp e r) es"

fun events_ok :: "(string \<Rightarrow> int option) \<Rightarrow> report_do \<Rightarrow> report_event list \<Rightarrow> bool" where
  "events_ok dp r [] \<longleftrightarrow> True"
| "events_ok dp r (e # es) \<longleftrightarrow> report_event_ok e r \<and> events_ok dp (report_event_step dp e r) es"

fun report_times :: "string \<Rightarrow> report_event list \<Rightarrow> rat list" where
  "report_times c [] = []"
| "report_times c (ReportE now c' # es) = (if c' = c then now # report_times c es else report_times c es)"
| "report_times c (_ # es) = report_times c es"

text \<open>The events that withdraw the reports of a node: its removal, or the restoration of a backup.\<close>

fun withdraws :: "string \<Rightarrow> report_event \<Rightarrow> report_do \<Rightarrow> bool" where
  "withdraws c (RemoveE now request) r \<longleftrightarrow> removal_target request = Some c"
| "withdraws c (RestoreE now accepted request) r \<longleftrightarrow> fst (snd (restoreClients now accepted request (live r))) = 200"
| "withdraws c _ r \<longleftrightarrow> False"

definition new_report_do :: report_do where
  "new_report_do = \<lparr>live = new_live_do, clientRemovalVersions = (\<lambda>_. None), restoreVersion = 0, clientReportWrites = (\<lambda>_. [])\<rparr>"

text \<open>Everything the object holds of a node: the times of its reports in the tables, the storage and open sockets.\<close>

definition socket_times :: "string \<Rightarrow> live_do \<Rightarrow> rat set" where
  "socket_times c d = {t. \<exists>ws a. is_open d ws \<and> session_attachment d ws = Some a \<and> at_role a = AgentRole \<and>
     at_clientId a = c \<and> at_lastReportTime a = Some t}"

definition held_times :: "string \<Rightarrow> live_do \<Rightarrow> rat set" where
  "held_times c d = cs_lastReportTime ` (set_option (map_of (clients d) c) \<union> set_option (map_of (lastKnownClients d) c) \<union>
     set_option (httpLive d c)) \<union> socket_times c d"

end
