(* ===== verification/ReportSafety.thy ===== *)
theory ReportSafety
  imports ReportFlow
begin

section \<open>Withdrawn reports never return\<close>

text \<open>
  Proofs about the report path of \<open>ReportFlow\<close>. Every handler keeps the sessions consistent and
  adds no report time to a node, other than that of the report it writes; a report whose node was
  removed, or that precedes a restored backup, is no longer current and writes nothing.
\<close>

subsection \<open>Sessions and sockets\<close>

definition session_inv :: "live_do \<Rightarrow> bool" where
  "session_inv d \<longleftrightarrow> distinct (map fst (sessions d)) \<and>
     (\<forall>k ws. map_of (sessions d) k = Some ws \<longrightarrow> (\<exists>a. session_attachment d ws = Some a \<and> at_clientId a = k)) \<and>
     (\<forall>ws a. is_open d ws \<longrightarrow> session_attachment d ws = Some a \<longrightarrow> map_of (sessions d) (at_clientId a) = Some ws)"

lemma sess_session: "session_inv d \<Longrightarrow> map_of (sessions d) k = Some ws \<Longrightarrow> \<exists>a. session_attachment d ws = Some a \<and> at_clientId a = k"
  by (simp add: session_inv_def)

lemma sess_open: "session_inv d \<Longrightarrow> is_open d ws \<Longrightarrow> session_attachment d ws = Some a \<Longrightarrow> map_of (sessions d) (at_clientId a) = Some ws"
  by (simp add: session_inv_def)

definition calm :: "string \<Rightarrow> rat set \<Rightarrow> live_do \<Rightarrow> live_do \<Rightarrow> bool" where
  "calm c X d d' \<longleftrightarrow> (session_inv d \<longrightarrow> session_inv d') \<and> held_times c d' \<subseteq> held_times c d \<union> X"

definition same_core :: "live_do \<Rightarrow> live_do \<Rightarrow> bool" where
  "same_core d d' \<longleftrightarrow> sockets d' = sockets d \<and> sessions d' = sessions d \<and> clients d' = clients d \<and>
     lastKnownClients d' = lastKnownClients d \<and> httpLive d' = httpLive d"

lemma same_core_calm: "same_core d d' \<Longrightarrow> calm c X d d'"
  by (auto simp: same_core_def calm_def session_inv_def held_times_def socket_times_def is_open_def session_attachment_def)

lemma calm_trans: "calm c X d d1 \<Longrightarrow> calm c X d1 d2 \<Longrightarrow> calm c X d d2"
  by (auto simp: calm_def)

lemma calm_refl: "calm c X d d"
  by (simp add: calm_def)

lemma calm_fold:
  assumes "\<And>x d. x \<in> set xs \<Longrightarrow> calm c X d (f x d)"
  shows "calm c X d (fold f xs d)"
  using assms
proof (induction xs arbitrary: d)
  case (Cons x xs)
  have "calm c X d (f x d)" "calm c X (f x d) (fold f xs (f x d))" using Cons by simp_all
  then show ?case by (simp add: calm_trans)
qed (simp add: calm_refl)

lemma core_broadcast: "same_core d (broadcastToViewers m aud d)" "same_core d (broadcastOfflineClient now k d)"
  "same_core d (broadcastMetadataChanged now detail aud d)"
  by (auto simp: same_core_def broadcastToViewers_def broadcastOfflineClient_def broadcastMetadataChanged_def split: option.split)

lemma core_other: "same_core d (fst (upsert_admin now k b d))" "same_core d (scheduleExpiryAlarm now d)" "same_core d (sendSnapshot now ws d)"
  "same_core d (d\<lparr>admin := a\<rparr>)" "same_core d (d\<lparr>auth := s\<rparr>)" "same_core d (d\<lparr>syncRevisions := v\<rparr>)" "same_core d (ws_send ws m d)"
  "same_core d (d\<lparr>streaks := sk\<rparr>)" "same_core d (d\<lparr>sessionRoles := ro\<rparr>)" "same_core d (d\<lparr>viewerExpiresAt := ve\<rparr>)"
  by (simp_all add: same_core_def upsert_admin_def split_beta scheduleExpiryAlarm_def sendSnapshot_def ws_send_def Let_def split: list.split)

lemmas calm_core = core_broadcast [THEN same_core_calm] core_other [THEN same_core_calm]

text \<open>Forgetting an entry of a table.\<close>

lemma calm_forget: "calm c X d (d\<lparr>clients := AList.delete k (clients d)\<rparr>)"
  "calm c X d (d\<lparr>lastKnownClients := AList.delete k (lastKnownClients d)\<rparr>)"
  "calm c X d (d\<lparr>httpLive := (httpLive d)(k := None)\<rparr>)"
  by (auto simp: calm_def session_inv_def held_times_def socket_times_def is_open_def session_attachment_def delete_conv' split: if_splits)

text \<open>Writing an entry whose time is known, or allowed.\<close>

lemma calm_write:
  assumes "k = c \<Longrightarrow> cs_lastReportTime e \<in> held_times c d \<union> X"
  shows "calm c X d (d\<lparr>clients := AList.update k e (clients d)\<rparr>)"
    "calm c X d (d\<lparr>lastKnownClients := AList.update k e (lastKnownClients d)\<rparr>)"
    "calm c X d (d\<lparr>httpLive := (httpLive d)(k \<mapsto> e)\<rparr>)"
  using assms
  by (auto simp: calm_def session_inv_def held_times_def socket_times_def is_open_def session_attachment_def update_conv' split: if_splits)

subsection \<open>Sockets\<close>

lemma close_open: "is_open (ws_close ws d) w \<longleftrightarrow> is_open d w \<and> w \<noteq> ws"
  by (auto simp: is_open_def ws_close_def split: option.split)

lemma close_attachment: "session_attachment (ws_close ws d) w = session_attachment d w"
  by (simp add: session_attachment_def ws_close_def split: option.split)

lemma close_fields: "sessions (ws_close ws d) = sessions d" "clients (ws_close ws d) = clients d"
  "lastKnownClients (ws_close ws d) = lastKnownClients d" "httpLive (ws_close ws d) = httpLive d"
  by (simp_all add: ws_close_def split: option.split)

lemma calm_close: "calm c X d (ws_close ws d)"
  by (auto simp: calm_def session_inv_def held_times_def socket_times_def close_open close_attachment close_fields)

text \<open>Dropping the session of a closed socket.\<close>

lemma calm_drop:
  assumes "\<And>w. map_of (sessions d) k = Some w \<Longrightarrow> \<not> is_open d w"
  shows "calm c X d (d\<lparr>sessions := AList.delete k (sessions d)\<rparr>)"
proof -
  let ?d = "d\<lparr>sessions := AList.delete k (sessions d)\<rparr>"
  have same: "is_open ?d = is_open d" "session_attachment ?d = session_attachment d"
    by (auto simp: is_open_def session_attachment_def fun_eq_iff)
  have ses: "map_of (sessions ?d) j = (if j = k then None else map_of (sessions d) j)" for j by (simp add: delete_conv')
  have "session_inv ?d" if inv: "session_inv d"
    unfolding session_inv_def same ses
  proof (intro conjI allI impI)
    show "distinct (map fst (sessions ?d))" using inv by (simp add: session_inv_def distinct_delete)
  next
    fix j ws
    assume "(if j = k then None else map_of (sessions d) j) = Some ws"
    then show "\<exists>a. session_attachment d ws = Some a \<and> at_clientId a = j" using sess_session [OF inv] by (simp split: if_splits)
  next
    fix ws a
    assume "is_open d ws" "session_attachment d ws = Some a"
    then show "(if at_clientId a = k then None else map_of (sessions d) (at_clientId a)) = Some ws"
      using sess_open [OF inv] assms by auto
  qed
  moreover have "held_times c ?d = held_times c d" by (simp add: held_times_def socket_times_def same)
  ultimately show ?thesis by (simp add: calm_def)
qed

lemma attachment_reread:
  assumes "getSessionAttachment (attachment_value a) = Some b"
  shows "at_clientId b = at_clientId a \<and> at_lastReportTime b = at_lastReportTime a"
proof -
  define o1 where "o1 = (case attachment_value a of Obj o1 \<Rightarrow> o1 | _ \<Rightarrow> [])"
  have o: "attachment_value a = Obj o1" by (simp add: o1_def attachment_value_def)
  have g: "js_get o1 ''clientId'' = Str (at_clientId a)"
    "js_get o1 ''lastReportTime'' = (case at_lastReportTime a of Some t \<Rightarrow> Num (Fin t) | None \<Rightarrow> Undef)"
    by (simp_all add: o1_def attachment_value_def js_get_Cons js_get_opt_prop js_get_opt_prop_last js_get_if_one del: append_assoc split: option.split)
  from assms have "at_clientId b = at_clientId a \<and> at_lastReportTime b = finite_number (js_get o1 ''lastReportTime'')"
    unfolding o getSessionAttachment_def by (auto simp: Let_def g nonblank_text_def split: if_splits option.splits)
  then show ?thesis by (simp add: g finite_number_def split: option.split)
qed

lemma attachment_named: "getSessionAttachment v = Some a \<Longrightarrow> js_trim (at_clientId a) \<noteq> []"
proof (cases v)
  case (Obj o1)
  assume a: "getSessionAttachment v = Some a"
  then obtain i where i: "nonblank_text (js_get o1 ''clientId'') = Some i" "at_clientId a = i"
    unfolding Obj getSessionAttachment_def Let_def by (auto split: option.splits)
  from i(1) have "js_trim i \<noteq> []" unfolding nonblank_text_def by (cases "js_get o1 ''clientId''") (simp_all split: if_splits)
  with i(2) show ?thesis by simp
qed (simp_all add: getSessionAttachment_def)

lemma serialize_fields: "sessions (serialize_attachment ws a d) = sessions d" "clients (serialize_attachment ws a d) = clients d"
  "lastKnownClients (serialize_attachment ws a d) = lastKnownClients d" "httpLive (serialize_attachment ws a d) = httpLive d"
  "sessionRoles (serialize_attachment ws a d) = sessionRoles d"
  by (simp_all add: serialize_attachment_def split: option.split)

lemma serialize_open: "is_open (serialize_attachment ws a d) = is_open d"
  by (auto simp: serialize_attachment_def is_open_def fun_eq_iff split: option.split)

lemma serialize_attached:
  "session_attachment (serialize_attachment ws a d) w =
     (if w = ws \<and> sockets d ws \<noteq> None then getSessionAttachment (attachment_value a) else session_attachment d w)"
  by (auto simp: session_attachment_def serialize_attachment_def split: option.split)

lemma calm_serialize:
  assumes ses: "map_of (sessions d) (at_clientId a) = Some ws" and ip: "at_viewerIp a = None"
    and t: "\<And>t. at_clientId a = c \<Longrightarrow> at_lastReportTime a = Some t \<Longrightarrow> t \<in> held_times c d \<union> X"
  shows "calm c X d (serialize_attachment ws a d)"
proof -
  let ?d = "serialize_attachment ws a d"
  have "session_inv ?d" if inv: "session_inv d"
  proof -
    obtain a' where a': "session_attachment d ws = Some a'" "at_clientId a' = at_clientId a" using sess_session [OF inv ses] by blast
    then have named: "js_trim (at_clientId a) \<noteq> []"
      using attachment_named [of _ a'] by (auto simp: session_attachment_def split: option.splits)
    with ip obtain b where b: "getSessionAttachment (attachment_value a) = Some b"
      using attachment_back [of a] by (auto simp: attachable_def)
    have b': "at_clientId b = at_clientId a" using attachment_reread [OF b] by simp
    have w: "sockets d ws \<noteq> None" using a'(1) by (auto simp: session_attachment_def split: option.splits)
    show ?thesis
      unfolding session_inv_def serialize_fields serialize_open serialize_attached
    proof (intro conjI allI impI)
      show "distinct (map fst (sessions d))" using inv by (simp add: session_inv_def)
    next
      fix k w1
      assume k: "map_of (sessions d) k = Some w1"
      show "\<exists>a1. (if w1 = ws \<and> sockets d ws \<noteq> None then getSessionAttachment (attachment_value a) else session_attachment d w1) = Some a1
        \<and> at_clientId a1 = k"
        using sess_session [OF inv k] a' b b' w by auto
    next
      fix w1 a1
      assume "is_open d w1" "(if w1 = ws \<and> sockets d ws \<noteq> None then getSessionAttachment (attachment_value a) else session_attachment d w1) = Some a1"
      then show "map_of (sessions d) (at_clientId a1) = Some w1" using sess_open [OF inv] ses b b' w by (auto split: if_splits)
    qed
  qed
  moreover have "socket_times c ?d \<subseteq> held_times c d \<union> X"
    using t attachment_reread [of a]
    by (fastforce simp: socket_times_def serialize_open serialize_attached held_times_def split: if_splits)
  then have "held_times c ?d \<subseteq> held_times c d \<union> X"
    unfolding held_times_def [of c ?d] serialize_fields by (auto simp: held_times_def)
  ultimately show ?thesis by (simp add: calm_def)
qed

lemma remember_is_serialize:
  "\<exists>a. rememberAgentReportAttachment ws k d = serialize_attachment ws a d \<and> at_clientId a = cs_uuid k \<and> at_viewerIp a = None
     \<and> at_lastReportTime a = Some (cs_lastReportTime k)"
  unfolding rememberAgentReportAttachment_def Let_def by (intro exI conjI) (rule refl, simp_all)

lemma calm_remember:
  assumes "map_of (sessions d) (cs_uuid k) = Some ws" "cs_uuid k = c \<Longrightarrow> cs_lastReportTime k \<in> held_times c d \<union> X"
  shows "calm c X d (rememberAgentReportAttachment ws k d)"
  using remember_is_serialize [of ws k d] calm_serialize [of d _ ws c X] assms by force

subsection \<open>Handlers\<close>

lemma controlled_time: "controlledClientState k a = Some e \<Longrightarrow> cs_lastReportTime e = cs_lastReportTime k"
  by (auto simp: controlledClientState_def Let_def split: if_splits option.splits)

lemma compacted_time [simp]: "cs_lastReportTime (compacted k) = cs_lastReportTime k" "cs_uuid (compacted k) = cs_uuid k"
  by (simp_all add: compacted_def)

lemma held_entry:
  "map_of (clients d) c = Some e \<Longrightarrow> cs_lastReportTime e \<in> held_times c d"
  "map_of (lastKnownClients d) c = Some e \<Longrightarrow> cs_lastReportTime e \<in> held_times c d"
  "httpLive d c = Some e \<Longrightarrow> cs_lastReportTime e \<in> held_times c d"
  by (auto simp: held_times_def)

lemma calm_absorb: "calm c (held_times c d \<union> X) d d' \<Longrightarrow> calm c X d d'"
  by (auto simp: calm_def)

lemma calm_apply_meta: "calm c X d (apply_meta now uuid d)"
proof (rule calm_absorb)
  let ?Y = "held_times c d \<union> X"
  define cached where "cached = map_of (clients d) uuid"
  define current where "current = (case cached of Some k \<Rightarrow> unexpired (cs_expiresAt k) now | None \<Rightarrow> False)"
  define d1 where "d1 = (if cached \<noteq> None \<and> \<not> current then d\<lparr>clients := AList.delete uuid (clients d)\<rparr> else d)"
  define retained where "retained = (case cached of Some k \<Rightarrow> Some k | None \<Rightarrow> map_of (lastKnownClients d1) uuid)"
  have one: "calm c ?Y d d1" by (simp add: d1_def calm_forget calm_refl)
  have eq: "apply_meta now uuid d = (case Option.bind retained (\<lambda>k. controlledClientState k (admin d1)) of
      None \<Rightarrow> d1
    | Some nxt \<Rightarrow>
        (let d2 = d1\<lparr>lastKnownClients := AList.update uuid (compacted nxt) (lastKnownClients d1)\<rparr>;
             d3 = (if current then d2\<lparr>clients := AList.update uuid nxt (clients d2)\<rparr> else d2);
             d4 = (case map_of (sessions d3) uuid of
                 Some ws \<Rightarrow> if current \<and> is_open d3 ws then rememberAgentReportAttachment ws (nxt\<lparr>cs_uuid := uuid\<rparr>) d3 else d3 | None \<Rightarrow> d3);
             upd = update_message (nxt\<lparr>cs_uuid := uuid\<rparr>)
         in if cs_hidden nxt then
              (let d5 = broadcastToViewers (remove_message now uuid) ToPublic d4
               in if current then broadcastToViewers upd ToAdmin d5 else broadcastOfflineClient now nxt d5)
            else if current then broadcastToViewers upd ToAll d4 else broadcastOfflineClient now nxt d4))"
    unfolding apply_meta_def Let_def cached_def current_def d1_def retained_def by (rule refl)
  show "calm c ?Y d (apply_meta now uuid d)"
  proof (cases "Option.bind retained (\<lambda>k. controlledClientState k (admin d1))")
    case None
    then show ?thesis using one by (simp add: eq)
  next
    case (Some nxt)
    define d2 where "d2 = d1\<lparr>lastKnownClients := AList.update uuid (compacted nxt) (lastKnownClients d1)\<rparr>"
    define d3 where "d3 = (if current then d2\<lparr>clients := AList.update uuid nxt (clients d2)\<rparr> else d2)"
    define d4 where "d4 = (case map_of (sessions d3) uuid of
        Some ws \<Rightarrow> if current \<and> is_open d3 ws then rememberAgentReportAttachment ws (nxt\<lparr>cs_uuid := uuid\<rparr>) d3 else d3 | None \<Rightarrow> d3)"
    obtain k where k: "retained = Some k" "controlledClientState k (admin d1) = Some nxt" using Some by (auto split: bind_splits)
    have "lastKnownClients d1 = lastKnownClients d" by (simp add: d1_def)
    then have t: "uuid = c \<Longrightarrow> cs_lastReportTime nxt \<in> ?Y"
      using k held_entry(1,2) [of d c k] controlled_time [OF k(2)] by (auto simp: retained_def cached_def split: option.splits)
    have two: "calm c ?Y d1 d2" unfolding d2_def by (rule calm_write) (use t in auto)
    have three: "calm c ?Y d2 d3" using t by (auto simp: d3_def calm_refl intro: calm_write)
    have four: "calm c ?Y d3 d4"
      using t by (auto simp: d4_def calm_refl intro!: calm_remember split: option.split)
    have "calm c ?Y d d4" using one two three four by (blast intro: calm_trans)
    then show ?thesis unfolding eq Some option.case Let_def d2_def [symmetric] d3_def [symmetric] d4_def [symmetric]
      by (auto intro: calm_trans [OF _ calm_core(1)] calm_trans [OF _ calm_core(2)])
  qed
qed

lemma calm_meta: "calm c X d (fst (updateClientMeta now request d))"
proof -
  have "calm c X d (fst (update_meta_body now meta d))" for meta
  proof (cases "nonblank_text (js_get meta ''uuid'')")
    case (Some uuid)
    define patch where "patch = assign [(''uuid'', Str uuid)]
      (projectAgentClientMetadata (case js_get meta ''client'' of Obj k \<Rightarrow> k | _ \<Rightarrow> meta))"
    obtain d1 r where u: "upsert_admin now patch True d = (d1, r)" by force
    have "calm c X d d1" using calm_core(4) [of c X d now patch True] by (simp add: u)
    then have agent: "calm c X d (fst (case upsert_admin now patch True d of
        (d1, Some client) \<Rightarrow> (broadcastMetadataChanged now [(''clients'', Obj [(''upsert'', Arr [Obj client])])] ToAll d1, json_success)
      | (d1, None) \<Rightarrow> (d1, json_success)))"
      by (cases r) (auto simp: u intro: calm_trans [OF _ calm_core(3)])
    have owner: "calm c X d (broadcastMetadataChanged now m ToAll (apply_meta now uuid (fst (upsert_admin now k False d))))" for m k
      by (rule calm_trans [OF calm_core(4) calm_trans [OF calm_apply_meta calm_core(3)]])
    show ?thesis
    proof (cases "js_get meta ''source'' = Str ''agent''")
      case True
      then show ?thesis using agent unfolding update_meta_body_def Let_def patch_def Some option.case by (simp only: if_True refl)
    next
      case False
      then show ?thesis unfolding update_meta_body_def Let_def Some option.case by (simp only: if_False fst_conv owner)
    qed
  qed (simp add: update_meta_body_def calm_refl)
  then show ?thesis by (simp add: updateClientMeta_def calm_refl split: sum.split)
qed

lemma calm_forget_client: "calm c X d (forget_client uuid d)"
proof -
  define d1 where "d1 = (case map_of (sessions d) uuid of Some ws \<Rightarrow> if is_open d ws then ws_close ws d else d | None \<Rightarrow> d)"
  have one: "calm c X d d1" by (auto simp: d1_def calm_close calm_refl split: option.split)
  have "\<not> is_open d1 w" if "map_of (sessions d1) uuid = Some w" for w
    using that by (auto simp: d1_def close_open close_fields split: option.splits if_splits)
  then have two: "calm c X d1 (d1\<lparr>sessions := AList.delete uuid (sessions d1)\<rparr>)" (is "calm c X d1 ?d2") by (rule calm_drop)
  have "forget_client uuid d = ?d2\<lparr>clients := AList.delete uuid (clients ?d2)\<rparr>
      \<lparr>lastKnownClients := AList.delete uuid (lastKnownClients ?d2)\<rparr>\<lparr>httpLive := (httpLive ?d2)(uuid := None)\<rparr>
      \<lparr>streaks := (streaks ?d2)(uuid := None)\<rparr>\<lparr>sessionRoles := AList.delete uuid (sessionRoles ?d2)\<rparr>" (is "_ = ?d7")
    by (simp add: forget_client_def Let_def d1_def)
  moreover have "calm c X ?d2 ?d7"
    using calm_forget(1) [of c X ?d2 uuid] calm_forget(2) [of c X "?d2\<lparr>clients := AList.delete uuid (clients ?d2)\<rparr>" uuid]
      calm_forget(3) [of c X "?d2\<lparr>clients := AList.delete uuid (clients ?d2)\<rparr>\<lparr>lastKnownClients := AList.delete uuid (lastKnownClients ?d2)\<rparr>" uuid]
    by (fastforce intro: calm_trans [OF _ calm_core(11)] calm_trans [OF _ calm_core(12)] calm_trans)
  ultimately show ?thesis using one two by (metis calm_trans)
qed

text \<open>After a removal nothing of the node is left, in the tables, in the storage or with an open socket.\<close>

lemma forget_nothing:
  assumes "session_inv d"
  shows "held_times c (forget_client c d) = {}"
proof -
  define d1 where "d1 = (case map_of (sessions d) c of Some ws \<Rightarrow> if is_open d ws then ws_close ws d else d | None \<Rightarrow> d)"
  have sock: "sockets (forget_client c d) = sockets d1" by (simp add: forget_client_def Let_def d1_def)
  have "\<not> (is_open d1 w \<and> session_attachment d1 w = Some a \<and> at_clientId a = c)" for w a
    using sess_open [OF assms, of w a] by (auto simp: d1_def close_open close_attachment split: option.splits if_splits)
  then have "socket_times c (forget_client c d) = {}"
    by (auto simp: socket_times_def is_open_def session_attachment_def sock)
  then show ?thesis by (simp add: held_times_def forget_client_def Let_def delete_conv')
qed

lemma remove_body_after:
  assumes "nonblank_text (js_get meta ''uuid'') = Some uuid"
  shows "same_core (forget_client uuid d) (fst (remove_body now meta d))"
  using assms core_broadcast
  by (auto simp: remove_body_def Let_def same_core_def split: option.split)

lemma calm_remove: "calm c X d (fst (removeClient now request d))"
proof -
  have "calm c X d (fst (remove_body now meta d))" for meta
    using calm_trans [OF calm_forget_client same_core_calm [OF remove_body_after]]
    by (cases "nonblank_text (js_get meta ''uuid'')") (simp_all add: calm_refl remove_body_def)
  then show ?thesis by (simp add: removeClient_def calm_refl split: sum.split)
qed

lemma remove_nothing:
  assumes "removal_target request = Some c" "session_inv d"
  shows "held_times c (fst (removeClient now request d)) = {}"
proof -
  obtain meta where m: "parseJsonRequestWithLimit request HTTP_CLIENT_META_MAX_BODY_BYTES = Inr meta" "nonblank_text (js_get meta ''uuid'') = Some c"
    using assms(1) by (auto simp: removal_target_def split: sum.splits)
  have "held_times c (fst (remove_body now meta d)) \<subseteq> held_times c (forget_client c d) \<union> {}"
    using same_core_calm [OF remove_body_after [OF m(2)], of c "{}"] by (simp add: calm_def)
  then show ?thesis by (simp add: removeClient_def m(1) forget_nothing [OF assms(2)])
qed

lemma calm_cleanup:
  assumes "\<not> is_open d ws"
  shows "calm c X d (cleanupSession now ws a d)"
proof (cases "map_of (sessions d) (at_clientId a) = Some ws")
  case True
  let ?i = "at_clientId a"
  let ?d1 = "d\<lparr>sessions := AList.delete ?i (sessions d)\<rparr>"
  let ?d2 = "?d1\<lparr>sessionRoles := AList.delete ?i (sessionRoles d)\<rparr>\<lparr>viewerExpiresAt := AList.delete ?i (viewerExpiresAt d)\<rparr>"
  have "calm c X d ?d1" by (rule calm_drop) (use True assms in auto)
  then have two: "calm c X d ?d2" by (blast intro: calm_trans calm_core(12) calm_core(13))
  then have "calm c X d (?d2\<lparr>clients := AList.delete ?i (clients ?d2)\<rparr>)" by (rule calm_trans) (rule calm_forget)
  with two True show ?thesis
    by (auto simp: cleanupSession_def Let_def intro: calm_trans [OF _ calm_core(2)] split: option.split)
qed (simp add: cleanupSession_def calm_refl)

lemma calm_socket_close: "calm c X d (webSocketClose now ws d)"
proof -
  have closed: "\<not> is_open (ws_close ws d) ws" by (simp add: close_open)
  show ?thesis
    using calm_trans [OF calm_close calm_cleanup [OF closed]] calm_close
    by (auto simp: webSocketClose_def Let_def split: option.split)
qed

lemma calm_expireViewer:
  shows "calm c X d (expireViewer now sid ws d)"
proof -
  define d0 where "d0 = (if is_open d ws then ws_close ws (ws_send ws (Obj [(''type'', Str ''viewer_expired''), (''timestamp'', Num (Fin now))]) d) else d)"
  have fields: "sessions d0 = sessions d" "\<not> is_open d0 ws"
    by (simp_all add: d0_def close_fields close_open ws_send_def)
  have one: "calm c X d d0" using calm_trans [OF calm_core(10) calm_close] by (simp add: d0_def calm_refl)
  define d1 where "d1 = (if map_of (sessions d) sid = Some ws then d0\<lparr>sessions := AList.delete sid (sessions d0)\<rparr> else d0)"
  have "calm c X d0 (d0\<lparr>sessions := AList.delete sid (sessions d0)\<rparr>)" if "map_of (sessions d) sid = Some ws"
    by (rule calm_drop) (use fields that in auto)
  then have two: "calm c X d0 d1" by (simp add: d1_def calm_refl)
  have "same_core d1 (expireViewer now sid ws d)"
    by (auto simp: expireViewer_def Let_def d1_def d0_def same_core_def ws_send_def is_open_def ws_close_def split: option.split)
  then show ?thesis using one two same_core_calm by (blast intro: calm_trans)
qed

lemma calm_sweep: "calm c X d (removeExpiredViewers now (removeExpiredClients now d))"
proof -
  have "calm c X d (expire_client now e d)" for e and d :: live_do
    using calm_trans [OF calm_forget(1) calm_core(2)] by (cases e) (simp add: expire_client_def calm_refl)
  then have clients: "calm c X d (removeExpiredClients now d)" unfolding removeExpiredClients_def by (rule calm_fold)
  have gone: "calm c X d (d\<lparr>viewerExpiresAt := v, sessionRoles := r\<rparr>)" for v r and d :: live_do
    by (rule same_core_calm) (simp add: same_core_def)
  have "calm c X d (expire_entry now e d)" for e and d :: live_do
    by (cases e) (auto simp: expire_entry_def calm_refl gone calm_expireViewer split: option.split)
  then have "calm c X d (removeExpiredViewers now d)" for d unfolding removeExpiredViewers_def by (rule calm_fold)
  with clients show ?thesis by (blast intro: calm_trans)
qed

subsection \<open>A new session\<close>

lemma register_sockets: "sockets (registerSession ws a d) = sockets (serialize_attachment ws a d)"
  "sessions (registerSession ws a d) = AList.update (at_clientId a) ws (sessions d)" "clients (registerSession ws a d) = clients d"
  "lastKnownClients (registerSession ws a d) = lastKnownClients d" "httpLive (registerSession ws a d) = httpLive d"
  by (simp_all add: registerSession_def Let_def serialize_fields)

lemma calm_register:
  assumes fresh: "sockets d ws = None" and att: "attachable a" and none: "at_lastReportTime a = None"
    and free: "\<And>w b. is_open d w \<Longrightarrow> session_attachment d w = Some b \<Longrightarrow> at_clientId b \<noteq> at_clientId a"
  shows "calm c X d (registerSession ws a (d\<lparr>sockets := (sockets d)(ws \<mapsto> \<lparr>ws_open = True, ws_attachment = Undef\<rparr>)\<rparr>))" (is "calm c X d ?d'")
proof -
  obtain b where b: "getSessionAttachment (attachment_value a) = Some b" "at_clientId b = at_clientId a"
    using attachment_back [OF att] by metis
  have bt: "at_lastReportTime b = None" using attachment_reread [OF b(1)] none by simp
  have sock: "sockets ?d' = (sockets d)(ws \<mapsto> \<lparr>ws_open = True, ws_attachment = attachment_value a\<rparr>)"
    by (simp add: register_sockets serialize_attachment_def)
  have op: "is_open ?d' w \<longleftrightarrow> w = ws \<or> is_open d w" for w by (simp add: is_open_def sock)
  have at: "session_attachment ?d' w = (if w = ws then Some b else session_attachment d w)" for w
    by (simp add: session_attachment_def sock b)
  have not: "\<not> is_open d ws" "session_attachment d ws = None" using fresh by (simp_all add: is_open_def session_attachment_def)
  have ses: "map_of (sessions ?d') k = (if k = at_clientId a then Some ws else map_of (sessions d) k)" for k
    by (simp add: register_sockets update_conv')
  have "session_inv ?d'" if inv: "session_inv d"
    unfolding session_inv_def op at ses
  proof (intro conjI allI impI)
    show "distinct (map fst (sessions ?d'))" using inv by (simp add: session_inv_def register_sockets distinct_update)
  next
    fix k w
    assume k: "(if k = at_clientId a then Some ws else map_of (sessions d) k) = Some w"
    show "\<exists>a1. (if w = ws then Some b else session_attachment d w) = Some a1 \<and> at_clientId a1 = k"
      using k sess_session [OF inv, of k w] not(2) b(2) by (auto split: if_splits)
  next
    fix w a1
    assume "w = ws \<or> is_open d w" "(if w = ws then Some b else session_attachment d w) = Some a1"
    then show "(if at_clientId a1 = at_clientId a then Some ws else map_of (sessions d) (at_clientId a1)) = Some w"
      using sess_open [OF inv, of w a1] free b(2) by (auto split: if_splits)
  qed
  moreover have "socket_times c ?d' \<subseteq> socket_times c d"
    using bt by (auto simp: socket_times_def op at split: if_splits)
  then have "held_times c ?d' \<subseteq> held_times c d \<union> X" unfolding held_times_def register_sockets by auto
  ultimately show ?thesis by (simp add: calm_def)
qed

lemma attachment_fresh: "at_lastReportTime (new_attachment now ttl rid q) = None"
  by (simp add: new_attachment_def Let_def)

lemma calm_connect:
  assumes ok: "sockets d ws = None" "attachable (new_attachment now ttl rid q)"
    "at_role (new_attachment now ttl rid q) = AgentRole \<or> map_of (sessions d) (at_clientId (new_attachment now ttl rid q)) = None"
    and inv: "session_inv d"
  shows "calm c X d (fst (connect now ttl rid ws q d))"
proof -
  let ?a = "new_attachment now ttl rid q"
  let ?d1 = "replace_session ?a d"
  let ?d2 = "registerSession ws ?a (?d1\<lparr>sockets := (sockets ?d1)(ws \<mapsto> \<lparr>ws_open = True, ws_attachment = Undef\<rparr>)\<rparr>)"
  have one: "calm c X d ?d1" by (simp add: replace_session_def calm_close calm_refl split: option.split)
  then have inv1: "session_inv ?d1" using inv by (simp add: calm_def)
  have ses: "sessions ?d1 = sessions d" by (simp add: replace_session_def close_fields split: option.split)
  have fresh: "sockets ?d1 ws = None" using ok(1) by (auto simp: replace_session_def ws_close_def split: option.split)
  have free: "at_clientId b \<noteq> at_clientId ?a" if "is_open ?d1 w" "session_attachment ?d1 w = Some b" for w b
  proof
    assume eq: "at_clientId b = at_clientId ?a"
    then have m: "map_of (sessions d) (at_clientId ?a) = Some w" using sess_open [OF inv1 that] by (simp add: ses)
    then have "at_role ?a = AgentRole" using ok(3) by simp
    then show False using m that(1) by (auto simp: replace_session_def close_open split: if_splits)
  qed
  have two: "calm c X ?d1 ?d2" by (rule calm_register [OF fresh ok(2) attachment_fresh free])
  have "calm c X d ?d2" using one two by (rule calm_trans)
  then have "calm c X d (if at_role ?a = ViewerRole then scheduleExpiryAlarm now (sendSnapshot now ws ?d2) else ?d2)"
    by (simp add: calm_trans [OF _ calm_trans [OF calm_core(6) calm_core(5)]])
  then show ?thesis by (auto simp: connect_def Let_def calm_refl split: option.split)
qed

subsection \<open>A restored backup\<close>

definition agent_socket :: "live_do \<Rightarrow> string \<Rightarrow> nat \<Rightarrow> bool" where
  "agent_socket d k ws \<longleftrightarrow> (\<exists>a. session_attachment d ws = Some a \<and> at_role a = AgentRole \<and> at_clientId a = k)"

lemma close_agent_step:
  "session_attachment (close_agent ws d) = session_attachment d"
  "is_open (close_agent ws d) w \<longleftrightarrow> is_open d w \<and> \<not> (w = ws \<and> (\<exists>k. agent_socket d k ws))"
  "map_of (sessions (close_agent ws d)) k = (if agent_socket d k ws then None else map_of (sessions d) k)"
  "distinct (map fst (sessions d)) \<Longrightarrow> distinct (map fst (sessions (close_agent ws d)))"
proof -
  have at: "session_attachment (d\<lparr>sessions := s, sessionRoles := t\<rparr>) w = session_attachment d w" for s t w and d :: live_do
    by (simp add: session_attachment_def)
  have op: "is_open (d\<lparr>sessions := s, sessionRoles := t\<rparr>) w = is_open d w" for s t w and d :: live_do by (simp add: is_open_def)
  show "session_attachment (close_agent ws d) = session_attachment d"
    by (auto simp: close_agent_def Let_def at close_attachment fun_eq_iff split: option.split)
  show "is_open (close_agent ws d) w \<longleftrightarrow> is_open d w \<and> \<not> (w = ws \<and> (\<exists>k. agent_socket d k ws))"
    by (auto simp: close_agent_def agent_socket_def Let_def op close_open split: option.split)
  show "map_of (sessions (close_agent ws d)) k = (if agent_socket d k ws then None else map_of (sessions d) k)"
    by (auto simp: close_agent_def agent_socket_def Let_def close_fields delete_conv' split: option.split)
  show "distinct (map fst (sessions d)) \<Longrightarrow> distinct (map fst (sessions (close_agent ws d)))"
    by (auto simp: close_agent_def Let_def close_fields distinct_delete split: option.split)
qed

lemma close_agents:
  "session_attachment (fold close_agent L d) = session_attachment d"
  "is_open (fold close_agent L d) w \<longleftrightarrow> is_open d w \<and> \<not> (w \<in> set L \<and> (\<exists>k. agent_socket d k w))"
  "map_of (sessions (fold close_agent L d)) k = (if list_ex (agent_socket d k) L then None else map_of (sessions d) k)"
  "distinct (map fst (sessions d)) \<Longrightarrow> distinct (map fst (sessions (fold close_agent L d)))"
proof (induction L arbitrary: d)
  case (Cons x L)
  have same: "agent_socket (close_agent x d) = agent_socket d" for d by (auto simp: agent_socket_def close_agent_step(1) fun_eq_iff)
  { case 1 show ?case by (simp add: Cons.IH(1) close_agent_step(1)) }
  { case 2 show ?case by (auto simp: Cons.IH(2) close_agent_step(2) same) }
  { case 3 show ?case by (simp add: Cons.IH(3) close_agent_step(3) same) }
  { case 4 then show ?case by (simp add: Cons.IH(4) close_agent_step(4)) }
qed simp_all

lemma uniq_set: "set (js_uniq xs) = set xs"
  by (induction xs rule: js_uniq.induct) auto

lemma close_all_agents:
  assumes inv: "session_inv d" and acc: "list_all (is_open d) accepted" and L: "set L = set (map snd (sessions d) @ accepted)"
  shows "session_inv (fold close_agent L d)" "socket_times c (fold close_agent L d) = {}"
proof -
  let ?d = "fold close_agent L d"
  have in_L: "w \<in> set L" if "is_open d w" "session_attachment d w = Some a" for w a
    using map_of_SomeD [OF sess_open [OF inv that]] by (force simp: L)
  have clean: "at_role a \<noteq> AgentRole" if "is_open ?d w" "session_attachment d w = Some a" for w a
    using that in_L by (auto simp: close_agents(2) agent_socket_def)
  have kept: "\<not> list_ex (agent_socket d (at_clientId a)) L" if o: "is_open ?d w" "session_attachment d w = Some a" for w a
  proof
    assume "list_ex (agent_socket d (at_clientId a)) L"
    then obtain x b where x: "x \<in> set L" "session_attachment d x = Some b" "at_role b = AgentRole" "at_clientId b = at_clientId a"
      by (auto simp: list_ex_iff agent_socket_def)
    have w: "map_of (sessions d) (at_clientId a) = Some w" using sess_open [OF inv _ o(2)] o(1) by (simp add: close_agents(2))
    have "x = w"
    proof (cases "x \<in> set accepted")
      case True
      then show ?thesis using sess_open [OF inv _ x(2)] acc x(4) w by (simp add: list_all_iff)
    next
      case False
      then obtain k where k: "(k, x) \<in> set (sessions d)" using x(1) by (auto simp: L)
      then have "map_of (sessions d) k = Some x" using inv by (simp add: session_inv_def)
      then show ?thesis using sess_session [OF inv] x(2,4) w by fastforce
    qed
    then show False using clean [OF o] x(2,3) o(2) by simp
  qed
  show "session_inv ?d"
    unfolding session_inv_def close_agents(1,3)
  proof (intro conjI allI impI)
    show "distinct (map fst (sessions ?d))" using inv by (simp add: session_inv_def close_agents(4))
  next
    fix k ws
    assume "(if list_ex (agent_socket d k) L then None else map_of (sessions d) k) = Some ws"
    then show "\<exists>a. session_attachment d ws = Some a \<and> at_clientId a = k" using sess_session [OF inv] by (simp split: if_splits)
  next
    fix ws a
    assume "is_open ?d ws" "session_attachment d ws = Some a"
    then show "(if list_ex (agent_socket d (at_clientId a)) L then None else map_of (sessions d) (at_clientId a)) = Some ws"
      using kept sess_open [OF inv] by (simp add: close_agents(2))
  qed
  show "socket_times c ?d = {}" using clean by (auto simp: socket_times_def close_agents(1))
qed

lemma sess_same: "sockets d' = sockets d \<Longrightarrow> sessions d' = sessions d \<Longrightarrow> session_inv d' = session_inv d \<and> socket_times c d' = socket_times c d"
  by (simp add: session_inv_def socket_times_def is_open_def session_attachment_def)

lemma restore_nothing:
  assumes inv: "session_inv d" and acc: "list_all (is_open d) accepted"
  shows "session_inv (restore_state now accepted restored updatedAt d)" "held_times c (restore_state now accepted restored updatedAt d) = {}"
proof -
  define d1 where "d1 = d\<lparr>httpLive := (\<lambda>_. None), auth := (auth d)\<lparr>snaps := (\<lambda>_. None), ptrs := (\<lambda>_. None)\<rparr>\<rparr>"
  define d2 where "d2 = d1\<lparr>admin := storeAdminClientsSnapshot \<lparr>as_clients = restored, as_complete = True, as_updatedAt = updatedAt,
                                                     as_removed = []\<rparr> (admin d1)\<rparr>"
  define d3 where "d3 = fold close_agent (js_uniq (map snd (sessions d2) @ accepted)) d2"
  define d3' where "d3' = d3\<lparr>clients := [], lastKnownClients := []\<rparr>"
  define d4 where "d4 = broadcastMetadataChanged now [(''clients'', Bool True)] ToAll d3'"
  define d5 where "d5 = fold (\<lambda>(sid, ws) d. if map_of (sessionRoles d) sid = Some ViewerRole then sendSnapshot now ws d else d) (sessions d4) d4"
  have res: "restore_state now accepted restored updatedAt d = scheduleExpiryAlarm now d5"
    by (simp add: restore_state_def Let_def d1_def d2_def d3_def d3'_def d4_def d5_def)
  have same2: "sockets d2 = sockets d" "sessions d2 = sessions d" "httpLive d2 = (\<lambda>_. None)" by (simp_all add: d2_def d1_def)
  have inv2: "session_inv d2" using sess_same [of d2 d c] same2 inv by simp
  have acc2: "list_all (is_open d2) accepted" using acc by (simp add: list_all_iff is_open_def same2)
  have closed: "session_inv d3" "socket_times c d3 = {}"
    unfolding d3_def by (rule close_all_agents [OF inv2 acc2 uniq_set])+
  have "httpLive (fold close_agent L d) = httpLive d" for L and d :: live_do
    by (induction L arbitrary: d) (simp_all add: close_agent_def Let_def close_fields split: option.split)
  then have h: "httpLive d3 = (\<lambda>_. None)" by (simp add: d3_def same2)
  have i3: "session_inv d3'" "held_times c d3' = {}"
    using closed sess_same [of d3' d3 c] by (simp_all add: d3'_def held_times_def h)
  have "calm c {} d4 d5" unfolding d5_def by (rule calm_fold) (auto simp: calm_refl calm_core(6))
  then have "calm c {} d3' (scheduleExpiryAlarm now d5)"
    unfolding d4_def using calm_core(3,5) by (blast intro: calm_trans)
  then show "session_inv (restore_state now accepted restored updatedAt d)" "held_times c (restore_state now accepted restored updatedAt d) = {}"
    using i3 by (auto simp: res calm_def)
qed

subsection \<open>Synchronisation and reports\<close>

lemma calm_withdrawn: "calm c X d (withdrawn now uuid hash d)"
  by (simp add: withdrawn_def calm_refl calm_remove split: option.split)

lemma calm_sync_apply: "calm c X d (fst (sync_apply dp now uuid revision client d))"
proof -
  let ?d1 = "d\<lparr>syncRevisions := (syncRevisions d)(uuid \<mapsto> (revision, False))\<rparr>"
  have removed: "calm c X d (d'\<lparr>syncRevisions := v\<rparr>)" if "d' = fst (removeClient now q ?d1)" for d' v q
    unfolding that by (rule calm_trans [OF calm_core(9) calm_trans [OF calm_remove calm_core(9)]])
  have w: "calm c X d (withdrawn now uuid hash ?d1)" for hash
    by (rule calm_trans [OF calm_core(9) calm_withdrawn])
  have stored: "calm c X d (d'\<lparr>syncRevisions := v\<rparr>)"
    if "d' = fst (updateClientMeta now q (withdrawn now uuid hash ?d1\<lparr>auth := s\<rparr>))" for d' v q hash s
    unfolding that by (rule calm_trans [OF w calm_trans [OF calm_core(8) calm_trans [OF calm_meta calm_core(9)]]])
  show ?thesis
    using removed stored w by (auto simp: sync_apply_def Let_def calm_refl split: option.split bool.split prod.split)
qed

lemma calm_sync: "calm c X d (fst (applyClientSynchronization dp now request d))"
  by (auto simp: applyClientSynchronization_def calm_refl calm_sync_apply split: sum.split option.split)

lemma calm_infer: "calm c X d (applyInferredNetworkMetadataToLiveReport u patch now d)"
proof (cases "Option.bind (map_of (clients d) u) (\<lambda>k. controlledClientState k (admin d))")
  case (Some current)
  then obtain k where k: "map_of (clients d) u = Some k" "controlledClientState k (admin d) = Some current" by (auto split: bind_splits)
  define nextReport where "nextReport = set_when ''region'' (patched_region patch)
     (set_when ''ipv6'' (patched_ip patch ''ipv6'') (set_when ''ipv4'' (patched_ip patch ''ipv4'') (cs_lastReport current)))"
  define nxt where "nxt = current\<lparr>cs_lastReport := nextReport\<rparr>"
  define d1 where "d1 = d\<lparr>clients := AList.update u nxt (clients d), lastKnownClients := AList.update u (compacted nxt) (lastKnownClients d)\<rparr>"
  define d2 where "d2 = (case map_of (sessions d1) u of
      Some ws \<Rightarrow> if map_of (sessionRoles d1) u = Some AgentRole then rememberAgentReportAttachment ws (nxt\<lparr>cs_uuid := u\<rparr>) d1 else d1
    | None \<Rightarrow> d1)"
  let ?Y = "held_times c d \<union> X"
  have t: "u = c \<Longrightarrow> cs_lastReportTime nxt \<in> ?Y" using k controlled_time [OF k(2)] held_entry(1) [of d c k] by (simp add: nxt_def)
  have "d1 = (d\<lparr>clients := AList.update u nxt (clients d)\<rparr>)\<lparr>lastKnownClients := AList.update u (compacted nxt) (lastKnownClients d)\<rparr>"
    by (simp add: d1_def)
  moreover have "calm c ?Y d (d\<lparr>clients := AList.update u nxt (clients d)\<rparr>)" by (rule calm_write) (use t in auto)
  moreover have "calm c ?Y (d\<lparr>clients := AList.update u nxt (clients d)\<rparr>)
      ((d\<lparr>clients := AList.update u nxt (clients d)\<rparr>)\<lparr>lastKnownClients := AList.update u (compacted nxt)
        (lastKnownClients (d\<lparr>clients := AList.update u nxt (clients d)\<rparr>))\<rparr>)" by (rule calm_write) (use t in auto)
  ultimately have one: "calm c ?Y d d1" by (simp add: calm_trans)
  have two: "calm c ?Y d1 d2" using t by (auto simp: d2_def calm_refl intro!: calm_remember split: option.split)
  have "calm c X d d2" by (rule calm_absorb [OF calm_trans [OF one two]])
  then show ?thesis
    unfolding applyInferredNetworkMetadataToLiveReport_def Some option.case Let_def nextReport_def [symmetric]
    unfolding nxt_def [symmetric] d1_def [symmetric] d2_def [symmetric]
    by (auto simp: calm_refl intro: calm_trans [OF _ calm_core(1)])
qed (simp add: applyInferredNetworkMetadataToLiveReport_def calm_refl)

lemma calm_persist: "(cs_uuid k = c \<Longrightarrow> cs_lastReportTime k \<in> X) \<Longrightarrow> calm c X d (persistClientSnapshot k d)"
  unfolding persistClientSnapshot_def by (rule calm_write) simp

lemma calm_retire:
  assumes "\<And>k. map_of (lastKnownClients d) u = Some k \<Longrightarrow> cs_uuid k = u"
  shows "calm c X d (retire u current d)"
proof (cases "if current then Option.bind (map_of (lastKnownClients d) u) (\<lambda>k. controlledClientState k (admin d)) else None")
  case None
  then show ?thesis by (simp add: retire_def calm_forget)
next
  case (Some e)
  then obtain k where k: "map_of (lastKnownClients d) u = Some k" "controlledClientState k (admin d) = Some e"
    by (auto split: if_splits bind_splits)
  have "calm c (held_times c d \<union> X) d (persistClientSnapshot e d)"
    by (rule calm_persist) (use k assms controlled_uuid [OF k(2)] controlled_time [OF k(2)] held_entry(2) [of d c k] in auto)
  then show ?thesis using Some by (simp add: retire_def calm_absorb)
qed

lemma calm_show:
  assumes t: "cs_uuid nxt = c \<Longrightarrow> cs_lastReportTime nxt \<in> X"
  shows "calm c X d (show_report now up nxt d)"
proof -
  let ?u = "cs_uuid nxt"
  let ?d1 = "d\<lparr>lastKnownClients := AList.update ?u (compacted nxt) (lastKnownClients d)\<rparr>"
  let ?d2 = "?d1\<lparr>clients := AList.update ?u nxt (clients ?d1)\<rparr>"
  have one: "calm c X d ?d1" by (rule calm_write) (use t in simp)
  have "calm c X ?d1 ?d2" by (rule calm_write) (use t in simp)
  then have two: "calm c X d ?d2" by (rule calm_trans [OF one])
  have "calm c X ?d2 (rememberAgentReportAttachment ws nxt ?d2)" if "map_of (sessions ?d1) ?u = Some ws" for ws
    by (rule calm_remember) (use that t in auto)
  then have three: "calm c X d (case up_ws up of Some ws \<Rightarrow> rememberAgentReportAttachment ws nxt ?d2 | None \<Rightarrow> ?d2)"
    if "case up_ws up of None \<Rightarrow> True | Some ws \<Rightarrow> map_of (sessions ?d1) ?u = Some ws \<and> is_open ?d1 ws"
    using that two by (auto intro: calm_trans split: option.splits)
  show ?thesis
    using three one unfolding show_report_def Let_def
    by (auto intro: calm_trans [OF _ calm_core(1)] calm_trans [OF _ calm_core(2)])
qed

subsection \<open>Entries are filed under their node\<close>

definition named :: "live_do \<Rightarrow> bool" where
  "named d \<longleftrightarrow> (\<forall>k e. map_of (clients d) k = Some e \<or> map_of (lastKnownClients d) k = Some e \<or> httpLive d k = Some e \<longrightarrow> cs_uuid e = k)"

lemma named_entry: "named d \<Longrightarrow> map_of (clients d) k = Some e \<Longrightarrow> cs_uuid e = k"
  "named d \<Longrightarrow> map_of (lastKnownClients d) k = Some e \<Longrightarrow> cs_uuid e = k" "named d \<Longrightarrow> httpLive d k = Some e \<Longrightarrow> cs_uuid e = k"
  by (simp_all add: named_def)

lemma named_same: "clients d' = clients d \<Longrightarrow> lastKnownClients d' = lastKnownClients d \<Longrightarrow> httpLive d' = httpLive d \<Longrightarrow> named d' = named d"
  by (simp add: named_def)

lemma named_core: "same_core d d' \<Longrightarrow> named d' = named d"
  by (rule named_same) (simp_all add: same_core_def)

lemma named_close: "named (ws_close ws d) = named d" "named (serialize_attachment ws a d) = named d"
  "named (rememberAgentReportAttachment ws k d) = named d"
proof -
  show "named (ws_close ws d) = named d" by (rule named_same) (simp_all add: close_fields)
  show s: "named (serialize_attachment ws a d) = named d" for a by (rule named_same) (simp_all add: serialize_fields)
  show "named (rememberAgentReportAttachment ws k d) = named d" using remember_is_serialize [of ws k d] s by auto
qed

lemma named_sessions: "named (d\<lparr>sessions := s\<rparr>) = named d" "named (d\<lparr>sessionRoles := ro\<rparr>) = named d" "named (d\<lparr>viewerExpiresAt := v\<rparr>) = named d"
  "named (d\<lparr>sockets := so\<rparr>) = named d" "named (d\<lparr>streaks := st\<rparr>) = named d" "named (d\<lparr>auth := au\<rparr>) = named d"
  "named (d\<lparr>admin := ad\<rparr>) = named d" "named (d\<lparr>syncRevisions := sr\<rparr>) = named d" "named (d\<lparr>alarmAt := aa\<rparr>) = named d"
  "named (d\<lparr>outbox := ob\<rparr>) = named d"
  by (simp_all add: named_def)

lemmas named_simps = named_sessions named_close core_broadcast [THEN named_core] core_other [THEN named_core]

lemma named_forget: "named d \<Longrightarrow> named (d\<lparr>clients := AList.delete k (clients d)\<rparr>)"
  "named d \<Longrightarrow> named (d\<lparr>lastKnownClients := AList.delete k (lastKnownClients d)\<rparr>)"
  "named d \<Longrightarrow> named (d\<lparr>httpLive := (httpLive d)(k := None)\<rparr>)"
  by (auto simp: named_def delete_conv' split: if_splits)

lemma named_write: "named d \<Longrightarrow> cs_uuid e = k \<Longrightarrow> named (d\<lparr>clients := AList.update k e (clients d)\<rparr>)"
  "named d \<Longrightarrow> cs_uuid e = k \<Longrightarrow> named (d\<lparr>lastKnownClients := AList.update k e (lastKnownClients d)\<rparr>)"
  "named d \<Longrightarrow> cs_uuid e = k \<Longrightarrow> named (d\<lparr>httpLive := (httpLive d)(k \<mapsto> e)\<rparr>)"
  by (auto simp: named_def update_conv' split: if_splits)

lemma named_fold: "named d \<Longrightarrow> (\<And>x d. x \<in> set xs \<Longrightarrow> named d \<Longrightarrow> named (f x d)) \<Longrightarrow> named (fold f xs d)"
  by (induction xs arbitrary: d) auto

lemma named_persist: "named d \<Longrightarrow> named (persistClientSnapshot k d)"
  unfolding persistClientSnapshot_def by (rule named_write) simp_all

lemma named_retire: "named d \<Longrightarrow> named (retire u current d)"
  by (simp add: retire_def named_persist named_forget split: option.split)

lemma named_show:
  assumes "named d"
  shows "named (show_report now up nxt d)"
proof -
  let ?u = "cs_uuid nxt"
  let ?d1 = "d\<lparr>lastKnownClients := AList.update ?u (compacted nxt) (lastKnownClients d)\<rparr>"
  have one: "named ?d1" by (rule named_write) (use assms in simp_all)
  have "named (?d1\<lparr>clients := AList.update ?u nxt (clients ?d1)\<rparr>)" by (rule named_write) (use one in simp_all)
  with one show ?thesis unfolding show_report_def Let_def by (auto simp: named_simps split: option.split)
qed

lemma named_apply_meta:
  assumes n: "named d"
  shows "named (apply_meta now uuid d)"
proof -
  define current where "current = (case map_of (clients d) uuid of Some k \<Rightarrow> unexpired (cs_expiresAt k) now | None \<Rightarrow> False)"
  define d1 where "d1 = (if map_of (clients d) uuid \<noteq> None \<and> \<not> current then d\<lparr>clients := AList.delete uuid (clients d)\<rparr> else d)"
  define retained where "retained = (case map_of (clients d) uuid of Some k \<Rightarrow> Some k | None \<Rightarrow> map_of (lastKnownClients d1) uuid)"
  have one: "named d1" using n by (simp add: d1_def named_forget)
  show ?thesis
  proof (cases "Option.bind retained (\<lambda>k. controlledClientState k (admin d1))")
    case None
    then show ?thesis using one unfolding apply_meta_def Let_def current_def [symmetric] d1_def [symmetric] retained_def [symmetric] by simp
  next
    case (Some nxt)
    define d2 where "d2 = d1\<lparr>lastKnownClients := AList.update uuid (compacted nxt) (lastKnownClients d1)\<rparr>"
    define d3 where "d3 = (if current then d2\<lparr>clients := AList.update uuid nxt (clients d2)\<rparr> else d2)"
    obtain k where k: "retained = Some k" "controlledClientState k (admin d1) = Some nxt" using Some by (auto split: bind_splits)
    have u: "cs_uuid nxt = uuid" using k controlled_uuid [OF k(2)] named_entry [OF n] named_entry [OF one]
      by (auto simp: retained_def split: option.splits)
    have two: "named d2" unfolding d2_def by (rule named_write) (use one u in simp_all)
    have "named d3" using two u by (simp add: d3_def named_write)
    then show ?thesis
      unfolding apply_meta_def Let_def current_def [symmetric] d1_def [symmetric] retained_def [symmetric] Some option.case
        d2_def [symmetric] d3_def [symmetric]
      by (auto simp: named_simps split: option.split)
  qed
qed

lemma named_meta:
  assumes n: "named d"
  shows "named (fst (updateClientMeta now request d))"
proof -
  have "named (fst (update_meta_body now meta d))" for meta
  proof (cases "nonblank_text (js_get meta ''uuid'')")
    case (Some uuid)
    define patch where "patch = assign [(''uuid'', Str uuid)]
      (projectAgentClientMetadata (case js_get meta ''client'' of Obj k \<Rightarrow> k | _ \<Rightarrow> meta))"
    obtain d1 r where u: "upsert_admin now patch True d = (d1, r)" by force
    have "named d1" using n named_core [OF core_other(1) [of d now patch True]] by (simp add: u)
    then have agent: "named (fst (case upsert_admin now patch True d of
        (d1, Some client) \<Rightarrow> (broadcastMetadataChanged now [(''clients'', Obj [(''upsert'', Arr [Obj client])])] ToAll d1, json_success)
      | (d1, None) \<Rightarrow> (d1, json_success)))"
      by (cases r) (auto simp: u named_simps)
    have owner: "named (broadcastMetadataChanged now m ToAll (apply_meta now uuid (fst (upsert_admin now k False d))))" for m k
      using n by (simp add: named_simps named_apply_meta)
    show ?thesis
    proof (cases "js_get meta ''source'' = Str ''agent''")
      case True
      then show ?thesis using agent unfolding update_meta_body_def Let_def patch_def Some option.case by (simp only: if_True refl)
    next
      case False
      then show ?thesis unfolding update_meta_body_def Let_def Some option.case by (simp only: if_False fst_conv owner)
    qed
  qed (simp add: update_meta_body_def n)
  then show ?thesis by (simp add: updateClientMeta_def n split: sum.split)
qed

lemma named_remove:
  assumes n: "named d"
  shows "named (fst (removeClient now request d))"
proof -
  have "named (forget_client uuid d)" for uuid
    using n unfolding named_def forget_client_def Let_def
    by (auto simp: close_fields delete_conv' split: option.splits if_splits)
  then have "named (fst (remove_body now meta d))" for meta
    using n remove_body_after [THEN named_core] by (cases "nonblank_text (js_get meta ''uuid'')") (simp_all add: remove_body_def)
  then show ?thesis by (simp add: removeClient_def n split: sum.split)
qed

lemma named_sync:
  assumes n: "named d"
  shows "named (fst (applyClientSynchronization dp now request d))"
proof -
  have w: "named (withdrawn now uuid hash d)" if "named d" for d uuid hash
    using that by (simp add: withdrawn_def named_remove split: option.split)
  have "named (fst (sync_apply dp now uuid revision client d))" for uuid revision client
    using n by (auto simp: sync_apply_def Let_def named_simps named_remove named_meta w split: option.split bool.split prod.split)
  then show ?thesis by (auto simp: applyClientSynchronization_def n split: sum.split option.split)
qed

lemma named_infer:
  assumes n: "named d"
  shows "named (applyInferredNetworkMetadataToLiveReport u patch now d)"
proof (cases "Option.bind (map_of (clients d) u) (\<lambda>k. controlledClientState k (admin d))")
  case (Some current)
  then obtain k where k: "map_of (clients d) u = Some k" "controlledClientState k (admin d) = Some current" by (auto split: bind_splits)
  have u: "cs_uuid current = u" using named_entry(1) [OF n k(1)] controlled_uuid [OF k(2)] by simp
  have "named (d\<lparr>clients := AList.update u e (clients d), lastKnownClients := AList.update u (compacted e) (lastKnownClients d)\<rparr>)"
    if "cs_uuid e = u" for e
    using n that by (auto simp: named_def update_conv' split: if_splits)
  then show ?thesis
    using n u unfolding applyInferredNetworkMetadataToLiveReport_def Some option.case Let_def
    by (auto simp: named_simps split: option.split)
qed (simp add: applyInferredNetworkMetadataToLiveReport_def n)

lemma named_session_event:
  assumes n: "named d"
  shows "named (sess_step e d)"
proof (cases e)
  case (Upgrade now ttl rid ws q)
  have "named (replace_session a d)" for a using n by (simp add: replace_session_def named_simps split: option.split)
  moreover have "named (registerSession ws a d) = named d" for a and d :: live_do
    by (rule named_same) (simp_all add: register_sockets)
  ultimately show ?thesis using n by (auto simp: Upgrade connect_def Let_def named_simps split: option.split)
next
  case (Close now ws)
  have gone: "named (d\<lparr>sessions := s, sessionRoles := ro, viewerExpiresAt := v, clients := AList.delete k (clients d)\<rparr>)"
    if "named d" for s ro v k and d :: live_do
    using that by (auto simp: named_def delete_conv' split: if_splits)
  have "named (cleanupSession now ws a d)" if "named d" for a and d :: live_do
    using that gone [OF that] by (auto simp: cleanupSession_def Let_def named_simps split: option.split)
  then show ?thesis using n by (simp add: Close webSocketClose_def Let_def named_simps split: option.split)
next
  case (Sweep now)
  have "named (expire_client now k d)" if "named d" for k and d :: live_do
    using that by (cases k) (simp add: expire_client_def named_simps named_forget)
  moreover have "named (expire_entry now k d)" if "named d" for k and d :: live_do
    using that by (cases k) (auto simp: expire_entry_def expireViewer_def Let_def named_simps named_def ws_send_def close_fields split: option.split)
  ultimately show ?thesis using n by (auto simp: Sweep removeExpiredClients_def removeExpiredViewers_def intro!: named_fold)
qed

subsection \<open>A restart\<close>

text \<open>The sockets of a new object: open sockets belong to different nodes.\<close>

definition apart :: "live_do \<Rightarrow> bool" where
  "apart d \<longleftrightarrow> (\<forall>w v a b. is_open d w \<longrightarrow> is_open d v \<longrightarrow> session_attachment d w = Some a \<longrightarrow> session_attachment d v = Some b \<longrightarrow>
     at_clientId a = at_clientId b \<longrightarrow> w = v)"

lemma sess_apart: "session_inv d \<Longrightarrow> apart d"
  unfolding apart_def by (metis option.inject sess_open)

definition hydrating :: "nat set \<Rightarrow> live_do \<Rightarrow> bool" where
  "hydrating W d \<longleftrightarrow> distinct (map fst (sessions d)) \<and>
     (\<forall>k ws. map_of (sessions d) k = Some ws \<longrightarrow> (\<exists>a. session_attachment d ws = Some a \<and> at_clientId a = k)) \<and>
     (\<forall>ws a. ws \<in> W \<longrightarrow> is_open d ws \<longrightarrow> session_attachment d ws = Some a \<longrightarrow> map_of (sessions d) (at_clientId a) = Some ws)"

definition enrolled :: "attachment \<Rightarrow> nat \<Rightarrow> (string \<times> rat) list \<Rightarrow> (string \<times> client_state) list \<Rightarrow> live_do \<Rightarrow> live_do" where
  "enrolled a ws v cs d = d\<lparr>sessions := AList.update (at_clientId a) ws (sessions d),
     sessionRoles := AList.update (at_clientId a) (at_role a) (sessionRoles d), viewerExpiresAt := v, clients := cs\<rparr>"

lemma hydrate_socket_cases:
  obtains (skip) "session_attachment d ws = None" "hydrate_socket now ws d = d"
  | (expire) a where "session_attachment d ws = Some a" "hydrate_socket now ws d = expireViewer now (at_clientId a) ws d"
  | (enrol) a v where "session_attachment d ws = Some a" "hydrate_socket now ws d = enrolled a ws v (clients d) d"
  | (online) a v k where "session_attachment d ws = Some a"
      "hydrate_socket now ws d = enrolled a ws v (AList.update (at_clientId a) k (clients d)) d"
      "at_role a = AgentRole" "cs_uuid k = at_clientId a" "at_lastReportTime a = Some (cs_lastReportTime k)"
proof (cases "session_attachment d ws")
  case None
  then show ?thesis using skip by (simp add: hydrate_socket_def)
next
  case (Some a)
  define i where "i = at_clientId a"
  define expiry where "expiry = (case at_viewerExpiresAt a of Some t \<Rightarrow> if at_role a = ViewerRole \<and> t \<noteq> 0 then Some t else None | None \<Rightarrow> None)"
  define v where "v = (case expiry of Some t \<Rightarrow> AList.update i t (viewerExpiresAt d) | None \<Rightarrow> AList.delete i (viewerExpiresAt d))"
  define d1 where "d1 = d\<lparr>sessions := AList.update i ws (sessions d), sessionRoles := AList.update i (at_role a) (sessionRoles d), viewerExpiresAt := v\<rparr>"
  have d1: "d1 = enrolled a ws v (clients d) d" by (simp add: d1_def enrolled_def i_def)
  have eq: "hydrate_socket now ws d = (if (case expiry of Some t \<Rightarrow> t \<le> now | None \<Rightarrow> False) then expireViewer now i ws d
      else case (at_lastReport a, at_lastReportTime a) of
          (Some report, Some t) \<Rightarrow>
            if at_role a = AgentRole \<and> unexpired (at_expiresAt a) now
            then d1\<lparr>clients := AList.update i \<lparr>cs_uuid = i, cs_name = at_clientName a, cs_hidden = at_hidden a,
                   cs_lastReportTime = t, cs_lastReport = report, cs_expiresAt = at_expiresAt a, cs_transport = Some WsT\<rparr> (clients d1)\<rparr>
            else d1
        | _ \<Rightarrow> d1)"
    unfolding hydrate_socket_def Some option.case Let_def i_def expiry_def d1_def v_def by (rule refl)
  show ?thesis
  proof (cases "case expiry of Some t \<Rightarrow> t \<le> now | None \<Rightarrow> False")
    case True
    then show ?thesis using expire Some by (simp add: eq i_def)
  next
    case False
    show ?thesis
    proof (cases "at_lastReport a = None \<or> at_lastReportTime a = None \<or> \<not> (at_role a = AgentRole \<and> unexpired (at_expiresAt a) now)")
      case True
      then have "hydrate_socket now ws d = d1" using False by (auto simp: eq split: option.split)
      then show ?thesis using enrol [OF Some] d1 by simp
    next
      case online': False
      then obtain report t where r: "at_lastReport a = Some report" "at_lastReportTime a = Some t" by auto
      let ?k = "\<lparr>cs_uuid = i, cs_name = at_clientName a, cs_hidden = at_hidden a,
                   cs_lastReportTime = t, cs_lastReport = report, cs_expiresAt = at_expiresAt a, cs_transport = Some WsT\<rparr>"
      have "hydrate_socket now ws d = d1\<lparr>clients := AList.update i ?k (clients d1)\<rparr>" using False online' r by (simp add: eq)
      also have "\<dots> = enrolled a ws v (AList.update (at_clientId a) ?k (clients d)) d" by (simp add: d1_def enrolled_def i_def)
      finally show ?thesis using online [OF Some, of v ?k] online' r(2) by (simp add: i_def)
    qed
  qed
qed

lemma enrolled_fields: "session_attachment (enrolled a ws v cs d) = session_attachment d" "is_open (enrolled a ws v cs d) = is_open d"
  "sessions (enrolled a ws v cs d) = AList.update (at_clientId a) ws (sessions d)" "clients (enrolled a ws v cs d) = cs"
  "lastKnownClients (enrolled a ws v cs d) = lastKnownClients d" "httpLive (enrolled a ws v cs d) = httpLive d"
  by (auto simp: enrolled_def session_attachment_def is_open_def fun_eq_iff)

lemma expire_fields: "session_attachment (expireViewer now i ws d) = session_attachment d"
  "is_open (expireViewer now i ws d) w \<longleftrightarrow> is_open d w \<and> w \<noteq> ws" "clients (expireViewer now i ws d) = clients d"
  "lastKnownClients (expireViewer now i ws d) = lastKnownClients d" "httpLive (expireViewer now i ws d) = httpLive d"
  "sessions (expireViewer now i ws d) = (if map_of (sessions d) i = Some ws then AList.delete i (sessions d) else sessions d)"
  by (auto simp: expireViewer_def Let_def ws_send_def ws_close_def is_open_def session_attachment_def fun_eq_iff split: option.splits if_splits)

lemma hydrating_enrolled:
  assumes h: "hydrating W d" "apart d" and o: "is_open d ws" and a: "session_attachment d ws = Some a"
  shows "hydrating (insert ws W) (enrolled a ws v cs d)"
proof -
  have m: "map_of (sessions (enrolled a ws v cs d)) k = (if k = at_clientId a then Some ws else map_of (sessions d) k)" for k
    by (simp add: enrolled_fields update_conv')
  show ?thesis
    unfolding hydrating_def enrolled_fields(1,2) m
  proof (intro conjI allI impI)
    show "distinct (map fst (sessions (enrolled a ws v cs d)))" using h(1) by (simp add: enrolled_fields hydrating_def distinct_update)
  next
    fix k w
    assume "(if k = at_clientId a then Some ws else map_of (sessions d) k) = Some w"
    then show "\<exists>b. session_attachment d w = Some b \<and> at_clientId b = k" using h(1) a by (simp add: hydrating_def split: if_splits)
  next
    fix w b
    assume w: "w \<in> insert ws W" "is_open d w" "session_attachment d w = Some b"
    have "w = ws" if "at_clientId b = at_clientId a" using h(2) o a w that unfolding apart_def by blast
    moreover have "map_of (sessions d) (at_clientId b) = Some w" if "w \<noteq> ws" using h(1) w that by (simp add: hydrating_def)
    ultimately show "(if at_clientId b = at_clientId a then Some ws else map_of (sessions d) (at_clientId b)) = Some w"
      using w(3) a by (cases "w = ws") auto
  qed
qed

lemma hydrating_expire:
  assumes h: "hydrating W d"
  shows "hydrating (insert ws W) (expireViewer now i ws d)"
proof -
  have m: "map_of (sessions (expireViewer now i ws d)) k = (if map_of (sessions d) i = Some ws \<and> k = i then None else map_of (sessions d) k)" for k
    by (simp add: expire_fields delete_conv')
  show ?thesis
    unfolding hydrating_def expire_fields(1,2) m
  proof (intro conjI allI impI)
    show "distinct (map fst (sessions (expireViewer now i ws d)))" using h by (simp add: expire_fields hydrating_def distinct_delete)
  next
    fix k w
    assume "(if map_of (sessions d) i = Some ws \<and> k = i then None else map_of (sessions d) k) = Some w"
    then show "\<exists>b. session_attachment d w = Some b \<and> at_clientId b = k" using h by (simp add: hydrating_def split: if_splits)
  next
    fix w b
    assume w: "w \<in> insert ws W" "is_open d w \<and> w \<noteq> ws" "session_attachment d w = Some b"
    then have "map_of (sessions d) (at_clientId b) = Some w" using h by (simp add: hydrating_def)
    then show "(if map_of (sessions d) i = Some ws \<and> at_clientId b = i then None else map_of (sessions d) (at_clientId b)) = Some w"
      using w(2) by auto
  qed
qed

lemma hydrate_socket_step:
  assumes h: "hydrating W d" "apart d" and o: "is_open d ws" and n: "named d"
  shows "hydrating (insert ws W) (hydrate_socket now ws d) \<and> apart (hydrate_socket now ws d) \<and> named (hydrate_socket now ws d) \<and>
     held_times c (hydrate_socket now ws d) \<subseteq> held_times c d \<and> (is_open (hydrate_socket now ws d) w \<longrightarrow> is_open d w) \<and>
     (w \<noteq> ws \<longrightarrow> is_open d w \<longrightarrow> is_open (hydrate_socket now ws d) w)"
proof (cases rule: hydrate_socket_cases [of d ws now])
  case skip
  then show ?thesis using h n by (auto simp: hydrating_def)
next
  case (expire a)
  have "apart (expireViewer now (at_clientId a) ws d)" using h(2) unfolding apart_def expire_fields by blast
  moreover have "named (expireViewer now (at_clientId a) ws d)" using n by (simp add: named_def expire_fields)
  moreover have "held_times c (expireViewer now (at_clientId a) ws d) \<subseteq> held_times c d"
    by (auto simp: held_times_def socket_times_def expire_fields)
  ultimately show ?thesis using hydrating_expire [OF h(1)] by (simp add: expire expire_fields)
next
  case (enrol a v)
  have "apart (enrolled a ws v (clients d) d)" using h(2) by (simp add: apart_def enrolled_fields)
  then show ?thesis using hydrating_enrolled [OF h o enrol(1)] n
    by (simp add: enrol enrolled_fields named_def held_times_def socket_times_def)
next
  case (online a v k)
  let ?d = "enrolled a ws v (AList.update (at_clientId a) k (clients d)) d"
  have "apart ?d" using h(2) by (simp add: apart_def enrolled_fields)
  moreover have "named ?d" using n online(4) by (auto simp: named_def enrolled_fields update_conv' split: if_splits)
  moreover have "cs_lastReportTime k \<in> socket_times (at_clientId a) d" using o online by (auto simp: socket_times_def)
  then have "held_times c ?d \<subseteq> held_times c d"
    by (auto simp: held_times_def socket_times_def enrolled_fields update_conv' split: if_splits)
  ultimately show ?thesis using hydrating_enrolled [OF h o online(1)] by (simp add: online enrolled_fields)
qed

lemma hydrate_sockets:
  assumes "hydrating W d" "apart d" "named d" "distinct xs" "\<And>x. x \<in> set xs \<Longrightarrow> is_open d x"
  shows "hydrating (W \<union> set xs) (fold (hydrate_socket now) xs d) \<and> named (fold (hydrate_socket now) xs d) \<and>
    held_times c (fold (hydrate_socket now) xs d) \<subseteq> held_times c d \<and> (is_open (fold (hydrate_socket now) xs d) w \<longrightarrow> is_open d w)"
  using assms
proof (induction xs arbitrary: W d)
  case (Cons x xs)
  have o: "is_open d x" using Cons.prems(5) by simp
  note step = hydrate_socket_step [OF Cons.prems(1,2) o Cons.prems(3), where now = now]
  have later: "is_open (hydrate_socket now x d) y" if "y \<in> set xs" for y
    using step [of c y] that Cons.prems(4,5) by auto
  have "hydrating (insert x W \<union> set xs) (fold (hydrate_socket now) xs (hydrate_socket now x d)) \<and>
     named (fold (hydrate_socket now) xs (hydrate_socket now x d)) \<and>
     held_times c (fold (hydrate_socket now) xs (hydrate_socket now x d)) \<subseteq> held_times c (hydrate_socket now x d) \<and>
     (is_open (fold (hydrate_socket now) xs (hydrate_socket now x d)) w \<longrightarrow> is_open (hydrate_socket now x d) w)"
    by (rule Cons.IH) (use step Cons.prems(4) later in auto)
  then show ?case using step [of c w] by auto
qed auto

lemma stored_calm:
  assumes n: "named d"
  shows "calm c X d (hydrate_stored now key d)" "named (hydrate_stored now key d)"
proof -
  have "calm c X d (hydrate_stored now key d) \<and> named (hydrate_stored now key d)"
  proof (cases "httpLive d key")
    case None
    then show ?thesis using n by (simp add: hydrate_stored_def calm_refl)
  next
    case (Some k)
    let ?r = "if key \<noteq> cs_uuid k \<or> (cs_transport k \<noteq> Some WsT \<and> cs_expiresAt k = None) then None else controlledClientState (compacted k) (admin d)"
    show ?thesis
    proof (cases ?r)
      case None
      then show ?thesis using Some n by (simp add: hydrate_stored_def calm_forget named_forget)
    next
      case (Some restored)
      let ?d1 = "d\<lparr>lastKnownClients := AList.update (cs_uuid k) restored (lastKnownClients d)\<rparr>"
      let ?Y = "held_times c d \<union> X"
      from Some have key: "key = cs_uuid k" and ctl: "controlledClientState (compacted k) (admin d) = Some restored" by (auto split: if_splits)
      have u: "cs_uuid restored = cs_uuid k" using controlled_uuid [OF ctl] by simp
      have t: "cs_uuid k = c \<Longrightarrow> cs_lastReportTime restored \<in> ?Y"
        using controlled_time [OF ctl] held_entry(3) [of d c k] \<open>httpLive d key = Some k\<close> key by simp
      have one: "calm c ?Y d ?d1" "named ?d1" using t n u by (auto intro!: calm_write named_write)
      have two: "calm c ?Y ?d1 (?d1\<lparr>clients := AList.update (cs_uuid k) restored (clients ?d1)\<rparr>)"
        "named (?d1\<lparr>clients := AList.update (cs_uuid k) restored (clients ?d1)\<rparr>)"
        by (rule calm_write, use t in simp) (rule named_write(1) [OF one(2) u])
      have "calm c X d (?d1\<lparr>clients := AList.update (cs_uuid k) restored (clients ?d1)\<rparr>)" "calm c X d ?d1"
        using calm_absorb [OF calm_trans [OF one(1) two(1)]] calm_absorb [OF one(1)] by simp_all
      then show ?thesis using Some one(2) two(2) \<open>httpLive d key = Some k\<close>
        unfolding hydrate_stored_def by (simp only: option.case Let_def if_split) simp
    qed
  qed
  then show "calm c X d (hydrate_stored now key d)" "named (hydrate_stored now key d)" by simp_all
qed

lemma reconcile_calm:
  assumes n: "named d" and uk: "cs_uuid k = u" and t: "u = c \<Longrightarrow> cs_lastReportTime k \<in> X" and held: "held_times c d \<subseteq> X"
  shows "calm c X d (reconcile (u, k) d)" "named (reconcile (u, k) d)"
proof -
  have "calm c X d (reconcile (u, k) d) \<and> named (reconcile (u, k) d)"
  proof (cases "controlledClientState k (admin d)")
    case None
    then show ?thesis using n by (simp add: reconcile_def calm_forget named_forget)
  next
    case (Some e)
    define retained where "retained = map_of (lastKnownClients d) u"
    define cur where "cur = (case retained of
        Some r \<Rightarrow> if cs_lastReportTime e < cs_lastReportTime r
                  then e\<lparr>cs_lastReport := cs_lastReport r, cs_lastReportTime := cs_lastReportTime r\<rparr> else e | None \<Rightarrow> e)"
    let ?d1 = "d\<lparr>clients := AList.update u cur (clients d)\<rparr>"
    let ?d2 = "persistClientSnapshot cur ?d1"
    let ?d3 = "?d2\<lparr>lastKnownClients := AList.update u cur (lastKnownClients ?d2)\<rparr>"
    have eq: "reconcile (u, k) d = (if (case retained of None \<Rightarrow> True | Some r \<Rightarrow> cs_lastReportTime r < cs_lastReportTime cur) then ?d3 else ?d1)"
      unfolding reconcile_def prod.case Some option.case Let_def retained_def [symmetric]
      unfolding cur_def [symmetric] persistClientSnapshot_def by simp
    have u: "cs_uuid cur = u" using controlled_uuid [OF Some] uk by (simp add: cur_def split: option.split)
    have tc: "u = c \<Longrightarrow> cs_lastReportTime cur \<in> X"
      using t controlled_time [OF Some] held held_entry(2) [of d c] by (auto simp: cur_def retained_def split: option.split)
    have a: "calm c X d ?d1" "named ?d1" using tc n u by (auto intro!: calm_write named_write)
    have b: "calm c X ?d1 ?d2" "named ?d2" by (rule calm_persist, use tc u in simp) (rule named_persist [OF a(2)])
    have e: "calm c X ?d2 ?d3" by (rule calm_write) (use tc in simp)
    have "named ?d3" by (rule named_write [OF b(2) u])
    then show ?thesis using a b e unfolding eq by (simp add: calm_trans [OF a(1) calm_trans [OF b(1) e]])
  qed
  then show "calm c X d (reconcile (u, k) d)" "named (reconcile (u, k) d)" by simp_all
qed

definition sound :: "live_do \<Rightarrow> bool" where
  "sound d \<longleftrightarrow> session_inv d \<and> named d"

lemma reconcile_all:
  assumes "sound d" "held_times c d \<subseteq> X" "\<And>u k. (u, k) \<in> set es \<Longrightarrow> cs_uuid k = u \<and> (u = c \<longrightarrow> cs_lastReportTime k \<in> X)"
  shows "sound (fold reconcile es d) \<and> held_times c (fold reconcile es d) \<subseteq> X"
  using assms
proof (induction es arbitrary: d)
  case (Cons e es)
  obtain u k where e: "e = (u, k)" by force
  have p: "cs_uuid k = u" "u = c \<Longrightarrow> cs_lastReportTime k \<in> X" using Cons.prems(3) [of u k] by (auto simp: e)
  note step = reconcile_calm [OF _ p(1) p(2) Cons.prems(2), unfolded e [symmetric]]
  have "sound (reconcile e d) \<and> held_times c (reconcile e d) \<subseteq> X"
    using step Cons.prems(1,2) by (auto simp: sound_def calm_def)
  then show ?case using Cons.IH [of "reconcile e d"] Cons.prems(3) by auto
qed simp

lemma stored_all:
  assumes "sound d"
  shows "sound (fold (hydrate_stored now) ks d) \<and> held_times c (fold (hydrate_stored now) ks d) \<subseteq> held_times c d"
  using assms
proof (induction ks arbitrary: d)
  case (Cons k ks)
  have "calm c {} d (hydrate_stored now k d)" "named (hydrate_stored now k d)"
    using stored_calm(1) [of d c "{}" now k] stored_calm(2) [of d now k] Cons.prems by (simp_all add: sound_def)
  then have "sound (hydrate_stored now k d)" "held_times c (hydrate_stored now k d) \<subseteq> held_times c d"
    using Cons.prems by (auto simp: sound_def calm_def)
  then show ?case using Cons.IH [of "hydrate_stored now k d"] by auto
qed simp

lemma hydrate_distinct:
  "distinct (map fst (clients d)) \<Longrightarrow> distinct (map fst (clients (fold (hydrate_socket now) accepted d)))"
  "distinct (map fst (clients d)) \<Longrightarrow> distinct (map fst (clients (fold (hydrate_stored now) stored d)))"
proof -
  have "distinct (map fst (clients (hydrate_socket now ws d)))" if "distinct (map fst (clients d))" for ws and d :: live_do
    by (cases rule: hydrate_socket_cases [of d ws now]) (use that in \<open>simp_all add: expire_fields enrolled_fields distinct_update\<close>)
  then show "distinct (map fst (clients d)) \<Longrightarrow> distinct (map fst (clients (fold (hydrate_socket now) accepted d)))"
    by (induction accepted arbitrary: d) simp_all
  have "distinct (map fst (clients (hydrate_stored now key d)))" if "distinct (map fst (clients d))" for key and d :: live_do
    using that by (auto simp: hydrate_stored_def Let_def distinct_update split: option.split)
  then show "distinct (map fst (clients d)) \<Longrightarrow> distinct (map fst (clients (fold (hydrate_stored now) stored d)))"
    by (induction stored arbitrary: d) simp_all
qed

lemma restart_held:
  assumes s: "sound (live r)" and ok: "distinct accepted" "set accepted = {ws. is_open (live r) ws}"
  shows "sound (live (restart now accepted stored r)) \<and> held_times c (live (restart now accepted stored r)) \<subseteq> held_times c (live r)"
proof -
  let ?d0 = "emptied (live r)"
  define d1 where "d1 = fold (hydrate_socket now) accepted ?d0"
  have same: "is_open ?d0 = is_open (live r)" "session_attachment ?d0 = session_attachment (live r)"
    by (auto simp: emptied_def is_open_def session_attachment_def fun_eq_iff)
  have ap: "apart ?d0" using s sess_apart [of "live r"] by (simp add: sound_def apart_def same)
  have h0: "hydrating {} ?d0" by (simp add: hydrating_def emptied_def)
  have n0: "named ?d0" using s by (simp add: sound_def named_def emptied_def)
  have fields: "clients ?d0 = []" "lastKnownClients ?d0 = []" "httpLive ?d0 = httpLive (live r)" by (simp_all add: emptied_def)
  have held0: "held_times c ?d0 \<subseteq> held_times c (live r)" unfolding held_times_def socket_times_def same fields by auto
  have all: "is_open ?d0 x" if "x \<in> set accepted" for x using that ok by (simp add: same)
  note socks = hydrate_sockets [OF h0 ap n0 ok(1) all, where now = now, folded d1_def]
  have "hydrating (set accepted) d1" "\<And>w. is_open d1 w \<Longrightarrow> w \<in> set accepted" using socks ok(2) by (simp_all add: same)
  then have "session_inv d1" unfolding hydrating_def session_inv_def by blast
  then have s1: "sound d1" "held_times c d1 \<subseteq> held_times c (live r)" using socks [where c = c] held0 by (auto simp: sound_def)
  define d2 where "d2 = fold (hydrate_stored now) stored (d1\<lparr>admin := fst (readAdminClientsSnapshot (admin d1))\<rparr>)"
  have "sound (d1\<lparr>admin := a\<rparr>) \<and> held_times c (d1\<lparr>admin := a\<rparr>) = held_times c d1" for a
    using s1(1) sess_same [of "d1\<lparr>admin := a\<rparr>" d1 c] by (simp add: sound_def named_simps held_times_def)
  then have s2: "sound d2" "held_times c d2 \<subseteq> held_times c (live r)"
    using stored_all [of "d1\<lparr>admin := fst (readAdminClientsSnapshot (admin d1))\<rparr>" now stored c] s1 by (auto simp: d2_def)
  have d1: "distinct (map fst (clients d1))" unfolding d1_def by (rule hydrate_distinct) (simp add: fields)
  have dist: "distinct (map fst (clients d2))" unfolding d2_def by (rule hydrate_distinct) (simp add: d1)
  have "cs_uuid k = u \<and> (u = c \<longrightarrow> cs_lastReportTime k \<in> held_times c (live r))" if "(u, k) \<in> set (clients d2)" for u k
    using that dist s2 named_entry(1) [of d2 u k] held_entry(1) [of d2 c k] by (auto simp: sound_def)
  then have s3: "sound (fold reconcile (clients d2) d2)" "held_times c (fold reconcile (clients d2) d2) \<subseteq> held_times c (live r)"
    using reconcile_all [OF s2] by blast+
  have "calm c {} d (scheduleExpiryAlarm now d)" "named (scheduleExpiryAlarm now d) = named d" for d
    by (rule calm_core) (simp add: named_simps)
  then have "sound (scheduleExpiryAlarm now (fold reconcile (clients d2) d2)) \<and>
      held_times c (scheduleExpiryAlarm now (fold reconcile (clients d2) d2)) \<subseteq> held_times c (live r)"
    using s3 unfolding sound_def calm_def by blast
  then show ?thesis
    using s3 unfolding restart_def hydrateHttpClients_def hydrateSessionsFromAcceptedWebSockets_def Let_def d1_def [symmetric] d2_def [symmetric]
    by simp
qed

subsection \<open>Reports under way\<close>

text \<open>
  The reports of a node in its queue: each was reserved no later than the present versions, and one
  that is still current has a time that is allowed.
\<close>

definition pending_time :: "lifecycle \<Rightarrow> phase \<Rightarrow> bool" where
  "pending_time l p = (case p of
       Written up nxt \<Rightarrow> cs_uuid nxt = rl_clientId l \<and> cs_lastReportTime nxt = rl_receivedAt l
     | Confirming up nxt \<Rightarrow> cs_uuid nxt = rl_clientId l \<and> cs_lastReportTime nxt = rl_receivedAt l
     | _ \<Rightarrow> True)"

definition queued_ok :: "string \<Rightarrow> rat set \<Rightarrow> report_do \<Rightarrow> report_run \<Rightarrow> bool" where
  "queued_ok c T r run \<longleftrightarrow> (let l = run_life run in
     rl_clientId l = c \<and> rl_removalVersion l \<le> removal_version r c \<and> rl_restoreVersion l \<le> restoreVersion r \<and>
     (isReportCurrent l r \<longrightarrow> rl_receivedAt l \<in> T))"

definition queue_ok :: "string \<Rightarrow> rat set \<Rightarrow> report_do \<Rightarrow> bool" where
  "queue_ok c T r \<longleftrightarrow> list_all (queued_ok c T r) (clientReportWrites r c)"

definition of_node :: "string \<Rightarrow> report_run \<Rightarrow> bool" where
  "of_node k run \<longleftrightarrow> rl_clientId (run_life run) = k \<and> pending_time (run_life run) (run_phase run)"

definition filed :: "report_do \<Rightarrow> bool" where
  "filed r \<longleftrightarrow> (\<forall>k. list_all (of_node k) (clientReportWrites r k))"

lemma filed_queue: "filed r \<Longrightarrow> clientReportWrites r k = q \<Longrightarrow> list_all (of_node k) q"
  by (auto simp: filed_def)

lemma filed_update: "filed r \<Longrightarrow> list_all (of_node k) q \<Longrightarrow> filed (r\<lparr>clientReportWrites := (clientReportWrites r)(k := q)\<rparr>)"
  by (simp add: filed_def)

definition flow_ok :: "string \<Rightarrow> rat set \<Rightarrow> report_do \<Rightarrow> bool" where
  "flow_ok c T r \<longleftrightarrow> sound (live r) \<and> held_times c (live r) \<subseteq> T \<and> queue_ok c T r \<and> filed r"

lemma current_live: "isReportCurrent l (r\<lparr>live := d\<rparr>) = isReportCurrent l r" "removal_version (r\<lparr>live := d\<rparr>) k = removal_version r k"
  "isReportCurrent l (r\<lparr>clientReportWrites := q\<rparr>) = isReportCurrent l r" "removal_version (r\<lparr>clientReportWrites := q\<rparr>) k = removal_version r k"
  by (simp_all add: isReportCurrent_def removal_version_def)

lemma queued_ok_live: "queued_ok c T (r\<lparr>live := d\<rparr>) run = queued_ok c T r run" "queued_ok c T (r\<lparr>clientReportWrites := q\<rparr>) run = queued_ok c T r run"
  by (simp_all add: queued_ok_def current_live)

lemma flow_live:
  assumes "flow_ok c T r" "sound d" "held_times c d \<subseteq> T"
  shows "flow_ok c T (r\<lparr>live := d\<rparr>)"
proof -
  have "queued_ok c T (r\<lparr>live := d\<rparr>) = queued_ok c T r" by (simp add: queued_ok_live fun_eq_iff)
  then show ?thesis using assms by (simp add: flow_ok_def queue_ok_def filed_def)
qed

lemma flow_calm:
  assumes "flow_ok c T r" "calm c T (live r) (f (live r))" "named (f (live r))"
  shows "flow_ok c T (with_live f r)"
  unfolding with_live_def by (rule flow_live [OF assms(1)]) (use assms in \<open>auto simp: flow_ok_def sound_def calm_def\<close>)

lemma flow_phase:
  assumes f: "flow_ok c T r" and q: "clientReportWrites r k = run # runs" and p: "pending_time (run_life run) p"
  shows "flow_ok c T (set_phase k p r)"
proof -
  let ?q = "(clientReportWrites r)(k := run\<lparr>run_phase := p\<rparr> # runs)"
  have s: "set_phase k p r = r\<lparr>clientReportWrites := ?q\<rparr>" by (simp add: set_phase_def q)
  have "queued_ok c T (r\<lparr>clientReportWrites := ?q\<rparr>) = queued_ok c T r" by (simp add: queued_ok_live fun_eq_iff)
  moreover have "queued_ok c T r (run\<lparr>run_phase := p\<rparr>) = queued_ok c T r run" by (simp add: queued_ok_def)
  moreover have "filed (r\<lparr>clientReportWrites := ?q\<rparr>)"
    by (rule filed_update) (use f filed_queue [OF _ q] p in \<open>auto simp: flow_ok_def of_node_def\<close>)
  ultimately show ?thesis using f q unfolding s flow_ok_def queue_ok_def by auto
qed

lemma flow_head:
  assumes "flow_ok c T r" "clientReportWrites r k = run # runs"
  shows "rl_clientId (run_life run) = k" "k = c \<Longrightarrow> isReportCurrent (run_life run) r \<Longrightarrow> rl_receivedAt (run_life run) \<in> T"
    "pending_time (run_life run) (run_phase run)"
proof -
  show "rl_clientId (run_life run) = k" "pending_time (run_life run) (run_phase run)"
    using filed_queue [OF _ assms(2)] assms(1) by (simp_all add: flow_ok_def of_node_def)
  show "k = c \<Longrightarrow> isReportCurrent (run_life run) r \<Longrightarrow> rl_receivedAt (run_life run) \<in> T"
    using assms by (auto simp: flow_ok_def queue_ok_def queued_ok_def Let_def)
qed

lemma flow_reserve: "flow_ok c T r \<Longrightarrow> (k = c \<Longrightarrow> now \<in> T) \<Longrightarrow> flow_ok c T (reserve_report now k r)"
proof -
  assume f: "flow_ok c T r" and t: "k = c \<Longrightarrow> now \<in> T"
  let ?q = "(clientReportWrites r)(k := clientReportWrites r k @
        [\<lparr>run_life = \<lparr>rl_clientId = k, rl_receivedAt = now, rl_removalVersion = removal_version r k, rl_restoreVersion = restoreVersion r\<rparr>,
          run_phase = Reserved\<rparr>])"
  have "queued_ok c T (r\<lparr>clientReportWrites := ?q\<rparr>) = queued_ok c T r" by (simp add: queued_ok_live fun_eq_iff)
  then show "flow_ok c T (reserve_report now k r)"
    using f t unfolding reserve_report_def flow_ok_def queue_ok_def by (auto simp: queued_ok_def pending_time_def filed_def of_node_def)
qed

lemma flow_finish:
  assumes f: "flow_ok c T r"
  shows "flow_ok c T (finish_report k r)"
proof (cases "clientReportWrites r k" rule: list.exhaust)
  case Nil
  then show ?thesis using f by (simp add: finish_report_def)
next
  case (Cons run runs)
  have pop: "flow_ok c T (r\<lparr>clientReportWrites := (clientReportWrites r)(k := runs)\<rparr>)"
  proof -
    have "queued_ok c T (r\<lparr>clientReportWrites := (clientReportWrites r)(k := runs)\<rparr>) = queued_ok c T r" by (simp add: queued_ok_live fun_eq_iff)
    moreover have "filed (r\<lparr>clientReportWrites := (clientReportWrites r)(k := runs)\<rparr>)"
      by (rule filed_update) (use f filed_queue [OF _ Cons] in \<open>simp_all add: flow_ok_def\<close>)
    ultimately show ?thesis using f Cons unfolding flow_ok_def queue_ok_def by auto
  qed
  show ?thesis
  proof (cases runs)
    case (Cons run2 runs2)
    then show ?thesis using pop \<open>clientReportWrites r k = run # runs\<close> by (simp add: finish_report_def)
  next
    case Nil
    let ?r = "r\<lparr>clientReportWrites := (clientReportWrites r)(k := []), clientRemovalVersions := (clientRemovalVersions r)(k := None)\<rparr>"
    have "queued_ok c T ?r x = queued_ok c T r x" if "c \<noteq> k" for x
      using that by (cases "rl_clientId (run_life x) = c") (auto simp: queued_ok_def isReportCurrent_def removal_version_def Let_def)
    then have "queue_ok c T ?r" using f by (cases "c = k") (auto simp: flow_ok_def queue_ok_def list_all_iff)
    then show ?thesis using f Nil \<open>clientReportWrites r k = run # runs\<close> by (simp add: finish_report_def flow_ok_def filed_def)
  qed
qed

lemma resolve_core: "same_core d (fst (resolveReportClientControl k name hidden d))"
  by (simp add: resolveReportClientControl_def split_beta Let_def same_core_def)

lemma flow_settle: "flow_ok c T r \<Longrightarrow> flow_ok c T (set_phase k Settled r)"
proof (cases "clientReportWrites r k")
  case (Cons run runs)
  then show "flow_ok c T r \<Longrightarrow> ?thesis" using flow_phase [of c T r k run runs Settled] by (simp add: pending_time_def)
qed (simp add: set_phase_def)

lemma flow_retire:
  assumes f: "flow_ok c T r"
  shows "flow_ok c T (with_live (retire k b) r)"
proof (rule flow_calm [OF f])
  have n: "named (live r)" using f by (simp add: flow_ok_def sound_def)
  show "calm c T (live r) (retire k b (live r))" by (rule calm_retire) (rule named_entry(2) [OF n])
  show "named (retire k b (live r))" by (rule named_retire [OF n])
qed

lemma flow_resolved:
  assumes f: "flow_ok c T r"
  shows "flow_ok c T (r\<lparr>live := fst (resolveReportClientControl k name hidden (live r))\<rparr>)"
  using flow_calm [OF f, of "\<lambda>d. fst (resolveReportClientControl k name hidden d)"] same_core_calm [OF resolve_core]
    named_core [OF resolve_core] f by (simp add: with_live_def flow_ok_def sound_def)

lemma flow_write:
  assumes f: "flow_ok c T r" and q: "clientReportWrites r k = run # runs" and cur: "isReportCurrent (run_life run) r"
    and u: "cs_uuid nxt = k" and t: "cs_lastReportTime nxt = rl_receivedAt (run_life run)"
  shows "flow_ok c T (set_phase k (Written up nxt) (with_live (persistClientSnapshot nxt) r))"
    "flow_ok c T (set_phase k Shown (with_live (show_report now up nxt) r))"
proof -
  note head = flow_head [OF f q]
  have n: "named (live r)" using f by (simp add: flow_ok_def sound_def)
  have T: "cs_uuid nxt = c \<Longrightarrow> cs_lastReportTime nxt \<in> T" using head(2) cur u t by simp
  have p: "flow_ok c T (with_live (persistClientSnapshot nxt) r)" by (rule flow_calm [OF f]) (auto intro: calm_persist T named_persist n)
  have w: "clientReportWrites (with_live (persistClientSnapshot nxt) r) k = run # runs" by (simp add: with_live_def q)
  show "flow_ok c T (set_phase k (Written up nxt) (with_live (persistClientSnapshot nxt) r))"
    by (rule flow_phase [OF p w]) (use u t head(1) in \<open>simp add: pending_time_def\<close>)
  have s: "flow_ok c T (with_live (show_report now up nxt) r)" by (rule flow_calm [OF f]) (auto intro: calm_show T named_show n)
  have w': "clientReportWrites (with_live (show_report now up nxt) r) k = run # runs" by (simp add: with_live_def q)
  show "flow_ok c T (set_phase k Shown (with_live (show_report now up nxt) r))"
    by (rule flow_phase [OF s w']) (simp add: pending_time_def)
qed

lemma flow_resolve:
  assumes f: "flow_ok c T r" and q: "clientReportWrites r k = run # runs"
  shows "flow_ok c T (resolve_report (run_life run) up report r)"
proof -
  let ?l = "run_life run"
  obtain d ctl where res: "resolveReportClientControl k (up_name up) (up_hidden up) (live r) = (d, ctl)" by force
  note head = flow_head [OF f q]
  have f1: "flow_ok c T (r\<lparr>live := d\<rparr>)" using flow_resolved [OF f, of k "up_name up" "up_hidden up"] by (simp add: res)
  have q1: "clientReportWrites (r\<lparr>live := d\<rparr>) k = run # runs" by (simp add: q)
  show ?thesis
  proof (cases ctl)
    case None
    then show ?thesis using flow_settle [OF f1] by (simp add: resolve_report_def head(1) res)
  next
    case (Some nh)
    show ?thesis
    proof (cases "isReportCurrent ?l r")
      case True
      have c: "cs_uuid (first_state ?l up report nh) = k" "cs_lastReportTime (first_state ?l up report nh) = rl_receivedAt ?l"
        by (simp_all add: first_state_def split_beta head(1))
      show ?thesis using flow_write(1) [OF f1 q1 _ c, of up] True Some
        by (simp add: resolve_report_def head(1) res current_live with_live_def Let_def)
    qed (use flow_settle [OF f1] Some in \<open>simp add: resolve_report_def head(1) res\<close>)
  qed
qed

lemma flow_confirm:
  assumes f: "flow_ok c T r" and q: "clientReportWrites r k = run # runs"
    and u: "cs_uuid nxt = k" "cs_lastReportTime nxt = rl_receivedAt (run_life run)"
  shows "flow_ok c T (confirm_report now (run_life run) up nxt r)"
proof -
  let ?l = "run_life run"
  obtain d ctl where res: "resolveReportClientControl k (cs_name nxt) (cs_hidden nxt) (live r) = (d, ctl)" by force
  note head = flow_head [OF f q]
  let ?r = "r\<lparr>live := d\<rparr>"
  have f1: "flow_ok c T ?r" using flow_resolved [OF f, of k "cs_name nxt" "cs_hidden nxt"] by (simp add: res)
  have q1: "clientReportWrites ?r k = run # runs" by (simp add: q)
  note gone = flow_settle [OF flow_retire [OF f1]]
  show ?thesis
  proof (cases ctl)
    case None
    then show ?thesis using gone by (simp add: confirm_report_def head(1) res Let_def)
  next
    case (Some nh)
    obtain name hidden where nh: "nh = (name, hidden)" by force
    show ?thesis
    proof (cases "isReportCurrent ?l ?r")
      case True
      note again = flow_write(1) [OF f1 q1 True, of "nxt\<lparr>cs_name := name, cs_hidden := hidden\<rparr>" up]
      note shown = flow_write(2) [OF f1 q1 True u, of now up]
      show ?thesis using again shown u True Some by (auto simp: confirm_report_def head(1) res nh Let_def)
    qed (use gone Some in \<open>simp add: confirm_report_def head(1) res nh Let_def\<close>)
  qed
qed

lemma flow_step:
  assumes f: "flow_ok c T r"
  shows "flow_ok c T (advance_report now w k r)"
proof (cases "clientReportWrites r k")
  case Nil
  then show ?thesis using f by (simp add: advance_report_def)
next
  case (Cons run runs)
  let ?l = "run_life run"
  note head = flow_head [OF f Cons]
  have phase: "flow_ok c T (set_phase k p r)" if "pending_time ?l p" for p by (rule flow_phase [OF f Cons that])
  note settle = flow_settle [OF f, of k]
  show ?thesis
  proof (cases "run_phase run")
    case Reserved
    then show ?thesis using phase [of Working] settle Cons by (simp add: advance_report_def pending_time_def)
  next
    case Working
    have "flow_ok c T (enter_report ?l up r)" for up
      using phase settle by (auto simp: enter_report_def Let_def head(1) pending_time_def)
    then show ?thesis using Working settle Cons by (simp add: advance_report_def split: work.split)
  next
    case (Resolving up report)
    then show ?thesis using flow_resolve [OF f Cons] Cons by (simp add: advance_report_def)
  next
    case (Written up nxt)
    have "flow_ok c T (check_written ?l up nxt r)"
      using phase [of "Confirming up nxt"] head flow_settle [OF flow_retire [OF f]] Written
      by (auto simp: check_written_def pending_time_def)
    then show ?thesis using Written Cons by (simp add: advance_report_def)
  next
    case (Confirming up nxt)
    have "cs_uuid nxt = k" "cs_lastReportTime nxt = rl_receivedAt ?l" using head Confirming by (simp_all add: pending_time_def)
    then show ?thesis using flow_confirm [OF f Cons] Confirming Cons by (simp add: advance_report_def)
  next
    case Shown
    then show ?thesis using settle Cons by (simp add: advance_report_def)
  next
    case Settled
    then show ?thesis using flow_finish [OF f] Cons by (simp add: advance_report_def)
  qed
qed

subsection \<open>Every event\<close>

lemma flow_mono: "flow_ok c T r \<Longrightarrow> T \<subseteq> T' \<Longrightarrow> flow_ok c T' r"
  by (auto simp: flow_ok_def queue_ok_def queued_ok_def list_all_iff Let_def)

lemma flow_sound: "flow_ok c T r \<Longrightarrow> session_inv (live r)" "flow_ok c T r \<Longrightarrow> named (live r)" "flow_ok c T r \<Longrightarrow> held_times c (live r) \<subseteq> T"
  by (simp_all add: flow_ok_def sound_def)

lemma invalidate_version:
  "removal_version (invalidate_reports q r) k = (if removal_target q = Some k \<and> clientReportWrites r k \<noteq> [] then removal_version r k + 1 else removal_version r k)"
  by (simp add: invalidate_reports_def removal_version_def split: option.split)

lemma invalidate_fields: "live (invalidate_reports q r) = live r" "restoreVersion (invalidate_reports q r) = restoreVersion r"
  "clientReportWrites (invalidate_reports q r) = clientReportWrites r"
  by (simp_all add: invalidate_reports_def split: option.split)

lemma flow_invalidate:
  assumes f: "flow_ok c T r"
  shows "flow_ok c T (invalidate_reports q r)"
proof -
  have "queued_ok c T (invalidate_reports q r) run" if "queued_ok c T r run" for run
    using that by (auto simp: queued_ok_def Let_def isReportCurrent_def invalidate_version invalidate_fields split: if_splits)
  then show ?thesis using f by (auto simp: flow_ok_def queue_ok_def filed_def invalidate_fields list_all_iff)
qed

lemma restore_cases:
  obtains (kept) a resp where "restoreClients now accepted request d = (d\<lparr>admin := a\<rparr>, resp)" "fst resp \<noteq> 200"
  | (restored) a restored updatedAt resp where "restoreClients now accepted request d = (restore_state now accepted restored updatedAt (d\<lparr>admin := a\<rparr>), resp)" "fst resp = 200"
proof -
  have err: "fst (json_error n m) = n" for n m by (simp add: json_error_def)
  have bad: "Inl resp = restored_list body \<Longrightarrow> fst resp \<noteq> 200" for resp body
    by (auto simp: restored_list_def err Let_def split: jsval.splits if_splits)
  have parse: "Inl resp = parseJsonRequestWithLimit q n \<Longrightarrow> fst resp \<noteq> 200" for resp q n
    by (auto simp: parseJsonRequestWithLimit_def json_error_def Let_def split: option.splits jsval.splits if_splits)
  have same: "restoreClients now accepted request d = (d, resp) \<Longrightarrow> fst resp \<noteq> 200 \<Longrightarrow> thesis" for resp
    using kept [of "admin d" resp] by simp
  show ?thesis
  proof (cases "parseJsonRequestWithLimit request MAX_BACKUP_BYTES")
    case (Inl resp)
    then show ?thesis using same [of resp] parse [OF Inl [symmetric]] by (simp add: restoreClients_def)
  next
    case body: (Inr body)
    show ?thesis
    proof (cases "\<exists>x. js_get body ''expected_version'' = Num x \<and> \<not> (\<not> js_isSafeInteger x \<or> js_lt x (Fin 0))")
      case False
      then show ?thesis using same [of "json_error 400 ''A restored snapshot requires its pre-read version''"] body
        by (auto simp: restoreClients_def err split: jsval.splits)
    next
      case True
      then obtain x where x: "js_get body ''expected_version'' = Num x" "\<not> (\<not> js_isSafeInteger x \<or> js_lt x (Fin 0))" by blast
      obtain a previous where pre: "readAdminClientsSnapshot (admin d) = (a, previous)" by force
      let ?v = "case previous of Some p \<Rightarrow> as_updatedAt p | None \<Rightarrow> 0"
      show ?thesis
      proof (cases "restored_list body")
        case (Inl resp)
        have "restoreClients now accepted request d = (d, resp)"
          unfolding restoreClients_def body sum.case x(1) jsval.case if_not_P [OF x(2)] Inl by (rule refl)
        then show ?thesis using same bad [OF Inl [symmetric]] by blast
      next
        case (Inr restored')
        note eq = restoreClients_def [of now accepted request d, unfolded body sum.case x(1) jsval.case if_not_P [OF x(2)] Inr pre prod.case Let_def]
        show ?thesis
        proof (cases "x = Fin ?v")
          case True
          then show ?thesis using restored eq by simp
        next
          case False
          then show ?thesis using kept eq by simp
        qed
      qed
    qed
  qed
qed

lemma restore_flow:
  assumes f: "flow_ok c T r" and acc: "list_all (is_open (live r)) accepted"
  shows "flow_ok c T (restore_nodes now accepted request r)"
    "fst (snd (restoreClients now accepted request (live r))) = 200 \<Longrightarrow> flow_ok c {} (restore_nodes now accepted request r)"
proof -
  have both: "flow_ok c T (restore_nodes now accepted request r) \<and>
    (fst (snd (restoreClients now accepted request (live r))) = 200 \<longrightarrow> flow_ok c {} (restore_nodes now accepted request r))"
  proof (cases rule: restore_cases [of now accepted request "live r"])
    case (kept a resp)
    have "flow_ok c T (with_live (\<lambda>d. d\<lparr>admin := a\<rparr>) r)"
      by (rule flow_calm [OF f], rule calm_core(7)) (simp add: named_simps flow_sound [OF f])
    then show ?thesis using kept by (cases resp) (simp add: restore_nodes_def with_live_def)
  next
    case (restored a cs updatedAt resp)
    let ?d = "restore_state now accepted cs updatedAt ((live r)\<lparr>admin := a\<rparr>)"
    let ?r = "r\<lparr>live := ?d, restoreVersion := restoreVersion r + 1\<rparr>"
    have inv: "session_inv ((live r)\<lparr>admin := a\<rparr>)" using sess_same [of "(live r)\<lparr>admin := a\<rparr>" "live r" c] flow_sound [OF f] by simp
    have acc': "list_all (is_open ((live r)\<lparr>admin := a\<rparr>)) accepted" using acc by (simp add: list_all_iff is_open_def)
    have h: "held_times k ?d = {}" for k by (rule restore_nothing [OF inv acc'])
    have "clients ?d = [] \<or> True" by simp
    have "named ?d" using h unfolding named_def held_times_def by fastforce
    then have s: "sound ?d" using restore_nothing(1) [OF inv acc'] by (simp add: sound_def)
    have "queued_ok c {} ?r run" if "queued_ok c T r run" for run
      using that by (auto simp: queued_ok_def Let_def isReportCurrent_def removal_version_def)
    then have "flow_ok c {} ?r" using f s h by (auto simp: flow_ok_def queue_ok_def filed_def list_all_iff)
    moreover have "restore_nodes now accepted request r = ?r" using restored by (cases resp) (simp add: restore_nodes_def)
    ultimately show ?thesis using flow_mono [of c "{}" ?r T] by simp
  qed
  then show "flow_ok c T (restore_nodes now accepted request r)"
    "fst (snd (restoreClients now accepted request (live r))) = 200 \<Longrightarrow> flow_ok c {} (restore_nodes now accepted request r)" by simp_all
qed

lemma flow_session:
  assumes f: "flow_ok c T r" and ok: "report_event_ok (SessionE e) r"
  shows "flow_ok c T (with_live (sess_step e) r)"
proof (rule flow_calm [OF f])
  show "named (sess_step e (live r))" by (rule named_session_event [OF flow_sound(2) [OF f]])
  show "calm c T (live r) (sess_step e (live r))"
  proof (cases e)
    case (Upgrade now ttl rid ws q)
    then show ?thesis using calm_connect [OF _ _ _ flow_sound(1) [OF f]] ok by simp
  qed (simp_all add: calm_socket_close calm_sweep)
qed

lemma flow_event:
  assumes f: "flow_ok c T r" and ok: "report_event_ok e r" and t: "\<And>now. e = ReportE now c \<Longrightarrow> now \<in> T"
  shows "flow_ok c T (report_event_step dp e r)"
proof (cases e)
  case (ReportE now k)
  then show ?thesis using flow_reserve [OF f] t by simp
next
  case (StepE now w k)
  then show ?thesis using flow_step [OF f] by simp
next
  case (RemoveE now request)
  have g: "flow_ok c T (invalidate_reports request r)" by (rule flow_invalidate [OF f])
  show ?thesis unfolding RemoveE report_event_step.simps remove_node_def
    by (rule flow_calm [OF g], rule calm_remove, rule named_remove [OF flow_sound(2) [OF g]])
next
  case (NodeSyncE now request)
  have g: "flow_ok c T (case sync_removal request (live r) of Some q \<Rightarrow> invalidate_reports q r | None \<Rightarrow> r)"
    using f flow_invalidate [OF f] by (simp split: option.split)
  show ?thesis unfolding NodeSyncE report_event_step.simps sync_node_def
    by (rule flow_calm [OF g], rule calm_sync, rule named_sync [OF flow_sound(2) [OF g]])
next
  case (NodeMetaE now request)
  show ?thesis unfolding NodeMetaE report_event_step.simps
    by (rule flow_calm [OF f], rule calm_meta, rule named_meta [OF flow_sound(2) [OF f]])
next
  case (CacheE now request)
  show ?thesis unfolding CacheE report_event_step.simps
    by (rule flow_calm [OF f], rule calm_core(7)) (simp add: named_simps flow_sound [OF f])
next
  case (RestoreE now accepted request)
  then show ?thesis using restore_flow(1) [OF f] ok by simp
next
  case (SessionE se)
  then show ?thesis using flow_session [OF f] ok by simp
next
  case (RegionE now k patch)
  show ?thesis unfolding RegionE report_event_step.simps
    by (rule flow_calm [OF f], rule calm_infer, rule named_infer [OF flow_sound(2) [OF f]])
next
  case (RestartE now accepted stored)
  have "sound (live r)" using f by (simp add: flow_ok_def)
  then have "sound (live (restart now accepted stored r)) \<and> held_times c (live (restart now accepted stored r)) \<subseteq> held_times c (live r)"
    using restart_held ok RestartE by simp
  then show ?thesis using f unfolding RestartE report_event_step.simps
    by (auto simp: flow_ok_def queue_ok_def filed_def restart_def)
qed

lemma flow_withdrawn:
  assumes f: "flow_ok c T r" and ok: "report_event_ok e r" and w: "withdraws c e r"
  shows "flow_ok c {} (report_event_step dp e r)"
proof (cases e)
  case (RemoveE now request)
  have target: "removal_target request = Some c" using w RemoveE by simp
  let ?r = "invalidate_reports request r"
  have "queued_ok c {} ?r run" if "queued_ok c T r run" "clientReportWrites r c \<noteq> []" for run
    using that target by (auto simp: queued_ok_def Let_def isReportCurrent_def invalidate_version invalidate_fields)
  moreover have "list_all (queued_ok c T r) (clientReportWrites r c)" using f by (simp add: flow_ok_def queue_ok_def)
  ultimately have q: "queue_ok c {} ?r" unfolding queue_ok_def invalidate_fields list_all_iff by fastforce
  have d: "held_times c (fst (removeClient now request (live r))) = {}" by (rule remove_nothing [OF target flow_sound(1) [OF f]])
  have s: "sound (fst (removeClient now request (live r)))"
    using calm_remove [of c T "live r" now request] named_remove [OF flow_sound(2) [OF f]] flow_sound(1) [OF f] by (simp add: sound_def calm_def)
  have eq: "report_event_step dp e r = ?r\<lparr>live := fst (removeClient now request (live r))\<rparr>"
    by (simp add: RemoveE remove_node_def with_live_def invalidate_fields)
  have "queue_ok c {} (?r\<lparr>live := d\<rparr>) = queue_ok c {} ?r" for d by (simp add: queue_ok_def list_all_iff queued_ok_live)
  then show ?thesis using d s q f unfolding eq by (simp add: flow_ok_def filed_def invalidate_fields)
next
  case (RestoreE now accepted request)
  then show ?thesis using restore_flow(2) [OF f] ok w by simp
qed (use w in simp_all)

lemma run_events_append: "run_events dp r (xs @ ys) = run_events dp (run_events dp r xs) ys"
  by (induction xs arbitrary: r) simp_all

lemma events_ok_append: "events_ok dp r (xs @ ys) \<longleftrightarrow> events_ok dp r xs \<and> events_ok dp (run_events dp r xs) ys"
  by (induction xs arbitrary: r) simp_all

lemma flow_events:
  assumes "flow_ok c T r" "events_ok dp r es" "set (report_times c es) \<subseteq> T"
  shows "flow_ok c T (run_events dp r es)"
  using assms
proof (induction es arbitrary: r)
  case (Cons e es)
  have "flow_ok c T (report_event_step dp e r)"
    by (rule flow_event) (use Cons.prems in auto)
  moreover have "set (report_times c es) \<subseteq> T" using Cons.prems(3) by (cases e) (auto split: if_splits)
  ultimately show ?case using Cons.IH [of "report_event_step dp e r"] Cons.prems(2) by simp
qed simp

lemma flow_new: "flow_ok c T new_report_do"
  by (simp add: flow_ok_def new_report_do_def new_live_do_def sound_def session_inv_def named_def held_times_def socket_times_def
      is_open_def queue_ok_def filed_def)

text \<open>
  C3. A report that was under way when its node was removed, or when a backup was restored, never
  brings the node back. However the steps of reports, removals, synchronisations, metadata changes,
  connections, region lookups and restarts of the object interleave, every report time the object
  holds of the node afterwards (among the online nodes, the last known ones, the stored snapshots
  and the attachments of open sockets) belongs to a report that began after the removal.
\<close>
theorem withdrawn_reports_discarded:
  assumes "events_ok dp new_report_do (before @ e # later)" "withdraws c e (run_events dp new_report_do before)"
  shows "held_times c (live (run_events dp new_report_do (before @ e # later))) \<subseteq> set (report_times c later)"
proof -
  let ?r = "run_events dp new_report_do before"
  have ok: "events_ok dp new_report_do before" "report_event_ok e ?r" "events_ok dp (report_event_step dp e ?r) later"
    using assms(1) by (simp_all add: events_ok_append)
  have "flow_ok c UNIV ?r" by (rule flow_events [OF flow_new ok(1)]) simp
  then have "flow_ok c {} (report_event_step dp e ?r)" by (rule flow_withdrawn [OF _ ok(2) assms(2)])
  then have "flow_ok c (set (report_times c later)) (run_events dp (report_event_step dp e ?r) later)"
    by (intro flow_events [OF flow_mono ok(3)]) auto
  then show ?thesis by (simp add: flow_ok_def run_events_append)
qed

text \<open>A report has written its snapshot when the node is removed; the node reports again later.\<close>

definition sample_report :: upload where
  "sample_report = \<lparr>up_name = ''n'', up_hidden = False, up_data = Obj [(''cpu'', Num (Fin 7))], up_expiresAt = Some 200000, up_ws = None,
     up_network = None\<rparr>"

definition report_steps :: "rat \<Rightarrow> report_event list" where
  "report_steps now = ReportE now ''n'' # replicate 6 (StepE now (Enter sample_report) ''n'')"

definition sample_before :: "report_event list" where
  "sample_before = ReportE 1 ''n'' # replicate 3 (StepE 1 (Enter sample_report) ''n'')"

definition sample_removal :: report_event where
  "sample_removal = RemoveE 2 (own_request [(''uuid'', Str ''n''), (''keepMetadata'', Bool True)])"

lemma own_removal_target:
  assumes "js_trim u \<noteq> []" "length u \<le> 1000"
  shows "removal_target (own_request (removal_request keep u)) = Some u"
proof -
  have "parseJsonRequestWithLimit (own_request (removal_request keep u)) HTTP_CLIENT_META_MAX_BODY_BYTES = Inr (removal_request keep u)"
    using remove_sizes [OF assms(2)] by (intro own_request_back [OF removal_clean]) (simp add: removal_request_def)
  then show ?thesis using removal_uuid [of keep u] assms(1) by (simp add: removal_target_def)
qed

lemma sample_removal_target: "removal_target (own_request [(''uuid'', Str ''n''), (''keepMetadata'', Bool True)]) = Some ''n''"
  unfolding removal_forms by (rule own_removal_target) code_simp+

theorem withdrawn_reports_discarded_witness:
  "held_times ''n'' (live (run_events (\<lambda>_. None) new_report_do (sample_before @ sample_removal # StepE 3 GiveUp ''n'' # report_steps 9))) \<subseteq> {9}"
proof -
  have "events_ok (\<lambda>_. None) new_report_do (sample_before @ sample_removal # StepE 3 GiveUp ''n'' # report_steps 9)"
    by (simp add: sample_before_def report_steps_def sample_removal_def numeral_eq_Suc del: report_event_step.simps)
  moreover have "withdraws ''n'' sample_removal (run_events (\<lambda>_. None) new_report_do sample_before)"
    by (simp add: sample_removal_def sample_removal_target)
  moreover have "set (report_times ''n'' (StepE 3 GiveUp ''n'' # report_steps 9)) = {9}"
    by (simp add: report_steps_def numeral_eq_Suc)
  ultimately show ?thesis using withdrawn_reports_discarded by metis
qed

subsection \<open>An undisturbed report is shown\<close>

lemma read_stored: "adm_stored (fst (readAdminClientsSnapshot a)) = adm_stored a"
  "adm_stored b = adm_stored a \<Longrightarrow> snd (readAdminClientsSnapshot b) = snd (readAdminClientsSnapshot a)"
  by (simp_all add: readAdminClientsSnapshot_def rememberAdminClientsSnapshot_def split: option.split)

text \<open>The second look at the management row confirms the name and visibility of the first.\<close>

lemma resolve_again:
  assumes "resolveReportClientControl c name hidden d = (d1, Some (n, h))" "adm_stored (admin e) = adm_stored (admin d)"
    "clients e = clients d" "lastKnownClients e = lastKnownClients d"
  shows "snd (resolveReportClientControl c n h e) = Some (n, h)"
proof -
  obtain a s where a: "readAdminClientsSnapshot (admin d) = (a, s)" by force
  obtain b s' where b: "readAdminClientsSnapshot (admin e) = (b, s')" by force
  have s': "s' = s" using read_stored(2) [OF assms(2)] a b by simp
  define m where "m = Option.bind s (\<lambda>s. List.find (\<lambda>m. js_get m ''uuid'' = Str c) (as_clients s))"
  define denied where "denied = (case s of Some s \<Rightarrow> c \<in> set (as_removed s) \<or> (as_complete s \<and> m = None) | None \<Rightarrow> False)"
  define cur where "cur = (case map_of (clients d) c of Some k \<Rightarrow> Some k | None \<Rightarrow> map_of (lastKnownClients d) c)"
  have ad: "clients (x\<lparr>admin := y\<rparr>) = clients x" "lastKnownClients (x\<lparr>admin := y\<rparr>) = lastKnownClients x" for x :: live_do and y by simp_all
  have "snd (resolveReportClientControl c name hidden d) = (if denied then None else case m of
      Some m \<Rightarrow> Some (case js_get m ''name'' of Str x \<Rightarrow> x | _ \<Rightarrow> name, booleanField m ''hidden'')
    | None \<Rightarrow> (case cur of Some k \<Rightarrow> Some (cs_name k, cs_hidden k) | None \<Rightarrow> Some (name, hidden)))"
    unfolding resolveReportClientControl_def a prod.case Let_def m_def denied_def cur_def ad snd_conv by (rule refl)
  note first = this [unfolded assms(1) snd_conv]
  have second: "snd (resolveReportClientControl c n h e) = (if denied then None else case m of
      Some m \<Rightarrow> Some (case js_get m ''name'' of Str x \<Rightarrow> x | _ \<Rightarrow> n, booleanField m ''hidden'')
    | None \<Rightarrow> (case cur of Some k \<Rightarrow> Some (cs_name k, cs_hidden k) | None \<Rightarrow> Some (n, h)))"
    unfolding resolveReportClientControl_def b s' prod.case Let_def m_def denied_def cur_def ad snd_conv assms(3,4) by (rule refl)
  have nd: "\<not> denied" using first by (auto split: if_splits)
  show ?thesis
  proof (cases m)
    case None
    then show ?thesis using first second nd by (cases cur) simp_all
  next
    case (Some o1)
    then show ?thesis using first second nd by (cases "js_get o1 ''name''") simp_all
  qed
qed

lemma set_phase_head:
  "clientReportWrites r c = [run] \<Longrightarrow> clientReportWrites (set_phase c p r) c = [run\<lparr>run_phase := p\<rparr>]"
  "live (set_phase c p r) = live r" "clientRemovalVersions (set_phase c p r) = clientRemovalVersions r"
  "restoreVersion (set_phase c p r) = restoreVersion r"
  by (simp_all add: set_phase_def split: list.split)

lemma current_phase: "isReportCurrent l (set_phase c p r) = isReportCurrent l r"
  by (simp add: isReportCurrent_def removal_version_def set_phase_head)

definition reserved_life :: "rat \<Rightarrow> string \<Rightarrow> report_do \<Rightarrow> lifecycle" where
  "reserved_life now c r = \<lparr>rl_clientId = c, rl_receivedAt = now, rl_removalVersion = removal_version r c, rl_restoreVersion = restoreVersion r\<rparr>"

definition cleaned_report :: "upload \<Rightarrow> jsobj" where
  "cleaned_report up = sanitizeReport (normalizeMonitorReport (up_data up)) (up_network up)"

definition shown_state :: "rat \<Rightarrow> string \<Rightarrow> string \<Rightarrow> bool \<Rightarrow> upload \<Rightarrow> client_state" where
  "shown_state now c n h up = \<lparr>cs_uuid = c, cs_name = n, cs_hidden = h, cs_lastReportTime = now, cs_lastReport = cleaned_report up,
     cs_expiresAt = up_expiresAt up, cs_transport = Some HttpT\<rparr>"

lemma phase_after:
  "clientReportWrites x c = [\<lparr>run_life = l, run_phase = p\<rparr>] \<Longrightarrow> clientReportWrites (set_phase c p' x) c = [\<lparr>run_life = l, run_phase = p'\<rparr>]"
  using set_phase_head(1) [of x c "\<lparr>run_life = l, run_phase = p\<rparr>" p'] by simp

text \<open>The first four steps of an undisturbed report: its state is written and about to be confirmed.\<close>

lemma undisturbed_report_written:
  fixes now :: rat
  assumes q: "clientReportWrites r c = []" and res: "resolveReportClientControl c (up_name up) (up_hidden up) (live r) = (d1, Some (n, h))"
    and ws: "up_ws up = None"
  defines "r4 \<equiv> (advance_report now (Enter up) c ^^ 4) (reserve_report now c r)"
  shows "clientReportWrites r4 c = [\<lparr>run_life = reserved_life now c r, run_phase = Confirming up (shown_state now c n h up)\<rparr>]"
    "live r4 = persistClientSnapshot (shown_state now c n h up) d1" "isReportCurrent (reserved_life now c r) r4"
proof -
  define l where "l = reserved_life now c r"
  define shown where "shown = shown_state now c n h up"
  define step where "step = advance_report now (Enter up) c"
  define head where "head p = [\<lparr>run_life = l, run_phase = p\<rparr>]" for p
  define r0 where "r0 = reserve_report now c r"
  define r2 where "r2 = set_phase c (Resolving up (cleaned_report up)) (set_phase c Working r0)"
  define r3 where "r3 = set_phase c (Written up shown) (r2\<lparr>live := persistClientSnapshot shown d1\<rparr>)"
  have q0: "clientReportWrites r0 c = head Reserved" and cur0: "isReportCurrent l r0" and live0: "live r0 = live r"
    by (simp_all add: r0_def reserve_report_def q head_def l_def reserved_life_def isReportCurrent_def removal_version_def)
  have hd: "clientReportWrites (set_phase c p' x) c = head p'" if "clientReportWrites x c = head p" for p p' x
    using that phase_after unfolding head_def by blast
  have lc: "rl_clientId l = c" by (simp add: l_def reserved_life_def)
  have s1: "step r0 = set_phase c Working r0" using q0 cur0 by (simp add: step_def advance_report_def head_def)
  have q1: "clientReportWrites (set_phase c Working r0) c = head Working" by (rule hd [OF q0])
  have s2: "step (set_phase c Working r0) = r2"
    using q1 cur0 ws by (cases "up_network up")
      (simp_all add: step_def advance_report_def head_def enter_report_def current_phase r2_def cleaned_report_def lc)
  have q2: "clientReportWrites r2 c = head (Resolving up (cleaned_report up))" unfolding r2_def by (rule hd [OF q1])
  have live2: "live r2 = live r" "isReportCurrent l r2" using live0 cur0 by (simp_all add: r2_def set_phase_head current_phase)
  have "first_state l up (cleaned_report up) (n, h) = shown" using ws by (simp add: first_state_def shown_def shown_state_def l_def reserved_life_def)
  then have s3: "step r2 = r3" using q2 live2 res by (simp add: step_def advance_report_def head_def resolve_report_def lc r3_def)
  have q3: "clientReportWrites r3 c = head (Written up shown)"
    unfolding r3_def by (rule hd [of _ "Resolving up (cleaned_report up)"]) (simp add: q2)
  have cur3: "isReportCurrent l r3" using live2(2) by (simp add: r3_def current_phase current_live)
  have s4: "step r3 = set_phase c (Confirming up shown) r3"
    using q3 cur3 by (simp add: step_def advance_report_def head_def check_written_def lc)
  have r4: "r4 = set_phase c (Confirming up shown) r3"
    unfolding r4_def step_def [symmetric] r0_def [symmetric] by (simp add: numeral_eq_Suc s1 s2 s3 s4)
  show "clientReportWrites r4 c = [\<lparr>run_life = reserved_life now c r, run_phase = Confirming up (shown_state now c n h up)\<rparr>]"
    using hd [OF q3] unfolding r4 head_def l_def shown_def .
  show "live r4 = persistClientSnapshot (shown_state now c n h up) d1" "isReportCurrent (reserved_life now c r) r4"
    using cur3 by (simp_all add: r4 r3_def shown_def l_def set_phase_head current_phase)
qed



end
