(* ===== verification/AgentPolicy.thy ===== *)
theory AgentPolicy
  imports LiveSessions PingPersist DoStorage
begin

section \<open>The policy sent to agents\<close>

text \<open>
  How \<open>do/live-data.ts\<close> tells an agent what to do: the intervals of the settings, faster while
  somebody watches, the ping tasks and website probes of the node and its traffic reset day
  (\<open>buildAgentPolicy\<close>, \<open>broadcastAgentPolicy\<close>). Settings and tasks are cached. A call that finds a
  lookup under way shares its answer, so a lookup is one step. The answers of the database are the
  environment of \<open>RecordPersist\<close> and, for website probes, a function of the node; SHA-256 is a parameter.
\<close>

subsection \<open>State\<close>

record policy_settings =
  activeIntervalSec :: int
  idleIntervalSec :: int
  viewerTtlSec :: int
  pingIntervalSec :: int

record policy_do =
  policySettings :: policy_settings
  policySettingsCheckedAt :: rat
  pingTasksCache :: "(ping_task list \<times> rat) option"
  websiteProbeTasksCache :: "string \<rightharpoonup> jsobj list \<times> rat"
  policyOptionalErrorLastWriteAt :: rat
  trafficResetDays :: "string \<rightharpoonup> int"
  trafficResetDaysAt :: rat
  policy_health :: "(string \<times> string) list"

definition POLICY_SETTING_CACHE_MS :: rat where "POLICY_SETTING_CACHE_MS = 30000"
definition PING_TASK_CACHE_MS :: rat where "PING_TASK_CACHE_MS = 120000"
definition WEBSITE_PROBE_TASK_CACHE_MS :: rat where "WEBSITE_PROBE_TASK_CACHE_MS = 120000"
definition AGENT_POLICY_OPTIONAL_ERROR_THROTTLE_MS :: rat where "AGENT_POLICY_OPTIONAL_ERROR_THROTTLE_MS = 5 * 60 * 1000"

definition new_policy_do :: policy_do where
  "new_policy_do = \<lparr>policySettings = \<lparr>activeIntervalSec = 3, idleIntervalSec = 120, viewerTtlSec = 120, pingIntervalSec = 120\<rparr>,
     policySettingsCheckedAt = 0, pingTasksCache = None, websiteProbeTasksCache = (\<lambda>_. None), policyOptionalErrorLastWriteAt = 0,
     trafficResetDays = (\<lambda>_. None), trafficResetDaysAt = 0, policy_health = []\<rparr>"

subsection \<open>Settings and tasks\<close>

definition boundIntegerSetting :: "string option \<Rightarrow> int \<Rightarrow> int \<Rightarrow> int \<Rightarrow> int" where
  "boundIntegerSetting v fallback lo hi =
     (let parsed = (case v of Some s \<Rightarrow> str_to_num s | None \<Rightarrow> NaN)
      in if \<not> js_isFinite parsed \<or> \<not> js_isInteger parsed then fallback else min (max (js_int parsed) lo) hi)"

definition read_policy_settings :: "(string \<times> string) list \<Rightarrow> policy_settings" where
  "read_policy_settings settings =
     \<lparr>activeIntervalSec = boundIntegerSetting (map_of settings ''live_poll_active_interval_sec'') 3 3 300,
      idleIntervalSec = boundIntegerSetting (map_of settings ''live_poll_idle_interval_sec'') 120 60 3600,
      viewerTtlSec = boundIntegerSetting (map_of settings ''live_poll_active_max_duration_sec'') 120 60 3600,
      pingIntervalSec = boundIntegerSetting (map_of settings ''ping_record_persist_interval_sec'') 120 60 3600\<rparr>"

definition getAgentPolicySettings :: "persist_env \<Rightarrow> rat \<Rightarrow> bool \<Rightarrow> policy_do \<Rightarrow> policy_do" where
  "getAgentPolicySettings e now forceRefresh p =
     (if \<not> env_database e then p
      else if \<not> forceRefresh \<and> now - policySettingsCheckedAt p < POLICY_SETTING_CACHE_MS then p
      else case env_settings e of
          Some stored \<Rightarrow> p\<lparr>policySettings := read_policy_settings (buildAdminSettings (env_url e) stored), policySettingsCheckedAt := now\<rparr>
        | None \<Rightarrow> p\<lparr>policy_health := policy_health p @ [(''agent_policy'', ''error'')], policySettingsCheckedAt := now\<rparr>)"

text \<open>The lookup of the tasks is not guarded: if it fails, so does the policy.\<close>

definition getPingTasks :: "persist_env \<Rightarrow> rat \<Rightarrow> bool \<Rightarrow> policy_do \<Rightarrow> policy_do \<times> ping_task list option" where
  "getPingTasks e now forceRefresh p =
     (if \<not> env_database e then (p, Some [])
      else let lookup = (case env_tasks e of
               Some tasks \<Rightarrow> (p\<lparr>pingTasksCache := Some (tasks, now + PING_TASK_CACHE_MS)\<rparr>, Some tasks)
             | None \<Rightarrow> (p, None))
           in case pingTasksCache p of
               Some (tasks, expiresAt) \<Rightarrow> if \<not> forceRefresh \<and> now < expiresAt then (p, Some tasks) else lookup
             | None \<Rightarrow> lookup)"

definition pingTasksForClient :: "ping_task list \<Rightarrow> string option \<Rightarrow> policy_do \<Rightarrow> ping_task list" where
  "pingTasksForClient tasks clientId p = (case clientId of
       None \<Rightarrow> []
     | Some c \<Rightarrow> if c = [] then [] else
         map (\<lambda>t. t\<lparr>pt_interval_sec := pingIntervalSec (policySettings p)\<rparr>) (filter (\<lambda>t. pt_all_clients t \<or> c \<in> set (pt_clients t)) tasks))"

definition ping_type_text :: "ping_type \<Rightarrow> string" where
  "ping_type_text t = (case t of Icmp \<Rightarrow> ''icmp'' | Tcp \<Rightarrow> ''tcp'' | Http \<Rightarrow> ''http'')"

definition version_entry :: "ping_task \<Rightarrow> jsval" where
  "version_entry t = Obj ((case pt_id t of Some i \<Rightarrow> [(''id'', Num (FinI i))] | None \<Rightarrow> [])
     @ [(''name'', Str (pt_name t)), (''type'', Str (ping_type_text (pt_type t))), (''target'', Str (pt_target t)),
        (''interval_sec'', Num (FinI (pt_interval_sec t))), (''all_clients'', Bool (pt_all_clients t)),
        (''clients'', Arr (map Str (sort (pt_clients t))))])"

definition pingPolicyVersion :: "(bytes \<Rightarrow> bytes) \<Rightarrow> ping_task list \<Rightarrow> int \<Rightarrow> string" where
  "pingPolicyVersion sha256 tasks intervalSec =
     bytes_to_hex (take 8 (sha256 (utf8_encode (case JSON_stringify (Obj [(''interval_sec'', Num (FinI intervalSec)),
       (''tasks'', Arr (map version_entry tasks))]) of Some t \<Rightarrow> t | None \<Rightarrow> []))))"

definition invalidatePingTasksCache :: "policy_do \<Rightarrow> policy_do" where
  "invalidatePingTasksCache p = p\<lparr>pingTasksCache := None\<rparr>"

definition invalidateWebsiteProbeTasksCache :: "policy_do \<Rightarrow> policy_do" where
  "invalidateWebsiteProbeTasksCache p = p\<lparr>websiteProbeTasksCache := (\<lambda>_. None)\<rparr>"

text \<open>A failed probe lookup is reported at most every five minutes; only a report that needs the tasks fails.\<close>

definition getWebsiteProbeTasks ::
  "(string \<Rightarrow> jsobj list option) \<Rightarrow> persist_env \<Rightarrow> rat \<Rightarrow> string option \<Rightarrow> bool \<Rightarrow> policy_do \<Rightarrow> policy_do \<times> jsobj list option" where
  "getWebsiteProbeTasks probes e now clientId requireSuccess p = (case clientId of
       None \<Rightarrow> (p, Some [])
     | Some c \<Rightarrow>
         if \<not> env_database e \<or> c = [] then (p, Some [])
         else let lookup = (case probes c of
                  Some tasks \<Rightarrow>
                    (p\<lparr>websiteProbeTasksCache := (websiteProbeTasksCache p)(c \<mapsto> (tasks, now + WEBSITE_PROBE_TASK_CACHE_MS))\<rparr>, Some tasks)
                | None \<Rightarrow>
                    (if AGENT_POLICY_OPTIONAL_ERROR_THROTTLE_MS \<le> now - policyOptionalErrorLastWriteAt p
                     then p\<lparr>policyOptionalErrorLastWriteAt := now,
                            policy_health := policy_health p @ [(''agent_policy_website_probe_tasks'', ''error'')]\<rparr> else p,
                     if requireSuccess then None else Some []))
              in case websiteProbeTasksCache p c of
                  Some (tasks, expiresAt) \<Rightarrow> if now < expiresAt then (p, Some tasks) else lookup
                | None \<Rightarrow> lookup)"

definition reset_day :: "jsobj \<Rightarrow> (string \<times> int) option" where
  "reset_day client =
     (let uuid = js_String (js_or (js_get client ''uuid'') (Str []))
      in case js_Number (js_get client ''traffic_reset_day'') of
          Fin q \<Rightarrow> if uuid \<noteq> [] \<and> 1 \<le> q \<and> q \<le> 31 then Some (uuid, \<lfloor>js_trunc q\<rfloor>) else None
        | _ \<Rightarrow> None)"

definition trafficResetDayFor :: "rat \<Rightarrow> string option \<Rightarrow> admin_state \<Rightarrow> policy_do \<Rightarrow> (admin_state \<times> policy_do) \<times> int option" where
  "trafficResetDayFor now clientId a p = (case clientId of
       None \<Rightarrow> ((a, p), None)
     | Some c \<Rightarrow>
         if c = [] then ((a, p), None)
         else let snapshotAt = (case adminClientsUpdatedAt a of Some t \<Rightarrow> t | None \<Rightarrow> 0);
                  (a', p') = (if trafficResetDaysAt p = 0 \<or> trafficResetDaysAt p < snapshotAt
                    then (case readAdminClientsSnapshot a of
                        (a1, snapshot) \<Rightarrow> (a1, p\<lparr>trafficResetDays := map_of (rev (List.map_filter reset_day
                            (case snapshot of Some s \<Rightarrow> as_clients s | None \<Rightarrow> []))), trafficResetDaysAt := max snapshotAt now\<rparr>))
                    else (a, p))
              in ((a', p'), trafficResetDays p' c))"

subsection \<open>Building and sending\<close>

record agent_policy =
  ap_active :: bool
  ap_report_interval_sec :: int
  ap_report_now :: bool
  ap_viewer_count :: nat
  ap_viewer_ttl_sec :: int
  ap_ping_interval_sec :: int
  ap_ping_policy_version :: string
  ap_ping_tasks :: "ping_task list"
  ap_website_probe_tasks :: "jsobj list"
  ap_policy_ttl_sec :: int
  ap_traffic_reset_day :: "int option"
  ap_timestamp :: rat

definition ping_task_value :: "ping_task \<Rightarrow> jsval" where
  "ping_task_value t = Obj ((case pt_id t of Some i \<Rightarrow> [(''id'', Num (FinI i))] | None \<Rightarrow> [])
     @ [(''name'', Str (pt_name t)), (''clients'', Arr (map Str (pt_clients t))), (''all_clients'', Bool (pt_all_clients t)),
        (''type'', Str (ping_type_text (pt_type t))), (''target'', Str (pt_target t)), (''interval_sec'', Num (FinI (pt_interval_sec t)))])"

text \<open>The message: sample and report interval are the same, and the idle lifetime is a constant.\<close>

definition policy_value :: "agent_policy \<Rightarrow> jsval" where
  "policy_value ap = Obj ([(''type'', Str ''policy''), (''mode'', Str (if ap_active ap then ''active'' else ''idle'')),
      (''sample_interval_sec'', Num (FinI (ap_report_interval_sec ap))), (''report_interval_sec'', Num (FinI (ap_report_interval_sec ap))),
      (''report_now'', Bool (ap_report_now ap)), (''viewer_count'', Num (FinI (int (ap_viewer_count ap)))),
      (''viewer_ttl_sec'', Num (FinI (ap_viewer_ttl_sec ap))), (''ping_interval_sec'', Num (FinI (ap_ping_interval_sec ap))),
      (''ping_policy_version'', Str (ap_ping_policy_version ap)), (''ping_tasks'', Arr (map ping_task_value (ap_ping_tasks ap))),
      (''website_probe_tasks'', Arr (map Obj (ap_website_probe_tasks ap))), (''policy_ttl_sec'', Num (FinI (ap_policy_ttl_sec ap))),
      (''idle_policy_ttl_sec'', Num (FinI 120))]
     @ (case ap_traffic_reset_day ap of Some day \<Rightarrow> [(''traffic_reset_day'', Num (FinI day))] | None \<Rightarrow> [])
     @ [(''timestamp'', Num (Fin (ap_timestamp ap)))])"

record policy_world =
  pw_live :: live_do
  pw_policy :: policy_do

definition buildAgentPolicy ::
  "(bytes \<Rightarrow> bytes) \<Rightarrow> (string \<Rightarrow> jsobj list option) \<Rightarrow> persist_env \<Rightarrow> rat \<Rightarrow> bool \<Rightarrow> bool \<Rightarrow> string option \<Rightarrow>
   policy_world \<Rightarrow> policy_world \<times> agent_policy option" where
  "buildAgentPolicy sha256 probes e now reportNow forceRefresh clientId w =
     (let d = pw_live w; p1 = getAgentPolicySettings e now forceRefresh (pw_policy w); settings = policySettings p1;
          viewerCount = activeViewerCount now d; active = (0 < viewerCount)
      in case getPingTasks e now False p1 of
          (p2, None) \<Rightarrow> (w\<lparr>pw_policy := p2\<rparr>, None)
        | (p2, Some tasks) \<Rightarrow>
            (let pingTasks = pingTasksForClient tasks clientId p2
             in case getWebsiteProbeTasks probes e now clientId False p2 of
                 (p3, websiteProbeTasks) \<Rightarrow>
                   (case trafficResetDayFor now clientId (admin d) p3 of
                      ((a, p4), day) \<Rightarrow>
                        (\<lparr>pw_live = d\<lparr>admin := a\<rparr>, pw_policy = p4\<rparr>,
                         Some \<lparr>ap_active = active, ap_report_interval_sec = (if active then activeIntervalSec settings else idleIntervalSec settings),
                           ap_report_now = (active \<and> reportNow), ap_viewer_count = viewerCount, ap_viewer_ttl_sec = viewerTtlSec settings,
                           ap_ping_interval_sec = pingIntervalSec settings,
                           ap_ping_policy_version = pingPolicyVersion sha256 pingTasks (pingIntervalSec settings), ap_ping_tasks = pingTasks,
                           ap_website_probe_tasks = (case websiteProbeTasks of Some ts \<Rightarrow> ts | None \<Rightarrow> []),
                           ap_policy_ttl_sec = (if active then 30 else 120), ap_traffic_reset_day = day, ap_timestamp = now\<rparr>))))"

definition sendAgentPolicy :: "nat \<Rightarrow> agent_policy \<Rightarrow> policy_world \<Rightarrow> policy_world" where
  "sendAgentPolicy ws ap w = (if is_open (pw_live w) ws then w\<lparr>pw_live := ws_send ws (policy_value ap) (pw_live w)\<rparr> else w)"

definition sendCurrentPolicyToAgent ::
  "(bytes \<Rightarrow> bytes) \<Rightarrow> (string \<Rightarrow> jsobj list option) \<Rightarrow> persist_env \<Rightarrow> nat \<Rightarrow> rat \<Rightarrow> string option \<Rightarrow> policy_world \<Rightarrow> policy_world" where
  "sendCurrentPolicyToAgent sha256 probes e ws now clientId w = (case buildAgentPolicy sha256 probes e now False False clientId w of
       (w1, Some ap) \<Rightarrow> sendAgentPolicy ws ap w1 | (w1, None) \<Rightarrow> w1)"

text \<open>The broadcast stops at the first policy that cannot be built; the Boolean says whether it went through.\<close>

fun policy_loop ::
  "(bytes \<Rightarrow> bytes) \<Rightarrow> (string \<Rightarrow> jsobj list option) \<Rightarrow> persist_env \<Rightarrow> rat \<Rightarrow> bool \<Rightarrow> bool \<Rightarrow> (string \<times> nat) list \<Rightarrow>
   policy_world \<Rightarrow> policy_world \<times> bool" where
  "policy_loop sha256 probes e now reportNow force [] w = (w, True)"
| "policy_loop sha256 probes e now reportNow force ((sid, ws) # ss) w =
     (if map_of (sessionRoles (pw_live w)) sid \<noteq> Some AgentRole then policy_loop sha256 probes e now reportNow force ss w
      else case buildAgentPolicy sha256 probes e now reportNow force (Some sid) w of
          (w1, Some ap) \<Rightarrow> policy_loop sha256 probes e now reportNow force ss (sendAgentPolicy ws ap w1)
        | (w1, None) \<Rightarrow> (w1, False))"

definition broadcastAgentPolicy ::
  "(bytes \<Rightarrow> bytes) \<Rightarrow> (string \<Rightarrow> jsobj list option) \<Rightarrow> persist_env \<Rightarrow> rat \<Rightarrow> bool \<Rightarrow> bool \<Rightarrow> policy_world \<Rightarrow> policy_world \<times> bool" where
  "broadcastAgentPolicy sha256 probes e now reportNow force w =
     policy_loop sha256 probes e now reportNow force (sessions (pw_live w)) w"

definition policy_refresh ::
  "(bytes \<Rightarrow> bytes) \<Rightarrow> (string \<Rightarrow> jsobj list option) \<Rightarrow> persist_env \<Rightarrow> rat \<Rightarrow> policy_world \<Rightarrow> policy_world \<times> bool" where
  "policy_refresh sha256 probes e now w =
     broadcastAgentPolicy sha256 probes e now False True (w\<lparr>pw_policy := invalidateWebsiteProbeTasksCache (pw_policy w)\<rparr>)"

definition ping_tasks_refresh ::
  "(bytes \<Rightarrow> bytes) \<Rightarrow> (string \<Rightarrow> jsobj list option) \<Rightarrow> persist_env \<Rightarrow> rat \<Rightarrow> policy_world \<Rightarrow> policy_world \<times> bool" where
  "ping_tasks_refresh sha256 probes e now w =
     broadcastAgentPolicy sha256 probes e now False True
       (w\<lparr>pw_policy := invalidateWebsiteProbeTasksCache (invalidatePingTasksCache (pw_policy w))\<rparr>)"

subsection \<open>A policy fits its node and the history\<close>

definition days_ok :: "policy_do \<Rightarrow> bool" where
  "days_ok p \<longleftrightarrow> (\<forall>c day. trafficResetDays p c = Some day \<longrightarrow> 1 \<le> day \<and> day \<le> 31)"

lemma reset_day_range:
  assumes "reset_day client = Some (u, day)"
  shows "1 \<le> day \<and> day \<le> 31"
proof -
  obtain q where q: "1 \<le> q" "q \<le> 31" "day = \<lfloor>js_trunc q\<rfloor>"
    using assms by (auto simp: reset_day_def Let_def split: jsnum.splits if_splits)
  have "day = \<lfloor>q\<rfloor>" using q(1) by (simp add: q(3) js_trunc_def)
  then show ?thesis using q(1,2) by linarith
qed

lemma reset_days_ok:
  assumes "days_ok p" "trafficResetDayFor now clientId a p = ((a', p'), day)"
  shows "days_ok p'" "case day of Some n \<Rightarrow> 1 \<le> n \<and> n \<le> 31 | None \<Rightarrow> True"
proof -
  have new: "1 \<le> n \<and> n \<le> 31" if "map_of (rev (List.map_filter reset_day cs)) c = Some n" for cs c n
    using map_of_SomeD [OF that] reset_day_range by (auto simp: List.map_filter_def)
  have "days_ok (p\<lparr>trafficResetDays := map_of (rev (List.map_filter reset_day cs)), trafficResetDaysAt := t\<rparr>)" for cs t
    using new by (auto simp: days_ok_def)
  moreover have "days_ok (p\<lparr>trafficResetDays := (\<lambda>_. None), trafficResetDaysAt := t\<rparr>)" for t by (simp add: days_ok_def)
  ultimately have both: "days_ok p' \<and> (day = None \<or> (\<exists>c. day = trafficResetDays p' c))"
    using assms by (auto simp: trafficResetDayFor_def Let_def split: option.splits if_splits prod.splits)
  then show "days_ok p'" by simp
  with both show "case day of Some n \<Rightarrow> 1 \<le> n \<and> n \<le> 31 | None \<Rightarrow> True"
    by (cases day) (auto simp: days_ok_def)
qed

lemma ping_setting_def: "map_of SETTING_SCHEMA ''ping_record_persist_interval_sec'' = Some (int_setting ''120'' True 60 3600)"
  by (simp add: SETTING_SCHEMA_def SITE_SETTINGS_def)

lemma bound_setting_value:
  assumes "map_of settings key = Some s" "str_to_num s = FinI i" "lo \<le> i" "i \<le> hi"
  shows "boundIntegerSetting (map_of settings key) fallback lo hi = i"
  using assms by (simp add: boundIntegerSetting_def)

lemma admin_setting_present:
  assumes "map_of SETTING_SCHEMA key = Some def"
  shows "map_of (buildAdminSettings up stored) key = Some (setting_of (buildAdminSettings up stored) key)"
  using admin_lookup [OF assms] by (simp add: setting_of_def)

lemma policy_settings_read:
  obtains i j k where "read_policy_settings (buildAdminSettings up stored) =
      \<lparr>activeIntervalSec = i, idleIntervalSec = j, viewerTtlSec = viewerTtlSec (read_policy_settings (buildAdminSettings up stored)), pingIntervalSec = k\<rparr>"
    "3 \<le> i" "i \<le> 300" "60 \<le> j" "j \<le> 3600" "60 \<le> k" "k \<le> 3600"
    "of_int k * 1000 = pingRecordPersistIntervalMs (configured up stored)"
proof -
  note active = history_setting_defs(4) and idle = history_setting_defs(5) and ping = ping_setting_def
  let ?s = "buildAdminSettings up stored"
  obtain i where i: "str_to_num (setting_of ?s ''live_poll_active_interval_sec'') = FinI i" "3 \<le> i" "i \<le> 300"
    using integer_setting [OF active, of up stored] by blast
  obtain j where j: "str_to_num (setting_of ?s ''live_poll_idle_interval_sec'') = FinI j" "60 \<le> j" "j \<le> 3600"
    using integer_setting [OF idle, of up stored] by blast
  obtain k where k: "str_to_num (setting_of ?s ''ping_record_persist_interval_sec'') = FinI k" "60 \<le> k" "k \<le> 3600"
    using integer_setting [OF ping, of up stored] by blast
  have "of_int k * 1000 = pingRecordPersistIntervalMs (configured up stored)"
    using k by (simp add: configured_def load_settings_def Let_def bounded_setting_def MIN_PING_RECORD_PERSIST_INTERVAL_MS_def
        MAX_PING_RECORD_PERSIST_INTERVAL_MS_def)
  moreover have "activeIntervalSec (read_policy_settings ?s) = i" "idleIntervalSec (read_policy_settings ?s) = j"
    "pingIntervalSec (read_policy_settings ?s) = k"
    using bound_setting_value [OF admin_setting_present [OF active] i, where fallback = 3]
      bound_setting_value [OF admin_setting_present [OF idle] j, where fallback = 120]
      bound_setting_value [OF admin_setting_present [OF ping] k, where fallback = 120]
    by (simp_all add: read_policy_settings_def)
  ultimately show thesis using that [of i j k] i(2,3) j(2,3) k(2,3) by simp
qed


definition sample_world :: policy_world where
  "sample_world = \<lparr>pw_live = new_live_do, pw_policy = new_policy_do\<rparr>"


end
