(* ===== verification/WebsiteRecheck.thy ===== *)
theory WebsiteRecheck
  imports AgentPolicy
begin

section \<open>Website results of agents and their rechecks\<close>

text \<open>
  The website half of a report in \<open>do/live-data.ts\<close>: \<open>persistWebsiteProbeResultsFromReport\<close> checks
  what an agent measured against its assigned monitors and records it; an outage is queued first, so
  that the object itself looks again (\<open>queueWebsiteRecheck\<close>, \<open>processWebsiteRechecks\<close>). The queue is
  stored; \<open>rechecks\<close> lists it without its key prefix, in the order of the storage. \<open>iso\<close> prints and \<open>dp\<close>
  parses a date, and the answers of the database and of the probe are parameters.
\<close>

subsection \<open>Checking a result\<close>

definition websiteProbeResultsFromReport :: "jsobj \<Rightarrow> jsobj list" where
  "websiteProbeResultsFromReport report = (case js_get report ''website_probe_results'' of
       Arr results \<Rightarrow> objects_of (take 50 results) | _ \<Rightarrow> [])"

definition is_config_revision :: "string \<Rightarrow> bool" where
  "is_config_revision r = (case split_on (\<lambda>c. c = CHR ''-'') r of
       [a, b, c, d, e] \<Rightarrow> map length [a, b, c, d, e] = [8, 4, 4, 4, 12] \<and> list_all (list_all is_hex_any) [a, b, c, d, e]
     | _ \<Rightarrow> False)"

definition optional_number :: "jsval \<Rightarrow> jsnum option" where
  "optional_number v = (if v = Null \<or> v = Undef then None else Some (js_Number v))"

definition status_code_ok :: "jsnum option \<Rightarrow> bool" where
  "status_code_ok code = (case code of None \<Rightarrow> True | Some x \<Rightarrow> js_isInteger x \<and> \<not> js_lt x (Fin 100) \<and> \<not> js_lt (Fin 599) x)"

definition code_value :: "jsnum option \<Rightarrow> jsval" where
  "code_value code = (case code of None \<Rightarrow> Null | Some x \<Rightarrow> Num x)"

definition round_half_up :: "rat \<Rightarrow> int" where
  "round_half_up q = \<lfloor>q + 1 / 2\<rfloor>"

definition assigned_task :: "jsobj list \<Rightarrow> jsnum \<Rightarrow> jsobj option" where
  "assigned_task tasks monitorId = map_of (rev (map (\<lambda>t. (js_get t ''id'', t)) tasks)) (Num monitorId)"

text \<open>The assigned monitor and the check an agent's result becomes, or None if the result is skipped.\<close>

definition probe_check :: "string \<Rightarrow> jsobj list \<Rightarrow> string \<Rightarrow> jsobj \<Rightarrow> (jsobj \<times> jsobj) option" where
  "probe_check checkedAt tasks clientId item =
     (let monitorId = js_Number (js_get item ''monitor_id'');
          statusCode = optional_number (js_get item ''status_code'');
          rawStatusCode = (case optional_number (js_get item ''raw_status_code'') of None \<Rightarrow> statusCode | Some x \<Rightarrow> Some x);
          effective = js_get item ''effective_status'';
          latency = js_Number (js_get item ''latency_ms'')
      in case (assigned_task tasks monitorId, js_get item ''config_revision'', latency) of
          (Some task, Str revision, Fin q) \<Rightarrow>
            if \<not> js_isInteger monitorId \<or> \<not> is_config_revision revision \<or> js_get task ''config_revision'' \<noteq> Str revision \<or>
               round_half_up q < 0 \<or> 60000 < round_half_up q \<or> (effective \<noteq> Str ''up'' \<and> effective \<noteq> Str ''down'') \<or>
               \<not> status_code_ok statusCode \<or> \<not> status_code_ok rawStatusCode
            then None
            else Some (task, [(''monitor_id'', Num monitorId), (''config_revision'', Str revision), (''checked_at'', Str checkedAt),
              (''ok'', Bool (js_truthy (js_get item ''ok'') \<and> effective = Str ''up'')), (''effective_status'', effective),
              (''effective_reason'', (case js_get item ''effective_reason'' of Str s \<Rightarrow> Str (take 80 s) | _ \<Rightarrow> effective)),
              (''status_code'', code_value statusCode), (''raw_status_code'', code_value rawStatusCode),
              (''latency_ms'', Num (FinI (round_half_up q))),
              (''error'', (case js_get item ''error'' of Str s \<Rightarrow> if s \<noteq> [] then Str (take 120 s) else Null | _ \<Rightarrow> Null)),
              (''source_type'', Str ''agent''), (''source_client'', Str clientId)])
        | _ \<Rightarrow> None)"

subsection \<open>The queue\<close>

definition check_key :: "jsobj \<Rightarrow> string" where
  "check_key check = js_String (js_get check ''monitor_id'') @ '':'' @ js_String (js_get check ''config_revision'')"

definition date_num :: "(string \<Rightarrow> int option) \<Rightarrow> jsval \<Rightarrow> int option" where
  "date_num dp v = (case v of Str s \<Rightarrow> dp s | _ \<Rightarrow> None)"

definition older :: "(string \<Rightarrow> int option) \<Rightarrow> jsobj \<Rightarrow> jsobj \<Rightarrow> bool" where
  "older dp c1 c2 = (case (date_num dp (js_get c1 ''checked_at''), date_num dp (js_get c2 ''checked_at'')) of
       (Some a, Some b) \<Rightarrow> a < b | _ \<Rightarrow> False)"

text \<open>None: the queue is full and the report has to be sent again. \<open>uid\<close> is the random identifier.\<close>

definition queueWebsiteRecheck :: "(string \<Rightarrow> int option) \<Rightarrow> rat \<Rightarrow> string \<Rightarrow> jsobj \<Rightarrow> live_do \<Rightarrow> live_do option" where
  "queueWebsiteRecheck dp now uid check d =
     (let key = check_key check; previous = map_of (rechecks d) key;
          task = \<lparr>rk_id = uid, rk_check = check, rk_retryAt = now + 1000, rk_attempts = 0\<rparr>
      in case previous of
          None \<Rightarrow> if WEBSITE_RECHECK_MAX_PENDING \<le> length (rechecks d) then None
                  else Some (scheduleExpiryAlarm now (d\<lparr>rechecks := AList.update key task (rechecks d)\<rparr>))
        | Some p \<Rightarrow> if older dp (rk_check p) check
                   then Some (scheduleExpiryAlarm now (d\<lparr>rechecks := AList.update key task (rechecks d)\<rparr>))
                   else Some (scheduleExpiryAlarm now d))"

definition due_rechecks :: "rat \<Rightarrow> live_do \<Rightarrow> (string \<times> recheck_task) list" where
  "due_rechecks now d = take 2 (sort_key (\<lambda>e. rk_retryAt (snd e))
     (filter (\<lambda>e. rk_retryAt (snd e) \<le> now) (take WEBSITE_RECHECK_MAX_PENDING (rechecks d))))"

text \<open>What one recheck is told by the database and the probe; None is an exception.\<close>

record recheck_answers =
  ra_monitor :: "jsobj option option"
  ra_recorded :: "jsobj option option"
  ra_monitor_again :: "jsobj option option"
  ra_probe :: "jsobj option"
  ra_result_recorded :: "jsobj option option"

definition still_wanted :: "(string \<Rightarrow> int option) \<Rightarrow> jsobj \<Rightarrow> jsobj \<Rightarrow> bool" where
  "still_wanted dp check m \<longleftrightarrow> js_truthy (js_get m ''enabled'') \<and> js_truthy (js_get m ''agent_probe_status_enabled'') \<and>
     js_get m ''config_revision'' = js_get check ''config_revision'' \<and>
     (case date_num dp (js_get check ''checked_at'') of
        Some t \<Rightarrow> (case date_num dp (js_get m ''last_checked_at'') of Some l \<Rightarrow> l | None \<Rightarrow> 0) \<le> t | None \<Rightarrow> False)"

text \<open>Whether the recheck went through, and whether viewers are told; None if it threw.\<close>

definition recheck_outcome :: "(string \<Rightarrow> int option) \<Rightarrow> recheck_task \<Rightarrow> recheck_answers \<Rightarrow> bool option" where
  "recheck_outcome dp task r = (case ra_monitor r of
       None \<Rightarrow> None
     | Some m1 \<Rightarrow>
         if (case m1 of Some m \<Rightarrow> still_wanted dp (rk_check task) m \<and> js_get m ''agent_probe_mode'' \<noteq> Str ''off'' | None \<Rightarrow> False)
         then (case (case ra_recorded r of Some (Some m) \<Rightarrow> Some (Some m) | Some None \<Rightarrow> ra_monitor_again r | None \<Rightarrow> None) of
                 None \<Rightarrow> None
               | Some m2 \<Rightarrow>
                   if (case m2 of Some m \<Rightarrow> still_wanted dp (rk_check task) m | None \<Rightarrow> False)
                   then (case (ra_probe r, ra_result_recorded r) of
                           (Some _, Some row) \<Rightarrow> Some (row \<noteq> None) | _ \<Rightarrow> None)
                   else Some False)
         else Some False)"

definition retry_delay :: "nat \<Rightarrow> rat" where
  "retry_delay attempts = min 300000 (2000 * 2 ^ min attempts 8)"

text \<open>
  The end of a recheck. The queue may have changed since the task was read: only an entry that is
  still this very task is removed or put off.
\<close>

definition finish_recheck :: "(string \<Rightarrow> int option) \<Rightarrow> rat \<Rightarrow> string \<times> recheck_task \<Rightarrow> recheck_answers \<Rightarrow> live_do \<Rightarrow> live_do" where
  "finish_recheck dp now = (\<lambda>(key, task) answers d.
     let same = (case map_of (rechecks d) key of Some t \<Rightarrow> rk_id t = rk_id task | None \<Rightarrow> False)
     in case recheck_outcome dp task answers of
         Some told \<Rightarrow>
           (let d1 = (if told then broadcastMetadataChanged now [(''websites'', Bool True)] ToAll d else d)
            in if same then d1\<lparr>rechecks := AList.delete key (rechecks d1)\<rparr> else d1)
       | None \<Rightarrow>
           if same then d\<lparr>rechecks := AList.update key (task\<lparr>rk_attempts := rk_attempts task + 1,
                          rk_retryAt := now + retry_delay (rk_attempts task)\<rparr>) (rechecks d)\<rparr>
           else d)"

definition processWebsiteRechecks :: "(string \<Rightarrow> int option) \<Rightarrow> bool \<Rightarrow> rat \<Rightarrow> (string \<Rightarrow> recheck_answers) \<Rightarrow> live_do \<Rightarrow> live_do" where
  "processWebsiteRechecks dp database now answers d =
     (if database then fold (\<lambda>e. finish_recheck dp now e (answers (fst e))) (due_rechecks now d) d else d)"

subsection \<open>Recording the results of a report\<close>

record probe_world =
  pb_live :: live_do
  pb_persist :: persist_do
  pb_policy :: policy_do

text \<open>\<open>recorded\<close> answers \<open>recordWebsiteCheck\<close> and \<open>clock\<close> is the present time; the results carry the time of the report. The Boolean is whether a row changed; None is an exception.\<close>

fun record_results ::
  "(string \<Rightarrow> int option) \<Rightarrow> rat \<Rightarrow> (jsobj \<Rightarrow> string) \<Rightarrow> (jsobj \<Rightarrow> jsobj option option) \<Rightarrow> (jsobj \<times> jsobj) list \<Rightarrow> live_do \<Rightarrow>
   live_do \<times> bool option" where
  "record_results dp now uid recorded [] d = (d, Some False)"
| "record_results dp now uid recorded ((task, check) # cs) d =
     (case (if js_get check ''effective_status'' = Str ''down'' \<and> js_truthy (js_get task ''agent_probe_status_enabled'')
            then queueWebsiteRecheck dp now (uid check) check d else Some d) of
        None \<Rightarrow> (d, None)
      | Some d1 \<Rightarrow>
          (case recorded check of
             None \<Rightarrow> (d1, None)
           | Some row \<Rightarrow> (case record_results dp now uid recorded cs d1 of
               (d2, rest) \<Rightarrow> (d2, map_option (\<lambda>changed. row \<noteq> None \<or> changed) rest))))"

definition persistWebsiteProbeResultsFromReport ::
  "(string \<Rightarrow> int option) \<Rightarrow> (string \<Rightarrow> jsobj list option) \<Rightarrow> (jsobj \<Rightarrow> string) \<Rightarrow> (jsobj \<Rightarrow> jsobj option option) \<Rightarrow> persist_env \<Rightarrow>
   rat \<Rightarrow> string \<Rightarrow> jsobj \<Rightarrow> rat \<Rightarrow> probe_world \<Rightarrow> probe_world \<times> bool" where
  "persistWebsiteProbeResultsFromReport dp probes uid recorded e clock clientId report nowMs w =
     (let results = websiteProbeResultsFromReport report
      in if results = [] \<or> \<not> env_database e then (w, True)
         else case history_gate e nowMs (pb_persist w) of
             (h, False) \<Rightarrow> (w\<lparr>pb_persist := h\<rparr>, True)
           | (h, True) \<Rightarrow>
               (case getWebsiteProbeTasks probes e nowMs (Some clientId) True (pb_policy w) of
                  (p, None) \<Rightarrow> (w\<lparr>pb_persist := health_event ''website_probe_persistence'' ''error'' h, pb_policy := p\<rparr>, False)
                | (p, Some tasks) \<Rightarrow>
                    (if tasks = [] then (w\<lparr>pb_persist := h, pb_policy := p\<rparr>, True)
                     else case record_results dp clock uid recorded (List.map_filter (probe_check (env_iso e nowMs) tasks clientId) results) (pb_live w) of
                         (d, None) \<Rightarrow> (\<lparr>pb_live = d, pb_persist = health_event ''website_probe_persistence'' ''error'' h, pb_policy = p\<rparr>, False)
                       | (d, Some changed) \<Rightarrow>
                           (\<lparr>pb_live = (if changed then broadcastMetadataChanged clock [(''websites'', Bool True)] ToAll d else d),
                             pb_persist = h, pb_policy = p\<rparr>, True))))"

subsection \<open>An outage is not forgotten\<close>

text \<open>
  The queue with the rechecks that are under way. A recheck begins with the tasks an alarm finds due
  and ends any time later. \<open>rs_settled\<close> records the rechecks that went through.
\<close>

record recheck_state =
  rs_live :: live_do
  rs_running :: "(string \<times> recheck_task) list"
  rs_settled :: "recheck_task list"

datatype recheck_event =
    QueueE rat string jsobj
  | AlarmE rat
  | FinishE rat nat recheck_answers

fun recheck_step :: "(string \<Rightarrow> int option) \<Rightarrow> recheck_event \<Rightarrow> recheck_state \<Rightarrow> recheck_state" where
  "recheck_step dp (QueueE now uid check) s =
     (case queueWebsiteRecheck dp now uid check (rs_live s) of Some d \<Rightarrow> s\<lparr>rs_live := d\<rparr> | None \<Rightarrow> s)"
| "recheck_step dp (AlarmE now) s = s\<lparr>rs_running := rs_running s @ due_rechecks now (rs_live s)\<rparr>"
| "recheck_step dp (FinishE now i answers) s =
     (if i < length (rs_running s)
      then (let e = rs_running s ! i
            in s\<lparr>rs_live := finish_recheck dp now e answers (rs_live s),
                 rs_running := take i (rs_running s) @ drop (Suc i) (rs_running s),
                 rs_settled := (if recheck_outcome dp (snd e) answers \<noteq> None then snd e # rs_settled s else rs_settled s)\<rparr>)
      else s)"

definition tasks_of :: "recheck_state \<Rightarrow> (string \<times> recheck_task) set" where
  "tasks_of s = set (rs_running s) \<union> set (rechecks (rs_live s))"

text \<open>A random identifier is new.\<close>

fun recheck_event_ok :: "recheck_event \<Rightarrow> recheck_state \<Rightarrow> bool" where
  "recheck_event_ok (QueueE now uid check) s \<longleftrightarrow> (\<forall>(k, t) \<in> tasks_of s. rk_id t \<noteq> uid)"
| "recheck_event_ok _ s \<longleftrightarrow> True"

inductive recheck_run :: "(string \<Rightarrow> int option) \<Rightarrow> recheck_state \<Rightarrow> recheck_state \<Rightarrow> bool" for dp where
  none: "recheck_run dp s s"
| more: "recheck_run dp s s1 \<Longrightarrow> recheck_event_ok e s1 \<Longrightarrow> recheck_run dp s (recheck_step dp e s1)"

definition one_task :: "(string \<times> recheck_task) set \<Rightarrow> bool" where
  "one_task T \<longleftrightarrow> (\<forall>k t k' t'. (k, t) \<in> T \<longrightarrow> (k', t') \<in> T \<longrightarrow> rk_id t = rk_id t' \<longrightarrow> k = k' \<and> rk_check t = rk_check t')"

definition recheck_inv :: "recheck_state \<Rightarrow> bool" where
  "recheck_inv s \<longleftrightarrow> distinct (map fst (rechecks (rs_live s))) \<and> length (rechecks (rs_live s)) \<le> WEBSITE_RECHECK_MAX_PENDING \<and> one_task (tasks_of s)"

text \<open>The result is still queued, or a newer one of the same monitor is, or one of them was rechecked.\<close>

definition covers :: "(string \<Rightarrow> int option) \<Rightarrow> string \<Rightarrow> jsobj \<Rightarrow> recheck_task \<Rightarrow> bool" where
  "covers dp uid check t \<longleftrightarrow> (rk_id t = uid \<and> rk_check t = check) \<or> older dp check (rk_check t)"

definition remembered :: "(string \<Rightarrow> int option) \<Rightarrow> string \<Rightarrow> jsobj \<Rightarrow> recheck_state \<Rightarrow> bool" where
  "remembered dp uid check s \<longleftrightarrow>
     (\<exists>t. map_of (rechecks (rs_live s)) (check_key check) = Some t \<and> covers dp uid check t) \<or> list_ex (covers dp uid check) (rs_settled s)"

lemma one_task_copy:
  assumes "one_task T" "\<And>k t. (k, t) \<in> T' \<Longrightarrow> \<exists>x. (k, x) \<in> T \<and> rk_id x = rk_id t \<and> rk_check x = rk_check t"
  shows "one_task T'"
  unfolding one_task_def
proof (intro allI impI)
  fix k t k' t'
  assume a: "(k, t) \<in> T'" "(k', t') \<in> T'" "rk_id t = rk_id t'"
  from assms(2) [OF a(1)] obtain x where x: "(k, x) \<in> T" "rk_id x = rk_id t" "rk_check x = rk_check t" by blast
  from assms(2) [OF a(2)] obtain y where y: "(k', y) \<in> T" "rk_id y = rk_id t'" "rk_check y = rk_check t'" by blast
  show "k = k' \<and> rk_check t = rk_check t'" using assms(1) x y a(3) unfolding one_task_def by metis
qed

lemma one_task_subset: "one_task T \<Longrightarrow> T' \<subseteq> T \<Longrightarrow> one_task T'"
  by (rule one_task_copy) auto

lemma one_task_insert:
  assumes "one_task T" "\<And>k x. (k, x) \<in> T \<Longrightarrow> rk_id x \<noteq> rk_id t"
  shows "one_task (insert (key, t) T)"
  using assms unfolding one_task_def by (metis insert_iff prod.inject)

lemma older_trans: "older dp a b \<Longrightarrow> older dp b c \<Longrightarrow> older dp a c"
  by (auto simp: older_def split: option.splits)

lemma rechecks_alarm: "rechecks (scheduleExpiryAlarm now d) = rechecks d"
  by (simp add: scheduleExpiryAlarm_def split: list.split)

lemma rechecks_told: "rechecks (broadcastMetadataChanged now m aud d) = rechecks d"
  by (simp add: broadcastMetadataChanged_def broadcastToViewers_def)

lemma queue_cases:
  obtains (full) "queueWebsiteRecheck dp now uid check d = None"
  | (kept) d' where "queueWebsiteRecheck dp now uid check d = Some d'" "rechecks d' = rechecks d"
      "\<exists>p. map_of (rechecks d) (check_key check) = Some p \<and> \<not> older dp (rk_check p) check"
  | (put) d' where "queueWebsiteRecheck dp now uid check d = Some d'"
      "rechecks d' = AList.update (check_key check) \<lparr>rk_id = uid, rk_check = check, rk_retryAt = now + 1000, rk_attempts = 0\<rparr> (rechecks d)"
      "case map_of (rechecks d) (check_key check) of None \<Rightarrow> length (rechecks d) < WEBSITE_RECHECK_MAX_PENDING | Some p \<Rightarrow> older dp (rk_check p) check"
proof (cases "map_of (rechecks d) (check_key check)")
  case None
  then show ?thesis using full put
    by (cases "WEBSITE_RECHECK_MAX_PENDING \<le> length (rechecks d)") (simp_all add: queueWebsiteRecheck_def Let_def rechecks_alarm)
next
  case (Some p)
  then show ?thesis using kept put by (cases "older dp (rk_check p) check") (simp_all add: queueWebsiteRecheck_def Let_def rechecks_alarm)
qed

lemma length_update: "length (AList.update k v xs) = (if k \<in> fst ` set xs then length xs else Suc (length xs))"
  by (induction xs) auto

lemma set_update_subset: "set (AList.update k v xs) \<subseteq> insert (k, v) (set xs)"
  by (induction xs) auto

lemma set_delete_subset: "set (AList.delete k xs) \<subseteq> set xs"
  by (auto simp: AList.delete_eq)

lemma invariant_queue:
  assumes inv: "recheck_inv s" and new: "recheck_event_ok (QueueE now uid check) s"
  shows "recheck_inv (recheck_step dp (QueueE now uid check) s)"
proof (cases rule: queue_cases [of dp now uid check "rs_live s"])
  case (put d')
  let ?t = "\<lparr>rk_id = uid, rk_check = check, rk_retryAt = now + 1000, rk_attempts = 0\<rparr>"
  let ?q = "AList.update (check_key check) ?t (rechecks (rs_live s))"
  have len: "length ?q \<le> WEBSITE_RECHECK_MAX_PENDING"
    using put(3) inv map_of_eq_None_iff [of "rechecks (rs_live s)" "check_key check"]
    by (auto simp: length_update recheck_inv_def split: option.splits)
  have sub: "set (rs_running s) \<union> set ?q \<subseteq> insert (check_key check, ?t) (tasks_of s)"
    using set_update_subset by (fastforce simp: tasks_of_def)
  have "one_task (insert (check_key check, ?t) (tasks_of s))"
    by (rule one_task_insert) (use inv new in \<open>auto simp: recheck_inv_def\<close>)
  then have "one_task (set (rs_running s) \<union> set ?q)" by (rule one_task_subset [OF _ sub])
  then show ?thesis using inv put len by (simp add: recheck_inv_def tasks_of_def distinct_update)
qed (use inv in \<open>simp_all add: recheck_inv_def tasks_of_def\<close>)

lemma finish_cases:
  fixes key :: string
  obtains (gone) "recheck_outcome dp task answers \<noteq> None" "\<exists>t. map_of (rechecks d) key = Some t \<and> rk_id t = rk_id task"
      "rechecks (finish_recheck dp now (key, task) answers d) = AList.delete key (rechecks d)"
  | (later) "recheck_outcome dp task answers = None" "\<exists>t. map_of (rechecks d) key = Some t \<and> rk_id t = rk_id task"
      "rechecks (finish_recheck dp now (key, task) answers d) = AList.update key (task\<lparr>rk_attempts := rk_attempts task + 1,
          rk_retryAt := now + retry_delay (rk_attempts task)\<rparr>) (rechecks d)"
  | (other) "rechecks (finish_recheck dp now (key, task) answers d) = rechecks d"
proof (cases "case map_of (rechecks d) key of Some t \<Rightarrow> rk_id t = rk_id task | None \<Rightarrow> False")
  case True
  then have ex: "\<exists>t. map_of (rechecks d) key = Some t \<and> rk_id t = rk_id task" by (auto split: option.splits)
  show ?thesis
  proof (cases "recheck_outcome dp task answers")
    case None
    then show ?thesis using True later [OF None ex] by (simp add: finish_recheck_def Let_def)
  next
    case (Some told)
    then show ?thesis using True gone [OF _ ex] by (simp add: finish_recheck_def Let_def rechecks_told)
  qed
next
  case False
  then show ?thesis using other by (simp add: finish_recheck_def Let_def rechecks_told split: option.split)
qed

lemma invariant_finish:
  assumes inv: "recheck_inv s"
  shows "recheck_inv (recheck_step dp (FinishE now i answers) s)"
proof (cases "i < length (rs_running s)")
  case True
  obtain key task where e: "rs_running s ! i = (key, task)" by force
  have task: "(key, task) \<in> set (rs_running s)" using True e by (metis nth_mem)
  have fewer: "set (take i (rs_running s) @ drop (Suc i) (rs_running s)) \<subseteq> set (rs_running s)"
    by (auto dest: in_set_takeD in_set_dropD)
  let ?d = "finish_recheck dp now (key, task) answers (rs_live s)"
  define R where "R = rechecks ?d"
  have R: "distinct (map fst R) \<and> length R \<le> WEBSITE_RECHECK_MAX_PENDING \<and>
    (\<forall>k t. (k, t) \<in> set R \<longrightarrow> (\<exists>x. (k, x) \<in> tasks_of s \<and> rk_id x = rk_id t \<and> rk_check x = rk_check t))"
  proof (cases rule: finish_cases [of dp task answers "rs_live s" key now])
    case gone
    have "length (AList.delete key (rechecks (rs_live s))) \<le> length (rechecks (rs_live s))" by (simp add: AList.delete_eq)
    moreover have "\<exists>x. (k, x) \<in> tasks_of s \<and> rk_id x = rk_id t \<and> rk_check x = rk_check t" if "(k, t) \<in> set R" for k t
      using that set_delete_subset [of key "rechecks (rs_live s)"] unfolding R_def gone(3) by (auto simp: tasks_of_def)
    ultimately show ?thesis using inv by (simp add: R_def gone(3) recheck_inv_def distinct_delete)
  next
    case later
    then have "key \<in> fst ` set (rechecks (rs_live s))" using map_of_SomeD by force
    then have "length R = length (rechecks (rs_live s))" by (simp add: R_def later(3) length_update)
    moreover have "\<exists>x. (k, x) \<in> tasks_of s \<and> rk_id x = rk_id t \<and> rk_check x = rk_check t" if "(k, t) \<in> set R" for k t
      using that set_update_subset [of key _ "rechecks (rs_live s)"] task unfolding R_def later(3) by (fastforce simp: tasks_of_def)
    ultimately show ?thesis using inv by (simp add: R_def later(3) recheck_inv_def distinct_update)
  next
    case other
    then show ?thesis using inv unfolding R_def other by (auto simp: recheck_inv_def tasks_of_def)
  qed
  have lift: "\<exists>x. (k, x) \<in> tasks_of s \<and> rk_id x = rk_id t \<and> rk_check x = rk_check t"
    if "(k, t) \<in> tasks_of (recheck_step dp (FinishE now i answers) s)" for k t
    using that fewer R True by (auto simp: tasks_of_def e R_def Let_def)
  have "one_task (tasks_of (recheck_step dp (FinishE now i answers) s))"
    by (rule one_task_copy [OF _ lift]) (use inv in \<open>simp_all add: recheck_inv_def\<close>)
  then show ?thesis using R True unfolding recheck_inv_def by (auto simp: e R_def Let_def)
qed (simp add: inv)

lemma recheck_inv_step:
  assumes inv: "recheck_inv s" and ok: "recheck_event_ok e s"
  shows "recheck_inv (recheck_step dp e s)"
proof (cases e)
  case (AlarmE now)
  have "set (due_rechecks now (rs_live s)) \<subseteq> set (rechecks (rs_live s))"
    by (auto simp: due_rechecks_def dest!: in_set_takeD)
  then have "tasks_of (recheck_step dp e s) \<subseteq> tasks_of s" by (auto simp: AlarmE tasks_of_def)
  then have "one_task (tasks_of (recheck_step dp e s))" using inv one_task_subset by (auto simp: recheck_inv_def)
  then show ?thesis using inv by (simp add: recheck_inv_def AlarmE)
qed (use invariant_queue [OF inv] invariant_finish [OF inv] ok in simp_all)

lemma remembered_step:
  assumes inv: "recheck_inv s" and r: "remembered dp uid check s"
  shows "remembered dp uid check (recheck_step dp e s)"
proof (cases "list_ex (covers dp uid check) (rs_settled s)")
  case True
  then show ?thesis by (cases e) (auto simp: remembered_def Let_def split: option.split)
next
  case False
  let ?k = "check_key check"
  obtain t where t: "map_of (rechecks (rs_live s)) ?k = Some t" "covers dp uid check t" using r False by (auto simp: remembered_def)
  show ?thesis
  proof (cases e)
    case (QueueE now u c)
    show ?thesis
    proof (cases rule: queue_cases [of dp now u c "rs_live s"])
      case (put d')
      show ?thesis
      proof (cases "check_key c = ?k")
        case True
        then have "older dp (rk_check t) c" using put(3) t(1) by simp
        then have "older dp check c" using t(2) older_trans by (auto simp: covers_def)
        then show ?thesis using put True by (simp add: QueueE remembered_def update_conv' covers_def)
      qed (use put t in \<open>simp add: QueueE remembered_def update_conv'\<close>)
    qed (use t in \<open>simp_all add: QueueE remembered_def\<close>)
  next
    case (AlarmE now)
    then show ?thesis using t by (simp add: remembered_def)
  next
    case (FinishE now i answers)
    show ?thesis
    proof (cases "i < length (rs_running s)")
      case i: True
      obtain key task where x: "rs_running s ! i = (key, task)" by force
      have run: "(key, task) \<in> tasks_of s" using i x nth_mem by (force simp: tasks_of_def)
      have mine: "covers dp uid check task" if "key = ?k" "rk_id t = rk_id task"
      proof -
        have "(?k, t) \<in> tasks_of s" using map_of_SomeD [OF t(1)] by (simp add: tasks_of_def)
        then have "rk_check t = rk_check task" using inv run that unfolding recheck_inv_def one_task_def by metis
        then show ?thesis using t(2) that(2) by (simp add: covers_def)
      qed
      have "(map_of (rechecks (finish_recheck dp now (key, task) answers (rs_live s))) ?k \<noteq> None \<and>
          covers dp uid check (the (map_of (rechecks (finish_recheck dp now (key, task) answers (rs_live s))) ?k)))
        \<or> (recheck_outcome dp task answers \<noteq> None \<and> covers dp uid check task)"
      proof (cases rule: finish_cases [of dp task answers "rs_live s" key now])
        case gone
        then show ?thesis using t mine by (cases "key = ?k") (auto simp: delete_conv')
      next
        case later
        then show ?thesis using t mine by (cases "key = ?k") (auto simp: update_conv' covers_def)
      next
        case other
        then show ?thesis using t by simp
      qed
      then show ?thesis by (auto simp: FinishE remembered_def i x Let_def)
    qed (use t in \<open>simp add: FinishE remembered_def\<close>)
  qed
qed

lemma recheck_run_inv: "recheck_run dp s s' \<Longrightarrow> recheck_inv s \<Longrightarrow> recheck_inv s'"
  by (induction rule: recheck_run.induct) (simp_all add: recheck_inv_step)

definition new_recheck_state :: recheck_state where
  "new_recheck_state = \<lparr>rs_live = new_live_do, rs_running = [], rs_settled = []\<rparr>"

lemma new_recheck_inv: "recheck_inv new_recheck_state"
  by (simp add: recheck_inv_def new_recheck_state_def tasks_of_def new_live_do_def one_task_def)

text \<open>
  C38. An outage reported by an agent is not forgotten. Once \<open>queueWebsiteRecheck\<close> has accepted it,
  then, whatever other results are queued, alarms go off and rechecks end, even long after they
  began, the result stays queued until a recheck of it went through, unless a newer result of the
  same monitor configuration takes its place, for which the same holds. The queue never holds more
  than 256 tasks, the number an alarm looks at.
\<close>
theorem website_outage_rechecked:
  assumes "recheck_run dp new_recheck_state s" "recheck_event_ok (QueueE now uid check) s"
    and "\<exists>d. queueWebsiteRecheck dp now uid check (rs_live s) = Some d \<and> rechecks d \<noteq> rechecks (rs_live s)"
    and "recheck_run dp (recheck_step dp (QueueE now uid check) s) s'"
  shows "remembered dp uid check s' \<and> length (rechecks (rs_live s')) \<le> WEBSITE_RECHECK_MAX_PENDING"
proof -
  have inv: "recheck_inv s" by (rule recheck_run_inv [OF assms(1) new_recheck_inv])
  let ?s1 = "recheck_step dp (QueueE now uid check) s"
  have inv1: "recheck_inv ?s1" by (rule recheck_inv_step [OF inv assms(2)])
  have r1: "remembered dp uid check ?s1"
    using assms(3) by (cases rule: queue_cases [of dp now uid check "rs_live s"]) (auto simp: remembered_def update_conv' covers_def)
  have "recheck_inv s' \<and> remembered dp uid check s'"
    using assms(4) inv1 r1 by (induction rule: recheck_run.induct) (simp_all add: recheck_inv_step remembered_step)
  then show ?thesis by (simp add: recheck_inv_def)
qed

text \<open>An outage of monitor 7; its recheck fails once and stays queued.\<close>

definition sample_outage :: jsobj where
  "sample_outage = [(''monitor_id'', Num (FinI 7)), (''config_revision'', Str ''r''), (''checked_at'', Str ''t'')]"

definition failed_answers :: recheck_answers where
  "failed_answers = \<lparr>ra_monitor = None, ra_recorded = None, ra_monitor_again = None, ra_probe = None, ra_result_recorded = None\<rparr>"

theorem website_outage_rechecked_witness:
  "remembered (\<lambda>_. Some 5) ''u'' sample_outage (recheck_step (\<lambda>_. Some 5) (FinishE 9 0 failed_answers)
     (recheck_step (\<lambda>_. Some 5) (AlarmE 2000) (recheck_step (\<lambda>_. Some 5) (QueueE 0 ''u'' sample_outage) new_recheck_state)))"
proof -
  let ?dp = "\<lambda>_. Some 5 :: int option"
  let ?s1 = "recheck_step ?dp (QueueE 0 ''u'' sample_outage) new_recheck_state"
  have ok: "recheck_event_ok (QueueE 0 ''u'' sample_outage) new_recheck_state"
    by (simp add: tasks_of_def new_recheck_state_def new_live_do_def)
  have queued: "\<exists>d. queueWebsiteRecheck ?dp 0 ''u'' sample_outage (rs_live new_recheck_state) = Some d \<and> rechecks d \<noteq> rechecks (rs_live new_recheck_state)"
    by (simp add: queueWebsiteRecheck_def Let_def new_recheck_state_def new_live_do_def WEBSITE_RECHECK_MAX_PENDING_def rechecks_alarm)
  have "recheck_run ?dp ?s1 (recheck_step ?dp (FinishE 9 0 failed_answers) (recheck_step ?dp (AlarmE 2000) ?s1))"
    by (rule recheck_run.more [OF recheck_run.more [OF recheck_run.none]]) simp_all
  then show ?thesis using website_outage_rechecked [OF recheck_run.none ok queued] by blast
qed

end
