(* ===== verification/LoginLimits.thy ===== *)
theory LoginLimits
  imports JsJson
begin

section \<open>Request bodies and the record of failed logins\<close>

text \<open>
  What the handlers of \<open>routes/public.ts\<close> share: reading a JSON body with a size limit
  (\<open>utils/request-body.ts\<close>), the buckets under which failures are counted, the lock they lead to and
  the throttled audit entries. The table of failures is kept by two stored procedures of the schema
  (\<open>cfm_record_login_failures\<close>, \<open>cfm_clear_observed_login_failures\<close>), modelled here with the
  worker's calls; a time stamp is its number of milliseconds.
\<close>

subsection \<open>Reading a body\<close>

record web_request =
  wr_content_length :: "string option"
  wr_chunks :: "bytes list"

datatype body_failure = BodyTooLarge | InvalidJson

text \<open>The loop over the chunks of the stream: None as soon as more than the limit has arrived.\<close>

fun read_chunks :: "nat \<Rightarrow> bytes \<Rightarrow> bytes list \<Rightarrow> bytes option" where
  "read_chunks maxBytes got [] = Some got"
| "read_chunks maxBytes got (value # rest) =
     (if maxBytes < length got + length value then None else read_chunks maxBytes (got @ value) rest)"

definition readRequestBytesWithLimit :: "web_request \<Rightarrow> nat \<Rightarrow> bytes option" where
  "readRequestBytesWithLimit request maxBytes =
     (let declaredLength = str_to_num (case wr_content_length request of Some t \<Rightarrow> if t = [] then ''0'' else t | None \<Rightarrow> ''0'')
      in if js_isFinite declaredLength \<and> js_lt (FinI (int maxBytes)) declaredLength then None
         else read_chunks maxBytes [] (wr_chunks request))"

definition readJsonWithLimit :: "web_request \<Rightarrow> nat \<Rightarrow> body_failure + jsval" where
  "readJsonWithLimit request maxBytes = (case readRequestBytesWithLimit request maxBytes of
       None \<Rightarrow> Inl BodyTooLarge
     | Some bytes \<Rightarrow> (case JSON_parse (utf8_decode bytes) of None \<Rightarrow> Inl InvalidJson | Some body \<Rightarrow> Inr body))"

lemma read_chunks_exact:
  "read_chunks maxBytes got cs = (if length got \<le> maxBytes \<or> cs = [] then
     (if cs = [] \<or> length got + length (concat cs) \<le> maxBytes then Some (got @ concat cs) else None) else None)"
proof (induction cs arbitrary: got)
  case (Cons c cs)
  then show ?case by (cases "cs = []") auto
qed simp

lemma zero_text: "str_to_num ''0'' = Fin 0"
  by code_simp

text \<open>However the body is cut into chunks, it is read exactly when it fits, and then as it is.\<close>

lemma body_read_exact:
  "readRequestBytesWithLimit \<lparr>wr_content_length = None, wr_chunks = cs\<rparr> maxBytes =
     (if length (concat cs) \<le> maxBytes then Some (concat cs) else None)"
  by (simp add: readRequestBytesWithLimit_def Let_def read_chunks_exact zero_text)

subsection \<open>Failures of a bucket\<close>

record login_row =
  failure_revision :: string
  failures :: nat
  first_failed_at :: int
  last_failed_at :: int
  locked_until :: "int option"

type_synonym login_table = "string \<rightharpoonup> login_row"

definition FAILURE_WINDOW_MS :: int where "FAILURE_WINDOW_MS = 15 * 60 * 1000"

definition lock_ms :: "nat \<Rightarrow> int" where
  "lock_ms n = 1000 * min 900 (30 * 2 ^ min (n - 5) 5)"

definition later :: "int option \<Rightarrow> int option \<Rightarrow> int option" where
  "later a b = (case (a, b) of (Some x, Some y) \<Rightarrow> Some (max x y) | (Some x, None) \<Rightarrow> Some x | (None, _) \<Rightarrow> b)"

text \<open>One round of the procedure: the upsert, then the lock computed from the saved row.\<close>

definition failed_row :: "int \<Rightarrow> string \<Rightarrow> login_row option \<Rightarrow> login_row" where
  "failed_row at_ms revision row =
     (let saved = (case row of
            None \<Rightarrow> \<lparr>failure_revision = revision, failures = 1, first_failed_at = at_ms, last_failed_at = at_ms, locked_until = None\<rparr>
          | Some r \<Rightarrow>
              (let last = max at_ms (last_failed_at r); same = (last - first_failed_at r \<le> FAILURE_WINDOW_MS)
               in r\<lparr>failures := (if same then min (failures r) 2147483646 + 1 else 1),
                    first_failed_at := (if same then first_failed_at r else last),
                    last_failed_at := last, failure_revision := revision\<rparr>));
          next_lock = (if 5 \<le> failures saved then Some (last_failed_at saved + lock_ms (failures saved)) else None);
          kept = (case locked_until saved of Some l \<Rightarrow> if last_failed_at saved < l then Some l else None | None \<Rightarrow> None)
      in saved\<lparr>locked_until := later next_lock kept\<rparr>)"

definition recordLoginFailure :: "(string \<Rightarrow> string) \<Rightarrow> string list \<Rightarrow> int \<Rightarrow> login_table \<Rightarrow> login_table" where
  "recordLoginFailure revision buckets at_ms limits =
     fold (\<lambda>b t. t(b \<mapsto> failed_row at_ms (revision b) (t b)))
       (filter (\<lambda>b. list_ex (\<lambda>c. c \<noteq> CHR '' '') b) (js_uniq buckets)) limits"

type_synonym login_states = "(string \<times> login_row option) list"

definition loadLoginRateLimitStates :: "login_table \<Rightarrow> string list \<Rightarrow> login_states" where
  "loadLoginRateLimitStates limits buckets = map (\<lambda>b. (b, limits b)) (js_uniq buckets)"

definition parseTimeMs :: "int option \<Rightarrow> int" where
  "parseTimeMs t = (case t of Some ms \<Rightarrow> ms | None \<Rightarrow> 0)"

definition getLoginRetryAfterSeconds :: "login_states \<Rightarrow> int \<Rightarrow> int" where
  "getLoginRetryAfterSeconds states nowMs =
     (let lockedUntilMs = foldl (\<lambda>m s. max m (parseTimeMs (Option.bind (snd s) locked_until))) 0 states
      in if lockedUntilMs \<le> nowMs then 0 else (lockedUntilMs - nowMs + 999) div 1000)"

text \<open>Only rows that are still as they were observed are deleted.\<close>

definition clear_observed :: "(string \<times> login_row) list \<Rightarrow> login_table \<Rightarrow> login_table" where
  "clear_observed states limits = (\<lambda>b. case limits b of
       None \<Rightarrow> None
     | Some r \<Rightarrow> if list_ex (\<lambda>(n, seen). n = b \<and> failure_revision seen = failure_revision r) states then None else Some r)"

definition clearLoginFailures :: "string list \<Rightarrow> login_states \<Rightarrow> login_table \<Rightarrow> login_table" where
  "clearLoginFailures buckets observed limits =
     clear_observed (List.map_filter (\<lambda>b. case map_of observed b of Some (Some r) \<Rightarrow> Some (b, r) | _ \<Rightarrow> None) (js_uniq buckets)) limits"

definition deleteLoginRateLimitsBefore :: "int \<Rightarrow> int \<Rightarrow> login_table \<Rightarrow> login_table" where
  "deleteLoginRateLimitsBefore before dbnow limits = (\<lambda>b. case limits b of
       None \<Rightarrow> None
     | Some r \<Rightarrow> if last_failed_at r < before \<and> (case locked_until r of None \<Rightarrow> True | Some l \<Rightarrow> l < dbnow) then None else Some r)"

subsection \<open>Buckets\<close>

definition MAX_LOGIN_USERNAME_LENGTH :: nat where "MAX_LOGIN_USERNAME_LENGTH = 128"
definition LOGIN_RATE_LIMIT_CLEANUP_AGE_MS :: int where "LOGIN_RATE_LIMIT_CLEANUP_AGE_MS = 24 * 60 * 60 * 1000"
definition LOGIN_RATE_LIMIT_CLEANUP_INTERVAL_MS :: int where "LOGIN_RATE_LIMIT_CLEANUP_INTERVAL_MS = 10 * 60 * 1000"
definition LOGIN_FAILURE_AUDIT_THROTTLE_MS :: int where "LOGIN_FAILURE_AUDIT_THROTTLE_MS = 60 * 1000"
definition LOGIN_FAILURE_AUDIT_THROTTLE_MAX_ENTRIES :: nat where "LOGIN_FAILURE_AUDIT_THROTTLE_MAX_ENTRIES = 512"

definition normalizeLoginUsername :: "string \<Rightarrow> string" where
  "normalizeLoginUsername name = take MAX_LOGIN_USERNAME_LENGTH (js_toLowerCase (js_trim name))"

definition loginRateLimitBuckets :: "string \<Rightarrow> string \<Rightarrow> string list" where
  "loginRateLimitBuckets ip name =
     [''login:ip:'' @ ip, ''login:ip-user:'' @ ip @ '':'' @ normalizeLoginUsername name]"

definition mfaRateLimitBuckets :: "string \<Rightarrow> string \<Rightarrow> string list" where
  "mfaRateLimitBuckets ip uid = [''mfa:ip:'' @ ip, ''mfa:ip-user:'' @ ip @ '':'' @ uid]"

subsection \<open>State and audit\<close>

record login_db =
  login_limits :: login_table
  audit_log :: "(string \<times> string \<times> string \<times> string) list"
  loginFailureAuditThrottle :: "(string \<times> int) list"
  lastLoginRateLimitCleanupAt :: int

definition cleanup_due :: "int \<Rightarrow> login_db \<Rightarrow> bool" where
  "cleanup_due nowMs d \<longleftrightarrow> lastLoginRateLimitCleanupAt d \<le> 0 \<or>
     LOGIN_RATE_LIMIT_CLEANUP_INTERVAL_MS \<le> nowMs - lastLoginRateLimitCleanupAt d"

definition cleanupExpiredLoginRateLimits :: "int \<Rightarrow> login_db \<Rightarrow> login_db" where
  "cleanupExpiredLoginRateLimits nowMs d =
     (if cleanup_due nowMs d
      then d\<lparr>login_limits := deleteLoginRateLimitsBefore (nowMs - LOGIN_RATE_LIMIT_CLEANUP_AGE_MS) nowMs (login_limits d),
             lastLoginRateLimitCleanupAt := nowMs\<rparr>
      else d)"

definition loginFailureAuditThrottleKey :: "string \<Rightarrow> string \<Rightarrow> string \<Rightarrow> string" where
  "loginFailureAuditThrottleKey name ip reason = reason @ '':'' @ ip @ '':'' @ normalizeLoginUsername name"

text \<open>The eviction loop: it visits the entries in order and stops as soon as there is room.\<close>

fun evict_throttle :: "int \<Rightarrow> (string \<times> int) list \<Rightarrow> (string \<times> int) list \<Rightarrow> (string \<times> int) list" where
  "evict_throttle nowMs [] m = m"
| "evict_throttle nowMs ((k, expiresAt) # es) m =
     (let m1 = (if expiresAt \<le> nowMs \<or> LOGIN_FAILURE_AUDIT_THROTTLE_MAX_ENTRIES \<le> length m then AList.delete k m else m)
      in if length m1 < LOGIN_FAILURE_AUDIT_THROTTLE_MAX_ENTRIES then m1 else evict_throttle nowMs es m1)"

definition auditLoginFailure :: "string \<Rightarrow> string \<Rightarrow> string \<Rightarrow> int \<Rightarrow> login_db \<Rightarrow> login_db" where
  "auditLoginFailure name ip reason nowMs d =
     (let key = loginFailureAuditThrottleKey name ip reason; m = loginFailureAuditThrottle d
      in if (case map_of m key of Some expiresAt \<Rightarrow> nowMs < expiresAt | None \<Rightarrow> False) then d
         else let m1 = (if LOGIN_FAILURE_AUDIT_THROTTLE_MAX_ENTRIES \<le> length m then evict_throttle nowMs m m else m);
                  who = take MAX_LOGIN_USERNAME_LENGTH name
              in d\<lparr>loginFailureAuditThrottle := AList.update key (nowMs + LOGIN_FAILURE_AUDIT_THROTTLE_MS) m1,
                   audit_log := audit_log d @ [(if who = [] then ''anonymous'' else who, ''login_failed'',
                     (case JSON_stringify (Obj [(''username'', Str who), (''ip'', Str ip), (''reason'', Str reason)]) of
                        Some t \<Rightarrow> t | None \<Rightarrow> []), ''warn'')]\<rparr>)"

subsection \<open>How many guesses a bucket lets through\<close>

definition unlocked :: "int \<Rightarrow> login_row option \<Rightarrow> bool" where
  "unlocked nowMs row \<longleftrightarrow> parseTimeMs (Option.bind row locked_until) \<le> nowMs"

definition swept :: "int \<Rightarrow> login_row option \<Rightarrow> login_row option" where
  "swept nowMs row = (case row of None \<Rightarrow> None
     | Some r \<Rightarrow> if last_failed_at r < nowMs - LOGIN_RATE_LIMIT_CLEANUP_AGE_MS then None else Some r)"

text \<open>A row in its window: at most nine failures, later ones only after the locks of the earlier ones.\<close>

definition row_ok :: "login_row \<Rightarrow> bool" where
  "row_ok r \<longleftrightarrow> 1 \<le> failures r \<and> failures r \<le> 9 \<and> first_failed_at r \<le> last_failed_at r \<and>
     first_failed_at r + 30000 * (2 ^ (failures r - 5) - 1) \<le> last_failed_at r \<and>
     (5 \<le> failures r \<longrightarrow> (\<exists>l. locked_until r = Some l \<and> last_failed_at r + lock_ms (failures r) \<le> l))"

text \<open>\<open>k\<close> windows are over, and every one of them had at most nine failures.\<close>

definition spent :: "int \<Rightarrow> int \<Rightarrow> nat \<Rightarrow> nat \<Rightarrow> login_row option \<Rightarrow> bool" where
  "spent t0 now n k row \<longleftrightarrow> (case row of
       None \<Rightarrow> n \<le> 9 * k \<and> t0 + int k * (FAILURE_WINDOW_MS + 1) \<le> now
     | Some r \<Rightarrow> row_ok r \<and> last_failed_at r \<le> now \<and> n \<le> 9 * k + failures r \<and>
         t0 + int k * (FAILURE_WINDOW_MS + 1) \<le> first_failed_at r)"

lemma nine_failures: "(n::nat) \<le> 9 \<Longrightarrow> 5 \<le> n \<Longrightarrow> n = 5 \<or> n = 6 \<or> n = 7 \<or> n = 8 \<or> n = 9"
  by arith

lemma later_ge: "\<exists>l. later (Some x) b = Some l \<and> x \<le> l"
  by (cases b) (auto simp: later_def)

lemma failed_first: "failed_row t rv None = \<lparr>failure_revision = rv, failures = 1, first_failed_at = t, last_failed_at = t, locked_until = None\<rparr>"
  by (simp add: failed_row_def Let_def later_def)

lemma failed_next:
  assumes "last_failed_at r \<le> t"
  shows "failures (failed_row t rv (Some r)) = (if t - first_failed_at r \<le> FAILURE_WINDOW_MS then min (failures r) 2147483646 + 1 else 1)"
    "first_failed_at (failed_row t rv (Some r)) = (if t - first_failed_at r \<le> FAILURE_WINDOW_MS then first_failed_at r else t)"
    "last_failed_at (failed_row t rv (Some r)) = t"
    "5 \<le> failures (failed_row t rv (Some r)) \<Longrightarrow>
       \<exists>l. locked_until (failed_row t rv (Some r)) = Some l \<and> t + lock_ms (failures (failed_row t rv (Some r))) \<le> l"
  using assms later_ge by (auto simp: failed_row_def Let_def max_absorb1)

lemma failed_revision: "failure_revision (failed_row t rv row) = rv"
  by (cases row) (simp_all add: failed_row_def Let_def)

lemma waited:
  assumes "row_ok r" "unlocked now (Some r)" "now \<le> t" "t - first_failed_at r \<le> FAILURE_WINDOW_MS"
    and that: "last_failed_at r \<le> t"
  shows "failures r \<noteq> 9 \<and> first_failed_at r + 30000 * (2 ^ (failures r + 1 - 5) - 1) \<le> t"
proof (cases "5 \<le> failures r")
  case True
  then obtain l where l: "locked_until r = Some l" "last_failed_at r + lock_ms (failures r) \<le> l"
    using assms(1) by (auto simp: row_ok_def)
  have "last_failed_at r + lock_ms (failures r) \<le> t"
    using l assms(2,3) by (simp add: unlocked_def parseTimeMs_def)
  then show ?thesis
    using nine_failures [OF _ True] assms(1,4) by (auto simp: row_ok_def lock_ms_def FAILURE_WINDOW_MS_def)
next
  case False
  then show ?thesis using assms(1) that by (auto simp: row_ok_def)
qed

lemma spent_failure:
  assumes "spent t0 now n k row" "now \<le> t" "unlocked b row" "b \<le> t"
  shows "\<exists>k. spent t0 t (Suc n) k (Some (failed_row t rv row))"
proof (cases row)
  case None
  then show ?thesis using assms(1,2) by (intro exI [of _ k]) (simp add: spent_def failed_first row_ok_def)
next
  case (Some r)
  have r: "row_ok r" "last_failed_at r \<le> t" "n \<le> 9 * k + failures r" "t0 + int k * (FAILURE_WINDOW_MS + 1) \<le> first_failed_at r"
    using assms(1,2) by (simp_all add: spent_def Some)
  note next_row = failed_next [OF r(2), of rv]
  show ?thesis
  proof (cases "t - first_failed_at r \<le> FAILURE_WINDOW_MS")
    case True
    have w: "failures r \<noteq> 9 \<and> first_failed_at r + 30000 * (2 ^ (failures r + 1 - 5) - 1) \<le> t"
      using waited [OF r(1) _ assms(4) True r(2)] assms(3) Some by blast
    have small: "min (failures r) 2147483646 = failures r" using r(1) by (simp add: row_ok_def)
    have "spent t0 t (Suc n) k (Some (failed_row t rv (Some r)))"
      using r w next_row True by (auto simp: spent_def row_ok_def small)
    then show ?thesis using Some by blast
  next
    case False
    have "spent t0 t (Suc n) (Suc k) (Some (failed_row t rv (Some r)))"
      using r next_row False by (auto simp: spent_def row_ok_def algebra_simps)
    then show ?thesis using Some by blast
  qed
qed

lemma spent_swept:
  assumes "spent t0 now n k row" "now \<le> t"
  shows "\<exists>k. spent t0 t n k (swept t row)"
proof (cases "swept t row = row")
  case True
  then show ?thesis using assms by (intro exI [of _ k]) (auto simp: spent_def split: option.splits)
next
  case False
  then obtain r where r: "row = Some r" "swept t row = None" "last_failed_at r < t - LOGIN_RATE_LIMIT_CLEANUP_AGE_MS"
    by (auto simp: swept_def split: option.splits if_splits)
  have "spent t0 t n (Suc k) None"
    using assms(1) r(1,3) by (auto simp: spent_def row_ok_def LOGIN_RATE_LIMIT_CLEANUP_AGE_MS_def FAILURE_WINDOW_MS_def algebra_simps)
  then show ?thesis using r(2) by auto
qed

lemma spent_bound:
  assumes "spent t0 now n k row"
  shows "int n \<le> 9 * ((now - t0) div (FAILURE_WINDOW_MS + 1) + 1)"
proof -
  have le: "t0 + int k * (FAILURE_WINDOW_MS + 1) \<le> now" and n: "n \<le> 9 * k + 9"
    using assms by (auto simp: spent_def row_ok_def split: option.splits)
  have "int k \<le> (now - t0) div (FAILURE_WINDOW_MS + 1)"
    using zdiv_mono1 [of "int k * (FAILURE_WINDOW_MS + 1)" "now - t0" "FAILURE_WINDOW_MS + 1"] le
    by (simp add: FAILURE_WINDOW_MS_def)
  moreover have "int n \<le> 9 * int k + 9" using n by linarith
  ultimately show ?thesis by (simp add: distrib_left)
qed

text \<open>
  A series of events that touch one row of the table: an event begins and ends, may sweep the row
  first, and a guess is let through only if the row is not locked then and is recorded when the
  event ends. Events that are not \<open>plain\<close> may do anything to the row.
\<close>

fun in_order :: "('e \<Rightarrow> int) \<Rightarrow> ('e \<Rightarrow> int) \<Rightarrow> int \<Rightarrow> 'e list \<Rightarrow> bool" where
  "in_order began ended t [] \<longleftrightarrow> True"
| "in_order began ended t (e # es) \<longleftrightarrow> t \<le> began e \<and> began e \<le> ended e \<and> in_order began ended (ended e) es"

fun end_time :: "('e \<Rightarrow> int) \<Rightarrow> int \<Rightarrow> 'e list \<Rightarrow> int" where
  "end_time ended t [] = t"
| "end_time ended t (e # es) = end_time ended (ended e) es"

fun count_guesses :: "('e \<Rightarrow> 's \<Rightarrow> 's) \<Rightarrow> ('e \<Rightarrow> 's \<Rightarrow> bool) \<Rightarrow> 'e list \<Rightarrow> 's \<Rightarrow> nat" where
  "count_guesses step guess [] s = 0"
| "count_guesses step guess (e # es) s = (if guess e s then 1 else 0) + count_guesses step guess es (step e s)"

fun all_along :: "('e \<Rightarrow> 's \<Rightarrow> 's) \<Rightarrow> ('e \<Rightarrow> 's \<Rightarrow> bool) \<Rightarrow> 'e list \<Rightarrow> 's \<Rightarrow> bool" where
  "all_along step P [] s \<longleftrightarrow> True"
| "all_along step P (e # es) s \<longleftrightarrow> P e s \<and> all_along step P es (step e s)"

locale guess_limit =
  fixes step :: "'e \<Rightarrow> 's \<Rightarrow> 's" and row :: "'s \<Rightarrow> login_row option"
    and guess plain :: "'e \<Rightarrow> 's \<Rightarrow> bool" and began ended :: "'e \<Rightarrow> int"
  assumes guess_recorded: "guess e s \<Longrightarrow> plain e s \<Longrightarrow>
      \<exists>r0 rv. (r0 = row s \<or> r0 = swept (began e) (row s)) \<and> unlocked (began e) r0 \<and> row (step e s) = Some (failed_row (ended e) rv r0)"
    and no_guess: "\<not> guess e s \<Longrightarrow> plain e s \<Longrightarrow> row (step e s) = row s \<or> row (step e s) = swept (began e) (row s)"
begin

lemma spent_later:
  assumes "spent t0 now n k r" "now \<le> t" "r0 = r \<or> r0 = swept t r"
  shows "\<exists>k. spent t0 t n k r0"
  using assms spent_swept [OF assms(1,2)] by (auto simp: spent_def split: option.splits intro: exI [of _ k])

lemma spent_run:
  assumes "spent t0 now n k (row s)" "in_order began ended now es" "all_along step plain es s"
  shows "int (n + count_guesses step guess es s) \<le> 9 * ((end_time ended now es - t0) div (FAILURE_WINDOW_MS + 1) + 1)"
  using assms
proof (induction es arbitrary: n k now s)
  case Nil
  then show ?case using spent_bound by simp
next
  case (Cons e es)
  have t: "now \<le> began e" "began e \<le> ended e" "in_order began ended (ended e) es" using Cons.prems(2) by auto
  have p: "plain e s" "all_along step plain es (step e s)" using Cons.prems(3) by auto
  show ?case
  proof (cases "guess e s")
    case True
    then obtain r0 rv where r0: "r0 = row s \<or> r0 = swept (began e) (row s)" "unlocked (began e) r0"
      "row (step e s) = Some (failed_row (ended e) rv r0)" using guess_recorded [OF True p(1)] by blast
    then obtain k1 where "spent t0 (began e) n k1 r0" using spent_later [OF Cons.prems(1) t(1)] by blast
    then obtain k2 where "spent t0 (ended e) (Suc n) k2 (row (step e s))"
      using spent_failure [OF _ t(2) r0(2) t(2)] r0(3) by metis
    then show ?thesis using Cons.IH [OF _ t(3) p(2)] True by fastforce
  next
    case False
    then obtain k1 where "spent t0 (began e) n k1 (row (step e s))"
      using spent_later [OF Cons.prems(1) t(1)] no_guess [OF False p(1)] by blast
    then have "spent t0 (ended e) n k1 (row (step e s))" using t(2) by (auto simp: spent_def split: option.splits)
    then show ?thesis using Cons.IH [OF _ t(3) p(2)] False by simp
  qed
qed

lemma guesses_bounded:
  assumes "row s = None" "in_order began ended t0 es" "all_along step plain es s"
  shows "int (count_guesses step guess es s) \<le> 9 * ((end_time ended t0 es - t0) div (FAILURE_WINDOW_MS + 1) + 1)"
  using spent_run [of t0 t0 0 0 s es] assms by (simp add: spent_def)

end

end
