(* ===== verification/LoginFlow.thy ===== *)
theory LoginFlow
  imports LoginLimits Password Mfa MonitorReport
begin

section \<open>Logging in\<close>

text \<open>
  The handlers \<open>POST /login\<close> and \<open>POST /login/mfa\<close> of \<open>routes/public.ts\<close> with
  \<open>completeAdminLogin\<close>. They compose the body reader and the failure table of \<open>LoginLimits\<close> with
  passwords, tokens, cookies and second factors. A handler takes the answers of the database and the
  crypto of its environment, the request with its clock readings (\<open>rq_now\<close> when it begins,
  \<open>rq_failed\<close> when a failure is recorded) and the shared state; it returns the new state, the
  response cookies and the response. Background work is done before the handler returns, and a
  handler whose database calls fail is outside the model. Texts shown to users are constructors.
\<close>

subsection \<open>Environment, requests and responses\<close>

record login_user =
  lu_uuid :: string
  lu_username :: string
  lu_passwd :: string
  lu_session_version :: jsnum
  lu_totp_secret_enc :: "string option"
  lu_totp_enabled_at :: "string option"

record login_env =
  le_sign :: jwt_sign
  le_verify :: jwt_verify
  le_secrets :: mfa_env
  le_pw_verify :: "string \<Rightarrow> jsval \<Rightarrow> jsval \<Rightarrow> pw_error + bool"
  le_pw_hash :: "string \<Rightarrow> jsval \<Rightarrow> pw_error + string"
  le_crypto :: mfa_crypto
  le_hmac :: "bytes \<Rightarrow> bytes \<Rightarrow> bytes"
  le_rpc :: rpc
  le_date_parse :: "string \<Rightarrow> jsnum"
  le_user_by_name :: "string \<Rightarrow> login_user option"
  le_user_by_uuid :: "string \<Rightarrow> login_user option"
  le_user_count :: nat
  le_revision :: "string \<Rightarrow> string"
  le_jti :: string
  le_csrf_bytes :: bytes
  le_iv :: bytes

record login_request =
  rq_body :: web_request
  rq_ip_header :: "string option"
  rq_ctx :: ctx
  rq_now :: int
  rq_failed :: int

record login_world =
  lw_db :: login_db
  lw_edge :: "(string \<times> jsnum) list"
  lw_rehashed :: "(string \<times> string \<times> string) list"

datatype login_response =
    BodyRejected nat | MissingCredentials | CredentialsTooLong | LoginRateLimited int | NoAdminYet | WrongCredentials
  | MfaRequired string | LoggedIn string string string | JwtSecretMissing | ServerError
  | MfaInputInvalid | MfaChallengeInvalid | MfaRateLimited int | MfaKeysUnavailable | MfaUnavailable | MfaInvalid

fun login_status :: "login_response \<Rightarrow> nat" where
  "login_status (BodyRejected n) = n" | "login_status MissingCredentials = 400" | "login_status CredentialsTooLong = 400"
| "login_status (LoginRateLimited _) = 429" | "login_status NoAdminYet = 409" | "login_status WrongCredentials = 401"
| "login_status (MfaRequired _) = 200" | "login_status (LoggedIn _ _ _) = 200" | "login_status JwtSecretMissing = 500"
| "login_status ServerError = 500" | "login_status MfaInputInvalid = 400" | "login_status MfaChallengeInvalid = 401"
| "login_status (MfaRateLimited _) = 429" | "login_status MfaKeysUnavailable = 500" | "login_status MfaUnavailable = 503"
| "login_status MfaInvalid = 401"

definition MAX_LOGIN_PASSWORD_LENGTH :: nat where "MAX_LOGIN_PASSWORD_LENGTH = 4096"
definition MAX_MFA_CHALLENGE_LENGTH :: nat where "MAX_MFA_CHALLENGE_LENGTH = 4096"
definition MAX_MFA_CODE_LENGTH :: nat where "MAX_MFA_CODE_LENGTH = 128"
definition MAX_PUBLIC_JSON_BYTES :: nat where "MAX_PUBLIC_JSON_BYTES = 8 * 1024"
definition DUMMY_ADMIN_PASSWORD_HASH :: string where
  "DUMMY_ADMIN_PASSWORD_HASH = ''pbkdf2_sha256$100000$AAAAAAAAAAAAAAAAAAAAAA==$AAAAAAAAAAAAAAAAAAAAAAAAAAAAAAAAAAAAAAAAAAA=''"

definition readPublicJsonObject :: "web_request \<Rightarrow> login_response + jsobj" where
  "readPublicJsonObject request = (case readJsonWithLimit request MAX_PUBLIC_JSON_BYTES of
       Inl BodyTooLarge \<Rightarrow> Inl (BodyRejected 413)
     | Inl InvalidJson \<Rightarrow> Inl (BodyRejected 400)
     | Inr (Obj body) \<Rightarrow> Inr body
     | Inr _ \<Rightarrow> Inl (BodyRejected 400))"

definition getClientIp :: "login_request \<Rightarrow> string" where
  "getClientIp rq = getCloudflareClientIp (rq_ip_header rq) ''unknown''"

definition user_identity :: "login_user \<Rightarrow> admin_identity" where
  "user_identity u = \<lparr>userId = lu_uuid u, username = lu_username u, sessionVersion = lu_session_version u\<rparr>"

definition has_mfa :: "login_user \<Rightarrow> bool" where
  "has_mfa u \<longleftrightarrow> (case (lu_totp_enabled_at u, lu_totp_secret_enc u) of (Some a, Some s) \<Rightarrow> a \<noteq> [] \<and> s \<noteq> [] | _ \<Rightarrow> False)"

definition factor_user :: "login_user \<Rightarrow> mfa_user" where
  "factor_user u = \<lparr>user_uuid = lu_uuid u, user_session_version = lu_session_version u,
     totp_enabled_at = (case lu_totp_enabled_at u of Some s \<Rightarrow> s | None \<Rightarrow> []),
     totp_secret_enc = (case lu_totp_secret_enc u of Some s \<Rightarrow> s | None \<Rightarrow> [])\<rparr>"

subsection \<open>Handlers\<close>

definition completeAdminLogin ::
  "login_env \<Rightarrow> login_request \<Rightarrow> login_user \<Rightarrow> login_states \<Rightarrow> login_world \<Rightarrow> login_world \<times> ctx \<times> login_response" where
  "completeAdminLogin env rq user observed w =
     (case generateToken (le_sign env) (rq_now rq) (user_identity user) (JWT_SECRET (le_secrets env)) of
        Inl AuthConfigurationError \<Rightarrow> (w, rq_ctx rq, JwtSecretMissing)
      | Inl JwtRejected \<Rightarrow> (w, rq_ctx rq, ServerError)
      | Inr token \<Rightarrow>
          (case ensureAdminCsrfCookie (le_csrf_bytes env) (setAdminSessionCookie token (rq_ctx rq)) of
             (c, csrf) \<Rightarrow>
               (let d = lw_db w;
                    limits = (if list_ex (\<lambda>s. snd s \<noteq> None) observed
                              then clearLoginFailures (map fst observed) observed (login_limits d) else login_limits d)
                in (w\<lparr>lw_db := d\<lparr>login_limits := limits, audit_log := audit_log d @ [(lu_username user, ''login'', [], ''info'')]\<rparr>,
                      lw_edge := lw_edge w @ [(lu_uuid user, lu_session_version user)]\<rparr>,
                    c, LoggedIn csrf (lu_uuid user) (lu_username user)))))"

text \<open>A failed attempt is counted in the buckets and audited.\<close>

definition fail_attempt ::
  "login_env \<Rightarrow> login_request \<Rightarrow> string list \<Rightarrow> string \<Rightarrow> string \<Rightarrow> login_world \<Rightarrow> login_world" where
  "fail_attempt env rq buckets name reason w =
     w\<lparr>lw_db := auditLoginFailure name (getClientIp rq) reason (rq_failed rq)
        ((lw_db w)\<lparr>login_limits := recordLoginFailure (le_revision env) buckets (rq_failed rq) (login_limits (lw_db w))\<rparr>)\<rparr>"

definition login_cleanup :: "login_request \<Rightarrow> login_world \<Rightarrow> login_world" where
  "login_cleanup rq w =
     (if lastLoginRateLimitCleanupAt (lw_db w) = 0 \<or>
         LOGIN_RATE_LIMIT_CLEANUP_INTERVAL_MS \<le> rq_now rq - lastLoginRateLimitCleanupAt (lw_db w)
      then w\<lparr>lw_db := cleanupExpiredLoginRateLimits (rq_now rq) (lw_db w)\<rparr> else w)"

definition rehash_password :: "login_env \<Rightarrow> login_user \<Rightarrow> string \<Rightarrow> login_world \<Rightarrow> login_world" where
  "rehash_password env user password w =
     (if needsPasswordRehash (lu_passwd user)
      then (case hashAdminPassword (le_pw_hash env) (Str (lu_uuid user)) (Str password) of
              Inr hashed \<Rightarrow> w\<lparr>lw_rehashed := lw_rehashed w @ [(lu_uuid user, lu_passwd user, hashed)]\<rparr>
            | Inl _ \<Rightarrow> w)
      else w)"

text \<open>What follows a correct password: the challenge of an enrolled user, or the session.\<close>

definition password_accepted ::
  "login_env \<Rightarrow> login_request \<Rightarrow> login_user \<Rightarrow> login_states \<Rightarrow> login_world \<Rightarrow> login_world \<times> ctx \<times> login_response" where
  "password_accepted env rq user states w =
     (if has_mfa user
      then (case generateMfaToken (le_sign env) (rq_now rq) (le_jti env) MfaLogin (user_identity user) (JWT_SECRET (le_secrets env)) of
              Inr challenge \<Rightarrow> (w, rq_ctx rq, MfaRequired challenge)
            | Inl AuthConfigurationError \<Rightarrow> (w, rq_ctx rq, JwtSecretMissing)
            | Inl JwtRejected \<Rightarrow> (w, rq_ctx rq, ServerError))
      else completeAdminLogin env rq user states w)"

definition try_password ::
  "login_env \<Rightarrow> login_request \<Rightarrow> string \<Rightarrow> string \<Rightarrow> login_states \<Rightarrow> login_world \<Rightarrow> login_world \<times> ctx \<times> login_response" where
  "try_password env rq name password states w =
     (let buckets = loginRateLimitBuckets (getClientIp rq) name
      in case le_user_by_name env name of
          None \<Rightarrow>
            (case verifyAdminPassword (le_pw_verify env) (Str name) (Str password) (Str DUMMY_ADMIN_PASSWORD_HASH) of
               Inl _ \<Rightarrow> (w, rq_ctx rq, ServerError)
             | Inr _ \<Rightarrow> (fail_attempt env rq buckets name ''unknown_user'' w, rq_ctx rq,
                 if le_user_count env = 0 then NoAdminYet else WrongCredentials))
        | Some user \<Rightarrow>
            (case verifyAdminPassword (le_pw_verify env) (Str (lu_uuid user)) (Str password) (Str (lu_passwd user)) of
               Inl _ \<Rightarrow> (w, rq_ctx rq, ServerError)
             | Inr False \<Rightarrow> (fail_attempt env rq buckets name ''invalid_password'' w, rq_ctx rq, WrongCredentials)
             | Inr True \<Rightarrow> password_accepted env rq user states (rehash_password env user password w)))"

definition login :: "login_env \<Rightarrow> login_request \<Rightarrow> login_world \<Rightarrow> login_world \<times> ctx \<times> login_response" where
  "login env rq w = (case readPublicJsonObject (rq_body rq) of
       Inl response \<Rightarrow> (w, rq_ctx rq, response)
     | Inr body \<Rightarrow> (case (js_get body ''username'', js_get body ''password'') of
         (Str name, Str password) \<Rightarrow>
           if name = [] \<or> password = [] then (w, rq_ctx rq, MissingCredentials)
           else if MAX_LOGIN_USERNAME_LENGTH < length name \<or> MAX_LOGIN_PASSWORD_LENGTH < length password
           then (w, rq_ctx rq, CredentialsTooLong)
           else (let w1 = login_cleanup rq w;
                     states = loadLoginRateLimitStates (login_limits (lw_db w1)) (loginRateLimitBuckets (getClientIp rq) name);
                     retryAfter = getLoginRetryAfterSeconds states (rq_now rq)
                 in if 0 < retryAfter
                    then (w1\<lparr>lw_db := auditLoginFailure name (getClientIp rq) ''rate_limited'' (rq_now rq) (lw_db w1)\<rparr>,
                          rq_ctx rq, LoginRateLimited retryAfter)
                    else try_password env rq name password states w1)
       | _ \<Rightarrow> (w, rq_ctx rq, MissingCredentials)))"

definition factor_method_of :: "jsval \<Rightarrow> factor_method option" where
  "factor_method_of v = (if v = Str ''totp'' then Some TotpFactor else if v = Str ''recovery_code'' then Some RecoveryFactor else None)"

definition challenge_user :: "login_env \<Rightarrow> admin_identity \<Rightarrow> login_user option" where
  "challenge_user env payload = (case le_user_by_uuid env (userId payload) of
       None \<Rightarrow> None
     | Some user \<Rightarrow> if lu_username user \<noteq> username payload \<or> lu_session_version user \<noteq> sessionVersion payload \<or> \<not> has_mfa user
                   then None else Some user)"

definition try_factor ::
  "login_env \<Rightarrow> login_request \<Rightarrow> login_user \<Rightarrow> factor_input \<Rightarrow> login_states \<Rightarrow> login_world \<Rightarrow> login_world \<times> ctx \<times> login_response" where
  "try_factor env rq user input states w =
     (case confirmUserMfaFactor (le_crypto env) (le_hmac env) (le_rpc env) (le_date_parse env) (le_iv env)
         (factor_user user) input (le_secrets env) (rq_now rq) of
        Inl MfaAuthConfigurationError \<Rightarrow> (w, rq_ctx rq, JwtSecretMissing)
      | Inl MfaConfigurationError \<Rightarrow> (w, rq_ctx rq, MfaKeysUnavailable)
      | Inl _ \<Rightarrow> (w, rq_ctx rq, MfaUnavailable)
      | Inr confirmation \<Rightarrow>
          if verified confirmation then completeAdminLogin env rq user states w
          else (fail_attempt env rq (mfaRateLimitBuckets (getClientIp rq) (lu_uuid user)) (lu_username user) ''invalid_mfa'' w,
                rq_ctx rq, MfaInvalid))"

text \<open>The handler after its input was checked: the challenge, the locks, the factor.\<close>

definition mfa_attempt ::
  "login_env \<Rightarrow> login_request \<Rightarrow> string \<Rightarrow> factor_method \<Rightarrow> string \<Rightarrow> login_world \<Rightarrow> login_world \<times> ctx \<times> login_response" where
  "mfa_attempt env rq challenge fmethod code w =
     (case verifyMfaToken (le_verify env) (rq_now rq) challenge MfaLogin (JWT_SECRET (le_secrets env)) of
        Inl AuthConfigurationError \<Rightarrow> (w, rq_ctx rq, JwtSecretMissing)
      | Inl JwtRejected \<Rightarrow> (w, rq_ctx rq, ServerError)
      | Inr None \<Rightarrow> (w, rq_ctx rq, MfaChallengeInvalid)
      | Inr (Some payload) \<Rightarrow> (case challenge_user env payload of
          None \<Rightarrow> (w, rq_ctx rq, MfaChallengeInvalid)
        | Some user \<Rightarrow>
            (let mfaBuckets = mfaRateLimitBuckets (getClientIp rq) (lu_uuid user);
                 loginBuckets = loginRateLimitBuckets (getClientIp rq) (lu_username user);
                 states = loadLoginRateLimitStates (login_limits (lw_db w)) (loginBuckets @ mfaBuckets);
                 mfaStates = map (\<lambda>b. (b, case map_of states b of Some s \<Rightarrow> s | None \<Rightarrow> None)) mfaBuckets;
                 retryAfter = getLoginRetryAfterSeconds mfaStates (rq_now rq)
             in if 0 < retryAfter
                then (w\<lparr>lw_db := auditLoginFailure (lu_username user) (getClientIp rq) ''mfa_rate_limited'' (rq_now rq) (lw_db w)\<rparr>,
                      rq_ctx rq, MfaRateLimited retryAfter)
                else try_factor env rq user
                  \<lparr>fi_method = fmethod, fi_code = code, fi_purpose = MfaLogin, fi_operationToken = challenge\<rparr> states w)))"

definition login_mfa :: "login_env \<Rightarrow> login_request \<Rightarrow> login_world \<Rightarrow> login_world \<times> ctx \<times> login_response" where
  "login_mfa env rq w = (case readPublicJsonObject (rq_body rq) of
       Inl response \<Rightarrow> (w, rq_ctx rq, response)
     | Inr body \<Rightarrow>
         (let challenge = (case js_get body ''challenge'' of Str s \<Rightarrow> s | _ \<Rightarrow> []);
              code = (case js_get body ''code'' of Str s \<Rightarrow> js_trim s | _ \<Rightarrow> [])
          in case factor_method_of (js_get body ''method'') of
              None \<Rightarrow> (w, rq_ctx rq, MfaInputInvalid)
            | Some fmethod \<Rightarrow>
                if challenge = [] \<or> MAX_MFA_CHALLENGE_LENGTH < length challenge \<or> code = [] \<or> MAX_MFA_CODE_LENGTH < length code
                then (w, rq_ctx rq, MfaInputInvalid)
                else mfa_attempt env rq challenge fmethod code w))"

subsection \<open>The table under the handlers\<close>

lemma audit_limits [simp]: "login_limits (auditLoginFailure name ip reason t d) = login_limits d"
  by (simp add: auditLoginFailure_def Let_def)

lemma rehash_db [simp]: "lw_db (rehash_password env u pw w) = lw_db w"
  by (simp add: rehash_password_def split: sum.splits)

lemma record_fold:
  "distinct bs \<Longrightarrow> fold (\<lambda>b t. t(b \<mapsto> failed_row at_ms (rv b) (t b))) bs limits b =
     (if b \<in> set bs then Some (failed_row at_ms (rv b) (limits b)) else limits b)"
  by (induction bs arbitrary: limits) auto

lemmas js_uniq_set = set_js_uniq distinct_js_uniq

lemma recorded_row:
  "recordLoginFailure rv bs t limits b =
     (if b \<in> set bs \<and> list_ex (\<lambda>c. c \<noteq> CHR '' '') b then Some (failed_row t (rv b) (limits b)) else limits b)"
  by (simp add: recordLoginFailure_def record_fold js_uniq_set)

lemma cleared_row:
  assumes "b \<notin> set bs"
  shows "clearLoginFailures bs observed limits b = limits b"
proof -
  have "b \<notin> fst ` set (List.map_filter (\<lambda>b. case map_of observed b of Some (Some r) \<Rightarrow> Some (b, r) | _ \<Rightarrow> None) (js_uniq bs))"
    using assms by (auto simp: map_filter_def js_uniq_set split: option.splits)
  then show ?thesis by (force simp: clearLoginFailures_def clear_observed_def list_ex_iff split: option.splits)
qed

lemma cleanup_row:
  "login_limits (lw_db (login_cleanup rq w)) b = login_limits (lw_db w) b \<or>
   login_limits (lw_db (login_cleanup rq w)) b = swept (rq_now rq) (login_limits (lw_db w) b)"
  by (auto simp: login_cleanup_def cleanupExpiredLoginRateLimits_def deleteLoginRateLimitsBefore_def swept_def
      split: option.splits)

lemma foldl_max_le: "foldl (\<lambda>m s. max m (f s)) (a::int) xs \<le> t \<longleftrightarrow> a \<le> t \<and> (\<forall>x \<in> set xs. f x \<le> t)"
  by (induction xs arbitrary: a) auto

lemma not_locked:
  assumes "\<not> 0 < getLoginRetryAfterSeconds states now" "(b, r) \<in> set states"
  shows "unlocked now r"
proof -
  let ?l = "foldl (\<lambda>m s. max m (parseTimeMs (Option.bind (snd s) locked_until))) 0 states"
  have "?l \<le> now" using assms(1) by (auto simp: getLoginRetryAfterSeconds_def Let_def split: if_splits)
  then show ?thesis using assms(2) by (auto simp: foldl_max_le unlocked_def)
qed

lemma loaded_state: "b \<in> set bs \<Longrightarrow> (b, limits b) \<in> set (loadLoginRateLimitStates limits bs)"
  by (simp add: loadLoginRateLimitStates_def js_uniq_set)

lemma loaded_keys: "set (map fst (loadLoginRateLimitStates limits bs)) = set bs"
  by (simp add: loadLoginRateLimitStates_def js_uniq_set image_image)

lemma complete_effect:
  assumes "completeAdminLogin env rq user observed w = (w', c', r)"
  shows "(login_limits (lw_db w') = login_limits (lw_db w) \<and> r \<in> {JwtSecretMissing, ServerError}) \<or>
    ((\<exists>csrf. r = LoggedIn csrf (lu_uuid user) (lu_username user)) \<and>
     (\<forall>b. b \<notin> set (map fst observed) \<longrightarrow> login_limits (lw_db w') b = login_limits (lw_db w) b))"
  using assms by (auto simp: completeAdminLogin_def Let_def cleared_row split: sum.splits auth_error.splits prod.splits if_splits)

text \<open>What an answer of the password handler says about the table.\<close>

fun answer_effect :: "string list \<Rightarrow> (string \<Rightarrow> string) \<Rightarrow> int \<Rightarrow> int \<Rightarrow> login_table \<Rightarrow> login_response \<Rightarrow> login_table \<Rightarrow> bool" where
  "answer_effect bs rv now t limits WrongCredentials limits' \<longleftrightarrow>
     (\<forall>b \<in> set bs. unlocked now (limits b)) \<and> limits' = recordLoginFailure rv bs t limits"
| "answer_effect bs rv now t limits NoAdminYet limits' \<longleftrightarrow>
     (\<forall>b \<in> set bs. unlocked now (limits b)) \<and> limits' = recordLoginFailure rv bs t limits"
| "answer_effect bs rv now t limits MfaInvalid limits' \<longleftrightarrow>
     (\<forall>b \<in> set bs. unlocked now (limits b)) \<and> limits' = recordLoginFailure rv bs t limits"
| "answer_effect bs rv now t limits (LoggedIn _ _ _) limits' \<longleftrightarrow> (\<forall>b. b \<notin> set bs \<longrightarrow> limits' b = limits b)"
| "answer_effect bs rv now t limits _ limits' \<longleftrightarrow> limits' = limits"

lemma complete_answer:
  assumes "completeAdminLogin env rq user observed v = (w', c', r)" "lw_db v = lw_db w" "set (map fst observed) \<subseteq> set bs"
  shows "answer_effect bs rv now t (login_limits (lw_db w)) r (login_limits (lw_db w')) \<and> r \<noteq> MfaInvalid"
  using complete_effect [OF assms(1)] assms(2,3) by fastforce

lemma accepted_effect:
  assumes "password_accepted env rq user observed v = (w', c', r)" "lw_db v = lw_db w" "set (map fst observed) \<subseteq> set bs"
  shows "answer_effect bs rv now t (login_limits (lw_db w)) r (login_limits (lw_db w')) \<and> r \<noteq> MfaInvalid"
proof (cases "has_mfa user")
  case True
  then show ?thesis using assms(1,2) by (auto simp: password_accepted_def split: sum.splits auth_error.splits)
next
  case False
  then show ?thesis using assms(1) complete_answer [OF _ assms(2,3)] by (simp add: password_accepted_def)
qed

lemma try_password_effect:
  assumes "try_password env rq name password states w = (w', c', r)" "set (map fst states) \<subseteq> set bs"
    and "bs = loginRateLimitBuckets (getClientIp rq) name" "\<forall>b \<in> set bs. unlocked (rq_now rq) (login_limits (lw_db w) b)"
  shows "answer_effect bs (le_revision env) (rq_now rq) (rq_failed rq) (login_limits (lw_db w)) r (login_limits (lw_db w')) \<and> r \<noteq> MfaInvalid"
proof (cases "le_user_by_name env name")
  case None
  then show ?thesis using assms(1,4)
    by (auto simp: try_password_def Let_def assms(3) [symmetric] fail_attempt_def split: sum.splits if_splits)
next
  case (Some user)
  let ?v = "verifyAdminPassword (le_pw_verify env) (Str (lu_uuid user)) (Str password) (Str (lu_passwd user))"
  show ?thesis
  proof (cases ?v)
    case (Inl x)
    then have "w' = w" "r = ServerError" using assms(1) Some by (simp_all add: try_password_def Let_def)
    then show ?thesis by simp
  next
    case (Inr valid)
    show ?thesis
    proof (cases valid)
      case True
      then have "password_accepted env rq user states (rehash_password env user password w) = (w', c', r)"
        using assms(1) Some Inr by (simp add: try_password_def Let_def)
      then show ?thesis by (rule accepted_effect [OF _ rehash_db assms(2)])
    next
      case False
      then have "w' = fail_attempt env rq bs name ''invalid_password'' w" "r = WrongCredentials"
        using assms(1,3) Some Inr by (simp_all add: try_password_def Let_def)
      then show ?thesis using assms(4) by (simp add: fail_attempt_def)
    qed
  qed
qed

lemma body_response: "readPublicJsonObject body = Inl r \<Longrightarrow> \<exists>n. r = BodyRejected n"
  by (auto simp: readPublicJsonObject_def split: sum.splits body_failure.splits jsval.splits)

text \<open>The password handler stops early, is rate limited, or tries the password.\<close>

lemma login_cases:
  assumes "login env rq w = (w', c', r)"
  obtains (early) "w' = w" "c' = rq_ctx rq" "(\<exists>n. r = BodyRejected n) \<or> r = MissingCredentials \<or> r = CredentialsTooLong"
  | (limited) n where "login_limits (lw_db w') = login_limits (lw_db (login_cleanup rq w))" "c' = rq_ctx rq" "r = LoginRateLimited n"
  | (tried) body name password states where "readPublicJsonObject (rq_body rq) = Inr body"
      "js_get body ''username'' = Str name" "js_get body ''password'' = Str password"
      "states = loadLoginRateLimitStates (login_limits (lw_db (login_cleanup rq w))) (loginRateLimitBuckets (getClientIp rq) name)"
      "\<not> 0 < getLoginRetryAfterSeconds states (rq_now rq)"
      "try_password env rq name password states (login_cleanup rq w) = (w', c', r)"
proof (cases "readPublicJsonObject (rq_body rq)")
  case (Inl x)
  then show thesis using assms body_response [OF Inl] early by (auto simp: login_def)
next
  case (Inr body)
  note read = this
  show thesis
  proof (cases "\<exists>name password. js_get body ''username'' = Str name \<and> js_get body ''password'' = Str password")
    case False
    then show thesis using assms Inr early by (auto simp: login_def split: jsval.splits)
  next
    case True
    then obtain name password where str: "js_get body ''username'' = Str name" "js_get body ''password'' = Str password" by blast
    define states where "states = loadLoginRateLimitStates (login_limits (lw_db (login_cleanup rq w))) (loginRateLimitBuckets (getClientIp rq) name)"
    show thesis
    proof (cases "0 < getLoginRetryAfterSeconds states (rq_now rq)")
      case True
      then show thesis using assms Inr str early limited
        by (auto simp: login_def Let_def states_def [symmetric] split: if_splits)
    next
      case False
      then show thesis using assms early tried [OF read str states_def False]
        by (auto simp: login_def Let_def states_def [symmetric] read str split: if_splits)
    qed
  qed
qed

lemma login_effect:
  assumes "login env rq w = (w', c', r)"
  shows "\<exists>v name. (v = w \<or> v = login_cleanup rq w) \<and> r \<noteq> MfaInvalid \<and>
    answer_effect (loginRateLimitBuckets (getClientIp rq) name) (le_revision env) (rq_now rq) (rq_failed rq)
      (login_limits (lw_db v)) r (login_limits (lw_db w'))"
  using assms
proof (cases rule: login_cases)
  case early
  then show ?thesis by auto
next
  case limited
  then show ?thesis by (intro exI [of _ "login_cleanup rq w"]) simp
next
  case (tried body name password states)
  have "unlocked (rq_now rq) (login_limits (lw_db (login_cleanup rq w)) b)"
    if "b \<in> set (loginRateLimitBuckets (getClientIp rq) name)" for b
    using not_locked [OF tried(5)] loaded_state [OF that] tried(4) by blast
  then show ?thesis
    using try_password_effect [OF tried(6) _ refl] tried(4) by (intro exI [of _ "login_cleanup rq w"] exI [of _ name]) (simp add: loaded_keys del: set_map)
qed

lemma mfa_attempt_cases:
  assumes "mfa_attempt env rq challenge fmethod code w = (w', c', r)" "challenge \<noteq> []" "code \<noteq> []"
    and quiet: "login_limits (lw_db w') = login_limits (lw_db w) \<Longrightarrow> c' = rq_ctx rq \<Longrightarrow>
      r \<notin> {WrongCredentials, NoAdminYet, MfaInvalid} \<Longrightarrow> \<forall>a b c. r \<noteq> LoggedIn a b c \<Longrightarrow> thesis"
    and tried: "\<And>challenge code payload user states fmethod. challenge \<noteq> [] \<Longrightarrow> code \<noteq> [] \<Longrightarrow>
      verifyMfaToken (le_verify env) (rq_now rq) challenge MfaLogin (JWT_SECRET (le_secrets env)) = Inr (Some payload) \<Longrightarrow>
      challenge_user env payload = Some user \<Longrightarrow>
      states = loadLoginRateLimitStates (login_limits (lw_db w))
         (loginRateLimitBuckets (getClientIp rq) (lu_username user) @ mfaRateLimitBuckets (getClientIp rq) (lu_uuid user)) \<Longrightarrow>
      \<forall>b \<in> set (mfaRateLimitBuckets (getClientIp rq) (lu_uuid user)). unlocked (rq_now rq) (login_limits (lw_db w) b) \<Longrightarrow>
      try_factor env rq user \<lparr>fi_method = fmethod, fi_code = code, fi_purpose = MfaLogin, fi_operationToken = challenge\<rparr> states w = (w', c', r) \<Longrightarrow> thesis"
  shows thesis
proof (cases "\<exists>payload user. verifyMfaToken (le_verify env) (rq_now rq) challenge MfaLogin (JWT_SECRET (le_secrets env)) = Inr (Some payload) \<and>
    challenge_user env payload = Some user")
  case False
  then have "w' = w \<and> c' = rq_ctx rq \<and> r \<in> {JwtSecretMissing, ServerError, MfaChallengeInvalid}"
    using assms(1) by (auto simp: mfa_attempt_def split: sum.splits auth_error.splits option.splits)
  then show thesis using quiet by auto
next
  case True
  then obtain payload user where p: "verifyMfaToken (le_verify env) (rq_now rq) challenge MfaLogin (JWT_SECRET (le_secrets env)) = Inr (Some payload)"
    and u: "challenge_user env payload = Some user" by blast
  define mb where "mb = mfaRateLimitBuckets (getClientIp rq) (lu_uuid user)"
  define states where "states = loadLoginRateLimitStates (login_limits (lw_db w)) (loginRateLimitBuckets (getClientIp rq) (lu_username user) @ mb)"
  define ms where "ms = map (\<lambda>b. (b, case map_of states b of Some s \<Rightarrow> s | None \<Rightarrow> None)) mb"
  have run: "(if 0 < getLoginRetryAfterSeconds ms (rq_now rq)
      then (w\<lparr>lw_db := auditLoginFailure (lu_username user) (getClientIp rq) ''mfa_rate_limited'' (rq_now rq) (lw_db w)\<rparr>,
            rq_ctx rq, MfaRateLimited (getLoginRetryAfterSeconds ms (rq_now rq)))
      else try_factor env rq user \<lparr>fi_method = fmethod, fi_code = code, fi_purpose = MfaLogin, fi_operationToken = challenge\<rparr> states w) = (w', c', r)"
    using assms(1) by (simp only: mfa_attempt_def p u sum.case option.case Let_def ms_def states_def mb_def)
  show thesis
  proof (cases "0 < getLoginRetryAfterSeconds ms (rq_now rq)")
    case True
    then have "w' = w\<lparr>lw_db := auditLoginFailure (lu_username user) (getClientIp rq) ''mfa_rate_limited'' (rq_now rq) (lw_db w)\<rparr>"
      "c' = rq_ctx rq" "r = MfaRateLimited (getLoginRetryAfterSeconds ms (rq_now rq))" using run by simp_all
    then show thesis using quiet by simp
  next
    case False
    have "unlocked (rq_now rq) (login_limits (lw_db w) b)" if "b \<in> set mb" for b
    proof -
      have "map_of states b = Some (login_limits (lw_db w) b)"
        using that by (simp add: states_def loadLoginRateLimitStates_def map_of_map_restrict js_uniq_set)
      then have "(b, login_limits (lw_db w) b) \<in> set ms" using that by (force simp: ms_def)
      then show ?thesis by (rule not_locked [OF False])
    qed
    then show thesis using tried [OF assms(2,3) p u] run False unfolding states_def mb_def by simp
  qed
qed

lemma mfa_cases:
  assumes "login_mfa env rq w = (w', c', r)"
  obtains (quiet) "login_limits (lw_db w') = login_limits (lw_db w)" "c' = rq_ctx rq"
      "r \<notin> {WrongCredentials, NoAdminYet, MfaInvalid}" "\<forall>a b c. r \<noteq> LoggedIn a b c"
  | (tried) challenge fmethod code payload user states where "challenge \<noteq> []" "code \<noteq> []"
      "verifyMfaToken (le_verify env) (rq_now rq) challenge MfaLogin (JWT_SECRET (le_secrets env)) = Inr (Some payload)"
      "challenge_user env payload = Some user"
      "states = loadLoginRateLimitStates (login_limits (lw_db w))
         (loginRateLimitBuckets (getClientIp rq) (lu_username user) @ mfaRateLimitBuckets (getClientIp rq) (lu_uuid user))"
      "\<forall>b \<in> set (mfaRateLimitBuckets (getClientIp rq) (lu_uuid user)). unlocked (rq_now rq) (login_limits (lw_db w) b)"
      "try_factor env rq user \<lparr>fi_method = fmethod, fi_code = code, fi_purpose = MfaLogin, fi_operationToken = challenge\<rparr> states w = (w', c', r)"
proof (cases "readPublicJsonObject (rq_body rq)")
  case (Inl x)
  then show thesis using assms body_response [OF Inl] quiet by (auto simp: login_mfa_def)
next
  case (Inr body)
  define challenge code where "challenge = (case js_get body ''challenge'' of Str s \<Rightarrow> s | _ \<Rightarrow> [])"
    and "code = (case js_get body ''code'' of Str s \<Rightarrow> js_trim s | _ \<Rightarrow> [])"
  show thesis
  proof (cases "\<exists>fmethod. factor_method_of (js_get body ''method'') = Some fmethod \<and>
      \<not> (challenge = [] \<or> MAX_MFA_CHALLENGE_LENGTH < length challenge \<or> code = [] \<or> MAX_MFA_CODE_LENGTH < length code)")
    case False
    then have "(w', c', r) = (w, rq_ctx rq, MfaInputInvalid)"
      using assms Inr by (auto simp: login_mfa_def Let_def challenge_def [symmetric] code_def [symmetric] split: option.splits)
    then show thesis using quiet by simp
  next
    case True
    then obtain fmethod where fm: "factor_method_of (js_get body ''method'') = Some fmethod" and ne: "challenge \<noteq> []" "code \<noteq> []"
      and len: "\<not> MAX_MFA_CHALLENGE_LENGTH < length challenge" "\<not> MAX_MFA_CODE_LENGTH < length code" by blast
    have at': "mfa_attempt env rq challenge fmethod code w = (w', c', r)"
      using assms Inr fm ne len by (simp add: login_mfa_def Let_def challenge_def [symmetric] code_def [symmetric])
    show thesis by (rule mfa_attempt_cases [OF at' ne quiet tried])
  qed
qed

lemma mfa_effect:
  assumes "login_mfa env rq w = (w', c', r)"
  shows "\<exists>name uid. r \<notin> {WrongCredentials, NoAdminYet} \<and>
    (if r = MfaInvalid
     then (\<forall>b \<in> set (mfaRateLimitBuckets (getClientIp rq) uid). unlocked (rq_now rq) (login_limits (lw_db w) b)) \<and>
       login_limits (lw_db w') = recordLoginFailure (le_revision env) (mfaRateLimitBuckets (getClientIp rq) uid) (rq_failed rq) (login_limits (lw_db w))
     else if \<exists>a b c. r = LoggedIn a b c
     then \<forall>b. b \<notin> set (loginRateLimitBuckets (getClientIp rq) name @ mfaRateLimitBuckets (getClientIp rq) uid) \<longrightarrow>
       login_limits (lw_db w') b = login_limits (lw_db w) b
     else login_limits (lw_db w') = login_limits (lw_db w))"
  using assms
proof (cases rule: mfa_cases)
  case quiet
  then show ?thesis by auto
next
  case (tried challenge fmethod code payload user states)
  let ?i = "\<lparr>fi_method = fmethod, fi_code = code, fi_purpose = MfaLogin, fi_operationToken = challenge\<rparr>"
  let ?confirm = "confirmUserMfaFactor (le_crypto env) (le_hmac env) (le_rpc env) (le_date_parse env) (le_iv env)
      (factor_user user) ?i (le_secrets env) (rq_now rq)"
  show ?thesis
  proof (cases "\<exists>cf. ?confirm = Inr cf \<and> verified cf")
    case True
    then have "completeAdminLogin env rq user states w = (w', c', r)" using tried(7) by (auto simp: try_factor_def)
    from complete_effect [OF this] show ?thesis
    proof (elim disjE conjE)
      assume "\<exists>csrf. r = LoggedIn csrf (lu_uuid user) (lu_username user)"
        "\<forall>b. b \<notin> set (map fst states) \<longrightarrow> login_limits (lw_db w') b = login_limits (lw_db w) b"
      then show ?thesis unfolding tried(5) loaded_keys by (intro exI [of _ "lu_username user"] exI [of _ "lu_uuid user"]) auto
    qed auto
  next
    case False
    show ?thesis
    proof (cases "\<exists>cf. ?confirm = Inr cf")
      case True
      then have "w' = fail_attempt env rq (mfaRateLimitBuckets (getClientIp rq) (lu_uuid user)) (lu_username user) ''invalid_mfa'' w" "r = MfaInvalid"
        using False tried(7) by (auto simp: try_factor_def)
      then show ?thesis using tried(6) by (intro exI [of _ "[]"] exI [of _ "lu_uuid user"]) (simp add: fail_attempt_def)
    next
      case False
      then obtain e where e: "?confirm = Inl e" by (cases ?confirm) auto
      have "w' = w \<and> r \<in> {JwtSecretMissing, MfaKeysUnavailable, MfaUnavailable}"
        using tried(7) unfolding try_factor_def e by (cases e) auto
      then show ?thesis by auto
    qed
  qed
qed

subsection \<open>Guessing\<close>

datatype login_event = PasswordE login_env login_request | FactorE login_env login_request

fun event_request :: "login_event \<Rightarrow> login_request" where
  "event_request (PasswordE env rq) = rq" | "event_request (FactorE env rq) = rq"

fun login_attempt :: "login_event \<Rightarrow> login_world \<Rightarrow> login_world \<times> ctx \<times> login_response" where
  "login_attempt (PasswordE env rq) w = login env rq w" | "login_attempt (FactorE env rq) w = login_mfa env rq w"

definition login_step :: "login_event \<Rightarrow> login_world \<Rightarrow> login_world" where
  "login_step e w = fst (login_attempt e w)"

definition login_answer :: "login_event \<Rightarrow> login_world \<Rightarrow> login_response" where
  "login_answer e w = snd (snd (login_attempt e w))"

definition from_ip :: "string \<Rightarrow> login_event \<Rightarrow> bool" where
  "from_ip ip e \<longleftrightarrow> getClientIp (event_request e) = ip"

definition password_guess :: "string \<Rightarrow> login_event \<Rightarrow> login_world \<Rightarrow> bool" where
  "password_guess ip e w \<longleftrightarrow> from_ip ip e \<and> login_answer e w \<in> {WrongCredentials, NoAdminYet}"

definition factor_guess :: "string \<Rightarrow> login_event \<Rightarrow> login_world \<Rightarrow> bool" where
  "factor_guess ip e w \<longleftrightarrow> from_ip ip e \<and> login_answer e w = MfaInvalid"

definition no_login :: "string \<Rightarrow> login_event \<Rightarrow> login_world \<Rightarrow> bool" where
  "no_login ip e w \<longleftrightarrow> \<not> (from_ip ip e \<and> (case login_answer e w of LoggedIn _ _ _ \<Rightarrow> True | _ \<Rightarrow> False))"

abbreviation began :: "login_event \<Rightarrow> int" where "began e \<equiv> rq_now (event_request e)"
abbreviation ended :: "login_event \<Rightarrow> int" where "ended e \<equiv> rq_failed (event_request e)"

definition ip_row :: "string \<Rightarrow> string \<Rightarrow> login_world \<Rightarrow> login_row option" where
  "ip_row kind ip w = login_limits (lw_db w) (kind @ '':ip:'' @ ip)"

lemma bucket_names:
  "''login:ip:'' @ ip \<in> set (loginRateLimitBuckets ip' name) \<longleftrightarrow> ip = ip'"
  "''mfa:ip:'' @ ip \<notin> set (loginRateLimitBuckets ip' name)"
  "''mfa:ip:'' @ ip \<in> set (mfaRateLimitBuckets ip' name) \<longleftrightarrow> ip = ip'"
  "''login:ip:'' @ ip \<notin> set (mfaRateLimitBuckets ip' name)"
  by (auto simp: loginRateLimitBuckets_def mfaRateLimitBuckets_def)

lemma ip_rows: "ip_row ''login'' ip w = login_limits (lw_db w) (''login:ip:'' @ ip)" "ip_row ''mfa'' ip w = login_limits (lw_db w) (''mfa:ip:'' @ ip)"
  by (simp_all add: ip_row_def)

lemma bucket_text: "list_ex (\<lambda>c. c \<noteq> CHR '' '') (''login:ip:'' @ ip)" "list_ex (\<lambda>c. c \<noteq> CHR '' '') (''mfa:ip:'' @ ip)"
  by simp_all

lemma logged_in_cases: "(\<exists>a b c. r = LoggedIn a b c) \<or> (\<forall>a b c. r \<noteq> LoggedIn a b c)"
  by blast

text \<open>The password handler on the bucket of an address, and on a bucket of second factors.\<close>

lemma password_row:
  assumes "e = PasswordE env rq"
  shows "\<exists>r0. (r0 = ip_row ''login'' ip w \<or> r0 = swept (began e) (ip_row ''login'' ip w)) \<and>
      (if password_guess ip e w then unlocked (began e) r0 \<and> ip_row ''login'' ip (login_step e w) = Some (failed_row (ended e) (le_revision env (''login:ip:'' @ ip)) r0)
       else no_login ip e w \<longrightarrow> ip_row ''login'' ip (login_step e w) = r0)"
    and "\<not> factor_guess ip e w \<and> (ip_row ''mfa'' ip (login_step e w) = ip_row ''mfa'' ip w \<or> ip_row ''mfa'' ip (login_step e w) = swept (began e) (ip_row ''mfa'' ip w))"
proof -
  obtain w' c' r where l: "login env rq w = (w', c', r)" by (metis prod.collapse)
  from login_effect [OF l] obtain v name where v: "v = w \<or> v = login_cleanup rq w" and r: "r \<noteq> MfaInvalid"
    and eff: "answer_effect (loginRateLimitBuckets (getClientIp rq) name) (le_revision env) (rq_now rq) (rq_failed rq) (login_limits (lw_db v)) r (login_limits (lw_db w'))"
    by blast
  have rows: "login_limits (lw_db v) b = login_limits (lw_db w) b \<or> login_limits (lw_db v) b = swept (rq_now rq) (login_limits (lw_db w) b)" for b
    using v cleanup_row by blast
  note unfold = assms login_step_def login_answer_def password_guess_def factor_guess_def no_login_def from_ip_def l ip_rows
  show "\<exists>r0. (r0 = ip_row ''login'' ip w \<or> r0 = swept (began e) (ip_row ''login'' ip w)) \<and>
      (if password_guess ip e w then unlocked (began e) r0 \<and> ip_row ''login'' ip (login_step e w) = Some (failed_row (ended e) (le_revision env (''login:ip:'' @ ip)) r0)
       else no_login ip e w \<longrightarrow> ip_row ''login'' ip (login_step e w) = r0)"
  proof -
    define b where "b = ''login:ip:'' @ ip"
    have b: "ip_row ''login'' ip u = login_limits (lw_db u) b" for u by (simp add: ip_row_def b_def)
    have mem: "b \<in> set (loginRateLimitBuckets (getClientIp rq) name) \<longleftrightarrow> getClientIp rq = ip" "list_ex (\<lambda>c. c \<noteq> CHR '' '') b"
      unfolding b_def using bucket_names(1) bucket_text(1) by auto
    show ?thesis
      unfolding b b_def [symmetric] using rows [of b] r eff mem
      by (intro exI [of _ "login_limits (lw_db v) b"])
        (cases r; cases "getClientIp rq = ip"; simp add: assms login_step_def login_answer_def password_guess_def no_login_def from_ip_def l recorded_row)
  qed
  show "\<not> factor_guess ip e w \<and> (ip_row ''mfa'' ip (login_step e w) = ip_row ''mfa'' ip w \<or> ip_row ''mfa'' ip (login_step e w) = swept (began e) (ip_row ''mfa'' ip w))"
    using rows r eff bucket_names(2) [of ip "getClientIp rq" name] by (cases r) (simp_all add: unfold recorded_row)
qed

lemma factor_row:
  assumes "e = FactorE env rq"
  shows "if factor_guess ip e w then unlocked (began e) (ip_row ''mfa'' ip w) \<and>
        ip_row ''mfa'' ip (login_step e w) = Some (failed_row (ended e) (le_revision env (''mfa:ip:'' @ ip)) (ip_row ''mfa'' ip w))
      else no_login ip e w \<longrightarrow> ip_row ''mfa'' ip (login_step e w) = ip_row ''mfa'' ip w"
    and "\<not> password_guess ip e w \<and> (no_login ip e w \<longrightarrow> ip_row ''login'' ip (login_step e w) = ip_row ''login'' ip w)"
proof -
  obtain w' c' r where l: "login_mfa env rq w = (w', c', r)" by (metis prod.collapse)
  from mfa_effect [OF l] obtain name uid where r: "r \<notin> {WrongCredentials, NoAdminYet}" and eff: "
    if r = MfaInvalid
     then (\<forall>b \<in> set (mfaRateLimitBuckets (getClientIp rq) uid). unlocked (rq_now rq) (login_limits (lw_db w) b)) \<and>
       login_limits (lw_db w') = recordLoginFailure (le_revision env) (mfaRateLimitBuckets (getClientIp rq) uid) (rq_failed rq) (login_limits (lw_db w))
     else if \<exists>a b c. r = LoggedIn a b c
     then \<forall>b. b \<notin> set (loginRateLimitBuckets (getClientIp rq) name @ mfaRateLimitBuckets (getClientIp rq) uid) \<longrightarrow>
       login_limits (lw_db w') b = login_limits (lw_db w) b
     else login_limits (lw_db w') = login_limits (lw_db w)"
    by blast
  note unfold = assms login_step_def login_answer_def password_guess_def factor_guess_def no_login_def from_ip_def l ip_rows
  show "if factor_guess ip e w then unlocked (began e) (ip_row ''mfa'' ip w) \<and>
        ip_row ''mfa'' ip (login_step e w) = Some (failed_row (ended e) (le_revision env (''mfa:ip:'' @ ip)) (ip_row ''mfa'' ip w))
      else no_login ip e w \<longrightarrow> ip_row ''mfa'' ip (login_step e w) = ip_row ''mfa'' ip w"
  proof -
    define b where "b = ''mfa:ip:'' @ ip"
    have b: "ip_row ''mfa'' ip u = login_limits (lw_db u) b" for u by (simp add: ip_row_def b_def)
    have mem: "b \<in> set (mfaRateLimitBuckets (getClientIp rq) uid) \<longleftrightarrow> getClientIp rq = ip" "list_ex (\<lambda>c. c \<noteq> CHR '' '') b"
      "b \<notin> set (loginRateLimitBuckets (getClientIp rq) name)"
      unfolding b_def using bucket_names(2,3) bucket_text(2) by auto
    show ?thesis
      unfolding b b_def [symmetric] using eff mem
      by (cases r; cases "getClientIp rq = ip"; simp add: assms login_step_def login_answer_def factor_guess_def no_login_def from_ip_def l recorded_row)
  qed
  show "\<not> password_guess ip e w \<and> (no_login ip e w \<longrightarrow> ip_row ''login'' ip (login_step e w) = ip_row ''login'' ip w)"
    using r eff bucket_names(1) [of ip "getClientIp rq" name] bucket_names(4) [of ip "getClientIp rq" uid]
    by (cases r) (simp_all add: unfold recorded_row)
qed

interpretation passwords: guess_limit login_step "ip_row ''login'' ip" "password_guess ip" "no_login ip" began ended for ip
proof
  fix e w
  assume g: "password_guess ip e w" "no_login ip e w"
  show "\<exists>r0 rv. (r0 = ip_row ''login'' ip w \<or> r0 = swept (began e) (ip_row ''login'' ip w)) \<and> unlocked (began e) r0 \<and>
      ip_row ''login'' ip (login_step e w) = Some (failed_row (ended e) rv r0)"
  proof (cases e)
    case (PasswordE env rq)
    then show ?thesis using password_row(1) [OF PasswordE, of ip w] g(1) by auto
  next
    case (FactorE env rq)
    then show ?thesis using factor_row(2) [OF FactorE] g(1) by blast
  qed
next
  fix e w
  assume g: "\<not> password_guess ip e w" "no_login ip e w"
  show "ip_row ''login'' ip (login_step e w) = ip_row ''login'' ip w \<or> ip_row ''login'' ip (login_step e w) = swept (began e) (ip_row ''login'' ip w)"
  proof (cases e)
    case (PasswordE env rq)
    then show ?thesis using password_row(1) [OF PasswordE, of ip w] g by auto
  next
    case (FactorE env rq)
    then show ?thesis using factor_row(2) [OF FactorE] g(2) by blast
  qed
qed

interpretation factors: guess_limit login_step "ip_row ''mfa'' ip" "factor_guess ip" "no_login ip" began ended for ip
proof
  fix e w
  assume g: "factor_guess ip e w" "no_login ip e w"
  show "\<exists>r0 rv. (r0 = ip_row ''mfa'' ip w \<or> r0 = swept (began e) (ip_row ''mfa'' ip w)) \<and> unlocked (began e) r0 \<and>
      ip_row ''mfa'' ip (login_step e w) = Some (failed_row (ended e) rv r0)"
  proof (cases e)
    case (PasswordE env rq)
    then show ?thesis using password_row(2) [OF PasswordE] g(1) by blast
  next
    case (FactorE env rq)
    then show ?thesis using factor_row(1) [OF FactorE, of ip w] g(1) by auto
  qed
next
  fix e w
  assume g: "\<not> factor_guess ip e w" "no_login ip e w"
  show "ip_row ''mfa'' ip (login_step e w) = ip_row ''mfa'' ip w \<or> ip_row ''mfa'' ip (login_step e w) = swept (began e) (ip_row ''mfa'' ip w)"
  proof (cases e)
    case (PasswordE env rq)
    then show ?thesis using password_row(2) [OF PasswordE] by blast
  next
    case (FactorE env rq)
    then show ?thesis using factor_row(1) [OF FactorE, of ip w] g by auto
  qed
qed


definition posted_request :: "jsobj \<Rightarrow> web_request" where
  "posted_request body = \<lparr>wr_content_length = None, wr_chunks = [utf8_encode (the (JSON_stringify (Obj body)))]\<rparr>"

lemma posted_back:
  assumes "json_clean (Obj body)" "length (the (JSON_stringify (Obj body))) \<le> 4096"
  shows "readPublicJsonObject (posted_request body) = Inr body"
proof -
  obtain t where t: "JSON_stringify (Obj body) = Some t" "JSON_parse t = Some (Obj body)"
    using json_parse_stringify [OF assms(1)] by blast
  have "length (utf8_encode t) \<le> 8192" using assms(2) length_utf8_encode(2) [of t] t(1) by (simp del: JSON_stringify.simps)
  then show ?thesis
    by (simp add: readPublicJsonObject_def readJsonWithLimit_def posted_request_def body_read_exact t MAX_PUBLIC_JSON_BYTES_def
        del: JSON_stringify.simps)
qed

text \<open>A request with a wrong password.\<close>

definition sample_user :: login_user where
  "sample_user = \<lparr>lu_uuid = ''u1'', lu_username = ''root'', lu_passwd = ''h'', lu_session_version = FinI 1,
     lu_totp_secret_enc = None, lu_totp_enabled_at = None\<rparr>"

definition sample_login_env :: login_env where
  "sample_login_env = \<lparr>le_sign = (\<lambda>p s. ''tok''), le_verify = (\<lambda>n t s. None), le_secrets = sample_env CHR ''a'' None,
     le_pw_verify = (\<lambda>n p h. Inr (p = Str ''right'')), le_pw_hash = (\<lambda>n p. Inl ServiceUnavailable), le_crypto = sample_crypto,
     le_hmac = (\<lambda>k m. m), le_rpc = (\<lambda>n a. Inl ()), le_date_parse = (\<lambda>s. NaN),
     le_user_by_name = (\<lambda>n. if n = ''root'' then Some sample_user else None), le_user_by_uuid = (\<lambda>n. None), le_user_count = 1,
     le_revision = (\<lambda>b. ''r''), le_jti = ''j'', le_csrf_bytes = [], le_iv = []\<rparr>"

definition sample_login :: "string \<Rightarrow> login_request" where
  "sample_login password = \<lparr>rq_body = posted_request [(''username'', Str ''root''), (''password'', Str password)], rq_ip_header = Some ''ip'',
     rq_ctx = \<lparr>req_cookies = [], csrf_header = None, https = True, set_cookies = []\<rparr>, rq_now = 5, rq_failed = 6\<rparr>"

definition new_login_world :: login_world where
  "new_login_world = \<lparr>lw_db = \<lparr>login_limits = (\<lambda>_. None), audit_log = [], loginFailureAuditThrottle = [], lastLoginRateLimitCleanupAt = 0\<rparr>,
     lw_edge = [], lw_rehashed = []\<rparr>"

lemma sample_ip: "getClientIp (sample_login pw) = ''ip''"
  by (simp add: getClientIp_def sample_login_def getCloudflareClientIp_def js_trim_def is_ws_def cc_def)

lemma sample_body:
  assumes "pw = ''wrong'' \<or> pw = ''right''"
  shows "readPublicJsonObject (rq_body (sample_login pw)) = Inr [(''username'', Str ''root''), (''password'', Str pw)]"
proof -
  have "length (the (JSON_stringify (Obj [(''username'', Str ''root''), (''password'', Str pw)]))) \<le> 4096"
    using assms by (auto simp: json_quote_def json_escape_def cc_def)
  then show ?thesis unfolding sample_login_def login_request.select_convs by (intro posted_back) simp
qed

lemma sample_try:
  assumes "pw = ''wrong'' \<or> pw = ''right''"
  shows "login sample_login_env (sample_login pw) new_login_world =
    try_password sample_login_env (sample_login pw) ''root'' pw (loadLoginRateLimitStates (\<lambda>_. None) (loginRateLimitBuckets ''ip'' ''root''))
      (login_cleanup (sample_login pw) new_login_world)"
proof -
  have l: "login_limits (lw_db (login_cleanup (sample_login pw) new_login_world)) = (\<lambda>_. None)"
    by (auto simp: login_cleanup_def new_login_world_def cleanupExpiredLoginRateLimits_def deleteLoginRateLimitsBefore_def)
  have "foldl (\<lambda>m s. max m (parseTimeMs (Option.bind (snd s) locked_until))) 0 (loadLoginRateLimitStates (\<lambda>_. None) bs) \<le> 5" for bs
    by (auto simp: foldl_max_le loadLoginRateLimitStates_def parseTimeMs_def)
  then have r: "getLoginRetryAfterSeconds (loadLoginRateLimitStates (\<lambda>_. None) bs) (rq_now (sample_login pw)) = 0" for bs
    by (simp add: getLoginRetryAfterSeconds_def sample_login_def)
  show ?thesis
    using assms by (auto simp: login_def sample_body js_get_Cons Let_def l r sample_ip MAX_LOGIN_USERNAME_LENGTH_def MAX_LOGIN_PASSWORD_LENGTH_def)
qed

lemma sample_wrong: "login_answer (PasswordE sample_login_env (sample_login ''wrong'')) new_login_world = WrongCredentials"
  unfolding login_answer_def login_attempt.simps sample_try [OF disjI1 [OF refl]]
  by (simp add: try_password_def Let_def sample_login_env_def sample_user_def verifyAdminPassword_def passwordStub_def valid_rpc_string_def)


subsection \<open>Sessions\<close>

text \<open>The cookies a handler added, and the session token among them.\<close>

fun is_session_cookie :: "string \<Rightarrow> cookie_op \<Rightarrow> bool" where
  "is_session_cookie token (SetCookie name t _ _ _ _ _) \<longleftrightarrow> name = ADMIN_SESSION_COOKIE \<and> t = token"
| "is_session_cookie token (DeleteCookie _ _) \<longleftrightarrow> False"

definition granted :: "ctx \<Rightarrow> ctx \<Rightarrow> string \<Rightarrow> bool" where
  "granted c c' token \<longleftrightarrow> list_ex (is_session_cookie token) (drop (length (set_cookies c)) (set_cookies c'))"

lemma not_granted [simp]: "\<not> granted c c token"
  by (simp add: granted_def)

lemma complete_granted:
  assumes "completeAdminLogin env rq user observed w = (w', c', r)" "granted (rq_ctx rq) c' token"
  shows "generateToken (le_sign env) (rq_now rq) (user_identity user) (JWT_SECRET (le_secrets env)) = Inr token"
  using assms by (auto simp: completeAdminLogin_def granted_def ensureAdminCsrfCookie_def setAdminSessionCookie_def push_cookie_def Let_def
      ADMIN_SESSION_COOKIE_def ADMIN_CSRF_COOKIE_def split: sum.splits auth_error.splits)

lemma password_granted:
  assumes "try_password env rq name password states w = (w', c', r)" "granted (rq_ctx rq) c' token"
  shows "\<exists>user. le_user_by_name env name = Some user \<and>
    verifyAdminPassword (le_pw_verify env) (Str (lu_uuid user)) (Str password) (Str (lu_passwd user)) = Inr True \<and>
    \<not> has_mfa user \<and> generateToken (le_sign env) (rq_now rq) (user_identity user) (JWT_SECRET (le_secrets env)) = Inr token"
proof (cases "le_user_by_name env name")
  case None
  then show ?thesis using assms by (auto simp: try_password_def Let_def split: sum.splits)
next
  case (Some user)
  have v: "verifyAdminPassword (le_pw_verify env) (Str (lu_uuid user)) (Str password) (Str (lu_passwd user)) = Inr True"
    using assms Some by (auto simp: try_password_def Let_def split: sum.splits bool.splits)
  then have acc: "password_accepted env rq user states (rehash_password env user password w) = (w', c', r)"
    using assms(1) Some by (simp add: try_password_def Let_def)
  then have "\<not> has_mfa user" using assms(2) by (auto simp: password_accepted_def split: sum.splits auth_error.splits)
  then show ?thesis using acc complete_granted assms(2) Some v by (simp add: password_accepted_def)
qed

lemma factor_granted:
  assumes "try_factor env rq user input states w = (w', c', r)" "granted (rq_ctx rq) c' token"
  shows "(\<exists>cf. confirmUserMfaFactor (le_crypto env) (le_hmac env) (le_rpc env) (le_date_parse env) (le_iv env)
      (factor_user user) input (le_secrets env) (rq_now rq) = Inr cf \<and> verified cf) \<and>
    generateToken (le_sign env) (rq_now rq) (user_identity user) (JWT_SECRET (le_secrets env)) = Inr token"
proof (cases "confirmUserMfaFactor (le_crypto env) (le_hmac env) (le_rpc env) (le_date_parse env) (le_iv env)
      (factor_user user) input (le_secrets env) (rq_now rq)")
  case (Inl e)
  then show ?thesis using assms by (cases e) (auto simp: try_factor_def)
next
  case (Inr cf)
  then have "verified cf" "completeAdminLogin env rq user states w = (w', c', r)"
    using assms by (auto simp: try_factor_def split: if_splits)
  then show ?thesis using complete_granted assms(2) Inr by blast
qed

lemma row_unlocked_before:
  assumes "unlocked now (login_limits (lw_db (login_cleanup rq w)) b)" "now = rq_now rq" "0 \<le> now"
  shows "unlocked now (login_limits (lw_db w) b)"
  using assms by (auto simp: login_cleanup_def cleanupExpiredLoginRateLimits_def deleteLoginRateLimitsBefore_def unlocked_def parseTimeMs_def
      split: option.splits if_splits)

text \<open>
  C1. A session cookie is granted only to an administrator who proved who they are. The password
  handler grants one only for the password of a user the service accepts, a user without second
  factor, when neither the address nor the address with that name is locked; the second handler only
  for a challenge that verifies as a login challenge of a user who still has that name and session
  version and is enrolled, when the address is not locked for that user, and a factor the database
  confirmed. The token is the session token of that very user.
\<close>
theorem login_session_sound:
  assumes "0 \<le> rq_now rq"
  shows "(login env rq w = (w', c', r) \<and> granted (rq_ctx rq) c' token \<longrightarrow>
      (\<exists>body name password user. readPublicJsonObject (rq_body rq) = Inr body \<and> js_get body ''username'' = Str name \<and>
         js_get body ''password'' = Str password \<and> le_user_by_name env name = Some user \<and>
         verifyAdminPassword (le_pw_verify env) (Str (lu_uuid user)) (Str password) (Str (lu_passwd user)) = Inr True \<and> \<not> has_mfa user \<and>
         (\<forall>b \<in> set (loginRateLimitBuckets (getClientIp rq) name). unlocked (rq_now rq) (login_limits (lw_db w) b)) \<and>
         generateToken (le_sign env) (rq_now rq) (user_identity user) (JWT_SECRET (le_secrets env)) = Inr token)) \<and>
    (login_mfa env rq w = (w', c', r) \<and> granted (rq_ctx rq) c' token \<longrightarrow>
      (\<exists>challenge fmethod code payload user cf. challenge \<noteq> [] \<and>
         verifyMfaToken (le_verify env) (rq_now rq) challenge MfaLogin (JWT_SECRET (le_secrets env)) = Inr (Some payload) \<and>
         le_user_by_uuid env (userId payload) = Some user \<and> lu_username user = username payload \<and>
         lu_session_version user = sessionVersion payload \<and> has_mfa user \<and>
         (\<forall>b \<in> set (mfaRateLimitBuckets (getClientIp rq) (lu_uuid user)). unlocked (rq_now rq) (login_limits (lw_db w) b)) \<and>
         confirmUserMfaFactor (le_crypto env) (le_hmac env) (le_rpc env) (le_date_parse env) (le_iv env) (factor_user user)
           \<lparr>fi_method = fmethod, fi_code = code, fi_purpose = MfaLogin, fi_operationToken = challenge\<rparr> (le_secrets env) (rq_now rq) = Inr cf \<and>
         verified cf \<and> generateToken (le_sign env) (rq_now rq) (user_identity user) (JWT_SECRET (le_secrets env)) = Inr token))"
proof (intro conjI impI; elim conjE)
  assume l: "login env rq w = (w', c', r)" and g: "granted (rq_ctx rq) c' token"
  from l show "\<exists>body name password user. readPublicJsonObject (rq_body rq) = Inr body \<and> js_get body ''username'' = Str name \<and>
         js_get body ''password'' = Str password \<and> le_user_by_name env name = Some user \<and>
         verifyAdminPassword (le_pw_verify env) (Str (lu_uuid user)) (Str password) (Str (lu_passwd user)) = Inr True \<and> \<not> has_mfa user \<and>
         (\<forall>b \<in> set (loginRateLimitBuckets (getClientIp rq) name). unlocked (rq_now rq) (login_limits (lw_db w) b)) \<and>
         generateToken (le_sign env) (rq_now rq) (user_identity user) (JWT_SECRET (le_secrets env)) = Inr token"
  proof (cases rule: login_cases)
    case (tried body name password states)
    have "unlocked (rq_now rq) (login_limits (lw_db w) b)" if "b \<in> set (loginRateLimitBuckets (getClientIp rq) name)" for b
      using row_unlocked_before [OF not_locked [OF tried(5)] refl assms] loaded_state [OF that] tried(4) by blast
    then show ?thesis using password_granted [OF tried(6) g] tried(1,2,3) by blast
  qed (use g in auto)
next
  assume l: "login_mfa env rq w = (w', c', r)" and g: "granted (rq_ctx rq) c' token"
  from l show "\<exists>challenge fmethod code payload user cf. challenge \<noteq> [] \<and>
         verifyMfaToken (le_verify env) (rq_now rq) challenge MfaLogin (JWT_SECRET (le_secrets env)) = Inr (Some payload) \<and>
         le_user_by_uuid env (userId payload) = Some user \<and> lu_username user = username payload \<and>
         lu_session_version user = sessionVersion payload \<and> has_mfa user \<and>
         (\<forall>b \<in> set (mfaRateLimitBuckets (getClientIp rq) (lu_uuid user)). unlocked (rq_now rq) (login_limits (lw_db w) b)) \<and>
         confirmUserMfaFactor (le_crypto env) (le_hmac env) (le_rpc env) (le_date_parse env) (le_iv env) (factor_user user)
           \<lparr>fi_method = fmethod, fi_code = code, fi_purpose = MfaLogin, fi_operationToken = challenge\<rparr> (le_secrets env) (rq_now rq) = Inr cf \<and>
         verified cf \<and> generateToken (le_sign env) (rq_now rq) (user_identity user) (JWT_SECRET (le_secrets env)) = Inr token"
  proof (cases rule: mfa_cases)
    case (tried challenge fmethod code payload user states)
    have "le_user_by_uuid env (userId payload) = Some user \<and> lu_username user = username payload \<and>
         lu_session_version user = sessionVersion payload \<and> has_mfa user"
      using tried(4) by (auto simp: challenge_user_def split: option.splits if_splits)
    then show ?thesis using factor_granted [OF tried(7) g] tried(1,3,6) by blast
  qed (use g in auto)
qed

lemma complete_grants:
  assumes "generateToken (le_sign env) (rq_now rq) (user_identity user) (JWT_SECRET (le_secrets env)) = Inr token"
  shows "granted (rq_ctx rq) (fst (snd (completeAdminLogin env rq user observed w))) token"
  by (simp add: completeAdminLogin_def assms granted_def ensureAdminCsrfCookie_def setAdminSessionCookie_def push_cookie_def Let_def)

lemma sample_right:
  "granted (rq_ctx (sample_login ''right'')) (fst (snd (login sample_login_env (sample_login ''right'') new_login_world))) ''tok''"
proof -
  have "js_trim (replicate 32 CHR ''j'') = replicate 32 CHR ''j''" by (rule js_trim_id) (simp add: list_all_iff is_ws_def cc_def)
  then have "requireJwtSecret (JWT_SECRET (le_secrets sample_login_env)) = Inr (replicate 32 CHR ''j'')"
    using length_utf8_encode(1) [of "replicate 32 CHR ''j''"]
    by (simp add: requireJwtSecret_def MIN_JWT_SECRET_BYTES_def Let_def sample_login_env_def sample_env_def)
  then have t: "generateToken (le_sign sample_login_env) (rq_now (sample_login ''right'')) (user_identity sample_user)
      (JWT_SECRET (le_secrets sample_login_env)) = Inr ''tok''"
    by (simp add: generateToken_def Let_def) (simp add: sample_login_env_def)
  have u: "le_user_by_name sample_login_env ''root'' = Some sample_user" "\<not> has_mfa sample_user"
    "verifyAdminPassword (le_pw_verify sample_login_env) (Str (lu_uuid sample_user)) (Str ''right'') (Str (lu_passwd sample_user)) = Inr True"
    by (simp_all add: sample_login_env_def has_mfa_def sample_user_def verifyAdminPassword_def passwordStub_def valid_rpc_string_def)
  show ?thesis
    unfolding sample_try [OF disjI2 [OF refl]]
    by (simp add: try_password_def Let_def u password_accepted_def complete_grants [OF t])
qed

theorem login_session_sound_witness:
  "\<exists>user. le_user_by_name sample_login_env ''root'' = Some user \<and>
     verifyAdminPassword (le_pw_verify sample_login_env) (Str (lu_uuid user)) (Str ''right'') (Str (lu_passwd user)) = Inr True"
proof -
  obtain w' c' r where l: "login sample_login_env (sample_login ''right'') new_login_world = (w', c', r)" by (metis prod.collapse)
  have g: "granted (rq_ctx (sample_login ''right'')) c' ''tok''" using sample_right by (simp add: l)
  have now: "0 \<le> rq_now (sample_login ''right'')" by (simp add: sample_login_def)
  have b: "readPublicJsonObject (rq_body (sample_login ''right'')) = Inr [(''username'', Str ''root''), (''password'', Str ''right'')]"
    by (rule sample_body [OF disjI2 [OF refl]])
  show ?thesis using login_session_sound [OF now, of sample_login_env new_login_world w' c' r "''tok''"] l g by (auto simp: b js_get_Cons)
qed

text \<open>A success forgets only what it saw: a failure recorded since the states were loaded_state stays.\<close>

lemma success_keeps_new_failures:
  assumes "b \<in> set bs'" "list_ex (\<lambda>c. c \<noteq> CHR '' '') b" "\<forall>r. limits b = Some r \<longrightarrow> rv b \<noteq> failure_revision r"
  shows "clearLoginFailures bs (loadLoginRateLimitStates limits bs) (recordLoginFailure rv bs' t limits) b =
    Some (failed_row t (rv b) (limits b))"
proof -
  have "(b, seen) \<notin> set (List.map_filter (\<lambda>b. case map_of (loadLoginRateLimitStates limits bs) b of Some (Some r) \<Rightarrow> Some (b, r) | _ \<Rightarrow> None) (js_uniq bs))"
    if "failure_revision seen = rv b" for seen
    using assms(3) that
    by (auto simp: map_filter_def loadLoginRateLimitStates_def map_of_map_restrict js_uniq_set restrict_map_def split: option.splits if_splits)
  then show ?thesis
    using assms(1,2) by (auto simp: clearLoginFailures_def clear_observed_def recorded_row failed_revision list_ex_iff)
qed

end
