(* ===== verification/EmailSmtp.thy ===== *)
theory EmailSmtp
  imports SettingsSchema
begin

section \<open>Mail over SMTP\<close>

text \<open>
  \<open>utils/email.ts\<close>: checking recipients and server, composing a message and the SMTP dialogue. A
  server is the lines it will send on the plain connection and those it will send after the upgrade
  to TLS, whatever they are; reading past them is the closed connection. What is written is logged
  with whether the connection was secure. Exceptions are the result \<open>MailBroken\<close>. The date and the
  message id are parameters, and texts shown to users are constructors. The socket, the timeout
  race and the buffering of \<open>createSmtpLineReader\<close> are input and output.
\<close>

subsection \<open>Composing a message\<close>

definition EMAIL_MESSAGE_MAX_CHARS :: nat where "EMAIL_MESSAGE_MAX_CHARS = 4096"
definition EMAIL_SUBJECT_MAX_CHARS :: nat where "EMAIL_SUBJECT_MAX_CHARS = 120"

definition crlf :: string where "crlf = [CHR 0x0D, CHR 0x0A]"

definition utf8Base64 :: "string \<Rightarrow> string" where
  "utf8Base64 v = b64_encode (utf8_encode v)"

definition truncateText :: "string \<Rightarrow> nat \<Rightarrow> string" where
  "truncateText v mx = take mx v"

text \<open>The loop of \<open>encodeHeader\<close>: \<open>chunk\<close> is the text of the current word, at most 39 bytes of UTF-8.\<close>

definition encoded_word :: "string \<Rightarrow> string" where
  "encoded_word chunk = ''=?UTF-8?B?'' @ utf8Base64 chunk @ ''?=''"

fun header_words :: "string \<Rightarrow> string \<Rightarrow> string list" where
  "header_words chunk [] = (if chunk = [] then [] else [encoded_word chunk])"
| "header_words chunk (c # cs) =
     (if 39 < length (utf8_encode chunk) + length (utf8_char c)
      then encoded_word chunk # header_words [c] cs else header_words (chunk @ [c]) cs)"

definition encodeHeader :: "string \<Rightarrow> string" where
  "encodeHeader v = js_join (crlf @ '' '') (header_words [] v)"

fun newlines_crlf :: "string \<Rightarrow> string" where
  "newlines_crlf [] = []"
| "newlines_crlf [c] = (if cc c = 13 \<or> cc c = 10 then crlf else [c])"
| "newlines_crlf (c # d # s) =
     (if cc c = 13 \<and> cc d = 10 then crlf @ newlines_crlf s
      else if cc c = 13 \<or> cc c = 10 then crlf @ newlines_crlf (d # s)
      else c # newlines_crlf (d # s))"

text \<open>\<open>match(/.{1,76}/g)\<close> on a text without line ends.\<close>

function lines76 :: "string \<Rightarrow> string list" where
  "lines76 s = (if s = [] then [] else take 76 s # lines76 (drop 76 s))"
  by auto
termination by (relation "measure length") auto

declare lines76.simps [simp del]

record email_input =
  em_fromAddress :: string
  em_fromName :: string
  em_recipients :: "string list"
  em_subject :: string
  em_body :: string
  em_host :: string

definition header_lines :: "string \<Rightarrow> string \<Rightarrow> email_input \<Rightarrow> string list" where
  "header_lines date uuid input =
     (let subject = truncateText (em_subject input) EMAIL_SUBJECT_MAX_CHARS;
          name = js_trim (em_fromName input);
          from = (if name \<noteq> [] then encodeHeader name @ crlf @ '' <'' @ em_fromAddress input @ ''>'' else em_fromAddress input)
      in [''From: '' @ from, ''To: '' @ js_join ('','' @ crlf @ '' '') (em_recipients input), ''Subject: '' @ encodeHeader subject,
          ''MIME-Version: 1.0'', ''Content-Type: text/plain; charset=UTF-8'', ''Content-Transfer-Encoding: base64'',
          ''Date: '' @ date, ''Message-ID: <'' @ uuid @ ''@'' @ em_host input @ ''>''])"

definition encoded_body :: "email_input \<Rightarrow> string" where
  "encoded_body input = utf8Base64 (newlines_crlf (truncateText (em_body input) EMAIL_MESSAGE_MAX_CHARS))"

definition buildEmailMessage :: "string \<Rightarrow> string \<Rightarrow> email_input \<Rightarrow> string" where
  "buildEmailMessage date uuid input =
     js_join crlf (header_lines date uuid input) @ crlf @ crlf @ js_join crlf (lines76 (encoded_body input))"

text \<open>A dot at the start of the text or after a line end is doubled.\<close>

fun dot_stuff :: "bool \<Rightarrow> string \<Rightarrow> string" where
  "dot_stuff start [] = []"
| "dot_stuff start (c # s) =
     (if start \<and> c = CHR ''.'' then ''..'' @ dot_stuff False s
      else if cc c = 13 then (case s of [] \<Rightarrow> [c] | d # r \<Rightarrow> if cc d = 10 then c # d # dot_stuff True r else c # dot_stuff False s)
      else c # dot_stuff False s)"

definition dotStuff :: "string \<Rightarrow> string" where
  "dotStuff data = dot_stuff True data"

subsection \<open>Configuration\<close>

datatype smtp_security = Tls | StartTls
datatype smtp_auth = AuthPlain | AuthLogin

record smtp_config =
  sc_host :: string
  sc_port :: jsnum
  sc_security :: smtp_security
  sc_username :: string
  sc_password :: string
  sc_fromAddress :: string
  sc_fromName :: string
  sc_recipients :: "string list"
  sc_authMethod :: smtp_auth

datatype smtp_error = ServiceNotReady | EhloFailed | NoTlsUpgrade | StartTlsNotOffered | StartTlsRefused | TlsEhloFailed
  | AuthRefused | UsernameRefused | AuthFailed | SenderRefused | RecipientRefused | DataRefused | ContentRefused
  | CredentialsMissing | SenderMissing | RecipientsMissing
  | NoRecipients | TooManyRecipients | RecipientInvalid | HostInvalid | PortInvalid | PortBlocked

definition normalizeRecipients :: "string \<Rightarrow> smtp_error + string list" where
  "normalizeRecipients v =
     (let recipients = recipient_items v
      in if recipients = [] then Inl NoRecipients
         else if 20 < length recipients then Inl TooManyRecipients
         else if list_ex (\<lambda>r. 254 < length r \<or> \<not> is_email r) recipients then Inl RecipientInvalid
         else Inr (js_uniq recipients))"

text \<open>The third check of the code, that the security mode is one of two, is the type.\<close>

definition validateSmtpConfig :: "(string \<Rightarrow> url option) \<Rightarrow> smtp_config \<Rightarrow> smtp_error option" where
  "validateSmtpConfig up cfg =
     (if normalizeSmtpHost up (Str (sc_host cfg)) \<in> {None, Some []} then Some HostInvalid
      else if \<not> js_isInteger (sc_port cfg) \<or> js_lt (sc_port cfg) (FinI 1) \<or> js_lt (FinI 65535) (sc_port cfg) then Some PortInvalid
      else if sc_port cfg = FinI 25 then Some PortBlocked
      else None)"

subsection \<open>The dialogue\<close>

datatype smtp_write = WriteLine string | WriteData string

record smtp_io =
  io_lines :: "string list"
  io_tls_lines :: "string list"
  io_can_upgrade :: bool
  io_secure :: bool
  io_log :: "(bool \<times> smtp_write) list"

datatype smtp_result = MailSent | MailRefused smtp_error | MailBroken

definition SMTP_MAX_REPLY_BYTES :: nat where "SMTP_MAX_REPLY_BYTES = 64 * 1024"
definition SMTP_MAX_REPLY_LINES :: nat where "SMTP_MAX_REPLY_LINES = 128"
definition SMTP_MAX_LINE_BYTES :: nat where "SMTP_MAX_LINE_BYTES = 512"

text \<open>\<open>/^(\d{3})(?:([ -])(.*))?$/\<close>: the code, whether the line is continued, and its text.\<close>

definition reply_line :: "string \<Rightarrow> (nat \<times> bool \<times> string) option" where
  "reply_line line =
     (if length line < 3 \<or> \<not> list_all is_digit (take 3 line) then None
      else let code = digits_val 10 (take 3 line)
           in case drop 3 line of
               [] \<Rightarrow> Some (code, False, [])
             | c # rest \<Rightarrow> if (c = CHR '' '' \<or> c = CHR ''-'') \<and> list_all (\<lambda>x. cc x \<noteq> 10 \<and> cc x \<noteq> 13) rest
                           then Some (code, c = CHR ''-'', rest) else None)"

fun reply_loop :: "nat \<Rightarrow> nat \<Rightarrow> nat option \<Rightarrow> string list \<Rightarrow> string list \<Rightarrow> string list \<times> (nat \<times> string list) option" where
  "reply_loop 0 size0 code got ls = (ls, None)"
| "reply_loop (Suc n) size0 code got [] = ([], None)"
| "reply_loop (Suc n) size0 code got (line # ls) =
     (let bytes = length (utf8_encode line) + 2
      in if SMTP_MAX_LINE_BYTES < bytes \<or> SMTP_MAX_REPLY_BYTES < size0 + bytes then (ls, None)
         else case reply_line line of
             None \<Rightarrow> (ls, None)
           | Some (current, continued, txt) \<Rightarrow>
               if code \<noteq> None \<and> code \<noteq> Some current then (ls, None)
               else if continued then reply_loop n (size0 + bytes) (Some current) (got @ [txt]) ls
               else (ls, Some (current, got @ [txt])))"

definition readSmtpReply :: "smtp_io \<Rightarrow> smtp_io \<times> (nat \<times> string list) option" where
  "readSmtpReply io = (case reply_loop SMTP_MAX_REPLY_LINES 0 None [] (io_lines io) of (ls, r) \<Rightarrow> (io\<lparr>io_lines := ls\<rparr>, r))"

definition write_smtp :: "smtp_write \<Rightarrow> smtp_io \<Rightarrow> smtp_io" where
  "write_smtp m io = io\<lparr>io_log := io_log io @ [(io_secure io, m)]\<rparr>"

definition start_tls :: "smtp_io \<Rightarrow> smtp_io" where
  "start_tls io = io\<lparr>io_secure := True, io_lines := io_tls_lines io\<rparr>"

text \<open>One exchange: read a reply, go on if its code is expected.\<close>

definition expect :: "nat list \<Rightarrow> smtp_error \<Rightarrow> (string list \<Rightarrow> smtp_io \<Rightarrow> smtp_io \<times> smtp_result) \<Rightarrow> smtp_io \<Rightarrow> smtp_io \<times> smtp_result" where
  "expect codes err k io = (case readSmtpReply io of
       (io1, None) \<Rightarrow> (io1, MailBroken)
     | (io1, Some (code, ls)) \<Rightarrow> if code \<in> set codes then k ls io1 else (io1, MailRefused err))"

definition offers_starttls :: "string list \<Rightarrow> bool" where
  "offers_starttls ls = list_ex (\<lambda>l. js_toUpperCase (take 8 l) = ''STARTTLS'' \<and> (case drop 8 l of [] \<Rightarrow> True | c # _ \<Rightarrow> is_ws c)) ls"

definition send_data :: "string \<Rightarrow> smtp_io \<Rightarrow> smtp_io \<times> smtp_result" where
  "send_data message io =
     expect [354] DataRefused (\<lambda>_ io1.
       expect [250] ContentRefused (\<lambda>_ io2. (write_smtp (WriteLine ''QUIT'') io2, MailSent))
         (write_smtp (WriteData (dotStuff message @ crlf @ ''.'')) io1))
       (write_smtp (WriteLine ''DATA'') io)"

fun send_recipients :: "string list \<Rightarrow> string \<Rightarrow> smtp_io \<Rightarrow> smtp_io \<times> smtp_result" where
  "send_recipients [] message io = send_data message io"
| "send_recipients (r # rs) message io =
     expect [250, 251, 252] RecipientRefused (\<lambda>_. send_recipients rs message) (write_smtp (WriteLine (''RCPT TO:<'' @ r @ ''>'')) io)"

definition send_mail :: "smtp_config \<Rightarrow> string \<Rightarrow> smtp_io \<Rightarrow> smtp_io \<times> smtp_result" where
  "send_mail cfg message io =
     expect [250] SenderRefused (\<lambda>_. send_recipients (sc_recipients cfg) message)
       (write_smtp (WriteLine (''MAIL FROM:<'' @ sc_fromAddress cfg @ ''>'')) io)"

definition authenticate :: "smtp_config \<Rightarrow> string \<Rightarrow> smtp_io \<Rightarrow> smtp_io \<times> smtp_result" where
  "authenticate cfg message io = (case sc_authMethod cfg of
       AuthLogin \<Rightarrow>
         expect [334] AuthRefused (\<lambda>_ io1.
           expect [334] UsernameRefused (\<lambda>_ io2.
             expect [235] AuthFailed (\<lambda>_. send_mail cfg message) (write_smtp (WriteLine (utf8Base64 (sc_password cfg))) io2))
             (write_smtp (WriteLine (utf8Base64 (sc_username cfg))) io1))
           (write_smtp (WriteLine ''AUTH LOGIN'') io)
     | AuthPlain \<Rightarrow>
         expect [235] AuthFailed (\<lambda>_. send_mail cfg message)
           (write_smtp (WriteLine (''AUTH PLAIN '' @ utf8Base64 (char_of (0 :: nat) # sc_username cfg @ char_of (0 :: nat) # sc_password cfg))) io))"

definition upgrade :: "smtp_config \<Rightarrow> string \<Rightarrow> string list \<Rightarrow> smtp_io \<Rightarrow> smtp_io \<times> smtp_result" where
  "upgrade cfg message hello io =
     (if sc_security cfg = Tls then authenticate cfg message io
      else if \<not> io_can_upgrade io then (io, MailRefused NoTlsUpgrade)
      else if \<not> offers_starttls hello then (io, MailRefused StartTlsNotOffered)
      else expect [220] StartTlsRefused (\<lambda>_ io1.
             expect [250] TlsEhloFailed (\<lambda>_. authenticate cfg message)
               (write_smtp (WriteLine (''EHLO '' @ sc_host cfg)) (start_tls io1)))
             (write_smtp (WriteLine ''STARTTLS'') io))"

definition config_input :: "smtp_config \<Rightarrow> string \<Rightarrow> string \<Rightarrow> email_input" where
  "config_input cfg sbj bdy = \<lparr>em_fromAddress = sc_fromAddress cfg, em_fromName = sc_fromName cfg, em_recipients = sc_recipients cfg,
     em_subject = sbj, em_body = bdy, em_host = sc_host cfg\<rparr>"

definition sendSmtpCommands :: "string \<Rightarrow> string \<Rightarrow> smtp_config \<Rightarrow> string \<Rightarrow> string \<Rightarrow> smtp_io \<Rightarrow> smtp_io \<times> smtp_result" where
  "sendSmtpCommands date uuid cfg sbj bdy io =
     expect [220] ServiceNotReady (\<lambda>_ io1.
       expect [250] EhloFailed (upgrade cfg (buildEmailMessage date uuid (config_input cfg sbj bdy)))
         (write_smtp (WriteLine (''EHLO '' @ sc_host cfg)) io1)) io"

text \<open>
  \<open>sendSmtpEmail\<close> up to the race with its timeout: nothing is connected unless the configuration is
  complete; \<open>lines\<close> and \<open>tls_lines\<close> are what the server sends. An exception of the validation is \<open>Inl\<close>.
\<close>

definition sendSmtpEmail ::
  "(string \<Rightarrow> url option) \<Rightarrow> string \<Rightarrow> string \<Rightarrow> string list \<Rightarrow> string list \<Rightarrow> smtp_config \<Rightarrow> string \<Rightarrow> string \<Rightarrow>
   smtp_error + (smtp_io option \<times> smtp_result)" where
  "sendSmtpEmail up date uuid lines tls_lines cfg sbj bdy =
     (case validateSmtpConfig up cfg of
        Some e \<Rightarrow> Inl e
      | None \<Rightarrow> Inr (
          if sc_username cfg = [] \<or> sc_password cfg = [] then (None, MailRefused CredentialsMissing)
          else if sc_fromAddress cfg = [] then (None, MailRefused SenderMissing)
          else if sc_recipients cfg = [] then (None, MailRefused RecipientsMissing)
          else (case sendSmtpCommands date uuid cfg sbj bdy
                 \<lparr>io_lines = lines, io_tls_lines = tls_lines, io_can_upgrade = True, io_secure = (sc_security cfg = Tls), io_log = []\<rparr> of
               (io, r) \<Rightarrow> (Some io, r))))"

subsection \<open>The dialogue follows its script\<close>

text \<open>
  \<open>follows s script k\<close>: on a connection that is secure or not as \<open>s\<close> says, \<open>k\<close> writes a prefix of the
  script whatever the server replies, and reports success exactly when it wrote all of it.
\<close>

definition follows :: "bool \<Rightarrow> (bool \<times> smtp_write) list \<Rightarrow> (smtp_io \<Rightarrow> smtp_io \<times> smtp_result) \<Rightarrow> bool" where
  "follows s script k \<longleftrightarrow> script \<noteq> [] \<and> (\<forall>io io' r. io_secure io = s \<longrightarrow> k io = (io', r) \<longrightarrow>
     (\<exists>n \<le> length script. io_log io' = io_log io @ take n script \<and> (r = MailSent \<longleftrightarrow> n = length script)))"

lemma followsD:
  assumes "follows s script k" "io_secure io = s" "k io = (io', r)"
  obtains n where "n \<le> length script" "io_log io' = io_log io @ take n script" "r = MailSent \<longleftrightarrow> n = length script"
  using assms unfolding follows_def by blast

lemma read_keeps: "readSmtpReply io = (io1, r) \<Longrightarrow> io_log io1 = io_log io \<and> io_secure io1 = io_secure io"
  by (auto simp: readSmtpReply_def split: prod.splits)

lemma expect_follows:
  assumes "\<And>ls. follows s script (k ls)"
  shows "follows s script (expect codes err k)"
  unfolding follows_def
proof (intro conjI allI impI)
  show "script \<noteq> []" using assms by (auto simp: follows_def)
  fix io io' r assume s: "io_secure io = s" and e: "expect codes err k io = (io', r)"
  obtain io1 rep where rd: "readSmtpReply io = (io1, rep)" by force
  note keep = read_keeps [OF rd]
  consider "io' = io1" "r \<noteq> MailSent" | ls where "k ls io1 = (io', r)"
    using e rd by (auto simp: expect_def split: option.splits prod.splits if_splits)
  then show "\<exists>n \<le> length script. io_log io' = io_log io @ take n script \<and> (r = MailSent \<longleftrightarrow> n = length script)"
  proof cases
    case 1
    then show ?thesis using keep \<open>script \<noteq> []\<close> by (intro exI [of _ 0]) simp
  next
    case 2
    then show ?thesis using followsD [OF assms _ 2] keep s by metis
  qed
qed

lemma write_follows:
  assumes "follows s script k"
  shows "follows s ((s, m) # script) (\<lambda>io. k (write_smtp m io))"
  unfolding follows_def
proof (intro conjI allI impI)
  fix io io' r assume s: "io_secure io = s" and k: "k (write_smtp m io) = (io', r)"
  have "io_secure (write_smtp m io) = s" using s by (simp add: write_smtp_def)
  then obtain n where "n \<le> length script" "io_log io' = io_log (write_smtp m io) @ take n script" "r = MailSent \<longleftrightarrow> n = length script"
    using followsD [OF assms _ k] by metis
  then show "\<exists>n \<le> length ((s, m) # script). io_log io' = io_log io @ take n ((s, m) # script) \<and> (r = MailSent \<longleftrightarrow> n = length ((s, m) # script))"
    using s by (intro exI [of _ "Suc n"]) (simp add: write_smtp_def)
qed simp

lemmas exchange_follows = write_follows [OF expect_follows]

lemma tls_follows:
  assumes "follows True script k"
  shows "follows False script (\<lambda>io. k (start_tls io))"
proof -
  have "io_secure (start_tls io)" "io_log (start_tls io) = io_log io" for io by (simp_all add: start_tls_def)
  then show ?thesis using assms unfolding follows_def by metis
qed

lemma if_follows: "follows s script k1 \<Longrightarrow> follows s script k2 \<Longrightarrow> follows s script (\<lambda>io. if P io then k1 io else k2 io)"
  by (simp add: follows_def)

lemma refuse_follows: "script \<noteq> [] \<Longrightarrow> follows s script (\<lambda>io. (io, MailRefused e))"
  by (auto simp: follows_def intro!: exI [of _ 0])

lemma quit_follows: "follows s [(s, WriteLine ''QUIT'')] (\<lambda>io. (write_smtp (WriteLine ''QUIT'') io, MailSent))"
  by (auto simp: follows_def write_smtp_def intro!: exI [of _ "Suc 0"])

definition data_script :: "string \<Rightarrow> smtp_write list" where
  "data_script message = [WriteLine ''DATA'', WriteData (dotStuff message @ crlf @ ''.''), WriteLine ''QUIT'']"

definition auth_script :: "smtp_config \<Rightarrow> smtp_write list" where
  "auth_script cfg = (case sc_authMethod cfg of
       AuthLogin \<Rightarrow> map WriteLine [''AUTH LOGIN'', utf8Base64 (sc_username cfg), utf8Base64 (sc_password cfg)]
     | AuthPlain \<Rightarrow> [WriteLine (''AUTH PLAIN '' @ utf8Base64 (char_of (0 :: nat) # sc_username cfg @ char_of (0 :: nat) # sc_password cfg))])"

definition mail_script :: "smtp_config \<Rightarrow> string \<Rightarrow> smtp_write list" where
  "mail_script cfg message = auth_script cfg @ WriteLine (''MAIL FROM:<'' @ sc_fromAddress cfg @ ''>'') #
     map (\<lambda>r. WriteLine (''RCPT TO:<'' @ r @ ''>'')) (sc_recipients cfg) @ data_script message"

definition smtp_script :: "smtp_config \<Rightarrow> string \<Rightarrow> (bool \<times> smtp_write) list" where
  "smtp_script cfg message = (case sc_security cfg of
       Tls \<Rightarrow> map (Pair True) (WriteLine (''EHLO '' @ sc_host cfg) # mail_script cfg message)
     | StartTls \<Rightarrow> map (Pair False) [WriteLine (''EHLO '' @ sc_host cfg), WriteLine ''STARTTLS''] @
         map (Pair True) (WriteLine (''EHLO '' @ sc_host cfg) # mail_script cfg message))"

lemma data_follows: "follows s (map (Pair s) (data_script message)) (send_data message)"
  unfolding data_script_def send_data_def list.map
  by (rule exchange_follows, rule exchange_follows, rule quit_follows)

lemma recipients_follow:
  "follows s (map (Pair s) (map (\<lambda>r. WriteLine (''RCPT TO:<'' @ r @ ''>'')) rs @ data_script message)) (send_recipients rs message)"
proof (induction rs)
  case Nil
  have "send_recipients [] message = send_data message" by (rule ext) simp
  then show ?case using data_follows by simp
next
  case (Cons r rs)
  have "send_recipients (r # rs) message =
      (\<lambda>io. expect [250, 251, 252] RecipientRefused (\<lambda>_. send_recipients rs message) (write_smtp (WriteLine (''RCPT TO:<'' @ r @ ''>'')) io))"
    by (rule ext) simp
  moreover have "map (Pair s) (map (\<lambda>r. WriteLine (''RCPT TO:<'' @ r @ ''>'')) (r # rs) @ data_script message) =
      (s, WriteLine (''RCPT TO:<'' @ r @ ''>'')) # map (Pair s) (map (\<lambda>r. WriteLine (''RCPT TO:<'' @ r @ ''>'')) rs @ data_script message)"
    by simp
  ultimately show ?case by (simp only:) (rule exchange_follows, rule Cons)
qed

lemma send_mail_follows:
  "follows s ((s, WriteLine (''MAIL FROM:<'' @ sc_fromAddress cfg @ ''>'')) #
      map (Pair s) (map (\<lambda>r. WriteLine (''RCPT TO:<'' @ r @ ''>'')) (sc_recipients cfg) @ data_script message)) (send_mail cfg message)"
  unfolding send_mail_def [abs_def] by (rule exchange_follows) (rule recipients_follow)

lemma mail_follows: "follows s (map (Pair s) (mail_script cfg message)) (authenticate cfg message)"
proof (cases "sc_authMethod cfg")
  case AuthPlain
  let ?auth = "WriteLine (''AUTH PLAIN '' @ utf8Base64 (char_of (0 :: nat) # sc_username cfg @ char_of (0 :: nat) # sc_password cfg))"
  have "authenticate cfg message = (\<lambda>io. expect [235] AuthFailed (\<lambda>_. send_mail cfg message) (write_smtp ?auth io))"
    by (rule ext) (simp add: authenticate_def AuthPlain)
  moreover have "map (Pair s) (mail_script cfg message) = (s, ?auth) # (s, WriteLine (''MAIL FROM:<'' @ sc_fromAddress cfg @ ''>'')) #
      map (Pair s) (map (\<lambda>r. WriteLine (''RCPT TO:<'' @ r @ ''>'')) (sc_recipients cfg) @ data_script message)"
    by (simp add: mail_script_def auth_script_def AuthPlain)
  ultimately show ?thesis
    by (simp only:) (rule exchange_follows, rule send_mail_follows)
next
  case AuthLogin
  let ?auth = "WriteLine ''AUTH LOGIN''" let ?u = "WriteLine (utf8Base64 (sc_username cfg))" let ?p = "WriteLine (utf8Base64 (sc_password cfg))"
  have "authenticate cfg message = (\<lambda>io. expect [334] AuthRefused (\<lambda>_ io1. expect [334] UsernameRefused (\<lambda>_ io2.
      expect [235] AuthFailed (\<lambda>_. send_mail cfg message) (write_smtp ?p io2)) (write_smtp ?u io1)) (write_smtp ?auth io))"
    by (rule ext) (simp add: authenticate_def AuthLogin)
  moreover have "map (Pair s) (mail_script cfg message) = (s, ?auth) # (s, ?u) # (s, ?p) # (s, WriteLine (''MAIL FROM:<'' @ sc_fromAddress cfg @ ''>'')) #
      map (Pair s) (map (\<lambda>r. WriteLine (''RCPT TO:<'' @ r @ ''>'')) (sc_recipients cfg) @ data_script message)"
    by (simp add: mail_script_def auth_script_def AuthLogin)
  ultimately show ?thesis
    by (simp only:) (rule exchange_follows, rule exchange_follows, rule exchange_follows, rule send_mail_follows)
qed

lemma upgrade_follows:
  assumes "sc_security cfg = StartTls"
  shows "follows False (map (Pair False) [WriteLine ''STARTTLS''] @ map (Pair True) (WriteLine (''EHLO '' @ sc_host cfg) # mail_script cfg message))
    (upgrade cfg message hello)"
proof -
  let ?script = "map (Pair False) [WriteLine ''STARTTLS''] @ map (Pair True) (WriteLine (''EHLO '' @ sc_host cfg) # mail_script cfg message)"
  let ?go = "\<lambda>io. expect [220] StartTlsRefused (\<lambda>_ io1. expect [250] TlsEhloFailed (\<lambda>_. authenticate cfg message)
               (write_smtp (WriteLine (''EHLO '' @ sc_host cfg)) (start_tls io1))) (write_smtp (WriteLine ''STARTTLS'') io)"
  have "follows False (map (Pair True) (WriteLine (''EHLO '' @ sc_host cfg) # mail_script cfg message))
      (\<lambda>io1. expect [250] TlsEhloFailed (\<lambda>_. authenticate cfg message) (write_smtp (WriteLine (''EHLO '' @ sc_host cfg)) (start_tls io1)))"
    unfolding list.map by (rule tls_follows [OF exchange_follows]) (rule mail_follows)
  then have go: "follows False ?script ?go" unfolding list.map append_Cons append_Nil by (rule exchange_follows)
  have "upgrade cfg message hello = (\<lambda>io. if \<not> io_can_upgrade io then (io, MailRefused NoTlsUpgrade)
      else if \<not> offers_starttls hello then (io, MailRefused StartTlsNotOffered) else ?go io)"
    using assms by (intro ext) (simp add: upgrade_def)
  then show ?thesis by (simp only:) (intro if_follows refuse_follows go; simp)
qed

lemma commands_follow:
  "follows (sc_security cfg = Tls) (smtp_script cfg (buildEmailMessage date uuid (config_input cfg sbj bdy)))
    (sendSmtpCommands date uuid cfg sbj bdy)"
proof (cases "sc_security cfg")
  case Tls
  have "upgrade cfg message hello = authenticate cfg message" for message hello
    using Tls by (intro ext) (simp add: upgrade_def)
  then show ?thesis
    unfolding smtp_script_def sendSmtpCommands_def [abs_def] Tls smtp_security.case list.map
    by (simp only: refl) (rule expect_follows, rule exchange_follows, simp only:, rule mail_follows)
next
  case StartTls
  show ?thesis
    unfolding smtp_script_def sendSmtpCommands_def [abs_def] StartTls smtp_security.case list.map append_Cons
    by (simp only: smtp_security.distinct) (rule expect_follows, rule exchange_follows, use upgrade_follows [OF StartTls] in simp)
qed

subsection \<open>Lines of a message\<close>

definition plain_line :: "string \<Rightarrow> bool" where
  "plain_line l \<longleftrightarrow> list_all (\<lambda>c. cc c \<noteq> 13 \<and> cc c \<noteq> 10) l"

lemma plain_line_simps [simp]: "plain_line []" "plain_line (c # l) \<longleftrightarrow> cc c \<noteq> 13 \<and> cc c \<noteq> 10 \<and> plain_line l"
  "plain_line (l @ l') \<longleftrightarrow> plain_line l \<and> plain_line l'"
  by (auto simp: plain_line_def)

lemma crlf_cc [simp]: "cc CHR 0x0D = 13" "cc CHR 0x0A = 10" "cc CHR '' '' = 32" "cc CHR '','' = 44"
  by (simp_all add: cc_def)

definition mail_safe :: "char \<Rightarrow> bool" where
  "mail_safe c \<longleftrightarrow> cc c \<noteq> 13 \<and> cc c \<noteq> 10 \<and> c \<noteq> CHR ''.''"

lemma b64_char_safe: "n < 64 \<Longrightarrow> mail_safe (b64_char n)"
  using b64_char_not(2,5) [of n] by (auto simp: mail_safe_def is_ascii_ws_def)

lemma b64_encode_safe: "list_all mail_safe (b64_encode bs)"
proof -
  have "\<forall>n \<in> set (sextets bs). mail_safe (b64_char n)" using sextets_bound b64_char_safe by blast
  moreover have "mail_safe CHR ''=''" by (simp add: mail_safe_def cc_def)
  ultimately show ?thesis by (simp add: b64_encode_def b64_pad_def list_all_iff ball_Un)
qed

lemma b64_encode_plain: "plain_line (b64_encode bs)"
  using b64_encode_safe [of bs] by (auto simp: plain_line_def mail_safe_def list_all_iff)

lemma lines76_parts:
  "concat (lines76 s) = s" "l \<in> set (lines76 s) \<Longrightarrow> l \<noteq> [] \<and> length l \<le> 76 \<and> set l \<subseteq> set s"
proof (induction s rule: lines76.induct)
  case (1 s)
  { case 1 then show ?case using "1.IH"(1) by (cases "s = []") (simp_all add: lines76.simps [of s] lines76.simps [of "[]"]) }
  { case 2 then show ?case using "1.IH"(2) set_drop_subset set_take_subset
      by (cases "s = []") (fastforce simp: lines76.simps [of s] lines76.simps [of "[]"])+ }
qed

text \<open>A header folded over several lines.\<close>

fun folded :: "string \<Rightarrow> string \<Rightarrow> string list \<Rightarrow> string list" where
  "folded pre sep [] = [pre]"
| "folded pre sep [x] = [pre @ x]"
| "folded pre sep (x # y # xs) = (pre @ x @ sep) # folded '' '' sep (y # xs)"

lemma folded_ne [simp]: "folded pre sep xs \<noteq> []"
  by (cases "(pre, sep, xs)" rule: folded.cases) auto

lemma join_Cons: "ls \<noteq> [] \<Longrightarrow> js_join d (l # ls) = l @ d @ js_join d ls"
  by (cases ls) auto

lemma folded_join: "js_join crlf (folded pre sep xs) = pre @ js_join (sep @ crlf @ '' '') xs"
  by (induction pre sep xs rule: folded.induct) (simp_all add: join_Cons)

lemma join_append: "xs \<noteq> [] \<Longrightarrow> ys \<noteq> [] \<Longrightarrow> js_join d (xs @ ys) = js_join d xs @ d @ js_join d ys"
proof (induction xs)
  case (Cons x xs)
  then show ?case by (cases "xs = []") (simp_all add: join_Cons)
qed simp

lemma join_concat: "\<forall>b \<in> set bs. b \<noteq> [] \<Longrightarrow> js_join d (concat bs) = js_join d (map (js_join d) bs)"
proof (induction bs)
  case (Cons b bs)
  then show ?case by (cases "bs = []") (auto simp: join_append join_Cons)
qed simp

lemma folded_plain: "plain_line pre \<Longrightarrow> plain_line sep \<Longrightarrow> \<forall>x \<in> set xs. plain_line x \<Longrightarrow> l \<in> set (folded pre sep xs) \<Longrightarrow> plain_line l"
  by (induction pre sep xs rule: folded.induct) (auto simp: cc_def)

text \<open>The first line begins as the header, every other with a space.\<close>

lemma folded_heads: "\<exists>x ls. folded pre sep xs = (pre @ x) # ls \<and> (\<forall>l \<in> set ls. \<exists>t. l = CHR '' '' # t)"
proof (induction pre sep xs rule: folded.induct)
  case (3 pre sep x y xs)
  then show ?case by (auto)
qed auto

lemma words_plain: "w \<in> set (header_words chunk cs) \<Longrightarrow> plain_line w"
  by (induction chunk cs rule: header_words.induct)
    (auto simp: encoded_word_def utf8Base64_def b64_encode_plain cc_def split: if_splits)

lemma words_ne: "chunk \<noteq> [] \<or> cs \<noteq> [] \<Longrightarrow> header_words chunk cs \<noteq> []"
  by (induction chunk cs rule: header_words.induct) auto

subsection \<open>Dot stuffing\<close>

lemma dot_line:
  "plain_line l \<Longrightarrow> (start \<Longrightarrow> l = [] \<or> hd l \<noteq> CHR ''.'') \<Longrightarrow>
    dot_stuff start l = l \<and> dot_stuff start (l @ crlf @ t) = l @ crlf @ dot_stuff True t"
proof (induction l arbitrary: start)
  case (Cons c l)
  then show ?case by auto
qed (simp add: crlf_def)

lemma dot_lines: "\<forall>l \<in> set ls. plain_line l \<and> (l = [] \<or> hd l \<noteq> CHR ''.'') \<Longrightarrow> dotStuff (js_join crlf ls) = js_join crlf ls"
proof (induction ls)
  case Nil
  then show ?case by (simp add: dotStuff_def)
next
  case (Cons l ls)
  then show ?case using dot_line [of l True] by (cases "ls = []") (simp_all add: join_Cons dotStuff_def)
qed

subsection \<open>Properties\<close>

lemma script_clear:
  "list_all (\<lambda>(secure, m). secure \<or> m = WriteLine (''EHLO '' @ sc_host cfg) \<or> m = WriteLine ''STARTTLS'') (smtp_script cfg message)"
  by (simp add: smtp_script_def list_all_iff split: smtp_security.split)


definition from_words :: "email_input \<Rightarrow> string list" where
  "from_words input = (let name = js_trim (em_fromName input)
     in if name \<noteq> [] then header_words [] name @ [''<'' @ em_fromAddress input @ ''>''] else [em_fromAddress input])"

definition header_blocks :: "string \<Rightarrow> string \<Rightarrow> email_input \<Rightarrow> string list list" where
  "header_blocks date uuid input =
     [folded ''From: '' [] (from_words input), folded ''To: '' '','' (em_recipients input),
      folded ''Subject: '' [] (header_words [] (truncateText (em_subject input) EMAIL_SUBJECT_MAX_CHARS)),
      [''MIME-Version: 1.0''], [''Content-Type: text/plain; charset=UTF-8''], [''Content-Transfer-Encoding: base64''],
      [''Date: '' @ date], [''Message-ID: <'' @ uuid @ ''@'' @ em_host input @ ''>'']]"

definition HEADER_NAMES :: "string list" where
  "HEADER_NAMES = [''From'', ''To'', ''Subject'', ''MIME-Version'', ''Content-Type'', ''Content-Transfer-Encoding'', ''Date'', ''Message-ID'']"

definition field_names :: "string list \<Rightarrow> string list" where
  "field_names hs = map (takeWhile (\<lambda>c. c \<noteq> CHR '':'')) (filter (\<lambda>l. l \<noteq> [] \<and> hd l \<noteq> CHR '' '') hs)"

lemma from_join: "js_join (crlf @ '' '') (from_words input) =
    (let name = js_trim (em_fromName input)
     in if name \<noteq> [] then encodeHeader name @ crlf @ '' <'' @ em_fromAddress input @ ''>'' else em_fromAddress input)"
  using words_ne [of "[]" "js_trim (em_fromName input)"]
  by (simp add: from_words_def Let_def join_append encodeHeader_def)

lemma headers_join: "js_join crlf (concat (header_blocks date uuid input)) = js_join crlf (header_lines date uuid input)"
proof -
  have "map (js_join crlf) (header_blocks date uuid input) = header_lines date uuid input"
    by (simp add: header_blocks_def header_lines_def folded_join from_join encodeHeader_def Let_def)
  then show ?thesis by (subst join_concat) (auto simp: header_blocks_def)
qed

lemma folded_fields:
  assumes "list_all (\<lambda>c. c \<noteq> CHR '':'') name" "name \<noteq> []" "hd name \<noteq> CHR '' ''"
  shows "field_names (folded (name @ '': '') sep xs @ ls) = name # field_names ls"
proof -
  obtain x rest where f: "folded (name @ '': '') sep xs = (name @ '': '' @ x) # rest" "\<forall>l \<in> set rest. \<exists>t. l = CHR '' '' # t"
    using folded_heads [of "name @ '': ''" sep xs] by auto
  have "filter (\<lambda>l. l \<noteq> [] \<and> hd l \<noteq> CHR '' '') rest = []" using f(2) by (auto simp: filter_empty_conv)
  then show ?thesis using assms f(1) by (simp add: field_names_def takeWhile_append list_all_iff)
qed

lemma header_fields: "field_names (concat (header_blocks date uuid input)) = HEADER_NAMES"
proof -
  note f = folded_fields [of "''From''"] folded_fields [of "''To''"] folded_fields [of "''Subject''"]
  have "field_names ([''MIME-Version: 1.0''] @ [''Content-Type: text/plain; charset=UTF-8''] @ [''Content-Transfer-Encoding: base64''] @
      [''Date: '' @ date] @ [''Message-ID: <'' @ uuid @ ''@'' @ em_host input @ ''>'']) = drop 3 HEADER_NAMES"
    by (simp add: field_names_def HEADER_NAMES_def)
  then show ?thesis using f by (simp add: header_blocks_def HEADER_NAMES_def)
qed

definition clean_input :: "string \<Rightarrow> string \<Rightarrow> email_input \<Rightarrow> bool" where
  "clean_input date uuid input \<longleftrightarrow> plain_line date \<and> plain_line uuid \<and> plain_line (em_fromAddress input) \<and> plain_line (em_host input) \<and>
     list_all plain_line (em_recipients input)"

lemma folded_starts:
  assumes "l \<in> set (folded (c # pre) sep xs)" "c \<noteq> CHR ''.''"
  shows "l \<noteq> [] \<and> hd l \<noteq> CHR ''.''"
proof -
  obtain x ls where "folded (c # pre) sep xs = ((c # pre) @ x) # ls" "\<forall>l \<in> set ls. \<exists>t. l = CHR '' '' # t" using folded_heads by blast
  then show ?thesis using assms by fastforce
qed

lemma block_starts: "l \<in> set (concat (header_blocks date uuid input)) \<Longrightarrow> l \<noteq> [] \<and> hd l \<noteq> CHR ''.''"
  by (auto simp: header_blocks_def dest: folded_starts)

lemma folded_all: "plain_line pre \<Longrightarrow> plain_line sep \<Longrightarrow> list_all plain_line xs \<Longrightarrow> list_all plain_line (folded pre sep xs)"
  unfolding list_all_iff by (intro ballI) (rule folded_plain)

lemma block_plain:
  assumes "clean_input date uuid input"
  shows "list_all plain_line (concat (header_blocks date uuid input))"
proof -
  have "list_all plain_line (from_words input)"
    using assms words_plain by (auto simp: from_words_def clean_input_def Let_def cc_def list_all_iff)
  moreover have "list_all plain_line (header_words [] v)" for v using words_plain by (simp add: list_all_iff)
  moreover have "list_all plain_line (em_recipients input)" using assms by (simp add: clean_input_def)
  ultimately have "list_all plain_line (folded ''From: '' [] (from_words input))" "list_all plain_line (folded ''To: '' '','' (em_recipients input))"
    "list_all plain_line (folded ''Subject: '' [] (header_words [] v))" for v
    by (simp_all add: folded_all cc_def)
  then show ?thesis using assms by (simp add: header_blocks_def clean_input_def) (simp add: cc_def)
qed

lemma body_lines:
  "\<exists>bs. js_join crlf (lines76 e) = js_join crlf bs \<and> bs \<noteq> [] \<and> concat bs = e \<and> (\<forall>l \<in> set bs. length l \<le> 76 \<and> set l \<subseteq> set e)"
proof (cases "e = []")
  case True
  then show ?thesis by (intro exI [of _ "[[]]"]) (simp add: lines76.simps [of "[]"])
next
  case False
  then have "lines76 e \<noteq> []" by (simp add: lines76.simps [of e])
  then show ?thesis using lines76_parts by (intro exI [of _ "lines76 e"]) auto
qed

text \<open>
  C39. A mail cannot be forged through its texts. Whatever subject, sender name and body are, for
  addresses and a host without line breaks the message on the wire consists of the eight headers,
  folded, in this order and no others, an empty line and the body in base64 lines of at most 76
  characters; no line is a single dot, so the message ends where the client ends it; and decoding the
  lines gives back the body, cut to its maximal length, with its line ends normalised.
\<close>
theorem email_framed:
  assumes "clean_input date uuid input"
  shows "\<exists>hs bs. dotStuff (buildEmailMessage date uuid input) = js_join crlf (hs @ [] # bs) \<and>
    (\<forall>l \<in> set (hs @ bs). plain_line l \<and> l \<noteq> ''.'') \<and> (\<forall>l \<in> set hs. l \<noteq> []) \<and> field_names hs = HEADER_NAMES \<and>
    (\<forall>l \<in> set bs. length l \<le> 76) \<and> bs \<noteq> [] \<and>
    map_option utf8_decode (atob_bytes (concat bs)) = Some (newlines_crlf (take 4096 (em_body input)))"
proof -
  define hs where "hs = concat (header_blocks date uuid input)"
  define e where "e = encoded_body input"
  obtain bs where bs: "js_join crlf (lines76 e) = js_join crlf bs" "bs \<noteq> []" "concat bs = e" "\<forall>l \<in> set bs. length l \<le> 76 \<and> set l \<subseteq> set e"
    using body_lines [of e] by blast
  have hs: "hs \<noteq> []" "\<forall>l \<in> set hs. plain_line l \<and> l \<noteq> [] \<and> hd l \<noteq> CHR ''.''"
    using block_plain [OF assms] block_starts [of _ date uuid input] unfolding hs_def list_all_iff
    by (simp add: header_blocks_def, blast)
  have safe: "\<forall>c \<in> set e. mail_safe c" using b64_encode_safe by (simp add: e_def encoded_body_def utf8Base64_def list_all_iff)
  have body: "plain_line l \<and> (l = [] \<or> hd l \<noteq> CHR ''.'')" if "l \<in> set bs" for l
  proof -
    have "\<forall>c \<in> set l. mail_safe c" using bs(4) that safe by blast
    then show ?thesis by (cases l) (simp_all add: plain_line_def list_all_iff mail_safe_def)
  qed
  have msg: "buildEmailMessage date uuid input = js_join crlf (hs @ [] # bs)"
    using hs(1) bs(1,2) headers_join [of date uuid input] by (simp add: buildEmailMessage_def hs_def e_def join_append join_Cons)
  have "dotStuff (buildEmailMessage date uuid input) = js_join crlf (hs @ [] # bs)"
    unfolding msg using hs(2) body by (intro dot_lines) auto
  moreover have "map_option utf8_decode (atob_bytes (concat bs)) = Some (newlines_crlf (take 4096 (em_body input)))"
    by (simp add: bs(3) e_def encoded_body_def utf8Base64_def atob_b64_encode truncateText_def EMAIL_MESSAGE_MAX_CHARS_def)
  moreover have "plain_line l \<and> l \<noteq> ''.''" if "l \<in> set hs \<union> set bs" for l
  proof -
    have "plain_line l \<and> (l = [] \<or> hd l \<noteq> CHR ''.'')" using that hs(2) body by blast
    then show ?thesis by auto
  qed
  moreover have "field_names hs = HEADER_NAMES" unfolding hs_def by (rule header_fields)
  ultimately show ?thesis using hs(2) bs(2,4) by (intro exI [of _ hs] exI [of _ bs]) simp
qed

definition sample_mail :: email_input where
  "sample_mail = \<lparr>em_fromAddress = ''a@b.c'', em_fromName = ''x'' @ crlf @ ''Bcc: y'', em_recipients = [''d@e.f''], em_subject = crlf @ ''.'',
     em_body = ''.'' @ crlf @ ''QUIT'', em_host = ''h''\<rparr>"

theorem email_framed_witness:
  "\<exists>hs bs. dotStuff (buildEmailMessage ''now'' ''id'' sample_mail) = js_join crlf (hs @ [] # bs) \<and> field_names hs = HEADER_NAMES"
proof -
  have "clean_input ''now'' ''id'' sample_mail" by (simp add: clean_input_def sample_mail_def cc_def)
  from email_framed [OF this] show ?thesis by blast
qed

end
