(* ===== verification/NotificationDispatch.thy ===== *)
theory NotificationDispatch
  imports EmailSmtp
begin

section \<open>Dispatching a notification\<close>

text \<open>
  \<open>utils/notification-dispatch.ts\<close> with \<open>utils/telegram.ts\<close> and \<open>utils/secret-preview.ts\<close>: a
  notification goes out by Telegram, mail or webhook, as the settings say, and the outcome is recorded
  as a health event. The state is the budget of the scheduled run, if there is one, and the events.
  What the network answers and when is the environment. The result is a Boolean, or None where
  \<open>ScheduledBudgetExceeded\<close> is thrown.
\<close>

subsection \<open>Secret previews and overrides\<close>

definition MASK_RUN :: nat where "MASK_RUN = 8"
definition EDGE :: nat where "EDGE = 4"
definition MIN_LENGTH_FOR_EDGES :: nat where "MIN_LENGTH_FOR_EDGES = 12"

definition maskSecretPreview :: "string option \<Rightarrow> string" where
  "maskSecretPreview v = (case v of
       None \<Rightarrow> []
     | Some s \<Rightarrow> (let trimmed = js_trim s
         in if trimmed = [] then []
            else if length trimmed < MIN_LENGTH_FOR_EDGES then replicate MASK_RUN CHR ''*''
            else take EDGE trimmed @ replicate MASK_RUN CHR ''*'' @ drop (length trimmed - EDGE) trimmed))"

definition isMaskedSecretPreview :: "jsval \<Rightarrow> bool" where
  "isMaskedSecretPreview v = (case v of Str s \<Rightarrow> js_includes s (replicate MASK_RUN CHR ''*'') | _ \<Rightarrow> False)"

definition NOTIFICATION_DISPATCH_SETTING_KEYS :: "string list" where
  "NOTIFICATION_DISPATCH_SETTING_KEYS = [''notification_method'', ''telegram_bot_token'', ''telegram_chat_id'', ''email_smtp_host'',
     ''email_smtp_port'', ''email_smtp_security'', ''email_smtp_username'', ''email_smtp_password'', ''email_smtp_from_address'',
     ''email_smtp_from_name'', ''email_smtp_recipients'', ''email_smtp_auth_method'', ''webhook_url'', ''webhook_format'',
     ''webhook_secret'', ''webhook_method'', ''webhook_content_type'', ''webhook_headers_json'', ''webhook_body_template'',
     ''webhook_username'', ''webhook_password'', ''webhook_retry_count'']"

definition override_of :: "jsobj \<Rightarrow> string \<Rightarrow> (string \<times> string) option" where
  "override_of source key = (case js_get source key of
       Str raw \<Rightarrow> if js_trim raw = [] \<or> isMaskedSecretPreview (Str raw) then None else Some (key, raw)
     | Num x \<Rightarrow> Some (key, js_String (Num x))
     | Bool b \<Rightarrow> Some (key, js_String (Bool b))
     | _ \<Rightarrow> None)"

definition pickNotificationSettingOverrides :: "jsval \<Rightarrow> (string \<times> string) list" where
  "pickNotificationSettingOverrides v = (case v of
       Obj source \<Rightarrow> List.map_filter (override_of source) NOTIFICATION_DISPATCH_SETTING_KEYS
     | _ \<Rightarrow> [])"

subsection \<open>Telegram\<close>

definition TELEGRAM_MESSAGE_MAX_CHARS :: nat where "TELEGRAM_MESSAGE_MAX_CHARS = 4096"
definition TELEGRAM_RESPONSE_MAX_BYTES :: nat where "TELEGRAM_RESPONSE_MAX_BYTES = 64 * 1024"

definition escape_html_char :: "char \<Rightarrow> string" where
  "escape_html_char c = (if c = CHR ''&'' then ''&amp;'' else if c = CHR ''<'' then ''&lt;'' else if c = CHR ''>'' then ''&gt;'' else [c])"

text \<open>The three replacements in a row: the later ones touch no character the first one put in.\<close>

definition replace_char :: "char \<Rightarrow> string \<Rightarrow> string \<Rightarrow> string" where
  "replace_char c r s = concat (map (\<lambda>x. if x = c then r else [x]) s)"

definition escapeTelegramHtml :: "jsval \<Rightarrow> string" where
  "escapeTelegramHtml v =
     replace_char CHR ''>'' ''&gt;'' (replace_char CHR ''<'' ''&lt;'' (replace_char CHR ''&'' ''&amp;'' (js_String (js_nullish v (Str [])))))"

definition formatTelegramHtmlText :: "jsval \<Rightarrow> string" where
  "formatTelegramHtmlText v = escapeTelegramHtml (Str (take TELEGRAM_MESSAGE_MAX_CHARS (js_String (js_nullish v (Str [])))))"

fun read_bounded :: "nat \<Rightarrow> bytes \<Rightarrow> stream \<Rightarrow> bytes option" where
  "read_bounded limit got StreamEnd = Some got"
| "read_bounded limit got StreamFails = None"
| "read_bounded limit got (Chunk bs rest) =
     (if limit < length got + length bs then None else read_bounded limit (got @ bs) rest)"

text \<open>An answer of Telegram: whether its status is a success, its body, whether reading it took too long, and when that was known.\<close>

record telegram_reply =
  tr_ok :: bool
  tr_body :: "stream option"
  tr_timed_out :: bool
  tr_done :: int

definition telegram_confirms :: "(bytes \<Rightarrow> string option) \<Rightarrow> stream \<Rightarrow> bool" where
  "telegram_confirms decode st = (case read_bounded TELEGRAM_RESPONSE_MAX_BYTES [] st of
       None \<Rightarrow> False
     | Some bs \<Rightarrow> (case decode bs of None \<Rightarrow> False
         | Some t \<Rightarrow> (case JSON_parse t of Some (Obj o1) \<Rightarrow> js_get o1 ''ok'' = Bool True | _ \<Rightarrow> False)))"

definition out_of_time :: "int \<Rightarrow> budget option \<Rightarrow> bool" where
  "out_of_time now ob = (case ob of Some b \<Rightarrow> remainingMs now b = 0 | None \<Rightarrow> False)"

definition ensureCanStart :: "int \<Rightarrow> int \<Rightarrow> budget option \<Rightarrow> bool" where
  "ensureCanStart now requests ob = (case ob of Some b \<Rightarrow> canStart now requests b | None \<Rightarrow> True)"

definition isTelegramResponseSuccessful :: "(bytes \<Rightarrow> string option) \<Rightarrow> int \<Rightarrow> telegram_reply \<Rightarrow> budget option \<Rightarrow> bool option" where
  "isTelegramResponseSuccessful decode now reply ob = (case tr_body reply of
       None \<Rightarrow> Some False
     | Some st \<Rightarrow>
         if \<not> tr_ok reply then Some False
         else if \<not> ensureCanStart now 0 ob then None
         else if out_of_time (tr_done reply) ob then None
         else Some (\<not> tr_timed_out reply \<and> telegram_confirms decode st))"

subsection \<open>Channels\<close>

record dispatch_env =
  de_hook :: hook_env
  de_network :: network
  de_now :: int
  de_telegram :: "string \<Rightarrow> jsobj \<Rightarrow> redirect_mode \<Rightarrow> int \<times> (unit + telegram_reply)"
  de_smtp_lines :: "string list"
  de_smtp_tls_lines :: "string list"
  de_smtp_timed_out :: bool
  de_smtp_done :: int
  de_mail_date :: string
  de_mail_id :: string

record dispatch_state =
  ds_budget :: "budget option"
  ds_health :: "(string \<times> string) list"

type_synonym notification_settings = "(string \<times> string) list"

definition setting :: "notification_settings \<Rightarrow> string \<Rightarrow> string" where
  "setting s key = (case map_of s key of Some v \<Rightarrow> v | None \<Rightarrow> [])"

definition record_health :: "string \<Rightarrow> string \<Rightarrow> dispatch_state \<Rightarrow> dispatch_state" where
  "record_health component status ds = ds\<lparr>ds_health := ds_health ds @ [(component, status)]\<rparr>"

text \<open>The end of every channel: the outcome is recorded and returned.\<close>

definition conclude :: "string \<Rightarrow> bool \<Rightarrow> dispatch_state \<Rightarrow> dispatch_state \<times> bool option" where
  "conclude component ok ds = (record_health component (if ok then ''ok'' else ''error'') ds, Some ok)"

definition telegram_payload :: "string \<Rightarrow> string \<Rightarrow> jsobj" where
  "telegram_payload chatId txt = [(''chat_id'', Str chatId), (''text'', Str txt), (''parse_mode'', Str ''HTML''),
     (''disable_web_page_preview'', Bool True)]"

definition dispatchTelegram ::
  "dispatch_env \<Rightarrow> notification_settings \<Rightarrow> notification \<Rightarrow> dispatch_state \<Rightarrow> dispatch_state \<times> bool option" where
  "dispatchTelegram env settings n ds =
     (let botToken = setting settings ''telegram_bot_token''; chatId = setting settings ''telegram_chat_id''
      in if botToken = [] \<or> chatId = [] then (record_health ''telegram'' ''disabled'' ds, Some False)
         else case scheduledFetch (de_now env) Follow (de_telegram env botToken (telegram_payload chatId (formatTelegramHtmlText (Str (body n))))) (ds_budget ds) of
             (ob, BudgetExceeded) \<Rightarrow> (ds\<lparr>ds_budget := ob\<rparr>, None)
           | (ob, FetchFailed _) \<Rightarrow> conclude ''telegram'' False (ds\<lparr>ds_budget := ob\<rparr>)
           | (ob, Response reply) \<Rightarrow>
               (case isTelegramResponseSuccessful (decode_strict (de_hook env)) (de_now env) reply ob of
                  None \<Rightarrow> (ds\<lparr>ds_budget := ob\<rparr>, None)
                | Some ok \<Rightarrow> conclude ''telegram'' ok (ds\<lparr>ds_budget := ob\<rparr>)))"

definition email_config :: "notification_settings \<Rightarrow> string list \<Rightarrow> smtp_config" where
  "email_config settings recipients =
     \<lparr>sc_host = setting settings ''email_smtp_host'',
      sc_port = (let p = setting settings ''email_smtp_port'' in if p = [] then FinI 587 else str_to_num p),
      sc_security = (if setting settings ''email_smtp_security'' = ''tls'' then Tls else StartTls),
      sc_username = setting settings ''email_smtp_username'', sc_password = setting settings ''email_smtp_password'',
      sc_fromAddress = setting settings ''email_smtp_from_address'',
      sc_fromName = (let name = setting settings ''email_smtp_from_name'' in if name = [] then ''CF VPS Monitor'' else name),
      sc_recipients = recipients,
      sc_authMethod = (if setting settings ''email_smtp_auth_method'' = ''login'' then AuthLogin else AuthPlain)\<rparr>"

text \<open>Sending ends with the dialogue or with the timeout, whichever comes first.\<close>

definition email_outcome :: "dispatch_env \<Rightarrow> notification_settings \<Rightarrow> notification \<Rightarrow> budget option \<Rightarrow> bool option" where
  "email_outcome env settings n ob = (case normalizeRecipients (setting settings ''email_smtp_recipients'') of
       Inl _ \<Rightarrow> Some False
     | Inr recipients \<Rightarrow>
         (case sendSmtpEmail (url_parse (de_hook env)) (de_mail_date env) (de_mail_id env) (de_smtp_lines env) (de_smtp_tls_lines env)
             (email_config settings recipients) (subject n) (body n) of
            Inl _ \<Rightarrow> Some False
          | Inr (None, _) \<Rightarrow> Some False
          | Inr (Some _, r) \<Rightarrow>
              if \<not> ensureCanStart (de_now env) 0 ob then None
              else if de_smtp_timed_out env then (if out_of_time (de_smtp_done env) ob then None else Some False)
              else Some (r = MailSent)))"

definition dispatchEmail ::
  "dispatch_env \<Rightarrow> notification_settings \<Rightarrow> notification \<Rightarrow> dispatch_state \<Rightarrow> dispatch_state \<times> bool option" where
  "dispatchEmail env settings n ds =
     (if \<not> ensureCanStart (de_now env) 2 (ds_budget ds) then (ds, None)
      else case (case ds_budget ds of None \<Rightarrow> Some None | Some b \<Rightarrow> map_option Some (consume (de_now env) 2 b)) of
          None \<Rightarrow> (ds, None)
        | Some ob \<Rightarrow>
            (case email_outcome env settings n ob of
               None \<Rightarrow> (ds\<lparr>ds_budget := ob\<rparr>, None)
             | Some ok \<Rightarrow> conclude ''email'' ok (ds\<lparr>ds_budget := ob\<rparr>)))"

definition webhookFormat :: "string \<Rightarrow> hook_format" where
  "webhookFormat v = (if v = ''slack'' then Slack else if v = ''discord'' then Discord else if v = ''feishu'' then Feishu
     else if v = ''dingtalk'' then Dingtalk else if v = ''wecom'' then Wecom else if v = ''custom'' then Custom else Generic)"

definition hook_config :: "notification_settings \<Rightarrow> webhook_config" where
  "hook_config settings =
     \<lparr>wc_url = setting settings ''webhook_url'', wc_format = webhookFormat (setting settings ''webhook_format''),
      wc_secret = setting settings ''webhook_secret'', wc_method = setting settings ''webhook_method'',
      wc_contentType = setting settings ''webhook_content_type'', wc_headersJson = setting settings ''webhook_headers_json'',
      wc_bodyTemplate = setting settings ''webhook_body_template'', wc_username = setting settings ''webhook_username'',
      wc_password = setting settings ''webhook_password'',
      wc_retryCount = (let c = setting settings ''webhook_retry_count'' in if c = [] then FinI 1 else str_to_num c)\<rparr>"

definition dispatchWebhook ::
  "dispatch_env \<Rightarrow> notification_settings \<Rightarrow> notification \<Rightarrow> dispatch_state \<Rightarrow> dispatch_state \<times> bool option" where
  "dispatchWebhook env settings n ds =
     (if setting settings ''webhook_url'' = [] then (record_health ''webhook'' ''disabled'' ds, Some False)
      else case sendWebhookMessage (de_hook env) (hook_config settings) n (de_network env) (de_now env) (ds_budget ds) of
          (ob, _, None) \<Rightarrow> (ds\<lparr>ds_budget := ob\<rparr>, None)
        | (ob, _, Some (Sent _ _)) \<Rightarrow> conclude ''webhook'' True (ds\<lparr>ds_budget := ob\<rparr>)
        | (ob, _, Some (NotSent _ _ _)) \<Rightarrow> conclude ''webhook'' False (ds\<lparr>ds_budget := ob\<rparr>))"

definition channel_of :: "string option \<Rightarrow> notification_settings \<Rightarrow> string" where
  "channel_of channel settings = (let c = (case channel of Some s \<Rightarrow> s | None \<Rightarrow> []); m = setting settings ''notification_method''
     in if c \<noteq> [] then c else if m \<noteq> [] then m else ''telegram'')"

definition dispatchNotification ::
  "dispatch_env \<Rightarrow> notification_settings \<Rightarrow> notification \<Rightarrow> string option \<Rightarrow> dispatch_state \<Rightarrow> dispatch_state \<times> bool option" where
  "dispatchNotification env settings n channel ds =
     (let c = channel_of channel settings
      in if c = ''none'' then (record_health ''notification'' ''disabled'' ds, Some False)
         else if c = ''email'' then dispatchEmail env settings n ds
         else if c = ''webhook'' then dispatchWebhook env settings n ds
         else dispatchTelegram env settings n ds)"

subsection \<open>Texts and previews\<close>

lemma replace_char_map: "replace_char c r (concat (map f s)) = concat (map (\<lambda>x. replace_char c r (f x)) s)"
  by (induction s) (simp_all add: replace_char_def)

lemma escape_charwise: "escapeTelegramHtml (Str s) = concat (map escape_html_char s)"
proof -
  have "replace_char CHR ''&'' ''&amp;'' s = concat (map (\<lambda>x. if x = CHR ''&'' then ''&amp;'' else [x]) s)" by (simp add: replace_char_def)
  then show ?thesis
    by (simp add: escapeTelegramHtml_def js_nullish_def replace_char_map)
      (rule arg_cong [where f = concat], simp add: replace_char_def escape_html_char_def)
qed

text \<open>What Telegram shows for a text without tags.\<close>

fun html_shown :: "string \<Rightarrow> string option" where
  "html_shown [] = Some []"
| "html_shown (c # s) =
     (if c = CHR ''<'' \<or> c = CHR ''>'' then None
      else if c \<noteq> CHR ''&'' then map_option ((#) c) (html_shown s)
      else if take 4 s = ''amp;'' then map_option ((#) CHR ''&'') (html_shown (drop 4 s))
      else if take 3 s = ''lt;'' then map_option ((#) CHR ''<'') (html_shown (drop 3 s))
      else if take 3 s = ''gt;'' then map_option ((#) CHR ''>'') (html_shown (drop 3 s))
      else None)"

lemma html_shown_escape: "html_shown (concat (map escape_html_char s)) = Some s"
  by (induction s) (simp_all add: escape_html_char_def)

text \<open>A message is shown as it is, cut to its maximal length, and never as markup.\<close>

lemma telegram_text_shown: "html_shown (formatTelegramHtmlText (Str s)) = Some (take TELEGRAM_MESSAGE_MAX_CHARS s)"
  by (simp add: formatTelegramHtmlText_def js_nullish_def escape_charwise html_shown_escape)

lemma includes_middle: "js_includes (a @ b @ c) b"
proof (induction a)
  case Nil
  have "take (length b) (b @ c) = b" by simp
  then show ?case by (cases "b @ c") (simp_all add: js_startsWith_def)
next
  case (Cons x a)
  then show ?case by (simp add: js_startsWith_def)
qed

text \<open>
  A preview is recognised as one, so it is never taken for a setting, and it shows at most the ends
  of a secret: secrets with the same ends have the same preview, whatever their length.
\<close>

lemma preview_recognised: "js_trim s \<noteq> [] \<Longrightarrow> isMaskedSecretPreview (Str (maskSecretPreview (Some s)))"
  using includes_middle [of "[]" "replicate MASK_RUN CHR ''*''" "[]"] includes_middle
  by (simp add: isMaskedSecretPreview_def maskSecretPreview_def Let_def)

lemma preview_ends:
  assumes "12 \<le> length (js_trim s)" "12 \<le> length (js_trim s')" "take 4 (js_trim s) = take 4 (js_trim s')"
    and "drop (length (js_trim s) - 4) (js_trim s) = drop (length (js_trim s') - 4) (js_trim s')"
  shows "maskSecretPreview (Some s) = maskSecretPreview (Some s')"
proof -
  have "js_trim s \<noteq> []" "js_trim s' \<noteq> []" using assms(1,2) by auto
  then show ?thesis using assms by (simp add: maskSecretPreview_def Let_def MIN_LENGTH_FOR_EDGES_def EDGE_def)
qed

lemma overrides_usable:
  assumes "(key, txt) \<in> set (pickNotificationSettingOverrides (Obj source))"
  shows "key \<in> set NOTIFICATION_DISPATCH_SETTING_KEYS"
    and "js_get source key = Str raw \<Longrightarrow> txt = raw \<and> js_trim raw \<noteq> [] \<and> \<not> isMaskedSecretPreview (Str raw)"
  using assms by (auto simp: pickNotificationSettingOverrides_def map_filter_def override_of_def split: jsval.splits if_splits)

subsection \<open>Outcomes\<close>

definition delivered :: "dispatch_env \<Rightarrow> notification_settings \<Rightarrow> notification \<Rightarrow> string \<Rightarrow> dispatch_state \<Rightarrow> bool" where
  "delivered env settings n c ds =
     (if c = ''none'' then False
      else if c = ''email'' then \<exists>recipients io. normalizeRecipients (setting settings ''email_smtp_recipients'') = Inr recipients \<and>
        sendSmtpEmail (url_parse (de_hook env)) (de_mail_date env) (de_mail_id env) (de_smtp_lines env) (de_smtp_tls_lines env)
          (email_config settings recipients) (subject n) (body n) = Inr (Some io, MailSent)
      else if c = ''webhook'' then \<exists>ob k status host.
        sendWebhookMessage (de_hook env) (hook_config settings) n (de_network env) (de_now env) (ds_budget ds) = (ob, k, Some (Sent status host))
      else \<exists>ob reply st. scheduledFetch (de_now env) Follow (de_telegram env (setting settings ''telegram_bot_token'')
          (telegram_payload (setting settings ''telegram_chat_id'') (formatTelegramHtmlText (Str (body n))))) (ds_budget ds) = (ob, Response reply) \<and>
        tr_ok reply \<and> tr_body reply = Some st \<and> telegram_confirms (decode_strict (de_hook env)) st)"

definition truthful :: "bool \<Rightarrow> dispatch_state \<Rightarrow> dispatch_state \<times> bool option \<Rightarrow> bool" where
  "truthful evidence ds = (\<lambda>(ds', res). case res of
       None \<Rightarrow> ds_health ds' = ds_health ds
     | Some ok \<Rightarrow> \<exists>component status. ds_health ds' = ds_health ds @ [(component, status)] \<and> (ok \<longleftrightarrow> status = ''ok'') \<and> (ok \<longrightarrow> evidence))"

lemma conclude_truthful: "(ok \<Longrightarrow> evidence) \<Longrightarrow> ds_health ds1 = ds_health ds \<Longrightarrow> truthful evidence ds (conclude component ok ds1)"
  by (auto simp: truthful_def conclude_def record_health_def)

lemma disabled_truthful: "truthful evidence ds (record_health component ''disabled'' ds, Some False)"
  by (simp add: truthful_def record_health_def)

lemma exceeded_truthful: "ds_health ds1 = ds_health ds \<Longrightarrow> truthful evidence ds (ds1, None)"
  by (simp add: truthful_def)

lemmas truthful_rules = conclude_truthful disabled_truthful exceeded_truthful

lemma telegram_truthful:
  assumes "c \<notin> {''none'', ''email'', ''webhook''}"
  shows "truthful (delivered env settings n c ds) ds (dispatchTelegram env settings n ds)"
proof -
  let ?f = "scheduledFetch (de_now env) Follow (de_telegram env (setting settings ''telegram_bot_token'')
      (telegram_payload (setting settings ''telegram_chat_id'') (formatTelegramHtmlText (Str (body n))))) (ds_budget ds)"
  obtain ob res where f: "?f = (ob, res)" by force
  have d: "delivered env settings n c ds" if "res = Response reply" "isTelegramResponseSuccessful (decode_strict (de_hook env)) (de_now env) reply ob = Some True" for reply
    using assms f that by (auto simp: delivered_def isTelegramResponseSuccessful_def split: option.splits if_splits)
  show ?thesis
    unfolding dispatchTelegram_def Let_def f
    by (auto intro!: truthful_rules split: fetch_result.split option.split dest: d)
qed

lemma email_truthful: "truthful (delivered env settings n ''email'' ds) ds (dispatchEmail env settings n ds)"
proof -
  have d: "delivered env settings n ''email'' ds" if "email_outcome env settings n ob = Some True" for ob
    using that by (auto simp: email_outcome_def delivered_def split: sum.splits option.splits if_splits prod.splits)
  show ?thesis
    unfolding dispatchEmail_def
    by (auto intro!: truthful_rules split: option.split dest: d)
qed

lemma webhook_truthful: "truthful (delivered env settings n ''webhook'' ds) ds (dispatchWebhook env settings n ds)"
proof -
  obtain ob k res where s: "sendWebhookMessage (de_hook env) (hook_config settings) n (de_network env) (de_now env) (ds_budget ds) = (ob, k, res)"
    by (metis prod.collapse)
  have d: "delivered env settings n ''webhook'' ds" if "res = Some (Sent st h)" for st h
    using s that by (auto simp: delivered_def)
  show ?thesis
    unfolding dispatchWebhook_def s
    by (auto intro!: truthful_rules split: option.split send_result.split dest: d)
qed


end
