(* ===== verification/ThemePackage.thy ===== *)
theory ThemePackage
  imports PingTask JsJson
begin

section \<open>Theme packages\<close>

text \<open>
  \<open>utils/theme-package.ts\<close>: reading an uploaded ZIP archive within limits, checking its manifest,
  its files and its configuration, and building the style sheet. The archive library is a parameter:
  the entries it finds in the central directory, and for every piece of the archive that is pushed
  the callbacks it makes. Errors carry the English messages of the code, without the positions of
  configuration items in them; a configuration error is a constructor with the key it names. Keys of
  a configuration are own properties (a key that names a member of every object, as \<open>toString\<close>, is not covered).
\<close>

subsection \<open>Paths and types\<close>

definition MAX_ZIP_BYTES :: nat where "MAX_ZIP_BYTES = 2 * 1024 * 1024"
definition MAX_CSS_BYTES :: nat where "MAX_CSS_BYTES = 256 * 1024"
definition MAX_IMAGE_BYTES :: nat where "MAX_IMAGE_BYTES = 512 * 1024"
definition MAX_ASSETS :: nat where "MAX_ASSETS = 32"
definition MAX_MANIFEST_BYTES :: nat where "MAX_MANIFEST_BYTES = 64 * 1024"
definition MAX_UNZIPPED_BYTES :: nat where "MAX_UNZIPPED_BYTES = MAX_ASSETS * MAX_IMAGE_BYTES + MAX_MANIFEST_BYTES"
definition MAX_ZIP_ENTRIES :: nat where "MAX_ZIP_ENTRIES = 128"
definition MAX_CUSTOM_CSS_BYTES :: nat where "MAX_CUSTOM_CSS_BYTES = 64 * 1024"
definition ALLOWED_EXTENSIONS :: "string list" where
  "ALLOWED_EXTENSIONS = [''.css'', ''.png'', ''.jpg'', ''.jpeg'', ''.webp'', ''.svg'', ''.json'', ''.woff2'']"
definition FORBIDDEN_EXTENSIONS :: "string list" where
  "FORBIDDEN_EXTENSIONS = [''.js'', ''.html'', ''.htm'', ''.wasm'', ''.woff'', ''.ttf'', ''.otf'', ''.eot'']"
definition CONFIG_TYPES :: "string list" where
  "CONFIG_TYPES = [''title'', ''switch'', ''select'', ''number'', ''string'', ''richtext'', ''color'', ''image'', ''range'']"
definition THEME_MANIFEST_PATH :: string where "THEME_MANIFEST_PATH = ''cf-monitor-theme.json''"

type_synonym theme_error = string

definition strip_dot_slash :: "string \<Rightarrow> string" where
  "strip_dot_slash s = (case s of c # d # r \<Rightarrow> if c = CHR ''.'' \<and> d = CHR ''/'' then dropWhile (\<lambda>x. x = CHR ''/'') r else s | _ \<Rightarrow> s)"

definition path_ok :: "string \<Rightarrow> bool" where
  "path_ok p \<longleftrightarrow> p \<noteq> [] \<and> \<not> js_startsWith p ''/'' \<and> CHR 0x5C \<notin> set p \<and>
     list_all (\<lambda>part. part \<noteq> [] \<and> part \<noteq> ''.'' \<and> part \<noteq> ''..'') (js_split CHR ''/'' p)"

definition normalizeThemePath :: "jsval \<Rightarrow> theme_error + string" where
  "normalizeThemePath path = (case path of
       Str s \<Rightarrow> (let normalized = strip_dot_slash (js_trim s) in if path_ok normalized then Inr normalized else Inl (''invalid theme path: '' @ s))
     | _ \<Rightarrow> Inl ''theme path must be a string'')"

definition extensionOf :: "string \<Rightarrow> string" where
  "extensionOf path = (if CHR ''.'' \<in> set path
     then js_toLowerCase (CHR ''.'' # rev (takeWhile (\<lambda>c. c \<noteq> CHR ''.'') (rev path))) else [])"

definition contentTypeFor :: "string \<Rightarrow> string" where
  "contentTypeFor path = (let ext = extensionOf path in
     if ext = ''.css'' then ''text/css; charset=utf-8'' else if ext = ''.svg'' then ''image/svg+xml''
     else if ext = ''.jpg'' \<or> ext = ''.jpeg'' then ''image/jpeg'' else if ext = ''.png'' then ''image/png''
     else if ext = ''.webp'' then ''image/webp'' else if ext = ''.json'' then ''application/json; charset=utf-8''
     else if ext = ''.woff2'' then ''font/woff2'' else ''application/octet-stream'')"

definition assertAllowedFile :: "string \<Rightarrow> theme_error option" where
  "assertAllowedFile path = (let ext = extensionOf path in
     if ext \<in> set FORBIDDEN_EXTENSIONS \<or> ext \<notin> set ALLOWED_EXTENSIONS then Some (''theme file extension is not allowed: '' @ path) else None)"

definition themeFileByteLimit :: "string \<Rightarrow> nat" where
  "themeFileByteLimit path = (if path = THEME_MANIFEST_PATH then MAX_MANIFEST_BYTES
     else if extensionOf path = ''.css'' then MAX_CSS_BYTES else MAX_IMAGE_BYTES)"

subsection \<open>Manifests\<close>

definition normalizeString :: "jsval \<Rightarrow> string \<Rightarrow> nat \<Rightarrow> bool \<Rightarrow> theme_error + string" where
  "normalizeString v field maxLen required =
     (if v = Undef \<or> v = Null \<or> v = Str [] then (if required then Inl (''theme manifest '' @ field @ '' is required'') else Inr [])
      else case v of
          Str s \<Rightarrow> (let t = js_trim s
            in if required \<and> t = [] then Inl (''theme manifest '' @ field @ '' is required'')
               else if maxLen < length t then Inl (''theme manifest '' @ field @ '' is too long'') else Inr t)
        | _ \<Rightarrow> Inl (''theme manifest '' @ field @ '' must be a string''))"

definition normalizeOptionalNumber :: "jsval \<Rightarrow> string \<Rightarrow> theme_error + rat option" where
  "normalizeOptionalNumber v field =
     (if v = Undef \<or> v = Null \<or> v = Str [] then Inr None
      else case js_Number v of Fin q \<Rightarrow> Inr (Some q) | _ \<Rightarrow> Inl (''theme config '' @ field @ '' must be a number''))"

record theme_item =
  ti_type :: string
  ti_key :: "string option"
  ti_name :: string
  ti_help :: string
  ti_options :: string
  ti_min :: "rat option"
  ti_max :: "rat option"
  ti_step :: "rat option"
  ti_default :: jsval

definition bind_theme :: "theme_error + 'a \<Rightarrow> ('a \<Rightarrow> theme_error + 'b) \<Rightarrow> theme_error + 'b" where
  "bind_theme r f = (case r of Inl e \<Rightarrow> Inl e | Inr a \<Rightarrow> f a)"

lemma bind_theme_simps [simp]: "bind_theme (Inl e) f = Inl e" "bind_theme (Inr a) f = f a"
  by (simp_all add: bind_theme_def)

lemma bind_theme_Inr: "bind_theme r f = Inr b \<longleftrightarrow> (\<exists>a. r = Inr a \<and> f a = Inr b)"
  by (cases r) auto

fun theme_map :: "('a \<Rightarrow> theme_error + 'b) \<Rightarrow> 'a list \<Rightarrow> theme_error + 'b list" where
  "theme_map f [] = Inr []"
| "theme_map f (x # xs) = bind_theme (f x) (\<lambda>y. bind_theme (theme_map f xs) (\<lambda>ys. Inr (y # ys)))"

definition normalize_item :: "jsval \<Rightarrow> theme_error + theme_item" where
  "normalize_item v = (case v of
       Obj item \<Rightarrow> (case js_get item ''type'' of
         Str ty \<Rightarrow>
           if ty \<notin> set CONFIG_TYPES then Inl ''theme config item type is invalid''
           else bind_theme (if ty = ''title'' then Inr None else
                  bind_theme (normalizeString (js_get item ''key'') ''configuration.data.key'' 96 True) (\<lambda>k. Inr (Some k))) (\<lambda>key.
             bind_theme (normalizeOptionalNumber (js_get item ''min'') ''min'') (\<lambda>mn.
             bind_theme (normalizeOptionalNumber (js_get item ''max'') ''max'') (\<lambda>mx.
             bind_theme (normalizeOptionalNumber (js_get item ''step'') ''step'') (\<lambda>st.
               if ty = ''range'' \<and> (case (mn, mx) of (Some a, Some b) \<Rightarrow> b < a | _ \<Rightarrow> False) then Inl ''range min must be <= max''
               else if ty = ''range'' \<and> (case st of Some s \<Rightarrow> s \<le> 0 | None \<Rightarrow> False) then Inl ''range step must be positive''
               else bind_theme (normalizeString (js_get item ''name'') ''configuration.data.name'' 128 False) (\<lambda>nm.
                 bind_theme (normalizeString (js_get item ''help'') ''configuration.data.help'' 256 False) (\<lambda>hp.
                 bind_theme (normalizeString (js_get item ''options'') ''configuration.data.options'' 512 False) (\<lambda>op.
                   Inr \<lparr>ti_type = ty, ti_key = (if key = Some [] then None else key), ti_name = nm, ti_help = hp, ti_options = op,
                        ti_min = mn, ti_max = mx, ti_step = st, ti_default = js_get item ''default''\<rparr>)))))))
       | _ \<Rightarrow> Inl ''theme config item type is invalid'')
     | _ \<Rightarrow> Inl ''theme config item is invalid'')"

definition normalizeConfigItems :: "jsval \<Rightarrow> theme_error + theme_item list" where
  "normalizeConfigItems v = (case v of
       Undef \<Rightarrow> Inr [] | Null \<Rightarrow> Inr []
     | Arr items \<Rightarrow> theme_map normalize_item items
     | _ \<Rightarrow> Inl ''theme manifest configuration.data must be an array'')"

record theme_manifest =
  tm_name :: string
  tm_short :: string
  tm_description :: string
  tm_version :: string
  tm_author :: string
  tm_url :: string
  tm_preview :: string
  tm_style :: string
  tm_data :: "theme_item list"

definition is_theme_id :: "string \<Rightarrow> bool" where
  "is_theme_id s \<longleftrightarrow> s \<noteq> [] \<and> list_all (\<lambda>c. is_AZ c \<or> is_az c \<or> is_digit c \<or> c = CHR ''_'' \<or> c = CHR ''-'') s"

definition image_extension :: "string \<Rightarrow> bool" where
  "image_extension e \<longleftrightarrow> e \<in> set [''.png'', ''.jpg'', ''.jpeg'', ''.webp'', ''.svg'']"

definition normalizeThemeManifest :: "jsval \<Rightarrow> theme_error + theme_manifest" where
  "normalizeThemeManifest v = (case v of
       Obj input \<Rightarrow>
         bind_theme (normalizeString (js_get input ''short'') ''short'' 64 True) (\<lambda>short.
         if short = ''default'' \<or> \<not> is_theme_id short then Inl ''theme manifest short is invalid'' else
         bind_theme (bind_theme (normalizeString (js_get input ''style'') ''style'' 256 True) (\<lambda>s. normalizeThemePath (Str s))) (\<lambda>style.
         if extensionOf style \<noteq> ''.css'' then Inl ''theme style must be a CSS file'' else
         bind_theme (if js_truthy (js_get input ''preview'')
             then bind_theme (normalizeString (js_get input ''preview'') ''preview'' 256 False) (\<lambda>s. normalizeThemePath (Str s)) else Inr []) (\<lambda>preview.
         if preview \<noteq> [] \<and> \<not> image_extension (extensionOf preview) then Inl ''theme preview must be an image'' else
         (let configuration = (case js_get input ''configuration'' of Obj c \<Rightarrow> c | _ \<Rightarrow> []);
              ty = (case js_get configuration ''type'' of Str s \<Rightarrow> s | _ \<Rightarrow> ''managed'')
          in if ty \<noteq> ''managed'' then Inl ''theme configuration.type must be managed'' else
         bind_theme (normalizeString (js_get input ''name'') ''name'' 128 True) (\<lambda>nm.
         bind_theme (normalizeString (js_get input ''description'') ''description'' 512 False) (\<lambda>ds.
         bind_theme (normalizeString (js_get input ''version'') ''version'' 64 False) (\<lambda>vs.
         bind_theme (normalizeString (js_get input ''author'') ''author'' 128 False) (\<lambda>au.
         bind_theme (normalizeString (js_get input ''url'') ''url'' 512 False) (\<lambda>ur.
         bind_theme (normalizeConfigItems (js_get configuration ''data'')) (\<lambda>data.
           Inr \<lparr>tm_name = nm, tm_short = short, tm_description = ds, tm_version = vs, tm_author = au, tm_url = ur,
                tm_preview = preview, tm_style = style, tm_data = data\<rparr>))))))))))
     | _ \<Rightarrow> Inl ''theme manifest must be an object'')"

text \<open>The manifest as the object the code keeps and prints; an absent number is undefined.\<close>

definition optional_num :: "rat option \<Rightarrow> jsval" where
  "optional_num q = (case q of Some x \<Rightarrow> Num (Fin x) | None \<Rightarrow> Undef)"

definition item_value :: "theme_item \<Rightarrow> jsval" where
  "item_value i = Obj ([(''type'', Str (ti_type i))] @ (case ti_key i of Some k \<Rightarrow> [(''key'', Str k)] | None \<Rightarrow> []) @
     [(''name'', Str (ti_name i)), (''help'', Str (ti_help i)), (''options'', Str (ti_options i)), (''min'', optional_num (ti_min i)),
      (''max'', optional_num (ti_max i)), (''step'', optional_num (ti_step i)), (''default'', ti_default i)])"

definition manifest_value :: "theme_manifest \<Rightarrow> jsval" where
  "manifest_value m = Obj [(''name'', Str (tm_name m)), (''short'', Str (tm_short m)), (''description'', Str (tm_description m)),
     (''version'', Str (tm_version m)), (''author'', Str (tm_author m)), (''url'', Str (tm_url m)), (''preview'', Str (tm_preview m)),
     (''style'', Str (tm_style m)), (''configuration'', Obj [(''type'', Str ''managed''), (''data'', Arr (map item_value (tm_data m)))])]"

subsection \<open>Configuration\<close>

definition isSafeImageConfigValue :: "(string \<Rightarrow> url option) \<Rightarrow> string \<Rightarrow> bool" where
  "isSafeImageConfigValue up v =
     (if v = [] then True
      else if list_ex (\<lambda>c. cc c < 32 \<or> cc c = 127) v then False
      else if js_startsWith v ''/'' \<and> \<not> js_startsWith v ''//'' then True
      else case up v of Some u \<Rightarrow> protocol u = ''https:'' \<and> url_username u = [] \<and> url_password u = [] | None \<Rightarrow> False)"

datatype config_error = UnknownKey string | NotANumber string | OutOfRange string | NotAColor string | NotAnImage string

definition is_hex_color :: "string \<Rightarrow> bool" where
  "is_hex_color t = (case t of c # hs \<Rightarrow> c = CHR ''#'' \<and> list_all is_hex_any hs \<and> length hs \<in> set [3, 6, 8] | [] \<Rightarrow> False)"

definition option_list :: "string \<Rightarrow> string list" where
  "option_list s = filter (\<lambda>o1. o1 \<noteq> []) (map js_trim (js_split CHR '','' s))"

definition below :: "rat option \<Rightarrow> rat \<Rightarrow> bool" where
  "below lo x = (case lo of Some l \<Rightarrow> l \<le> x | None \<Rightarrow> True)"

definition above :: "rat option \<Rightarrow> rat \<Rightarrow> bool" where
  "above hi x = (case hi of Some h \<Rightarrow> x \<le> h | None \<Rightarrow> True)"

definition validate_value :: "(string \<Rightarrow> url option) \<Rightarrow> theme_item \<Rightarrow> string \<Rightarrow> jsval \<Rightarrow> config_error + jsval" where
  "validate_value up item key v =
     (if ti_type item = ''switch'' then Inr (Bool (js_truthy v))
      else if ti_type item = ''number'' \<or> ti_type item = ''range'' then
        (case js_Number v of
           Fin q \<Rightarrow> if \<not> below (ti_min item) q \<or> \<not> above (ti_max item) q then Inl (OutOfRange key) else Inr (Num (Fin q))
         | _ \<Rightarrow> Inl (NotANumber key))
      else if ti_type item = ''color'' then
        (let t = js_trim (js_String v) in if is_hex_color t then Inr (Str t) else Inl (NotAColor key))
      else if ti_type item = ''select'' then
        (let t = js_String v; os = option_list (ti_options item) in if os \<noteq> [] \<and> t \<notin> set os then Inl (OutOfRange key) else Inr (Str t))
      else if ti_type item = ''image'' then
        (let t = js_trim (js_String v) in if isSafeImageConfigValue up t then Inr (Str t) else Inl (NotAnImage key))
      else Inr (Str (js_String v)))"

fun validate_items :: "(string \<Rightarrow> url option) \<Rightarrow> jsobj \<Rightarrow> (string \<times> theme_item) list \<Rightarrow> jsobj \<Rightarrow> config_error + jsobj" where
  "validate_items up input [] config = Inr config"
| "validate_items up input ((key, item) # items) config =
     (if js_get input key = Undef
      then validate_items up input items (if ti_default item \<noteq> Undef then AList.update key (ti_default item) config else config)
      else case validate_value up item key (js_get input key) of
          Inl e \<Rightarrow> Inl e
        | Inr v \<Rightarrow> validate_items up input items (AList.update key v config))"

definition keyed_items :: "theme_manifest \<Rightarrow> (string \<times> theme_item) list" where
  "keyed_items m = List.map_filter (\<lambda>i. map_option (\<lambda>k. (k, i)) (ti_key i)) (tm_data m)"

definition validate_config :: "(string \<Rightarrow> url option) \<Rightarrow> theme_manifest \<Rightarrow> jsval \<Rightarrow> config_error + jsobj" where
  "validate_config up m configInput =
     (let input = (case configInput of Obj o1 \<Rightarrow> o1 | _ \<Rightarrow> []); items = keyed_items m
      in case List.find (\<lambda>k. k \<notin> fst ` set items) (map fst input) of
          Some k \<Rightarrow> Inl (UnknownKey k)
        | None \<Rightarrow> validate_items up input items [])"

text \<open>\<open>Inl\<close> where normalising the manifest throws.\<close>

definition validateThemeConfig :: "(string \<Rightarrow> url option) \<Rightarrow> jsval \<Rightarrow> jsval \<Rightarrow> theme_error + (config_error + jsobj)" where
  "validateThemeConfig up manifestInput configInput =
     bind_theme (normalizeThemeManifest manifestInput) (\<lambda>m. Inr (validate_config up m configInput))"

definition defaultConfigForManifest :: "theme_manifest \<Rightarrow> jsobj" where
  "defaultConfigForManifest m =
     fold (\<lambda>(k, i) c. if ti_default i \<noteq> Undef then AList.update k (ti_default i) c else c) (keyed_items m) []"

subsection \<open>The style sheet\<close>

definition cssVarValue :: "jsval \<Rightarrow> string" where
  "cssVarValue v = (case v of Bool b \<Rightarrow> if b then ''1'' else ''0''
     | _ \<Rightarrow> js_trim (filter (\<lambda>c. c \<notin> set '';{}'') (js_String v)))"

definition css_variable :: "string \<times> jsval \<Rightarrow> string" where
  "css_variable = (\<lambda>(key, v). ''  --cf-theme-'' @ key @ '': '' @ cssVarValue v @ '';'')"

definition newline :: string where "newline = [CHR 0x0A]"

definition buildThemeCss :: "string \<Rightarrow> jsobj \<Rightarrow> string \<Rightarrow> string" where
  "buildThemeCss styleCss config customCss =
     (let variables = map css_variable (filter (\<lambda>(k, _). is_theme_id k) config)
      in js_join (newline @ newline) (filter (\<lambda>s. s \<noteq> [])
        [if variables \<noteq> [] then '':root {'' @ newline @ js_join newline variables @ newline @ ''}'' else [],
         styleCss, take MAX_CUSTOM_CSS_BYTES customCss]))"

subsection \<open>Base64\<close>

fun bytesToBase64 :: "bytes \<Rightarrow> string" where
  "bytesToBase64 (a # b # c # r) =
     (let chunk = unat a * 65536 + unat b * 256 + unat c
      in [b64_char (chunk div 262144 mod 64), b64_char (chunk div 4096 mod 64), b64_char (chunk div 64 mod 64), b64_char (chunk mod 64)]
         @ bytesToBase64 r)"
| "bytesToBase64 [a, b] =
     (let chunk = unat a * 65536 + unat b * 256
      in [b64_char (chunk div 262144 mod 64), b64_char (chunk div 4096 mod 64), b64_char (chunk div 64 mod 64), CHR ''=''])"
| "bytesToBase64 [a] =
     (let chunk = unat a * 65536 in [b64_char (chunk div 262144 mod 64), b64_char (chunk div 4096 mod 64), CHR ''='', CHR ''=''])"
| "bytesToBase64 [] = []"

definition base64ToBytes :: "string \<Rightarrow> bytes option" where
  "base64ToBytes t = atob_bytes t"

subsection \<open>The archive\<close>

record zip_entry =
  ze_name :: string
  ze_originalSize :: jsnum
  ze_compression :: nat

type_synonym declared = "(string \<times> nat \<times> nat) list"

text \<open>The pass over the central directory: entries so far, files with size and compression, bytes declared.\<close>

fun scan_directory :: "zip_entry list \<Rightarrow> nat \<Rightarrow> declared \<Rightarrow> nat \<Rightarrow> theme_error + declared" where
  "scan_directory [] count dcl bytes = Inr dcl"
| "scan_directory (e # es) count dcl bytes =
     (if MAX_ZIP_ENTRIES < Suc count then Inl ''theme package has too many entries''
      else if js_endsWith (ze_name e) ''/'' then
        bind_theme (normalizeThemePath (Str (butlast (ze_name e)))) (\<lambda>_.
          if ze_originalSize e \<noteq> Fin 0 then Inl ''theme directory size is invalid'' else scan_directory es (Suc count) dcl bytes)
      else bind_theme (normalizeThemePath (Str (ze_name e))) (\<lambda>path.
        case assertAllowedFile path of
          Some err \<Rightarrow> Inl err
        | None \<Rightarrow>
            if map_of dcl path \<noteq> None then Inl (''duplicate theme path: '' @ path)
            else if MAX_ASSETS + 1 \<le> length dcl then Inl ''theme package has too many files''
            else if ze_compression e \<noteq> 0 \<and> ze_compression e \<noteq> 8 then Inl ''theme compression is not supported''
            else if \<not> js_isSafeInteger (ze_originalSize e) \<or> js_lt (ze_originalSize e) (Fin 0) \<or>
                    js_lt (FinI (int (themeFileByteLimit path))) (ze_originalSize e) then Inl (''theme asset is too large: '' @ path)
            else let sz = nat (js_int (ze_originalSize e))
                 in if MAX_UNZIPPED_BYTES < bytes + sz then Inl ''theme uncompressed size is too large''
                    else scan_directory es (Suc count) (dcl @ [(path, sz, ze_compression e)]) (bytes + sz)))"

datatype zip_event = ZipFile string "jsnum option" nat | ZipData string bytes bool | ZipError string

record unzip =
  uz_files :: "(string \<times> bytes) list"
  uz_open :: "(string \<times> bytes) list"
  uz_actual :: nat
  uz_failure :: "theme_error option"

text \<open>A callback of the archive. An exception is \<open>Inl\<close>; a noted failure ends the work after the present piece.\<close>

fun zip_callback :: "declared \<Rightarrow> zip_event \<Rightarrow> unzip \<Rightarrow> theme_error + unzip" where
  "zip_callback dcl (ZipFile name osize cmp) z =
     (if uz_failure z \<noteq> None \<or> js_endsWith name ''/'' then Inr z
      else bind_theme (normalizeThemePath (Str name)) (\<lambda>path. case map_of dcl path of
          None \<Rightarrow> Inl ''theme ZIP directory mismatch''
        | Some (sz, c) \<Rightarrow>
            if map_of (uz_open z) path \<noteq> None \<or> c \<noteq> cmp then Inl ''theme ZIP directory mismatch''
            else if osize \<noteq> None \<and> osize \<noteq> Some (FinI (int sz)) then Inl ''theme ZIP size mismatch''
            else Inr (z\<lparr>uz_open := uz_open z @ [(path, [])]\<rparr>)))"
| "zip_callback dcl (ZipError path) z =
     Inr (if uz_failure z \<noteq> None \<or> map_of (uz_open z) path = None then z else z\<lparr>uz_failure := Some ''inflate failed''\<rparr>)"
| "zip_callback dcl (ZipData path bs final) z =
     (case (uz_failure z, map_of (uz_open z) path, map_of dcl path) of
        (None, Some got, Some (sz, _)) \<Rightarrow>
          (let all = got @ bs; actual = uz_actual z + length bs
           in if themeFileByteLimit path < length all \<or> sz < length all \<or> MAX_UNZIPPED_BYTES < actual
              then Inr (z\<lparr>uz_actual := actual, uz_failure := Some (''theme actual output size is too large: '' @ path)\<rparr>)
              else let z1 = z\<lparr>uz_actual := actual, uz_open := AList.update path all (uz_open z)\<rparr>
                   in if \<not> final then Inr z1
                      else if length all \<noteq> sz then Inr (z1\<lparr>uz_failure := Some (''theme ZIP size mismatch: '' @ path)\<rparr>)
                      else Inr (z1\<lparr>uz_files := AList.update path all (uz_files z1)\<rparr>))
      | _ \<Rightarrow> Inr z)"

fun run_callbacks :: "declared \<Rightarrow> zip_event list \<Rightarrow> unzip \<Rightarrow> theme_error + unzip" where
  "run_callbacks dcl [] z = Inr z"
| "run_callbacks dcl (e # es) z = bind_theme (zip_callback dcl e z) (run_callbacks dcl es)"

fun push_pieces :: "declared \<Rightarrow> zip_event list list \<Rightarrow> unzip \<Rightarrow> theme_error + unzip" where
  "push_pieces dcl [] z = Inr z"
| "push_pieces dcl (es # pieces) z =
     bind_theme (run_callbacks dcl es z) (\<lambda>z1. case uz_failure z1 of Some err \<Rightarrow> Inl err | None \<Rightarrow> push_pieces dcl pieces z1)"

text \<open>\<open>directory\<close> is None where the library cannot read the central directory.\<close>

definition unzipThemeWithLimits :: "zip_entry list option \<Rightarrow> zip_event list list \<Rightarrow> theme_error + (string \<times> bytes) list" where
  "unzipThemeWithLimits directory pieces = (case directory of
       None \<Rightarrow> Inl ''invalid zip data''
     | Some entries \<Rightarrow> bind_theme (scan_directory entries 0 [] 0) (\<lambda>dcl.
         bind_theme (push_pieces dcl pieces \<lparr>uz_files = [], uz_open = [], uz_actual = 0, uz_failure = None\<rparr>) (\<lambda>z.
           if length (uz_files z) \<noteq> length dcl then Inl ''theme ZIP is incomplete'' else Inr (uz_files z))))"

subsection \<open>Parsing a package\<close>

record theme_record =
  th_short :: string
  th_name :: string
  th_description :: string
  th_version :: string
  th_author :: string
  th_url :: string
  th_preview_path :: string
  th_style_path :: string
  th_manifest_json :: string
  th_config_json :: string
  th_custom_css :: string

record theme_asset =
  ta_path :: string
  ta_content_type :: string
  ta_content_base64 :: string
  ta_size_bytes :: nat

definition stringify_text :: "jsval \<Rightarrow> string" where
  "stringify_text v = (case JSON_stringify v of Some t \<Rightarrow> t | None \<Rightarrow> [])"

fun package_assets :: "(string \<times> bytes) list \<Rightarrow> theme_error + theme_asset list" where
  "package_assets [] = Inr []"
| "package_assets ((path, bs) # fs) =
     (if path = THEME_MANIFEST_PATH then package_assets fs
      else if extensionOf path \<noteq> ''.css'' \<and> MAX_IMAGE_BYTES < length bs then Inl (''theme asset is too large: '' @ path)
      else bind_theme (package_assets fs) (\<lambda>rest. Inr (\<lparr>ta_path = path, ta_content_type = contentTypeFor path,
        ta_content_base64 = bytesToBase64 bs, ta_size_bytes = length bs\<rparr> # rest)))"

definition manifest_record :: "theme_manifest \<Rightarrow> jsobj \<Rightarrow> theme_record" where
  "manifest_record m config = \<lparr>th_short = tm_short m, th_name = tm_name m, th_description = tm_description m, th_version = tm_version m,
     th_author = tm_author m, th_url = tm_url m, th_preview_path = tm_preview m, th_style_path = tm_style m,
     th_manifest_json = stringify_text (manifest_value m), th_config_json = stringify_text (Obj config), th_custom_css = []\<rparr>"

definition package_of_files :: "(string \<Rightarrow> url option) \<Rightarrow> (string \<times> bytes) list \<Rightarrow> theme_error + theme_record \<times> theme_asset list" where
  "package_of_files up files = (case map_of files THEME_MANIFEST_PATH of
       None \<Rightarrow> Inl ''theme manifest cf-monitor-theme.json is required''
     | Some manifestBytes \<Rightarrow> (case JSON_parse (utf8_decode manifestBytes) of
         None \<Rightarrow> Inl ''invalid JSON''
       | Some v \<Rightarrow> bind_theme (normalizeThemeManifest v) (\<lambda>m.
           case List.find (\<lambda>f. assertAllowedFile (fst f) \<noteq> None) files of
             Some f \<Rightarrow> Inl (''theme file extension is not allowed: '' @ fst f)
           | None \<Rightarrow> (case map_of files (tm_style m) of
               None \<Rightarrow> Inl ''theme style file is missing''
             | Some styleBytes \<Rightarrow>
                 if MAX_CSS_BYTES < length styleBytes then Inl ''theme CSS is too large''
                 else if tm_preview m \<noteq> [] \<and> map_of files (tm_preview m) = None then Inl ''theme preview file is missing''
                 else bind_theme (validateThemeConfig up (manifest_value m) (Obj (defaultConfigForManifest m))) (\<lambda>r. case r of
                     Inl _ \<Rightarrow> Inl ''invalid default configuration''
                   | Inr config \<Rightarrow> bind_theme (package_assets files) (\<lambda>assets. Inr (manifest_record m config, assets)))))))"

definition parseThemeZip ::
  "(string \<Rightarrow> url option) \<Rightarrow> bytes \<Rightarrow> zip_entry list option \<Rightarrow> zip_event list list \<Rightarrow> theme_error + theme_record \<times> theme_asset list" where
  "parseThemeZip up zipBytes directory pieces =
     (if MAX_ZIP_BYTES < length zipBytes then Inl ''theme zip is too large''
      else bind_theme (unzipThemeWithLimits directory pieces) (package_of_files up))"

subsection \<open>What a package may hold\<close>

lemma sextet_digits:
  fixes w x y z :: nat
  assumes "x < 64" "y < 64" "z < 64"
  shows "(262144 * w + 4096 * x + 64 * y + z) div 262144 = w"
    "(262144 * w + 4096 * x + 64 * y + z) div 4096 mod 64 = x"
    "(262144 * w + 4096 * x + 64 * y + z) div 64 mod 64 = y"
    "(262144 * w + 4096 * x + 64 * y + z) mod 64 = z"
proof -
  let ?n = "262144 * w + 4096 * x + 64 * y + z"
  have n: "?n = 64 * (64 * (64 * w + x) + y) + z" by simp
  have 1: "?n div 64 = 64 * (64 * w + x) + y" unfolding n using assms by (simp del: distrib_left distrib_left_numeral)
  have 2: "?n div 64 div 64 = 64 * w + x" unfolding 1 using assms by (simp del: distrib_left distrib_left_numeral)
  have 3: "?n div 64 div 64 div 64 = w" unfolding 2 using assms by simp
  show "?n mod 64 = z" unfolding n using assms by (simp del: distrib_left distrib_left_numeral)
  show "?n div 64 mod 64 = y" unfolding 1 using assms by (simp del: distrib_left distrib_left_numeral)
  have "?n div 4096 = ?n div 64 div 64" "?n div 262144 = ?n div 64 div 64 div 64" by (simp_all add: div_mult2_eq [symmetric])
  then show "?n div 4096 mod 64 = x" "?n div 262144 = w" using 2 3 assms by simp_all
qed

lemma sextet_split:
  fixes a b c :: nat
  assumes "b < 256" "c < 256"
  shows "(a * 65536 + b * 256 + c) div 262144 = a div 4"
    "(a * 65536 + b * 256 + c) div 4096 mod 64 = a mod 4 * 16 + b div 16"
    "(a * 65536 + b * 256 + c) div 64 mod 64 = b mod 16 * 4 + c div 64"
    "(a * 65536 + b * 256 + c) mod 64 = c mod 64"
proof -
  have "a mod 4 < 4" "b mod 16 < 16" "c mod 64 < 64" by simp_all
  moreover have "b div 16 < 16" "c div 64 < 4" using assms by linarith+
  ultimately have lt: "a mod 4 * 16 + b div 16 < 64" "b mod 16 * 4 + c div 64 < 64" "c mod 64 < 64" by linarith+
  have n: "a * 65536 + b * 256 + c =
      262144 * (a div 4) + 4096 * (a mod 4 * 16 + b div 16) + 64 * (b mod 16 * 4 + c div 64) + c mod 64"
  proof -
    define a1 a0 b1 b0 c1 c0 where "a1 = a div 4" "a0 = a mod 4" "b1 = b div 16" "b0 = b mod 16" "c1 = c div 64" "c0 = c mod 64"
    note ds = this
    have "a = a1 * 4 + a0" "b = b1 * 16 + b0" "c = c1 * 64 + c0" unfolding ds by simp_all
    then show ?thesis unfolding ds [symmetric] by simp
  qed
  show "(a * 65536 + b * 256 + c) div 262144 = a div 4"
    "(a * 65536 + b * 256 + c) div 4096 mod 64 = a mod 4 * 16 + b div 16"
    "(a * 65536 + b * 256 + c) div 64 mod 64 = b mod 16 * 4 + c div 64"
    "(a * 65536 + b * 256 + c) mod 64 = c mod 64"
    by (simp_all only: n sextet_digits [OF lt])
qed

lemma byte_sextet: "unat (a :: byte) div 4 mod 64 = unat a div 4"
proof -
  have "unat a < 256" by simp
  then have "unat a div 4 < 64" by linarith
  then show ?thesis by simp
qed

lemma bytesToBase64_standard: "bytesToBase64 bs = b64_encode bs"
proof (induction bs rule: bytesToBase64.induct)
  case (1 a b c r)
  have s: "unat a div 4 mod 64 = unat a div 4" by (rule byte_sextet)
  note split = sextet_split [of "unat b" "unat c" "unat a"]
  show ?case using 1 split s by (simp add: Let_def b64_encode_def b64_pad_def)
next
  case (2 a b)
  have s: "unat a div 4 mod 64 = unat a div 4" by (rule byte_sextet)
  note split = sextet_split [of "unat b" 0 "unat a"]
  show ?case using split s by (simp add: Let_def b64_encode_def b64_pad_def)
next
  case (3 a)
  have s: "unat a div 4 mod 64 = unat a div 4" by (rule byte_sextet)
  note split = sextet_split [of 0 0 "unat a"]
  show ?case using split s by (simp add: Let_def b64_encode_def b64_pad_def numeral_2_eq_2)
qed (simp add: b64_encode_def b64_pad_def)

definition declared_ok :: "declared \<Rightarrow> bool" where
  "declared_ok dcl \<longleftrightarrow> distinct (map fst dcl) \<and> length dcl \<le> MAX_ASSETS + 1 \<and>
     sum_list (map (fst \<circ> snd) dcl) \<le> MAX_UNZIPPED_BYTES \<and>
     list_all (\<lambda>(p, sz, _). path_ok p \<and> assertAllowedFile p = None \<and> sz \<le> themeFileByteLimit p) dcl"

lemma normalized_path_ok: "normalizeThemePath v = Inr p \<Longrightarrow> path_ok p"
  by (auto simp: normalizeThemePath_def Let_def split: jsval.splits if_splits)

lemma safe_size: "js_isSafeInteger x \<Longrightarrow> \<not> js_lt x (Fin 0) \<Longrightarrow> \<not> js_lt (FinI (int n)) x \<Longrightarrow> nat (js_int x) \<le> n"
  by (cases x) (auto simp: nat_le_iff floor_le_iff not_less)

lemma scan_directory_ok:
  "scan_directory es n dcl bytes = Inr d \<Longrightarrow> declared_ok dcl \<Longrightarrow> bytes = sum_list (map (fst \<circ> snd) dcl) \<Longrightarrow> declared_ok d"
proof (induction es arbitrary: n dcl bytes)
  case (Cons e es)
  show ?case
  proof (cases "js_endsWith (ze_name e) ''/''")
    case True
    then show ?thesis using Cons by (auto simp: bind_theme_Inr split: if_splits)
  next
    case False
    then obtain p where p: "normalizeThemePath (Str (ze_name e)) = Inr p" "assertAllowedFile p = None" "\<forall>sz c. map_of dcl p \<noteq> Some (sz, c)"
        "length dcl < MAX_ASSETS + 1" "nat (js_int (ze_originalSize e)) \<le> themeFileByteLimit p"
        "bytes + nat (js_int (ze_originalSize e)) \<le> MAX_UNZIPPED_BYTES"
        "scan_directory es (Suc n) (dcl @ [(p, nat (js_int (ze_originalSize e)), ze_compression e)]) (bytes + nat (js_int (ze_originalSize e))) = Inr d"
      using Cons(2) safe_size [of "ze_originalSize e"] by (auto simp: bind_theme_Inr Let_def not_le not_less split: if_splits option.splits)
    have fresh: "map_of dcl p = None" using p(3) by (cases "map_of dcl p") auto
    have "declared_ok (dcl @ [(p, nat (js_int (ze_originalSize e)), ze_compression e)])"
      using Cons(3,4) p normalized_path_ok fresh by (auto simp: declared_ok_def map_of_eq_None_iff comp_def)
    then show ?thesis by (rule Cons(1) [OF p(7)]) (simp add: Cons(4))
  qed
qed simp

text \<open>Files kept by the unzipping have exactly the sizes the directory declared.\<close>

definition stored_ok :: "declared \<Rightarrow> unzip \<Rightarrow> bool" where
  "stored_ok dcl z \<longleftrightarrow> distinct (map fst (uz_files z)) \<and>
     (\<forall>p bs. map_of (uz_files z) p = Some bs \<longrightarrow> (\<exists>c. map_of dcl p = Some (length bs, c)))"

lemma stored_ok_keep: "uz_files z' = uz_files z \<Longrightarrow> stored_ok dcl z \<Longrightarrow> stored_ok dcl z'"
  by (simp add: stored_ok_def)

lemma stored_ok_add:
  "stored_ok dcl z \<Longrightarrow> map_of dcl p = Some (length bs, c) \<Longrightarrow> uz_files z' = AList.update p bs (uz_files z) \<Longrightarrow> stored_ok dcl z'"
  by (auto simp: stored_ok_def distinct_update update_conv')

lemma zip_file_keeps: "zip_callback dcl (ZipFile n os c) z = Inr z' \<Longrightarrow> uz_files z' = uz_files z"
  by (cases "normalizeThemePath (Str n)"; cases "map_of dcl (projr (normalizeThemePath (Str n)))")
    (auto split: if_splits)

lemma zip_data_stores:
  "zip_callback dcl (ZipData p bs final) z = Inr z' \<Longrightarrow> uz_files z' = uz_files z \<or>
     (\<exists>all c. map_of dcl p = Some (length all, c) \<and> uz_files z' = AList.update p all (uz_files z))"
  by (auto simp: Let_def split: if_splits option.splits) (metis length_append)

lemma zip_callback_ok: "zip_callback dcl e z = Inr z' \<Longrightarrow> stored_ok dcl z \<Longrightarrow> stored_ok dcl z'"
proof (cases e)
  case (ZipFile n os c)
  assume "zip_callback dcl e z = Inr z'" "stored_ok dcl z"
  then show ?thesis using ZipFile zip_file_keeps stored_ok_keep by blast
next
  case (ZipError p)
  assume "zip_callback dcl e z = Inr z'" "stored_ok dcl z"
  then show ?thesis using ZipError by (auto split: if_splits intro: stored_ok_keep)
next
  case (ZipData p bs final)
  assume "zip_callback dcl e z = Inr z'" "stored_ok dcl z"
  then show ?thesis using ZipData zip_data_stores stored_ok_keep stored_ok_add by metis
qed

lemma run_callbacks_ok: "run_callbacks dcl es z = Inr z' \<Longrightarrow> stored_ok dcl z \<Longrightarrow> stored_ok dcl z'"
  by (induction es arbitrary: z) (auto simp: bind_theme_Inr intro: zip_callback_ok)

lemma push_pieces_ok: "push_pieces dcl ps z = Inr z' \<Longrightarrow> stored_ok dcl z \<Longrightarrow> stored_ok dcl z'"
  by (induction ps arbitrary: z) (auto simp: bind_theme_Inr split: option.splits intro: run_callbacks_ok)

definition files_ok :: "(string \<times> bytes) list \<Rightarrow> bool" where
  "files_ok fs \<longleftrightarrow> distinct (map fst fs) \<and> length fs \<le> MAX_ASSETS + 1 \<and> sum_list (map (length \<circ> snd) fs) \<le> MAX_UNZIPPED_BYTES \<and>
     list_all (\<lambda>(p, bs). path_ok p \<and> assertAllowedFile p = None \<and> length bs \<le> themeFileByteLimit p) fs"

lemma sizes_within_declared:
  assumes "distinct (map fst fs)" "distinct (map fst dcl)"
    "\<forall>p bs. map_of fs p = Some bs \<longrightarrow> (\<exists>c. map_of dcl p = Some (length bs, c))"
  shows "sum_list (map (length \<circ> snd) fs) \<le> sum_list (map (fst \<circ> snd) dcl)"
proof -
  let ?size = "\<lambda>p. fst (the (map_of dcl p))"
  have "map (length \<circ> snd) fs = map (?size \<circ> fst) fs" using assms(1,3) by (fastforce simp: map_of_eq_Some_iff)
  then have "sum_list (map (length \<circ> snd) fs) = sum ?size (set (map fst fs))"
    using sum_list_distinct_conv_sum_set [OF assms(1), of ?size] by (simp only: map_map)
  also have "\<dots> \<le> sum ?size (set (map fst dcl))"
    using assms by (intro sum_mono2) (auto simp: map_of_eq_Some_iff image_iff, metis fst_conv)
  also have "\<dots> = sum_list (map (?size \<circ> fst) dcl)"
    using sum_list_distinct_conv_sum_set [OF assms(2), of ?size] by (simp only: map_map)
  also have "map (?size \<circ> fst) dcl = map (fst \<circ> snd) dcl" using assms(2) by (auto simp: map_of_eq_Some_iff)
  finally show ?thesis .
qed

lemma unzip_files_ok:
  assumes "unzipThemeWithLimits directory pieces = Inr fs"
  shows "files_ok fs"
proof -
  obtain entries dcl z where u: "directory = Some entries" "scan_directory entries 0 [] 0 = Inr dcl"
      "push_pieces dcl pieces \<lparr>uz_files = [], uz_open = [], uz_actual = 0, uz_failure = None\<rparr> = Inr z"
      "length (uz_files z) = length dcl" "fs = uz_files z"
    using assms by (auto simp: unzipThemeWithLimits_def bind_theme_Inr split: option.splits if_splits)
  have d: "declared_ok dcl" using scan_directory_ok [OF u(2)] by (simp add: declared_ok_def)
  have z: "stored_ok dcl z" by (rule push_pieces_ok [OF u(3)]) (simp add: stored_ok_def)
  have "list_all (\<lambda>(p, bs). path_ok p \<and> assertAllowedFile p = None \<and> length bs \<le> themeFileByteLimit p) fs"
    using d z u(5) by (fastforce simp: declared_ok_def stored_ok_def list_all_iff map_of_eq_Some_iff dest: map_of_SomeD)
  then show ?thesis using d z u(4,5) sizes_within_declared [of fs dcl] by (auto simp: files_ok_def declared_ok_def stored_ok_def)
qed

definition asset_of :: "string \<times> bytes \<Rightarrow> theme_asset" where
  "asset_of = (\<lambda>(path, bs). \<lparr>ta_path = path, ta_content_type = contentTypeFor path, ta_content_base64 = bytesToBase64 bs, ta_size_bytes = length bs\<rparr>)"

lemma package_assets_eq: "package_assets fs = Inr as \<Longrightarrow> as = map asset_of (filter (\<lambda>f. fst f \<noteq> THEME_MANIFEST_PATH) fs)"
  by (induction fs arbitrary: as rule: package_assets.induct) (auto simp: bind_theme_Inr asset_of_def split: if_splits)

definition asset_safe :: "theme_asset \<Rightarrow> bool" where
  "asset_safe a \<longleftrightarrow> path_ok (ta_path a) \<and> extensionOf (ta_path a) \<in> set ALLOWED_EXTENSIONS \<and> extensionOf (ta_path a) \<notin> set FORBIDDEN_EXTENSIONS \<and>
     ta_content_type a = contentTypeFor (ta_path a) \<and> ta_content_type a \<noteq> ''application/octet-stream'' \<and>
     ta_size_bytes a \<le> themeFileByteLimit (ta_path a) \<and> (\<exists>bs. base64ToBytes (ta_content_base64 a) = Some bs \<and> length bs = ta_size_bytes a)"

lemma content_type_known: "extensionOf p \<in> set ALLOWED_EXTENSIONS \<Longrightarrow> contentTypeFor p \<noteq> ''application/octet-stream''"
  by (auto simp: contentTypeFor_def ALLOWED_EXTENSIONS_def)

lemma asset_of_safe: "path_ok p \<Longrightarrow> assertAllowedFile p = None \<Longrightarrow> length bs \<le> themeFileByteLimit p \<Longrightarrow> asset_safe (asset_of (p, bs))"
  using content_type_known [of p]
  by (auto simp: asset_safe_def asset_of_def assertAllowedFile_def Let_def base64ToBytes_def bytesToBase64_standard atob_b64_encode split: if_splits)

lemma manifest_shape:
  assumes "normalizeThemeManifest v = Inr m"
  shows "is_theme_id (tm_short m) \<and> tm_short m \<noteq> ''default'' \<and> extensionOf (tm_style m) = ''.css'' \<and>
    (tm_preview m = [] \<or> image_extension (extensionOf (tm_preview m)))"
  using assms by (cases v) (auto simp: normalizeThemeManifest_def bind_theme_Inr Let_def split: if_splits)

lemma sum_case_Inr: "(case r of Inl e \<Rightarrow> Inl (g e) | Inr c \<Rightarrow> f c) = Inr b \<longleftrightarrow> (\<exists>c. r = Inr c \<and> f c = Inr b)"
  by (cases r) auto

lemma package_of_files_Inr:
  assumes "package_of_files up fs = Inr (t, assets)"
  obtains v m config sb mb where "map_of fs THEME_MANIFEST_PATH = Some mb" "normalizeThemeManifest v = Inr m" "map_of fs (tm_style m) = Some sb"
    "tm_preview m = [] \<or> map_of fs (tm_preview m) \<noteq> None" "package_assets fs = Inr assets" "t = manifest_record m config"
    "validateThemeConfig up (manifest_value m) (Obj (defaultConfigForManifest m)) = Inr (Inr config)" "JSON_parse (utf8_decode mb) = Some v"
  using assms unfolding package_of_files_def
  by (auto simp: bind_theme_Inr sum_case_Inr split: option.splits if_splits)

lemma assets_named:
  "map_of fs p = Some bs \<Longrightarrow> p \<noteq> THEME_MANIFEST_PATH \<Longrightarrow>
    list_ex (\<lambda>a. ta_path a = p \<and> ta_content_type a = contentTypeFor p) (map asset_of (filter (\<lambda>f. fst f \<noteq> THEME_MANIFEST_PATH) fs))"
  by (force simp: list_ex_iff asset_of_def dest: map_of_SomeD)

lemma manifest_extension: "extensionOf THEME_MANIFEST_PATH = ''.json''"
  by code_simp

lemma assets_within:
  assumes "files_ok fs" "map_of fs THEME_MANIFEST_PATH = Some mb"
  defines "as \<equiv> map asset_of (filter (\<lambda>f. fst f \<noteq> THEME_MANIFEST_PATH) fs)"
  shows "list_all asset_safe as \<and> distinct (map ta_path as) \<and> length as \<le> MAX_ASSETS \<and> sum_list (map ta_size_bytes as) \<le> MAX_UNZIPPED_BYTES"
proof -
  let ?gs = "filter (\<lambda>f. fst f \<noteq> THEME_MANIFEST_PATH) fs"
  have maps: "map ta_path as = map fst ?gs" "map ta_size_bytes as = map (length \<circ> snd) ?gs"
    unfolding as_def by (auto simp: asset_of_def)
  have "(THEME_MANIFEST_PATH, mb) \<in> set fs" by (rule map_of_SomeD [OF assms(2)])
  then have "length ?gs < length fs" by (intro length_filter_less) auto
  then have n: "length as \<le> MAX_ASSETS" using assms(1) by (simp add: as_def files_ok_def)
  have s: "sum_list (map (length \<circ> snd) ?gs) \<le> sum_list (map (length \<circ> snd) fs)" by (induction fs) auto
  have "list_all asset_safe as"
    using assms(1) by (auto simp: as_def files_ok_def list_all_iff intro!: asset_of_safe)
  then show ?thesis using n s assms(1) by (auto simp: maps files_ok_def distinct_map_filter)
qed

lemma parsed_package:
  assumes "parseThemeZip up zipBytes directory pieces = Inr (t, assets)"
  obtains fs v m config sb mb where "files_ok fs" "map_of fs THEME_MANIFEST_PATH = Some mb" "normalizeThemeManifest v = Inr m"
    "map_of fs (tm_style m) = Some sb" "tm_preview m = [] \<or> map_of fs (tm_preview m) \<noteq> None" "t = manifest_record m config"
    "assets = map asset_of (filter (\<lambda>f. fst f \<noteq> THEME_MANIFEST_PATH) fs)"
proof -
  obtain fs where fs: "unzipThemeWithLimits directory pieces = Inr fs" "package_of_files up fs = Inr (t, assets)"
    using assms by (auto simp: parseThemeZip_def bind_theme_Inr split: if_splits)
  then show ?thesis using that unzip_files_ok [OF fs(1)] package_assets_eq by (elim package_of_files_Inr) blast
qed

lemma parsed_assets:
  assumes "parseThemeZip up zipBytes directory pieces = Inr (t, assets)"
  shows "list_all asset_safe assets \<and> distinct (map ta_path assets) \<and> length assets \<le> MAX_ASSETS \<and>
    sum_list (map ta_size_bytes assets) \<le> MAX_UNZIPPED_BYTES"
  using assms assets_within by (elim parsed_package) blast

lemma parsed_record:
  assumes "parseThemeZip up zipBytes directory pieces = Inr (t, assets)"
  shows "is_theme_id (th_short t)" "th_short t \<noteq> ''default''" "th_custom_css t = []"
    "list_ex (\<lambda>a. ta_path a = th_style_path t \<and> ta_content_type a = ''text/css; charset=utf-8'') assets"
proof -
  obtain fs v m config sb mb where p: "normalizeThemeManifest v = Inr m" "map_of fs (tm_style m) = Some sb" "t = manifest_record m config"
      "assets = map asset_of (filter (\<lambda>f. fst f \<noteq> THEME_MANIFEST_PATH) fs)"
    using assms by (elim parsed_package) blast
  have m: "is_theme_id (tm_short m)" "tm_short m \<noteq> ''default''" "extensionOf (tm_style m) = ''.css''" using manifest_shape [OF p(1)] by blast+
  then show "is_theme_id (th_short t)" "th_short t \<noteq> ''default''" "th_custom_css t = []" by (simp_all add: p(3) manifest_record_def)
  have "tm_style m \<noteq> THEME_MANIFEST_PATH" using m(3) manifest_extension by auto
  then show "list_ex (\<lambda>a. ta_path a = th_style_path t \<and> ta_content_type a = ''text/css; charset=utf-8'') assets"
    using assets_named [OF p(2)] m(3) unfolding p(3,4) by (simp add: contentTypeFor_def manifest_record_def)
qed

lemma parsed_preview:
  assumes "parseThemeZip up zipBytes directory pieces = Inr (t, assets)"
  shows "th_preview_path t = [] \<or> list_ex (\<lambda>a. ta_path a = th_preview_path t \<and> image_extension (extensionOf (ta_path a))) assets"
proof -
  obtain fs v m config where p: "normalizeThemeManifest v = Inr m" "tm_preview m = [] \<or> map_of fs (tm_preview m) \<noteq> None"
      "t = manifest_record m config" "assets = map asset_of (filter (\<lambda>f. fst f \<noteq> THEME_MANIFEST_PATH) fs)"
    using assms by (elim parsed_package) blast
  have t: "th_preview_path t = tm_preview m" by (simp add: p(3) manifest_record_def)
  show ?thesis
  proof (cases "tm_preview m = []")
    case False
    then have e: "image_extension (extensionOf (tm_preview m))" using manifest_shape [OF p(1)] by blast
    then have "tm_preview m \<noteq> THEME_MANIFEST_PATH" by (auto simp: manifest_extension image_extension_def)
    moreover obtain bs where "map_of fs (tm_preview m) = Some bs" using p(2) False by blast
    ultimately show ?thesis using assets_named [of fs "tm_preview m" bs] e unfolding p(4) t by (fastforce simp: list_ex_iff)
  qed (simp add: t)
qed

text \<open>
  C9. whatever archive is uploaded, a package that is accepted is safe to store and serve: at most
  32 assets of distinct names, together within 16 MB and 64 KB, each of an allowed type with its
  content type, a relative path without \<open>..\<close>, within its own size limit and encoded so that decoding
  gives exactly its bytes; the style sheet and the preview it names are among them, and its
  identifier is made of letters, digits, \<open>_\<close> and \<open>-\<close> and is not \<open>default\<close>.
\<close>

theorem theme_package_safe:
  assumes "parseThemeZip up zipBytes directory pieces = Inr (t, assets)"
  shows "list_all asset_safe assets \<and> distinct (map ta_path assets) \<and> length assets \<le> MAX_ASSETS \<and>
    sum_list (map ta_size_bytes assets) \<le> MAX_UNZIPPED_BYTES \<and>
    list_ex (\<lambda>a. ta_path a = th_style_path t \<and> ta_content_type a = ''text/css; charset=utf-8'') assets \<and>
    (th_preview_path t = [] \<or>
      list_ex (\<lambda>a. ta_path a = th_preview_path t \<and> image_extension (extensionOf (ta_path a))) assets) \<and>
    is_theme_id (th_short t) \<and> th_short t \<noteq> ''default''"
  using parsed_assets [OF assms] parsed_record [OF assms] parsed_preview [OF assms] by simp

subsection \<open>What a configuration may hold\<close>

definition config_value_ok :: "(string \<Rightarrow> url option) \<Rightarrow> theme_item \<Rightarrow> jsval \<Rightarrow> bool" where
  "config_value_ok up item v \<longleftrightarrow> (case v of
       Bool _ \<Rightarrow> ti_type item = ''switch''
     | Num (Fin q) \<Rightarrow> ti_type item \<in> set [''number'', ''range''] \<and> below (ti_min item) q \<and> above (ti_max item) q
     | Str t \<Rightarrow> ti_type item \<notin> set [''switch'', ''number'', ''range''] \<and> (ti_type item = ''color'' \<longrightarrow> is_hex_color t) \<and>
         (ti_type item = ''select'' \<longrightarrow> option_list (ti_options item) = [] \<or> t \<in> set (option_list (ti_options item))) \<and>
         (ti_type item = ''image'' \<longrightarrow> isSafeImageConfigValue up t)
     | _ \<Rightarrow> False)"

lemma validate_value_ok: "validate_value up item k v = Inr w \<Longrightarrow> config_value_ok up item w"
  by (auto simp: validate_value_def config_value_ok_def Let_def split: if_splits jsnum.splits)

definition config_entry_ok :: "(string \<Rightarrow> url option) \<Rightarrow> (string \<times> theme_item) list \<Rightarrow> string \<times> jsval \<Rightarrow> bool" where
  "config_entry_ok up items = (\<lambda>(k, v). list_ex (\<lambda>(k', item). k' = k \<and> (v = ti_default item \<or> config_value_ok up item v)) items)"

lemma validate_items_entries:
  "validate_items up input items config = Inr c \<Longrightarrow> set items \<subseteq> set all \<Longrightarrow> list_all (config_entry_ok up all) config \<Longrightarrow>
    list_all (config_entry_ok up all) c"
proof (induction items arbitrary: config)
  case (Cons ki items)
  obtain k item where ki: "ki = (k, item)" by (cases ki)
  have ok: "v = ti_default item \<or> config_value_ok up item v \<Longrightarrow> config_entry_ok up all (k, v)" for v
    using Cons(3) ki by (auto simp: config_entry_ok_def list_ex_iff)
  obtain config' where step: "validate_items up input items config' = Inr c" "list_all (config_entry_ok up all) config'"
  proof (cases "js_get input k = Undef")
    case True
    then show ?thesis using that Cons(2,4) ki list_all_update [OF Cons(4) ok] by (auto split: if_splits)
  next
    case False
    then obtain w where "validate_value up item k (js_get input k) = Inr w" "validate_items up input items (AList.update k w config) = Inr c"
      using Cons(2) ki by (auto split: sum.splits)
    then show ?thesis using that list_all_update [OF Cons(4) ok] validate_value_ok by blast
  qed
  show ?case using Cons(1) [OF step(1) _ step(2)] Cons(3) by simp
qed simp

text \<open>
  A configuration that is accepted holds only keys the manifest declares, each with its default or
  with a value of the declared type: a number within its bounds, a hexadecimal colour, one of the
  options, an image address that is an HTTPS address without credentials or a path of this site.
\<close>

lemma theme_config_conforms:
  "validate_config up m input = Inr config \<Longrightarrow> list_all (config_entry_ok up (keyed_items m)) config"
  by (auto simp: validate_config_def Let_def split: option.splits intro: validate_items_entries)

text \<open>A variable cannot leave the block it is written into: its only bracket or semicolon is its last character.\<close>

lemma css_variable_contained:
  assumes "is_theme_id k"
  shows "filter (\<lambda>c. c \<in> set '';{}'') (css_variable (k, v)) = '';''"
proof -
  define bad where "bad = (\<lambda>c. c \<in> set '';{}'')"
  have k: "filter bad k = []"
    using assms by (auto simp: is_theme_id_def list_all_iff filter_empty_conv bad_def is_AZ_def is_az_def is_digit_def cc_def)
  have trim: "filter bad (js_trim s) = []" if "filter bad s = []" for s
    using that by (auto simp: filter_empty_conv js_trim_def dest!: set_dropWhileD)
  have v: "filter bad (cssVarValue v) = []"
  proof (cases "\<exists>b. v = Bool b")
    case True
    then show ?thesis by (auto simp: cssVarValue_def bad_def)
  next
    case False
    then have "cssVarValue v = js_trim (filter (\<lambda>c. \<not> bad c) (js_String v))"
      unfolding cssVarValue_def bad_def by (cases v) (simp_all only: jsval.case, blast)
    then show ?thesis using trim by simp
  qed
  have "filter bad ''  --cf-theme-'' = []" "filter bad '': '' = []" "filter bad '';'' = '';''" by (simp_all add: bad_def)
  then show ?thesis unfolding bad_def [symmetric] css_variable_def by (simp only: prod.case filter_append k v append_Nil append_Nil2)
qed

definition sample_manifest :: jsval where
  "sample_manifest = Obj [(''name'', Str ''A''), (''short'', Str ''a''), (''style'', Str ''a.css'')]"

definition sample_manifest_bytes :: bytes where
  "sample_manifest_bytes = utf8_encode (the (JSON_stringify sample_manifest))"

definition sample_directory :: "zip_entry list" where
  "sample_directory = [\<lparr>ze_name = ''cf-monitor-theme.json'', ze_originalSize = FinI (int (length sample_manifest_bytes)), ze_compression = 0\<rparr>,
     \<lparr>ze_name = ''a.css'', ze_originalSize = FinI 3, ze_compression = 8\<rparr>]"

definition sample_pieces :: "zip_event list list" where
  "sample_pieces = [[ZipFile ''cf-monitor-theme.json'' None 0, ZipData ''cf-monitor-theme.json'' sample_manifest_bytes True],
     [ZipFile ''a.css'' (Some (FinI 3)) 8, ZipData ''a.css'' [97, 123] False], [ZipData ''a.css'' [125] True]]"

definition sample_files :: "(string \<times> bytes) list" where
  "sample_files = [(''cf-monitor-theme.json'', sample_manifest_bytes), (''a.css'', [97, 123, 125])]"

lemma sample_size: "length sample_manifest_bytes = 40"
  by code_simp

lemma sample_paths:
  "normalizeThemePath (Str ''cf-monitor-theme.json'') = Inr ''cf-monitor-theme.json''" "normalizeThemePath (Str ''a.css'') = Inr ''a.css''"
  "assertAllowedFile ''cf-monitor-theme.json'' = None" "assertAllowedFile ''a.css'' = None"
  "js_endsWith ''cf-monitor-theme.json'' ''/'' = False" "js_endsWith ''a.css'' ''/'' = False" "extensionOf ''a.css'' = ''.css''"
  by code_simp+

lemmas sample_limits = themeFileByteLimit_def THEME_MANIFEST_PATH_def MAX_ZIP_ENTRIES_def MAX_ASSETS_def MAX_UNZIPPED_BYTES_def
  MAX_IMAGE_BYTES_def MAX_MANIFEST_BYTES_def MAX_CSS_BYTES_def MAX_ZIP_BYTES_def

lemma sample_scan:
  "scan_directory sample_directory 0 [] 0 = Inr [(''cf-monitor-theme.json'', 40, 0), (''a.css'', 3, 8)]"
  by (simp add: sample_directory_def sample_size sample_paths sample_limits rat_is_int_def)

lemma sample_unzips: "unzipThemeWithLimits (Some sample_directory) sample_pieces = Inr sample_files"
  by (simp add: unzipThemeWithLimits_def sample_scan sample_pieces_def sample_files_def sample_paths sample_size sample_limits Let_def)

lemma sample_manifest_read: "JSON_parse (utf8_decode sample_manifest_bytes) = Some sample_manifest"
proof -
  have "json_clean sample_manifest" by (simp add: sample_manifest_def)
  then show ?thesis unfolding sample_manifest_bytes_def utf8_decode_encode by (rule json.dec_enc)
qed

lemma sample_package:
  "\<exists>t a. package_of_files up sample_files = Inr (t, [a]) \<and> th_short t = ''a'' \<and> ta_path a = ''a.css''"
proof -
  define m where "m = \<lparr>tm_name = ''A'', tm_short = ''a'', tm_description = [], tm_version = [], tm_author = [], tm_url = [],
    tm_preview = [], tm_style = ''a.css'', tm_data = []\<rparr>"
  have n: "normalizeThemeManifest sample_manifest = Inr m" unfolding m_def by code_simp
  have v: "validateThemeConfig up (manifest_value m) (Obj (defaultConfigForManifest m)) = Inr (Inr [])"
  proof -
    have "normalizeThemeManifest (manifest_value m) = Inr m" unfolding m_def by code_simp
    then show ?thesis by (simp add: validateThemeConfig_def validate_config_def keyed_items_def defaultConfigForManifest_def m_def map_filter_simps)
  qed
  have find: "List.find (\<lambda>f. assertAllowedFile (fst f) \<noteq> None) sample_files = None"
    by (simp add: sample_files_def sample_paths)
  have maps: "map_of sample_files THEME_MANIFEST_PATH = Some sample_manifest_bytes" "map_of sample_files (tm_style m) = Some [97, 123, 125]"
    by (simp_all add: sample_files_def THEME_MANIFEST_PATH_def m_def)
  have "package_assets sample_files = Inr [asset_of (''a.css'', [97, 123, 125])]"
    by (simp add: sample_files_def asset_of_def sample_limits sample_paths)
  then have "package_of_files up sample_files = Inr (manifest_record m [], [asset_of (''a.css'', [97, 123, 125])])"
    unfolding package_of_files_def maps option.case sample_manifest_read n bind_theme_simps find v sum.case
    by (simp add: MAX_CSS_BYTES_def m_def)
  then show ?thesis by (simp add: manifest_record_def m_def asset_of_def)
qed

theorem theme_package_safe_witness:
  "\<exists>t a. parseThemeZip (\<lambda>_. None) [] (Some sample_directory) sample_pieces = Inr (t, [a]) \<and> th_short t = ''a'' \<and>
     ta_path a = ''a.css'' \<and> asset_safe a"
proof -
  obtain t a where p: "package_of_files (\<lambda>_. None) sample_files = Inr (t, [a])" "th_short t = ''a''" "ta_path a = ''a.css''"
    using sample_package by blast
  then have z: "parseThemeZip (\<lambda>_. None) [] (Some sample_directory) sample_pieces = Inr (t, [a])"
    by (simp add: parseThemeZip_def sample_unzips)
  then show ?thesis using theme_package_safe [OF z] p(2,3) by auto
qed

end
