(* ===== verification/ThemeRoutes.thy ===== *)
theory ThemeRoutes
  imports ThemePackage LoginLimits Webhook
begin

section \<open>Theme routes\<close>

text \<open>
  \<open>routes/theme.ts\<close> with the stored procedures of the theme tables: listing, uploading, enabling,
  configuring and deleting themes, and the public style sheet, assets and manifests. A request is
  handled as one step. What the worker does not write is in the environment: the URL parser, the
  archive library, the form parser (Some the bytes of the field \<open>file\<close>), the size of a row as the
  database prints it, the storage quota and the Chinese descriptions of the built-in themes.
\<close>

subsection \<open>Tables\<close>

record theme_env =
  te_url :: "string \<Rightarrow> url option"
  te_unzip :: "bytes \<Rightarrow> zip_entry list option \<times> zip_event list list"
  te_form :: "bytes \<Rightarrow> string \<Rightarrow> bytes option option"
  te_row_bytes :: "theme_record \<Rightarrow> nat"
  te_quota :: nat
  te_description :: "string \<Rightarrow> string"

record theme_db =
  td_themes :: "(string \<times> theme_record) list"
  td_assets :: "((string \<times> string) \<times> theme_asset) list"
  td_active :: "string option"
  td_audit :: "(string \<times> string \<times> string) list"
  td_invalidations :: nat

definition getTheme :: "theme_db \<Rightarrow> string \<Rightarrow> theme_record option" where
  "getTheme d short = map_of (td_themes d) short"

definition getThemeAsset :: "theme_db \<Rightarrow> string \<Rightarrow> string \<Rightarrow> theme_asset option" where
  "getThemeAsset d short path = map_of (td_assets d) (short, path)"

definition asset_bytes :: "(string \<times> string) \<times> theme_asset \<Rightarrow> nat" where
  "asset_bytes = (\<lambda>((short, path), a). length (utf8_encode (ta_content_base64 a)) + length (utf8_encode short) +
     length (utf8_encode path) + length (utf8_encode (ta_content_type a)) + 64)"

definition theme_storage_usage :: "theme_env \<Rightarrow> theme_db \<Rightarrow> nat" where
  "theme_storage_usage env d = sum_list (map (te_row_bytes env \<circ> snd) (td_themes d)) + sum_list (map asset_bytes (td_assets d))"

text \<open>None: the transaction is rolled back with the quota error.\<close>

definition enforce_theme_storage_quota :: "theme_env \<Rightarrow> theme_db \<Rightarrow> theme_db \<Rightarrow> theme_db option" where
  "enforce_theme_storage_quota env d d' =
     (if te_quota env < theme_storage_usage env d' \<and> theme_storage_usage env d < theme_storage_usage env d' then None else Some d')"

definition upsertTheme :: "theme_env \<Rightarrow> theme_record \<Rightarrow> theme_asset list \<Rightarrow> theme_db \<Rightarrow> theme_db option" where
  "upsertTheme env t assets d =
     (let short = th_short t; row = (case getTheme d short of Some old \<Rightarrow> t\<lparr>th_custom_css := th_custom_css old\<rparr> | None \<Rightarrow> t)
      in enforce_theme_storage_quota env d (d\<lparr>td_themes := AList.update short row (td_themes d),
           td_assets := filter (\<lambda>((s, _), _). s \<noteq> short) (td_assets d) @ map (\<lambda>a. ((short, ta_path a), a)) assets\<rparr>))"

definition updateThemeSettings :: "theme_env \<Rightarrow> string \<Rightarrow> string \<Rightarrow> string \<Rightarrow> theme_db \<Rightarrow> theme_db option" where
  "updateThemeSettings env short configJson customCss d = (case getTheme d short of
       None \<Rightarrow> Some d
     | Some t \<Rightarrow> enforce_theme_storage_quota env d
         (d\<lparr>td_themes := AList.update short (t\<lparr>th_config_json := configJson, th_custom_css := customCss\<rparr>) (td_themes d)\<rparr>))"

definition deleteTheme :: "string \<Rightarrow> theme_db \<Rightarrow> theme_db \<times> bool" where
  "deleteTheme short d =
     (d\<lparr>td_themes := AList.delete short (td_themes d), td_assets := filter (\<lambda>((s, _), _). s \<noteq> short) (td_assets d)\<rparr>,
      getTheme d short \<noteq> None)"

subsection \<open>Built-in themes and aliases\<close>

definition MAX_THEME_ZIP_BYTES :: nat where "MAX_THEME_ZIP_BYTES = 2 * 1024 * 1024"
definition MAX_THEME_JSON_BYTES :: nat where "MAX_THEME_JSON_BYTES = 256 * 1024"
definition MAX_THEME_CUSTOM_CSS_BYTES :: nat where "MAX_THEME_CUSTOM_CSS_BYTES = 64 * 1024"
definition BUILTIN_STYLE_PATH :: string where "BUILTIN_STYLE_PATH = ''builtin.css''"
definition BUILTIN_THEMES :: "(string \<times> string \<times> string) list" where
  "BUILTIN_THEMES = [(''monitor'', ''Monitor'', ''/theme-previews/monitor.svg''), (''aurora'', ''Aurora'', ''/theme-previews/aurora.svg'')]"
definition LEGACY_THEME_ALIASES :: "(string \<times> string) list" where
  "LEGACY_THEME_ALIASES = [(''cf-monitor'', ''aurora''), (''next'', ''aurora'')]"

text \<open>Members every object inherits: reading one of them from the aliases gives a truthy value that is no string.\<close>

definition OBJECT_MEMBERS :: "string list" where
  "OBJECT_MEMBERS = [''constructor'', ''toString'', ''toLocaleString'', ''valueOf'', ''hasOwnProperty'', ''isPrototypeOf'',
     ''propertyIsEnumerable'', ''__proto__'', ''__defineGetter__'', ''__defineSetter__'', ''__lookupGetter__'', ''__lookupSetter__'']"

definition isBuiltinTheme :: "string \<Rightarrow> bool" where
  "isBuiltinTheme short \<longleftrightarrow> map_of BUILTIN_THEMES short \<noteq> None"

definition isReservedThemeShort :: "string \<Rightarrow> bool" where
  "isReservedThemeShort short \<longleftrightarrow> isBuiltinTheme short \<or> map_of LEGACY_THEME_ALIASES short \<noteq> None"

definition builtinThemePreviewUrl :: "string \<Rightarrow> string" where
  "builtinThemePreviewUrl short = (case map_of BUILTIN_THEMES short of Some (_, p) \<Rightarrow> p | None \<Rightarrow> [])"

text \<open>None where the result is a member of every object instead of a text.\<close>

definition normalizeActiveTheme :: "string option \<Rightarrow> string option" where
  "normalizeActiveTheme short =
     (let value = (case short of Some s \<Rightarrow> if s \<noteq> [] \<and> s \<noteq> ''default'' then s else ''monitor'' | None \<Rightarrow> ''monitor'')
      in case map_of LEGACY_THEME_ALIASES value of
          Some t \<Rightarrow> Some t
        | None \<Rightarrow> if value \<in> set OBJECT_MEMBERS then None else Some value)"

definition builtin_manifest :: "theme_env \<Rightarrow> string \<Rightarrow> string \<Rightarrow> theme_manifest" where
  "builtin_manifest env short nm = \<lparr>tm_name = nm, tm_short = short, tm_description = te_description env short, tm_version = [],
     tm_author = ''CF VPS Monitor'', tm_url = [], tm_preview = [], tm_style = BUILTIN_STYLE_PATH, tm_data = []\<rparr>"

definition builtinThemeRecord :: "theme_env \<Rightarrow> string \<Rightarrow> theme_record" where
  "builtinThemeRecord env short =
     (let nm = (case map_of BUILTIN_THEMES short of Some (n, _) \<Rightarrow> n | None \<Rightarrow> [])
      in \<lparr>th_short = short, th_name = nm, th_description = te_description env short, th_version = [], th_author = ''CF VPS Monitor'',
          th_url = [], th_preview_path = [], th_style_path = BUILTIN_STYLE_PATH,
          th_manifest_json = stringify_text (manifest_value (builtin_manifest env short nm)), th_config_json = ''{}'', th_custom_css = []\<rparr>)"

text \<open>The tables afterwards and the theme; None where the quota refuses the insertion.\<close>

definition ensureBuiltinTheme :: "theme_env \<Rightarrow> string \<Rightarrow> theme_db \<Rightarrow> (theme_db \<times> theme_record) option" where
  "ensureBuiltinTheme env short d = (case getTheme d short of
       Some t \<Rightarrow> Some (d, t)
     | None \<Rightarrow> map_option (\<lambda>d'. (d', builtinThemeRecord env short)) (upsertTheme env (builtinThemeRecord env short) [] d))"

subsection \<open>Summaries\<close>

definition jsonParseObject :: "string \<Rightarrow> jsobj" where
  "jsonParseObject v = (case JSON_parse (if v = [] then ''{}'' else v) of Some (Obj x) \<Rightarrow> x | _ \<Rightarrow> [])"

definition safeManifest :: "string \<Rightarrow> theme_manifest option" where
  "safeManifest v = (case JSON_parse v of
       Some j \<Rightarrow> (case normalizeThemeManifest j of Inr m \<Rightarrow> Some m | Inl _ \<Rightarrow> None)
     | None \<Rightarrow> None)"

record theme_summary =
  ts_theme :: theme_record
  ts_preview_url :: string
  ts_active :: bool
  ts_deletable :: bool
  ts_manifest :: "theme_manifest option"
  ts_config :: jsobj

definition themeSummary :: "theme_record \<Rightarrow> string option \<Rightarrow> theme_summary" where
  "themeSummary t active =
     (let builtin = isBuiltinTheme (th_short t)
      in \<lparr>ts_theme = t,
          ts_preview_url = (if builtin then builtinThemePreviewUrl (th_short t)
            else if th_preview_path t \<noteq> [] then ''/api/theme/assets/'' @ encodeURIComponent (th_short t) @ ''/'' @ th_preview_path t else []),
          ts_active = (active = Some (th_short t)), ts_deletable = (\<not> builtin), ts_manifest = safeManifest (th_manifest_json t),
          ts_config = jsonParseObject (th_config_json t)\<rparr>)"

definition builtinThemeSummary :: "theme_env \<Rightarrow> string \<Rightarrow> string option \<Rightarrow> theme_record option \<Rightarrow> theme_summary" where
  "builtinThemeSummary env short active stored =
     themeSummary (case stored of Some t \<Rightarrow> t | None \<Rightarrow> builtinThemeRecord env short) active"

subsection \<open>Handlers\<close>

datatype theme_reply =
    Refused nat
  | Crashed
  | ThemeList "string option" "theme_summary list"
  | Uploaded theme_summary
  | ActiveTheme string
  | SettingsSaved
  | ThemeCss string
  | AssetReply string bytes
  | ManifestReply theme_summary
  | ManifestOnly string "theme_manifest option" jsobj

definition note_change :: "string \<Rightarrow> string \<Rightarrow> string \<Rightarrow> theme_db \<Rightarrow> theme_db" where
  "note_change user action short d = d\<lparr>td_invalidations := Suc (td_invalidations d), td_audit := td_audit d @ [(user, action, short)]\<rparr>"

definition readJsonObject :: "web_request \<Rightarrow> nat + jsobj" where
  "readJsonObject r = (case readJsonWithLimit r MAX_THEME_JSON_BYTES of
       Inl BodyTooLarge \<Rightarrow> Inl 413
     | Inl InvalidJson \<Rightarrow> Inl 400
     | Inr (Obj b) \<Rightarrow> Inr b
     | Inr _ \<Rightarrow> Inl 400)"

text \<open>The theme a body names, after aliases; None for an identifier that is refused.\<close>

definition named_theme :: "jsobj \<Rightarrow> string option" where
  "named_theme b = (case normalizeActiveTheme (Some (case js_get b ''short'' of Str s \<Rightarrow> js_trim s | _ \<Rightarrow> [])) of
       Some short \<Rightarrow> if is_theme_id short then Some short else None
     | None \<Rightarrow> None)"

definition list_themes :: "theme_env \<Rightarrow> theme_db \<Rightarrow> theme_reply" where
  "list_themes env d =
     (let active = normalizeActiveTheme (td_active d)
      in ThemeList active (map (\<lambda>(short, _). builtinThemeSummary env short active (getTheme d short)) BUILTIN_THEMES @
           map (\<lambda>(_, t). themeSummary t active) (filter (\<lambda>(short, _). \<not> isReservedThemeShort short) (td_themes d))))"

text \<open>An upload over a theme of the same name keeps its style changes, and its configuration where the new manifest accepts it.\<close>

definition keep_settings :: "theme_env \<Rightarrow> theme_record \<Rightarrow> theme_record \<Rightarrow> theme_record option" where
  "keep_settings env existing t = (case JSON_parse (th_manifest_json t) of
       None \<Rightarrow> None
     | Some j \<Rightarrow> (case bind_theme (normalizeThemeManifest j)
           (\<lambda>m. validateThemeConfig (te_url env) (manifest_value m) (Obj (jsonParseObject (th_config_json existing)))) of
         Inl _ \<Rightarrow> None
       | Inr validated \<Rightarrow> Some (t\<lparr>th_config_json := stringify_text (Obj (case validated of Inr config \<Rightarrow> config
             | Inl _ \<Rightarrow> jsonParseObject (th_config_json t))), th_custom_css := th_custom_css existing\<rparr>)))"

definition store_upload :: "theme_env \<Rightarrow> string \<Rightarrow> theme_record \<Rightarrow> theme_asset list \<Rightarrow> theme_db \<Rightarrow> theme_db \<times> theme_reply" where
  "store_upload env user t assets d = (case upsertTheme env t assets d of
       None \<Rightarrow> (d, Refused 409)
     | Some d' \<Rightarrow> (note_change user ''theme_upload'' (th_short t) d',
         Uploaded (themeSummary t (Some (case td_active d of Some s \<Rightarrow> if s = [] then ''default'' else s | None \<Rightarrow> ''default'')))))"

definition upload_theme :: "theme_env \<Rightarrow> string \<Rightarrow> web_request \<Rightarrow> string \<Rightarrow> theme_db \<Rightarrow> theme_db \<times> theme_reply" where
  "upload_theme env user r contentType d = (case readRequestBytesWithLimit r (MAX_THEME_ZIP_BYTES + 4096) of
       None \<Rightarrow> (d, Refused 413)
     | Some raw \<Rightarrow> (case te_form env raw contentType of
         None \<Rightarrow> (d, Refused 400)
       | Some None \<Rightarrow> (d, Refused 400)
       | Some (Some bytes) \<Rightarrow>
           if MAX_THEME_ZIP_BYTES < length bytes then (d, Refused 413)
           else case parseThemeZip (te_url env) bytes (fst (te_unzip env bytes)) (snd (te_unzip env bytes)) of
             Inl _ \<Rightarrow> (d, Refused 400)
           | Inr (t, assets) \<Rightarrow>
               if isReservedThemeShort (th_short t) then (d, Refused 400)
               else case getTheme d (th_short t) of
                 None \<Rightarrow> store_upload env user t assets d
               | Some existing \<Rightarrow> (case keep_settings env existing t of
                   None \<Rightarrow> (d, Crashed)
                 | Some t' \<Rightarrow> store_upload env user t' assets d)))"

definition set_theme :: "string \<Rightarrow> web_request \<Rightarrow> theme_db \<Rightarrow> theme_db \<times> theme_reply" where
  "set_theme user r d = (case readJsonObject r of
       Inl status \<Rightarrow> (d, Refused status)
     | Inr b \<Rightarrow> (case named_theme b of
         None \<Rightarrow> (d, Refused 400)
       | Some short \<Rightarrow>
           if \<not> isBuiltinTheme short \<and> getTheme d short = None then (d, Refused 404)
           else (note_change user ''theme_set'' short (d\<lparr>td_active := Some short\<rparr>), ActiveTheme short)))"

definition save_settings :: "theme_env \<Rightarrow> string \<Rightarrow> string \<Rightarrow> jsval \<Rightarrow> string \<Rightarrow> theme_record \<Rightarrow> theme_db \<Rightarrow> theme_db \<times> theme_reply" where
  "save_settings env user short config customCss t d = (case JSON_parse (th_manifest_json t) of
       None \<Rightarrow> (d, Crashed)
     | Some j \<Rightarrow> (case bind_theme (normalizeThemeManifest j) (\<lambda>m. validateThemeConfig (te_url env) (manifest_value m) config) of
         Inl _ \<Rightarrow> (d, Crashed)
       | Inr (Inl _) \<Rightarrow> (d, Refused 400)
       | Inr (Inr c) \<Rightarrow> (case updateThemeSettings env short (stringify_text (Obj c)) customCss d of
           None \<Rightarrow> (d, Refused 409)
         | Some d' \<Rightarrow> (note_change user ''theme_settings'' short d', SettingsSaved))))"

definition theme_settings :: "theme_env \<Rightarrow> string \<Rightarrow> web_request \<Rightarrow> theme_db \<Rightarrow> theme_db \<times> theme_reply" where
  "theme_settings env user r d = (case readJsonObject r of
       Inl status \<Rightarrow> (d, Refused status)
     | Inr b \<Rightarrow> (case named_theme b of
         None \<Rightarrow> (d, Refused 400)
       | Some short \<Rightarrow>
           (let customCss = (case js_get b ''custom_css'' of Str s \<Rightarrow> s | _ \<Rightarrow> [])
            in if MAX_THEME_CUSTOM_CSS_BYTES < length (utf8_encode customCss) then (d, Refused 413)
               else if isBuiltinTheme short then
                 (case ensureBuiltinTheme env short d of
                    None \<Rightarrow> (d, Refused 409)
                  | Some (d', t) \<Rightarrow> save_settings env user short (js_get b ''config'') customCss t d')
               else (case getTheme d short of
                    None \<Rightarrow> (d, Refused 404)
                  | Some t \<Rightarrow> save_settings env user short (js_get b ''config'') customCss t d))))"

definition delete_theme :: "string \<Rightarrow> web_request \<Rightarrow> theme_db \<Rightarrow> theme_db \<times> theme_reply" where
  "delete_theme user r d = (case readJsonObject r of
       Inl status \<Rightarrow> (d, Refused status)
     | Inr b \<Rightarrow> (case named_theme b of
         None \<Rightarrow> (d, Refused 400)
       | Some short \<Rightarrow>
           if isBuiltinTheme short then (d, Refused 400)
           else let active = normalizeActiveTheme (td_active d); (d', deleted) = deleteTheme short d
                in if \<not> deleted then (d', Refused 404)
                   else if active = Some short
                     then (note_change user ''theme_delete'' short (d'\<lparr>td_active := Some ''monitor''\<rparr>), ActiveTheme ''monitor'')
                     else (note_change user ''theme_delete'' short d', ActiveTheme (case active of Some a \<Rightarrow> a | None \<Rightarrow> []))))"

text \<open>The public style sheet: empty text on every failure.\<close>

definition active_css :: "theme_db \<Rightarrow> string" where
  "active_css d = (case normalizeActiveTheme (td_active d) of
       None \<Rightarrow> []
     | Some active \<Rightarrow> (case getTheme d active of
         None \<Rightarrow> []
       | Some t \<Rightarrow>
           if isBuiltinTheme (th_short t) then buildThemeCss [] (jsonParseObject (th_config_json t)) (th_custom_css t)
           else (case getThemeAsset d (th_short t) (th_style_path t) of
               None \<Rightarrow> []
             | Some a \<Rightarrow> (case base64ToBytes (ta_content_base64 a) of
                 None \<Rightarrow> []
               | Some bs \<Rightarrow> buildThemeCss (utf8_decode bs) (jsonParseObject (th_config_json t)) (th_custom_css t)))))"

definition theme_asset_reply :: "theme_db \<Rightarrow> string \<Rightarrow> jsval \<Rightarrow> theme_reply" where
  "theme_asset_reply d theme rest =
     (if \<not> is_theme_id theme then Refused 404
      else case normalizeThemePath rest of
        Inl _ \<Rightarrow> Refused 404
      | Inr path \<Rightarrow> (case getThemeAsset d theme path of
          None \<Rightarrow> Refused 404
        | Some a \<Rightarrow> (case base64ToBytes (ta_content_base64 a) of None \<Rightarrow> Crashed | Some bs \<Rightarrow> AssetReply (ta_content_type a) bs)))"

definition theme_manifest_reply :: "theme_env \<Rightarrow> theme_db \<Rightarrow> string \<Rightarrow> theme_reply" where
  "theme_manifest_reply env d param = (case normalizeActiveTheme (Some param) of
       None \<Rightarrow> Refused 404
     | Some short \<Rightarrow>
         if isBuiltinTheme short then ManifestReply (builtinThemeSummary env short (Some short) (getTheme d short))
         else if \<not> is_theme_id short then Refused 404
         else (case getTheme d short of
             None \<Rightarrow> Refused 404
           | Some t \<Rightarrow> ManifestOnly (th_short t) (safeManifest (th_manifest_json t)) (jsonParseObject (th_config_json t))))"

datatype theme_request =
    ListThemes | UploadTheme web_request string | SetTheme web_request | ThemeSettings web_request | DeleteTheme web_request
  | ActiveCss | ThemeAsset string jsval | ThemeManifest string

fun theme_handler :: "theme_env \<Rightarrow> string \<Rightarrow> theme_request \<Rightarrow> theme_db \<Rightarrow> theme_db \<times> theme_reply" where
  "theme_handler env user ListThemes d = (d, list_themes env d)"
| "theme_handler env user (UploadTheme r ct) d = upload_theme env user r ct d"
| "theme_handler env user (SetTheme r) d = set_theme user r d"
| "theme_handler env user (ThemeSettings r) d = theme_settings env user r d"
| "theme_handler env user (DeleteTheme r) d = delete_theme user r d"
| "theme_handler env user ActiveCss d = (d, ThemeCss (active_css d))"
| "theme_handler env user (ThemeAsset t rest) d = (d, theme_asset_reply d t rest)"
| "theme_handler env user (ThemeManifest t) d = (d, theme_manifest_reply env d t)"

definition no_themes :: theme_db where
  "no_themes = \<lparr>td_themes = [], td_assets = [], td_active = None, td_audit = [], td_invalidations = 0\<rparr>"

fun theme_run :: "theme_env \<Rightarrow> (string \<times> theme_request) list \<Rightarrow> theme_db \<Rightarrow> theme_db" where
  "theme_run env [] d = d"
| "theme_run env ((user, q) # qs) d = theme_run env qs (fst (theme_handler env user q d))"

subsection \<open>The invariant of the tables\<close>

definition theme_row_ok :: "string \<times> theme_record \<Rightarrow> bool" where
  "theme_row_ok = (\<lambda>(s, t). s = th_short t \<and> is_theme_id s \<and> (isBuiltinTheme s \<or> \<not> isReservedThemeShort s) \<and>
     length (utf8_encode (th_custom_css t)) \<le> MAX_THEME_CUSTOM_CSS_BYTES)"

definition asset_row_ok :: "theme_db \<Rightarrow> (string \<times> string) \<times> theme_asset \<Rightarrow> bool" where
  "asset_row_ok d = (\<lambda>((s, p), a). p = ta_path a \<and> asset_safe a \<and> \<not> isBuiltinTheme s \<and> getTheme d s \<noteq> None)"

definition style_stored :: "theme_db \<Rightarrow> string \<times> theme_record \<Rightarrow> bool" where
  "style_stored d = (\<lambda>(s, t). isBuiltinTheme s \<or> getThemeAsset d s (th_style_path t) \<noteq> None)"

definition active_ok :: "theme_db \<Rightarrow> bool" where
  "active_ok d = (case td_active d of None \<Rightarrow> True | Some s \<Rightarrow> isBuiltinTheme s \<or> (getTheme d s \<noteq> None \<and> normalizeActiveTheme (Some s) = Some s))"

definition theme_db_ok :: "theme_db \<Rightarrow> bool" where
  "theme_db_ok d \<longleftrightarrow> distinct (map fst (td_themes d)) \<and> distinct (map fst (td_assets d)) \<and> list_all theme_row_ok (td_themes d) \<and>
     list_all (asset_row_ok d) (td_assets d) \<and> list_all (style_stored d) (td_themes d) \<and> active_ok d"

lemma list_all_update_ne:
  "distinct (map fst xs) \<Longrightarrow> (\<And>s u. (s, u) \<in> set xs \<Longrightarrow> s \<noteq> k \<Longrightarrow> P (s, u)) \<Longrightarrow> P (k, v) \<Longrightarrow> list_all P (AList.update k v xs)"
proof (induction xs)
  case (Cons x xs)
  show ?case
  proof (cases "fst x = k")
    case True
    have "P y" if y: "y \<in> set xs" for y
    proof -
      have "fst y \<noteq> k" using y Cons(2) True by (metis distinct.simps(2) imageI list.map(2) list.set_map)
      then show ?thesis using Cons(3) [of "fst y" "snd y"] y by simp
    qed
    then show ?thesis using True Cons(4) by (cases x) (simp add: list_all_iff)
  next
    case False
    then show ?thesis using Cons by (cases x) auto
  qed
qed simp

lemma active_ok_mono:
  "active_ok d \<Longrightarrow> td_active d' = td_active d \<Longrightarrow> (\<And>s. getTheme d s \<noteq> None \<Longrightarrow> getTheme d' s \<noteq> None) \<Longrightarrow> active_ok d'"
  unfolding active_ok_def by (cases "td_active d") auto

lemma getTheme_update: "getTheme (d\<lparr>td_themes := AList.update s t (td_themes d), td_assets := as\<rparr>) s' = (if s' = s then Some t else getTheme d s')"
  by (simp add: getTheme_def update_conv')

lemma getTheme_assets [simp]: "getTheme (d\<lparr>td_assets := as\<rparr>) s = getTheme d s"
  by (simp add: getTheme_def)

lemma map_of_kept: "map_of (filter (\<lambda>((s, _), _). s \<noteq> short) as) (s, p) = (if s = short then None else map_of as (s, p))"
  by (induction as) auto

lemma map_of_stored: "map_of (map (\<lambda>a. ((short, ta_path a), a)) as) (s, p) = None \<longleftrightarrow> s \<noteq> short \<or> p \<notin> ta_path ` set as"
  by (auto simp: map_of_eq_None_iff image_iff)

lemma getThemeAsset_upsert:
  "getThemeAsset (d\<lparr>td_themes := ts, td_assets := filter (\<lambda>((s, _), _). s \<noteq> short) (td_assets d) @ map (\<lambda>a. ((short, ta_path a), a)) as\<rparr>) s p \<noteq> None
     \<longleftrightarrow> (if s = short then p \<in> ta_path ` set as else getThemeAsset d s p \<noteq> None)"
  using map_of_stored [of short as s p] by (auto simp: getThemeAsset_def map_add_def map_of_kept split: option.splits)

lemma upsert_keys:
  assumes "distinct (map fst (td_assets d))" "distinct (map ta_path as)"
  shows "distinct (map fst (filter (\<lambda>((s, _), _). s \<noteq> short) (td_assets d) @ map (\<lambda>a. ((short, ta_path a), a)) as))"
proof -
  have "distinct (map fst (map (\<lambda>a. ((short, ta_path a), a)) as))" using assms(2) by (simp add: comp_def distinct_map inj_on_def)
  then show ?thesis using assms(1) by (auto simp: distinct_map_filter)
qed

lemma enforce_quota_Some: "enforce_theme_storage_quota env d d' = Some e \<Longrightarrow> e = d'"
  by (simp add: enforce_theme_storage_quota_def split: if_splits)

lemma upsertTheme_ok:
  assumes d: "theme_db_ok d" and row: "theme_row_ok (th_short t, t)" and as: "list_all asset_safe as" "distinct (map ta_path as)"
    and kind: "if isBuiltinTheme (th_short t) then as = [] else th_style_path t \<in> ta_path ` set as"
    and u: "upsertTheme env t as d = Some d'"
  shows "theme_db_ok d'"
proof -
  define row' where "row' = (case getTheme d (th_short t) of Some old \<Rightarrow> t\<lparr>th_custom_css := th_custom_css old\<rparr> | None \<Rightarrow> t)"
  have d': "d' = d\<lparr>td_themes := AList.update (th_short t) row' (td_themes d),
      td_assets := filter (\<lambda>((s, _), _). s \<noteq> th_short t) (td_assets d) @ map (\<lambda>a. ((th_short t, ta_path a), a)) as\<rparr>"
    using u by (auto simp: upsertTheme_def Let_def row'_def dest: enforce_quota_Some)
  have old: "theme_row_ok (th_short t, old)" if "getTheme d (th_short t) = Some old" for old
    using that d by (auto simp: getTheme_def theme_db_ok_def list_all_iff dest: map_of_SomeD)
  have r: "theme_row_ok (th_short t, row')" "th_style_path row' = th_style_path t"
  proof -
    consider "row' = t" | old where "row' = t\<lparr>th_custom_css := th_custom_css old\<rparr>" "theme_row_ok (th_short t, old)"
      using old by (cases "getTheme d (th_short t)") (auto simp: row'_def)
    then show "theme_row_ok (th_short t, row')" "th_style_path row' = th_style_path t"
      using row by (cases; simp add: theme_row_ok_def)+
  qed
  have get: "getTheme d' s = (if s = th_short t then Some row' else getTheme d s)" for s
    unfolding d' by (rule getTheme_update)
  have asset: "getThemeAsset d' s p \<noteq> None \<longleftrightarrow> (if s = th_short t then p \<in> ta_path ` set as else getThemeAsset d s p \<noteq> None)" for s p
    unfolding d' by (rule getThemeAsset_upsert)
  have "list_all (asset_row_ok d') (td_assets d')"
  proof -
    have new: "asset_row_ok d' ((th_short t, ta_path a), a)" if "a \<in> set as" for a
      using that as(1) kind by (auto simp: asset_row_ok_def get list_all_iff split: if_splits)
    have kept: "asset_row_ok d' r" if "asset_row_ok d r" for r using that by (auto simp: asset_row_ok_def get)
    have "td_assets d' = filter (\<lambda>((s, _), _). s \<noteq> th_short t) (td_assets d) @ map (\<lambda>a. ((th_short t, ta_path a), a)) as"
      unfolding d' by simp
    then show ?thesis using d new kept by (auto simp: theme_db_ok_def list_all_iff)
  qed
  moreover have "list_all (style_stored d') (AList.update (th_short t) row' (td_themes d))"
  proof (rule list_all_update_ne)
    show "distinct (map fst (td_themes d))" using d by (simp add: theme_db_ok_def)
    show "style_stored d' (th_short t, row')" using kind asset r(2) by (simp add: style_stored_def split: if_splits)
    show "style_stored d' (s, u)" if "(s, u) \<in> set (td_themes d)" "s \<noteq> th_short t" for s u
      using that d asset by (auto simp: theme_db_ok_def style_stored_def list_all_iff)
  qed
  moreover have "active_ok d'"
  proof (rule active_ok_mono [of d])
    show "active_ok d" using d by (simp add: theme_db_ok_def)
    show "td_active d' = td_active d" unfolding d' by simp
    show "getTheme d' s \<noteq> None" if "getTheme d s \<noteq> None" for s using that by (simp add: get)
  qed
  moreover have "list_all theme_row_ok (td_themes d')" using d r(1) by (auto simp: d' theme_db_ok_def intro!: list_all_update)
  ultimately show ?thesis
    using d upsert_keys [OF _ as(2), of d "th_short t"] by (auto simp: theme_db_ok_def d' distinct_update)
qed

text \<open>Changes that leave every theme its name and its style sheet.\<close>

lemma rows_same:
  assumes "td_themes d' = td_themes d" "td_assets d' = td_assets d"
  shows "getTheme d' = getTheme d" "asset_row_ok d' = asset_row_ok d" "style_stored d' = style_stored d"
proof -
  show get: "getTheme d' = getTheme d" using assms by (simp add: fun_eq_iff getTheme_def)
  have "getThemeAsset d' = getThemeAsset d" using assms by (simp add: fun_eq_iff getThemeAsset_def)
  with get show "asset_row_ok d' = asset_row_ok d" "style_stored d' = style_stored d"
    by (simp_all only: asset_row_ok_def style_stored_def)
qed

lemma theme_db_ok_same:
  "theme_db_ok d \<Longrightarrow> td_themes d' = td_themes d \<Longrightarrow> td_assets d' = td_assets d \<Longrightarrow> td_active d' = td_active d \<Longrightarrow> theme_db_ok d'"
  using rows_same [of d' d] by (cases "td_active d") (simp_all add: theme_db_ok_def active_ok_def)

lemma note_change_ok: "theme_db_ok d \<Longrightarrow> theme_db_ok (note_change user a s d)"
  by (erule theme_db_ok_same) (simp_all add: note_change_def)

lemma set_active_ok:
  assumes "theme_db_ok d" "isBuiltinTheme s \<or> getTheme d s \<noteq> None \<and> normalizeActiveTheme (Some s) = Some s"
  shows "theme_db_ok (d\<lparr>td_active := Some s\<rparr>)"
  using assms rows_same [of "d\<lparr>td_active := Some s\<rparr>" d] by (simp add: theme_db_ok_def active_ok_def)

lemma update_settings_ok:
  assumes d: "theme_db_ok d" and css: "length (utf8_encode css) \<le> MAX_THEME_CUSTOM_CSS_BYTES"
    and u: "updateThemeSettings env s cfg css d = Some d'"
  shows "theme_db_ok d'"
proof (cases "getTheme d s")
  case None
  then show ?thesis using u d by (simp add: updateThemeSettings_def)
next
  case (Some t)
  define t' where "t' = t\<lparr>th_config_json := cfg, th_custom_css := css\<rparr>"
  have d': "d' = d\<lparr>td_themes := AList.update s t' (td_themes d)\<rparr>"
    using u Some by (auto simp: updateThemeSettings_def t'_def dest: enforce_quota_Some)
  have mem: "(s, t) \<in> set (td_themes d)" using Some by (auto simp: getTheme_def dest: map_of_SomeD)
  have get: "getTheme d' x = (if x = s then Some t' else getTheme d x)" for x by (simp add: d' getTheme_def update_conv')
  have asset: "getThemeAsset d' x p = getThemeAsset d x p" for x p by (simp add: d' getThemeAsset_def)
  have "theme_row_ok (s, t')" using mem d css by (auto simp: theme_db_ok_def list_all_iff theme_row_ok_def t'_def)
  moreover have "style_stored d' (s, t')" using mem d by (auto simp: theme_db_ok_def list_all_iff style_stored_def asset t'_def)
  moreover have "list_all (style_stored d') (td_themes d)" using d by (auto simp: theme_db_ok_def list_all_iff style_stored_def asset)
  moreover have "list_all (asset_row_ok d') (td_assets d)" using d by (auto simp: theme_db_ok_def list_all_iff asset_row_ok_def get)
  moreover have "active_ok d'"
  proof (rule active_ok_mono [of d])
    show "active_ok d" using d by (simp add: theme_db_ok_def)
    show "td_active d' = td_active d" unfolding d' by simp
    show "getTheme d' x \<noteq> None" if "getTheme d x \<noteq> None" for x using that by (simp add: get)
  qed
  moreover have "td_themes d' = AList.update s t' (td_themes d)" "td_assets d' = td_assets d" unfolding d' by simp_all
  ultimately show ?thesis using d unfolding theme_db_ok_def
    by (simp add: distinct_update list_all_update)
qed

lemma delete_ok:
  assumes d: "theme_db_ok d" and act: "td_active d = Some s \<Longrightarrow> a = Some ''monitor''" "td_active d \<noteq> Some s \<Longrightarrow> a = td_active d"
  shows "theme_db_ok ((fst (deleteTheme s d))\<lparr>td_active := a\<rparr>)"
proof -
  let ?e = "(fst (deleteTheme s d))\<lparr>td_active := a\<rparr>"
  have get: "getTheme ?e x = (if x = s then None else getTheme d x)" for x
    by (simp add: deleteTheme_def getTheme_def AList.delete_conv')
  have asset: "getThemeAsset ?e x p = (if x = s then None else getThemeAsset d x p)" for x p
    by (simp add: deleteTheme_def getThemeAsset_def map_of_kept)
  have es: "td_themes ?e = filter (\<lambda>r. s \<noteq> fst r) (td_themes d)" "td_assets ?e = filter (\<lambda>((x, _), _). x \<noteq> s) (td_assets d)"
    by (simp_all add: deleteTheme_def AList.delete_eq case_prod_unfold)
  have "active_ok ?e"
  proof (cases "td_active d = Some s")
    case True
    then show ?thesis using act(1) by (simp add: active_ok_def isBuiltinTheme_def BUILTIN_THEMES_def)
  next
    case False
    then have "td_active ?e = td_active d" using act(2) by simp
    then show ?thesis using d False get unfolding theme_db_ok_def active_ok_def by (cases "td_active d") auto
  qed
  moreover have "list_all (asset_row_ok ?e) (td_assets ?e)"
    using d unfolding es by (auto simp: theme_db_ok_def list_all_iff asset_row_ok_def get)
  moreover have "list_all (style_stored ?e) (td_themes ?e)"
    using d unfolding es by (auto simp: theme_db_ok_def list_all_iff style_stored_def asset)
  ultimately show ?thesis using d unfolding theme_db_ok_def es by (auto simp: list_all_iff distinct_map_filter)
qed

lemma aliases_builtin: "map_of LEGACY_THEME_ALIASES v = Some t \<Longrightarrow> isBuiltinTheme t"
  by (auto simp: LEGACY_THEME_ALIASES_def isBuiltinTheme_def BUILTIN_THEMES_def split: if_splits)

lemma builtin_themes: "isBuiltinTheme s \<longleftrightarrow> s = ''monitor'' \<or> s = ''aurora''"
  by (auto simp: isBuiltinTheme_def BUILTIN_THEMES_def)

lemma builtin_id: "isBuiltinTheme s \<Longrightarrow> is_theme_id s"
  unfolding builtin_themes by (elim disjE; simp only:; code_simp)

lemma builtin_normal: "isBuiltinTheme s \<Longrightarrow> normalizeActiveTheme (Some s) = Some s"
  unfolding builtin_themes by (elim disjE; simp only:; code_simp)

text \<open>A name that comes out of the aliases is a built-in theme or one that is its own name.\<close>

lemma normalized_again: "normalizeActiveTheme a = Some s \<Longrightarrow> isBuiltinTheme s \<or> normalizeActiveTheme (Some s) = Some s"
proof -
  assume a: "normalizeActiveTheme a = Some s"
  define v where "v = (case a of Some s \<Rightarrow> if s \<noteq> [] \<and> s \<noteq> ''default'' then s else ''monitor'' | None \<Rightarrow> ''monitor'')"
  have v: "v \<noteq> [] \<and> v \<noteq> ''default''" by (cases a) (simp_all add: v_def)
  show ?thesis
  proof (cases "map_of LEGACY_THEME_ALIASES v")
    case (Some t)
    then show ?thesis using a aliases_builtin by (simp add: normalizeActiveTheme_def Let_def v_def [symmetric])
  next
    case None
    then have "s = v" "v \<notin> set OBJECT_MEMBERS" using a by (auto simp: normalizeActiveTheme_def Let_def v_def [symmetric] split: if_splits)
    then show ?thesis using None v by (simp add: normalizeActiveTheme_def Let_def)
  qed
qed

lemma named_theme_id: "named_theme b = Some s \<Longrightarrow> is_theme_id s \<and> (isBuiltinTheme s \<or> normalizeActiveTheme (Some s) = Some s)"
  using normalized_again by (auto simp: named_theme_def split: option.splits if_splits)

lemma set_theme_ok: "theme_db_ok d \<Longrightarrow> theme_db_ok (fst (set_theme user r d))"
  using named_theme_id by (auto simp: set_theme_def split: sum.splits option.splits intro!: note_change_ok set_active_ok)

lemma save_settings_ok:
  "theme_db_ok d \<Longrightarrow> length (utf8_encode css) \<le> MAX_THEME_CUSTOM_CSS_BYTES \<Longrightarrow> theme_db_ok (fst (save_settings env user s cfg css t d))"
  by (auto simp: save_settings_def split: option.splits sum.splits intro: note_change_ok update_settings_ok)

lemma builtin_record_ok: "isBuiltinTheme s \<Longrightarrow> theme_row_ok (s, builtinThemeRecord env s) \<and> th_short (builtinThemeRecord env s) = s"
  using builtin_id by (simp add: theme_row_ok_def builtinThemeRecord_def Let_def utf8_encode_def)

lemma ensure_builtin_ok: "theme_db_ok d \<Longrightarrow> isBuiltinTheme s \<Longrightarrow> ensureBuiltinTheme env s d = Some (d', t) \<Longrightarrow> theme_db_ok d'"
  using builtin_record_ok [of s env] upsertTheme_ok [of d "builtinThemeRecord env s" "[]" env d']
  by (auto simp: ensureBuiltinTheme_def split: option.splits)

lemma theme_settings_ok: "theme_db_ok d \<Longrightarrow> theme_db_ok (fst (theme_settings env user r d))"
  by (auto simp: theme_settings_def Let_def not_less split: sum.splits option.splits if_splits
      intro!: save_settings_ok dest: ensure_builtin_ok)

lemma delete_theme_ok:
  assumes d: "theme_db_ok d"
  shows "theme_db_ok (fst (delete_theme user r d))"
proof (cases "readJsonObject r")
  case (Inr b)
  show ?thesis
  proof (cases "named_theme b")
    case None
    then show ?thesis using d Inr by (simp add: delete_theme_def)
  next
    case (Some s)
    show ?thesis
    proof (cases "isBuiltinTheme s")
      case True
      then show ?thesis using d Inr Some by (simp add: delete_theme_def)
    next
      case False
      let ?d = "fst (deleteTheme s d)"
      have s: "normalizeActiveTheme (Some s) = Some s" using named_theme_id [OF Some] False by blast
      have same: "?d\<lparr>td_active := td_active d\<rparr> = ?d" by (simp add: deleteTheme_def)
      have "normalizeActiveTheme (td_active d) = Some s" if "td_active d = Some s" using that s by simp
      moreover have "td_active d = Some s" if n: "normalizeActiveTheme (td_active d) = Some s"
      proof (cases "td_active d")
        case None
        then show ?thesis using n False by (simp add: normalizeActiveTheme_def LEGACY_THEME_ALIASES_def OBJECT_MEMBERS_def builtin_themes)
      next
        case (Some a)
        have "isBuiltinTheme a \<or> normalizeActiveTheme (Some a) = Some a" using d Some by (auto simp: theme_db_ok_def active_ok_def)
        then show ?thesis using n Some False by (auto simp: builtin_normal)
      qed
      ultimately have act: "normalizeActiveTheme (td_active d) = Some s \<longleftrightarrow> td_active d = Some s" by blast
      have "theme_db_ok (?d\<lparr>td_active := if td_active d = Some s then Some ''monitor'' else td_active d\<rparr>)"
        by (rule delete_ok [OF d]) simp_all
      then have ok: "theme_db_ok (if td_active d = Some s then ?d\<lparr>td_active := Some ''monitor''\<rparr> else ?d)"
        using same by (simp split: if_splits)
      have gone: "theme_db_ok ?d" if "getTheme d s = None"
        using that ok d by (cases "td_active d = Some s") (auto simp: theme_db_ok_def active_ok_def False)
      show ?thesis using ok gone Inr Some False act
        by (auto simp: delete_theme_def Let_def case_prod_unfold deleteTheme_def intro!: note_change_ok split: if_splits)
    qed
  qed
qed (use d in \<open>simp add: delete_theme_def\<close>)

lemma keep_settings_record:
  "keep_settings env existing t = Some t' \<Longrightarrow>
     th_short t' = th_short t \<and> th_style_path t' = th_style_path t \<and> th_custom_css t' = th_custom_css existing"
  by (auto simp: keep_settings_def split: option.splits sum.splits)

lemma store_upload_ok:
  assumes "theme_db_ok d" "theme_row_ok (th_short t, t)" "list_all asset_safe as" "distinct (map ta_path as)" "\<not> isBuiltinTheme (th_short t)"
    "th_style_path t \<in> ta_path ` set as"
  shows "theme_db_ok (fst (store_upload env user t as d))"
  using assms upsertTheme_ok [OF assms(1-4)] by (auto simp: store_upload_def split: option.splits intro!: note_change_ok)

lemma upload_theme_ok:
  assumes d: "theme_db_ok d"
  shows "theme_db_ok (fst (upload_theme env user r ct d))"
proof -
  have store: "theme_db_ok (fst (store_upload env user t' as d))"
    if p: "parseThemeZip up bs dir ps = Inr (t, as)" "\<not> isReservedThemeShort (th_short t)"
      and t': "th_short t' = th_short t" "th_style_path t' = th_style_path t" "length (utf8_encode (th_custom_css t')) \<le> MAX_THEME_CUSTOM_CSS_BYTES"
    for up bs dir ps t as t'
  proof (rule store_upload_ok [OF d])
    show "theme_row_ok (th_short t', t')" using p(2) t' parsed_record(1) [OF p(1)] by (simp add: theme_row_ok_def)
    show "list_all asset_safe as" "distinct (map ta_path as)" using parsed_assets [OF p(1)] by blast+
    show "\<not> isBuiltinTheme (th_short t')" using p(2) t'(1) by (simp add: isReservedThemeShort_def)
    show "th_style_path t' \<in> ta_path ` set as" using parsed_record(4) [OF p(1)] t'(2) by (auto simp: list_ex_iff) (metis image_eqI)
  qed
  have fresh: "length (utf8_encode (th_custom_css t)) \<le> MAX_THEME_CUSTOM_CSS_BYTES" if "parseThemeZip up bs dir ps = Inr (t, as)" for up bs dir ps t as
    using parsed_record(3) [OF that] by (simp add: utf8_encode_def)
  have old: "length (utf8_encode (th_custom_css e)) \<le> MAX_THEME_CUSTOM_CSS_BYTES" if "getTheme d s = Some e" for s e
    using that d by (auto simp: getTheme_def theme_db_ok_def theme_row_ok_def list_all_iff dest!: map_of_SomeD)
  have kept: "length (utf8_encode (th_custom_css t')) \<le> MAX_THEME_CUSTOM_CSS_BYTES"
    if "getTheme d s = Some e" "keep_settings env e t = Some t'" for s e t t'
    using old [OF that(1)] keep_settings_record [OF that(2)] by simp
  show ?thesis using d
    by (auto simp: upload_theme_def split: option.splits sum.splits dest: keep_settings_record
        intro!: store intro: fresh kept)
qed

lemma theme_handler_ok: "theme_db_ok d \<Longrightarrow> theme_db_ok (fst (theme_handler env user q d))"
  by (cases q) (simp_all add: upload_theme_ok set_theme_ok theme_settings_ok delete_theme_ok)

lemma no_themes_ok: "theme_db_ok no_themes"
  by (simp add: theme_db_ok_def no_themes_def active_ok_def)

lemma theme_run_ok: "theme_db_ok d \<Longrightarrow> theme_db_ok (theme_run env qs d)"
  by (induction env qs d rule: theme_run.induct) (simp_all add: theme_handler_ok)

definition style_served :: "theme_db \<Rightarrow> string \<Rightarrow> bool" where
  "style_served d s \<longleftrightarrow> (\<exists>t a bs. getTheme d s = Some t \<and> getThemeAsset d s (th_style_path t) = Some a \<and>
     base64ToBytes (ta_content_base64 a) = Some bs \<and> length bs = ta_size_bytes a \<and>
     active_css d = buildThemeCss (utf8_decode bs) (jsonParseObject (th_config_json t)) (th_custom_css t) \<and>
     take MAX_CUSTOM_CSS_BYTES (th_custom_css t) = th_custom_css t)"

lemma utf8_longer: "length s \<le> length (utf8_encode s)"
  by (induction s) (auto simp: utf8_encode_def utf8_char_def)

lemma active_style_served:
  assumes d: "theme_db_ok d" and a: "td_active d = Some s" "\<not> isBuiltinTheme s"
  shows "style_served d s"
proof -
  obtain t where t: "getTheme d s = Some t" and n: "normalizeActiveTheme (Some s) = Some s"
    using d a by (auto simp: theme_db_ok_def active_ok_def)
  have mem: "(s, t) \<in> set (td_themes d)" using t by (auto simp: getTheme_def dest: map_of_SomeD)
  then have row: "s = th_short t" "length (utf8_encode (th_custom_css t)) \<le> MAX_THEME_CUSTOM_CSS_BYTES"
    using d by (auto simp: theme_db_ok_def theme_row_ok_def list_all_iff)
  obtain as where as: "getThemeAsset d s (th_style_path t) = Some as"
    using mem d a(2) by (auto simp: theme_db_ok_def style_stored_def list_all_iff)
  then have "asset_row_ok d ((s, th_style_path t), as)"
    using d by (auto simp: getThemeAsset_def theme_db_ok_def list_all_iff dest: map_of_SomeD)
  then obtain bs where bs: "base64ToBytes (ta_content_base64 as) = Some bs" "length bs = ta_size_bytes as"
    by (auto simp: asset_row_ok_def asset_safe_def)
  have "length (th_custom_css t) \<le> MAX_CUSTOM_CSS_BYTES"
    using row(2) utf8_longer [of "th_custom_css t"] by (simp add: MAX_THEME_CUSTOM_CSS_BYTES_def MAX_CUSTOM_CSS_BYTES_def)
  moreover have "active_css d = buildThemeCss (utf8_decode bs) (jsonParseObject (th_config_json t)) (th_custom_css t)"
    using a t n row(1) as bs by (simp add: active_css_def)
  ultimately show ?thesis using t as bs unfolding style_served_def by auto
qed

text \<open>
  C8. whatever requests arrive in whatever order, the theme tables stay consistent: no two themes
  or assets share a key, no uploaded theme takes the name of a built-in or retired one, every asset
  belongs to an uploaded theme and is one a package may hold, every uploaded theme has its style
  sheet, and the active theme is built in or stored. If it is an uploaded one, the public style
  sheet is built from the exact bytes of its file, with its configuration and all of its own CSS.
\<close>

theorem theme_store_sound:
  "let d = theme_run env reqs no_themes
   in theme_db_ok d \<and> (case td_active d of None \<Rightarrow> True | Some s \<Rightarrow> isBuiltinTheme s \<or> style_served d s)"
  using theme_run_ok [OF no_themes_ok, of env reqs] active_style_served
  by (auto simp: Let_def split: option.splits)

text \<open>
  A name every object inherits, such as \<open>constructor\<close>, is not reserved and can be uploaded, but the
  lookup of aliases then yields no text: the stored theme can be neither enabled, configured nor deleted.
\<close>

lemma inherited_name_stuck:
  assumes "js_get b ''short'' = Str ''constructor''" "readJsonObject r = Inr b"
  shows "is_theme_id ''constructor'' \<and> \<not> isReservedThemeShort ''constructor'' \<and> set_theme user r d = (d, Refused 400) \<and>
    theme_settings env user r d = (d, Refused 400) \<and> delete_theme user r d = (d, Refused 400)"
proof -
  have "normalizeActiveTheme (Some (js_trim ''constructor'')) = None" by code_simp
  then have n: "named_theme b = None" using assms(1) by (simp add: named_theme_def)
  have "is_theme_id ''constructor'' \<and> \<not> isReservedThemeShort ''constructor''" by code_simp
  then show ?thesis using n assms(2) by (simp add: set_theme_def theme_settings_def delete_theme_def)
qed

end
