(* ===== verification/Backup.thy ===== *)
theory Backup
  imports SettingsSchema WebsiteMonitor
begin

section \<open>Configuration backups\<close>

text \<open>
  \<open>utils/backup.ts\<close>: checking an exported configuration field by field, sealing it under a password
  and opening it again. An error is the path of the field and what is wrong with it. The checks
  return their result with the errors they add, in order. An absent property and one that is
  \<open>undefined\<close> are the same to every reader of a backup, so the checked objects leave it out. Key
  derivation and encryption are parameters.
\<close>

subsection \<open>Fields\<close>

definition BACKUP_SCHEMA_ID :: string where "BACKUP_SCHEMA_ID = ''cf-monitor.backup''"
definition ENCRYPTED_BACKUP_SCHEMA_ID :: string where "ENCRYPTED_BACKUP_SCHEMA_ID = ''cf-monitor.encrypted-backup''"
definition BACKUP_VERSION :: string where "BACKUP_VERSION = ''2.0.0''"
definition BACKUP_SCOPE :: string where "BACKUP_SCOPE = ''configuration''"
definition BACKUP_SENSITIVE_WARNING :: string where
  "BACKUP_SENSITIVE_WARNING = ''This backup may contain client tokens, AutoDiscovery Key, Telegram credentials, and other configuration secrets. Store it securely.''"
definition BACKUP_ENCRYPTION_ALGORITHM :: string where "BACKUP_ENCRYPTION_ALGORITHM = ''AES-GCM''"
definition BACKUP_KDF :: string where "BACKUP_KDF = ''PBKDF2-SHA256''"
definition BACKUP_KDF_ITERATIONS :: int where "BACKUP_KDF_ITERATIONS = 100000"
definition BACKUP_SALT_BYTES :: nat where "BACKUP_SALT_BYTES = 16"
definition BACKUP_IV_BYTES :: nat where "BACKUP_IV_BYTES = 12"
definition MIN_BACKUP_DECRYPT_PASSWORD_BYTES :: nat where "MIN_BACKUP_DECRYPT_PASSWORD_BYTES = 6"
definition MIN_BACKUP_ENCRYPT_PASSWORD_BYTES :: nat where "MIN_BACKUP_ENCRYPT_PASSWORD_BYTES = 6"
definition MAX_BACKUP_PASSWORD_BYTES :: nat where "MAX_BACKUP_PASSWORD_BYTES = 1024"
definition BACKUP_EXCLUDED_MODULES :: "string list" where
  "BACKUP_EXCLUDED_MODULES = [''users'', ''records'', ''gpu_records'', ''gpu_snapshots'', ''ping_records'', ''ping_snapshots'', ''website_checks'',
     ''website_monitor_health'', ''themes'', ''theme_assets'', ''audit_logs'']"
definition MAX_CLIENTS :: nat where "MAX_CLIENTS = 1000"
definition MAX_PING_TASKS :: nat where "MAX_PING_TASKS = 1000"
definition MAX_WEBSITE_MONITORS :: nat where "MAX_WEBSITE_MONITORS = 1000"
definition MAX_NOTIFICATIONS :: nat where "MAX_NOTIFICATIONS = 5000"

datatype backup_issue =
    Missing | NotText | TooLong nat | Blank | OutOfBounds | NotInteger | NotArray | TooMany nat | NotObject
  | Duplicate string | NotAllowed | UnknownNode string | Unsupported string | PingIssue task_error | WebsiteIssue website_error
  | SettingIssue setting_error | NoModule

type_synonym backup_error = "string \<times> backup_issue"
type_synonym 'a checked = "'a \<times> backup_error list"

fun toText :: "jsval \<Rightarrow> string option" where
  "toText (Str s) = Some s"
| "toText (Num x) = (if js_isFinite x then Some (num_to_str x) else None)"
| "toText (Bool b) = Some (if b then ''true'' else ''false'')"
| "toText _ = None"

definition textField :: "jsval \<Rightarrow> string \<Rightarrow> bool \<Rightarrow> nat \<Rightarrow> string option checked" where
  "textField v field required maxLen =
     (if v = Undef \<or> v = Null then (None, if required then [(field, Missing)] else [])
      else case toText v of
          None \<Rightarrow> (None, [(field, NotText)])
        | Some t \<Rightarrow>
            if maxLen < length t then (None, [(field, TooLong maxLen)])
            else if required \<and> js_trim t = [] then (None, [(field, Blank)])
            else (Some t, []))"

definition bk_numberField :: "jsval \<Rightarrow> string \<Rightarrow> rat \<Rightarrow> rat \<Rightarrow> rat \<Rightarrow> rat checked" where
  "bk_numberField v field fallback lo hi =
     (if v = Undef \<or> v = Null \<or> v = Str [] then (fallback, [])
      else case (case v of Num x \<Rightarrow> x | _ \<Rightarrow> str_to_num (js_trim (js_String v))) of
          Fin q \<Rightarrow> if q < lo \<or> hi < q then (fallback, [(field, OutOfBounds)]) else (q, [])
        | _ \<Rightarrow> (fallback, [(field, OutOfBounds)]))"

definition integerField :: "jsval \<Rightarrow> string \<Rightarrow> rat \<Rightarrow> rat \<Rightarrow> rat \<Rightarrow> rat checked" where
  "integerField v field fallback lo hi =
     (let (q, es) = bk_numberField v field fallback lo hi
      in if \<not> rat_is_int q then (fallback, es @ [(field, NotInteger)]) else (q, es))"

definition bk_booleanField :: "jsval \<Rightarrow> bool" where
  "bk_booleanField v = (case v of
       Bool b \<Rightarrow> b
     | Num x \<Rightarrow> x \<noteq> Fin 0
     | Str s \<Rightarrow> (let n = js_toLowerCase (js_trim s) in n = ''true'' \<or> n = ''1'')
     | _ \<Rightarrow> False)"

definition stringArrayField :: "jsval \<Rightarrow> string \<Rightarrow> nat \<Rightarrow> string list checked" where
  "stringArrayField v field maxItems =
     (case (case v of Str s \<Rightarrow> (case JSON_parse s of Some x \<Rightarrow> x | None \<Rightarrow> Bool False) | _ \<Rightarrow> v) of
        Undef \<Rightarrow> ([], [])
      | Null \<Rightarrow> ([], [])
      | Arr items \<Rightarrow>
          (let texts = map (\<lambda>item. textField item field False 128) (take maxItems items)
           in (filter (\<lambda>t. js_trim t \<noteq> []) (List.map_filter fst texts),
               (if maxItems < length items then [(field, TooMany maxItems)] else []) @ concat (map snd texts)))
      | _ \<Rightarrow> ([], [(field, NotArray)]))"

definition optionalTimeField :: "jsval \<Rightarrow> string \<Rightarrow> jsval checked" where
  "optionalTimeField v field =
     (if v = Undef \<or> v = Null \<or> v = Str [] then (Null, [])
      else let (t, es) = textField v field False 64 in (case t of Some s \<Rightarrow> Str s | None \<Rightarrow> Null, es))"

definition requireArray :: "jsobj \<Rightarrow> string \<Rightarrow> nat \<Rightarrow> jsval list option checked" where
  "requireArray b key maxItems = (case js_get b key of
       Undef \<Rightarrow> (None, [])
     | Arr items \<Rightarrow> (Some (take maxItems items), if maxItems < length items then [(key, TooMany maxItems)] else [])
     | _ \<Rightarrow> (None, [(key, NotArray)]))"

definition item_path :: "string \<Rightarrow> nat \<Rightarrow> string" where
  "item_path part i = part @ ''['' @ nat_to_str i @ '']''"

definition field_path :: "string \<Rightarrow> nat \<Rightarrow> string \<Rightarrow> string" where
  "field_path part i f = item_path part i @ ''.'' @ f"

text \<open>\<open>items.flatMap\<close> with the position of the item and what earlier items left behind.\<close>

fun check_each :: "('s \<Rightarrow> nat \<Rightarrow> jsobj \<Rightarrow> jsobj option checked \<times> 's) \<Rightarrow> string \<Rightarrow> 's \<Rightarrow> nat \<Rightarrow> jsval list \<Rightarrow> jsobj list checked" where
  "check_each f part s i [] = ([], [])"
| "check_each f part s i (v # vs) = (case v of
       Obj item \<Rightarrow>
         (let ((r, es), s') = f s i item; (rs, es') = check_each f part s' (Suc i) vs
          in (case r of Some x \<Rightarrow> x # rs | None \<Rightarrow> rs, es @ es'))
     | _ \<Rightarrow> (let (rs, es') = check_each f part s (Suc i) vs in (rs, (item_path part i, NotObject) # es')))"

subsection \<open>Clients\<close>

definition CLIENT_STRINGS :: "string list" where
  "CLIENT_STRINGS = [''uuid'', ''token'', ''token_hash'', ''name'', ''cpu_name'', ''virtualization'', ''arch'', ''os'', ''kernel_version'',
     ''gpu_name'', ''ipv4'', ''ipv6'', ''region'', ''remark'', ''public_remark'', ''version'', ''currency'', ''expired_at'', ''group'', ''tags'',
     ''traffic_limit_type'', ''token_last_used_at'', ''token_last_used_ip'', ''token_rotated_at'', ''created_at'', ''updated_at'']"
definition CLIENT_NUMBERS :: "string list" where
  "CLIENT_NUMBERS = [''cpu_cores'', ''mem_total'', ''swap_total'', ''disk_total'', ''price'', ''billing_cycle'', ''traffic_limit'', ''sort_order'']"
definition CLIENT_BOOLEANS :: "string list" where
  "CLIENT_BOOLEANS = [''auto_renewal'', ''hidden'']"

definition max_safe :: rat where "max_safe = of_int MAX_SAFE_INTEGER"

definition client_string :: "nat \<Rightarrow> jsobj \<Rightarrow> string \<Rightarrow> string option checked" where
  "client_string i item f =
     textField (js_get item f) (field_path ''clients'' i f) (f = ''uuid'') (if f = ''token'' \<or> f = ''token_hash'' then 256 else 512)"

definition client_number :: "nat \<Rightarrow> jsobj \<Rightarrow> string \<Rightarrow> rat checked" where
  "client_number i item f =
     bk_numberField (js_get item f) (field_path ''clients'' i f) 0 (if f = ''billing_cycle'' \<or> f = ''price'' then -1 else 0) max_safe"

definition client_reset_day :: "nat \<Rightarrow> jsobj \<Rightarrow> rat checked" where
  "client_reset_day i item = bk_numberField (js_get item ''traffic_reset_day'') (field_path ''clients'' i ''traffic_reset_day'') 1 1 31"

definition client_object :: "nat \<Rightarrow> jsobj \<Rightarrow> jsobj" where
  "client_object i item =
     List.map_filter (\<lambda>f. map_option (\<lambda>t. (f, Str t)) (fst (client_string i item f))) CLIENT_STRINGS @
     map (\<lambda>f. (f, Num (Fin (fst (client_number i item f))))) CLIENT_NUMBERS @
     map (\<lambda>f. (f, Bool (bk_booleanField (js_get item f)))) CLIENT_BOOLEANS @
     [(''traffic_reset_day'', Num (Fin (fst (client_reset_day i item))))]"

definition client_errors :: "nat \<Rightarrow> jsobj \<Rightarrow> backup_error list" where
  "client_errors i item = concat (map (\<lambda>f. snd (client_string i item f)) CLIENT_STRINGS) @
     concat (map (\<lambda>f. snd (client_number i item f)) CLIENT_NUMBERS) @ snd (client_reset_day i item)"

text \<open>\<open>String(client[field] || '')\<close>.\<close>

definition text_or_empty :: "jsobj \<Rightarrow> string \<Rightarrow> string" where
  "text_or_empty c f = js_String (js_or (js_get c f) (Str []))"

record client_keys =
  ck_uuids :: "string list"
  ck_tokens :: "string list"
  ck_hashes :: "string list"

definition repeated :: "string \<Rightarrow> string \<Rightarrow> string list \<Rightarrow> backup_error list" where
  "repeated label t seen = (if t \<noteq> [] \<and> t \<in> set seen then [(label, Duplicate t)] else [])"

definition remember :: "string \<Rightarrow> string list \<Rightarrow> string list" where
  "remember t seen = (if t = [] then seen else t # seen)"

definition validate_client :: "client_keys \<Rightarrow> nat \<Rightarrow> jsobj \<Rightarrow> jsobj option checked \<times> client_keys" where
  "validate_client keys i item =
     (let c = client_object i item; uuid = text_or_empty c ''uuid''; token = text_or_empty c ''token''; tokenHash = text_or_empty c ''token_hash''
      in ((Some c, client_errors i item @ repeated ''clients uuid'' uuid (ck_uuids keys) @ repeated ''clients token'' token (ck_tokens keys) @
             repeated ''clients token_hash'' tokenHash (ck_hashes keys)),
          \<lparr>ck_uuids = remember uuid (ck_uuids keys), ck_tokens = remember token (ck_tokens keys), ck_hashes = remember tokenHash (ck_hashes keys)\<rparr>))"

definition validateClients :: "jsval list \<Rightarrow> jsobj list checked" where
  "validateClients items = check_each validate_client ''clients'' \<lparr>ck_uuids = [], ck_tokens = [], ck_hashes = []\<rparr> 0 items"

subsection \<open>Ping tasks and website monitors\<close>

definition or_text :: "string option \<Rightarrow> string \<Rightarrow> string" where
  "or_text t d = (case t of Some s \<Rightarrow> if s = [] then d else s | None \<Rightarrow> d)"

definition optional_id :: "string \<Rightarrow> nat \<Rightarrow> jsobj \<Rightarrow> rat option checked" where
  "optional_id part i item = (if js_get item ''id'' = Undef then (None, [])
     else let (q, es) = integerField (js_get item ''id'') (field_path part i ''id'') 0 1 max_safe in (Some q, es))"

definition id_prop :: "rat option \<Rightarrow> jsobj" where
  "id_prop q = (case q of Some x \<Rightarrow> [(''id'', Num (Fin x))] | None \<Rightarrow> [])"

definition task_type_text :: "ping_type \<Rightarrow> string" where
  "task_type_text t = (case t of Icmp \<Rightarrow> ''icmp'' | Tcp \<Rightarrow> ''tcp'' | Http \<Rightarrow> ''http'')"

definition task_object :: "ping_task \<Rightarrow> jsobj" where
  "task_object t = [(''name'', Str (pt_name t)), (''clients'', Arr (map Str (pt_clients t))), (''all_clients'', Bool (pt_all_clients t)),
     (''type'', Str (task_type_text (pt_type t))), (''target'', Str (pt_target t)), (''interval_sec'', Num (FinI (pt_interval_sec t)))]"

definition task_candidate :: "nat \<Rightarrow> jsobj \<Rightarrow> jsobj checked" where
  "task_candidate i item =
     (let p = field_path ''ping_tasks'' i;
          (nm, e1) = textField (js_get item ''name'') (p ''name'') False 128;
          (cs, e2) = stringArrayField (js_get item ''clients'') (p ''clients'') MAX_CLIENTS;
          (ty, e3) = textField (js_get item ''type'') (p ''type'') False 16;
          (tg, e4) = textField (js_get item ''target'') (p ''target'') False 512;
          (iv, e5) = integerField (js_nullish (js_get item ''interval_sec'') (js_get item ''interval'')) (p ''interval_sec'') 60 60 86400;
          (so, e6) = integerField (js_get item ''sort_order'') (p ''sort_order'') (of_nat (Suc i)) 1 max_safe
      in ([(''name'', Str (or_text nm [])), (''clients'', Arr (map Str cs)), (''all_clients'', Bool (bk_booleanField (js_get item ''all_clients''))),
           (''type'', Str (or_text ty ''icmp'')), (''target'', Str (or_text tg [])), (''interval_sec'', Num (Fin iv)), (''sort_order'', Num (Fin so))],
          e1 @ e2 @ e3 @ e4 @ e5 @ e6))"

definition validate_task :: "(string \<Rightarrow> url option) \<Rightarrow> nat \<Rightarrow> jsobj \<Rightarrow> jsobj option checked" where
  "validate_task up i item =
     (let (ident, e0) = optional_id ''ping_tasks'' i item; (candidate, e1) = task_candidate i item
      in case validatePingTaskInput up (Obj candidate) None of
          Inl es \<Rightarrow> (None, e0 @ e1 @ map (\<lambda>e. (item_path ''ping_tasks'' i, PingIssue e)) es)
        | Inr task \<Rightarrow> (Some (id_prop ident @ task_object task @ [(''sort_order'', js_get candidate ''sort_order'')]), e0 @ e1))"

definition stateless :: "(nat \<Rightarrow> jsobj \<Rightarrow> jsobj option checked) \<Rightarrow> unit \<Rightarrow> nat \<Rightarrow> jsobj \<Rightarrow> jsobj option checked \<times> unit" where
  "stateless f s i item = (f i item, s)"

definition validatePingTasks :: "(string \<Rightarrow> url option) \<Rightarrow> jsval list \<Rightarrow> jsobj list checked" where
  "validatePingTasks up items = check_each (stateless (validate_task up)) ''ping_tasks'' () 0 items"

definition web_method_text :: "web_method \<Rightarrow> string" where
  "web_method_text m = (case m of GET \<Rightarrow> ''GET'' | HEAD \<Rightarrow> ''HEAD'' | TCP \<Rightarrow> ''TCP'')"

definition probe_mode_text :: "probe_mode \<Rightarrow> string" where
  "probe_mode_text m = (case m of ProbeOff \<Rightarrow> ''off'' | ProbeSelected \<Rightarrow> ''selected'' | ProbeCountryAuto \<Rightarrow> ''country_auto'')"

definition website_object :: "website_input \<Rightarrow> jsobj" where
  "website_object w = [(''name'', Str (wi_name w)), (''url'', Str (wi_url w)), (''method'', Str (web_method_text (wi_method w))),
     (''expected_status_min'', Num (FinI (expected_status_min w))), (''expected_status_max'', Num (FinI (expected_status_max w))),
     (''interval_sec'', Num (FinI (interval_sec w))), (''timeout_sec'', Num (FinI (timeout_sec w))),
     (''grace_period_sec'', Num (FinI (grace_period_sec w))), (''enabled'', Bool (wi_enabled w)), (''hidden'', Bool (wi_hidden w)),
     (''hide_url'', Bool (hide_url w)), (''agent_probe_mode'', Str (probe_mode_text (agent_probe_mode w))),
     (''agent_probe_clients'', Arr (map Str (agent_probe_clients w))), (''agent_probe_limit'', Num (FinI (agent_probe_limit w))),
     (''agent_probe_status_enabled'', Bool (agent_probe_status_enabled w))]"

definition probe_mode_errors :: "nat \<Rightarrow> jsobj \<Rightarrow> backup_error list" where
  "probe_mode_errors i item = (if js_get item ''agent_probe_mode'' \<noteq> Undef \<and>
     js_String (js_get item ''agent_probe_mode'') \<notin> set [''off'', ''selected'', ''country_auto'']
     then [(field_path ''website_monitors'' i ''agent_probe_mode'', NotAllowed)] else [])"

definition unknown_agents :: "nat \<Rightarrow> jsval list option \<Rightarrow> string list \<Rightarrow> backup_error list" where
  "unknown_agents i clientIds agents = (case clientIds of
       None \<Rightarrow> []
     | Some ids \<Rightarrow> map (\<lambda>a. (field_path ''website_monitors'' i ''agent_probe_clients'', UnknownNode a)) (filter (\<lambda>a. Str a \<notin> set ids) agents))"

definition validate_website ::
  "(string \<Rightarrow> url option) \<Rightarrow> jsval list option \<Rightarrow> rat list \<Rightarrow> nat \<Rightarrow> jsobj \<Rightarrow> jsobj option checked \<times> rat list" where
  "validate_website up clientIds ids i item =
     (let (ident, e0) = optional_id ''website_monitors'' i item;
          e1 = (case ident of Some x \<Rightarrow> if x \<in> set ids then [(field_path ''website_monitors'' i ''id'', Duplicate (num_to_str (Fin x)))] else [] | None \<Rightarrow> []);
          ids' = (case ident of Some x \<Rightarrow> x # ids | None \<Rightarrow> ids);
          e2 = probe_mode_errors i item;
          (agents, e3) = stringArrayField (js_get item ''agent_probe_clients'') (field_path ''website_monitors'' i ''agent_probe_clients'') 100;
          e4 = unknown_agents i clientIds agents
      in case validateWebsiteMonitorInput up (AList.update ''agent_probe_clients'' (Arr (map Str agents)) item) of
          Inl e \<Rightarrow> ((None, e0 @ e1 @ e2 @ e3 @ e4 @ [(item_path ''website_monitors'' i, WebsiteIssue e)]), ids')
        | Inr w \<Rightarrow>
            (let (so, e5) = integerField (js_get item ''sort_order'') (field_path ''website_monitors'' i ''sort_order'') (of_nat (Suc i)) 0 2147483647
             in ((Some (id_prop ident @ website_object w @ [(''sort_order'', Num (Fin so))]), e0 @ e1 @ e2 @ e3 @ e4 @ e5), ids')))"

definition validateWebsiteMonitors :: "(string \<Rightarrow> url option) \<Rightarrow> jsval list \<Rightarrow> jsobj list option \<Rightarrow> jsobj list checked" where
  "validateWebsiteMonitors up items cs =
     check_each (validate_website up (map_option (map (\<lambda>c. js_get c ''uuid'')) cs)) ''website_monitors'' [] 0 items"

subsection \<open>Notifications\<close>

definition validate_offline :: "nat \<Rightarrow> jsobj \<Rightarrow> jsobj option checked" where
  "validate_offline i item =
     (let p = field_path ''offline_notifications'' i;
          (c, e1) = textField (js_get item ''client'') (p ''client'') True 128;
          (g, e2) = integerField (js_get item ''grace_period'') (p ''grace_period'') 180 30 86400;
          (t, e3) = optionalTimeField (js_get item ''last_notified'') (p ''last_notified'')
      in (Some [(''client'', Str (or_text c [])), (''enable'', Bool (bk_booleanField (js_get item ''enable''))), (''grace_period'', Num (Fin g)),
            (''last_notified'', t)], e1 @ e2 @ e3))"

definition validate_expiry :: "nat \<Rightarrow> jsobj \<Rightarrow> jsobj option checked" where
  "validate_expiry i item =
     (let p = field_path ''expiry_notifications'' i;
          (c, e1) = textField (js_get item ''client'') (p ''client'') True 128;
          (a, e2) = integerField (js_get item ''advance_days'') (p ''advance_days'') 7 1 365;
          (t, e3) = optionalTimeField (js_get item ''last_notified'') (p ''last_notified'')
      in (Some [(''client'', Str (or_text c [])), (''enable'', Bool (bk_booleanField (js_get item ''enable''))), (''advance_days'', Num (Fin a)),
            (''last_notified'', t)], e1 @ e2 @ e3))"

definition LOAD_METRICS :: "string list" where "LOAD_METRICS = [''cpu'', ''ram'', ''load'', ''disk'', ''temp'']"

definition validate_load :: "nat \<Rightarrow> jsobj \<Rightarrow> jsobj option checked" where
  "validate_load i item =
     (let p = field_path ''load_notifications'' i;
          (m, e1) = textField (js_get item ''metric'') (p ''metric'') False 16;
          metric = or_text m ''cpu'';
          normalized = (if metric \<in> set LOAD_METRICS then metric else ''cpu'');
          e2 = (if normalized \<noteq> metric then [(p ''metric'', NotAllowed)] else []);
          (ident, e3) = optional_id ''load_notifications'' i item;
          (nm, e4) = textField (js_get item ''name'') (p ''name'') False 128;
          (cs, e5) = stringArrayField (js_get item ''clients'') (p ''clients'') MAX_CLIENTS;
          (th, e6) = bk_numberField (js_get item ''threshold'') (p ''threshold'') 80 0 100000;
          (ra, e7) = bk_numberField (js_get item ''ratio'') (p ''ratio'') (4 / 5) 0 1;
          (iv, e8) = integerField (js_get item ''interval_min'') (p ''interval_min'') 15 1 10080;
          (t, e9) = optionalTimeField (js_get item ''last_notified'') (p ''last_notified'')
      in (Some (id_prop ident @ [(''name'', Str (or_text nm [])), (''clients'', Arr (map Str cs)), (''metric'', Str normalized),
            (''threshold'', Num (Fin th)), (''ratio'', Num (Fin ra)), (''interval_min'', Num (Fin iv)), (''last_notified'', t)]),
          e1 @ e2 @ e3 @ e4 @ e5 @ e6 @ e7 @ e8 @ e9))"

definition validateOfflineNotifications :: "jsval list \<Rightarrow> jsobj list checked" where
  "validateOfflineNotifications items = check_each (stateless validate_offline) ''offline_notifications'' () 0 items"

definition validateExpiryNotifications :: "jsval list \<Rightarrow> jsobj list checked" where
  "validateExpiryNotifications items = check_each (stateless validate_expiry) ''expiry_notifications'' () 0 items"

definition validateLoadNotifications :: "jsval list \<Rightarrow> jsobj list checked" where
  "validateLoadNotifications items = check_each (stateless validate_load) ''load_notifications'' () 0 items"

subsection \<open>The whole backup\<close>

datatype backup_warning = NoSchema | NoScope | IgnoredSettings "string list"

definition text_prop :: "string \<Rightarrow> string option \<Rightarrow> jsobj" where
  "text_prop k t = (case t of Some s \<Rightarrow> [(k, Str s)] | None \<Rightarrow> [])"

definition part_prop :: "string \<Rightarrow> jsobj list option \<Rightarrow> jsobj" where
  "part_prop k xs = (case xs of Some os \<Rightarrow> [(k, Arr (map Obj os))] | None \<Rightarrow> [])"

text \<open>A module: read as an array, then checked item by item.\<close>

definition check_part :: "jsobj \<Rightarrow> string \<Rightarrow> nat \<Rightarrow> (jsval list \<Rightarrow> jsobj list checked) \<Rightarrow> jsobj list option checked" where
  "check_part b key maxItems f =
     (let (items, e1) = requireArray b key maxItems
      in case items of None \<Rightarrow> (None, e1) | Some vs \<Rightarrow> (let (os, e2) = f vs in (Some os, e1 @ e2)))"

definition check_settings :: "(string \<Rightarrow> url option) \<Rightarrow> jsobj \<Rightarrow> (string \<times> string) list option \<times> backup_error list \<times> backup_warning list" where
  "check_settings up b = (if js_get b ''settings'' = Undef then (None, [], [])
     else let (ok, s) = sanitizeSettingsForStorage up (js_get b ''settings'') True []
          in (Some (san_settings s), (if ok then [] else map (\<lambda>e. (''settings'', SettingIssue e)) (san_errors s)),
              if san_ignored s \<noteq> [] then [IgnoredSettings (san_ignored s)] else []))"

record backup_header =
  bh_schema :: "string option"
  bh_version :: string
  bh_scope :: "string option"
  bh_timestamp :: "string option"

definition check_header :: "jsobj \<Rightarrow> backup_header checked" where
  "check_header b =
     (let (schema, e1) = textField (js_get b ''schema'') ''schema'' False 64;
          (version, e2) = textField (js_get b ''version'') ''version'' True 32;
          (scope, e3) = textField (js_get b ''scope'') ''scope'' False 32;
          (timestamp, e4) = textField (js_get b ''timestamp'') ''timestamp'' False 64;
          v = or_text version []
      in (\<lparr>bh_schema = schema, bh_version = v, bh_scope = scope, bh_timestamp = timestamp\<rparr>,
          e1 @ e2 @ e3 @ e4 @
          (if or_text schema [] \<noteq> [] \<and> or_text schema [] \<noteq> BACKUP_SCHEMA_ID then [(''schema'', Unsupported (or_text schema []))] else []) @
          (if or_text scope [] \<noteq> [] \<and> or_text scope [] \<noteq> BACKUP_SCOPE then [(''scope'', Unsupported (or_text scope []))] else []) @
          (if v \<noteq> [] \<and> \<not> js_startsWith v ''1.'' \<and> \<not> js_startsWith v ''2.'' then [(''version'', Unsupported v)] else [])))"

record backup_parts =
  bp_settings :: "(string \<times> string) list option"
  bp_clients :: "jsobj list option"
  bp_ping_tasks :: "jsobj list option"
  bp_offline :: "jsobj list option"
  bp_expiry :: "jsobj list option"
  bp_load :: "jsobj list option"
  bp_websites :: "jsobj list option"

definition no_parts :: "backup_parts \<Rightarrow> bool" where
  "no_parts p \<longleftrightarrow> bp_settings p = None \<and> bp_clients p = None \<and> bp_ping_tasks p = None \<and> bp_offline p = None \<and> bp_expiry p = None \<and>
     bp_load p = None \<and> bp_websites p = None"

definition check_parts :: "(string \<Rightarrow> url option) \<Rightarrow> jsobj \<Rightarrow> (backup_parts \<times> backup_warning list) checked" where
  "check_parts up b =
     (let (ss, e0, ws) = check_settings up b;
          (cs, e1) = check_part b ''clients'' MAX_CLIENTS validateClients;
          (ps, e2) = check_part b ''ping_tasks'' MAX_PING_TASKS (validatePingTasks up);
          (os, e3) = check_part b ''offline_notifications'' MAX_NOTIFICATIONS validateOfflineNotifications;
          (xs, e4) = check_part b ''expiry_notifications'' MAX_NOTIFICATIONS validateExpiryNotifications;
          (ls, e5) = check_part b ''load_notifications'' MAX_NOTIFICATIONS validateLoadNotifications;
          (ms, e6) = check_part b ''website_monitors'' MAX_WEBSITE_MONITORS (\<lambda>vs. validateWebsiteMonitors up vs cs);
          parts = \<lparr>bp_settings = ss, bp_clients = cs, bp_ping_tasks = ps, bp_offline = os, bp_expiry = xs, bp_load = ls, bp_websites = ms\<rparr>
      in ((parts, ws), e0 @ e1 @ e2 @ e3 @ e4 @ e5 @ e6 @ (if no_parts parts then [([], NoModule)] else [])))"

definition backup_object :: "backup_header \<Rightarrow> backup_parts \<Rightarrow> jsobj" where
  "backup_object h p = [(''schema'', Str (or_text (bh_schema h) BACKUP_SCHEMA_ID)), (''version'', Str (bh_version h)), (''scope'', Str BACKUP_SCOPE)] @
     text_prop ''timestamp'' (bh_timestamp h) @
     [(''excluded'', Arr (map Str BACKUP_EXCLUDED_MODULES)), (''sensitive'', Bool True), (''warning'', Str BACKUP_SENSITIVE_WARNING)] @
     (case bp_settings p of Some ss \<Rightarrow> [(''settings'', Obj (map (\<lambda>(k, s). (k, Str s)) ss))] | None \<Rightarrow> []) @
     part_prop ''clients'' (bp_clients p) @ part_prop ''ping_tasks'' (bp_ping_tasks p) @ part_prop ''offline_notifications'' (bp_offline p) @
     part_prop ''expiry_notifications'' (bp_expiry p) @ part_prop ''load_notifications'' (bp_load p) @ part_prop ''website_monitors'' (bp_websites p)"

definition header_warnings :: "backup_header \<Rightarrow> backup_warning list" where
  "header_warnings h = (if or_text (bh_schema h) [] = [] then [NoSchema] else []) @ (if or_text (bh_scope h) [] = [] then [NoScope] else [])"

definition validateBackup :: "(string \<Rightarrow> url option) \<Rightarrow> jsval \<Rightarrow> backup_error list + jsobj \<times> backup_warning list" where
  "validateBackup up input = (case input of
       Obj b \<Rightarrow>
         (let (h, e1) = check_header b; ((p, ws), e2) = check_parts up b
          in if e1 @ e2 \<noteq> [] then Inl (e1 @ e2) else Inr (backup_object h p, header_warnings h @ ws))
     | _ \<Rightarrow> Inl [([], NotObject)])"

subsection \<open>Sealing\<close>

record backup_crypto =
  bc_derive :: "bytes \<Rightarrow> bytes \<Rightarrow> int \<Rightarrow> bytes"
  bc_encrypt :: "bytes \<Rightarrow> bytes \<Rightarrow> bytes \<Rightarrow> bytes"
  bc_decrypt :: "bytes \<Rightarrow> bytes \<Rightarrow> bytes \<Rightarrow> bytes option"

datatype seal_error =
    PasswordEmpty | PasswordShort nat | PasswordLong nat | BackupInvalid "backup_error list"
  | NotAnObject | NotEncrypted | NoParameters | UnknownAlgorithm | BadIterations | BadEncoding | WrongPassword

definition backupPasswordError :: "string \<Rightarrow> nat \<Rightarrow> seal_error option" where
  "backupPasswordError password minBytes =
     (if password = [] then Some PasswordEmpty
      else if length password < minBytes then Some (PasswordShort minBytes)
      else if MAX_BACKUP_PASSWORD_BYTES < length (utf8_encode password) then Some (PasswordLong MAX_BACKUP_PASSWORD_BYTES)
      else None)"

definition deriveBackupKey :: "backup_crypto \<Rightarrow> string \<Rightarrow> bytes \<Rightarrow> int \<Rightarrow> bytes" where
  "deriveBackupKey cr password salt iterations = bc_derive cr (utf8_encode password) salt iterations"

definition sealed_object :: "string \<Rightarrow> bytes \<Rightarrow> bytes \<Rightarrow> bytes \<Rightarrow> jsobj" where
  "sealed_object timestamp salt iv ciphertext =
     [(''schema'', Str ENCRYPTED_BACKUP_SCHEMA_ID), (''version'', Str BACKUP_VERSION), (''scope'', Str BACKUP_SCOPE), (''timestamp'', Str timestamp),
      (''encrypted'', Bool True), (''excluded'', Arr (map Str BACKUP_EXCLUDED_MODULES)),
      (''encryption'', Obj [(''algorithm'', Str BACKUP_ENCRYPTION_ALGORITHM), (''kdf'', Str BACKUP_KDF),
         (''iterations'', Num (FinI BACKUP_KDF_ITERATIONS)), (''salt'', Str (b64_encode salt)), (''iv'', Str (b64_encode iv))]),
      (''ciphertext'', Str (b64_encode ciphertext))]"

text \<open>The random salt and nonce and the present time are arguments.\<close>

definition encryptBackup ::
  "backup_crypto \<Rightarrow> (string \<Rightarrow> url option) \<Rightarrow> bytes \<Rightarrow> bytes \<Rightarrow> string \<Rightarrow> jsobj \<Rightarrow> string \<Rightarrow> seal_error + jsobj" where
  "encryptBackup cr up salt iv nowText backup password =
     (case backupPasswordError password MIN_BACKUP_ENCRYPT_PASSWORD_BYTES of
        Some e \<Rightarrow> Inl e
      | None \<Rightarrow> (case validateBackup up (Obj backup) of
          Inl es \<Rightarrow> Inl (BackupInvalid es)
        | Inr (v, _) \<Rightarrow>
            (let key = deriveBackupKey cr password salt BACKUP_KDF_ITERATIONS;
                 plaintext = utf8_encode (case JSON_stringify (Obj v) of Some t \<Rightarrow> t | None \<Rightarrow> [])
             in Inr (sealed_object (case js_get backup ''timestamp'' of Str s \<Rightarrow> if s = [] then nowText else s | _ \<Rightarrow> nowText)
                  salt iv (bc_encrypt cr key iv plaintext)))))"

definition bytes_field :: "jsobj \<Rightarrow> string \<Rightarrow> bytes option" where
  "bytes_field b k = (case js_get b k of Str s \<Rightarrow> atob_bytes s | _ \<Rightarrow> None)"

definition open_backup :: "backup_crypto \<Rightarrow> (string \<Rightarrow> url option) \<Rightarrow> string \<Rightarrow> bytes \<Rightarrow> bytes \<Rightarrow> int \<Rightarrow> bytes \<Rightarrow> seal_error + jsobj" where
  "open_backup cr up password salt iv iterations ciphertext =
     (case bc_decrypt cr (deriveBackupKey cr password salt iterations) iv ciphertext of
        None \<Rightarrow> Inl WrongPassword
      | Some plaintext \<Rightarrow> (case JSON_parse (utf8_decode plaintext) of
          None \<Rightarrow> Inl WrongPassword
        | Some parsed \<Rightarrow> (case validateBackup up parsed of Inl es \<Rightarrow> Inl (BackupInvalid es) | Inr (v, _) \<Rightarrow> Inr v)))"

definition decryptBackup :: "backup_crypto \<Rightarrow> (string \<Rightarrow> url option) \<Rightarrow> jsval \<Rightarrow> string \<Rightarrow> seal_error + jsobj" where
  "decryptBackup cr up input password =
     (case backupPasswordError password MIN_BACKUP_DECRYPT_PASSWORD_BYTES of
        Some e \<Rightarrow> Inl e
      | None \<Rightarrow> (case input of
          Obj b \<Rightarrow>
            if js_get b ''schema'' \<noteq> Str ENCRYPTED_BACKUP_SCHEMA_ID \<or> js_get b ''encrypted'' \<noteq> Bool True then Inl NotEncrypted
            else (case js_get b ''encryption'' of
              Obj e \<Rightarrow>
                if js_get e ''algorithm'' \<noteq> Str BACKUP_ENCRYPTION_ALGORITHM \<or> js_get e ''kdf'' \<noteq> Str BACKUP_KDF then Inl UnknownAlgorithm
                else let n = js_Number (js_get e ''iterations'')
                     in if \<not> js_isInteger n \<or> js_lt n (FinI 100000) \<or> js_lt (FinI 1000000) n then Inl BadIterations
                        else (case (bytes_field e ''salt'', bytes_field e ''iv'', bytes_field b ''ciphertext'') of
                            (Some salt, Some iv, Some ciphertext) \<Rightarrow>
                              if length salt \<noteq> BACKUP_SALT_BYTES \<or> length iv \<noteq> BACKUP_IV_BYTES \<or> ciphertext = [] then Inl BadEncoding
                              else open_backup cr up password salt iv (js_int n) ciphertext
                          | _ \<Rightarrow> Inl BadEncoding)
            | _ \<Rightarrow> Inl NoParameters)
        | _ \<Rightarrow> Inl NotAnObject))"

definition part_count :: "jsobj \<Rightarrow> string \<Rightarrow> nat" where
  "part_count b k = (case js_get b k of Arr xs \<Rightarrow> length xs | _ \<Rightarrow> 0)"

record backup_summary =
  sum_settings :: bool
  sum_settings_count :: nat
  sum_parts :: "(string \<times> nat) list"

definition BACKUP_PARTS :: "string list" where
  "BACKUP_PARTS = [''clients'', ''ping_tasks'', ''offline_notifications'', ''expiry_notifications'', ''load_notifications'', ''website_monitors'']"

definition summarizeBackup :: "jsobj \<Rightarrow> backup_summary" where
  "summarizeBackup b = \<lparr>sum_settings = (js_get b ''settings'' \<noteq> Undef),
     sum_settings_count = (case js_get b ''settings'' of Obj s \<Rightarrow> length s | _ \<Rightarrow> 0), sum_parts = map (\<lambda>k. (k, part_count b k)) BACKUP_PARTS\<rparr>"

end
