(* ===== verification/BackupRoundtrip.thy ===== *)
theory BackupRoundtrip
  imports Backup
begin

section \<open>Backups survive sealing\<close>

text \<open>
  Checking a backup is idempotent: what a check accepts, it accepts again and leaves as it is. With a
  cipher that opens what it sealed, a sealed backup therefore opens to the configuration that was
  checked before.
\<close>

subsection \<open>Fields\<close>

lemma text_again: "textField v f False n = (t, []) \<Longrightarrow> length d \<le> n \<Longrightarrow> textField (Str (or_text t d)) f' False n = (Some (or_text t d), [])"
  by (auto simp: textField_def or_text_def split: if_splits option.splits)

lemma text_some_again: "textField v f r n = (Some t, []) \<Longrightarrow> textField (Str t) f' r n = (Some t, [])"
  by (auto simp: textField_def split: if_splits option.splits)

lemma text_none_again: "textField v f r n = (None, []) \<Longrightarrow> textField Undef f' r n = (None, [])"
  by (auto simp: textField_def split: if_splits option.splits)

lemma text_required: "textField v f True n = (t, []) \<Longrightarrow> \<exists>s. t = Some s \<and> s \<noteq> [] \<and> textField (Str s) f' True n = (Some s, [])"
  by (auto simp: textField_def js_trim_def split: if_splits option.splits)

lemma or_text_again [simp]: "or_text (Some (or_text t d)) d = or_text t d"
  by (auto simp: or_text_def split: option.splits)

lemma number_again:
  "bk_numberField v f fb lo hi = (q, []) \<Longrightarrow> (lo \<le> fb \<and> fb \<le> hi) \<or> q \<noteq> fb \<Longrightarrow> bk_numberField (Num (Fin q)) f' fb' lo hi = (q, []) \<and> lo \<le> q \<and> q \<le> hi"
  by (auto simp: bk_numberField_def split: if_splits jsnum.splits)

lemma integer_number: "integerField v f fb lo hi = (q, []) \<Longrightarrow> bk_numberField v f fb lo hi = (q, []) \<and> rat_is_int q"
  by (cases "bk_numberField v f fb lo hi") (auto simp: integerField_def split: if_splits)

lemma integer_again_field:
  assumes "integerField v f fb lo hi = (q, [])" "(lo \<le> fb \<and> fb \<le> hi) \<or> q \<noteq> fb"
  shows "integerField (Num (Fin q)) f' fb' lo hi = (q, []) \<and> lo \<le> q \<and> q \<le> hi \<and> rat_is_int q"
  using number_again [of v f fb lo hi q f' fb'] integer_number [OF assms(1)] assms(2) by (simp add: integerField_def)

definition item_texts :: "string \<Rightarrow> jsval list \<Rightarrow> string list" where
  "item_texts f items = filter (\<lambda>t. js_trim t \<noteq> []) (List.map_filter fst (map (\<lambda>item. textField item f False 128) items))"

lemma array_items: "stringArrayField v f n = (cs, []) \<Longrightarrow> \<exists>items. length items \<le> n \<and> cs = item_texts f items"
proof (cases "case v of Str s \<Rightarrow> (case JSON_parse s of Some x \<Rightarrow> x | None \<Rightarrow> Bool False) | _ \<Rightarrow> v")
  case (Arr items)
  assume "stringArrayField v f n = (cs, [])"
  then have "cs = item_texts f (take n items)"
    unfolding stringArrayField_def Arr by (simp add: Let_def item_texts_def)
  then show ?thesis by (intro exI [of _ "take n items"]) simp
qed (auto simp: stringArrayField_def item_texts_def map_filter_simps intro!: exI [of _ "[]"])

lemma item_text_fits: "c \<in> set (item_texts f items) \<Longrightarrow> length c \<le> 128 \<and> js_trim c \<noteq> []"
  by (auto simp: item_texts_def map_filter_def textField_def split: if_splits option.splits)

lemma item_texts_length: "length (item_texts f items) \<le> length items"
proof (induction items)
  case (Cons x xs)
  then show ?case by (cases "fst (textField x f False 128)") (auto simp: item_texts_def map_filter_simps)
qed (simp add: item_texts_def map_filter_simps)

lemma texts_again:
  "(\<And>c. c \<in> set cs \<Longrightarrow> length c \<le> 128 \<and> js_trim c \<noteq> []) \<Longrightarrow> item_texts f (map Str cs) = cs \<and>
     concat (map snd (map (\<lambda>item. textField item f False 128) (map Str cs))) = []"
proof (induction cs)
  case (Cons c cs)
  have c: "textField (Str c) f False 128 = (Some c, [])" "js_trim c \<noteq> []" using Cons(2) [of c] by (simp_all add: textField_def)
  have "item_texts f (map Str cs) = cs \<and> concat (map snd (map (\<lambda>item. textField item f False 128) (map Str cs))) = []"
    using Cons by simp
  then show ?case using c by (simp add: item_texts_def map_filter_simps)
qed (simp add: item_texts_def map_filter_simps)

lemma array_texts:
  assumes "\<forall>c \<in> set cs. length c \<le> 128 \<and> js_trim c \<noteq> []" "length cs \<le> n"
  shows "stringArrayField (Arr (map Str cs)) f n = (cs, [])"
proof -
  have "item_texts f (map Str cs) = cs \<and> concat (map snd (map (\<lambda>item. textField item f False 128) (map Str cs))) = []"
    by (rule texts_again) (use assms(1) in blast)
  then show ?thesis using assms(2) by (simp add: stringArrayField_def Let_def item_texts_def)
qed

lemma array_again:
  assumes "stringArrayField v f n = (cs, [])"
  shows "stringArrayField (Arr (map Str cs)) f' n = (cs, [])" "\<forall>c \<in> set cs. length c \<le> 128"
proof -
  obtain items where i: "length items \<le> n" "cs = item_texts f items" using array_items [OF assms] by blast
  then show "\<forall>c \<in> set cs. length c \<le> 128" using item_text_fits by blast
  show "stringArrayField (Arr (map Str cs)) f' n = (cs, [])"
    by (rule array_texts) (use i item_texts_length [of f items] item_text_fits in auto)
qed

lemma scale_one: "decimal_scale (Suc (Suc n)) q = 1 \<Longrightarrow> rat_is_int (10 * q)"
  by (auto split: if_splits)

lemma pos_to_str_ne:
  assumes "0 < q"
  shows "pos_to_str q \<noteq> []"
proof
  define d where "d = decimal_scale 400 q"
  define ms where "ms = nat_to_str (nat \<lfloor>q * 10 ^ d\<rfloor>)"
  assume e: "pos_to_str q = []"
  then have s: "strip_zeros ms = []" "length ms = d" unfolding pos_to_str_def Let_def d_def [symmetric] ms_def [symmetric]
    by (auto split: if_splits)
  then have "list_all (\<lambda>c. c = CHR ''0'') ms" by (simp add: strip_zeros_def list_all_iff dropWhile_eq_Nil_conv)
  then have "digits_val 10 ms = 0" by (induction ms rule: rev_induct) (auto simp: digits_val_def cc_def hex_digit_val_def is_digit_def)
  then have m: "nat \<lfloor>q * 10 ^ d\<rfloor> = 0" by (simp add: ms_def)
  then have "ms = ''0''" by (simp add: ms_def nat_to_str_zero)
  then have d1: "decimal_scale 400 q = 1" using s(2) by (simp add: d_def)
  have "400 = Suc (Suc 398)" by simp
  then have "rat_is_int (10 * q)" using d1 scale_one [of 398 q] by metis
  then have "10 * q = of_int \<lfloor>10 * q\<rfloor>" unfolding rat_is_int_def by (rule sym)
  moreover have "\<lfloor>10 * q\<rfloor> = 0" using m d1 assms by (simp add: d_def mult.commute floor_eq_iff)
  ultimately show False using assms by simp
qed

lemma num_to_str_ne: "num_to_str x \<noteq> []"
proof (cases x)
  case (Fin q)
  have "int_to_str i \<noteq> []" for i using int_to_str_first [of i] by auto
  moreover have "q > 0" if "\<not> (rat_is_int q \<and> \<bar>q\<bar> < 10 ^ 21)" "\<not> q < 0" using that by (cases "q = 0") (auto simp: rat_is_int_def)
  ultimately show ?thesis using Fin pos_to_str_ne by auto
qed auto

lemma time_again:
  assumes "optionalTimeField v f = (t, [])"
  shows "optionalTimeField t f' = (t, [])"
proof (cases "v = Undef \<or> v = Null \<or> v = Str []")
  case False
  then obtain s where s: "textField v f False 64 = (s, [])" "t = (case s of Some x \<Rightarrow> Str x | None \<Rightarrow> Null)"
    using assms by (cases "textField v f False 64") (auto simp: optionalTimeField_def Let_def split: prod.splits)
  show ?thesis
  proof (cases s)
    case (Some x)
    then have "x \<noteq> []" using s(1) False num_to_str_ne by (cases v) (auto simp: textField_def split: if_splits)
    then show ?thesis using s Some text_some_again by (simp add: optionalTimeField_def)
  qed (use s in \<open>simp add: optionalTimeField_def\<close>)
qed (use assms in \<open>auto simp: optionalTimeField_def\<close>)

subsection \<open>Items\<close>

text \<open>
  What the checks of one item have in common, and what the check of a whole module gains from it:
  an item is dropped only with an error, and an accepted item is accepted again, with the same
  memory of earlier items. An identifier that became 0 is the one exception.
\<close>

definition id_kept :: "jsobj \<Rightarrow> bool" where
  "id_kept x \<longleftrightarrow> js_get x ''id'' \<noteq> Num (Fin 0)"

locale stable_check =
  fixes check :: "'s \<Rightarrow> nat \<Rightarrow> jsobj \<Rightarrow> jsobj option checked \<times> 's" and applies :: bool
  assumes dropped: "check s i item = ((None, es), s') \<Longrightarrow> es \<noteq> []"
    and again: "applies \<Longrightarrow> i < MAX_NOTIFICATIONS \<Longrightarrow> check s i item = ((Some x, []), s') \<Longrightarrow> id_kept x \<Longrightarrow> check s i x = ((Some x, []), s')"
begin

lemma each_again:
  "applies \<Longrightarrow> i + length vs \<le> MAX_NOTIFICATIONS \<Longrightarrow> check_each check part s i vs = (xs, []) \<Longrightarrow> list_all id_kept xs \<Longrightarrow>
     check_each check part s i (map Obj xs) = (xs, []) \<and> length xs = length vs"
proof (induction vs arbitrary: s i xs)
  case (Cons v vs)
  obtain item where v: "v = Obj item" using Cons(4) by (cases v) (auto split: prod.splits)
  obtain r es s' where r: "check s i item = ((r, es), s')" by (metis surj_pair)
  obtain rs es' where rs: "check_each check part s' (Suc i) vs = (rs, es')" by (metis surj_pair)
  have e: "es = []" "es' = []" "xs = (case r of Some x \<Rightarrow> x # rs | None \<Rightarrow> rs)" using Cons(4) v r rs by simp_all
  then obtain x where x: "r = Some x" using dropped [of s i item es s'] r by (cases r) auto
  have "i < MAX_NOTIFICATIONS" using Cons(3) by simp
  then have "check s i x = ((Some x, []), s')" using again [OF Cons(2)] r e(1) x Cons(5) e(3) by simp
  then show ?case using Cons(1) [OF Cons(2), of "Suc i"] Cons(3) rs e Cons(5) x by simp
qed simp

lemma whole_again:
  "applies \<Longrightarrow> n \<le> MAX_NOTIFICATIONS \<Longrightarrow> length vs \<le> n \<Longrightarrow> check_each check part s 0 vs = (xs, []) \<Longrightarrow> list_all id_kept xs \<Longrightarrow>
     check_each check part s 0 (map Obj xs) = (xs, []) \<and> length xs = length vs"
  by (rule each_again) simp_all

end

lemma object_append_get: "js_get (xs @ ys) k = (if js_get xs k = Undef \<and> k \<notin> fst ` set xs then js_get ys k else js_get xs k)"
  by (induction xs) (auto simp: js_get_def)

lemma js_get_filtered:
  "distinct fs \<Longrightarrow> js_get (List.map_filter (\<lambda>f. map_option (\<lambda>t. (f, Str t)) (h f)) fs @ ys) k =
     (if k \<in> set fs \<and> h k \<noteq> None then Str (the (h k)) else js_get ys k)"
proof (induction fs)
  case (Cons f fs)
  then show ?case by (cases "h f") (auto simp: map_filter_simps js_get_Cons)
qed (simp add: map_filter_simps)

lemma js_get_mapped: "js_get (map (\<lambda>f. (f, g f)) fs @ ys) k = (if k \<in> set fs then g k else js_get ys k)"
  by (induction fs) (auto simp: js_get_Cons)

lemma client_field_names:
  "distinct CLIENT_STRINGS" "''uuid'' \<in> set CLIENT_STRINGS" "''traffic_reset_day'' \<notin> set (CLIENT_STRINGS @ CLIENT_NUMBERS @ CLIENT_BOOLEANS)"
  "set CLIENT_STRINGS \<inter> set CLIENT_NUMBERS = {}" "set CLIENT_STRINGS \<inter> set CLIENT_BOOLEANS = {}" "set CLIENT_NUMBERS \<inter> set CLIENT_BOOLEANS = {}"
  by (simp_all add: CLIENT_STRINGS_def CLIENT_NUMBERS_def CLIENT_BOOLEANS_def)

lemma client_object_get:
  "f \<in> set CLIENT_STRINGS \<Longrightarrow> js_get (client_object i item) f = (case fst (client_string i item f) of Some t \<Rightarrow> Str t | None \<Rightarrow> Undef)"
  "f \<in> set CLIENT_NUMBERS \<Longrightarrow> js_get (client_object i item) f = Num (Fin (fst (client_number i item f)))"
  "f \<in> set CLIENT_BOOLEANS \<Longrightarrow> js_get (client_object i item) f = Bool (bk_booleanField (js_get item f))"
  "js_get (client_object i item) ''traffic_reset_day'' = Num (Fin (fst (client_reset_day i item)))"
proof -
  have get: "js_get (client_object i item) k =
      (if k \<in> set CLIENT_STRINGS \<and> fst (client_string i item k) \<noteq> None then Str (the (fst (client_string i item k)))
       else if k \<in> set CLIENT_NUMBERS then Num (Fin (fst (client_number i item k)))
       else if k \<in> set CLIENT_BOOLEANS then Bool (bk_booleanField (js_get item k))
       else if k = ''traffic_reset_day'' then Num (Fin (fst (client_reset_day i item))) else Undef)" for k
    unfolding client_object_def js_get_filtered [OF client_field_names(1)] js_get_mapped by (simp add: js_get_def)
  show "f \<in> set CLIENT_STRINGS \<Longrightarrow> js_get (client_object i item) f = (case fst (client_string i item f) of Some t \<Rightarrow> Str t | None \<Rightarrow> Undef)"
    unfolding get using client_field_names(3-6) by (cases "fst (client_string i item f)") auto
  show "f \<in> set CLIENT_NUMBERS \<Longrightarrow> js_get (client_object i item) f = Num (Fin (fst (client_number i item f)))"
    unfolding get using client_field_names(4) by auto
  show "f \<in> set CLIENT_BOOLEANS \<Longrightarrow> js_get (client_object i item) f = Bool (bk_booleanField (js_get item f))"
    unfolding get using client_field_names(5,6) by auto
  show "js_get (client_object i item) ''traffic_reset_day'' = Num (Fin (fst (client_reset_day i item)))"
    unfolding get using client_field_names(3) by auto
qed

lemma filtered_cong: "(\<And>x. x \<in> set xs \<Longrightarrow> f x = g x) \<Longrightarrow> List.map_filter f xs = List.map_filter g xs"
  by (induction xs) (auto simp: map_filter_simps split: option.splits)

lemma client_again:
  assumes e: "client_errors i item = []"
  shows "client_object i (client_object i item) = client_object i item" "client_errors i (client_object i item) = []"
proof -
  let ?c = "client_object i item"
  have strings: "client_string i ?c f = client_string i item f" if f: "f \<in> set CLIENT_STRINGS" for f
  proof -
    have n: "snd (client_string i item f) = []" using e f by (auto simp: client_errors_def)
    show ?thesis
    proof (cases "fst (client_string i item f)")
      case None
      then have "client_string i item f = (None, [])" using n by (simp add: prod_eq_iff)
      then show ?thesis using client_object_get(1) [OF f, of i item] None text_none_again
        unfolding client_string_def by fastforce
    next
      case (Some t)
      then have "client_string i item f = (Some t, [])" using n by (simp add: prod_eq_iff)
      then show ?thesis using client_object_get(1) [OF f, of i item] Some text_some_again
        unfolding client_string_def by fastforce
    qed
  qed
  have numbers: "client_number i ?c f = client_number i item f" if f: "f \<in> set CLIENT_NUMBERS" for f
  proof -
    define lo :: rat where "lo = (if f = ''billing_cycle'' \<or> f = ''price'' then -1 else 0)"
    have "client_number i item f = (fst (client_number i item f), [])" using e f by (auto simp: client_errors_def prod_eq_iff)
    then have "bk_numberField (js_get item f) (field_path ''clients'' i f) 0 lo max_safe = (fst (client_number i item f), [])"
      by (simp only: client_number_def lo_def)
    moreover have "lo \<le> 0 \<and> 0 \<le> max_safe" by (simp add: lo_def max_safe_def)
    ultimately have "bk_numberField (Num (Fin (fst (client_number i item f)))) (field_path ''clients'' i f) 0 lo max_safe = (fst (client_number i item f), [])"
      using number_again by blast
    then have "client_number i ?c f = (fst (client_number i item f), [])"
      unfolding client_number_def [of i ?c] client_object_get(2) [OF f] lo_def [symmetric] .
    then show ?thesis using \<open>client_number i item f = _\<close> by simp
  qed
  have day: "client_reset_day i ?c = client_reset_day i item"
  proof -
    have "client_reset_day i item = (fst (client_reset_day i item), [])" using e by (auto simp: client_errors_def prod_eq_iff)
    then show ?thesis using client_object_get(4) [of i item] number_again [of "js_get item ''traffic_reset_day''" _ 1 1 31]
      unfolding client_reset_day_def by fastforce
  qed
  have bools: "bk_booleanField (js_get ?c f) = bk_booleanField (js_get item f)" if "f \<in> set CLIENT_BOOLEANS" for f
    using client_object_get(3) [OF that] by (simp add: bk_booleanField_def)
  show "client_object i ?c = ?c"
  proof -
    have "List.map_filter (\<lambda>f. map_option (\<lambda>t. (f, Str t)) (fst (client_string i ?c f))) CLIENT_STRINGS =
        List.map_filter (\<lambda>f. map_option (\<lambda>t. (f, Str t)) (fst (client_string i item f))) CLIENT_STRINGS"
      by (rule filtered_cong) (simp add: strings)
    moreover have "map (\<lambda>f. (f, Num (Fin (fst (client_number i ?c f))))) CLIENT_NUMBERS = map (\<lambda>f. (f, Num (Fin (fst (client_number i item f))))) CLIENT_NUMBERS"
      "map (\<lambda>f. (f, Bool (bk_booleanField (js_get ?c f)))) CLIENT_BOOLEANS = map (\<lambda>f. (f, Bool (bk_booleanField (js_get item f)))) CLIENT_BOOLEANS"
      by (simp_all add: numbers bools)
    ultimately show ?thesis unfolding client_object_def [of i ?c] day by (simp only: client_object_def [of i item])
  qed
  show "client_errors i ?c = []"
    using e strings numbers day unfolding client_errors_def by (auto simp: concat_eq_Nil_conv)
qed

interpretation clients: stable_check validate_client True
proof
  show "es \<noteq> []" if "validate_client s i item = ((None, es), s')" for s i item es s'
    using that by (simp add: validate_client_def Let_def)
  show "validate_client s i x = ((Some x, []), s')" if v: "validate_client s i item = ((Some x, []), s')" for s i item x s'
  proof -
    have x: "x = client_object i item" and e: "client_errors i item = []" using v by (simp_all add: validate_client_def Let_def)
    have "validate_client s i x = validate_client s i item"
      unfolding validate_client_def Let_def x client_again [OF e] e by (rule refl)
    then show ?thesis using v by simp
  qed
qed

lemma stateless_check:
  assumes "\<And>i item. fst (f i item) = None \<Longrightarrow> snd (f i item) \<noteq> []"
    "\<And>i item x. applies \<Longrightarrow> i < MAX_NOTIFICATIONS \<Longrightarrow> f i item = (Some x, []) \<Longrightarrow> id_kept x \<Longrightarrow> f i x = (Some x, [])"
  shows "stable_check (stateless f) applies"
proof
  show "es \<noteq> []" if "stateless f s i item = ((None, es), s')" for s i item es s'
    using that assms(1) [of i item] by (simp add: stateless_def)
  show "stateless f s i x = ((Some x, []), s')" if "applies" "i < MAX_NOTIFICATIONS" "stateless f s i item = ((Some x, []), s')" "id_kept x" for s i item x s'
    using that assms(2) [of i item x] by (simp add: stateless_def)
qed

lemma offline_again: "validate_offline i item = (Some x, []) \<Longrightarrow> validate_offline i x = (Some x, [])"
proof -
  assume "validate_offline i item = (Some x, [])"
  then obtain c g t where r: "textField (js_get item ''client'') (field_path ''offline_notifications'' i ''client'') True 128 = (c, [])"
      "integerField (js_get item ''grace_period'') (field_path ''offline_notifications'' i ''grace_period'') 180 30 86400 = (g, [])"
      "optionalTimeField (js_get item ''last_notified'') (field_path ''offline_notifications'' i ''last_notified'') = (t, [])"
      "x = [(''client'', Str (or_text c [])), (''enable'', Bool (bk_booleanField (js_get item ''enable''))), (''grace_period'', Num (Fin g)), (''last_notified'', t)]"
    by (auto simp: validate_offline_def Let_def split: prod.splits)
  obtain s where s: "c = Some s" "s \<noteq> []" "textField (Str s) (field_path ''offline_notifications'' i ''client'') True 128 = (Some s, [])"
    using text_required [OF r(1)] by blast
  show ?thesis using s integer_again_field [OF r(2)] time_again [OF r(3)]
    by (simp add: validate_offline_def r(4) js_get_Cons or_text_def bk_booleanField_def Let_def)
qed

lemma expiry_again: "validate_expiry i item = (Some x, []) \<Longrightarrow> validate_expiry i x = (Some x, [])"
proof -
  assume "validate_expiry i item = (Some x, [])"
  then obtain c a t where r: "textField (js_get item ''client'') (field_path ''expiry_notifications'' i ''client'') True 128 = (c, [])"
      "integerField (js_get item ''advance_days'') (field_path ''expiry_notifications'' i ''advance_days'') 7 1 365 = (a, [])"
      "optionalTimeField (js_get item ''last_notified'') (field_path ''expiry_notifications'' i ''last_notified'') = (t, [])"
      "x = [(''client'', Str (or_text c [])), (''enable'', Bool (bk_booleanField (js_get item ''enable''))), (''advance_days'', Num (Fin a)), (''last_notified'', t)]"
    by (auto simp: validate_expiry_def Let_def split: prod.splits)
  obtain s where s: "c = Some s" "s \<noteq> []" "textField (Str s) (field_path ''expiry_notifications'' i ''client'') True 128 = (Some s, [])"
    using text_required [OF r(1)] by blast
  show ?thesis using s integer_again_field [OF r(2)] time_again [OF r(3)]
    by (simp add: validate_expiry_def r(4) js_get_Cons or_text_def bk_booleanField_def Let_def)
qed

lemma id_prop_get: "js_get (id_prop q @ ys) k = (if k = ''id'' \<and> q \<noteq> None then Num (Fin (the q)) else js_get ys k)"
  by (cases q) (auto simp: id_prop_def js_get_Cons)

lemma ident_again:
  assumes "optional_id part i item = (q, [])" "q \<noteq> Some 0" "js_get x ''id'' = (case q of Some v \<Rightarrow> Num (Fin v) | None \<Rightarrow> Undef)"
  shows "optional_id part i x = (q, [])"
proof (cases q)
  case None
  then show ?thesis using assms(3) by (simp add: optional_id_def)
next
  case (Some v)
  then have "integerField (js_get item ''id'') (field_path part i ''id'') 0 1 max_safe = (v, [])"
    using assms(1) by (auto simp: optional_id_def Let_def split: if_splits prod.splits)
  then have "integerField (Num (Fin v)) (field_path part i ''id'') 0 1 max_safe = (v, [])"
    using integer_again_field assms(2) Some by blast
  then show ?thesis using assms(3) Some by (simp add: optional_id_def)
qed

lemma load_metrics_short: "m \<in> set LOAD_METRICS \<Longrightarrow> length m \<le> 16 \<and> m \<noteq> []"
  by (auto simp: LOAD_METRICS_def)

lemma load_again:
  assumes v: "validate_load i item = (Some x, [])" and kept: "id_kept x"
  shows "validate_load i x = (Some x, [])"
proof -
  let ?p = "field_path ''load_notifications'' i"
  have cpu: "''cpu'' \<in> set LOAD_METRICS" by (simp add: LOAD_METRICS_def)
  obtain m q nm cs th ra iv t where r: "textField (js_get item ''metric'') (?p ''metric'') False 16 = (m, [])"
      "or_text m ''cpu'' \<in> set LOAD_METRICS" "optional_id ''load_notifications'' i item = (q, [])"
      "textField (js_get item ''name'') (?p ''name'') False 128 = (nm, [])"
      "stringArrayField (js_get item ''clients'') (?p ''clients'') MAX_CLIENTS = (cs, [])"
      "bk_numberField (js_get item ''threshold'') (?p ''threshold'') 80 0 100000 = (th, [])"
      "bk_numberField (js_get item ''ratio'') (?p ''ratio'') (4 / 5) 0 1 = (ra, [])"
      "integerField (js_get item ''interval_min'') (?p ''interval_min'') 15 1 10080 = (iv, [])"
      "optionalTimeField (js_get item ''last_notified'') (?p ''last_notified'') = (t, [])"
    and x: "x = id_prop q @ [(''name'', Str (or_text nm [])), (''clients'', Arr (map Str cs)), (''metric'', Str (or_text m ''cpu'')),
            (''threshold'', Num (Fin th)), (''ratio'', Num (Fin ra)), (''interval_min'', Num (Fin iv)), (''last_notified'', t)]"
    using v cpu by (auto simp: validate_load_def Let_def split: prod.splits if_splits)
  have get: "js_get x ''id'' = (case q of Some v \<Rightarrow> Num (Fin v) | None \<Rightarrow> Undef)" "js_get x ''name'' = Str (or_text nm [])"
      "js_get x ''clients'' = Arr (map Str cs)" "js_get x ''metric'' = Str (or_text m ''cpu'')" "js_get x ''threshold'' = Num (Fin th)"
      "js_get x ''ratio'' = Num (Fin ra)" "js_get x ''interval_min'' = Num (Fin iv)" "js_get x ''last_notified'' = t"
    unfolding x id_prop_get by (cases q; simp add: js_get_Cons js_get_def)+
  have ident: "optional_id ''load_notifications'' i x = (q, [])"
    by (rule ident_again [OF r(3) _ get(1)]) (use kept get(1) in \<open>auto simp: id_kept_def\<close>)
  have metric: "textField (Str (or_text m ''cpu'')) (?p ''metric'') False 16 = (Some (or_text m ''cpu''), [])"
    "or_text (Some (or_text m ''cpu'')) ''cpu'' = or_text m ''cpu''"
    using load_metrics_short [OF r(2)] by (simp_all add: textField_def)
  have name: "textField (Str (or_text nm [])) (?p ''name'') False 128 = (Some (or_text nm []), [])" by (rule text_again [OF r(4)]) simp
  have "bk_numberField (Num (Fin th)) (?p ''threshold'') 80 0 100000 = (th, [])" "bk_numberField (Num (Fin ra)) (?p ''ratio'') (4 / 5) 0 1 = (ra, [])"
    using number_again [OF r(6)] number_again [OF r(7)] by simp_all
  then show ?thesis
    unfolding validate_load_def get Let_def ident metric name array_again(1) [OF r(5)] time_again [OF r(9)] prod.case
    using r(2) integer_again_field [OF r(8)] by (simp add: x)
qed

lemma collect_again:
  "distinct (acc @ cs) \<Longrightarrow> length (acc @ cs) \<le> n \<Longrightarrow> (\<forall>c \<in> set cs. c \<noteq> [] \<and> js_trim c = c) \<Longrightarrow> collect_strings n acc (map Str cs) = acc @ cs"
proof (induction cs arbitrary: acc)
  case (Cons c cs)
  show ?case
  proof (cases "n \<le> length (acc @ [c])")
    case True
    then have "cs = []" using Cons(3) by (cases cs) simp_all
    then show ?thesis using Cons(2,4) True by simp
  next
    case False
    then show ?thesis using Cons(1) [of "acc @ [c]"] Cons(2-4) by simp
  qed
qed simp

lemma collect_short:
  "(\<forall>c \<in> set acc. length c \<le> k) \<Longrightarrow> (\<forall>s. Str s \<in> set items \<longrightarrow> length s \<le> k) \<Longrightarrow> (\<forall>c \<in> set (collect_strings n acc items). length c \<le> k)"
proof (induction items arbitrary: acc)
  case (Cons x xs)
  show ?case
  proof (cases "\<exists>s. x = Str s")
    case True
    then obtain s where s: "x = Str s" by blast
    then have "length (js_trim s) \<le> k" using Cons(3) js_trim_length [of s] order_trans by auto
    then have acc: "\<forall>c \<in> set (acc @ [js_trim s]). length c \<le> k" using Cons(2) by simp
    have rest: "\<forall>s. Str s \<in> set xs \<longrightarrow> length s \<le> k" using Cons(3) by simp
    show ?thesis unfolding s using acc Cons(1) [OF Cons(2) rest] Cons(1) [OF acc rest] by (simp add: Let_def)
  next
    case False
    then show ?thesis using Cons(1) [OF Cons(2)] Cons(3) by (cases x) simp_all
  qed
qed simp

lemma array_again_ping:
  assumes "distinct cs" "length cs \<le> 500" "\<forall>c \<in> set cs. c \<noteq> [] \<and> js_trim c = c"
  shows "readStringArray (Arr (map Str cs)) = cs"
  using collect_again [of "[]" cs MAX_PING_TASK_CLIENTS] assms by (simp add: readStringArray_def MAX_PING_TASK_CLIENTS_def)

lemma task_type_again: "isPingTaskType (js_toLowerCase (js_trim (task_type_text t))) = Some t" "length (task_type_text t) \<le> 16" "task_type_text t \<noteq> []"
proof -
  have trim: "js_trim (task_type_text t) = task_type_text t" by (rule js_trim_simple) (cases t; simp add: task_type_text_def cc_def)
  show "isPingTaskType (js_toLowerCase (js_trim (task_type_text t))) = Some t"
    unfolding trim by (cases t; simp add: task_type_text_def isPingTaskType_def js_toLowerCase_def lower_char_def is_AZ_def cc_def)
  show "length (task_type_text t) \<le> 16" "task_type_text t \<noteq> []" by (cases t; simp add: task_type_text_def)+
qed

lemma ping_stable:
  assumes v: "validatePingTaskInput up v None = Inr t"
    and c: "js_get c ''name'' = Str (pt_name t)" "js_get c ''type'' = Str (task_type_text (pt_type t))" "js_get c ''target'' = Str (pt_target t)"
      "js_get c ''interval_sec'' = Num (FinI (pt_interval_sec t))" "js_get c ''all_clients'' = Bool (pt_all_clients t)"
      "js_get c ''clients'' = Arr (map Str (pt_clients t))"
  shows "validatePingTaskInput up (Obj c) None = Inr t"
proof -
  define body where "body = asObject v"
  define iv where "iv = js_Number (js_nullish (js_get body ''interval_sec'') (js_nullish (js_get body ''interval'') (Num (Fin 60))))"
  have t: "js_trim (pt_name t) = pt_name t" "pt_name t \<noteq> []" "length (pt_name t) \<le> MAX_PING_TASK_NAME_LENGTH" "js_trim (pt_target t) = pt_target t"
      "validateTarget up (pt_type t) (pt_target t) = None" "pt_id t = None"
      "pt_clients t = (if pt_all_clients t then [] else readStringArray (js_get body ''clients''))" "pt_all_clients t \<or> pt_clients t \<noteq> []"
    using v by (auto simp: validatePingTaskInput_def body_def Let_def split: if_splits option.splits)
  have iv: "js_isInteger iv" "\<not> js_lt iv (FinI MIN_PING_INTERVAL_SEC)" "\<not> js_lt (FinI MAX_PING_INTERVAL_SEC) iv" "pt_interval_sec t = js_int iv"
    using v by (auto simp: validatePingTaskInput_def body_def iv_def Let_def split: if_splits option.splits)
  obtain j where j: "iv = FinI j" using js_isIntegerE [OF iv(1)] by blast
  have cs: "pt_clients t = (if pt_all_clients t then [] else readStringArray (Arr (map Str (pt_clients t))))"
    using t(7) array_again_ping readStringArray_ok [of "js_get body ''clients''"] by auto
  show ?thesis
    unfolding validatePingTaskInput_def Let_def asObject.simps c js_nullish_def
    using t iv j cs [symmetric] task_type_again(1) [of "pt_type t"] by (simp add: not_less)
qed

lemma ping_task_fits:
  assumes v: "validatePingTaskInput up (Obj c) None = Inr t"
    and cs: "js_get c ''clients'' = Arr (map Str cs)" "\<forall>x \<in> set cs. length x \<le> 128"
  shows "length (pt_name t) \<le> 128" "length (pt_target t) \<le> 512" "60 \<le> pt_interval_sec t" "pt_interval_sec t \<le> 86400"
    "\<forall>x \<in> set (pt_clients t). length x \<le> 128 \<and> js_trim x \<noteq> []" "length (pt_clients t) \<le> MAX_CLIENTS"
proof -
  define iv where "iv = js_Number (js_nullish (js_get c ''interval_sec'') (js_nullish (js_get c ''interval'') (Num (Fin 60))))"
  show "length (pt_name t) \<le> 128"
    using v by (auto simp: validatePingTaskInput_def Let_def MAX_PING_TASK_NAME_LENGTH_def split: if_splits option.splits)
  have "validateTarget up (pt_type t) (pt_target t) = None"
    using v by (auto simp: validatePingTaskInput_def Let_def split: if_splits option.splits)
  then show "length (pt_target t) \<le> 512" using validateTarget_ok by blast
  have iv: "js_isInteger iv" "\<not> js_lt iv (FinI MIN_PING_INTERVAL_SEC)" "\<not> js_lt (FinI MAX_PING_INTERVAL_SEC) iv" "pt_interval_sec t = js_int iv"
    using v by (auto simp: validatePingTaskInput_def iv_def Let_def split: if_splits option.splits)
  obtain j where "iv = FinI j" using js_isIntegerE [OF iv(1)] by blast
  then show "60 \<le> pt_interval_sec t" "pt_interval_sec t \<le> 86400"
    using iv by (auto simp: MIN_PING_INTERVAL_SEC_def MAX_PING_INTERVAL_SEC_def not_less)
  have r: "pt_clients t = (if pt_all_clients t then [] else readStringArray (Arr (map Str cs)))"
    using v cs(1) by (auto simp: validatePingTaskInput_def Let_def split: if_splits option.splits)
  have "\<forall>x \<in> set (readStringArray (Arr (map Str cs))). length x \<le> 128"
    using collect_short [of "[]" 128 "map Str cs" MAX_PING_TASK_CLIENTS] cs(2) by (auto simp: readStringArray_def)
  then show "\<forall>x \<in> set (pt_clients t). length x \<le> 128 \<and> js_trim x \<noteq> []" "length (pt_clients t) \<le> MAX_CLIENTS"
    using r readStringArray_ok [of "Arr (map Str cs)"] by (auto simp: MAX_CLIENTS_def)
qed

lemma integer_in_range: "lo \<le> of_int j \<Longrightarrow> of_int j \<le> hi \<Longrightarrow> integerField (Num (FinI j)) f fb lo hi = (of_int j, [])"
  by (simp add: integerField_def bk_numberField_def rat_is_int_def)

lemma task_again:
  assumes v: "validate_task up i item = (Some x, [])" and kept: "id_kept x" and i: "i < MAX_NOTIFICATIONS"
  shows "validate_task up i x = (Some x, [])"
proof -
  let ?p = "field_path ''ping_tasks'' i"
  obtain q c t where r: "optional_id ''ping_tasks'' i item = (q, [])" "task_candidate i item = (c, [])"
      "validatePingTaskInput up (Obj c) None = Inr t" and x: "x = id_prop q @ task_object t @ [(''sort_order'', js_get c ''sort_order'')]"
    using v by (auto simp: validate_task_def Let_def split: prod.splits sum.splits)
  obtain cs so where c: "js_get c ''clients'' = Arr (map Str cs)" "js_get c ''sort_order'' = Num (Fin so)"
      "stringArrayField (js_get item ''clients'') (?p ''clients'') MAX_CLIENTS = (cs, [])"
      "integerField (js_get item ''sort_order'') (?p ''sort_order'') (of_nat (Suc i)) 1 max_safe = (so, [])"
    using r(2) by (auto simp: task_candidate_def Let_def js_get_Cons split: prod.splits)
  have get: "js_get x ''id'' = (case q of Some v \<Rightarrow> Num (Fin v) | None \<Rightarrow> Undef)" "js_get x ''name'' = Str (pt_name t)"
      "js_get x ''clients'' = Arr (map Str (pt_clients t))" "js_get x ''all_clients'' = Bool (pt_all_clients t)"
      "js_get x ''type'' = Str (task_type_text (pt_type t))" "js_get x ''target'' = Str (pt_target t)"
      "js_get x ''interval_sec'' = Num (FinI (pt_interval_sec t))" "js_get x ''sort_order'' = Num (Fin so)"
    unfolding x id_prop_get task_object_def c(2) by (cases q; simp add: js_get_Cons js_get_def)+
  note fits = ping_task_fits [OF r(3) c(1) array_again(2) [OF c(3)]]
  have ident: "optional_id ''ping_tasks'' i x = (q, [])"
    by (rule ident_again [OF r(1) _ get(1)]) (use kept get(1) in \<open>auto simp: id_kept_def\<close>)
  have texts: "textField (Str (pt_name t)) (?p ''name'') False 128 = (Some (pt_name t), [])"
      "textField (Str (task_type_text (pt_type t))) (?p ''type'') False 16 = (Some (task_type_text (pt_type t)), [])"
      "textField (Str (pt_target t)) (?p ''target'') False 512 = (Some (pt_target t), [])"
    using fits(1,2) task_type_again(2) by (simp_all add: textField_def not_less)
  have cl: "stringArrayField (Arr (map Str (pt_clients t))) (?p ''clients'') MAX_CLIENTS = (pt_clients t, [])"
    by (rule array_texts [OF fits(5,6)])
  have "1 \<le> (of_nat (Suc i) :: rat)" "(of_nat (Suc i) :: rat) \<le> of_nat MAX_NOTIFICATIONS" "of_nat MAX_NOTIFICATIONS \<le> max_safe"
    using i by (simp_all only: of_nat_le_iff Suc_le_eq) (simp_all add: MAX_NOTIFICATIONS_def max_safe_def)
  then have fb: "1 \<le> (of_nat (Suc i) :: rat) \<and> of_nat (Suc i) \<le> max_safe" by linarith
  have ints: "integerField (Num (FinI (pt_interval_sec t))) (?p ''interval_sec'') 60 60 86400 = (of_int (pt_interval_sec t), [])"
      "integerField (Num (Fin so)) (?p ''sort_order'') (of_nat (Suc i)) 1 max_safe = (so, [])"
    using integer_in_range [of 60 "pt_interval_sec t" 86400] fits(3,4) integer_again_field [OF c(4)] fb by simp_all
  define c' where "c' = [(''name'', Str (pt_name t)), (''clients'', Arr (map Str (pt_clients t))), (''all_clients'', Bool (pt_all_clients t)),
           (''type'', Str (task_type_text (pt_type t))), (''target'', Str (pt_target t)), (''interval_sec'', Num (FinI (pt_interval_sec t))), (''sort_order'', Num (Fin so))]"
  have cand: "task_candidate i x = (c', [])"
    unfolding task_candidate_def get Let_def texts cl js_nullish_def ints prod.case c'_def
    using task_type_again(3) [of "pt_type t"] ints by (simp add: or_text_def bk_booleanField_def js_nullish_def)
  have "validatePingTaskInput up (Obj c') None = Inr t"
    by (rule ping_stable [OF r(3)]) (simp_all add: c'_def js_get_Cons)
  then show ?thesis using ident cand by (simp add: validate_task_def x c(2)) (simp add: c'_def js_get_Cons)
qed

lemma integerInRange_again: "integerInRange v lo hi = Some j \<Longrightarrow> integerInRange (Num (FinI j)) lo hi = Some j"
  using integerInRange_bounds [of v lo hi j] by (simp add: integerInRange_def Let_def rat_is_int_def split: if_splits)

lemma web_array_again:
  "distinct cs \<Longrightarrow> length cs \<le> 100 \<Longrightarrow> \<forall>c \<in> set cs. c \<noteq> [] \<and> js_trim c = c \<Longrightarrow> web_readStringArray (Arr (map Str cs)) = cs"
  using collect_again [of "[]" cs 100] by (simp add: web_readStringArray_def)

lemma web_array_trimmed: "\<forall>c \<in> set (web_readStringArray v). c \<noteq> [] \<and> js_trim c = c"
  using collect_strings_ok [of "[]" 100] by (auto simp: web_readStringArray_def split: jsval.splits)

definition probe_mode_of :: "jsval \<Rightarrow> probe_mode" where
  "probe_mode_of v = (if v = Str ''selected'' then ProbeSelected else if v = Str ''country_auto'' then ProbeCountryAuto else ProbeOff)"

lemma texts_read_back: "web_method_of (Str (web_method_text m)) = Some m" "probe_mode_of (Str (probe_mode_text p)) = p"
  by (cases m; simp add: web_method_of_def web_method_text_def) (cases p; simp add: probe_mode_of_def probe_mode_text_def)

lemma website_parts:
  assumes "validateWebsiteMonitorInput up c = Inr w"
  obtains u where "up (js_trim (js_String (js_or (js_get c ''url'') (Str [])))) = Some u" "wi_url w = href u"
    "(if wi_method w = TCP then validateTcpUrl u else validateWebsiteUrl u) = None"
    "wi_name w = js_trim (js_String (js_or (js_get c ''name'') (Str [])))" "wi_name w \<noteq> []" "length (wi_name w) \<le> 120"
    "integerInRange (js_nullish (js_get c ''expected_status_min'') (Num (FinI 200))) 100 599 = Some (expected_status_min w)"
    "integerInRange (js_nullish (js_get c ''expected_status_max'') (Num (FinI 399))) 100 599 = Some (expected_status_max w)"
    "integerInRange (js_nullish (js_get c ''interval_sec'') (Num (FinI 120))) 60 86400 = Some (interval_sec w)"
    "integerInRange (js_nullish (js_get c ''timeout_sec'') (Num (FinI 10))) 1 30 = Some (timeout_sec w)"
    "integerInRange (js_nullish (js_get c ''grace_period_sec'') (Num (FinI 180))) 30 86400 = Some (grace_period_sec w)"
    "integerInRange (js_nullish (js_get c ''agent_probe_limit'') (Num (FinI 3))) 1 10 = Some (agent_probe_limit w)"
    "expected_status_min w \<le> expected_status_max w" "timeout_sec w \<le> interval_sec w"
    "agent_probe_clients w = web_readStringArray (js_get c ''agent_probe_clients'')"
  using assms by (auto simp: validateWebsiteMonitorInput_def Let_def split: if_splits option.splits)

lemma website_stable:
  assumes v: "validateWebsiteMonitorInput up c = Inr w" and up: "url_stable up"
    and x: "\<And>k. k \<noteq> ''id'' \<Longrightarrow> k \<noteq> ''sort_order'' \<Longrightarrow> js_get x k = js_get (website_object w) k"
  shows "validateWebsiteMonitorInput up x = Inr w"
proof -
  obtain u where p: "up (js_trim (js_String (js_or (js_get c ''url'') (Str [])))) = Some u" "wi_url w = href u"
    "(if wi_method w = TCP then validateTcpUrl u else validateWebsiteUrl u) = None"
    "wi_name w = js_trim (js_String (js_or (js_get c ''name'') (Str [])))" "wi_name w \<noteq> []" "length (wi_name w) \<le> 120"
    "integerInRange (js_nullish (js_get c ''expected_status_min'') (Num (FinI 200))) 100 599 = Some (expected_status_min w)"
    "integerInRange (js_nullish (js_get c ''expected_status_max'') (Num (FinI 399))) 100 599 = Some (expected_status_max w)"
    "integerInRange (js_nullish (js_get c ''interval_sec'') (Num (FinI 120))) 60 86400 = Some (interval_sec w)"
    "integerInRange (js_nullish (js_get c ''timeout_sec'') (Num (FinI 10))) 1 30 = Some (timeout_sec w)"
    "integerInRange (js_nullish (js_get c ''grace_period_sec'') (Num (FinI 180))) 30 86400 = Some (grace_period_sec w)"
    "integerInRange (js_nullish (js_get c ''agent_probe_limit'') (Num (FinI 3))) 1 10 = Some (agent_probe_limit w)"
    "expected_status_min w \<le> expected_status_max w" "timeout_sec w \<le> interval_sec w"
    "agent_probe_clients w = web_readStringArray (js_get c ''agent_probe_clients'')"
    using v by (rule website_parts)
  have url: "up (href u) = Some u" "js_trim (href u) = href u" "href u \<noteq> []" using up p(1) unfolding url_stable_def by blast+
  have name: "js_trim (wi_name w) = wi_name w" by (simp add: p(4))
  have cl: "web_readStringArray (Arr (map Str (agent_probe_clients w))) = agent_probe_clients w"
    using web_array_again web_readStringArray_ok web_array_trimmed unfolding p(15) by blast
  note ints = p(7-12) [THEN integerInRange_again]
  have get: "js_get x ''name'' = Str (wi_name w)" "js_get x ''url'' = Str (href u)" "js_get x ''method'' = Str (web_method_text (wi_method w))"
      "js_get x ''expected_status_min'' = Num (FinI (expected_status_min w))" "js_get x ''expected_status_max'' = Num (FinI (expected_status_max w))"
      "js_get x ''interval_sec'' = Num (FinI (interval_sec w))" "js_get x ''timeout_sec'' = Num (FinI (timeout_sec w))"
      "js_get x ''grace_period_sec'' = Num (FinI (grace_period_sec w))" "js_get x ''agent_probe_limit'' = Num (FinI (agent_probe_limit w))"
      "js_get x ''agent_probe_mode'' = Str (probe_mode_text (agent_probe_mode w))"
      "js_get x ''agent_probe_clients'' = Arr (map Str (agent_probe_clients w))" "js_get x ''enabled'' = Bool (wi_enabled w)"
      "js_get x ''hidden'' = Bool (wi_hidden w)" "js_get x ''hide_url'' = Bool (hide_url w)"
      "js_get x ''agent_probe_status_enabled'' = Bool (agent_probe_status_enabled w)"
    by (simp_all add: x website_object_def js_get_Cons p(2))
  show ?thesis
    unfolding validateWebsiteMonitorInput_def get js_or_def js_nullish_def Let_def probe_mode_of_def [symmetric] texts_read_back
    using p(2,3,5,6,13,14) url name cl ints by (simp add: bool_or_def)
qed

definition nodes_trimmed :: "jsval list option \<Rightarrow> bool" where
  "nodes_trimmed ids \<longleftrightarrow> (case ids of None \<Rightarrow> True | Some vs \<Rightarrow> \<forall>s. Str s \<in> set vs \<longrightarrow> js_trim s = s)"

lemma known_again:
  assumes "unknown_agents i ids agents = []" "nodes_trimmed ids" "set bs \<subseteq> js_trim ` set agents"
  shows "unknown_agents i ids bs = []"
proof (cases ids)
  case (Some vs)
  then have "\<forall>a \<in> set agents. Str a \<in> set vs \<and> js_trim a = a"
    using assms(1,2) by (auto simp: unknown_agents_def nodes_trimmed_def filter_empty_conv)
  then show ?thesis using assms(3) Some by (force simp: unknown_agents_def filter_empty_conv)
qed (simp add: unknown_agents_def)

lemma collect_from: "set (collect_strings n acc (map Str cs)) \<subseteq> set acc \<union> js_trim ` set cs"
proof (induction cs arbitrary: acc)
  case (Cons c cs)
  then show ?case using Cons [of acc] Cons [of "acc @ [js_trim c]"] by (auto simp: Let_def)
qed simp

lemma website_again:
  assumes v: "validate_website up nodes ids i item = ((Some x, []), ids')" and kept: "id_kept x" and i: "i < MAX_NOTIFICATIONS"
    and up: "url_stable up" "nodes_trimmed nodes"
  shows "validate_website up nodes ids i x = ((Some x, []), ids')"
proof -
  let ?p = "field_path ''website_monitors'' i"
  obtain q agents w so where r: "optional_id ''website_monitors'' i item = (q, [])"
      "stringArrayField (js_get item ''agent_probe_clients'') (?p ''agent_probe_clients'') 100 = (agents, [])"
      "unknown_agents i nodes agents = []"
      "validateWebsiteMonitorInput up (AList.update ''agent_probe_clients'' (Arr (map Str agents)) item) = Inr w"
      "integerField (js_get item ''sort_order'') (?p ''sort_order'') (of_nat (Suc i)) 0 2147483647 = (so, [])"
    and e: "(case q of Some z \<Rightarrow> if z \<in> set ids then [(?p ''id'', Duplicate (num_to_str (Fin z)))] else [] | None \<Rightarrow> []) = []"
      "ids' = (case q of Some z \<Rightarrow> z # ids | None \<Rightarrow> ids)"
    and x: "x = id_prop q @ website_object w @ [(''sort_order'', Num (Fin so))]"
    using v by (auto simp: validate_website_def Let_def split: prod.splits sum.splits)
  have get: "js_get x k = (if k = ''id'' \<and> q \<noteq> None then Num (Fin (the q)) else js_get (website_object w @ [(''sort_order'', Num (Fin so))]) k)" for k
    unfolding x by (rule id_prop_get)
  have same: "js_get x k = js_get (website_object w) k" if "k \<noteq> ''id''" "k \<noteq> ''sort_order''" for k
    using that unfolding get by (simp add: object_append_get) (simp add: js_get_def)
  have x_id: "js_get x ''id'' = (case q of Some z \<Rightarrow> Num (Fin z) | None \<Rightarrow> Undef)" and x_so: "js_get x ''sort_order'' = Num (Fin so)"
    unfolding get by (cases q; simp add: website_object_def js_get_Cons js_get_def)+
  have ident: "optional_id ''website_monitors'' i x = (q, [])"
    by (rule ident_again [OF r(1) _ x_id]) (use kept x_id in \<open>auto simp: id_kept_def\<close>)
  have mode: "probe_mode_errors i x = []"
    by (simp add: probe_mode_errors_def same website_object_def js_get_Cons) (cases "agent_probe_mode w"; simp add: probe_mode_text_def)
  have w: "agent_probe_clients w = web_readStringArray (Arr (map Str agents))"
    using r(4) by (elim website_parts) (simp add: js_get_def update_conv')
  have fits: "\<forall>c \<in> set (agent_probe_clients w). length c \<le> 128 \<and> js_trim c \<noteq> []" "length (agent_probe_clients w) \<le> 100"
    using collect_short [of "[]" 128 "map Str agents" 100] array_again(2) [OF r(2)] web_array_trimmed [of "Arr (map Str agents)"]
      web_readStringArray_ok [of "Arr (map Str agents)"] unfolding w by (auto simp: web_readStringArray_def)
  have xa: "js_get x ''agent_probe_clients'' = Arr (map Str (agent_probe_clients w))" by (simp add: same website_object_def js_get_Cons)
  have agents: "stringArrayField (js_get x ''agent_probe_clients'') (?p ''agent_probe_clients'') 100 = (agent_probe_clients w, [])"
    unfolding xa by (rule array_texts [OF fits])
  have known: "unknown_agents i nodes (agent_probe_clients w) = []"
    by (rule known_again [OF r(3) up(2)]) (use collect_from [of 100 "[]" agents] in \<open>simp add: w web_readStringArray_def\<close>)
  have valid: "validateWebsiteMonitorInput up (AList.update ''agent_probe_clients'' (Arr (map Str (agent_probe_clients w))) x) = Inr w"
  proof (rule website_stable [OF r(4) up(1)])
    fix k assume k: "k \<noteq> ''id''" "k \<noteq> ''sort_order''"
    have "js_get (AList.update ''agent_probe_clients'' (Arr (map Str (agent_probe_clients w))) x) k = js_get x k"
      using xa by (cases "k = ''agent_probe_clients''") (simp_all add: js_get_def update_conv')
    then show "js_get (AList.update ''agent_probe_clients'' (Arr (map Str (agent_probe_clients w))) x) k = js_get (website_object w) k"
      using same [OF k] by simp
  qed
  have "(of_nat (Suc i) :: rat) \<le> of_nat MAX_NOTIFICATIONS" using i by (simp only: of_nat_le_iff Suc_le_eq)
  then have "integerField (Num (Fin so)) (?p ''sort_order'') (of_nat (Suc i)) 0 2147483647 = (so, [])"
    using integer_again_field [OF r(5)] by (simp add: MAX_NOTIFICATIONS_def)
  then show ?thesis
    unfolding validate_website_def Let_def ident prod.case mode agents known valid sum.case x_so using e by (simp add: x)
qed

interpretation tasks: stable_check "stateless (validate_task up)" True for up
proof (rule stateless_check)
  show "snd (validate_task up i item) \<noteq> []" if "fst (validate_task up i item) = None" for i item
    using that by (auto simp: validate_task_def Let_def validatePingTaskInput_def split: prod.splits sum.splits if_splits)
  show "validate_task up i x = (Some x, [])" if "i < MAX_NOTIFICATIONS" "validate_task up i item = (Some x, [])" "id_kept x" for i item x
    using task_again [OF that(2,3,1)] .
qed

interpretation offline: stable_check "stateless validate_offline" True
  by (rule stateless_check) (auto simp: offline_again, simp add: validate_offline_def Let_def split: prod.splits)

interpretation expiry: stable_check "stateless validate_expiry" True
  by (rule stateless_check) (auto simp: expiry_again, simp add: validate_expiry_def Let_def split: prod.splits)

interpretation loads: stable_check "stateless validate_load" True
  by (rule stateless_check) (auto simp: load_again, simp add: validate_load_def Let_def split: prod.splits)

interpretation websites: stable_check "validate_website up nodes" "url_stable up \<and> nodes_trimmed nodes" for up nodes
proof
  show "es \<noteq> []" if "validate_website up nodes s i item = ((None, es), s')" for s i item es s'
    using that by (auto simp: validate_website_def Let_def split: prod.splits sum.splits)
  show "validate_website up nodes s i x = ((Some x, []), s')"
    if "url_stable up \<and> nodes_trimmed nodes" "i < MAX_NOTIFICATIONS" "validate_website up nodes s i item = ((Some x, []), s')" "id_kept x"
    for s i item x s'
    using website_again [OF that(3,4,2)] that(1) by blast
qed

subsection \<open>Modules\<close>

definition part_value :: "jsobj list option \<Rightarrow> jsval" where
  "part_value r = (case r of Some xs \<Rightarrow> Arr (map Obj xs) | None \<Rightarrow> Undef)"

lemma part_again:
  assumes c: "check_part b key n f = (r, [])" and g: "js_get b' key = part_value r"
    and f: "\<And>vs xs. length vs \<le> n \<Longrightarrow> f vs = (xs, []) \<Longrightarrow> r = Some xs \<Longrightarrow> f (map Obj xs) = (xs, []) \<and> length xs = length vs"
  shows "check_part b' key n f = (r, [])"
proof (cases "js_get b key")
  case (Arr items)
  obtain xs es where xs: "f (take n items) = (xs, es)" by (cases "f (take n items)")
  then have r: "r = Some xs" "es = []" "length items \<le> n" using c Arr by (auto simp: check_part_def requireArray_def split: if_splits)
  have "f (map Obj xs) = (xs, []) \<and> length xs = length (take n items)" using f [of "take n items" xs] xs r by simp
  then show ?thesis using g r by (simp add: check_part_def requireArray_def part_value_def)
qed (use c g in \<open>auto simp: check_part_def requireArray_def part_value_def\<close>)

lemma settings_from:
  "list_all P (san_settings acc) \<Longrightarrow> distinct (map fst (san_settings acc)) \<Longrightarrow>
   (\<And>k v s. k \<notin> set REMOVED_SETTING_KEYS \<Longrightarrow> normalizeSettingValue up k v [] = Inr s \<Longrightarrow> P (k, s)) \<Longrightarrow>
   list_all P (san_settings (sanitize_loop up True [] entries acc)) \<and> distinct (map fst (san_settings (sanitize_loop up True [] entries acc)))"
proof (induction entries arbitrary: acc)
  case (Cons e entries)
  obtain k v where e: "e = (k, v)" by (cases e)
  have upd: "list_all P (AList.update k s (san_settings acc))" if "P (k, s)" for s
    using list_all_update [OF Cons(2) that] .
  show ?case
  proof (cases "k \<in> set REMOVED_SETTING_KEYS")
    case True
    then show ?thesis using Cons(1) [of "acc\<lparr>san_ignored := san_ignored acc @ [k]\<rparr>"] Cons(2-4) e by simp
  next
    case False
    show ?thesis
    proof (cases "normalizeSettingValue up k v []")
      case (Inl er)
      then show ?thesis using False Cons(1) [of "acc\<lparr>san_errors := san_errors acc @ [er]\<rparr>"] Cons(2-4) e by simp
    next
      case (Inr s)
      then show ?thesis using False Cons(1) [of "acc\<lparr>san_settings := AList.update k s (san_settings acc)\<rparr>"] Cons(2-4) upd e
        by (simp add: distinct_update)
    qed
  qed
qed simp

lemma settings_again:
  "distinct (map fst (san_settings acc @ ss)) \<Longrightarrow>
   \<forall>(k, s) \<in> set ss. k \<notin> set REMOVED_SETTING_KEYS \<and> normalizeSettingValue up k (Str s) [] = Inr s \<Longrightarrow>
   sanitize_loop up True [] (map (\<lambda>(k, s). (k, Str s)) ss) acc = acc\<lparr>san_settings := san_settings acc @ ss\<rparr>"
proof (induction ss arbitrary: acc)
  case (Cons e ss)
  obtain k s where e: "e = (k, s)" by (cases e)
  have "AList.update k s (san_settings acc) = san_settings acc @ [(k, s)]" using Cons(2) e by (intro update_fresh) auto
  then show ?case using Cons(1) [of "acc\<lparr>san_settings := san_settings acc @ [(k, s)]\<rparr>"] Cons(2,3) e by simp
qed simp

definition settings_value :: "(string \<times> string) list option \<Rightarrow> jsval" where
  "settings_value r = (case r of Some ss \<Rightarrow> Obj (map (\<lambda>(k, s). (k, Str s)) ss) | None \<Rightarrow> Undef)"

definition repository_kept :: "(string \<Rightarrow> url option) \<Rightarrow> (string \<times> string) list option \<Rightarrow> bool" where
  "repository_kept up r \<longleftrightarrow> (case r of None \<Rightarrow> True
     | Some ss \<Rightarrow> list_all (\<lambda>(k, s). k \<noteq> ''update_repository_url'' \<or> normalizeSettingValue up k (Str s) [] = Inr s) ss)"

lemma check_settings_again:
  assumes c: "check_settings up b = (r, [], ws)" and up: "url_stable up" and kept: "repository_kept up r"
    and g: "js_get b' ''settings'' = settings_value r"
  shows "check_settings up b' = (r, [], [])"
proof (cases r)
  case None
  then show ?thesis using g by (simp add: check_settings_def settings_value_def)
next
  case (Some ss)
  then obtain s where "sanitizeSettingsForStorage up (js_get b ''settings'') True [] = (True, s)" "ss = san_settings s"
    using c by (auto simp: check_settings_def sanitizeSettingsForStorage_def Let_def split: if_splits prod.splits jsval.splits)
  then obtain entries where s: "s = sanitize_loop up True [] entries \<lparr>san_settings = [], san_errors = [], san_ignored = []\<rparr>"
    by (auto simp: sanitizeSettingsForStorage_def Let_def split: jsval.splits)
  define P where "P = (\<lambda>(k, s). k \<notin> set REMOVED_SETTING_KEYS \<and> (\<exists>v. normalizeSettingValue up k v [] = Inr s))"
  have "list_all P ss \<and> distinct (map fst ss)"
    unfolding \<open>ss = _\<close> s by (rule settings_from) (auto simp: P_def)
  then have ss: "\<forall>(k, s) \<in> set ss. k \<notin> set REMOVED_SETTING_KEYS \<and> normalizeSettingValue up k (Str s) [] = Inr s" "distinct (map fst ss)"
    using kept Some settings_canonical [OF up] by (fastforce simp: P_def repository_kept_def list_all_iff)+
  show ?thesis using g Some settings_again [OF _ ss(1), of "\<lparr>san_settings = [], san_errors = [], san_ignored = []\<rparr>"] ss(2)
    by (simp add: check_settings_def sanitizeSettingsForStorage_def settings_value_def)
qed

subsection \<open>The whole backup\<close>

lemma text_prop_get: "js_get (text_prop k t @ ys) k' = (if k' = k \<and> t \<noteq> None then Str (the t) else js_get ys k')"
  by (cases t) (auto simp: text_prop_def js_get_Cons)

lemma part_prop_get: "js_get (part_prop k xs @ ys) k' = (if k' = k \<and> xs \<noteq> None then part_value xs else js_get ys k')"
  by (cases xs) (auto simp: part_prop_def part_value_def js_get_Cons)

lemma last_part_get: "js_get (part_prop k xs) k' = (if k' = k then part_value xs else Undef)"
  by (cases xs) (auto simp: part_prop_def part_value_def js_get_def)

lemma settings_prop_get:
  "js_get ((case ss of Some ss \<Rightarrow> [(''settings'', Obj (map (\<lambda>(k, s). (k, Str s)) ss))] | None \<Rightarrow> []) @ ys) k' =
     (if k' = ''settings'' \<and> ss \<noteq> None then settings_value ss else js_get ys k')"
  by (cases ss) (auto simp: settings_value_def js_get_Cons)

lemma backup_object_get:
  "js_get (backup_object h p) ''schema'' = Str (or_text (bh_schema h) BACKUP_SCHEMA_ID)" "js_get (backup_object h p) ''version'' = Str (bh_version h)"
  "js_get (backup_object h p) ''scope'' = Str BACKUP_SCOPE"
  "js_get (backup_object h p) ''timestamp'' = (case bh_timestamp h of Some t \<Rightarrow> Str t | None \<Rightarrow> Undef)"
  "js_get (backup_object h p) ''settings'' = settings_value (bp_settings p)" "js_get (backup_object h p) ''clients'' = part_value (bp_clients p)"
  "js_get (backup_object h p) ''ping_tasks'' = part_value (bp_ping_tasks p)" "js_get (backup_object h p) ''offline_notifications'' = part_value (bp_offline p)"
  "js_get (backup_object h p) ''expiry_notifications'' = part_value (bp_expiry p)" "js_get (backup_object h p) ''load_notifications'' = part_value (bp_load p)"
  "js_get (backup_object h p) ''website_monitors'' = part_value (bp_websites p)"
  unfolding backup_object_def append_Cons append_Nil js_get_Cons text_prop_get settings_prop_get part_prop_get last_part_get
  by (simp_all add: part_value_def settings_value_def split: option.splits)

lemma check_header_again:
  assumes "check_header b = (h, [])"
  obtains h' where "check_header (backup_object h p) = (h', [])" "backup_object h' p = backup_object h p" "header_warnings h' = []"
proof -
  obtain sc ve so ti where t: "textField (js_get b ''schema'') ''schema'' False 64 = (sc, [])" "textField (js_get b ''version'') ''version'' True 32 = (ve, [])"
      "textField (js_get b ''scope'') ''scope'' False 32 = (so, [])" "textField (js_get b ''timestamp'') ''timestamp'' False 64 = (ti, [])"
    and h: "h = \<lparr>bh_schema = sc, bh_version = or_text ve [], bh_scope = so, bh_timestamp = ti\<rparr>"
      "or_text sc [] = [] \<or> or_text sc [] = BACKUP_SCHEMA_ID"
      "or_text ve [] = [] \<or> js_startsWith (or_text ve []) ''1.'' \<or> js_startsWith (or_text ve []) ''2.''"
    using assms by (auto simp: check_header_def Let_def split: prod.splits if_splits)
  obtain v where v: "ve = Some v" "v \<noteq> []" "textField (Str v) ''version'' True 32 = (Some v, [])" using text_required [OF t(2)] by blast
  have schema: "or_text sc BACKUP_SCHEMA_ID = BACKUP_SCHEMA_ID" using h(2) by (cases sc) (auto simp: or_text_def split: if_splits)
  have time: "textField (case ti of Some t \<Rightarrow> Str t | None \<Rightarrow> Undef) ''timestamp'' False 64 = (ti, [])"
    using text_none_again text_some_again t(4) by (cases ti) auto
  define h' where "h' = \<lparr>bh_schema = Some BACKUP_SCHEMA_ID, bh_version = v, bh_scope = Some BACKUP_SCOPE, bh_timestamp = ti\<rparr>"
  have ids: "textField (Str BACKUP_SCHEMA_ID) ''schema'' False 64 = (Some BACKUP_SCHEMA_ID, [])"
      "textField (Str BACKUP_SCOPE) ''scope'' False 32 = (Some BACKUP_SCOPE, [])" "BACKUP_SCHEMA_ID \<noteq> []" "BACKUP_SCOPE \<noteq> []"
    by (simp_all add: textField_def BACKUP_SCHEMA_ID_def BACKUP_SCOPE_def)
  have vt: "or_text ve [] = v" using v by (simp add: or_text_def)
  have "check_header (backup_object h p) = (h', [])"
    unfolding check_header_def backup_object_get h(1) backup_header.select_convs schema time ids(1,2) vt v(3) Let_def prod.case h'_def
    using h(3) v(2) ids(3,4) unfolding vt by (simp add: or_text_def)
  moreover have "or_text (Some BACKUP_SCHEMA_ID) BACKUP_SCHEMA_ID = BACKUP_SCHEMA_ID" by (simp add: or_text_def)
  then have "backup_object h' p = backup_object h p" by (simp add: backup_object_def h'_def h(1) schema vt)
  moreover have "header_warnings h' = []" using ids(3,4) by (simp add: h'_def header_warnings_def or_text_def)
  ultimately show thesis by (rule that)
qed

text \<open>
  What a backup must satisfy to survive a second check: no identifier is 0 (the code turns an empty
  identifier into 0, which it refuses), no node identifier has white space at its ends (agents are
  trimmed before they are looked up), and the repository address is in its final form.
\<close>

definition part_kept :: "jsobj list option \<Rightarrow> bool" where
  "part_kept r = (case r of Some xs \<Rightarrow> list_all id_kept xs | None \<Rightarrow> True)"

definition parts_settled :: "(string \<Rightarrow> url option) \<Rightarrow> backup_parts \<Rightarrow> bool" where
  "parts_settled up p \<longleftrightarrow> part_kept (bp_clients p) \<and> part_kept (bp_ping_tasks p) \<and> part_kept (bp_offline p) \<and> part_kept (bp_expiry p) \<and>
     part_kept (bp_load p) \<and> part_kept (bp_websites p) \<and> repository_kept up (bp_settings p) \<and>
     nodes_trimmed (map_option (map (\<lambda>c. js_get c ''uuid'')) (bp_clients p))"

lemma module_sizes: "MAX_CLIENTS \<le> MAX_NOTIFICATIONS" "MAX_PING_TASKS \<le> MAX_NOTIFICATIONS" "MAX_WEBSITE_MONITORS \<le> MAX_NOTIFICATIONS"
  by (simp_all add: MAX_CLIENTS_def MAX_PING_TASKS_def MAX_WEBSITE_MONITORS_def MAX_NOTIFICATIONS_def)

lemma modules_again:
  "length vs \<le> MAX_CLIENTS \<Longrightarrow> validateClients vs = (xs, []) \<Longrightarrow> list_all id_kept xs \<Longrightarrow> validateClients (map Obj xs) = (xs, []) \<and> length xs = length vs"
  "length vs \<le> MAX_PING_TASKS \<Longrightarrow> validatePingTasks up vs = (xs, []) \<Longrightarrow> list_all id_kept xs \<Longrightarrow>
     validatePingTasks up (map Obj xs) = (xs, []) \<and> length xs = length vs"
  "length vs \<le> MAX_NOTIFICATIONS \<Longrightarrow> validateOfflineNotifications vs = (xs, []) \<Longrightarrow> list_all id_kept xs \<Longrightarrow>
     validateOfflineNotifications (map Obj xs) = (xs, []) \<and> length xs = length vs"
  "length vs \<le> MAX_NOTIFICATIONS \<Longrightarrow> validateExpiryNotifications vs = (xs, []) \<Longrightarrow> list_all id_kept xs \<Longrightarrow>
     validateExpiryNotifications (map Obj xs) = (xs, []) \<and> length xs = length vs"
  "length vs \<le> MAX_NOTIFICATIONS \<Longrightarrow> validateLoadNotifications vs = (xs, []) \<Longrightarrow> list_all id_kept xs \<Longrightarrow>
     validateLoadNotifications (map Obj xs) = (xs, []) \<and> length xs = length vs"
  "length vs \<le> MAX_WEBSITE_MONITORS \<Longrightarrow> validateWebsiteMonitors up vs cs = (xs, []) \<Longrightarrow> list_all id_kept xs \<Longrightarrow>
     url_stable up \<and> nodes_trimmed (map_option (map (\<lambda>c. js_get c ''uuid'')) cs) \<Longrightarrow>
     validateWebsiteMonitors up (map Obj xs) cs = (xs, []) \<and> length xs = length vs"
  unfolding validateClients_def validatePingTasks_def validateOfflineNotifications_def validateExpiryNotifications_def
    validateLoadNotifications_def validateWebsiteMonitors_def
  by (rule clients.whole_again [OF TrueI module_sizes(1)] tasks.whole_again [OF TrueI module_sizes(2)] offline.whole_again [OF TrueI order_refl]
      expiry.whole_again [OF TrueI order_refl] loads.whole_again [OF TrueI order_refl] websites.whole_again [OF _ module_sizes(3)]; assumption)+

lemma check_parts_again:
  assumes c: "check_parts up b = ((p, ws), [])" and up: "url_stable up" and s: "parts_settled up p"
  shows "check_parts up (backup_object h p) = ((p, []), [])"
proof -
  let ?b = "backup_object h p"
  have parts: "check_settings up b = (bp_settings p, [], ws)" "check_part b ''clients'' MAX_CLIENTS validateClients = (bp_clients p, [])"
      "check_part b ''ping_tasks'' MAX_PING_TASKS (validatePingTasks up) = (bp_ping_tasks p, [])"
      "check_part b ''offline_notifications'' MAX_NOTIFICATIONS validateOfflineNotifications = (bp_offline p, [])"
      "check_part b ''expiry_notifications'' MAX_NOTIFICATIONS validateExpiryNotifications = (bp_expiry p, [])"
      "check_part b ''load_notifications'' MAX_NOTIFICATIONS validateLoadNotifications = (bp_load p, [])"
      "check_part b ''website_monitors'' MAX_WEBSITE_MONITORS (\<lambda>vs. validateWebsiteMonitors up vs (bp_clients p)) = (bp_websites p, [])"
      "\<not> no_parts p"
    using c by (auto simp: check_parts_def Let_def split: prod.splits if_splits)
  note k = s [unfolded parts_settled_def part_kept_def]
  have "check_settings up ?b = (bp_settings p, [], [])"
    by (rule check_settings_again [OF parts(1) up _ backup_object_get(5)]) (use k in blast)
  moreover have "check_part ?b ''clients'' MAX_CLIENTS validateClients = (bp_clients p, [])"
    by (rule part_again [OF parts(2) backup_object_get(6)]) (use k modules_again(1) in simp)
  moreover have "check_part ?b ''ping_tasks'' MAX_PING_TASKS (validatePingTasks up) = (bp_ping_tasks p, [])"
    by (rule part_again [OF parts(3) backup_object_get(7)]) (use k modules_again(2) in simp)
  moreover have "check_part ?b ''offline_notifications'' MAX_NOTIFICATIONS validateOfflineNotifications = (bp_offline p, [])"
    by (rule part_again [OF parts(4) backup_object_get(8)]) (use k modules_again(3) in simp)
  moreover have "check_part ?b ''expiry_notifications'' MAX_NOTIFICATIONS validateExpiryNotifications = (bp_expiry p, [])"
    by (rule part_again [OF parts(5) backup_object_get(9)]) (use k modules_again(4) in simp)
  moreover have "check_part ?b ''load_notifications'' MAX_NOTIFICATIONS validateLoadNotifications = (bp_load p, [])"
    by (rule part_again [OF parts(6) backup_object_get(10)]) (use k modules_again(5) in simp)
  moreover have "check_part ?b ''website_monitors'' MAX_WEBSITE_MONITORS (\<lambda>vs. validateWebsiteMonitors up vs (bp_clients p)) = (bp_websites p, [])"
    by (rule part_again [OF parts(7) backup_object_get(11)]) (use k up modules_again(6) in simp)
  ultimately show ?thesis using parts(8) by (simp add: check_parts_def Let_def no_parts_def)
qed

definition backup_settled :: "(string \<Rightarrow> url option) \<Rightarrow> jsobj \<Rightarrow> bool" where
  "backup_settled up b \<longleftrightarrow> parts_settled up (fst (fst (check_parts up b)))"

lemma validate_backup_again:
  assumes v: "validateBackup up (Obj b) = Inr (v, ws)" and up: "url_stable up" and s: "backup_settled up b"
  shows "validateBackup up (Obj v) = Inr (v, [])"
proof -
  obtain h p ws' where c: "check_header b = (h, [])" "check_parts up b = ((p, ws'), [])" "v = backup_object h p"
    using v by (auto simp: validateBackup_def Let_def split: prod.splits if_splits)
  obtain h' where h: "check_header v = (h', [])" "backup_object h' p = v" "header_warnings h' = []"
    using check_header_again [OF c(1), of p] c(3) by metis
  have "check_parts up v = ((p, []), [])" using check_parts_again [OF c(2) up] s c(2,3) by (simp add: backup_settled_def)
  then show ?thesis using h by (simp add: validateBackup_def)
qed

subsection \<open>Sealing and opening\<close>

text \<open>The cipher is authenticated: it opens what was sealed, and only under the same key and nonce.\<close>

definition backup_crypto_ok :: "backup_crypto \<Rightarrow> bool" where
  "backup_crypto_ok cr \<longleftrightarrow> (\<forall>k iv m. bc_decrypt cr k iv (bc_encrypt cr k iv m) = Some m \<and> bc_encrypt cr k iv m \<noteq> []) \<and>
     (\<forall>k k' iv m. k \<noteq> k' \<longrightarrow> bc_decrypt cr k' iv (bc_encrypt cr k iv m) = None)"

lemma decrypt_sealed:
  assumes "backupPasswordError password MIN_BACKUP_DECRYPT_PASSWORD_BYTES = None" "length salt = BACKUP_SALT_BYTES" "length iv = BACKUP_IV_BYTES"
    "c \<noteq> []"
  shows "decryptBackup cr up (Obj (sealed_object ts salt iv c)) password = open_backup cr up password salt iv BACKUP_KDF_ITERATIONS c"
  using assms by (simp add: decryptBackup_def sealed_object_def js_get_Cons bytes_field_def atob_b64_encode BACKUP_KDF_ITERATIONS_def rat_is_int_def Let_def)


definition sample_cipher :: backup_crypto where
  "sample_cipher = \<lparr>bc_derive = (\<lambda>pw salt n. pw), bc_encrypt = (\<lambda>k iv m. replicate (length k) 1 @ [0] @ k @ m),
     bc_decrypt = (\<lambda>k iv c. let n = length (takeWhile (\<lambda>x. x = 1) c)
       in if take n (drop (Suc n) c) = k then Some (drop (Suc n + n) c) else None)\<rparr>"

lemma sample_cipher_ok: "backup_crypto_ok sample_cipher"
proof -
  have "takeWhile (\<lambda>x. x = 1) (replicate (length k) 1 @ [0] @ k @ m) = replicate (length k) (1 :: byte)" for k m
    by (subst takeWhile_append2) simp_all
  then show ?thesis by (auto simp: backup_crypto_ok_def sample_cipher_def Let_def)
qed

definition sample_backup :: jsobj where
  "sample_backup = [(''version'', Str ''2.0.0''), (''clients'', Arr [])]"

definition sample_parts :: backup_parts where
  "sample_parts = \<lparr>bp_settings = None, bp_clients = Some [], bp_ping_tasks = None, bp_offline = None, bp_expiry = None, bp_load = None, bp_websites = None\<rparr>"

definition sample_header :: backup_header where
  "sample_header = \<lparr>bh_schema = None, bh_version = ''2.0.0'', bh_scope = None, bh_timestamp = None\<rparr>"

lemma sample_checked:
  "check_parts up sample_backup = ((sample_parts, []), [])" "check_header sample_backup = (sample_header, [])"
proof -
  have "js_trim ''2.0.0'' = ''2.0.0''" by (rule js_trim_simple) (simp add: cc_def)
  then show "check_header sample_backup = (sample_header, [])"
    by (simp add: check_header_def sample_backup_def sample_header_def js_get_Cons js_get_def textField_def or_text_def js_startsWith_def)
  show "check_parts up sample_backup = ((sample_parts, []), [])"
    by (simp add: check_parts_def sample_backup_def sample_parts_def js_get_Cons js_get_def check_settings_def check_part_def requireArray_def
        validateClients_def no_parts_def)
qed


text \<open>
  An identifier that is \<open>null\<close> or the empty text passes the check as 0, which the next check refuses:
  such a backup can be sealed but not opened.
\<close>

lemma empty_id_not_settled:
  "optional_id part i [(''id'', Null)] = (Some 0, []) \<and> optional_id part i [(''id'', Num (Fin 0))] = (Some 0, [(field_path part i ''id'', OutOfBounds)])"
  by (simp add: optional_id_def integerField_def bk_numberField_def js_get_def rat_is_int_def)

end
