(* ===== verification/Spec2Isabelle.thy ===== *)
theory Spec2Isabelle
  imports RateLimit Totp Password AuthTokens AdminSession Mfa ViewerToken PingTask ScheduledBudget WebsiteMonitor ClientInput
    SettingsSchema MonitorReport ClientSync PingPersist OfflineAlerts ReportSafety WebsiteRecheck LoginFlow NotificationDispatch ThemeRoutes BackupRoundtrip
begin

text \<open>
  CF VPS Monitor is a server monitoring panel. Agents on the monitored machines report to a worker on
  Cloudflare Workers (\<open>src/worker/src\<close>); the worker keeps live state in Durable Objects and history in
  a Postgres database behind Supabase, shows nodes to viewers, and sends alerts. This development
  models the logic of the worker: 42 theories, each a translation of named source files.

  \<^bold>\<open>How the parts interact.\<close> A request reaches a route. Login routes check a password and a second
  factor and hand out tokens; agent routes hand reports to the live-data Durable Object, which
  authenticates the agent, normalises the report, keeps the last state of every node, decides what
  becomes history, and tells viewers. A scheduled run asks the object which nodes are offline, probes
  websites within a request budget and sends notifications over mail, Telegram or a webhook.
  Administrators change clients, settings, tasks, themes and backups; every change of a node is
  announced to the object by a synchronisation message.

  \<^bold>\<open>Foundations.\<close> \<open>JsPrelude\<close> is the part of ECMAScript the code uses: numbers (exact rationals with NaN
  and the infinities), untyped values, conversions, trimming and splitting. \<open>JsBytes\<close> has bytes, UTF-8
  and base64, \<open>JsJson\<close> a JSON printer and parser with their round trip and the locales \<open>codec\<close> and
  \<open>codec_chain\<close>, \<open>DoStorage\<close> the transactional storage of a Durable Object as a locale with its laws.

  \<^bold>\<open>Requests and authentication.\<close>
  \<^item> \<open>RateLimit\<close> (\<open>do/rate-limit.ts\<close>): the window is exact, the object refines a map of live counters,
    the number of counters is bounded.
  \<^item> \<open>Totp\<close>, \<open>Password\<close>, \<open>AuthTokens\<close>, \<open>AdminSession\<close>, \<open>Mfa\<close>, \<open>ViewerToken\<close> (\<open>auth/*.ts\<close>,
    \<open>db/auth-confirmation.ts\<close>): codes of three time steps and no others; stored hashes; tokens of
    different kinds never mix; a cached session is at most ten seconds and one read old; a factor is
    confirmed only by the database; viewer tokens are bound to address and expiry.
  \<^item> \<open>LoginLimits\<close>, \<open>LoginFlow\<close> (\<open>routes/public.ts\<close>, \<open>utils/request-body.ts\<close>, two stored procedures): a
    session is issued only for a right password and, where one is set, a right second factor, and the
    locale \<open>guess_limit\<close>, interpreted for both steps, bounds the guesses in any period.

  \<^bold>\<open>Input.\<close>
  \<^item> \<open>PingTask\<close>, \<open>WebsiteMonitor\<close>, \<open>ClientInput\<close>, \<open>SettingsSchema\<close>, \<open>MonitorReport\<close> (\<open>utils/ping-task.ts\<close>,
    \<open>ping-result.ts\<close>, \<open>website-monitor.ts\<close>, \<open>client.ts\<close>, \<open>monitor-report.ts\<close> and relatives,
    \<open>settings/schema.ts\<close>): accepted values are within their types and bounds, targets are public,
    public views contain only public data.
  \<^item> \<open>ThemePackage\<close>, \<open>ThemeRoutes\<close> (\<open>utils/theme-package.ts\<close>, \<open>routes/theme.ts\<close>, the theme procedures): an
    accepted archive is safe to store and serve, and after any sequence of requests the tables are
    consistent and the active style sheet is served from its exact bytes.
  \<^item> \<open>Backup\<close>, \<open>BackupRoundtrip\<close> (\<open>utils/backup.ts\<close>): every check is idempotent (locale \<open>stable_check\<close>,
    interpreted for the six modules), so a sealed backup opens to what was checked.

  \<^bold>\<open>The live-data Durable Object\<close> (\<open>do/live-data.ts\<close>), one theory per group of its methods:
  \<^item> \<open>AgentAuth\<close>, \<open>AdminClients\<close>: agent credentials and the management row; a concurrent cache write
    loses no update.
  \<^item> \<open>LiveData\<close>, \<open>LiveSessions\<close>, \<open>ClientSync\<close>: snapshots and broadcasts, WebSocket sessions and their
    limits, removal and synchronisation; hidden nodes do not influence the public snapshot, removed
    nodes stay away, and messages converge to the newest revision in whatever order they arrive.
  \<^item> \<open>RecordPersist\<close>, \<open>HistoryCapacity\<close>, \<open>PingPersist\<close>: which reports and ping results become rows, how
    often, and how the size limit closes and opens the writer.
  \<^item> \<open>ReportNetwork\<close>, \<open>ReportFlow\<close>, \<open>ReportSafety\<close>: the path of a report. Each await is a step boundary,
    and other handlers run between the steps; a report that was in flight when its node was removed
    changes nothing, and an undisturbed report is shown.
  \<^item> \<open>AgentPolicy\<close>, \<open>WebsiteRecheck\<close>, \<open>OfflineLiveness\<close>: what an agent is told to do, second opinions on a
    website outage, and verdicts on nodes.

  \<^bold>\<open>Scheduled work and notifications.\<close> \<open>ScheduledBudget\<close> (\<open>utils/scheduled-budget.ts\<close>, cursors of
  \<open>index.ts\<close>), \<open>OfflineAlerts\<close> (\<open>runOfflineCheck\<close> of \<open>index.ts\<close>, \<open>utils/offline-notification.ts\<close>), \<open>Webhook\<close>,
  \<open>EmailSmtp\<close>, \<open>NotificationDispatch\<close> (\<open>utils/webhook.ts\<close>, \<open>email.ts\<close>, \<open>telegram.ts\<close>, \<open>secret-preview.ts\<close>,
  \<open>notification-dispatch.ts\<close>): the reserve of a run is kept, alerts alternate and are confirmed, a
  webhook is accepted at most once, the mail dialogue follows its script with secrets only on a secure
  connection, and a recorded delivery happened.

  \<^bold>\<open>Conventions.\<close> A class or module with state is a record, a handler a function from the request and the
  state to the state and the answer, an exception a value of a sum type. Code outside the
  repository (cryptography, the JWT library, the URL parser, the archive library, fetch and
  sockets) and answers of the database are arguments; what is assumed of them is a named predicate
  (\<open>url_stable\<close>, \<open>crypto_ok\<close>, \<open>backup_crypto_ok\<close> and the like) that a witness satisfies with a concrete
  function. Strings are Latin-1, numbers exact; a message in Chinese is a constructor. The clock is
  read once per operation and passed in. Loops are structural; the JSON parser and printer have fuel
  or bounds that their round-trip lemmas show to be enough (400 decimals for a printed number). Login
  and theme requests are handled one after the other.

  \<^bold>\<open>Not modelled.\<close> The handlers of \<open>routes/admin.ts\<close>, \<open>client.ts\<close>, \<open>setup.ts\<close> and \<open>websocket.ts\<close> and the
  rest of \<open>routes/public.ts\<close> compose modelled validators with database calls and response objects; the
  wrappers of \<open>do/live-data.ts\<close> around WebSocket and HTTP input are of the same kind. \<open>db/*\<close> forwards to
  stored procedures, which are SQL and modelled only where a theorem needs them (login failures,
  themes). In \<open>index.ts\<close> the load, expiry and cleanup jobs are left out. Message templates in Chinese,
  observability counters and setup diagnostics only format text. Generated code, the React front end
  and the agent (Go) are outside the scope.
\<close>

end
